(* ===== verification/Prelude.thy ===== *)
theory Prelude
  imports Main "HOL-Library.Word" "HOL-Library.AList"
begin

text \<open>
  Shared vocabulary of the development: the fact collections the components
  register their definitions in, and generic lemmas on lists of optional
  slots, filtered searches and machine words that several components use.
\<close>

unbundle bit_operations_syntax

named_theorems lux_defs \<open>definitions the component proofs unfold\<close>
named_theorems lux_simps \<open>computed projections of the component operations\<close>

type_synonym u8 = "8 word"
type_synonym u16 = "16 word"
type_synonym u32 = "32 word"
type_synonym u64 = "64 word"

text \<open>A flag test in the C style: some bit of the mask is set in the word.\<close>

definition has_flag :: "'a::len word \<Rightarrow> 'a word \<Rightarrow> bool" where
  "has_flag w m \<longleftrightarrow> w AND m \<noteq> 0"

section \<open>Lists of optional slots\<close>

definition count_some :: "'a option list \<Rightarrow> nat" where
  "count_some xs = length (filter (\<lambda>x. x \<noteq> None) xs)"

lemma count_some_simps [simp]:
  "count_some [] = 0"
  "count_some (None # xs) = count_some xs"
  "count_some (Some y # xs) = Suc (count_some xs)"
  "count_some (xs @ ys) = count_some xs + count_some ys"
  "count_some (replicate n None) = 0"
  by (simp_all add: count_some_def)

lemma count_some_update:
  assumes "i < length xs"
  shows "count_some (xs[i := x]) + (if xs ! i = None then 0 else 1)
       = count_some xs + (if x = None then 0 else 1)"
  using assms
proof (induction xs arbitrary: i)
  case Nil
  then show ?case by simp
next
  case (Cons y ys)
  show ?case
  proof (cases i)
    case 0
    then show ?thesis by (cases y; cases x) auto
  next
    case (Suc j)
    then have "count_some (ys[j := x]) + (if ys ! j = None then 0 else 1)
             = count_some ys + (if x = None then 0 else 1)"
      using Cons by simp
    with Suc show ?thesis by (cases y) (auto split: if_splits)
  qed
qed

lemma count_some_zero: "count_some xs = 0 \<longleftrightarrow> (\<forall>x\<in>set xs. x = None)"
  by (simp add: count_some_def filter_empty_conv)

lemma count_some_pos: "0 < count_some xs \<longleftrightarrow> (\<exists>i<length xs. xs ! i \<noteq> None)"
proof -
  have "0 < count_some xs \<longleftrightarrow> (\<exists>x\<in>set xs. x \<noteq> None)"
    using count_some_zero [of xs] by auto
  also have "\<dots> \<longleftrightarrow> (\<exists>i<length xs. xs ! i \<noteq> None)"
    by (metis in_set_conv_nth)
  finally show ?thesis .
qed

lemma count_some_all_none: "(\<And>x. x \<in> set xs \<Longrightarrow> x = None) \<Longrightarrow> count_some xs = 0"
  using count_some_zero by blast

section \<open>First element satisfying a test\<close>

lemma find_Some_iff_filter:
  "List.find P xs = Some x \<longleftrightarrow> (\<exists>ys. filter P xs = x # ys)"
  by (induction xs) auto

lemma find_None_conv: "List.find P xs = None \<longleftrightarrow> (\<forall>x\<in>set xs. \<not> P x)"
  by (auto simp: find_None_iff)

lemma find_SomeD: "List.find P xs = Some x \<Longrightarrow> x \<in> set xs \<and> P x"
  by (auto simp: find_Some_iff)

section \<open>Words\<close>

lemma unat_diff_le: "b \<le> a \<Longrightarrow> unat (a - b) = unat a - unat (b :: 'a::len word)"
  by (rule unat_sub)

lemma word_add_cancel_diff [simp]: "(a :: 'a::len word) + (b - a) = b"
  by simp

lemma unat_add_noof:
  fixes a b :: "'a::len word"
  assumes "unat a + unat b < 2 ^ LENGTH('a)"
  shows "unat (a + b) = unat a + unat b"
  using assms by (simp add: unat_add_lem)

lemma unat_ucast_up:
  fixes w :: "'a::len word"
  assumes "LENGTH('a) \<le> LENGTH('b::len)"
  shows "unat (ucast w :: 'b word) = unat w"
proof -
  have "unat w < 2 ^ LENGTH('a)" by (rule unsigned_less)
  also have "(2::nat) ^ LENGTH('a) \<le> 2 ^ LENGTH('b)" using assms by simp
  finally show ?thesis by (simp add: unsigned_ucast_eq take_bit_nat_eq_self)
qed

section \<open>Stores addressed by keys\<close>

text \<open>
  The contract a keyed container promises its clients: every operation keeps
  the representation invariant and acts on the abstract map as an update. The
  lemmas of the locale are what a client that registers and removes entries
  uses; the offset map provides the interface.
\<close>

datatype ('k, 'v) store_op = Put 'k 'v | Del 'k

fun store_effect :: "('k, 'v) store_op \<Rightarrow> ('k \<rightharpoonup> 'v) \<Rightarrow> 'k \<rightharpoonup> 'v" where
  "store_effect (Put k v) f = f(k \<mapsto> v)"
| "store_effect (Del k) f = f(k := None)"

fun store_op_key :: "('k, 'v) store_op \<Rightarrow> 'k" where
  "store_op_key (Put k v) = k"
| "store_op_key (Del k) = k"

locale keyed_store =
  fixes inv :: "'s \<Rightarrow> bool"
    and lookup :: "'s \<Rightarrow> 'k \<Rightarrow> 'v option"
    and fresh :: 's
    and put :: "'k \<Rightarrow> 'v \<Rightarrow> 's \<Rightarrow> 's"
    and del :: "'k \<Rightarrow> 's \<Rightarrow> 's"
  assumes fresh_inv: "inv fresh"
    and fresh_lookup: "lookup fresh k = None"
    and put_inv: "inv s \<Longrightarrow> inv (put k v s)"
    and put_lookup: "inv s \<Longrightarrow> lookup (put k v s) = (lookup s)(k \<mapsto> v)"
    and del_inv: "inv s \<Longrightarrow> inv (del k s)"
    and del_lookup: "inv s \<Longrightarrow> lookup (del k s) = (lookup s)(k := None)"
begin

definition exec :: "('k, 'v) store_op \<Rightarrow> 's \<Rightarrow> 's" where
  "exec op s = (case op of Put k v \<Rightarrow> put k v s | Del k \<Rightarrow> del k s)"

lemma exec_step: "inv s \<Longrightarrow> inv (exec op s) \<and> lookup (exec op s) = store_effect op (lookup s)"
  by (cases op) (simp_all add: exec_def put_inv put_lookup del_inv del_lookup)

lemma exec_script:
  "inv s \<Longrightarrow> inv (fold exec ops s) \<and> lookup (fold exec ops s) = fold store_effect ops (lookup s)"
  by (induction ops arbitrary: s) (simp_all add: exec_step)

lemma exec_other_key:
  assumes "inv s" "\<forall>op\<in>set ops. store_op_key op \<noteq> k"
  shows "lookup (fold exec ops s) k = lookup s k"
  using assms
proof (induction ops arbitrary: s)
  case (Cons op ops)
  then show ?case using exec_step [of s op] by (cases op) auto
qed simp

lemma del_after_put: "inv s \<Longrightarrow> lookup (del k (put k v s)) = (lookup s)(k := None)"
  by (simp add: put_inv put_lookup del_lookup)

end

end
