(* ===== verification/Wire.thy ===== *)
theory Wire
  imports Prelude
begin

text \<open>
  The vocabulary the server takes from the protocol library, which is not part
  of this repository. Protocol values (\<^theory_text>\<open>ser::Value\<close>) are a type parameter
  \<^theory_text>\<open>'v\<close> with the injections and the typed accessors the server calls, collected
  in a record of operations; the enumerators the server names
  (\<^theory_text>\<open>GameFlags\<close>, \<^theory_text>\<open>ErrorCodes\<close>, \<^theory_text>\<open>ReceiverGroup\<close>, property keys) are fields of a
  record of constants. Both are arguments of every definition that uses them.
  The laws the server relies on are the predicates \<^theory_text>\<open>value_laws\<close> and
  \<^theory_text>\<open>codes_laws\<close>; an instance that satisfies them closes the section.
\<close>

section \<open>Values\<close>

type_synonym ('k, 'v) assoc = "('k \<times> 'v) list"

record 'v value_ops =
  v_null :: 'v
  v_of_u8 :: "u8 \<Rightarrow> 'v"
  v_of_bool :: "bool \<Rightarrow> 'v"
  v_of_i32 :: "int \<Rightarrow> 'v"
  v_of_string :: "string \<Rightarrow> 'v"
  v_of_strings :: "string list \<Rightarrow> 'v"
  v_of_hash :: "('v, 'v) assoc \<Rightarrow> 'v"
  v_u8 :: "'v \<Rightarrow> u8 option"
  v_bool :: "'v \<Rightarrow> bool option"
  v_i32 :: "'v \<Rightarrow> int option"
  v_string :: "'v \<Rightarrow> string option"
  v_strings :: "'v \<Rightarrow> string list option"
  v_hash :: "'v \<Rightarrow> ('v, 'v) assoc option"

definition value_laws :: "'v value_ops \<Rightarrow> bool" where
  "value_laws vo \<longleftrightarrow>
     (\<forall>x. v_u8 vo (v_of_u8 vo x) = Some x) \<and> (\<forall>x. v_bool vo (v_of_bool vo x) = Some x)
   \<and> (\<forall>x. v_i32 vo (v_of_i32 vo x) = Some x) \<and> (\<forall>x. v_string vo (v_of_string vo x) = Some x)
   \<and> (\<forall>x. v_strings vo (v_of_strings vo x) = Some x) \<and> (\<forall>x. v_hash vo (v_of_hash vo x) = Some x)
   \<and> (\<forall>v x. v_u8 vo v = Some x \<longrightarrow> v = v_of_u8 vo x)
   \<and> (\<forall>v x. v_bool vo v = Some x \<longrightarrow> v = v_of_bool vo x)
   \<and> (\<forall>v x. v_i32 vo v = Some x \<longrightarrow> v = v_of_i32 vo x)
   \<and> (\<forall>v x. v_strings vo v = Some x \<longrightarrow> v = v_of_strings vo x)
   \<and> v_u8 vo (v_null vo) = None"

text \<open>
  \<^theory_text>\<open>ser::Hashtable\<close> and \<^theory_text>\<open>ser::Dictionary\<close> are used as associative containers:
  lookup, overwrite, erase and iteration over the entries. They are kept as
  association lists with distinct keys in iteration order.
\<close>

definition ht_put :: "('k, 'v) assoc \<Rightarrow> 'k \<Rightarrow> 'v \<Rightarrow> ('k, 'v) assoc" where
  "ht_put h k v = AList.update k v h"

definition ht_erase :: "('k, 'v) assoc \<Rightarrow> 'k \<Rightarrow> ('k, 'v) assoc" where
  "ht_erase h k = AList.delete k h"

definition ht_contains :: "('k, 'v) assoc \<Rightarrow> 'k \<Rightarrow> bool" where
  "ht_contains h k \<longleftrightarrow> map_of h k \<noteq> None"

text \<open>\<^theory_text>\<open>emplace\<close> keeps an entry that is already there.\<close>

definition ht_emplace :: "('k, 'v) assoc \<Rightarrow> 'k \<Rightarrow> 'v \<Rightarrow> ('k, 'v) assoc" where
  "ht_emplace h k v = (if ht_contains h k then h else ht_put h k v)"

lemma ht_put_lookup [simp]: "map_of (ht_put h k v) = (map_of h)(k \<mapsto> v)"
  by (simp add: ht_put_def update_conv')

lemma ht_erase_lookup [simp]: "map_of (ht_erase h k) = (map_of h)(k := None)"
  by (simp add: ht_erase_def delete_conv')

lemma ht_emplace_lookup [simp]:
  "map_of (ht_emplace h k v) = (if ht_contains h k then map_of h else (map_of h)(k \<mapsto> v))"
  by (simp add: ht_emplace_def)

lemma ht_put_distinct [intro]: "distinct (map fst h) \<Longrightarrow> distinct (map fst (ht_put h k v))"
  by (simp add: ht_put_def distinct_update)

lemma ht_erase_distinct [intro]: "distinct (map fst h) \<Longrightarrow> distinct (map fst (ht_erase h k))"
  by (simp add: ht_erase_def distinct_delete)

lemma ht_erase_absent: "map_of h k = None \<Longrightarrow> ht_erase h k = h"
  by (simp add: ht_erase_def delete_idem map_of_eq_None_iff)

section \<open>Named constants of the protocol\<close>

record wire_codes =
  f_CheckUserOnJoin :: u8
  f_DeleteCacheOnLeave :: u8
  f_PublishUserId :: u8
  f_DeleteNullProps :: u8
  f_BroadcastPropsChangeToAll :: u8
  ap_UserId :: u8
  gp_MaxPlayers :: u8
  gp_IsVisible :: u8
  gp_IsOpen :: u8
  gp_PlayerTTL :: u8
  gp_EmptyGameTTL :: u8
  gp_MasterClientId :: u8
  gp_LobbyProperties :: u8
  gp_PlayerCount :: u8
  rg_Others :: u8
  rg_All :: u8
  rg_MasterClient :: u8
  ec_PropertiesUpdate :: u8
  dk_TargetActorNo :: u8
  dk_Properties :: u8
  dk_ActorNo :: u8
  dk_Data :: u8
  dk_GameId :: u8
  dk_Address :: u8
  dk_LobbyName :: u8
  dk_LobbyType :: u8
  dk_ApplicationId :: u8
  dk_AppVersion :: u8
  err_Ok :: int
  err_GameIdNotExists :: int
  err_GameIdAlreadyExists :: int
  err_GameClosed :: int
  err_GameFull :: int
  err_ActorListFull :: int
  err_PeerAlreadyJoined :: int
  err_ServerFull :: int
  dm_Reliable :: u8
  n_protocols :: nat

text \<open>
  The property keys are distinct enumerators, and so are the receiver groups
  and the flags; an error code is never the success code.
\<close>

definition well_known_keys :: "wire_codes \<Rightarrow> u8 list" where
  "well_known_keys wc = [gp_MaxPlayers wc, gp_IsVisible wc, gp_IsOpen wc, gp_PlayerTTL wc,
     gp_EmptyGameTTL wc, gp_MasterClientId wc, gp_LobbyProperties wc, gp_PlayerCount wc]"

definition codes_laws :: "wire_codes \<Rightarrow> bool" where
  "codes_laws wc \<longleftrightarrow> distinct (well_known_keys wc)
     \<and> distinct [rg_Others wc, rg_All wc, rg_MasterClient wc]
     \<and> err_Ok wc \<notin> {err_GameIdNotExists wc, err_GameIdAlreadyExists wc, err_GameClosed wc,
          err_GameFull wc, err_ActorListFull wc, err_PeerAlreadyJoined wc, err_ServerFull wc}"

section \<open>An instance of the parameters\<close>

text \<open>
  The instance the witnesses evaluate on. It stands for no code: it shows that
  the laws can hold together.
\<close>

datatype sample_value = SNull | SU8 u8 | SBool bool | SI32 int | SString string | SStrings "string list"
  | SHash "(sample_value \<times> sample_value) list"

definition sample_ops :: "sample_value value_ops" where
  "sample_ops = \<lparr> v_null = SNull, v_of_u8 = SU8, v_of_bool = SBool, v_of_i32 = SI32,
     v_of_string = SString, v_of_strings = SStrings, v_of_hash = SHash,
     v_u8 = (\<lambda>v. case v of SU8 x \<Rightarrow> Some x | _ \<Rightarrow> None),
     v_bool = (\<lambda>v. case v of SBool x \<Rightarrow> Some x | _ \<Rightarrow> None),
     v_i32 = (\<lambda>v. case v of SI32 x \<Rightarrow> Some x | _ \<Rightarrow> None),
     v_string = (\<lambda>v. case v of SString x \<Rightarrow> Some x | _ \<Rightarrow> None),
     v_strings = (\<lambda>v. case v of SStrings x \<Rightarrow> Some x | _ \<Rightarrow> None),
     v_hash = (\<lambda>v. case v of SHash x \<Rightarrow> Some x | _ \<Rightarrow> None) \<rparr>"

definition sample_codes :: wire_codes where
  "sample_codes = \<lparr> f_CheckUserOnJoin = 1, f_DeleteCacheOnLeave = 2, f_PublishUserId = 4,
     f_DeleteNullProps = 8, f_BroadcastPropsChangeToAll = 16, ap_UserId = 20,
     gp_MaxPlayers = 1, gp_IsVisible = 2, gp_IsOpen = 3, gp_PlayerTTL = 4, gp_EmptyGameTTL = 5,
     gp_MasterClientId = 6, gp_LobbyProperties = 7, gp_PlayerCount = 8,
     rg_Others = 0, rg_All = 1, rg_MasterClient = 2, ec_PropertiesUpdate = 100,
     dk_TargetActorNo = 1, dk_Properties = 2, dk_ActorNo = 3, dk_Data = 4, dk_GameId = 5,
     dk_Address = 6, dk_LobbyName = 7, dk_LobbyType = 8, dk_ApplicationId = 9, dk_AppVersion = 10,
     err_Ok = 0, err_GameIdNotExists = 1, err_GameIdAlreadyExists = 2, err_GameClosed = 3,
     err_GameFull = 4, err_ActorListFull = 5, err_PeerAlreadyJoined = 6, err_ServerFull = 7,
     dm_Reliable = 2, n_protocols = 2 \<rparr>"

lemma sample_ops_laws: "value_laws sample_ops"
  by (simp add: value_laws_def sample_ops_def split: sample_value.splits)

lemma sample_codes_laws: "codes_laws sample_codes"
  by (simp add: codes_laws_def sample_codes_def well_known_keys_def)

end
