(* ===== verification/GameState.thy ===== *)
theory GameState
  imports Wire
begin

text \<open>
  The state of a room: \<^theory_text>\<open>struct Game\<close>, \<^theory_text>\<open>struct GamePeer\<close>, \<^theory_text>\<open>struct Event\<close> and
  \<^theory_text>\<open>struct InterestGroups\<close> of include/luxon/server/game.hpp, and the lookups of
  src/game.cpp on its member list. Shared objects live in a store of live
  peers: a \<^theory_text>\<open>weak_ptr\<close> is a reference that \<^theory_text>\<open>lock()\<close> resolves while the store
  still holds it. Actor numbers and the time-to-live fields are \<^theory_text>\<open>int32_t\<close> that
  the code only compares, copies and counts up to 254, kept as \<^theory_text>\<open>int\<close>; the
  byte-wide fields and the 64-bit generations are words.
\<close>

section \<open>Live peers\<close>

type_synonym peer_ref = nat
type_synonym game_ref = nat

text \<open>
  What the room reads of a peer: the user id of its persistent data, once
  authenticated, and the index of the protocol it speaks.
\<close>

record peer_node =
  pn_user :: "string option"
  pn_protocol :: nat

type_synonym heap = "peer_ref \<Rightarrow> peer_node option"

definition lock :: "heap \<Rightarrow> peer_ref option \<Rightarrow> peer_ref option" where
  "lock h w = (case w of None \<Rightarrow> None | Some r \<Rightarrow> if h r = None then None else Some r)"

definition persistent_user :: "heap \<Rightarrow> peer_ref \<Rightarrow> string option" where
  "persistent_user h r = (case h r of None \<Rightarrow> None | Some n \<Rightarrow> pn_user n)"

lemma lock_Some [simp]: "lock h w = Some r \<longleftrightarrow> w = Some r \<and> h r \<noteq> None"
  by (auto simp: lock_def split: option.splits)

lemma lock_None: "lock h w = None \<longleftrightarrow> (\<forall>r. w = Some r \<longrightarrow> h r = None)"
  by (auto simp: lock_def split: option.splits)

lemma lock_live [simp]: "h r \<noteq> None \<Longrightarrow> lock h (Some r) = Some r"
  by (simp add: lock_def)

lemma persistent_user_live: "persistent_user h r = Some u \<Longrightarrow> h r \<noteq> None"
  by (auto simp: persistent_user_def split: option.splits)

section \<open>Interest groups\<close>

text \<open>A \<^theory_text>\<open>std::bitset<256>\<close>; group 0 reads as set whatever its bit is.\<close>

type_synonym interest_groups = "256 word"

definition ig_initial :: interest_groups where "ig_initial = 1"

definition ig_test :: "interest_groups \<Rightarrow> u8 \<Rightarrow> bool" where
  "ig_test g v = (if v = 0 then True else bit g (unat v))"

definition ig_set :: "interest_groups \<Rightarrow> u8 \<Rightarrow> bool \<Rightarrow> interest_groups" where
  "ig_set g v enable = (if enable then Bit_Operations.set_bit (unat v) g else unset_bit (unat v) g)"

definition ig_set_all :: "interest_groups \<Rightarrow> interest_groups" where
  "ig_set_all g = - 1"

definition ig_reset :: "interest_groups \<Rightarrow> u8 \<Rightarrow> interest_groups" where
  "ig_reset g v = unset_bit (unat v) g"

definition ig_reset_all :: "interest_groups \<Rightarrow> interest_groups" where
  "ig_reset_all g = 0"

text \<open>\<^theory_text>\<open>to_string()\<close> prints the bits from the highest to the lowest, with bit 0 set.\<close>

definition ig_to_string :: "interest_groups \<Rightarrow> string" where
  "ig_to_string g = map (\<lambda>i. if bit (Bit_Operations.set_bit 0 g) i then CHR ''1'' else CHR ''0'')
     (rev [0..<256])"

lemma unat_u8_256 [simp]: "unat (v :: u8) < 256"
  using unsigned_less [of v, where 'a = nat] by simp

lemma ig_test_set: "ig_test (ig_set g v True) w \<longleftrightarrow> w = v \<or> ig_test g w"
  by (auto simp: ig_test_def ig_set_def bit_simps word_unat_eq_iff)

lemma ig_test_reset: "ig_test (ig_reset g v) w \<longleftrightarrow> w = 0 \<or> (w \<noteq> v \<and> ig_test g w)"
  by (auto simp: ig_test_def ig_reset_def bit_simps word_unat_eq_iff)

lemma ig_test_all: "ig_test (ig_set_all g) w" "ig_test (ig_reset_all g) w \<longleftrightarrow> w = 0"
  by (auto simp: ig_test_def ig_set_all_def ig_reset_all_def bit_simps)

section \<open>Members, events, reservations\<close>

record 'v game_peer =
  gp_peer :: "peer_ref option"
  gp_owner_game :: "game_ref option"
  gp_actor_id :: int
  gp_actor_props :: "('v, 'v) assoc"
  gp_interest_groups :: interest_groups
  gp_active :: bool

definition gp_default :: "'v game_peer" where
  "gp_default = \<lparr> gp_peer = None, gp_owner_game = None, gp_actor_id = 0, gp_actor_props = [],
     gp_interest_groups = ig_initial, gp_active = True \<rparr>"

definition gp_is_valid :: "'v game_peer \<Rightarrow> bool" where
  "gp_is_valid gp \<longleftrightarrow> gp_active gp \<and> 0 < gp_actor_id gp"

text \<open>\<^theory_text>\<open>Event::receivers\<close>: nothing chosen, a receiver group, or a set of actors in iteration order.\<close>

datatype receivers = Unset | Group u8 | Actors "int list"

record 'v event =
  ev_code :: u8
  ev_sender :: int
  ev_delivery_mode :: u8
  ev_channel :: u8
  ev_receivers :: receivers
  ev_interest_group :: u8
  ev_data :: 'v
  ev_top_params :: "(u8, 'v) assoc"
  ev_cached :: "u8 list list"

record 'v inactive_player =
  ip_actor_id :: int
  ip_user_id :: string
  ip_actor_props :: "('v, 'v) assoc"
  ip_inactive_since :: u64
  ip_generation :: u32

section \<open>Rooms\<close>

record 'v game =
  g_ref :: game_ref
  g_id :: string
  g_server_address :: string
  g_flags :: u8
  g_is_created :: bool
  g_is_open :: bool
  g_is_visible :: bool
  g_player_ttl :: int
  g_empty_game_ttl :: int
  g_max_peers :: u8
  g_master_actor :: int
  g_last_actor_id :: int
  g_expected_users :: "string list"
  g_expected_user_generations :: "(string, u64) assoc"
  g_next_expected_user_generation :: u64
  g_custom_props :: "('v, 'v) assoc"
  g_lobby_props :: "string list"
  g_event_cache :: "'v event list"
  g_inactive_players :: "(string, 'v inactive_player) assoc"
  g_is_creating :: bool
  g_creation_owner :: "peer_ref option"
  g_next_creation_generation :: u64
  g_active_creation_generation :: u64
  g_state_revision :: u64
  g_peers :: "'v game_peer list"
  g_retired_peers :: "'v game_peer list"
  g_dummy_peer_count :: u8
  gi_is_created :: bool
  gi_last_actor_id :: int
  gi_dummy_peer_count :: u8
  gi_event_cache :: "'v event list"
  gi_expected_users :: "string list"
  gi_expected_user_generations :: "(string, u64) assoc"
  gi_inactive_players :: "(string, 'v inactive_player) assoc"
  gr_reserved_generations :: "(string, u64) assoc"
  gr_removed_generations :: "(string, u64) assoc"
  gi_flags :: u8
  gi_is_open :: bool
  gi_is_visible :: bool
  gi_player_ttl :: int
  gi_empty_game_ttl :: int
  gi_max_peers :: u8
  gi_master_actor :: int
  gi_custom_props :: "('v, 'v) assoc"
  gi_lobby_props :: "string list"

text \<open>The constructor: the member initialisers of the struct.\<close>

definition new_game :: "game_ref \<Rightarrow> string \<Rightarrow> string \<Rightarrow> 'v game" where
  "new_game r gid address = \<lparr>
     g_ref = r, g_id = gid, g_server_address = address, g_flags = 3,
     g_is_created = False, g_is_open = True, g_is_visible = True,
     g_player_ttl = 0, g_empty_game_ttl = 0, g_max_peers = 0,
     g_master_actor = 1, g_last_actor_id = 0,
     g_expected_users = [], g_expected_user_generations = [], g_next_expected_user_generation = 0,
     g_custom_props = [], g_lobby_props = [], g_event_cache = [], g_inactive_players = [],
     g_is_creating = False, g_creation_owner = None,
     g_next_creation_generation = 0, g_active_creation_generation = 0, g_state_revision = 0,
     g_peers = [], g_retired_peers = [], g_dummy_peer_count = 0,
     gi_is_created = False, gi_last_actor_id = 0, gi_dummy_peer_count = 0, gi_event_cache = [],
     gi_expected_users = [], gi_expected_user_generations = [], gi_inactive_players = [],
     gr_reserved_generations = [], gr_removed_generations = [],
     gi_flags = 0, gi_is_open = False, gi_is_visible = False, gi_player_ttl = 0,
     gi_empty_game_ttl = 0, gi_max_peers = 0, gi_master_actor = 0, gi_custom_props = [],
     gi_lobby_props = [] \<rparr>"

section \<open>Lookups\<close>

definition find_peer_actor :: "'v game \<Rightarrow> int \<Rightarrow> 'v game_peer option" where
  "find_peer_actor g actor = List.find (\<lambda>gp. gp_active gp \<and> gp_actor_id gp = actor) (g_peers g)"

text \<open>
  The comparison is between two shared pointers, so the null pointer matches an
  active member whose weak pointer has expired.
\<close>

definition find_peer_ref :: "heap \<Rightarrow> 'v game \<Rightarrow> peer_ref option \<Rightarrow> 'v game_peer option" where
  "find_peer_ref h g peer = List.find (\<lambda>gp. gp_active gp \<and> lock h (gp_peer gp) = peer) (g_peers g)"

definition actor_id_for_peer :: "heap \<Rightarrow> 'v game \<Rightarrow> peer_ref option \<Rightarrow> int option" where
  "actor_id_for_peer h g peer = (if peer = None then None
     else map_option gp_actor_id
       (List.find (\<lambda>gp. gp_active gp \<and> lock h (gp_peer gp) = peer) (g_peers g)))"

definition has_peer_actor :: "'v game \<Rightarrow> int \<Rightarrow> bool" where
  "has_peer_actor g actor \<longleftrightarrow> (\<exists>gp\<in>set (g_peers g). gp_active gp \<and> gp_actor_id gp = actor)"

definition active_peer_count :: "'v game \<Rightarrow> nat" where
  "active_peer_count g = length (g_peers g)"

definition is_joinable :: "'v game \<Rightarrow> bool" where
  "is_joinable g \<longleftrightarrow> g_is_created g \<and> \<not> g_is_creating g \<and> g_is_visible g \<and> g_is_open g"

definition has_expected_user :: "'v game \<Rightarrow> string \<Rightarrow> bool" where
  "has_expected_user g user_id \<longleftrightarrow> user_id \<in> set (g_expected_users g)"

record config_snapshot =
  cs_flags :: u8
  cs_is_created :: bool
  cs_is_open :: bool
  cs_is_visible :: bool
  cs_max_peers :: u8
  cs_master_actor :: int
  cs_player_ttl :: int
  cs_empty_game_ttl :: int
  cs_last_actor_id :: int
  cs_dummy_peer_count :: u8
  cs_peer_count :: nat

definition get_config_snapshot :: "'v game \<Rightarrow> config_snapshot" where
  "get_config_snapshot g = \<lparr> cs_flags = g_flags g, cs_is_created = g_is_created g,
     cs_is_open = g_is_open g, cs_is_visible = g_is_visible g, cs_max_peers = g_max_peers g,
     cs_master_actor = g_master_actor g, cs_player_ttl = g_player_ttl g,
     cs_empty_game_ttl = g_empty_game_ttl g, cs_last_actor_id = g_last_actor_id g,
     cs_dummy_peer_count = g_dummy_peer_count g, cs_peer_count = length (g_peers g) \<rparr>"

definition set_config_state :: "u8 \<Rightarrow> bool \<Rightarrow> bool \<Rightarrow> u8 \<Rightarrow> int \<Rightarrow> 'v game \<Rightarrow> 'v game" where
  "set_config_state flags op vis maxp master g =
     g\<lparr> g_flags := flags, g_is_open := op, g_is_visible := vis, g_max_peers := maxp,
        g_master_actor := master, g_state_revision := g_state_revision g + 1 \<rparr>"

text \<open>Replacing a member in place, as a write through the pointer \<^theory_text>\<open>find_peer\<close> returns.\<close>

fun update_first :: "('a \<Rightarrow> bool) \<Rightarrow> ('a \<Rightarrow> 'a) \<Rightarrow> 'a list \<Rightarrow> 'a list" where
  "update_first P f [] = []"
| "update_first P f (x # xs) = (if P x then f x # xs else x # update_first P f xs)"

lemma update_first_map:
  assumes "\<And>x. k (f x) = k x"
  shows "map k (update_first P f xs) = map k xs"
  using assms by (induction xs) auto

lemma update_first_none: "List.find P xs = None \<Longrightarrow> update_first P f xs = xs"
  by (induction xs) (auto split: if_splits)

lemma update_first_length [simp]: "length (update_first P f xs) = length xs"
  by (induction xs) auto

lemma update_first_find:
  "List.find P xs = Some x \<Longrightarrow> P (f x) \<Longrightarrow> List.find P (update_first P f xs) = Some (f x)"
  by (induction xs) (auto split: if_splits)

end
