(* ===== verification/AppSettings.thy ===== *)
theory AppSettings
  imports Prelude
begin

text \<open>
  \<^theory_text>\<open>struct AppSettings\<close> of include/luxon/server/apps.hpp with its defaults, and
  the global cap \<^theory_text>\<open>enforce_global_config\<close> of src/apps.cpp puts on it.
\<close>

datatype auth_mode = Weak | Anonymous | Strict

datatype custom_anonymous_uid_mode = Allow | AllowWithPrefix | ForceRandom

text \<open>
  The two mode fields are stored as \<^theory_text>\<open>unsigned\<close> and compared with the
  enumerators, so a database row may hold a number that is none of them.
\<close>

definition auth_mode_code :: "auth_mode \<Rightarrow> u32" where
  "auth_mode_code m = (case m of Weak \<Rightarrow> 0 | Anonymous \<Rightarrow> 1 | Strict \<Rightarrow> 2)"

definition uid_mode_code :: "custom_anonymous_uid_mode \<Rightarrow> u32" where
  "uid_mode_code m = (case m of Allow \<Rightarrow> 0 | AllowWithPrefix \<Rightarrow> 1 | ForceRandom \<Rightarrow> 2)"

record app_settings =
  as_appid :: string
  as_auth_mode :: u32
  as_custom_anonymous_uid_mode :: u32
  as_anonymous_uid_prefix :: string
  as_max_peers :: u32
  as_max_peers_per_game :: u32
  as_max_game_count :: u32
  as_allow_find_friends :: bool
  as_allow_change_master :: bool

definition default_app_settings :: app_settings where
  "default_app_settings = \<lparr> as_appid = [], as_auth_mode = auth_mode_code Weak,
     as_custom_anonymous_uid_mode = uid_mode_code Allow, as_anonymous_uid_prefix = [],
     as_max_peers = 0, as_max_peers_per_game = 0, as_max_game_count = 0,
     as_allow_find_friends = True, as_allow_change_master = True \<rparr>"

definition enforce_global_config :: "u8 \<Rightarrow> app_settings \<Rightarrow> app_settings" where
  "enforce_global_config global_max_game_peers s =
    (if global_max_game_peers \<noteq> 0
     then s\<lparr> as_max_peers_per_game :=
       (if as_max_peers_per_game s = 0 then ucast global_max_game_peers
        else min (as_max_peers_per_game s) (ucast global_max_game_peers)) \<rparr>
     else s)"

lemma enforce_global_config_cap:
  assumes "global_max_game_peers \<noteq> 0"
  shows "as_max_peers_per_game (enforce_global_config global_max_game_peers s) \<noteq> 0"
    "as_max_peers_per_game (enforce_global_config global_max_game_peers s) \<le> ucast global_max_game_peers"
proof -
  have "(ucast global_max_game_peers :: u32) \<noteq> 0"
    using assms by (simp add: word_unat_eq_iff unat_ucast_up)
  then show "as_max_peers_per_game (enforce_global_config global_max_game_peers s) \<noteq> 0"
    "as_max_peers_per_game (enforce_global_config global_max_game_peers s) \<le> ucast global_max_game_peers"
    using assms by (auto simp: enforce_global_config_def min_def)
qed

end
