(* ===== verification/GameMembers.thy ===== *)
theory GameMembers
  imports GameState AppSettings
begin

text \<open>
  Membership of a room (src/game.cpp): reservations for expected users with
  their generation-guarded expiry, allocation of actor numbers, admission,
  removal with master handover, interest groups and the join checks. An
  operation returns its result, the room after it and the tasks it schedules.
\<close>

datatype task = ExpireReservation string u64 | KeepRoomAlive game_ref

section \<open>Reservations\<close>

text \<open>The counter skips 0 when it wraps.\<close>

definition next_nonzero :: "u64 \<Rightarrow> u64" where
  "next_nonzero c = (if c + 1 = 0 then c + 1 + 1 else c + 1)"

definition add_reservation :: "string \<Rightarrow> u64 \<Rightarrow> 'v game \<Rightarrow> 'v game" where
  "add_reservation user_id generation g =
    (let g1 = g\<lparr> g_expected_users := g_expected_users g @ [user_id],
                g_next_expected_user_generation := generation,
                g_expected_user_generations :=
                  ht_put (g_expected_user_generations g) user_id generation \<rparr>
     in if g_is_creating g1
        then g1\<lparr> gr_reserved_generations :=
               ht_put (gr_reserved_generations g1) user_id generation \<rparr>
        else g1)"

definition reserve_expected_user_with_generation ::
  "string \<Rightarrow> u32 \<Rightarrow> 'v game \<Rightarrow> u64 option \<times> 'v game \<times> (u32 \<times> task) list" where
  "reserve_expected_user_with_generation user_id ttl_ms g =
    (if user_id = [] then (None, g, [])
     else if user_id \<in> set (g_expected_users g) then (None, g, [])
     else let generation = next_nonzero (g_next_expected_user_generation g)
          in (Some generation, add_reservation user_id generation g,
              [(ttl_ms, ExpireReservation user_id generation)]))"

definition reserve_expected_user ::
  "string \<Rightarrow> u32 \<Rightarrow> 'v game \<Rightarrow> bool \<times> 'v game \<times> (u32 \<times> task) list" where
  "reserve_expected_user user_id ttl_ms g =
    (case reserve_expected_user_with_generation user_id ttl_ms g of
       (r, g', ts) \<Rightarrow> (r \<noteq> None, g', ts))"

text \<open>
  While a room is being created, a reservation the creation did not make itself
  is recorded when it goes away, so that a rollback can restore it.
\<close>

definition note_removed :: "string \<Rightarrow> u64 \<Rightarrow> 'v game \<Rightarrow> 'v game" where
  "note_removed user_id generation g =
    (if g_is_creating g \<and> map_of (gr_reserved_generations g) user_id \<noteq> Some generation
     then g\<lparr> gr_removed_generations := ht_put (gr_removed_generations g) user_id generation \<rparr>
     else g)"

definition drop_reservation :: "string \<Rightarrow> 'v game \<Rightarrow> 'v game" where
  "drop_reservation user_id g =
     g\<lparr> g_expected_user_generations := ht_erase (g_expected_user_generations g) user_id,
        g_expected_users := remove1 user_id (g_expected_users g) \<rparr>"

text \<open>The callback the reservation schedules.\<close>

definition expire_reservation :: "string \<Rightarrow> u64 \<Rightarrow> 'v game \<Rightarrow> 'v game" where
  "expire_reservation user_id generation g =
    (if map_of (g_expected_user_generations g) user_id = Some generation
     then drop_reservation user_id (note_removed user_id generation g)
     else g)"

definition remove_expected_user :: "string \<Rightarrow> 'v game \<Rightarrow> 'v game" where
  "remove_expected_user key g =
    (case map_of (g_expected_user_generations g) key of
       Some generation \<Rightarrow> drop_reservation key (note_removed key generation g)
     | None \<Rightarrow> g\<lparr> g_expected_users := remove1 key (g_expected_users g) \<rparr>)"

definition remove_expected_user_if_generation :: "string \<Rightarrow> u64 \<Rightarrow> 'v game \<Rightarrow> bool \<times> 'v game" where
  "remove_expected_user_if_generation key generation g =
    (if map_of (g_expected_user_generations g) key \<noteq> Some generation then (False, g)
     else (True, drop_reservation key g))"

section \<open>Actor numbers\<close>

text \<open>
  The allocation loop: at most \<^theory_text>\<open>0xfe\<close> attempts, each advancing the counter
  cyclically through 1..254. It yields the number found, if any, and the
  counter it leaves behind.
\<close>

fun alloc_actor :: "nat \<Rightarrow> 'v game \<Rightarrow> int \<Rightarrow> int option \<times> int" where
  "alloc_actor 0 g last_id = (None, last_id)"
| "alloc_actor (Suc n) g last_id =
    (let cand = (if 254 \<le> last_id then 0 else last_id) + 1
     in if find_peer_actor g cand = None then (Some cand, cand) else alloc_actor n g cand)"

definition published_props :: "'v value_ops \<Rightarrow> wire_codes \<Rightarrow> string \<Rightarrow> 'v game \<Rightarrow> ('v, 'v) assoc" where
  "published_props vo wc user g =
    (if has_flag (g_flags g) (f_PublishUserId wc)
     then ht_put [] (v_of_u8 vo (ap_UserId wc)) (v_of_string vo user) else [])"

definition create_peer ::
  "'v value_ops \<Rightarrow> wire_codes \<Rightarrow> heap \<Rightarrow> peer_ref option \<Rightarrow> 'v game \<Rightarrow> 'v game_peer \<times> 'v game" where
  "create_peer vo wc h peer g =
    (case peer of None \<Rightarrow> (gp_default, g)
     | Some r \<Rightarrow>
       (case persistent_user h r of None \<Rightarrow> (gp_default, g)
        | Some user \<Rightarrow>
          (case alloc_actor 254 g (g_last_actor_id g) of
             (found, last_id) \<Rightarrow>
               let g' = g\<lparr> g_last_actor_id := last_id \<rparr>
               in (case found of None \<Rightarrow> (gp_default, g')
                   | Some actor \<Rightarrow>
                       (gp_default\<lparr> gp_peer := Some r, gp_owner_game := Some (g_ref g),
                          gp_actor_id := actor,
                          gp_actor_props := published_props vo wc user g' \<rparr>, g')))))"

definition create_peer_for_actor ::
  "'v value_ops \<Rightarrow> wire_codes \<Rightarrow> heap \<Rightarrow> peer_ref option \<Rightarrow> int \<Rightarrow> 'v game \<Rightarrow> 'v game_peer" where
  "create_peer_for_actor vo wc h peer actor g =
    (case peer of None \<Rightarrow> gp_default
     | Some r \<Rightarrow>
       (case persistent_user h r of None \<Rightarrow> gp_default
        | Some user \<Rightarrow>
          if actor \<le> 0 \<or> 254 \<le> actor then gp_default
          else if find_peer_actor g actor \<noteq> None then gp_default
          else gp_default\<lparr> gp_peer := Some r, gp_owner_game := Some (g_ref g), gp_actor_id := actor,
                 gp_actor_props := published_props vo wc user g \<rparr>))"

section \<open>Admission\<close>

text \<open>Some member that is still alive has this user id.\<close>

definition user_present :: "heap \<Rightarrow> string \<Rightarrow> 'v game \<Rightarrow> bool" where
  "user_present h user g \<longleftrightarrow> list_ex (\<lambda>gp. case lock h (gp_peer gp) of None \<Rightarrow> False
       | Some r \<Rightarrow> persistent_user h r = Some user) (g_peers g)"

definition add_peer ::
  "wire_codes \<Rightarrow> heap \<Rightarrow> 'v game_peer \<Rightarrow> 'v game \<Rightarrow> 'v game_peer option \<times> 'v game" where
  "add_peer wc h gp g =
    (if g_is_creating g \<and> \<not> g_is_created g then (None, g)
     else case lock h (gp_peer gp) of None \<Rightarrow> (None, g)
     | Some r \<Rightarrow>
       (case persistent_user h r of None \<Rightarrow> (None, g)
        | Some user \<Rightarrow>
          if find_peer_actor g (gp_actor_id gp) \<noteq> None then (None, g)
          else if has_flag (g_flags g) (f_CheckUserOnJoin wc) \<and> user_present h user g then (None, g)
          else let gp' = gp\<lparr> gp_owner_game := Some (g_ref g) \<rparr>
               in (Some gp', remove_expected_user user (g\<lparr> g_peers := g_peers g @ [gp'] \<rparr>))))"

text \<open>The lease of a creation: the owner is alive, and the generation is the active one.\<close>

definition lease_held :: "heap \<Rightarrow> peer_ref option \<Rightarrow> u64 \<Rightarrow> 'v game \<Rightarrow> bool" where
  "lease_held h owner generation g \<longleftrightarrow>
     g_is_creating g \<and> owner \<noteq> None \<and> generation \<noteq> 0
     \<and> generation = g_active_creation_generation g
     \<and> lock h (g_creation_owner g) \<noteq> None \<and> lock h (g_creation_owner g) = owner"

definition add_peer_for_creation ::
  "wire_codes \<Rightarrow> heap \<Rightarrow> 'v game_peer \<Rightarrow> peer_ref option \<Rightarrow> u64 \<Rightarrow> 'v game
     \<Rightarrow> 'v game_peer option \<times> 'v game" where
  "add_peer_for_creation wc h gp owner generation g =
    (if \<not> lease_held h owner generation g then (None, g)
     else case lock h (gp_peer gp) of None \<Rightarrow> (None, g)
     | Some r \<Rightarrow>
       (case persistent_user h r of None \<Rightarrow> (None, g)
        | Some user \<Rightarrow>
          if Some r \<noteq> owner \<or> find_peer_actor g (gp_actor_id gp) \<noteq> None then (None, g)
          else if has_flag (g_flags g) (f_CheckUserOnJoin wc) \<and> user_present h user g then (None, g)
          else let gp' = gp\<lparr> gp_owner_game := Some (g_ref g) \<rparr>
               in (Some gp', remove_expected_user user (g\<lparr> g_peers := g_peers g @ [gp'] \<rparr>))))"

section \<open>Interest groups of a member\<close>

definition change_groups :: "u8 list \<Rightarrow> u8 list \<Rightarrow> interest_groups \<Rightarrow> interest_groups" where
  "change_groups add remove ig =
    (let ig1 = (if remove = [] then ig_reset_all ig else fold (\<lambda>v s. ig_reset s v) remove ig)
     in if add = [] then ig_set_all ig1 else fold (\<lambda>v s. ig_set s v True) add ig1)"

definition apply_interest_groups ::
  "heap \<Rightarrow> peer_ref option \<Rightarrow> u8 list \<Rightarrow> u8 list \<Rightarrow> 'v game \<Rightarrow> bool \<times> 'v game" where
  "apply_interest_groups h peer add remove g =
    (case find_peer_ref h g peer of None \<Rightarrow> (False, g)
     | Some _ \<Rightarrow> (True, g\<lparr> g_peers := update_first
         (\<lambda>gp. gp_active gp \<and> lock h (gp_peer gp) = peer)
         (\<lambda>gp. gp\<lparr> gp_interest_groups := change_groups add remove (gp_interest_groups gp) \<rparr>)
         (g_peers g) \<rparr>))"

section \<open>Removal\<close>

text \<open>
  The removal loop restarts from the head after each hit. A hit is a member of
  the leaving peer, whose cached events are dropped when the flag says so, or a
  member whose peer is gone; either is retired, not destroyed.
\<close>

definition leaves :: "heap \<Rightarrow> peer_ref \<Rightarrow> 'v game_peer \<Rightarrow> bool" where
  "leaves h peer gp \<longleftrightarrow> lock h (gp_peer gp) = Some peer \<or> lock h (gp_peer gp) = None"

definition retire :: "'v game_peer \<Rightarrow> 'v game_peer" where
  "retire gp = gp\<lparr> gp_active := False \<rparr>"

function remove_loop :: "wire_codes \<Rightarrow> heap \<Rightarrow> peer_ref \<Rightarrow> int \<Rightarrow> 'v game \<Rightarrow> int \<times> 'v game" where
  "remove_loop wc h peer leaving g =
    (case List.extract (leaves h peer) (g_peers g) of
       None \<Rightarrow> (leaving, g)
     | Some (before, gp, after) \<Rightarrow>
         let g1 = g\<lparr> g_peers := before @ after, g_retired_peers := g_retired_peers g @ [retire gp] \<rparr>
         in if lock h (gp_peer gp) = Some peer
            then let actor = gp_actor_id gp;
                     g2 = (if has_flag (g_flags g1) (f_DeleteCacheOnLeave wc)
                           then g1\<lparr> g_event_cache := filter (\<lambda>ev. \<not> (ev_sender ev = actor \<and> ev_sender ev \<noteq> 0))
                                    (g_event_cache g1) \<rparr>
                           else g1)
                 in remove_loop wc h peer actor g2
            else remove_loop wc h peer leaving g1)"
  by pat_completeness auto
termination
  by (relation "measure (\<lambda>(wc, h, peer, leaving, g). length (g_peers g))") (auto dest: extract_SomeE)

declare remove_loop.simps [simp del]

definition remove_peer ::
  "wire_codes \<Rightarrow> heap \<Rightarrow> peer_ref option \<Rightarrow> 'v game \<Rightarrow> bool \<times> 'v game \<times> (u32 \<times> task) list" where
  "remove_peer wc h peer g =
    (case peer of None \<Rightarrow> (False, g, [])
     | Some r \<Rightarrow>
       (case remove_loop wc h r 0 g of (leaving, g1) \<Rightarrow>
          if leaving = 0 then (False, g1, [])
          else if g_peers g1 = [] then
            (True, g1, if 0 < g_empty_game_ttl g1
                       then [(word_of_int (g_empty_game_ttl g1), KeepRoomAlive (g_ref g1))] else [])
          else if leaving = g_master_actor g1 then
            (True, g1\<lparr> g_master_actor := gp_actor_id (hd (g_peers g1)) \<rparr>, [])
          else (True, g1, [])))"

section \<open>Join checks\<close>

definition needed_slots :: "string \<Rightarrow> nat \<Rightarrow> 'v game \<Rightarrow> nat" where
  "needed_slots user_id new_expected g = (if user_id \<in> set (g_expected_users g) then 0 else 1) + new_expected"

definition final_peer_count :: "string \<Rightarrow> nat \<Rightarrow> 'v game \<Rightarrow> nat" where
  "final_peer_count user_id new_expected g =
     length (g_peers g) + unat (g_dummy_peer_count g) + length (g_expected_users g)
       + needed_slots user_id new_expected g"

definition validate_join_count ::
  "wire_codes \<Rightarrow> app_settings \<Rightarrow> heap \<Rightarrow> string \<Rightarrow> nat \<Rightarrow> bool \<Rightarrow> 'v game \<Rightarrow> int" where
  "validate_join_count wc cfg h user_id new_expected allow_uncreated g =
    (if \<not> g_is_created g \<and> \<not> allow_uncreated then err_GameIdNotExists wc
     else if \<not> g_is_open g then err_GameClosed wc
     else let n = final_peer_count user_id new_expected g
          in if 0 < g_max_peers g \<and> unat (g_max_peers g) < n then err_GameFull wc
             else if as_max_peers_per_game cfg \<noteq> 0 \<and> unat (as_max_peers_per_game cfg) < n then err_GameFull wc
             else if 254 < n then err_ActorListFull wc
             else if has_flag (g_flags g) (f_CheckUserOnJoin wc) \<and> user_present h user_id g
             then err_PeerAlreadyJoined wc
             else err_Ok wc)"

text \<open>The users of the list that would need a reservation of their own, each once.\<close>

definition unique_expected :: "string \<Rightarrow> string list \<Rightarrow> 'v game \<Rightarrow> string list" where
  "unique_expected user_id users g =
     remdups (filter (\<lambda>u. u \<noteq> [] \<and> u \<noteq> user_id \<and> u \<notin> set (g_expected_users g)) users)"

definition validate_join ::
  "wire_codes \<Rightarrow> app_settings \<Rightarrow> heap \<Rightarrow> string \<Rightarrow> string list \<Rightarrow> bool \<Rightarrow> 'v game \<Rightarrow> int" where
  "validate_join wc cfg h user_id users allow_uncreated g =
     validate_join_count wc cfg h user_id (length (unique_expected user_id users g)) allow_uncreated g"

section \<open>Actor allocation is complete\<close>

definition actor_slot :: "int \<Rightarrow> nat \<Rightarrow> int" where
  "actor_slot last_id i = ((if 254 \<le> last_id then 0 else last_id) + int i) mod 254 + 1"

lemma actor_slot_next:
  assumes "0 \<le> last_id"
  shows "actor_slot ((if 254 \<le> last_id then 0 else last_id) + 1) i = actor_slot last_id (Suc i)"
proof (cases "last_id = 253")
  case True
  then show ?thesis by (simp add: actor_slot_def)
next
  case False
  with assms show ?thesis by (auto simp: actor_slot_def ac_simps)
qed

lemma alloc_actor_first:
  assumes "0 \<le> last_id" "alloc_actor n g last_id = (Some a, l)"
  shows "1 \<le> a \<and> a \<le> 254 \<and> find_peer_actor g a = None \<and> l = a"
  using assms
proof (induction n arbitrary: last_id)
  case (Suc n)
  let ?c = "(if 254 \<le> last_id then 0 else last_id) + 1"
  have c: "1 \<le> ?c" "?c \<le> 254" "0 \<le> ?c" using Suc.prems(1) by auto
  show ?case
  proof (cases "find_peer_actor g ?c = None")
    case True
    with Suc.prems(2) have "a = ?c" "l = ?c" by (simp_all only: alloc_actor.simps Let_def if_True) auto
    with True c show ?thesis by simp
  next
    case False
    with Suc.prems(2) have "alloc_actor n g ?c = (Some a, l)"
      by (simp only: alloc_actor.simps Let_def if_False)
    with Suc.IH [OF c(3)] show ?thesis by simp
  qed
qed simp

lemma alloc_actor_none:
  assumes "0 \<le> last_id" "fst (alloc_actor n g last_id) = None" "i < n"
  shows "find_peer_actor g (actor_slot last_id i) \<noteq> None"
  using assms
proof (induction n arbitrary: last_id i)
  case (Suc n)
  let ?c = "(if 254 \<le> last_id then 0 else last_id) + 1"
  from Suc.prems have used: "find_peer_actor g ?c \<noteq> None" and rest: "fst (alloc_actor n g ?c) = None"
    by (auto simp: Let_def split: if_splits)
  show ?case
  proof (cases i)
    case 0
    with used Suc.prems(1) show ?thesis by (auto simp: actor_slot_def)
  next
    case (Suc j)
    then have "find_peer_actor g (actor_slot ?c j) \<noteq> None"
      using Suc.IH [OF _ rest] Suc.prems by simp
    then show ?thesis unfolding actor_slot_next [OF Suc.prems(1)] Suc .
  qed
qed simp

lemma actor_slot_surj:
  assumes "0 \<le> last_id" "1 \<le> a" "a \<le> 254"
  shows "\<exists>i<254. actor_slot last_id i = a"
proof -
  let ?s = "if 254 \<le> last_id then 0 else last_id"
  let ?i = "nat ((a - 1 - ?s) mod 254)"
  have "(?s + (a - 1 - ?s) mod 254) mod 254 = (a - 1) mod 254"
    by (simp add: mod_add_right_eq)
  with assms have "actor_slot last_id ?i = a" by (simp add: actor_slot_def)
  moreover have "?i < 254" by (simp add: nat_less_iff)
  ultimately show ?thesis by blast
qed

lemma alloc_actor_none_full:
  assumes "0 \<le> last_id" "fst (alloc_actor 254 g last_id) = None" "1 \<le> a" "a \<le> 254"
  shows "find_peer_actor g a \<noteq> None"
  using actor_slot_surj [OF assms(1,3,4)] alloc_actor_none [OF assms(1,2)] by blast

section \<open>Invariants of a room\<close>

text \<open>
  Reservations: the user set and the generation table agree, without
  duplicates, and every generation has been issued by the counter.
\<close>

definition res_inv :: "'v game \<Rightarrow> bool" where
  "res_inv g \<longleftrightarrow> distinct (g_expected_users g) \<and> [] \<notin> set (g_expected_users g)
     \<and> set (g_expected_users g) = dom (map_of (g_expected_user_generations g))
     \<and> (\<forall>u n. map_of (g_expected_user_generations g) u = Some n \<longrightarrow>
          n \<noteq> 0 \<and> n \<le> g_next_expected_user_generation g)"

text \<open>
  Members: every entry of the list is active, has an actor number in 1..254,
  and no two share one.
\<close>

definition member_inv :: "'v game \<Rightarrow> bool" where
  "member_inv g \<longleftrightarrow> (\<forall>gp\<in>set (g_peers g). gp_active gp \<and> 1 \<le> gp_actor_id gp \<and> gp_actor_id gp \<le> 254)
     \<and> distinct (map gp_actor_id (g_peers g))
     \<and> (\<forall>gp\<in>set (g_retired_peers g). \<not> gp_active gp)"

text \<open>Live members have pairwise different user ids.\<close>

definition live_users :: "heap \<Rightarrow> 'v game \<Rightarrow> string list" where
  "live_users h g = List.map_filter (\<lambda>gp. case lock h (gp_peer gp) of None \<Rightarrow> None
       | Some r \<Rightarrow> persistent_user h r) (g_peers g)"

lemma find_peer_actor_None:
  "find_peer_actor g a = None \<longleftrightarrow> (\<forall>gp\<in>set (g_peers g). gp_active gp \<longrightarrow> gp_actor_id gp \<noteq> a)"
  by (auto simp: find_peer_actor_def find_None_conv)

lemma user_present_iff: "user_present h user g \<longleftrightarrow> user \<in> set (live_users h g)"
  by (auto simp: user_present_def live_users_def map_filter_def list_ex_iff image_iff
      split: option.splits) force+

lemma next_nonzero_pos: "next_nonzero c \<noteq> 0"
  by (simp add: next_nonzero_def)

lemma next_nonzero_step: "c < - 1 \<Longrightarrow> c < next_nonzero c"
proof -
  assume "c < - 1"
  then have "unat c < unat (- 1 :: u64)" by (simp only: word_less_nat_alt)
  then have "unat c + unat (1 :: u64) < 2 ^ LENGTH(64)"
    by (simp add: unsigned_minus_1_eq_mask mask_eq_exp_minus_1)
  then have "unat (c + 1) = unat c + 1" by (simp only: unat_add_noof) simp
  then have "c + 1 \<noteq> 0" "c < c + 1" by (auto simp: word_less_nat_alt word_unat_eq_iff)
  then show ?thesis by (simp add: next_nonzero_def)
qed

subsection \<open>Frame: what the operations leave alone\<close>

lemma drop_reservation_frame [simp]:
  "g_peers (drop_reservation u g) = g_peers g"
  "g_retired_peers (drop_reservation u g) = g_retired_peers g"
  "g_next_expected_user_generation (drop_reservation u g) = g_next_expected_user_generation g"
  "g_expected_users (drop_reservation u g) = remove1 u (g_expected_users g)"
  "g_expected_user_generations (drop_reservation u g) = ht_erase (g_expected_user_generations g) u"
  "g_is_creating (drop_reservation u g) = g_is_creating g"
  "g_is_created (drop_reservation u g) = g_is_created g"
  "g_dummy_peer_count (drop_reservation u g) = g_dummy_peer_count g"
  "gr_reserved_generations (drop_reservation u g) = gr_reserved_generations g"
  "gr_removed_generations (drop_reservation u g) = gr_removed_generations g"
  by (simp_all add: drop_reservation_def)

lemma add_reservation_frame [simp]:
  "g_peers (add_reservation u n g) = g_peers g"
  "g_retired_peers (add_reservation u n g) = g_retired_peers g"
  "g_next_expected_user_generation (add_reservation u n g) = n"
  "g_expected_users (add_reservation u n g) = g_expected_users g @ [u]"
  "g_expected_user_generations (add_reservation u n g) = ht_put (g_expected_user_generations g) u n"
  "g_is_creating (add_reservation u n g) = g_is_creating g"
  "g_is_created (add_reservation u n g) = g_is_created g"
  "g_dummy_peer_count (add_reservation u n g) = g_dummy_peer_count g"
  "gr_removed_generations (add_reservation u n g) = gr_removed_generations g"
  by (simp_all add: add_reservation_def Let_def)

lemma note_removed_frame [simp]:
  "g_peers (note_removed u n g) = g_peers g"
  "g_retired_peers (note_removed u n g) = g_retired_peers g"
  "g_next_expected_user_generation (note_removed u n g) = g_next_expected_user_generation g"
  "g_expected_users (note_removed u n g) = g_expected_users g"
  "g_expected_user_generations (note_removed u n g) = g_expected_user_generations g"
  "g_is_creating (note_removed u n g) = g_is_creating g"
  "g_is_created (note_removed u n g) = g_is_created g"
  "g_dummy_peer_count (note_removed u n g) = g_dummy_peer_count g"
  "gr_reserved_generations (note_removed u n g) = gr_reserved_generations g"
  by (simp_all add: note_removed_def)

lemma remove_expected_user_frame [simp]:
  "g_peers (remove_expected_user u g) = g_peers g"
  "g_retired_peers (remove_expected_user u g) = g_retired_peers g"
  "g_next_expected_user_generation (remove_expected_user u g) = g_next_expected_user_generation g"
  "g_expected_users (remove_expected_user u g) = remove1 u (g_expected_users g)"
  "g_is_creating (remove_expected_user u g) = g_is_creating g"
  "g_is_created (remove_expected_user u g) = g_is_created g"
  "g_dummy_peer_count (remove_expected_user u g) = g_dummy_peer_count g"
  by (simp_all add: remove_expected_user_def split: option.split)

lemma remove_expected_user_gens:
  "map_of (g_expected_user_generations (remove_expected_user u g))
     = (map_of (g_expected_user_generations g))(u := None)"
  by (auto simp: remove_expected_user_def fun_eq_iff split: option.split)

lemma res_inv_same:
  "g_expected_users g' = g_expected_users g \<Longrightarrow>
   g_expected_user_generations g' = g_expected_user_generations g \<Longrightarrow>
   g_next_expected_user_generation g' = g_next_expected_user_generation g \<Longrightarrow> res_inv g' = res_inv g"
  by (simp add: res_inv_def)

subsection \<open>Reservations keep their invariant\<close>

lemma drop_reservation_res_inv:
  "res_inv g \<Longrightarrow> res_inv (drop_reservation u g)"
  by (auto simp: res_inv_def split: if_splits)

lemma note_removed_res_inv [simp]: "res_inv (note_removed u n g) \<longleftrightarrow> res_inv g"
  by (simp add: res_inv_def)

lemma remove_expected_user_res_inv: "res_inv g \<Longrightarrow> res_inv (remove_expected_user u g)"
proof (cases "map_of (g_expected_user_generations g) u")
  case None
  assume i: "res_inv g"
  with None have "u \<notin> set (g_expected_users g)" by (auto simp: res_inv_def)
  with i None show ?thesis by (simp add: remove_expected_user_def remove1_idem)
next
  case (Some n)
  assume "res_inv g"
  with Some show ?thesis by (simp add: remove_expected_user_def drop_reservation_res_inv)
qed

lemma expire_reservation_res_inv: "res_inv g \<Longrightarrow> res_inv (expire_reservation u n g)"
  by (simp add: expire_reservation_def drop_reservation_res_inv)

lemma remove_if_generation_res_inv:
  "res_inv g \<Longrightarrow> res_inv (snd (remove_expected_user_if_generation u n g))"
  by (simp add: remove_expected_user_if_generation_def drop_reservation_res_inv)

lemma reserve_cases:
  obtains (refused) "u = [] \<or> u \<in> set (g_expected_users g)"
      "reserve_expected_user_with_generation u ttl g = (None, g, [])"
  | (made) n where "u \<noteq> []" "u \<notin> set (g_expected_users g)"
      "n = next_nonzero (g_next_expected_user_generation g)"
      "reserve_expected_user_with_generation u ttl g
         = (Some n, add_reservation u n g, [(ttl, ExpireReservation u n)])"
  by (cases "u = [] \<or> u \<in> set (g_expected_users g)")
    (auto simp: reserve_expected_user_with_generation_def Let_def)

lemma reserve_res_inv:
  assumes "res_inv g" "g_next_expected_user_generation g < - 1"
  shows "res_inv (fst (snd (reserve_expected_user_with_generation u ttl g)))"
proof (cases rule: reserve_cases [of u g ttl])
  case refused
  with assms(1) show ?thesis by simp
next
  case (made n)
  with assms(1) next_nonzero_step [OF assms(2)] show ?thesis
    by (auto simp: res_inv_def next_nonzero_pos) (meson less_imp_le order_trans)
qed

subsection \<open>Members keep their invariant\<close>

lemma create_peer_actor:
  assumes "create_peer vo wc h peer g = (gp, g')" "gp_is_valid gp" "0 \<le> g_last_actor_id g"
  shows "1 \<le> gp_actor_id gp" "gp_actor_id gp \<le> 254" "find_peer_actor g (gp_actor_id gp) = None"
    "gp_peer gp = peer" "peer \<noteq> None"
proof -
  obtain found l where a: "alloc_actor 254 g (g_last_actor_id g) = (found, l)" by force
  have "gp_actor_id gp \<noteq> 0" using assms(2) by (simp add: gp_is_valid_def)
  then obtain r user actor where "peer = Some r" "persistent_user h r = Some user" "found = Some actor"
      "gp_actor_id gp = actor" "gp_peer gp = Some r"
    using assms(1) a
    by (cases peer; cases "persistent_user h (the peer)"; cases found)
      (auto simp: create_peer_def gp_default_def Let_def)
  with a alloc_actor_first [OF assms(3)]
  show "1 \<le> gp_actor_id gp" "gp_actor_id gp \<le> 254" "find_peer_actor g (gp_actor_id gp) = None"
    "gp_peer gp = peer" "peer \<noteq> None" by blast+
qed

lemma create_peer_frame:
  assumes "create_peer vo wc h peer g = (gp, g')"
  shows "g_peers g' = g_peers g" "g_retired_peers g' = g_retired_peers g"
    "g_expected_users g' = g_expected_users g"
    "g_expected_user_generations g' = g_expected_user_generations g"
    "g_next_expected_user_generation g' = g_next_expected_user_generation g"
    "gp_active gp" "g_is_creating g' = g_is_creating g" "g_is_created g' = g_is_created g"
    "0 \<le> g_last_actor_id g \<Longrightarrow> 0 \<le> g_last_actor_id g'"
proof -
  obtain found l where a: "alloc_actor 254 g (g_last_actor_id g) = (found, l)" by force
  have l: "0 \<le> n \<Longrightarrow> 0 \<le> snd (alloc_actor k g n)" for k n
    by (induction k arbitrary: n) (auto simp: Let_def)
  have "0 \<le> l" if "0 \<le> g_last_actor_id g" using l [OF that, of 254] a by simp
  then show "0 \<le> g_last_actor_id g \<Longrightarrow> 0 \<le> g_last_actor_id g'"
    using assms a by (auto simp: create_peer_def Let_def split: option.splits)
  show "g_peers g' = g_peers g" "g_retired_peers g' = g_retired_peers g"
    "g_expected_users g' = g_expected_users g"
    "g_expected_user_generations g' = g_expected_user_generations g"
    "g_next_expected_user_generation g' = g_next_expected_user_generation g"
    "gp_active gp" "g_is_creating g' = g_is_creating g" "g_is_created g' = g_is_created g"
    using assms a by (auto simp: create_peer_def gp_default_def Let_def split: option.splits)
qed

lemma add_peer_cases:
  obtains (refused) "add_peer wc h gp g = (None, g)"
  | (added) r user gp' where "gp_peer gp = Some r" "persistent_user h r = Some user"
      "find_peer_actor g (gp_actor_id gp) = None"
      "has_flag (g_flags g) (f_CheckUserOnJoin wc) \<longrightarrow> \<not> user_present h user g"
      "\<not> (g_is_creating g \<and> \<not> g_is_created g)"
      "gp' = gp\<lparr> gp_owner_game := Some (g_ref g) \<rparr>"
      "add_peer wc h gp g = (Some gp', remove_expected_user user (g\<lparr> g_peers := g_peers g @ [gp'] \<rparr>))"
proof (cases "g_is_creating g \<and> \<not> g_is_created g \<or> lock h (gp_peer gp) = None
    \<or> persistent_user h (the (gp_peer gp)) = None \<or> find_peer_actor g (gp_actor_id gp) \<noteq> None
    \<or> has_flag (g_flags g) (f_CheckUserOnJoin wc)
        \<and> user_present h (the (persistent_user h (the (gp_peer gp)))) g")
  case True
  then have "add_peer wc h gp g = (None, g)"
    by (auto simp: add_peer_def lock_def split: option.splits)
  then show ?thesis by (rule refused)
next
  case False
  then obtain r user where "gp_peer gp = Some r" "persistent_user h r = Some user"
    by (auto simp: lock_def split: option.splits if_splits)
  with False show ?thesis
    by (intro added [of r user]) (auto simp: add_peer_def lock_def Let_def split: option.splits if_splits)
qed

lemma add_peer_for_creation_cases:
  obtains (refused) "add_peer_for_creation wc h gp owner generation g = (None, g)"
  | (added) r user gp' where "gp_peer gp = Some r" "owner = Some r" "persistent_user h r = Some user"
      "find_peer_actor g (gp_actor_id gp) = None"
      "has_flag (g_flags g) (f_CheckUserOnJoin wc) \<longrightarrow> \<not> user_present h user g"
      "lease_held h owner generation g"
      "gp' = gp\<lparr> gp_owner_game := Some (g_ref g) \<rparr>"
      "add_peer_for_creation wc h gp owner generation g
         = (Some gp', remove_expected_user user (g\<lparr> g_peers := g_peers g @ [gp'] \<rparr>))"
proof (cases "\<not> lease_held h owner generation g \<or> lock h (gp_peer gp) = None
    \<or> persistent_user h (the (gp_peer gp)) = None \<or> gp_peer gp \<noteq> owner
    \<or> find_peer_actor g (gp_actor_id gp) \<noteq> None
    \<or> has_flag (g_flags g) (f_CheckUserOnJoin wc)
        \<and> user_present h (the (persistent_user h (the (gp_peer gp)))) g")
  case True
  then have "add_peer_for_creation wc h gp owner generation g = (None, g)"
    by (auto simp: add_peer_for_creation_def lock_def split: option.splits)
  then show ?thesis by (rule refused)
next
  case False
  then obtain r user where "gp_peer gp = Some r" "persistent_user h r = Some user"
    by (auto simp: lock_def split: option.splits if_splits)
  with False show ?thesis
    by (intro added [of r user])
      (auto simp: add_peer_for_creation_def lock_def Let_def split: option.splits if_splits, metis+)
qed

lemma append_member_inv:
  assumes "member_inv g" "gp_active gp" "1 \<le> gp_actor_id gp" "gp_actor_id gp \<le> 254"
    "find_peer_actor g (gp_actor_id gp) = None"
  shows "member_inv (g\<lparr> g_peers := g_peers g @ [gp] \<rparr>)"
  using assms by (force simp: member_inv_def find_peer_actor_None)

lemma member_inv_remove_expected [simp]: "member_inv (remove_expected_user u g) = member_inv g"
  by (simp add: member_inv_def)

lemma add_peer_member_inv:
  assumes "member_inv g" "gp_is_valid gp" "gp_actor_id gp \<le> 254"
  shows "member_inv (snd (add_peer wc h gp g))"
  using assms
  by (cases rule: add_peer_cases [of wc h gp g]) (auto simp: gp_is_valid_def intro!: append_member_inv)

lemma add_peer_for_creation_member_inv:
  assumes "member_inv g" "gp_is_valid gp" "gp_actor_id gp \<le> 254"
  shows "member_inv (snd (add_peer_for_creation wc h gp owner generation g))"
  using assms
  by (cases rule: add_peer_for_creation_cases [of wc h gp owner generation g])
    (auto simp: gp_is_valid_def intro!: append_member_inv)

lemma res_inv_peers [simp]: "res_inv (g\<lparr> g_peers := ps \<rparr>) = res_inv g"
  by (simp add: res_inv_def)

lemma add_peer_res_inv: "res_inv g \<Longrightarrow> res_inv (snd (add_peer wc h gp g))"
  by (cases rule: add_peer_cases [of wc h gp g]) (simp_all add: remove_expected_user_res_inv)

lemma add_peer_for_creation_res_inv:
  "res_inv g \<Longrightarrow> res_inv (snd (add_peer_for_creation wc h gp owner generation g))"
  by (cases rule: add_peer_for_creation_cases [of wc h gp owner generation g])
    (simp_all add: remove_expected_user_res_inv)

subsection \<open>Removal as a filter\<close>

lemma extract_partition:
  assumes "List.extract P xs = Some (ys, x, zs)"
  shows "filter (\<lambda>z. \<not> P z) xs = filter (\<lambda>z. \<not> P z) (ys @ zs)" "filter P xs = x # filter P (ys @ zs)"
    "P x" "length (ys @ zs) < length xs" "set xs = insert x (set (ys @ zs))"
  using extract_SomeE [OF assms] by auto

text \<open>The actor number the loop reports: the last one among the members of the peer.\<close>

definition last_actor_of :: "heap \<Rightarrow> peer_ref \<Rightarrow> int \<Rightarrow> 'v game_peer list \<Rightarrow> int" where
  "last_actor_of h peer leaving gps =
     fold (\<lambda>gp acc. if lock h (gp_peer gp) = Some peer then gp_actor_id gp else acc) gps leaving"

lemma remove_loop_peers:
  assumes "remove_loop wc h peer leaving g = (l, g')"
  shows "g_peers g' = filter (\<lambda>gp. \<not> leaves h peer gp) (g_peers g)
    \<and> g_retired_peers g' = g_retired_peers g @ map retire (filter (leaves h peer) (g_peers g))
    \<and> l = last_actor_of h peer leaving (filter (leaves h peer) (g_peers g))
    \<and> g_expected_users g' = g_expected_users g
    \<and> g_expected_user_generations g' = g_expected_user_generations g
    \<and> g_next_expected_user_generation g' = g_next_expected_user_generation g
    \<and> g_master_actor g' = g_master_actor g \<and> g_is_creating g' = g_is_creating g
    \<and> g_is_created g' = g_is_created g \<and> g_dummy_peer_count g' = g_dummy_peer_count g
    \<and> g_last_actor_id g' = g_last_actor_id g \<and> g_flags g' = g_flags g"
  using assms
proof (induction wc h peer leaving g rule: remove_loop.induct)
  case (1 wc h peer leaving g)
  show ?case
  proof (cases "List.extract (leaves h peer) (g_peers g)")
    case None
    then have "\<forall>gp\<in>set (g_peers g). \<not> leaves h peer gp" by (simp add: extract_None_iff)
    with 1(3) None show ?thesis
      by (simp add: remove_loop.simps [of wc h peer leaving g] last_actor_of_def filter_empty_conv [THEN iffD2])
  next
    case (Some t)
    then obtain before gp after where e: "List.extract (leaves h peer) (g_peers g) = Some (before, gp, after)"
      by (cases t) auto
    note p = extract_partition [OF e]
    show ?thesis
    proof (cases "lock h (gp_peer gp) = Some peer")
      case True
      show ?thesis
        using 1(3) "1.IH"(1) [OF e refl refl refl True refl refl] True p
        by (subst (asm) remove_loop.simps) (auto simp: e Let_def last_actor_of_def)
    next
      case False
      show ?thesis
        using 1(3) "1.IH"(2) [OF e refl refl refl False] False p
        by (subst (asm) remove_loop.simps) (auto simp: e Let_def last_actor_of_def)
    qed
  qed
qed

end
