(* ===== verification/GameCreation.thy ===== *)
theory GameCreation
  imports GameMembers
begin

text \<open>
  The creation transaction of a room (src/game.cpp): the lease taken by the
  first joiner, its commit, and the rollback that retires the members, restores
  the saved fields and repairs the reservations.
\<close>

definition save_initial :: "'v game \<Rightarrow> 'v game" where
  "save_initial g = g\<lparr>
     gi_is_created := g_is_created g, gi_flags := g_flags g, gi_is_open := g_is_open g,
     gi_is_visible := g_is_visible g, gi_player_ttl := g_player_ttl g,
     gi_empty_game_ttl := g_empty_game_ttl g, gi_max_peers := g_max_peers g,
     gi_master_actor := g_master_actor g, gi_custom_props := g_custom_props g,
     gi_lobby_props := g_lobby_props g, gi_last_actor_id := g_last_actor_id g,
     gi_dummy_peer_count := g_dummy_peer_count g, gi_event_cache := g_event_cache g,
     gi_expected_users := g_expected_users g,
     gi_expected_user_generations := g_expected_user_generations g,
     gi_inactive_players := g_inactive_players g \<rparr>"

text \<open>The result is the generation of the lease, 0 when it is refused.\<close>

definition try_begin_creation :: "peer_ref option \<Rightarrow> 'v game \<Rightarrow> u64 \<times> 'v game" where
  "try_begin_creation owner g =
    (if owner = None \<or> g_is_created g \<or> g_is_creating g \<or> active_peer_count g \<noteq> 0 then (0, g)
     else let g1 = (save_initial g)\<lparr> g_is_creating := True \<rparr>;
              generation = next_nonzero (g_next_creation_generation g1)
          in (generation,
              g1\<lparr> g_next_creation_generation := generation, g_active_creation_generation := generation,
                 g_state_revision := g_state_revision g1 + 1, g_creation_owner := owner,
                 gr_reserved_generations := [], gr_removed_generations := [] \<rparr>))"

definition is_creation_active :: "heap \<Rightarrow> peer_ref option \<Rightarrow> u64 \<Rightarrow> 'v game \<Rightarrow> bool" where
  "is_creation_active h owner generation g \<longleftrightarrow>
     g_is_creating g \<and> owner \<noteq> None \<and> generation \<noteq> 0
     \<and> generation = g_active_creation_generation g
     \<and> lock h (g_creation_owner g) \<noteq> None \<and> lock h (g_creation_owner g) = owner"

definition commit_creation :: "heap \<Rightarrow> peer_ref option \<Rightarrow> u64 \<Rightarrow> 'v game \<Rightarrow> bool \<times> 'v game" where
  "commit_creation h owner generation g =
    (if \<not> lease_held h owner generation g \<or> find_peer_ref h g owner = None then (False, g)
     else (True, g\<lparr> g_state_revision := g_state_revision g + 1, g_is_created := True,
             g_creation_owner := None, g_is_creating := False \<rparr>))"

section \<open>Rollback\<close>

text \<open>The first loop: every member whose peer is alive is retired; the others stay.\<close>

function abort_retire :: "heap \<Rightarrow> 'v game \<Rightarrow> 'v game" where
  "abort_retire h g =
    (case List.extract (\<lambda>gp. lock h (gp_peer gp) \<noteq> None) (g_peers g) of
       None \<Rightarrow> g
     | Some (before, gp, after) \<Rightarrow>
         abort_retire h (g\<lparr> g_peers := before @ after,
                            g_retired_peers := g_retired_peers g @ [retire gp] \<rparr>))"
  by pat_completeness auto
termination
  by (relation "measure (\<lambda>(h, g). length (g_peers g))") (auto dest: extract_SomeE)

declare abort_retire.simps [simp del]

definition abort_drop_owned :: "(string, u64) assoc \<Rightarrow> 'v game \<Rightarrow> 'v game" where
  "abort_drop_owned owned g =
     fold (\<lambda>(u, n) g. snd (remove_expected_user_if_generation u n g)) owned g"

text \<open>Restored reservations get a fresh generation and the default lifetime of 30 s.\<close>

fun abort_restore :: "(string \<times> u64) list \<Rightarrow> 'v game \<Rightarrow> 'v game \<times> (u32 \<times> task) list" where
  "abort_restore [] g = (g, [])"
| "abort_restore ((u, n) # removed) g =
    (if u \<in> set (g_expected_users g) then abort_restore removed g
     else case reserve_expected_user_with_generation u 30000 g of
       (_, g1, ts) \<Rightarrow> (case abort_restore removed g1 of (g2, ts') \<Rightarrow> (g2, ts @ ts')))"

definition restore_initial :: "'v game \<Rightarrow> 'v game" where
  "restore_initial g = g\<lparr>
     gr_reserved_generations := [], gr_removed_generations := [],
     g_flags := gi_flags g, g_is_open := gi_is_open g, g_is_visible := gi_is_visible g,
     g_player_ttl := gi_player_ttl g, g_empty_game_ttl := gi_empty_game_ttl g,
     g_max_peers := gi_max_peers g, g_master_actor := gi_master_actor g,
     g_custom_props := gi_custom_props g, g_lobby_props := gi_lobby_props g,
     g_last_actor_id := gi_last_actor_id g, g_dummy_peer_count := gi_dummy_peer_count g,
     g_event_cache := gi_event_cache g,
     g_state_revision := g_state_revision g + 1, g_creation_owner := None,
     g_is_created := gi_is_created g, g_is_creating := False \<rparr>"

definition abort_creation_transaction ::
  "heap \<Rightarrow> peer_ref option \<Rightarrow> u64 \<Rightarrow> 'v game \<Rightarrow> bool \<times> 'v game \<times> (u32 \<times> task) list" where
  "abort_creation_transaction h owner generation g =
    (if \<not> lease_held h owner generation g then (False, g, [])
     else let g1 = abort_retire h g;
              g2 = g1\<lparr> g_inactive_players := gi_inactive_players g1 \<rparr>;
              g3 = abort_drop_owned (gr_reserved_generations g2) g2
          in case abort_restore (gr_removed_generations g3) g3 of
               (g4, ts) \<Rightarrow> (True, restore_initial g4, ts))"

section \<open>The saved fields\<close>

text \<open>
  The part of the room the rollback puts back, read from the live fields and
  from the saved ones.
\<close>

definition live_config where
  "live_config g = ((g_is_created g, g_flags g, g_is_open g, g_is_visible g, g_player_ttl g,
     g_empty_game_ttl g, g_max_peers g), (g_master_actor g, g_custom_props g, g_lobby_props g,
     g_last_actor_id g, g_dummy_peer_count g, g_event_cache g, g_inactive_players g))"

definition saved_config where
  "saved_config g = ((gi_is_created g, gi_flags g, gi_is_open g, gi_is_visible g, gi_player_ttl g,
     gi_empty_game_ttl g, gi_max_peers g), (gi_master_actor g, gi_custom_props g, gi_lobby_props g,
     gi_last_actor_id g, gi_dummy_peer_count g, gi_event_cache g, gi_inactive_players g))"

lemma save_initial_saved: "saved_config (save_initial g) = live_config g"
  by (simp add: saved_config_def live_config_def save_initial_def)

lemma saved_config_drop [simp]: "saved_config (drop_reservation u g) = saved_config g"
  by (simp add: saved_config_def drop_reservation_def)

lemma saved_config_note [simp]: "saved_config (note_removed u n g) = saved_config g"
  by (simp add: saved_config_def note_removed_def)

lemma saved_config_add_reservation [simp]: "saved_config (add_reservation u n g) = saved_config g"
  by (simp add: saved_config_def add_reservation_def Let_def)

lemma saved_config_reserve [simp]:
  "saved_config (fst (snd (reserve_expected_user_with_generation u ttl g))) = saved_config g"
  by (cases rule: reserve_cases [of u g ttl]) simp_all

lemma saved_config_remove_if [simp]:
  "saved_config (snd (remove_expected_user_if_generation u n g)) = saved_config g"
  by (simp add: remove_expected_user_if_generation_def)

lemma saved_config_expire [simp]: "saved_config (expire_reservation u n g) = saved_config g"
  by (simp add: expire_reservation_def)

lemma saved_config_remove_expected [simp]: "saved_config (remove_expected_user u g) = saved_config g"
  by (simp add: remove_expected_user_def saved_config_def drop_reservation_def note_removed_def
      split: option.split)

end
