(* ===== verification/GameProps.thy ===== *)
theory GameProps
  imports GameMembers
begin

text \<open>
  Room and actor properties (src/game.cpp): the well-known properties that are
  backed by fields of the room, the custom ones, updates with their lobby
  notifications, and the compare-and-set expectations. An update is an
  association list in the iteration order of the received hashtable.
\<close>

section \<open>Reading\<close>

definition player_count :: "'v game \<Rightarrow> u8" where
  "player_count g = of_nat (length (g_peers g) + unat (g_dummy_peer_count g))"

definition well_known_prop :: "'v value_ops \<Rightarrow> wire_codes \<Rightarrow> u8 \<Rightarrow> 'v game \<Rightarrow> 'v option" where
  "well_known_prop vo wc k g =
    (if k = gp_MaxPlayers wc then Some (v_of_u8 vo (g_max_peers g))
     else if k = gp_IsVisible wc then Some (v_of_bool vo (g_is_visible g))
     else if k = gp_IsOpen wc then Some (v_of_bool vo (g_is_open g))
     else if k = gp_PlayerTTL wc then Some (v_of_i32 vo (g_player_ttl g))
     else if k = gp_EmptyGameTTL wc then Some (v_of_i32 vo (g_empty_game_ttl g))
     else if k = gp_MasterClientId wc then Some (v_of_i32 vo (g_master_actor g))
     else if k = gp_LobbyProperties wc then Some (v_of_strings vo (g_lobby_props g))
     else if k = gp_PlayerCount wc then Some (v_of_u8 vo (player_count g))
     else None)"

definition get_game_prop :: "'v value_ops \<Rightarrow> wire_codes \<Rightarrow> 'v \<Rightarrow> 'v game \<Rightarrow> 'v" where
  "get_game_prop vo wc key g =
    (let custom = (case map_of (g_custom_props g) key of Some v \<Rightarrow> v | None \<Rightarrow> v_null vo)
     in case v_u8 vo key of
          Some k \<Rightarrow> (case well_known_prop vo wc k g of Some v \<Rightarrow> v | None \<Rightarrow> custom)
        | None \<Rightarrow> custom)"

definition get_lobby_game_props :: "'v value_ops \<Rightarrow> wire_codes \<Rightarrow> 'v game \<Rightarrow> ('v, 'v) assoc" where
  "get_lobby_game_props vo wc g =
    (let base = ht_put (ht_put (ht_put [] (v_of_u8 vo (gp_PlayerCount wc)) (v_of_u8 vo (player_count g)))
                  (v_of_u8 vo (gp_IsOpen wc)) (v_of_bool vo (g_is_open g)))
                  (v_of_u8 vo (gp_MaxPlayers wc)) (v_of_u8 vo (g_max_peers g))
     in fold (\<lambda>key acc. case map_of (g_custom_props g) (v_of_string vo key) of
                None \<Rightarrow> acc | Some v \<Rightarrow> ht_emplace acc (v_of_string vo key) v)
          (g_lobby_props g) base)"

definition get_game_props :: "'v value_ops \<Rightarrow> wire_codes \<Rightarrow> bool \<Rightarrow> 'v game \<Rightarrow> ('v, 'v) assoc" where
  "get_game_props vo wc no_custom g =
     fold (\<lambda>(k, v) acc. ht_put acc (v_of_u8 vo k) v)
       [(gp_MaxPlayers wc, v_of_u8 vo (g_max_peers g)),
        (gp_IsVisible wc, v_of_bool vo (g_is_visible g)),
        (gp_IsOpen wc, v_of_bool vo (g_is_open g)),
        (gp_PlayerTTL wc, v_of_i32 vo (g_player_ttl g)),
        (gp_EmptyGameTTL wc, v_of_i32 vo (g_empty_game_ttl g)),
        (gp_MasterClientId wc, v_of_i32 vo (g_master_actor g)),
        (gp_LobbyProperties wc, v_of_strings vo (g_lobby_props g)),
        (gp_PlayerCount wc, v_of_u8 vo (player_count g))]
       (if no_custom then [] else g_custom_props g)"

definition get_actor_props :: "'v value_ops \<Rightarrow> 'v game \<Rightarrow> ('v, 'v) assoc" where
  "get_actor_props vo g =
     fold (\<lambda>gp acc. ht_put acc (v_of_i32 vo (gp_actor_id gp)) (v_of_hash vo (gp_actor_props gp)))
       (g_peers g) []"

definition get_actor_props_for :: "int \<Rightarrow> 'v game \<Rightarrow> ('v, 'v) assoc" where
  "get_actor_props_for actor g =
    (case find_peer_actor g actor of Some gp \<Rightarrow> gp_actor_props gp | None \<Rightarrow> [])"

section \<open>Updating the room\<close>

text \<open>
  The rows of \<^theory_text>\<open>PROP_MAP\<close>: the property a byte key selects, whether the lobby
  shows it, and the typed store. A store yields the room and whether the field
  changed its value; a value of another type is ignored.
\<close>

datatype prop_slot = MaxPlayers | IsVisible | IsOpen | PlayerTTL | EmptyGameTTL | MasterClientId
  | LobbyProperties

definition prop_slot_of :: "wire_codes \<Rightarrow> u8 \<Rightarrow> prop_slot option" where
  "prop_slot_of wc k =
    (if k = gp_MaxPlayers wc then Some MaxPlayers
     else if k = gp_IsVisible wc then Some IsVisible
     else if k = gp_IsOpen wc then Some IsOpen
     else if k = gp_PlayerTTL wc then Some PlayerTTL
     else if k = gp_EmptyGameTTL wc then Some EmptyGameTTL
     else if k = gp_MasterClientId wc then Some MasterClientId
     else if k = gp_LobbyProperties wc then Some LobbyProperties
     else None)"

fun slot_updates_lobby :: "prop_slot \<Rightarrow> bool" where
  "slot_updates_lobby MaxPlayers = True"
| "slot_updates_lobby IsVisible = False"
| "slot_updates_lobby IsOpen = True"
| "slot_updates_lobby PlayerTTL = False"
| "slot_updates_lobby EmptyGameTTL = False"
| "slot_updates_lobby MasterClientId = False"
| "slot_updates_lobby LobbyProperties = True"

fun slot_store :: "'v value_ops \<Rightarrow> prop_slot \<Rightarrow> 'v \<Rightarrow> 'v game \<Rightarrow> 'v game \<times> bool" where
  "slot_store vo MaxPlayers v g =
     (case v_u8 vo v of None \<Rightarrow> (g, False) | Some x \<Rightarrow> (g\<lparr> g_max_peers := x \<rparr>, g_max_peers g \<noteq> x))"
| "slot_store vo IsVisible v g =
     (case v_bool vo v of None \<Rightarrow> (g, False) | Some x \<Rightarrow> (g\<lparr> g_is_visible := x \<rparr>, g_is_visible g \<noteq> x))"
| "slot_store vo IsOpen v g =
     (case v_bool vo v of None \<Rightarrow> (g, False) | Some x \<Rightarrow> (g\<lparr> g_is_open := x \<rparr>, g_is_open g \<noteq> x))"
| "slot_store vo PlayerTTL v g =
     (case v_i32 vo v of None \<Rightarrow> (g, False) | Some x \<Rightarrow> (g\<lparr> g_player_ttl := x \<rparr>, g_player_ttl g \<noteq> x))"
| "slot_store vo EmptyGameTTL v g =
     (case v_i32 vo v of None \<Rightarrow> (g, False)
      | Some x \<Rightarrow> (g\<lparr> g_empty_game_ttl := x \<rparr>, g_empty_game_ttl g \<noteq> x))"
| "slot_store vo MasterClientId v g =
     (case v_i32 vo v of None \<Rightarrow> (g, False) | Some x \<Rightarrow> (g\<lparr> g_master_actor := x \<rparr>, g_master_actor g \<noteq> x))"
| "slot_store vo LobbyProperties v g =
     (case v_strings vo v of None \<Rightarrow> (g, False) | Some x \<Rightarrow> (g\<lparr> g_lobby_props := x \<rparr>, g_lobby_props g \<noteq> x))"

text \<open>
  One entry with a byte key. The results are the room, whether a field changed
  its value, and whether that change concerns the lobby. Changing the master is
  ignored where the application does not allow it.
\<close>

definition store_prop ::
  "'v value_ops \<Rightarrow> wire_codes \<Rightarrow> app_settings \<Rightarrow> u8 \<Rightarrow> 'v \<Rightarrow> 'v game \<Rightarrow> 'v game \<times> bool \<times> bool" where
  "store_prop vo wc cfg k v g =
    (case prop_slot_of wc k of
       None \<Rightarrow> (g, False, False)
     | Some s \<Rightarrow>
         if s = MasterClientId \<and> \<not> as_allow_change_master cfg then (g, False, False)
         else case slot_store vo s v g of (g', c) \<Rightarrow> (g', c, slot_updates_lobby s))"

definition store_custom :: "'v value_ops \<Rightarrow> bool \<Rightarrow> 'v \<Rightarrow> 'v \<Rightarrow> 'v game \<Rightarrow> 'v game \<times> bool" where
  "store_custom vo delete_null key v g =
    (if key \<noteq> v_null vo then
       (if map_of (g_custom_props g) key = Some v then (g, False)
        else (g\<lparr> g_custom_props := ht_put (g_custom_props g) key v \<rparr>, True))
     else if delete_null \<and> map_of (g_custom_props g) key \<noteq> None
     then (g\<lparr> g_custom_props := ht_erase (g_custom_props g) key \<rparr>, True)
     else (g, False))"

definition insert_entry ::
  "'v value_ops \<Rightarrow> wire_codes \<Rightarrow> app_settings \<Rightarrow> bool \<Rightarrow> 'v \<Rightarrow> 'v \<Rightarrow> 'v game \<Rightarrow> 'v game \<times> bool \<times> bool" where
  "insert_entry vo wc cfg delete_null key v g =
    (case v_u8 vo key of
       Some k \<Rightarrow> store_prop vo wc cfg k v g
     | None \<Rightarrow> (case store_custom vo delete_null key v g of (g', c) \<Rightarrow> (g', c, False)))"

text \<open>The loop over the update: the room, \<^theory_text>\<open>update_lobby\<close> and \<^theory_text>\<open>changed\<close>.\<close>

fun insert_entries ::
  "'v value_ops \<Rightarrow> wire_codes \<Rightarrow> app_settings \<Rightarrow> bool \<Rightarrow> ('v, 'v) assoc
     \<Rightarrow> 'v game \<times> bool \<times> bool \<Rightarrow> 'v game \<times> bool \<times> bool" where
  "insert_entries vo wc cfg delete_null [] s = s"
| "insert_entries vo wc cfg delete_null ((key, v) # rest) (g, update_lobby, changed) =
    (case insert_entry vo wc cfg delete_null key v g of
       (g', value_changed, updates_lobby) \<Rightarrow>
          insert_entries vo wc cfg delete_null rest
            (g', update_lobby \<or> (value_changed \<and> updates_lobby), changed \<or> value_changed))"

text \<open>The notifications an update causes, in order.\<close>

datatype lobby_effect = NotifyGameDelete | TriggerLobbyUpdate

definition insert_game_props ::
  "'v value_ops \<Rightarrow> wire_codes \<Rightarrow> app_settings \<Rightarrow> ('v, 'v) assoc \<Rightarrow> 'v game \<Rightarrow> 'v game \<times> lobby_effect list" where
  "insert_game_props vo wc cfg update g =
    (case insert_entries vo wc cfg (has_flag (g_flags g) (f_DeleteNullProps wc)) update (g, False, False) of
       (g1, update_lobby, changed) \<Rightarrow>
         let g2 = (if changed then g1\<lparr> g_state_revision := g_state_revision g1 + 1 \<rparr> else g1);
             visibility_changed = (g_is_visible g \<noteq> g_is_visible g2)
         in (g2, (if visibility_changed \<and> g_is_visible g then [NotifyGameDelete] else [])
               @ (if update_lobby \<or> visibility_changed then [TriggerLobbyUpdate] else [])))"

section \<open>Expectations\<close>

definition expect_well_known :: "'v value_ops \<Rightarrow> wire_codes \<Rightarrow> ('v, 'v) assoc \<Rightarrow> 'v game \<Rightarrow> bool" where
  "expect_well_known vo wc expected g \<longleftrightarrow>
     (case map_of expected (v_of_u8 vo (gp_MaxPlayers wc)) of None \<Rightarrow> True
        | Some v \<Rightarrow> v_u8 vo v = Some (g_max_peers g))
   \<and> (case map_of expected (v_of_u8 vo (gp_IsVisible wc)) of None \<Rightarrow> True
        | Some v \<Rightarrow> v_bool vo v = Some (g_is_visible g))
   \<and> (case map_of expected (v_of_u8 vo (gp_IsOpen wc)) of None \<Rightarrow> True
        | Some v \<Rightarrow> v_bool vo v = Some (g_is_open g))
   \<and> (case map_of expected (v_of_u8 vo (gp_PlayerTTL wc)) of None \<Rightarrow> True
        | Some v \<Rightarrow> v_i32 vo v = Some (g_player_ttl g))
   \<and> (case map_of expected (v_of_u8 vo (gp_EmptyGameTTL wc)) of None \<Rightarrow> True
        | Some v \<Rightarrow> v_i32 vo v = Some (g_empty_game_ttl g))
   \<and> (case map_of expected (v_of_u8 vo (gp_MasterClientId wc)) of None \<Rightarrow> True
        | Some v \<Rightarrow> v_i32 vo v = Some (g_master_actor g))
   \<and> (case map_of expected (v_of_u8 vo (gp_LobbyProperties wc)) of None \<Rightarrow> True
        | Some v \<Rightarrow> v_strings vo v = Some (g_lobby_props g))"

definition prop_map_keys :: "wire_codes \<Rightarrow> u8 list" where
  "prop_map_keys wc = [gp_MaxPlayers wc, gp_IsVisible wc, gp_IsOpen wc, gp_PlayerTTL wc,
     gp_EmptyGameTTL wc, gp_MasterClientId wc, gp_LobbyProperties wc]"

definition expect_game_props :: "'v value_ops \<Rightarrow> wire_codes \<Rightarrow> ('v, 'v) assoc \<Rightarrow> 'v game \<Rightarrow> bool" where
  "expect_game_props vo wc expected g \<longleftrightarrow>
     expect_well_known vo wc expected g
   \<and> list_all (\<lambda>(key, v).
        key \<in> v_of_u8 vo ` set (prop_map_keys wc)
      \<or> (case map_of (g_custom_props g) key of
           None \<Rightarrow> v = v_null vo \<and> has_flag (g_flags g) (f_DeleteNullProps wc)
         | Some w \<Rightarrow> w = v)) expected"

definition apply_game_props ::
  "'v value_ops \<Rightarrow> wire_codes \<Rightarrow> app_settings \<Rightarrow> ('v, 'v) assoc \<Rightarrow> ('v, 'v) assoc option
     \<Rightarrow> 'v game \<Rightarrow> bool \<times> 'v game \<times> lobby_effect list" where
  "apply_game_props vo wc cfg update expected g =
    (if (case expected of None \<Rightarrow> False | Some e \<Rightarrow> \<not> expect_game_props vo wc e g) then (False, g, [])
     else case insert_game_props vo wc cfg update g of (g', fx) \<Rightarrow> (True, g', fx))"

section \<open>Actor properties\<close>

fun actor_entries :: "'v value_ops \<Rightarrow> bool \<Rightarrow> ('v, 'v) assoc \<Rightarrow> ('v, 'v) assoc \<Rightarrow> ('v, 'v) assoc" where
  "actor_entries vo delete_null [] props = props"
| "actor_entries vo delete_null ((key, v) # rest) props =
     actor_entries vo delete_null rest
       (if key \<noteq> v_null vo then ht_put props key v
        else if delete_null \<and> map_of props key \<noteq> None then ht_erase props key else props)"

definition insert_actor_props ::
  "'v value_ops \<Rightarrow> wire_codes \<Rightarrow> int \<Rightarrow> ('v, 'v) assoc \<Rightarrow> 'v game \<Rightarrow> bool \<times> 'v game" where
  "insert_actor_props vo wc actor update g =
    (case find_peer_actor g actor of None \<Rightarrow> (False, g)
     | Some _ \<Rightarrow> (True, g\<lparr> g_peers := update_first
         (\<lambda>gp. gp_active gp \<and> gp_actor_id gp = actor)
         (\<lambda>gp. gp\<lparr> gp_actor_props := actor_entries vo (has_flag (g_flags g) (f_DeleteNullProps wc))
                    update (gp_actor_props gp) \<rparr>)
         (g_peers g) \<rparr>))"

text \<open>
  The test of one expected entry: \<^theory_text>\<open>Inr\<close> of whether it holds, \<^theory_text>\<open>Inl ()\<close> where
  \<^theory_text>\<open>actor_props.at(key)\<close> throws because the key is absent.
\<close>

definition expect_actor_entry ::
  "'v value_ops \<Rightarrow> bool \<Rightarrow> ('v, 'v) assoc \<Rightarrow> 'v \<times> 'v \<Rightarrow> unit + bool" where
  "expect_actor_entry vo delete_null props kv =
    (if map_of props (fst kv) = None \<and> (snd kv \<noteq> v_null vo \<or> \<not> delete_null) then Inr False
     else case map_of props (fst kv) of None \<Rightarrow> Inl () | Some w \<Rightarrow> Inr (w = snd kv))"

fun expect_actor_entries ::
  "'v value_ops \<Rightarrow> bool \<Rightarrow> ('v, 'v) assoc \<Rightarrow> ('v, 'v) assoc \<Rightarrow> unit + bool" where
  "expect_actor_entries vo delete_null props [] = Inr True"
| "expect_actor_entries vo delete_null props (kv # rest) =
    (case expect_actor_entry vo delete_null props kv of
       Inl e \<Rightarrow> Inl e
     | Inr False \<Rightarrow> Inr False
     | Inr True \<Rightarrow> expect_actor_entries vo delete_null props rest)"

definition expect_actor_props ::
  "'v value_ops \<Rightarrow> wire_codes \<Rightarrow> int \<Rightarrow> ('v, 'v) assoc \<Rightarrow> 'v game \<Rightarrow> unit + bool" where
  "expect_actor_props vo wc actor expected g =
    (case find_peer_actor g actor of None \<Rightarrow> Inr False
     | Some gp \<Rightarrow> expect_actor_entries vo (has_flag (g_flags g) (f_DeleteNullProps wc))
                    (gp_actor_props gp) expected)"

definition apply_actor_props ::
  "'v value_ops \<Rightarrow> wire_codes \<Rightarrow> int \<Rightarrow> ('v, 'v) assoc \<Rightarrow> ('v, 'v) assoc option \<Rightarrow> 'v game
     \<Rightarrow> unit + bool \<times> 'v game" where
  "apply_actor_props vo wc actor update expected g =
    (case expected of
       None \<Rightarrow> Inr (insert_actor_props vo wc actor update g)
     | Some e \<Rightarrow> (case expect_actor_props vo wc actor e g of
         Inl err \<Rightarrow> Inl err
       | Inr False \<Rightarrow> Inr (False, g)
       | Inr True \<Rightarrow> Inr (insert_actor_props vo wc actor update g)))"

section \<open>Events about properties\<close>

definition create_property_update_event ::
  "'v value_ops \<Rightarrow> wire_codes \<Rightarrow> int \<Rightarrow> ('v, 'v) assoc \<Rightarrow> int \<Rightarrow> 'v game \<Rightarrow> 'v event" where
  "create_property_update_event vo wc actor props target g =
     \<lparr> ev_code = ec_PropertiesUpdate wc, ev_sender = actor, ev_delivery_mode = dm_Reliable wc, ev_channel = 0,
       ev_receivers = Group (if has_flag (g_flags g) (f_BroadcastPropsChangeToAll wc)
                             then rg_All wc else rg_Others wc),
       ev_interest_group = 0, ev_data = v_null vo,
       ev_top_params = ht_put (ht_put [] (dk_TargetActorNo wc) (v_of_i32 vo target))
                         (dk_Properties wc) (v_of_hash vo props),
       ev_cached = replicate (n_protocols wc) [] \<rparr>"

definition matches_filter :: "'v value_ops \<Rightarrow> 'v \<Rightarrow> ('v, 'v) assoc \<Rightarrow> bool" where
  "matches_filter vo event_data flt \<longleftrightarrow>
     (flt = [] \<or> (case v_hash vo event_data of None \<Rightarrow> False
        | Some data \<Rightarrow> list_all (\<lambda>(key, v). map_of data key = Some v) flt))"

section \<open>An update that is already in place\<close>

text \<open>An entry is absorbed by a room when inserting it changes nothing.\<close>

definition absorbed ::
  "'v value_ops \<Rightarrow> wire_codes \<Rightarrow> app_settings \<Rightarrow> bool \<Rightarrow> 'v game \<Rightarrow> 'v \<times> 'v \<Rightarrow> bool" where
  "absorbed vo wc cfg dn g e \<longleftrightarrow> \<not> fst (snd (insert_entry vo wc cfg dn (fst e) (snd e) g))"

lemma slot_store_same: "\<not> snd (slot_store vo s v g) \<Longrightarrow> fst (slot_store vo s v g) = g"
  by (cases s; cases "v_u8 vo v"; cases "v_bool vo v"; cases "v_i32 vo v"; cases "v_strings vo v"; auto)

lemma slot_store_twice: "\<not> snd (slot_store vo s v (fst (slot_store vo s v g)))"
  by (cases s; simp split: option.split)

lemma slot_store_other:
  "s \<noteq> s' \<Longrightarrow> snd (slot_store vo s v (fst (slot_store vo s' v' g))) = snd (slot_store vo s v g)"
  by (cases s; cases s'; simp split: option.split)

lemma slot_store_frame [simp]:
  "g_custom_props (fst (slot_store vo s v g)) = g_custom_props g"
  "g_flags (fst (slot_store vo s v g)) = g_flags g"
  "g_peers (fst (slot_store vo s v g)) = g_peers g"
  by (cases s; simp split: option.split)+

lemma slot_store_custom_update [simp]:
  "snd (slot_store vo s v (g\<lparr> g_custom_props := ps \<rparr>)) = snd (slot_store vo s v g)"
  "snd (slot_store vo s v (g\<lparr> g_state_revision := r \<rparr>)) = snd (slot_store vo s v g)"
  by (cases s; simp split: option.split)+

lemma store_prop_alt:
  "fst (snd (store_prop vo wc cfg k v g)) \<longleftrightarrow> (\<exists>s. prop_slot_of wc k = Some s
     \<and> \<not> (s = MasterClientId \<and> \<not> as_allow_change_master cfg) \<and> snd (slot_store vo s v g))"
  "fst (store_prop vo wc cfg k v g) = (case prop_slot_of wc k of None \<Rightarrow> g
     | Some s \<Rightarrow> if s = MasterClientId \<and> \<not> as_allow_change_master cfg then g else fst (slot_store vo s v g))"
  by (auto simp: store_prop_def split: option.split prod.split)

lemma prop_slot_of_inj:
  "prop_slot_of wc k = Some s \<Longrightarrow> prop_slot_of wc k' = Some s \<Longrightarrow> k = k'"
  by (auto simp: prop_slot_of_def split: if_splits)

lemma store_prop_same:
  "\<not> fst (snd (store_prop vo wc cfg k v g)) \<Longrightarrow> fst (store_prop vo wc cfg k v g) = g"
  by (auto simp: store_prop_alt slot_store_same split: option.split)

lemma store_prop_twice:
  "\<not> fst (snd (store_prop vo wc cfg k v (fst (store_prop vo wc cfg k v g))))"
  by (simp add: store_prop_alt slot_store_twice)

lemma store_prop_other:
  assumes "k \<noteq> k'"
  shows "fst (snd (store_prop vo wc cfg k v (fst (store_prop vo wc cfg k' v' g))))
     = fst (snd (store_prop vo wc cfg k v g))"
proof -
  have "s \<noteq> s'" if "prop_slot_of wc k = Some s" "prop_slot_of wc k' = Some s'" for s s'
    using that assms prop_slot_of_inj by metis
  then show ?thesis by (auto simp: store_prop_alt slot_store_other split: option.split)
qed

lemma store_prop_frame [simp]:
  "g_custom_props (fst (store_prop vo wc cfg k v g)) = g_custom_props g"
  "g_flags (fst (store_prop vo wc cfg k v g)) = g_flags g"
  "g_peers (fst (store_prop vo wc cfg k v g)) = g_peers g"
  by (simp_all add: store_prop_alt split: option.split)

lemma store_prop_other_fields [simp]:
  "fst (snd (store_prop vo wc cfg k v (g\<lparr> g_custom_props := ps \<rparr>))) = fst (snd (store_prop vo wc cfg k v g))"
  "fst (snd (store_prop vo wc cfg k v (g\<lparr> g_state_revision := r \<rparr>))) = fst (snd (store_prop vo wc cfg k v g))"
  by (simp_all add: store_prop_alt)

lemma store_custom_cases:
  obtains (same) "store_custom vo dn key v g = (g, False)"
      "key \<noteq> v_null vo \<longrightarrow> map_of (g_custom_props g) key = Some v"
      "key = v_null vo \<and> dn \<longrightarrow> map_of (g_custom_props g) key = None"
  | (put) "key \<noteq> v_null vo" "map_of (g_custom_props g) key \<noteq> Some v"
      "store_custom vo dn key v g = (g\<lparr> g_custom_props := ht_put (g_custom_props g) key v \<rparr>, True)"
  | (erase) "key = v_null vo" "dn" "map_of (g_custom_props g) key \<noteq> None"
      "store_custom vo dn key v g = (g\<lparr> g_custom_props := ht_erase (g_custom_props g) key \<rparr>, True)"
proof (cases "key = v_null vo")
  case True
  show ?thesis
  proof (cases "dn \<and> map_of (g_custom_props g) key \<noteq> None")
    case True
    with \<open>key = v_null vo\<close> show ?thesis by (intro erase) (simp_all add: store_custom_def)
  next
    case False
    then have "store_custom vo dn key v g = (g, False)"
      unfolding store_custom_def using \<open>key = v_null vo\<close> by (simp only: if_False not_True_eq_False simp_thms)
    with False \<open>key = v_null vo\<close> show ?thesis by (intro same) simp_all
  qed
next
  case False
  then show ?thesis
    by (cases "map_of (g_custom_props g) key = Some v")
      (intro same put; simp add: store_custom_def)+
qed

lemma store_custom_changes:
  "snd (store_custom vo dn key v g) \<longleftrightarrow>
     (if key = v_null vo then dn \<and> map_of (g_custom_props g) key \<noteq> None
      else map_of (g_custom_props g) key \<noteq> Some v)"
  by (cases rule: store_custom_cases [of vo dn key v g]) auto

lemma store_custom_frame:
  "fst (snd (store_prop vo wc cfg k v (fst (store_custom vo dn key w g)))) = fst (snd (store_prop vo wc cfg k v g))"
  "g_flags (fst (store_custom vo dn key w g)) = g_flags g"
  "g_peers (fst (store_custom vo dn key w g)) = g_peers g"
  by (cases rule: store_custom_cases [of vo dn key w g]; simp)+

lemma insert_entry_alt:
  "fst (snd (insert_entry vo wc cfg dn key v g)) = (case v_u8 vo key of
      Some k \<Rightarrow> fst (snd (store_prop vo wc cfg k v g)) | None \<Rightarrow> snd (store_custom vo dn key v g))"
  "fst (insert_entry vo wc cfg dn key v g) = (case v_u8 vo key of
      Some k \<Rightarrow> fst (store_prop vo wc cfg k v g) | None \<Rightarrow> fst (store_custom vo dn key v g))"
  by (simp_all add: insert_entry_def split: option.split prod.split)

lemma insert_entry_same: "absorbed vo wc cfg dn g e \<Longrightarrow> fst (insert_entry vo wc cfg dn (fst e) (snd e) g) = g"
proof (cases "v_u8 vo (fst e)")
  case None
  assume "absorbed vo wc cfg dn g e"
  with None show ?thesis
    by (cases rule: store_custom_cases [of vo dn "fst e" "snd e" g])
      (auto simp: absorbed_def insert_entry_alt)
next
  case (Some k)
  assume "absorbed vo wc cfg dn g e"
  with Some show ?thesis by (simp add: absorbed_def insert_entry_alt store_prop_same)
qed

lemma insert_entry_absorbs:
  "absorbed vo wc cfg dn (fst (insert_entry vo wc cfg dn (fst e) (snd e) g)) e"
proof (cases "v_u8 vo (fst e)")
  case None
  then show ?thesis
    by (cases rule: store_custom_cases [of vo dn "fst e" "snd e" g])
      (auto simp: absorbed_def insert_entry_alt store_custom_changes)
next
  case (Some k)
  then show ?thesis using store_prop_twice by (simp add: absorbed_def insert_entry_alt)
qed

lemma value_laws_u8_inj:
  "value_laws vo \<Longrightarrow> v_u8 vo v = Some k \<Longrightarrow> v_u8 vo w = Some k \<Longrightarrow> v = w"
  by (simp add: value_laws_def) metis

lemma insert_entry_other:
  assumes "value_laws vo" "fst e \<noteq> fst e'"
  shows "absorbed vo wc cfg dn (fst (insert_entry vo wc cfg dn (fst e') (snd e') g)) e
     = absorbed vo wc cfg dn g e"
proof (cases "v_u8 vo (fst e)")
  case None
  have "map_of (g_custom_props (fst (insert_entry vo wc cfg dn (fst e') (snd e') g))) (fst e)
      = map_of (g_custom_props g) (fst e)"
    using assms(2) by (cases rule: store_custom_cases [of vo dn "fst e'" "snd e'" g])
      (auto simp: insert_entry_alt split: option.split)
  with None show ?thesis
    by (auto simp: absorbed_def insert_entry_alt(1) store_custom_changes)
next
  case (Some k)
  show ?thesis
  proof (cases "v_u8 vo (fst e')")
    case None
    with Some show ?thesis by (simp add: absorbed_def insert_entry_alt store_custom_frame)
  next
    case (Some k')
    with \<open>v_u8 vo (fst e) = Some k\<close> have "k \<noteq> k'"
      using value_laws_u8_inj [OF assms(1)] assms(2) by blast
    with Some \<open>v_u8 vo (fst e) = Some k\<close> show ?thesis
      by (simp add: absorbed_def insert_entry_alt store_prop_other)
  qed
qed

lemma insert_entries_absorbed_keep:
  assumes "value_laws vo" "absorbed vo wc cfg dn g e" "fst e \<notin> fst ` set es"
  shows "absorbed vo wc cfg dn (fst (insert_entries vo wc cfg dn es (g, ul, ch))) e"
  using assms
proof (induction es arbitrary: g ul ch)
  case (Cons e' es)
  obtain key v where e': "e' = (key, v)" by force
  obtain g' c sh where i: "insert_entry vo wc cfg dn key v g = (g', c, sh)" by (metis prod_cases3)
  have "absorbed vo wc cfg dn g' e"
    using insert_entry_other [OF Cons.prems(1), of e e' wc cfg dn g] Cons.prems i by (auto simp: e')
  with Cons i show ?case by (simp add: e')
qed simp

lemma insert_entries_all_absorbed:
  assumes "value_laws vo" "distinct (map fst es)"
  shows "\<forall>e\<in>set es. absorbed vo wc cfg dn (fst (insert_entries vo wc cfg dn es (g, ul, ch))) e"
  using assms
proof (induction es arbitrary: g ul ch)
  case (Cons e es)
  obtain key v where e: "e = (key, v)" by force
  obtain g' c sh where i: "insert_entry vo wc cfg dn key v g = (g', c, sh)" by (metis prod_cases3)
  have "absorbed vo wc cfg dn g' e"
    using insert_entry_absorbs [of vo wc cfg dn e g] i by (simp add: e)
  with insert_entries_absorbed_keep [OF Cons.prems(1) this] Cons i show ?case by (auto simp: e)
qed simp

lemma insert_entries_absorbed_noop:
  assumes "\<forall>e\<in>set es. absorbed vo wc cfg dn g e"
  shows "insert_entries vo wc cfg dn es (g, ul, ch) = (g, ul, ch)"
  using assms
proof (induction es)
  case (Cons e es)
  obtain key v where e: "e = (key, v)" by force
  have a: "absorbed vo wc cfg dn g e" using Cons.prems by simp
  obtain g' c sh where i: "insert_entry vo wc cfg dn key v g = (g', c, sh)" by (metis prod_cases3)
  with a insert_entry_same [OF a] have "g' = g" "\<not> c" by (auto simp: absorbed_def e)
  with Cons i show ?case by (simp add: e)
qed simp

lemma insert_entries_flags:
  "g_flags (fst (insert_entries vo wc cfg dn es (g, ul, ch))) = g_flags g"
proof (induction es arbitrary: g ul ch)
  case (Cons e es)
  obtain key v where e: "e = (key, v)" by force
  obtain g' c sh where i: "insert_entry vo wc cfg dn key v g = (g', c, sh)" by (metis prod_cases3)
  have "g_flags (fst (insert_entry vo wc cfg dn key v g)) = g_flags g"
    by (simp add: insert_entry_alt store_custom_frame split: option.split)
  with Cons i show ?case by (simp add: e)
qed simp

lemma absorbed_revision [simp]:
  "absorbed vo wc cfg dn (g\<lparr> g_state_revision := r \<rparr>) e = absorbed vo wc cfg dn g e"
  by (simp add: absorbed_def insert_entry_alt store_custom_changes split: option.split)

section \<open>What an update reports\<close>

fun slot_changed :: "prop_slot \<Rightarrow> 'v game \<Rightarrow> 'v game \<Rightarrow> bool" where
  "slot_changed MaxPlayers g g' \<longleftrightarrow> g_max_peers g \<noteq> g_max_peers g'"
| "slot_changed IsVisible g g' \<longleftrightarrow> g_is_visible g \<noteq> g_is_visible g'"
| "slot_changed IsOpen g g' \<longleftrightarrow> g_is_open g \<noteq> g_is_open g'"
| "slot_changed PlayerTTL g g' \<longleftrightarrow> g_player_ttl g \<noteq> g_player_ttl g'"
| "slot_changed EmptyGameTTL g g' \<longleftrightarrow> g_empty_game_ttl g \<noteq> g_empty_game_ttl g'"
| "slot_changed MasterClientId g g' \<longleftrightarrow> g_master_actor g \<noteq> g_master_actor g'"
| "slot_changed LobbyProperties g g' \<longleftrightarrow> g_lobby_props g \<noteq> g_lobby_props g'"

lemma slot_changed_refl [simp]: "\<not> slot_changed s g g"
  by (cases s) auto

lemma slot_changed_trans:
  "\<not> slot_changed s g1 g2 \<Longrightarrow> slot_changed s g1 g3 = slot_changed s g2 g3"
  "\<not> slot_changed s g2 g3 \<Longrightarrow> slot_changed s g1 g3 = slot_changed s g1 g2"
  by (cases s; auto)+

lemma slot_store_changed:
  "slot_changed s' g (fst (slot_store vo s v g)) \<longleftrightarrow> s' = s \<and> snd (slot_store vo s v g)"
  by (cases s; cases s'; simp split: option.split)

lemma store_custom_slot [simp]: "\<not> slot_changed s g (fst (store_custom vo dn key v g))"
  by (cases rule: store_custom_cases [of vo dn key v g]; cases s) auto

lemma insert_entry_slot:
  "slot_changed s g (fst (insert_entry vo wc cfg dn key v g)) \<longleftrightarrow>
     (\<exists>k. v_u8 vo key = Some k \<and> prop_slot_of wc k = Some s)
     \<and> fst (snd (insert_entry vo wc cfg dn key v g))"
  by (auto simp: insert_entry_alt store_prop_alt slot_store_changed split: option.split)

lemma insert_entry_shown:
  "fst (snd (insert_entry vo wc cfg dn key v g)) \<and> snd (snd (insert_entry vo wc cfg dn key v g))
    \<longleftrightarrow> (\<exists>s. slot_updates_lobby s \<and> slot_changed s g (fst (insert_entry vo wc cfg dn key v g)))"
proof -
  have "snd (snd (insert_entry vo wc cfg dn key v g)) \<longleftrightarrow> (\<exists>k s. v_u8 vo key = Some k
      \<and> prop_slot_of wc k = Some s \<and> slot_updates_lobby s)"
    if "fst (snd (insert_entry vo wc cfg dn key v g))"
    using that by (auto simp: insert_entry_def store_prop_def split: option.splits prod.splits if_splits)
  then show ?thesis by (auto simp: insert_entry_slot)
qed

lemma insert_entries_slot_keep:
  assumes "value_laws vo" "prop_slot_of wc k = Some s" "v_of_u8 vo k \<notin> fst ` set es"
  shows "\<not> slot_changed s g (fst (insert_entries vo wc cfg dn es (g, ul, ch)))"
  using assms(3)
proof (induction es arbitrary: g ul ch)
  case (Cons e es)
  obtain key v where e: "e = (key, v)" by force
  obtain g' c sh where i: "insert_entry vo wc cfg dn key v g = (g', c, sh)" by (metis prod_cases3)
  have "v_u8 vo key = Some k' \<Longrightarrow> k' \<noteq> k" for k'
    using Cons.prems assms(1) by (auto simp: e value_laws_def)
  then have "\<not> slot_changed s g g'"
    using insert_entry_slot [of s g vo wc cfg dn key v] i prop_slot_of_inj [OF assms(2)] by auto
  moreover have "\<not> slot_changed s g' (fst (insert_entries vo wc cfg dn es (g', ul \<or> (c \<and> sh), ch \<or> c)))"
    using Cons by (simp add: e)
  ultimately show ?case using i slot_changed_trans(1) [of s g g'] by (simp add: e)
qed simp

lemma insert_entries_reports:
  assumes "value_laws vo" "distinct (map fst es)"
    "insert_entries vo wc cfg dn es (g, ul, ch) = (g', ul', ch')"
  shows "ul' \<longleftrightarrow> ul \<or> (\<exists>s. slot_updates_lobby s \<and> slot_changed s g g')"
  using assms(2,3)
proof (induction es arbitrary: g ul ch)
  case (Cons e es)
  obtain key v where e: "e = (key, v)" by force
  obtain g1 c sh where i: "insert_entry vo wc cfg dn key v g = (g1, c, sh)" by (metis prod_cases3)
  have ih: "ul' \<longleftrightarrow> ul \<or> (c \<and> sh) \<or> (\<exists>s. slot_updates_lobby s \<and> slot_changed s g1 g')"
    using Cons.IH [of g1 "ul \<or> (c \<and> sh)" "ch \<or> c"] Cons.prems by (simp add: e i)
  have cs: "c \<and> sh \<longleftrightarrow> (\<exists>s. slot_updates_lobby s \<and> slot_changed s g g1)"
    using insert_entry_shown [of vo wc cfg dn key v g] by (simp add: i)
  have keep: "\<not> slot_changed s g1 g'" if sc: "slot_changed s g g1" for s
  proof -
    obtain k where k: "v_u8 vo key = Some k" "prop_slot_of wc k = Some s"
      using sc insert_entry_slot [of s g vo wc cfg dn key v] unfolding i fst_conv by blast
    then have "key = v_of_u8 vo k" using assms(1) by (simp add: value_laws_def)
    with Cons.prems(1) have "v_of_u8 vo k \<notin> fst ` set es" by (auto simp: e)
    from insert_entries_slot_keep [OF assms(1) k(2) this, of g1 cfg dn "ul \<or> (c \<and> sh)" "ch \<or> c"]
    show ?thesis using Cons.prems(2) by (simp add: e i)
  qed
  have "slot_changed s g g' \<longleftrightarrow> slot_changed s g g1 \<or> slot_changed s g1 g'" for s
    using keep [of s] slot_changed_trans [of s g g1 g'] slot_changed_trans(2) [of s g1 g' g] by blast
  with ih cs show ?case by blast
qed simp

lemma slot_changed_revision [simp]:
  "slot_changed s g (g'\<lparr> g_state_revision := r \<rparr>) = slot_changed s g g'"
  by (cases s) auto

lemma prop_slot_ex:
  "(\<exists>s. slot_updates_lobby s \<and> P s) \<longleftrightarrow> P MaxPlayers \<or> P IsOpen \<or> P LobbyProperties"
  by (metis prop_slot.exhaust slot_updates_lobby.simps)

lemma insert_game_props_eval:
  assumes "insert_entries vo wc cfg (has_flag (g_flags g) (f_DeleteNullProps wc)) update (g, False, False)
      = (g1, ul, ch)"
  defines "g2 \<equiv> if ch then g1\<lparr> g_state_revision := g_state_revision g1 + 1 \<rparr> else g1"
  shows "insert_game_props vo wc cfg update g
    = (g2, (if g_is_visible g \<noteq> g_is_visible g2 \<and> g_is_visible g then [NotifyGameDelete] else [])
         @ (if ul \<or> g_is_visible g \<noteq> g_is_visible g2 then [TriggerLobbyUpdate] else []))"
  unfolding insert_game_props_def assms(1) g2_def Let_def prod.case ..

section \<open>Properties\<close>

text \<open>
  Applying a property update a second time changes nothing and notifies
  nobody: the echo of an update over IPC cannot bump the revision or be
  broadcast again, so processes do not answer each other forever.
\<close>

theorem insert_game_props_echo:
  assumes "value_laws vo" "distinct (map fst update)"
  shows "insert_game_props vo wc cfg update (fst (insert_game_props vo wc cfg update g))
       = (fst (insert_game_props vo wc cfg update g), [])"
proof -
  let ?dn = "has_flag (g_flags g) (f_DeleteNullProps wc)"
  let ?r = "insert_entries vo wc cfg ?dn update (g, False, False)"
  obtain g1 ul ch where r: "?r = (g1, ul, ch)" by (metis prod_cases3)
  define g2 where "g2 = (if ch then g1\<lparr> g_state_revision := g_state_revision g1 + 1 \<rparr> else g1)"
  have i: "fst (insert_game_props vo wc cfg update g) = g2"
    unfolding insert_game_props_eval [OF r] g2_def fst_conv ..
  have "\<forall>e\<in>set update. absorbed vo wc cfg ?dn g1 e"
    using insert_entries_all_absorbed [OF assms, of wc cfg ?dn g False False] by (simp add: r)
  then have "\<forall>e\<in>set update. absorbed vo wc cfg ?dn g2 e" by (simp add: g2_def)
  note noop = insert_entries_absorbed_noop [OF this]
  have "g_flags g2 = g_flags g"
    using insert_entries_flags [of vo wc cfg ?dn update g False False] by (simp add: r g2_def)
  with noop [of False False] have "insert_entries vo wc cfg (has_flag (g_flags g2) (f_DeleteNullProps wc))
      update (g2, False, False) = (g2, False, False)" by simp
  from insert_game_props_eval [OF this] show ?thesis by (simp add: i)
qed

lemma insert_game_props_echo_witness:
  "insert_game_props sample_ops sample_codes default_app_settings [(SU8 3, SBool False)]
     (fst (insert_game_props sample_ops sample_codes default_app_settings [(SU8 3, SBool False)] (new_game 0 [] [])))
   = (fst (insert_game_props sample_ops sample_codes default_app_settings [(SU8 3, SBool False)] (new_game 0 [] [])), [])"
  by (rule insert_game_props_echo [OF sample_ops_laws]) simp

text \<open>
  An update triggers a lobby update exactly when the maximum of players,
  the open flag, the list of lobby properties or the visibility really changed,
  and it withdraws the room from the lobby lists exactly when it turns
  invisible, before the update is sent.
\<close>

theorem insert_game_props_reports:
  assumes "value_laws vo" "distinct (map fst update)"
    "insert_game_props vo wc cfg update g = (g', fx)"
  shows "(TriggerLobbyUpdate \<in> set fx \<longleftrightarrow> g_max_peers g' \<noteq> g_max_peers g \<or> g_is_open g' \<noteq> g_is_open g
            \<or> g_lobby_props g' \<noteq> g_lobby_props g \<or> g_is_visible g' \<noteq> g_is_visible g)
       \<and> (NotifyGameDelete \<in> set fx \<longleftrightarrow> g_is_visible g \<and> \<not> g_is_visible g')
       \<and> (NotifyGameDelete \<in> set fx \<longrightarrow> fx = [NotifyGameDelete, TriggerLobbyUpdate])"
proof -
  obtain g1 ul ch where r: "insert_entries vo wc cfg (has_flag (g_flags g) (f_DeleteNullProps wc)) update
      (g, False, False) = (g1, ul, ch)" by (metis prod_cases3)
  have g': "g' = (if ch then g1\<lparr> g_state_revision := g_state_revision g1 + 1 \<rparr> else g1)"
    using assms(3) unfolding insert_game_props_eval [OF r] by simp
  have ul: "ul \<longleftrightarrow> (\<exists>s. slot_updates_lobby s \<and> slot_changed s g g')"
    using insert_entries_reports [OF assms(1,2) r] by (simp add: g')
  have vis: "g_is_visible g' = g_is_visible g1" by (simp add: g')
  have fx: "fx = (if g_is_visible g \<noteq> g_is_visible g' \<and> g_is_visible g then [NotifyGameDelete] else [])
      @ (if ul \<or> g_is_visible g \<noteq> g_is_visible g' then [TriggerLobbyUpdate] else [])"
    using assms(3) unfolding insert_game_props_eval [OF r] g' [symmetric] by (simp add: vis)
  show ?thesis
    unfolding fx by (auto simp: ul prop_slot_ex)
qed

lemma insert_game_props_reports_witness:
  "snd (insert_game_props sample_ops sample_codes default_app_settings [(SU8 2, SBool False)] (new_game 0 [] []))
     = [NotifyGameDelete, TriggerLobbyUpdate]"
proof -
  let ?g = "new_game 0 [] [] :: sample_value game"
  obtain g' fx where i: "insert_game_props sample_ops sample_codes default_app_settings [(SU8 2, SBool False)] ?g
      = (g', fx)" by force
  then have "\<not> g_is_visible g'"
    by (auto simp: insert_game_props_def insert_entry_def store_prop_def prop_slot_of_def sample_ops_def
        sample_codes_def new_game_def default_app_settings_def Let_def split: if_splits)
  moreover have "g_is_visible ?g" by (simp add: new_game_def)
  ultimately show ?thesis
    using insert_game_props_reports [OF sample_ops_laws _ i] i by simp
qed

section \<open>Null values and expectations\<close>

lemma insert_entry_custom_dom:
  "k \<noteq> v_null vo \<Longrightarrow> map_of (g_custom_props g) k \<noteq> None
     \<Longrightarrow> map_of (g_custom_props (fst (insert_entry vo wc cfg dn key v g))) k \<noteq> None"
  by (cases rule: store_custom_cases [of vo dn key v g])
    (auto simp: insert_entry_alt split: option.split)

lemma insert_entries_custom_dom:
  assumes "k \<noteq> v_null vo" "map_of (g_custom_props g) k \<noteq> None"
  shows "map_of (g_custom_props (fst (insert_entries vo wc cfg dn es (g, ul, ch)))) k \<noteq> None"
  using assms(2)
proof (induction es arbitrary: g ul ch)
  case (Cons e es)
  obtain key v where e: "e = (key, v)" by force
  obtain g' c sh where i: "insert_entry vo wc cfg dn key v g = (g', c, sh)" by (metis prod_cases3)
  have "map_of (g_custom_props g') k \<noteq> None"
    using insert_entry_custom_dom [OF assms(1) Cons.prems, of wc cfg dn key v] i by simp
  with Cons.IH i show ?case by (simp add: e)
qed simp

text \<open>
  No property update ever deletes a custom property, whatever the value and
  whatever the flags: with \<^theory_text>\<open>DeleteNullProps\<close> set, a null value is stored under
  its key instead of removing it, because the code tests the key for null.
\<close>

theorem null_value_never_deletes:
  assumes "k \<noteq> v_null vo" "map_of (g_custom_props g) k \<noteq> None"
  shows "map_of (g_custom_props (fst (insert_game_props vo wc cfg update g))) k \<noteq> None"
proof -
  obtain g1 ul ch where r: "insert_entries vo wc cfg (has_flag (g_flags g) (f_DeleteNullProps wc)) update
      (g, False, False) = (g1, ul, ch)" by (metis prod_cases3)
  have "map_of (g_custom_props g1) k \<noteq> None"
    using insert_entries_custom_dom [OF assms, of wc cfg _ update False False] r by (metis fst_conv)
  then show ?thesis unfolding insert_game_props_eval [OF r] by auto
qed

lemma null_value_never_deletes_witness:
  "map_of (g_custom_props (fst (insert_game_props sample_ops sample_codes default_app_settings
      [(SString ''k'', SNull)]
      ((new_game 0 [] [])\<lparr> g_flags := 8, g_custom_props := [(SString ''k'', SBool True)] \<rparr>))))
    (SString ''k'') \<noteq> None"
  by (rule null_value_never_deletes) (simp_all add: sample_ops_def)

text \<open>The value every expected entry is compared with.\<close>

lemma get_game_prop_custom:
  "v_u8 vo key = None \<Longrightarrow> get_game_prop vo wc key g = (case map_of (g_custom_props g) key of
     Some v \<Rightarrow> v | None \<Rightarrow> v_null vo)"
  by (simp add: get_game_prop_def Let_def)

lemma expect_well_known_value:
  assumes "value_laws vo" "expect_well_known vo wc expected g" "k \<in> set (prop_map_keys wc)"
    "map_of expected (v_of_u8 vo k) = Some v"
  shows "get_game_prop vo wc (v_of_u8 vo k) g = v"
proof -
  have inv: "v_u8 vo (v_of_u8 vo k) = Some k" "\<And>w x. v_u8 vo w = Some x \<Longrightarrow> w = v_of_u8 vo x"
    "\<And>w x. v_bool vo w = Some x \<Longrightarrow> w = v_of_bool vo x" "\<And>w x. v_i32 vo w = Some x \<Longrightarrow> w = v_of_i32 vo x"
    "\<And>w x. v_strings vo w = Some x \<Longrightarrow> w = v_of_strings vo x"
    using assms(1) by (auto simp: value_laws_def)
  have "k = gp_MaxPlayers wc \<Longrightarrow> v = v_of_u8 vo (g_max_peers g)"
    "k = gp_IsVisible wc \<Longrightarrow> v = v_of_bool vo (g_is_visible g)"
    "k = gp_IsOpen wc \<Longrightarrow> v = v_of_bool vo (g_is_open g)"
    "k = gp_PlayerTTL wc \<Longrightarrow> v = v_of_i32 vo (g_player_ttl g)"
    "k = gp_EmptyGameTTL wc \<Longrightarrow> v = v_of_i32 vo (g_empty_game_ttl g)"
    "k = gp_MasterClientId wc \<Longrightarrow> v = v_of_i32 vo (g_master_actor g)"
    "k = gp_LobbyProperties wc \<Longrightarrow> v = v_of_strings vo (g_lobby_props g)"
    by (rule inv(2-5); use assms(2,4) in \<open>simp add: expect_well_known_def\<close>)+
  with assms(3) have "well_known_prop vo wc k g = Some v"
    by (auto simp: prop_map_keys_def well_known_prop_def)
  with inv(1) show ?thesis by (simp add: get_game_prop_def)
qed

text \<open>
  The compare-and-set update of the room applies its update only when every
  expected property (other than the computed player count) currently reads as
  expected, and otherwise leaves the room as it was, with no notification.
\<close>

theorem apply_game_props_compare_and_set:
  assumes "value_laws vo" "distinct (map fst expected)"
    "apply_game_props vo wc cfg update (Some expected) g = (ok, g', fx)"
  shows "if ok then (g', fx) = insert_game_props vo wc cfg update g
           \<and> (\<forall>(key, v)\<in>set expected. v_u8 vo key \<noteq> Some (gp_PlayerCount wc) \<longrightarrow> get_game_prop vo wc key g = v)
         else (g', fx) = (g, [])"
proof (cases "expect_game_props vo wc expected g")
  case False
  with assms(3) show ?thesis by (auto simp: apply_game_props_def)
next
  case True
  have wk: "expect_well_known vo wc expected g" using True by (simp add: expect_game_props_def)
  have "get_game_prop vo wc key g = v"
    if kv: "(key, v) \<in> set expected" "v_u8 vo key \<noteq> Some (gp_PlayerCount wc)" for key v
  proof (cases "key \<in> v_of_u8 vo ` set (prop_map_keys wc)")
    case in_map: True
    then show ?thesis
      using expect_well_known_value [OF assms(1) wk] kv(1) assms(2) by auto
  next
    case out: False
    then have c: "case map_of (g_custom_props g) key of
        None \<Rightarrow> v = v_null vo \<and> has_flag (g_flags g) (f_DeleteNullProps wc) | Some w \<Rightarrow> w = v"
      using True kv(1) by (auto simp: expect_game_props_def list_all_iff)
    have "well_known_prop vo wc k g = None" if "v_u8 vo key = Some k" for k
    proof -
      have "key = v_of_u8 vo k" using that assms(1) by (simp add: value_laws_def)
      with out have "k \<notin> set (prop_map_keys wc)" by blast
      with kv(2) that show ?thesis by (simp add: prop_map_keys_def well_known_prop_def)
    qed
    with c show ?thesis by (auto simp: get_game_prop_def Let_def split: option.splits)
  qed
  moreover have "ok" "(g', fx) = insert_game_props vo wc cfg update g"
    using assms(3) True by (auto simp: apply_game_props_def split: prod.splits)
  ultimately show ?thesis by auto
qed

lemma apply_game_props_compare_and_set_witness:
  "\<not> fst (apply_game_props sample_ops sample_codes default_app_settings [(SU8 3, SBool False)]
      (Some [(SU8 3, SBool False)]) (new_game 0 [] []))"
proof -
  let ?g = "new_game 0 [] [] :: sample_value game"
  obtain ok g' fx where a: "apply_game_props sample_ops sample_codes default_app_settings
      [(SU8 3, SBool False)] (Some [(SU8 3, SBool False)]) ?g = (ok, g', fx)" by (metis prod_cases3)
  have "get_game_prop sample_ops sample_codes (SU8 3) ?g = SBool True"
    by (simp add: get_game_prop_def sample_ops_def sample_codes_def well_known_prop_def new_game_def)
  moreover have "v_u8 sample_ops (SU8 3) \<noteq> Some (gp_PlayerCount sample_codes)"
    by (simp add: sample_ops_def sample_codes_def)
  ultimately show ?thesis
    using apply_game_props_compare_and_set [OF sample_ops_laws _ a] a by (auto split: if_splits)
qed

text \<open>
  Expecting a null value for a property the actor does not have, in a room
  that deletes null properties, is met for room properties but throws
  \<^theory_text>\<open>std::out_of_range\<close> for actor properties.
\<close>

theorem expect_missing_null_throws:
  assumes "has_flag (g_flags g) (f_DeleteNullProps wc)" "find_peer_actor g actor = Some gp"
    "map_of (gp_actor_props gp) key = None" "map_of (g_custom_props g) key = None" "v_u8 vo key = None"
    "value_laws vo"
  shows "expect_actor_props vo wc actor ((key, v_null vo) # rest) g = Inl ()
    \<and> expect_game_props vo wc [(key, v_null vo)] g"
proof -
  have "key \<noteq> v_of_u8 vo k" "v_of_u8 vo k \<noteq> key" for k using assms(5,6) by (auto simp: value_laws_def)
  with assms show ?thesis
    by (simp add: expect_actor_props_def expect_actor_entry_def expect_game_props_def expect_well_known_def)
qed

lemma expect_missing_null_throws_witness:
  "expect_actor_props sample_ops sample_codes 1 [(SString ''hp'', SNull)]
     ((new_game 0 [] [])\<lparr> g_flags := 8, g_peers := [gp_default\<lparr> gp_actor_id := 1 \<rparr>] \<rparr>) = Inl ()"
proof -
  let ?g = "(new_game 0 [] [])\<lparr> g_flags := 8, g_peers := [gp_default\<lparr> gp_actor_id := 1 \<rparr>] \<rparr> :: sample_value game"
  have "expect_actor_props sample_ops sample_codes 1 [(SString ''hp'', v_null sample_ops)] ?g = Inl ()"
    by (rule expect_missing_null_throws [where gp = "gp_default\<lparr> gp_actor_id := 1 \<rparr>", THEN conjunct1])
      (simp_all add: sample_ops_laws has_flag_def sample_codes_def find_peer_actor_def gp_default_def
        new_game_def, simp add: sample_ops_def)
  then show ?thesis by (simp add: sample_ops_def)
qed

end
