(* ===== verification/GameEvents.thy ===== *)
theory GameEvents
  imports GameProps
begin

text \<open>
  Sending events (src/game.cpp): the per-protocol cache of serialised packets
  (\<^theory_text>\<open>Event::get_cached_data\<close>), \<^theory_text>\<open>broadcast_event\<close> and \<^theory_text>\<open>flood_peer\<close>. The
  serialiser of a protocol belongs to the protocol library: it is a parameter
  that maps a protocol index and a message to the packet, or to nothing when
  it fails. Sending is the list of packets handed to the peers, in order.
\<close>

record 'v event_message =
  em_code :: u8
  em_params :: "(u8, 'v) assoc"

type_synonym 'v serializer = "nat \<Rightarrow> 'v event_message \<Rightarrow> u8 list option"

record packet =
  pk_peer :: peer_ref
  pk_payload :: "u8 list"
  pk_channel :: u8
  pk_mode :: u8

section \<open>The packet cache\<close>

definition event_message_of :: "'v value_ops \<Rightarrow> wire_codes \<Rightarrow> 'v event \<Rightarrow> 'v event_message" where
  "event_message_of vo wc ev =
    (let ps = ht_put (ev_top_params ev) (dk_ActorNo wc) (v_of_i32 vo (ev_sender ev))
     in \<lparr> em_code = ev_code ev,
          em_params = (if ev_data ev \<noteq> v_null vo then ht_put ps (dk_Data wc) (ev_data ev) else ps) \<rparr>)"

definition get_cached_data ::
  "'v value_ops \<Rightarrow> wire_codes \<Rightarrow> 'v serializer \<Rightarrow> nat \<Rightarrow> 'v event \<Rightarrow> u8 list option \<times> 'v event" where
  "get_cached_data vo wc ser idx ev =
    (if idx < length (ev_cached ev) \<and> ev_cached ev ! idx \<noteq> [] then (Some (ev_cached ev ! idx), ev)
     else case ser idx (event_message_of vo wc ev) of
       None \<Rightarrow> (None, ev)
     | Some payload \<Rightarrow>
         (Some payload,
          if idx < length (ev_cached ev) then ev\<lparr> ev_cached := (ev_cached ev)[idx := payload] \<rparr> else ev))"

section \<open>Broadcast\<close>

definition protocol_of :: "heap \<Rightarrow> peer_ref \<Rightarrow> nat" where
  "protocol_of h r = (case h r of None \<Rightarrow> 0 | Some n \<Rightarrow> pn_protocol n)"

definition dispatch ::
  "'v value_ops \<Rightarrow> wire_codes \<Rightarrow> 'v serializer \<Rightarrow> heap \<Rightarrow> 'v game_peer
     \<Rightarrow> 'v event \<times> packet list \<Rightarrow> 'v event \<times> packet list" where
  "dispatch vo wc ser h gp s =
    (case lock h (gp_peer gp) of None \<Rightarrow> s
     | Some r \<Rightarrow> (case get_cached_data vo wc ser (protocol_of h r) (fst s) of
         (None, ev') \<Rightarrow> (ev', snd s)
       | (Some payload, ev') \<Rightarrow> (ev', snd s @ [\<lparr> pk_peer = r, pk_payload = payload,
           pk_channel = ev_channel (fst s), pk_mode = ev_delivery_mode (fst s) \<rparr>])))"

definition hears :: "'v event \<Rightarrow> 'v game_peer \<Rightarrow> bool" where
  "hears ev gp \<longleftrightarrow> ig_test (gp_interest_groups gp) (ev_interest_group ev)"

definition recipients :: "wire_codes \<Rightarrow> 'v event \<Rightarrow> 'v game \<Rightarrow> 'v game_peer list" where
  "recipients wc ev g =
    (case ev_receivers ev of
       Unset \<Rightarrow> []
     | Group r \<Rightarrow>
         if r = rg_MasterClient wc
         then (case find_peer_actor g (g_master_actor g) of None \<Rightarrow> []
               | Some gp \<Rightarrow> if hears ev gp then [gp] else [])
         else filter (\<lambda>gp. \<not> (r = rg_Others wc \<and> gp_actor_id gp = ev_sender ev) \<and> hears ev gp) (g_peers g)
     | Actors actors \<Rightarrow> List.map_filter (\<lambda>a. case find_peer_actor g a of None \<Rightarrow> None
         | Some gp \<Rightarrow> if hears ev gp then Some gp else None) actors)"

definition broadcast_event ::
  "'v value_ops \<Rightarrow> wire_codes \<Rightarrow> 'v serializer \<Rightarrow> heap \<Rightarrow> 'v event \<Rightarrow> 'v game \<Rightarrow> 'v event \<times> packet list" where
  "broadcast_event vo wc ser h ev g =
    (let ev1 = (if ev_receivers ev = Unset then ev\<lparr> ev_receivers := Group (rg_Others wc) \<rparr> else ev)
     in fold (dispatch vo wc ser h) (recipients wc ev1 g) (ev1, []))"

section \<open>Flooding a new member\<close>

definition flood_props_event ::
  "'v value_ops \<Rightarrow> wire_codes \<Rightarrow> ('v, 'v) assoc \<Rightarrow> int \<Rightarrow> 'v event" where
  "flood_props_event vo wc props actor =
     \<lparr> ev_code = ec_PropertiesUpdate wc, ev_sender = 0, ev_delivery_mode = dm_Reliable wc, ev_channel = 0,
       ev_receivers = Actors [actor], ev_interest_group = 0, ev_data = v_null vo,
       ev_top_params = ht_put (ht_put [] (dk_TargetActorNo wc) (v_of_i32 vo 0))
                         (dk_Properties wc) (v_of_hash vo props),
       ev_cached = replicate (n_protocols wc) [] \<rparr>"

definition send_flood ::
  "'v value_ops \<Rightarrow> wire_codes \<Rightarrow> 'v serializer \<Rightarrow> heap \<Rightarrow> peer_ref \<Rightarrow> u8 \<Rightarrow> u8 \<Rightarrow> 'v event \<Rightarrow> 'v event \<times> packet list" where
  "send_flood vo wc ser h r channel mode ev =
    (case get_cached_data vo wc ser (protocol_of h r) ev of
       (None, ev') \<Rightarrow> (ev', [])
     | (Some payload, ev') \<Rightarrow>
         (ev', [\<lparr> pk_peer = r, pk_payload = payload, pk_channel = channel, pk_mode = mode \<rparr>]))"

text \<open>
  The loop over the cached events: events of the actor itself and property
  updates are passed over. It yields the cache (serialising may have filled
  packet caches), the packets and the number of events counted.
\<close>

fun flood_cached ::
  "'v value_ops \<Rightarrow> wire_codes \<Rightarrow> 'v serializer \<Rightarrow> heap \<Rightarrow> peer_ref \<Rightarrow> int \<Rightarrow> 'v event list
     \<Rightarrow> 'v event list \<times> packet list \<times> nat" where
  "flood_cached vo wc ser h r actor [] = ([], [], 0)"
| "flood_cached vo wc ser h r actor (ev # evs) =
    (case flood_cached vo wc ser h r actor evs of
       (evs', pks, n) \<Rightarrow>
         if ev_sender ev \<noteq> 0 \<and> ev_sender ev = actor then (ev # evs', pks, n)
         else if ev_code ev = ec_PropertiesUpdate wc then (ev # evs', pks, n)
         else (case send_flood vo wc ser h r (ev_channel ev) (ev_delivery_mode ev) ev of
                 (ev', pk) \<Rightarrow> (ev' # evs', pk @ pks, Suc n)))"

definition flood_peer ::
  "'v value_ops \<Rightarrow> wire_codes \<Rightarrow> 'v serializer \<Rightarrow> heap \<Rightarrow> 'v game_peer option \<Rightarrow> 'v game
     \<Rightarrow> bool \<times> 'v game \<times> packet list" where
  "flood_peer vo wc ser h gp g =
    (case gp of None \<Rightarrow> (False, g, [])
     | Some p \<Rightarrow>
       if \<not> gp_active p then (False, g, [])
       else case lock h (gp_peer p) of None \<Rightarrow> (False, g, [])
       | Some r \<Rightarrow>
           let game_props = get_game_props vo wc False g;
               actor_props = get_actor_props vo g;
               send = (\<lambda>props. snd (send_flood vo wc ser h r 0 (dm_Reliable wc)
                        (flood_props_event vo wc props (gp_actor_id p))));
               first = (if game_props \<noteq> [] then send game_props else []);
               second = (if actor_props \<noteq> [] then send actor_props else [])
           in case flood_cached vo wc ser h r (gp_actor_id p) (g_event_cache g) of
                (cache', pks, n) \<Rightarrow> (True, g\<lparr> g_event_cache := cache' \<rparr>, first @ second @ pks))"

definition flood_peer_by_actor ::
  "'v value_ops \<Rightarrow> wire_codes \<Rightarrow> 'v serializer \<Rightarrow> heap \<Rightarrow> int \<Rightarrow> 'v game \<Rightarrow> bool \<times> 'v game \<times> packet list" where
  "flood_peer_by_actor vo wc ser h actor g =
    (case find_peer_actor g actor of None \<Rightarrow> (False, g, [])
     | Some gp \<Rightarrow> flood_peer vo wc ser h (Some gp) g)"

section \<open>The cache is transparent\<close>

text \<open>Every filled cell holds what the serialiser yields for the event as it is now.\<close>

definition cache_ok :: "'v value_ops \<Rightarrow> wire_codes \<Rightarrow> 'v serializer \<Rightarrow> 'v event \<Rightarrow> bool" where
  "cache_ok vo wc ser ev \<longleftrightarrow> (\<forall>i<length (ev_cached ev). ev_cached ev ! i \<noteq> []
     \<longrightarrow> ser i (event_message_of vo wc ev) = Some (ev_cached ev ! i))"

lemma event_message_cached [simp]:
  "event_message_of vo wc (ev\<lparr> ev_cached := c \<rparr>) = event_message_of vo wc ev"
  "event_message_of vo wc (ev\<lparr> ev_receivers := r \<rparr>) = event_message_of vo wc ev"
  by (simp_all add: event_message_of_def Let_def)

lemma get_cached_data_ok:
  assumes "cache_ok vo wc ser ev" "get_cached_data vo wc ser idx ev = (p, ev')"
  shows "p = ser idx (event_message_of vo wc ev)" "cache_ok vo wc ser ev'"
    "event_message_of vo wc ev' = event_message_of vo wc ev" "ev_channel ev' = ev_channel ev"
    "ev_delivery_mode ev' = ev_delivery_mode ev" "ev_code ev' = ev_code ev" "ev_sender ev' = ev_sender ev"
proof -
  have "p = ser idx (event_message_of vo wc ev) \<and> cache_ok vo wc ser ev'
      \<and> (ev' = ev \<or> (\<exists>c. ev' = ev\<lparr> ev_cached := c \<rparr>))"
  proof (cases "idx < length (ev_cached ev) \<and> ev_cached ev ! idx \<noteq> []")
    case True
    then have "p = Some (ev_cached ev ! idx)" "ev' = ev"
      using assms(2) by (auto simp: get_cached_data_def)
    with True assms(1) show ?thesis by (simp add: cache_ok_def)
  next
    case False
    show ?thesis
    proof (cases "ser idx (event_message_of vo wc ev)")
      case None
      with False have "p = None" "ev' = ev" using assms(2) by (auto simp: get_cached_data_def)
      with None assms(1) show ?thesis by simp
    next
      case (Some payload)
      show ?thesis
      proof (cases "idx < length (ev_cached ev)")
        case True
        with False Some assms(2)
        have e: "p = Some payload" "ev' = ev\<lparr> ev_cached := (ev_cached ev)[idx := payload] \<rparr>"
          by (auto simp: get_cached_data_def)
        with assms(1) Some True show ?thesis by (auto simp: cache_ok_def nth_list_update)
      next
        case out: False
        with Some assms(2) have "p = Some payload" "ev' = ev" by (auto simp: get_cached_data_def)
        with Some assms(1) show ?thesis by simp
      qed
    qed
  qed
  then show "p = ser idx (event_message_of vo wc ev)" "cache_ok vo wc ser ev'"
    "event_message_of vo wc ev' = event_message_of vo wc ev" "ev_channel ev' = ev_channel ev"
    "ev_delivery_mode ev' = ev_delivery_mode ev" "ev_code ev' = ev_code ev" "ev_sender ev' = ev_sender ev"
    by auto
qed

text \<open>The reference: each recipient gets the event serialised for its own protocol.\<close>

definition packet_for ::
  "'v value_ops \<Rightarrow> wire_codes \<Rightarrow> 'v serializer \<Rightarrow> heap \<Rightarrow> 'v event \<Rightarrow> 'v game_peer \<Rightarrow> packet option" where
  "packet_for vo wc ser h ev gp =
    (case lock h (gp_peer gp) of None \<Rightarrow> None
     | Some r \<Rightarrow> map_option (\<lambda>payload. \<lparr> pk_peer = r, pk_payload = payload, pk_channel = ev_channel ev,
           pk_mode = ev_delivery_mode ev \<rparr>) (ser (protocol_of h r) (event_message_of vo wc ev)))"

lemma dispatch_fold:
  assumes "cache_ok vo wc ser ev" "event_message_of vo wc ev = event_message_of vo wc ev0"
    "ev_channel ev = ev_channel ev0" "ev_delivery_mode ev = ev_delivery_mode ev0"
  shows "snd (fold (dispatch vo wc ser h) gps (ev, pks))
     = pks @ List.map_filter (packet_for vo wc ser h ev0) gps
   \<and> cache_ok vo wc ser (fst (fold (dispatch vo wc ser h) gps (ev, pks)))"
  using assms
proof (induction gps arbitrary: ev pks)
  case (Cons gp gps)
  show ?case
  proof (cases "lock h (gp_peer gp)")
    case None
    with Cons show ?thesis by (simp add: dispatch_def packet_for_def map_filter_simps)
  next
    case (Some r)
    obtain p ev' where g: "get_cached_data vo wc ser (protocol_of h r) ev = (p, ev')" by force
    note k = get_cached_data_ok [OF Cons.prems(1) g]
    have "dispatch vo wc ser h gp (ev, pks) = (ev', pks @ (case packet_for vo wc ser h ev0 gp of
        None \<Rightarrow> [] | Some pk \<Rightarrow> [pk]))"
      using Some g k(1) Cons.prems by (auto simp: dispatch_def packet_for_def split: option.split)
    with Cons.IH [OF k(2)] k Cons.prems show ?thesis
      by (auto simp: map_filter_simps split: option.split)
  qed
qed (simp add: map_filter_simps)

text \<open>
  C13: Broadcasting an event sends every recipient that is still connected the
  packet serialised for its own protocol, on the channel and in the mode of the
  event: sharing serialised packets between recipients through the cache is not
  observable, and the cache stays correct for the next use of the event.
\<close>

theorem broadcast_cache_transparent:
  assumes "cache_ok vo wc ser ev"
  defines "ev1 \<equiv> if ev_receivers ev = Unset then ev\<lparr> ev_receivers := Group (rg_Others wc) \<rparr> else ev"
  shows "snd (broadcast_event vo wc ser h ev g)
       = List.map_filter (packet_for vo wc ser h ev) (recipients wc ev1 g)
     \<and> cache_ok vo wc ser (fst (broadcast_event vo wc ser h ev g))"
proof -
  have "cache_ok vo wc ser ev1" "event_message_of vo wc ev1 = event_message_of vo wc ev"
    "ev_channel ev1 = ev_channel ev" "ev_delivery_mode ev1 = ev_delivery_mode ev"
    using assms(1) by (auto simp: ev1_def cache_ok_def)
  from dispatch_fold [OF this, of h "recipients wc ev1 g" "[]"] show ?thesis
    by (simp add: broadcast_event_def Let_def ev1_def)
qed

lemma broadcast_cache_transparent_witness:
  "cache_ok sample_ops sample_codes (\<lambda>i m. Some [of_nat i])
     (fst (broadcast_event sample_ops sample_codes (\<lambda>i m. Some [of_nat i]) Map.empty
       (create_property_update_event sample_ops sample_codes 1 [] 0 (new_game 0 [] [])) (new_game 0 [] [])))"
  by (rule broadcast_cache_transparent [THEN conjunct2])
    (auto simp: cache_ok_def create_property_update_event_def)

section \<open>Who receives an event\<close>

lemma find_peer_actor_Some:
  "find_peer_actor g a = Some gp \<Longrightarrow> gp \<in> set (g_peers g) \<and> gp_active gp \<and> gp_actor_id gp = a"
  by (auto simp: find_peer_actor_def dest: find_SomeD)

lemma recipients_sound:
  assumes "gp \<in> set (recipients wc ev g)"
  shows "gp \<in> set (g_peers g) \<and> hears ev gp"
  using assms
  by (auto simp: recipients_def map_filter_def
      split: receivers.splits option.splits if_splits dest: find_peer_actor_Some)

lemma flood_cached_spec:
  assumes "\<forall>ev\<in>set evs. cache_ok vo wc ser ev" "h r \<noteq> None"
    "flood_cached vo wc ser h r actor evs = (evs', pks, n)"
  defines "due \<equiv> filter (\<lambda>ev. \<not> (ev_sender ev \<noteq> 0 \<and> ev_sender ev = actor)
                 \<and> ev_code ev \<noteq> ec_PropertiesUpdate wc) evs"
  shows "pks = List.map_filter (\<lambda>ev. packet_for vo wc ser h ev (gp_default\<lparr> gp_peer := Some r \<rparr>)) due
    \<and> n = length due \<and> (\<forall>ev\<in>set evs'. cache_ok vo wc ser ev)
    \<and> map (event_message_of vo wc) evs' = map (event_message_of vo wc) evs"
  using assms(1,3) unfolding due_def
proof (induction evs arbitrary: evs' pks n)
  case Nil
  then show ?case by (simp add: map_filter_simps)
next
  case (Cons ev evs)
  obtain evs1 pks1 n1 where r: "flood_cached vo wc ser h r actor evs = (evs1, pks1, n1)"
    by (metis prod_cases3)
  note ih = Cons.IH [OF _ r]
  show ?case
  proof (cases "\<not> (ev_sender ev \<noteq> 0 \<and> ev_sender ev = actor) \<and> ev_code ev \<noteq> ec_PropertiesUpdate wc")
    case False
    with Cons.prems r ih show ?thesis by (auto split: if_splits)
  next
    case True
    obtain p ev' where g: "get_cached_data vo wc ser (protocol_of h r) ev = (p, ev')" by force
    have "cache_ok vo wc ser ev" using Cons.prems by simp
    note k = get_cached_data_ok [OF this g]
    have sf: "send_flood vo wc ser h r (ev_channel ev) (ev_delivery_mode ev) ev
        = (ev', case packet_for vo wc ser h ev (gp_default\<lparr> gp_peer := Some r \<rparr>) of None \<Rightarrow> [] | Some pk \<Rightarrow> [pk])"
      using g k(1) assms(2) by (auto simp: send_flood_def packet_for_def split: option.split)
    then have "evs' = ev' # evs1" "n = Suc n1"
      "pks = (case packet_for vo wc ser h ev (gp_default\<lparr> gp_peer := Some r \<rparr>) of None \<Rightarrow> [] | Some pk \<Rightarrow> [pk]) @ pks1"
      using True Cons.prems(2) r by (auto split: if_splits)
    with True ih Cons.prems(1) k show ?thesis
      by (auto simp: map_filter_simps split: option.split)
  qed
qed

end
