(* ===== verification/GameMachine.thy ===== *)
theory GameMachine
  imports GameCreation GameEvents
begin

text \<open>
  The room as a state machine: every operation that handlers, plugins and
  scheduled callbacks perform on a room is a labelled step on the room and the
  callbacks still pending. Each step reads the store of live peers of its own
  moment, so peers may connect and vanish between any two steps. Runs are
  finite sequences of steps; the invariants are proved by induction on runs.
\<close>

datatype 'v room_op =
    OpReserve string u32
  | OpExpire string u64
  | OpRemoveExpected string
  | OpRelease string u64
  | OpAllocate "peer_ref option"
  | OpAdd "'v game_peer"
  | OpAddForCreation "'v game_peer" "peer_ref option" u64
  | OpRemove "peer_ref option"
  | OpGroups "peer_ref option" "u8 list" "u8 list"
  | OpConfig u8 bool bool u8 int
  | OpGameProps "('v, 'v) assoc"
  | OpActorProps int "('v, 'v) assoc"
  | OpCacheAdd "'v event"
  | OpCacheKeep "'v event \<Rightarrow> bool"
  | OpFlood int
  | OpBegin "peer_ref option"
  | OpCommit "peer_ref option" u64
  | OpAbort "peer_ref option" u64

type_synonym 'v room_state = "'v game \<times> task list"

text \<open>
  The 64-bit counter of reservation generations does not wrap within a run:
  the guard of the reserving steps is that bound.
\<close>

inductive room_step ::
  "'v value_ops \<Rightarrow> wire_codes \<Rightarrow> app_settings \<Rightarrow> 'v serializer \<Rightarrow> heap \<Rightarrow> 'v room_op
     \<Rightarrow> 'v room_state \<Rightarrow> 'v room_state \<Rightarrow> bool"
  for vo wc cfg ser
where
  reserve: "g_next_expected_user_generation g < - 1 \<Longrightarrow>
    reserve_expected_user_with_generation u ttl g = (r, g', ts) \<Longrightarrow>
    room_step vo wc cfg ser h (OpReserve u ttl) (g, pend) (g', pend @ map snd ts)"
| expire: "ExpireReservation u n \<in> set pend \<Longrightarrow>
    room_step vo wc cfg ser h (OpExpire u n) (g, pend)
      (expire_reservation u n g, remove1 (ExpireReservation u n) pend)"
| remove_expected: "room_step vo wc cfg ser h (OpRemoveExpected u) (g, pend) (remove_expected_user u g, pend)"
| release: "room_step vo wc cfg ser h (OpRelease u n) (g, pend)
    (snd (remove_expected_user_if_generation u n g), pend)"
| allocate: "create_peer vo wc h p g = (gp, g') \<Longrightarrow>
    room_step vo wc cfg ser h (OpAllocate p) (g, pend) (g', pend)"
| add: "gp_is_valid gp \<Longrightarrow> gp_actor_id gp \<le> 254 \<Longrightarrow>
    room_step vo wc cfg ser h (OpAdd gp) (g, pend) (snd (add_peer wc h gp g), pend)"
| add_for_creation: "gp_is_valid gp \<Longrightarrow> gp_actor_id gp \<le> 254 \<Longrightarrow>
    room_step vo wc cfg ser h (OpAddForCreation gp owner n) (g, pend)
      (snd (add_peer_for_creation wc h gp owner n g), pend)"
| remove: "remove_peer wc h p g = (r, g', ts) \<Longrightarrow>
    room_step vo wc cfg ser h (OpRemove p) (g, pend) (g', pend @ map snd ts)"
| groups: "room_step vo wc cfg ser h (OpGroups p add rem) (g, pend) (snd (apply_interest_groups h p add rem g), pend)"
| config: "room_step vo wc cfg ser h (OpConfig fl op vis mx master) (g, pend)
    (set_config_state fl op vis mx master g, pend)"
| game_props: "room_step vo wc cfg ser h (OpGameProps update) (g, pend)
    (fst (insert_game_props vo wc cfg update g), pend)"
| actor_props: "room_step vo wc cfg ser h (OpActorProps actor update) (g, pend)
    (snd (insert_actor_props vo wc actor update g), pend)"
| cache_add: "room_step vo wc cfg ser h (OpCacheAdd ev) (g, pend)
    (g\<lparr> g_event_cache := g_event_cache g @ [ev] \<rparr>, pend)"
| cache_keep: "room_step vo wc cfg ser h (OpCacheKeep keep) (g, pend)
    (g\<lparr> g_event_cache := filter keep (g_event_cache g) \<rparr>, pend)"
| flood: "flood_peer_by_actor vo wc ser h actor g = (r, g', pks) \<Longrightarrow>
    room_step vo wc cfg ser h (OpFlood actor) (g, pend) (g', pend)"
| begin_creation: "try_begin_creation owner g = (n, g') \<Longrightarrow>
    room_step vo wc cfg ser h (OpBegin owner) (g, pend) (g', pend)"
| commit: "commit_creation h owner n g = (r, g') \<Longrightarrow>
    room_step vo wc cfg ser h (OpCommit owner n) (g, pend) (g', pend)"
| abort: "unat (g_next_expected_user_generation g) + length (gr_removed_generations g) < 2 ^ 64 - 1 \<Longrightarrow>
    abort_creation_transaction h owner n g = (r, g', ts) \<Longrightarrow>
    room_step vo wc cfg ser h (OpAbort owner n) (g, pend) (g', pend @ map snd ts)"

inductive_cases room_step_cases: "room_step vo wc cfg ser h op s s'"

inductive room_run ::
  "'v value_ops \<Rightarrow> wire_codes \<Rightarrow> app_settings \<Rightarrow> 'v serializer \<Rightarrow> 'v room_state
     \<Rightarrow> (heap \<times> 'v room_op) list \<Rightarrow> 'v room_state \<Rightarrow> bool"
  for vo wc cfg ser
where
  run_nil: "room_run vo wc cfg ser s [] s"
| run_step: "room_run vo wc cfg ser s ops s' \<Longrightarrow> room_step vo wc cfg ser h op s' s''
    \<Longrightarrow> room_run vo wc cfg ser s (ops @ [(h, op)]) s''"

section \<open>Steps that do not touch members or reservations\<close>

text \<open>The part of the room that membership and reservations consist of.\<close>

definition member_view where
  "member_view g = (map (\<lambda>gp. (gp_peer gp, gp_actor_id gp, gp_active gp)) (g_peers g),
     map gp_active (g_retired_peers g))"

definition res_view where
  "res_view g = (g_expected_users g, g_expected_user_generations g, g_next_expected_user_generation g,
     gr_reserved_generations g, gr_removed_generations g)"

definition lease_view where
  "lease_view g = (g_is_creating g, g_is_created g, g_creation_owner g, g_active_creation_generation g)"

lemma member_inv_view:
  fixes g g' :: "'a game"
  shows "member_view g = member_view g' \<Longrightarrow> member_inv g = member_inv g'"
proof -
  have k: "member_inv g \<longleftrightarrow>
      (\<forall>(p, a, act)\<in>set (fst (member_view g)). act \<and> 1 \<le> a \<and> a \<le> 254)
      \<and> distinct (map (\<lambda>(p, a, act). a) (fst (member_view g)))
      \<and> (\<forall>act\<in>set (snd (member_view g)). \<not> act)" for g :: "'a game"
    by (auto simp: member_inv_def member_view_def o_def)
  show "member_view g = member_view g' \<Longrightarrow> member_inv g = member_inv g'"
    by (simp only: k)
qed

lemma res_inv_view: "res_view g = res_view g' \<Longrightarrow> res_inv g = res_inv g'"
  by (simp add: res_inv_def res_view_def)

lemma update_first_view:
  assumes "\<And>x. (gp_peer (f x), gp_actor_id (f x), gp_active (f x)) = (gp_peer x, gp_actor_id x, gp_active x)"
  shows "map (\<lambda>gp. (gp_peer gp, gp_actor_id gp, gp_active gp)) (update_first P f xs)
    = map (\<lambda>gp. (gp_peer gp, gp_actor_id gp, gp_active gp)) xs"
  using assms by (rule update_first_map)

named_theorems quiet \<open>operations that keep members, reservations, lease and saved fields\<close>

definition quiet_view where
  "quiet_view g = ((member_view g, res_view g, lease_view g, saved_config g), g_last_actor_id g)"

lemma groups_quiet [quiet]: "quiet_view (snd (apply_interest_groups h p add rem g)) = quiet_view g"
  by (simp add: quiet_view_def apply_interest_groups_def member_view_def res_view_def lease_view_def
      saved_config_def update_first_view split: option.split)

lemma config_quiet [quiet]: "quiet_view (set_config_state fl op vis mx master g) = quiet_view g"
  by (simp add: quiet_view_def set_config_state_def member_view_def res_view_def lease_view_def
      saved_config_def)

lemma actor_props_quiet [quiet]: "quiet_view (snd (insert_actor_props vo wc actor update g)) = quiet_view g"
  by (simp add: quiet_view_def insert_actor_props_def member_view_def res_view_def lease_view_def
      saved_config_def update_first_view split: option.split)

lemma event_cache_quiet [quiet]: "quiet_view (g\<lparr> g_event_cache := evs \<rparr>) = quiet_view g"
  by (simp add: quiet_view_def member_view_def res_view_def lease_view_def saved_config_def)

lemma flood_quiet [quiet]:
  "flood_peer_by_actor vo wc ser h actor g = (r, g', pks) \<Longrightarrow> quiet_view g' = quiet_view g"
  by (auto simp: flood_peer_by_actor_def flood_peer_def Let_def event_cache_quiet
      split: option.splits if_splits prod.splits)

lemma slot_store_quiet: "quiet_view (fst (slot_store vo s v g)) = quiet_view g"
  by (cases s; simp add: quiet_view_def member_view_def res_view_def lease_view_def saved_config_def
      split: option.split)

lemma custom_quiet: "quiet_view (g\<lparr> g_custom_props := ps \<rparr>) = quiet_view g"
  by (simp add: quiet_view_def member_view_def res_view_def lease_view_def saved_config_def)

lemma insert_entry_quiet: "quiet_view (fst (insert_entry vo wc cfg dn key v g)) = quiet_view g"
  by (cases rule: store_custom_cases [of vo dn key v g])
    (simp_all add: insert_entry_alt store_prop_alt slot_store_quiet custom_quiet split: option.split)

lemma insert_entries_quiet:
  "quiet_view (fst (insert_entries vo wc cfg dn es (g, ul, ch))) = quiet_view g"
proof (induction es arbitrary: g ul ch)
  case (Cons e es)
  obtain key v where e: "e = (key, v)" by force
  obtain g' c sh where i: "insert_entry vo wc cfg dn key v g = (g', c, sh)" by (metis prod_cases3)
  with insert_entry_quiet [of vo wc cfg dn key v g] Cons show ?case by (simp add: e)
qed simp

lemma revision_quiet: "quiet_view (g\<lparr> g_state_revision := r \<rparr>) = quiet_view g"
  by (simp add: quiet_view_def member_view_def res_view_def lease_view_def saved_config_def)

lemma game_props_quiet [quiet]: "quiet_view (fst (insert_game_props vo wc cfg update g)) = quiet_view g"
proof -
  obtain g1 ul ch where r: "insert_entries vo wc cfg (has_flag (g_flags g) (f_DeleteNullProps wc)) update
      (g, False, False) = (g1, ul, ch)" by (metis prod_cases3)
  have "quiet_view g1 = quiet_view g"
    using insert_entries_quiet [of vo wc cfg _ update g False False] r by (metis fst_conv)
  then show ?thesis unfolding insert_game_props_eval [OF r] by (simp add: revision_quiet)
qed

section \<open>The invariant of every reachable room\<close>

text \<open>
  Pending expiry callbacks: every live reservation has its own callback among
  them, callbacks carry issued generations, and no two carry the same one.
\<close>

definition pending_generations :: "task list \<Rightarrow> u64 list" where
  "pending_generations pend = List.map_filter (\<lambda>t. case t of ExpireReservation u n \<Rightarrow> Some n | _ \<Rightarrow> None) pend"

definition pending_inv :: "'v game \<Rightarrow> task list \<Rightarrow> bool" where
  "pending_inv g pend \<longleftrightarrow>
     (\<forall>u n. map_of (g_expected_user_generations g) u = Some n \<longrightarrow> ExpireReservation u n \<in> set pend)
   \<and> (\<forall>n\<in>set (pending_generations pend). n \<le> g_next_expected_user_generation g)
   \<and> distinct (pending_generations pend)"

definition lease_inv :: "'v game \<Rightarrow> bool" where
  "lease_inv g \<longleftrightarrow> \<not> (g_is_creating g \<and> g_is_created g) \<and> (g_is_creating g \<longrightarrow> \<not> gi_is_created g)
     \<and> 0 \<le> g_last_actor_id g \<and> (g_is_creating g \<longrightarrow> 0 \<le> gi_last_actor_id g)"

definition room_inv :: "'v room_state \<Rightarrow> bool" where
  "room_inv s \<longleftrightarrow> member_inv (fst s) \<and> res_inv (fst s) \<and> pending_inv (fst s) (snd s) \<and> lease_inv (fst s)"

lemma pending_generations_simps [simp]:
  "pending_generations [] = []"
  "pending_generations (ts @ ts') = pending_generations ts @ pending_generations ts'"
  "pending_generations (ExpireReservation u n # ts) = n # pending_generations ts"
  "pending_generations (KeepRoomAlive r # ts) = pending_generations ts"
  by (simp_all add: pending_generations_def map_filter_def)

lemma pending_generations_mem: "ExpireReservation u n \<in> set pend \<Longrightarrow> n \<in> set (pending_generations pend)"
  by (induction pend) (auto simp: pending_generations_def map_filter_def split: task.splits)

lemma pending_generations_remove1:
  "ExpireReservation u n \<in> set pend \<Longrightarrow> distinct (pending_generations pend) \<Longrightarrow>
     distinct (pending_generations (remove1 (ExpireReservation u n) pend))
     \<and> set (pending_generations (remove1 (ExpireReservation u n) pend)) = set (pending_generations pend) - {n}"
proof (induction pend)
  case (Cons t pend)
  show ?case
  proof (cases t)
    case (ExpireReservation u' n')
    with Cons pending_generations_mem [of u n pend] show ?thesis by (cases "t = ExpireReservation u n") auto
  next
    case (KeepRoomAlive r)
    with Cons show ?thesis by auto
  qed
qed simp

lemma pending_inv_view: "res_view g = res_view g' \<Longrightarrow> pending_inv g pend = pending_inv g' pend"
  by (simp add: pending_inv_def res_view_def)

lemma pending_inv_fewer:
  assumes "pending_inv g pend" "g_next_expected_user_generation g' = g_next_expected_user_generation g"
    "\<And>u n. map_of (g_expected_user_generations g') u = Some n \<Longrightarrow> map_of (g_expected_user_generations g) u = Some n"
  shows "pending_inv g' pend"
  using assms by (simp add: pending_inv_def)

lemma pending_inv_keep_alive:
  "pending_inv g pend \<Longrightarrow> pending_inv g (pend @ [KeepRoomAlive r])"
  by (simp add: pending_inv_def)

lemma pending_inv_reserve:
  assumes "pending_inv g pend" "g_next_expected_user_generation g < - 1"
    "reserve_expected_user_with_generation u ttl g = (r, g', ts)"
  shows "pending_inv g' (pend @ map snd ts)"
proof (cases rule: reserve_cases [of u g ttl])
  case refused
  with assms(1,3) show ?thesis by simp
next
  case (made n)
  have lt: "g_next_expected_user_generation g < n"
    using next_nonzero_step [OF assms(2)] made(3) by simp
  have "\<forall>m\<in>set (pending_generations pend). m < n"
    using assms(1) lt by (auto simp: pending_inv_def intro: le_less_trans)
  with made assms(1,3) show ?thesis by (auto simp: pending_inv_def)
qed

lemma pending_inv_expire:
  assumes "pending_inv g pend" "ExpireReservation u n \<in> set pend"
  shows "pending_inv (expire_reservation u n g) (remove1 (ExpireReservation u n) pend)"
proof -
  have d: "distinct (pending_generations pend)"
    and live: "\<And>v m. map_of (g_expected_user_generations g) v = Some m \<Longrightarrow> ExpireReservation v m \<in> set pend"
    using assms(1) by (auto simp: pending_inv_def)
  note rm = pending_generations_remove1 [OF assms(2) d]
  have "ExpireReservation v m \<in> set (remove1 (ExpireReservation u n) pend)"
    if "map_of (g_expected_user_generations (expire_reservation u n g)) v = Some m" for v m
  proof -
    from that have "map_of (g_expected_user_generations g) v = Some m" "\<not> (v = u \<and> m = n)"
      by (auto simp: expire_reservation_def split: if_splits)
    with live [of v m] show ?thesis by (simp add: in_set_remove1)
  qed
  moreover have "g_next_expected_user_generation (expire_reservation u n g) = g_next_expected_user_generation g"
    by (simp add: expire_reservation_def)
  ultimately show ?thesis using rm assms(1) by (auto simp: pending_inv_def)
qed

text \<open>
  A callback left over from an earlier reservation never removes a later
  one: in every room that satisfies the invariant, firing the pending callback
  of a generation other than the current one changes nothing, and a reservation
  made now gets a generation that no pending callback carries.
\<close>

theorem stale_expiry_harmless:
  assumes "room_inv (g, pend)" "g_next_expected_user_generation g < - 1"
    "reserve_expected_user_with_generation u ttl g = (Some n, g', ts)"
  shows "(\<forall>v m. ExpireReservation v m \<in> set pend \<longrightarrow> m \<noteq> n
            \<and> g_expected_users (expire_reservation u m g') = g_expected_users g')
       \<and> u \<in> set (g_expected_users g') \<and> u \<notin> set (g_expected_users (expire_reservation u n g'))"
proof (cases rule: reserve_cases [of u g ttl])
  case refused
  with assms(3) show ?thesis by simp
next
  case (made k)
  with assms(3) have k: "k = n" and g': "g' = add_reservation u n g" by auto
  have lt: "g_next_expected_user_generation g < n"
    using next_nonzero_step [OF assms(2)] made(3) k by simp
  have ne: "m \<noteq> n" if "ExpireReservation v m \<in> set pend" for v m
  proof -
    have "m \<le> g_next_expected_user_generation g"
      using assms(1) pending_generations_mem [OF that] by (auto simp: room_inv_def pending_inv_def)
    with lt show ?thesis by auto
  qed
  have "expire_reservation u m g' = g'" if "m \<noteq> n" for m
    using that by (simp add: expire_reservation_def g')
  moreover have "g_expected_users (expire_reservation u n g') = g_expected_users g"
    using made(2) by (simp add: expire_reservation_def g' remove1_append remove1_idem)
  ultimately show ?thesis using ne made(2) by (auto simp: g')
qed

section \<open>What the parts of a rollback do\<close>

lemma abort_retire_shape:
  "\<exists>rs. abort_retire h g = g\<lparr> g_peers := filter (\<lambda>gp. lock h (gp_peer gp) = None) (g_peers g),
     g_retired_peers := g_retired_peers g @ map retire rs \<rparr>"
proof (induction h g rule: abort_retire.induct)
  case (1 h g)
  show ?case
  proof (cases "List.extract (\<lambda>gp. lock h (gp_peer gp) \<noteq> None) (g_peers g)")
    case None
    then have "filter (\<lambda>gp. lock h (gp_peer gp) = None) (g_peers g) = g_peers g"
      by (auto simp: extract_None_iff filter_id_conv lock_None)
    moreover have "abort_retire h g = g" using None by (simp add: abort_retire.simps)
    ultimately show ?thesis by (intro exI [of _ "[]"]) simp
  next
    case (Some t)
    then obtain before gp after where
      e: "List.extract (\<lambda>gp. lock h (gp_peer gp) \<noteq> None) (g_peers g) = Some (before, gp, after)"
      by (cases t) auto
    let ?g1 = "g\<lparr> g_peers := before @ after, g_retired_peers := g_retired_peers g @ [retire gp] \<rparr>"
    obtain rs where rs: "abort_retire h ?g1 = ?g1\<lparr> g_peers := filter (\<lambda>gp. lock h (gp_peer gp) = None) (g_peers ?g1),
        g_retired_peers := g_retired_peers ?g1 @ map retire rs \<rparr>"
      using 1 [OF e refl refl] by blast
    have "abort_retire h g = abort_retire h ?g1" unfolding abort_retire.simps [of h g] e by simp
    moreover have "filter (\<lambda>gp. lock h (gp_peer gp) = None) (before @ after)
        = filter (\<lambda>gp. lock h (gp_peer gp) = None) (g_peers g)"
      using extract_partition(1) [OF e] by (simp add: lock_None)
    ultimately show ?thesis using rs by (intro exI [of _ "gp # rs"]) simp
  qed
qed

lemma abort_drop_owned_shape:
  "\<exists>a b. abort_drop_owned owned g = g\<lparr> g_expected_user_generations := a, g_expected_users := b \<rparr>"
  unfolding abort_drop_owned_def
proof (induction owned arbitrary: g)
  case Nil
  then show ?case by (intro exI [of _ "g_expected_user_generations g"] exI [of _ "g_expected_users g"]) simp
next
  case (Cons un owned)
  obtain u n where un: "un = (u, n)" by force
  have "\<exists>a b. snd (remove_expected_user_if_generation u n g)
      = g\<lparr> g_expected_user_generations := a, g_expected_users := b \<rparr>"
  proof (cases "map_of (g_expected_user_generations g) u = Some n")
    case True
    then show ?thesis by (auto simp: remove_expected_user_if_generation_def drop_reservation_def)
  next
    case False
    then show ?thesis
      by (intro exI [of _ "g_expected_user_generations g"] exI [of _ "g_expected_users g"])
        (simp add: remove_expected_user_if_generation_def)
  qed
  then obtain a b where ab: "snd (remove_expected_user_if_generation u n g)
      = g\<lparr> g_expected_user_generations := a, g_expected_users := b \<rparr>" by blast
  obtain c d where "fold (\<lambda>(u, n) g. snd (remove_expected_user_if_generation u n g)) owned
      (g\<lparr> g_expected_user_generations := a, g_expected_users := b \<rparr>)
      = g\<lparr> g_expected_user_generations := a, g_expected_users := b \<rparr>
          \<lparr> g_expected_user_generations := c, g_expected_users := d \<rparr>"
    using Cons by blast
  then show ?case using ab by (intro exI [of _ c] exI [of _ d]) (simp add: un)
qed

lemma reserve_shape:
  "\<exists>a b c d. fst (snd (reserve_expected_user_with_generation u ttl g))
     = g\<lparr> g_expected_users := a, g_next_expected_user_generation := c, g_expected_user_generations := b,
          gr_reserved_generations := d \<rparr>"
proof (cases rule: reserve_cases [of u g ttl])
  case refused
  then show ?thesis
    by (intro exI [of _ "g_expected_users g"] exI [of _ "g_expected_user_generations g"]
        exI [of _ "g_next_expected_user_generation g"] exI [of _ "gr_reserved_generations g"]) simp
next
  case (made n)
  show ?thesis
  proof (cases "g_is_creating g")
    case True
    with made show ?thesis
      by (intro exI [of _ "g_expected_users g @ [u]"] exI [of _ "ht_put (g_expected_user_generations g) u n"]
          exI [of _ n] exI [of _ "ht_put (gr_reserved_generations g) u n"])
        (simp add: add_reservation_def Let_def)
  next
    case False
    with made show ?thesis
      by (intro exI [of _ "g_expected_users g @ [u]"] exI [of _ "ht_put (g_expected_user_generations g) u n"]
          exI [of _ n] exI [of _ "gr_reserved_generations g"])
        (simp add: add_reservation_def Let_def)
  qed
qed

lemma abort_restore_shape:
  "\<exists>a b c d. fst (abort_restore removed g)
     = g\<lparr> g_expected_users := a, g_next_expected_user_generation := c, g_expected_user_generations := b,
          gr_reserved_generations := d \<rparr>"
proof (induction removed g rule: abort_restore.induct)
  case (1 g)
  then show ?case
    by (intro exI [of _ "g_expected_users g"] exI [of _ "g_expected_user_generations g"]
        exI [of _ "g_next_expected_user_generation g"] exI [of _ "gr_reserved_generations g"]) simp
next
  case (2 u n removed g)
  show ?case
  proof (cases "u \<in> set (g_expected_users g)")
    case True
    with 2(1) show ?thesis by simp
  next
    case False
    obtain r g1 ts where r: "reserve_expected_user_with_generation u 30000 g = (r, g1, ts)" by (metis prod_cases3)
    obtain a b c d where "fst (abort_restore removed g1)
      = g1\<lparr> g_expected_users := a, g_next_expected_user_generation := c, g_expected_user_generations := b,
          gr_reserved_generations := d \<rparr>"
      using 2(2) [OF False r [symmetric] refl] by blast
    moreover obtain a' b' c' d' where "g1
      = g\<lparr> g_expected_users := a', g_next_expected_user_generation := c', g_expected_user_generations := b',
          gr_reserved_generations := d' \<rparr>"
      using reserve_shape [of u 30000 g] r by auto
    ultimately have "fst (abort_restore removed g1)
      = g\<lparr> g_expected_users := a, g_next_expected_user_generation := c, g_expected_user_generations := b,
          gr_reserved_generations := d \<rparr>" by simp
    moreover have "fst (abort_restore ((u, n) # removed) g) = fst (abort_restore removed g1)"
      using False r by (simp split: prod.split)
    ultimately show ?thesis by simp blast
  qed
qed

text \<open>
  The reservations through the two repair loops, as functions on the users.
\<close>

lemma abort_drop_owned_res:
  "res_inv g \<Longrightarrow> res_inv (abort_drop_owned owned g)
   \<and> (\<forall>u. map_of (g_expected_user_generations (abort_drop_owned owned g)) u =
        (case map_of (g_expected_user_generations g) u of None \<Rightarrow> None
         | Some n \<Rightarrow> if (u, n) \<in> set owned then None else Some n))"
  unfolding abort_drop_owned_def
proof (induction owned arbitrary: g)
  case Nil
  then show ?case by (simp split: option.split)
next
  case (Cons un owned)
  obtain u n where un: "un = (u, n)" by force
  let ?g1 = "snd (remove_expected_user_if_generation u n g)"
  have "res_inv ?g1" using Cons.prems by (rule remove_if_generation_res_inv)
  moreover have "map_of (g_expected_user_generations ?g1) v
      = (if v = u \<and> map_of (g_expected_user_generations g) u = Some n then None
         else map_of (g_expected_user_generations g) v)" for v
    by (simp add: remove_expected_user_if_generation_def)
  ultimately show ?case using Cons.IH [of ?g1] by (auto simp: un split: option.split)
qed

lemma abort_restore_users:
  "set (g_expected_users (fst (abort_restore removed g)))
     = set (g_expected_users g) \<union> {u \<in> fst ` set removed. u \<noteq> []}"
proof (induction removed g rule: abort_restore.induct)
  case (2 u n removed g)
  show ?case
  proof (cases "u \<in> set (g_expected_users g)")
    case True
    with 2(1) show ?thesis by auto
  next
    case False
    obtain r g1 ts where r: "reserve_expected_user_with_generation u 30000 g = (r, g1, ts)" by (metis prod_cases3)
    have "set (g_expected_users g1) = set (g_expected_users g) \<union> (if u = [] then {} else {u})"
      using r False by (cases rule: reserve_cases [of u g 30000]) auto
    moreover have "fst (abort_restore ((u, n) # removed) g) = fst (abort_restore removed g1)"
      using False r by (simp split: prod.split)
    ultimately show ?thesis using 2(2) [OF False r [symmetric] refl] by auto
  qed
qed simp

lemma abort_restore_inv:
  assumes "res_inv g" "pending_inv g pend"
    "unat (g_next_expected_user_generation g) + length removed < 2 ^ 64 - 1"
    "abort_restore removed g = (g', ts)"
  shows "res_inv g' \<and> pending_inv g' (pend @ map snd ts)"
  using assms
proof (induction removed g arbitrary: pend g' ts rule: abort_restore.induct)
  case (2 u n removed g)
  show ?case
  proof (cases "u \<in> set (g_expected_users g)")
    case True
    with 2(1) [OF True] 2(3-6) show ?thesis by simp
  next
    case False
    obtain r g1 ts1 where r: "reserve_expected_user_with_generation u 30000 g = (r, g1, ts1)" by (metis prod_cases3)
    obtain g2 ts2 where g2: "abort_restore removed g1 = (g2, ts2)" by force
    have lt: "g_next_expected_user_generation g < - 1"
      using 2(5) by (simp add: word_less_nat_alt unsigned_minus_1_eq_mask mask_eq_exp_minus_1)
    have i1: "res_inv g1" using reserve_res_inv [OF 2(3) lt, of u 30000] by (simp add: r)
    have i2: "pending_inv g1 (pend @ map snd ts1)" by (rule pending_inv_reserve [OF 2(4) lt r])
    have "unat (next_nonzero (g_next_expected_user_generation g)) = unat (g_next_expected_user_generation g) + 1"
    proof -
      have "unat (g_next_expected_user_generation g + 1) = unat (g_next_expected_user_generation g) + 1"
        using 2(5) by (subst unat_add_noof) simp_all
      then show ?thesis by (auto simp: next_nonzero_def word_unat_eq_iff)
    qed
    then have "unat (g_next_expected_user_generation g1) + length removed < 2 ^ 64 - 1"
      using r 2(5) by (cases rule: reserve_cases [of u g 30000]) auto
    from 2(2) [OF False r [symmetric] refl i1 i2 this g2] show ?thesis
      using 2(6) False r g2 by auto
  qed
qed simp

section \<open>Every step keeps the invariant\<close>

lemma quiet_room_inv:
  fixes g g' :: "'a game"
  assumes "quiet_view g' = quiet_view g" "room_inv (g, pend)"
  shows "room_inv (g', pend)"
proof -
  have v: "member_view g' = member_view g" "res_view g' = res_view g" "lease_view g' = lease_view g"
    "saved_config g' = saved_config g" "g_last_actor_id g' = g_last_actor_id g"
    using assms(1) by (simp_all add: quiet_view_def)
  have "lease_inv g' = lease_inv g"
    using v(3-5) by (simp add: lease_inv_def lease_view_def saved_config_def)
  with assms(2) member_inv_view [OF v(1)] res_inv_view [OF v(2)] pending_inv_view [OF v(2)]
  show ?thesis by (simp add: room_inv_def)
qed

text \<open>Steps that only drop reservations or move members.\<close>

lemma lease_inv_members [simp]:
  "lease_inv (drop_reservation u g) = lease_inv g" "lease_inv (note_removed u n g) = lease_inv g"
  "lease_inv (remove_expected_user u g) = lease_inv g" "lease_inv (expire_reservation u n g) = lease_inv g"
  "lease_inv (snd (remove_expected_user_if_generation u n g)) = lease_inv g"
  "lease_inv (g\<lparr> g_peers := ps \<rparr>) = lease_inv g"
  "lease_inv (add_reservation u n g) = lease_inv g"
  by (simp_all add: lease_inv_def drop_reservation_def note_removed_def remove_expected_user_def
      expire_reservation_def remove_expected_user_if_generation_def add_reservation_def Let_def
      split: option.split)

lemma member_inv_res [simp]:
  "member_inv (drop_reservation u g) = member_inv g" "member_inv (note_removed u n g) = member_inv g"
  "member_inv (expire_reservation u n g) = member_inv g"
  "member_inv (snd (remove_expected_user_if_generation u n g)) = member_inv g"
  "member_inv (add_reservation u n g) = member_inv g"
  by (simp_all add: member_inv_def expire_reservation_def remove_expected_user_if_generation_def)

lemma gens_fewer:
  "map_of (g_expected_user_generations (remove_expected_user w g)) u = Some n
     \<Longrightarrow> map_of (g_expected_user_generations g) u = Some n"
  "map_of (g_expected_user_generations (snd (remove_expected_user_if_generation w k g))) u = Some n
     \<Longrightarrow> map_of (g_expected_user_generations g) u = Some n"
  by (auto simp: remove_expected_user_gens remove_expected_user_if_generation_def split: if_splits)

lemma pending_inv_remove_expected:
  assumes "pending_inv g pend"
  shows "pending_inv (remove_expected_user u g) pend"
    "pending_inv (snd (remove_expected_user_if_generation u n g)) pend"
proof -
  show "pending_inv (remove_expected_user u g) pend"
    by (rule pending_inv_fewer [OF assms]) (simp, erule gens_fewer(1))
  have "g_next_expected_user_generation (snd (remove_expected_user_if_generation u n g))
      = g_next_expected_user_generation g"
    by (simp add: remove_expected_user_if_generation_def)
  then show "pending_inv (snd (remove_expected_user_if_generation u n g)) pend"
    by (rule pending_inv_fewer [OF assms]) (erule gens_fewer(2))
qed

lemma pending_inv_peers [simp]: "pending_inv (g\<lparr> g_peers := ps \<rparr>) pend = pending_inv g pend"
  by (simp add: pending_inv_def)

lemma add_room_inv:
  assumes "room_inv (g, pend)" "gp_is_valid gp" "gp_actor_id gp \<le> 254"
  shows "room_inv (snd (add_peer wc h gp g), pend)"
    "room_inv (snd (add_peer_for_creation wc h gp owner n g), pend)"
proof -
  have i: "member_inv g" "res_inv g" "pending_inv g pend" "lease_inv g"
    using assms(1) by (auto simp: room_inv_def)
  have "pending_inv (snd (add_peer wc h gp g)) pend \<and> lease_inv (snd (add_peer wc h gp g))"
    using i by (cases rule: add_peer_cases [of wc h gp g]) (simp_all add: pending_inv_remove_expected)
  then show "room_inv (snd (add_peer wc h gp g), pend)"
    using i add_peer_member_inv [OF i(1) assms(2,3)] add_peer_res_inv [OF i(2)] by (simp add: room_inv_def)
  have "pending_inv (snd (add_peer_for_creation wc h gp owner n g)) pend
      \<and> lease_inv (snd (add_peer_for_creation wc h gp owner n g))"
    using i by (cases rule: add_peer_for_creation_cases [of wc h gp owner n g])
      (simp_all add: pending_inv_remove_expected)
  then show "room_inv (snd (add_peer_for_creation wc h gp owner n g), pend)"
    using i add_peer_for_creation_member_inv [OF i(1) assms(2,3)] add_peer_for_creation_res_inv [OF i(2)]
    by (simp add: room_inv_def)
qed

lemma retire_inactive [simp]: "\<not> gp_active (retire gp)"
  by (simp add: retire_def)

lemma member_inv_filter:
  assumes "member_inv g" "g_peers g' = filter P (g_peers g)"
    "g_retired_peers g' = g_retired_peers g @ map retire rs"
  shows "member_inv g'"
  using assms by (auto simp: member_inv_def distinct_map_filter)

lemma remove_loop_shape:
  "\<exists>ps rs evs. snd (remove_loop wc h r leaving g)
     = g\<lparr> g_peers := ps, g_retired_peers := rs, g_event_cache := evs \<rparr>"
proof (induction wc h r leaving g rule: remove_loop.induct)
  case (1 wc h r leaving g)
  show ?case
  proof (cases "List.extract (leaves h r) (g_peers g)")
    case None
    then show ?thesis
      by (intro exI [of _ "g_peers g"] exI [of _ "g_retired_peers g"] exI [of _ "g_event_cache g"])
        (simp add: remove_loop.simps [of wc h r leaving g])
  next
    case (Some t)
    then obtain before gp after where e: "List.extract (leaves h r) (g_peers g) = Some (before, gp, after)"
      by (cases t) auto
    show ?thesis
    proof (cases "lock h (gp_peer gp) = Some r")
      case True
      show ?thesis
        using "1.IH"(1) [OF e refl refl refl True refl refl] True
        unfolding remove_loop.simps [of wc h r leaving g] e Let_def
        by (simp split: if_splits)
    next
      case False
      show ?thesis
        using "1.IH"(2) [OF e refl refl refl False]
        unfolding remove_loop.simps [of wc h r leaving g] e Let_def option.case prod.case if_not_P [OF False]
        by simp
    qed
  qed
qed

lemma remove_loop_saved:
  assumes "remove_loop wc h r leaving g = (l, g')"
  shows "saved_config g' = saved_config g \<and> g_creation_owner g' = g_creation_owner g
     \<and> g_active_creation_generation g' = g_active_creation_generation g \<and> res_view g' = res_view g"
proof -
  obtain ps rs evs where "g' = g\<lparr> g_peers := ps, g_retired_peers := rs, g_event_cache := evs \<rparr>"
    using remove_loop_shape [of wc h r leaving g] assms by auto
  then show ?thesis by (simp add: saved_config_def res_view_def)
qed

lemma remove_peer_shape:
  assumes "remove_peer wc h (Some r) g = (b, g', ts)"
  obtains l g1 where "remove_loop wc h r 0 g = (l, g1)" "b \<longleftrightarrow> l \<noteq> 0"
    "g' = g1 \<or> (l \<noteq> 0 \<and> l = g_master_actor g1 \<and> g_peers g1 \<noteq> []
        \<and> g' = g1\<lparr> g_master_actor := gp_actor_id (hd (g_peers g1)) \<rparr>)"
    "l \<noteq> 0 \<and> l = g_master_actor g1 \<and> g_peers g1 \<noteq> [] \<longrightarrow> g_master_actor g' = gp_actor_id (hd (g_peers g1))"
    "ts = [] \<or> (\<exists>ttl k. ts = [(ttl, KeepRoomAlive k)])"
proof -
  obtain l g1 where r: "remove_loop wc h r 0 g = (l, g1)" by force
  show ?thesis
  proof (cases "l = 0")
    case True
    with assms r have "g' = g1" "ts = []" "\<not> b" by (auto simp: remove_peer_def)
    with True r show ?thesis by (intro that [of l g1]) auto
  next
    case False
    show ?thesis
    proof (cases "g_peers g1 = []")
      case True
      with False assms r have "g' = g1" "b" "ts = [] \<or> (\<exists>ttl k. ts = [(ttl, KeepRoomAlive k)])"
        by (auto simp: remove_peer_def split: if_splits)
      with True False r show ?thesis by (intro that [of l g1]) auto
    next
      case ne: False
      with False assms r have "b" "ts = []" "g' = (if l = g_master_actor g1
          then g1\<lparr> g_master_actor := gp_actor_id (hd (g_peers g1)) \<rparr> else g1)"
        by (auto simp: remove_peer_def split: if_splits)
      with ne False r show ?thesis by (intro that [of l g1]) auto
    qed
  qed
qed

lemma member_inv_master [simp]: "member_inv (g\<lparr> g_master_actor := m \<rparr>) = member_inv g"
  by (simp add: member_inv_def)

lemma master_views [simp]:
  "res_view (g\<lparr> g_master_actor := m \<rparr>) = res_view g"
  "saved_config (g\<lparr> g_master_actor := m \<rparr>) = saved_config g"
  by (simp_all add: res_view_def saved_config_def)

lemma remove_peer_inv:
  assumes "remove_peer wc h p g = (b, g', ts)" "member_inv g"
  shows "member_inv g' \<and> res_view g' = res_view g \<and> lease_view g' = lease_view g
    \<and> saved_config g' = saved_config g \<and> g_last_actor_id g' = g_last_actor_id g
    \<and> (ts = [] \<or> (\<exists>ttl k. ts = [(ttl, KeepRoomAlive k)]))"
proof (cases p)
  case None
  with assms show ?thesis by (simp add: remove_peer_def)
next
  case (Some r)
  with assms(1) obtain l g1 where r: "remove_loop wc h r 0 g = (l, g1)"
    and g': "g' = g1 \<or> g' = g1\<lparr> g_master_actor := gp_actor_id (hd (g_peers g1)) \<rparr>"
    and ts: "ts = [] \<or> (\<exists>ttl k. ts = [(ttl, KeepRoomAlive k)])"
    by (auto elim: remove_peer_shape)
  note f = remove_loop_peers [OF r]
  have "member_inv g1"
    by (rule member_inv_filter [OF assms(2), of _ "\<lambda>gp. \<not> leaves h r gp" "filter (leaves h r) (g_peers g)"])
      (use f in auto)
  moreover have "lease_view g1 = lease_view g" "g_last_actor_id g1 = g_last_actor_id g"
    using f remove_loop_saved [OF r] by (auto simp: lease_view_def)
  moreover have "lease_view (g1\<lparr> g_master_actor := m \<rparr>) = lease_view g1"
    "g_last_actor_id (g1\<lparr> g_master_actor := m \<rparr>) = g_last_actor_id g1" for m
    by (simp_all add: lease_view_def)
  ultimately show ?thesis using g' ts remove_loop_saved [OF r] by auto
qed

lemma creation_room_inv:
  assumes "room_inv (g, pend)"
  shows "try_begin_creation owner g = (n, g') \<Longrightarrow> room_inv (g', pend)"
    "commit_creation h owner n g = (r, g') \<Longrightarrow> room_inv (g', pend)"
proof -
  have i: "member_inv g" "res_inv g" "pending_inv g pend" "lease_inv g"
    using assms by (auto simp: room_inv_def)
  assume b: "try_begin_creation owner g = (n, g')"
  show "room_inv (g', pend)"
  proof (cases "owner = None \<or> g_is_created g \<or> g_is_creating g \<or> active_peer_count g \<noteq> 0")
    case True
    with b have "g' = g" by (simp add: try_begin_creation_def)
    with assms show ?thesis by simp
  next
    case False
    have "g' = snd (try_begin_creation owner g)" using b by simp
    also have "\<dots> = (let g1 = (save_initial g)\<lparr> g_is_creating := True \<rparr>;
              generation = next_nonzero (g_next_creation_generation g1)
          in g1\<lparr> g_next_creation_generation := generation, g_active_creation_generation := generation,
                 g_state_revision := g_state_revision g1 + 1, g_creation_owner := owner,
                 gr_reserved_generations := [], gr_removed_generations := [] \<rparr>)"
      unfolding try_begin_creation_def if_not_P [OF False] Let_def by simp
    finally have g': "g' = (let g1 = (save_initial g)\<lparr> g_is_creating := True \<rparr>;
              generation = next_nonzero (g_next_creation_generation g1)
          in g1\<lparr> g_next_creation_generation := generation, g_active_creation_generation := generation,
                 g_state_revision := g_state_revision g1 + 1, g_creation_owner := owner,
                 gr_reserved_generations := [], gr_removed_generations := [] \<rparr>)" .
    have "res_inv g' = res_inv g"
      by (rule res_inv_same) (simp_all add: g' Let_def save_initial_def)
    with i False show ?thesis
      by (simp add: room_inv_def) (simp add: g' Let_def save_initial_def member_inv_def pending_inv_def
          lease_inv_def)
  qed
next
  have i: "member_inv g" "res_inv g" "pending_inv g pend" "lease_inv g"
    using assms by (auto simp: room_inv_def)
  assume c: "commit_creation h owner n g = (r, g')"
  show "room_inv (g', pend)"
  proof (cases "\<not> lease_held h owner n g \<or> find_peer_ref h g owner = None")
    case True
    with c have "g' = g" by (simp add: commit_creation_def)
    with assms show ?thesis by simp
  next
    case False
    then have g': "g' = g\<lparr> g_state_revision := g_state_revision g + 1, g_is_created := True,
             g_creation_owner := None, g_is_creating := False \<rparr>"
      using c unfolding commit_creation_def if_not_P [OF False] by simp
    have "res_inv g' = res_inv g" by (rule res_inv_same) (simp_all add: g')
    with i show ?thesis
      by (simp add: room_inv_def) (simp add: g' member_inv_def pending_inv_def lease_inv_def)
  qed
qed

text \<open>The parts of a successful rollback, named.\<close>

lemma abort_parts:
  assumes "abort_creation_transaction h owner n g = (True, g', ts)"
  obtains g1 g2 g3 g4 where "lease_held h owner n g" "g1 = abort_retire h g"
    "g2 = g1\<lparr> g_inactive_players := gi_inactive_players g1 \<rparr>"
    "g3 = abort_drop_owned (gr_reserved_generations g2) g2"
    "abort_restore (gr_removed_generations g3) g3 = (g4, ts)" "g' = restore_initial g4"
  using assms
  by (auto simp: abort_creation_transaction_def Let_def split: if_splits prod.splits)

lemma abort_refused:
  "abort_creation_transaction h owner n g = (False, g', ts) \<Longrightarrow> g' = g \<and> ts = []"
  by (auto simp: abort_creation_transaction_def Let_def split: if_splits prod.splits)

lemma abort_room_inv:
  assumes "room_inv (g, pend)" "abort_creation_transaction h owner n g = (r, g', ts)"
    "unat (g_next_expected_user_generation g) + length (gr_removed_generations g) < 2 ^ 64 - 1"
  shows "room_inv (g', pend @ map snd ts)"
proof (cases r)
  case False
  with assms(2) have "abort_creation_transaction h owner n g = (False, g', ts)" by simp
  from abort_refused [OF this] assms(1) show ?thesis by simp
next
  case True
  with assms(2) have "abort_creation_transaction h owner n g = (True, g', ts)" by simp
  then obtain g1 g2 g3 g4 where held: "lease_held h owner n g" and g1: "g1 = abort_retire h g"
    and g2: "g2 = g1\<lparr> g_inactive_players := gi_inactive_players g1 \<rparr>"
    and g3: "g3 = abort_drop_owned (gr_reserved_generations g2) g2"
    and g4: "abort_restore (gr_removed_generations g3) g3 = (g4, ts)" and g': "g' = restore_initial g4"
    by (rule abort_parts)
  have i: "member_inv g" "res_inv g" "pending_inv g pend" "lease_inv g"
    using assms(1) by (auto simp: room_inv_def)
  obtain rs where s1: "g1 = g\<lparr> g_peers := filter (\<lambda>gp. lock h (gp_peer gp) = None) (g_peers g),
     g_retired_peers := g_retired_peers g @ map retire rs \<rparr>"
    using abort_retire_shape g1 by blast
  obtain a b where s3: "g3 = g2\<lparr> g_expected_user_generations := a, g_expected_users := b \<rparr>"
    using abort_drop_owned_shape g3 by blast
  obtain c d e f where s4: "g4 = g3\<lparr> g_expected_users := c, g_next_expected_user_generation := e,
      g_expected_user_generations := d, gr_reserved_generations := f \<rparr>"
    using abort_restore_shape [of "gr_removed_generations g3" g3] g4 by auto
  have "member_inv g1"
    by (rule member_inv_filter [OF i(1)]) (simp_all add: s1)
  then have m: "member_inv g'"
    by (simp add: g' s4 s3 g2 restore_initial_def member_inv_def)
  have "res_inv g2 = res_inv g" by (rule res_inv_same) (simp_all add: g2 s1)
  with i(2) have r2: "res_inv g2" by simp
  note d3 = abort_drop_owned_res [OF r2, of "gr_reserved_generations g2", folded g3]
  have gens2: "g_expected_user_generations g2 = g_expected_user_generations g" by (simp add: g2 s1)
  have p3: "pending_inv g3 pend"
  proof (rule pending_inv_fewer [OF i(3)])
    show "g_next_expected_user_generation g3 = g_next_expected_user_generation g"
      by (simp add: s3 g2 s1)
    show "map_of (g_expected_user_generations g) u = Some m"
      if "map_of (g_expected_user_generations g3) u = Some m" for u m
      using that d3 gens2 by (auto split: option.splits if_splits)
  qed
  have "unat (g_next_expected_user_generation g3) + length (gr_removed_generations g3) < 2 ^ 64 - 1"
    using assms(3) by (simp add: s3 g2 s1)
  from abort_restore_inv [OF _ p3 this g4] d3 have "res_inv g4" "pending_inv g4 (pend @ map snd ts)" by auto
  moreover have "res_inv g' = res_inv g4"
    by (rule res_inv_same) (simp_all add: g' restore_initial_def)
  ultimately have "res_inv g'" "pending_inv g' (pend @ map snd ts)"
    by (simp_all add: g' restore_initial_def pending_inv_def)
  moreover have "lease_inv g'"
  proof -
    have "g_is_creating g" using held by (simp add: lease_held_def)
    with i(4) have "\<not> gi_is_created g" "0 \<le> gi_last_actor_id g" by (auto simp: lease_inv_def)
    then show ?thesis by (simp add: g' s4 s3 g2 s1 restore_initial_def lease_inv_def)
  qed
  ultimately show ?thesis using m by (simp add: room_inv_def)
qed

lemma room_step_inv:
  assumes "room_step vo wc cfg ser h op s s'" "room_inv s"
  shows "room_inv s'"
  using assms
proof (induction rule: room_step.induct)
  case (reserve g u ttl r g' ts h pend)
  then have "res_inv g'" using reserve_res_inv [of g u ttl] by (simp add: room_inv_def)
  moreover have "member_inv g' \<and> lease_inv g'"
    using reserve by (cases rule: reserve_cases [of u g ttl]) (auto simp: room_inv_def)
  moreover have "pending_inv g' (pend @ map snd ts)"
    using reserve by (intro pending_inv_reserve) (auto simp: room_inv_def)
  ultimately show ?case by (simp add: room_inv_def)
next
  case (expire u n pend h g)
  then show ?case by (simp add: room_inv_def expire_reservation_res_inv pending_inv_expire)
next
  case (remove_expected h u g pend)
  then show ?case by (simp add: room_inv_def remove_expected_user_res_inv pending_inv_remove_expected)
next
  case (release h u n g pend)
  then show ?case by (simp add: room_inv_def remove_if_generation_res_inv pending_inv_remove_expected)
next
  case (allocate h p g gp g' pend)
  note f = create_peer_frame [OF allocate(1)]
  have "member_inv g' = member_inv g" "res_inv g' = res_inv g" "pending_inv g' pend = pending_inv g pend"
    by (simp_all add: member_inv_def res_inv_def pending_inv_def f)
  moreover have "lease_inv g'"
  proof -
    define x where "x = g_last_actor_id g'"
    have "g' = g\<lparr> g_last_actor_id := x \<rparr>"
      using allocate(1) by (auto simp: x_def create_peer_def Let_def split: option.splits prod.splits)
    moreover have "0 \<le> x"
      using f(9) allocate(2) by (simp add: x_def room_inv_def lease_inv_def)
    ultimately show ?thesis using allocate(2) by (simp add: lease_inv_def room_inv_def)
  qed
  ultimately show ?case using allocate(2) by (simp add: room_inv_def)
next
  case (add gp h g pend)
  then show ?case by (simp add: add_room_inv)
next
  case (add_for_creation gp h owner n g pend)
  then show ?case by (simp add: add_room_inv)
next
  case (remove h p g r g' ts pend)
  have i: "member_inv g" "res_inv g" "pending_inv g pend" "lease_inv g"
    using remove(2) by (auto simp: room_inv_def)
  note f = remove_peer_inv [OF remove(1) i(1)]
  have "lease_inv g' = lease_inv g" "res_inv g' = res_inv g"
    using f by (auto simp: lease_inv_def lease_view_def saved_config_def res_inv_def res_view_def)
  moreover have "pending_inv g' (pend @ map snd ts)"
    using f i(3) pending_inv_view [of g' g] pending_inv_keep_alive by auto
  ultimately show ?case using f i by (simp add: room_inv_def)
next
  case (begin_creation owner g n g' h pend)
  then show ?case using creation_room_inv(1) by blast
next
  case (commit h owner n g r g' pend)
  then show ?case using creation_room_inv(2) by blast
next
  case (abort g h owner n r g' ts pend)
  then show ?case using abort_room_inv by blast
qed (auto intro: quiet_room_inv quiet)

lemma room_run_inv: "room_run vo wc cfg ser s ops s' \<Longrightarrow> room_inv s \<Longrightarrow> room_inv s'"
  by (induction rule: room_run.induct) (auto intro: room_step_inv)

lemma new_room_inv: "room_inv (new_game r gid addr, [])"
  by (simp add: room_inv_def member_inv_def res_inv_def pending_inv_def lease_inv_def new_game_def)

section \<open>A creation in progress\<close>

text \<open>
  The invariant of a transaction: the saved fields are those of the start; a
  live reservation is either one the transaction made or the one of the start;
  a reservation of the start that is gone is recorded, unless it was released
  on purpose by its holder.
\<close>

definition tx_inv :: "'v game \<Rightarrow> string set \<Rightarrow> 'v game \<Rightarrow> bool" where
  "tx_inv g0 released g \<longleftrightarrow> g_is_creating g \<and> res_inv g \<and> saved_config g = live_config g0
   \<and> (\<forall>u n. map_of (g_expected_user_generations g) u = Some n \<longrightarrow>
        map_of (gr_reserved_generations g) u = Some n
        \<or> map_of (gr_reserved_generations g) u = None \<and> map_of (g_expected_user_generations g0) u = Some n)
   \<and> (\<forall>u\<in>dom (map_of (g_expected_user_generations g0)) - released.
        u \<in> dom (map_of (gr_removed_generations g))
        \<or> map_of (gr_reserved_generations g) u = None
           \<and> map_of (g_expected_user_generations g) u = map_of (g_expected_user_generations g0) u)
   \<and> dom (map_of (gr_removed_generations g)) \<subseteq> dom (map_of (g_expected_user_generations g0))"

fun op_released :: "'v room_op \<Rightarrow> string set" where
  "op_released (OpRelease u n) = {u}"
| "op_released _ = {}"

fun op_in_transaction :: "'v room_op \<Rightarrow> bool" where
  "op_in_transaction (OpBegin _) = False"
| "op_in_transaction (OpCommit _ _) = False"
| "op_in_transaction (OpAbort _ _) = False"
| "op_in_transaction _ = True"

lemma tx_inv_view:
  fixes g g' g0 :: "'a game"
  assumes "tx_inv g0 rel g" "res_view g' = res_view g" "saved_config g' = saved_config g"
    "g_is_creating g' = g_is_creating g"
  shows "tx_inv g0 rel g'"
proof -
  have "res_inv g' = res_inv g"
    using assms(2) by (intro res_inv_same) (simp_all add: res_view_def)
  with assms show ?thesis by (simp add: tx_inv_def res_view_def)
qed

lemma tx_inv_weaken: "tx_inv g0 rel g \<Longrightarrow> rel \<subseteq> rel' \<Longrightarrow> tx_inv g0 rel' g"
  by (auto simp: tx_inv_def)

text \<open>Dropping a reservation after noting it.\<close>

lemma tx_inv_drop:
  assumes "tx_inv g0 rel g" "map_of (g_expected_user_generations g) u = Some n"
  shows "tx_inv g0 rel (drop_reservation u (note_removed u n g))"
proof -
  have i: "g_is_creating g" "res_inv g" using assms(1) by (auto simp: tx_inv_def)
  show ?thesis
  proof (cases "map_of (gr_reserved_generations g) u = Some n")
    case True
    with assms show ?thesis
      by (auto simp: tx_inv_def note_removed_def drop_reservation_res_inv)
  next
    case False
    have "map_of (g_expected_user_generations g0) u = Some n"
      using False assms by (auto simp: tx_inv_def)
    moreover have "note_removed u n g
        = g\<lparr> gr_removed_generations := ht_put (gr_removed_generations g) u n \<rparr>"
      using False i by (simp add: note_removed_def)
    moreover have "res_inv (drop_reservation u (note_removed u n g))"
      using i by (simp add: drop_reservation_res_inv)
    ultimately show ?thesis
      using assms False i
      by (auto simp: tx_inv_def drop_reservation_def saved_config_def)
  qed
qed

lemma tx_inv_release:
  assumes "tx_inv g0 rel g"
  shows "tx_inv g0 (insert u rel) (snd (remove_expected_user_if_generation u n g))"
proof (cases "map_of (g_expected_user_generations g) u = Some n")
  case True
  with assms show ?thesis
    by (auto simp: tx_inv_def remove_expected_user_if_generation_def drop_reservation_res_inv)
next
  case False
  with tx_inv_weaken [OF assms, of "insert u rel"] show ?thesis
    by (auto simp: remove_expected_user_if_generation_def)
qed

lemma tx_inv_expire: "tx_inv g0 rel g \<Longrightarrow> tx_inv g0 rel (expire_reservation u n g)"
  by (simp add: expire_reservation_def tx_inv_drop)

lemma tx_inv_remove_expected: "tx_inv g0 rel g \<Longrightarrow> tx_inv g0 rel (remove_expected_user u g)"
proof (cases "map_of (g_expected_user_generations g) u")
  case None
  assume i: "tx_inv g0 rel g"
  with None have "u \<notin> set (g_expected_users g)" by (auto simp: tx_inv_def res_inv_def)
  with i None show ?thesis by (simp add: remove_expected_user_def remove1_idem)
next
  case (Some n)
  assume "tx_inv g0 rel g"
  with Some show ?thesis by (simp add: remove_expected_user_def tx_inv_drop)
qed

lemma tx_inv_reserve:
  assumes "tx_inv g0 rel g" "g_next_expected_user_generation g < - 1"
    "reserve_expected_user_with_generation u ttl g = (r, g', ts)"
  shows "tx_inv g0 rel g'"
proof (cases rule: reserve_cases [of u g ttl])
  case refused
  with assms show ?thesis by simp
next
  case (made n)
  have g': "g' = add_reservation u n g" using made assms(3) by simp
  have i: "g_is_creating g" "res_inv g" using assms(1) by (auto simp: tx_inv_def)
  have "map_of (g_expected_user_generations g) u = None"
    using made(2) i(2) by (auto simp: res_inv_def)
  moreover have "gr_reserved_generations g' = ht_put (gr_reserved_generations g) u n"
    using i(1) by (simp add: g' add_reservation_def Let_def)
  moreover have "res_inv g'"
    using reserve_res_inv [OF i(2) assms(2), of u ttl] assms(3) by simp
  ultimately show ?thesis
    using assms(1) by (auto simp: tx_inv_def g')
qed

lemma tx_inv_peers: "tx_inv g0 rel g \<Longrightarrow> tx_inv g0 rel (g\<lparr> g_peers := ps \<rparr>)"
  by (erule tx_inv_view) (simp_all add: res_view_def saved_config_def)

lemma quiet_tx_inv: "quiet_view g' = quiet_view g \<Longrightarrow> tx_inv g0 rel g \<Longrightarrow> tx_inv g0 rel g'"
  by (erule tx_inv_view) (simp_all add: quiet_view_def lease_view_def)

lemma tx_step:
  assumes "room_step vo wc cfg ser h op s s'" "op_in_transaction op" "tx_inv g0 rel (fst s)" "room_inv s"
  shows "tx_inv g0 (rel \<union> op_released op) (fst s')"
  using assms
proof (induction rule: room_step.induct)
  case (reserve g u ttl r g' ts h pend)
  then show ?case by (simp add: tx_inv_reserve)
next
  case (allocate h p g gp g' pend)
  have "res_view g' = res_view g" "saved_config g' = saved_config g" "g_is_creating g' = g_is_creating g"
    using allocate(1)
    by (auto simp: create_peer_def Let_def res_view_def saved_config_def split: option.splits prod.splits)
  with allocate show ?case by (auto intro: tx_inv_view)
next
  case (add gp h g pend)
  then show ?case
    by (cases rule: add_peer_cases [of wc h gp g]) (simp_all add: tx_inv_remove_expected tx_inv_peers)
next
  case (add_for_creation gp h owner n g pend)
  then show ?case
    by (cases rule: add_peer_for_creation_cases [of wc h gp owner n g])
      (simp_all add: tx_inv_remove_expected tx_inv_peers)
next
  case (remove h p g r g' ts pend)
  then have "member_inv g" by (simp add: room_inv_def)
  with remove_peer_inv [OF remove(1)] remove show ?case
    by (auto simp: lease_view_def intro: tx_inv_view)
next
  case (release h u n g pend)
  then show ?case by (simp add: tx_inv_release)
qed (auto intro: quiet_tx_inv quiet simp: tx_inv_expire tx_inv_remove_expected)

lemma tx_run:
  assumes "room_run vo wc cfg ser s ops s'" "\<forall>(h, op)\<in>set ops. op_in_transaction op"
    "tx_inv g0 {} (fst s)" "room_inv s"
  shows "tx_inv g0 (\<Union>(h, op)\<in>set ops. op_released op) (fst s')"
  using assms
proof (induction rule: room_run.induct)
  case (run_step s ops s' h op s'')
  have "room_inv s'" by (rule room_run_inv [OF run_step(1,6)])
  moreover have "tx_inv g0 (\<Union>(h, op)\<in>set ops. op_released op) (fst s')"
    using run_step by auto
  ultimately have "tx_inv g0 ((\<Union>(h, op)\<in>set ops. op_released op) \<union> op_released op) (fst s'')"
    using run_step by (intro tx_step [OF run_step(2)]) auto
  then show ?case by (simp add: Un_commute)
qed simp

lemma begin_tx_inv:
  assumes "try_begin_creation owner g = (n, g')" "n \<noteq> 0" "res_inv g"
  shows "tx_inv g {} g'" "g_creation_owner g' = owner" "g_active_creation_generation g' = n"
    "g_expected_users g' = g_expected_users g" "owner \<noteq> None"
proof -
  have c: "\<not> (owner = None \<or> g_is_created g \<or> g_is_creating g \<or> active_peer_count g \<noteq> 0)"
  proof
    assume "owner = None \<or> g_is_created g \<or> g_is_creating g \<or> active_peer_count g \<noteq> 0"
    with assms(1,2) show False by (simp add: try_begin_creation_def)
  qed
  define g1 where "g1 = (save_initial g)\<lparr> g_is_creating := True \<rparr>"
  have "(n, g') = (next_nonzero (g_next_creation_generation g1),
      g1\<lparr> g_next_creation_generation := next_nonzero (g_next_creation_generation g1),
         g_active_creation_generation := next_nonzero (g_next_creation_generation g1),
         g_state_revision := g_state_revision g1 + 1, g_creation_owner := owner,
         gr_reserved_generations := [], gr_removed_generations := [] \<rparr>)"
    using assms(1) unfolding try_begin_creation_def if_not_P [OF c] Let_def g1_def by (rule sym)
  then have n: "n = next_nonzero (g_next_creation_generation g1)" and
    g': "g' = g1\<lparr> g_next_creation_generation := n, g_active_creation_generation := n,
         g_state_revision := g_state_revision g1 + 1, g_creation_owner := owner,
         gr_reserved_generations := [], gr_removed_generations := [] \<rparr>"
    by (simp_all only: prod.inject)
  have "saved_config g' = saved_config (save_initial g)"
    by (simp add: g' g1_def saved_config_def)
  moreover have "res_inv g' = res_inv g"
    by (rule res_inv_same) (simp_all add: g' g1_def save_initial_def)
  ultimately show "tx_inv g {} g'"
    using assms(3) by (simp add: tx_inv_def save_initial_saved) (simp add: g' g1_def save_initial_def)
  show "g_creation_owner g' = owner" "g_active_creation_generation g' = n"
    "g_expected_users g' = g_expected_users g" "owner \<noteq> None"
    using c by (simp_all add: g' g1_def save_initial_def)
qed

text \<open>What the abort of a transaction restores: the saved fields, and the reservations of the start.\<close>

lemma abort_restores_config:
  assumes "abort_creation_transaction h owner n g = (True, g', ts)"
  shows "live_config g' = saved_config g" "\<not> g_is_creating g'"
    "\<forall>gp\<in>set (g_peers g'). lock h (gp_peer gp) = None"
proof -
  obtain a1 a2 a3 a4 where a1: "a1 = abort_retire h g"
    and a2: "a2 = a1\<lparr> g_inactive_players := gi_inactive_players a1 \<rparr>"
    and a3: "a3 = abort_drop_owned (gr_reserved_generations a2) a2"
    and a4: "abort_restore (gr_removed_generations a3) a3 = (a4, ts)" and g': "g' = restore_initial a4"
    by (rule abort_parts [OF assms])
  obtain rs where s1: "a1 = g\<lparr> g_peers := filter (\<lambda>gp. lock h (gp_peer gp) = None) (g_peers g),
     g_retired_peers := g_retired_peers g @ map retire rs \<rparr>"
    using abort_retire_shape a1 by blast
  obtain x y where s3: "a3 = a2\<lparr> g_expected_user_generations := x, g_expected_users := y \<rparr>"
    using abort_drop_owned_shape a3 by blast
  obtain c d e f where s4: "a4 = a3\<lparr> g_expected_users := c, g_next_expected_user_generation := e,
      g_expected_user_generations := d, gr_reserved_generations := f \<rparr>"
    using abort_restore_shape [of "gr_removed_generations a3" a3] a4 by auto
  note shape = g' s4 s3 a2 s1 restore_initial_def
  show "live_config g' = saved_config g"
    by (simp add: shape live_config_def saved_config_def)
  show "\<not> g_is_creating g'" by (simp add: shape)
  show "\<forall>gp\<in>set (g_peers g'). lock h (gp_peer gp) = None" by (simp add: shape lock_None)
qed

text \<open>
  The reservations after the abort: those the transaction left of the others, and
  those whose removal it noted.
\<close>

lemma abort_restores_reservations:
  assumes "abort_creation_transaction h owner n g = (True, g', ts)" "res_inv g"
  shows "set (g_expected_users g') =
    {u. \<exists>m. map_of (g_expected_user_generations g) u = Some m \<and> (u, m) \<notin> set (gr_reserved_generations g)}
    \<union> {u \<in> dom (map_of (gr_removed_generations g)). u \<noteq> []}"
proof -
  obtain a1 a2 a3 a4 where a1: "a1 = abort_retire h g"
    and a2: "a2 = a1\<lparr> g_inactive_players := gi_inactive_players a1 \<rparr>"
    and a3: "a3 = abort_drop_owned (gr_reserved_generations a2) a2"
    and a4: "abort_restore (gr_removed_generations a3) a3 = (a4, ts)" and g': "g' = restore_initial a4"
    by (rule abort_parts [OF assms(1)])
  obtain rs where s1: "a1 = g\<lparr> g_peers := filter (\<lambda>gp. lock h (gp_peer gp) = None) (g_peers g),
     g_retired_peers := g_retired_peers g @ map retire rs \<rparr>"
    using abort_retire_shape a1 by blast
  obtain x y where s3: "a3 = a2\<lparr> g_expected_user_generations := x, g_expected_users := y \<rparr>"
    using abort_drop_owned_shape a3 by blast
  have "res_inv a2 = res_inv g" by (rule res_inv_same) (simp_all add: a2 s1)
  with assms(2) have r2: "res_inv a2" by simp
  have view: "g_expected_user_generations a2 = g_expected_user_generations g"
    "gr_reserved_generations a2 = gr_reserved_generations g"
    "gr_removed_generations a3 = gr_removed_generations g"
    by (simp_all add: s3 a2 s1)
  note d3 = abort_drop_owned_res [OF r2, of "gr_reserved_generations a2", folded a3, unfolded view]
  have "set (g_expected_users g') = dom (map_of (g_expected_user_generations a3))
      \<union> {u \<in> dom (map_of (gr_removed_generations g)). u \<noteq> []}"
    using abort_restore_users [of "gr_removed_generations a3" a3] a4 d3
    by (simp add: g' restore_initial_def view res_inv_def dom_map_of_conv_image_fst)
  moreover have "u \<in> dom (map_of (g_expected_user_generations a3)) \<longleftrightarrow>
      (\<exists>m. map_of (g_expected_user_generations g) u = Some m \<and> (u, m) \<notin> set (gr_reserved_generations g))" for u
    using d3 by (auto simp: dom_def split: option.splits)
  ultimately show ?thesis by blast
qed

lemma tx_abort_reservations:
  assumes "tx_inv g0 released g" "res_inv g0" "abort_creation_transaction h owner n g = (True, g', ts)"
  shows "set (g_expected_users g0) - released \<subseteq> set (g_expected_users g')"
    "set (g_expected_users g') \<subseteq> set (g_expected_users g0)"
proof -
  have "res_inv g" using assms(1) by (simp add: tx_inv_def)
  note users = abort_restores_reservations [OF assms(3) this]
  have users0: "set (g_expected_users g0) = dom (map_of (g_expected_user_generations g0))"
    "[] \<notin> dom (map_of (g_expected_user_generations g0))"
    using assms(2) by (auto simp: res_inv_def)
  show "set (g_expected_users g') \<subseteq> set (g_expected_users g0)"
  proof
    fix u assume "u \<in> set (g_expected_users g')"
    then consider m where "map_of (g_expected_user_generations g) u = Some m" "(u, m) \<notin> set (gr_reserved_generations g)"
      | "u \<in> dom (map_of (gr_removed_generations g))"
      using users by auto
    then show "u \<in> set (g_expected_users g0)"
    proof cases
      case (1 m)
      then have "map_of (gr_reserved_generations g) u \<noteq> Some m" by (auto dest: map_of_SomeD)
      with 1(1) assms(1) have "map_of (g_expected_user_generations g0) u = Some m"
        unfolding tx_inv_def by blast
      with users0 show ?thesis by auto
    next
      case 2
      with assms(1) users0 show ?thesis by (auto simp: tx_inv_def)
    qed
  qed
  show "set (g_expected_users g0) - released \<subseteq> set (g_expected_users g')"
  proof
    fix u assume u: "u \<in> set (g_expected_users g0) - released"
    then obtain m where m: "map_of (g_expected_user_generations g0) u = Some m" "u \<noteq> []"
      using users0 by auto
    have "u \<in> dom (map_of (g_expected_user_generations g0)) - released" using u m(1) by auto
    moreover have "\<forall>u\<in>dom (map_of (g_expected_user_generations g0)) - released.
        u \<in> dom (map_of (gr_removed_generations g))
        \<or> map_of (gr_reserved_generations g) u = None
           \<and> map_of (g_expected_user_generations g) u = map_of (g_expected_user_generations g0) u"
      using assms(1) unfolding tx_inv_def by (elim conjE)
    ultimately have "u \<in> dom (map_of (gr_removed_generations g))
        \<or> map_of (gr_reserved_generations g) u = None
           \<and> map_of (g_expected_user_generations g) u = map_of (g_expected_user_generations g0) u"
      by (rule bspec [rotated])
    then show "u \<in> set (g_expected_users g')"
    proof (elim disjE conjE)
      assume "u \<in> dom (map_of (gr_removed_generations g))"
      with m users show ?thesis by auto
    next
      assume 2: "map_of (gr_reserved_generations g) u = None"
        "map_of (g_expected_user_generations g) u = map_of (g_expected_user_generations g0) u"
      then have "(u, m) \<notin> set (gr_reserved_generations g)"
        by (auto dest: weak_map_of_SomeI)
      with 2(2) m(1) users show ?thesis by auto
    qed
  qed
qed

lemma begin_uncreated: "try_begin_creation owner g = (n, g') \<Longrightarrow> n \<noteq> 0 \<Longrightarrow> \<not> g_is_created g"
  by (auto simp: try_begin_creation_def split: if_splits)

section \<open>Properties\<close>

text \<open>
  C7: A failed creation leaves no trace. Whatever happens between the start of
  the creation and its abort (joins, leaves, property changes, cached events,
  reservations made, consumed or expired, peers vanishing), the abort puts back
  every saved field of the room, ends the creation, leaves no connected member,
  and reserves exactly the users that were reserved at the start, except those
  whose reservation its own holder released meanwhile.
\<close>

theorem creation_rollback:
  assumes "room_inv (g0, pend0)" "try_begin_creation owner g0 = (n, g1)" "n \<noteq> 0"
    "room_run vo wc cfg ser (g1, pend0) ops (g2, pend2)" "\<forall>(h, op)\<in>set ops. op_in_transaction op"
    "abort_creation_transaction h owner n g2 = (True, g3, ts)"
  defines "released \<equiv> \<Union>(h, op)\<in>set ops. op_released op"
  shows "live_config g3 = live_config g0 \<and> \<not> g_is_creating g3 \<and> \<not> g_is_created g3
    \<and> (\<forall>gp\<in>set (g_peers g3). lock h (gp_peer gp) = None)
    \<and> set (g_expected_users g0) - released \<subseteq> set (g_expected_users g3)
    \<and> set (g_expected_users g3) \<subseteq> set (g_expected_users g0)"
proof -
  have r0: "res_inv g0" using assms(1) by (simp add: room_inv_def)
  have "room_inv (g1, pend0)" by (rule creation_room_inv(1) [OF assms(1,2)])
  with tx_run [OF assms(4,5)] begin_tx_inv(1) [OF assms(2,3) r0] have tx: "tx_inv g0 released g2"
    by (simp add: released_def)
  note config = abort_restores_config [OF assms(6)]
  have cfg: "live_config g3 = live_config g0" using config(1) tx by (simp add: tx_inv_def)
  moreover have "\<not> g_is_created g3"
    using cfg begin_uncreated [OF assms(2,3)] by (simp add: live_config_def)
  ultimately show ?thesis
    using config(2,3) tx_abort_reservations [OF tx r0 assms(6)] by blast
qed

end
