(* ===== verification/GameServer.thy ===== *)
theory GameServer
  imports GameMachine
begin

text \<open>
  The game server's request handler (src/handler_gameserver.cpp), built without
  plugins: entering a room with the creation lease and its rollback, raising
  events with the room cache, properties, interest groups, leaving, disconnecting
  and the retry of a join that waits for a creation. A handler serves one peer;
  the requests below arrive decoded. The flag \<^theory_text>\<open>disconnected_\<close> may be set by
  another thread at any moment: a request reads it at numbered points, and the
  values it reads are a parameter. Everything a request does to the outside is a
  list of effects, in order; debug messages are left out.
\<close>

section \<open>Constants and the environment\<close>

record 'v handler_codes =
  hc_CleanupCacheOnLeave :: u8
  hc_SuppressRoomEvents :: u8
  hc_SuppressPlayerInfo :: u8
  hc_cache_AddToRoomCache :: u8
  hc_cache_AddToRoomCacheGlobal :: u8
  hc_cache_RemoveFromRoomCache :: u8
  hc_cache_RemoveFromCacheForActorsLeft :: u8
  hc_ev_Join :: u8
  hc_ev_Leave :: u8
  hc_op_CreateGame :: u8
  hc_op_JoinGame :: u8
  hc_op_RaiseEvent :: u8
  hc_op_SetProperties :: u8
  hc_op_Leave :: u8
  hc_dk_ActorList :: u8
  hc_dk_MasterClientId :: u8
  hc_dk_ActorProperties :: u8
  hc_err_NotAllowed :: int
  hc_err_OperationInvalid :: int
  hc_of_i32s :: "int list \<Rightarrow> 'v"

record 'v server_env =
  se_vo :: "'v value_ops"
  se_wc :: wire_codes
  se_hc :: "'v handler_codes"
  se_cfg :: app_settings
  se_ser :: "'v serializer"
  se_heap :: heap

record 'v joined_response =
  jr_flags :: int
  jr_actors :: "int list"
  jr_game_props :: "('v, 'v) assoc"
  jr_actor_no :: int
  jr_actor_props :: "('v, 'v) assoc"

datatype 'v effect =
  Response u8 int
| Joined u8 "'v joined_response"
| Disconnect
| LobbyUpdate
| LobbyDelete
| Packet packet
| Scheduled u32 task
| Thrown

definition lobby_effects :: "lobby_effect list \<Rightarrow> 'v effect list" where
  "lobby_effects = map (\<lambda>e. case e of NotifyGameDelete \<Rightarrow> LobbyDelete | TriggerLobbyUpdate \<Rightarrow> LobbyUpdate)"

definition scheduled :: "(u32 \<times> task) list \<Rightarrow> 'v effect list" where
  "scheduled = map (\<lambda>(ms, t). Scheduled ms t)"

section \<open>Requests and the handler\<close>

record 'v join_params =
  jp_game_id :: string
  jp_mode :: u8
  jp_expected_users :: "string list"
  jp_game_props :: "('v, 'v) assoc option"
  jp_actor_props :: "('v, 'v) assoc option"
  jp_player_ttl :: "int option"
  jp_empty_ttl :: "int option"
  jp_flags :: "int option"
  jp_check_user :: "bool option"
  jp_suppress_events :: "bool option"
  jp_publish_user_id :: "bool option"

record 'v pending_join =
  pj_generation :: u64
  pj_op :: u8
  pj_params :: "'v join_params"

text \<open>
  The handler while a room is assigned to it: \<^theory_text>\<open>hd_current\<close>, \<^theory_text>\<open>hd_game_peer\<close> and
  \<^theory_text>\<open>hd_creation_game\<close> tell whether the pointers to the room, to the member record
  and to the room being created are set.
\<close>

record 'v handler =
  hd_peer :: peer_ref
  hd_current :: bool
  hd_game_peer :: bool
  hd_has_left :: bool
  hd_disconnected :: bool
  hd_creation_generation :: u64
  hd_creation_game :: bool
  hd_pending_join :: "'v pending_join option"

type_synonym 'v outcome = "'v handler \<times> 'v game \<times> 'v effect list"

definition has_joined_peer :: "heap \<Rightarrow> 'v handler \<Rightarrow> 'v game \<Rightarrow> bool" where
  "has_joined_peer h hs g \<longleftrightarrow> hd_current hs \<and> actor_id_for_peer h g (Some (hd_peer hs)) \<noteq> None"

definition not_allowed :: "'v server_env \<Rightarrow> u8 \<Rightarrow> 'v effect" where
  "not_allowed e opc = Response opc (hc_err_NotAllowed (se_hc e))"

section \<open>Entering a room\<close>

text \<open>\<^theory_text>\<open>rollback_join\<close>, when the join is neither committed nor rolled back already.\<close>

definition rollback_join ::
  "'v server_env \<Rightarrow> bool \<Rightarrow> u64 \<Rightarrow> (string \<times> u64) list \<Rightarrow> 'v handler \<Rightarrow> 'v game \<Rightarrow> 'v outcome" where
  "rollback_join e is_master generation added hs g =
    (if is_master
     then case abort_creation_transaction (se_heap e) (Some (hd_peer hs)) generation g of
       (aborted, g1, ts) \<Rightarrow>
         (hs\<lparr> hd_game_peer := False, hd_creation_game := False, hd_creation_generation := 0 \<rparr>, g1,
          scheduled ts @ (if aborted then [LobbyUpdate] else []))
     else case (if hd_game_peer hs then remove_peer (se_wc e) (se_heap e) (Some (hd_peer hs)) g
                else (False, g, [])) of
       (_, g1, ts) \<Rightarrow> (hs\<lparr> hd_game_peer := False \<rparr>, abort_drop_owned added g1, scheduled ts))"

definition set_flag :: "u8 \<Rightarrow> bool option \<Rightarrow> 'v game \<Rightarrow> 'v game" where
  "set_flag flag value g =
    (case value of None \<Rightarrow> g
     | Some True \<Rightarrow> g\<lparr> g_flags := g_flags g OR flag \<rparr>
     | Some False \<Rightarrow> g\<lparr> g_flags := g_flags g AND NOT flag \<rparr>)"

definition set_max_peers :: "'v server_env \<Rightarrow> ('v, 'v) assoc option \<Rightarrow> 'v game \<Rightarrow> 'v game" where
  "set_max_peers e props g =
    (case props of None \<Rightarrow> g
     | Some ps \<Rightarrow>
        (case map_of ps (v_of_u8 (se_vo e) (gp_MaxPlayers (se_wc e))) of None \<Rightarrow> g
         | Some v \<Rightarrow> (case v_u8 (se_vo e) v of None \<Rightarrow> g | Some n \<Rightarrow> g\<lparr> g_max_peers := n \<rparr>)))"

text \<open>The settings the creator gives; the 32-bit flags are stored in a byte.\<close>

definition apply_game_settings :: "'v server_env \<Rightarrow> 'v join_params \<Rightarrow> 'v game \<Rightarrow> 'v game" where
  "apply_game_settings e p g =
    (let g1 = (case jp_player_ttl p of None \<Rightarrow> g | Some t \<Rightarrow> g\<lparr> g_player_ttl := t \<rparr>);
         g2 = (case jp_empty_ttl p of None \<Rightarrow> g1 | Some t \<Rightarrow> g1\<lparr> g_empty_game_ttl := t \<rparr>);
         g3 = (case jp_flags p of None \<Rightarrow> g2 | Some f \<Rightarrow> g2\<lparr> g_flags := word_of_int f \<rparr>);
         g4 = set_flag (f_CheckUserOnJoin (se_wc e)) (jp_check_user p) g3;
         g5 = set_flag (hc_SuppressRoomEvents (se_hc e)) (jp_suppress_events p) g4;
         g6 = set_flag (f_PublishUserId (se_wc e)) (jp_publish_user_id p) g5;
         g7 = set_max_peers e (jp_game_props p) g6
     in g7\<lparr> g_state_revision := g_state_revision g7 + 1 \<rparr>)"

text \<open>The loop over the expected users: the room, the reservations made, the callbacks.\<close>

fun reserve_expected ::
  "'v server_env \<Rightarrow> peer_ref \<Rightarrow> string \<Rightarrow> string list \<Rightarrow> 'v game
   \<Rightarrow> 'v game \<times> (string \<times> u64) list \<times> (u32 \<times> task) list" where
  "reserve_expected e peer user [] g = (g, [], [])"
| "reserve_expected e peer user (u # us) g =
    (if u = [] \<or> u = user \<or> find_peer_ref (se_heap e) g (Some peer) \<noteq> None
     then reserve_expected e peer user us g
     else case reserve_expected_user_with_generation u 30000 g of
       (r, g1, ts) \<Rightarrow> (case reserve_expected e peer user us g1 of
         (g2, added, ts') \<Rightarrow>
           (g2, (case r of None \<Rightarrow> added | Some n \<Rightarrow> (u, n) # added), ts @ ts')))"

text \<open>
  The admission, one critical section: the checks with the expected users, the
  reservations, the member record and its insertion. A refusal is
  \<^theory_text>\<open>Inl\<close> with the reservations made and what is answered; without an answer
  the request just ends.
\<close>

definition join_admit ::
  "'v server_env \<Rightarrow> bool \<Rightarrow> bool \<Rightarrow> u64 \<Rightarrow> u8 \<Rightarrow> 'v join_params \<Rightarrow> string \<Rightarrow> 'v handler \<Rightarrow> 'v game
   \<Rightarrow> ((string \<times> u64) list \<times> 'v effect list + (string \<times> u64) list) \<times> 'v outcome" where
  "join_admit e disc is_master generation opc p user hs g =
    (let owner = Some (hd_peer hs);
         code = validate_join (se_wc e) (se_cfg e) (se_heap e) user (jp_expected_users p) is_master g
     in if is_master \<and> \<not> is_creation_active (se_heap e) owner generation g then (Inl ([], []), hs, g, [])
        else if code \<noteq> err_Ok (se_wc e) then (Inl ([], [Disconnect, Response opc code]), hs, g, [])
        else case reserve_expected e (hd_peer hs) user (jp_expected_users p) g of
          (g1, added, ts) \<Rightarrow>
            (case create_peer (se_vo e) (se_wc e) (se_heap e) owner g1 of
               (gp, g2) \<Rightarrow>
                 if \<not> gp_is_valid gp then
                   (Inl (added, [Disconnect, Response opc (err_GameFull (se_wc e))]),
                    hs, g2, scheduled ts)
                 else if disc \<or> is_master \<and> \<not> is_creation_active (se_heap e) owner generation g2 then
                   (Inl (added, []), hs, g2, scheduled ts)
                 else case (if is_master then add_peer_for_creation (se_wc e) (se_heap e) gp owner generation g2
                            else add_peer (se_wc e) (se_heap e) gp g2) of
                   (None, g3) \<Rightarrow>
                     (Inl (added, [Disconnect, Response opc (err_GameFull (se_wc e))]),
                      hs\<lparr> hd_game_peer := False \<rparr>, g3, scheduled ts)
                 | (Some _, g3) \<Rightarrow> (Inr added, hs\<lparr> hd_game_peer := True \<rparr>, g3, scheduled ts)))"


definition room_event ::
  "'v server_env \<Rightarrow> u8 \<Rightarrow> int \<Rightarrow> (u8, 'v) assoc \<Rightarrow> 'v event" where
  "room_event e code sender params =
     \<lparr> ev_code = code, ev_sender = sender, ev_delivery_mode = dm_Reliable (se_wc e), ev_channel = 0,
       ev_receivers = Group (rg_All (se_wc e)), ev_interest_group = 0, ev_data = v_null (se_vo e),
       ev_top_params = params, ev_cached = replicate (n_protocols (se_wc e)) [] \<rparr>"

definition broadcast :: "'v server_env \<Rightarrow> 'v event \<Rightarrow> 'v game \<Rightarrow> 'v effect list" where
  "broadcast e ev g = map Packet (snd (broadcast_event (se_vo e) (se_wc e) (se_ser e) (se_heap e) ev g))"

text \<open>The answer to a join that went through, the join event and the flood.\<close>

definition join_respond ::
  "'v server_env \<Rightarrow> (nat \<Rightarrow> bool) \<Rightarrow> u8 \<Rightarrow> int \<Rightarrow> ('v, 'v) assoc \<Rightarrow> 'v game \<Rightarrow> 'v game \<times> 'v effect list" where
  "join_respond e disc opc actor all_props g =
    (let hc = se_hc e; vo = se_vo e; flags = g_flags g;
         actors = map gp_actor_id (g_peers g);
         member = find_peer_actor g actor;
         actor_no = (case member of None \<Rightarrow> 0 | Some gp \<Rightarrow> gp_actor_id gp);
         own_props = (case member of None \<Rightarrow> [] | Some gp \<Rightarrow> gp_actor_props gp);
         answer = Joined opc \<lparr> jr_flags = uint flags, jr_actors = actors,
           jr_game_props = get_game_props vo (se_wc e) False g, jr_actor_no = actor_no, jr_actor_props = all_props \<rparr>;
         ps = ht_put (ht_put [] (hc_dk_ActorList hc) (hc_of_i32s hc actors)) (dk_ActorNo (se_wc e)) (v_of_i32 vo actor_no);
         ps' = (if \<not> has_flag flags (hc_SuppressPlayerInfo hc)
                then ht_put ps (hc_dk_ActorProperties hc) (v_of_hash vo own_props) else ps);
         joined = (if \<not> disc 7 \<and> actor_no \<noteq> 0 \<and> \<not> has_flag flags (hc_SuppressRoomEvents hc)
                   then broadcast e (room_event e (hc_ev_Join hc) actor_no ps') g else []);
         (g1, flood) = (if \<not> disc 8 \<and> actor_no \<noteq> 0
                   then case flood_peer_by_actor vo (se_wc e) (se_ser e) (se_heap e) actor_no g of
                     (_, g1, pks) \<Rightarrow> (g1, map Packet pks)
                   else (g, []))
     in (g1, answer # joined @ flood))"

text \<open>After the admission: the properties of the request, the commit of a creation, the answer.\<close>

definition join_props ::
  "'v server_env \<Rightarrow> bool \<Rightarrow> 'v join_params \<Rightarrow> int \<Rightarrow> 'v game \<Rightarrow> 'v game \<times> lobby_effect list" where
  "join_props e is_master p actor g =
    (let g1 = (case jp_actor_props p of None \<Rightarrow> g
               | Some ps \<Rightarrow> snd (insert_actor_props (se_vo e) (se_wc e) actor ps g))
     in if is_master
        then (case jp_game_props p of None \<Rightarrow> (g1, [])
              | Some ps \<Rightarrow> insert_game_props (se_vo e) (se_wc e) (se_cfg e) ps g1)
        else (g1, []))"

definition join_answer ::
  "'v server_env \<Rightarrow> (nat \<Rightarrow> bool) \<Rightarrow> u8 \<Rightarrow> int \<Rightarrow> ('v, 'v) assoc \<Rightarrow> 'v handler \<Rightarrow> 'v game \<Rightarrow> 'v outcome" where
  "join_answer e disc opc actor all_props hs g =
    (if disc 6 \<or> \<not> hd_game_peer hs then (hs, g, [])
     else case join_respond e disc opc actor all_props g of (g1, o1) \<Rightarrow> (hs, g1, o1))"

definition join_commit ::
  "'v server_env \<Rightarrow> (nat \<Rightarrow> bool) \<Rightarrow> bool \<Rightarrow> u64 \<Rightarrow> u8 \<Rightarrow> int \<Rightarrow> (string \<times> u64) list \<Rightarrow> 'v handler \<Rightarrow> 'v game
   \<Rightarrow> 'v outcome" where
  "join_commit e disc is_master generation opc actor added hs g =
    (if \<not> is_master then join_answer e disc opc actor (get_actor_props (se_vo e) g) hs g
     else if disc 5 then rollback_join e is_master generation added hs g
     else case commit_creation (se_heap e) (Some (hd_peer hs)) generation g of
       (False, _) \<Rightarrow> rollback_join e is_master generation added hs g
     | (True, g1) \<Rightarrow>
        (case join_answer e disc opc actor (get_actor_props (se_vo e) g)
                (hs\<lparr> hd_creation_game := False, hd_creation_generation := 0 \<rparr>) g1 of
           (hs2, g2, o2) \<Rightarrow> (hs2, g2, LobbyUpdate # o2)))"

definition join_finish ::
  "'v server_env \<Rightarrow> (nat \<Rightarrow> bool) \<Rightarrow> bool \<Rightarrow> u64 \<Rightarrow> u8 \<Rightarrow> 'v join_params \<Rightarrow> (string \<times> u64) list
   \<Rightarrow> 'v handler \<Rightarrow> 'v game \<Rightarrow> 'v outcome" where
  "join_finish e disc is_master generation opc p added hs g =
    (let owner = Some (hd_peer hs);
         lost = (\<lambda>g. is_master \<and> \<not> is_creation_active (se_heap e) owner generation g);
         actor = (case find_peer_ref (se_heap e) g owner of None \<Rightarrow> 0 | Some gp \<Rightarrow> gp_actor_id gp)
     in if disc 3 \<or> lost g \<or> actor = 0 then rollback_join e is_master generation added hs g
        else case join_props e is_master p actor g of
          (g1, fx) \<Rightarrow>
            (case (if disc 4 \<or> lost g1 then rollback_join e is_master generation added hs g1
                   else join_commit e disc is_master generation opc actor added hs g1) of
               (hs2, g2, o2) \<Rightarrow> (hs2, g2, lobby_effects fx @ o2)))"

text \<open>
  A request with the room claimed: \<^theory_text>\<open>generation\<close> is the lease, 0 for a peer that
  joins an existing room.
\<close>

definition join_claimed ::
  "'v server_env \<Rightarrow> (nat \<Rightarrow> bool) \<Rightarrow> u64 \<Rightarrow> u8 \<Rightarrow> 'v join_params \<Rightarrow> string \<Rightarrow> 'v handler \<Rightarrow> 'v game \<Rightarrow> 'v outcome" where
  "join_claimed e disc generation opc p user hs g =
    (let owner = Some (hd_peer hs); is_master = (generation \<noteq> 0);
         code = validate_join_count (se_wc e) (se_cfg e) (se_heap e) user 0 False g
     in if disc 0 then rollback_join e is_master generation [] hs g
        else if \<not> is_master \<and> code \<noteq> err_Ok (se_wc e) then
          (case rollback_join e is_master generation [] hs g of
             (hs1, g1, o1) \<Rightarrow> (hs1, g1, Response (hc_op_JoinGame (se_hc e)) code # o1))
        else if is_master \<and> \<not> is_creation_active (se_heap e) owner generation g then
          rollback_join e is_master generation [] hs g
        else let g1 = (if is_master then apply_game_settings e p g else g)
             in if disc 1 \<or> is_master \<and> \<not> is_creation_active (se_heap e) owner generation g1
                then rollback_join e is_master generation [] hs g1
                else case join_admit e (disc 2) is_master generation opc p user hs g1 of
                  (Inl (added, answer), hs2, g2, o2) \<Rightarrow>
                    (case rollback_join e is_master generation added hs2 g2 of
                       (hs3, g3, o3) \<Rightarrow> (hs3, g3, o2 @ o3 @ answer))
                | (Inr added, hs2, g2, o2) \<Rightarrow>
                    (case join_finish e disc is_master generation opc p added hs2 g2 of
                       (hs3, g3, o3) \<Rightarrow> (hs3, g3, o2 @ LobbyUpdate # o3)))"

definition retain_join :: "'v server_env \<Rightarrow> u8 \<Rightarrow> 'v join_params \<Rightarrow> 'v handler \<Rightarrow> 'v game \<Rightarrow> 'v outcome" where
  "retain_join e opc p hs g =
    (if hd_pending_join hs \<noteq> None then (hs, g, [not_allowed e opc])
     else (hs\<lparr> hd_pending_join := Some \<lparr> pj_generation = g_active_creation_generation g, pj_op = opc, pj_params = p \<rparr> \<rparr>,
           g, []))"

text \<open>CreateGame and JoinGame.\<close>

definition handle_join ::
  "'v server_env \<Rightarrow> (nat \<Rightarrow> bool) \<Rightarrow> u8 \<Rightarrow> 'v join_params \<Rightarrow> string \<Rightarrow> 'v handler \<Rightarrow> 'v game \<Rightarrow> 'v outcome" where
  "handle_join e disc opc p user hs g =
    (let can_create = (opc = hc_op_CreateGame (se_hc e) \<or> jp_mode p = 1)
     in if has_joined_peer (se_heap e) hs g then (hs, g, [not_allowed e opc])
        else if jp_game_id p \<noteq> g_id g then (hs, g, [Response opc (err_GameIdNotExists (se_wc e))])
        else if g_is_creating g then retain_join e opc p hs g
        else if \<not> g_is_created g \<and> \<not> can_create then (hs, g, [Response opc (err_GameIdNotExists (se_wc e))])
        else case try_begin_creation (Some (hd_peer hs)) g of
          (generation, g1) \<Rightarrow>
            (let hs1 = (if generation \<noteq> 0
                        then hs\<lparr> hd_creation_generation := generation, hd_creation_game := True \<rparr> else hs)
             in if generation = 0 \<and> \<not> g_is_created g1 then
                  (if g_is_creating g1 then retain_join e opc p hs1 g1
                   else (hs1, g1, [Response opc (err_GameIdNotExists (se_wc e))]))
                else join_claimed e disc generation opc p user hs1 g1))"


section \<open>Raising events\<close>

record 'v raise_params =
  rp_actors :: "int list option"
  rp_group :: u8
  rp_interest_group :: u8
  rp_cache :: u8
  rp_code :: u8
  rp_data :: "'v option"
  rp_mode :: u8
  rp_channel :: u8

definition raised_event :: "'v server_env \<Rightarrow> int \<Rightarrow> 'v raise_params \<Rightarrow> 'v event" where
  "raised_event e sender r =
     \<lparr> ev_code = rp_code r, ev_sender = sender, ev_delivery_mode = rp_mode r, ev_channel = rp_channel r,
       ev_receivers = (case rp_actors r of Some actors \<Rightarrow> Actors (remdups actors) | None \<Rightarrow> Group (rp_group r)),
       ev_interest_group = rp_interest_group r,
       ev_data = (case rp_data r of Some d \<Rightarrow> d | None \<Rightarrow> v_null (se_vo e)),
       ev_top_params = [], ev_cached = replicate (n_protocols (se_wc e)) [] \<rparr>"

text \<open>Which cached events a removal request names: by code (0 for any), senders and data.\<close>

definition removal_matches :: "'v server_env \<Rightarrow> 'v event \<Rightarrow> 'v raise_params \<Rightarrow> 'v event \<Rightarrow> bool" where
  "removal_matches e ev r cached \<longleftrightarrow>
     (let senders = (case rp_actors r of Some actors \<Rightarrow> actors | None \<Rightarrow> []);
          flt = (case v_hash (se_vo e) (ev_data ev) of Some h \<Rightarrow> h | None \<Rightarrow> [])
      in (ev_code ev = 0 \<or> ev_code cached = ev_code ev)
       \<and> (senders = [] \<or> ev_sender cached \<in> set senders)
       \<and> (flt = [] \<or> matches_filter (se_vo e) (ev_data cached) flt))"

definition cacheable :: "'v server_env \<Rightarrow> 'v raise_params \<Rightarrow> bool" where
  "cacheable e r \<longleftrightarrow> (rp_cache r = hc_cache_AddToRoomCache (se_hc e) \<or> rp_cache r = hc_cache_AddToRoomCacheGlobal (se_hc e))
     \<and> rp_actors r = None \<and> rp_group r \<noteq> rg_MasterClient (se_wc e) \<and> rp_interest_group r = 0"

definition handle_raise_event ::
  "'v server_env \<Rightarrow> 'v raise_params \<Rightarrow> 'v handler \<Rightarrow> 'v game \<Rightarrow> 'v outcome" where
  "handle_raise_event e r hs g =
    (case (if hd_current hs then actor_id_for_peer (se_heap e) g (Some (hd_peer hs)) else None) of
       None \<Rightarrow> (hs, g, [not_allowed e (hc_op_RaiseEvent (se_hc e))])
     | Some sender \<Rightarrow>
        (let ev = raised_event e sender r
         in if sender = 0 then (hs, g, [])
            else if 220 < ev_code ev then
              (hs, g, [Response (hc_op_RaiseEvent (se_hc e)) (hc_err_OperationInvalid (se_hc e))])
            else if rp_cache r = hc_cache_RemoveFromRoomCache (se_hc e) then
              (hs, g\<lparr> g_event_cache := filter (\<lambda>c. \<not> removal_matches e ev r c) (g_event_cache g) \<rparr>, [])
            else if rp_cache r = hc_cache_RemoveFromCacheForActorsLeft (se_hc e) then
              (hs, g\<lparr> g_event_cache := filter (\<lambda>c. \<not> (find_peer_actor g (ev_sender c) = None \<and> ev_sender c \<noteq> 0))
                       (g_event_cache g) \<rparr>, [])
            else let copy = (if rp_cache r = hc_cache_AddToRoomCacheGlobal (se_hc e) then ev\<lparr> ev_sender := 0 \<rparr> else ev);
                     g1 = (if cacheable e r then g\<lparr> g_event_cache := g_event_cache g @ [copy] \<rparr> else g)
                 in (hs, g1, broadcast e ev g1)))"

section \<open>Properties, interest groups, leaving\<close>

record 'v props_params =
  sp_props :: "('v, 'v) assoc option"
  sp_expected :: "('v, 'v) assoc option"
  sp_broadcast :: bool
  sp_actor :: int

definition handle_set_properties ::
  "'v server_env \<Rightarrow> 'v props_params \<Rightarrow> 'v handler \<Rightarrow> 'v game \<Rightarrow> 'v outcome" where
  "handle_set_properties e p hs g =
    (let opc = hc_op_SetProperties (se_hc e); vo = se_vo e; wc = se_wc e
     in case (if hd_current hs then actor_id_for_peer (se_heap e) g (Some (hd_peer hs)) else None) of
          None \<Rightarrow> (hs, g, [not_allowed e opc])
        | Some sender \<Rightarrow>
           (case sp_props p of
              None \<Rightarrow> (hs, g, [Response opc (hc_err_OperationInvalid (se_hc e))])
            | Some props \<Rightarrow>
               if props = [] then (hs, g, [Response opc (hc_err_OperationInvalid (se_hc e))])
               else if sender = 0 then (hs, g, [])
               else case (if sp_actor p \<noteq> 0
                          then map_sum id (\<lambda>(ok, g1). (ok, g1, []))
                                 (apply_actor_props vo wc (sp_actor p) props (sp_expected p) g)
                          else Inr (apply_game_props vo wc (se_cfg e) props (sp_expected p) g)) of
                      Inl () \<Rightarrow> (hs, g, [Thrown])
                    | Inr (ok, g1, fx) \<Rightarrow>
                        (hs, g1, lobby_effects fx
                           @ Response opc (if ok then err_Ok wc else hc_err_OperationInvalid (se_hc e))
                           # (if ok \<and> sp_broadcast p
                              then broadcast e (create_property_update_event vo wc sender props (sp_actor p) g1) g1 else []))))"

text \<open>An absent list of the request is taken for an empty one.\<close>

definition handle_change_groups ::
  "'v server_env \<Rightarrow> u8 list option \<Rightarrow> u8 list option \<Rightarrow> u8 \<Rightarrow> 'v handler \<Rightarrow> 'v game \<Rightarrow> 'v outcome" where
  "handle_change_groups e add remove opc hs g =
    (if \<not> has_joined_peer (se_heap e) hs g then (hs, g, [not_allowed e opc])
     else let l = (\<lambda>x. case x of None \<Rightarrow> [] | Some vs \<Rightarrow> vs)
          in (hs, snd (apply_interest_groups (se_heap e) (Some (hd_peer hs)) (l add) (l remove) g), []))"

definition handle_leave :: "'v server_env \<Rightarrow> 'v handler \<Rightarrow> 'v game \<Rightarrow> 'v outcome" where
  "handle_leave e hs g = (hs\<lparr> hd_has_left := True \<rparr>, g, [Response (hc_op_Leave (se_hc e)) (err_Ok (se_wc e)), Disconnect])"

datatype 'v request =
  ReqJoin u8 "'v join_params"
| ReqRaise "'v raise_params"
| ReqSetProperties "'v props_params"
| ReqChangeGroups u8 "u8 list option" "u8 list option"
| ReqLeave

text \<open>
  A decoded request of an authenticated peer with a room assigned: only raising
  events is served on channels other than 0, the rest goes to the base handler,
  which does nothing to the room.
\<close>

definition handle_request ::
  "'v server_env \<Rightarrow> (nat \<Rightarrow> bool) \<Rightarrow> u8 \<Rightarrow> string \<Rightarrow> 'v request \<Rightarrow> 'v handler \<Rightarrow> 'v game \<Rightarrow> 'v outcome" where
  "handle_request e disc channel user req hs g =
    (case req of
       ReqRaise r \<Rightarrow> handle_raise_event e (r\<lparr> rp_channel := channel \<rparr>) hs g
     | _ \<Rightarrow> if channel \<noteq> 0 then (hs, g, []) else
        (case req of
           ReqJoin opc p \<Rightarrow> handle_join e disc opc p user hs g
         | ReqSetProperties p \<Rightarrow> handle_set_properties e p hs g
         | ReqChangeGroups opc add remove \<Rightarrow> handle_change_groups e add remove opc hs g
         | ReqLeave \<Rightarrow> handle_leave e hs g
         | ReqRaise r \<Rightarrow> (hs, g, [])))"

section \<open>Disconnecting\<close>

text \<open>The creation the handler still owns is given up first.\<close>

definition disconnect_abort :: "'v server_env \<Rightarrow> 'v handler \<Rightarrow> 'v game \<Rightarrow> 'v game \<times> 'v effect list" where
  "disconnect_abort e hs g =
    (if hd_creation_game hs \<and> hd_creation_generation hs \<noteq> 0
     then case abort_creation_transaction (se_heap e) (Some (hd_peer hs)) (hd_creation_generation hs) g of
       (aborted, g1, ts) \<Rightarrow> (g1, scheduled ts @ (if aborted then [LobbyUpdate] else []))
     else (g, []))"

text \<open>
  The member of the peer leaves: its cached events are dropped when the room's
  flags meet a mask, the record is removed, and the others are told.
\<close>

definition leave_room :: "'v server_env \<Rightarrow> 'v handler \<Rightarrow> 'v game \<Rightarrow> 'v game \<times> 'v effect list" where
  "leave_room e hs g =
    (let hc = se_hc e; peer = Some (hd_peer hs);
         actor = (case actor_id_for_peer (se_heap e) g peer of None \<Rightarrow> 0 | Some a \<Rightarrow> a)
     in if g_peers g = [] \<or> actor = 0 \<or> \<not> has_peer_actor g actor then (g, [])
        else let g1 = (if has_flag (g_flags g) (hc_CleanupCacheOnLeave hc)
                       then g\<lparr> g_event_cache := filter (\<lambda>ev. ev_sender ev \<noteq> actor) (g_event_cache g) \<rparr> else g);
                 was_master = (actor = g_master_actor g)
             in case remove_peer (se_wc e) (se_heap e) peer g1 of
                  (_, g2, ts) \<Rightarrow>
                    (let actors = map gp_actor_id (g_peers g2);
                         ps = ht_put (ht_put [] (dk_ActorNo (se_wc e)) (v_of_i32 (se_vo e) actor))
                                (hc_dk_ActorList hc) (hc_of_i32s hc actors);
                         ps' = (if was_master then ht_put ps (hc_dk_MasterClientId hc)
                                  (v_of_i32 (se_vo e) (g_master_actor g2)) else ps)
                     in (g2, scheduled ts @ LobbyUpdate
                           # (if has_flag (g_flags g2) (hc_SuppressRoomEvents hc) then []
                              else broadcast e (room_event e (hc_ev_Leave hc) actor ps') g2))))"

definition handle_disconnect :: "'v server_env \<Rightarrow> 'v handler \<Rightarrow> 'v game \<Rightarrow> 'v outcome" where
  "handle_disconnect e hs g =
    (let hs1 = hs\<lparr> hd_disconnected := True, hd_pending_join := None \<rparr>
     in if \<not> hd_current hs then (hs1, g, [])
        else case disconnect_abort e hs1 g of
          (g1, o1) \<Rightarrow> (case leave_room e hs1 g1 of
            (g2, o2) \<Rightarrow> (hs1\<lparr> hd_current := False, hd_creation_game := False, hd_creation_generation := 0,
                             hd_game_peer := False \<rparr>, g2, o1 @ o2)))"

section \<open>A join that waits\<close>

text \<open>The periodic update: the request is run again, answered with an error, or kept.\<close>

datatype 'v wait_result = Retry u8 "'v join_params" | Refuse u8 int | Keep

definition pending_join_update :: "'v server_env \<Rightarrow> nat \<Rightarrow> 'v handler \<Rightarrow> 'v game \<Rightarrow> 'v handler \<times> 'v wait_result" where
  "pending_join_update e waited hs g =
    (case hd_pending_join hs of
       None \<Rightarrow> (hs, Keep)
     | Some pj \<Rightarrow>
        (let changed = (pj_generation pj \<noteq> 0 \<and> g_active_creation_generation g \<noteq> pj_generation pj);
             finished = (g_is_created g \<and> \<not> g_is_creating g \<and> \<not> changed);
             aborted = (\<not> g_is_created g \<and> \<not> g_is_creating g)
         in if finished then (hs\<lparr> hd_pending_join := None, hd_current := True \<rparr>, Retry (pj_op pj) (pj_params pj))
            else if aborted \<or> changed \<or> 5000 \<le> waited
            then (hs\<lparr> hd_pending_join := None \<rparr>, Refuse (pj_op pj) (err_GameIdNotExists (se_wc e)))
            else (hs, Keep)))"

end
