(* ===== verification/GameServerInv.thy ===== *)
theory GameServerInv
  imports GameServer
begin

text \<open>
  What a request of a handler does to the room, in terms of the room's own machine:
  \<^theory_text>\<open>moves\<close> says that the invariant of rooms is kept, with the callbacks a request
  schedules added to the pending ones; \<^theory_text>\<open>stays\<close> that a creation in progress stays
  the same transaction. Both compose along the code, and a budget bounds the
  reservations a request may issue, so that the generation counter does not wrap.
\<close>

section \<open>The budget of generations\<close>

definition room_load :: "'v game \<Rightarrow> nat" where
  "room_load g = unat (g_next_expected_user_generation g) + length (gr_removed_generations g)"

definition within :: "nat \<Rightarrow> 'v game \<Rightarrow> bool" where
  "within k g \<longleftrightarrow> room_load g + k < 2 ^ 64 - 1"

definition moves :: "nat \<Rightarrow> 'v game \<Rightarrow> 'v game \<Rightarrow> task list \<Rightarrow> bool" where
  "moves k g g' ts \<longleftrightarrow> (\<forall>pend. room_inv (g, pend) \<longrightarrow> within k g \<longrightarrow>
     room_inv (g', pend @ ts) \<and> room_load g' \<le> room_load g + k)"

definition stays :: "nat \<Rightarrow> 'v game \<Rightarrow> 'v game \<Rightarrow> bool" where
  "stays k g g' \<longleftrightarrow> lease_view g' = lease_view g \<and>
     (\<forall>pend g0. room_inv (g, pend) \<longrightarrow> within k g \<longrightarrow> tx_inv g0 {} g \<longrightarrow> tx_inv g0 {} g')"

lemma movesI:
  assumes "\<And>pend. room_inv (g, pend) \<Longrightarrow> within k g \<Longrightarrow> room_inv (g', pend @ ts)"
    "room_load g' \<le> room_load g + k"
  shows "moves k g g' ts"
  using assms by (simp add: moves_def)

lemma movesD:
  assumes "moves k g g' ts" "room_inv (g, pend)" "within k g"
  shows "room_inv (g', pend @ ts)" "room_load g' \<le> room_load g + k"
  using assms by (auto simp: moves_def)

lemma staysD: "stays k g g' \<Longrightarrow> room_inv (g, pend) \<Longrightarrow> within k g \<Longrightarrow> tx_inv g0 {} g \<Longrightarrow> tx_inv g0 {} g'"
  by (auto simp: stays_def)

lemma within_mono: "within k g \<Longrightarrow> l \<le> k \<Longrightarrow> within l g"
  by (simp add: within_def)

lemma within_after: "within (k + l) g \<Longrightarrow> room_load g' \<le> room_load g + k \<Longrightarrow> within l g'"
  by (simp add: within_def)

lemma moves_trans:
  assumes "moves k g g1 ts" "moves l g1 g2 ts'"
  shows "moves (k + l) g g2 (ts @ ts')"
  unfolding moves_def
proof (intro allI impI)
  fix pend assume i: "room_inv (g, pend)" and w: "within (k + l) g"
  have "within k g" using w by (rule within_mono) simp
  note m = movesD [OF assms(1) i this]
  note m' = movesD [OF assms(2) m(1) within_after [OF w m(2)]]
  show "room_inv (g2, pend @ ts @ ts') \<and> room_load g2 \<le> room_load g + (k + l)"
    using m'(1) m'(2) m(2) by simp
qed

lemma stays_trans:
  assumes "stays k g g1" "moves k g g1 ts" "stays l g1 g2"
  shows "stays (k + l) g g2"
  unfolding stays_def
proof (intro conjI allI impI)
  show "lease_view g2 = lease_view g" using assms(1,3) by (simp add: stays_def)
  fix pend g0 assume i: "room_inv (g, pend)" and w: "within (k + l) g" and t: "tx_inv g0 {} g"
  have k: "within k g" using w by (rule within_mono) simp
  note m = movesD [OF assms(2) i k]
  show "tx_inv g0 {} g2"
    by (rule staysD [OF assms(3) m(1) within_after [OF w m(2)] staysD [OF assms(1) i k t]])
qed

lemma moves_mono: "moves k g g' ts \<Longrightarrow> k \<le> l \<Longrightarrow> moves l g g' ts"
  by (force simp: moves_def intro: within_mono)

lemma stays_mono: "stays k g g' \<Longrightarrow> k \<le> l \<Longrightarrow> stays l g g'"
  by (auto simp: stays_def intro: within_mono)

lemma moves_refl [simp]: "moves k g g []"
  by (simp add: moves_def)

lemma stays_refl [simp]: "stays k g g"
  by (simp add: stays_def)

text \<open>Quiet steps: neither members nor reservations nor the lease are touched.\<close>

lemma quiet_load: "quiet_view g' = quiet_view g \<Longrightarrow> room_load g' = room_load g"
  by (simp add: quiet_view_def res_view_def room_load_def)

lemma quiet_moves:
  assumes "quiet_view g' = quiet_view g"
  shows "moves k g g' []"
proof (rule movesI)
  show "room_inv (g', pend @ [])" if "room_inv (g, pend)" for pend
    unfolding append_Nil2 by (rule quiet_room_inv [OF assms that])
qed (simp add: quiet_load [OF assms])

lemma quiet_stays:
  assumes "quiet_view g' = quiet_view g"
  shows "stays k g g'"
  unfolding stays_def
proof (intro conjI allI impI)
  show "lease_view g' = lease_view g" using assms by (simp add: quiet_view_def)
  show "tx_inv g0 {} g'" if "tx_inv g0 {} g" for g0
    by (rule quiet_tx_inv [OF assms that])
qed

lemma lease_held_view: "lease_view g' = lease_view g \<Longrightarrow> lease_held h owner n g' = lease_held h owner n g"
  by (simp add: lease_held_def lease_view_def)

lemma creation_active_held: "is_creation_active h owner n g = lease_held h owner n g"
  by (simp add: is_creation_active_def lease_held_def)

lemma add_reservation_lease: "lease_view (add_reservation u n g) = lease_view g"
  by (cases "g_is_creating g") (simp_all add: lease_view_def add_reservation_def Let_def)

lemma ht_put_length: "length (ht_put t k v) \<le> length t + 1"
  unfolding ht_put_def by (induction t) auto

section \<open>The steps a request is made of\<close>

lemma next_nonzero_le: "unat (next_nonzero c) \<le> unat c + 1"
proof (cases "c = - 1")
  case False
  then have "unat (c + 1) = unat c + 1"
    by (metis add.inverse_inverse add_eq_0_iff unatSuc Suc_eq_plus1 add.commute)
  then show ?thesis by (auto simp: next_nonzero_def)
qed (simp add: next_nonzero_def)

lemma reserve_next:
  "unat (g_next_expected_user_generation (fst (snd (reserve_expected_user_with_generation u ttl g))))
     \<le> unat (g_next_expected_user_generation g) + 1"
  using next_nonzero_le [of "g_next_expected_user_generation g"]
  by (cases rule: reserve_cases [of u g ttl]) auto

lemma reserve_moves:
  assumes "reserve_expected_user_with_generation u ttl g = (r, g', ts)"
  shows "moves 1 g g' (map snd ts)" "stays 1 g g'"
proof -
  have below: "g_next_expected_user_generation g < - 1" if "within 1 g"
  proof -
    have "unat (g_next_expected_user_generation g) < unat (- 1 :: u64)"
      using that by (simp add: within_def room_load_def unsigned_minus_1_eq_mask mask_eq_exp_minus_1)
    then show ?thesis by (simp only: word_less_nat_alt)
  qed
  have "room_load g' \<le> room_load g + 1"
  proof (cases rule: reserve_cases [of u g ttl])
    case refused
    with assms show ?thesis by simp
  next
    case (made n)
    with assms show ?thesis using next_nonzero_le [of "g_next_expected_user_generation g"]
      by (auto simp: room_load_def)
  qed
  then show "moves 1 g g' (map snd ts)"
    by (auto intro!: movesI room_step_inv [OF room_step.reserve [OF below assms]])
  show "stays 1 g g'"
  proof -
    have "lease_view g' = lease_view g"
      using assms by (cases rule: reserve_cases [of u g ttl]) (auto simp: add_reservation_lease)
    then show ?thesis using tx_inv_reserve [OF _ below assms] by (auto simp: stays_def)
  qed
qed

lemma create_peer_moves:
  assumes "create_peer vo wc h p g = (gp, g')"
  shows "moves 0 g g' []" "stays 0 g g'"
proof -
  define x where "x = g_last_actor_id g'"
  have g': "g' = g\<lparr> g_last_actor_id := x \<rparr>"
    using assms by (auto simp: x_def create_peer_def Let_def split: option.splits prod.splits)
  have "room_load g' = room_load g" by (simp add: g' room_load_def)
  then show "moves 0 g g' []"
    using room_step_inv [OF room_step.allocate [OF assms]] by (auto intro!: movesI)
  show "stays 0 g g'"
    by (auto simp: stays_def g' lease_view_def elim!: tx_inv_view) (simp_all add: res_view_def saved_config_def)
qed

lemma note_removed_load: "length (gr_removed_generations (note_removed u n g)) \<le> length (gr_removed_generations g) + 1"
  using ht_put_length [of "gr_removed_generations g" u n] by (simp add: note_removed_def)

lemma remove_expected_user_moves: "moves 1 g (remove_expected_user u g) []"
proof (rule movesI)
  show "room_inv (remove_expected_user u g, pend @ [])" if "room_inv (g, pend)" for pend
    using room_step_inv [OF room_step.remove_expected that] by simp
  show "room_load (remove_expected_user u g) \<le> room_load g + 1"
    using note_removed_load [of u _ g]
    by (auto simp: room_load_def remove_expected_user_def split: option.split)
qed

lemma add_expected_load:
  "room_load (remove_expected_user u (g\<lparr> g_peers := ps \<rparr>)) \<le> Suc (room_load g)"
  using note_removed_load [of u _ "g\<lparr> g_peers := ps \<rparr>"]
  by (auto simp: room_load_def remove_expected_user_def split: option.split)

lemma remove_expected_lease:
  "lease_view (remove_expected_user u (g\<lparr> g_peers := ps \<rparr>)) = lease_view g"
  by (simp add: lease_view_def remove_expected_user_def drop_reservation_def note_removed_def split: option.split)

lemma add_expected_tx:
  "tx_inv g0 {} g \<Longrightarrow> tx_inv g0 {} (remove_expected_user u (g\<lparr> g_peers := ps \<rparr>))"
  by (intro tx_inv_remove_expected tx_inv_peers)

lemma add_peer_moves:
  assumes "gp_is_valid gp" "gp_actor_id gp \<le> 254"
  shows "moves 1 g (snd (add_peer wc h gp g)) []" "stays 1 g (snd (add_peer wc h gp g))"
proof -
  have "room_load (snd (add_peer wc h gp g)) \<le> room_load g + 1 \<and> lease_view (snd (add_peer wc h gp g)) = lease_view g"
    by (cases rule: add_peer_cases [of wc h gp g]) (auto simp: add_expected_load remove_expected_lease)
  moreover have "tx_inv g0 {} (snd (add_peer wc h gp g))" if "tx_inv g0 {} g" for g0
    using that by (cases rule: add_peer_cases [of wc h gp g]) (auto intro: add_expected_tx)
  ultimately show "moves 1 g (snd (add_peer wc h gp g)) []" "stays 1 g (snd (add_peer wc h gp g))"
    using add_room_inv(1) [OF _ assms] by (auto simp: stays_def intro!: movesI)
qed

lemma add_for_creation_moves:
  assumes "gp_is_valid gp" "gp_actor_id gp \<le> 254"
  shows "moves 1 g (snd (add_peer_for_creation wc h gp owner n g)) []"
    "stays 1 g (snd (add_peer_for_creation wc h gp owner n g))"
proof -
  let ?g = "snd (add_peer_for_creation wc h gp owner n g)"
  have "room_load ?g \<le> room_load g + 1 \<and> lease_view ?g = lease_view g"
    by (cases rule: add_peer_for_creation_cases [of wc h gp owner n g])
      (auto simp: add_expected_load remove_expected_lease)
  moreover have "tx_inv g0 {} ?g" if "tx_inv g0 {} g" for g0
    using that by (cases rule: add_peer_for_creation_cases [of wc h gp owner n g]) (auto intro: add_expected_tx)
  ultimately show "moves 1 g ?g []" "stays 1 g ?g"
    using add_room_inv(2) [OF _ assms] by (auto simp: stays_def intro!: movesI)
qed

lemma remove_peer_moves:
  assumes "remove_peer wc h p g = (b, g', ts)"
  shows "moves 0 g g' (map snd ts)"
proof (rule movesI)
  show "room_inv (g', pend @ map snd ts)" if "room_inv (g, pend)" for pend
    by (rule room_step_inv [OF room_step.remove [OF assms] that])
  have "res_view g' = res_view g"
  proof (cases p)
    case None
    with assms show ?thesis by (simp add: remove_peer_def)
  next
    case (Some r)
    with assms have "remove_peer wc h (Some r) g = (b, g', ts)" by simp
    then show ?thesis by (rule remove_peer_shape) (use remove_loop_saved in force)
  qed
  then show "room_load g' \<le> room_load g + 0" by (simp add: room_load_def res_view_def)
qed

lemma drop_owned_moves: "moves 0 g (abort_drop_owned owned g) []"
  unfolding abort_drop_owned_def
proof (induction owned arbitrary: g)
  case (Cons un owned)
  obtain u n where un: "un = (u, n)" by force
  let ?g = "snd (remove_expected_user_if_generation u n g)"
  have "moves 0 g ?g []"
  proof (rule movesI)
    show "room_inv (?g, pend @ [])" if "room_inv (g, pend)" for pend
      using room_step_inv [OF room_step.release that] by simp
  qed (simp add: room_load_def remove_expected_user_if_generation_def)
  from moves_trans [OF this Cons [of ?g]] show ?case by (simp add: un)
qed simp

lemma abort_restore_next:
  "unat (g_next_expected_user_generation (fst (abort_restore removed g)))
     \<le> unat (g_next_expected_user_generation g) + length removed"
proof (induction removed g rule: abort_restore.induct)
  case (2 u n removed g)
  obtain r g1 ts where r: "reserve_expected_user_with_generation u 30000 g = (r, g1, ts)" by (metis prod_cases3)
  obtain g2 ts' where g2: "abort_restore removed g1 = (g2, ts')" by force
  show ?case
  proof (cases "u \<in> set (g_expected_users g)")
    case True
    with 2(1) show ?thesis by simp
  next
    case False
    have "unat (g_next_expected_user_generation g2) \<le> unat (g_next_expected_user_generation g1) + length removed"
      using 2(2) [OF False r [symmetric] refl] g2 by simp
    then show ?thesis
      using reserve_next [of u 30000 g] r g2 False by simp
  qed
qed simp

lemma abort_moves:
  assumes "abort_creation_transaction h owner n g = (r, g', ts)"
  shows "moves 0 g g' (map snd ts)"
proof (rule movesI)
  show "room_inv (g', pend @ map snd ts)" if "room_inv (g, pend)" "within 0 g" for pend
    using abort_room_inv [OF that(1) assms] that(2) by (simp add: within_def room_load_def)
  show "room_load g' \<le> room_load g + 0"
  proof (cases r)
    case False
    with assms have "abort_creation_transaction h owner n g = (False, g', ts)" by simp
    then have "g' = g" using abort_refused by blast
    then show ?thesis by simp
  next
    case True
    with assms have "abort_creation_transaction h owner n g = (True, g', ts)" by simp
    then obtain a1 a2 a3 a4 where a1: "a1 = abort_retire h g"
      and a2: "a2 = a1\<lparr> g_inactive_players := gi_inactive_players a1 \<rparr>"
      and a3: "a3 = abort_drop_owned (gr_reserved_generations a2) a2"
      and a4: "abort_restore (gr_removed_generations a3) a3 = (a4, ts)" and g': "g' = restore_initial a4"
      by (rule abort_parts)
    obtain rs where s1: "a1 = g\<lparr> g_peers := filter (\<lambda>gp. lock h (gp_peer gp) = None) (g_peers g),
       g_retired_peers := g_retired_peers g @ map retire rs \<rparr>"
      using abort_retire_shape a1 by blast
    obtain x y where s3: "a3 = a2\<lparr> g_expected_user_generations := x, g_expected_users := y \<rparr>"
      using abort_drop_owned_shape a3 by blast
    have "unat (g_next_expected_user_generation a4)
        \<le> unat (g_next_expected_user_generation a3) + length (gr_removed_generations a3)"
      using abort_restore_next [of "gr_removed_generations a3" a3] a4 by simp
    then show ?thesis by (simp add: room_load_def g' restore_initial_def s3 a2 s1)
  qed
qed

lemma begin_zero: "try_begin_creation owner g = (0, g') \<Longrightarrow> g' = g"
  using next_nonzero_pos by (auto simp: try_begin_creation_def Let_def split: if_splits)

lemma begin_moves: "try_begin_creation owner g = (n, g') \<Longrightarrow> moves 0 g g' []"
proof (rule movesI)
  assume b: "try_begin_creation owner g = (n, g')"
  show "room_inv (g', pend @ [])" if "room_inv (g, pend)" for pend
    using creation_room_inv(1) [OF that b] by simp
  show "room_load g' \<le> room_load g + 0"
    using b by (auto simp: try_begin_creation_def room_load_def save_initial_def Let_def split: if_splits)
qed

lemma commit_moves: "commit_creation h owner n g = (r, g') \<Longrightarrow> moves 0 g g' []"
proof (rule movesI)
  assume c: "commit_creation h owner n g = (r, g')"
  show "room_inv (g', pend @ [])" if "room_inv (g, pend)" for pend
    using creation_room_inv(2) [OF that c] by simp
  show "room_load g' \<le> room_load g + 0"
    using c by (auto simp: commit_creation_def room_load_def split: if_splits)
qed

section \<open>The handler's operations\<close>

definition tasks_of :: "'v effect list \<Rightarrow> task list" where
  "tasks_of fx = List.map_filter (\<lambda>x. case x of Scheduled ms t \<Rightarrow> Some t | _ \<Rightarrow> None) fx"

lemma tasks_of_simps [simp]:
  "tasks_of [] = []"
  "tasks_of (fx @ fx') = tasks_of fx @ tasks_of fx'"
  "tasks_of (Scheduled ms t # fx) = t # tasks_of fx"
  "tasks_of (Response opc c # fx) = tasks_of fx"
  "tasks_of (Joined opc j # fx) = tasks_of fx"
  "tasks_of (Disconnect # fx) = tasks_of fx"
  "tasks_of (LobbyUpdate # fx) = tasks_of fx"
  "tasks_of (LobbyDelete # fx) = tasks_of fx"
  "tasks_of (Thrown # fx) = tasks_of fx"
  "tasks_of (map Packet pks) = []"
  by (simp_all add: tasks_of_def map_filter_def filter_empty_conv)

lemma tasks_of_scheduled [simp]: "tasks_of (scheduled ts) = map snd ts"
  by (induction ts) (auto simp: scheduled_def)

lemma tasks_of_lobby [simp]: "tasks_of (lobby_effects fx) = []"
  by (induction fx) (auto simp: lobby_effects_def split: lobby_effect.splits)

lemma tasks_of_broadcast [simp]: "tasks_of (broadcast e ev g) = []"
  by (simp add: broadcast_def)

lemma rollback_moves:
  assumes "rollback_join e is_master n added hs g = (hs', g', o1)"
  shows "moves 0 g g' (tasks_of o1)"
proof (cases is_master)
  case True
  obtain r g1 ts where a: "abort_creation_transaction (se_heap e) (Some (hd_peer hs)) n g = (r, g1, ts)"
    by (metis prod_cases3)
  from abort_moves [OF a] True assms a show ?thesis by (auto simp: rollback_join_def)
next
  case False
  obtain b g1 ts where r: "(if hd_game_peer hs then remove_peer (se_wc e) (se_heap e) (Some (hd_peer hs)) g
      else (False, g, [])) = (b, g1, ts)" by (metis prod_cases3)
  have "moves 0 g g1 (map snd ts)"
    using r remove_peer_moves by (auto split: if_splits)
  from moves_trans [OF this drop_owned_moves [of g1 added]] False assms r
  show ?thesis by (auto simp: rollback_join_def)
qed

lemma settings_quiet [quiet]: "quiet_view (apply_game_settings e p g) = quiet_view g"
proof -
  note v = quiet_view_def member_view_def res_view_def lease_view_def saved_config_def
  have "quiet_view (set_max_peers e ps g) = quiet_view g" "quiet_view (set_flag f v g) = quiet_view g" for ps f v and g :: "'a game"
    by (simp_all add: set_max_peers_def set_flag_def v split: option.split bool.split)
  moreover have "quiet_view (g\<lparr> g_flags := f \<rparr>) = quiet_view g" "quiet_view (g\<lparr> g_player_ttl := i \<rparr>) = quiet_view g"
    "quiet_view (g\<lparr> g_empty_game_ttl := i \<rparr>) = quiet_view g" for f i and g :: "'a game"
    by (simp_all add: v)
  ultimately show ?thesis by (simp add: apply_game_settings_def Let_def revision_quiet split: option.split)
qed

lemma reserve_expected_moves:
  assumes "reserve_expected e peer user us g = (g', added, ts)"
  shows "moves (length us) g g' (map snd ts)" "stays (length us) g g'"
proof -
  have "moves (length us) g g' (map snd ts) \<and> stays (length us) g g'"
    using assms
  proof (induction us arbitrary: g g' added ts)
    case (Cons u us)
    show ?case
    proof (cases "u = [] \<or> u = user \<or> find_peer_ref (se_heap e) g (Some peer) \<noteq> None")
      case True
      with Cons.prems have "reserve_expected e peer user us g = (g', added, ts)" by auto
      from Cons.IH [OF this] show ?thesis by (auto intro: moves_mono stays_mono)
    next
      case False
      obtain r g1 ts1 where r: "reserve_expected_user_with_generation u 30000 g = (r, g1, ts1)" by (metis prod_cases3)
      obtain g2 added2 ts2 where i: "reserve_expected e peer user us g1 = (g2, added2, ts2)" by (metis prod_cases3)
      from Cons.prems False r i have e: "g' = g2" "ts = ts1 @ ts2" by (auto split: option.splits)
      note m = reserve_moves [OF r] and IH = Cons.IH [OF i]
      have "moves (1 + length us) g g' (map snd ts1 @ map snd ts2)"
        using moves_trans [OF m(1)] IH e by blast
      moreover have "stays (1 + length us) g g'"
        using stays_trans [OF m(2,1)] IH e by blast
      ultimately show ?thesis using e by simp
    qed
  qed simp
  then show "moves (length us) g g' (map snd ts)" "stays (length us) g g'" by auto
qed

text \<open>
  The admission: either nothing is added after the reservations and the allocation,
  or the member record is. Its three stages, for the statements that follow it.
\<close>

lemma join_admit_cases:
  assumes "join_admit e disc is_master n opc p user hs g = (r, hs', g', o1)"
  obtains (nothing) answer where "r = Inl ([], answer)" "hs' = hs" "g' = g" "o1 = []"
      "is_master \<and> \<not> is_creation_active (se_heap e) (Some (hd_peer hs)) n g
       \<or> validate_join (se_wc e) (se_cfg e) (se_heap e) user (jp_expected_users p) is_master g \<noteq> err_Ok (se_wc e)"
  | (stages) g1 added ts gp g2 where
      "validate_join (se_wc e) (se_cfg e) (se_heap e) user (jp_expected_users p) is_master g = err_Ok (se_wc e)"
      "reserve_expected e (hd_peer hs) user (jp_expected_users p) g = (g1, added, ts)"
      "create_peer (se_vo e) (se_wc e) (se_heap e) (Some (hd_peer hs)) g1 = (gp, g2)" "o1 = scheduled ts"
      "(\<exists>answer. r = Inl (added, answer)) \<and> g' = g2 \<and> hs' = hs
       \<or> gp_is_valid gp \<and> (\<exists>x. (if is_master then add_peer_for_creation (se_wc e) (se_heap e) gp (Some (hd_peer hs)) n g2
                              else add_peer (se_wc e) (se_heap e) gp g2) = (x, g')
            \<and> (case x of None \<Rightarrow> (\<exists>answer. r = Inl (added, answer)) \<and> hs' = hs\<lparr> hd_game_peer := False \<rparr>
               | Some _ \<Rightarrow> r = Inr added \<and> hs' = hs\<lparr> hd_game_peer := True \<rparr>))"
proof -
  let ?code = "validate_join (se_wc e) (se_cfg e) (se_heap e) user (jp_expected_users p) is_master g"
  obtain g1 added ts where res: "reserve_expected e (hd_peer hs) user (jp_expected_users p) g = (g1, added, ts)"
    by (metis prod_cases3)
  obtain gp g2 where cp: "create_peer (se_vo e) (se_wc e) (se_heap e) (Some (hd_peer hs)) g1 = (gp, g2)" by force
  obtain x g3 where ap: "(if is_master then add_peer_for_creation (se_wc e) (se_heap e) gp (Some (hd_peer hs)) n g2
      else add_peer (se_wc e) (se_heap e) gp g2) = (x, g3)" by force
  note split = assms [unfolded join_admit_def Let_def res cp prod.case ap]
  consider (a) "is_master \<and> \<not> is_creation_active (se_heap e) (Some (hd_peer hs)) n g \<or> ?code \<noteq> err_Ok (se_wc e)"
    | (b) "?code = err_Ok (se_wc e)" "\<not> (is_master \<and> \<not> is_creation_active (se_heap e) (Some (hd_peer hs)) n g)"
    by blast
  then show ?thesis
  proof cases
    case a
    with split obtain answer where "r = Inl ([], answer)" "hs' = hs" "g' = g" "o1 = []"
      by (auto split: if_splits)
    then show ?thesis by (rule nothing) (rule a)
  next
    case b
    show ?thesis
    proof (rule stages [OF b(1) res cp])
      show "o1 = scheduled ts" using split b by (auto split: if_splits option.splits)
      show "(\<exists>answer. r = Inl (added, answer)) \<and> g' = g2 \<and> hs' = hs
       \<or> gp_is_valid gp \<and> (\<exists>x. (if is_master then add_peer_for_creation (se_wc e) (se_heap e) gp (Some (hd_peer hs)) n g2
                              else add_peer (se_wc e) (se_heap e) gp g2) = (x, g')
            \<and> (case x of None \<Rightarrow> (\<exists>answer. r = Inl (added, answer)) \<and> hs' = hs\<lparr> hd_game_peer := False \<rparr>
               | Some _ \<Rightarrow> r = Inr added \<and> hs' = hs\<lparr> hd_game_peer := True \<rparr>))"
        unfolding ap using split b by (cases x) (auto split: if_splits)
    qed
  qed
qed

lemma join_admit_answer:
  "join_admit e disc is_master n opc p user hs g = (Inl (added, answer), hs', g', o1) \<Longrightarrow> tasks_of answer = []"
  by (auto simp: join_admit_def Let_def split: if_splits prod.splits option.splits)

lemma create_peer_valid:
  assumes "create_peer vo wc h p g = (gp, g')" "gp_is_valid gp" "room_inv (g, pend)"
  shows "gp_actor_id gp \<le> 254"
  using create_peer_actor(2) [OF assms(1,2)] assms(3) by (simp add: room_inv_def lease_inv_def)

lemma join_admit_moves:
  assumes "join_admit e disc is_master n opc p user hs g = (r, hs', g', o1)"
  shows "moves (length (jp_expected_users p) + 1) g g' (tasks_of o1)
    \<and> stays (length (jp_expected_users p) + 1) g g'"
  using assms
proof (cases rule: join_admit_cases)
  case (stages g1 added ts gp g2)
  let ?k = "length (jp_expected_users p)"
  note m1 = reserve_expected_moves [OF stages(2)] and m2 = create_peer_moves [OF stages(3)]
  have m: "moves (?k + 0) g g2 (map snd ts @ [])" and s: "stays (?k + 0) g g2"
    by (rule moves_trans [OF m1(1) m2(1)]) (rule stays_trans [OF m1(2,1) m2(2)])
  from stages(5) show ?thesis
  proof (elim disjE conjE exE)
    assume "g' = g2"
    with m s stages(4) show ?thesis by (auto intro: moves_mono stays_mono)
  next
    fix x assume v: "gp_is_valid gp" and x: "(if is_master
      then add_peer_for_creation (se_wc e) (se_heap e) gp (Some (hd_peer hs)) n g2
      else add_peer (se_wc e) (se_heap e) gp g2) = (x, g')"
    show ?thesis
    proof (cases "gp_actor_id gp \<le> 254")
      case True
      have "moves 1 g2 g' [] \<and> stays 1 g2 g'"
        using x add_for_creation_moves [OF v True] add_peer_moves [OF v True]
        by (auto split: if_splits) (metis snd_conv)+
      with moves_trans [OF m] stays_trans [OF s m] stages(4) show ?thesis by fastforce
    next
      case False
      have no: "\<not> (room_inv (g, pend) \<and> within (?k + 1) g)" for pend
      proof
        assume i: "room_inv (g, pend) \<and> within (?k + 1) g"
        then have "within ?k g" by (auto elim: within_mono)
        with i have "room_inv (g1, pend @ map snd ts)" using movesD(1) [OF m1(1)] by blast
        from create_peer_valid [OF stages(3) v this] False show False by simp
      qed
      have "lease_view g' = lease_view g2"
        using x by (cases is_master; cases rule: add_peer_cases [of "se_wc e" "se_heap e" gp g2];
          cases rule: add_peer_for_creation_cases [of "se_wc e" "se_heap e" gp "Some (hd_peer hs)" n g2])
          (auto simp: remove_expected_lease)
      with s no show ?thesis by (simp add: moves_def stays_def)
    qed
  qed
qed auto

lemma join_props_quiet: "join_props e is_master p actor g = (g', fx) \<Longrightarrow> quiet_view g' = quiet_view g"
proof -
  assume j: "join_props e is_master p actor g = (g', fx)"
  define g1 where "g1 = (case jp_actor_props p of None \<Rightarrow> g
               | Some ps \<Rightarrow> snd (insert_actor_props (se_vo e) (se_wc e) actor ps g))"
  have "quiet_view g1 = quiet_view g" by (simp add: g1_def quiet split: option.split)
  moreover have "g' = g1 \<or> (\<exists>ps. g' = fst (insert_game_props (se_vo e) (se_wc e) (se_cfg e) ps g1))"
    using j by (auto simp: join_props_def g1_def Let_def split: if_splits option.splits) (metis fst_conv)+
  ultimately show ?thesis using game_props_quiet by metis
qed

lemma join_respond_quiet:
  assumes "join_respond e disc opc actor props g = (g', fx)"
  shows "quiet_view g' = quiet_view g \<and> tasks_of fx = []"
proof -
  obtain r g1 pks where f: "flood_peer_by_actor (se_vo e) (se_wc e) (se_ser e) (se_heap e)
      (case find_peer_actor g actor of None \<Rightarrow> 0 | Some gp \<Rightarrow> gp_actor_id gp) g = (r, g1, pks)"
    by (metis prod_cases3)
  from assms flood_quiet [OF f] show ?thesis
    by (auto simp: join_respond_def Let_def f split: if_splits)
qed

lemma join_answer_moves:
  assumes "join_answer e disc opc actor props hs g = (hs', g', o1)"
  shows "quiet_view g' = quiet_view g \<and> tasks_of o1 = [] \<and> hs' = hs"
  using assms join_respond_quiet [of e disc opc actor props g]
  by (cases "join_respond e disc opc actor props g") (auto simp: join_answer_def split: if_splits)

lemma join_commit_moves:
  assumes "join_commit e disc is_master n opc actor added hs g = (hs', g', o1)"
  shows "moves 0 g g' (tasks_of o1)"
proof (cases "is_master \<and> \<not> disc 5")
  case False
  show ?thesis
  proof (cases is_master)
    case True
    with False assms have "rollback_join e is_master n added hs g = (hs', g', o1)" by (simp add: join_commit_def)
    then show ?thesis by (rule rollback_moves)
  next
    case False
    with assms have "join_answer e disc opc actor (get_actor_props (se_vo e) g) hs g = (hs', g', o1)"
      by (simp add: join_commit_def)
    from join_answer_moves [OF this] quiet_moves show ?thesis by auto
  qed
next
  case True
  obtain ok g1 where c: "commit_creation (se_heap e) (Some (hd_peer hs)) n g = (ok, g1)" by force
  show ?thesis
  proof (cases ok)
    case False
    with True assms c have "rollback_join e is_master n added hs g = (hs', g', o1)" by (simp add: join_commit_def)
    then show ?thesis by (rule rollback_moves)
  next
    case ok: True
    obtain hs2 g2 o2 where a: "join_answer e disc opc actor (get_actor_props (se_vo e) g)
        (hs\<lparr> hd_creation_game := False, hd_creation_generation := 0 \<rparr>) g1 = (hs2, g2, o2)" by (metis prod_cases3)
    have "moves 0 g1 g2 []" using join_answer_moves [OF a] by (intro quiet_moves) simp
    with moves_trans [OF commit_moves [OF c] this] join_answer_moves [OF a] True ok assms c a show ?thesis
      by (auto simp: join_commit_def)
  qed
qed

lemma join_finish_moves:
  assumes "join_finish e disc is_master n opc p added hs g = (hs', g', o1)"
  shows "moves 0 g g' (tasks_of o1)"
proof -
  define actor where "actor = (case find_peer_ref (se_heap e) g (Some (hd_peer hs)) of None \<Rightarrow> 0
      | Some gp \<Rightarrow> gp_actor_id gp)"
  obtain g1 fx where p: "join_props e is_master p actor g = (g1, fx)" by force
  obtain hs2 g2 o2 where r: "(if disc 4 \<or> is_master \<and> \<not> is_creation_active (se_heap e) (Some (hd_peer hs)) n g1
      then rollback_join e is_master n added hs g1
      else join_commit e disc is_master n opc actor added hs g1) = (hs2, g2, o2)" by (metis prod_cases3)
  have "moves 0 g1 g2 (tasks_of o2)"
    using r rollback_moves [of e is_master n added hs g1] join_commit_moves [of e disc is_master n opc actor added hs g1]
    by (auto split: if_splits)
  from moves_trans [OF quiet_moves [OF join_props_quiet [OF p]] this]
  have late: "moves 0 g g2 (tasks_of o2)" by (simp add: moves_mono)
  note split = assms [unfolded join_finish_def Let_def, folded actor_def, unfolded p prod.case r]
  show ?thesis
  proof (cases "disc 3 \<or> is_master \<and> \<not> is_creation_active (se_heap e) (Some (hd_peer hs)) n g \<or> actor = 0")
    case True
    with split have "rollback_join e is_master n added hs g = (hs', g', o1)" by simp
    then show ?thesis by (rule rollback_moves)
  next
    case False
    with split late show ?thesis by auto
  qed
qed

lemma join_claimed_moves:
  assumes "join_claimed e disc n opc p user hs g = (hs', g', o1)"
  shows "moves (length (jp_expected_users p) + 1) g g' (tasks_of o1)"
proof -
  let ?k = "length (jp_expected_users p) + 1" and ?m = "n \<noteq> 0"
  define g1 where "g1 = (if n \<noteq> 0 then apply_game_settings e p g else g)"
  have q: "moves 0 g g1 []" unfolding g1_def by (intro quiet_moves) (simp add: quiet)
  obtain r hs2 g2 o2 where a: "join_admit e (disc 2) ?m n opc p user hs g1 = (r, hs2, g2, o2)" by (metis prod_cases4)
  note m = moves_trans [OF q conjunct1 [OF join_admit_moves [OF a]]]
  have undo: "moves ?k g g' (tasks_of o1)"
    if "rollback_join e ?m n added hs0 g0 = (hs', g', o0)" "tasks_of o1 = tasks_of o0" "moves l g g0 []" "l \<le> ?k"
    for added hs0 g0 o0 l
    using moves_trans [OF that(3) rollback_moves [OF that(1)]] that(2,4) by (auto elim!: moves_mono)
  show ?thesis
  proof (cases "disc 0 \<or> n = 0 \<and> validate_join_count (se_wc e) (se_cfg e) (se_heap e) user 0 False g \<noteq> err_Ok (se_wc e)
      \<or> n \<noteq> 0 \<and> \<not> is_creation_active (se_heap e) (Some (hd_peer hs)) n g")
    case True
    obtain hs0 g0 o0 where b: "rollback_join e ?m n [] hs g = (hs0, g0, o0)" by (metis prod_cases3)
    with True assms have "hs0 = hs' \<and> g0 = g' \<and> tasks_of o1 = tasks_of o0"
      by (auto simp: join_claimed_def Let_def split: if_splits)
    with b undo [of "[]" hs g o0 0] show ?thesis by simp
  next
    case False
    show ?thesis
    proof (cases "disc 1 \<or> n \<noteq> 0 \<and> \<not> is_creation_active (se_heap e) (Some (hd_peer hs)) n g1")
      case True
      with False assms have "rollback_join e ?m n [] hs g1 = (hs', g', o1)"
        by (auto simp: join_claimed_def Let_def g1_def split: if_splits)
      from undo [OF this refl q] show ?thesis by simp
    next
      case go: False
      show ?thesis
      proof (cases r)
        case (Inl t)
        obtain added answer where t: "t = (added, answer)" by force
        obtain hs3 g3 o3 where b: "rollback_join e ?m n added hs2 g2 = (hs3, g3, o3)" by (metis prod_cases3)
        from False go assms Inl t a b have "hs3 = hs' \<and> g3 = g' \<and> o1 = o2 @ o3 @ answer"
          by (auto simp: join_claimed_def Let_def g1_def split: if_splits)
        with moves_trans [OF m rollback_moves [OF b]] join_admit_answer [of e "disc 2" ?m n opc p user hs g1] a Inl t
        show ?thesis by simp
      next
        case (Inr added)
        obtain hs3 g3 o3 where b: "join_finish e disc ?m n opc p added hs2 g2 = (hs3, g3, o3)" by (metis prod_cases3)
        from False go assms Inr a b have "hs3 = hs' \<and> g3 = g' \<and> o1 = o2 @ LobbyUpdate # o3"
          by (auto simp: join_claimed_def Let_def g1_def split: if_splits)
        with moves_trans [OF m join_finish_moves [OF b]] show ?thesis by simp
      qed
    qed
  qed
qed

lemma retain_join_room: "retain_join e opc p hs g = (hs', g', o1) \<Longrightarrow> g' = g \<and> tasks_of o1 = []"
  by (auto simp: retain_join_def not_allowed_def split: if_splits)

text \<open>A join ends before the room is claimed, with the room as it was, or goes on with it claimed.\<close>

lemma handle_join_cases:
  assumes "handle_join e disc opc p user hs g = (hs', g', o1)"
  obtains (early) "g' = g" "tasks_of o1 = []" "\<And>c j. Joined c j \<notin> set o1"
      "hd_creation_game hs' = hd_creation_game hs" "hd_creation_generation hs' = hd_creation_generation hs"
      "hd_peer hs' = hd_peer hs" "hd_disconnected hs' = hd_disconnected hs" "hd_current hs' = hd_current hs"
  | (claimed) n g1 hs1 where "\<not> has_joined_peer (se_heap e) hs g" "jp_game_id p = g_id g" "\<not> g_is_creating g"
      "try_begin_creation (Some (hd_peer hs)) g = (n, g1)" "n = 0 \<Longrightarrow> g_is_created g1"
      "hs1 = (if n \<noteq> 0 then hs\<lparr> hd_creation_generation := n, hd_creation_game := True \<rparr> else hs)"
      "join_claimed e disc n opc p user hs1 g1 = (hs', g', o1)"
proof -
  obtain n g1 where b: "try_begin_creation (Some (hd_peer hs)) g = (n, g1)" by force
  have g1: "n = 0 \<Longrightarrow> g1 = g"
    using b begin_zero by blast
  define hs1 where "hs1 = (if n \<noteq> 0 then hs\<lparr> hd_creation_generation := n, hd_creation_game := True \<rparr> else hs)"
  show ?thesis
  proof (cases "has_joined_peer (se_heap e) hs g \<or> jp_game_id p \<noteq> g_id g \<or> g_is_creating g
      \<or> \<not> g_is_created g \<and> opc \<noteq> hc_op_CreateGame (se_hc e) \<and> jp_mode p \<noteq> 1 \<or> n = 0 \<and> \<not> g_is_created g1")
    case True
    show ?thesis
      by (rule early; use assms True b g1 in \<open>auto simp: handle_join_def Let_def retain_join_def not_allowed_def
          split: if_splits\<close>)
  next
    case False
    with assms b have "join_claimed e disc n opc p user hs1 g1 = (hs', g', o1)"
      by (auto simp: handle_join_def Let_def hs1_def split: if_splits)
    with False b hs1_def show ?thesis by (intro claimed) auto
  qed
qed

lemma handle_join_moves:
  assumes "handle_join e disc opc p user hs g = (hs', g', o1)"
  shows "moves (length (jp_expected_users p) + 1) g g' (tasks_of o1)"
  using assms
proof (cases rule: handle_join_cases)
  case (claimed n g1 hs1)
  from moves_trans [OF begin_moves [OF claimed(4)] join_claimed_moves [OF claimed(7)]] show ?thesis by simp
qed simp

lemma raise_quiet:
  "handle_raise_event e r hs g = (hs', g', o1) \<Longrightarrow> quiet_view g' = quiet_view g \<and> tasks_of o1 = []"
  by (auto simp: handle_raise_event_def not_allowed_def Let_def event_cache_quiet split: if_splits option.splits)

lemma apply_actor_quiet:
  "apply_actor_props vo wc actor update expd g = Inr (ok, g') \<Longrightarrow> quiet_view g' = quiet_view g"
  using actor_props_quiet [of vo wc actor update g]
  by (auto simp: apply_actor_props_def split: if_splits option.splits sum.splits prod.splits bool.splits)

lemma apply_game_quiet: "apply_game_props vo wc cfg update expd g = (ok, g', fx) \<Longrightarrow> quiet_view g' = quiet_view g"
  using game_props_quiet [of vo wc cfg update g]
  by (auto simp: apply_game_props_def split: if_splits option.splits prod.splits)

lemma set_properties_quiet:
  assumes "handle_set_properties e p hs g = (hs', g', o1)"
  shows "quiet_view g' = quiet_view g \<and> tasks_of o1 = [] \<and> hs' = hs"
proof -
  define r where "r ps = (if sp_actor p \<noteq> 0
      then map_sum id (\<lambda>(ok, g1). (ok, g1, [])) (apply_actor_props (se_vo e) (se_wc e) (sp_actor p) ps (sp_expected p) g)
      else Inr (apply_game_props (se_vo e) (se_wc e) (se_cfg e) ps (sp_expected p) g))" for ps
  have q: "quiet_view g1 = quiet_view g" if "r ps = Inr (ok, g1, fx)" for ps ok g1 fx
  proof (cases "sp_actor p = 0")
    case True
    with that apply_game_quiet show ?thesis by (auto simp: r_def)
  next
    case False
    with that apply_actor_quiet show ?thesis
      by (cases "apply_actor_props (se_vo e) (se_wc e) (sp_actor p) ps (sp_expected p) g") (auto simp: r_def)
  qed
  note split = assms [unfolded handle_set_properties_def Let_def, folded r_def]
  show ?thesis
  proof (cases "(if hd_current hs then actor_id_for_peer (se_heap e) g (Some (hd_peer hs)) else None) = None
      \<or> sp_props p = None \<or> sp_props p = Some []
      \<or> (if hd_current hs then actor_id_for_peer (se_heap e) g (Some (hd_peer hs)) else None) = Some 0")
    case True
    with split show ?thesis
      by (cases "sp_props p"; cases "if hd_current hs then actor_id_for_peer (se_heap e) g (Some (hd_peer hs)) else None")
        (auto simp only: option.case not_allowed_def tasks_of_simps prod.inject if_True if_False split: if_splits)
  next
    case False
    then obtain a ps where a: "(if hd_current hs then actor_id_for_peer (se_heap e) g (Some (hd_peer hs)) else None) = Some a"
      "a \<noteq> 0" "sp_props p = Some ps" "ps \<noteq> []" by (auto split: option.splits)
    note split' = split [unfolded a(1) a(3) option.case if_not_P [OF a(2)] if_not_P [OF a(4)]]
    show ?thesis
    proof (cases "r ps")
      case (Inl u)
      then have "r ps = Inl ()" by simp
      with split' have "(hs, g, [Thrown]) = (hs', g', o1)" by (simp only: sum.case unit.case)
      then show ?thesis by auto
    next
      case (Inr t)
      obtain ok g1 fx where t: "t = (ok, g1, fx)" by (metis prod_cases3)
      from split' Inr t q [of ps ok g1 fx] show ?thesis by (auto split: if_splits)
    qed
  qed
qed

lemma change_groups_quiet:
  "handle_change_groups e add rem opc hs g = (hs', g', o1) \<Longrightarrow> quiet_view g' = quiet_view g \<and> tasks_of o1 = []"
  by (auto simp: handle_change_groups_def not_allowed_def Let_def groups_quiet split: if_splits)

fun request_cost :: "'v request \<Rightarrow> nat" where
  "request_cost (ReqJoin opc p) = length (jp_expected_users p) + 1"
| "request_cost _ = 0"

lemma request_moves:
  assumes "handle_request e disc ch user req hs g = (hs', g', o1)"
  shows "moves (request_cost req) g g' (tasks_of o1)"
proof (cases req)
  case (ReqJoin opc p)
  with assms handle_join_moves [of e disc opc p user hs g] show ?thesis
    by (auto simp: handle_request_def split: if_splits)
next
  case (ReqRaise r)
  with assms raise_quiet [of e "r\<lparr> rp_channel := ch \<rparr>" hs g hs' g' o1] show ?thesis
    by (simp add: handle_request_def quiet_moves)
next
  case (ReqSetProperties p)
  with assms set_properties_quiet [of e p hs g hs' g' o1] show ?thesis
    by (auto simp: handle_request_def quiet_moves split: if_splits)
next
  case (ReqChangeGroups opc add rem)
  with assms change_groups_quiet [of e add rem opc hs g hs' g' o1] show ?thesis
    by (auto simp: handle_request_def quiet_moves split: if_splits)
next
  case ReqLeave
  with assms show ?thesis by (auto simp: handle_request_def handle_leave_def split: if_splits)
qed

lemma disconnect_abort_moves:
  assumes "disconnect_abort e hs g = (g', o1)"
  shows "moves 0 g g' (tasks_of o1)"
proof -
  obtain r g1 ts where a: "abort_creation_transaction (se_heap e) (Some (hd_peer hs)) (hd_creation_generation hs) g
      = (r, g1, ts)" by (metis prod_cases3)
  from abort_moves [OF a] assms a show ?thesis by (auto simp: disconnect_abort_def split: if_splits)
qed

text \<open>The member's leaving: its cached events may go first, then the record is removed.\<close>

lemma leave_room_cases:
  assumes "leave_room e hs g = (g', o1)"
  obtains (nobody) "g' = g" "o1 = []" "g_peers g = []
      \<or> (case actor_id_for_peer (se_heap e) g (Some (hd_peer hs)) of None \<Rightarrow> True | Some a \<Rightarrow> a = 0 \<or> \<not> has_peer_actor g a)"
  | (member) evs b ts where "remove_peer (se_wc e) (se_heap e) (Some (hd_peer hs)) (g\<lparr> g_event_cache := evs \<rparr>) = (b, g', ts)"
      "tasks_of o1 = map snd ts"
proof (cases "g_peers g = [] \<or> (case actor_id_for_peer (se_heap e) g (Some (hd_peer hs)) of None \<Rightarrow> True
    | Some a \<Rightarrow> a = 0 \<or> \<not> has_peer_actor g a)")
  case True
  with assms show ?thesis
    by (intro nobody) (auto simp: leave_room_def Let_def split: option.splits if_splits)
next
  case False
  then obtain a where a: "actor_id_for_peer (se_heap e) g (Some (hd_peer hs)) = Some a" "a \<noteq> 0" "has_peer_actor g a"
    "g_peers g \<noteq> []" by (auto split: option.splits)
  define evs where "evs = (if has_flag (g_flags g) (hc_CleanupCacheOnLeave (se_hc e))
      then filter (\<lambda>ev. ev_sender ev \<noteq> a) (g_event_cache g) else g_event_cache g)"
  have e: "(if has_flag (g_flags g) (hc_CleanupCacheOnLeave (se_hc e))
      then g\<lparr> g_event_cache := filter (\<lambda>ev. ev_sender ev \<noteq> a) (g_event_cache g) \<rparr> else g) = g\<lparr> g_event_cache := evs \<rparr>"
    by (simp add: evs_def)
  obtain b g2 ts where r: "remove_peer (se_wc e) (se_heap e) (Some (hd_peer hs)) (g\<lparr> g_event_cache := evs \<rparr>) = (b, g2, ts)"
    by (metis prod_cases3)
  note split = assms [unfolded leave_room_def Let_def, unfolded a(1) option.case e r prod.case]
  from split a(2-4) have "g' = g2" "tasks_of o1 = map snd ts" by (auto split: if_splits)
  with r show ?thesis by (intro member) auto
qed

lemma leave_room_moves:
  assumes "leave_room e hs g = (g', o1)"
  shows "moves 0 g g' (tasks_of o1)"
  using assms
proof (cases rule: leave_room_cases)
  case (member evs b ts)
  have "moves 0 g (g\<lparr> g_event_cache := evs \<rparr>) []" by (intro quiet_moves event_cache_quiet)
  from moves_trans [OF this remove_peer_moves [OF member(1)]] member(2) show ?thesis by simp
qed auto

lemma disconnect_moves:
  assumes "handle_disconnect e hs g = (hs', g', o1)"
  shows "moves 0 g g' (tasks_of o1)"
proof -
  let ?hs = "hs\<lparr> hd_disconnected := True, hd_pending_join := None \<rparr>"
  obtain g1 o2 where a: "disconnect_abort e ?hs g = (g1, o2)" by force
  obtain g2 o3 where l: "leave_room e ?hs g1 = (g2, o3)" by force
  from moves_trans [OF disconnect_abort_moves [OF a] leave_room_moves [OF l]] assms a l show ?thesis
    by (auto simp: handle_disconnect_def Let_def split: if_splits)
qed

end
