(* ===== verification/GameProperties.thy ===== *)
theory GameProperties
  imports GameMachine
begin

text \<open>
  What the room guarantees as a whole: rollback of a failed creation, the
  reachable rooms, leases of vanished owners, allocation of actor numbers and
  removal of members.
\<close>

section \<open>Creation\<close>


definition sample_heap :: heap where
  "sample_heap = [7 \<mapsto> \<lparr> pn_user = Some ''owner'', pn_protocol = 0 \<rparr>,
     8 \<mapsto> \<lparr> pn_user = Some ''guest'', pn_protocol = 1 \<rparr>]"

lemma abort_accepted: "fst (abort_creation_transaction h owner n g) \<longleftrightarrow> lease_held h owner n g"
  by (simp add: abort_creation_transaction_def Let_def split: prod.split)

lemma room_run_single:
  "room_step vo wc cfg ser h op s s' \<Longrightarrow> room_run vo wc cfg ser s [(h, op)] s'"
  using run_step [OF run_nil] by fastforce

lemma creation_rollback_witness:
  "\<exists>n g1 g3 ts. try_begin_creation (Some 7) (new_game 0 [] [] :: sample_value game) = (n, g1) \<and> n \<noteq> 0
     \<and> abort_creation_transaction sample_heap (Some 7) n (set_config_state 0 False False 9 5 g1) = (True, g3, ts)
     \<and> live_config g3 = live_config (new_game 0 [] [] :: sample_value game)"
proof -
  let ?g0 = "new_game 0 [] [] :: sample_value game"
  obtain n g1 where b: "try_begin_creation (Some 7) ?g0 = (n, g1)" by force
  have c: "\<not> (Some 7 = (None :: peer_ref option) \<or> g_is_created ?g0 \<or> g_is_creating ?g0 \<or> active_peer_count ?g0 \<noteq> 0)"
    by (simp add: new_game_def active_peer_count_def)
  have n: "n \<noteq> 0"
    using b next_nonzero_pos unfolding try_begin_creation_def if_not_P [OF c] Let_def by auto
  have r0: "res_inv ?g0" by (simp add: res_inv_def new_game_def)
  note bt = begin_tx_inv [OF b n r0]
  let ?g2 = "set_config_state 0 False False 9 5 g1"
  let ?ops = "[(sample_heap, OpConfig 0 False False 9 5)] :: (heap \<times> sample_value room_op) list"
  have run: "room_run sample_ops sample_codes default_app_settings (\<lambda>_ _. None) (g1, []) ?ops (?g2, [])"
    by (rule room_run_single [OF config])
  have "lease_held sample_heap (Some 7) n ?g2"
    using bt n by (simp add: lease_held_def set_config_state_def sample_heap_def tx_inv_def)
  then obtain g3 ts where a: "abort_creation_transaction sample_heap (Some 7) n ?g2 = (True, g3, ts)"
    using abort_accepted [of sample_heap "Some 7" n ?g2] by (metis fst_conv prod_cases3)
  from creation_rollback [OF new_room_inv b n run _ a] have "live_config g3 = live_config ?g0" by simp
  with b n a show ?thesis by blast
qed

lemma stale_expiry_harmless_witness:
  "''u'' \<in> set (g_expected_users (fst (snd (reserve_expected_user_with_generation ''u'' 5
      (new_game 0 [] [] :: sample_value game)))))"
proof -
  let ?g = "new_game 0 [] [] :: sample_value game"
  have "g_next_expected_user_generation ?g < - 1"
    by (simp add: new_game_def word_less_nat_alt unsigned_minus_1_eq_mask mask_eq_exp_minus_1)
  moreover obtain n g' ts where e: "reserve_expected_user_with_generation ''u'' 5 ?g = (Some n, g', ts)"
    by (cases rule: reserve_cases [of "''u''" ?g 5]) (auto simp: new_game_def)
  ultimately show ?thesis using stale_expiry_harmless [OF new_room_inv _ e] e by simp
qed

text \<open>
  C8: In every room reached from a new one, by any sequence of operations and
  with peers appearing and vanishing at any time, all members are active and
  hold distinct actor numbers between 1 and 254, so there are at most 254 of
  them; a room is never created and in creation at once; and every reserved
  user has exactly one live generation, whose expiry callback is still pending,
  so no reservation outlives its lifetime.
\<close>

theorem reachable_room_sound:
  assumes "room_run vo wc cfg ser (new_game r gid addr, []) ops (g, pend)"
  shows "distinct (map gp_actor_id (g_peers g))
    \<and> (\<forall>gp\<in>set (g_peers g). gp_active gp \<and> 1 \<le> gp_actor_id gp \<and> gp_actor_id gp \<le> 254)
    \<and> length (g_peers g) \<le> 254
    \<and> \<not> (g_is_creating g \<and> g_is_created g)
    \<and> distinct (g_expected_users g)
    \<and> (\<forall>u\<in>set (g_expected_users g). \<exists>n. map_of (g_expected_user_generations g) u = Some n
         \<and> ExpireReservation u n \<in> set pend)"
proof -
  have i: "member_inv g" "res_inv g" "pending_inv g pend" "lease_inv g"
    using room_run_inv [OF assms new_room_inv] by (auto simp: room_inv_def)
  have "set (map gp_actor_id (g_peers g)) \<subseteq> {1..254}"
    using i(1) by (auto simp: member_inv_def)
  then have "card (set (map gp_actor_id (g_peers g))) \<le> card {1..254::int}"
    by (intro card_mono) auto
  moreover have "distinct (map gp_actor_id (g_peers g))" using i(1) by (simp add: member_inv_def)
  from distinct_card [OF this] have "length (g_peers g) = card (set (map gp_actor_id (g_peers g)))" by simp
  ultimately have "length (g_peers g) \<le> 254" by simp
  moreover have "\<exists>n. map_of (g_expected_user_generations g) u = Some n \<and> ExpireReservation u n \<in> set pend"
    if "u \<in> set (g_expected_users g)" for u
    using that i(2,3) by (auto simp: res_inv_def pending_inv_def)
  ultimately show ?thesis using i by (auto simp: member_inv_def lease_inv_def res_inv_def)
qed

lemma reachable_room_sound_witness:
  "distinct (g_expected_users (fst (snd (reserve_expected_user_with_generation ''u'' 5 (new_game 0 [] [] :: sample_value game)))))"
proof -
  let ?g = "new_game 0 [] [] :: sample_value game"
  obtain r g' ts where e: "reserve_expected_user_with_generation ''u'' 5 ?g = (r, g', ts)" by (metis prod_cases3)
  have "g_next_expected_user_generation ?g < - 1"
    by (simp add: new_game_def word_less_nat_alt unsigned_minus_1_eq_mask mask_eq_exp_minus_1)
  from room_run_single [OF reserve [OF this e, where pend = "[]"]]
  have "room_run sample_ops sample_codes default_app_settings (\<lambda>_ _. None) (?g, [])
      [(sample_heap, OpReserve ''u'' 5)] (g', map snd ts)" by simp
  from reachable_room_sound [OF this] e show ?thesis by simp
qed

section \<open>A lease whose owner is gone\<close>

lemma quiet_lease: "quiet_view g' = quiet_view g \<Longrightarrow> lease_view g' = lease_view g"
  by (simp add: quiet_view_def)

lemma lease_step_dead_owner:
  assumes "room_step vo wc cfg ser h op s s'" "member_inv (fst s)"
    "g_is_creating (fst s)" "g_creation_owner (fst s) = Some p" "h p = None"
  shows "lease_view (fst s') = lease_view (fst s)"
  using assms
proof (induction rule: room_step.induct)
  case (reserve g u ttl r g' ts h pend)
  then show ?case
    by (cases rule: reserve_cases [of u g ttl]) (auto simp: lease_view_def add_reservation_def Let_def)
next
  case (expire u n pend h g)
  then show ?case by (simp add: lease_view_def expire_reservation_def drop_reservation_def note_removed_def)
next
  case (remove_expected h u g pend)
  then show ?case
    by (simp add: lease_view_def remove_expected_user_def drop_reservation_def note_removed_def split: option.split)
next
  case (release h u n g pend)
  then show ?case by (simp add: lease_view_def remove_expected_user_if_generation_def drop_reservation_def)
next
  case (allocate h p g gp g' pend)
  then show ?case by (auto simp: lease_view_def create_peer_def Let_def split: option.splits prod.splits)
next
  case (add gp h g pend)
  then show ?case
    by (cases rule: add_peer_cases [of wc h gp g])
      (auto simp: lease_view_def remove_expected_user_def drop_reservation_def note_removed_def split: option.split)
next
  case (add_for_creation gp h owner n g pend)
  then show ?case
    by (cases rule: add_peer_for_creation_cases [of wc h gp owner n g])
      (auto simp: lease_view_def remove_expected_user_def drop_reservation_def note_removed_def split: option.split)
next
  case (remove h p g r g' ts pend)
  then show ?case using remove_peer_inv [OF remove(1)] by simp
next
  case (begin_creation owner g n g' h pend)
  then show ?case by (simp add: try_begin_creation_def split: if_splits)
next
  case (commit h owner n g r g' pend)
  then show ?case by (auto simp: commit_creation_def lease_held_def lock_def)
next
  case (abort g h owner n r g' ts pend)
  then show ?case by (auto simp: abort_creation_transaction_def lease_held_def lock_def)
qed (auto intro: quiet_lease quiet)

text \<open>
  If the peer that is creating a room is destroyed without the handler
  aborting the creation, the room is stuck: no sequence of operations ever
  commits, aborts or restarts the creation, and the room never becomes
  joinable. The abort on disconnect is therefore mandatory.
\<close>

theorem dead_owner_blocks_room:
  assumes "room_run vo wc cfg ser s ops s'" "room_inv s" "g_is_creating (fst s)"
    "g_creation_owner (fst s) = Some p" "\<forall>(h, op)\<in>set ops. h p = None"
  shows "g_is_creating (fst s') \<and> \<not> is_joinable (fst s')
    \<and> g_active_creation_generation (fst s') = g_active_creation_generation (fst s)"
proof -
  have "lease_view (fst s') = lease_view (fst s)"
    using assms
  proof (induction rule: room_run.induct)
    case (run_step s ops s' h op s'')
    then have ih: "lease_view (fst s') = lease_view (fst s)" by simp
    have "member_inv (fst s')" using room_run_inv [OF run_step(1,4)] by (simp add: room_inv_def)
    moreover have "g_is_creating (fst s')" "g_creation_owner (fst s') = Some p"
      using ih run_step by (auto simp: lease_view_def)
    ultimately have "lease_view (fst s'') = lease_view (fst s')"
      using lease_step_dead_owner [OF run_step(2)] run_step(7) by auto
    with ih show ?case by simp
  qed simp
  then show ?thesis using assms(3) by (simp add: lease_view_def is_joinable_def)
qed

lemma dead_owner_blocks_room_witness:
  "\<not> is_joinable (snd (try_begin_creation (Some 9) (new_game 0 [] [] :: sample_value game)))"
proof -
  let ?g0 = "new_game 0 [] [] :: sample_value game"
  obtain n g1 where b: "try_begin_creation (Some 9) ?g0 = (n, g1)" by force
  have c: "\<not> (Some 9 = (None :: peer_ref option) \<or> g_is_created ?g0 \<or> g_is_creating ?g0 \<or> active_peer_count ?g0 \<noteq> 0)"
    by (simp add: new_game_def active_peer_count_def)
  have n: "n \<noteq> 0"
    using b next_nonzero_pos unfolding try_begin_creation_def if_not_P [OF c] Let_def by auto
  have "res_inv ?g0" by (simp add: res_inv_def new_game_def)
  note bt = begin_tx_inv [OF b n this]
  have "g_is_creating g1" using bt(1) by (simp add: tx_inv_def)
  from dead_owner_blocks_room [OF run_nil [of sample_ops sample_codes default_app_settings "\<lambda>_ _. None" "(g1, [])"], of 9]
    creation_room_inv(1) [OF new_room_inv b] this bt(2) b
  show ?thesis by simp
qed

section \<open>Actor numbers\<close>

text \<open>
  For an authenticated peer, a member record can be created exactly when
  one of the numbers 1..254 is free; it then carries a free number, and the
  room accepts it unless the room is being created or the user is already in.
\<close>

theorem create_peer_complete:
  assumes "persistent_user h r = Some user" "0 \<le> g_last_actor_id g"
    "create_peer vo wc h (Some r) g = (gp, g')"
  shows "(gp_is_valid gp \<longleftrightarrow> (\<exists>a. 1 \<le> a \<and> a \<le> 254 \<and> find_peer_actor g a = None))
    \<and> (gp_is_valid gp \<longrightarrow> 1 \<le> gp_actor_id gp \<and> gp_actor_id gp \<le> 254
         \<and> find_peer_actor g (gp_actor_id gp) = None
         \<and> (fst (add_peer wc h gp g') \<noteq> None \<longleftrightarrow> \<not> (g_is_creating g \<and> \<not> g_is_created g)
              \<and> \<not> (has_flag (g_flags g) (f_CheckUserOnJoin wc) \<and> user_present h user g)))"
proof -
  obtain found l where a: "alloc_actor 254 g (g_last_actor_id g) = (found, l)" by force
  have g': "g' = g\<lparr> g_last_actor_id := l \<rparr>"
    using assms(1,3) a by (auto simp: create_peer_def Let_def split: option.splits)
  have v: "gp_is_valid gp \<longleftrightarrow> found \<noteq> None"
  proof (cases found)
    case None
    with assms(1,3) a show ?thesis by (auto simp: create_peer_def gp_default_def gp_is_valid_def Let_def)
  next
    case (Some actor)
    have "1 \<le> actor" using alloc_actor_first [OF assms(2), of 254 g actor l] a Some by simp
    with Some assms(1,3) a show ?thesis
      by (auto simp: create_peer_def gp_default_def gp_is_valid_def Let_def)
  qed
  have none: "find_peer_actor g b \<noteq> None" if "found = None" "1 \<le> b" "b \<le> 254" for b
    using alloc_actor_none_full [OF assms(2), of g b] a that by simp
  have ok: "gp_is_valid gp \<Longrightarrow> 1 \<le> gp_actor_id gp \<and> gp_actor_id gp \<le> 254
      \<and> find_peer_actor g (gp_actor_id gp) = None \<and> gp_peer gp = Some r"
    using create_peer_actor [OF assms(3) _ assms(2)] by simp
  have ex: "gp_is_valid gp \<longleftrightarrow> (\<exists>a. 1 \<le> a \<and> a \<le> 254 \<and> find_peer_actor g a = None)"
  proof (cases "gp_is_valid gp")
    case True
    with ok show ?thesis by blast
  next
    case False
    with none v show ?thesis by blast
  qed
  have same: "find_peer_actor g' b = find_peer_actor g b" "user_present h u g' = user_present h u g" for b u
    by (simp_all add: g' find_peer_actor_def user_present_def)
  have "fst (add_peer wc h gp g') \<noteq> None \<longleftrightarrow> \<not> (g_is_creating g \<and> \<not> g_is_created g)
              \<and> \<not> (has_flag (g_flags g) (f_CheckUserOnJoin wc) \<and> user_present h user g)"
    if "gp_is_valid gp"
    using ok [OF that] assms(1) persistent_user_live [OF assms(1)]
    by (simp add: add_peer_def same Let_def) (simp add: g')
  with ex ok show ?thesis by blast
qed

lemma create_peer_complete_witness:
  "gp_is_valid (fst (create_peer sample_ops sample_codes sample_heap (Some 7) (new_game 0 [] [])))"
proof -
  let ?g = "new_game 0 [] [] :: sample_value game"
  obtain gp g' where c: "create_peer sample_ops sample_codes sample_heap (Some 7) ?g = (gp, g')" by force
  have "persistent_user sample_heap 7 = Some ''owner''" by (simp add: persistent_user_def sample_heap_def)
  moreover have "find_peer_actor ?g 1 = None" by (simp add: find_peer_actor_def new_game_def)
  ultimately show ?thesis
    using create_peer_complete [OF _ _ c] c by (simp add: new_game_def) force
qed

text \<open>
  Actor number 254 is handed out to joining peers, but a peer that held it
  can never rejoin with it: the two ways to create a member disagree on the
  upper end of the range.
\<close>

theorem actor_254_not_rejoinable:
  assumes "persistent_user h r = Some user" "g_last_actor_id g = 253" "find_peer_actor g 254 = None"
  shows "gp_actor_id (fst (create_peer vo wc h (Some r) g)) = 254
    \<and> gp_is_valid (fst (create_peer vo wc h (Some r) g))
    \<and> \<not> gp_is_valid (create_peer_for_actor vo wc h p 254 g')"
proof -
  have "alloc_actor (Suc n) g 253 = (Some 254, 254)" for n using assms(3) by simp
  from this [of 253] have "alloc_actor 254 g 253 = (Some 254, 254)" by simp
  with assms show ?thesis
    by (simp add: create_peer_def create_peer_for_actor_def gp_default_def gp_is_valid_def Let_def
        split: option.split)
qed

lemma actor_254_not_rejoinable_witness:
  "\<not> gp_is_valid (create_peer_for_actor sample_ops sample_codes sample_heap (Some 7) 254 (new_game 0 [] []))"
  by (rule actor_254_not_rejoinable [of sample_heap 7 "''owner''"
        "(new_game 0 [] [])\<lparr> g_last_actor_id := 253 \<rparr>", THEN conjunct2, THEN conjunct2])
    (simp_all add: persistent_user_def sample_heap_def find_peer_actor_def new_game_def)

section \<open>Removal\<close>

lemma last_actor_of_absent:
  "\<forall>gp\<in>set gps. lock h (gp_peer gp) \<noteq> Some r \<Longrightarrow> last_actor_of h r acc gps = acc"
  by (induction gps arbitrary: acc) (auto simp: last_actor_of_def)

lemma last_actor_of_member:
  "last_actor_of h r acc gps = acc \<or> (\<exists>gp\<in>set gps. lock h (gp_peer gp) = Some r
      \<and> last_actor_of h r acc gps = gp_actor_id gp)"
  by (induction gps arbitrary: acc) (force simp: last_actor_of_def)+




text \<open>
  The master is replaced only when it is the one that leaves: if the
  master's connection object is already gone when another member leaves, it is
  silently retired and the room keeps a master actor that no member has.
\<close>

theorem stale_master_not_replaced:
  assumes "member_inv g" "mp \<in> set (g_peers g)" "gp_actor_id mp = g_master_actor g"
    "lock h (gp_peer mp) = None" "remove_peer wc h (Some r) g = (ok, g', ts)"
  shows "g_master_actor g' = g_master_actor g \<and> \<not> has_peer_actor g' (g_master_actor g')"
proof -
  obtain l g1 where rl: "remove_loop wc h r 0 g = (l, g1)"
    and g': "g' = g1 \<or> (l \<noteq> 0 \<and> l = g_master_actor g1 \<and> g_peers g1 \<noteq> []
        \<and> g' = g1\<lparr> g_master_actor := gp_actor_id (hd (g_peers g1)) \<rparr>)"
    by (rule remove_peer_shape [OF assms(5)])
  note f = remove_loop_peers [OF rl]
  have inj: "gp \<in> set (g_peers g) \<Longrightarrow> gp_actor_id gp = g_master_actor g \<Longrightarrow> gp = mp" for gp
    using assms(1-3) inj_onD [of gp_actor_id "set (g_peers g)" gp mp]
    by (simp add: member_inv_def distinct_map)
  have "l \<noteq> g_master_actor g1 \<or> l = 0"
  proof (rule ccontr)
    assume "\<not> (l \<noteq> g_master_actor g1 \<or> l = 0)"
    then obtain gp where "gp \<in> set (g_peers g)" "lock h (gp_peer gp) = Some r" "gp_actor_id gp = g_master_actor g"
      using last_actor_of_member [of h r 0 "filter (leaves h r) (g_peers g)"] f by auto
    with inj assms(4) show False by auto
  qed
  with g' have "g' = g1" by auto
  moreover have "\<not> has_peer_actor g1 (g_master_actor g)"
    using f inj assms(4) by (auto simp: has_peer_actor_def leaves_def)
  ultimately show ?thesis using f by simp
qed

lemma stale_master_not_replaced_witness:
  "\<not> has_peer_actor (fst (snd (remove_peer sample_codes sample_heap (Some 7)
     ((new_game 0 [] [])\<lparr> g_peers := [gp_default\<lparr> gp_peer := Some 3, gp_actor_id := 1 \<rparr>,
        gp_default\<lparr> gp_peer := Some 7, gp_actor_id := 2 \<rparr>,
        gp_default\<lparr> gp_peer := Some 8, gp_actor_id := 3 \<rparr>] \<rparr> :: sample_value game)))) 1"
proof -
  let ?m = "gp_default\<lparr> gp_peer := Some 3, gp_actor_id := 1 \<rparr> :: sample_value game_peer"
  let ?g = "(new_game 0 [] [])\<lparr> g_peers := [?m, gp_default\<lparr> gp_peer := Some 7, gp_actor_id := 2 \<rparr>,
        gp_default\<lparr> gp_peer := Some 8, gp_actor_id := 3 \<rparr>] \<rparr>"
  obtain ok g' ts where r: "remove_peer sample_codes sample_heap (Some 7) ?g = (ok, g', ts)" by (metis prod_cases3)
  have i: "member_inv ?g" by (simp add: member_inv_def gp_default_def new_game_def)
  have "?m \<in> set (g_peers ?g)" "gp_actor_id ?m = g_master_actor ?g" "lock sample_heap (gp_peer ?m) = None"
    by (simp_all add: new_game_def sample_heap_def lock_def)
  from stale_master_not_replaced [OF i this r] have "\<not> has_peer_actor g' (g_master_actor g')"
    "g_master_actor g' = g_master_actor ?g" by auto
  moreover have "g_master_actor ?g = 1" by (simp add: new_game_def)
  ultimately have "\<not> has_peer_actor g' 1" by simp
  then show ?thesis unfolding r by simp
qed

end
