(* ===== verification/GameServerProps.thy ===== *)
theory GameServerProps
  imports GameServerInv GameProperties
begin

text \<open>
  Statements about the request handler: how a request that creates a room ends, what
  a refused join leaves behind, the load of a room after an admission, the room cache,
  and the service made of all handlers of a room.
\<close>

section \<open>How a creation ends\<close>

definition is_member :: "'v game \<Rightarrow> peer_ref \<Rightarrow> bool" where
  "is_member g r \<longleftrightarrow> (\<exists>gp\<in>set (g_peers g). gp_active gp \<and> gp_peer gp = Some r)"

definition restored :: "heap \<Rightarrow> 'v game \<Rightarrow> 'v game \<Rightarrow> bool" where
  "restored h g g' \<longleftrightarrow> live_config g' = live_config g \<and> \<not> g_is_creating g'
     \<and> set (g_expected_users g') = set (g_expected_users g)
     \<and> (\<forall>gp\<in>set (g_peers g'). lock h (gp_peer gp) = None)"

definition committed :: "'v game \<Rightarrow> peer_ref \<Rightarrow> bool" where
  "committed g r \<longleftrightarrow> g_is_created g \<and> \<not> g_is_creating g \<and> is_member g r"

definition unanswered :: "'v effect list \<Rightarrow> bool" where
  "unanswered fx \<longleftrightarrow> (\<forall>opc j. Joined opc j \<notin> set fx)"

lemma unanswered_simps [simp]:
  "unanswered []" "unanswered (fx @ fx') \<longleftrightarrow> unanswered fx \<and> unanswered fx'"
  "unanswered (Response opc c # fx) \<longleftrightarrow> unanswered fx" "unanswered (Disconnect # fx) \<longleftrightarrow> unanswered fx"
  "unanswered (LobbyUpdate # fx) \<longleftrightarrow> unanswered fx" "unanswered (LobbyDelete # fx) \<longleftrightarrow> unanswered fx"
  "unanswered (Thrown # fx) \<longleftrightarrow> unanswered fx" "\<not> unanswered (Joined opc j # fx)"
  "unanswered (scheduled ts)" "unanswered (lobby_effects lfx)" "unanswered (broadcast e ev g)"
  by (auto simp: unanswered_def scheduled_def lobby_effects_def broadcast_def split: lobby_effect.splits)

lemma member_view_is_member:
  fixes g g' :: "'a game"
  shows "member_view g' = member_view g \<Longrightarrow> is_member g' r = is_member g r"
proof -
  have m: "is_member g r \<longleftrightarrow> (\<exists>(p, a, act)\<in>set (fst (member_view g)). act \<and> p = Some r)" for g :: "'a game"
    by (auto simp: is_member_def member_view_def)
  show "member_view g' = member_view g \<Longrightarrow> is_member g' r = is_member g r" unfolding m by simp
qed

lemma find_peer_ref_member: "h r \<noteq> None \<Longrightarrow> find_peer_ref h g (Some r) \<noteq> None \<longleftrightarrow> is_member g r"
  by (auto simp: find_peer_ref_def is_member_def find_None_conv)

lemma quiet_committed: "quiet_view g' = quiet_view g \<Longrightarrow> committed g' r = committed g r"
  using member_view_is_member [of g' g r] by (auto simp: committed_def quiet_view_def lease_view_def)

text \<open>The transaction the handler holds: the lease, and the invariant since the start.\<close>

definition holding :: "'v server_env \<Rightarrow> peer_ref \<Rightarrow> u64 \<Rightarrow> 'v game \<Rightarrow> 'v game \<Rightarrow> bool" where
  "holding e r n g0 g \<longleftrightarrow> lease_held (se_heap e) (Some r) n g \<and> tx_inv g0 {} g"

lemma holding_stays:
  assumes "holding e r n g0 g" "stays k g g'" "room_inv (g, pend)" "within k g"
  shows "holding e r n g0 g'"
  using assms staysD [OF assms(2,3,4)] lease_held_view [of g' g] by (auto simp: holding_def stays_def)

lemma holding_quiet: "holding e r n g0 g \<Longrightarrow> quiet_view g' = quiet_view g \<Longrightarrow> holding e r n g0 g'"
  using quiet_tx_inv [of g' g] lease_held_view [of g' g] by (auto simp: holding_def quiet_view_def)

lemma holding_active: "holding e r n g0 g \<Longrightarrow> is_creation_active (se_heap e) (Some r) n g"
  by (simp add: holding_def creation_active_held)

lemma rollback_restores:
  assumes "holding e (hd_peer hs) n g0 g" "res_inv g0"
    "rollback_join e True n added hs g = (hs', g', o1)"
  shows "restored (se_heap e) g0 g' \<and> unanswered o1 \<and> hs' = hs\<lparr> hd_game_peer := False, hd_creation_game := False,
    hd_creation_generation := 0 \<rparr>"
proof -
  obtain g1 ts where a: "abort_creation_transaction (se_heap e) (Some (hd_peer hs)) n g = (True, g1, ts)"
    using abort_accepted [of "se_heap e" "Some (hd_peer hs)" n g] assms(1)
    by (auto simp: holding_def) (metis fst_conv prod_cases3)
  have t: "tx_inv g0 {} g" using assms(1) by (simp add: holding_def)
  have "restored (se_heap e) g0 g1"
    using abort_restores_config [OF a] tx_abort_reservations [OF t assms(2) a] t
    by (auto simp: restored_def tx_inv_def)
  with assms(3) a show ?thesis by (auto simp: rollback_join_def)
qed

lemma commit_ends:
  assumes "holding e (hd_peer hs) n g0 g" "res_inv g0" "se_heap e (hd_peer hs) \<noteq> None"
    "join_commit e disc True n opc actor added hs g = (hs', g', o1)"
  shows "(restored (se_heap e) g0 g' \<and> unanswered o1 \<or> committed g' (hd_peer hs)) \<and> \<not> hd_creation_game hs'"
proof (cases "disc 5")
  case True
  with assms(4) have "rollback_join e True n added hs g = (hs', g', o1)" by (simp add: join_commit_def)
  from rollback_restores [OF assms(1,2) this] show ?thesis by auto
next
  case False
  obtain ok g1 where c: "commit_creation (se_heap e) (Some (hd_peer hs)) n g = (ok, g1)" by force
  show ?thesis
  proof (cases ok)
    case no: False
    with False assms(4) c have "rollback_join e True n added hs g = (hs', g', o1)" by (simp add: join_commit_def)
    from rollback_restores [OF assms(1,2) this] show ?thesis by auto
  next
    case yes: True
    obtain hs2 g2 o2 where a: "join_answer e disc opc actor (get_actor_props (se_vo e) g)
        (hs\<lparr> hd_creation_game := False, hd_creation_generation := 0 \<rparr>) g1 = (hs2, g2, o2)" by (metis prod_cases3)
    note q = join_answer_moves [OF a]
    have "g_is_created g1 \<and> \<not> g_is_creating g1" "find_peer_ref (se_heap e) g (Some (hd_peer hs)) \<noteq> None"
      "member_view g1 = member_view g"
      using c yes by (auto simp: commit_creation_def member_view_def split: if_splits)
    then have "committed g1 (hd_peer hs)"
      using find_peer_ref_member [of "se_heap e" "hd_peer hs" g] assms(3) member_view_is_member [of g1 g]
      by (auto simp: committed_def)
    then have "committed g2 (hd_peer hs)" using quiet_committed q by blast
    with False yes assms(4) c a q show ?thesis by (auto simp: join_commit_def)
  qed
qed

lemma finish_ends:
  assumes "holding e (hd_peer hs) n g0 g" "res_inv g0" "se_heap e (hd_peer hs) \<noteq> None"
    "join_finish e disc True n opc p added hs g = (hs', g', o1)"
  shows "(restored (se_heap e) g0 g' \<and> unanswered o1 \<or> committed g' (hd_peer hs)) \<and> \<not> hd_creation_game hs'"
proof -
  define actor where "actor = (case find_peer_ref (se_heap e) g (Some (hd_peer hs)) of None \<Rightarrow> 0
      | Some gp \<Rightarrow> gp_actor_id gp)"
  obtain g1 fx where p: "join_props e True p actor g = (g1, fx)" by force
  have h1: "holding e (hd_peer hs) n g0 g1" by (rule holding_quiet [OF assms(1) join_props_quiet [OF p]])
  note split = assms(4) [unfolded join_finish_def Let_def, folded actor_def, unfolded p prod.case]
  consider "rollback_join e True n added hs g = (hs', g', o1)"
    | o2 where "rollback_join e True n added hs g1 = (hs', g', o2)" "o1 = lobby_effects fx @ o2"
    | o2 where "join_commit e disc True n opc actor added hs g1 = (hs', g', o2)" "o1 = lobby_effects fx @ o2"
    using split by (auto split: if_splits prod.splits)
  then show ?thesis
  proof cases
    case 1
    from rollback_restores [OF assms(1,2) this] show ?thesis by auto
  next
    case 2
    from rollback_restores [OF h1 assms(2) 2(1)] 2(2) show ?thesis by auto
  next
    case 3
    from commit_ends [OF h1 assms(2,3) 3(1)] 3(2) show ?thesis by auto
  qed
qed

lemma admit_handler:
  assumes "join_admit e disc is_master n opc p user hs g = (r, hs', g', o1)"
  shows "hd_peer hs' = hd_peer hs" "unanswered o1" "r = Inl (added, answer) \<Longrightarrow> unanswered answer"
    "r = Inr added \<Longrightarrow> hd_game_peer hs'"
  using assms by (auto simp: join_admit_def Let_def split: if_splits prod.splits option.splits)

lemma claimed_ends:
  assumes "holding e (hd_peer hs) n g0 g" "res_inv g0" "se_heap e (hd_peer hs) \<noteq> None" "n \<noteq> 0"
    "room_inv (g, pend)" "within (length (jp_expected_users p) + 1) g"
    "join_claimed e disc n opc p user hs g = (hs', g', o1)"
  shows "(restored (se_heap e) g0 g' \<and> unanswered o1 \<or> committed g' (hd_peer hs)) \<and> \<not> hd_creation_game hs'"
proof -
  define g1 where "g1 = apply_game_settings e p g"
  have q: "quiet_view g1 = quiet_view g" by (simp add: g1_def quiet)
  note h1 = holding_quiet [OF assms(1) q]
  obtain r hs2 g2 o2 where a: "join_admit e (disc 2) True n opc p user hs g1 = (r, hs2, g2, o2)" by (metis prod_cases4)
  have w1: "room_inv (g1, pend)" "within (length (jp_expected_users p) + 1) g1"
    using quiet_room_inv [OF q assms(5)] assms(6) quiet_load [OF q] by (simp_all add: within_def)
  have h2: "holding e (hd_peer hs2) n g0 g2"
    using holding_stays [OF h1 conjunct2 [OF join_admit_moves [OF a]] w1] admit_handler(1) [OF a] by simp
  have live: "se_heap e (hd_peer hs2) \<noteq> None" using assms(3) admit_handler(1) [OF a] by simp
  note split = assms(7) [unfolded join_claimed_def Let_def]
  consider "rollback_join e True n [] hs g = (hs', g', o1)"
    | "rollback_join e True n [] hs g1 = (hs', g', o1)"
    | added answer o3 where "r = Inl (added, answer)" "rollback_join e True n added hs2 g2 = (hs', g', o3)"
        "o1 = o2 @ o3 @ answer"
    | added o3 where "r = Inr added" "join_finish e disc True n opc p added hs2 g2 = (hs', g', o3)"
        "o1 = o2 @ LobbyUpdate # o3"
    using split assms(4) holding_active [OF assms(1)] holding_active [OF h1] a
    by (cases r) (auto simp: g1_def split: if_splits prod.splits)
  then show ?thesis
  proof cases
    case 1
    from rollback_restores [OF assms(1,2) this] show ?thesis by auto
  next
    case 2
    from rollback_restores [OF h1 assms(2) this] show ?thesis by auto
  next
    case (3 added answer o3)
    from rollback_restores [OF h2 assms(2) 3(2)] 3 admit_handler [OF a] show ?thesis by auto
  next
    case (4 added o3)
    from finish_ends [OF h2 assms(2) live 4(2)] 4(3) admit_handler [OF a] show ?thesis by auto
  qed
qed

lemma begin_holding:
  assumes "try_begin_creation (Some r) g = (n, g1)" "n \<noteq> 0" "se_heap e r \<noteq> None" "room_inv (g, pend)" "within k g"
  shows "holding e r n g g1" "room_inv (g1, pend)" "within k g1"
proof -
  have r0: "res_inv g" using assms(4) by (simp add: room_inv_def)
  note b = begin_tx_inv [OF assms(1,2) r0]
  have "g_is_creating g1" using b(1) by (simp add: tx_inv_def)
  then show "holding e r n g g1"
    using b assms(2,3) by (simp add: holding_def lease_held_def)
  note m = movesD [OF begin_moves [OF assms(1)] assms(4) within_mono [OF assms(5)]]
  show "room_inv (g1, pend)" "within k g1"
    using m assms(5) by (simp_all add: within_def)
qed

section \<open>A sample service\<close>

definition sample_handler_codes :: "sample_value handler_codes" where
  "sample_handler_codes = \<lparr> hc_CleanupCacheOnLeave = 32, hc_SuppressRoomEvents = 64, hc_SuppressPlayerInfo = 128,
     hc_cache_AddToRoomCache = 4, hc_cache_AddToRoomCacheGlobal = 5, hc_cache_RemoveFromRoomCache = 6,
     hc_cache_RemoveFromCacheForActorsLeft = 7, hc_ev_Join = 255, hc_ev_Leave = 254,
     hc_op_CreateGame = 227, hc_op_JoinGame = 226, hc_op_RaiseEvent = 253, hc_op_SetProperties = 252,
     hc_op_Leave = 251, hc_dk_ActorList = 252, hc_dk_MasterClientId = 203, hc_dk_ActorProperties = 249,
     hc_err_NotAllowed = - 3, hc_err_OperationInvalid = - 2, hc_of_i32s = (\<lambda>_. SNull) \<rparr>"

definition sample_env :: "sample_value server_env" where
  "sample_env = \<lparr> se_vo = sample_ops, se_wc = sample_codes, se_hc = sample_handler_codes,
     se_cfg = default_app_settings, se_ser = (\<lambda>_ _. None), se_heap = sample_heap \<rparr>"

definition sample_join :: "sample_value join_params" where
  "sample_join = \<lparr> jp_game_id = [], jp_mode = 0, jp_expected_users = [''guest''], jp_game_props = None,
     jp_actor_props = None, jp_player_ttl = None, jp_empty_ttl = None, jp_flags = None, jp_check_user = None,
     jp_suppress_events = None, jp_publish_user_id = None \<rparr>"

definition new_handler :: "peer_ref \<Rightarrow> 'v handler" where
  "new_handler r = \<lparr> hd_peer = r, hd_current = True, hd_game_peer = False, hd_has_left = False,
     hd_disconnected = False, hd_creation_generation = 0, hd_creation_game = False, hd_pending_join = None \<rparr>"

section \<open>Creating a room\<close>

text \<open>
  C2: A request to create a room ends in one of two ways: the room is created with the
  peer as a member, or nothing of the attempt is left: every field of the room is as
  before, the same users are reserved, no connected peer was let in, and the request
  was not answered as joined. Either way the room is not left in creation and the handler
  holds no creation, whenever the connection breaks while the request runs.
\<close>

theorem join_creates_or_restores:
  assumes "room_inv (g, pend)" "within (length (jp_expected_users p) + 1) g"
    "\<not> g_is_created g" "\<not> g_is_creating g" "se_heap e (hd_peer hs) \<noteq> None" "\<not> hd_creation_game hs"
    "handle_join e disc opc p user hs g = (hs', g', o1)"
  shows "committed g' (hd_peer hs) \<and> \<not> hd_creation_game hs'
    \<or> live_config g' = live_config g \<and> \<not> g_is_creating g' \<and> \<not> hd_creation_game hs'
       \<and> set (g_expected_users g') = set (g_expected_users g) \<and> unanswered o1
       \<and> (\<forall>gp\<in>set (g_peers g'). gp \<notin> set (g_peers g) \<longrightarrow> lock (se_heap e) (gp_peer gp) = None)"
  using assms(7)
proof (cases rule: handle_join_cases)
  case early
  with assms(4,6) show ?thesis by (simp add: unanswered_def)
next
  case (claimed n g1 hs1)
  have n: "n \<noteq> 0"
    using claimed(4,5) assms(3) begin_zero by blast
  have r0: "res_inv g" using assms(1) by (simp add: room_inv_def)
  have hs1: "hd_peer hs1 = hd_peer hs" by (simp add: claimed(6))
  note b = begin_holding [OF claimed(4) n assms(5,1,2)]
  from claimed_ends [OF _ r0 _ n b(2,3) claimed(7)] b(1) hs1 assms(5) show ?thesis
    by (auto simp: restored_def)
qed

lemma join_creates_or_restores_witness:
  "\<not> hd_creation_game (fst (handle_join sample_env (\<lambda>_. False) 227 sample_join ''owner'' (new_handler 7) (new_game 0 [] [])))"
proof -
  let ?g = "new_game 0 [] [] :: sample_value game"
  obtain hs' g' o1 where j: "handle_join sample_env (\<lambda>_. False) 227 sample_join ''owner'' (new_handler 7) ?g
      = (hs', g', o1)" by (metis prod_cases3)
  have "within (length (jp_expected_users sample_join) + 1) ?g"
    by (simp add: within_def room_load_def new_game_def sample_join_def)
  from join_creates_or_restores [OF new_room_inv this _ _ _ _ j] j show ?thesis
    by (auto simp: new_game_def new_handler_def sample_env_def sample_heap_def)
qed

section \<open>Reservations of a join\<close>

lemma reserve_frame:
  assumes "reserve_expected_user_with_generation u ttl g = (r, g', ts)"
  shows "g_peers g' = g_peers g" "g_dummy_peer_count g' = g_dummy_peer_count g"
    "g_retired_peers g' = g_retired_peers g"
  using assms by (cases rule: reserve_cases [of u g ttl]; auto)+

lemma reserve_expected_spec:
  assumes "reserve_expected e peer user us g = (g', added, ts)"
  shows "g_peers g' = g_peers g" "g_dummy_peer_count g' = g_dummy_peer_count g"
    "g_retired_peers g' = g_retired_peers g"
    "g_expected_users g' = g_expected_users g @ map fst added"
    "map_of (g_expected_user_generations g') = map_of (g_expected_user_generations g) ++ map_of added"
    "distinct (map fst added)" "set (map fst added) \<subseteq> {u \<in> set us. u \<noteq> [] \<and> u \<noteq> user \<and> u \<notin> set (g_expected_users g)}"
proof -
  have "(g_peers g' = g_peers g \<and> g_dummy_peer_count g' = g_dummy_peer_count g \<and> g_retired_peers g' = g_retired_peers g)
    \<and> g_expected_users g' = g_expected_users g @ map fst added
    \<and> map_of (g_expected_user_generations g') = map_of (g_expected_user_generations g) ++ map_of added
    \<and> distinct (map fst added)
    \<and> set (map fst added) \<subseteq> {u \<in> set us. u \<noteq> [] \<and> u \<noteq> user \<and> u \<notin> set (g_expected_users g)}"
    using assms
  proof (induction us arbitrary: g g' added ts)
    case (Cons u us)
    show ?case
    proof (cases "u = [] \<or> u = user \<or> find_peer_ref (se_heap e) g (Some peer) \<noteq> None")
      case True
      with Cons.prems have "reserve_expected e peer user us g = (g', added, ts)" by auto
      from Cons.IH [OF this] show ?thesis by auto
    next
      case False
      obtain r g1 ts1 where r: "reserve_expected_user_with_generation u 30000 g = (r, g1, ts1)" by (metis prod_cases3)
      obtain g2 added2 ts2 where i: "reserve_expected e peer user us g1 = (g2, added2, ts2)" by (metis prod_cases3)
      from Cons.prems False r i have e: "g' = g2" "added = (case r of None \<Rightarrow> added2 | Some n \<Rightarrow> (u, n) # added2)"
        by (auto split: option.splits)
      note IH = Cons.IH [OF i]
      show ?thesis
      proof (cases rule: reserve_cases [of u g 30000])
        case refused
        with r have "g1 = g" "r = None" by auto
        with IH e show ?thesis by auto
      next
        case (made n)
        with r have g1: "g1 = add_reservation u n g" "r = Some n" by auto
        have new: "u \<notin> fst ` set added2" using IH by (auto simp: g1)
        have "map_of (g_expected_user_generations g') = (map_of (g_expected_user_generations g))(u \<mapsto> n) ++ map_of added2"
          using IH e(1) by (simp add: g1 fun_upd_def)
        also have "\<dots> = map_of (g_expected_user_generations g) ++ map_of added"
        proof (rule ext)
          fix v
          have "map_of added2 u = None" using new by (simp add: map_of_eq_None_iff)
          moreover have "added = (u, n) # added2" using e(2) by (simp add: g1)
          ultimately show "((map_of (g_expected_user_generations g))(u \<mapsto> n) ++ map_of added2) v
              = (map_of (g_expected_user_generations g) ++ map_of added) v"
            by (cases "v = u") (simp_all add: map_add_def split: option.split)
        qed
        finally have gens: "map_of (g_expected_user_generations g') = map_of (g_expected_user_generations g) ++ map_of added" .
        have "(g_peers g' = g_peers g \<and> g_dummy_peer_count g' = g_dummy_peer_count g \<and> g_retired_peers g' = g_retired_peers g)
            \<and> g_expected_users g' = g_expected_users g @ map fst added \<and> distinct (map fst added)"
          using IH e new by (simp add: g1)
        moreover have "set (map fst added) \<subseteq> {v \<in> set (u # us). v \<noteq> [] \<and> v \<noteq> user \<and> v \<notin> set (g_expected_users g)}"
          using IH e False made(2) by (auto simp: g1)
        ultimately show ?thesis using gens by blast
      qed
    qed
  qed simp
  then show "g_peers g' = g_peers g" "g_dummy_peer_count g' = g_dummy_peer_count g"
    "g_retired_peers g' = g_retired_peers g"
    "g_expected_users g' = g_expected_users g @ map fst added"
    "map_of (g_expected_user_generations g') = map_of (g_expected_user_generations g) ++ map_of added"
    "distinct (map fst added)" "set (map fst added) \<subseteq> {u \<in> set us. u \<noteq> [] \<and> u \<noteq> user \<and> u \<notin> set (g_expected_users g)}"
    by simp_all
qed

lemma create_peer_dummy:
  "create_peer vo wc h p g = (gp, g') \<Longrightarrow> g_dummy_peer_count g' = g_dummy_peer_count g"
  by (auto simp: create_peer_def Let_def split: option.splits prod.splits)

lemma create_peer_ref:
  "create_peer vo wc h (Some r) g = (gp, g') \<Longrightarrow> gp_is_valid gp \<Longrightarrow> gp_peer gp = Some r \<and> gp_active gp"
  by (auto simp: create_peer_def gp_is_valid_def gp_default_def Let_def split: option.splits prod.splits)

text \<open>An admission: the member is added and the reservation of its user is used up.\<close>

lemma admitted_room:
  assumes "join_admit e disc is_master n opc p user hs g = (Inr added, hs', g', o1)"
    "persistent_user (se_heap e) (hd_peer hs) = Some user"
  obtains g2 gp ts g1 where
    "validate_join (se_wc e) (se_cfg e) (se_heap e) user (jp_expected_users p) is_master g = err_Ok (se_wc e)"
    "reserve_expected e (hd_peer hs) user (jp_expected_users p) g = (g1, added, ts)"
    "g_peers g2 = g_peers g1" "g_expected_users g2 = g_expected_users g1"
    "g_expected_user_generations g2 = g_expected_user_generations g1" "g_dummy_peer_count g2 = g_dummy_peer_count g1"
    "g_retired_peers g2 = g_retired_peers g1" "gp_peer gp = Some (hd_peer hs)" "gp_active gp"
    "g' = remove_expected_user user (g2\<lparr> g_peers := g_peers g2 @ [gp] \<rparr>)" "hs' = hs\<lparr> hd_game_peer := True \<rparr>"
  using assms(1)
proof (cases rule: join_admit_cases)
  case (stages g1 added2 ts gp g2)
  from stages(5) obtain x where x: "(if is_master
      then add_peer_for_creation (se_wc e) (se_heap e) gp (Some (hd_peer hs)) n g2
      else add_peer (se_wc e) (se_heap e) gp g2) = (Some x, g')" and v: "gp_is_valid gp"
    and a: "added2 = added" "hs' = hs\<lparr> hd_game_peer := True \<rparr>"
    by (auto split: option.splits)
  note c = create_peer_ref [OF stages(3) v]
  have "g' = remove_expected_user user (g2\<lparr> g_peers := g_peers g2 @ [gp\<lparr> gp_owner_game := Some (g_ref g2) \<rparr>] \<rparr>)"
    using x c assms(2)
    by (cases is_master; cases rule: add_peer_cases [of "se_wc e" "se_heap e" gp g2];
      cases rule: add_peer_for_creation_cases [of "se_wc e" "se_heap e" gp "Some (hd_peer hs)" n g2]) auto
  with that [OF stages(1) stages(2) [unfolded a(1)] create_peer_frame(1,3,4) [OF stages(3)]
      create_peer_dummy [OF stages(3)] create_peer_frame(2) [OF stages(3)] _ _ this a(2)] c
  show ?thesis by simp
qed simp

section \<open>The load of a room\<close>

text \<open>
  C4: Admission never overloads a room. After a join is admitted, with the reservations
  it made for other users, the members, the dummies and the reserved places together stay
  within the room's own limit, the application's limit and the 254 actor numbers; the room
  was open, and the peer is a member of it.
\<close>

theorem admission_within_capacity:
  assumes "codes_laws (se_wc e)" "persistent_user (se_heap e) (hd_peer hs) = Some user"
    "join_admit e disc is_master n opc p user hs g = (Inr added, hs', g', o1)"
    "load = length (g_peers g') + unat (g_dummy_peer_count g') + length (g_expected_users g')"
  shows "load \<le> 254 \<and> (0 < g_max_peers g \<longrightarrow> load \<le> unat (g_max_peers g))
    \<and> (as_max_peers_per_game (se_cfg e) \<noteq> 0 \<longrightarrow> load \<le> unat (as_max_peers_per_game (se_cfg e)))
    \<and> g_is_open g \<and> is_member g' (hd_peer hs)"
proof -
  obtain g2 gp ts g1 where v: "validate_join (se_wc e) (se_cfg e) (se_heap e) user (jp_expected_users p) is_master g
      = err_Ok (se_wc e)"
    and res: "reserve_expected e (hd_peer hs) user (jp_expected_users p) g = (g1, added, ts)"
    and g2: "g_peers g2 = g_peers g1" "g_expected_users g2 = g_expected_users g1"
      "g_dummy_peer_count g2 = g_dummy_peer_count g1"
    and gp: "gp_peer gp = Some (hd_peer hs)" "gp_active gp"
    and g': "g' = remove_expected_user user (g2\<lparr> g_peers := g_peers g2 @ [gp] \<rparr>)"
    by (rule admitted_room [OF assms(3,2)])
  note s = reserve_expected_spec [OF res]
  have "set (map fst added) \<subseteq> set (unique_expected user (jp_expected_users p) g)"
    using s(7) by (auto simp: unique_expected_def)
  then have "card (set (map fst added)) \<le> card (set (unique_expected user (jp_expected_users p) g))"
    by (intro card_mono) auto
  then have few: "length added \<le> length (unique_expected user (jp_expected_users p) g)"
    using distinct_card [OF s(6)] card_length [of "unique_expected user (jp_expected_users p) g"] by simp
  have "user \<notin> set (map fst added)" using s(7) by auto
  moreover have "0 < length (g_expected_users g)" if "user \<in> set (g_expected_users g)"
    using that by (rule length_pos_if_in_set)
  ultimately have "load \<le> final_peer_count user (length (unique_expected user (jp_expected_users p) g)) g"
    using few s(1,2,4) g2 by (auto simp: assms(4) g' final_peer_count_def needed_slots_def length_remove1)
  then show ?thesis
    using v assms(1) gp
    by (auto simp: validate_join_def validate_join_count_def codes_laws_def Let_def g' is_member_def split: if_splits)
qed

lemma admission_within_capacity_witness:
  "is_member (fst (snd (snd (join_admit sample_env False True 1 227 sample_join ''owner'' (new_handler 7)
     (snd (try_begin_creation (Some 7) (new_game 0 [] []))))))) 7"
proof -
  let ?g = "snd (try_begin_creation (Some 7) (new_game 0 [] [] :: sample_value game))"
  have ok: "case fst (join_admit sample_env False True 1 227 sample_join ''owner'' (new_handler 7) ?g) of
      Inl _ \<Rightarrow> False | Inr _ \<Rightarrow> True"
    by code_simp
  obtain r hs' g' o1 where j: "join_admit sample_env False True 1 227 sample_join ''owner'' (new_handler 7) ?g
      = (r, hs', g', o1)" by (metis prod_cases4)
  with ok obtain added where "r = Inr added" by (auto split: sum.splits)
  with j have "join_admit sample_env False True 1 227 sample_join ''owner'' (new_handler 7) ?g
      = (Inr added, hs', g', o1)" by simp
  from admission_within_capacity [OF _ _ this refl] j sample_codes_laws show ?thesis
    by (simp add: sample_env_def new_handler_def persistent_user_def sample_heap_def)
qed

section \<open>A refused join\<close>

definition live_members :: "heap \<Rightarrow> 'v game \<Rightarrow> (peer_ref option \<times> int) list" where
  "live_members h g = map (\<lambda>gp. (gp_peer gp, gp_actor_id gp)) (filter (\<lambda>gp. lock h (gp_peer gp) \<noteq> None) (g_peers g))"

lemma live_members_view:
  fixes g g' :: "'a game"
  assumes "member_view g' = member_view g"
  shows "live_members h g' = live_members h g"
proof -
  have m: "live_members h g = map (\<lambda>(p, a, act). (p, a)) (filter (\<lambda>(p, a, act). lock h p \<noteq> None) (fst (member_view g)))"
    for g :: "'a game"
    by (simp add: live_members_def member_view_def filter_map o_def)
  show ?thesis unfolding m assms ..
qed

lemma remove_peer_members:
  assumes "remove_peer wc h (Some r) g = (b, g', ts)"
  shows "g_peers g' = filter (\<lambda>gp. \<not> leaves h r gp) (g_peers g)"
    "g_expected_user_generations g' = g_expected_user_generations g" "res_inv g' = res_inv g"
proof -
  obtain l g1 where l: "remove_loop wc h r 0 g = (l, g1)"
    and g': "g' = g1 \<or> g' = g1\<lparr> g_master_actor := gp_actor_id (hd (g_peers g1)) \<rparr>"
    by (rule remove_peer_shape [OF assms]) blast
  note p = remove_loop_peers [OF l]
  show "g_peers g' = filter (\<lambda>gp. \<not> leaves h r gp) (g_peers g)"
    "g_expected_user_generations g' = g_expected_user_generations g"
    using p g' by auto
  show "res_inv g' = res_inv g" by (rule res_inv_same) (use p g' in auto)
qed

lemma rollback_guest:
  assumes "rollback_join e False n added hs g = (hs', g', o1)" "res_inv g"
  shows "map_of (g_expected_user_generations g') u = (case map_of (g_expected_user_generations g) u of None \<Rightarrow> None
      | Some m \<Rightarrow> if (u, m) \<in> set added then None else Some m)"
    "g_peers g' = (if hd_game_peer hs then filter (\<lambda>gp. \<not> leaves (se_heap e) (hd_peer hs) gp) (g_peers g) else g_peers g)"
    "unanswered o1" "res_inv g'" "hs' = hs\<lparr> hd_game_peer := False \<rparr>"
proof -
  obtain b g1 ts where r: "(if hd_game_peer hs then remove_peer (se_wc e) (se_heap e) (Some (hd_peer hs)) g
      else (False, g, [])) = (b, g1, ts)" by (metis prod_cases3)
  have g1: "g_expected_user_generations g1 = g_expected_user_generations g" "res_inv g1"
    "g_peers g1 = (if hd_game_peer hs then filter (\<lambda>gp. \<not> leaves (se_heap e) (hd_peer hs) gp) (g_peers g) else g_peers g)"
    using r remove_peer_members [of "se_wc e" "se_heap e" "hd_peer hs" g b g1 ts] assms(2) by (auto split: if_splits)
  have g': "g' = abort_drop_owned added g1" "unanswered o1" "hs' = hs\<lparr> hd_game_peer := False \<rparr>"
    using assms(1) r by (auto simp: rollback_join_def)
  obtain x y where "g' = g1\<lparr> g_expected_user_generations := x, g_expected_users := y \<rparr>"
    using abort_drop_owned_shape g'(1) by blast
  with g1 show "g_peers g' = (if hd_game_peer hs then filter (\<lambda>gp. \<not> leaves (se_heap e) (hd_peer hs) gp) (g_peers g) else g_peers g)"
    by simp
  note d = abort_drop_owned_res [OF g1(2), of added]
  show "map_of (g_expected_user_generations g') u = (case map_of (g_expected_user_generations g) u of None \<Rightarrow> None
      | Some m \<Rightarrow> if (u, m) \<in> set added then None else Some m)"
    using d by (simp add: g'(1) g1(1))
  show "unanswered o1" "res_inv g'" "hs' = hs\<lparr> hd_game_peer := False \<rparr>" using g' d by auto
qed

lemma dropped_gens:
  assumes "distinct (map fst added)" "\<And>u. u \<in> fst ` set added \<Longrightarrow> m u = None"
    "\<And>u. m' u = (case ((m ++ map_of added)(v := w)) u of None \<Rightarrow> None
      | Some n \<Rightarrow> if (u, n) \<in> set added then None else Some n)" "v \<notin> fst ` set added"
  shows "m' = m(v := w)"
proof (rule ext)
  fix u
  show "m' u = (m(v := w)) u"
  proof (cases "u \<in> fst ` set added")
    case True
    then obtain n where "(u, n) \<in> set added" by auto
    with assms(1) have "map_of added u = Some n" by (rule map_of_is_SomeI)
    with assms(2) [OF True] assms(3,4) True \<open>(u, n) \<in> set added\<close> show ?thesis
      by (auto simp: map_add_def)
  next
    case False
    then have "map_of added u = None" "\<And>n. (u, n) \<notin> set added"
      by (auto simp: map_of_eq_None_iff image_iff)
    with assms(3) show ?thesis by (auto simp: map_add_def split: option.split)
  qed
qed

lemma refused_admission:
  assumes "join_admit e disc is_master n opc p user hs g = (Inl (added, answer), hs', g', o1)"
  shows "g_peers g' = g_peers g"
    "map_of (g_expected_user_generations g') = map_of (g_expected_user_generations g) ++ map_of added"
    "distinct (map fst added)" "set (map fst added) \<inter> set (g_expected_users g) = {}"
    "hd_game_peer hs' \<longrightarrow> hd_game_peer hs" "user \<notin> set (map fst added)"
proof -
  have "(g_peers g' = g_peers g
    \<and> map_of (g_expected_user_generations g') = map_of (g_expected_user_generations g) ++ map_of added)
    \<and> distinct (map fst added) \<and> set (map fst added) \<inter> set (g_expected_users g) = {}
    \<and> (hd_game_peer hs' \<longrightarrow> hd_game_peer hs) \<and> user \<notin> set (map fst added)"
    using assms
  proof (cases rule: join_admit_cases)
    case (stages g1 added2 ts gp g2)
    note s = reserve_expected_spec [OF stages(2)] and f = create_peer_frame [OF stages(3)]
    have "added2 = added \<and> (hd_game_peer hs' \<longrightarrow> hd_game_peer hs)" "g' = g2"
      using stages(5)
      by (cases is_master; cases rule: add_peer_cases [of "se_wc e" "se_heap e" gp g2];
        cases rule: add_peer_for_creation_cases [of "se_wc e" "se_heap e" gp "Some (hd_peer hs)" n g2];
        force split: option.splits)+
    with s f show ?thesis by auto
  qed auto
  then show "g_peers g' = g_peers g"
    "map_of (g_expected_user_generations g') = map_of (g_expected_user_generations g) ++ map_of added"
    "distinct (map fst added)" "set (map fst added) \<inter> set (g_expected_users g) = {}"
    "hd_game_peer hs' \<longrightarrow> hd_game_peer hs" "user \<notin> set (map fst added)" by blast+
qed

lemma others_stay:
  fixes g g2 g' :: "'a game"
  assumes "\<not> is_member g r" "member_inv g" "h r \<noteq> None" "gp_peer gp = Some r"
    "member_view g2 = member_view (g\<lparr> g_peers := g_peers g @ [gp] \<rparr>)"
    "g_peers g' = filter (\<lambda>gp. \<not> leaves h r gp) (g_peers g2)"
  shows "live_members h g' = live_members h g" "\<not> is_member g' r"
proof -
  let ?g = "g\<lparr> g_peers := g_peers g @ [gp] \<rparr>"
  have no: "\<forall>gp\<in>set (g_peers g). gp_peer gp \<noteq> Some r"
    using assms(1,2) by (auto simp: is_member_def member_inv_def)
  have l: "lock h (gp_peer gp) \<noteq> None \<and> \<not> leaves h r gp \<longleftrightarrow> lock h (gp_peer gp) \<noteq> None \<and> gp_peer gp \<noteq> Some r"
    for gp :: "'a game_peer"
    using assms(3) by (auto simp: leaves_def)
  have filt: "live_members h g' = filter (\<lambda>(p, a). p \<noteq> Some r) (live_members h g2)"
    unfolding live_members_def assms(6) filter_filter filter_map o_def prod.case
    by (rule arg_cong [of _ _ "map _"], rule filter_cong) (use l in auto)
  have "live_members h g2 = live_members h ?g" by (rule live_members_view [OF assms(5)])
  also have "filter (\<lambda>(p, a). p \<noteq> Some r) (live_members h ?g) = live_members h g"
    using no assms(3,4)
    by (auto simp: live_members_def filter_map o_def intro!: arg_cong [of _ _ "map _"] filter_cong)
  finally show "live_members h g' = live_members h g" using filt by simp
  show "\<not> is_member g' r" using assms(3) by (auto simp: is_member_def assms(6) leaves_def)
qed

lemma same_gens_users:
  assumes "res_inv g" "res_inv g'" "map_of (g_expected_user_generations g') = (map_of (g_expected_user_generations g))(u := w)"
  shows "w = None \<Longrightarrow> set (g_expected_users g') = set (g_expected_users g) - {u}"
    "w = map_of (g_expected_user_generations g) u \<Longrightarrow> set (g_expected_users g') = set (g_expected_users g)"
  using assms by (auto simp: res_inv_def)

text \<open>What a join of an existing room that did not go through may have changed.\<close>

definition untouched :: "heap \<Rightarrow> peer_ref \<Rightarrow> string \<Rightarrow> 'v game \<Rightarrow> 'v game \<Rightarrow> bool" where
  "untouched h r user g g' \<longleftrightarrow> live_members h g' = live_members h g \<and> \<not> is_member g' r
     \<and> set (g_expected_users g') \<in> {set (g_expected_users g), set (g_expected_users g) - {user}}"

lemma refused_finish:
  assumes "join_finish e disc False n opc p added hs g2 = (hs', g', o1)" "unanswered o1" "\<not> disc 6"
    "hd_game_peer hs" "hd_peer hs = r" "se_heap e r \<noteq> None"
    "member_inv g" "\<not> is_member g r" "res_inv g" "res_inv g2" "gp_peer gp = Some r"
    "member_view g2 = member_view (g\<lparr> g_peers := g_peers g @ [gp] \<rparr>)"
    "map_of (g_expected_user_generations g2) = (map_of (g_expected_user_generations g) ++ map_of added)(user := None)"
    "distinct (map fst added)" "set (map fst added) \<inter> set (g_expected_users g) = {}" "user \<notin> set (map fst added)"
  shows "untouched (se_heap e) r user g g'"
proof -
  have undone: "untouched (se_heap e) r user g g'"
    if b: "rollback_join e False n added hs g3 = (hs', g', o3)" and q: "quiet_view g3 = quiet_view g2" for g3 o3
  proof -
    have view: "member_view g3 = member_view g2" "res_view g3 = res_view g2" using q by (auto simp: quiet_view_def)
    have r3: "res_inv g3" using res_inv_view [OF view(2)] assms(10) by simp
    note rb = rollback_guest [OF b r3]
    have "g_peers g' = filter (\<lambda>gp. \<not> leaves (se_heap e) r gp) (g_peers g3)" using rb(2) assms(4,5) by simp
    note l = others_stay [OF assms(8,7,6,11) _ this, unfolded view(1), OF assms(12)]
    have "map_of (g_expected_user_generations g') = (map_of (g_expected_user_generations g))(user := None)"
    proof (rule dropped_gens [OF assms(14)])
      show "map_of (g_expected_user_generations g) u = None" if "u \<in> fst ` set added" for u
        using that assms(9,15) by (auto simp: res_inv_def)
      show "user \<notin> fst ` set added" using assms(16) by simp
      show "map_of (g_expected_user_generations g') u =
          (case ((map_of (g_expected_user_generations g) ++ map_of added)(user := None)) u of None \<Rightarrow> None
           | Some m \<Rightarrow> if (u, m) \<in> set added then None else Some m)" for u
        using rb(1) view(2) assms(13) by (simp add: res_view_def)
    qed
    with same_gens_users(1) [OF assms(9) rb(4) this] l show ?thesis by (simp add: untouched_def)
  qed
  define actor where "actor = (case find_peer_ref (se_heap e) g2 (Some (hd_peer hs)) of None \<Rightarrow> 0
      | Some gp \<Rightarrow> gp_actor_id gp)"
  obtain g3 fx where p: "join_props e False p actor g2 = (g3, fx)" by force
  note split = assms(1) [unfolded join_finish_def Let_def, folded actor_def, unfolded p prod.case]
  consider "rollback_join e False n added hs g2 = (hs', g', o1)"
    | o3 where "rollback_join e False n added hs g3 = (hs', g', o3)"
    | o3 where "join_commit e disc False n opc actor added hs g3 = (hs', g', o3)" "o1 = lobby_effects fx @ o3"
    using split by (auto split: if_splits prod.splits)
  then show ?thesis
  proof cases
    case 1
    then show ?thesis by (rule undone) simp
  next
    case 2
    then show ?thesis by (rule undone) (rule join_props_quiet [OF p])
  next
    case 3
    with assms(2,3,4) have False
      by (auto simp: join_commit_def join_answer_def join_respond_def Let_def split: prod.splits)
    then show ?thesis ..
  qed
qed

lemma refused_claimed:
  assumes "room_inv (g, pend)" "within (length (jp_expected_users p) + 1) g" "\<not> hd_game_peer hs" "hd_peer hs = r"
    "se_heap e r \<noteq> None" "persistent_user (se_heap e) r = Some user" "\<not> is_member g r" "\<not> disc 6"
    "join_claimed e disc 0 opc p user hs g = (hs', g', o1)" "unanswered o1"
  shows "untouched (se_heap e) r user g g'"
proof -
  have i: "member_inv g" "res_inv g" using assms(1) by (auto simp: room_inv_def)
  obtain x hs2 g2 o2 where a: "join_admit e (disc 2) False 0 opc p user hs g = (x, hs2, g2, o2)" by (metis prod_cases4)
  have r2: "res_inv g2"
    using movesD(1) [OF conjunct1 [OF join_admit_moves [OF a]] assms(1,2)] by (simp add: room_inv_def)
  note split = assms(9) [unfolded join_claimed_def Let_def]
  consider o3 where "rollback_join e False 0 [] hs g = (hs', g', o3)"
    | added answer o3 where "x = Inl (added, answer)" "rollback_join e False 0 added hs2 g2 = (hs', g', o3)"
    | added o3 where "x = Inr added" "join_finish e disc False 0 opc p added hs2 g2 = (hs', g', o3)"
        "o1 = o2 @ LobbyUpdate # o3"
    using split a by (cases x) (auto split: if_splits prod.splits)
  then show ?thesis
  proof cases
    case 1
    note rb = rollback_guest [OF 1 i(2)]
    have "map_of (g_expected_user_generations g') = (map_of (g_expected_user_generations g))
        (user := map_of (g_expected_user_generations g) user)"
      using rb(1) by (auto simp: fun_eq_iff split: option.split)
    from same_gens_users(2) [OF i(2) rb(4) this] rb(2) assms(3,7) show ?thesis
      by (simp add: untouched_def live_members_def is_member_def)
  next
    case (2 added answer o3)
    note f = refused_admission [OF a [unfolded 2(1)]] and rb = rollback_guest [OF 2(2) r2]
    have no: "u \<in> fst ` set added \<Longrightarrow> map_of (g_expected_user_generations g) u = None" for u
      using f(4) i(2) by (auto simp: res_inv_def)
    have "map_of (g_expected_user_generations g') = (map_of (g_expected_user_generations g))
        (user := map_of (g_expected_user_generations g) user)"
    proof (rule dropped_gens [OF f(3) no])
      have "map_of added user = None" using f(6) by (simp add: map_of_eq_None_iff)
      then have "(map_of (g_expected_user_generations g) ++ map_of added)(user := map_of (g_expected_user_generations g) user)
          = map_of (g_expected_user_generations g) ++ map_of added"
        by (simp add: fun_eq_iff map_add_def)
      then show "map_of (g_expected_user_generations g') u =
          (case ((map_of (g_expected_user_generations g) ++ map_of added)
             (user := map_of (g_expected_user_generations g) user)) u of None \<Rightarrow> None
           | Some m \<Rightarrow> if (u, m) \<in> set added then None else Some m)" for u
        using rb(1) f(2) by simp
    qed (use f(6) in auto)
    from same_gens_users(2) [OF i(2) rb(4) this] rb(2) f(1,5) assms(3,7) show ?thesis
      by (auto simp: untouched_def live_members_def is_member_def)
  next
    case (3 added o3)
    have "persistent_user (se_heap e) (hd_peer hs) = Some user" using assms(4,6) by simp
    then obtain g3 gp ts g1 where res: "reserve_expected e (hd_peer hs) user (jp_expected_users p) g = (g1, added, ts)"
      and g3: "g_peers g3 = g_peers g1" "g_expected_user_generations g3 = g_expected_user_generations g1"
      and ret: "g_retired_peers g3 = g_retired_peers g1" and gp: "gp_peer gp = Some (hd_peer hs)"
      and g2: "g2 = remove_expected_user user (g3\<lparr> g_peers := g_peers g3 @ [gp] \<rparr>)" "hs2 = hs\<lparr> hd_game_peer := True \<rparr>"
      by (rule admitted_room [OF a [unfolded 3(1)]])
    note s = reserve_expected_spec [OF res]
    show ?thesis
    proof (rule refused_finish [OF 3(2) _ assms(8) _ _ assms(5) i(1) assms(7) i(2) r2 _ _ _ s(6)])
      show "unanswered o3" using assms(10) 3(3) by simp
      show "gp_peer gp = Some r" using gp assms(4) by simp
      show "member_view g2 = member_view (g\<lparr> g_peers := g_peers g @ [gp] \<rparr>)"
        using s(1,3) g3 ret by (simp add: g2 member_view_def)
      show "map_of (g_expected_user_generations g2)
          = (map_of (g_expected_user_generations g) ++ map_of added)(user := None)"
        using s(5) g3(2) by (simp add: g2 remove_expected_user_gens)
      show "set (map fst added) \<inter> set (g_expected_users g) = {}" "user \<notin> set (map fst added)" using s(7) by auto
    qed (use g2 assms(4) in auto)
  qed
qed

text \<open>
  C3: A refused join of an existing room leaves no trace. When the request ends without the
  answer that the peer joined (a check fails, the room is full, no actor number is left, the
  connection breaks before the answer), the connected members are the same with the same
  actor numbers, the peer is not one of them, and every reservation made for the expected
  users is gone; at most the reservation of the joining user itself has been used up.
\<close>

theorem refused_join_leaves_no_trace:
  assumes "room_inv (g, pend)" "within (length (jp_expected_users p) + 1) g" "g_is_created g"
    "\<not> hd_game_peer hs" "persistent_user (se_heap e) (hd_peer hs) = Some user" "\<not> is_member g (hd_peer hs)"
    "handle_join e disc opc p user hs g = (hs', g', o1)" "unanswered o1" "\<not> disc 6"
  shows "live_members (se_heap e) g' = live_members (se_heap e) g \<and> \<not> is_member g' (hd_peer hs)
    \<and> set (g_expected_users g') \<in> {set (g_expected_users g), set (g_expected_users g) - {user}}"
  using assms(7)
proof (cases rule: handle_join_cases)
  case early
  with assms(6) show ?thesis by simp
next
  case (claimed n g1 hs1)
  have n: "n = 0" "g1 = g"
    using claimed(4) assms(3) by (auto simp: try_begin_creation_def)
  with claimed have hs1: "hs1 = hs" and j: "join_claimed e disc 0 opc p user hs g = (hs', g', o1)" by auto
  from refused_claimed [OF assms(1,2,4) refl persistent_user_live [OF assms(5)] assms(5,6,9) j assms(8)]
  show ?thesis by (simp add: untouched_def)
qed

definition closed_room :: "sample_value game" where
  "closed_room = (new_game 0 [] [])\<lparr> g_is_created := True, g_is_open := False \<rparr>"

lemma refused_join_leaves_no_trace_witness:
  "\<not> is_member (fst (snd (handle_join sample_env (\<lambda>_. False) 226 sample_join ''owner'' (new_handler 7) closed_room))) 7"
proof -
  obtain hs' g' o1 where j: "handle_join sample_env (\<lambda>_. False) 226 sample_join ''owner'' (new_handler 7) closed_room
      = (hs', g', o1)" by (metis prod_cases3)
  have "snd (snd (handle_join sample_env (\<lambda>_. False) 226 sample_join ''owner'' (new_handler 7) closed_room))
      = [Response 226 3]" by code_simp
  with j have o1: "unanswered o1" by simp
  have i: "room_inv (closed_room, [])"
    by (simp add: room_inv_def member_inv_def res_inv_def pending_inv_def lease_inv_def new_game_def closed_room_def)
  have "within (length (jp_expected_users sample_join) + 1) closed_room"
    by (simp add: within_def room_load_def new_game_def sample_join_def closed_room_def)
  from refused_join_leaves_no_trace [OF i this _ _ _ _ j o1] j show ?thesis
    by (simp add: closed_room_def new_handler_def sample_env_def sample_heap_def persistent_user_def is_member_def new_game_def)
qed

end
