(* ===== verification/GameService.thy ===== *)
theory GameService
  imports GameServerProps
begin

text \<open>
  The service: the handlers of all peers of a room, the room, and the callbacks
  pending. Peers connect, send requests, are disconnected; waiting joins are looked
  at; reservations expire; connection objects vanish once their handler is done. The
  steps run one after the other, in any order, each with the store of connections of
  its own moment.
\<close>

section \<open>Leaving\<close>

lemma not_member_live:
  assumes "\<not> is_member g r" "member_inv g"
  shows "filter (\<lambda>(p, a). p \<noteq> Some r) (live_members h g) = live_members h g"
  using assms by (auto simp: filter_id_conv live_members_def is_member_def member_inv_def)

lemma leave_room_spec:
  assumes "leave_room e hs g = (g', o1)" "member_inv g" "se_heap e (hd_peer hs) \<noteq> None"
  shows "\<not> is_member g' (hd_peer hs)
    \<and> live_members (se_heap e) g' = filter (\<lambda>(p, a). p \<noteq> Some (hd_peer hs)) (live_members (se_heap e) g)"
  using assms(1)
proof (cases rule: leave_room_cases)
  case nobody
  have "\<not> is_member g (hd_peer hs)"
  proof
    assume m: "is_member g (hd_peer hs)"
    then obtain gp where "List.find (\<lambda>gp. gp_active gp \<and> lock (se_heap e) (gp_peer gp) = Some (hd_peer hs)) (g_peers g) = Some gp"
      using find_peer_ref_member [where h = "se_heap e" and r = "hd_peer hs" and g = g, OF assms(3)] by (auto simp: find_peer_ref_def)
    then have "gp \<in> set (g_peers g)" "actor_id_for_peer (se_heap e) g (Some (hd_peer hs)) = Some (gp_actor_id gp)" "gp_active gp"
      by (auto simp: actor_id_for_peer_def find_Some_iff)
    with assms(2) nobody(3) show False by (auto simp: member_inv_def has_peer_actor_def)
  qed
  with not_member_live [OF this assms(2)] nobody(1) show ?thesis by simp
next
  case (member evs b ts)
  let ?h = "se_heap e" and ?r = "hd_peer hs"
  have p: "g_peers g' = filter (\<lambda>gp. \<not> leaves ?h ?r gp) (g_peers g)"
    using remove_peer_members(1) [OF member(1)] by simp
  have "lock ?h (gp_peer gp) \<noteq> None \<and> \<not> leaves ?h ?r gp \<longleftrightarrow> lock ?h (gp_peer gp) \<noteq> None \<and> gp_peer gp \<noteq> Some ?r"
    for gp :: "'a game_peer"
    using assms(3) by (auto simp: leaves_def)
  then have "live_members ?h g' = filter (\<lambda>(p, a). p \<noteq> Some ?r) (live_members ?h g)"
    by (auto simp: live_members_def p filter_map o_def intro!: arg_cong [of _ _ "map _"] filter_cong)
  moreover have "\<not> is_member g' ?r"
    using assms(3) by (auto simp: is_member_def p leaves_def)
  ultimately show ?thesis by blast
qed

lemma disconnect_abort_cases:
  assumes "disconnect_abort e hs g = (g1, o1)"
  obtains "g1 = g" "o1 = []" "\<not> (hd_creation_game hs \<and> lease_held (se_heap e) (Some (hd_peer hs)) (hd_creation_generation hs) g)"
  | ts where "abort_creation_transaction (se_heap e) (Some (hd_peer hs)) (hd_creation_generation hs) g = (True, g1, ts)"
      "hd_creation_game hs" "lease_held (se_heap e) (Some (hd_peer hs)) (hd_creation_generation hs) g"
proof -
  obtain r g2 ts where a: "abort_creation_transaction (se_heap e) (Some (hd_peer hs)) (hd_creation_generation hs) g = (r, g2, ts)"
    by (metis prod_cases3)
  have r: "r \<longleftrightarrow> lease_held (se_heap e) (Some (hd_peer hs)) (hd_creation_generation hs) g"
    using abort_accepted [of "se_heap e" "Some (hd_peer hs)" "hd_creation_generation hs" g] a by simp
  show ?thesis
  proof (cases "hd_creation_game hs \<and> hd_creation_generation hs \<noteq> 0 \<and> r")
    case True
    with assms a have "g1 = g2" by (auto simp: disconnect_abort_def)
    with that(2) a r True show ?thesis by simp
  next
    case False
    have "g2 = g \<and> ts = []" if "\<not> r"
      by (rule abort_refused) (use a that in simp)
    with False assms a r have "g1 = g" "o1 = []"
      by (auto simp: disconnect_abort_def scheduled_def split: if_splits)
    with False r that(1) show ?thesis by (auto simp: lease_held_def)
  qed
qed

text \<open>
  C5: A disconnected peer leaves nothing behind: it is no longer a member, the other
  connected members are exactly those that were there with their actor numbers (unless the
  room itself was being created by this peer, which ends the creation and leaves no connected
  member), and the handler holds neither the room nor a creation nor a waiting join.
\<close>

theorem disconnect_forgets_peer:
  assumes "member_inv g" "hd_current hs" "se_heap e (hd_peer hs) \<noteq> None"
    "handle_disconnect e hs g = (hs', g', o1)"
    "creating \<longleftrightarrow> hd_creation_game hs \<and> lease_held (se_heap e) (Some (hd_peer hs)) (hd_creation_generation hs) g"
  shows "\<not> is_member g' (hd_peer hs)
    \<and> live_members (se_heap e) g' =
        (if creating then [] else filter (\<lambda>(p, a). p \<noteq> Some (hd_peer hs)) (live_members (se_heap e) g))
    \<and> (creating \<longrightarrow> \<not> g_is_creating g') \<and> hd_disconnected hs'
    \<and> \<not> hd_current hs' \<and> \<not> hd_creation_game hs' \<and> hd_pending_join hs' = None"
proof -
  let ?hs = "hs\<lparr> hd_disconnected := True, hd_pending_join := None \<rparr>"
  obtain g1 o2 where a: "disconnect_abort e ?hs g = (g1, o2)" by force
  obtain o3 where l: "leave_room e ?hs g1 = (g', o3)" "hd_disconnected hs'" "\<not> hd_current hs'"
      "\<not> hd_creation_game hs'" "hd_pending_join hs' = None"
    using assms(2,4) a by (auto simp: handle_disconnect_def Let_def split: prod.splits)
  show ?thesis using a
  proof (cases rule: disconnect_abort_cases)
    case 1
    then have "\<not> creating" using assms(5) by simp
    with leave_room_spec [OF l(1) _ _] assms(1,3) 1(1) l(2-) show ?thesis by simp
  next
    case (2 ts)
    note c = abort_restores_config [OF 2(1)]
    have none: "\<forall>gp\<in>set (g_peers g1). lock (se_heap e) (gp_peer gp) = None" using c(3) by simp
    have gone: "gp_peer gp \<noteq> Some (hd_peer hs)" if "gp \<in> set (g_peers g1)" for gp
    proof
      assume p: "gp_peer gp = Some (hd_peer hs)"
      have "lock (se_heap e) (Some (hd_peer hs)) = None" using bspec [OF none that] unfolding p .
      with lock_live [of "se_heap e" "hd_peer hs"] assms(3) show False by auto
    qed
    then have no: "live_members (se_heap e) g1 = []" "\<not> is_member g1 (hd_peer hs)"
      using none by (auto simp: live_members_def filter_empty_conv is_member_def lock_None)
    have "actor_id_for_peer (se_heap e) g1 (Some (hd_peer hs)) = None"
      using gone by (auto simp: actor_id_for_peer_def find_None_conv)
    then have "g' = g1" using l(1) by (auto simp: leave_room_def)
    with no c(2) l(2-) 2(2,3) assms(5) show ?thesis by simp
  qed
qed

lemma disconnect_forgets_peer_witness:
  "\<not> is_member (fst (snd (handle_disconnect sample_env (new_handler 7) (new_game 0 [] [])))) 7"
proof -
  let ?g = "new_game 0 [] [] :: sample_value game"
  obtain hs' g' o1 where d: "handle_disconnect sample_env (new_handler 7) ?g = (hs', g', o1)" by (metis prod_cases3)
  have "member_inv ?g" using new_room_inv by (auto simp: room_inv_def)
  from disconnect_forgets_peer [OF this _ _ d refl] d show ?thesis
    by (simp add: new_handler_def sample_env_def sample_heap_def)
qed

section \<open>Whom a request lets in\<close>

text \<open>A request adds no member but its own peer.\<close>

definition admits :: "peer_ref \<Rightarrow> 'v game \<Rightarrow> 'v game \<Rightarrow> bool" where
  "admits r g g' \<longleftrightarrow> (\<forall>q. is_member g' q \<longrightarrow> is_member g q \<or> q = r)"

lemma admits_trans: "admits r g g1 \<Longrightarrow> admits r g1 g2 \<Longrightarrow> admits r g g2"
  by (auto simp: admits_def)

lemma admits_quiet:
  assumes "quiet_view g' = quiet_view g"
  shows "admits r g g'"
  using member_view_is_member [of g' g] assms by (simp add: admits_def quiet_view_def)

lemma admits_fewer: "set (g_peers g') \<subseteq> set (g_peers g) \<Longrightarrow> admits r g g'"
  by (auto simp: admits_def is_member_def)

lemma abort_admits:
  assumes "abort_creation_transaction h owner n g = (ok, g', ts)"
  shows "admits r g g'"
proof (cases ok)
  case False
  with assms have "abort_creation_transaction h owner n g = (False, g', ts)" by simp
  then have "g' = g" using abort_refused by blast
  then show ?thesis by (simp add: admits_def)
next
  case True
  with assms have a: "abort_creation_transaction h owner n g = (True, g', ts)" by simp
  obtain a1 a2 a3 a4 where a1: "a1 = abort_retire h g"
    and a2: "a2 = a1\<lparr> g_inactive_players := gi_inactive_players a1 \<rparr>"
    and a3: "a3 = abort_drop_owned (gr_reserved_generations a2) a2"
    and a4: "abort_restore (gr_removed_generations a3) a3 = (a4, ts)" and g': "g' = restore_initial a4"
    by (rule abort_parts [OF a])
  obtain rs where "a1 = g\<lparr> g_peers := filter (\<lambda>gp. lock h (gp_peer gp) = None) (g_peers g),
     g_retired_peers := g_retired_peers g @ map retire rs \<rparr>"
    using abort_retire_shape a1 by blast
  moreover obtain x y where "a3 = a2\<lparr> g_expected_user_generations := x, g_expected_users := y \<rparr>"
    using abort_drop_owned_shape a3 by blast
  moreover obtain c d e f where "a4 = a3\<lparr> g_expected_users := c, g_next_expected_user_generation := e,
      g_expected_user_generations := d, gr_reserved_generations := f \<rparr>"
    using abort_restore_shape [of "gr_removed_generations a3" a3] a4 by auto
  ultimately show ?thesis by (intro admits_fewer) (auto simp: g' a2 restore_initial_def)
qed

lemma remove_admits:
  assumes "remove_peer wc h p g = (b, g', ts)"
  shows "admits r g g'"
proof (cases p)
  case None
  with assms show ?thesis by (simp add: remove_peer_def admits_def)
next
  case (Some q)
  with assms have "remove_peer wc h (Some q) g = (b, g', ts)" by simp
  from remove_peer_members(1) [OF this] show ?thesis by (intro admits_fewer) auto
qed

lemma rollback_admits:
  assumes "rollback_join e is_master n added hs g = (hs', g', o1)"
  shows "admits r g g'"
proof (cases is_master)
  case True
  obtain ok g1 ts where a: "abort_creation_transaction (se_heap e) (Some (hd_peer hs)) n g = (ok, g1, ts)"
    by (metis prod_cases3)
  from abort_admits [OF a] True assms a show ?thesis by (auto simp: rollback_join_def)
next
  case False
  obtain b g1 ts where b: "(if hd_game_peer hs then remove_peer (se_wc e) (se_heap e) (Some (hd_peer hs)) g
      else (False, g, [])) = (b, g1, ts)" by (metis prod_cases3)
  have "admits r g g1"
  proof (cases "hd_game_peer hs")
    case True
    with b have "remove_peer (se_wc e) (se_heap e) (Some (hd_peer hs)) g = (b, g1, ts)" by simp
    then show ?thesis by (rule remove_admits)
  qed (use b in \<open>simp add: admits_def\<close>)
  moreover have "g_peers (abort_drop_owned added g1) = g_peers g1"
  proof -
    obtain x y where "abort_drop_owned added g1 = g1\<lparr> g_expected_user_generations := x, g_expected_users := y \<rparr>"
      using abort_drop_owned_shape by blast
    then show ?thesis by simp
  qed
  moreover have "g' = abort_drop_owned added g1" using False assms b by (auto simp: rollback_join_def)
  ultimately show ?thesis by (simp add: admits_def is_member_def)
qed

lemma admit_admits:
  assumes "join_admit e disc is_master n opc p user hs g = (x, hs', g', o1)"
  shows "admits (hd_peer hs) g g'"
  using assms
proof (cases rule: join_admit_cases)
  case (stages g1 added ts gp g2)
  note s = reserve_expected_spec [OF stages(2)] and f = create_peer_frame [OF stages(3)]
  have "g_peers g' = g_peers g2
    \<or> gp_is_valid gp \<and> (\<exists>ps. g_peers g' = g_peers g2 @ [gp\<lparr> gp_owner_game := ps \<rparr>])"
    using stages(5)
    by (cases is_master; cases rule: add_peer_cases [of "se_wc e" "se_heap e" gp g2];
      cases rule: add_peer_for_creation_cases [of "se_wc e" "se_heap e" gp "Some (hd_peer hs)" n g2];
      auto)
  then show ?thesis
    using s(1) f(1) create_peer_ref [OF stages(3)] by (auto simp: admits_def is_member_def)
qed (auto simp: admits_def)

lemma commit_admits:
  assumes "join_commit e disc is_master n opc actor added hs g = (hs', g', o1)"
  shows "admits r g g'"
proof -
  obtain ok g1 where c: "commit_creation (se_heap e) (Some (hd_peer hs)) n g = (ok, g1)" by force
  have g1: "admits r g g1" using c by (auto simp: commit_creation_def admits_def is_member_def split: if_splits)
  consider "rollback_join e is_master n added hs g = (hs', g', o1)"
    | props where "join_answer e disc opc actor props hs g = (hs', g', o1)"
    | props hs2 o2 where "join_answer e disc opc actor props hs2 g1 = (hs', g', o2)"
    using assms c by (auto simp: join_commit_def split: if_splits prod.splits bool.splits)
  then show ?thesis
  proof cases
    case 1
    then show ?thesis by (rule rollback_admits)
  next
    case 2
    then show ?thesis using join_answer_moves admits_quiet by blast
  next
    case 3
    then show ?thesis using join_answer_moves admits_quiet admits_trans [OF g1] by blast
  qed
qed

lemma finish_admits:
  assumes "join_finish e disc is_master n opc p added hs g = (hs', g', o1)"
  shows "admits r g g'"
proof -
  define actor where "actor = (case find_peer_ref (se_heap e) g (Some (hd_peer hs)) of None \<Rightarrow> 0
      | Some gp \<Rightarrow> gp_actor_id gp)"
  obtain g1 fx where p: "join_props e is_master p actor g = (g1, fx)" by force
  note split = assms [unfolded join_finish_def Let_def, folded actor_def, unfolded p prod.case]
  note q = admits_trans [OF admits_quiet [OF join_props_quiet [OF p]]]
  consider "rollback_join e is_master n added hs g = (hs', g', o1)"
    | o2 where "rollback_join e is_master n added hs g1 = (hs', g', o2)"
    | o2 where "join_commit e disc is_master n opc actor added hs g1 = (hs', g', o2)"
    using split by (auto split: if_splits prod.splits)
  then show ?thesis
    by cases (rule rollback_admits, assumption, rule q, erule rollback_admits, rule q, erule commit_admits)
qed

lemma claimed_admits:
  assumes "join_claimed e disc n opc p user hs g = (hs', g', o1)"
  shows "admits (hd_peer hs) g g'"
proof -
  let ?m = "n \<noteq> 0"
  define g1 where "g1 = (if n \<noteq> 0 then apply_game_settings e p g else g)"
  have g1: "admits (hd_peer hs) g g1" by (rule admits_quiet) (simp add: g1_def quiet)
  obtain x hs2 g2 o2 where a: "join_admit e (disc 2) ?m n opc p user hs g1 = (x, hs2, g2, o2)" by (metis prod_cases4)
  note g2 = admits_trans [OF g1 admit_admits [OF a]]
  note split = assms [unfolded join_claimed_def Let_def, folded g1_def]
  consider o3 where "rollback_join e ?m n [] hs g = (hs', g', o3)"
    | o3 where "rollback_join e ?m n [] hs g1 = (hs', g', o3)"
    | added o3 where "rollback_join e ?m n added hs2 g2 = (hs', g', o3)"
    | added o3 where "join_finish e disc ?m n opc p added hs2 g2 = (hs', g', o3)"
    using split a by (cases x) (auto split: if_splits prod.splits)
  then show ?thesis
    by cases (erule rollback_admits, rule admits_trans [OF g1], erule rollback_admits,
      rule admits_trans [OF g2], erule rollback_admits, rule admits_trans [OF g2], erule finish_admits)
qed

lemma request_admits:
  assumes "handle_request e disc ch user req hs g = (hs', g', o1)"
  shows "admits (hd_peer hs) g g'"
proof -
  have refl: "admits (hd_peer hs) g g" by (simp add: admits_def)
  show ?thesis
  proof (cases req)
    case (ReqJoin opc p)
    with assms consider "g' = g" | "handle_join e disc opc p user hs g = (hs', g', o1)"
      by (auto simp: handle_request_def split: if_splits)
    then show ?thesis
    proof cases
      case 2
      then show ?thesis
      proof (cases rule: handle_join_cases)
        case (claimed n g1 hs1)
        have "g_peers g1 = g_peers g"
          using claimed(4) by (auto simp: try_begin_creation_def save_initial_def Let_def split: if_splits)
        then have "admits (hd_peer hs) g g1" by (simp add: admits_def is_member_def)
        moreover have "hd_peer hs1 = hd_peer hs" by (simp add: claimed(6))
        ultimately show ?thesis using claimed_admits [OF claimed(7)] admits_trans by metis
      qed (use refl in simp)
    qed (use refl in simp)
  next
    case (ReqRaise r)
    with assms raise_quiet [of e "r\<lparr> rp_channel := ch \<rparr>" hs g hs' g' o1] show ?thesis
      by (simp add: handle_request_def admits_quiet)
  next
    case (ReqSetProperties p)
    with assms set_properties_quiet [of e p hs g hs' g' o1] refl show ?thesis
      by (auto simp: handle_request_def admits_quiet split: if_splits)
  next
    case (ReqChangeGroups opc add rem)
    with assms change_groups_quiet [of e add rem opc hs g hs' g' o1] refl show ?thesis
      by (auto simp: handle_request_def admits_quiet split: if_splits)
  next
    case ReqLeave
    with assms refl show ?thesis by (auto simp: handle_request_def handle_leave_def split: if_splits)
  qed
qed

section \<open>What a request keeps of its handler\<close>

text \<open>The peer, and whether it was disconnected, are not the request's to change.\<close>

definition same_peer :: "'v handler \<Rightarrow> 'v handler \<Rightarrow> bool" where
  "same_peer hs hs' \<longleftrightarrow> hd_peer hs' = hd_peer hs \<and> hd_disconnected hs' = hd_disconnected hs \<and> hd_current hs' = hd_current hs"

lemma rollback_same_peer: "rollback_join e is_master n added hs g = (hs', g', o1) \<Longrightarrow> same_peer hs hs'"
  by (auto simp: rollback_join_def same_peer_def split: if_splits prod.splits)

lemma commit_same_peer:
  assumes "join_commit e disc is_master n opc actor added hs g = (hs', g', o1)"
  shows "same_peer hs hs'"
proof -
  obtain ok g1 where c: "commit_creation (se_heap e) (Some (hd_peer hs)) n g = (ok, g1)" by force
  consider "rollback_join e is_master n added hs g = (hs', g', o1)"
    | props where "join_answer e disc opc actor props hs g = (hs', g', o1)"
    | props o2 where "join_answer e disc opc actor props (hs\<lparr> hd_creation_game := False, hd_creation_generation := 0 \<rparr>) g1
        = (hs', g', o2)"
    using assms c by (auto simp: join_commit_def split: if_splits prod.splits bool.splits)
  then show ?thesis
  proof cases
    case 1
    then show ?thesis by (rule rollback_same_peer)
  next
    case 2
    with join_answer_moves show ?thesis by (fastforce simp: same_peer_def)
  next
    case 3
    with join_answer_moves show ?thesis by (fastforce simp: same_peer_def)
  qed
qed

lemma finish_same_peer: "join_finish e disc is_master n opc p added hs g = (hs', g', o1) \<Longrightarrow> same_peer hs hs'"
  by (auto simp: join_finish_def Let_def dest: rollback_same_peer commit_same_peer split: if_splits prod.splits)

lemma admit_same_peer: "join_admit e disc is_master n opc p user hs g = (x, hs', g', o1) \<Longrightarrow> same_peer hs hs'"
  by (auto simp: join_admit_def Let_def same_peer_def split: if_splits prod.splits option.splits)

lemma claimed_same_peer:
  assumes "join_claimed e disc n opc p user hs g = (hs', g', o1)"
  shows "same_peer hs hs'"
proof -
  obtain x hs2 g2 o2 where a: "join_admit e (disc 2) (n \<noteq> 0) n opc p user hs
      (if n \<noteq> 0 then apply_game_settings e p g else g) = (x, hs2, g2, o2)" by (metis prod_cases4)
  consider added g0 o3 where "rollback_join e (n \<noteq> 0) n added hs g0 = (hs', g', o3)"
    | added o3 where "rollback_join e (n \<noteq> 0) n added hs2 g2 = (hs', g', o3)"
    | added o3 where "join_finish e disc (n \<noteq> 0) n opc p added hs2 g2 = (hs', g', o3)"
    using assms [unfolded join_claimed_def Let_def] a by (cases x) (auto split: if_splits prod.splits)
  then show ?thesis
    using rollback_same_peer finish_same_peer admit_same_peer [OF a] by cases (fastforce simp: same_peer_def)+
qed

section \<open>No request leaves a creation open\<close>

lemma remove_peer_lease:
  assumes "remove_peer wc h p g = (b, g', ts)"
  shows "lease_view g' = lease_view g"
proof (cases p)
  case None
  with assms show ?thesis by (simp add: remove_peer_def)
next
  case (Some r)
  with assms have r: "remove_peer wc h (Some r) g = (b, g', ts)" by simp
  obtain l g1 where l: "remove_loop wc h r 0 g = (l, g1)"
    and g': "g' = g1 \<or> g' = g1\<lparr> g_master_actor := gp_actor_id (hd (g_peers g1)) \<rparr>"
    by (rule remove_peer_shape [OF r]) blast
  from g' remove_loop_peers [OF l] remove_loop_saved [OF l] show ?thesis by (auto simp: lease_view_def)
qed

lemma rollback_guest_lease:
  assumes "rollback_join e False n added hs g = (hs', g', o1)"
  shows "lease_view g' = lease_view g \<and> hd_creation_game hs' = hd_creation_game hs"
proof -
  obtain b g1 ts where b: "(if hd_game_peer hs then remove_peer (se_wc e) (se_heap e) (Some (hd_peer hs)) g
      else (False, g, [])) = (b, g1, ts)" by (metis prod_cases3)
  have "lease_view g1 = lease_view g"
    using b remove_peer_lease [of "se_wc e" "se_heap e" "Some (hd_peer hs)" g b g1 ts] by (auto split: if_splits)
  moreover have "lease_view (abort_drop_owned added g1) = lease_view g1"
  proof -
    obtain x y where "abort_drop_owned added g1 = g1\<lparr> g_expected_user_generations := x, g_expected_users := y \<rparr>"
      using abort_drop_owned_shape by blast
    then show ?thesis by (simp add: lease_view_def)
  qed
  ultimately show ?thesis using assms b by (auto simp: rollback_join_def)
qed

lemma finish_guest_lease:
  assumes "join_finish e disc False n opc p added hs g = (hs', g', o1)"
  shows "lease_view g' = lease_view g \<and> hd_creation_game hs' = hd_creation_game hs"
proof -
  define actor where "actor = (case find_peer_ref (se_heap e) g (Some (hd_peer hs)) of None \<Rightarrow> 0
      | Some gp \<Rightarrow> gp_actor_id gp)"
  obtain g1 fx where p: "join_props e False p actor g = (g1, fx)" by force
  have q: "lease_view g1 = lease_view g" using join_props_quiet [OF p] by (simp add: quiet_view_def)
  note split = assms [unfolded join_finish_def Let_def, folded actor_def, unfolded p prod.case]
  consider o2 where "rollback_join e False n added hs g = (hs', g', o2)"
    | o2 where "rollback_join e False n added hs g1 = (hs', g', o2)"
    | o2 where "join_answer e disc opc actor (get_actor_props (se_vo e) g1) hs g1 = (hs', g', o2)"
    using split by (auto simp: join_commit_def split: if_splits prod.splits)
  then show ?thesis
  proof cases
    case 1
    then show ?thesis by (rule rollback_guest_lease)
  next
    case 2
    from rollback_guest_lease [OF 2] q show ?thesis by simp
  next
    case 3
    from join_answer_moves [OF 3] q show ?thesis by (simp add: quiet_view_def)
  qed
qed

lemma claimed_guest_lease:
  assumes "join_claimed e disc 0 opc p user hs g = (hs', g', o1)"
  shows "lease_view g' = lease_view g \<and> hd_creation_game hs' = hd_creation_game hs"
proof -
  obtain x hs2 g2 o2 where a: "join_admit e (disc 2) False 0 opc p user hs g = (x, hs2, g2, o2)" by (metis prod_cases4)
  have s: "lease_view g2 = lease_view g" using conjunct2 [OF join_admit_moves [OF a]] by (simp add: stays_def)
  have c: "hd_creation_game hs2 = hd_creation_game hs"
    using a by (auto simp: join_admit_def Let_def split: if_splits prod.splits option.splits)
  consider o3 where "rollback_join e False 0 [] hs g = (hs', g', o3)"
    | added o3 where "rollback_join e False 0 added hs2 g2 = (hs', g', o3)"
    | added o3 where "join_finish e disc False 0 opc p added hs2 g2 = (hs', g', o3)"
    using assms [unfolded join_claimed_def Let_def] a by (cases x) (auto split: if_splits prod.splits)
  then show ?thesis
  proof cases
    case 1
    then show ?thesis by (rule rollback_guest_lease)
  next
    case 2
    from rollback_guest_lease [OF 2] s c show ?thesis by simp
  next
    case 3
    from finish_guest_lease [OF 3] s c show ?thesis by simp
  qed
qed

lemma join_ends:
  assumes "room_inv (g, pend)" "within (length (jp_expected_users p) + 1) g" "\<not> g_is_creating g"
    "se_heap e (hd_peer hs) \<noteq> None" "\<not> hd_creation_game hs" "handle_join e disc opc p user hs g = (hs', g', o1)"
  shows "\<not> g_is_creating g' \<and> \<not> hd_creation_game hs'"
  using assms(6)
proof (cases rule: handle_join_cases)
  case early
  with assms(3,5) show ?thesis by simp
next
  case (claimed n g1 hs1)
  show ?thesis
  proof (cases "n = 0")
    case True
    with claimed(4) have "g1 = g" using begin_zero by blast
    with True claimed(6,7) claimed_guest_lease [of e disc opc p user hs g hs' g' o1] assms(3,5)
    show ?thesis by (simp add: lease_view_def)
  next
    case False
    have r0: "res_inv g" using assms(1) by (simp add: room_inv_def)
    note b = begin_holding [OF claimed(4) False assms(4,1,2)]
    have "hd_peer hs1 = hd_peer hs" by (simp add: claimed(6))
    with claimed_ends [OF _ r0 _ False b(2,3) claimed(7)] b(1) assms(4) show ?thesis
      by (auto simp: restored_def committed_def)
  qed
qed

lemma request_ends:
  assumes "room_inv (g, pend)" "within (request_cost req) g" "\<not> g_is_creating g"
    "se_heap e (hd_peer hs) \<noteq> None" "\<not> hd_creation_game hs" "handle_request e disc ch user req hs g = (hs', g', o1)"
  shows "\<not> g_is_creating g' \<and> \<not> hd_creation_game hs' \<and> same_peer hs hs'"
proof -
  have q: "\<not> g_is_creating g'" if "quiet_view g' = quiet_view g"
    using that assms(3) by (simp add: quiet_view_def lease_view_def)
  have early: ?thesis if "g' = g" "hs' = hs"
    using that assms(3,5) by (simp add: same_peer_def)
  show ?thesis
  proof (cases req)
    case (ReqJoin opc p)
    show ?thesis
    proof (cases "ch = 0")
      case True
      with assms(6) ReqJoin have j: "handle_join e disc opc p user hs g = (hs', g', o1)" by (simp add: handle_request_def)
      have "same_peer hs hs'" using j
      proof (cases rule: handle_join_cases)
        case (claimed n g1 hs1)
        with claimed_same_peer [OF claimed(7)] show ?thesis by (auto simp: same_peer_def)
      next
        case early
        then show ?thesis by (simp add: same_peer_def)
      qed
      with join_ends [OF assms(1) _ assms(3-5) j] assms(2) ReqJoin show ?thesis by simp
    next
      case False
      with assms(6) ReqJoin early show ?thesis by (simp add: handle_request_def)
    qed
  next
    case (ReqRaise r)
    with assms(6) have h: "handle_raise_event e (r\<lparr> rp_channel := ch \<rparr>) hs g = (hs', g', o1)" by (simp add: handle_request_def)
    then have "hs' = hs" by (auto simp: handle_raise_event_def Let_def split: option.splits if_splits)
    with raise_quiet [OF h] q assms(5) show ?thesis by (simp add: same_peer_def)
  next
    case (ReqSetProperties p)
    show ?thesis
    proof (cases "ch = 0")
      case True
      with assms(6) ReqSetProperties have h: "handle_set_properties e p hs g = (hs', g', o1)" by (simp add: handle_request_def)
      with set_properties_quiet [OF h] q assms(5) show ?thesis by (simp add: same_peer_def)
    next
      case False
      with assms(6) ReqSetProperties early show ?thesis by (simp add: handle_request_def)
    qed
  next
    case (ReqChangeGroups opc add rem)
    show ?thesis
    proof (cases "ch = 0")
      case True
      with assms(6) ReqChangeGroups have h: "handle_change_groups e add rem opc hs g = (hs', g', o1)"
        by (simp add: handle_request_def)
      then have "hs' = hs" by (auto simp: handle_change_groups_def Let_def split: if_splits)
      with change_groups_quiet [OF h] q assms(5) show ?thesis by (simp add: same_peer_def)
    next
      case False
      with assms(6) ReqChangeGroups early show ?thesis by (simp add: handle_request_def)
    qed
  next
    case ReqLeave
    with assms(3,5,6) show ?thesis by (auto simp: handle_request_def handle_leave_def same_peer_def split: if_splits)
  qed
qed

section \<open>The service\<close>

type_synonym 'v service = "(peer_ref \<Rightarrow> 'v handler option) \<times> 'v game \<times> task list"

inductive service_step :: "'v service \<Rightarrow> 'v service \<Rightarrow> bool" where
  attach: "m r = None \<Longrightarrow> service_step (m, g, pend) (m(r \<mapsto> new_handler r), g, pend)"
| request: "m r = Some hs \<Longrightarrow> hd_current hs \<Longrightarrow> persistent_user (se_heap e) r = Some user \<Longrightarrow>
    within (request_cost req) g \<Longrightarrow> handle_request e disc ch user req hs g = (hs', g', o1) \<Longrightarrow>
    service_step (m, g, pend) (m(r \<mapsto> hs'), g', pend @ tasks_of o1)"
| disconnect: "m r = Some hs \<Longrightarrow> se_heap e r \<noteq> None \<Longrightarrow> within 0 g \<Longrightarrow>
    handle_disconnect e hs g = (hs', g', o1) \<Longrightarrow>
    service_step (m, g, pend) (m(r \<mapsto> hs'), g', pend @ tasks_of o1)"
| update: "m r = Some hs \<Longrightarrow> pending_join_update e waited hs g = (hs', res) \<Longrightarrow>
    service_step (m, g, pend) (m(r \<mapsto> hs'), g, pend)"
| expire: "ExpireReservation u n \<in> set pend \<Longrightarrow>
    service_step (m, g, pend) (m, expire_reservation u n g, remove1 (ExpireReservation u n) pend)"

inductive served :: "'v service \<Rightarrow> bool" where
  start: "served (Map.empty, new_game r gid address, [])"
| step: "served s \<Longrightarrow> service_step s s' \<Longrightarrow> served s'"

text \<open>The invariant: the room's own, no open creation, and members only of connected handlers.\<close>

definition handler_inv :: "'v game \<Rightarrow> peer_ref \<Rightarrow> 'v handler \<Rightarrow> bool" where
  "handler_inv g r hs \<longleftrightarrow> hd_peer hs = r \<and> \<not> hd_creation_game hs
     \<and> (hd_disconnected hs \<longrightarrow> \<not> hd_current hs \<and> hd_pending_join hs = None \<and> \<not> is_member g r)
     \<and> (hd_disconnected hs \<or> hd_current hs)"

definition service_inv :: "'v service \<Rightarrow> bool" where
  "service_inv s \<longleftrightarrow> (case s of (m, g, pend) \<Rightarrow> room_inv (g, pend) \<and> \<not> g_is_creating g
     \<and> (\<forall>r hs. m r = Some hs \<longrightarrow> handler_inv g r hs) \<and> (\<forall>r. is_member g r \<longrightarrow> m r \<noteq> None))"

lemma service_invD:
  assumes "service_inv (m, g, pend)"
  shows "room_inv (g, pend)" "\<not> g_is_creating g" "m r = Some hs \<Longrightarrow> handler_inv g r hs" "is_member g r \<Longrightarrow> m r \<noteq> None"
  using assms by (auto simp: service_inv_def)

text \<open>A step of one handler: the others are untouched, and it admits at most its own peer.\<close>

lemma service_inv_update:
  assumes "service_inv (m, g, pend)" "m r = Some hs" "room_inv (g', pend')" "\<not> g_is_creating g'"
    "handler_inv g' r hs'" "admits r g g'"
  shows "service_inv (m(r \<mapsto> hs'), g', pend')"
  unfolding service_inv_def prod.case
proof (intro conjI allI impI)
  show "handler_inv g' q hq" if "(m(r \<mapsto> hs')) q = Some hq" for q hq
  proof (cases "q = r")
    case True
    with that assms(5) show ?thesis by simp
  next
    case False
    with that have "handler_inv g q hq" using service_invD(3) [OF assms(1)] by simp
    with False assms(6) show ?thesis by (auto simp: handler_inv_def admits_def)
  qed
  show "(m(r \<mapsto> hs')) q \<noteq> None" if "is_member g' q" for q
    using that assms(6) service_invD(4) [OF assms(1), of q] by (auto simp: admits_def)
qed (use assms in auto)

lemma leave_room_admits: "leave_room e hs g = (g', o1) \<Longrightarrow> admits r g g'"
proof -
  assume l: "leave_room e hs g = (g', o1)"
  from l show ?thesis
  proof (cases rule: leave_room_cases)
    case (member evs b ts)
    from remove_admits [OF member(1)] show ?thesis by (simp add: admits_def is_member_def)
  qed (simp add: admits_def)
qed

lemma leave_room_lease: "leave_room e hs g = (g', o1) \<Longrightarrow> g_is_creating g' = g_is_creating g"
proof -
  assume l: "leave_room e hs g = (g', o1)"
  from l show ?thesis
  proof (cases rule: leave_room_cases)
    case (member evs b ts)
    from remove_peer_lease [OF member(1)] show ?thesis by (simp add: lease_view_def)
  qed simp
qed

lemma disconnect_keeps:
  assumes "room_inv (g, pend)" "\<not> g_is_creating g" "handler_inv g r hs" "se_heap e r \<noteq> None"
    "handle_disconnect e hs g = (hs', g', o1)"
  shows "\<not> g_is_creating g' \<and> handler_inv g' r hs' \<and> admits r g g'"
proof (cases "hd_current hs")
  case False
  with assms show ?thesis by (auto simp: handle_disconnect_def handler_inv_def admits_def)
next
  case True
  let ?hs = "hs\<lparr> hd_disconnected := True, hd_pending_join := None \<rparr>"
  have "disconnect_abort e ?hs g = (g, [])" using assms(3) by (simp add: disconnect_abort_def handler_inv_def)
  with True assms(5) obtain o2 where l: "leave_room e ?hs g = (g', o2)"
    and hs': "hs' = ?hs\<lparr> hd_current := False, hd_creation_game := False, hd_creation_generation := 0, hd_game_peer := False \<rparr>"
    by (auto simp: handle_disconnect_def Let_def split: prod.splits)
  have "\<not> is_member g' r"
    using leave_room_spec [OF l] assms(1,3,4) by (simp add: room_inv_def handler_inv_def)
  with assms(2,3) hs' leave_room_lease [OF l] leave_room_admits [OF l] show ?thesis
    by (simp add: handler_inv_def)
qed

lemma service_step_inv: "service_step s s' \<Longrightarrow> service_inv s \<Longrightarrow> service_inv s'"
proof (induction rule: service_step.induct)
  case (attach m r g pend)
  then have "\<not> is_member g r" using service_invD(4) by blast
  with attach show ?case by (auto simp: service_inv_def handler_inv_def new_handler_def)
next
  case (request m r hs e user req g disc ch hs' g' o1 pend)
  note i = service_invD [OF request(6)]
  have h: "handler_inv g r hs" using i(3) request(1) .
  then have p: "hd_peer hs = r" "\<not> hd_creation_game hs" "\<not> hd_disconnected hs"
    using request(2) by (auto simp: handler_inv_def)
  have live: "se_heap e (hd_peer hs) \<noteq> None" using persistent_user_live [OF request(3)] p(1) by simp
  note e = request_ends [OF i(1) request(4) i(2) live p(2) request(5)]
  have "handler_inv g' r hs'" using e p request(2) by (auto simp: handler_inv_def same_peer_def)
  moreover have "room_inv (g', pend @ tasks_of o1)"
    using movesD(1) [OF request_moves [OF request(5)] i(1) request(4)] .
  ultimately show ?case
    using service_inv_update [OF request(6,1)] e request_admits [OF request(5)] p(1) by blast
next
  case (disconnect m r hs e g hs' g' o1 pend)
  note i = service_invD [OF disconnect(5)]
  have h: "handler_inv g r hs" using i(3) disconnect(1) .
  have "room_inv (g', pend @ tasks_of o1)"
    using movesD(1) [OF disconnect_moves [OF disconnect(4)] i(1) disconnect(3)] .
  then show ?case
    using service_inv_update [OF disconnect(5,1)] disconnect_keeps [OF i(1,2) h disconnect(2,4)] by blast
next
  case (update m r hs e waited g hs' res pend)
  note i = service_invD [OF update(3)]
  have h: "handler_inv g r hs" using i(3) update(1) .
  have "handler_inv g r hs'"
    using update(2) h by (auto simp: pending_join_update_def handler_inv_def Let_def split: option.splits if_splits)
  then show ?case
    using service_inv_update [OF update(3,1) i(1,2)] by (simp add: admits_def)
next
  case (expire u n pend m g)
  note i = service_invD [OF expire(2)]
  have "room_inv (expire_reservation u n g, remove1 (ExpireReservation u n) pend)"
    using i(1) expire(1) by (simp add: room_inv_def expire_reservation_res_inv pending_inv_expire)
  moreover have "is_member (expire_reservation u n g) q = is_member g q"
    "g_is_creating (expire_reservation u n g) = g_is_creating g" for q
    by (simp_all add: is_member_def expire_reservation_def)
  ultimately show ?case using expire(2) by (simp add: service_inv_def handler_inv_def)
qed

lemma served_inv: "served s \<Longrightarrow> service_inv s"
proof (induction rule: served.induct)
  case (start r gid address)
  then show ?case using new_room_inv [of r gid address] by (simp add: service_inv_def is_member_def new_game_def)
next
  case (step s s')
  from service_step_inv [OF step(2,3)] show ?case .
qed

text \<open>
  C1: Whatever requests the peers of a room send, whenever they are disconnected and
  whatever reservations expire, the room stays sound, no request leaves it in creation, no
  handler keeps hold of a creation, and every member belongs to a handler that has not been
  disconnected: no ghost stays in the room.
\<close>

theorem service_sound:
  assumes "served (m, g, pend)"
  shows "room_inv (g, pend) \<and> \<not> g_is_creating g
    \<and> (\<forall>r. is_member g r \<longrightarrow> (\<exists>hs. m r = Some hs \<and> \<not> hd_disconnected hs))
    \<and> (\<forall>r hs. m r = Some hs \<longrightarrow> \<not> hd_creation_game hs)"
proof -
  note i = service_invD [OF served_inv [OF assms]]
  have "\<exists>hs. m r = Some hs \<and> \<not> hd_disconnected hs" if "is_member g r" for r
    using i(4) [OF that] i(3) [of r] that by (auto simp: handler_inv_def)
  then show ?thesis using i by (auto simp: handler_inv_def)
qed

lemma service_sound_witness:
  "is_member (fst (snd (handle_request sample_env (\<lambda>_. False) 0 ''owner'' (ReqJoin 227 sample_join) (new_handler 7)
       (new_game 0 [] [])))) 7
   \<and> \<not> g_is_creating (fst (snd (handle_request sample_env (\<lambda>_. False) 0 ''owner'' (ReqJoin 227 sample_join) (new_handler 7)
       (new_game 0 [] []))))"
proof -
  let ?g = "new_game 0 [] [] :: sample_value game"
  have member: "is_member (fst (snd (handle_request sample_env (\<lambda>_. False) 0 ''owner'' (ReqJoin 227 sample_join)
      (new_handler 7) ?g))) 7" by code_simp
  obtain hs' g' o1 where r: "handle_request sample_env (\<lambda>_. False) 0 ''owner'' (ReqJoin 227 sample_join) (new_handler 7) ?g
      = (hs', g', o1)" by (metis prod_cases3)
  have "served (Map.empty(7 \<mapsto> new_handler 7), ?g, [])"
    by (rule served.step [OF served.start]) (rule service_step.attach, simp)
  moreover have "within (request_cost (ReqJoin 227 sample_join)) ?g"
    by (simp add: within_def room_load_def new_game_def sample_join_def)
  moreover have "persistent_user (se_heap sample_env) 7 = Some ''owner''"
    by (simp add: persistent_user_def sample_env_def sample_heap_def)
  moreover have "hd_current (new_handler 7 :: sample_value handler)" by (simp add: new_handler_def)
  ultimately have "served ((Map.empty(7 \<mapsto> new_handler 7))(7 \<mapsto> hs'), g', [] @ tasks_of o1)"
    using r by (intro served.step [OF _ service_step.request]) auto
  from service_sound [OF this] member r show ?thesis by simp
qed

section \<open>Waiting joins\<close>

text \<open>
  C6: A join that waits for a creation is decided as soon as the creation ends. In a sound
  room it is kept only while the creation it waits for is running and five seconds have not
  passed; it is run again exactly when that creation was committed; otherwise it is refused.
\<close>

theorem waiting_join_decided:
  assumes "room_inv (g, pend)" "hd_pending_join hs = Some pj" "pj_generation pj \<noteq> 0"
    "pending_join_update e waited hs g = (hs', res)"
  shows "(res = Keep \<longleftrightarrow> g_is_creating g \<and> g_active_creation_generation g = pj_generation pj \<and> waited < 5000)
    \<and> (res = Retry (pj_op pj) (pj_params pj) \<longleftrightarrow> g_is_created g \<and> g_active_creation_generation g = pj_generation pj)
    \<and> (hd_pending_join hs' \<noteq> None \<longleftrightarrow> res = Keep)"
proof -
  have "\<not> (g_is_creating g \<and> g_is_created g)" using assms(1) by (simp add: room_inv_def lease_inv_def)
  with assms(2-4) show ?thesis
    by (auto simp: pending_join_update_def Let_def split: if_splits)
qed

definition waiting_handler :: "sample_value handler" where
  "waiting_handler = (new_handler 7)\<lparr> hd_pending_join := Some \<lparr> pj_generation = 1, pj_op = 226, pj_params = sample_join \<rparr> \<rparr>"

lemma waiting_join_decided_witness:
  "snd (pending_join_update sample_env 6000 waiting_handler (new_game 0 [] [])) \<noteq> Keep"
proof -
  obtain hs' res where u: "pending_join_update sample_env 6000 waiting_handler (new_game 0 [] []) = (hs', res)" by force
  from waiting_join_decided [OF new_room_inv _ _ this] u show ?thesis by (simp add: waiting_handler_def)
qed

section \<open>Interest groups\<close>

lemma set_groups_test: "ig_test (fold (\<lambda>v s. ig_set s v True) vs ig) w \<longleftrightarrow> w \<in> set vs \<or> ig_test ig w"
  by (induction vs arbitrary: ig) (auto simp: ig_test_set)

lemma reset_groups_test: "ig_test (fold (\<lambda>v s. ig_reset s v) vs ig) w \<longleftrightarrow> w = 0 \<or> w \<notin> set vs \<and> ig_test ig w"
proof (induction vs arbitrary: ig)
  case Nil
  then show ?case by (simp add: ig_test_def)
qed (auto simp: ig_test_reset)

lemma change_groups_test:
  "ig_test (change_groups add rem ig) w \<longleftrightarrow> w = 0 \<or> add = [] \<or> w \<in> set add \<or> rem \<noteq> [] \<and> w \<notin> set rem \<and> ig_test ig w"
proof (cases "add = []")
  case True
  then show ?thesis by (simp add: change_groups_def ig_test_all)
next
  case False
  then show ?thesis
    by (simp add: change_groups_def set_groups_test reset_groups_test ig_test_all) (auto simp: ig_test_def)
qed

text \<open>
  What a ChangeInterestGroups request does to its member. A group is heard afterwards
  when it is group 0, when it is in the list of additions, or when it was heard and some list
  of removals was given without it; but when the list of additions is absent from the request
  the member hears every group, just as when it is present and empty, and when the list of
  removals is absent every group not added is dropped: an absent list is not "no change".
\<close>

theorem change_groups_spec:
  assumes "has_joined_peer (se_heap e) hs g" "se_heap e (hd_peer hs) \<noteq> None"
    "handle_change_groups e add rem opc hs g = (hs', g', o1)"
  shows "\<exists>gp gp'. find_peer_ref (se_heap e) g (Some (hd_peer hs)) = Some gp
    \<and> find_peer_ref (se_heap e) g' (Some (hd_peer hs)) = Some gp' \<and> o1 = []
    \<and> (\<forall>v. ig_test (gp_interest_groups gp') v \<longleftrightarrow> v = 0 \<or> add \<in> {None, Some []} \<or> v \<in> set (the add)
           \<or> rem \<notin> {None, Some []} \<and> v \<notin> set (the rem) \<and> ig_test (gp_interest_groups gp) v)"
proof -
  let ?P = "\<lambda>gp. gp_active gp \<and> lock (se_heap e) (gp_peer gp) = Some (hd_peer hs)"
  let ?l = "\<lambda>x. case x of None \<Rightarrow> [] | Some vs \<Rightarrow> (vs :: u8 list)"
  let ?f = "\<lambda>gp. gp\<lparr> gp_interest_groups := change_groups (?l add) (?l rem) (gp_interest_groups gp) \<rparr>"
  obtain gp where f: "List.find ?P (g_peers g) = Some gp"
    using assms(1) by (auto simp: has_joined_peer_def actor_id_for_peer_def split: if_splits)
  then have "?P (?f gp)" by (auto simp: find_Some_iff)
  from update_first_find [where f = ?f, OF f this]
  have f': "List.find ?P (update_first ?P ?f (g_peers g)) = Some (?f gp)" .
  have g': "g' = g\<lparr> g_peers := update_first ?P ?f (g_peers g) \<rparr> \<and> o1 = []"
    using assms(1,3) f by (auto simp: handle_change_groups_def apply_interest_groups_def find_peer_ref_def Let_def)
  have "ig_test (gp_interest_groups (?f gp)) v \<longleftrightarrow> v = 0 \<or> add \<in> {None, Some []} \<or> v \<in> set (the add)
      \<or> rem \<notin> {None, Some []} \<and> v \<notin> set (the rem) \<and> ig_test (gp_interest_groups gp) v" for v
    by (auto simp: change_groups_test split: option.splits)
  with f f' g' show ?thesis by (auto simp: find_peer_ref_def)
qed

definition joined_room :: "sample_value game" where
  "joined_room = (new_game 0 [] [])\<lparr> g_peers := [gp_default\<lparr> gp_peer := Some 7, gp_actor_id := 1 \<rparr>] \<rparr>"

lemma change_groups_spec_witness:
  "\<exists>gp. find_peer_ref sample_heap (fst (snd (handle_change_groups sample_env None (Some [5]) 248 (new_handler 7) joined_room)))
     (Some 7) = Some gp \<and> ig_test (gp_interest_groups gp) 5"
proof -
  obtain hs' g' o1 where c: "handle_change_groups sample_env None (Some [5]) 248 (new_handler 7) joined_room = (hs', g', o1)"
    by (metis prod_cases3)
  have "has_joined_peer (se_heap sample_env) (new_handler 7) joined_room" by code_simp
  from change_groups_spec [OF this _ c] c show ?thesis
    by (auto simp: new_handler_def sample_env_def sample_heap_def)
qed

end
