(* ===== verification/PeerStore.thy ===== *)
theory PeerStore
  imports GameState
begin

text \<open>
  The store of disconnected but known peers (src/peer_persistence.cpp,
  include/luxon/server/peer_persistence.hpp) and its messages between processes
  (src/server_manager.cpp): a peer that is routed to another server is stored under its
  token, the next server loads it by that token and thereby uses the token up, and a
  stored peer that nobody loads expires.
\<close>

section \<open>Stored peers\<close>

text \<open>The views into \<^theory_text>\<open>invitation_buf\<close> are the strings they show.\<close>

record game_info =
  gn_id :: string
  gn_server_address :: string
  gn_lobby :: string
  gn_lobby_type :: u8
  gn_app :: string
  gn_version :: string

definition no_game_info :: game_info where
  "no_game_info = \<lparr> gn_id = [], gn_server_address = [], gn_lobby = [], gn_lobby_type = 0, gn_app = [], gn_version = [] \<rparr>"

definition has_game_info :: "game_info \<Rightarrow> bool" where
  "has_game_info i \<longleftrightarrow> gn_app i \<noteq> [] \<and> gn_id i \<noteq> []"

record stored_peer =
  sp_invitation :: game_info
  sp_owned_game :: "game_ref option"
  sp_app :: "nat option"
  sp_user_id :: string
  sp_token :: string
  sp_reconnect_ttl_ms :: int
  sp_store_generation :: u64

text \<open>\<^theory_text>\<open>create_persistent_peer\<close>: the token is drawn at random.\<close>

definition create_persistent_peer :: "string \<Rightarrow> stored_peer" where
  "create_persistent_peer token = \<lparr> sp_invitation = no_game_info, sp_owned_game = None, sp_app = None,
     sp_user_id = [], sp_token = token, sp_reconnect_ttl_ms = 30000, sp_store_generation = 0 \<rparr>"

definition reset_game :: "stored_peer \<Rightarrow> stored_peer" where
  "reset_game pp = pp\<lparr> sp_invitation := no_game_info, sp_owned_game := None \<rparr>"

text \<open>\<^theory_text>\<open>ready\<close> says which games are created and not in creation.\<close>

definition reset_owned_game_if_created :: "(game_ref \<Rightarrow> bool) \<Rightarrow> stored_peer \<Rightarrow> stored_peer" where
  "reset_owned_game_if_created ready pp =
    (case sp_owned_game pp of None \<Rightarrow> pp | Some g \<Rightarrow> if ready g then pp\<lparr> sp_owned_game := None \<rparr> else pp)"

definition invite :: "game_info \<Rightarrow> stored_peer \<Rightarrow> stored_peer" where
  "invite info pp = pp\<lparr> sp_invitation := info \<rparr>"

definition invite_game :: "game_ref \<Rightarrow> game_info \<Rightarrow> bool \<Rightarrow> stored_peer \<Rightarrow> stored_peer" where
  "invite_game g info is_creating pp =
    (let pp1 = invite info pp in if is_creating then pp1\<lparr> sp_owned_game := Some g \<rparr> else pp1)"

section \<open>The store of a process\<close>

text \<open>
  The list of stored peers, the counter of store generations, and the expiry callbacks
  pending: their delay, the token and the generation they are for.
\<close>

record peer_store =
  ps_peers :: "stored_peer list"
  ps_next :: u64
  ps_expiries :: "(nat \<times> string \<times> u64) list"

definition empty_store :: peer_store where
  "empty_store = \<lparr> ps_peers = [], ps_next = 0, ps_expiries = [] \<rparr>"

definition has_persistent_peer :: "string \<Rightarrow> peer_store \<Rightarrow> bool" where
  "has_persistent_peer token s \<longleftrightarrow> list_ex (\<lambda>v. sp_token v = token) (ps_peers s)"

definition store_persistent_peer :: "(game_ref \<Rightarrow> bool) \<Rightarrow> stored_peer \<Rightarrow> peer_store \<Rightarrow> peer_store" where
  "store_persistent_peer ready pp s =
    (if sp_app pp = None then s
     else let pp1 = reset_owned_game_if_created ready pp;
              others = filter (\<lambda>v. sp_token v \<noteq> sp_token pp1) (ps_peers s);
              generation = ps_next s + 1;
              expiry = (if 0 \<le> sp_reconnect_ttl_ms pp1
                        then [(nat (max 30000 (sp_reconnect_ttl_ms pp1)), sp_token pp1, generation)] else [])
          in s\<lparr> ps_peers := others @ [pp1\<lparr> sp_store_generation := generation \<rparr>], ps_next := generation,
                ps_expiries := ps_expiries s @ expiry \<rparr>)"

definition expire_stored :: "nat \<times> string \<times> u64 \<Rightarrow> peer_store \<Rightarrow> peer_store" where
  "expire_stored t s = (case t of (ms, token, generation) \<Rightarrow>
     s\<lparr> ps_peers := filter (\<lambda>v. \<not> (sp_token v = token \<and> sp_store_generation v = generation)) (ps_peers s),
        ps_expiries := remove1 t (ps_expiries s) \<rparr>)"

definition reset_persistent_peer_game_ownership :: "game_ref \<Rightarrow> peer_store \<Rightarrow> peer_store" where
  "reset_persistent_peer_game_ownership g s =
     s\<lparr> ps_peers := update_first (\<lambda>pp. sp_owned_game pp = Some g) (\<lambda>pp. pp\<lparr> sp_owned_game := None \<rparr>) (ps_peers s) \<rparr>"

section \<open>Messages between processes\<close>

text \<open>
  The parameters of a message, absent or of another type as \<^theory_text>\<open>None\<close>. Revisions
  travel as signed 64-bit integers.
\<close>

record peer_message =
  pm_token :: "string option"
  pm_user_id :: "string option"
  pm_ttl :: "int option"
  pm_revision :: "int option"
  pm_info :: game_info

definition consume_message :: "string \<Rightarrow> u64 \<Rightarrow> peer_message" where
  "consume_message token generation =
     \<lparr> pm_token = Some token, pm_user_id = None, pm_ttl = None, pm_revision = Some (sint generation), pm_info = no_game_info \<rparr>"

text \<open>\<^theory_text>\<open>refresh\<close> is the freshly drawn token, when one is asked for.\<close>

definition load_persistent_peer ::
  "string \<Rightarrow> string option \<Rightarrow> peer_store \<Rightarrow> stored_peer option \<times> peer_message list \<times> peer_store" where
  "load_persistent_peer token refresh s =
    (case List.extract (\<lambda>v. sp_token v = token) (ps_peers s) of
       None \<Rightarrow> (None, [], s)
     | Some (before, pp, after) \<Rightarrow>
        (Some (case refresh of None \<Rightarrow> pp | Some t \<Rightarrow> pp\<lparr> sp_token := t \<rparr>),
         [consume_message (sp_token pp) (sp_store_generation pp)], s\<lparr> ps_peers := before @ after \<rparr>))"

text \<open>The message a peer about to be stored is announced with; \<^theory_text>\<open>app\<close> is its application's id and version.\<close>

definition sync_persistent_peer :: "(nat \<Rightarrow> string \<times> string) \<Rightarrow> stored_peer \<Rightarrow> peer_message" where
  "sync_persistent_peer app pp =
     \<lparr> pm_token = Some (sp_token pp), pm_user_id = Some (sp_user_id pp), pm_ttl = Some (sp_reconnect_ttl_ms pp),
       pm_revision = Some (sint (sp_store_generation pp)),
       pm_info = (if has_game_info (sp_invitation pp) then sp_invitation pp
                  else case sp_app pp of None \<Rightarrow> no_game_info
                  | Some a \<Rightarrow> no_game_info\<lparr> gn_app := fst (app a), gn_version := snd (app a) \<rparr>) \<rparr>"

definition receive_consume :: "peer_message \<Rightarrow> peer_store \<Rightarrow> peer_store" where
  "receive_consume m s =
    (case pm_token m of None \<Rightarrow> s
     | Some token \<Rightarrow>
        (case pm_revision m of
           Some revision \<Rightarrow>
             (if 0 \<le> revision
              then s\<lparr> ps_peers := filter (\<lambda>v. \<not> (sp_token v = token \<and> sp_store_generation v \<le> word_of_int revision)) (ps_peers s) \<rparr>
              else s\<lparr> ps_peers := filter (\<lambda>v. sp_token v \<noteq> token) (ps_peers s) \<rparr>)
         | None \<Rightarrow> s\<lparr> ps_peers := filter (\<lambda>v. sp_token v \<noteq> token) (ps_peers s) \<rparr>))"

text \<open>\<^theory_text>\<open>get_app\<close> finds or loads the application; \<^theory_text>\<open>fresh\<close> is the token drawn and then replaced.\<close>

definition receive_store ::
  "(game_ref \<Rightarrow> bool) \<Rightarrow> (game_info \<Rightarrow> nat option) \<Rightarrow> string \<Rightarrow> peer_message \<Rightarrow> peer_store \<Rightarrow> peer_store" where
  "receive_store ready get_app fresh m s =
    (case (pm_token m, pm_user_id m) of
       (Some token, Some user) \<Rightarrow>
         (let pp = (create_persistent_peer fresh)\<lparr> sp_token := token, sp_user_id := user \<rparr>;
              pp1 = (case pm_ttl m of None \<Rightarrow> pp | Some ttl \<Rightarrow> pp\<lparr> sp_reconnect_ttl_ms := ttl \<rparr>);
              revision = (case pm_revision m of Some r \<Rightarrow> if 0 \<le> r then Some (word_of_int r :: u64) else None | None \<Rightarrow> None);
              has_newer = (case revision of None \<Rightarrow> False
                | Some r \<Rightarrow> list_ex (\<lambda>v. sp_token v = token \<and> r < sp_store_generation v) (ps_peers s));
              pp2 = (case revision of None \<Rightarrow> pp1 | Some r \<Rightarrow> pp1\<lparr> sp_store_generation := r \<rparr>)
          in if has_newer then s
             else case get_app (pm_info m) of None \<Rightarrow> s
             | Some a \<Rightarrow> store_persistent_peer ready (invite (pm_info m) (pp2\<lparr> sp_app := Some a \<rparr>)) s)
     | _ \<Rightarrow> s)"

section \<open>The store over time\<close>

text \<open>Below the wrap-around of the counter, every step of a store.\<close>

inductive store_step :: "peer_store \<Rightarrow> peer_store \<Rightarrow> bool" where
  stored: "ps_next s < - 1 \<Longrightarrow> store_step s (store_persistent_peer ready pp s)"
| loaded: "load_persistent_peer token refresh s = (r, ms, s') \<Longrightarrow> store_step s s'"
| expired: "t \<in> set (ps_expiries s) \<Longrightarrow> store_step s (expire_stored t s)"
| disowned: "store_step s (reset_persistent_peer_game_ownership g s)"
| consumed: "store_step s (receive_consume m s)"
| received: "ps_next s < - 1 \<Longrightarrow> store_step s (receive_store ready get_app fresh m s)"

inductive store_reach :: "peer_store \<Rightarrow> bool" where
  fresh: "store_reach empty_store"
| grown: "store_reach s \<Longrightarrow> store_step s s' \<Longrightarrow> store_reach s'"

text \<open>
  The invariant: one peer per token, every generation issued once, and a peer that may
  expire has its own callback pending.
\<close>

definition store_inv :: "peer_store \<Rightarrow> bool" where
  "store_inv s \<longleftrightarrow> distinct (map sp_token (ps_peers s))
     \<and> (\<forall>v\<in>set (ps_peers s). sp_store_generation v \<le> ps_next s
          \<and> (0 \<le> sp_reconnect_ttl_ms v \<longrightarrow>
               (nat (max 30000 (sp_reconnect_ttl_ms v)), sp_token v, sp_store_generation v) \<in> set (ps_expiries s)))
     \<and> (\<forall>(ms, token, generation)\<in>set (ps_expiries s). generation \<le> ps_next s)
     \<and> distinct (map (\<lambda>(ms, token, generation). generation) (ps_expiries s))"

lemma store_inv_fewer:
  assumes "store_inv s" "distinct (map sp_token ps)" "set ps \<subseteq> set (ps_peers s)"
  shows "store_inv (s\<lparr> ps_peers := ps \<rparr>)"
  using assms by (simp add: store_inv_def subset_iff)

lemma next_unat:
  assumes "c < (- 1 :: u64)"
  shows "unat (c + 1) = unat c + 1"
proof -
  from assms have "unat c < unat (- 1 :: u64)" by (simp only: word_less_nat_alt)
  then have "unat c + unat (1 :: u64) < 2 ^ LENGTH(64)"
    by (simp add: unsigned_minus_1_eq_mask mask_eq_exp_minus_1)
  then show ?thesis by (simp only: unat_add_noof) simp
qed

lemma next_above: "c < (- 1 :: u64) \<Longrightarrow> c < c + 1"
  by (simp add: word_less_nat_alt next_unat)

lemma reset_owned_fields [simp]:
  "sp_token (reset_owned_game_if_created ready pp) = sp_token pp"
  "sp_reconnect_ttl_ms (reset_owned_game_if_created ready pp) = sp_reconnect_ttl_ms pp"
  "sp_app (reset_owned_game_if_created ready pp) = sp_app pp"
  by (simp_all add: reset_owned_game_if_created_def split: option.split)

lemma store_inv_store:
  assumes "store_inv s" "ps_next s < - 1"
  shows "store_inv (store_persistent_peer ready pp s)"
proof (cases "sp_app pp")
  case None
  with assms(1) show ?thesis by (simp add: store_persistent_peer_def)
next
  case (Some a)
  note up = next_above [OF assms(2)]
  then have le: "g \<le> ps_next s \<Longrightarrow> g \<le> ps_next s + 1 \<and> g \<noteq> ps_next s + 1" for g by auto
  from Some assms(1) le show ?thesis
    by (fastforce simp: store_persistent_peer_def store_inv_def Let_def distinct_map_filter)
qed

lemma store_inv_load:
  assumes "store_inv s" "load_persistent_peer token refresh s = (r, ms, s')"
  shows "store_inv s'"
proof (cases "List.extract (\<lambda>v. sp_token v = token) (ps_peers s)")
  case None
  with assms show ?thesis by (simp add: load_persistent_peer_def)
next
  case (Some t)
  then obtain xs pp ys where e: "List.extract (\<lambda>v. sp_token v = token) (ps_peers s) = Some (xs, pp, ys)" by (cases t) auto
  then have p: "ps_peers s = xs @ pp # ys" by (rule extract_SomeE [THEN conjunct1])
  have "distinct (map sp_token (xs @ ys))" using assms(1) by (simp add: store_inv_def p)
  then have "store_inv (s\<lparr> ps_peers := xs @ ys \<rparr>)" by (rule store_inv_fewer [OF assms(1)]) (auto simp: p)
  moreover have "s' = s\<lparr> ps_peers := xs @ ys \<rparr>" using assms(2) e by (simp add: load_persistent_peer_def)
  ultimately show ?thesis by (simp only:)
qed

lemma store_inv_expire:
  assumes "store_inv s" "t \<in> set (ps_expiries s)"
  shows "store_inv (expire_stored t s)"
proof -
  obtain ms token generation where t: "t = (ms, token, generation)" by (metis prod_cases3)
  have d: "distinct (map (\<lambda>(ms, token, generation). generation) (ps_expiries s))"
    using assms(1) by (simp add: store_inv_def)
  have kept: "x \<in> set (remove1 t (ps_expiries s))" if "x \<in> set (ps_expiries s)" "x \<noteq> t" for x
    using that by simp
  have "distinct (map (\<lambda>(ms, token, generation). generation) (remove1 t (ps_expiries s)))"
    using d by (auto simp: distinct_map intro: inj_on_subset dest: notin_set_remove1)
  moreover have "(nat (max 30000 (sp_reconnect_ttl_ms v)), sp_token v, sp_store_generation v) \<in> set (remove1 t (ps_expiries s))"
    if "v \<in> set (ps_peers s)" "\<not> (sp_token v = token \<and> sp_store_generation v = generation)" "0 \<le> sp_reconnect_ttl_ms v" for v
  proof (rule kept)
    show "(nat (max 30000 (sp_reconnect_ttl_ms v)), sp_token v, sp_store_generation v) \<in> set (ps_expiries s)"
      using assms(1) that by (simp add: store_inv_def)
    show "(nat (max 30000 (sp_reconnect_ttl_ms v)), sp_token v, sp_store_generation v) \<noteq> t"
      using that(2) by (auto simp: t)
  qed
  moreover have "\<forall>x\<in>set (remove1 t (ps_expiries s)). case x of (ms, token, generation) \<Rightarrow> generation \<le> ps_next s"
    using assms(1) set_remove1_subset [of t "ps_expiries s"] unfolding store_inv_def by blast
  ultimately show ?thesis
    using assms(1) by (simp add: expire_stored_def t store_inv_def distinct_map_filter)
qed

lemma update_first_set:
  assumes "v \<in> set (update_first P f xs)"
  shows "v \<in> set xs \<or> (\<exists>x\<in>set xs. v = f x)"
  using assms by (induction xs) (auto split: if_splits)

lemma store_inv_disown:
  assumes "store_inv s"
  shows "store_inv (reset_persistent_peer_game_ownership g s)"
proof -
  let ?f = "\<lambda>pp. pp\<lparr> sp_owned_game := None \<rparr>" and ?P = "\<lambda>pp. sp_owned_game pp = Some g"
  have "map sp_token (update_first ?P ?f (ps_peers s)) = map sp_token (ps_peers s)"
    by (rule update_first_map) simp
  moreover have "\<exists>x\<in>set (ps_peers s). sp_token v = sp_token x \<and> sp_store_generation v = sp_store_generation x
      \<and> sp_reconnect_ttl_ms v = sp_reconnect_ttl_ms x" if "v \<in> set (update_first ?P ?f (ps_peers s))" for v
    using update_first_set [OF that] by auto
  ultimately show ?thesis
    using assms unfolding store_inv_def reset_persistent_peer_game_ownership_def
    by simp (metis (no_types, lifting))
qed

lemma receive_consume_filter: "\<exists>P. receive_consume m s = s\<lparr> ps_peers := filter P (ps_peers s) \<rparr>"
proof (cases "pm_token m")
  case None
  then have "receive_consume m s = s\<lparr> ps_peers := filter (\<lambda>_. True) (ps_peers s) \<rparr>" by (simp add: receive_consume_def)
  then show ?thesis by blast
next
  case (Some token)
  then show ?thesis by (cases "pm_revision m") (auto simp: receive_consume_def)
qed

lemma receive_store_shape:
  "receive_store ready get_app fresh m s = s
    \<or> (\<exists>pp. receive_store ready get_app fresh m s = store_persistent_peer ready pp s)"
  by (auto simp: receive_store_def Let_def split: option.splits)

lemma store_step_inv: "store_step s s' \<Longrightarrow> store_inv s \<Longrightarrow> store_inv s'"
proof (induction rule: store_step.induct)
  case (stored s ready pp)
  then show ?case by (rule store_inv_store [rotated])
next
  case (loaded token refresh s r ms s')
  then show ?case using store_inv_load by blast
next
  case (expired t s)
  then show ?case by (simp add: store_inv_expire)
next
  case (disowned s g)
  then show ?case by (rule store_inv_disown)
next
  case (consumed s m)
  obtain P where "receive_consume m s = s\<lparr> ps_peers := filter P (ps_peers s) \<rparr>" using receive_consume_filter by blast
  moreover have "store_inv (s\<lparr> ps_peers := filter P (ps_peers s) \<rparr>)"
    by (rule store_inv_fewer [OF consumed]) (use consumed in \<open>auto simp: store_inv_def distinct_map_filter\<close>)
  ultimately show ?case by simp
next
  case (received s ready get_app fresh m)
  then show ?case using receive_store_shape [of ready get_app fresh m s] store_inv_store by metis
qed

lemma store_reach_inv: "store_reach s \<Longrightarrow> store_inv s"
proof (induction rule: store_reach.induct)
  case fresh
  show ?case by (simp add: store_inv_def empty_store_def)
next
  case (grown s s')
  from store_step_inv [OF grown(2,3)] show ?case .
qed

text \<open>
  C14: In every store that can arise a token names at most one stored peer, every peer that
  may expire has its own expiry callback pending, and that callback removes this peer, and no
  other peer, whatever was stored under the same token before.
\<close>

theorem peer_store_sound:
  assumes "store_reach s"
  shows "distinct (map sp_token (ps_peers s))
    \<and> (\<forall>v\<in>set (ps_peers s). 0 \<le> sp_reconnect_ttl_ms v \<longrightarrow>
         (\<exists>ms\<ge>30000. (ms, sp_token v, sp_store_generation v) \<in> set (ps_expiries s)
            \<and> set (ps_peers (expire_stored (ms, sp_token v, sp_store_generation v) s)) = set (ps_peers s) - {v}))"
proof (intro conjI ballI impI)
  have i: "store_inv s" by (rule store_reach_inv [OF assms])
  then show d: "distinct (map sp_token (ps_peers s))" by (simp add: store_inv_def)
  fix v assume v: "v \<in> set (ps_peers s)" "0 \<le> sp_reconnect_ttl_ms v"
  have "w = v" if "w \<in> set (ps_peers s)" "sp_token w = sp_token v" for w
    using d that v(1) by (auto simp: distinct_map inj_on_def)
  then have "set (ps_peers (expire_stored (ms, sp_token v, sp_store_generation v) s)) = set (ps_peers s) - {v}" for ms
    by (auto simp: expire_stored_def)
  moreover have "(nat (max 30000 (sp_reconnect_ttl_ms v)), sp_token v, sp_store_generation v) \<in> set (ps_expiries s)"
    using i v by (simp add: store_inv_def)
  moreover have "30000 \<le> nat (max 30000 (sp_reconnect_ttl_ms v))" by simp
  ultimately show "\<exists>ms\<ge>30000. (ms, sp_token v, sp_store_generation v) \<in> set (ps_expiries s)
      \<and> set (ps_peers (expire_stored (ms, sp_token v, sp_store_generation v) s)) = set (ps_peers s) - {v}"
    by blast
qed

definition sample_peer :: stored_peer where
  "sample_peer = (create_persistent_peer ''tok'')\<lparr> sp_app := Some 0, sp_user_id := ''u'' \<rparr>"

lemma peer_store_sound_witness:
  "distinct (map sp_token (ps_peers (store_persistent_peer (\<lambda>_. False) sample_peer
     (store_persistent_peer (\<lambda>_. False) sample_peer empty_store))))"
proof -
  let ?s = "store_persistent_peer (\<lambda>_. False) sample_peer empty_store"
  have "ps_next empty_store < - 1" "ps_next ?s < - 1" by code_simp+
  then have "store_reach (store_persistent_peer (\<lambda>_. False) sample_peer ?s)"
    by (intro store_reach.grown [OF _ store_step.stored] store_reach.fresh)
  from peer_store_sound [OF this] show ?thesis by blast
qed

lemma load_uses_token:
  assumes "store_inv s" "load_persistent_peer token refresh s = (r, ms, s')"
  shows "(r \<noteq> None \<longleftrightarrow> has_persistent_peer token s) \<and> \<not> has_persistent_peer token s'
    \<and> load_persistent_peer token refresh' s' = (None, [], s')
    \<and> set (ps_peers s') = {v \<in> set (ps_peers s). sp_token v \<noteq> token}"
proof (cases "List.extract (\<lambda>v. sp_token v = token) (ps_peers s)")
  case None
  then have "\<forall>v\<in>set (ps_peers s). sp_token v \<noteq> token" by (simp add: extract_None_iff)
  with None assms(2) show ?thesis
    by (auto simp: load_persistent_peer_def has_persistent_peer_def list_ex_iff)
next
  case (Some t)
  then obtain xs pp ys where e: "List.extract (\<lambda>v. sp_token v = token) (ps_peers s) = Some (xs, pp, ys)" by (cases t) auto
  then have p: "ps_peers s = xs @ pp # ys" "sp_token pp = token" by (auto dest: extract_SomeE)
  have "distinct (map sp_token (ps_peers s))" using assms(1) by (simp add: store_inv_def)
  with p have others: "\<forall>v\<in>set (xs @ ys). sp_token v \<noteq> token" by (auto simp: image_iff)
  then have "List.extract (\<lambda>v. sp_token v = token) (xs @ ys) = None" by (simp add: extract_None_iff)
  with e p others assms(2) show ?thesis
    by (auto simp: load_persistent_peer_def has_persistent_peer_def list_ex_iff)
qed

text \<open>
  A token is good for one load. After a peer was loaded by its token, the token is
  unknown to the process, loading it again yields nothing, and the other stored peers are as
  before; a token that is not stored loads nothing and changes nothing.
\<close>

theorem token_used_once:
  assumes "store_reach s" "load_persistent_peer token refresh s = (r, ms, s')"
  shows "(r \<noteq> None \<longleftrightarrow> has_persistent_peer token s) \<and> \<not> has_persistent_peer token s'
    \<and> load_persistent_peer token refresh' s' = (None, [], s')
    \<and> set (ps_peers s') = {v \<in> set (ps_peers s). sp_token v \<noteq> token}"
  by (rule load_uses_token [OF store_reach_inv [OF assms(1)] assms(2)])

lemma token_used_once_witness:
  "\<not> has_persistent_peer ''tok'' (snd (snd (load_persistent_peer ''tok'' None
     (store_persistent_peer (\<lambda>_. False) sample_peer empty_store))))"
proof -
  let ?s = "store_persistent_peer (\<lambda>_. False) sample_peer empty_store"
  obtain r ms s' where l: "load_persistent_peer ''tok'' None ?s = (r, ms, s')" by (metis prod_cases3)
  have "ps_next empty_store < - 1" by code_simp
  then have "store_reach ?s" by (intro store_reach.grown [OF _ store_step.stored] store_reach.fresh)
  from token_used_once [OF this l] l show ?thesis by simp
qed

section \<open>A token between two processes\<close>

text \<open>
  The course of a routed peer: process A announces it and stores it, process B receives the
  announcement and stores its copy, the peer authenticates at B, and A hears that the token
  was consumed.
\<close>

definition routed_stores ::
  "(game_ref \<Rightarrow> bool) \<Rightarrow> (nat \<Rightarrow> string \<times> string) \<Rightarrow> (game_info \<Rightarrow> nat option) \<Rightarrow> string \<Rightarrow> string option
     \<Rightarrow> stored_peer \<Rightarrow> peer_store \<Rightarrow> peer_store \<Rightarrow> stored_peer option \<times> peer_store \<times> peer_store" where
  "routed_stores ready app get_app fresh refresh pp a b =
    (let m = sync_persistent_peer app pp;
         a1 = store_persistent_peer ready pp a;
         b1 = receive_store ready get_app fresh m b
     in case load_persistent_peer (sp_token pp) refresh b1 of
          (r, ms, b2) \<Rightarrow> (r, fold receive_consume ms a1, b2))"

lemma next_signed:
  assumes "c < (2 ^ 63 - 1 :: u64)"
  shows "0 \<le> sint (c + 1)" "unat (c + 1) = unat c + 1"
proof -
  have "unat c < unat (2 ^ 63 - 1 :: u64)" using assms by (simp only: word_less_nat_alt)
  then have b: "unat c + 1 < 2 ^ 63" by simp
  show u: "unat (c + 1) = unat c + 1" using b by (subst unat_add_noof) simp_all
  have "uint (c + 1) = int (unat c + 1)" by (simp only: uint_nat u)
  also have "\<dots> < int (2 ^ 63)" using b by (simp only: of_nat_less_iff)
  finally have "uint (c + 1) < 2 ^ 63" by simp
  moreover have "- (2 ^ 63) \<le> uint (c + 1)" by (rule order_trans [OF _ uint_ge_0]) simp
  ultimately have "sint (c + 1) = uint (c + 1)" by (simp only: sint_uint signed_take_bit_int_eq_self_iff) simp
  then show "0 \<le> sint (c + 1)" by simp
qed

text \<open>
  Whether a token consumed at one process is forgotten by the process that issued it
  depends on unrelated counters. The announcement carries the generation from before the
  peer was stored, the receiving process numbers its copy with its own counter, and the
  consumption quotes that number: the issuing process drops its copy exactly when it has
  stored no more peers than the other one. Otherwise the consumed token stays valid there.
\<close>

theorem consumed_token_survives:
  assumes "sp_app pp = Some app0" "\<not> has_persistent_peer (sp_token pp) b"
    "get_app (pm_info (sync_persistent_peer app pp)) = Some app1"
    "ps_next a < - 1" "ps_next b < 2 ^ 63 - 1"
    "routed_stores ready app get_app fresh refresh pp a b = (r, a', b')"
  shows "r \<noteq> None \<and> \<not> has_persistent_peer (sp_token pp) b'
    \<and> (has_persistent_peer (sp_token pp) a' \<longleftrightarrow> ps_next b < ps_next a)"
proof -
  define m where "m = sync_persistent_peer app pp"
  define bp where "bp = (\<lparr> sp_invitation = pm_info m, sp_owned_game = None, sp_app = Some app1, sp_user_id = sp_user_id pp,
    sp_token = sp_token pp, sp_reconnect_ttl_ms = sp_reconnect_ttl_ms pp, sp_store_generation = ps_next b + 1 \<rparr>)"
  have none: "List.extract (\<lambda>v. sp_token v = sp_token pp) (ps_peers b) = None"
    "filter (\<lambda>v. sp_token v \<noteq> sp_token pp) (ps_peers b) = ps_peers b"
    using assms(2) by (auto simp: has_persistent_peer_def list_ex_iff extract_None_iff filter_id_conv)
  have b1: "ps_peers (receive_store ready get_app fresh m b) = ps_peers b @ [bp]"
    using assms(2,3) none(2)
    by (auto simp: receive_store_def m_def sync_persistent_peer_def store_persistent_peer_def Let_def invite_def
        create_persistent_peer_def reset_owned_game_if_created_def bp_def has_persistent_peer_def list_ex_iff)
  have e: "List.extract (\<lambda>v. sp_token v = sp_token pp) (ps_peers b @ [bp]) = Some (ps_peers b, bp, [])"
    using none(2) by (simp add: extract_Some_iff bp_def filter_id_conv)
  have r: "r = Some (case refresh of None \<Rightarrow> bp | Some t \<Rightarrow> bp\<lparr> sp_token := t \<rparr>)" "ps_peers b' = ps_peers b"
    "a' = receive_consume (consume_message (sp_token bp) (sp_store_generation bp)) (store_persistent_peer ready pp a)"
    using assms(6) by (auto simp: routed_stores_def m_def [symmetric] load_persistent_peer_def b1 e Let_def)
  have "0 \<le> sint (ps_next b + 1)" by (rule next_signed(1) [OF assms(5)])
  then have c: "a' = (store_persistent_peer ready pp a)\<lparr> ps_peers := filter (\<lambda>v. \<not> (sp_token v = sp_token pp
      \<and> sp_store_generation v \<le> ps_next b + 1)) (ps_peers (store_persistent_peer ready pp a)) \<rparr>"
    by (simp add: r(3) receive_consume_def consume_message_def bp_def)
  have "has_persistent_peer (sp_token pp) a' \<longleftrightarrow> \<not> ps_next a + 1 \<le> ps_next b + 1"
    using assms(1) by (auto simp: c store_persistent_peer_def Let_def has_persistent_peer_def list_ex_iff)
  also have "\<dots> \<longleftrightarrow> ps_next b < ps_next a"
    using next_signed(2) [OF assms(5)] next_unat [OF assms(4)] by (auto simp: word_le_nat_alt word_less_nat_alt)
  finally show ?thesis using r assms(2) by (simp add: has_persistent_peer_def)
qed

lemma consumed_token_survives_witness:
  "case routed_stores (\<lambda>_. False) (\<lambda>_. (''app'', ''1'')) (\<lambda>_. Some 0) ''x'' None sample_peer
     (store_persistent_peer (\<lambda>_. False) (sample_peer\<lparr> sp_token := ''other'' \<rparr>) empty_store) empty_store of
     (r, a, b) \<Rightarrow> has_persistent_peer ''tok'' a \<and> \<not> has_persistent_peer ''tok'' b"
proof -
  let ?a = "store_persistent_peer (\<lambda>_. False) (sample_peer\<lparr> sp_token := ''other'' \<rparr>) empty_store"
  obtain r a b where c: "routed_stores (\<lambda>_. False) (\<lambda>_. (''app'', ''1'')) (\<lambda>_. Some 0) ''x'' None sample_peer ?a empty_store = (r, a, b)"
    by (metis prod_cases3)
  have "ps_next ?a < - 1" "ps_next empty_store < 2 ^ 63 - 1" "ps_next empty_store < ps_next ?a" by code_simp+
  moreover have "sp_app sample_peer = Some 0" "sp_token sample_peer = ''tok''"
    by (simp_all add: sample_peer_def create_persistent_peer_def)
  moreover have "\<not> has_persistent_peer ''tok'' empty_store" by code_simp
  ultimately show ?thesis
    using consumed_token_survives [OF _ _ _ _ _ c] by (simp add: c)
qed

end
