(* ===== verification/Registry.thy ===== *)
theory Registry
  imports GameState AppSettings
begin

text \<open>
  The registry of applications, lobbies and rooms (src/apps.cpp, src/lobby.cpp). The
  server finds a room by its application and id, a lobby by its application, name and
  type, an application by its id and version; each of the three indexes holds weak
  pointers, and the deleter of an object takes its entry out. Live objects are references
  into a world; what expires and when is decided by their holders, so every object may be
  destroyed at any time nothing in the registry holds it.
\<close>

section \<open>The live objects\<close>

type_synonym app_ref = nat
type_synonym lobby_ref = nat
type_synonym handler_ref = nat

text \<open>
  A lobby holds its application, a room its lobby. \<^theory_text>\<open>lb_games\<close> is the vector of weak
  pointers, in the order rooms were created; handlers are in the order of the list.
\<close>

record app_node =
  ap_id :: string
  ap_version :: string
  ap_settings :: app_settings
  ap_lobbies :: "(string \<times> u8, lobby_ref) assoc"
  ap_games :: "(string, game_ref) assoc"

record lobby_node =
  lb_app :: app_ref
  lb_name :: string
  lb_type :: u8
  lb_games :: "game_ref list"
  lb_handlers :: "handler_ref list"

record 'v room =
  rm_game :: "'v game"
  rm_lobby :: lobby_ref

record 'v world =
  w_apps :: "(string \<times> string, app_ref option) assoc"
  w_app :: "app_ref \<Rightarrow> app_node option"
  w_lobby :: "lobby_ref \<Rightarrow> lobby_node option"
  w_game :: "game_ref \<Rightarrow> 'v room option"
  w_next :: nat

definition empty_world :: "'v world" where
  "empty_world = \<lparr> w_apps = [], w_app = \<lambda>_. None, w_lobby = \<lambda>_. None, w_game = \<lambda>_. None, w_next = 0 \<rparr>"

definition put_app :: "app_ref \<Rightarrow> app_node \<Rightarrow> 'v world \<Rightarrow> 'v world" where
  "put_app a ap w = w\<lparr> w_app := (w_app w)(a \<mapsto> ap) \<rparr>"

definition put_lobby :: "lobby_ref \<Rightarrow> lobby_node \<Rightarrow> 'v world \<Rightarrow> 'v world" where
  "put_lobby l lb w = w\<lparr> w_lobby := (w_lobby w)(l \<mapsto> lb) \<rparr>"

section \<open>Applications\<close>

text \<open>
  The settings are read from the database when there is one: \<^theory_text>\<open>db\<close> is absent without a
  settings manager, and an application the database does not know fails to load.
\<close>

definition load_app_settings ::
  "(string \<Rightarrow> app_settings option) option \<Rightarrow> u8 \<Rightarrow> string \<Rightarrow> app_settings \<Rightarrow> app_settings option" where
  "load_app_settings db global_max app_id settings =
    (case db of
       None \<Rightarrow> Some (enforce_global_config global_max settings)
     | Some get \<Rightarrow> (case get app_id of None \<Rightarrow> None | Some s \<Rightarrow> Some (enforce_global_config global_max s)))"

definition app_try_get :: "string \<Rightarrow> string \<Rightarrow> 'v world \<Rightarrow> app_ref option \<times> 'v world" where
  "app_try_get i v w =
    (case map_of (w_apps w) (i, v) of
       None \<Rightarrow> (None, w)
     | Some weak \<Rightarrow>
        (case weak of
           Some a \<Rightarrow> if w_app w a \<noteq> None then (Some a, w) else (None, w\<lparr> w_apps := ht_erase (w_apps w) (i, v) \<rparr>)
         | None \<Rightarrow> (None, w\<lparr> w_apps := ht_erase (w_apps w) (i, v) \<rparr>)))"

definition new_app :: "string \<Rightarrow> string \<Rightarrow> app_settings \<Rightarrow> app_node" where
  "new_app i v settings = \<lparr> ap_id = i, ap_version = v, ap_settings = settings, ap_lobbies = [], ap_games = [] \<rparr>"

text \<open>An application that fails to load is destroyed again, and its deleter erases the entry.\<close>

definition app_get ::
  "(string \<Rightarrow> app_settings option) option \<Rightarrow> u8 \<Rightarrow> string \<Rightarrow> string \<Rightarrow> 'v world \<Rightarrow> app_ref option \<times> 'v world" where
  "app_get db global_max i v w =
    (case app_try_get i v w of
       (Some a, w1) \<Rightarrow> (Some a, w1)
     | (None, w1) \<Rightarrow>
        (let w2 = w1\<lparr> w_apps := ht_emplace (w_apps w1) (i, v) None \<rparr>; a = w_next w2 in
         case load_app_settings db global_max i default_app_settings of
           None \<Rightarrow> (None, w2\<lparr> w_apps := ht_erase (w_apps w2) (i, v), w_next := a + 1 \<rparr>)
         | Some settings \<Rightarrow>
             (Some a, put_app a (new_app i v settings)
                (w2\<lparr> w_apps := ht_put (w_apps w2) (i, v) (Some a), w_next := a + 1 \<rparr>))))"

definition destroy_app :: "app_ref \<Rightarrow> 'v world \<Rightarrow> 'v world" where
  "destroy_app a w = (case w_app w a of None \<Rightarrow> w | Some ap \<Rightarrow>
     w\<lparr> w_app := (w_app w)(a := None),
        w_apps := (if ht_contains (w_apps w) (ap_id ap, ap_version ap)
                   then ht_erase (w_apps w) (ap_id ap, ap_version ap) else w_apps w) \<rparr>)"

definition all_apps :: "'v world \<Rightarrow> app_ref list" where
  "all_apps w = concat (map (\<lambda>(k, weak). case weak of
     None \<Rightarrow> [] | Some a \<Rightarrow> if w_app w a \<noteq> None then [a] else []) (w_apps w))"

section \<open>Lobbies\<close>

text \<open>
  The lobby holds the application the server answers with; that none answers is
  \<^theory_text>\<open>None\<close>, a lobby the code could not use. The database of an SQL lobby is opened and
  closed with it.
\<close>

definition create_lobby :: "app_ref \<Rightarrow> app_node \<Rightarrow> string \<times> u8 \<Rightarrow> 'v world \<Rightarrow> lobby_ref option \<times> 'v world" where
  "create_lobby a ap k w =
    (case app_try_get (ap_id ap) (ap_version ap) w of
       (None, w1) \<Rightarrow> (None, w1)
     | (Some shared, w1) \<Rightarrow> (let l = w_next w1 in (Some l,
         put_app a (ap\<lparr> ap_lobbies := ht_put (ap_lobbies ap) k l \<rparr>)
           (put_lobby l \<lparr> lb_app = shared, lb_name = fst k, lb_type = snd k, lb_games = [], lb_handlers = [] \<rparr>
             (w1\<lparr> w_next := l + 1 \<rparr>)))))"

definition get_lobby :: "app_ref \<Rightarrow> string \<times> u8 \<Rightarrow> 'v world \<Rightarrow> lobby_ref option \<times> 'v world" where
  "get_lobby a k w = (case w_app w a of None \<Rightarrow> (None, w) | Some ap \<Rightarrow>
    (case map_of (ap_lobbies ap) k of
       Some l \<Rightarrow> if w_lobby w l \<noteq> None then (Some l, w) else create_lobby a ap k w
     | None \<Rightarrow> create_lobby a ap k w))"

definition destroy_lobby :: "lobby_ref \<Rightarrow> 'v world \<Rightarrow> 'v world" where
  "destroy_lobby l w = (case w_lobby w l of None \<Rightarrow> w | Some lb \<Rightarrow>
     (case w_app w (lb_app lb) of None \<Rightarrow> w | Some ap \<Rightarrow>
        put_app (lb_app lb) (ap\<lparr> ap_lobbies := ht_erase (ap_lobbies ap) (lb_name lb, lb_type lb) \<rparr>)
          (w\<lparr> w_lobby := (w_lobby w)(l := None) \<rparr>)))"

definition live_games :: "'v world \<Rightarrow> lobby_node \<Rightarrow> 'v game list" where
  "live_games w lb = map rm_game (List.map_filter (w_game w) (lb_games lb))"

definition lobby_peer_count :: "'v world \<Rightarrow> lobby_node \<Rightarrow> nat" where
  "lobby_peer_count w lb = sum_list (map active_peer_count (live_games w lb))"

definition lobby_master_peer_count :: "'v world \<Rightarrow> lobby_node \<Rightarrow> nat" where
  "lobby_master_peer_count w lb =
     sum_list (map (\<lambda>g. if has_peer_actor g (cs_master_actor (get_config_snapshot g)) then 1 else 0) (live_games w lb))"

definition live_lobbies :: "'v world \<Rightarrow> app_node \<Rightarrow> lobby_node list" where
  "live_lobbies w ap = List.map_filter (w_lobby w) (map snd (ap_lobbies ap))"

definition get_game_count :: "'v world \<Rightarrow> app_node \<Rightarrow> nat" where
  "get_game_count w ap = sum_list (map (\<lambda>lb. length (lb_games lb)) (live_lobbies w ap))"

text \<open>\<^theory_text>\<open>stored\<close> is the number of stored peers of the application.\<close>

definition app_peer_count :: "nat \<Rightarrow> 'v world \<Rightarrow> app_node \<Rightarrow> nat" where
  "app_peer_count stored w ap = stored + sum_list (map (lobby_peer_count w) (live_lobbies w ap))"

section \<open>Rooms\<close>

datatype create_error = GameIdEmpty | GameIdTaken | GameCountLimit

definition create_error_code :: "wire_codes \<Rightarrow> create_error \<Rightarrow> int" where
  "create_error_code wc e = (case e of GameIdEmpty \<Rightarrow> err_GameIdNotExists wc
     | GameIdTaken \<Rightarrow> err_GameIdAlreadyExists wc | GameCountLimit \<Rightarrow> err_ServerFull wc)"

datatype list_update = GameUpdate handler_ref game_ref | GameDelete handler_ref string

text \<open>With \<^theory_text>\<open>or_get\<close> an existing room is returned as its weak pointer locks.\<close>

definition create_game ::
  "lobby_ref \<Rightarrow> string \<Rightarrow> string \<Rightarrow> bool \<Rightarrow> 'v world
     \<Rightarrow> ((create_error + game_ref option) \<times> list_update list \<times> 'v world) option" where
  "create_game l gid address or_get w =
    (case w_lobby w l of None \<Rightarrow> None | Some lb \<Rightarrow>
     (case w_app w (lb_app lb) of None \<Rightarrow> None | Some ap \<Rightarrow>
      Some (if gid = [] then (Inl GameIdEmpty, [], w)
       else case map_of (ap_games ap) gid of
         Some r \<Rightarrow> (if or_get then Inr (if w_game w r \<noteq> None then Some r else None) else Inl GameIdTaken, [], w)
       | None \<Rightarrow>
          (let limit = as_max_game_count (ap_settings ap) in
           if limit \<noteq> 0 \<and> unat limit \<le> get_game_count w ap then (Inl GameCountLimit, [], w)
           else let r = w_next w in
             (Inr (Some r), map (\<lambda>h. GameUpdate h r) (lb_handlers lb),
              put_app (lb_app lb) (ap\<lparr> ap_games := ht_emplace (ap_games ap) gid r \<rparr>)
                (put_lobby l (lb\<lparr> lb_games := lb_games lb @ [r] \<rparr>)
                  (w\<lparr> w_game := (w_game w)(r \<mapsto> \<lparr> rm_game = new_game r gid address, rm_lobby = l \<rparr>),
                     w_next := r + 1 \<rparr>)))))))"

text \<open>
  The deleter of a room. It runs when the last holder has let go, so no weak pointer locks
  to this room any more when the lobby's vector is searched for it.
\<close>

fun erase_first :: "('a \<Rightarrow> bool) \<Rightarrow> 'a list \<Rightarrow> 'a list" where
  "erase_first P [] = []"
| "erase_first P (x # xs) = (if P x then xs else x # erase_first P xs)"

definition destroy_game :: "game_ref \<Rightarrow> 'v world \<Rightarrow> (list_update list \<times> 'v world) option" where
  "destroy_game r w =
    (case w_game w r of None \<Rightarrow> None | Some m \<Rightarrow>
     (case w_lobby w (rm_lobby m) of None \<Rightarrow> None | Some lb \<Rightarrow>
      (case w_app w (lb_app lb) of None \<Rightarrow> None | Some ap \<Rightarrow>
       (let expired = (w_game w)(r := None) in
        Some ((if g_is_visible (rm_game m) then map (\<lambda>h. GameDelete h (g_id (rm_game m))) (lb_handlers lb) else []),
          put_app (lb_app lb) (ap\<lparr> ap_games := (if ht_contains (ap_games ap) (g_id (rm_game m))
              then ht_erase (ap_games ap) (g_id (rm_game m)) else ap_games ap) \<rparr>)
            (put_lobby (rm_lobby m) (lb\<lparr> lb_games :=
                erase_first (\<lambda>weak. (if expired weak \<noteq> None then Some weak else None) = Some r) (lb_games lb) \<rparr>)
              (w\<lparr> w_game := expired \<rparr>)))))))"

text \<open>\<^theory_text>\<open>JoinedLobby\<close>: a handler is put at the front of the list and taken out of it.\<close>

definition add_list_handler :: "handler_ref \<Rightarrow> lobby_ref \<Rightarrow> 'v world \<Rightarrow> 'v world" where
  "add_list_handler h l w = (case w_lobby w l of None \<Rightarrow> w | Some lb \<Rightarrow>
     put_lobby l (lb\<lparr> lb_handlers := h # lb_handlers lb \<rparr>) w)"

definition remove_list_handler :: "handler_ref \<Rightarrow> lobby_ref \<Rightarrow> 'v world \<Rightarrow> 'v world" where
  "remove_list_handler h l w = (case w_lobby w l of None \<Rightarrow> w | Some lb \<Rightarrow>
     put_lobby l (lb\<lparr> lb_handlers := remove1 h (lb_handlers lb) \<rparr>) w)"

text \<open>What a room's own operations do to it: anything but its identity.\<close>

definition set_game :: "game_ref \<Rightarrow> 'v game \<Rightarrow> 'v world \<Rightarrow> 'v world" where
  "set_game r g w = (case w_game w r of None \<Rightarrow> w | Some m \<Rightarrow>
     w\<lparr> w_game := (w_game w)(r \<mapsto> m\<lparr> rm_game := g \<rparr>) \<rparr>)"

section \<open>The restrictions of an SQL filter\<close>

datatype sql_action = SqlFunction | SqlSelect | SqlRead | SqlOther

definition allowed_functions :: "string list" where
  "allowed_functions = [''like'', ''glob'', ''lower'', ''upper'', ''ifnull'', ''coalesce'', ''abs'',
     ''length'', ''count'', ''min'', ''max'']"

text \<open>\<^theory_text>\<open>arg2\<close> is the name of the function; true stands for \<^theory_text>\<open>SQLITE_OK\<close>.\<close>

definition authorize :: "sql_action \<Rightarrow> string option \<Rightarrow> bool" where
  "authorize action arg2 =
    (case (action, arg2) of
       (SqlFunction, Some func) \<Rightarrow> func \<in> set allowed_functions
     | _ \<Rightarrow> action = SqlSelect \<or> action = SqlRead)"

text \<open>
  \<^theory_text>\<open>query_lobbies\<close>: the splitting at semicolons, the search for forbidden words, and the
  evaluation of one filter are parameters; an evaluation yields the ids of at most 100 rows
  or an error message.
\<close>

fun run_filters :: "(string \<Rightarrow> string + string list) \<Rightarrow> string list \<Rightarrow> string + string list" where
  "run_filters run [] = Inr []"
| "run_filters run (q # qs) =
    (if q = [] then run_filters run qs
     else case run q of Inl e \<Rightarrow> Inl e | Inr ids \<Rightarrow> if ids \<noteq> [] then Inr ids else run_filters run qs)"

definition query_lobbies ::
  "(string \<Rightarrow> string list) \<Rightarrow> (string \<Rightarrow> bool) \<Rightarrow> (string \<Rightarrow> string + string list) \<Rightarrow> string \<Rightarrow> string + string list" where
  "query_lobbies split forbidden run sql =
    (let queries = split sql in
     if queries = [] then Inr []
     else let qs = (if last queries = [] then butlast queries else queries) in
       if qs = [] then Inr []
       else if 3 < length qs then Inl ''There may be no more than 3 SQL queries at a time''
       else if forbidden sql then Inl ''SQL filter contains excluded keywords.''
       else run_filters run qs)"

end
