(* ===== verification/RegistryInv.thy ===== *)
theory RegistryInv
  imports Registry
begin

text \<open>
  The invariant of the registry: each of its three indexes is exactly the inverse of the
  live objects it is for, a lobby's vector holds every live room of the lobby, and every
  operation, and the destruction of any object nothing holds, keeps it so.
\<close>

section \<open>Indexes of live objects\<close>

text \<open>\<^theory_text>\<open>m\<close> finds under a key precisely the live object with that key among those it owns.\<close>

definition indexes :: "('k \<Rightarrow> 'r option) \<Rightarrow> ('r \<Rightarrow> 'x option) \<Rightarrow> ('x \<Rightarrow> 'k) \<Rightarrow> ('x \<Rightarrow> bool) \<Rightarrow> bool" where
  "indexes m live key own \<longleftrightarrow> (\<forall>k r. m k = Some r \<longleftrightarrow> (\<exists>x. live r = Some x \<and> own x \<and> key x = k))"

lemma indexesD: "indexes m live key own \<Longrightarrow> m k = Some r \<Longrightarrow> \<exists>x. live r = Some x \<and> own x \<and> key x = k"
  unfolding indexes_def by blast

lemma indexes_find: "indexes m live key own \<Longrightarrow> live r = Some x \<Longrightarrow> own x \<Longrightarrow> m (key x) = Some r"
  unfolding indexes_def by blast

lemma indexes_empty: "(\<And>r x. live r = Some x \<Longrightarrow> \<not> own x) \<Longrightarrow> indexes (\<lambda>_. None) live key own"
  unfolding indexes_def by fastforce

lemma indexes_add:
  assumes "indexes m live key own" "live r = None" "own x" "m (key x) = None"
  shows "indexes (m(key x \<mapsto> r)) (live(r \<mapsto> x)) key own"
  unfolding indexes_def
proof (intro allI)
  fix k q
  show "(m(key x \<mapsto> r)) k = Some q \<longleftrightarrow> (\<exists>y. (live(r \<mapsto> x)) q = Some y \<and> own y \<and> key y = k)"
  proof (cases "q = r")
    case True
    have "m k \<noteq> Some r" using indexesD [OF assms(1)] assms(2) by fastforce
    with True assms(3) show ?thesis by auto
  next
    case False
    have "m (key x) \<noteq> Some q" using assms(4) by simp
    with False assms(1) show ?thesis unfolding indexes_def by auto
  qed
qed

lemma indexes_del:
  assumes "indexes m live key own" "live r = Some x" "own x"
  shows "indexes (m(key x := None)) (live(r := None)) key own"
  unfolding indexes_def
proof (intro allI)
  fix k q
  have r: "m (key x) = Some r" by (rule indexes_find [OF assms])
  show "(m(key x := None)) k = Some q \<longleftrightarrow> (\<exists>y. (live(r := None)) q = Some y \<and> own y \<and> key y = k)"
  proof (cases "q = r")
    case True
    have "k = key x" if "m k = Some r" using indexesD [OF assms(1) that] assms(2) by simp
    with True show ?thesis by auto
  next
    case False
    with r have "m (key x) \<noteq> Some q" by simp
    with False assms(1) show ?thesis unfolding indexes_def by auto
  qed
qed

lemma indexes_live:
  assumes "indexes m live key own"
    and "\<And>r k. (\<exists>x. live' r = Some x \<and> own' x \<and> key x = k) \<longleftrightarrow> (\<exists>x. live r = Some x \<and> own x \<and> key x = k)"
  shows "indexes m live' key own'"
  using assms by (simp add: indexes_def)

lemma indexes_other:
  assumes "indexes m live key own" "live r = None" "\<not> own x"
  shows "indexes m (live(r \<mapsto> x)) key own"
  by (rule indexes_live [OF assms(1)]) (use assms in auto)

lemma indexes_del_other:
  assumes "indexes m live key own" "\<And>x. live r = Some x \<Longrightarrow> \<not> own x"
  shows "indexes m (live(r := None)) key own"
  by (rule indexes_live [OF assms(1)]) (use assms in auto)

lemma indexes_same:
  assumes "indexes m live key own" "live r = Some x" "key y = key x" "own y \<longleftrightarrow> own x"
  shows "indexes m (live(r \<mapsto> y)) key own"
  by (rule indexes_live [OF assms(1)]) (use assms in auto)

section \<open>The invariant\<close>

definition app_lookup :: "'v world \<Rightarrow> string \<times> string \<Rightarrow> app_ref option" where
  "app_lookup w k = (case map_of (w_apps w) k of Some (Some a) \<Rightarrow> Some a | _ \<Rightarrow> None)"

definition app_key :: "app_node \<Rightarrow> string \<times> string" where
  "app_key ap = (ap_id ap, ap_version ap)"

definition lobby_key :: "lobby_node \<Rightarrow> string \<times> u8" where
  "lobby_key lb = (lb_name lb, lb_type lb)"

definition room_id :: "'v room \<Rightarrow> string" where
  "room_id m = g_id (rm_game m)"

definition room_app :: "'v world \<Rightarrow> 'v room \<Rightarrow> app_ref option" where
  "room_app w m = map_option lb_app (w_lobby w (rm_lobby m))"

definition registry_inv :: "'v world \<Rightarrow> bool" where
  "registry_inv w \<longleftrightarrow>
     indexes (app_lookup w) (w_app w) app_key (\<lambda>_. True)
   \<and> (\<forall>a ap. w_app w a = Some ap \<longrightarrow> indexes (map_of (ap_lobbies ap)) (w_lobby w) lobby_key (\<lambda>lb. lb_app lb = a))
   \<and> (\<forall>a ap. w_app w a = Some ap \<longrightarrow> indexes (map_of (ap_games ap)) (w_game w) room_id (\<lambda>m. room_app w m = Some a))
   \<and> (\<forall>a ap. w_app w a = Some ap \<longrightarrow> distinct (map fst (ap_lobbies ap)))
   \<and> (\<forall>l lb. w_lobby w l = Some lb \<longrightarrow> w_app w (lb_app lb) \<noteq> None \<and> distinct (lb_games lb))
   \<and> (\<forall>l lb r. w_lobby w l = Some lb \<longrightarrow> r \<in> set (lb_games lb) \<longrightarrow>
        r < w_next w \<and> (\<forall>m. w_game w r = Some m \<longrightarrow> rm_lobby m = l))
   \<and> (\<forall>r m. w_game w r = Some m \<longrightarrow> (\<exists>lb. w_lobby w (rm_lobby m) = Some lb \<and> r \<in> set (lb_games lb)))
   \<and> (\<forall>x\<ge>w_next w. w_app w x = None \<and> w_lobby w x = None \<and> w_game w x = None)"

lemma registry_invI:
  assumes "indexes (app_lookup w) (w_app w) app_key (\<lambda>_. True)"
    "\<And>a ap. w_app w a = Some ap \<Longrightarrow> indexes (map_of (ap_lobbies ap)) (w_lobby w) lobby_key (\<lambda>lb. lb_app lb = a)"
    "\<And>a ap. w_app w a = Some ap \<Longrightarrow> indexes (map_of (ap_games ap)) (w_game w) room_id (\<lambda>m. room_app w m = Some a)"
    "\<And>a ap. w_app w a = Some ap \<Longrightarrow> distinct (map fst (ap_lobbies ap))"
    "\<And>l lb. w_lobby w l = Some lb \<Longrightarrow> w_app w (lb_app lb) \<noteq> None \<and> distinct (lb_games lb)"
    "\<And>l lb r. w_lobby w l = Some lb \<Longrightarrow> r \<in> set (lb_games lb) \<Longrightarrow>
        r < w_next w \<and> (\<forall>m. w_game w r = Some m \<longrightarrow> rm_lobby m = l)"
    "\<And>r m. w_game w r = Some m \<Longrightarrow> \<exists>lb. w_lobby w (rm_lobby m) = Some lb \<and> r \<in> set (lb_games lb)"
    "\<And>x. w_next w \<le> x \<Longrightarrow> w_app w x = None \<and> w_lobby w x = None \<and> w_game w x = None"
  shows "registry_inv w"
  unfolding registry_inv_def using assms by blast

lemma registry_invD:
  assumes "registry_inv w"
  shows "indexes (app_lookup w) (w_app w) app_key (\<lambda>_. True)"
    "w_app w a = Some ap \<Longrightarrow> indexes (map_of (ap_lobbies ap)) (w_lobby w) lobby_key (\<lambda>lb. lb_app lb = a)"
    "w_app w a = Some ap \<Longrightarrow> indexes (map_of (ap_games ap)) (w_game w) room_id (\<lambda>m. room_app w m = Some a)"
    "w_app w a = Some ap \<Longrightarrow> distinct (map fst (ap_lobbies ap))"
    "w_lobby w l = Some lb \<Longrightarrow> w_app w (lb_app lb) \<noteq> None \<and> distinct (lb_games lb)"
    "w_lobby w l = Some lb \<Longrightarrow> r \<in> set (lb_games lb) \<Longrightarrow>
        r < w_next w \<and> (\<forall>m. w_game w r = Some m \<longrightarrow> rm_lobby m = l)"
    "w_game w r = Some m \<Longrightarrow> \<exists>lb. w_lobby w (rm_lobby m) = Some lb \<and> r \<in> set (lb_games lb)"
    "w_next w \<le> x \<Longrightarrow> w_app w x = None \<and> w_lobby w x = None \<and> w_game w x = None"
  using assms unfolding registry_inv_def by blast+

lemma empty_world_inv: "registry_inv empty_world"
  by (rule registry_invI) (auto simp: empty_world_def app_lookup_def indexes_def)

lemma put_simps [simp]:
  "w_apps (put_app a ap w) = w_apps w" "w_app (put_app a ap w) = (w_app w)(a \<mapsto> ap)"
  "w_lobby (put_app a ap w) = w_lobby w" "w_game (put_app a ap w) = w_game w" "w_next (put_app a ap w) = w_next w"
  "w_apps (put_lobby l lb w) = w_apps w" "w_app (put_lobby l lb w) = w_app w"
  "w_lobby (put_lobby l lb w) = (w_lobby w)(l \<mapsto> lb)" "w_game (put_lobby l lb w) = w_game w" "w_next (put_lobby l lb w) = w_next w"
  by (simp_all add: put_app_def put_lobby_def)

text \<open>An application node may change in its two maps, a lobby in its vector and its handlers.\<close>

lemma app_lookup_cong: "w_apps w' = w_apps w \<Longrightarrow> app_lookup w' = app_lookup w"
  by (simp add: app_lookup_def fun_eq_iff)

lemma room_app_put_lobby:
  "w_lobby w l = Some lb \<Longrightarrow> lb_app lb' = lb_app lb \<Longrightarrow> w_lobby w' = (w_lobby w)(l \<mapsto> lb') \<Longrightarrow> room_app w' = room_app w"
  by (auto simp: room_app_def fun_eq_iff)

section \<open>Operations keep the invariant\<close>

lemma handlers_inv:
  assumes "registry_inv w" "w_lobby w l = Some lb"
  shows "registry_inv (put_lobby l (lb\<lparr> lb_handlers := hs \<rparr>) w)"
proof -
  let ?w = "put_lobby l (lb\<lparr> lb_handlers := hs \<rparr>) w"
  note D = registry_invD [OF assms(1)]
  have ra: "room_app ?w = room_app w" by (rule room_app_put_lobby [OF assms(2)]) simp_all
  have lk: "app_lookup ?w = app_lookup w" by (rule app_lookup_cong) simp
  show ?thesis
  proof (rule registry_invI, goal_cases)
    case 1 show ?case using D(1) by (simp add: lk)
  next
    case (2 a ap) then show ?case using indexes_same [OF D(2) assms(2)] by (simp add: lobby_key_def)
  next
    case (3 a ap) then show ?case using D(3) by (simp add: ra)
  next
    case (4 a ap) then show ?case using D(4) by simp
  next
    case (5 k lb') then show ?case using D(5) assms(2) by (auto split: if_splits)
  next
    case (6 k lb' r) then show ?case using D(6) assms(2) by (auto split: if_splits)
  next
    case (7 r m) then show ?case using D(7) [of r m] assms(2) by auto
  next
    case (8 x) then show ?case using D(8) assms(2) by fastforce
  qed
qed

lemma set_game_inv:
  assumes "registry_inv w" "w_game w r = Some m" "g_id g = g_id (rm_game m)"
  shows "registry_inv (set_game r g w)"
proof -
  let ?w = "set_game r g w"
  note D = registry_invD [OF assms(1)]
  have e: "?w = w\<lparr> w_game := (w_game w)(r \<mapsto> m\<lparr> rm_game := g \<rparr>) \<rparr>" using assms(2) by (simp add: set_game_def)
  have ra: "room_app ?w = room_app w" by (simp add: e room_app_def fun_eq_iff)
  have lk: "app_lookup ?w = app_lookup w" by (rule app_lookup_cong) (simp add: e)
  have k: "room_id (m\<lparr> rm_game := g \<rparr>) = room_id m" "room_app w (m\<lparr> rm_game := g \<rparr>) = room_app w m"
    using assms(3) by (simp_all add: room_id_def room_app_def)
  show ?thesis
  proof (rule registry_invI, goal_cases)
    case 1 show ?case using D(1) by (simp only: lk) (simp add: e)
  next
    case (2 a ap) then show ?case using D(2) by (simp add: e)
  next
    case (3 a ap) then show ?case using indexes_same [OF D(3) assms(2) k(1)] k(2) by (simp only: ra) (simp add: e)
  next
    case (4 a ap) then show ?case using D(4) by (simp add: e)
  next
    case (5 k lb') then show ?case using D(5) by (simp add: e)
  next
    case (6 k lb' q) then show ?case using D(6) assms(2) by (auto simp: e split: if_splits)
  next
    case (7 q m') then show ?case using D(7) assms(2) by (auto simp: e split: if_splits)
  next
    case (8 x) then show ?case using D(8) assms(2) by (fastforce simp: e)
  qed
qed

text \<open>The deleter never finds its room in the vector, since no weak pointer locks to it any more.\<close>

lemma erase_first_expired:
  "live r = None \<Longrightarrow> erase_first (\<lambda>weak. (if live weak \<noteq> None then Some weak else None) = Some r) xs = xs"
  by (induction xs) auto

lemma room_registered:
  assumes "registry_inv w" "w_game w r = Some m"
  obtains lb ap where "w_lobby w (rm_lobby m) = Some lb" "w_app w (lb_app lb) = Some ap" "r \<in> set (lb_games lb)"
    "map_of (ap_games ap) (room_id m) = Some r" "room_app w m = Some (lb_app lb)"
proof -
  obtain lb where lb: "w_lobby w (rm_lobby m) = Some lb" "r \<in> set (lb_games lb)"
    using registry_invD(7) [OF assms] by blast
  obtain ap where ap: "w_app w (lb_app lb) = Some ap" using registry_invD(5) [OF assms(1) lb(1)] by blast
  have ra: "room_app w m = Some (lb_app lb)" by (simp add: room_app_def lb(1))
  have "map_of (ap_games ap) (room_id m) = Some r"
    by (rule indexes_find [OF registry_invD(3) [OF assms(1) ap] assms(2)]) (rule ra)
  with that lb ap ra show ?thesis by blast
qed

lemma destroy_game_result:
  assumes "registry_inv w" "w_game w r = Some m" "w_lobby w (rm_lobby m) = Some lb" "w_app w (lb_app lb) = Some ap"
  shows "destroy_game r w =
    Some ((if g_is_visible (rm_game m) then map (\<lambda>h. GameDelete h (room_id m)) (lb_handlers lb) else []),
      put_app (lb_app lb) (ap\<lparr> ap_games := ht_erase (ap_games ap) (room_id m) \<rparr>)
        (w\<lparr> w_game := (w_game w)(r := None) \<rparr>))"
proof -
  from room_registered [OF assms(1,2)] assms(3,4)
  have reg: "map_of (ap_games ap) (room_id m) = Some r" by (metis option.inject)
  have "put_lobby (rm_lobby m) lb (w\<lparr> w_game := (w_game w)(r := None) \<rparr>) = w\<lparr> w_game := (w_game w)(r := None) \<rparr>"
    using assms(3) by (simp add: put_lobby_def fun_upd_idem)
  moreover have "lb\<lparr> lb_games := erase_first (\<lambda>weak. (if ((w_game w)(r := None)) weak \<noteq> None then Some weak else None) = Some r) (lb_games lb) \<rparr> = lb"
    by (subst erase_first_expired) simp_all
  ultimately show ?thesis
    using assms(2-4) reg
    by (simp only: destroy_game_def option.case Let_def room_id_def [symmetric]) (simp add: ht_contains_def)
qed

lemma app_games_changed:
  assumes "registry_inv w" "w_app w a = Some ap" "w_apps w' = w_apps w" "w_app w' = (w_app w)(a \<mapsto> ap')" "app_key ap' = app_key ap"
  shows "indexes (app_lookup w') (w_app w') app_key (\<lambda>_. True)"
  unfolding app_lookup_cong [OF assms(3)] assms(4)
  by (rule indexes_same [OF registry_invD(1) [OF assms(1)] assms(2,5)]) simp

lemma destroy_game_inv:
  assumes "registry_inv w" "destroy_game r w = Some (us, w')"
  shows "registry_inv w'"
proof -
  obtain m where m: "w_game w r = Some m" using assms(2) by (auto simp: destroy_game_def split: option.splits)
  obtain lb ap where s: "w_lobby w (rm_lobby m) = Some lb" "w_app w (lb_app lb) = Some ap"
    "map_of (ap_games ap) (room_id m) = Some r" "room_app w m = Some (lb_app lb)"
    by (rule room_registered [OF assms(1) m])
  let ?ap = "ap\<lparr> ap_games := ht_erase (ap_games ap) (room_id m) \<rparr>"
  have w': "w' = put_app (lb_app lb) ?ap (w\<lparr> w_game := (w_game w)(r := None) \<rparr>)"
    using destroy_game_result [OF assms(1) m s(1,2)] assms(2) by simp
  note D = registry_invD [OF assms(1)]
  have ra: "room_app w' = room_app w" by (simp add: w' room_app_def fun_eq_iff)
  show ?thesis
  proof (rule registry_invI, goal_cases)
    case 1 show ?case by (rule app_games_changed [OF assms(1) s(2), of _ ?ap]) (simp_all add: w' app_key_def)
  next
    case (2 a p) then show ?case using D(2) [of a] s(2) by (auto simp: w' split: if_splits)
  next
    case (3 a p)
    show ?case
    proof (cases "a = lb_app lb")
      case True
      with 3 have "p = ?ap" by (simp add: w')
      with indexes_del [OF D(3) [OF s(2)] m] s(4) True show ?thesis by (simp only: ra) (simp add: w')
    next
      case False
      with 3 have "w_app w a = Some p" by (simp add: w')
      from indexes_del_other [OF D(3) [OF this], of r] m s(4) False show ?thesis by (simp only: ra) (simp add: w')
    qed
  next
    case (4 a p) then show ?case using D(4) [of a] s(2) by (auto simp: w' split: if_splits)
  next
    case (5 k p) then show ?case using D(5) [of k p] by (auto simp: w')
  next
    case (6 k p q) then show ?case using D(6) [of k p q] by (auto simp: w')
  next
    case (7 q m') then show ?case using D(7) [of q m'] by (auto simp: w' split: if_splits)
  next
    case (8 x) then show ?case using D(8) [of x] s(2) by (auto simp: w')
  qed
qed

lemma create_game_cases:
  assumes "create_game l gid address or_get w = Some (res, us, w')"
  obtains (same) "w' = w" "us = []" "\<And>r. res = Inr (Some r) \<Longrightarrow> w_game w r \<noteq> None"
  | (made) lb ap where "w_lobby w l = Some lb" "w_app w (lb_app lb) = Some ap" "gid \<noteq> []" "map_of (ap_games ap) gid = None"
      "res = Inr (Some (w_next w))" "us = map (\<lambda>h. GameUpdate h (w_next w)) (lb_handlers lb)"
      "as_max_game_count (ap_settings ap) = 0 \<or> get_game_count w ap < unat (as_max_game_count (ap_settings ap))"
      "w' = put_app (lb_app lb) (ap\<lparr> ap_games := ht_emplace (ap_games ap) gid (w_next w) \<rparr>)
             (put_lobby l (lb\<lparr> lb_games := lb_games lb @ [w_next w] \<rparr>)
               (w\<lparr> w_game := (w_game w)(w_next w \<mapsto> \<lparr> rm_game = new_game (w_next w) gid address, rm_lobby = l \<rparr>),
                  w_next := w_next w + 1 \<rparr>))"
proof -
  obtain lb ap where l: "w_lobby w l = Some lb" "w_app w (lb_app lb) = Some ap"
    using assms by (auto simp: create_game_def split: option.splits)
  note e = assms [unfolded create_game_def l option.case option.inject]
  consider "gid = []" | r where "gid \<noteq> []" "map_of (ap_games ap) gid = Some r" | "gid \<noteq> []" "map_of (ap_games ap) gid = None"
    by (cases "map_of (ap_games ap) gid") auto
  then show ?thesis
  proof cases
    case 1
    with e show ?thesis by (intro same) simp_all
  next
    case (2 r)
    with e show ?thesis by (intro same) (auto split: if_splits)
  next
    case 3
    let ?limit = "as_max_game_count (ap_settings ap)"
    show ?thesis
    proof (cases "?limit \<noteq> 0 \<and> unat ?limit \<le> get_game_count w ap")
      case True
      with e 3 show ?thesis by (intro same) (simp_all add: Let_def)
    next
      case False
      with e 3 have "res = Inr (Some (w_next w))" "us = map (\<lambda>h. GameUpdate h (w_next w)) (lb_handlers lb)"
        "w' = put_app (lb_app lb) (ap\<lparr> ap_games := ht_emplace (ap_games ap) gid (w_next w) \<rparr>)
             (put_lobby l (lb\<lparr> lb_games := lb_games lb @ [w_next w] \<rparr>)
               (w\<lparr> w_game := (w_game w)(w_next w \<mapsto> \<lparr> rm_game = new_game (w_next w) gid address, rm_lobby = l \<rparr>),
                  w_next := w_next w + 1 \<rparr>))"
        by (simp_all add: Let_def)
      moreover from False have "?limit = 0 \<or> get_game_count w ap < unat ?limit" by linarith
      ultimately show ?thesis using l 3 by (intro made)
    qed
  qed
qed

lemma create_game_inv:
  assumes "registry_inv w" "create_game l gid address or_get w = Some (res, us, w')"
  shows "registry_inv w'"
  using assms(2)
proof (cases rule: create_game_cases)
  case same
  with assms(1) show ?thesis by simp
next
  case (made lb ap)
  let ?r = "w_next w" and ?m = "\<lparr> rm_game = new_game (w_next w) gid address, rm_lobby = l \<rparr>"
  let ?ap = "ap\<lparr> ap_games := ht_emplace (ap_games ap) gid (w_next w) \<rparr>"
  let ?lb = "lb\<lparr> lb_games := lb_games lb @ [w_next w] \<rparr>"
  note D = registry_invD [OF assms(1)]
  have none: "w_app w ?r = None" "w_lobby w ?r = None" "w_game w ?r = None" using D(8) [of ?r] by simp_all
  have ra: "room_app w' = room_app w"
    by (rule room_app_put_lobby [OF made(1), of ?lb]) (simp_all add: made(8))
  have id: "room_id ?m = gid" "room_app w ?m = Some (lb_app lb)"
    by (simp_all add: room_id_def new_game_def room_app_def made(1))
  show ?thesis
  proof (rule registry_invI, goal_cases)
    case 1 show ?case by (rule app_games_changed [OF assms(1) made(2), of _ ?ap]) (simp_all add: made(8) app_key_def)
  next
    case (2 a p)
    then have "indexes (map_of (ap_lobbies p)) (w_lobby w) lobby_key (\<lambda>lb. lb_app lb = a)"
      using D(2) [of a] made(2) by (auto simp: made(8) split: if_splits)
    from indexes_same [OF this made(1), of ?lb] show ?case by (simp add: made(8) lobby_key_def)
  next
    case (3 a p)
    show ?case
    proof (cases "a = lb_app lb")
      case True
      with 3 have "p = ?ap" by (simp add: made(8))
      with indexes_add [OF D(3) [OF made(2)] none(3), of ?m, unfolded id(1), OF id(2) made(4)] True show ?thesis
        by (simp only: ra) (simp add: made(8) ht_contains_def made(4))
    next
      case False
      with 3 have "w_app w a = Some p" by (simp add: made(8))
      from indexes_other [OF D(3) [OF this] none(3), of ?m] id False show ?thesis by (simp only: ra) (simp add: made(8))
    qed
  next
    case (4 a p) then show ?case using D(4) [of a] made(2) by (auto simp: made(8) split: if_splits)
  next
    case (5 k p) then show ?case using D(5) [of k] D(6) [of l lb] made(1,2) by (fastforce simp: made(8) split: if_splits)
  next
    case (6 k p q)
    have "q < w_next w \<and> (\<forall>m. w_game w q = Some m \<longrightarrow> rm_lobby m = k) \<or> q = w_next w \<and> k = l"
      using 6 D(6) [of k _ q] made(1) by (auto simp: made(8) split: if_splits)
    then show ?case by (auto simp: made(8) none(3))
  next
    case (7 q m') then show ?case using D(7) [of q m'] made(1) by (auto simp: made(8) split: if_splits)
  next
    case (8 x) then show ?case using D(8) [of x] D(8) [of l] D(8) [of "lb_app lb"] made(1,2) by (auto simp: made(8))
  qed
qed

section \<open>Lobbies and applications come and go\<close>

lemma app_get_shared:
  assumes "registry_inv w" "w_app w a = Some ap"
  shows "app_try_get (ap_id ap) (ap_version ap) w = (Some a, w)"
proof -
  have "app_lookup w (ap_id ap, ap_version ap) = Some a"
    using indexes_find [OF registry_invD(1) [OF assms(1)] assms(2)] by (simp add: app_key_def)
  then show ?thesis using assms(2) by (auto simp: app_lookup_def app_try_get_def split: option.splits)
qed

lemma app_try_get_keeps:
  assumes "app_try_get i v w = (res, w')"
  shows "w_app w' = w_app w" "w_lobby w' = w_lobby w" "w_game w' = w_game w" "w_next w' = w_next w"
    "app_lookup w' = app_lookup w \<or> (res = None \<and> app_lookup w' = (app_lookup w)((i, v) := None) \<and>
       (\<forall>a. app_lookup w (i, v) = Some a \<longrightarrow> w_app w a = None))"
  using assms by (auto simp: app_try_get_def app_lookup_def fun_eq_iff split: option.splits if_splits)

lemma app_try_get_inv:
  assumes "registry_inv w" "app_try_get i v w = (res, w')"
  shows "registry_inv w'" "app_lookup w' = app_lookup w" "res = app_lookup w (i, v)"
proof -
  note k = app_try_get_keeps [OF assms(2)] and D = registry_invD [OF assms(1)]
  show l: "app_lookup w' = app_lookup w"
    using k(5) indexesD [OF D(1), of "(i, v)"] by (cases "app_lookup w (i, v)") (auto simp: fun_eq_iff)
  have ra: "room_app w' = room_app w" by (simp add: room_app_def k fun_eq_iff)
  show "registry_inv w'" using assms(1) unfolding registry_inv_def l ra k .
  show "res = app_lookup w (i, v)"
    using assms(2) indexesD [OF D(1), of "(i, v)"]
    by (auto simp: app_try_get_def app_lookup_def split: option.splits if_splits)
qed

lemma create_lobby_result:
  assumes "registry_inv w" "w_app w a = Some ap"
  shows "create_lobby a ap k w = (Some (w_next w),
    put_app a (ap\<lparr> ap_lobbies := ht_put (ap_lobbies ap) k (w_next w) \<rparr>)
      (put_lobby (w_next w) \<lparr> lb_app = a, lb_name = fst k, lb_type = snd k, lb_games = [], lb_handlers = [] \<rparr>
        (w\<lparr> w_next := w_next w + 1 \<rparr>)))"
  by (simp add: create_lobby_def app_get_shared [OF assms] Let_def)

lemma get_lobby_cases:
  assumes "registry_inv w" "w_app w a = Some ap" "get_lobby a k w = (res, w')"
  obtains (found) l lb where "res = Some l" "w' = w" "w_lobby w l = Some lb" "lb_app lb = a" "lobby_key lb = k"
    "map_of (ap_lobbies ap) k = Some l"
  | (made) "map_of (ap_lobbies ap) k = None" "res = Some (w_next w)"
    "w' = put_app a (ap\<lparr> ap_lobbies := ht_put (ap_lobbies ap) k (w_next w) \<rparr>)
      (put_lobby (w_next w) \<lparr> lb_app = a, lb_name = fst k, lb_type = snd k, lb_games = [], lb_handlers = [] \<rparr>
        (w\<lparr> w_next := w_next w + 1 \<rparr>))"
proof (cases "map_of (ap_lobbies ap) k")
  case None
  with assms show ?thesis by (intro made) (simp_all add: get_lobby_def create_lobby_result)
next
  case (Some l)
  obtain lb where "w_lobby w l = Some lb" "lb_app lb = a" "lobby_key lb = k"
    using indexesD [OF registry_invD(2) [OF assms(1,2)] Some] by blast
  with Some assms show ?thesis by (intro found [of l lb]) (simp_all add: get_lobby_def)
qed

lemma app_lobbies_changed:
  assumes "registry_inv w" "w_app w a = Some ap" "w_apps w' = w_apps w" "w_app w' = (w_app w)(a \<mapsto> ap\<lparr> ap_lobbies := ls \<rparr>)"
  shows "indexes (app_lookup w') (w_app w') app_key (\<lambda>_. True)"
  by (rule app_games_changed [OF assms(1,2,3,4)]) (simp add: app_key_def)

lemma get_lobby_inv:
  assumes "registry_inv w" "w_app w a = Some ap" "get_lobby a k w = (res, w')"
  shows "registry_inv w'"
  using assms
proof (cases rule: get_lobby_cases)
  case (found l lb)
  with assms(1) show ?thesis by simp
next
  case made
  let ?l = "w_next w" and ?lb = "\<lparr> lb_app = a, lb_name = fst k, lb_type = snd k, lb_games = [], lb_handlers = [] \<rparr>"
  let ?ap = "ap\<lparr> ap_lobbies := ht_put (ap_lobbies ap) k (w_next w) \<rparr>"
  note D = registry_invD [OF assms(1)]
  have none: "w_app w ?l = None" "w_lobby w ?l = None" "w_game w ?l = None" using D(8) [of ?l] by simp_all
  have live: "w_lobby w (rm_lobby m) \<noteq> None" if "w_game w r = Some m" for r m using D(7) [OF that] by auto
  have ra: "room_app w' m = room_app w m" if "w_game w r = Some m" for r m
    using live [OF that] none(2) by (auto simp: made(3) room_app_def)
  have key: "lobby_key ?lb = k" by (simp add: lobby_key_def)
  show ?thesis
  proof (rule registry_invI, goal_cases)
    case 1 show ?case by (rule app_lobbies_changed [OF assms(1,2)]) (simp_all add: made(3))
  next
    case (2 b p)
    show ?case
    proof (cases "b = a")
      case True
      with 2 have "p = ?ap" by (simp add: made(3))
      with indexes_add [OF D(2) [OF assms(2)] none(2), of ?lb, unfolded key, OF _ made(1)] True show ?thesis
        by (simp add: made(3))
    next
      case False
      with 2 have "w_app w b = Some p" by (simp add: made(3))
      from indexes_other [OF D(2) [OF this] none(2), of ?lb] False show ?thesis by (simp add: made(3))
    qed
  next
    case (3 b p)
    then have "indexes (map_of (ap_games p)) (w_game w) room_id (\<lambda>m. room_app w m = Some b)"
      using D(3) [of b] assms(2) by (auto simp: made(3) split: if_splits)
    moreover have "w_game w' = w_game w" by (simp add: made(3))
    ultimately show ?case using ra by (auto intro: indexes_live)
  next
    case (4 b p) then show ?case using D(4) [of b] assms(2) by (auto simp: made(3) split: if_splits)
  next
    case (5 q p) then show ?case using D(5) [of q p] by (auto simp: made(3) split: if_splits)
  next
    case (6 q p r) then show ?case using D(6) [of q p r] by (auto simp: made(3) split: if_splits)
  next
    case (7 r m) then show ?case using D(7) [of r m] none(2) by (auto simp: made(3))
  next
    case (8 x) then show ?case using D(8) [of x] D(8) [of a] assms(2) by (auto simp: made(3))
  qed
qed

lemma destroy_lobby_inv:
  assumes "registry_inv w" "w_lobby w l = Some lb" "\<And>r m. w_game w r = Some m \<Longrightarrow> rm_lobby m \<noteq> l"
  shows "registry_inv (destroy_lobby l w)"
proof -
  note D = registry_invD [OF assms(1)]
  obtain ap where ap: "w_app w (lb_app lb) = Some ap" using D(5) [OF assms(2)] by blast
  let ?ap = "ap\<lparr> ap_lobbies := ht_erase (ap_lobbies ap) (lobby_key lb) \<rparr>"
  let ?w = "destroy_lobby l w"
  have e: "?w = put_app (lb_app lb) ?ap (w\<lparr> w_lobby := (w_lobby w)(l := None) \<rparr>)"
    using assms(2) ap by (simp add: destroy_lobby_def lobby_key_def)
  have ra: "room_app ?w m = room_app w m" if "w_game w r = Some m" for r m
    using assms(3) [OF that] by (simp add: e room_app_def)
  show ?thesis
  proof (rule registry_invI, goal_cases)
    case 1 show ?case by (rule app_lobbies_changed [OF assms(1) ap]) (simp_all add: e)
  next
    case (2 b p)
    show ?case
    proof (cases "b = lb_app lb")
      case True
      with 2 have "p = ?ap" by (simp add: e)
      with indexes_del [OF D(2) [OF ap] assms(2)] True show ?thesis by (simp add: e)
    next
      case False
      with 2 have "w_app w b = Some p" by (simp add: e)
      from indexes_del_other [OF D(2) [OF this], of l] assms(2) False show ?thesis by (simp add: e)
    qed
  next
    case (3 b p)
    then have "indexes (map_of (ap_games p)) (w_game w) room_id (\<lambda>m. room_app w m = Some b)"
      using D(3) [of b] ap by (auto simp: e split: if_splits)
    moreover have "w_game ?w = w_game w" by (simp add: e)
    ultimately show ?case using ra by (auto intro: indexes_live)
  next
    case (4 b p) then show ?case using D(4) [of b] ap by (auto simp: e split: if_splits)
  next
    case (5 q p) then show ?case using D(5) [of q p] by (auto simp: e split: if_splits)
  next
    case (6 q p r) then show ?case using D(6) [of q p r] by (auto simp: e split: if_splits)
  next
    case (7 r m) then show ?case using D(7) [of r m] assms(3) [of r m] by (auto simp: e)
  next
    case (8 x) then show ?case using D(8) [of x] ap by (auto simp: e)
  qed
qed

lemma app_get_cases:
  assumes "registry_inv w" "app_get db gmax i v w = (res, w')"
  obtains (found) a where "res = Some a" "app_lookup w (i, v) = Some a" "registry_inv w'"
      "w_app w' = w_app w" "w_lobby w' = w_lobby w" "w_game w' = w_game w"
  | (failed) "res = None" "app_lookup w (i, v) = None" "load_app_settings db gmax i default_app_settings = None"
      "app_lookup w' = app_lookup w" "w_app w' = w_app w" "w_lobby w' = w_lobby w" "w_game w' = w_game w" "w_next w' = w_next w + 1"
  | (made) settings where "res = Some (w_next w)" "app_lookup w (i, v) = None"
      "load_app_settings db gmax i default_app_settings = Some settings"
      "app_lookup w' = (app_lookup w)((i, v) \<mapsto> w_next w)" "w_app w' = (w_app w)(w_next w \<mapsto> new_app i v settings)"
      "w_lobby w' = w_lobby w" "w_game w' = w_game w" "w_next w' = w_next w + 1"
proof -
  obtain r w1 where t: "app_try_get i v w = (r, w1)" by force
  note k = app_try_get_keeps(1-4) [OF t] and inv = app_try_get_inv [OF assms(1) t]
  show ?thesis
  proof (cases r)
    case (Some a)
    with assms(2) t have "res = Some a" "w' = w1" by (simp_all add: app_get_def)
    with Some inv k show ?thesis by (intro found) simp_all
  next
    case None
    have some_none: "map_of (w_apps w1) (i, v) \<noteq> Some (Some a)" for a
    proof -
      have "app_lookup w1 (i, v) = None" using None inv(2,3) by simp
      then show ?thesis by (auto simp: app_lookup_def)
    qed
    show ?thesis
    proof (cases "load_app_settings db gmax i default_app_settings")
      case None': None
      with assms(2) t None have "res = None"
        "w' = w1\<lparr> w_apps := ht_erase (ht_emplace (w_apps w1) (i, v) None) (i, v), w_next := w_next w1 + 1 \<rparr>"
        by (simp_all add: app_get_def Let_def)
      moreover from this some_none have "app_lookup w' = app_lookup w1"
        by (auto simp: app_lookup_def fun_eq_iff split: option.splits)
      ultimately show ?thesis using None None' inv k by (intro failed) simp_all
    next
      case (Some settings)
      with assms(2) t None have "res = Some (w_next w1)"
        "w' = put_app (w_next w1) (new_app i v settings)
           (w1\<lparr> w_apps := ht_put (ht_emplace (w_apps w1) (i, v) None) (i, v) (Some (w_next w1)), w_next := w_next w1 + 1 \<rparr>)"
        by (auto simp: app_get_def Let_def)
      moreover from this have "app_lookup w' = (app_lookup w1)((i, v) \<mapsto> w_next w1)"
        by (auto simp: app_lookup_def fun_eq_iff)
      ultimately show ?thesis using None Some inv k by (intro made) simp_all
    qed
  qed
qed

lemma app_get_inv:
  assumes "registry_inv w" "app_get db gmax i v w = (res, w')"
  shows "registry_inv w'"
  using assms
proof (cases rule: app_get_cases)
  case (found a)
  then show ?thesis by simp
next
  case failed
  have "room_app w' = room_app w" by (simp add: room_app_def failed fun_eq_iff)
  then show ?thesis using assms(1) unfolding registry_inv_def failed by (simp add: less_Suc_eq)
next
  case (made settings)
  let ?a = "w_next w" and ?ap = "new_app i v settings"
  note D = registry_invD [OF assms(1)]
  have none: "w_app w ?a = None" using D(8) [of ?a] by simp
  have ra: "room_app w' = room_app w" by (simp add: room_app_def made fun_eq_iff)
  have key: "app_key ?ap = (i, v)" by (simp add: app_key_def new_app_def)
  have fresh: "lb_app lb \<noteq> ?a" if "w_lobby w l = Some lb" for l lb using D(5) [OF that] none by auto
  have fresh': "room_app w m \<noteq> Some ?a" if "w_game w r = Some m" for r m
    using D(7) [OF that] fresh by (auto simp: room_app_def)
  show ?thesis
  proof (rule registry_invI, goal_cases)
    case 1 show ?case unfolding made(4,5) using indexes_add [OF D(1) none, of ?ap] made(2) key by simp
  next
    case (2 b p)
    show ?case
    proof (cases "b = ?a")
      case True
      with 2 have "p = ?ap" by (simp add: made)
      with fresh True show ?thesis by (simp add: new_app_def made(6)) (rule indexes_empty, blast)
    qed (use 2 D(2) [of b] in \<open>simp add: made\<close>)
  next
    case (3 b p)
    show ?case
    proof (cases "b = ?a")
      case True
      with 3 have "p = ?ap" by (simp add: made)
      with fresh' True show ?thesis by (simp add: new_app_def made(7) ra) (rule indexes_empty, blast)
    qed (use 3 D(3) [of b] in \<open>simp add: made ra\<close>)
  next
    case (4 b p) then show ?case using D(4) [of b] by (auto simp: made new_app_def split: if_splits)
  next
    case (5 q p) then show ?case using D(5) [of q p] by (auto simp: made)
  next
    case (6 q p r) then show ?case using D(6) [of q p r] by (auto simp: made)
  next
    case (7 r m) then show ?case using D(7) [of r m] by (auto simp: made)
  next
    case (8 x) then show ?case using D(8) [of x] by (auto simp: made)
  qed
qed

lemma destroy_app_inv:
  assumes "registry_inv w" "w_app w a = Some ap" "\<And>l lb. w_lobby w l = Some lb \<Longrightarrow> lb_app lb \<noteq> a"
  shows "registry_inv (destroy_app a w)"
proof -
  note D = registry_invD [OF assms(1)]
  let ?w = "destroy_app a w"
  have e: "w_app ?w = (w_app w)(a := None)" "w_lobby ?w = w_lobby w" "w_game ?w = w_game w" "w_next ?w = w_next w"
    using assms(2) by (simp_all add: destroy_app_def)
  have l: "app_lookup ?w = (app_lookup w)(app_key ap := None)"
    using assms(2) by (auto simp: destroy_app_def app_lookup_def app_key_def ht_contains_def fun_eq_iff split: option.splits)
  have ra: "room_app ?w = room_app w" by (simp add: room_app_def e fun_eq_iff)
  show ?thesis
  proof (rule registry_invI, goal_cases)
    case 1 show ?case unfolding l e by (rule indexes_del [OF D(1) assms(2)]) simp
  next
    case (2 b p) then show ?case using D(2) [of b] by (simp add: e split: if_splits)
  next
    case (3 b p) then show ?case using D(3) [of b] by (simp add: e ra split: if_splits)
  next
    case (4 b p) then show ?case using D(4) [of b] by (simp add: e split: if_splits)
  next
    case (5 q p) then show ?case using D(5) [of q p] assms(3) [of q p] by (auto simp: e)
  next
    case (6 q p r) then show ?case using D(6) [of q p r] by (simp add: e)
  next
    case (7 r m) then show ?case using D(7) [of r m] by (simp add: e)
  next
    case (8 x) then show ?case using D(8) [of x] by (simp add: e)
  qed
qed

end
