(* ===== verification/Decimal.thy ===== *)
theory Decimal
  imports Prelude
begin

text \<open>
  Decimal numbers as the C++ library prints and reads them: \<^theory_text>\<open>std::to_string\<close>,
  \<^theory_text>\<open>std::stoi\<close> and \<^theory_text>\<open>std::from_chars\<close>. Several components name things by a number. The
  order of strings, which maps and lists of names follow, is here too.
\<close>

section \<open>Printing and reading\<close>

text \<open>\<^theory_text>\<open>std::to_string\<close> of a number, and \<^theory_text>\<open>std::stoi\<close>, which throws without digits or out of range.\<close>

definition digit_char :: "nat \<Rightarrow> char" where
  "digit_char d = char_of (48 + d)"

fun nat_string :: "nat \<Rightarrow> string" where
  "nat_string n = (if n < 10 then [digit_char n] else nat_string (n div 10) @ [digit_char (n mod 10)])"

declare nat_string.simps [simp del]

definition int_string :: "int \<Rightarrow> string" where
  "int_string i = (if i < 0 then CHR ''-'' # nat_string (nat (- i)) else nat_string (nat i))"

definition is_digit :: "char \<Rightarrow> bool" where
  "is_digit c \<longleftrightarrow> 48 \<le> (of_char c :: nat) \<and> (of_char c :: nat) \<le> 57"

definition digits_value :: "string \<Rightarrow> nat" where
  "digits_value ds = foldl (\<lambda>n c. 10 * n + (of_char c - 48)) 0 ds"

definition is_space :: "char \<Rightarrow> bool" where
  "is_space c \<longleftrightarrow> (of_char c :: nat) = 32 \<or> (9 \<le> (of_char c :: nat) \<and> (of_char c :: nat) \<le> 13)"

definition stoi :: "string \<Rightarrow> int option" where
  "stoi s =
    (let t = dropWhile is_space s;
         neg = (t \<noteq> [] \<and> hd t = CHR ''-'');
         u = (if t \<noteq> [] \<and> (hd t = CHR ''-'' \<or> hd t = CHR ''+'') then tl t else t);
         ds = takeWhile is_digit u;
         v = (if neg then - int (digits_value ds) else int (digits_value ds))
     in if ds = [] \<or> v < - (2 ^ 31) \<or> 2 ^ 31 \<le> v then None else Some v)"

text \<open>
  \<^theory_text>\<open>std::from_chars\<close> of a \<^theory_text>\<open>long long\<close>: an optional minus and digits, no space and no plus. It
  gives the number and the rest of the text, and nothing without digits or out of range.
\<close>

definition from_chars :: "string \<Rightarrow> (int \<times> string) option" where
  "from_chars s =
    (let neg = (s \<noteq> [] \<and> hd s = CHR ''-'');
         u = (if neg then tl s else s);
         ds = takeWhile is_digit u;
         v = (if neg then - int (digits_value ds) else int (digits_value ds))
     in if ds = [] \<or> v < - (2 ^ 63) \<or> 2 ^ 63 \<le> v then None else Some (v, dropWhile is_digit u))"

section \<open>Decimal numbers read back\<close>

lemma of_char_digit: "d < 10 \<Longrightarrow> (of_char (digit_char d) :: nat) = 48 + d"
  by (simp add: digit_char_def)

lemma is_digit_char: "d < 10 \<Longrightarrow> is_digit (digit_char d)"
  by (simp add: is_digit_def of_char_digit)

lemma nat_string_digits: "c \<in> set (nat_string n) \<Longrightarrow> is_digit c"
proof (induction n rule: nat_string.induct)
  case (1 n)
  then show ?case
    by (cases "n < 10") (auto simp: nat_string.simps [of n] is_digit_char)
qed

lemma nat_string_ne [simp]: "nat_string n \<noteq> []"
  by (subst nat_string.simps) simp

lemma digits_value_snoc: "digits_value (ds @ [c]) = 10 * digits_value ds + (of_char c - 48)"
  by (simp add: digits_value_def)

lemma digits_value_nat_string: "digits_value (nat_string n) = n"
proof (induction n rule: nat_string.induct)
  case (1 n)
  show ?case
  proof (cases "n < 10")
    case True
    then show ?thesis by (simp add: nat_string.simps [of n] digits_value_def of_char_digit)
  next
    case False
    then have "digits_value (nat_string n) = 10 * (n div 10) + n mod 10"
      using 1 by (simp add: nat_string.simps [of n] digits_value_snoc of_char_digit)
    then show ?thesis by simp
  qed
qed

lemma digit_not_special:
  assumes "is_digit c"
  shows "\<not> is_space c" "c \<noteq> CHR ''-''" "c \<noteq> CHR ''+''" "c \<noteq> CHR '';''"
  using assms by (auto simp: is_digit_def is_space_def)

lemma stoi_digits:
  assumes "ds \<noteq> []" "\<And>c. c \<in> set ds \<Longrightarrow> is_digit c" "digits_value ds < 2 ^ 31"
  shows "stoi ds = Some (int (digits_value ds))"
proof -
  have h: "is_digit (hd ds)" using assms(1,2) by simp
  have "dropWhile is_space ds = ds"
    using assms(1) digit_not_special(1) [OF h] by (cases ds) auto
  moreover have tw: "takeWhile is_digit ds = ds" using assms(2) by (simp add: takeWhile_eq_all_conv)
  moreover have "int (digits_value ds) < 2 ^ 31" using assms(3) by (simp add: of_nat_less_numeral_power_cancel_iff)
  ultimately show ?thesis
    using assms(1) digit_not_special(2,3) [OF h] by (simp add: stoi_def Let_def tw)
qed

lemma stoi_negative:
  assumes "ds \<noteq> []" "\<And>c. c \<in> set ds \<Longrightarrow> is_digit c" "digits_value ds \<le> 2 ^ 31"
  shows "stoi (CHR ''-'' # ds) = Some (- int (digits_value ds))"
proof -
  have tw: "takeWhile is_digit ds = ds" using assms(2) by (simp add: takeWhile_eq_all_conv)
  have "int (digits_value ds) \<le> 2 ^ 31" using assms(3) by (metis of_nat_le_iff of_nat_numeral of_nat_power)
  moreover have "\<not> is_space (CHR ''-'')" by (simp add: is_space_def)
  ultimately show ?thesis using assms(1) by (simp add: stoi_def Let_def tw)
qed

text \<open>Every 32-bit integer printed and read again is itself.\<close>

lemma stoi_int_string:
  assumes "- (2 ^ 31) \<le> i" "i < 2 ^ 31"
  shows "stoi (int_string i) = Some i"
proof (cases "i < 0")
  case True
  then have "stoi (int_string i) = Some (- int (digits_value (nat_string (nat (- i)))))"
    using assms(1) unfolding int_string_def
    by (simp add: nat_string_digits digits_value_nat_string stoi_negative)
  with True show ?thesis by (simp add: digits_value_nat_string)
next
  case False
  then have "stoi (int_string i) = Some (int (digits_value (nat_string (nat i))))"
    using assms(2) unfolding int_string_def
    by (simp add: nat_string_digits digits_value_nat_string stoi_digits)
  with False show ?thesis by (simp add: digits_value_nat_string)
qed

lemma from_chars_int_string:
  assumes "- (2 ^ 63) \<le> i" "i < 2 ^ 63"
  shows "from_chars (int_string i) = Some (i, [])"
proof -
  have tw: "takeWhile is_digit (nat_string n) = nat_string n" for n
    by (simp add: takeWhile_eq_all_conv nat_string_digits)
  have dw: "dropWhile is_digit (nat_string n) = []" for n
    by (simp add: dropWhile_eq_Nil_conv nat_string_digits)
  have h: "hd (nat_string n) \<noteq> CHR ''-''" for n
    using digit_not_special(2) nat_string_digits list.set_sel(1) [OF nat_string_ne] by blast
  show ?thesis
    using assms h by (auto simp: from_chars_def int_string_def Let_def tw dw digits_value_nat_string nat_string_digits)
qed

text \<open>The printed number determines the number.\<close>

lemma nat_string_inject: "nat_string m = nat_string n \<longleftrightarrow> m = n"
  using digits_value_nat_string by metis

section \<open>The order of strings\<close>

text \<open>\<^theory_text>\<open>std::string\<close> compares characters as unsigned bytes.\<close>

fun string_less :: "string \<Rightarrow> string \<Rightarrow> bool" where
  "string_less s [] = False"
| "string_less [] (c # cs) = True"
| "string_less (a # as) (c # cs) = ((of_char a :: nat) < of_char c \<or> (a = c \<and> string_less as cs))"

lemma string_less_order:
  "string_less s t \<Longrightarrow> \<not> string_less t s"
  "string_less s t \<Longrightarrow> string_less s u \<or> string_less u t"
proof -
  show "string_less s t \<Longrightarrow> \<not> string_less t s" by (induction s t rule: string_less.induct) auto
  show "string_less s t \<Longrightarrow> string_less s u \<or> string_less u t"
  proof (induction s t arbitrary: u rule: string_less.induct)
    case (2 c cs)
    then show ?case by (cases u) auto
  next
    case (3 a s c t)
    then show ?case by (cases u) (auto intro: of_char_eqI)
  qed simp
qed

end
