(* ===== verification/LobbyTable.thy ===== *)
theory LobbyTable
  imports RegistryInv Decimal
begin

text \<open>
  The rooms of a lobby as an SQL table (src/lobby_vt.cpp): the callbacks SQLite plans and
  runs a query with. A plan is a string of columns and operators; a cursor is a snapshot of
  the rooms that match. What the callbacks ask of SQLite are parameters.
\<close>

section \<open>SQLite\<close>

text \<open>
  The values SQLite passes, by their accessors, and its string comparisons. Of a comparison
  the sign is read, of the pattern tests whether the result is zero.
\<close>

datatype sql_type = TyInteger | TyFloat | TyText | TyBlob | TyNull

record 's sqlite_ops =
  sq_type :: "'s \<Rightarrow> sql_type"
  sq_int64 :: "'s \<Rightarrow> int"
  sq_text :: "'s \<Rightarrow> string option"
  sq_stricmp :: "string \<Rightarrow> string \<Rightarrow> int"
  sq_strlike :: "string \<Rightarrow> string \<Rightarrow> int"
  sq_strglob :: "string \<Rightarrow> string \<Rightarrow> int"

text \<open>The accessors of the wide integers a property may hold.\<close>

record 'v wide_ops =
  wd_i64 :: "'v \<Rightarrow> int option"
  wd_i16 :: "'v \<Rightarrow> int option"

datatype constraint_op = OpEq | OpLike | OpGlob | OpGt | OpLt | OpGe | OpLe | OpOther

record sql_constraint =
  sc_usable :: bool
  sc_column :: int
  sc_op :: constraint_op

section \<open>Planning\<close>

definition op_char :: "constraint_op \<Rightarrow> char option" where
  "op_char p = (case p of OpEq \<Rightarrow> Some (CHR ''='') | OpLike \<Rightarrow> Some (CHR ''L'') | OpGlob \<Rightarrow> Some (CHR ''G'')
     | OpGt \<Rightarrow> Some (CHR ''>'') | OpLt \<Rightarrow> Some (CHR ''<'') | OpGe \<Rightarrow> Some (CHR '']'') | OpLe \<Rightarrow> Some (CHR ''['')
     | OpOther \<Rightarrow> None)"

text \<open>
  The plan: the argument numbers of the constraints, 0 for one the table does not take (and
  the others it promises to check itself), the flag that an id is given, and the string.
\<close>

record sql_plan =
  pl_usage :: "(nat \<times> bool) list"
  pl_idx_num :: nat
  pl_idx_str :: string
  pl_next_argv :: nat

definition plan_constraint :: "sql_constraint \<Rightarrow> sql_plan \<Rightarrow> sql_plan" where
  "plan_constraint c p =
    (if \<not> sc_usable c then p\<lparr> pl_usage := pl_usage p @ [(0, False)] \<rparr>
     else case op_char (sc_op c) of
       None \<Rightarrow> p\<lparr> pl_usage := pl_usage p @ [(0, False)] \<rparr>
     | Some ch \<Rightarrow>
        (if sc_column c < 0 \<or> 10 < sc_column c then p\<lparr> pl_usage := pl_usage p @ [(0, False)] \<rparr>
         else p\<lparr> pl_usage := pl_usage p @ [(pl_next_argv p, True)], pl_next_argv := pl_next_argv p + 1,
                 pl_idx_str := pl_idx_str p @ int_string (sc_column c) @ [ch, CHR '';''],
                 pl_idx_num := (if sc_column c = 0 \<and> ch = CHR ''='' then 1 else pl_idx_num p) \<rparr>))"

definition vt_best_index :: "sql_constraint list \<Rightarrow> sql_plan" where
  "vt_best_index cs = fold plan_constraint cs
     \<lparr> pl_usage = [], pl_idx_num = 0, pl_idx_str = [], pl_next_argv = 1 \<rparr>"

text \<open>SQLite is given no string when there is nothing to check.\<close>

definition plan_string :: "sql_plan \<Rightarrow> string option" where
  "plan_string p = (if pl_idx_str p = [] then None else Some (pl_idx_str p))"

definition estimated_cost :: "sql_plan \<Rightarrow> nat" where
  "estimated_cost p = (if odd (pl_idx_num p) then 1 else 1000)"

section \<open>Filtering\<close>

record filter_prop =
  fp_col :: int
  fp_op :: char
  fp_is_null :: bool
  fp_is_numeric :: bool
  fp_str :: string
  fp_int :: int

definition filter_prop_of :: "'s sqlite_ops \<Rightarrow> int \<Rightarrow> char \<Rightarrow> 's \<Rightarrow> filter_prop" where
  "filter_prop_of sq col ch v =
    (let numeric = (sq_type sq v = TyInteger \<or> sq_type sq v = TyFloat) in
     \<lparr> fp_col = col, fp_op = ch, fp_is_null = (sq_type sq v = TyNull), fp_is_numeric = numeric,
       fp_str = (case sq_text sq v of None \<Rightarrow> [] | Some t \<Rightarrow> t), fp_int = (if numeric then sq_int64 sq v else 0) \<rparr>)"

text \<open>The pieces of the plan; what follows the last semicolon is dropped.\<close>

fun split_plan :: "string \<Rightarrow> string \<Rightarrow> string list" where
  "split_plan acc [] = []"
| "split_plan acc (c # cs) = (if c = CHR '';'' then acc # split_plan [] cs else split_plan (acc @ [c]) cs)"

record parsed_filter =
  pf_props :: "filter_prop list"
  pf_id :: string
  pf_id_is_null :: bool

text \<open>\<^theory_text>\<open>None\<close> is an exception: fewer arguments than pieces, or a piece without a column.\<close>

fun parse_pieces :: "'s sqlite_ops \<Rightarrow> string list \<Rightarrow> 's list \<Rightarrow> parsed_filter \<Rightarrow> parsed_filter option" where
  "parse_pieces sq [] args pf = Some pf"
| "parse_pieces sq (t # ts) args pf =
    (if t = [] then parse_pieces sq ts args pf
     else case args of
       [] \<Rightarrow> None
     | v # vs \<Rightarrow>
        (case stoi (butlast t) of
           None \<Rightarrow> None
         | Some col \<Rightarrow>
            (let fp = filter_prop_of sq col (last t) v in
             if col = 0 \<and> last t = CHR ''='' then
               parse_pieces sq ts vs (pf\<lparr> pf_id := fp_str fp, pf_id_is_null := fp_is_null fp \<rparr>)
             else parse_pieces sq ts vs (pf\<lparr> pf_props := pf_props pf @ [fp] \<rparr>))))"

definition parse_plan :: "'s sqlite_ops \<Rightarrow> string option \<Rightarrow> 's list \<Rightarrow> parsed_filter option" where
  "parse_plan sq idx_str args =
    (let pf = \<lparr> pf_props = [], pf_id = [], pf_id_is_null = False \<rparr> in
     case idx_str of None \<Rightarrow> Some pf | Some s \<Rightarrow> parse_pieces sq (split_plan [] s) args pf)"

definition prop_key :: "'v value_ops \<Rightarrow> int \<Rightarrow> 'v" where
  "prop_key vo i = v_of_string vo (CHR ''C'' # int_string i)"

text \<open>The string and, for a number, the integer a room shows in a column; \<^theory_text>\<open>None\<close> does not match.\<close>

definition value_int :: "'v value_ops \<Rightarrow> 'v wide_ops \<Rightarrow> 'v \<Rightarrow> int option" where
  "value_int vo wd v =
    (case v_i32 vo v of Some n \<Rightarrow> Some n | None \<Rightarrow>
     (case wd_i64 wd v of Some n \<Rightarrow> Some n | None \<Rightarrow>
      (case wd_i16 wd v of Some n \<Rightarrow> Some n | None \<Rightarrow>
       (case v_u8 vo v of Some b \<Rightarrow> Some (uint b) | None \<Rightarrow>
        (case v_bool vo v of Some b \<Rightarrow> Some (if b then 1 else 0) | None \<Rightarrow> None)))))"

definition column_actual :: "'v value_ops \<Rightarrow> 'v wide_ops \<Rightarrow> 'v game \<Rightarrow> int \<Rightarrow> (string \<times> int option) option" where
  "column_actual vo wd g col =
    (if col = 0 then Some (g_id g, None)
     else if 1 \<le> col \<and> col \<le> 10 then
       (case map_of (g_custom_props g) (prop_key vo (col - 1)) of
          None \<Rightarrow> None
        | Some v \<Rightarrow>
           (case v_string vo v of
              Some s \<Rightarrow> Some (s, None)
            | None \<Rightarrow> (case value_int vo wd v of None \<Rightarrow> None | Some n \<Rightarrow> Some (int_string n, Some n))))
     else None)"

definition compare_holds :: "char \<Rightarrow> int \<Rightarrow> int \<Rightarrow> bool" where
  "compare_holds ch a b \<longleftrightarrow> (ch = CHR ''>'' \<longrightarrow> b < a) \<and> (ch = CHR ''<'' \<longrightarrow> a < b)
     \<and> (ch = CHR '']'' \<longrightarrow> b \<le> a) \<and> (ch = CHR ''['' \<longrightarrow> a \<le> b)"

definition prop_holds :: "'s sqlite_ops \<Rightarrow> 'v value_ops \<Rightarrow> 'v wide_ops \<Rightarrow> 'v game \<Rightarrow> filter_prop \<Rightarrow> bool" where
  "prop_holds sq vo wd g fp =
    (if fp_is_null fp then False
     else case column_actual vo wd g (fp_col fp) of
       None \<Rightarrow> False
     | Some (actual_str, actual_int) \<Rightarrow>
        (if fp_op fp = CHR ''='' then sq_stricmp sq actual_str (fp_str fp) = 0
         else if fp_op fp = CHR ''L'' then sq_strlike sq (fp_str fp) actual_str = 0
         else if fp_op fp = CHR ''G'' then sq_strglob sq (fp_str fp) actual_str = 0
         else if fp_is_numeric fp \<and> actual_int \<noteq> None then compare_holds (fp_op fp) (the actual_int) (fp_int fp)
         else compare_holds (fp_op fp) (sq_stricmp sq actual_str (fp_str fp)) 0))"

definition matches_props :: "'s sqlite_ops \<Rightarrow> 'v value_ops \<Rightarrow> 'v wide_ops \<Rightarrow> filter_prop list \<Rightarrow> 'v game \<Rightarrow> bool" where
  "matches_props sq vo wd fps g \<longleftrightarrow> list_all (prop_holds sq vo wd g) fps"

record lobby_cursor =
  cu_games :: "game_ref list"
  cu_index :: nat

definition vt_open :: lobby_cursor where
  "vt_open = \<lparr> cu_games = [], cu_index = 0 \<rparr>"

text \<open>The first result says whether the callback returned \<^theory_text>\<open>SQLITE_OK\<close>.\<close>

definition vt_filter ::
  "'s sqlite_ops \<Rightarrow> 'v value_ops \<Rightarrow> 'v wide_ops \<Rightarrow> 'v world \<Rightarrow> lobby_ref \<Rightarrow> nat \<Rightarrow> string option \<Rightarrow> 's list
     \<Rightarrow> bool \<times> lobby_cursor" where
  "vt_filter sq vo wd w l idx_num idx_str args =
    (case parse_plan sq idx_str args of
       None \<Rightarrow> (False, vt_open)
     | Some pf \<Rightarrow>
        (if odd idx_num \<and> pf_id_is_null pf then (True, vt_open)
         else case w_lobby w l of None \<Rightarrow> (False, vt_open) | Some lb \<Rightarrow>
           (case w_app w (lb_app lb) of None \<Rightarrow> (False, vt_open) | Some ap \<Rightarrow>
             (if odd idx_num then
                (case map_of (ap_games ap) (pf_id pf) of
                   None \<Rightarrow> (True, vt_open)
                 | Some r \<Rightarrow>
                    (case w_game w r of
                       None \<Rightarrow> (True, vt_open)
                     | Some m \<Rightarrow>
                        (True, vt_open\<lparr> cu_games := (if rm_lobby m = l \<and> matches_props sq vo wd (pf_props pf) (rm_game m)
                                                     then [r] else []) \<rparr>)))
              else (True, vt_open\<lparr> cu_games := filter (\<lambda>r. case w_game w r of None \<Rightarrow> False
                     | Some m \<Rightarrow> matches_props sq vo wd (pf_props pf) (rm_game m)) (lb_games lb) \<rparr>)))))"

section \<open>The cursor\<close>

definition vt_next :: "lobby_cursor \<Rightarrow> lobby_cursor" where
  "vt_next cu = cu\<lparr> cu_index := cu_index cu + 1 \<rparr>"

definition vt_eof :: "lobby_cursor \<Rightarrow> bool" where
  "vt_eof cu \<longleftrightarrow> length (cu_games cu) \<le> cu_index cu"

definition vt_rowid :: "lobby_cursor \<Rightarrow> nat" where
  "vt_rowid cu = (if cu_index cu < length (cu_games cu) then cu_index cu + 1 else 0)"

datatype column_value = ColNull | ColText string | ColInt int

text \<open>The cursor holds its rooms, so \<^theory_text>\<open>game\<close> reads a room that is alive.\<close>

definition vt_column :: "'v value_ops \<Rightarrow> 'v wide_ops \<Rightarrow> (game_ref \<Rightarrow> 'v game) \<Rightarrow> lobby_cursor \<Rightarrow> int \<Rightarrow> column_value" where
  "vt_column vo wd game cu i =
    (if length (cu_games cu) \<le> cu_index cu then ColNull
     else let g = game (cu_games cu ! cu_index cu) in
       if i = 0 then ColText (g_id g)
       else if 1 \<le> i \<and> i \<le> 10 then
         (case map_of (g_custom_props g) (prop_key vo (i - 1)) of
            None \<Rightarrow> ColNull
          | Some v \<Rightarrow>
             (case v_string vo v of Some s \<Rightarrow> ColText s | None \<Rightarrow>
              (case v_bool vo v of Some b \<Rightarrow> ColInt (if b then 1 else 0) | None \<Rightarrow>
               (case v_i32 vo v of Some n \<Rightarrow> ColInt n | None \<Rightarrow>
                (case wd_i64 wd v of Some n \<Rightarrow> ColInt n | None \<Rightarrow>
                 (case wd_i16 wd v of Some n \<Rightarrow> ColInt n | None \<Rightarrow>
                  (case v_u8 vo v of Some b \<Rightarrow> ColInt (uint b) | None \<Rightarrow> ColNull)))))))
       else ColNull)"

text \<open>How SQLite walks a cursor: until its end, reading the row and stepping on.\<close>

function vt_scan :: "lobby_cursor \<Rightarrow> (nat \<times> game_ref) list" where
  "vt_scan cu = (if vt_eof cu then [] else (vt_rowid cu, cu_games cu ! cu_index cu) # vt_scan (vt_next cu))"
  by pat_completeness auto
termination
  by (relation "measure (\<lambda>cu. length (cu_games cu) - cu_index cu)") (auto simp: vt_eof_def vt_next_def)

declare vt_scan.simps [simp del]

end
