(* ===== verification/RegistryProps.thy ===== *)
theory RegistryProps
  imports RegistryInv
begin

text \<open>
  The registry over time: every operation of a process on its applications, lobbies and
  rooms, and the destruction of objects nothing holds, in any order; what its lookups
  find, what creating a room does, and how rooms that are gone still count.
\<close>

section \<open>Steps\<close>

inductive world_step :: "'v world \<Rightarrow> 'v world \<Rightarrow> bool" where
  app_got: "app_get db gmax i v w = (res, w') \<Longrightarrow> world_step w w'"
| app_tried: "app_try_get i v w = (res, w') \<Longrightarrow> world_step w w'"
| app_gone: "w_app w a = Some ap \<Longrightarrow> (\<And>l lb. w_lobby w l = Some lb \<Longrightarrow> lb_app lb \<noteq> a) \<Longrightarrow> world_step w (destroy_app a w)"
| lobby_got: "w_app w a = Some ap \<Longrightarrow> get_lobby a k w = (res, w') \<Longrightarrow> world_step w w'"
| lobby_gone: "w_lobby w l = Some lb \<Longrightarrow> (\<And>r m. w_game w r = Some m \<Longrightarrow> rm_lobby m \<noteq> l) \<Longrightarrow> world_step w (destroy_lobby l w)"
| room_made: "create_game l gid address or_get w = Some (res, us, w') \<Longrightarrow> world_step w w'"
| room_gone: "destroy_game r w = Some (us, w') \<Longrightarrow> world_step w w'"
| room_changed: "w_game w r = Some m \<Longrightarrow> g_id g = g_id (rm_game m) \<Longrightarrow> world_step w (set_game r g w)"
| handler_added: "w_lobby w l = Some lb \<Longrightarrow> world_step w (add_list_handler h l w)"
| handler_removed: "w_lobby w l = Some lb \<Longrightarrow> world_step w (remove_list_handler h l w)"

inductive world_reach :: "'v world \<Rightarrow> bool" where
  start: "world_reach empty_world"
| onwards: "world_reach w \<Longrightarrow> world_step w w' \<Longrightarrow> world_reach w'"

lemma world_step_inv: "world_step w w' \<Longrightarrow> registry_inv w \<Longrightarrow> registry_inv w'"
proof (induction rule: world_step.induct)
  case (app_got db gmax i v w res w')
  then show ?case using app_get_inv by blast
next
  case (app_tried i v w res w')
  then show ?case using app_try_get_inv(1) by blast
next
  case (app_gone w a ap)
  then show ?case using destroy_app_inv by blast
next
  case (lobby_got w a ap k res w')
  then show ?case using get_lobby_inv by blast
next
  case (lobby_gone w l lb)
  then show ?case using destroy_lobby_inv by blast
next
  case (room_made l gid address or_get w res us w')
  then show ?case using create_game_inv by blast
next
  case (room_gone r w us w')
  then show ?case using destroy_game_inv by blast
next
  case (room_changed w r m g)
  then show ?case using set_game_inv by blast
next
  case (handler_added w l lb h)
  then show ?case by (simp add: add_list_handler_def handlers_inv)
next
  case (handler_removed w l lb h)
  then show ?case by (simp add: remove_list_handler_def handlers_inv)
qed

lemma world_reach_inv: "world_reach w \<Longrightarrow> registry_inv w"
  by (induction rule: world_reach.induct) (auto intro: empty_world_inv world_step_inv)

lemma world_steps_reach: "world_step\<^sup>*\<^sup>* w w' \<Longrightarrow> world_reach w \<Longrightarrow> world_reach w'"
  by (induction rule: rtranclp_induct) (auto intro: world_reach.onwards)

text \<open>What never changes while an object lives, and that a destroyed one never returns.\<close>

definition grows :: "'v world \<Rightarrow> 'v world \<Rightarrow> bool" where
  "grows w w' \<longleftrightarrow> w_next w \<le> w_next w'
     \<and> (\<forall>l lb'. l < w_next w \<longrightarrow> w_lobby w' l = Some lb' \<longrightarrow>
          (\<exists>lb zs. w_lobby w l = Some lb \<and> lb_app lb' = lb_app lb \<and> lb_games lb' = lb_games lb @ zs))
     \<and> (\<forall>a ap'. a < w_next w \<longrightarrow> w_app w' a = Some ap' \<longrightarrow> (\<exists>ap. w_app w a = Some ap \<and> ap_settings ap' = ap_settings ap))"

lemma grows_refl: "grows w w"
  by (simp add: grows_def)

lemma grows_trans:
  assumes "grows w w'" "grows w' w''"
  shows "grows w w''"
proof -
  have n: "w_next w \<le> w_next w'" "w_next w' \<le> w_next w''" using assms by (simp_all add: grows_def)
  have "\<exists>lb zs. w_lobby w l = Some lb \<and> lb_app lb'' = lb_app lb \<and> lb_games lb'' = lb_games lb @ zs"
    if l: "l < w_next w" "w_lobby w'' l = Some lb''" for l lb''
  proof -
    obtain lb' zs' where "w_lobby w' l = Some lb'" "lb_app lb'' = lb_app lb'" "lb_games lb'' = lb_games lb' @ zs'"
      using assms(2) l n unfolding grows_def by (meson less_le_trans)
    moreover from this obtain lb zs where "w_lobby w l = Some lb" "lb_app lb' = lb_app lb" "lb_games lb' = lb_games lb @ zs"
      using assms(1) l unfolding grows_def by blast
    ultimately show ?thesis by simp
  qed
  moreover have "\<exists>ap. w_app w a = Some ap \<and> ap_settings ap'' = ap_settings ap"
    if a: "a < w_next w" "w_app w'' a = Some ap''" for a ap''
  proof -
    obtain ap' where "w_app w' a = Some ap'" "ap_settings ap'' = ap_settings ap'"
      using assms(2) a n unfolding grows_def by (meson less_le_trans)
    moreover from this obtain ap where "w_app w a = Some ap" "ap_settings ap' = ap_settings ap"
      using assms(1) a unfolding grows_def by blast
    ultimately show ?thesis by simp
  qed
  ultimately show ?thesis using n unfolding grows_def by (meson order_trans)
qed

lemma growsI:
  assumes "w_next w \<le> w_next w'"
    "\<And>l lb'. l < w_next w \<Longrightarrow> w_lobby w' l = Some lb' \<Longrightarrow>
       \<exists>lb zs. w_lobby w l = Some lb \<and> lb_app lb' = lb_app lb \<and> lb_games lb' = lb_games lb @ zs"
    "\<And>a ap'. a < w_next w \<Longrightarrow> w_app w' a = Some ap' \<Longrightarrow> \<exists>ap. w_app w a = Some ap \<and> ap_settings ap' = ap_settings ap"
  shows "grows w w'"
  using assms unfolding grows_def by blast

lemma grows_same: "w_next w \<le> w_next w' \<Longrightarrow> w_lobby w' = w_lobby w \<Longrightarrow> w_app w' = w_app w \<Longrightarrow> grows w w'"
  by (simp add: grows_def)

lemma grows_handlers:
  assumes "w_lobby w l = Some lb"
  shows "grows w (put_lobby l (lb\<lparr> lb_handlers := hs \<rparr>) w)"
  using assms by (auto intro!: growsI split: if_splits)

lemma world_step_grows: "world_step w w' \<Longrightarrow> registry_inv w \<Longrightarrow> grows w w'"
proof (induction rule: world_step.induct)
  case (app_got db gmax i v w res w')
  from app_got(2,1) show ?case
  proof (cases rule: app_get_cases)
    case (found a)
    obtain r w1 where t: "app_try_get i v w = (r, w1)" by force
    with app_got(1) found(2) app_try_get_inv(3) [OF app_got(2) t] have "w' = w1" by (simp add: app_get_def)
    with app_try_get_keeps [OF t] show ?thesis by (simp add: grows_same)
  next
    case failed
    then show ?thesis by (simp add: grows_same)
  next
    case (made settings)
    then show ?thesis by (auto intro!: growsI)
  qed
next
  case (app_tried i v w res w')
  from app_try_get_keeps [OF app_tried(1)] show ?case by (simp add: grows_same)
next
  case (app_gone w a ap)
  then show ?case by (auto intro!: growsI simp: destroy_app_def split: if_splits)
next
  case (lobby_got w a ap k res w')
  from lobby_got(3,1,2) show ?case
  proof (cases rule: get_lobby_cases)
    case (found l lb)
    then show ?thesis by (simp add: grows_refl)
  next
    case made
    show ?thesis by (rule growsI) (use lobby_got(1) in \<open>auto simp: made split: if_splits\<close>)
  qed
next
  case (lobby_gone w l lb)
  then show ?case by (auto intro!: growsI simp: destroy_lobby_def split: option.splits if_splits)
next
  case (room_made l gid address or_get w res us w')
  from room_made(1) show ?case
  proof (cases rule: create_game_cases)
    case same
    then show ?thesis by (simp add: grows_refl)
  next
    case (made lb ap)
    show ?thesis by (rule growsI) (use made(1,2) in \<open>auto simp: made(8) split: if_splits\<close>)
  qed
next
  case (room_gone r w us w')
  obtain m where m: "w_game w r = Some m" using room_gone(1) by (auto simp: destroy_game_def split: option.splits)
  obtain lb ap where s: "w_lobby w (rm_lobby m) = Some lb" "w_app w (lb_app lb) = Some ap"
    by (rule room_registered [OF room_gone(2) m])
  have "w' = put_app (lb_app lb) (ap\<lparr> ap_games := ht_erase (ap_games ap) (room_id m) \<rparr>) (w\<lparr> w_game := (w_game w)(r := None) \<rparr>)"
    using destroy_game_result [OF room_gone(2) m s] room_gone(1) by simp
  with s show ?case by (auto intro!: growsI split: if_splits)
next
  case (room_changed w r m g)
  then show ?case by (simp add: set_game_def grows_same)
next
  case (handler_added w l lb h)
  then show ?case by (simp add: add_list_handler_def grows_handlers)
next
  case (handler_removed w l lb h)
  then show ?case by (simp add: remove_list_handler_def grows_handlers)
qed

lemma world_steps_grow: "world_step\<^sup>*\<^sup>* w w' \<Longrightarrow> world_reach w \<Longrightarrow> grows w w'"
proof (induction rule: rtranclp_induct)
  case base
  show ?case by (rule grows_refl)
next
  case (step y z)
  have "grows y z" using world_step_grows [OF step(2)] world_reach_inv world_steps_reach [OF step(1,4)] by blast
  with step show ?case using grows_trans by blast
qed

section \<open>What the registry answers\<close>

lemma game_count_bound:
  assumes "registry_inv w" "w_lobby w l = Some lb" "w_app w (lb_app lb) = Some ap"
  shows "length (lb_games lb) \<le> get_game_count w ap"
proof -
  have "map_of (ap_lobbies ap) (lobby_key lb) = Some l"
    by (rule indexes_find [OF registry_invD(2) [OF assms(1,3)] assms(2)]) simp
  then have "l \<in> set (map snd (ap_lobbies ap))" by (force dest: map_of_SomeD)
  with assms(2) have "lb \<in> set (live_lobbies w ap)" by (force simp: live_lobbies_def List.map_filter_def)
  then show ?thesis by (auto simp: get_game_count_def intro!: member_le_sum_list)
qed

text \<open>
  C15: Whatever is requested of the registry and whichever objects are destroyed, each
  lookup finds precisely the live object with its key: an application by id and version, a
  lobby of an application by name and type, a room of an application by its id, so that no
  two live rooms of an application share an id. Every live room is listed in its lobby.
\<close>

theorem registry_sound:
  assumes "world_reach w"
  shows "(map_of (w_apps w) (i, v) = Some (Some a) \<longleftrightarrow> (\<exists>ap. w_app w a = Some ap \<and> ap_id ap = i \<and> ap_version ap = v))
    \<and> (w_app w a = Some ap \<longrightarrow>
        (map_of (ap_lobbies ap) (name, type) = Some l \<longleftrightarrow>
           (\<exists>lb. w_lobby w l = Some lb \<and> lb_app lb = a \<and> lb_name lb = name \<and> lb_type lb = type))
      \<and> (map_of (ap_games ap) gid = Some r \<longleftrightarrow>
           (\<exists>m lb. w_game w r = Some m \<and> g_id (rm_game m) = gid \<and> w_lobby w (rm_lobby m) = Some lb \<and> lb_app lb = a)))
    \<and> (w_game w r = Some m \<longrightarrow> (\<exists>lb. w_lobby w (rm_lobby m) = Some lb \<and> r \<in> set (lb_games lb)))"
proof (intro conjI impI)
  note D = registry_invD [OF world_reach_inv [OF assms]]
  show "map_of (w_apps w) (i, v) = Some (Some a) \<longleftrightarrow> (\<exists>ap. w_app w a = Some ap \<and> ap_id ap = i \<and> ap_version ap = v)"
    using D(1) unfolding indexes_def by (simp add: app_lookup_def app_key_def split: option.splits) metis
  show "\<exists>lb. w_lobby w (rm_lobby m) = Some lb \<and> r \<in> set (lb_games lb)" if "w_game w r = Some m"
    using D(7) [OF that] .
  assume ap: "w_app w a = Some ap"
  show "map_of (ap_lobbies ap) (name, type) = Some l \<longleftrightarrow>
      (\<exists>lb. w_lobby w l = Some lb \<and> lb_app lb = a \<and> lb_name lb = name \<and> lb_type lb = type)"
    using D(2) [OF ap] unfolding indexes_def by (simp add: lobby_key_def)
  show "map_of (ap_games ap) gid = Some r \<longleftrightarrow>
      (\<exists>m lb. w_game w r = Some m \<and> g_id (rm_game m) = gid \<and> w_lobby w (rm_lobby m) = Some lb \<and> lb_app lb = a)"
    using D(3) [OF ap] unfolding indexes_def by (auto simp: room_id_def room_app_def)
qed

definition sample_settings :: app_settings where
  "sample_settings = default_app_settings\<lparr> as_max_game_count := 1 \<rparr>"

definition sample_app_world :: "sample_value world" where
  "sample_app_world = snd (app_get (Some (\<lambda>_. Some sample_settings)) 0 ''app'' ''1'' empty_world)"

definition sample_lobby_world :: "sample_value world" where
  "sample_lobby_world = snd (get_lobby 0 ([], 0) sample_app_world)"

definition sample_room_world :: "sample_value world" where
  "sample_room_world = (case create_game 1 ''room'' ''addr'' False sample_lobby_world of
     Some (res, us, w) \<Rightarrow> w | None \<Rightarrow> sample_lobby_world)"

definition sample_dead_world :: "sample_value world" where
  "sample_dead_world = (case destroy_game 2 sample_room_world of Some (us, w) \<Rightarrow> w | None \<Rightarrow> sample_room_world)"

lemma sample_worlds:
  "world_reach sample_lobby_world" "world_reach sample_room_world"
  "world_step\<^sup>*\<^sup>* sample_room_world sample_dead_world"
proof -
  obtain r where a: "app_get (Some (\<lambda>_. Some sample_settings)) 0 ''app'' ''1'' empty_world = (r, sample_app_world)"
    unfolding sample_app_world_def by (metis prod.collapse)
  have wa: "w_app sample_app_world 0 \<noteq> None" by code_simp
  then obtain ap where ap: "w_app sample_app_world 0 = Some ap" by blast
  obtain q where l: "get_lobby 0 ([], 0) sample_app_world = (q, sample_lobby_world)"
    unfolding sample_lobby_world_def by (metis prod.collapse)
  show 1: "world_reach sample_lobby_world"
    by (rule world_reach.onwards [OF world_reach.onwards [OF world_reach.start app_got [OF a]] lobby_got [OF ap l]])
  have "create_game 1 ''room'' ''addr'' False sample_lobby_world \<noteq> None" by code_simp
  then obtain res us where "create_game 1 ''room'' ''addr'' False sample_lobby_world = Some (res, us, sample_room_world)"
    by (auto simp: sample_room_world_def)
  then show "world_reach sample_room_world" using 1 by (blast intro: world_reach.onwards room_made)
  have "destroy_game 2 sample_room_world \<noteq> None" by code_simp
  then obtain us where "destroy_game 2 sample_room_world = Some (us, sample_dead_world)"
    by (auto simp: sample_dead_world_def)
  then show "world_step\<^sup>*\<^sup>* sample_room_world sample_dead_world" by (blast intro: room_gone)
qed

lemma registry_sound_witness:
  "\<exists>m. w_game sample_room_world 2 = Some m \<and> g_id (rm_game m) = ''room''"
proof -
  have "w_app sample_room_world 0 \<noteq> None" by code_simp
  then obtain ap where ap: "w_app sample_room_world 0 = Some ap" by blast
  have "map_option (\<lambda>ap. map_of (ap_games ap) ''room'') (w_app sample_room_world 0) = Some (Some 2)" by code_simp
  with ap have "map_of (ap_games ap) ''room'' = Some 2" by simp
  with registry_sound [OF sample_worlds(2), of _ _ 0 ap _ _ _ "''room''" 2] ap show ?thesis by blast
qed

text \<open>
  C16: Creating a room on a reachable registry. An empty id and, unless an existing room is
  asked for, an id that a live room of the application has are refused, and so is a new
  room at the application's limit; nothing changes then. Otherwise there is one more live
  room, a new one in this lobby, listed last, every other room is as before, and every
  handler of the lobby is told once.
\<close>

theorem create_game_spec:
  assumes "world_reach w" "w_lobby w l = Some lb" "w_app w (lb_app lb) = Some ap"
  shows "\<exists>res us w'. create_game l gid address or_get w = Some (res, us, w')
    \<and> (if gid = [] then res = Inl GameIdEmpty \<and> us = [] \<and> w' = w
       else case map_of (ap_games ap) gid of
         Some r \<Rightarrow> res = (if or_get then Inr (Some r) else Inl GameIdTaken) \<and> us = [] \<and> w' = w \<and> w_game w r \<noteq> None
       | None \<Rightarrow>
          (if as_max_game_count (ap_settings ap) \<noteq> 0 \<and> unat (as_max_game_count (ap_settings ap)) \<le> get_game_count w ap
           then res = Inl GameCountLimit \<and> us = [] \<and> w' = w
           else \<exists>r. res = Inr (Some r) \<and> w_game w r = None
             \<and> w_game w' = (w_game w)(r \<mapsto> \<lparr> rm_game = new_game r gid address, rm_lobby = l \<rparr>)
             \<and> us = map (\<lambda>h. GameUpdate h r) (lb_handlers lb)
             \<and> w_lobby w' = (w_lobby w)(l \<mapsto> lb\<lparr> lb_games := lb_games lb @ [r] \<rparr>)
             \<and> map_option (\<lambda>ap'. map_of (ap_games ap')) (w_app w' (lb_app lb)) = Some ((map_of (ap_games ap))(gid \<mapsto> r))))"
proof -
  note D = registry_invD [OF world_reach_inv [OF assms(1)]]
  obtain res us w' where c: "create_game l gid address or_get w = Some (res, us, w')"
  proof -
    have "create_game l gid address or_get w \<noteq> None" using assms(2,3) by (simp add: create_game_def)
    with that show ?thesis by (metis option.exhaust prod_cases3)
  qed
  note e = c [unfolded create_game_def assms(2,3) option.case option.inject]
  have none: "w_game w (w_next w) = None" using D(8) [of "w_next w"] by simp
  have live: "w_game w r \<noteq> None" if "map_of (ap_games ap) gid = Some r" for r
    using indexesD [OF D(3) [OF assms(3)] that] by auto
  show ?thesis
  proof (cases "map_of (ap_games ap) gid")
    case None
    with c e none show ?thesis by (auto simp: Let_def ht_contains_def split: if_splits)
  next
    case (Some r)
    with c e live show ?thesis by (auto split: if_splits)
  qed
qed

lemma create_game_spec_witness:
  "\<exists>us w'. create_game 1 ''x'' ''addr'' False sample_dead_world = Some (Inl GameCountLimit, us, w')"
proof -
  have reach: "world_reach sample_dead_world" by (rule world_steps_reach [OF sample_worlds(3,2)])
  have "w_lobby sample_dead_world 1 \<noteq> None" by code_simp
  then obtain lb where lb: "w_lobby sample_dead_world 1 = Some lb" by blast
  then obtain ap where ap: "w_app sample_dead_world (lb_app lb) = Some ap"
    using registry_invD(5) [OF world_reach_inv [OF reach] lb] by blast
  have "map_option (\<lambda>lb. case w_app sample_dead_world (lb_app lb) of
      Some ap \<Rightarrow> map_of (ap_games ap) ''x'' = None \<and> as_max_game_count (ap_settings ap) = 1 \<and> get_game_count sample_dead_world ap = 1
    | None \<Rightarrow> False) (w_lobby sample_dead_world 1) = Some True" by code_simp
  with lb ap create_game_spec [OF reach lb ap, of "''x''" "''addr''" False] show ?thesis by (auto split: if_splits)
qed

text \<open>
  A lobby asked for by name and type is created when the application has none and found
  when it has one: the answer is a live lobby of the application with that name and type,
  asking again gives the same lobby and changes nothing, and other lobbies are untouched.
\<close>

theorem get_lobby_stable:
  assumes "world_reach w" "w_app w a = Some ap" "get_lobby a (name, type) w = (res, w')"
  shows "\<exists>l lb. res = Some l \<and> w_lobby w' l = Some lb \<and> lb_app lb = a \<and> lb_name lb = name \<and> lb_type lb = type
    \<and> get_lobby a (name, type) w' = (Some l, w')
    \<and> (if map_of (ap_lobbies ap) (name, type) = Some l then w' = w
       else w_lobby w l = None \<and> w_lobby w' = (w_lobby w)(l \<mapsto> lb) \<and> lb_games lb = [])"
  using world_reach_inv [OF assms(1)] assms(2,3)
proof (cases rule: get_lobby_cases)
  case (found l lb)
  with assms(3) show ?thesis by (auto simp: lobby_key_def)
next
  case made
  let ?l = "w_next w"
  have "w_lobby w ?l = None" using registry_invD(8) [OF world_reach_inv [OF assms(1)], of ?l] by simp
  with made(1,2) show ?thesis by (auto simp: made(3) get_lobby_def)
qed

lemma get_lobby_stable_witness:
  "get_lobby 0 ([], 0) sample_room_world = (Some 1, sample_room_world)"
proof -
  have "w_app sample_room_world 0 \<noteq> None" by code_simp
  then obtain ap where ap: "w_app sample_room_world 0 = Some ap" by blast
  obtain res w' where g: "get_lobby 0 ([], 0) sample_room_world = (res, w')" by force
  have "map_option (\<lambda>ap. map_of (ap_lobbies ap) ([], 0)) (w_app sample_room_world 0) = Some (Some 1)" by code_simp
  then have m: "map_of (ap_lobbies ap) ([], 0) = Some 1" using ap by simp
  have "fst (get_lobby 0 ([], 0) sample_room_world) = Some 1" by code_simp
  with get_lobby_stable [OF sample_worlds(2) ap g] g m show ?thesis by auto
qed

text \<open>
  Rooms that are gone still count against the application's limit. Once a lobby has
  listed as many rooms as the application may have, then, whatever happens and however few
  of them are left, every request for a room with an id that is not in use is refused as
  long as the lobby lives.
\<close>

theorem dead_rooms_fill_application:
  assumes "world_reach w" "w_lobby w l = Some lb" "w_app w (lb_app lb) = Some ap"
    "as_max_game_count (ap_settings ap) \<noteq> 0" "unat (as_max_game_count (ap_settings ap)) \<le> length (lb_games lb)"
    "world_step\<^sup>*\<^sup>* w w'" "w_lobby w' l = Some lb'" "gid \<noteq> []"
    "\<And>r m. w_game w' r = Some m \<Longrightarrow> g_id (rm_game m) \<noteq> gid"
  shows "create_game l gid address or_get w' = Some (Inl GameCountLimit, [], w')"
proof -
  have inv: "registry_inv w" "registry_inv w'"
    using assms(1) world_steps_reach [OF assms(6,1)] by (auto intro: world_reach_inv)
  have g: "grows w w'" by (rule world_steps_grow [OF assms(6,1)])
  have "l < w_next w" "lb_app lb < w_next w"
    using registry_invD(8) [OF inv(1), of l] registry_invD(8) [OF inv(1), of "lb_app lb"] assms(2,3) by (auto simp: linorder_not_le [symmetric])
  with g assms(2,7) obtain zs where lb': "lb_app lb' = lb_app lb" "lb_games lb' = lb_games lb @ zs"
    unfolding grows_def by fastforce
  obtain ap' where ap': "w_app w' (lb_app lb') = Some ap'" using registry_invD(5) [OF inv(2) assms(7)] by blast
  with g \<open>lb_app lb < w_next w\<close> assms(3) lb'(1) have s: "ap_settings ap' = ap_settings ap"
    unfolding grows_def by fastforce
  have "length (lb_games lb') \<le> get_game_count w' ap'" by (rule game_count_bound [OF inv(2) assms(7) ap'])
  with assms(5) lb'(2) have full: "unat (as_max_game_count (ap_settings ap')) \<le> get_game_count w' ap'" by (simp add: s)
  have "map_of (ap_games ap') gid = None"
  proof (cases "map_of (ap_games ap') gid")
    case (Some r)
    from indexesD [OF registry_invD(3) [OF inv(2) ap'] this] assms(9) show ?thesis by (auto simp: room_id_def)
  qed
  with assms(4,7,8) ap' full s show ?thesis by (simp add: create_game_def Let_def)
qed

lemma dead_rooms_fill_application_witness:
  "(\<forall>r. w_game sample_dead_world r = None)
    \<and> create_game 1 ''other'' ''addr'' False sample_dead_world = Some (Inl GameCountLimit, [], sample_dead_world)"
proof -
  have "w_lobby sample_room_world 1 \<noteq> None" "w_lobby sample_dead_world 1 \<noteq> None" by code_simp+
  then obtain lb lb' where lb: "w_lobby sample_room_world 1 = Some lb" "w_lobby sample_dead_world 1 = Some lb'" by blast
  then obtain ap where ap: "w_app sample_room_world (lb_app lb) = Some ap"
    using registry_invD(5) [OF world_reach_inv [OF sample_worlds(2)] lb(1)] by blast
  have "map_option (\<lambda>lb. length (lb_games lb) = 1 \<and> (case w_app sample_room_world (lb_app lb) of
      Some ap \<Rightarrow> as_max_game_count (ap_settings ap) = 1 | None \<Rightarrow> False)) (w_lobby sample_room_world 1) = Some True" by code_simp
  with lb(1) ap have n: "length (lb_games lb) = 1" "as_max_game_count (ap_settings ap) = 1" by simp_all
  have e: "w_game sample_dead_world r = None" for r
  proof -
    have "list_all (\<lambda>r. w_game sample_dead_world r = None) [0..<3]" "w_next sample_dead_world = 3" by code_simp+
    then show ?thesis
      using registry_invD(8) [OF world_reach_inv [OF world_steps_reach [OF sample_worlds(3,2)]], of r]
      by (cases "r < 3") (auto simp: list_all_iff)
  qed
  moreover have "create_game 1 ''other'' ''addr'' False sample_dead_world = Some (Inl GameCountLimit, [], sample_dead_world)"
    by (rule dead_rooms_fill_application [OF sample_worlds(2) lb(1) ap _ _ sample_worlds(3) lb(2)]) (simp_all add: n e)
  ultimately show ?thesis by simp
qed

end
