(* ===== verification/Authentication.thy ===== *)
theory Authentication
  imports PeerStore RegistryInv
begin

text \<open>
  Authentication of a peer (src/authentication.cpp): by the token of a stored peer, or by
  application, kind of authentication and user id. It composes the store of routed peers
  with the registry of applications.
\<close>

section \<open>The process and its environment\<close>

record 'v process =
  pc_world :: "'v world"
  pc_store :: peer_store

text \<open>\<^theory_text>\<open>persistent\<close> peers that belong to an application, as its peer count takes them.\<close>

definition stored_of_app :: "app_ref \<Rightarrow> peer_store \<Rightarrow> nat" where
  "stored_of_app a s = length (filter (\<lambda>pp. sp_app pp = Some a) (ps_peers s))"

record auth_codes =
  ac_MaxCcuReached :: int
  ac_InvalidAuthentication :: int
  ac_CustomAuthenticationFailed :: int
  ac_AuthenticationTokenExpired :: int
  ac_Ok :: int

record auth_provider =
  ap_is_allowed :: bool
  ap_auth_url :: "string option"
  ap_secret :: "string option"

text \<open>
  The random draws are \<^theory_text>\<open>ae_token\<close> and \<^theory_text>\<open>ae_user\<close>; \<^theory_text>\<open>ae_db\<close> and \<^theory_text>\<open>ae_provider\<close> are the
  settings database, absent without one; \<^theory_text>\<open>ae_plugin\<close> is absent in a build without plugins,
  and answers nothing for a kind of authentication no plugin handles, an error code, or the
  user id it vouches for.
\<close>

record auth_env =
  ae_codes :: auth_codes
  ae_max_connections :: nat
  ae_connections :: nat
  ae_token :: string
  ae_user :: string
  ae_db :: "(string \<Rightarrow> app_settings option) option"
  ae_max_game_peers :: u8
  ae_provider :: "(string \<Rightarrow> u8 \<Rightarrow> auth_provider option) option"
  ae_plugin :: "(u8 \<Rightarrow> string \<Rightarrow> string \<Rightarrow> auth_provider \<Rightarrow> (int + string) option) option"

datatype auth_request =
  TokenAuth string
| StandardAuth string u8 string "string option" "string option"

definition null_version :: string where
  "null_version = ''(poor attempt at emulating null app version)''"

section \<open>User ids\<close>

definition get_anonymous_user_id :: "string \<Rightarrow> u32 \<Rightarrow> string \<Rightarrow> string \<Rightarrow> string" where
  "get_anonymous_user_id drawn mode prefix requested =
    (if mode = uid_mode_code ForceRandom then prefix @ drawn
     else let uid = (if requested = [] then drawn else requested) in
       if mode = uid_mode_code AllowWithPrefix then prefix @ uid else uid)"

section \<open>The request\<close>

text \<open>The user id a request is granted under an application's settings, or the error code.\<close>

definition grant_user :: "auth_env \<Rightarrow> app_settings \<Rightarrow> u8 \<Rightarrow> string \<Rightarrow> string option \<Rightarrow> int + string" where
  "grant_user e s auth_type auth_params uid =
    (if as_auth_mode s = auth_mode_code Weak \<or> (as_auth_mode s = auth_mode_code Anonymous \<and> auth_type = 0) then
       Inr (get_anonymous_user_id (ae_user e) (as_custom_anonymous_uid_mode s) (as_anonymous_uid_prefix s)
         (case uid of None \<Rightarrow> [] | Some u \<Rightarrow> u))
     else if auth_type = 0 then Inl (ac_CustomAuthenticationFailed (ae_codes e))
     else case uid of
       None \<Rightarrow> Inl (ac_InvalidAuthentication (ae_codes e))
     | Some u \<Rightarrow>
        (if u = [] then Inl (ac_InvalidAuthentication (ae_codes e))
         else case (case ae_provider e of None \<Rightarrow> None | Some f \<Rightarrow> f (as_appid s) auth_type) of
           None \<Rightarrow> Inl (ac_CustomAuthenticationFailed (ae_codes e))
         | Some provider \<Rightarrow>
            (if \<not> ap_is_allowed provider then Inl (ac_CustomAuthenticationFailed (ae_codes e))
             else case ae_plugin e of
               None \<Rightarrow> Inl (ac_CustomAuthenticationFailed (ae_codes e))
             | Some call \<Rightarrow>
                (case call auth_type u auth_params provider of
                   None \<Rightarrow> Inl (ac_CustomAuthenticationFailed (ae_codes e))
                 | Some answer \<Rightarrow> answer))))"

text \<open>
  \<^theory_text>\<open>authenticate\<close>: the return code, the persistent data the peer then has, the messages to
  other processes, and the process. A refusal lets go of the application, and one that was
  loaded for this request is destroyed again.
\<close>

definition release_app :: "app_ref \<Rightarrow> 'v world \<Rightarrow> 'v world \<Rightarrow> 'v world" where
  "release_app a before w = (if w_app before a = None then destroy_app a w else w)"

definition authenticate ::
  "auth_env \<Rightarrow> bool \<Rightarrow> auth_request \<Rightarrow> 'v process \<Rightarrow> int \<times> stored_peer option \<times> peer_message list \<times> 'v process" where
  "authenticate e refresh_token req pr =
    (if ae_max_connections e \<noteq> 0 \<and> ae_max_connections e \<le> ae_connections e
     then (ac_MaxCcuReached (ae_codes e), None, [], pr)
     else case req of
       TokenAuth token \<Rightarrow>
         (case load_persistent_peer token (if refresh_token then Some (ae_token e) else None) (pc_store pr) of
            (r, ms, s) \<Rightarrow>
              (case r of
                 None \<Rightarrow> (ac_AuthenticationTokenExpired (ae_codes e), None, ms, pr\<lparr> pc_store := s \<rparr>)
               | Some pp \<Rightarrow> (ac_Ok (ae_codes e), Some pp, ms, pr\<lparr> pc_store := s \<rparr>)))
     | StandardAuth app_id auth_type auth_params version uid \<Rightarrow>
         (case app_get (ae_db e) (ae_max_game_peers e) app_id (case version of None \<Rightarrow> null_version | Some v \<Rightarrow> v) (pc_world pr) of
            (None, w) \<Rightarrow> (ac_InvalidAuthentication (ae_codes e), None, [], pr\<lparr> pc_world := w \<rparr>)
          | (Some a, w) \<Rightarrow>
             (case w_app w a of
                None \<Rightarrow> (ac_InvalidAuthentication (ae_codes e), None, [], pr\<lparr> pc_world := w \<rparr>)
              | Some ap \<Rightarrow>
                 (let s = ap_settings ap in
                  if as_max_peers s \<noteq> 0 \<and> unat (as_max_peers s) \<le> app_peer_count (stored_of_app a (pc_store pr)) w ap
                  then (ac_MaxCcuReached (ae_codes e), None, [], pr\<lparr> pc_world := release_app a (pc_world pr) w \<rparr>)
                  else case grant_user e s auth_type auth_params uid of
                    Inl code \<Rightarrow> (code, None, [], pr\<lparr> pc_world := release_app a (pc_world pr) w \<rparr>)
                  | Inr user \<Rightarrow>
                      (ac_Ok (ae_codes e),
                       Some ((create_persistent_peer (ae_token e))\<lparr> sp_app := Some a, sp_user_id := user \<rparr>),
                       [], pr\<lparr> pc_world := w \<rparr>)))))"

section \<open>What is granted\<close>

lemma app_get_live:
  assumes "registry_inv w" "app_get db gmax i v w = (Some a, w')"
  obtains ap where "w_app w' a = Some ap" "ap_id ap = i" "ap_version ap = v" "registry_inv w'"
proof -
  have inv: "registry_inv w'" by (rule app_get_inv [OF assms])
  have "app_lookup w' (i, v) = Some a"
    using assms
  proof (cases rule: app_get_cases)
    case (found b)
    have "app_lookup w' (i, v) = Some b"
    proof -
      obtain ap where "w_app w' b = Some ap" "app_key ap = (i, v)"
        using indexesD [OF registry_invD(1) [OF assms(1)] found(2)] found(4) by auto
      with indexes_find [OF registry_invD(1) [OF found(3)]] show ?thesis by fastforce
    qed
    with found(1) show ?thesis by simp
  next
    case (made settings)
    then show ?thesis by simp
  qed simp
  then obtain ap where "w_app w' a = Some ap" "app_key ap = (i, v)"
    using indexesD [OF registry_invD(1) [OF inv]] by blast
  with that inv show ?thesis by (simp add: app_key_def)
qed

lemma grant_user_strict:
  assumes "as_auth_mode s \<notin> {auth_mode_code Weak, auth_mode_code Anonymous}" "grant_user e s auth_type auth_params uid = Inr user"
  obtains u provider call where "auth_type \<noteq> 0" "uid = Some u" "u \<noteq> []" "ap_is_allowed provider" "ae_plugin e = Some call"
    "call auth_type u auth_params provider = Some (Inr user)"
proof -
  have "auth_type \<noteq> 0" using assms by (auto simp: grant_user_def split: if_splits)
  moreover obtain u where u: "uid = Some u" "u \<noteq> []"
    using assms by (auto simp: grant_user_def split: if_splits option.splits)
  moreover obtain f provider where "ae_provider e = Some f" "f (as_appid s) auth_type = Some provider"
    using assms u by (auto simp: grant_user_def split: if_splits option.splits)
  moreover from this obtain call where "ae_plugin e = Some call"
    using assms u by (auto simp: grant_user_def split: if_splits option.splits)
  ultimately show ?thesis using that [of u provider call] assms by (auto simp: grant_user_def split: if_splits option.splits)
qed

text \<open>
  C18: What a peer is after a request to authenticate. It is authenticated exactly when the
  answer is Ok. With a token it is the stored peer of that token, which is gone from the
  store, under the same user id and application. Without one, it belongs to the live
  application asked for; an application whose mode is neither weak nor anonymous grants a
  user id only when an allowed provider is configured and a plugin vouched for that id, and
  no application whose mode is not weak grants an anonymous one to a peer that names a kind
  of authentication.
\<close>

theorem authenticate_grants:
  assumes "store_reach (pc_store pr)" "registry_inv (pc_world pr)"
    "authenticate e refresh req pr = (code, pp, ms, pr')"
    "distinct [ac_Ok (ae_codes e), ac_MaxCcuReached (ae_codes e)]" "ac_Ok (ae_codes e) \<notin> {ac_InvalidAuthentication (ae_codes e),
      ac_CustomAuthenticationFailed (ae_codes e), ac_AuthenticationTokenExpired (ae_codes e)}"
    "\<And>call t u ps p c. ae_plugin e = Some call \<Longrightarrow> call t u ps p = Some (Inl c) \<Longrightarrow> c \<noteq> ac_Ok (ae_codes e)"
  shows "(code = ac_Ok (ae_codes e) \<longleftrightarrow> pp \<noteq> None)
    \<and> (\<forall>p. pp = Some p \<longrightarrow>
        (case req of
           TokenAuth token \<Rightarrow> \<not> has_persistent_peer token (pc_store pr')
             \<and> (\<exists>q\<in>set (ps_peers (pc_store pr)). sp_token q = token \<and> sp_user_id p = sp_user_id q \<and> sp_app p = sp_app q)
         | StandardAuth app_id auth_type auth_params version uid \<Rightarrow> pc_store pr' = pc_store pr
             \<and> (\<exists>a ap. sp_app p = Some a \<and> w_app (pc_world pr') a = Some ap \<and> ap_id ap = app_id
                 \<and> (as_auth_mode (ap_settings ap) \<noteq> auth_mode_code Weak \<longrightarrow>
                      (as_auth_mode (ap_settings ap) = auth_mode_code Anonymous \<and> auth_type = 0)
                    \<or> (\<exists>call provider u. ae_plugin e = Some call \<and> ap_is_allowed provider \<and> uid = Some u \<and> u \<noteq> []
                         \<and> auth_type \<noteq> 0 \<and> call auth_type u auth_params provider = Some (Inr (sp_user_id p)))))))"
proof (cases "ae_max_connections e \<noteq> 0 \<and> ae_max_connections e \<le> ae_connections e")
  case True
  with assms(3-5) show ?thesis by (auto simp: authenticate_def)
next
  case conn: False
  show ?thesis
  proof (cases req)
    case (TokenAuth token)
    let ?ref = "if refresh then Some (ae_token e) else None"
    obtain r ms' s where l: "load_persistent_peer token ?ref (pc_store pr) = (r, ms', s)" by (metis prod_cases3)
    show ?thesis
    proof (cases r)
      case None
      with conn TokenAuth l assms(3-5) show ?thesis by (auto simp: authenticate_def)
    next
      case (Some p)
      have used: "\<not> has_persistent_peer token s"
        using load_uses_token [OF store_reach_inv [OF assms(1)] l] by blast
      have "\<exists>q\<in>set (ps_peers (pc_store pr)). sp_token q = token \<and> sp_user_id p = sp_user_id q \<and> sp_app p = sp_app q"
        using l Some by (auto simp: load_persistent_peer_def extract_Some_iff split: option.splits)
      with used conn TokenAuth l Some assms(3) show ?thesis by (auto simp: authenticate_def)
    qed
  next
    case (StandardAuth app_id auth_type auth_params version uid)
    obtain res w where g: "app_get (ae_db e) (ae_max_game_peers e) app_id (case version of None \<Rightarrow> null_version | Some v \<Rightarrow> v) (pc_world pr) = (res, w)"
      by force
    note a = assms(3) [unfolded authenticate_def StandardAuth if_not_P [OF conn] auth_request.case g prod.case]
    show ?thesis
    proof (cases res)
      case None
      with a assms(4,5) StandardAuth show ?thesis by auto
    next
      case (Some b)
      obtain ap where ap: "w_app w b = Some ap" "ap_id ap = app_id"
        using g Some by (auto elim: app_get_live [OF assms(2)])
      let ?s = "ap_settings ap"
      note a2 = a [unfolded Some option.case ap(1) Let_def]
      show ?thesis
      proof (cases "as_max_peers ?s \<noteq> 0 \<and> unat (as_max_peers ?s) \<le> app_peer_count (stored_of_app b (pc_store pr)) w ap")
        case True
        with a2 assms(4) StandardAuth show ?thesis by auto
      next
        case False
        note a3 = a2 [unfolded if_not_P [OF False]]
        show ?thesis
        proof (cases "grant_user e ?s auth_type auth_params uid")
          case (Inl c)
          have "c \<noteq> ac_Ok (ae_codes e)"
            using Inl assms(5,6) by (auto simp: grant_user_def split: if_splits option.splits)
          with a3 Inl StandardAuth show ?thesis by auto
        next
          case (Inr user)
          from a3 Inr have r: "code = ac_Ok (ae_codes e)" "pr' = pr\<lparr> pc_world := w \<rparr>"
            "pp = Some ((create_persistent_peer (ae_token e))\<lparr> sp_app := Some b, sp_user_id := user \<rparr>)" by auto
          have "as_auth_mode ?s = auth_mode_code Weak \<or> (as_auth_mode ?s = auth_mode_code Anonymous \<and> auth_type = 0)
              \<or> (\<exists>call provider u. ae_plugin e = Some call \<and> ap_is_allowed provider \<and> uid = Some u \<and> u \<noteq> []
                   \<and> auth_type \<noteq> 0 \<and> call auth_type u auth_params provider = Some (Inr user))"
            using Inr by (auto simp: grant_user_def split: if_splits option.splits)
          with r ap StandardAuth show ?thesis by auto
        qed
      qed
    qed
  qed
qed

definition sample_auth_env :: auth_env where
  "sample_auth_env = \<lparr> ae_codes = \<lparr> ac_MaxCcuReached = 1, ac_InvalidAuthentication = 2, ac_CustomAuthenticationFailed = 3,
       ac_AuthenticationTokenExpired = 4, ac_Ok = 0 \<rparr>,
     ae_max_connections = 0, ae_connections = 0, ae_token = ''tok'', ae_user = ''drawn'', ae_db = None,
     ae_max_game_peers = 0, ae_provider = None, ae_plugin = None \<rparr>"

definition sample_process :: "sample_value process" where
  "sample_process = \<lparr> pc_world = empty_world, pc_store = empty_store \<rparr>"

lemma authenticate_grants_witness:
  "case authenticate sample_auth_env True (StandardAuth ''app'' 0 [] None (Some ''u'')) sample_process of
     (code, pp, ms, pr') \<Rightarrow> code = 0 \<and> pp \<noteq> None \<and> pc_store pr' = empty_store"
proof -
  obtain code pp ms pr' where a: "authenticate sample_auth_env True (StandardAuth ''app'' 0 [] None (Some ''u'')) sample_process
      = (code, pp, ms, pr')" by (metis prod_cases4)
  have "fst (authenticate sample_auth_env True (StandardAuth ''app'' 0 [] None (Some ''u'')) sample_process) = 0" by code_simp
  then have c: "code = 0" by (simp only: a fst_conv)
  have s: "store_reach (pc_store sample_process)" "registry_inv (pc_world sample_process)" "pc_store sample_process = empty_store"
    by (simp_all add: sample_process_def store_reach.fresh empty_world_inv)
  have e: "ac_Ok (ae_codes sample_auth_env) = 0" "ac_MaxCcuReached (ae_codes sample_auth_env) = 1"
    "ac_InvalidAuthentication (ae_codes sample_auth_env) = 2" "ac_CustomAuthenticationFailed (ae_codes sample_auth_env) = 3"
    "ac_AuthenticationTokenExpired (ae_codes sample_auth_env) = 4" "ae_plugin sample_auth_env = None"
    by (simp_all add: sample_auth_env_def)
  have "pp \<noteq> None" "\<forall>p. pp = Some p \<longrightarrow> pc_store pr' = pc_store sample_process"
    using authenticate_grants [OF s(1,2) a] c by (simp_all add: e)
  with c s(3) show ?thesis by (auto simp: a)
qed

end
