(* ===== verification/MasterServer.thy ===== *)
theory MasterServer
  imports GameServer Authentication LobbyTable
begin

text \<open>
  The master server's request handler (src/handler_masterserver.cpp): lobbies and their
  lists, finding or creating a room for a peer, and handing the peer over to the game
  server. Requests arrive decoded. A request works on the registry and on the store of
  routed peers; what it sends is a list of effects, in order.
\<close>

section \<open>Constants and the environment\<close>

record master_codes =
  mc_op_Authenticate :: u8
  mc_op_JoinLobby :: u8
  mc_op_LeaveLobby :: u8
  mc_op_LobbyStats :: u8
  mc_op_GetGameList :: u8
  mc_op_CreateGame :: u8
  mc_op_JoinGame :: u8
  mc_op_JoinRandomGame :: u8
  mc_op_FindFriends :: u8
  mc_lobby_Default :: u8
  mc_lobby_Sql :: u8
  mc_mm_Serial :: int
  mc_mm_FillRoom :: int
  mc_mm_Random :: int
  mc_ff_CreatedOnGS :: u32
  mc_ff_Visible :: u32
  mc_ff_Open :: u32
  mc_err_OperationInvalid :: int
  mc_err_NotAllowed :: int
  mc_err_InternalServerError :: int
  mc_err_NoRandomMatchFound :: int
  mc_prop_Removed :: u8

text \<open>
  The parameters: the address of some game server (an exception when none is configured),
  how the peer's transport resolves an address, the id generated for a user, the
  evaluation of an SQL filter on a lobby, the sort of the standard library (any order of
  equal elements), and the number drawn below a bound.
\<close>

record 'v master_env =
  me_vo :: "'v value_ops"
  me_wc :: wire_codes
  me_mc :: master_codes
  me_heap :: heap
  me_base_address :: "string option"
  me_resolve :: "string \<Rightarrow> string"
  me_new_id :: "string \<Rightarrow> string"
  me_query :: "lobby_ref \<Rightarrow> string \<Rightarrow> string + string list"
  me_sort :: "(game_ref \<Rightarrow> game_ref \<Rightarrow> bool) \<Rightarrow> game_ref list \<Rightarrow> game_ref list"
  me_draw :: "nat \<Rightarrow> nat"

text \<open>\<^theory_text>\<open>std::ranges::sort\<close> by a strict weak order of its elements orders them so that no element is below an earlier one.\<close>

definition strict_weak :: "'a set \<Rightarrow> ('a \<Rightarrow> 'a \<Rightarrow> bool) \<Rightarrow> bool" where
  "strict_weak A lt \<longleftrightarrow> (\<forall>x\<in>A. \<forall>y\<in>A. lt x y \<longrightarrow> \<not> lt y x)
     \<and> (\<forall>x\<in>A. \<forall>y\<in>A. \<forall>z\<in>A. lt x y \<longrightarrow> lt x z \<or> lt z y)"

definition sort_law :: "(('a \<Rightarrow> 'a \<Rightarrow> bool) \<Rightarrow> 'a list \<Rightarrow> 'a list) \<Rightarrow> bool" where
  "sort_law srt \<longleftrightarrow> (\<forall>lt xs. strict_weak (set xs) lt \<longrightarrow> set (srt lt xs) = set xs \<and> length (srt lt xs) = length xs
     \<and> sorted_wrt (\<lambda>a b. \<not> lt b a) (srt lt xs))"

section \<open>The handler\<close>

record lobby_request =
  lq_name :: string
  lq_type :: u8

record join_request =
  jq_lobby :: lobby_request
  jq_game_id :: string
  jq_expected :: "string list"
  jq_mode :: u8

record 'v random_request =
  rq_lobby :: lobby_request
  rq_sql :: string
  rq_matchmaking :: int
  rq_props :: "('v, 'v) assoc option"
  rq_create :: u8
  rq_game_id :: string

datatype 'v master_request =
  JoinLobby lobby_request
| LeaveLobby
| LobbyStats "string option" "u8 option"
| GetGameList lobby_request string
| CreateGame lobby_request string "string list"
| JoinGame join_request
| JoinRandomGame "'v random_request"
| FindFriends "string list" u32
| OtherOperation u8

record master_pending =
  mq_game :: game_ref
  mq_generation :: u64
  mq_request :: join_request

datatype list_entry = ListUpdate game_ref | ListDelete string

text \<open>
  \<^theory_text>\<open>ms_persistent\<close> is empty before the peer has authenticated and after it was handed over.
  \<^theory_text>\<open>ms_owned\<close> are the reservations of the request under way.
\<close>

record master =
  ms_id :: handler_ref
  ms_persistent :: "stored_peer option"
  ms_lobby :: "lobby_ref option"
  ms_pending :: "master_pending option"
  ms_owned :: "(game_ref \<times> string \<times> u64) list"
  ms_updates :: "list_entry list"

datatype 'v master_effect =
  MReply u8 int
| MRouted u8 string string "string option"
| MGameList "(string \<times> ('v, 'v) assoc) list"
| MListReply u8 "(string \<times> ('v, 'v) assoc) list"
| MLobbyStats u8 "(string \<times> u8 \<times> nat \<times> nat) list"
| MFriends "(bool \<times> string) list"
| MNotify list_update
| MSync peer_message
| MScheduled game_ref u32 task
| MAppStats nat
| MStatsEvent "(string \<times> u8 \<times> nat \<times> nat) list"
| MForward peer_message
| MDisconnect
| MThrown

type_synonym 'v master_result = "'v master_effect list \<times> master \<times> 'v process"

section \<open>Reading and changing rooms\<close>

definition game_at :: "'v process \<Rightarrow> game_ref \<Rightarrow> 'v game option" where
  "game_at pr r = map_option rm_game (w_game (pc_world pr) r)"

definition room_settings :: "'v world \<Rightarrow> game_ref \<Rightarrow> app_settings" where
  "room_settings w r =
    (case w_game w r of None \<Rightarrow> default_app_settings | Some m \<Rightarrow>
     (case w_lobby w (rm_lobby m) of None \<Rightarrow> default_app_settings | Some lb \<Rightarrow>
      (case w_app w (lb_app lb) of None \<Rightarrow> default_app_settings | Some ap \<Rightarrow> ap_settings ap)))"

definition get_game_info :: "'v world \<Rightarrow> game_ref \<Rightarrow> game_info" where
  "get_game_info w r =
    (case w_game w r of None \<Rightarrow> no_game_info | Some m \<Rightarrow>
     (case w_lobby w (rm_lobby m) of None \<Rightarrow> no_game_info | Some lb \<Rightarrow>
      (case w_app w (lb_app lb) of None \<Rightarrow> no_game_info | Some ap \<Rightarrow>
       \<lparr> gn_id = g_id (rm_game m), gn_server_address = g_server_address (rm_game m), gn_lobby = lb_name lb,
         gn_lobby_type = lb_type lb, gn_app = ap_id ap, gn_version = ap_version ap \<rparr>)))"

definition room_ready :: "'v world \<Rightarrow> game_ref \<Rightarrow> bool" where
  "room_ready w r = (case w_game w r of None \<Rightarrow> False | Some m \<Rightarrow> g_is_created (rm_game m) \<and> \<not> g_is_creating (rm_game m))"

definition app_name :: "'v world \<Rightarrow> app_ref \<Rightarrow> string \<times> string" where
  "app_name w a = (case w_app w a of None \<Rightarrow> ([], []) | Some ap \<Rightarrow> (ap_id ap, ap_version ap))"

text \<open>Reserving a place for a user, remembered until the peer is handed over.\<close>

definition reserve_in :: "game_ref \<Rightarrow> string \<Rightarrow> master \<times> 'v process \<Rightarrow> 'v master_result" where
  "reserve_in r user s =
    (case s of (ms, pr) \<Rightarrow>
     (case game_at pr r of
        None \<Rightarrow> ([], ms, pr)
      | Some g \<Rightarrow>
         (case reserve_expected_user_with_generation user 30000 g of
            (gen, g1, ts) \<Rightarrow>
              (map (\<lambda>(t, k). MScheduled r t k) ts,
               ms\<lparr> ms_owned := ms_owned ms @ (case gen of None \<Rightarrow> [] | Some n \<Rightarrow> [(r, user, n)]) \<rparr>,
               pr\<lparr> pc_world := set_game r g1 (pc_world pr) \<rparr>))))"

fun reserve_users :: "game_ref \<Rightarrow> string \<Rightarrow> string list \<Rightarrow> master \<times> 'v process \<Rightarrow> 'v master_result" where
  "reserve_users r self [] s = ([], s)"
| "reserve_users r self (u # us) s =
    (if u = [] \<or> u = self then reserve_users r self us s
     else case reserve_in r u s of (es, s1) \<Rightarrow> (case reserve_users r self us s1 of (es', s2) \<Rightarrow> (es @ es', s2)))"

section \<open>Lobbies\<close>

definition get_requested_lobby :: "app_ref \<Rightarrow> lobby_request \<Rightarrow> master \<Rightarrow> 'v process \<Rightarrow> lobby_ref option \<times> 'v process" where
  "get_requested_lobby a q ms pr =
    (if lq_name q = [] \<and> ms_lobby ms \<noteq> None then (ms_lobby ms, pr)
     else case get_lobby a (lq_name q, lq_type q) (pc_world pr) of (l, w) \<Rightarrow> (l, pr\<lparr> pc_world := w \<rparr>))"

text \<open>A joined lobby is left before the handler is registered with the new one.\<close>

definition leave_lobby :: "master \<Rightarrow> 'v world \<Rightarrow> master \<times> 'v world" where
  "leave_lobby ms w =
    (case ms_lobby ms of None \<Rightarrow> (ms, w)
     | Some l \<Rightarrow> (ms\<lparr> ms_lobby := None \<rparr>, remove_list_handler (ms_id ms) l w))"

definition join_lobby :: "lobby_ref \<Rightarrow> master \<Rightarrow> 'v world \<Rightarrow> master \<times> 'v world" where
  "join_lobby l ms w =
    (case leave_lobby ms w of (ms1, w1) \<Rightarrow> (ms1\<lparr> ms_lobby := Some l \<rparr>, add_list_handler (ms_id ms1) l w1))"

text \<open>What a list handler does when it is told of a room; \<^theory_text>\<open>listed\<close> says that its lobby is of the default type.\<close>

definition on_list_update :: "bool \<Rightarrow> list_update \<Rightarrow> master \<Rightarrow> master" where
  "on_list_update listed u ms =
    (if \<not> listed then ms
     else case u of
       GameUpdate h r \<Rightarrow> (if length (ms_updates ms) < 500 then ms\<lparr> ms_updates := ms_updates ms @ [ListUpdate r] \<rparr> else ms)
     | GameDelete h gid \<Rightarrow> ms\<lparr> ms_updates := ms_updates ms @ [ListDelete gid] \<rparr>)"

section \<open>Lists of rooms\<close>

definition list_group :: "'v game \<Rightarrow> nat" where
  "list_group g = (let s = get_config_snapshot g in
    if cs_is_open s \<and> (cs_max_peers s = 0 \<or> cs_peer_count s < unat (cs_max_peers s)) then 0
    else if \<not> cs_is_open s then 2 else 1)"

definition list_before :: "'v world \<Rightarrow> game_ref \<Rightarrow> game_ref \<Rightarrow> bool" where
  "list_before w a b =
    (case (w_game w a, w_game w b) of
       (Some ma, Some mb) \<Rightarrow>
         (if list_group (rm_game ma) \<noteq> list_group (rm_game mb) then list_group (rm_game ma) < list_group (rm_game mb)
          else string_less (g_id (rm_game ma)) (g_id (rm_game mb)))
     | _ \<Rightarrow> False)"

definition list_row :: "'v master_env \<Rightarrow> 'v world \<Rightarrow> game_ref \<Rightarrow> (string \<times> ('v, 'v) assoc) list" where
  "list_row e w r = (case w_game w r of None \<Rightarrow> []
     | Some m \<Rightarrow> [(g_id (rm_game m), get_lobby_game_props (me_vo e) (me_wc e) (rm_game m))])"

definition get_game_list :: "'v master_env \<Rightarrow> 'v world \<Rightarrow> lobby_node \<Rightarrow> (string \<times> ('v, 'v) assoc) list" where
  "get_game_list e w lb =
    (let games = filter (\<lambda>r. case w_game w r of None \<Rightarrow> False | Some m \<Rightarrow> is_joinable (rm_game m)) (lb_games lb) in
     if games = [] then []
     else if length games = 1 then list_row e w (hd games)
     else let sorted = me_sort e (list_before w) games in
       fold (\<lambda>r acc. case list_row e w r of [] \<Rightarrow> acc | kv # _ \<Rightarrow> ht_emplace acc (fst kv) (snd kv)) (take 500 sorted) [])"

definition get_lobby_stats ::
  "string option \<Rightarrow> u8 option \<Rightarrow> 'v world \<Rightarrow> app_node \<Rightarrow> (string \<times> u8 \<times> nat \<times> nat) list" where
  "get_lobby_stats name type w ap =
     map (\<lambda>lb. (lb_name lb, lb_type lb, length (lb_games lb), lobby_peer_count w lb))
       (filter (\<lambda>lb. (case name of None \<Rightarrow> True | Some n \<Rightarrow> lb_name lb = n)
                   \<and> (case type of None \<Rightarrow> True | Some t \<Rightarrow> lb_type lb = t)) (live_lobbies w ap))"

definition app_game_count :: "'v world \<Rightarrow> nat" where
  "app_game_count w =
     length (filter (\<lambda>g. cs_is_created (get_config_snapshot g) \<and> cs_is_visible (get_config_snapshot g))
       (concat (map (live_games w) (concat (map (live_lobbies w) (List.map_filter (w_app w) (all_apps w)))))))"

section \<open>Handing a peer over\<close>

text \<open>The peer is invited to the room, announced, and stored; the handler no longer has it.\<close>

definition route :: "'v master_env \<Rightarrow> u8 \<Rightarrow> game_ref \<Rightarrow> bool \<Rightarrow> string option \<Rightarrow> stored_peer \<Rightarrow> master \<times> 'v process \<Rightarrow> 'v master_result" where
  "route e opc r is_new reply_id pp s =
    (case s of (ms, pr) \<Rightarrow>
     (let w = pc_world pr;
          info = get_game_info w r;
          pp1 = invite_game r info is_new pp
      in ([MSync (sync_persistent_peer (app_name w) pp1),
           MRouted opc (me_resolve e (gn_server_address info)) (sp_token pp) reply_id],
          ms\<lparr> ms_persistent := (if sp_app pp1 = None then Some pp1 else None), ms_owned := [] \<rparr>,
          pr\<lparr> pc_store := store_persistent_peer (room_ready w) pp1 (pc_store pr) \<rparr>)))"

text \<open>A room created by a request that then refuses has no other holder and is destroyed.\<close>

definition drop_local :: "bool \<Rightarrow> game_ref \<Rightarrow> 'v process \<Rightarrow> list_update list \<times> 'v process" where
  "drop_local is_new r pr =
    (if is_new then (case destroy_game r (pc_world pr) of None \<Rightarrow> ([], pr) | Some (us, w) \<Rightarrow> (us, pr\<lparr> pc_world := w \<rparr>))
     else ([], pr))"

text \<open>\<^theory_text>\<open>create_game\<close> at some game server's address; its errors carry the operation CreateGame.\<close>

definition create_room ::
  "'v master_env \<Rightarrow> lobby_ref \<Rightarrow> string \<Rightarrow> master \<Rightarrow> 'v process \<Rightarrow> 'v master_effect list + (game_ref \<times> 'v master_effect list \<times> 'v process)" where
  "create_room e l gid ms pr =
    (case me_base_address e of
       None \<Rightarrow> Inl [MThrown]
     | Some address \<Rightarrow>
        (case create_game l gid address False (pc_world pr) of
           None \<Rightarrow> Inl [MThrown]
         | Some (res, us, w) \<Rightarrow>
            (case res of
               Inl err \<Rightarrow> Inl [MReply (mc_op_CreateGame (me_mc e)) (create_error_code (me_wc e) err)]
             | Inr None \<Rightarrow> Inl [MThrown]
             | Inr (Some r) \<Rightarrow> Inr (r, map MNotify us, pr\<lparr> pc_world := w \<rparr>))))"

section \<open>Creating and joining a room\<close>

definition handle_create_game ::
  "'v master_env \<Rightarrow> app_ref \<Rightarrow> stored_peer \<Rightarrow> lobby_request \<Rightarrow> string \<Rightarrow> string list \<Rightarrow> master \<Rightarrow> 'v process \<Rightarrow> 'v master_result" where
  "handle_create_game e a pp q game_id expected ms pr =
    (let opc = mc_op_CreateGame (me_mc e) in
     case get_requested_lobby a q ms pr of
       (None, pr1) \<Rightarrow> ([MThrown], ms, pr1)
     | (Some l, pr1) \<Rightarrow>
        (let gid = (if game_id = [] then me_new_id e (sp_user_id pp) else game_id) in
         if (case w_app (pc_world pr1) a of None \<Rightarrow> False | Some ap \<Rightarrow> ht_contains (ap_games ap) gid)
         then ([MReply opc (err_GameIdAlreadyExists (me_wc e))], ms, pr1)
         else case create_room e l gid ms pr1 of
           Inl es \<Rightarrow> (es, ms, pr1)
         | Inr (r, es, pr2) \<Rightarrow>
            (case reserve_users r (sp_user_id pp) expected (ms, pr2) of
               (es', s) \<Rightarrow>
                 (case route e opc r True (Some gid) pp s of (es'', ms', pr') \<Rightarrow> (es @ es' @ es'', ms', pr')))))"

text \<open>
  A room that is being created is waited for; a placeholder that nobody creates is joined
  only by a request that creates.
\<close>

definition join_found ::
  "'v master_env \<Rightarrow> stored_peer \<Rightarrow> join_request \<Rightarrow> bool \<Rightarrow> game_ref \<Rightarrow> 'v game \<Rightarrow> master \<Rightarrow> 'v process \<Rightarrow> 'v master_result" where
  "join_found e pp q is_new r g ms pr =
    (let opc = mc_op_JoinGame (me_mc e); wc = me_wc e; user = sp_user_id pp;
         create_if_not_exists = (jq_mode q = 1); rejoin_only = (jq_mode q = 3)
     in if rejoin_only \<and> (\<not> g_is_created g \<or> \<not> has_expected_user g user) then
          (case drop_local is_new r pr of (us, pr1) \<Rightarrow> ([MReply opc (err_GameIdNotExists wc)] @ map MNotify us, ms, pr1))
        else if \<not> is_new \<and> \<not> g_is_created g \<and> \<not> create_if_not_exists then
          (if \<not> g_is_creating g then ([MReply opc (err_GameIdNotExists wc)], ms, pr)
           else if ms_pending ms \<noteq> None then ([MReply opc (mc_err_NotAllowed (me_mc e))], ms, pr)
           else ([], ms\<lparr> ms_pending := Some \<lparr> mq_game = r, mq_generation = g_active_creation_generation g, mq_request = q \<rparr> \<rparr>, pr))
        else
          (let code = (if \<not> is_new \<and> g_is_created g
                       then validate_join wc (room_settings (pc_world pr) r) (me_heap e) user (jq_expected q) False g
                       else err_Ok wc)
           in if code \<noteq> err_Ok wc then ([MReply opc code], ms, pr)
              else case reserve_in r user (ms, pr) of
                (es1, s1) \<Rightarrow>
                  (case reserve_users r user (jq_expected q) s1 of
                     (es2, s2) \<Rightarrow>
                       (case route e opc r is_new (if g_id g \<noteq> jq_game_id q then Some (g_id g) else None) pp s2 of
                          (es3, ms', pr') \<Rightarrow> (es1 @ es2 @ es3, ms', pr')))))"

definition handle_join_game ::
  "'v master_env \<Rightarrow> app_ref \<Rightarrow> stored_peer \<Rightarrow> join_request \<Rightarrow> master \<Rightarrow> 'v process \<Rightarrow> 'v master_result" where
  "handle_join_game e a pp q ms pr =
    (let opc = mc_op_JoinGame (me_mc e) in
     case get_requested_lobby a (jq_lobby q) ms pr of
       (None, pr1) \<Rightarrow> ([MThrown], ms, pr1)
     | (Some l, pr1) \<Rightarrow>
        (case (case w_app (pc_world pr1) a of None \<Rightarrow> None | Some ap \<Rightarrow> map_of (ap_games ap) (jq_game_id q)) of
           None \<Rightarrow>
             (if jq_mode q = 0 then ([MReply opc (err_GameIdNotExists (me_wc e))], ms, pr1)
              else let gid = (if jq_game_id q = [] then me_new_id e (sp_user_id pp) else jq_game_id q) in
                case create_room e l gid ms pr1 of
                  Inl es \<Rightarrow> (es, ms, pr1)
                | Inr (r, es, pr2) \<Rightarrow>
                    (case game_at pr2 r of
                       None \<Rightarrow> (es @ [MReply opc (mc_err_InternalServerError (me_mc e))], ms, pr2)
                     | Some g \<Rightarrow> (case join_found e pp q True r g ms pr2 of (es', s) \<Rightarrow> (es @ es', s))))
         | Some r \<Rightarrow>
             (case game_at pr1 r of
                None \<Rightarrow> ([MReply opc (mc_err_InternalServerError (me_mc e))], ms, pr1)
              | Some g \<Rightarrow> join_found e pp q False r g ms pr1)))"

section \<open>Matchmaking\<close>

definition admits :: "'v master_env \<Rightarrow> 'v world \<Rightarrow> string \<Rightarrow> game_ref \<Rightarrow> 'v game \<Rightarrow> bool" where
  "admits e w user r g \<longleftrightarrow> is_joinable g
     \<and> validate_join_count (me_wc e) (room_settings w r) (me_heap e) user 0 False g = err_Ok (me_wc e)"

definition sql_match :: "'v master_env \<Rightarrow> app_ref \<Rightarrow> lobby_ref \<Rightarrow> string \<Rightarrow> string \<Rightarrow> 'v world \<Rightarrow> string + game_ref option" where
  "sql_match e a l user sql w =
    (case me_query e l sql of
       Inl msg \<Rightarrow> Inl msg
     | Inr ids \<Rightarrow>
        (let games = List.map_filter (\<lambda>i. case w_app w a of None \<Rightarrow> None | Some ap \<Rightarrow> map_of (ap_games ap) i) ids
         in Inr (List.find (\<lambda>r. case w_game w r of None \<Rightarrow> False | Some m \<Rightarrow> admits e w user r (rm_game m)) games)))"

definition candidates :: "'v master_env \<Rightarrow> string \<Rightarrow> ('v, 'v) assoc \<Rightarrow> 'v world \<Rightarrow> lobby_node \<Rightarrow> game_ref list" where
  "candidates e user props w lb =
     filter (\<lambda>r. case w_game w r of None \<Rightarrow> False
       | Some m \<Rightarrow> admits e w user r (rm_game m) \<and> expect_game_props (me_vo e) (me_wc e) props (rm_game m)) (lb_games lb)"

definition peers_at :: "'v world \<Rightarrow> game_ref \<Rightarrow> nat" where
  "peers_at w r = (case w_game w r of None \<Rightarrow> 0 | Some m \<Rightarrow> cs_peer_count (get_config_snapshot (rm_game m)))"

definition pick_candidate :: "'v master_env \<Rightarrow> int \<Rightarrow> 'v world \<Rightarrow> game_ref list \<Rightarrow> game_ref option" where
  "pick_candidate e matchmaking w cs =
    (if cs = [] then None
     else if matchmaking = mc_mm_Serial (me_mc e) then Some (hd (me_sort e (\<lambda>a b. peers_at w a < peers_at w b) cs))
     else if matchmaking = mc_mm_FillRoom (me_mc e) then Some (hd (me_sort e (\<lambda>a b. peers_at w b < peers_at w a) cs))
     else if matchmaking = mc_mm_Random (me_mc e) then Some (cs ! me_draw e (length cs))
     else None)"

definition select_game :: "'v master_env \<Rightarrow> app_ref \<Rightarrow> lobby_ref \<Rightarrow> string \<Rightarrow> 'v random_request \<Rightarrow> 'v world \<Rightarrow> string + game_ref option" where
  "select_game e a l user q w =
    (case w_lobby w l of None \<Rightarrow> Inr None | Some lb \<Rightarrow>
     (if lb_type lb = mc_lobby_Sql (me_mc e) then sql_match e a l user (rq_sql q) w
      else Inr (pick_candidate e (rq_matchmaking q) w
        (candidates e user (case rq_props q of None \<Rightarrow> [] | Some ps \<Rightarrow> ps) w lb))))"

definition route_random ::
  "'v master_env \<Rightarrow> stored_peer \<Rightarrow> game_ref \<Rightarrow> bool \<Rightarrow> master \<Rightarrow> 'v process \<Rightarrow> 'v master_result" where
  "route_random e pp r is_new ms pr =
    (case reserve_in r (sp_user_id pp) (ms, pr) of
       (es, s) \<Rightarrow>
         (case route e (mc_op_JoinRandomGame (me_mc e)) r is_new (map_option g_id (game_at pr r)) pp s of
            (es', ms', pr') \<Rightarrow> (es @ es', ms', pr')))"

definition handle_join_random ::
  "'v master_env \<Rightarrow> app_ref \<Rightarrow> stored_peer \<Rightarrow> 'v random_request \<Rightarrow> master \<Rightarrow> 'v process \<Rightarrow> 'v master_result" where
  "handle_join_random e a pp q ms pr =
    (let opc = mc_op_JoinRandomGame (me_mc e) in
     case get_requested_lobby a (rq_lobby q) ms pr of
       (None, pr1) \<Rightarrow> ([MThrown], ms, pr1)
     | (Some l, pr1) \<Rightarrow>
        (case select_game e a l (sp_user_id pp) q (pc_world pr1) of
           Inl msg \<Rightarrow> ([MReply opc (mc_err_OperationInvalid (me_mc e))], ms, pr1)
         | Inr (Some r) \<Rightarrow> route_random e pp r False ms pr1
         | Inr None \<Rightarrow>
             (if rq_create q = 0 then ([MReply opc (mc_err_NoRandomMatchFound (me_mc e))], ms, pr1)
              else case create_room e l (if rq_game_id q = [] then me_new_id e (sp_user_id pp) else rq_game_id q) ms pr1 of
                Inl es \<Rightarrow> (es, ms, pr1)
              | Inr (r, es, pr2) \<Rightarrow> (case route_random e pp r True ms pr2 of (es', s) \<Rightarrow> (es @ es', s)))))"

section \<open>Lobby requests and friends\<close>

definition handle_join_lobby :: "'v master_env \<Rightarrow> app_ref \<Rightarrow> lobby_request \<Rightarrow> master \<Rightarrow> 'v process \<Rightarrow> 'v master_result" where
  "handle_join_lobby e a q ms pr =
    (case get_requested_lobby a q ms pr of
       (None, pr1) \<Rightarrow> ([MThrown], ms, pr1)
     | (Some l, pr1) \<Rightarrow>
        (case join_lobby l ms (pc_world pr1) of
           (ms1, w) \<Rightarrow>
             (MReply (mc_op_JoinLobby (me_mc e)) (err_Ok (me_wc e))
                # (case w_lobby w l of None \<Rightarrow> [] | Some lb \<Rightarrow> [MGameList (get_game_list e w lb)]),
              ms1, pr1\<lparr> pc_world := w \<rparr>)))"

definition handle_leave_lobby :: "'v master_env \<Rightarrow> master \<Rightarrow> 'v process \<Rightarrow> 'v master_result" where
  "handle_leave_lobby e ms pr =
    (case leave_lobby ms (pc_world pr) of
       (ms1, w) \<Rightarrow> ([MReply (mc_op_LeaveLobby (me_mc e)) (err_Ok (me_wc e))], ms1, pr\<lparr> pc_world := w \<rparr>))"

definition handle_game_list :: "'v master_env \<Rightarrow> app_ref \<Rightarrow> lobby_request \<Rightarrow> string \<Rightarrow> master \<Rightarrow> 'v process \<Rightarrow> 'v master_result" where
  "handle_game_list e a q sql ms pr =
    (let opc = mc_op_GetGameList (me_mc e) in
     case get_requested_lobby a q ms pr of
       (None, pr1) \<Rightarrow> ([MThrown], ms, pr1)
     | (Some l, pr1) \<Rightarrow>
        (let w = pc_world pr1 in
         if (case w_lobby w l of None \<Rightarrow> True | Some lb \<Rightarrow> lb_type lb \<noteq> mc_lobby_Sql (me_mc e))
         then ([MReply opc (mc_err_OperationInvalid (me_mc e))], ms, pr1)
         else case me_query e l sql of
           Inl msg \<Rightarrow> ([MReply opc (mc_err_OperationInvalid (me_mc e))], ms, pr1)
         | Inr ids \<Rightarrow>
             ([MListReply opc (fold (\<lambda>i acc.
                 case (case w_app w a of None \<Rightarrow> None | Some ap \<Rightarrow> map_of (ap_games ap) i) of
                   None \<Rightarrow> acc
                 | Some r \<Rightarrow>
                    (case w_game w r of None \<Rightarrow> acc | Some m \<Rightarrow>
                      (if cs_is_created (get_config_snapshot (rm_game m)) \<and> cs_is_visible (get_config_snapshot (rm_game m))
                       then ht_emplace acc i (get_lobby_game_props (me_vo e) (me_wc e) (rm_game m)) else acc))) ids [])],
              ms, pr1)))"

text \<open>
  \<^theory_text>\<open>get_game\<close> of the server: the room of an invitation, created when the process does not
  have it. What it created has no holder afterwards and is destroyed.
\<close>

record connection =
  cn_peer :: peer_ref
  cn_persistent :: "stored_peer option"

definition shown_room :: "'v master_env \<Rightarrow> u32 \<Rightarrow> peer_ref \<Rightarrow> 'v game \<Rightarrow> string" where
  "shown_room e flags p g =
    (let s = get_config_snapshot g;
         actor = (case actor_id_for_peer (me_heap e) g (Some p) of None \<Rightarrow> 0 | Some n \<Rightarrow> n)
     in if has_flag flags (mc_ff_CreatedOnGS (me_mc e)) \<and> \<not> has_peer_actor g actor then []
        else if has_flag flags (mc_ff_Visible (me_mc e)) \<and> \<not> cs_is_visible s then []
        else if has_flag flags (mc_ff_Open (me_mc e)) \<and> \<not> cs_is_open s then []
        else g_id g)"

definition release_lobby :: "lobby_ref \<Rightarrow> 'v world \<Rightarrow> 'v world \<Rightarrow> 'v world" where
  "release_lobby l before w = (if w_lobby before l = None then destroy_lobby l w else w)"

definition friend_room :: "'v master_env \<Rightarrow> u32 \<Rightarrow> connection \<Rightarrow> app_ref \<Rightarrow> game_info \<Rightarrow> 'v world \<Rightarrow> string \<times> list_update list \<times> 'v world" where
  "friend_room e flags cn a info w =
    (case get_lobby a (gn_lobby info, gn_lobby_type info) w of
       (None, w1) \<Rightarrow> ([], [], w1)
     | (Some l, w1) \<Rightarrow>
        (case create_game l (gn_id info) (gn_server_address info) True w1 of
           None \<Rightarrow> ([], [], release_lobby l w w1)
         | Some (res, us, w2) \<Rightarrow>
            (case res of
               Inr (Some r) \<Rightarrow>
                 (let room = (case w_game w2 r of None \<Rightarrow> [] | Some m \<Rightarrow> shown_room e flags (cn_peer cn) (rm_game m)) in
                  if w_game w1 r \<noteq> None then (room, us, release_lobby l w w2)
                  else case destroy_game r w2 of
                    None \<Rightarrow> (room, us, w2)
                  | Some (us', w3) \<Rightarrow> (room, us @ us', release_lobby l w w3))
             | _ \<Rightarrow> ([], us, release_lobby l w w2))))"

definition find_friend :: "'v master_env \<Rightarrow> connection list \<Rightarrow> u32 \<Rightarrow> string \<Rightarrow> 'v world \<Rightarrow> (bool \<times> string) \<times> list_update list \<times> 'v world" where
  "find_friend e conns flags user w =
    (case List.find (\<lambda>cn. case cn_persistent cn of None \<Rightarrow> False | Some pp \<Rightarrow> sp_user_id pp = user) conns of
       None \<Rightarrow> ((False, []), [], w)
     | Some cn \<Rightarrow>
        (case cn_persistent cn of
           None \<Rightarrow> ((False, []), [], w)
         | Some pp \<Rightarrow>
            (case sp_app pp of
               None \<Rightarrow> ((True, []), [], w)
             | Some a \<Rightarrow> (case friend_room e flags cn a (sp_invitation pp) w of (room, us, w1) \<Rightarrow> ((True, room), us, w1)))))"

fun find_friends :: "'v master_env \<Rightarrow> connection list \<Rightarrow> u32 \<Rightarrow> string list \<Rightarrow> 'v world \<Rightarrow> (bool \<times> string) list \<times> list_update list \<times> 'v world" where
  "find_friends e conns flags [] w = ([], [], w)"
| "find_friends e conns flags (u # us) w =
    (case find_friend e conns flags u w of
       (f, ups, w1) \<Rightarrow> (case find_friends e conns flags us w1 of (fs, ups', w2) \<Rightarrow> (f # fs, ups @ ups', w2)))"

definition handle_find_friends :: "'v master_env \<Rightarrow> connection list \<Rightarrow> app_ref \<Rightarrow> string list \<Rightarrow> u32 \<Rightarrow> master \<Rightarrow> 'v process \<Rightarrow> 'v master_result" where
  "handle_find_friends e conns a users flags ms pr =
    (if (case w_app (pc_world pr) a of None \<Rightarrow> True | Some ap \<Rightarrow> \<not> as_allow_find_friends (ap_settings ap))
     then ([MReply (mc_op_FindFriends (me_mc e)) (mc_err_NotAllowed (me_mc e))], ms, pr)
     else case find_friends e conns flags users (pc_world pr) of
       (fs, us, w) \<Rightarrow> (map MNotify us @ [MFriends fs], ms, pr\<lparr> pc_world := w \<rparr>))"

section \<open>Requests, slow updates, disconnection\<close>

fun request_opcode :: "master_codes \<Rightarrow> 'v master_request \<Rightarrow> u8" where
  "request_opcode mc (JoinLobby q) = mc_op_JoinLobby mc"
| "request_opcode mc LeaveLobby = mc_op_LeaveLobby mc"
| "request_opcode mc (LobbyStats n t) = mc_op_LobbyStats mc"
| "request_opcode mc (GetGameList q s) = mc_op_GetGameList mc"
| "request_opcode mc (CreateGame q i us) = mc_op_CreateGame mc"
| "request_opcode mc (JoinGame q) = mc_op_JoinGame mc"
| "request_opcode mc (JoinRandomGame q) = mc_op_JoinRandomGame mc"
| "request_opcode mc (FindFriends us f) = mc_op_FindFriends mc"
| "request_opcode mc (OtherOperation c) = c"

text \<open>The answer of \<^theory_text>\<open>HandlerBase\<close> to an operation the handler does not take.\<close>

definition unsupported_reply :: "master_codes \<Rightarrow> u8 \<Rightarrow> bool \<Rightarrow> 'v master_effect" where
  "unsupported_reply mc opc authenticated =
    MReply opc (if opc = mc_op_Authenticate mc \<and> authenticated then mc_err_NotAllowed mc else mc_err_OperationInvalid mc)"

text \<open>
  The handler takes requests of authenticated peers; a peer that was handed over is no
  longer one. Authenticating is \<^theory_text>\<open>handle_master_authenticate\<close>.
\<close>

definition handle_master_request ::
  "'v master_env \<Rightarrow> connection list \<Rightarrow> 'v master_request \<Rightarrow> master \<Rightarrow> 'v process \<Rightarrow> 'v master_result" where
  "handle_master_request e conns req ms pr =
    (let unsupported = ([unsupported_reply (me_mc e) (request_opcode (me_mc e) req) (ms_persistent ms \<noteq> None)], ms, pr) in
     case ms_persistent ms of
       None \<Rightarrow> unsupported
     | Some pp \<Rightarrow>
        (case sp_app pp of
           None \<Rightarrow> ([MThrown], ms, pr)
         | Some a \<Rightarrow>
            (case req of
               JoinLobby q \<Rightarrow> handle_join_lobby e a q ms pr
             | LeaveLobby \<Rightarrow> handle_leave_lobby e ms pr
             | LobbyStats name type \<Rightarrow>
                 ([MLobbyStats (mc_op_LobbyStats (me_mc e))
                     (case w_app (pc_world pr) a of None \<Rightarrow> [] | Some ap \<Rightarrow> get_lobby_stats name type (pc_world pr) ap)], ms, pr)
             | GetGameList q sql \<Rightarrow> handle_game_list e a q sql ms pr
             | CreateGame q gid expected \<Rightarrow> handle_create_game e a pp q gid expected ms pr
             | JoinGame q \<Rightarrow> handle_join_game e a pp q ms pr
             | JoinRandomGame q \<Rightarrow> handle_join_random e a pp q ms pr
             | FindFriends users flags \<Rightarrow> handle_find_friends e conns a users flags ms pr
             | OtherOperation c \<Rightarrow> unsupported)))"

text \<open>
  An authenticated peer starts without a room, and is sent the lobbies' statistics if it
  wants them; a peer that is refused is disconnected.
\<close>

definition handle_master_authenticate ::
  "'v master_env \<Rightarrow> auth_env \<Rightarrow> u8 \<Rightarrow> bool \<Rightarrow> auth_request \<Rightarrow> master \<Rightarrow> 'v process \<Rightarrow> 'v master_result" where
  "handle_master_authenticate e ae opc wants_stats req ms pr =
    (if ms_persistent ms \<noteq> None then ([unsupported_reply (me_mc e) opc True], ms, pr)
     else case authenticate ae True req pr of
       (code, granted, msgs, pr1) \<Rightarrow>
         (case granted of
            None \<Rightarrow> (map MForward msgs @ [MReply opc code, MDisconnect], ms, pr1)
          | Some pp \<Rightarrow>
             (map MForward msgs @ [MReply opc code]
                @ (if \<not> wants_stats then []
                   else case sp_app pp of
                     None \<Rightarrow> [MThrown]
                   | Some a \<Rightarrow> [MStatsEvent (case w_app (pc_world pr1) a of None \<Rightarrow> []
                       | Some ap \<Rightarrow> get_lobby_stats None None (pc_world pr1) ap)]),
              ms\<lparr> ms_persistent := Some (reset_game pp) \<rparr>, pr1)))"

definition removed_row :: "'v master_env \<Rightarrow> ('v, 'v) assoc" where
  "removed_row e = [(v_of_u8 (me_vo e) (mc_prop_Removed (me_mc e)), v_of_bool (me_vo e) True)]"

definition update_row :: "'v master_env \<Rightarrow> 'v world \<Rightarrow> list_entry \<Rightarrow> (string \<times> ('v, 'v) assoc) list \<Rightarrow> (string \<times> ('v, 'v) assoc) list" where
  "update_row e w entry acc =
    (case entry of
       ListUpdate r \<Rightarrow>
         (case w_game w r of
            None \<Rightarrow> acc
          | Some m \<Rightarrow>
             (let s = get_config_snapshot (rm_game m) in
              ht_put acc (g_id (rm_game m))
                (if cs_is_created s \<and> cs_is_visible s then get_lobby_game_props (me_vo e) (me_wc e) (rm_game m) else removed_row e)))
     | ListDelete gid \<Rightarrow> ht_put acc gid (removed_row e))"

definition send_batch :: "'v master_env \<Rightarrow> master \<Rightarrow> 'v process \<Rightarrow> 'v master_result" where
  "send_batch e ms pr =
    (MAppStats (app_game_count (pc_world pr))
       # (if ms_updates ms = [] then [] else [MGameList (fold (update_row e (pc_world pr)) (ms_updates ms) [])]),
     ms\<lparr> ms_updates := [] \<rparr>, pr)"

text \<open>\<^theory_text>\<open>waited\<close> and \<^theory_text>\<open>since_batch\<close> are the milliseconds on the two timers.\<close>

definition handle_slow_update ::
  "'v master_env \<Rightarrow> connection list \<Rightarrow> nat \<Rightarrow> nat \<Rightarrow> master \<Rightarrow> 'v process \<Rightarrow> 'v master_result" where
  "handle_slow_update e conns waited since_batch ms pr =
    (let batch = (\<lambda>es ms1. if 5000 < since_batch
                    then (case send_batch e ms1 pr of (es', ms2, pr2) \<Rightarrow> (es @ es', ms2, pr2)) else (es, ms1, pr));
         give_up = ([MReply (mc_op_JoinGame (me_mc e)) (err_GameIdNotExists (me_wc e))], ms\<lparr> ms_pending := None \<rparr>)
     in case ms_pending ms of
       None \<Rightarrow> batch [] ms
     | Some p \<Rightarrow>
        (case game_at pr (mq_game p) of
           None \<Rightarrow> batch (fst give_up) (snd give_up)
         | Some g \<Rightarrow>
            (let changed = (mq_generation p \<noteq> 0 \<and> g_active_creation_generation g \<noteq> mq_generation p);
                 aborted = (\<not> g_is_created g \<and> \<not> g_is_creating g)
             in if g_is_created g \<and> \<not> g_is_creating g \<and> \<not> changed
                then handle_master_request e conns (JoinGame (mq_request p)) (ms\<lparr> ms_pending := None \<rparr>) pr
                else if aborted \<or> changed \<or> 5000 \<le> waited then batch (fst give_up) (snd give_up)
                else batch [] ms)))"

definition release_owned :: "game_ref \<times> string \<times> u64 \<Rightarrow> 'v world \<Rightarrow> 'v world" where
  "release_owned x w = (case x of (r, user, n) \<Rightarrow>
    (case w_game w r of None \<Rightarrow> w
     | Some m \<Rightarrow> set_game r (snd (remove_expected_user_if_generation user n (rm_game m))) w))"

definition handle_master_disconnect :: "master \<Rightarrow> 'v process \<Rightarrow> master \<times> 'v process" where
  "handle_master_disconnect ms pr =
    (ms\<lparr> ms_pending := None, ms_owned := [] \<rparr>,
     pr\<lparr> pc_world := fold release_owned (ms_owned ms) (pc_world pr) \<rparr>)"

text \<open>
  The destructor of a handler whose peer is still authenticated stores the peer for its
  next connection.
\<close>

definition destroy_handler :: "master \<Rightarrow> 'v process \<Rightarrow> 'v master_effect list \<times> 'v process" where
  "destroy_handler ms pr =
    (case leave_lobby ms (pc_world pr) of
       (ms1, w) \<Rightarrow>
         (case ms_persistent ms1 of
            None \<Rightarrow> ([], pr\<lparr> pc_world := w \<rparr>)
          | Some pp \<Rightarrow> ([MSync (sync_persistent_peer (app_name w) pp)],
              pr\<lparr> pc_world := w, pc_store := store_persistent_peer (room_ready w) pp (pc_store pr) \<rparr>)))"

end
