(* ===== verification/MasterProps.thy ===== *)
theory MasterProps
  imports MasterServer RegistryProps
begin

text \<open>
  What the master server's requests do: they move the registry by its own steps only and
  store at most the peer they hand over, matchmaking picks among exactly the rooms that
  admit the peer, and a peer handed over is expected where it is sent.
\<close>

section \<open>Requests run registry steps\<close>

lemma step_one: "world_step w w' \<Longrightarrow> world_step\<^sup>*\<^sup>* w w'"
  by (rule r_into_rtranclp)

lemma reserve_keeps_id:
  "reserve_expected_user_with_generation u t g = (gen, g', ts) \<Longrightarrow> g_id g' = g_id g"
  by (auto simp: reserve_expected_user_with_generation_def add_reservation_def Let_def split: if_splits)

lemma set_game_steps:
  assumes "\<And>m. w_game w r = Some m \<Longrightarrow> g_id g = g_id (rm_game m)"
  shows "world_step\<^sup>*\<^sup>* w (set_game r g w)"
proof (cases "w_game w r")
  case None
  then show ?thesis by (simp add: set_game_def)
next
  case (Some m)
  from step_one [OF room_changed [OF Some assms [OF Some]]] show ?thesis .
qed

lemma reserve_in_parts:
  assumes "reserve_in r user (ms, pr) = (es, ms', pr')"
  shows "world_step\<^sup>*\<^sup>* (pc_world pr) (pc_world pr')" "pc_store pr' = pc_store pr"
    "ms_persistent ms' = ms_persistent ms" "ms_lobby ms' = ms_lobby ms" "ms_id ms' = ms_id ms"
    "ms_pending ms' = ms_pending ms" "ms_updates ms' = ms_updates ms"
    "w_lobby (pc_world pr') = w_lobby (pc_world pr)" "w_app (pc_world pr') = w_app (pc_world pr)"
    "\<And>q m. w_game (pc_world pr) q = Some m \<Longrightarrow> \<exists>m'. w_game (pc_world pr') q = Some m' \<and> rm_lobby m' = rm_lobby m
       \<and> g_id (rm_game m') = g_id (rm_game m) \<and> g_server_address (rm_game m') = g_server_address (rm_game m)
       \<and> g_is_created (rm_game m') = g_is_created (rm_game m)
       \<and> set (g_expected_users (rm_game m)) \<subseteq> set (g_expected_users (rm_game m'))"
    "\<And>m. w_game (pc_world pr) r = Some m \<Longrightarrow> user \<noteq> [] \<Longrightarrow>
       \<exists>m'. w_game (pc_world pr') r = Some m' \<and> user \<in> set (g_expected_users (rm_game m'))"
    "\<And>q. w_game (pc_world pr) q = None \<Longrightarrow> w_game (pc_world pr') q = None"
    "\<And>x. x \<in> set es \<Longrightarrow> \<exists>t k. x = MScheduled r t k"
proof -
  consider (dead) "w_game (pc_world pr) r = None" "es = []" "ms' = ms" "pr' = pr"
    | (live) m gen g1 ts where "w_game (pc_world pr) r = Some m"
      "reserve_expected_user_with_generation user 30000 (rm_game m) = (gen, g1, ts)"
      "es = map (\<lambda>(t, k). MScheduled r t k) ts"
      "ms' = ms\<lparr> ms_owned := ms_owned ms @ (case gen of None \<Rightarrow> [] | Some n \<Rightarrow> [(r, user, n)]) \<rparr>"
      "pr' = pr\<lparr> pc_world := set_game r g1 (pc_world pr) \<rparr>"
  proof (cases "w_game (pc_world pr) r")
    case None
    with assms show ?thesis by (intro dead) (simp_all add: reserve_in_def game_at_def)
  next
    case (Some m)
    obtain gen g1 ts where "reserve_expected_user_with_generation user 30000 (rm_game m) = (gen, g1, ts)" by (metis prod_cases3)
    with Some assms show ?thesis by (intro live) (auto simp: reserve_in_def game_at_def)
  qed
  note c = this
  show "world_step\<^sup>*\<^sup>* (pc_world pr) (pc_world pr')"
    using c
  proof cases
    case live
    have "world_step\<^sup>*\<^sup>* (pc_world pr) (set_game r g1 (pc_world pr))"
      by (rule set_game_steps) (use live(1) reserve_keeps_id [OF live(2)] in simp)
    with live(5) show ?thesis by simp
  qed simp
  show "pc_store pr' = pc_store pr" "ms_persistent ms' = ms_persistent ms" "ms_lobby ms' = ms_lobby ms" "ms_id ms' = ms_id ms"
    "ms_pending ms' = ms_pending ms" "ms_updates ms' = ms_updates ms"
    "w_lobby (pc_world pr') = w_lobby (pc_world pr)" "w_app (pc_world pr') = w_app (pc_world pr)"
    using c by (cases; simp add: set_game_def)+
  have e: "g_id g1 = g_id g \<and> g_server_address g1 = g_server_address g \<and> g_is_created g1 = g_is_created g
      \<and> set (g_expected_users g) \<subseteq> set (g_expected_users g1) \<and> (user \<noteq> [] \<longrightarrow> user \<in> set (g_expected_users g1))"
    if "reserve_expected_user_with_generation user 30000 g = (gen, g1, ts)" for g g1 :: "'a game" and gen ts
    using that by (auto simp: reserve_expected_user_with_generation_def add_reservation_def Let_def split: if_splits)
  show "\<exists>m'. w_game (pc_world pr') q = Some m' \<and> rm_lobby m' = rm_lobby m
       \<and> g_id (rm_game m') = g_id (rm_game m) \<and> g_server_address (rm_game m') = g_server_address (rm_game m)
       \<and> g_is_created (rm_game m') = g_is_created (rm_game m)
       \<and> set (g_expected_users (rm_game m)) \<subseteq> set (g_expected_users (rm_game m'))" if "w_game (pc_world pr) q = Some m" for q m
    using c
  proof cases
    case live
    with e [OF live(2)] that show ?thesis by (auto simp: set_game_def)
  qed (use that in simp)
  show "\<exists>m'. w_game (pc_world pr') r = Some m' \<and> user \<in> set (g_expected_users (rm_game m'))"
    if "w_game (pc_world pr) r = Some m" "user \<noteq> []" for m
    using c
  proof cases
    case live
    with e [OF live(2)] that show ?thesis by (auto simp: set_game_def)
  qed (use that in simp)
  show "w_game (pc_world pr') q = None" if "w_game (pc_world pr) q = None" for q
    using c that by cases (auto simp: set_game_def)
  show "\<exists>t k. x = MScheduled r t k" if "x \<in> set es" for x
    using c that by cases auto
qed

text \<open>What a list of reservations keeps, in one relation that composes.\<close>

definition reserves :: "master \<times> 'v process \<Rightarrow> master \<times> 'v process \<Rightarrow> bool" where
  "reserves s s' \<longleftrightarrow> world_step\<^sup>*\<^sup>* (pc_world (snd s)) (pc_world (snd s')) \<and> pc_store (snd s') = pc_store (snd s)
    \<and> ms_persistent (fst s') = ms_persistent (fst s) \<and> ms_lobby (fst s') = ms_lobby (fst s) \<and> ms_id (fst s') = ms_id (fst s)
    \<and> ms_pending (fst s') = ms_pending (fst s)
    \<and> w_lobby (pc_world (snd s')) = w_lobby (pc_world (snd s)) \<and> w_app (pc_world (snd s')) = w_app (pc_world (snd s))
    \<and> (\<forall>q m. w_game (pc_world (snd s)) q = Some m \<longrightarrow>
         (\<exists>m'. w_game (pc_world (snd s')) q = Some m' \<and> rm_lobby m' = rm_lobby m
            \<and> g_id (rm_game m') = g_id (rm_game m) \<and> g_server_address (rm_game m') = g_server_address (rm_game m)
            \<and> g_is_created (rm_game m') = g_is_created (rm_game m)
            \<and> set (g_expected_users (rm_game m)) \<subseteq> set (g_expected_users (rm_game m'))))"

lemma reserves_refl [simp]: "reserves s s"
  by (simp add: reserves_def)

lemma reserves_trans:
  assumes "reserves s s'" "reserves s' s''"
  shows "reserves s s''"
proof -
  have "\<exists>m'. w_game (pc_world (snd s'')) q = Some m' \<and> rm_lobby m' = rm_lobby m
            \<and> g_id (rm_game m') = g_id (rm_game m) \<and> g_server_address (rm_game m') = g_server_address (rm_game m)
            \<and> g_is_created (rm_game m') = g_is_created (rm_game m)
            \<and> set (g_expected_users (rm_game m)) \<subseteq> set (g_expected_users (rm_game m'))"
    if "w_game (pc_world (snd s)) q = Some m" for q m
  proof -
    from assms(1) that obtain m1 where m1: "w_game (pc_world (snd s')) q = Some m1" "rm_lobby m1 = rm_lobby m"
      "g_id (rm_game m1) = g_id (rm_game m)" "g_server_address (rm_game m1) = g_server_address (rm_game m)"
      "g_is_created (rm_game m1) = g_is_created (rm_game m)" "set (g_expected_users (rm_game m)) \<subseteq> set (g_expected_users (rm_game m1))"
      unfolding reserves_def by blast
    from assms(2) m1(1) obtain m2 where "w_game (pc_world (snd s'')) q = Some m2" "rm_lobby m2 = rm_lobby m1"
      "g_id (rm_game m2) = g_id (rm_game m1)" "g_server_address (rm_game m2) = g_server_address (rm_game m1)"
      "g_is_created (rm_game m2) = g_is_created (rm_game m1)" "set (g_expected_users (rm_game m1)) \<subseteq> set (g_expected_users (rm_game m2))"
      unfolding reserves_def by blast
    with m1 show ?thesis by (intro exI [of _ m2]) auto
  qed
  moreover have "world_step\<^sup>*\<^sup>* (pc_world (snd s)) (pc_world (snd s''))"
    using assms unfolding reserves_def by (meson rtranclp_trans)
  ultimately show ?thesis using assms unfolding reserves_def by simp
qed

lemma reserve_in_reserves: "reserve_in r user s = (es, s') \<Longrightarrow> reserves s s'"
  using reserve_in_parts [of r user "fst s" "snd s" es "fst s'" "snd s'"] unfolding reserves_def
  by simp

lemma reserve_users_reserves:
  "reserve_users r self us s = (es, s') \<Longrightarrow> reserves s s' \<and> (\<forall>x\<in>set es. \<exists>t k. x = MScheduled r t k)"
proof (induction us arbitrary: s es s')
  case Nil
  then show ?case by simp
next
  case (Cons u us)
  show ?case
  proof (cases "u = [] \<or> u = self")
    case True
    with Cons show ?thesis by simp
  next
    case False
    obtain es1 s1 where r: "reserve_in r u s = (es1, s1)" by (meson surj_pair)
    obtain es2 s2 where q: "reserve_users r self us s1 = (es2, s2)" by (meson surj_pair)
    from False r q Cons.prems have "es = es1 @ es2" "s' = s2" by (auto simp del: reserve_users.simps(1) simp: reserve_users.simps(2))
    with Cons.IH [OF q] reserve_in_reserves [OF r] reserve_in_parts(13) [of r u "fst s" "snd s" es1 "fst s1" "snd s1"] r
    show ?thesis by (auto intro: reserves_trans)
  qed
qed

text \<open>The registry moves by its steps, and at most the peer with this token is stored.\<close>

definition runs :: "string \<Rightarrow> 'v process \<Rightarrow> 'v process \<Rightarrow> bool" where
  "runs token pr pr' \<longleftrightarrow> world_step\<^sup>*\<^sup>* (pc_world pr) (pc_world pr')
     \<and> (pc_store pr' = pc_store pr
        \<or> (\<exists>ready pp. sp_token pp = token \<and> pc_store pr' = store_persistent_peer ready pp (pc_store pr)))"

definition moves_world :: "'v process \<Rightarrow> 'v process \<Rightarrow> bool" where
  "moves_world pr pr' \<longleftrightarrow> world_step\<^sup>*\<^sup>* (pc_world pr) (pc_world pr') \<and> pc_store pr' = pc_store pr"

lemma moves_world_refl [simp]: "moves_world pr pr"
  by (simp add: moves_world_def)

lemma moves_world_trans: "moves_world p q \<Longrightarrow> moves_world q r \<Longrightarrow> moves_world p r"
  unfolding moves_world_def by (auto intro: rtranclp_trans)

lemma moves_then_runs: "moves_world p q \<Longrightarrow> runs t q r \<Longrightarrow> runs t p r"
  unfolding moves_world_def runs_def by (auto intro: rtranclp_trans)

lemma moves_runs: "moves_world p q \<Longrightarrow> runs t p q"
  by (simp add: moves_world_def runs_def)

lemma moves_world_reach: "moves_world p q \<Longrightarrow> world_reach (pc_world p) \<Longrightarrow> world_reach (pc_world q)"
  unfolding moves_world_def using world_steps_reach by blast

lemma reserves_moves: "reserves s s' \<Longrightarrow> moves_world (snd s) (snd s')"
  by (simp add: reserves_def moves_world_def)

lemma requested_lobby_moves:
  assumes "w_app (pc_world pr) a = Some ap" "get_requested_lobby a q ms pr = (res, pr')"
  shows "moves_world pr pr'" "w_game (pc_world pr') = w_game (pc_world pr) \<or> \<not> registry_inv (pc_world pr)"
proof -
  obtain l w where g: "get_lobby a (lq_name q, lq_type q) (pc_world pr) = (l, w)" by force
  from assms g have c: "pr' = pr \<or> pr' = pr\<lparr> pc_world := w \<rparr>" by (auto simp: get_requested_lobby_def split: if_splits)
  then show "moves_world pr pr'" using step_one [OF lobby_got [OF assms(1) g]] by (auto simp: moves_world_def)
  show "w_game (pc_world pr') = w_game (pc_world pr) \<or> \<not> registry_inv (pc_world pr)"
    using c get_lobby_cases [OF _ assms(1) g] by fastforce
qed

lemma list_handlers_steps:
  "world_step\<^sup>*\<^sup>* w (add_list_handler h l w)" "world_step\<^sup>*\<^sup>* w (remove_list_handler h l w)"
proof -
  have "world_step\<^sup>*\<^sup>* w (add_list_handler h l w) \<and> world_step\<^sup>*\<^sup>* w (remove_list_handler h l w)"
  proof (cases "w_lobby w l")
    case None
    then show ?thesis by (simp add: add_list_handler_def remove_list_handler_def)
  next
    case (Some lb)
    from step_one [OF handler_added [OF Some]] step_one [OF handler_removed [OF Some]] show ?thesis by blast
  qed
  then show "world_step\<^sup>*\<^sup>* w (add_list_handler h l w)" "world_step\<^sup>*\<^sup>* w (remove_list_handler h l w)" by blast+
qed

lemma leave_lobby_steps: "leave_lobby ms w = (ms', w') \<Longrightarrow> world_step\<^sup>*\<^sup>* w w'"
  by (auto simp: leave_lobby_def list_handlers_steps split: option.splits)

lemma join_lobby_steps: "join_lobby l ms w = (ms', w') \<Longrightarrow> world_step\<^sup>*\<^sup>* w w'"
  by (auto simp: join_lobby_def split: prod.splits intro: rtranclp_trans [OF leave_lobby_steps list_handlers_steps(1)])

lemma create_room_moves:
  assumes "create_room e l gid ms pr = Inr (r, es, pr')"
  obtains us address where "create_game l gid address False (pc_world pr) = Some (Inr (Some r), us, pc_world pr')"
    "es = map MNotify us" "pc_store pr' = pc_store pr" "moves_world pr pr'"
proof -
  obtain address where a: "me_base_address e = Some address" using assms by (cases "me_base_address e") (auto simp: create_room_def)
  obtain res us w where c: "create_game l gid address False (pc_world pr) = Some (res, us, w)"
    using assms a by (cases "create_game l gid address False (pc_world pr)") (auto simp: create_room_def)
  have "res = Inr (Some r)" "es = map MNotify us" "pr' = pr\<lparr> pc_world := w \<rparr>"
    using assms a c by (auto simp: create_room_def split: sum.splits option.splits)
  with c step_one [OF room_made [OF c]] that show ?thesis by (simp add: moves_world_def)
qed

lemma drop_local_moves: "drop_local is_new r pr = (us, pr') \<Longrightarrow> moves_world pr pr'"
  using step_one [OF room_gone [of r "pc_world pr"]]
  by (auto simp: drop_local_def moves_world_def split: if_splits option.splits)

lemma invite_game_fields [simp]:
  "sp_app (invite_game r i is_new pp) = sp_app pp" "sp_token (invite_game r i is_new pp) = sp_token pp"
  "sp_user_id (invite_game r i is_new pp) = sp_user_id pp" "sp_invitation (invite_game r i is_new pp) = i"
  "is_new \<Longrightarrow> sp_owned_game (invite_game r i is_new pp) = Some r"
  by (simp_all add: invite_game_def invite_def Let_def)

lemma route_parts:
  assumes "route e opc r is_new rid pp (ms, pr) = (es, ms', pr')"
  shows "pc_world pr' = pc_world pr" "ms_owned ms' = []"
    "pc_store pr' = store_persistent_peer (room_ready (pc_world pr)) (invite_game r (get_game_info (pc_world pr) r) is_new pp) (pc_store pr)"
    "ms_persistent ms' = (if sp_app pp = None then Some (invite_game r (get_game_info (pc_world pr) r) is_new pp) else None)"
    "MRouted opc' addr token rid' \<in> set es \<Longrightarrow> opc' = opc \<and> token = sp_token pp \<and> rid' = rid
       \<and> addr = me_resolve e (gn_server_address (get_game_info (pc_world pr) r))"
proof -
  from assms show "pc_world pr' = pc_world pr" "ms_owned ms' = []"
    "pc_store pr' = store_persistent_peer (room_ready (pc_world pr)) (invite_game r (get_game_info (pc_world pr) r) is_new pp) (pc_store pr)"
    "ms_persistent ms' = (if sp_app pp = None then Some (invite_game r (get_game_info (pc_world pr) r) is_new pp) else None)"
    "MRouted opc' addr token rid' \<in> set es \<Longrightarrow> opc' = opc \<and> token = sp_token pp \<and> rid' = rid
       \<and> addr = me_resolve e (gn_server_address (get_game_info (pc_world pr) r))"
    by (auto simp: route_def Let_def)
qed

lemma route_runs: "route e opc r is_new rid pp (ms, pr) = (es, ms', pr') \<Longrightarrow> runs (sp_token pp) pr pr'"
  using route_parts(1,3) [of e opc r is_new rid pp ms pr es ms' pr'] invite_game_fields(2)
  unfolding runs_def by (metis rtranclp.rtrancl_refl)

lemma join_found_runs:
  assumes "join_found e pp q is_new r g ms pr = (es, ms', pr')"
  shows "runs (sp_token pp) pr pr'"
proof -
  obtain es1 s1 where r1: "reserve_in r (sp_user_id pp) (ms, pr) = (es1, s1)" by (meson surj_pair)
  obtain es2 s2 where r2: "reserve_users r (sp_user_id pp) (jq_expected q) s1 = (es2, s2)" by (meson surj_pair)
  obtain ms2 pr2 where s2: "s2 = (ms2, pr2)" by (meson surj_pair)
  obtain es3 ms3 pr3 where r3: "route e (mc_op_JoinGame (me_mc e)) r is_new (if g_id g \<noteq> jq_game_id q then Some (g_id g) else None) pp s2
      = (es3, ms3, pr3)" by (metis prod_cases3)
  obtain us pr1 where d: "drop_local is_new r pr = (us, pr1)" by force
  from assms r1 r2 r3 d have "pr' = pr \<or> pr' = pr1 \<or> pr' = pr3"
    by (auto simp: join_found_def Let_def split: if_splits)
  moreover have "runs (sp_token pp) pr pr1" by (rule moves_runs [OF drop_local_moves [OF d]])
  moreover have "moves_world pr pr2"
    using reserves_moves [OF reserves_trans [OF reserve_in_reserves [OF r1] conjunct1 [OF reserve_users_reserves [OF r2]]]] s2 by simp
  then have "runs (sp_token pp) pr pr3" using route_runs r3 s2 moves_then_runs by blast
  ultimately show ?thesis by (auto simp: runs_def)
qed

lemma handle_create_game_runs:
  assumes "w_app (pc_world pr) a = Some ap" "handle_create_game e a pp q gid expected ms pr = (es, ms', pr')"
  shows "runs (sp_token pp) pr pr'"
proof -
  obtain res pr1 where l: "get_requested_lobby a q ms pr = (res, pr1)" by force
  note m1 = requested_lobby_moves(1) [OF assms(1) l]
  let ?gid = "if gid = [] then me_new_id e (sp_user_id pp) else gid"
  show ?thesis
  proof (cases "pr' = pr1")
    case True
    with moves_runs [OF m1] show ?thesis by simp
  next
    case False
    with assms(2) l obtain lob r es1 pr2 where c: "res = Some lob" "create_room e lob ?gid ms pr1 = Inr (r, es1, pr2)"
      by (auto simp: handle_create_game_def Let_def split: option.splits if_splits sum.splits)
    obtain es2 s2 where r2: "reserve_users r (sp_user_id pp) expected (ms, pr2) = (es2, s2)" by (meson surj_pair)
    obtain ms2 pr3 where s2: "s2 = (ms2, pr3)" by (meson surj_pair)
    obtain es3 ms3 pr4 where r3: "route e (mc_op_CreateGame (me_mc e)) r True (Some ?gid) pp s2 = (es3, ms3, pr4)" by (metis prod_cases3)
    from assms(2) l c r2 r3 False have "pr' = pr4"
      by (auto simp: handle_create_game_def Let_def split: if_splits)
    moreover have "moves_world pr1 pr2" using c(2) by (rule create_room_moves)
    moreover have "moves_world pr2 pr3" using reserves_moves [OF conjunct1 [OF reserve_users_reserves [OF r2]]] s2 by simp
    moreover have "runs (sp_token pp) pr3 pr4" using route_runs r3 s2 by blast
    ultimately show ?thesis using m1 by (auto intro: moves_then_runs moves_world_trans)
  qed
qed

lemma handle_join_game_runs:
  assumes "w_app (pc_world pr) a = Some ap" "handle_join_game e a pp q ms pr = (es, ms', pr')"
  shows "runs (sp_token pp) pr pr'"
proof -
  obtain res pr1 where l: "get_requested_lobby a (jq_lobby q) ms pr = (res, pr1)" by force
  note m1 = requested_lobby_moves(1) [OF assms(1) l]
  let ?gid = "if jq_game_id q = [] then me_new_id e (sp_user_id pp) else jq_game_id q"
  let ?found = "case w_app (pc_world pr1) a of None \<Rightarrow> None | Some ap \<Rightarrow> map_of (ap_games ap) (jq_game_id q)"
  consider (stay) "pr' = pr1"
    | (new) lob r es1 pr2 where "create_room e lob ?gid ms pr1 = Inr (r, es1, pr2)"
        "pr' = pr2 \<or> (\<exists>g es2. join_found e pp q True r g ms pr2 = (es2, ms', pr'))"
    | (old) r g es2 where "join_found e pp q False r g ms pr1 = (es2, ms', pr')"
  proof (cases res)
    case None
    with assms(2) l stay show ?thesis by (auto simp: handle_join_game_def Let_def)
  next
    case (Some lob)
    show ?thesis
    proof (cases ?found)
      case None
      show ?thesis
      proof (cases "jq_mode q = 0")
        case True
        with assms(2) l Some None stay show ?thesis by (auto simp: handle_join_game_def Let_def)
      next
        case mode: False
        show ?thesis
        proof (cases "create_room e lob ?gid ms pr1")
          case (Inl x)
          with assms(2) l Some None mode stay show ?thesis by (auto simp: handle_join_game_def Let_def)
        next
          case (Inr y)
          obtain r es1 pr2 where y: "y = (r, es1, pr2)" by (metis prod_cases3)
          have "pr' = pr2 \<or> (\<exists>g es2. join_found e pp q True r g ms pr2 = (es2, ms', pr'))"
            using assms(2) l Some None mode Inr y
            by (auto simp: handle_join_game_def Let_def split: option.splits prod.splits)
          with Inr y new show ?thesis by blast
        qed
      qed
    next
      case found: (Some r)
      show ?thesis
      proof (cases "game_at pr1 r")
        case None
        with assms(2) l Some found stay show ?thesis by (auto simp: handle_join_game_def Let_def)
      next
        case (Some g)
        with assms(2) l \<open>res = Some lob\<close> found have "join_found e pp q False r g ms pr1 = (es, ms', pr')"
          by (simp add: handle_join_game_def Let_def)
        then show ?thesis by (rule old)
      qed
    qed
  qed
  then show ?thesis
  proof cases
    case stay
    with moves_runs [OF m1] show ?thesis by simp
  next
    case (new lob r es1 pr2)
    have "moves_world pr pr2" using m1 create_room_moves [OF new(1)] moves_world_trans by metis
    with new(2) show ?thesis using join_found_runs moves_runs moves_then_runs by metis
  next
    case (old r g es2)
    with m1 show ?thesis using join_found_runs moves_then_runs by metis
  qed
qed

lemma route_random_runs:
  assumes "route_random e pp r is_new ms pr = (es, ms', pr')"
  shows "runs (sp_token pp) pr pr'"
proof -
  obtain es1 s1 where r1: "reserve_in r (sp_user_id pp) (ms, pr) = (es1, s1)" by (meson surj_pair)
  obtain ms1 pr1 where s1: "s1 = (ms1, pr1)" by (meson surj_pair)
  obtain es2 ms2 pr2 where r2: "route e (mc_op_JoinRandomGame (me_mc e)) r is_new (map_option g_id (game_at pr r)) pp s1 = (es2, ms2, pr2)"
    by (metis prod_cases3)
  from assms r1 r2 have "pr' = pr2" by (simp add: route_random_def)
  moreover have "moves_world pr pr1" using reserves_moves [OF reserve_in_reserves [OF r1]] s1 by simp
  ultimately show ?thesis using route_runs r2 s1 moves_then_runs by blast
qed

lemma handle_join_random_runs:
  assumes "w_app (pc_world pr) a = Some ap" "handle_join_random e a pp q ms pr = (es, ms', pr')"
  shows "runs (sp_token pp) pr pr'"
proof -
  obtain res pr1 where l: "get_requested_lobby a (rq_lobby q) ms pr = (res, pr1)" by force
  note m1 = requested_lobby_moves(1) [OF assms(1) l]
  let ?gid = "if rq_game_id q = [] then me_new_id e (sp_user_id pp) else rq_game_id q"
  consider (stay) "pr' = pr1"
    | (old) r where "route_random e pp r False ms pr1 = (es, ms', pr')"
    | (new) lob r es1 pr2 es2 where "create_room e lob ?gid ms pr1 = Inr (r, es1, pr2)" "route_random e pp r True ms pr2 = (es2, ms', pr')"
  proof (cases res)
    case None
    with assms(2) l stay show ?thesis by (auto simp: handle_join_random_def Let_def)
  next
    case (Some lob)
    show ?thesis
    proof (cases "select_game e a lob (sp_user_id pp) q (pc_world pr1)")
      case (Inl x)
      with assms(2) l Some stay show ?thesis by (auto simp: handle_join_random_def Let_def)
    next
      case (Inr found)
      show ?thesis
      proof (cases found)
        case None
        show ?thesis
        proof (cases "rq_create q = 0")
          case True
          with assms(2) l Some Inr None stay show ?thesis by (auto simp: handle_join_random_def Let_def)
        next
          case False
          show ?thesis
          proof (cases "create_room e lob ?gid ms pr1")
            case (Inl y)
            with assms(2) l Some Inr None False stay show ?thesis by (auto simp: handle_join_random_def Let_def)
          next
            case c: (Inr y)
            obtain r es1 pr2 where y: "y = (r, es1, pr2)" by (metis prod_cases3)
            obtain es2 s2 where q: "route_random e pp r True ms pr2 = (es2, s2)" by (meson surj_pair)
            with assms(2) l Some Inr None False c y have "s2 = (ms', pr')" by (auto simp: handle_join_random_def Let_def)
            with new c y q show ?thesis by blast
          qed
        qed
      next
        case r: (Some r)
        with assms(2) l Some Inr have "route_random e pp r False ms pr1 = (es, ms', pr')"
          by (simp add: handle_join_random_def Let_def)
        then show ?thesis by (rule old)
      qed
    qed
  qed
  then show ?thesis
  proof cases
    case stay
    with moves_runs [OF m1] show ?thesis by simp
  next
    case (old r)
    from moves_then_runs [OF m1 route_random_runs [OF this]] show ?thesis .
  next
    case (new lob r es1 pr2 es2)
    have "moves_world pr pr2" using m1 create_room_moves [OF new(1)] moves_world_trans by metis
    from moves_then_runs [OF this route_random_runs [OF new(2)]] show ?thesis .
  qed
qed

lemma release_lobby_steps:
  assumes "\<And>r m. w_lobby before l = None \<Longrightarrow> w_game w r = Some m \<Longrightarrow> rm_lobby m \<noteq> l"
  shows "world_step\<^sup>*\<^sup>* w (release_lobby l before w)"
proof (cases "w_lobby before l = None \<and> w_lobby w l \<noteq> None")
  case True
  then obtain lb where "w_lobby w l = Some lb" by blast
  from step_one [OF lobby_gone [OF this]] assms True show ?thesis by (simp add: release_lobby_def)
next
  case False
  then show ?thesis by (auto simp: release_lobby_def destroy_lobby_def)
qed

lemma destroy_game_gone:
  assumes "destroy_game r w = Some (us, w')"
  shows "w_game w' = (w_game w)(r := None)"
  using assms by (auto simp: destroy_game_def Let_def split: option.splits)

lemma friend_room_steps:
  assumes "world_reach w" "w_app w a = Some ap" "friend_room e flags cn a info w = (room, us, w')"
  shows "world_step\<^sup>*\<^sup>* w w'"
proof -
  have inv: "registry_inv w" by (rule world_reach_inv [OF assms(1)])
  obtain lo w1 where g: "get_lobby a (gn_lobby info, gn_lobby_type info) w = (lo, w1)" by force
  note s1 = step_one [OF lobby_got [OF assms(2) g]]
  have same: "w_game w1 = w_game w" using inv assms(2) g by (cases rule: get_lobby_cases) auto
  have empty: "rm_lobby m \<noteq> l" if "w_lobby w l = None" "w_game w r = Some m" for r m l
    using registry_invD(7) [OF inv that(2)] that(1) by auto
  show ?thesis
  proof (cases lo)
    case None
    with assms(3) g s1 show ?thesis by (simp add: friend_room_def)
  next
    case (Some l)
    have rel1: "world_step\<^sup>*\<^sup>* w (release_lobby l w w1)"
      by (rule rtranclp_trans [OF s1 release_lobby_steps]) (auto simp: same dest: empty)
    show ?thesis
    proof (cases "create_game l (gn_id info) (gn_server_address info) True w1")
      case None
      with assms(3) g Some rel1 show ?thesis by (simp add: friend_room_def)
    next
      case c: (Some t)
      obtain res us1 w2 where t: "t = (res, us1, w2)" by (metis prod_cases3)
      note c = c [unfolded t]
      note s2 = rtranclp_trans [OF s1 step_one [OF room_made [OF c]]]
      from c show ?thesis
      proof (cases rule: create_game_cases)
        case same2: same
        have "w' = release_lobby l w w1"
        proof (cases res)
          case (Inl x)
          with assms(3) g Some c same2 show ?thesis by (simp add: friend_room_def)
        next
          case (Inr y)
          with assms(3) g Some c same2 show ?thesis by (cases y) (simp_all add: friend_room_def Let_def)
        qed
        with rel1 show ?thesis by simp
      next
        case (made lb ap2)
        have n: "w_game w1 (w_next w1) = None"
          using registry_invD(8) [OF get_lobby_inv [OF inv assms(2) g], of "w_next w1"] by simp
        have w2: "w_game w2 = (w_game w1)(w_next w1 \<mapsto> \<lparr> rm_game = new_game (w_next w1) (gn_id info) (gn_server_address info), rm_lobby = l \<rparr>)"
          by (simp add: made(8))
        show ?thesis
        proof (cases "destroy_game (w_next w1) w2")
          case None
          with assms(3) g Some c made(5) n s2 show ?thesis by (simp add: friend_room_def Let_def)
        next
          case d: (Some x)
          obtain us3 w3 where x: "x = (us3, w3)" by force
          have w3: "w_game w3 = w_game w" using destroy_game_gone [of "w_next w1" w2 us3 w3] d x w2 n same by auto
          have "world_step\<^sup>*\<^sup>* w2 w3" using step_one [OF room_gone] d x by blast
          then have "world_step\<^sup>*\<^sup>* w (release_lobby l w w3)"
            by (intro rtranclp_trans [OF rtranclp_trans [OF s2] release_lobby_steps]) (auto simp: w3 dest: empty)
          with assms(3) g Some c made(5) n d x show ?thesis by (simp add: friend_room_def Let_def)
        qed
      qed
    qed
  qed
qed


text \<open>Looking for friends keeps every application, so a list of them is looked up like one.\<close>

definition conns_live :: "connection list \<Rightarrow> 'v world \<Rightarrow> bool" where
  "conns_live conns w \<longleftrightarrow> (\<forall>cn\<in>set conns. \<forall>pp a. cn_persistent cn = Some pp \<longrightarrow> sp_app pp = Some a \<longrightarrow> w_app w a \<noteq> None)"

lemma app_domain_keeps:
  "get_lobby a k w = (res, w') \<Longrightarrow> dom (w_app w') \<supseteq> dom (w_app w)"
  "create_game l gid address og w = Some (r, us, w') \<Longrightarrow> dom (w_app w') \<supseteq> dom (w_app w)"
  "destroy_game q w = Some (us', w') \<Longrightarrow> dom (w_app w') \<supseteq> dom (w_app w)"
  "dom (w_app (destroy_lobby l w)) \<supseteq> dom (w_app w)"
  by (auto simp: get_lobby_def create_lobby_def app_try_get_def put_app_def put_lobby_def create_game_def
      destroy_game_def destroy_lobby_def Let_def split: option.splits if_splits)

lemma friend_room_keeps_apps:
  assumes "friend_room e flags cn a info w = (room, us, w')"
  shows "dom (w_app w') \<supseteq> dom (w_app w)"
proof -
  have rel: "dom (w_app (release_lobby l b v)) \<supseteq> dom (w_app v)" for l and b v :: "'a world"
    using app_domain_keeps(4) [of v l] by (simp add: release_lobby_def)
  obtain lo w1 where g: "get_lobby a (gn_lobby info, gn_lobby_type info) w = (lo, w1)" by force
  note d1 = app_domain_keeps(1) [OF g]
  show ?thesis
  proof (cases lo)
    case None
    with assms g d1 show ?thesis by (simp add: friend_room_def)
  next
    case (Some l)
    show ?thesis
    proof (cases "create_game l (gn_id info) (gn_server_address info) True w1")
      case None
      with assms g Some d1 rel show ?thesis by (fastforce simp: friend_room_def)
    next
      case c: (Some t)
      obtain res us1 w2 where t: "t = (res, us1, w2)" by (metis prod_cases3)
      note d2 = subset_trans [OF d1 app_domain_keeps(2) [OF c [unfolded t]]]
      consider "w' = w2" | "w' = release_lobby l w w2" | us3 w3 r where "destroy_game r w2 = Some (us3, w3)" "w' = release_lobby l w w3"
        using assms g Some c t by (auto simp: friend_room_def Let_def split: sum.splits option.splits if_splits prod.splits)
      then show ?thesis
      proof cases
        case 3
        from subset_trans [OF subset_trans [OF d2 app_domain_keeps(3) [OF 3(1)]] rel] 3(2) show ?thesis by simp
      qed (use d2 rel in fastforce)+
    qed
  qed
qed

lemma find_friend_steps:
  assumes "world_reach w" "conns_live conns w" "find_friend e conns flags u w = (f, us, w')"
  shows "world_step\<^sup>*\<^sup>* w w' \<and> conns_live conns w'"
proof (cases "w' = w")
  case True
  with assms show ?thesis by simp
next
  case False
  then obtain cn pp a where c: "List.find (\<lambda>cn. case cn_persistent cn of None \<Rightarrow> False | Some pp \<Rightarrow> sp_user_id pp = u) conns = Some cn"
    "cn_persistent cn = Some pp" "sp_app pp = Some a"
    using assms(3) by (auto simp: find_friend_def split: option.splits)
  obtain room us1 w1 where r: "friend_room e flags cn a (sp_invitation pp) w = (room, us1, w1)" by (metis prod_cases3)
  with assms(3) c have w': "w' = w1" by (simp add: find_friend_def)
  from c(1) have "cn \<in> set conns" by (metis find_Some_iff nth_mem)
  with assms(2) c obtain ap where "w_app w a = Some ap" unfolding conns_live_def by blast
  from friend_room_steps [OF assms(1) this r] friend_room_keeps_apps [OF r] assms(2) w' show ?thesis
    unfolding conns_live_def by (metis domIff subsetD)
qed

lemma find_friends_steps:
  assumes "world_reach w" "conns_live conns w" "find_friends e conns flags users w = (fs, us, w')"
  shows "world_step\<^sup>*\<^sup>* w w'"
  using assms
proof (induction users arbitrary: w fs us)
  case (Cons u users)
  obtain f us1 w1 where f: "find_friend e conns flags u w = (f, us1, w1)" by (metis prod_cases3)
  obtain fs2 us2 w2 where r: "find_friends e conns flags users w1 = (fs2, us2, w2)" by (metis prod_cases3)
  from find_friend_steps [OF Cons.prems(1,2) f] have s: "world_step\<^sup>*\<^sup>* w w1" "conns_live conns w1" by auto
  from Cons.prems(3) f r have "w' = w2" by simp
  with s Cons.IH [OF world_steps_reach [OF s(1) Cons.prems(1)] s(2)] r show ?case by (auto intro: rtranclp_trans)
qed simp

definition may_request :: "connection list \<Rightarrow> master \<Rightarrow> 'v process \<Rightarrow> bool" where
  "may_request conns ms pr \<longleftrightarrow> world_reach (pc_world pr) \<and> conns_live conns (pc_world pr)
     \<and> (\<forall>pp a. ms_persistent ms = Some pp \<longrightarrow> sp_app pp = Some a \<longrightarrow> w_app (pc_world pr) a \<noteq> None)"

definition token_of :: "master \<Rightarrow> string" where
  "token_of ms = (case ms_persistent ms of None \<Rightarrow> [] | Some pp \<Rightarrow> sp_token pp)"

lemma runs_refl [simp]: "runs t pr pr"
  by (simp add: runs_def)

lemma handle_master_request_runs:
  assumes "may_request conns ms pr" "handle_master_request e conns req ms pr = (es, ms', pr')"
  shows "runs (token_of ms) pr pr'"
proof (cases "\<exists>pp a. ms_persistent ms = Some pp \<and> sp_app pp = Some a")
  case False
  with assms(2) have "pr' = pr" by (cases "ms_persistent ms"; auto simp: handle_master_request_def split: option.splits)
  then show ?thesis by simp
next
  case True
  then obtain pp a where p: "ms_persistent ms = Some pp" "sp_app pp = Some a" by blast
  with assms(1) obtain ap where a: "w_app (pc_world pr) a = Some ap" unfolding may_request_def by blast
  have t: "token_of ms = sp_token pp" using p by (simp add: token_of_def)
  note h = assms(2) [unfolded handle_master_request_def Let_def p option.case]
  show ?thesis
  proof (cases req)
    case (JoinLobby q)
    obtain res pr1 where l: "get_requested_lobby a q ms pr = (res, pr1)" by force
    note m1 = requested_lobby_moves(1) [OF a l]
    show ?thesis
    proof (cases res)
      case None
      with h JoinLobby l moves_runs [OF m1] show ?thesis by (simp add: handle_join_lobby_def)
    next
      case (Some lob)
      obtain ms1 w where j: "join_lobby lob ms (pc_world pr1) = (ms1, w)" by force
      with h JoinLobby l Some have "pr' = pr1\<lparr> pc_world := w \<rparr>" by (simp add: handle_join_lobby_def)
      with join_lobby_steps [OF j] have "moves_world pr1 pr'" by (simp add: moves_world_def)
      with m1 show ?thesis by (blast intro: moves_runs moves_world_trans)
    qed
  next
    case LeaveLobby
    obtain ms1 w where j: "leave_lobby ms (pc_world pr) = (ms1, w)" by force
    with h LeaveLobby leave_lobby_steps [OF j] show ?thesis by (auto simp: handle_leave_lobby_def runs_def)
  next
    case (GetGameList q sql)
    obtain res pr1 where l: "get_requested_lobby a q ms pr = (res, pr1)" by force
    with h GetGameList have "pr' = pr1"
      by (auto simp: handle_game_list_def Let_def split: option.splits if_splits sum.splits)
    with moves_runs [OF requested_lobby_moves(1) [OF a l]] show ?thesis by simp
  next
    case (CreateGame q gid us)
    with h have "handle_create_game e a pp q gid us ms pr = (es, ms', pr')" by simp
    from handle_create_game_runs [OF a this] t show ?thesis by simp
  next
    case (JoinGame q)
    with h have "handle_join_game e a pp q ms pr = (es, ms', pr')" by simp
    from handle_join_game_runs [OF a this] t show ?thesis by simp
  next
    case (JoinRandomGame q)
    with h have "handle_join_random e a pp q ms pr = (es, ms', pr')" by simp
    from handle_join_random_runs [OF a this] t show ?thesis by simp
  next
    case (FindFriends users flags)
    obtain fs us w where f: "find_friends e conns flags users (pc_world pr) = (fs, us, w)" by (metis prod_cases3)
    with h FindFriends have "pr' = pr \<or> pr' = pr\<lparr> pc_world := w \<rparr>" by (auto simp: handle_find_friends_def split: if_splits)
    moreover have "world_step\<^sup>*\<^sup>* (pc_world pr) w" using find_friends_steps [OF _ _ f] assms(1) by (simp add: may_request_def)
    ultimately show ?thesis by (auto simp: runs_def)
  qed (use h in simp_all)
qed

lemma give_up_or_batch_runs:
  assumes "may_request conns ms pr" "handle_slow_update e conns waited since ms pr = (es, ms', pr')"
  shows "runs (token_of ms) pr pr'"
proof -
  let ?retry = "\<lambda>p :: master_pending. handle_master_request e conns (JoinGame (mq_request p)) (ms\<lparr> ms_pending := None \<rparr>) pr"
  have "pr' = pr \<or> (\<exists>p. ?retry p = (es, ms', pr'))"
  proof (cases "ms_pending ms")
    case None
    with assms(2) show ?thesis by (auto simp: handle_slow_update_def send_batch_def Let_def split: if_splits)
  next
    case (Some p)
    show ?thesis
    proof (rule disjCI)
      assume n: "\<nexists>p :: master_pending. ?retry p = (es, ms', pr')"
      then have "?retry p \<noteq> (es, ms', pr')" by blast
      with Some assms(2) show "pr' = pr"
        by (auto simp: handle_slow_update_def send_batch_def Let_def split: option.splits if_splits)
    qed
  qed
  moreover have "may_request conns (ms\<lparr> ms_pending := None \<rparr>) pr" "token_of (ms\<lparr> ms_pending := None \<rparr>) = token_of ms"
    using assms(1) by (simp_all add: may_request_def token_of_def)
  ultimately show ?thesis using handle_master_request_runs by (metis runs_refl)
qed

lemma release_owned_steps: "world_step\<^sup>*\<^sup>* w (release_owned x w)"
proof -
  obtain r user n where x: "x = (r, user, n)" by (metis prod_cases3)
  show ?thesis
  proof (cases "w_game w r")
    case None
    with x show ?thesis by (simp add: release_owned_def)
  next
    case (Some m)
    have "g_id (snd (remove_expected_user_if_generation user n (rm_game m))) = g_id (rm_game m)"
      by (simp add: remove_expected_user_if_generation_def drop_reservation_def)
    with set_game_steps [of w r] Some x show ?thesis by (simp add: release_owned_def)
  qed
qed

lemma release_all_steps: "world_step\<^sup>*\<^sup>* w (fold release_owned xs w)"
  by (induction xs arbitrary: w) (auto intro: rtranclp_trans [OF release_owned_steps])

lemma disconnect_runs: "handle_master_disconnect ms pr = (ms', pr') \<Longrightarrow> runs t pr pr'"
  using release_all_steps [of "pc_world pr" "ms_owned ms"] by (auto simp: handle_master_disconnect_def runs_def)

lemma destroy_handler_runs:
  assumes "destroy_handler ms pr = (es, pr')"
  shows "runs (token_of ms) pr pr'"
proof -
  obtain ms1 w where l: "leave_lobby ms (pc_world pr) = (ms1, w)" by force
  have "ms_persistent ms1 = ms_persistent ms" using l by (auto simp: leave_lobby_def split: option.splits)
  note k = this assms l leave_lobby_steps [OF l]
  show ?thesis
  proof (cases "ms_persistent ms")
    case None
    with k show ?thesis by (auto simp: destroy_handler_def runs_def)
  next
    case (Some pp)
    with k have "pc_world pr' = w" "pc_store pr' = store_persistent_peer (room_ready w) pp (pc_store pr)"
      by (auto simp: destroy_handler_def)
    with k(4) Some show ?thesis unfolding runs_def token_of_def by auto
  qed
qed

lemma stored_others:
  "sp_token v \<noteq> sp_token pp \<Longrightarrow> v \<in> set (ps_peers (store_persistent_peer ready pp s)) \<longleftrightarrow> v \<in> set (ps_peers s)"
  by (auto simp: store_persistent_peer_def reset_owned_game_if_created_def Let_def split: option.splits)

text \<open>
  C21: Whatever a peer asks of the master server, a waiting join that is retried, and a
  disconnection leave a sound registry: each index names precisely the live objects. No lobby
  loses an entry of its list and no application its settings, and of the stored peers only
  one with the peer's own token can come or go.
\<close>

theorem master_keeps_registry:
  assumes "may_request conns ms pr"
    "handle_master_request e conns req ms pr = (es, ms', pr')
     \<or> handle_slow_update e conns waited since ms pr = (es, ms', pr')
     \<or> handle_master_disconnect ms pr = (ms', pr')
     \<or> destroy_handler ms pr = (es, pr')"
    "sp_token v \<noteq> token_of ms"
  shows "registry_inv (pc_world pr') \<and> grows (pc_world pr) (pc_world pr')
    \<and> (v \<in> set (ps_peers (pc_store pr')) \<longleftrightarrow> v \<in> set (ps_peers (pc_store pr)))"
proof -
  have r: "runs (token_of ms) pr pr'"
    using assms(1,2) handle_master_request_runs give_up_or_batch_runs disconnect_runs destroy_handler_runs by metis
  then have steps: "world_step\<^sup>*\<^sup>* (pc_world pr) (pc_world pr')" by (simp add: runs_def)
  have reach: "world_reach (pc_world pr)" using assms(1) by (simp add: may_request_def)
  from r assms(3) stored_others have "v \<in> set (ps_peers (pc_store pr')) \<longleftrightarrow> v \<in> set (ps_peers (pc_store pr))"
    unfolding runs_def by metis
  with world_reach_inv [OF world_steps_reach [OF steps reach]] world_steps_grow [OF steps reach] show ?thesis by simp
qed

section \<open>Matchmaking\<close>

lemma by_measure_strict_weak:
  "strict_weak A (\<lambda>a b. (f a :: nat) < f b)" "strict_weak A (\<lambda>a b. (f b :: nat) < f a)"
  by (auto simp: strict_weak_def)

lemma strict_weak_subset: "strict_weak A lt \<Longrightarrow> B \<subseteq> A \<Longrightarrow> strict_weak B lt"
  unfolding strict_weak_def by blast

lemma sorted_head:
  assumes "sort_law srt" "strict_weak (set xs) lt" "xs \<noteq> []"
  shows "hd (srt lt xs) \<in> set xs" "x \<in> set xs \<Longrightarrow> \<not> lt x (hd (srt lt xs))"
proof -
  from assms(1,2) have l: "set (srt lt xs) = set xs" "length (srt lt xs) = length xs" "sorted_wrt (\<lambda>a b. \<not> lt b a) (srt lt xs)"
    unfolding sort_law_def by blast+
  with assms(3) obtain y ys where y: "srt lt xs = y # ys" by (metis length_0_conv list.exhaust)
  with l show "hd (srt lt xs) \<in> set xs" by auto
  show "\<not> lt x (hd (srt lt xs))" if "x \<in> set xs"
  proof -
    from that l(1) y have "x = y \<or> x \<in> set ys" by auto
    moreover from assms(2) that have "\<not> lt x x" unfolding strict_weak_def by blast
    ultimately show ?thesis using l(3) y by auto
  qed
qed

lemma candidatesD:
  "r \<in> set (candidates e user props w lb) \<longleftrightarrow> r \<in> set (lb_games lb)
     \<and> (\<exists>m. w_game w r = Some m \<and> admits e w user r (rm_game m) \<and> expect_game_props (me_vo e) (me_wc e) props (rm_game m))"
  by (auto simp: candidates_def split: option.splits)

text \<open>
  C20: Matchmaking in a lobby that is not an SQL lobby. A room is found exactly when the kind
  of matching is known and the lobby has a room that is live, joinable, admits the peer and
  has the expected properties, and the room found is such a room; serial matching takes one
  with the fewest members, filling one with the most.
\<close>

theorem matchmaking_spec:
  assumes "w_lobby w l = Some lb" "lb_type lb \<noteq> mc_lobby_Sql (me_mc e)" "sort_law (me_sort e)"
    "\<And>n. 0 < n \<Longrightarrow> me_draw e n < n"
    "select_game e a l user q w = Inr found"
  defines "fits \<equiv> \<lambda>r. r \<in> set (lb_games lb) \<and> (\<exists>m. w_game w r = Some m \<and> is_joinable (rm_game m)
       \<and> validate_join_count (me_wc e) (room_settings w r) (me_heap e) user 0 False (rm_game m) = err_Ok (me_wc e)
       \<and> expect_game_props (me_vo e) (me_wc e) (case rq_props q of None \<Rightarrow> [] | Some ps \<Rightarrow> ps) (rm_game m))"
  shows "(found = None \<longleftrightarrow> (\<forall>r. \<not> fits r)
         \<or> rq_matchmaking q \<notin> {mc_mm_Serial (me_mc e), mc_mm_FillRoom (me_mc e), mc_mm_Random (me_mc e)})
    \<and> (\<forall>r. found = Some r \<longrightarrow> fits r
         \<and> (rq_matchmaking q = mc_mm_Serial (me_mc e) \<longrightarrow> (\<forall>x. fits x \<longrightarrow> peers_at w r \<le> peers_at w x))
         \<and> (rq_matchmaking q = mc_mm_FillRoom (me_mc e) \<and> mc_mm_Serial (me_mc e) \<noteq> mc_mm_FillRoom (me_mc e) \<longrightarrow>
              (\<forall>x. fits x \<longrightarrow> peers_at w x \<le> peers_at w r)))"
proof -
  let ?cs = "candidates e user (case rq_props q of None \<Rightarrow> [] | Some ps \<Rightarrow> ps) w lb"
  have fits: "fits r \<longleftrightarrow> r \<in> set ?cs" for r by (simp only: fits_def candidatesD admits_def) auto
  have found: "found = pick_candidate e (rq_matchmaking q) w ?cs"
    using assms(1,2,5) by (simp add: select_game_def)
  note up = sorted_head [OF assms(3) by_measure_strict_weak(1) [of "set ?cs" "peers_at w"]]
  note down = sorted_head [OF assms(3) by_measure_strict_weak(2) [of "set ?cs" "peers_at w"]]
  show ?thesis
  proof (cases "?cs = []")
    case True
    with found fits show ?thesis by (simp add: pick_candidate_def)
  next
    case False
    with assms(4) have "?cs ! me_draw e (length ?cs) \<in> set ?cs" by simp
    with False found up down show ?thesis
      unfolding fits pick_candidate_def by (auto simp: not_less split: if_splits)
  qed
qed

section \<open>Handing over\<close>

text \<open>A peer with a place in the room, or the owner of a room not created yet, is stored for the game server.\<close>

definition handed_over :: "'v master_env \<Rightarrow> stored_peer \<Rightarrow> string \<Rightarrow> string \<Rightarrow> master \<Rightarrow> 'v process \<Rightarrow> bool" where
  "handed_over e pp addr token ms pr \<longleftrightarrow> token = sp_token pp \<and> ms_persistent ms = None \<and> ms_owned ms = []
     \<and> (\<exists>v\<in>set (ps_peers (pc_store pr)). \<exists>r m. sp_token v = sp_token pp \<and> sp_user_id v = sp_user_id pp \<and> sp_app v = sp_app pp
          \<and> w_game (pc_world pr) r = Some m \<and> sp_invitation v = get_game_info (pc_world pr) r
          \<and> addr = me_resolve e (g_server_address (rm_game m))
          \<and> (sp_user_id pp \<in> set (g_expected_users (rm_game m)) \<or> sp_owned_game v = Some r \<and> \<not> g_is_created (rm_game m)))"

lemma live_game_info:
  assumes "registry_inv w" "w_game w r = Some m"
  shows "gn_server_address (get_game_info w r) = g_server_address (rm_game m)" "gn_id (get_game_info w r) = g_id (rm_game m)"
proof -
  obtain lb where "w_lobby w (rm_lobby m) = Some lb" using registry_invD(7) [OF assms] by auto
  moreover from registry_invD(5) [OF assms(1) this] obtain ap where "w_app w (lb_app lb) = Some ap" by auto
  ultimately show "gn_server_address (get_game_info w r) = g_server_address (rm_game m)" "gn_id (get_game_info w r) = g_id (rm_game m)"
    using assms(2) by (simp_all add: get_game_info_def)
qed

lemma stored_peer_found:
  assumes "sp_app pp = Some a"
  shows "\<exists>v\<in>set (ps_peers (store_persistent_peer ready pp s)). sp_token v = sp_token pp \<and> sp_user_id v = sp_user_id pp
    \<and> sp_app v = sp_app pp \<and> sp_invitation v = sp_invitation pp
    \<and> (\<forall>r. sp_owned_game pp = Some r \<longrightarrow> \<not> ready r \<longrightarrow> sp_owned_game v = Some r)"
  using assms by (auto simp: store_persistent_peer_def reset_owned_game_if_created_def Let_def split: option.splits)

lemma route_hands_over:
  assumes "route e opc r is_new rid pp (ms, pr) = (es, ms', pr')" "MRouted opc' addr token rid' \<in> set es"
    "registry_inv (pc_world pr)" "sp_app pp = Some a" "w_game (pc_world pr) r = Some m"
    "sp_user_id pp \<in> set (g_expected_users (rm_game m)) \<or> is_new \<and> \<not> g_is_created (rm_game m)"
  shows "handed_over e pp addr token ms' pr'"
proof -
  let ?pp = "invite_game r (get_game_info (pc_world pr) r) is_new pp"
  note parts = route_parts(1-4) [OF assms(1)] route_parts(5) [OF assms(1) assms(2)]
  have app: "sp_app ?pp = Some a" using assms(4) by simp
  from stored_peer_found [OF app, of "room_ready (pc_world pr)" "pc_store pr"] obtain v where
    v: "v \<in> set (ps_peers (pc_store pr'))" "sp_token v = sp_token pp" "sp_user_id v = sp_user_id pp" "sp_app v = sp_app pp"
      "sp_invitation v = get_game_info (pc_world pr') r"
      "sp_owned_game ?pp = Some r \<longrightarrow> \<not> room_ready (pc_world pr) r \<longrightarrow> sp_owned_game v = Some r"
    using parts(1,3) by auto
  have "\<not> room_ready (pc_world pr) r" if "\<not> g_is_created (rm_game m)" using that assms(5) by (simp add: room_ready_def)
  with v(6) assms(6) have "sp_user_id pp \<in> set (g_expected_users (rm_game m)) \<or> sp_owned_game v = Some r \<and> \<not> g_is_created (rm_game m)"
    by auto
  with v parts assms(4,5) live_game_info(1) [OF assms(3,5)] show ?thesis unfolding handed_over_def by auto
qed

lemma not_routed:
  "reserve_in r u s = (es, s') \<Longrightarrow> MRouted opc addr token rid \<notin> set es"
  "reserve_users r self us s = (es, s') \<Longrightarrow> MRouted opc addr token rid \<notin> set es"
  using reserve_in_parts(13) [of r u "fst s" "snd s" es "fst s'" "snd s'"] reserve_users_reserves by fastforce+

lemma join_found_hands_over:
  assumes "join_found e pp q is_new r g ms pr = (es, ms', pr')" "MRouted opc addr token rid \<in> set es"
    "world_reach (pc_world pr)" "sp_app pp = Some a" "w_game (pc_world pr) r \<noteq> None" "sp_user_id pp \<noteq> []"
  shows "handed_over e pp addr token ms' pr'"
proof -
  obtain es1 s1 where r1: "reserve_in r (sp_user_id pp) (ms, pr) = (es1, s1)" by (meson surj_pair)
  obtain es2 s2 where r2: "reserve_users r (sp_user_id pp) (jq_expected q) s1 = (es2, s2)" by (meson surj_pair)
  obtain ms2 pr2 where s2: "s2 = (ms2, pr2)" by (meson surj_pair)
  obtain es3 ms3 pr3 where r3: "route e (mc_op_JoinGame (me_mc e)) r is_new (if g_id g \<noteq> jq_game_id q then Some (g_id g) else None) pp s2
      = (es3, ms3, pr3)" by (metis prod_cases3)
  from assms(1,2) r1 r2 r3 have es: "es = es1 @ es2 @ es3" "ms' = ms3" "pr' = pr3"
    by (auto simp: join_found_def Let_def split: if_splits prod.splits)
  from assms(2) es not_routed(1) [OF r1] not_routed(2) [OF r2] have routed: "MRouted opc addr token rid \<in> set es3" by auto
  note q2 = conjunct1 [OF reserve_users_reserves [OF r2]]
  obtain ms1 pr1 where s1: "s1 = (ms1, pr1)" by (meson surj_pair)
  obtain m where "w_game (pc_world pr) r = Some m" using assms(5) by blast
  from reserve_in_parts(11) [OF r1 [unfolded s1] this assms(6)] obtain m1 where
    "w_game (pc_world pr1) r = Some m1" "sp_user_id pp \<in> set (g_expected_users (rm_game m1))" by blast
  with q2 s1 s2 obtain m2 where m2: "w_game (pc_world pr2) r = Some m2" "sp_user_id pp \<in> set (g_expected_users (rm_game m2))"
    unfolding reserves_def by fastforce
  have "registry_inv (pc_world pr2)"
    using world_reach_inv [OF moves_world_reach [OF reserves_moves [OF reserves_trans [OF reserve_in_reserves [OF r1] q2]]]] assms(3) s2
    by simp
  from route_hands_over [OF r3 [unfolded s2] routed this assms(4) m2(1)] m2(2) es show ?thesis by simp
qed

lemma route_random_hands_over:
  assumes "route_random e pp r is_new ms pr = (es, ms', pr')" "MRouted opc addr token rid \<in> set es"
    "world_reach (pc_world pr)" "sp_app pp = Some a" "w_game (pc_world pr) r \<noteq> None" "sp_user_id pp \<noteq> []"
  shows "handed_over e pp addr token ms' pr'"
proof -
  obtain es1 ms1 pr1 where r1: "reserve_in r (sp_user_id pp) (ms, pr) = (es1, ms1, pr1)" by (metis prod_cases3)
  obtain es2 ms2 pr2 where r2: "route e (mc_op_JoinRandomGame (me_mc e)) r is_new (map_option g_id (game_at pr r)) pp (ms1, pr1)
      = (es2, ms2, pr2)" by (metis prod_cases3)
  from assms(1) r1 r2 have es: "es = es1 @ es2" "ms' = ms2" "pr' = pr2" by (auto simp: route_random_def)
  from assms(2) es not_routed(1) [OF r1] have routed: "MRouted opc addr token rid \<in> set es2" by auto
  obtain m where "w_game (pc_world pr) r = Some m" using assms(5) by blast
  from reserve_in_parts(11) [OF r1 this assms(6)] obtain m1 where
    m1: "w_game (pc_world pr1) r = Some m1" "sp_user_id pp \<in> set (g_expected_users (rm_game m1))" by blast
  have "registry_inv (pc_world pr1)"
    using world_reach_inv [OF moves_world_reach [OF reserves_moves [OF reserve_in_reserves [OF r1]]]] assms(3) by simp
  from route_hands_over [OF r2 routed this assms(4) m1(1)] m1(2) es show ?thesis by simp
qed

lemma fresh_room:
  "create_game l gid address False w = Some (Inr (Some r), us, w') \<Longrightarrow> \<exists>m. w_game w' r = Some m \<and> \<not> g_is_created (rm_game m)"
  by (auto simp: new_game_def create_game_def put_app_def put_lobby_def Let_def split: option.splits if_splits)

lemma create_room_live:
  assumes "create_room e l gid ms pr = Inr (r, es, pr')" "registry_inv (pc_world pr)"
  shows "\<exists>m. w_game (pc_world pr') r = Some m \<and> \<not> g_is_created (rm_game m)" "MRouted opc addr token rid \<notin> set es"
proof -
  obtain us address where c: "create_game l gid address False (pc_world pr) = Some (Inr (Some r), us, pc_world pr')"
    "es = map MNotify us" "pc_store pr' = pc_store pr" "moves_world pr pr'"
    using assms(1) by (rule create_room_moves)
  from fresh_room [OF c(1)] show "\<exists>m. w_game (pc_world pr') r = Some m \<and> \<not> g_is_created (rm_game m)" .
  from c(2) show "MRouted opc addr token rid \<notin> set es" by auto
qed

lemma select_game_live:
  assumes "select_game e a l user q w = Inr (Some r)" "sort_law (me_sort e)" "\<And>n. 0 < n \<Longrightarrow> me_draw e n < n"
  shows "w_game w r \<noteq> None"
proof -
  obtain lb where lb: "w_lobby w l = Some lb" using assms(1) by (auto simp: select_game_def split: option.splits)
  show ?thesis
  proof (cases "lb_type lb = mc_lobby_Sql (me_mc e)")
    case True
    with assms(1) lb have "sql_match e a l user (rq_sql q) w = Inr (Some r)" by (simp add: select_game_def)
    then show ?thesis by (auto simp: sql_match_def Let_def List.find_Some_iff split: sum.splits option.splits)
  next
    case False
    let ?cs = "candidates e user (case rq_props q of None \<Rightarrow> [] | Some ps \<Rightarrow> ps) w lb"
    have p: "pick_candidate e (rq_matchmaking q) w ?cs = Some r" using assms(1) lb False by (simp add: select_game_def)
    then have "?cs \<noteq> []" by (auto simp: pick_candidate_def)
    with p assms(3) [of "length ?cs"] sorted_head(1) [OF assms(2) by_measure_strict_weak(1) [of "set ?cs" "peers_at w"]]
      sorted_head(1) [OF assms(2) by_measure_strict_weak(2) [of "set ?cs" "peers_at w"]]
    have "r \<in> set ?cs" by (auto simp: pick_candidate_def split: if_splits)
    then show ?thesis by (auto simp: candidatesD)
  qed
qed

lemma handle_create_game_hands_over:
  assumes "handle_create_game e a pp q gid expected ms pr = (es, ms', pr')" "MRouted opc addr token rid \<in> set es"
    "world_reach (pc_world pr)" "w_app (pc_world pr) a = Some ap" "sp_app pp = Some b"
  shows "handed_over e pp addr token ms' pr'"
proof -
  obtain res pr1 where l: "get_requested_lobby a q ms pr = (res, pr1)" by force
  note reach1 = moves_world_reach [OF requested_lobby_moves(1) [OF assms(4) l] assms(3)]
  let ?gid = "if gid = [] then me_new_id e (sp_user_id pp) else gid"
  have inl: "MRouted opc addr token rid \<notin> set x" if "create_room e l g ms p = Inl x" for l g p x
    using that by (auto simp: create_room_def split: option.splits sum.splits)
  obtain lob r es1 pr2 where c: "res = Some lob" "create_room e lob ?gid ms pr1 = Inr (r, es1, pr2)"
    using assms(1,2) l inl by (auto simp: handle_create_game_def Let_def split: option.splits if_splits sum.splits)
  obtain es2 ms2 pr3 where r2: "reserve_users r (sp_user_id pp) expected (ms, pr2) = (es2, ms2, pr3)" by (metis prod_cases3)
  obtain es3 ms3 pr4 where r3: "route e (mc_op_CreateGame (me_mc e)) r True (Some ?gid) pp (ms2, pr3) = (es3, ms3, pr4)" by (metis prod_cases3)
  have es: "es = es1 @ es2 @ es3 \<and> ms' = ms3 \<and> pr' = pr4"
    using assms(1,2) l c r2 r3 by (auto simp: handle_create_game_def Let_def split: if_splits)
  have reach2: "world_reach (pc_world pr2)" using c(2) reach1 create_room_moves moves_world_reach by metis
  obtain m where m: "w_game (pc_world pr2) r = Some m" "\<not> g_is_created (rm_game m)"
    using create_room_live(1) [OF c(2) world_reach_inv [OF reach1]] by blast
  note q2 = conjunct1 [OF reserve_users_reserves [OF r2]]
  from q2 m obtain m3 where m3: "w_game (pc_world pr3) r = Some m3" "\<not> g_is_created (rm_game m3)"
    unfolding reserves_def by fastforce
  have "registry_inv (pc_world pr3)"
    using world_reach_inv [OF moves_world_reach [OF reserves_moves [OF q2]]] reach2 by simp
  moreover have "MRouted opc addr token rid \<in> set es3"
    using assms(2) es create_room_live(2) [OF c(2) world_reach_inv [OF reach1]] not_routed(2) [OF r2] by auto
  ultimately show ?thesis using route_hands_over [OF r3 _ _ assms(5) m3(1)] m3(2) es by simp
qed

lemma handle_join_game_hands_over:
  assumes "handle_join_game e a pp q ms pr = (es, ms', pr')" "MRouted opc addr token rid \<in> set es"
    "world_reach (pc_world pr)" "w_app (pc_world pr) a = Some ap" "sp_app pp = Some b" "sp_user_id pp \<noteq> []"
  shows "handed_over e pp addr token ms' pr'"
proof -
  obtain res pr1 where l: "get_requested_lobby a (jq_lobby q) ms pr = (res, pr1)" by force
  note reach1 = moves_world_reach [OF requested_lobby_moves(1) [OF assms(4) l] assms(3)]
  have inl: "MRouted opc addr token rid \<notin> set x" if "create_room e l g ms p = Inl x" for l g p x
    using that by (auto simp: create_room_def split: option.splits sum.splits)
  let ?gid = "if jq_game_id q = [] then me_new_id e (sp_user_id pp) else jq_game_id q"
  let ?found = "case w_app (pc_world pr1) a of None \<Rightarrow> None | Some ap \<Rightarrow> map_of (ap_games ap) (jq_game_id q)"
  show ?thesis
  proof (cases ?found)
    case (Some r)
    with assms(1,2) l obtain g where g: "game_at pr1 r = Some g" "join_found e pp q False r g ms pr1 = (es, ms', pr')"
      by (auto simp: handle_join_game_def Let_def split: option.splits)
    from g(1) have "w_game (pc_world pr1) r \<noteq> None" by (auto simp: game_at_def)
    from join_found_hands_over [OF g(2) assms(2) reach1 assms(5) this assms(6)] show ?thesis .
  next
    case None
    obtain lob where lob: "res = Some lob"
      using assms(1,2) l by (cases res) (auto simp: handle_join_game_def Let_def)
    obtain r es1 pr2 where c: "create_room e lob ?gid ms pr1 = Inr (r, es1, pr2)"
    proof (cases "create_room e lob ?gid ms pr1")
      case (Inl x)
      with assms(1,2) l lob None inl [OF Inl] show ?thesis by (auto simp: handle_join_game_def Let_def split: if_splits)
    next
      case (Inr y)
      obtain r es1 pr2 where "y = (r, es1, pr2)" by (metis prod_cases3)
      with that Inr show ?thesis by simp
    qed
    obtain m where m: "w_game (pc_world pr2) r = Some m"
      using create_room_live(1) [OF c world_reach_inv [OF reach1]] by blast
    obtain es2 s2 where j: "join_found e pp q True r (rm_game m) ms pr2 = (es2, s2)" by (meson surj_pair)
    have "jq_mode q \<noteq> 0" using assms(1,2) l lob None by (auto simp: handle_join_game_def Let_def)
    with assms(1) l lob None c m j have es: "es = es1 @ es2 \<and> s2 = (ms', pr')"
      by (auto simp: handle_join_game_def Let_def game_at_def)
    have reach2: "world_reach (pc_world pr2)" using c reach1 create_room_moves moves_world_reach by metis
    have routed: "MRouted opc addr token rid \<in> set es2"
      using assms(2) es create_room_live(2) [OF c world_reach_inv [OF reach1]] by auto
    from join_found_hands_over [OF _ this reach2 assms(5) _ assms(6)] j es m show ?thesis by simp
  qed
qed

lemma handle_join_random_hands_over:
  assumes "handle_join_random e a pp q ms pr = (es, ms', pr')" "MRouted opc addr token rid \<in> set es"
    "world_reach (pc_world pr)" "w_app (pc_world pr) a = Some ap" "sp_app pp = Some b" "sp_user_id pp \<noteq> []"
    "sort_law (me_sort e)" "\<And>n. 0 < n \<Longrightarrow> me_draw e n < n"
  shows "handed_over e pp addr token ms' pr'"
proof -
  obtain res pr1 where l: "get_requested_lobby a (rq_lobby q) ms pr = (res, pr1)" by force
  note reach1 = moves_world_reach [OF requested_lobby_moves(1) [OF assms(4) l] assms(3)]
  have inl: "MRouted opc addr token rid \<notin> set x" if "create_room e l g ms p = Inl x" for l g p x
    using that by (auto simp: create_room_def split: option.splits sum.splits)
  let ?gid = "if rq_game_id q = [] then me_new_id e (sp_user_id pp) else rq_game_id q"
  obtain lob where lob: "res = Some lob"
    using assms(1,2) l by (cases res) (auto simp: handle_join_random_def Let_def)
  obtain found where found: "select_game e a lob (sp_user_id pp) q (pc_world pr1) = Inr found"
    using assms(1,2) l lob by (cases "select_game e a lob (sp_user_id pp) q (pc_world pr1)") (auto simp: handle_join_random_def Let_def)
  show ?thesis
  proof (cases found)
    case (Some r)
    with assms(1) l lob found have j: "route_random e pp r False ms pr1 = (es, ms', pr')"
      by (simp add: handle_join_random_def Let_def)
    have "w_game (pc_world pr1) r \<noteq> None" by (rule select_game_live [OF found [unfolded Some] assms(7,8)])
    from route_random_hands_over [OF j assms(2) reach1 assms(5) this assms(6)] show ?thesis .
  next
    case None
    have create: "rq_create q \<noteq> 0" using assms(1,2) l lob found None by (auto simp: handle_join_random_def Let_def)
    obtain r es1 pr2 where c: "create_room e lob ?gid ms pr1 = Inr (r, es1, pr2)"
    proof (cases "create_room e lob ?gid ms pr1")
      case (Inl x)
      with assms(1,2) l lob found None create inl [OF Inl] show ?thesis by (auto simp: handle_join_random_def Let_def)
    next
      case (Inr y)
      obtain r es1 pr2 where "y = (r, es1, pr2)" by (metis prod_cases3)
      with that Inr show ?thesis by simp
    qed
    obtain es2 s2 where j: "route_random e pp r True ms pr2 = (es2, s2)" by (meson surj_pair)
    with assms(1) l lob found None create c have es: "es = es1 @ es2 \<and> s2 = (ms', pr')"
      by (auto simp: handle_join_random_def Let_def)
    have reach2: "world_reach (pc_world pr2)" using c reach1 create_room_moves moves_world_reach by metis
    have live: "w_game (pc_world pr2) r \<noteq> None" using create_room_live(1) [OF c world_reach_inv [OF reach1]] by blast
    have routed: "MRouted opc addr token rid \<in> set es2"
      using assms(2) es create_room_live(2) [OF c world_reach_inv [OF reach1]] by auto
    from route_random_hands_over [OF _ routed reach2 assms(5) live assms(6)] j es show ?thesis by simp
  qed
qed

text \<open>
  C19: A peer that is sent to a game server can be let in there. When a request is answered
  with an address, it is the resolved address of a live room; the peer is stored under the
  token of the answer with its user id, its application and an invitation to this room; the
  user has a place reserved there or owns the room, which is then not created yet; and the
  master server keeps neither the peer nor the reservations.
\<close>

theorem routed_peer_expected:
  assumes "may_request conns ms pr" "ms_persistent ms = Some pp" "sp_user_id pp \<noteq> []"
    "sort_law (me_sort e)" "\<And>n. 0 < n \<Longrightarrow> me_draw e n < n"
    "handle_master_request e conns req ms pr = (es, ms', pr')" "MRouted opc addr token rid \<in> set es"
  shows "token = sp_token pp \<and> ms_persistent ms' = None \<and> ms_owned ms' = []
    \<and> (\<exists>v\<in>set (ps_peers (pc_store pr')). \<exists>r m. sp_token v = sp_token pp \<and> sp_user_id v = sp_user_id pp \<and> sp_app v = sp_app pp
          \<and> w_game (pc_world pr') r = Some m \<and> sp_invitation v = get_game_info (pc_world pr') r
          \<and> addr = me_resolve e (g_server_address (rm_game m))
          \<and> (sp_user_id pp \<in> set (g_expected_users (rm_game m)) \<or> sp_owned_game v = Some r \<and> \<not> g_is_created (rm_game m)))"
proof -
  obtain a where p: "sp_app pp = Some a"
    using assms(2,6,7) by (cases "sp_app pp") (auto simp: handle_master_request_def)
  with assms(1,2) obtain ap where ap: "w_app (pc_world pr) a = Some ap" "world_reach (pc_world pr)"
    unfolding may_request_def by blast
  note h = assms(6) [unfolded handle_master_request_def Let_def assms(2) p option.case]
  have no: "MRouted opc addr token rid \<notin> set es"
    if "(es, ms', pr') = handle_join_lobby e a q ms pr \<or> (es, ms', pr') = handle_leave_lobby e ms pr
      \<or> (es, ms', pr') = handle_game_list e a q sql ms pr \<or> (es, ms', pr') = handle_find_friends e conns a us fl ms pr" for q sql us fl
    using that by (auto simp: handle_join_lobby_def handle_leave_lobby_def handle_game_list_def handle_find_friends_def
        Let_def split: option.splits prod.splits sum.splits if_splits)
  have "handed_over e pp addr token ms' pr'"
  proof (cases req)
    case (JoinLobby q)
    with h assms(7) no [of q] show ?thesis by simp
  next
    case LeaveLobby
    with h assms(7) no show ?thesis by simp
  next
    case (GetGameList q sql)
    with h assms(7) no [of q sql] show ?thesis by simp
  next
    case (FindFriends us fl)
    with h assms(7) no [of _ _ us fl] show ?thesis by simp
  next
    case (CreateGame q gid us)
    with h have "handle_create_game e a pp q gid us ms pr = (es, ms', pr')" by simp
    from handle_create_game_hands_over [OF this assms(7) ap(2,1) p] show ?thesis .
  next
    case (JoinGame q)
    with h have "handle_join_game e a pp q ms pr = (es, ms', pr')" by simp
    from handle_join_game_hands_over [OF this assms(7) ap(2,1) p assms(3)] show ?thesis .
  next
    case (JoinRandomGame q)
    with h have "handle_join_random e a pp q ms pr = (es, ms', pr')" by simp
    from handle_join_random_hands_over [OF this assms(7) ap(2,1) p assms(3,4,5)] show ?thesis .
  qed (use h assms(7) in \<open>auto simp: unsupported_reply_def\<close>)
  then show ?thesis by (simp add: handed_over_def)
qed

section \<open>Lists of rooms\<close>

lemma list_before_strict_weak:
  assumes "\<And>r. r \<in> A \<Longrightarrow> w_game w r \<noteq> None"
  shows "strict_weak A (list_before w)"
proof -
  have b: "list_before w a b \<longleftrightarrow> (\<exists>ma mb. w_game w a = Some ma \<and> w_game w b = Some mb
      \<and> (list_group (rm_game ma) < list_group (rm_game mb)
         \<or> list_group (rm_game ma) = list_group (rm_game mb) \<and> string_less (g_id (rm_game ma)) (g_id (rm_game mb))))" for a b
    by (auto simp: list_before_def split: option.splits)
  have "list_before w a c \<or> list_before w c b" if c: "c \<in> A" and l: "list_before w a b" for a b c
  proof -
    obtain mc where "w_game w c = Some mc" using assms [OF c] by blast
    moreover obtain ma mb where "w_game w a = Some ma" "w_game w b = Some mb"
      "list_group (rm_game ma) < list_group (rm_game mb)
         \<or> list_group (rm_game ma) = list_group (rm_game mb) \<and> string_less (g_id (rm_game ma)) (g_id (rm_game mb))"
      using l unfolding b by blast
    ultimately show ?thesis
      using string_less_order(2) [of "g_id (rm_game ma)" "g_id (rm_game mb)" "g_id (rm_game mc)"]
      unfolding b by (cases "list_group (rm_game mc)" "list_group (rm_game ma)" rule: linorder_cases) auto
  qed
  moreover have "\<not> list_before w b a" if "list_before w a b" for a b
    using that string_less_order(1) unfolding b by fastforce
  ultimately show ?thesis unfolding strict_weak_def by blast
qed

lemma game_list_rows:
  assumes "\<And>r. r \<in> set rs \<Longrightarrow> \<exists>m. w_game w r = Some m"
    "\<And>r q m n. r \<in> set rs \<Longrightarrow> q \<in> set rs \<Longrightarrow> w_game w r = Some m \<Longrightarrow> w_game w q = Some n \<Longrightarrow> g_id (rm_game m) = g_id (rm_game n) \<Longrightarrow> r = q"
  shows "map_of (fold (\<lambda>r acc. case list_row e w r of [] \<Rightarrow> acc | kv # _ \<Rightarrow> ht_emplace acc (fst kv) (snd kv)) rs []) i = Some ps
    \<longleftrightarrow> (\<exists>r\<in>set rs. \<exists>m. w_game w r = Some m \<and> g_id (rm_game m) = i \<and> ps = get_lobby_game_props (me_vo e) (me_wc e) (rm_game m))"
  using assms
proof (induction rs arbitrary: ps rule: rev_induct)
  case (snoc r rs)
  obtain m where m: "w_game w r = Some m" using snoc.prems(1) [of r] by auto
  let ?acc = "fold (\<lambda>r acc. case list_row e w r of [] \<Rightarrow> acc | kv # _ \<Rightarrow> ht_emplace acc (fst kv) (snd kv)) rs []"
  have IH: "map_of ?acc i = Some ps \<longleftrightarrow> (\<exists>r\<in>set rs. \<exists>m. w_game w r = Some m \<and> g_id (rm_game m) = i
      \<and> ps = get_lobby_game_props (me_vo e) (me_wc e) (rm_game m))" for ps
    by (rule snoc.IH) (use snoc.prems in auto)
  have step: "fold (\<lambda>r acc. case list_row e w r of [] \<Rightarrow> acc | kv # _ \<Rightarrow> ht_emplace acc (fst kv) (snd kv)) (rs @ [r]) []
      = ht_emplace ?acc (g_id (rm_game m)) (get_lobby_game_props (me_vo e) (me_wc e) (rm_game m))"
    using m by (simp add: list_row_def)
  show ?case
  proof (cases "i = g_id (rm_game m)")
    case False
    with step IH m show ?thesis by (auto simp: ht_emplace_def)
  next
    case True
    show ?thesis
    proof (cases "r \<in> set rs")
      case True
      with \<open>i = _\<close> IH m have "map_of ?acc i = Some (get_lobby_game_props (me_vo e) (me_wc e) (rm_game m))" by blast
      then have "ht_contains ?acc i" by (simp add: ht_contains_def)
      with step \<open>i = _\<close> have "map_of (fold (\<lambda>r acc. case list_row e w r of [] \<Rightarrow> acc | kv # _ \<Rightarrow> ht_emplace acc (fst kv) (snd kv))
          (rs @ [r]) []) i = map_of ?acc i" by simp
      moreover have "set (rs @ [r]) = set rs" using \<open>r \<in> set rs\<close> by auto
      ultimately show ?thesis by (simp only: IH)
    next
      case new: False
      have fresh: "g_id (rm_game n) \<noteq> i" if "q \<in> set rs" "w_game w q = Some n" for q n
        using that snoc.prems(2) [of r q m n] m True new by auto
      then have "map_of ?acc i \<noteq> Some p" for p using IH [of p] by blast
      then have "map_of ?acc i = None" by (cases "map_of ?acc i") blast+
      then have "\<not> ht_contains ?acc i" by (simp add: ht_contains_def)
      with step True have "map_of (fold (\<lambda>r acc. case list_row e w r of [] \<Rightarrow> acc | kv # _ \<Rightarrow> ht_emplace acc (fst kv) (snd kv))
          (rs @ [r]) []) i = Some (get_lobby_game_props (me_vo e) (me_wc e) (rm_game m))" by simp
      with m True fresh show ?thesis by auto
    qed
  qed
qed simp

lemma same_lobby_ids_differ:
  assumes "registry_inv w" "w_lobby w l = Some lb" "r \<in> set (lb_games lb)" "q \<in> set (lb_games lb)"
    "w_game w r = Some m" "w_game w q = Some n" "g_id (rm_game m) = g_id (rm_game n)"
  shows "r = q"
proof -
  from registry_invD(5) [OF assms(1,2)] obtain ap where ap: "w_app w (lb_app lb) = Some ap" by blast
  have "room_app w m = Some (lb_app lb)" "room_app w n = Some (lb_app lb)"
    using registry_invD(6) [OF assms(1,2)] assms(2-6) by (simp_all add: room_app_def)
  with indexes_find [OF registry_invD(3) [OF assms(1) ap]] assms(5-7) show ?thesis
    by (metis (no_types, lifting) option.inject room_id_def)
qed

text \<open>The sort the code skips when there is nothing to order, and its first elements.\<close>

lemma sorted_parts:
  assumes "sort_law srt" "strict_weak (set xs) lt" "distinct xs" "rs = (if length xs \<le> 1 then xs else srt lt xs)"
  shows "set rs = set xs" "distinct rs" "r \<in> set (take n rs) \<Longrightarrow> x \<in> set (drop n rs) \<Longrightarrow> \<not> lt x r"
proof -
  from assms(1,2) have "set (srt lt xs) = set xs \<and> length (srt lt xs) = length xs \<and> sorted_wrt (\<lambda>a b. \<not> lt b a) (srt lt xs)"
    unfolding sort_law_def by blast
  moreover have "sorted_wrt (\<lambda>a b. \<not> lt b a) xs" if "length xs \<le> 1" for xs
    using that by (cases xs) auto
  ultimately have rs: "set rs = set xs" "length rs = length xs" "sorted_wrt (\<lambda>a b. \<not> lt b a) (take n rs @ drop n rs)"
    using assms(4) by auto
  show "set rs = set xs" by (rule rs(1))
  show "distinct rs" by (rule card_distinct) (simp add: rs(1,2) distinct_card [OF assms(3)])
  show "\<not> lt x r" if "r \<in> set (take n rs)" "x \<in> set (drop n rs)"
    using rs(3) that unfolding sorted_wrt_append by blast
qed

text \<open>
  The list of rooms a lobby shows. Of the rooms that are live and joinable it holds all,
  or 500 if there are more, each once with its lobby properties and under its id; no room is
  left out in favour of one that is further down in the order of joinable before full.
\<close>

theorem game_list_spec:
  assumes "registry_inv w" "w_lobby w l = Some lb" "sort_law (me_sort e)"
  defines "shown \<equiv> {r \<in> set (lb_games lb). \<exists>m. w_game w r = Some m \<and> is_joinable (rm_game m)}"
  shows "\<exists>listed \<subseteq> shown. card listed = min 500 (card shown)
    \<and> (\<forall>i ps. map_of (get_game_list e w lb) i = Some ps \<longleftrightarrow>
         (\<exists>r\<in>listed. \<exists>m. w_game w r = Some m \<and> g_id (rm_game m) = i \<and> ps = get_lobby_game_props (me_vo e) (me_wc e) (rm_game m)))
    \<and> (\<forall>r\<in>listed. \<forall>x\<in>shown - listed. \<forall>m n. w_game w r = Some m \<longrightarrow> w_game w x = Some n \<longrightarrow>
         list_group (rm_game m) \<le> list_group (rm_game n))"
proof -
  let ?games = "filter (\<lambda>r. case w_game w r of None \<Rightarrow> False | Some m \<Rightarrow> is_joinable (rm_game m)) (lb_games lb)"
  let ?fold = "\<lambda>rs. fold (\<lambda>r acc. case list_row e w r of [] \<Rightarrow> acc | kv # _ \<Rightarrow> ht_emplace acc (fst kv) (snd kv)) rs []"
  define rs where "rs = (if length ?games \<le> 1 then ?games else me_sort e (list_before w) ?games)"
  have games: "set ?games = shown" "distinct ?games"
    using registry_invD(5) [OF assms(1,2)] by (auto simp: shown_def split: option.splits)
  have "strict_weak (set ?games) (list_before w)"
    by (rule list_before_strict_weak) (auto split: option.splits)
  note rs = sorted_parts [OF assms(3) this games(2) rs_def, unfolded games(1)]
  have list: "get_game_list e w lb = ?fold (take 500 rs)"
  proof (cases "length ?games \<le> 1")
    case True
    then show ?thesis unfolding get_game_list_def Let_def rs_def
      by (cases ?games) (auto simp: list_row_def ht_emplace_def ht_contains_def ht_put_def split: option.splits)
  next
    case False
    then have "?games \<noteq> []" "length ?games \<noteq> 1" by auto
    with False show ?thesis unfolding get_game_list_def Let_def rs_def by (simp only: if_False)
  qed
  have sub: "set (take 500 rs) \<subseteq> shown" using rs(1) set_take_subset by fastforce
  have rest: "shown - set (take 500 rs) \<subseteq> set (drop 500 rs)" using rs(1) set_append [of "take 500 rs" "drop 500 rs"] by auto
  have rows: "map_of (get_game_list e w lb) i = Some ps \<longleftrightarrow>
      (\<exists>r\<in>set (take 500 rs). \<exists>m. w_game w r = Some m \<and> g_id (rm_game m) = i \<and> ps = get_lobby_game_props (me_vo e) (me_wc e) (rm_game m))" for i ps
    unfolding list
  proof (rule game_list_rows)
    show "\<exists>m. w_game w r = Some m" if "r \<in> set (take 500 rs)" for r
      using subsetD [OF sub that] by (auto simp: shown_def)
    show "r = q" if "r \<in> set (take 500 rs)" "q \<in> set (take 500 rs)" "w_game w r = Some m" "w_game w q = Some n"
      "g_id (rm_game m) = g_id (rm_game n)" for r q m n
      using same_lobby_ids_differ [OF assms(1,2) _ _ that(3-5)] subsetD [OF sub that(1)] subsetD [OF sub that(2)]
      by (simp add: shown_def)
  qed
  have "list_group (rm_game m) \<le> list_group (rm_game n)"
    if "r \<in> set (take 500 rs)" "x \<in> shown - set (take 500 rs)" "w_game w r = Some m" "w_game w x = Some n" for r x m n
    using rs(3) [OF that(1) subsetD [OF rest that(2)]] that(3,4) by (auto simp: list_before_def split: if_splits)
  moreover have "card (set (take 500 rs)) = min 500 (card shown)"
    using rs by (simp add: distinct_card [OF distinct_take [OF rs(2)]] distinct_card [OF rs(2), symmetric] min.commute)
  ultimately show ?thesis using sub rows by blast
qed

section \<open>A rejoin to a room that is gone\<close>

text \<open>
  Asking to rejoin a room that does not exist is answered with GameIdNotExists and no
  room lives afterwards that did not before, but the lobby keeps an entry for a room that was
  created and destroyed on the way: entries the application's limit of rooms counts.
\<close>

theorem rejoin_leaves_entry:
  assumes "registry_inv (pc_world pr)" "w_app (pc_world pr) a = Some ap" "map_of (ap_games ap) (jq_game_id q) = None"
    "jq_game_id q \<noteq> []" "jq_mode q = 3" "me_base_address e = Some address"
    "get_requested_lobby a (jq_lobby q) ms pr = (Some l, pr)" "w_lobby (pc_world pr) l = Some lb" "lb_app lb = a"
    "as_max_game_count (ap_settings ap) = 0 \<or> get_game_count (pc_world pr) ap < unat (as_max_game_count (ap_settings ap))"
    "handle_join_game e a pp q ms pr = (es, ms', pr')"
  shows "MReply (mc_op_JoinGame (me_mc e)) (err_GameIdNotExists (me_wc e)) \<in> set es
    \<and> w_game (pc_world pr') = w_game (pc_world pr)
    \<and> (\<exists>lb'. w_lobby (pc_world pr') l = Some lb' \<and> lb_games lb' = lb_games lb @ [w_next (pc_world pr)])"
proof -
  let ?w = "pc_world pr" and ?r = "w_next (pc_world pr)"
  let ?g = "new_game ?r (jq_game_id q) address"
  let ?w1 = "put_app a (ap\<lparr> ap_games := ht_emplace (ap_games ap) (jq_game_id q) ?r \<rparr>)
     (put_lobby l (lb\<lparr> lb_games := lb_games lb @ [?r] \<rparr>)
       (?w\<lparr> w_game := (w_game ?w)(?r \<mapsto> \<lparr> rm_game = ?g, rm_lobby = l \<rparr>), w_next := ?r + 1 \<rparr>))"
  have new: "w_game ?w ?r = None" using registry_invD(8) [OF assms(1), of ?r] by simp
  have unlisted: "?r \<notin> set (lb_games lb)" using registry_invD(6) [OF assms(1,8)] by blast
  have c: "create_game l (jq_game_id q) address False ?w = Some (Inr (Some ?r), map (\<lambda>h. GameUpdate h ?r) (lb_handlers lb), ?w1)"
    using assms(2-4,8-10) by (auto simp: create_game_def Let_def)
  have same: "(w_game ?w)(?r := None) = w_game ?w" using new by (rule fun_upd_idem)
  have keep: "erase_first (\<lambda>weak. (if ((w_game ?w)(?r := None)) weak \<noteq> None then Some weak else None) = Some ?r) xs = xs" for xs
    by (induction xs) auto
  obtain us w2 where d: "destroy_game ?r ?w1 = Some (us, w2)" "w_game w2 = w_game ?w"
    "w_lobby w2 l = Some (lb\<lparr> lb_games := lb_games lb @ [?r] \<rparr>)"
    using assms(9) new keep same by (auto simp: destroy_game_def Let_def put_app_def put_lobby_def)
  have room: "create_room e l (jq_game_id q) ms pr
      = Inr (?r, map MNotify (map (\<lambda>h. GameUpdate h ?r) (lb_handlers lb)), pr\<lparr> pc_world := ?w1 \<rparr>)"
    using assms(6) c by (simp add: create_room_def)
  have "game_at (pr\<lparr> pc_world := ?w1 \<rparr>) ?r = Some ?g" by (simp add: game_at_def put_app_def put_lobby_def)
  moreover have "join_found e pp q True ?r ?g ms (pr\<lparr> pc_world := ?w1 \<rparr>)
      = ([MReply (mc_op_JoinGame (me_mc e)) (err_GameIdNotExists (me_wc e))] @ map MNotify us, ms, pr\<lparr> pc_world := w2 \<rparr>)"
    using assms(5) d(1) by (simp add: join_found_def drop_local_def new_game_def)
  ultimately have "es = map MNotify (map (\<lambda>h. GameUpdate h ?r) (lb_handlers lb))
        @ [MReply (mc_op_JoinGame (me_mc e)) (err_GameIdNotExists (me_wc e))] @ map MNotify us \<and> pr' = pr\<lparr> pc_world := w2 \<rparr>"
    using assms(2-5,7,11) room by (simp add: handle_join_game_def Let_def)
  with d show ?thesis by auto
qed

section \<open>Samples\<close>

fun insert_by :: "('a \<Rightarrow> 'a \<Rightarrow> bool) \<Rightarrow> 'a \<Rightarrow> 'a list \<Rightarrow> 'a list" where
  "insert_by lt x [] = [x]"
| "insert_by lt x (y # ys) = (if lt x y then x # y # ys else y # insert_by lt x ys)"

definition sort_by :: "('a \<Rightarrow> 'a \<Rightarrow> bool) \<Rightarrow> 'a list \<Rightarrow> 'a list" where
  "sort_by lt xs = foldr (insert_by lt) xs []"

lemma insert_by_set [simp]: "set (insert_by lt x ys) = insert x (set ys)" "length (insert_by lt x ys) = Suc (length ys)"
  by (induction ys) auto

lemma insert_by_sorted:
  shows "strict_weak (insert x (set ys)) lt \<Longrightarrow> sorted_wrt (\<lambda>a b. \<not> lt b a) ys \<Longrightarrow> sorted_wrt (\<lambda>a b. \<not> lt b a) (insert_by lt x ys)"
proof (induction ys)
  case (Cons y ys)
  show ?case
  proof (cases "lt x y")
    case True
    have "\<not> lt z x" if "z \<in> set (y # ys)" for z
    proof -
      from that Cons.prems True have "\<not> lt z y" unfolding strict_weak_def by auto
      with that True Cons.prems(1) show ?thesis unfolding strict_weak_def by auto
    qed
    with True Cons.prems show ?thesis by simp
  next
    case False
    have "strict_weak (insert x (set ys)) lt" using Cons.prems(1) by (rule strict_weak_subset) auto
    with Cons False show ?thesis by auto
  qed
qed simp

lemma sort_by_law: "sort_law sort_by"
proof -
  have "set (sort_by lt xs) = set xs \<and> length (sort_by lt xs) = length xs \<and> sorted_wrt (\<lambda>a b. \<not> lt b a) (sort_by lt xs)"
    if "strict_weak (set xs) lt" for lt :: "'a \<Rightarrow> 'a \<Rightarrow> bool" and xs
    using that
  proof (induction xs)
    case (Cons x xs)
    have IH: "set (sort_by lt xs) = set xs" "length (sort_by lt xs) = length xs" "sorted_wrt (\<lambda>a b. \<not> lt b a) (sort_by lt xs)"
      using Cons.IH strict_weak_subset [OF Cons.prems, of "set xs"] by auto
    have "sort_by lt (x # xs) = insert_by lt x (sort_by lt xs)" by (simp add: sort_by_def)
    with IH Cons.prems insert_by_sorted [of x "sort_by lt xs" lt] show ?case by simp
  qed (simp add: sort_by_def)
  then show ?thesis by (simp add: sort_law_def)
qed

definition sample_master_codes :: master_codes where
  "sample_master_codes = \<lparr> mc_op_Authenticate = 230, mc_op_JoinLobby = 229, mc_op_LeaveLobby = 228, mc_op_LobbyStats = 221,
     mc_op_GetGameList = 217, mc_op_CreateGame = 227, mc_op_JoinGame = 226, mc_op_JoinRandomGame = 225,
     mc_op_FindFriends = 222, mc_lobby_Default = 0, mc_lobby_Sql = 2, mc_mm_Serial = 1, mc_mm_FillRoom = 0,
     mc_mm_Random = 2, mc_ff_CreatedOnGS = 1, mc_ff_Visible = 2, mc_ff_Open = 4, mc_err_OperationInvalid = -2,
     mc_err_NotAllowed = -3, mc_err_InternalServerError = -1, mc_err_NoRandomMatchFound = 32760, mc_prop_Removed = 251 \<rparr>"

definition sample_master_env :: "sample_value master_env" where
  "sample_master_env = \<lparr> me_vo = sample_ops, me_wc = sample_codes, me_mc = sample_master_codes, me_heap = Map.empty,
     me_base_address = Some ''gs'', me_resolve = (\<lambda>a. a), me_new_id = (\<lambda>u. u @ ''#0000''), me_query = (\<lambda>l q. Inr []),
     me_sort = sort_by, me_draw = (\<lambda>n. n - 1) \<rparr>"

text \<open>A lobby with one room, which was created, and a peer of its application.\<close>

definition sample_created_world :: "sample_value world" where
  "sample_created_world = set_game 2 ((new_game 2 ''room'' ''addr'')\<lparr> g_is_created := True, g_is_open := True, g_is_visible := True \<rparr>)
     sample_room_world"

definition sample_master :: master where
  "sample_master = \<lparr> ms_id = 7, ms_persistent = Some ((create_persistent_peer ''t'')\<lparr> sp_app := Some 0, sp_user_id := ''ann'' \<rparr>),
     ms_lobby = Some 1, ms_pending = None, ms_owned = [], ms_updates = [] \<rparr>"

definition sample_master_process :: "sample_value process" where
  "sample_master_process = \<lparr> pc_world = sample_created_world, pc_store = empty_store \<rparr>"

definition sample_random :: "sample_value random_request" where
  "sample_random = \<lparr> rq_lobby = \<lparr> lq_name = [], lq_type = 0 \<rparr>, rq_sql = [], rq_matchmaking = 0, rq_props = None,
     rq_create = 0, rq_game_id = [] \<rparr>"

lemma sample_created_reach: "world_reach sample_created_world"
proof -
  have "w_game sample_room_world 2 \<noteq> None" by code_simp
  then obtain m where m: "w_game sample_room_world 2 = Some m" by blast
  have "map_option (\<lambda>m. g_id (rm_game m)) (w_game sample_room_world 2) = Some ''room''" by code_simp
  with m have "g_id (rm_game m) = ''room''" by simp
  then have "world_step sample_room_world sample_created_world"
    unfolding sample_created_world_def by (intro room_changed [OF m]) (simp add: new_game_def)
  with sample_worlds(2) show ?thesis by (rule world_reach.onwards)
qed

lemma sample_may_request: "may_request [] sample_master sample_master_process"
proof -
  have "w_app sample_created_world 0 \<noteq> None" by code_simp
  with sample_created_reach show ?thesis
    by (simp add: may_request_def conns_live_def sample_master_process_def sample_master_def)
qed


lemma sample_env_laws: "sort_law (me_sort sample_master_env)" "0 < n \<Longrightarrow> me_draw sample_master_env n < n"
  using sort_by_law by (simp_all add: sample_master_env_def)

lemma matchmaking_spec_witness:
  "select_game sample_master_env 0 1 ''ann'' sample_random sample_created_world = Inr (Some 2)
   \<and> (\<exists>lb. w_lobby sample_created_world 1 = Some lb \<and> 2 \<in> set (lb_games lb))"
proof -
  have s: "select_game sample_master_env 0 1 ''ann'' sample_random sample_created_world = Inr (Some 2)" by code_simp
  have "w_lobby sample_created_world 1 \<noteq> None" by code_simp
  then obtain lb where lb: "w_lobby sample_created_world 1 = Some lb" by blast
  have "map_option lb_type (w_lobby sample_created_world 1) = Some 0" by code_simp
  with lb have t: "lb_type lb \<noteq> mc_lobby_Sql (me_mc sample_master_env)"
    by (simp add: sample_master_env_def sample_master_codes_def)
  from matchmaking_spec [OF lb t sample_env_laws(1) _ s] sample_env_laws(2) lb s show ?thesis by simp
qed

lemma sample_routing:
  "\<exists>es ms' pr'. handle_master_request sample_master_env [] (JoinRandomGame sample_random) sample_master sample_master_process = (es, ms', pr')
     \<and> MRouted 225 ''addr'' ''t'' (Some ''room'') \<in> set es"
proof -
  have "list_ex (\<lambda>x. case x of MRouted opc a t i \<Rightarrow> opc = 225 \<and> a = ''addr'' \<and> t = ''t'' \<and> i = Some ''room'' | _ \<Rightarrow> False)
     (fst (handle_master_request sample_master_env [] (JoinRandomGame sample_random) sample_master sample_master_process))"
    by code_simp
  then obtain x where x: "x \<in> set (fst (handle_master_request sample_master_env [] (JoinRandomGame sample_random) sample_master sample_master_process))"
    "case x of MRouted opc a t i \<Rightarrow> opc = 225 \<and> a = ''addr'' \<and> t = ''t'' \<and> i = Some ''room'' | _ \<Rightarrow> False"
    unfolding list_ex_iff by blast
  from x(2) have "x = MRouted 225 ''addr'' ''t'' (Some ''room'')" by (rule_tac y = x in master_effect.exhaust) simp_all
  with x(1) show ?thesis by (metis fst_conv prod_cases3)
qed

lemma master_keeps_registry_witness:
  "\<exists>es ms' pr'. handle_master_request sample_master_env [] (JoinRandomGame sample_random) sample_master sample_master_process = (es, ms', pr')
     \<and> registry_inv (pc_world pr')"
proof -
  obtain es ms' pr' where h:
    "handle_master_request sample_master_env [] (JoinRandomGame sample_random) sample_master sample_master_process = (es, ms', pr')"
    using sample_routing by blast
  have "token_of sample_master = ''t''" by code_simp
  then have "sp_token (sample_peer\<lparr> sp_token := [] \<rparr>) \<noteq> token_of sample_master" by simp
  from master_keeps_registry [OF sample_may_request disjI1 [OF h] this] h show ?thesis by blast
qed

lemma routed_peer_expected_witness:
  "\<exists>es ms' pr'. handle_master_request sample_master_env [] (JoinRandomGame sample_random) sample_master sample_master_process = (es, ms', pr')
     \<and> ms_persistent ms' = None \<and> ms_owned ms' = []"
proof -
  obtain es ms' pr' where h:
    "handle_master_request sample_master_env [] (JoinRandomGame sample_random) sample_master sample_master_process = (es, ms', pr')"
    "MRouted 225 ''addr'' ''t'' (Some ''room'') \<in> set es"
    using sample_routing by blast
  obtain pp where pp: "ms_persistent sample_master = Some pp" "sp_user_id pp \<noteq> []" by (simp add: sample_master_def)
  from routed_peer_expected [OF sample_may_request pp sample_env_laws(1) _ h] sample_env_laws(2) h(1) show ?thesis by blast
qed

lemma game_list_spec_witness:
  "\<exists>lb. w_lobby sample_created_world 1 = Some lb
     \<and> map_of (get_game_list sample_master_env sample_created_world lb) ''room'' \<noteq> None
     \<and> (\<exists>r\<in>set (lb_games lb). \<exists>m. w_game sample_created_world r = Some m \<and> g_id (rm_game m) = ''room'')"
proof -
  have "w_lobby sample_created_world 1 \<noteq> None" by code_simp
  then obtain lb where lb: "w_lobby sample_created_world 1 = Some lb" by blast
  have "map_option (\<lambda>lb. map_of (get_game_list sample_master_env sample_created_world lb) ''room'' \<noteq> None)
      (w_lobby sample_created_world 1) = Some True" by code_simp
  with lb obtain ps where ps: "map_of (get_game_list sample_master_env sample_created_world lb) ''room'' = Some ps" by auto
  from game_list_spec [OF world_reach_inv [OF sample_created_reach] lb sample_env_laws(1)] ps lb show ?thesis by blast
qed

definition sample_rejoin :: join_request where
  "sample_rejoin = \<lparr> jq_lobby = \<lparr> lq_name = [], lq_type = 0 \<rparr>, jq_game_id = ''gone'', jq_expected = [], jq_mode = 3 \<rparr>"

lemma rejoin_leaves_entry_witness:
  "\<exists>es ms' pr'. handle_join_game sample_master_env 0 sample_peer sample_rejoin sample_master \<lparr> pc_world = sample_lobby_world, pc_store = empty_store \<rparr>
       = (es, ms', pr')
     \<and> (\<exists>lb'. w_lobby (pc_world pr') 1 = Some lb' \<and> lb_games lb' \<noteq> [])"
proof -
  let ?pr = "\<lparr> pc_world = sample_lobby_world, pc_store = empty_store \<rparr>"
  obtain es ms' pr' where h: "handle_join_game sample_master_env 0 sample_peer sample_rejoin sample_master ?pr = (es, ms', pr')"
    by (metis prod_cases3)
  have "w_app sample_lobby_world 0 \<noteq> None" "w_lobby sample_lobby_world 1 \<noteq> None" by code_simp+
  then obtain ap lb where l: "w_app sample_lobby_world 0 = Some ap" "w_lobby sample_lobby_world 1 = Some lb" by blast
  have "map_option (\<lambda>ap. (map_of (ap_games ap) ''gone'', as_max_game_count (ap_settings ap) = 1, get_game_count sample_lobby_world ap))
      (w_app sample_lobby_world 0) = Some (None, True, 0)" by code_simp
  with l have a: "map_of (ap_games ap) ''gone'' = None" "as_max_game_count (ap_settings ap) = 1" "get_game_count sample_lobby_world ap = 0"
    by auto
  have "map_option lb_app (w_lobby sample_lobby_world 1) = Some 0" by code_simp
  with l have b: "lb_app lb = 0" by simp
  have "registry_inv sample_lobby_world" by (rule world_reach_inv [OF sample_worlds(1)])
  then have "\<exists>lb'. w_lobby (pc_world pr') 1 = Some lb' \<and> lb_games lb' = lb_games lb @ [w_next sample_lobby_world]"
    using rejoin_leaves_entry [of ?pr 0 ap sample_rejoin sample_master_env "''gs''" sample_master 1 lb sample_peer es ms' pr'] l a b h
    by (simp add: sample_rejoin_def sample_master_env_def get_requested_lobby_def sample_master_def)
  then have "\<exists>lb'. w_lobby (pc_world pr') 1 = Some lb' \<and> lb_games lb' \<noteq> []" by (metis append_is_Nil_conv not_Cons_self2)
  with h show ?thesis by blast
qed

end
