(* ===== verification/Replica.thy ===== *)
theory Replica
  imports MasterServer
begin

text \<open>
  Rooms that live in another process (src/game.cpp: the message of a lobby update and of a
  destroyed room; src/server_manager.cpp: what a process does with them). A process keeps the
  rooms of others as external rooms in its own registry.
\<close>

section \<open>Messages\<close>

text \<open>Parameters of a message are absent or of another type as \<^theory_text>\<open>None\<close>; revisions travel as signed integers.\<close>

record 'v game_message =
  gm_info :: game_info
  gm_created :: "bool option"
  gm_creating :: "bool option"
  gm_visible :: "bool option"
  gm_revision :: "int option"
  gm_expected :: "string list option"
  gm_props :: "('v, 'v) assoc option"

datatype 'v replica_effect =
  PNotify list_update
| PRelay "'v game_message"
| PRelayDelete game_info
| PScheduled game_ref u32 task

definition update_message :: "'v value_ops \<Rightarrow> wire_codes \<Rightarrow> game_info \<Rightarrow> 'v game \<Rightarrow> 'v game_message" where
  "update_message vo wc info g =
     \<lparr> gm_info = info, gm_created = Some (g_is_created g), gm_creating = Some (g_is_creating g),
       gm_visible = Some (g_is_visible g), gm_revision = Some (sint (g_state_revision g)),
       gm_expected = Some (g_expected_users g), gm_props = Some (get_lobby_game_props vo wc g) \<rparr>"

definition lobby_handlers :: "'v world \<Rightarrow> game_ref \<Rightarrow> handler_ref list" where
  "lobby_handlers w r = (case w_game w r of None \<Rightarrow> [] | Some m \<Rightarrow>
     (case w_lobby w (rm_lobby m) of None \<Rightarrow> [] | Some lb \<Rightarrow> lb_handlers lb))"

definition trigger_lobby_update :: "'v value_ops \<Rightarrow> wire_codes \<Rightarrow> game_ref \<Rightarrow> 'v world \<Rightarrow> 'v replica_effect list" where
  "trigger_lobby_update vo wc r w =
    (case w_game w r of None \<Rightarrow> []
     | Some m \<Rightarrow> map (\<lambda>h. PNotify (GameUpdate h r)) (lobby_handlers w r)
                  @ [PRelay (update_message vo wc (get_game_info w r) (rm_game m))])"

section \<open>The update of one room\<close>

definition message_revision :: "'v game_message \<Rightarrow> u64 option" where
  "message_revision m = (case gm_revision m of None \<Rightarrow> None | Some r \<Rightarrow> if 0 \<le> r then Some (word_of_int r) else None)"

definition replace_expected :: "string list \<Rightarrow> 'v game \<Rightarrow> 'v game \<times> (u32 \<times> task) list" where
  "replace_expected users g =
     fold (\<lambda>u (g, ts). case reserve_expected_user u 30000 g of (ok, g', ts') \<Rightarrow> (g', ts @ ts')) users
       (fold remove_expected_user (g_expected_users g) g, [])"

text \<open>What a message says of the room's state, before its properties.\<close>

definition take_state :: "'v game_message \<Rightarrow> 'v game \<Rightarrow> 'v game" where
  "take_state m g =
    (let g1 = (case gm_created m of None \<Rightarrow> g | Some b \<Rightarrow> g\<lparr> g_is_created := b \<rparr>);
         g2 = (case gm_creating m of None \<Rightarrow> g1 | Some b \<Rightarrow> g1\<lparr> g_is_creating := b \<rparr>);
         g3 = (case gm_visible m of None \<Rightarrow> g2 | Some b \<Rightarrow> g2\<lparr> g_is_visible := b \<rparr>)
     in case message_revision m of None \<Rightarrow> g3 | Some r \<Rightarrow> g3\<lparr> g_state_revision := r \<rparr>)"

definition take_peer_count :: "'v value_ops \<Rightarrow> wire_codes \<Rightarrow> ('v, 'v) assoc \<Rightarrow> 'v game \<Rightarrow> 'v game" where
  "take_peer_count vo wc props g =
    (case map_of props (v_of_u8 vo (gp_PlayerCount wc)) of None \<Rightarrow> g
     | Some v \<Rightarrow> (case v_u8 vo v of None \<Rightarrow> g | Some n \<Rightarrow> g\<lparr> g_dummy_peer_count := n \<rparr>))"

text \<open>An update older than the room is dropped, unless the room was made for it.\<close>

definition apply_update ::
  "'v value_ops \<Rightarrow> wire_codes \<Rightarrow> app_settings \<Rightarrow> bool \<Rightarrow> 'v game_message \<Rightarrow> 'v game
     \<Rightarrow> ('v game \<times> lobby_effect list \<times> (u32 \<times> task) list) option" where
  "apply_update vo wc cfg is_new m g =
    (if \<not> is_new \<and> (case message_revision m of None \<Rightarrow> False | Some r \<Rightarrow> r < g_state_revision g) then None
     else let g1 = take_state m g in
       case (case gm_expected m of None \<Rightarrow> (g1, []) | Some users \<Rightarrow> replace_expected users g1) of
         (g2, ts) \<Rightarrow>
           (case gm_props m of
              None \<Rightarrow> Some (g2, [], ts)
            | Some props \<Rightarrow>
               (case insert_game_props vo wc cfg props (take_peer_count vo wc props g2) of
                  (g3, fx) \<Rightarrow> Some (g3, fx, ts))))"

section \<open>The external rooms of a process\<close>

record 'v replica_env =
  pe_vo :: "'v value_ops"
  pe_wc :: wire_codes
  pe_db :: "(string \<Rightarrow> app_settings option) option"
  pe_max_game_peers :: u8

definition matches_game_info :: "'v world \<Rightarrow> game_info \<Rightarrow> game_ref \<Rightarrow> bool" where
  "matches_game_info w info r =
    (case w_game w r of None \<Rightarrow> False | Some m \<Rightarrow>
     (case w_lobby w (rm_lobby m) of None \<Rightarrow> False | Some lb \<Rightarrow>
      (case w_app w (lb_app lb) of None \<Rightarrow> False | Some ap \<Rightarrow>
       gn_id info = g_id (rm_game m) \<and> gn_app info = ap_id ap \<and> gn_version info = ap_version ap)))"

definition is_game_external :: "game_ref list \<Rightarrow> game_ref \<Rightarrow> bool" where
  "is_game_external ext r \<longleftrightarrow> r \<in> set ext"

definition lobby_effect_of :: "'v replica_env \<Rightarrow> game_ref \<Rightarrow> 'v world \<Rightarrow> lobby_effect \<Rightarrow> 'v replica_effect list" where
  "lobby_effect_of e r w fx =
    (case fx of
       NotifyGameDelete \<Rightarrow> (case w_game w r of None \<Rightarrow> []
         | Some m \<Rightarrow> map (\<lambda>h. PNotify (GameDelete h (g_id (rm_game m)))) (lobby_handlers w r))
     | TriggerLobbyUpdate \<Rightarrow> trigger_lobby_update (pe_vo e) (pe_wc e) r w)"

definition update_room ::
  "'v replica_env \<Rightarrow> bool \<Rightarrow> 'v game_message \<Rightarrow> game_ref \<Rightarrow> 'v world \<Rightarrow> 'v replica_effect list \<times> 'v world" where
  "update_room e is_new m r w =
    (case w_game w r of None \<Rightarrow> ([], w)
     | Some room \<Rightarrow>
        (case apply_update (pe_vo e) (pe_wc e) (room_settings w r) is_new m (rm_game room) of
           None \<Rightarrow> ([], w)
         | Some (g, fx, ts) \<Rightarrow>
             (let w1 = set_game r g w
              in (map (\<lambda>(t, k). PScheduled r t k) ts @ concat (map (lobby_effect_of e r w1) fx), w1))))"

text \<open>
  The update of a room no external room matches makes one, under the application and lobby
  of the message; an application or lobby made for nothing is let go.
\<close>

definition receive_game_update ::
  "'v replica_env \<Rightarrow> 'v game_message \<Rightarrow> game_ref list \<times> 'v process \<Rightarrow> 'v replica_effect list \<times> game_ref list \<times> 'v process" where
  "receive_game_update e m s =
    (case s of (ext, pr) \<Rightarrow>
     (let w = pc_world pr; info = gm_info m in
      case List.find (matches_game_info w info) ext of
        Some r \<Rightarrow> (case update_room e False m r w of (es, w1) \<Rightarrow> (es, ext, pr\<lparr> pc_world := w1 \<rparr>))
      | None \<Rightarrow>
         (case app_get (pe_db e) (pe_max_game_peers e) (gn_app info) (gn_version info) w of
            (None, w1) \<Rightarrow> ([], ext, pr\<lparr> pc_world := w1 \<rparr>)
          | (Some a, w1) \<Rightarrow>
             (case get_lobby a (gn_lobby info, gn_lobby_type info) w1 of
                (None, w2) \<Rightarrow> ([], ext, pr\<lparr> pc_world := release_app a w w2 \<rparr>)
              | (Some l, w2) \<Rightarrow>
                 (let refuse = ([], ext, pr\<lparr> pc_world := release_app a w (release_lobby l w w2) \<rparr>) in
                  if gn_server_address info = [] then refuse
                  else case create_game l (gn_id info) (gn_server_address info) True w2 of
                    Some (Inr (Some r), us, w3) \<Rightarrow>
                      (case update_room e True m r w3 of
                         (es, w4) \<Rightarrow> (map PNotify us @ es, ext @ [r],
                           pr\<lparr> pc_world := w4, pc_store := reset_persistent_peer_game_ownership r (pc_store pr) \<rparr>))
                  | _ \<Rightarrow> refuse)))))"

text \<open>
  The message of a room destroyed elsewhere: the process lets go of it, and it is destroyed
  here too unless something else holds it.
\<close>

definition receive_game_delete ::
  "(game_ref \<Rightarrow> bool) \<Rightarrow> game_info \<Rightarrow> game_ref list \<times> 'v process \<Rightarrow> 'v replica_effect list \<times> game_ref list \<times> 'v process" where
  "receive_game_delete held info s =
    (case s of (ext, pr) \<Rightarrow>
     (case List.find (matches_game_info (pc_world pr) info) ext of
        None \<Rightarrow> ([], ext, pr)
      | Some r \<Rightarrow>
         (let w1 = (case w_game (pc_world pr) r of None \<Rightarrow> pc_world pr
                    | Some m \<Rightarrow> set_game r ((rm_game m)\<lparr> g_empty_game_ttl := 0 \<rparr>) (pc_world pr))
          in if held r then ([], remove1 r ext, pr\<lparr> pc_world := w1 \<rparr>)
             else case destroy_game r w1 of
               None \<Rightarrow> ([], remove1 r ext, pr\<lparr> pc_world := w1 \<rparr>)
             | Some (us, w2) \<Rightarrow> (map PNotify us @ [PRelayDelete (get_game_info w1 r)], remove1 r ext, pr\<lparr> pc_world := w2 \<rparr>))))"

end
