(* ===== verification/ReplicaProps.thy ===== *)
theory ReplicaProps
  imports Replica RegistryProps
begin

text \<open>
  What a process knows of the rooms of others: an update that is taken makes the replica agree
  with the room, an update that says nothing new is silent, and an update sent when a member
  leaves is dropped.
\<close>

section \<open>The properties a message carries\<close>

text \<open>A string is never a byte, nor null: values of different types differ.\<close>

definition string_values :: "'v value_ops \<Rightarrow> bool" where
  "string_values vo \<longleftrightarrow> (\<forall>s. v_u8 vo (v_of_string vo s) = None \<and> v_of_string vo s \<noteq> v_null vo)"

lemma sample_string_values: "string_values sample_ops"
  by (simp add: string_values_def sample_ops_def)

lemma lobby_fold_lookup:
  "map_of (fold (\<lambda>key acc. case map_of custom (f key) of None \<Rightarrow> acc | Some v \<Rightarrow> ht_emplace acc (f key) v) keys base) k
    = (case map_of base k of Some v \<Rightarrow> Some v | None \<Rightarrow> if \<exists>s\<in>set keys. k = f s then map_of custom k else None)"
proof (induction keys arbitrary: base)
  case (Cons s keys)
  show ?case
  proof (cases "map_of custom (f s)")
    case None
    then show ?thesis using Cons.IH [of base] by (auto split: option.splits)
  next
    case (Some v)
    then show ?thesis using Cons.IH [of "ht_emplace base (f s) v"]
      by (auto simp: ht_contains_def split: option.splits)
  qed
qed (auto split: option.splits)

lemma lobby_fold_distinct:
  "distinct (map fst base) \<Longrightarrow>
   distinct (map fst (fold (\<lambda>key acc. case map_of custom (f key) of None \<Rightarrow> acc | Some v \<Rightarrow> ht_emplace acc (f key) v) keys base))"
  by (induction keys arbitrary: base) (auto simp: ht_emplace_def split: option.splits)

lemma lobby_game_props_keys:
  assumes "value_laws vo" "codes_laws wc"
  shows "distinct (map fst (get_lobby_game_props vo wc g))"
    "map_of (get_lobby_game_props vo wc g) (v_of_u8 vo (gp_PlayerCount wc)) = Some (v_of_u8 vo (player_count g))"
    "map_of (get_lobby_game_props vo wc g) (v_of_u8 vo (gp_IsOpen wc)) = Some (v_of_bool vo (g_is_open g))"
    "map_of (get_lobby_game_props vo wc g) (v_of_u8 vo (gp_MaxPlayers wc)) = Some (v_of_u8 vo (g_max_peers g))"
proof -
  have inj: "v_of_u8 vo x = v_of_u8 vo y \<longleftrightarrow> x = y" for x y
    using assms(1) unfolding value_laws_def by (metis option.inject)
  have d: "gp_PlayerCount wc \<noteq> gp_IsOpen wc" "gp_PlayerCount wc \<noteq> gp_MaxPlayers wc" "gp_IsOpen wc \<noteq> gp_MaxPlayers wc"
    using assms(2) by (auto simp: codes_laws_def well_known_keys_def)
  show "distinct (map fst (get_lobby_game_props vo wc g))"
    unfolding get_lobby_game_props_def Let_def by (rule lobby_fold_distinct) (intro ht_put_distinct, simp)
  show "map_of (get_lobby_game_props vo wc g) (v_of_u8 vo (gp_PlayerCount wc)) = Some (v_of_u8 vo (player_count g))"
    "map_of (get_lobby_game_props vo wc g) (v_of_u8 vo (gp_IsOpen wc)) = Some (v_of_bool vo (g_is_open g))"
    "map_of (get_lobby_game_props vo wc g) (v_of_u8 vo (gp_MaxPlayers wc)) = Some (v_of_u8 vo (g_max_peers g))"
    unfolding get_lobby_game_props_def Let_def lobby_fold_lookup using d by (simp_all add: inj d [symmetric])
qed


text \<open>Every entry is one of the three or a custom property the lobby shows.\<close>

lemma lobby_game_props_entry:
  assumes "(k, v) \<in> set (get_lobby_game_props vo wc g)" "value_laws vo" "codes_laws wc"
  obtains (count) "k = v_of_u8 vo (gp_PlayerCount wc)" "v = v_of_u8 vo (player_count g)"
  | (is_open) "k = v_of_u8 vo (gp_IsOpen wc)" "v = v_of_bool vo (g_is_open g)"
  | (maximum) "k = v_of_u8 vo (gp_MaxPlayers wc)" "v = v_of_u8 vo (g_max_peers g)"
  | (custom) s where "s \<in> set (g_lobby_props g)" "k = v_of_string vo s" "map_of (g_custom_props g) k = Some v"
proof -
  note keys = lobby_game_props_keys [OF assms(2,3), of g]
  have m: "map_of (get_lobby_game_props vo wc g) k = Some v"
    using assms(1) keys(1) by (simp add: map_of_eq_Some_iff)
  show ?thesis
  proof (cases "k \<in> {v_of_u8 vo (gp_PlayerCount wc), v_of_u8 vo (gp_IsOpen wc), v_of_u8 vo (gp_MaxPlayers wc)}")
    case True
    with m keys(2-4) show ?thesis using count is_open maximum by auto
  next
    case False
    with m have "\<exists>s\<in>set (g_lobby_props g). k = v_of_string vo s \<and> map_of (g_custom_props g) k = Some v"
      unfolding get_lobby_game_props_def Let_def lobby_fold_lookup by (auto split: if_splits)
    with custom show ?thesis by blast
  qed
qed


section \<open>Taking an update\<close>

lemma fold_remove1_self: "fold remove1 xs (xs @ ys) = ys"
  by (induction xs) auto

lemma remove_all_expected:
  "g_expected_users (fold remove_expected_user us g) = fold remove1 us (g_expected_users g)"
  by (induction us arbitrary: g) simp_all

text \<open>The fields an update sets, which the exchange of reservations leaves alone.\<close>

definition shown_fields where
  "shown_fields g = ((g_is_created g, g_is_creating g, g_is_visible g, g_is_open g, g_max_peers g, g_state_revision g),
     g_peers g, g_dummy_peer_count g, g_custom_props g, g_lobby_props g, g_flags g, g_id g)"

lemma reservation_fields:
  "shown_fields (remove_expected_user u g) = shown_fields g"
  "shown_fields (fst (snd (reserve_expected_user u t g))) = shown_fields g"
  by (auto simp: shown_fields_def remove_expected_user_def drop_reservation_def note_removed_def reserve_expected_user_def
      reserve_expected_user_with_generation_def add_reservation_def Let_def split: option.split)

lemma replace_expected_fields:
  assumes "replace_expected users g = (g', ts)"
  shows "shown_fields g' = shown_fields g" "set (g_expected_users g') = set users - {[]}"
proof -
  have rem: "shown_fields (fold remove_expected_user us h) = shown_fields h" for us and h :: "'a game"
    by (induction us arbitrary: h) (simp_all add: reservation_fields)
  have res: "shown_fields h' = shown_fields h \<and> set (g_expected_users h') = set (g_expected_users h) \<union> (set us - {[]})"
    if "fold (\<lambda>u (g, ts). case reserve_expected_user u 30000 g of (ok, g', ts') \<Rightarrow> (g', ts @ ts')) us (h, ts0) = (h', ts1)"
    for us ts0 ts1 and h h' :: "'a game"
    using that
  proof (induction us arbitrary: h ts0)
    case (Cons u us)
    obtain ok h1 ts2 where r: "reserve_expected_user u 30000 h = (ok, h1, ts2)" by (metis prod_cases3)
    with reservation_fields(2) [of u 30000 h] have f: "shown_fields h1 = shown_fields h" by simp
    have "set (g_expected_users h1) = set (g_expected_users h) \<union> ({u} - {[]})"
      using r by (auto simp: reserve_expected_user_def reserve_expected_user_with_generation_def Let_def split: if_splits)
    with f Cons.IH [of h1 "ts0 @ ts2"] Cons.prems r show ?case by auto
  qed simp
  have "g_expected_users (fold remove_expected_user (g_expected_users g) g) = []"
    using remove_all_expected [of "g_expected_users g" g] fold_remove1_self [of "g_expected_users g" "[]"] by simp
  with assms res [of users _ "[]" g' ts] rem show "shown_fields g' = shown_fields g" "set (g_expected_users g') = set users - {[]}"
    unfolding replace_expected_def by fastforce+
qed

lemma insert_entries_keep:
  "g_dummy_peer_count (fst (insert_entries vo wc cfg dn es (g, ul, ch))) = g_dummy_peer_count g
   \<and> g_id (fst (insert_entries vo wc cfg dn es (g, ul, ch))) = g_id g
   \<and> g_state_revision (fst (insert_entries vo wc cfg dn es (g, ul, ch))) = g_state_revision g"
proof (induction es arbitrary: g ul ch)
  case (Cons e es)
  obtain key v where e: "e = (key, v)" by force
  obtain g' c sh where i: "insert_entry vo wc cfg dn key v g = (g', c, sh)" by (metis prod_cases3)
  let ?same = "\<lambda>h. g_dummy_peer_count h = g_dummy_peer_count g \<and> g_id h = g_id g \<and> g_state_revision h = g_state_revision g"
  have slot: "?same (fst (slot_store vo s v g))" for s
    by (cases s) (simp_all split: option.split)
  have "?same (fst (insert_entry vo wc cfg dn key v g))"
    by (cases rule: store_custom_cases [of vo dn key v g])
      (simp_all add: insert_entry_alt store_prop_alt slot split: option.split)
  with Cons i show ?case by (simp add: e)
qed simp



text \<open>What it means for an entry to be absorbed, for the entries of a message.\<close>

lemma absorbed_meaning:
  assumes "value_laws vo" "codes_laws wc"
  shows "absorbed vo wc cfg dn g (v_of_u8 vo (gp_IsOpen wc), v_of_bool vo b) \<longleftrightarrow> g_is_open g = b"
    "absorbed vo wc cfg dn g (v_of_u8 vo (gp_MaxPlayers wc), v_of_u8 vo n) \<longleftrightarrow> g_max_peers g = n"
    "absorbed vo wc cfg dn g (v_of_u8 vo (gp_PlayerCount wc), x)"
    "string_values vo \<Longrightarrow> absorbed vo wc cfg dn g (v_of_string vo s, x) \<longleftrightarrow> map_of (g_custom_props g) (v_of_string vo s) = Some x"
proof -
  have d: "distinct (well_known_keys wc)" using assms(2) by (simp add: codes_laws_def)
  have slots: "prop_slot_of wc (gp_IsOpen wc) = Some IsOpen" "prop_slot_of wc (gp_MaxPlayers wc) = Some MaxPlayers"
    "prop_slot_of wc (gp_PlayerCount wc) = None"
    using d by (auto simp: well_known_keys_def prop_slot_of_def)
  have u: "v_u8 vo (v_of_u8 vo k) = Some k" "v_bool vo (v_of_bool vo b) = Some b" for k b
    using assms(1) by (simp_all add: value_laws_def)
  show "absorbed vo wc cfg dn g (v_of_u8 vo (gp_IsOpen wc), v_of_bool vo b) \<longleftrightarrow> g_is_open g = b"
    "absorbed vo wc cfg dn g (v_of_u8 vo (gp_MaxPlayers wc), v_of_u8 vo n) \<longleftrightarrow> g_max_peers g = n"
    "absorbed vo wc cfg dn g (v_of_u8 vo (gp_PlayerCount wc), x)"
    by (simp_all add: absorbed_def insert_entry_alt store_prop_alt u slots)
  show "absorbed vo wc cfg dn g (v_of_string vo s, x) \<longleftrightarrow> map_of (g_custom_props g) (v_of_string vo s) = Some x" if "string_values vo"
    using that by (simp add: absorbed_def insert_entry_alt store_custom_def string_values_def)
qed

text \<open>The room an update is applied to, with its state, reservations and member count taken over.\<close>

lemma apply_update_parts:
  assumes "apply_update vo wc cfg is_new (update_message vo wc info g0) g = Some (g', fx, ts)" "value_laws vo" "codes_laws wc"
  obtains g3 where "insert_game_props vo wc cfg (get_lobby_game_props vo wc g0) g3 = (g', fx)"
    "g_is_created g3 = g_is_created g0" "g_is_creating g3 = g_is_creating g0" "g_is_visible g3 = g_is_visible g0"
    "0 \<le> sint (g_state_revision g0) \<Longrightarrow> g_state_revision g3 = g_state_revision g0"
    "g_dummy_peer_count g3 = player_count g0" "g_peers g3 = g_peers g" "g_custom_props g3 = g_custom_props g"
    "g_lobby_props g3 = g_lobby_props g" "g_is_open g3 = g_is_open g" "g_max_peers g3 = g_max_peers g"
    "set (g_expected_users g3) = set (g_expected_users g0) - {[]}" "g_flags g3 = g_flags g"
proof -
  let ?m = "update_message vo wc info g0"
  obtain g2 ts2 where r: "replace_expected (g_expected_users g0) (take_state ?m g) = (g2, ts2)" by force
  define g3 where "g3 = take_peer_count vo wc (get_lobby_game_props vo wc g0) g2"
  have i: "insert_game_props vo wc cfg (get_lobby_game_props vo wc g0) g3 = (g', fx)"
    using assms(1) r by (auto simp: apply_update_def update_message_def g3_def Let_def split: if_splits prod.splits)
  have u: "v_u8 vo (v_of_u8 vo k) = Some k" for k using assms(2) by (simp add: value_laws_def)
  have g3: "g3 = g2\<lparr> g_dummy_peer_count := player_count g0 \<rparr>"
    by (simp add: g3_def take_peer_count_def lobby_game_props_keys [OF assms(2,3)] u)
  have state: "g_is_created (take_state ?m g) = g_is_created g0" "g_is_creating (take_state ?m g) = g_is_creating g0"
    "g_is_visible (take_state ?m g) = g_is_visible g0" "g_peers (take_state ?m g) = g_peers g"
    "g_custom_props (take_state ?m g) = g_custom_props g" "g_lobby_props (take_state ?m g) = g_lobby_props g"
    "g_is_open (take_state ?m g) = g_is_open g" "g_max_peers (take_state ?m g) = g_max_peers g" "g_flags (take_state ?m g) = g_flags g"
    "0 \<le> sint (g_state_revision g0) \<Longrightarrow> g_state_revision (take_state ?m g) = g_state_revision g0"
    by (simp_all add: take_state_def update_message_def message_revision_def Let_def)
  from replace_expected_fields [OF r] have f: "shown_fields g2 = shown_fields (take_state ?m g)"
    "set (g_expected_users g2) = set (g_expected_users g0) - {[]}" by simp_all
  show ?thesis by (rule that [OF i]) (use f state g3 in \<open>simp_all add: shown_fields_def\<close>)
qed

section \<open>Properties\<close>


text \<open>
  An update that says of a room what the room is already notifies nobody and is not sent
  on, so processes do not answer each other's updates forever.
\<close>

theorem echo_is_silent:
  assumes "value_laws vo" "codes_laws wc" "string_values vo" "0 \<le> sint (g_state_revision g)"
  shows "\<exists>g' ts. apply_update vo wc cfg is_new (update_message vo wc info g) g = Some (g', [], ts)
    \<and> g_state_revision g' = g_state_revision g \<and> g_custom_props g' = g_custom_props g"
proof -
  have "apply_update vo wc cfg is_new (update_message vo wc info g) g \<noteq> None"
    using assms(4) by (auto simp: apply_update_def update_message_def message_revision_def Let_def split: prod.splits)
  then obtain g' fx ts where r: "apply_update vo wc cfg is_new (update_message vo wc info g) g = Some (g', fx, ts)"
    by (metis not_None_eq prod_cases3)
  obtain g3 where i: "insert_game_props vo wc cfg (get_lobby_game_props vo wc g) g3 = (g', fx)"
    and g3: "g_state_revision g3 = g_state_revision g" "g_custom_props g3 = g_custom_props g"
      "g_is_open g3 = g_is_open g" "g_max_peers g3 = g_max_peers g"
    by (rule apply_update_parts [OF r assms(1,2)]) (use assms(4) in blast)
  have "absorbed vo wc cfg dn g3 x" if "x \<in> set (get_lobby_game_props vo wc g)" for x dn
  proof -
    obtain k v where x: "x = (k, v)" by force
    from that [unfolded x] assms(1,2) show ?thesis
      unfolding x by (cases rule: lobby_game_props_entry) (simp_all add: absorbed_meaning [OF assms(1,2)] assms(3) g3)
  qed
  then have "insert_entries vo wc cfg (has_flag (g_flags g3) (f_DeleteNullProps wc)) (get_lobby_game_props vo wc g) (g3, False, False)
      = (g3, False, False)" by (intro insert_entries_absorbed_noop) blast
  from insert_game_props_eval [OF this] i have "g' = g3" "fx = []" by simp_all
  with r g3 show ?thesis by auto
qed




section \<open>The external rooms\<close>

lemma insert_game_props_id: "insert_game_props vo wc cfg es g = (g', fx) \<Longrightarrow> g_id g' = g_id g"
  using insert_entries_keep [of vo wc cfg "has_flag (g_flags g) (f_DeleteNullProps wc)" es g False False]
  by (auto simp: insert_game_props_def Let_def split: prod.splits if_splits)

lemma apply_update_id: "apply_update vo wc cfg is_new m g = Some (g', fx, ts) \<Longrightarrow> g_id g' = g_id g"
proof -
  assume a: "apply_update vo wc cfg is_new m g = Some (g', fx, ts)"
  obtain g2 ts2 where r: "(case gm_expected m of None \<Rightarrow> (take_state m g, []) | Some users \<Rightarrow> replace_expected users (take_state m g)) = (g2, ts2)"
    by force
  have "g_id (take_state m g) = g_id g" by (simp add: take_state_def Let_def split: option.split)
  with r replace_expected_fields(1) have "g_id g2 = g_id g"
    by (fastforce simp: shown_fields_def split: option.splits)
  moreover have "g_id (take_peer_count vo wc props g2) = g_id g2" for props by (simp add: take_peer_count_def split: option.split)
  ultimately show ?thesis using a r insert_game_props_id
    by (fastforce simp: apply_update_def Let_def split: if_splits option.splits prod.splits)
qed

lemma update_room_steps:
  assumes "update_room e is_new m r w = (es, w')"
  shows "world_step\<^sup>*\<^sup>* w w'" "dom (w_game w') = dom (w_game w)"
proof -
  have "world_step\<^sup>*\<^sup>* w w' \<and> dom (w_game w') = dom (w_game w)"
  proof (cases "w' = w")
    case False
    with assms obtain room g fx ts where g: "w_game w r = Some room" "w' = set_game r g w"
      "apply_update (pe_vo e) (pe_wc e) (room_settings w r) is_new m (rm_game room) = Some (g, fx, ts)"
      by (auto simp: update_room_def Let_def split: option.splits)
    from r_into_rtranclp [of world_step, OF room_changed [OF g(1) apply_update_id [OF g(3)]]] g(1,2) show ?thesis
      by (auto simp: set_game_def)
  qed simp
  then show "world_step\<^sup>*\<^sup>* w w'" "dom (w_game w') = dom (w_game w)" by simp_all
qed

text \<open>At most one live room matches.\<close>

lemma matches_unique:
  assumes "registry_inv w" "matches_game_info w info r" "matches_game_info w info q"
  shows "r = q"
proof -
  obtain m lb ap where r: "w_game w r = Some m" "w_lobby w (rm_lobby m) = Some lb" "w_app w (lb_app lb) = Some ap"
    "gn_id info = g_id (rm_game m)" "gn_app info = ap_id ap" "gn_version info = ap_version ap"
    using assms(2) by (auto simp: matches_game_info_def split: option.splits)
  obtain n lb' ap' where q: "w_game w q = Some n" "w_lobby w (rm_lobby n) = Some lb'" "w_app w (lb_app lb') = Some ap'"
    "gn_id info = g_id (rm_game n)" "gn_app info = ap_id ap'" "gn_version info = ap_version ap'"
    using assms(3) by (auto simp: matches_game_info_def split: option.splits)
  note D = registry_invD [OF assms(1)]
  have "lb_app lb = lb_app lb'"
    using indexes_find [OF D(1) r(3)] indexes_find [OF D(1) q(3)] r(5,6) q(5,6) by (simp add: app_key_def)
  then have "room_app w m = Some (lb_app lb)" "room_app w n = Some (lb_app lb)" using r q by (simp_all add: room_app_def)
  with indexes_find [OF D(3) [OF r(3)]] r q show ?thesis by (metis option.inject room_id_def)
qed

lemma refused_update_steps:
  assumes "world_reach w" "app_get db gmax i v w = (Some a, w1)" "get_lobby a k w1 = (Some l, w2)"
  shows "world_step\<^sup>*\<^sup>* w (release_app a w (release_lobby l w w2))" "w_game (release_app a w (release_lobby l w w2)) = w_game w"
proof -
  note inv = world_reach_inv [OF assms(1)]
  note inv1 = app_get_inv [OF inv assms(2)]
  have same: "w_lobby w1 = w_lobby w" "w_game w1 = w_game w" using inv assms(2) by (cases rule: app_get_cases; simp)+
  obtain ap where ap: "w_app w1 a = Some ap" using inv assms(2) by (rule app_get_live)
  have s1: "world_step\<^sup>*\<^sup>* w w1" by (rule r_into_rtranclp) (rule app_got [OF assms(2)])
  have s2: "world_step\<^sup>*\<^sup>* w w2" using s1 lobby_got [OF ap assms(3)] by (rule rtranclp.rtrancl_into_rtrancl)
  from inv1 ap assms(3) have "world_step\<^sup>*\<^sup>* w (release_app a w (release_lobby l w w2))
      \<and> w_game (release_app a w (release_lobby l w w2)) = w_game w"
  proof (cases rule: get_lobby_cases)
    case (found l' lb)
    with same registry_invD(5) [OF inv] have "w_lobby w l \<noteq> None" "w_app w a \<noteq> None" by auto
    with found s1 same show ?thesis by (auto simp: release_app_def release_lobby_def)
  next
    case made
    have l: "l = w_next w1" "w_lobby w l = None" using made(2) registry_invD(8) [OF inv1, of l] same by auto
    have empty: "rm_lobby m \<noteq> l" if "w_game w r = Some m" for r m using registry_invD(7) [OF inv that] l(2) by auto
    let ?w3 = "destroy_lobby l w2"
    have w3: "w_game ?w3 = w_game w" "w_lobby ?w3 = w_lobby w" "w_app ?w3 a \<noteq> None"
      using made l same by (simp_all add: destroy_lobby_def put_app_def put_lobby_def fun_eq_iff)
    obtain lb where "w_lobby w2 l = Some lb" using made l by (simp add: put_app_def put_lobby_def)
    from lobby_gone [OF this] empty made same have "world_step w2 ?w3" by (simp add: put_app_def put_lobby_def)
    with s2 have s3: "world_step\<^sup>*\<^sup>* w ?w3" by (rule rtranclp.rtrancl_into_rtrancl)
    have "world_step\<^sup>*\<^sup>* w (release_app a w ?w3) \<and> w_game (release_app a w ?w3) = w_game w"
    proof (cases "w_app w a")
      case None
      have "lb_app lb \<noteq> a" if "w_lobby ?w3 x = Some lb" for x lb
        using that w3(2) registry_invD(5) [OF inv] None by fastforce
      moreover from w3(3) obtain ap3 where "w_app ?w3 a = Some ap3" by blast
      ultimately have "world_step ?w3 (destroy_app a ?w3)" by (blast intro: app_gone)
      with s3 None w3 show ?thesis
        by (auto simp: release_app_def destroy_app_def split: option.splits intro: rtranclp.rtrancl_into_rtrancl)
    qed (use s3 w3 in \<open>simp add: release_app_def\<close>)
    with l show ?thesis by (simp add: release_lobby_def)
  qed
  then show "world_step\<^sup>*\<^sup>* w (release_app a w (release_lobby l w w2))" "w_game (release_app a w (release_lobby l w w2)) = w_game w"
    by simp_all
qed

lemma create_game_found:
  assumes "registry_inv w" "w_lobby w l = Some lb" "w_app w (lb_app lb) = Some ap" "ap_id ap = gn_app info" "ap_version ap = gn_version info"
    "create_game l (gn_id info) address True w = Some (Inr (Some r), us, w')" "w_game w r \<noteq> None"
  shows "matches_game_info w info r"
proof -
  have "r \<noteq> w_next w" using registry_invD(8) [OF assms(1), of r] assms(7) by auto
  then have "map_of (ap_games ap) (gn_id info) = Some r"
    using assms(2,3,6) by (auto simp: create_game_def Let_def split: option.splits if_splits)
  from indexesD [OF registry_invD(3) [OF assms(1,3)] this] obtain m where
    m: "w_game w r = Some m" "room_app w m = Some (lb_app lb)" "room_id m = gn_id info" by blast
  then obtain lb' where "w_lobby w (rm_lobby m) = Some lb'" "lb_app lb' = lb_app lb" by (auto simp: room_app_def)
  with m assms(3-5) show ?thesis by (simp add: matches_game_info_def room_id_def)
qed

lemma looked_up_lobby:
  assumes "world_reach w" "app_get db gmax i v w = (Some a, w1)" "get_lobby a k w1 = (Some l, w2)"
  shows "world_reach w2" "world_step\<^sup>*\<^sup>* w w2" "w_game w2 = w_game w"
    "\<exists>lb ap. w_lobby w2 l = Some lb \<and> lb_app lb = a \<and> w_app w2 a = Some ap \<and> ap_id ap = i \<and> ap_version ap = v"
    "matches_game_info w2 info r \<Longrightarrow> w_game w r \<noteq> None \<Longrightarrow> matches_game_info w info r"
    "matches_game_info w info r \<Longrightarrow> matches_game_info w2 info r"
proof -
  note inv = world_reach_inv [OF assms(1)]
  note inv1 = app_get_inv [OF inv assms(2)]
  have old: "w_lobby w1 = w_lobby w" "w_game w1 = w_game w" "\<And>b. w_app w b \<noteq> None \<Longrightarrow> w_app w1 b = w_app w b"
    using inv assms(2) by (cases rule: app_get_cases; use registry_invD(8) [OF inv] in force)+
  obtain ap where ap: "w_app w1 a = Some ap" "ap_id ap = i" "ap_version ap = v" using inv assms(2) by (rule app_get_live)
  show steps: "world_step\<^sup>*\<^sup>* w w2"
    using r_into_rtranclp [of world_step, OF app_got [OF assms(2)]] lobby_got [OF ap(1) assms(3)] by (rule rtranclp.rtrancl_into_rtrancl)
  with assms(1) show "world_reach w2" by (blast intro: world_steps_reach)
  from inv1 ap(1) assms(3) have "w_game w2 = w_game w
      \<and> (\<exists>lb ap. w_lobby w2 l = Some lb \<and> lb_app lb = a \<and> w_app w2 a = Some ap \<and> ap_id ap = i \<and> ap_version ap = v)
      \<and> (\<forall>x. w_lobby w x \<noteq> None \<longrightarrow> w_lobby w2 x = w_lobby w x)
      \<and> (\<forall>b p. w_app w b = Some p \<longrightarrow> (\<exists>q. w_app w2 b = Some q \<and> ap_id q = ap_id p \<and> ap_version q = ap_version p))"
  proof (cases rule: get_lobby_cases)
    case (found l' lb)
    with ap old show ?thesis by auto
  next
    case made
    have "w_lobby w (w_next w1) = None" using registry_invD(8) [OF inv1, of "w_next w1"] old by simp
    with made ap old show ?thesis by (auto simp: put_app_def put_lobby_def)
  qed
  then have w2: "w_game w2 = w_game w"
    "\<exists>lb ap. w_lobby w2 l = Some lb \<and> lb_app lb = a \<and> w_app w2 a = Some ap \<and> ap_id ap = i \<and> ap_version ap = v"
    "\<And>x. w_lobby w x \<noteq> None \<Longrightarrow> w_lobby w2 x = w_lobby w x"
    "\<And>b p. w_app w b = Some p \<Longrightarrow> \<exists>q. w_app w2 b = Some q \<and> ap_id q = ap_id p \<and> ap_version q = ap_version p" by blast+
  from w2(1,2) show "w_game w2 = w_game w"
    "\<exists>lb ap. w_lobby w2 l = Some lb \<and> lb_app lb = a \<and> w_app w2 a = Some ap \<and> ap_id ap = i \<and> ap_version ap = v" by simp_all
  show "matches_game_info w info r" if match: "matches_game_info w2 info r" and "w_game w r \<noteq> None"
  proof -
    from that(2) obtain m where m: "w_game w r = Some m" by blast
    then obtain lb where lb: "w_lobby w (rm_lobby m) = Some lb" using registry_invD(7) [OF inv] by blast
    then obtain p where p: "w_app w (lb_app lb) = Some p" using registry_invD(5) [OF inv] by blast
    from match w2(1) w2(3) [of "rm_lobby m"] w2(4) [OF p] m lb p show ?thesis by (auto simp: matches_game_info_def)
  qed
  show "matches_game_info w2 info r" if matched: "matches_game_info w info r"
  proof -
    obtain m lb p where m: "w_game w r = Some m" "w_lobby w (rm_lobby m) = Some lb" "w_app w (lb_app lb) = Some p"
        "gn_id info = g_id (rm_game m)" "gn_app info = ap_id p" "gn_version info = ap_version p"
      using matched by (auto simp: matches_game_info_def split: option.splits)
    with w2(1) w2(3) [of "rm_lobby m"] w2(4) [OF m(3)] show ?thesis by (auto simp: matches_game_info_def)
  qed
qed

lemma update_tracks:
  assumes "world_reach (pc_world pr)" "distinct ext" "\<forall>r\<in>set ext. w_game (pc_world pr) r \<noteq> None"
    "receive_game_update e m (ext, pr) = (es, ext', pr')"
  shows "registry_inv (pc_world pr') \<and> distinct ext' \<and> (\<forall>r\<in>set ext'. w_game (pc_world pr') r \<noteq> None)
    \<and> (\<exists>new. ext' = ext @ new \<and> length new \<le> 1)"
proof -
  let ?w = "pc_world pr" and ?info = "gm_info m"
  note inv = world_reach_inv [OF assms(1)]
  have done_same: ?thesis if "world_step\<^sup>*\<^sup>* ?w (pc_world pr')" "dom (w_game (pc_world pr')) = dom (w_game ?w)" "ext' = ext"
    using world_reach_inv [OF world_steps_reach [OF that(1) assms(1)]] that(2,3) assms(2,3) by auto
  show ?thesis
  proof (cases "List.find (matches_game_info ?w ?info) ext")
    case (Some r)
    obtain fs w1 where u: "update_room e False m r ?w = (fs, w1)" by force
    with assms(4) Some have "ext' = ext" "pc_world pr' = w1" by (auto simp: receive_game_update_def Let_def)
    with update_room_steps [OF u] show ?thesis by (intro done_same) simp_all
  next
    case unknown: None
    obtain ao w1 where g: "app_get (pe_db e) (pe_max_game_peers e) (gn_app ?info) (gn_version ?info) ?w = (ao, w1)" by force
    show ?thesis
    proof (cases ao)
      case None
      with assms(4) unknown g have "ext' = ext" "pc_world pr' = w1" by (auto simp: receive_game_update_def Let_def)
      moreover have "w_game w1 = w_game ?w" using inv g by (cases rule: app_get_cases) simp_all
      ultimately show ?thesis using app_got [OF g] by (intro done_same) auto
    next
      case (Some a)
      note g = g [unfolded Some]
      obtain lo w2 where gl: "get_lobby a (gn_lobby ?info, gn_lobby_type ?info) w1 = (lo, w2)" by force
      obtain ap where ap: "w_app w1 a = Some ap" using inv g by (rule app_get_live)
      obtain l where lo: "lo = Some l" using app_get_inv [OF inv g] ap gl by (cases rule: get_lobby_cases) auto
      note look = looked_up_lobby [OF assms(1) g gl [unfolded lo]] and refuse = refused_update_steps [OF assms(1) g gl [unfolded lo]]
      show ?thesis
      proof (cases "\<exists>r us w3. gn_server_address ?info \<noteq> [] \<and>
          create_game l (gn_id ?info) (gn_server_address ?info) True w2 = Some (Inr (Some r), us, w3)")
        case False
        with assms(4) unknown g gl lo have "ext' = ext" "pc_world pr' = release_app a ?w (release_lobby l ?w w2)"
          by (auto simp: receive_game_update_def Let_def split: if_splits option.splits prod.splits sum.splits)
        with refuse show ?thesis by (intro done_same) simp_all
      next
        case True
        then obtain r us w3 where c: "gn_server_address ?info \<noteq> []"
          "create_game l (gn_id ?info) (gn_server_address ?info) True w2 = Some (Inr (Some r), us, w3)" by blast
        obtain fs w4 where u: "update_room e True m r w3 = (fs, w4)" by force
        from assms(4) unknown g gl lo c u have r: "ext' = ext @ [r]" "pc_world pr' = w4"
          by (auto simp: receive_game_update_def Let_def)
        have steps: "world_step\<^sup>*\<^sup>* ?w w4"
          using look(2) room_made [OF c(2)] update_room_steps(1) [OF u] by (meson rtranclp.rtrancl_into_rtrancl rtranclp_trans)
        have fresh: "r \<notin> set ext"
        proof
          assume "r \<in> set ext"
          with assms(3) have live: "w_game ?w r \<noteq> None" by blast
          obtain lb ap2 where "w_lobby w2 l = Some lb" "w_app w2 (lb_app lb) = Some ap2" "ap_id ap2 = gn_app ?info"
            "ap_version ap2 = gn_version ?info" using look(4) by blast
          from create_game_found [OF world_reach_inv [OF look(1)] this c(2)] live look(3,5) have "matches_game_info ?w ?info r" by simp
          with unknown \<open>r \<in> set ext\<close> show False by (auto simp: List.find_None_iff)
        qed
        have grown: "dom (w_game w2) \<subseteq> dom (w_game w3) \<and> w_game w3 r \<noteq> None"
          using c(2) by (cases rule: create_game_cases) auto
        with update_room_steps(2) [OF u] look(3) have "dom (w_game ?w) \<subseteq> dom (w_game w4)" "w_game w4 r \<noteq> None"
          by auto
        with r fresh assms(2,3) world_reach_inv [OF world_steps_reach [OF steps assms(1)]] show ?thesis by auto
      qed
    qed
  qed
qed

lemma delete_tracks:
  assumes "world_reach (pc_world pr)" "distinct ext" "\<forall>r\<in>set ext. w_game (pc_world pr) r \<noteq> None"
    "receive_game_delete held info (ext, pr) = (fs, ext', pr')"
  shows "registry_inv (pc_world pr') \<and> distinct ext' \<and> (\<forall>r\<in>set ext'. w_game (pc_world pr') r \<noteq> None)
    \<and> (\<forall>r\<in>set ext'. \<not> matches_game_info (pc_world pr) info r)"
proof (cases "List.find (matches_game_info (pc_world pr) info) ext")
  case None
  with assms world_reach_inv [OF assms(1)] show ?thesis by (simp add: receive_game_delete_def List.find_None_iff)
next
  case (Some r)
  then have r: "r \<in> set ext" "matches_game_info (pc_world pr) info r" by (auto simp: List.find_Some_iff)
  with assms(3) obtain m where m: "w_game (pc_world pr) r = Some m" by blast
  let ?w1 = "set_game r ((rm_game m)\<lparr> g_empty_game_ttl := 0 \<rparr>) (pc_world pr)"
  have s1: "world_step\<^sup>*\<^sup>* (pc_world pr) ?w1" by (rule r_into_rtranclp) (rule room_changed [OF m], simp)
  have d1: "w_game ?w1 x = None \<longleftrightarrow> w_game (pc_world pr) x = None" for x using m by (auto simp: set_game_def)
  have ext: "ext' = remove1 r ext"
    using assms(4) Some m by (auto simp: receive_game_delete_def Let_def split: if_splits option.splits)
  have "world_step\<^sup>*\<^sup>* (pc_world pr) (pc_world pr')
      \<and> (\<forall>x. x \<noteq> r \<longrightarrow> w_game (pc_world pr) x \<noteq> None \<longrightarrow> w_game (pc_world pr') x \<noteq> None)"
  proof (cases "held r")
    case True
    with assms(4) Some m have "pc_world pr' = ?w1" by (auto simp: receive_game_delete_def Let_def)
    with s1 show ?thesis by (simp only: d1) simp
  next
    case False
    show ?thesis
    proof (cases "destroy_game r ?w1")
      case None
      with False assms(4) Some m have "pc_world pr' = ?w1" by (auto simp: receive_game_delete_def Let_def)
      with s1 show ?thesis by (simp only: d1) simp
    next
      case d: (Some x)
      obtain us w2 where x: "x = (us, w2)" by force
      from d x have gone: "w_game w2 = (w_game ?w1)(r := None)"
        by (auto simp: destroy_game_def Let_def split: option.splits)
      from False assms(4) Some m d x have "pc_world pr' = w2" by (auto simp: receive_game_delete_def Let_def)
      moreover have "world_step\<^sup>*\<^sup>* (pc_world pr) w2" using s1 room_gone [OF d [unfolded x]] by (rule rtranclp.rtrancl_into_rtrancl)
      moreover have "w_game w2 x \<noteq> None" if "x \<noteq> r" "w_game (pc_world pr) x \<noteq> None" for x
        using that d1 [of x] gone by simp
      ultimately show ?thesis by blast
    qed
  qed
  then have w': "world_reach (pc_world pr')" "\<And>x. x \<noteq> r \<Longrightarrow> w_game (pc_world pr) x \<noteq> None \<Longrightarrow> w_game (pc_world pr') x \<noteq> None"
    using world_steps_reach assms(1) by blast+
  have others: "q \<in> set ext' \<longleftrightarrow> q \<in> set ext \<and> q \<noteq> r" for q using ext assms(2) by simp
  with w' assms(3) have "\<forall>q\<in>set ext'. w_game (pc_world pr') q \<noteq> None" by blast
  moreover have "\<forall>q\<in>set ext'. \<not> matches_game_info (pc_world pr) info q"
    using others matches_unique [OF world_reach_inv [OF assms(1)] r(2)] by blast
  ultimately show ?thesis using world_reach_inv [OF w'(1)] ext assms(2) by simp
qed

text \<open>
  C25: The external rooms of a process stay live rooms of its registry, each held once,
  whatever updates and deletions arrive and however much of an update is missing or refused.
  An update drops none and adds at most one; after a deletion no external room matches it,
  so that a later update makes a new one.
\<close>

theorem replicas_tracked:
  assumes "world_reach (pc_world pr)" "distinct ext" "\<forall>r\<in>set ext. w_game (pc_world pr) r \<noteq> None"
    "receive_game_update e m (ext, pr) = (es, ext1, pr1)" "receive_game_delete held info (ext, pr) = (fs, ext2, pr2)"
  shows "(registry_inv (pc_world pr1) \<and> distinct ext1 \<and> (\<forall>r\<in>set ext1. w_game (pc_world pr1) r \<noteq> None)
            \<and> (\<exists>new. ext1 = ext @ new \<and> length new \<le> 1))
    \<and> (registry_inv (pc_world pr2) \<and> distinct ext2 \<and> (\<forall>r\<in>set ext2. w_game (pc_world pr2) r \<noteq> None)
            \<and> (\<forall>r\<in>set ext2. \<not> matches_game_info (pc_world pr) info r))"
  using update_tracks [OF assms(1-4)] delete_tracks [OF assms(1-3,5)] by simp


section \<open>Samples\<close>

definition sample_origin :: "sample_value game" where
  "sample_origin = (new_game 0 ''room'' ''addr'')\<lparr> g_is_created := True, g_max_peers := 4 \<rparr>"

definition sample_info :: game_info where
  "sample_info = no_game_info\<lparr> gn_id := ''room'', gn_app := ''app'', gn_version := ''1'', gn_server_address := ''addr'' \<rparr>"

definition sample_update :: "sample_value game_message" where
  "sample_update = update_message sample_ops sample_codes sample_info sample_origin"



lemma echo_is_silent_witness:
  "\<exists>g' ts. apply_update sample_ops sample_codes default_app_settings False (update_message sample_ops sample_codes no_game_info sample_origin)
     sample_origin = Some (g', [], ts)"
proof -
  have "0 \<le> sint (g_state_revision sample_origin)" by (simp add: sample_origin_def new_game_def)
  from echo_is_silent [OF sample_ops_laws sample_codes_laws sample_string_values this] show ?thesis by blast
qed


definition sample_replica_env :: "sample_value replica_env" where
  "sample_replica_env = \<lparr> pe_vo = sample_ops, pe_wc = sample_codes, pe_db = Some (\<lambda>_. Some sample_settings), pe_max_game_peers = 0 \<rparr>"

lemma replicas_tracked_witness:
  "\<exists>es ext pr. receive_game_update sample_replica_env sample_update ([], \<lparr> pc_world = sample_lobby_world, pc_store = empty_store \<rparr>) = (es, ext, pr)
     \<and> registry_inv (pc_world pr) \<and> length ext \<le> 1"
proof -
  let ?s = "([], \<lparr> pc_world = sample_lobby_world, pc_store = empty_store \<rparr>)"
  obtain es ext pr where u: "receive_game_update sample_replica_env sample_update ?s = (es, ext, pr)" by (metis prod_cases3)
  obtain fs ext2 pr2 where d: "receive_game_delete (\<lambda>_. False) no_game_info ?s = (fs, ext2, pr2)" by (metis prod_cases3)
  from replicas_tracked [OF _ _ _ u d] sample_worlds(1) u show ?thesis by auto
qed
end
