(* ===== verification/HostMem.thy ===== *)
theory HostMem
  imports Prelude "HOL-Library.Monad_Syntax"
begin

text \<open>
  The linear memory of the WebAssembly guest as the host shims in
  \<^theory_text>\<open>WASMImpl/C\<close> see it: a byte array they read and write through raw
  pointers \<^theory_text>\<open>mem + offset\<close>. An access outside the array has no defined result
  in C; here it is \<^theory_text>\<open>None\<close>, so that a shim that is not memory safe on some
  input is a function that returns \<^theory_text>\<open>None\<close> there. Pointers are 64 bits wide on
  the host, so \<^theory_text>\<open>mem + offset\<close> does not wrap; the checks the shims do are on
  32-bit unsigned sums, which do. Multi-byte accesses are little-endian.
\<close>

type_synonym bytes = "u8 list"

section \<open>Little-endian words\<close>

definition le_encode :: "nat \<Rightarrow> 'a::len word \<Rightarrow> bytes" where
  "le_encode n w = map (\<lambda>i. ucast (drop_bit (8 * i) w)) [0..<n]"

definition le_decode :: "bytes \<Rightarrow> 'a::len word" where
  "le_decode bs = foldr (\<lambda>b acc. push_bit 8 acc OR ucast b) bs 0"

lemma le_encode_length [simp]: "length (le_encode n w) = n"
  by (simp add: le_encode_def)

lemma le_encode_Suc:
  "le_encode (Suc n) w = ucast w # le_encode n (drop_bit 8 w)"
proof -
  have "map (\<lambda>i. ucast (drop_bit (8 * i) w)) [0..<Suc n]
      = ucast (drop_bit (8 * 0) w) # map (\<lambda>i. ucast (drop_bit (8 * Suc i) w)) [0..<n]"
    by (simp only: map_upt_Suc)
  then show ?thesis by (simp add: le_encode_def ac_simps)
qed

lemma le_encode_0 [simp]: "le_encode 0 w = []"
  by (simp add: le_encode_def)

lemma le_decode_simps [simp]:
  "le_decode [] = 0"
  "le_decode (b # bs) = push_bit 8 (le_decode bs) OR ucast b"
  by (simp_all add: le_decode_def)

lemma le_decode_encode_take: "le_decode (le_encode n w) = take_bit (8 * n) (w :: 'a::len word)"
proof (induction n arbitrary: w)
  case 0
  show ?case by simp
next
  case (Suc n)
  have "push_bit 8 (take_bit (8 * n) (drop_bit 8 w)) OR ucast (ucast w :: u8) = take_bit (8 * Suc n) w"
    by (rule bit_word_eqI) (auto simp: bit_simps)
  then show ?case by (simp add: le_encode_Suc Suc)
qed

lemma le_decode_encode [simp]:
  "LENGTH('a) \<le> 8 * n \<Longrightarrow> le_decode (le_encode n w) = (w :: 'a::len word)"
  by (simp add: le_decode_encode_take take_bit_word_eq_self)

lemma le_encode_decode:
  assumes "8 * length bs \<le> LENGTH('a::len)"
  shows "le_encode (length bs) (le_decode bs :: 'a word) = bs"
  using assms
proof (induction bs)
  case (Cons b bs)
  have 1: "ucast (push_bit 8 (le_decode bs :: 'a word) OR ucast b) = b"
    by (rule bit_word_eqI) (use Cons.prems in \<open>auto simp: bit_simps\<close>)
  have small: "le_decode bs = (take_bit (8 * length bs) (le_decode bs) :: 'a word)"
    using le_decode_encode_take [of "length bs" "le_decode bs :: 'a word"] Cons by simp
  have 2: "drop_bit 8 (push_bit 8 (le_decode bs) OR ucast b) = (le_decode bs :: 'a word)"
  proof (rule bit_word_eqI)
    fix i assume "i < LENGTH('a)"
    have 3: "bit (le_decode bs :: 'a word) i \<Longrightarrow> i < 8 * length bs"
      by (metis bit_take_bit_iff small)
    have "\<not> bit b (8 + i)" using bit_imp_le_length [of b "8 + i"] by auto
    then show "bit (drop_bit 8 (push_bit 8 (le_decode bs) OR ucast b :: 'a word)) i
             = bit (le_decode bs :: 'a word) i"
      using Cons.prems 3 by (cases "bit (le_decode bs :: 'a word) i") (auto simp: bit_simps)
  qed
  show ?case using Cons 1 2 by (simp add: le_encode_Suc)
qed simp

section \<open>Accesses\<close>

definition load_bytes :: "bytes \<Rightarrow> nat \<Rightarrow> nat \<Rightarrow> bytes option" where
  "load_bytes m a n = (if a + n \<le> length m then Some (take n (drop a m)) else None)"

definition store_bytes :: "bytes \<Rightarrow> nat \<Rightarrow> bytes \<Rightarrow> bytes option" where
  "store_bytes m a bs = (if a + length bs \<le> length m
     then Some (take a m @ bs @ drop (a + length bs) m) else None)"

definition load_word :: "nat \<Rightarrow> bytes \<Rightarrow> nat \<Rightarrow> 'a::len word option" where
  "load_word n m a = map_option le_decode (load_bytes m a n)"

definition store_word :: "nat \<Rightarrow> bytes \<Rightarrow> nat \<Rightarrow> 'a::len word \<Rightarrow> bytes option" where
  "store_word n m a w = store_bytes m a (le_encode n w)"

lemma load_bytes_None [simp]: "load_bytes m a n = None \<longleftrightarrow> length m < a + n"
  by (auto simp: load_bytes_def)

lemma load_bytes_Some_length: "load_bytes m a n = Some bs \<Longrightarrow> length bs = n \<and> a + n \<le> length m"
  by (auto simp: load_bytes_def split: if_splits)

lemma store_bytes_None [simp]: "store_bytes m a bs = None \<longleftrightarrow> length m < a + length bs"
  by (auto simp: store_bytes_def)

lemma store_bytes_length: "store_bytes m a bs = Some m' \<Longrightarrow> length m' = length m"
  by (auto simp: store_bytes_def split: if_splits)

lemma load_word_None [simp]: "load_word n m a = None \<longleftrightarrow> length m < a + n"
  by (simp add: load_word_def)

lemma store_word_None [simp]: "store_word n m a w = None \<longleftrightarrow> length m < a + n"
  by (simp add: store_word_def)

lemma store_word_length: "store_word n m a w = Some m' \<Longrightarrow> length m' = length m"
  by (simp add: store_word_def store_bytes_length)

lemma load_store_same:
  "store_bytes m a bs = Some m' \<Longrightarrow> n = length bs \<Longrightarrow> load_bytes m' a n = Some bs"
  by (auto simp: store_bytes_def load_bytes_def split: if_splits)

text \<open>Bytes outside the written range keep their value.\<close>

lemma store_bytes_nth:
  assumes "store_bytes m a bs = Some m'" "i < length m"
  shows "m' ! i = (if a \<le> i \<and> i < a + length bs then bs ! (i - a) else m ! i)"
  using assms by (auto simp: store_bytes_def nth_append split: if_splits)

lemma load_bytes_conv_nth:
  "load_bytes m a n = Some bs \<longleftrightarrow> a + n \<le> length m \<and> bs = map (\<lambda>i. m ! (a + i)) [0..<n]"
  by (auto simp: load_bytes_def intro: nth_equalityI)

lemma load_store_other:
  assumes "store_bytes m a bs = Some m'" "b + n \<le> a \<or> a + length bs \<le> b"
  shows "load_bytes m' b n = load_bytes m b n"
proof (cases "b + n \<le> length m")
  case True
  moreover have "length m' = length m" using assms by (simp add: store_bytes_length)
  moreover have "map (\<lambda>i. m' ! (b + i)) [0..<n] = map (\<lambda>i. m ! (b + i)) [0..<n]"
    using assms True by (auto simp: store_bytes_nth)
  moreover have "load_bytes m b n = Some (map (\<lambda>i. m ! (b + i)) [0..<n])"
    "length m' = length m \<Longrightarrow> load_bytes m' b n = Some (map (\<lambda>i. m' ! (b + i)) [0..<n])"
    using True by (simp_all add: load_bytes_conv_nth)
  ultimately show ?thesis by simp
next
  case False
  then show ?thesis using assms(1) by (simp add: store_bytes_length load_bytes_def)
qed

lemma load_store_word_same:
  "store_word n m a (w :: 'a::len word) = Some m' \<Longrightarrow> LENGTH('a) \<le> 8 * n \<Longrightarrow> load_word n m' a = Some w"
  by (auto simp: store_word_def load_word_def dest: load_store_same)

text \<open>A C string: the bytes up to the first NUL, a fault if the array ends before it.\<close>

fun c_string :: "bytes \<Rightarrow> bytes option" where
  "c_string [] = None"
| "c_string (b # bs) = (if b = 0 then Some [] else map_option (Cons b) (c_string bs))"

definition load_cstr :: "bytes \<Rightarrow> nat \<Rightarrow> bytes option" where
  "load_cstr m a = c_string (drop a m)"

section \<open>The 32-bit bounds check\<close>

text \<open>
  \<^theory_text>\<open>uint32_t mem_size = memory->size\<close> and the guard \<^theory_text>\<open>ptr + len > mem_size\<close>
  that every shim uses.
\<close>

definition mem_size :: "bytes \<Rightarrow> u32" where
  "mem_size m = word_of_nat (length m)"

definition out_of_range :: "bytes \<Rightarrow> u32 \<Rightarrow> u32 \<Rightarrow> bool" where
  "out_of_range m p len \<longleftrightarrow> mem_size m < p + len"

lemma unat_mem_size [simp]: "length m < 2 ^ 32 \<Longrightarrow> unat (mem_size m) = length m"
  by (simp add: mem_size_def unat_of_nat)

text \<open>What the guard decides: the sum is compared modulo the word size.\<close>

lemma out_of_range_iff:
  assumes "length m < 2 ^ 32"
  shows "out_of_range m p len \<longleftrightarrow> length m < (unat p + unat len) mod 2 ^ 32"
  using assms by (simp add: out_of_range_def word_less_nat_alt unat_word_ariths)

lemma in_range_cases:
  assumes "length m < 2 ^ 32" "\<not> out_of_range m p len"
  shows "unat p + unat len \<le> length m \<or> 2 ^ 32 \<le> unat p + unat len"
  using assms by (auto simp: out_of_range_iff not_less)

lemma in_range_sound:
  assumes "length m < 2 ^ 32" "unat p + unat len < 2 ^ 32"
  shows "out_of_range m p len \<longleftrightarrow> length m < unat p + unat len"
  using assms by (simp add: out_of_range_iff)

text \<open>The guard lets an access through that leaves the array exactly when the sum wraps.\<close>

lemma guard_bypass_iff:
  assumes "length m < 2 ^ 32"
  shows "\<not> out_of_range m p len \<and> length m < unat p + unat len
    \<longleftrightarrow> 2 ^ 32 \<le> unat p + unat len \<and> unat p + unat len - 2 ^ 32 \<le> length m"
proof -
  have bnd: "unat p < 2 ^ 32" "unat len < 2 ^ 32"
    using unsigned_less [of p, where 'a = nat] unsigned_less [of len, where 'a = nat] by simp_all
  show ?thesis
  proof (cases "2 ^ 32 \<le> unat p + unat len")
    case True
    then have "(unat p + unat len) mod 2 ^ 32 = unat p + unat len - 2 ^ 32"
      using bnd mod_add_self2 [of "unat p + unat len - 2 ^ 32" "2 ^ 32"] by simp
    then show ?thesis using assms True by (auto simp: out_of_range_iff not_less)
  next
    case False
    then show ?thesis using assms by (auto simp: out_of_range_iff not_less)
  qed
qed

end
