(* ===== verification/Ipc.thy ===== *)
theory Ipc
  imports HostMem Decimal
begin

text \<open>
  The channel between two server processes (src/ipc.cpp, the POSIX build): a stream socket
  on which every message travels as its length in network order and its bytes. Both ends
  are non-blocking, so each keeps what it could not send yet and what it read of a message
  that is not complete. The answers of the operating system are a script: every call takes
  the next one, and a call that needs more than the script holds has not returned (\<^theory_text>\<open>None\<close>).
  Serialisation is the protocol library's and a parameter.
\<close>

section \<open>The operating system\<close>

record ipc_os =
  os_eintr :: int
  os_eagain :: int
  os_ewouldblock :: int
  os_socketpair :: "(int \<times> int) option"
  os_getfl :: "int \<Rightarrow> int"
  os_setfl :: "int \<Rightarrow> int \<Rightarrow> int"
  os_nonblock :: int

text \<open>What \<^theory_text>\<open>send\<close> and \<^theory_text>\<open>recv\<close> answer: a number of bytes or the bytes, or -1 with \<^theory_text>\<open>errno\<close>.\<close>

datatype send_answer = Took nat | SendFailed int
datatype recv_answer = Got bytes | RecvFailed int

text \<open>What the system has seen of a process: the descriptors it closed, the bytes it sent.\<close>

record os_log =
  log_closed :: "int list"
  log_taken :: bytes

definition is_interrupted_error :: "ipc_os \<Rightarrow> int \<Rightarrow> bool" where
  "is_interrupted_error os e \<longleftrightarrow> e = os_eintr os"

definition is_would_block_error :: "ipc_os \<Rightarrow> int \<Rightarrow> bool" where
  "is_would_block_error os e \<longleftrightarrow> e = os_eagain os \<or> e = os_ewouldblock os"

definition INVALID_OS_SOCKET :: int where
  "INVALID_OS_SOCKET = -1"

definition close_socket :: "int \<Rightarrow> os_log \<Rightarrow> os_log" where
  "close_socket s l = (if s = INVALID_OS_SOCKET then l else l\<lparr> log_closed := log_closed l @ [s] \<rparr>)"

definition set_non_blocking :: "ipc_os \<Rightarrow> int \<Rightarrow> bool" where
  "set_non_blocking os s =
    (let flags = os_getfl os s
     in if flags = -1 then False else os_setfl os s (or flags (os_nonblock os)) \<noteq> -1)"

section \<open>An end of a channel\<close>

record ipc =
  fd :: int
  child_fd :: int
  recv_buffer :: bytes
  send_buffer :: bytes

definition empty_ipc :: ipc where
  "empty_ipc = \<lparr> fd = INVALID_OS_SOCKET, child_fd = INVALID_OS_SOCKET, recv_buffer = [], send_buffer = [] \<rparr>"

definition is_open :: "ipc \<Rightarrow> bool" where
  "is_open i \<longleftrightarrow> fd i \<noteq> INVALID_OS_SOCKET"

text \<open>The constructors: for a descriptor that was handed over, and for both ends of a pair.\<close>

definition ipc_of_fd :: "ipc_os \<Rightarrow> int \<Rightarrow> string + ipc" where
  "ipc_of_fd os s =
    (let i = empty_ipc\<lparr> fd := s \<rparr>
     in if s = INVALID_OS_SOCKET then Inr i
        else if \<not> set_non_blocking os s then Inl ''Failed to configure IPC socket''
        else Inr i)"

definition ipc_of_pair :: "ipc_os \<Rightarrow> int \<Rightarrow> int \<Rightarrow> string + ipc" where
  "ipc_of_pair os parent child =
    (if parent \<noteq> INVALID_OS_SOCKET \<and> \<not> set_non_blocking os parent
     then Inl ''Failed to configure parent IPC socket''
     else if child \<noteq> INVALID_OS_SOCKET \<and> \<not> set_non_blocking os child
     then Inl ''Failed to configure child IPC socket''
     else Inr (empty_ipc\<lparr> fd := parent, child_fd := child \<rparr>))"

definition create :: "ipc_os \<Rightarrow> os_log \<Rightarrow> ipc option \<times> os_log" where
  "create os l =
    (case os_socketpair os of
       None \<Rightarrow> (None, l)
     | Some (a, b) \<Rightarrow>
        (case ipc_of_pair os a b of
           Inl e \<Rightarrow> (None, close_socket b (close_socket a l))
         | Inr i \<Rightarrow> (Some i, l)))"

definition destroy :: "ipc \<Rightarrow> os_log \<Rightarrow> os_log" where
  "destroy i l =
    (let l = (if fd i \<noteq> INVALID_OS_SOCKET then close_socket (fd i) l else l)
     in if child_fd i \<noteq> INVALID_OS_SOCKET then close_socket (child_fd i) l else l)"

text \<open>Moving gives the new object and what is left of the old one.\<close>

definition move_construct :: "ipc \<Rightarrow> ipc \<times> ipc" where
  "move_construct other = (other, empty_ipc)"

definition move_assign :: "ipc \<Rightarrow> ipc \<Rightarrow> os_log \<Rightarrow> ipc \<times> ipc \<times> os_log" where
  "move_assign this other l = (other, empty_ipc, destroy this l)"

definition close_child_fd :: "ipc \<Rightarrow> os_log \<Rightarrow> ipc \<times> os_log" where
  "close_child_fd i l =
    (if child_fd i \<noteq> INVALID_OS_SOCKET
     then (i\<lparr> child_fd := INVALID_OS_SOCKET \<rparr>, close_socket (child_fd i) l) else (i, l))"

text \<open>A descriptor as the argument of a process.\<close>

definition socket_to_string :: "int \<Rightarrow> string" where
  "socket_to_string s = int_string s"

definition socket_from_string :: "string \<Rightarrow> int option" where
  "socket_from_string s =
    (case from_chars s of
       None \<Rightarrow> None
     | Some (v, rest) \<Rightarrow>
        if rest \<noteq> [] then None else if v < - (2 ^ 31) \<or> 2 ^ 31 - 1 < v then None else Some v)"

section \<open>Frames\<close>

text \<open>The bytes of \<^theory_text>\<open>htonl\<close> of a length as they lie in memory, and \<^theory_text>\<open>ntohl\<close> of such bytes.\<close>

definition net_bytes :: "u32 \<Rightarrow> bytes" where
  "net_bytes w = rev (le_encode 4 w)"

definition net_word :: "bytes \<Rightarrow> u32" where
  "net_word bs = le_decode (rev bs)"

definition frame :: "bytes \<Rightarrow> bytes" where
  "frame payload = net_bytes (of_nat (length payload)) @ payload"

text \<open>The first complete frame of a buffer and what follows it.\<close>

definition next_frame :: "bytes \<Rightarrow> (bytes \<times> bytes) option" where
  "next_frame buf =
    (if length buf < 4 then None
     else let payload_len = unat (net_word (take 4 buf))
          in if length buf < 4 + payload_len then None
             else Some (take payload_len (drop 4 buf), drop (4 + payload_len) buf))"

section \<open>Sending\<close>

datatype 'a ipc_end = Returned 'a | Thrown string

text \<open>
  The loop that sends what is in the buffer: the number of bytes sent, whether the socket
  is still good, and the rest of the script.
\<close>

fun flush_loop :: "ipc_os \<Rightarrow> send_answer list \<Rightarrow> bytes \<Rightarrow> nat \<Rightarrow> os_log \<Rightarrow>
    (nat \<times> bool \<times> os_log \<times> send_answer list) option" where
  "flush_loop os [] buf written l = (if written < length buf then None else Some (written, True, l, []))"
| "flush_loop os (a # as) buf written l =
    (if written < length buf then
       (case a of
          SendFailed e \<Rightarrow>
            if is_interrupted_error os e then flush_loop os as buf written l
            else if is_would_block_error os e then Some (written, True, l, as)
            else Some (written, False, l, as)
        | Took res \<Rightarrow>
            if res = 0 then Some (written, False, l, as)
            else flush_loop os as buf (written + res)
              (l\<lparr> log_taken := log_taken l @ take res (drop written buf) \<rparr>))
     else Some (written, True, l, a # as))"

definition send_message :: "ipc_os \<Rightarrow> ('m \<Rightarrow> string + bytes) \<Rightarrow> send_answer list \<Rightarrow> 'm \<Rightarrow> ipc \<Rightarrow> os_log
    \<Rightarrow> (unit ipc_end \<times> ipc \<times> os_log \<times> send_answer list) option" where
  "send_message os ser as msg i l =
    (if fd i = INVALID_OS_SOCKET
     then Some (Thrown ''Attempted to send message over unconnected IPC!'', i, l, as)
     else case ser msg of
       Inl e \<Rightarrow> Some (Thrown (''Failed to serialize IPC message: '' @ e), i, l, as)
     | Inr payload \<Rightarrow>
        if 2 ^ 32 - 1 < length payload then Some (Thrown ''IPC message too large!'', i, l, as)
        else
          let i = i\<lparr> send_buffer := send_buffer i @ frame payload \<rparr>
          in case flush_loop os as (send_buffer i) 0 l of
               None \<Rightarrow> None
             | Some (written, good, l, as) \<Rightarrow>
                if good then Some (Returned (), i\<lparr> send_buffer := drop written (send_buffer i) \<rparr>, l, as)
                else Some (Thrown ''Unrecoverable communication error in IPC: Connection reset?'',
                           i\<lparr> fd := INVALID_OS_SOCKET \<rparr>, close_socket (fd i) l, as))"

section \<open>Receiving\<close>

text \<open>The loop that reads all the socket has: the buffer, and the error that ended it if it was one.\<close>

fun drain_loop :: "ipc_os \<Rightarrow> recv_answer list \<Rightarrow> bytes \<Rightarrow> (bytes \<times> string option \<times> recv_answer list) option" where
  "drain_loop os [] buf = None"
| "drain_loop os (Got bs # as) buf =
    (if bs = [] then Some (buf, Some ''Unrecoverable communication error in IPC: Connection reset'', as)
     else drain_loop os as (buf @ bs))"
| "drain_loop os (RecvFailed e # as) buf =
    (if is_interrupted_error os e then drain_loop os as buf
     else if is_would_block_error os e then Some (buf, None, as)
     else Some (buf, Some ''Unrecoverable communication error in IPC: Socket error'', as))"

definition receive_message :: "ipc_os \<Rightarrow> (bytes \<Rightarrow> string + 'm) \<Rightarrow> recv_answer list \<Rightarrow> ipc \<Rightarrow> os_log
    \<Rightarrow> ('m option ipc_end \<times> ipc \<times> os_log \<times> recv_answer list) option" where
  "receive_message os deser as i l =
    (if fd i = INVALID_OS_SOCKET then Some (Returned None, i, l, as)
     else case drain_loop os as (recv_buffer i) of
       None \<Rightarrow> None
     | Some (buf, Some e, as) \<Rightarrow>
        Some (Thrown e, i\<lparr> recv_buffer := buf, fd := INVALID_OS_SOCKET \<rparr>, close_socket (fd i) l, as)
     | Some (buf, None, as) \<Rightarrow>
        (case next_frame buf of
           None \<Rightarrow> Some (Returned None, i\<lparr> recv_buffer := buf \<rparr>, l, as)
         | Some (payload, rest) \<Rightarrow>
            (case deser payload of
               Inl e \<Rightarrow> Some (Thrown (''Failed to deserialize IPC message: '' @ e), i\<lparr> recv_buffer := rest \<rparr>, l, as)
             | Inr m \<Rightarrow> Some (Returned (Some m), i\<lparr> recv_buffer := rest \<rparr>, l, as))))"

text \<open>
  What the main loop does with its parent's channel: it takes messages until there is none.
  A message taken means answers used, so the recursion ends.
\<close>

lemma drain_loop_shorter: "drain_loop os as buf = Some (buf', e, as') \<Longrightarrow> length as' < length as"
  by (induction os as buf rule: drain_loop.induct) (auto split: if_splits)

lemma receive_message_shorter:
  assumes "receive_message os deser as i l = Some (Returned (Some m), i', l', as')"
  shows "length as' < length as"
  using assms unfolding receive_message_def
  by (auto split: if_splits option.splits sum.splits) (drule drain_loop_shorter, assumption)

function receive_all :: "ipc_os \<Rightarrow> (bytes \<Rightarrow> string + 'm) \<Rightarrow> recv_answer list \<Rightarrow> ipc \<Rightarrow> os_log
    \<Rightarrow> ('m list \<times> string option \<times> ipc \<times> os_log \<times> recv_answer list) option" where
  "receive_all os deser as i l =
    (case receive_message os deser as i l of
       None \<Rightarrow> None
     | Some (Thrown e, i, l, as) \<Rightarrow> Some ([], Some e, i, l, as)
     | Some (Returned None, i, l, as) \<Rightarrow> Some ([], None, i, l, as)
     | Some (Returned (Some m), i, l, as) \<Rightarrow>
        (case receive_all os deser as i l of
           None \<Rightarrow> None
         | Some (ms, r) \<Rightarrow> Some (m # ms, r)))"
  by pat_completeness auto
termination
  by (relation "measure (\<lambda>(os, deser, as, i, l). length as)") (auto dest: receive_message_shorter)

declare receive_all.simps [simp del]

end
