(* ===== verification/IpcProps.thy ===== *)
theory IpcProps
  imports Ipc "HOL-Library.Multiset" "HOL-Library.Sublist"
begin

text \<open>
  What the channel between processes promises: whatever way the bytes are cut up on the
  socket, the messages arrive complete, once and in order; what a closing peer takes with
  it; what stays behind in a full socket; and who closes a descriptor.
\<close>

section \<open>Frames are read back\<close>

lemma net_word_bytes [simp]: "net_word (net_bytes w) = w"
  by (simp add: net_word_def net_bytes_def)

lemma net_bytes_length [simp]: "length (net_bytes w) = 4"
  by (simp add: net_bytes_def)

definition fits :: "bytes \<Rightarrow> bool" where
  "fits p \<longleftrightarrow> length p \<le> 2 ^ 32 - 1"

lemma unat_length_word: "fits p \<Longrightarrow> unat (of_nat (length p) :: u32) = length p"
  by (simp add: fits_def unat_of_nat take_bit_nat_eq_self)

lemma frame_length: "length (frame p) = 4 + length p"
  by (simp add: frame_def)

lemma next_frame_frame [simp]: "fits p \<Longrightarrow> next_frame (frame p @ rest) = Some (p, rest)"
  by (simp add: next_frame_def frame_def Let_def unat_length_word)

lemma next_frame_more: "next_frame xs = Some (p, rest) \<Longrightarrow> next_frame (xs @ ys) = Some (p, rest @ ys)"
  by (auto simp: next_frame_def Let_def split: if_splits)

definition payload_of :: "('m \<Rightarrow> string + bytes) \<Rightarrow> 'm \<Rightarrow> bytes" where
  "payload_of ser m = (case ser m of Inl e \<Rightarrow> [] | Inr p \<Rightarrow> p)"

definition frames :: "('m \<Rightarrow> string + bytes) \<Rightarrow> 'm list \<Rightarrow> bytes" where
  "frames ser ms = concat (map (\<lambda>m. frame (payload_of ser m)) ms)"

lemma frames_simps [simp]:
  "frames ser [] = []"
  "frames ser (m # ms) = frame (payload_of ser m) @ frames ser ms"
  "frames ser (ms @ ns) = frames ser ms @ frames ser ns"
  by (simp_all add: frames_def)

text \<open>What serialisation must offer: a message that could be written can be read.\<close>

definition codec_laws :: "('m \<Rightarrow> string + bytes) \<Rightarrow> (bytes \<Rightarrow> string + 'm) \<Rightarrow> bool" where
  "codec_laws ser deser \<longleftrightarrow> (\<forall>m p. ser m = Inr p \<longrightarrow> deser p = Inr m)"

definition sendable :: "('m \<Rightarrow> string + bytes) \<Rightarrow> 'm \<Rightarrow> bool" where
  "sendable ser m \<longleftrightarrow> (\<exists>p. ser m = Inr p \<and> fits p)"

lemma sendableD:
  assumes "sendable ser m"
  shows "ser m = Inr (payload_of ser m)" "fits (payload_of ser m)"
  using assms by (auto simp: sendable_def payload_of_def)

section \<open>The loops\<close>

lemma flush_loop_done: "length buf \<le> written \<Longrightarrow> flush_loop os as buf written l = Some (written, True, l, as)"
  by (cases as) simp_all

text \<open>Flushing sends a part of the buffer, from where it was, and nothing else.\<close>

lemma flush_loop_sends:
  assumes "flush_loop os as buf written l = Some (n, good, l', as')" "written \<le> length buf"
    "log_taken l = base @ take written buf"
  shows "log_taken l' = base @ take n buf \<and> log_closed l' = log_closed l \<and> written \<le> n"
  using assms
proof (induction os as buf written l arbitrary: base rule: flush_loop.induct)
  case (1 os buf written l)
  then show ?case by (auto split: if_splits)
next
  case (2 os a as buf written l)
  show ?case
  proof (cases "written < length buf \<and> (\<exists>r. a = Took r \<and> r \<noteq> 0)")
    case True
    then obtain r where a: "a = Took r" "r \<noteq> 0" "written < length buf" by auto
    let ?l = "l\<lparr> log_taken := log_taken l @ take r (drop written buf) \<rparr>"
    have run: "flush_loop os as buf (written + r) ?l = Some (n, good, l', as')"
      using 2(3) a by simp
    have taken: "log_taken ?l = base @ take (written + r) buf"
      using 2(5) by (simp add: take_add)
    show ?thesis
    proof (cases "written + r \<le> length buf")
      case ok: True
      then show ?thesis using 2(1) [OF a(3,1,2) run ok taken] by auto
    next
      case False
      then have "flush_loop os as buf (written + r) ?l = Some (written + r, True, ?l, as)"
        by (intro flush_loop_done) simp
      then have "n = written + r" "l' = ?l" using run by simp_all
      then show ?thesis using taken by (metis le_add1 os_log.select_convs(1) os_log.surjective os_log.update_convs(2))
    qed
  next
    case False
    then show ?thesis
      using 2 by (auto split: if_splits send_answer.splits)
  qed
qed

text \<open>Draining reads what the answers hold, in order.\<close>

fun delivered :: "recv_answer list \<Rightarrow> bytes" where
  "delivered [] = []"
| "delivered (Got bs # as) = bs @ delivered as"
| "delivered (RecvFailed e # as) = delivered as"

lemma drain_loop_reads:
  assumes "drain_loop os as buf = Some (buf', e, as')"
  shows "\<exists>used. as = used @ as' \<and> buf' = buf @ delivered used"
  using assms
proof (induction os as buf rule: drain_loop.induct)
  case (1 os buf)
  then show ?case by simp
next
  case (2 os bs as buf)
  show ?case
  proof (cases "bs = []")
    case True
    then show ?thesis using 2(2) by (intro exI [of _ "[Got bs]"]) simp
  next
    case False
    then obtain used where "as = used @ as'" "buf' = (buf @ bs) @ delivered used"
      using 2 by auto
    then show ?thesis by (intro exI [of _ "Got bs # used"]) simp
  qed
next
  case (3 os er as buf)
  show ?case
  proof (cases "is_interrupted_error os er")
    case True
    then obtain used where "as = used @ as'" "buf' = buf @ delivered used" using 3 by auto
    then show ?thesis by (intro exI [of _ "RecvFailed er # used"]) simp
  next
    case False
    then show ?thesis
      using 3(2) by (intro exI [of _ "[RecvFailed er]"]) (auto split: if_splits)
  qed
qed

section \<open>The channel as a queue\<close>

text \<open>
  One direction of a channel: the sender's end, the bytes the system holds between the two,
  the receiver's end; what was queued for sending and what came out. The stream socket
  delivers the bytes it took, in order: a call to receive gets a piece of them.
\<close>

record 'm channel =
  ch_sender :: ipc
  ch_wire :: bytes
  ch_receiver :: ipc
  ch_sent :: "'m list"
  ch_got :: "'m list"

definition fresh_channel :: "int \<Rightarrow> int \<Rightarrow> 'm channel" where
  "fresh_channel a b = \<lparr> ch_sender = empty_ipc\<lparr> fd := a \<rparr>, ch_wire = [], ch_receiver = empty_ipc\<lparr> fd := b \<rparr>,
     ch_sent = [], ch_got = [] \<rparr>"

inductive channel_step :: "ipc_os \<Rightarrow> ('m \<Rightarrow> string + bytes) \<Rightarrow> (bytes \<Rightarrow> string + 'm)
    \<Rightarrow> 'm channel \<Rightarrow> 'm channel \<Rightarrow> bool"
  for os ser deser where
  send: "\<lbrakk> send_message os ser as m (ch_sender c) \<lparr> log_closed = [], log_taken = [] \<rparr> = Some (r, s', l', as') \<rbrakk>
    \<Longrightarrow> channel_step os ser deser c
          (c\<lparr> ch_sender := s', ch_wire := ch_wire c @ log_taken l',
              ch_sent := ch_sent c @ (if is_open (ch_sender c) \<and> sendable ser m then [m] else []) \<rparr>)"
| receive: "\<lbrakk> receive_message os deser as (ch_receiver c) \<lparr> log_closed = [], log_taken = [] \<rparr> = Some (r, d', l', []);
      is_open (ch_receiver c); ch_wire c = delivered as @ wire' \<rbrakk>
    \<Longrightarrow> channel_step os ser deser c
          (c\<lparr> ch_receiver := d', ch_wire := wire',
              ch_got := ch_got c @ (case r of Returned (Some m) \<Rightarrow> [m] | _ \<Rightarrow> []) \<rparr>)"

definition channel_reach :: "ipc_os \<Rightarrow> ('m \<Rightarrow> string + bytes) \<Rightarrow> (bytes \<Rightarrow> string + 'm)
    \<Rightarrow> 'm channel \<Rightarrow> 'm channel \<Rightarrow> bool" where
  "channel_reach os ser deser = (channel_step os ser deser)\<^sup>*\<^sup>*"

text \<open>The messages still under way, and the bytes that make them up.\<close>

definition channel_inv :: "('m \<Rightarrow> string + bytes) \<Rightarrow> 'm channel \<Rightarrow> bool" where
  "channel_inv ser c \<longleftrightarrow>
     (\<exists>todo rest. ch_sent c = ch_got c @ todo \<and> (\<forall>m\<in>set todo. sendable ser m)
       \<and> recv_buffer (ch_receiver c) @ ch_wire c @ rest = frames ser todo
       \<and> (is_open (ch_sender c) \<longrightarrow> rest = send_buffer (ch_sender c)))"

lemma channel_inv_fresh: "channel_inv ser (fresh_channel a b)"
  by (simp add: channel_inv_def fresh_channel_def empty_ipc_def)

text \<open>Sending queues the message behind what is there, and moves bytes onto the wire.\<close>

lemma send_message_open:
  assumes "is_open i" "sendable ser m"
  shows "send_message os ser as m i l =
    (case flush_loop os as (send_buffer i @ frame (payload_of ser m)) 0 l of
       None \<Rightarrow> None
     | Some (written, good, l, as) \<Rightarrow>
        if good then Some (Returned (), i\<lparr> send_buffer := drop written (send_buffer i @ frame (payload_of ser m)) \<rparr>, l, as)
        else Some (Thrown ''Unrecoverable communication error in IPC: Connection reset?'',
                   i\<lparr> send_buffer := send_buffer i @ frame (payload_of ser m), fd := INVALID_OS_SOCKET \<rparr>,
                   close_socket (fd i) l, as))"
proof -
  obtain p where p: "ser m = Inr p" "length p \<le> 2 ^ 32 - 1" "payload_of ser m = p" "fd i \<noteq> INVALID_OS_SOCKET"
    using assms sendableD [of ser m] by (auto simp: is_open_def fits_def)
  then have large: "\<not> 2 ^ 32 - 1 < length p" by simp
  show ?thesis
    unfolding send_message_def Let_def p(1,3) sum.case if_not_P [OF large] if_not_P [OF p(4)]
    by (auto split: option.split)
qed

lemma send_message_effect:
  assumes "send_message os ser as m i \<lparr> log_closed = [], log_taken = [] \<rparr> = Some (r, i', l', as')"
  shows "(\<not> is_open i \<or> \<not> sendable ser m) \<and> i' = i \<and> log_taken l' = [] \<and> (\<exists>e. r = Thrown e)
    \<or> is_open i \<and> sendable ser m
      \<and> (\<exists>rest. log_taken l' @ rest = send_buffer i @ frame (payload_of ser m)
           \<and> (is_open i' \<longrightarrow> rest = send_buffer i' \<and> r = Returned ()))"
proof (cases "is_open i \<and> sendable ser m")
  case False
  then show ?thesis
    using assms
    by (auto simp: send_message_def is_open_def sendable_def fits_def split: sum.splits if_splits)
next
  case True
  let ?buf = "send_buffer i @ frame (payload_of ser m)"
  obtain n good l as'' where f: "flush_loop os as ?buf 0 \<lparr> log_closed = [], log_taken = [] \<rparr> = Some (n, good, l, as'')"
    using assms True by (auto simp: send_message_open split: option.splits)
  have taken: "log_taken l = take n ?buf"
    using flush_loop_sends [OF f, of "[]"] by simp
  have out: "log_taken l' = take n ?buf \<and> (good \<longrightarrow> send_buffer i' = drop n ?buf \<and> r = Returned ())
    \<and> (\<not> good \<longrightarrow> \<not> is_open i')"
    using assms True f taken by (cases good) (auto simp: send_message_open is_open_def close_socket_def)
  have "take n ?buf @ drop n ?buf = ?buf" by (rule append_take_drop_id)
  with out True show ?thesis by (intro disjI2 conjI exI [of _ "drop n ?buf"]) auto
qed

text \<open>Receiving takes bytes off the wire; a complete frame at the front is the next message.\<close>

lemma receive_message_effect:
  assumes "receive_message os deser as i l = Some (r, i', l', as')" "is_open i"
  shows "\<exists>used buf. as = used @ as' \<and> buf = recv_buffer i @ delivered used \<and> send_buffer i' = send_buffer i
    \<and> ((case r of Returned (Some m) \<Rightarrow> False | _ \<Rightarrow> True) \<and> recv_buffer i' = buf
       \<or> (\<exists>p rest. next_frame buf = Some (p, rest) \<and> recv_buffer i' = rest
            \<and> (case deser p of Inl e \<Rightarrow> True | Inr m \<Rightarrow> r = Returned (Some m))
            \<and> (case r of Returned (Some m) \<Rightarrow> deser p = Inr m | _ \<Rightarrow> True)))"
proof -
  obtain buf e as'' where d: "drain_loop os as (recv_buffer i) = Some (buf, e, as'')"
    using assms by (auto simp: receive_message_def is_open_def split: option.splits)
  have as'': "as'' = as'"
    using assms d by (auto simp: receive_message_def is_open_def split: option.splits sum.splits)
  obtain used where u: "as = used @ as'" "buf = recv_buffer i @ delivered used"
    using drain_loop_reads [OF d] as'' by blast
  have fd: "fd i \<noteq> INVALID_OS_SOCKET" using assms(2) by (simp add: is_open_def)
  have shape: "(case r of Returned (Some m) \<Rightarrow> False | _ \<Rightarrow> True) \<and> recv_buffer i' = buf
      \<or> (\<exists>p rest. next_frame buf = Some (p, rest) \<and> recv_buffer i' = rest
           \<and> (case deser p of Inl e \<Rightarrow> True | Inr m \<Rightarrow> r = Returned (Some m))
           \<and> (case r of Returned (Some m) \<Rightarrow> deser p = Inr m | _ \<Rightarrow> True))"
  proof (cases "e = None \<and> next_frame buf \<noteq> None")
    case True
    then obtain p rest where "e = None" "next_frame buf = Some (p, rest)" by auto
    then show ?thesis
      using assms(1) d fd by (cases "deser p") (auto simp: receive_message_def)
  next
    case False
    then consider "e = None" "next_frame buf = None" | x where "e = Some x" by (metis not_None_eq)
    then show ?thesis
      using assms(1) d fd by cases (auto simp: receive_message_def)
  qed
  have "send_buffer i' = send_buffer i"
    using assms(1) d fd by (auto simp: receive_message_def split: option.splits sum.splits)
  then show ?thesis using shape u by blast
qed

lemma channel_step_inv:
  assumes "channel_step os ser deser c c'" "codec_laws ser deser" "channel_inv ser c"
  shows "channel_inv ser c'"
  using assms(1)
proof cases
  case (send as m r s' l' as')
  obtain todo rest where inv: "ch_sent c = ch_got c @ todo" "\<forall>m\<in>set todo. sendable ser m"
    "recv_buffer (ch_receiver c) @ ch_wire c @ rest = frames ser todo"
    "is_open (ch_sender c) \<longrightarrow> rest = send_buffer (ch_sender c)"
    using assms(3) by (auto simp: channel_inv_def)
  show ?thesis
  proof (cases "is_open (ch_sender c) \<and> sendable ser m")
    case False
    then have "s' = ch_sender c" "log_taken l' = []" using send_message_effect [OF send(2)] by auto
    then show ?thesis using False inv send(1) by (auto simp: channel_inv_def)
  next
    case True
    then obtain rest' where r: "log_taken l' @ rest' = send_buffer (ch_sender c) @ frame (payload_of ser m)"
        "is_open s' \<longrightarrow> rest' = send_buffer s'"
      using send_message_effect [OF send(2)] by auto
    have "recv_buffer (ch_receiver c) @ (ch_wire c @ log_taken l') @ rest' = frames ser (todo @ [m])"
      using inv(3,4) r(1) True by (simp flip: append_assoc) (simp add: append_assoc)
    then show ?thesis
      using True inv(1,2) r(2) send(1)
      by (auto simp: channel_inv_def intro!: exI [of _ "todo @ [m]"] exI [of _ rest'])
  qed
next
  case (receive as r d' l' wire')
  obtain todo rest where inv: "ch_sent c = ch_got c @ todo" "\<forall>m\<in>set todo. sendable ser m"
    "recv_buffer (ch_receiver c) @ ch_wire c @ rest = frames ser todo"
    "is_open (ch_sender c) \<longrightarrow> rest = send_buffer (ch_sender c)"
    using assms(3) by (auto simp: channel_inv_def)
  let ?buf = "recv_buffer (ch_receiver c) @ delivered as"
  have bytes: "?buf @ wire' @ rest = frames ser todo" using inv(3) receive(4) by simp
  have fits: "next_frame ?buf = Some (p, left) \<Longrightarrow> \<exists>m todo'. todo = m # todo' \<and> p = payload_of ser m
      \<and> left @ wire' @ rest = frames ser todo' \<and> deser p = Inr m" for p left
  proof -
    assume "next_frame ?buf = Some (p, left)"
    then have nf: "next_frame (frames ser todo) = Some (p, left @ wire' @ rest)"
      using next_frame_more bytes by metis
    then obtain m todo' where t: "todo = m # todo'" by (cases todo) (auto simp: next_frame_def)
    then have ok: "sendable ser m" using inv(2) by simp
    have "p = payload_of ser m" "left @ wire' @ rest = frames ser todo'"
      using nf sendableD(2) [OF ok] by (simp_all add: t)
    moreover have "deser (payload_of ser m) = Inr m"
      using assms(2) sendableD(1) [OF ok] by (auto simp: codec_laws_def)
    ultimately show ?thesis using t by auto
  qed
  obtain eff: "recv_buffer d' = ?buf \<and> (case r of Returned (Some m) \<Rightarrow> False | _ \<Rightarrow> True)
    \<or> (\<exists>p left. next_frame ?buf = Some (p, left) \<and> recv_buffer d' = left
          \<and> (case deser p of Inl e \<Rightarrow> True | Inr m \<Rightarrow> r = Returned (Some m)))"
    using receive_message_effect [OF receive(2,3)] by auto
  then show ?thesis
  proof
    assume a: "recv_buffer d' = ?buf \<and> (case r of Returned (Some m) \<Rightarrow> False | _ \<Rightarrow> True)"
    then have "(case r of Returned (Some m) \<Rightarrow> [m] | _ \<Rightarrow> []) = []"
      by (auto split: ipc_end.splits option.splits)
    then show ?thesis
      using a receive(1) inv bytes by (auto simp: channel_inv_def intro!: exI [of _ todo] exI [of _ rest])
  next
    assume "\<exists>p left. next_frame ?buf = Some (p, left) \<and> recv_buffer d' = left
          \<and> (case deser p of Inl e \<Rightarrow> True | Inr m \<Rightarrow> r = Returned (Some m))"
    then obtain m todo' left where t: "todo = m # todo'" "recv_buffer d' = left"
        "left @ wire' @ rest = frames ser todo'" "r = Returned (Some m)"
      using fits by fastforce
    then show ?thesis
      using receive(1) inv by (auto simp: channel_inv_def intro!: exI [of _ todo'] exI [of _ rest])
  qed
qed

lemma channel_reach_inv:
  assumes "channel_reach os ser deser c c'" "codec_laws ser deser" "channel_inv ser c"
  shows "channel_inv ser c'"
  using assms(1) unfolding channel_reach_def
  by (induction rule: rtranclp_induct) (use assms(2,3) channel_step_inv in \<open>blast+\<close>)

text \<open>
  C32: The channel between two processes is a queue, however the operating system cuts up the
  bytes, interrupts the calls or lets the socket fill up: the messages that came out are the
  first ones that were queued, each once and unchanged, and when nothing is left in the
  sender's buffer, on the wire or complete in the receiver's buffer, all of them came out.
\<close>

theorem channel_is_queue:
  assumes "codec_laws ser deser" "channel_reach os ser deser (fresh_channel a b) c"
  shows "prefix (ch_got c) (ch_sent c)
    \<and> (\<not> (is_open (ch_sender c) \<and> send_buffer (ch_sender c) = [] \<and> ch_wire c = []
         \<and> next_frame (recv_buffer (ch_receiver c)) = None) \<or> ch_got c = ch_sent c)"
proof -
  have "channel_inv ser c"
    using channel_reach_inv [OF assms(2,1) channel_inv_fresh] .
  then obtain todo rest where inv: "ch_sent c = ch_got c @ todo" "\<forall>m\<in>set todo. sendable ser m"
    "recv_buffer (ch_receiver c) @ ch_wire c @ rest = frames ser todo"
    "is_open (ch_sender c) \<longrightarrow> rest = send_buffer (ch_sender c)"
    by (auto simp: channel_inv_def)
  have all_out: "todo = []" if empty: "is_open (ch_sender c)" "send_buffer (ch_sender c) = []" "ch_wire c = []"
    "next_frame (recv_buffer (ch_receiver c)) = None"
  proof (rule ccontr)
    assume "todo \<noteq> []"
    then obtain m todo' where t: "todo = m # todo'" by (cases todo) auto
    then have "fits (payload_of ser m)" using inv(2) sendableD(2) by auto
    moreover have "recv_buffer (ch_receiver c) = frame (payload_of ser m) @ frames ser todo'"
      using inv(3,4) empty t by simp
    ultimately show False using empty(4) by simp
  qed
  show ?thesis using inv(1) all_out by (metis append_Nil2 prefixI)
qed

section \<open>What a closing peer takes with it\<close>

lemma drain_to_end:
  "[] \<notin> set chunks \<Longrightarrow> drain_loop os (map Got chunks @ Got [] # as) buf
     = Some (buf @ concat chunks, Some ''Unrecoverable communication error in IPC: Connection reset'', as)"
  by (induction chunks arbitrary: buf) auto

text \<open>
  When the peer has closed its end, a call that reads up to the end of the stream throws,
  whatever complete messages it read before: they stay in the buffer of a closed channel,
  and no later call returns any of them.
\<close>

theorem closing_loses_messages:
  assumes "is_open i" "[] \<notin> set chunks"
  shows "\<exists>e i' l'. receive_message os deser (map Got chunks @ Got [] # as) i l = Some (Thrown e, i', l', as)
    \<and> \<not> is_open i' \<and> recv_buffer i' = recv_buffer i @ concat chunks
    \<and> log_closed l' = log_closed l @ [fd i]
    \<and> (\<forall>as l. receive_message os deser as i' l = Some (Returned None, i', l, as))"
proof -
  have "fd i \<noteq> INVALID_OS_SOCKET" using assms(1) by (simp add: is_open_def)
  then show ?thesis
    by (simp add: receive_message_def drain_to_end [OF assms(2)] is_open_def close_socket_def)
qed

section \<open>What stays behind in a full socket\<close>

lemma receive_keeps_sending:
  assumes "receive_message os deser as i l = Some (r, i', l', as')"
  shows "send_buffer i' = send_buffer i" "log_taken l' = log_taken l"
  using assms
  by (auto simp: receive_message_def close_socket_def split: if_splits option.splits sum.splits)

text \<open>
  A message that meets a full socket is reported as sent and stays in the buffer whole,
  behind what is already there; receiving never sends it, so it leaves the process no
  earlier than the next message that is sent on the channel.
\<close>

theorem full_socket_keeps_message:
  assumes "is_open i" "sendable ser m" "is_would_block_error os e" "\<not> is_interrupted_error os e"
    "send_message os ser (SendFailed e # as) m i l = Some (r, i1, l1, as1)"
    "receive_message os deser bs i1 l1 = Some (r2, i2, l2, bs2)"
  shows "r = Returned () \<and> log_taken l2 = log_taken l
    \<and> send_buffer i2 = send_buffer i @ frame (payload_of ser m)"
proof -
  have ne: "send_buffer i @ frame (payload_of ser m) \<noteq> []" by (simp add: frame_def net_bytes_def le_encode_def)
  have "flush_loop os (SendFailed e # as) (send_buffer i @ frame (payload_of ser m)) 0 l = Some (0, True, l, as)"
    using assms(3,4) ne by simp
  then have "r = Returned () \<and> l1 = l \<and> send_buffer i1 = send_buffer i @ frame (payload_of ser m)"
    using assms(1,2,5) by (auto simp: send_message_open)
  then show ?thesis using receive_keeps_sending [OF assms(6)] by simp
qed

section \<open>Descriptors\<close>

text \<open>
  The objects of a process that own channels, every descriptor that was opened for one of
  them, and what the process closed. Objects are made, moved, used and destroyed in any order.
\<close>

definition fds :: "ipc \<Rightarrow> int list" where
  "fds i = filter (\<lambda>s. s \<noteq> INVALID_OS_SOCKET) [fd i, child_fd i]"

record owners =
  ow_objects :: "ipc list"
  ow_opened :: "int list"
  ow_log :: os_log

definition held :: "ipc list \<Rightarrow> int list" where
  "held objs = concat (map fds objs)"

inductive owner_step :: "('m \<Rightarrow> string + bytes) \<Rightarrow> (bytes \<Rightarrow> string + 'm) \<Rightarrow> owners \<Rightarrow> owners \<Rightarrow> bool"
  for ser deser where
  pair: "\<lbrakk> os_socketpair os = Some (a, b); distinct ([a, b] @ held (ow_objects w));
      INVALID_OS_SOCKET \<notin> {a, b}; create os (ow_log w) = (r, l) \<rbrakk>
    \<Longrightarrow> owner_step ser deser w \<lparr> ow_objects = ow_objects w @ (case r of None \<Rightarrow> [] | Some i \<Rightarrow> [i]),
          ow_opened = ow_opened w @ [a, b], ow_log = l \<rparr>"
| adopt: "\<lbrakk> s \<notin> set (held (ow_objects w)); s \<noteq> INVALID_OS_SOCKET; ipc_of_fd os s = Inr i \<rbrakk>
    \<Longrightarrow> owner_step ser deser w (w\<lparr> ow_objects := ow_objects w @ [i], ow_opened := ow_opened w @ [s] \<rparr>)"
| moved: "\<lbrakk> k < length (ow_objects w); move_construct (ow_objects w ! k) = (new, old) \<rbrakk>
    \<Longrightarrow> owner_step ser deser w (w\<lparr> ow_objects := (ow_objects w)[k := old] @ [new] \<rparr>)"
| assigned: "\<lbrakk> k < length (ow_objects w); n < length (ow_objects w); k \<noteq> n;
      move_assign (ow_objects w ! k) (ow_objects w ! n) (ow_log w) = (this, other, l) \<rbrakk>
    \<Longrightarrow> owner_step ser deser w (w\<lparr> ow_objects := (ow_objects w)[k := this, n := other], ow_log := l \<rparr>)"
| forked: "\<lbrakk> k < length (ow_objects w); close_child_fd (ow_objects w ! k) (ow_log w) = (i, l) \<rbrakk>
    \<Longrightarrow> owner_step ser deser w (w\<lparr> ow_objects := (ow_objects w)[k := i], ow_log := l \<rparr>)"
| sends: "\<lbrakk> k < length (ow_objects w);
      send_message os ser as m (ow_objects w ! k) (ow_log w) = Some (r, i, l, as') \<rbrakk>
    \<Longrightarrow> owner_step ser deser w (w\<lparr> ow_objects := (ow_objects w)[k := i], ow_log := l \<rparr>)"
| receives: "\<lbrakk> k < length (ow_objects w);
      receive_message os deser as (ow_objects w ! k) (ow_log w) = Some (r, i, l, as') \<rbrakk>
    \<Longrightarrow> owner_step ser deser w (w\<lparr> ow_objects := (ow_objects w)[k := i], ow_log := l \<rparr>)"
| destroyed: "\<lbrakk> k < length (ow_objects w) \<rbrakk>
    \<Longrightarrow> owner_step ser deser w (w\<lparr> ow_objects := take k (ow_objects w) @ drop (Suc k) (ow_objects w),
                       ow_log := destroy (ow_objects w ! k) (ow_log w) \<rparr>)"

definition owners_reach :: "('m \<Rightarrow> string + bytes) \<Rightarrow> (bytes \<Rightarrow> string + 'm) \<Rightarrow> owners \<Rightarrow> owners \<Rightarrow> bool" where
  "owners_reach ser deser = (owner_step ser deser)\<^sup>*\<^sup>*"

definition no_owners :: owners where
  "no_owners = \<lparr> ow_objects = [], ow_opened = [], ow_log = \<lparr> log_closed = [], log_taken = [] \<rparr> \<rparr>"

text \<open>Every descriptor opened is held by one object or was closed.\<close>

definition owners_inv :: "owners \<Rightarrow> bool" where
  "owners_inv w \<longleftrightarrow> mset (held (ow_objects w)) + mset (log_closed (ow_log w)) = mset (ow_opened w)
     \<and> distinct (held (ow_objects w))"

lemma held_simps [simp]: "held [] = []" "held (i # is) = fds i @ held is" "held (is @ js) = held is @ held js"
  by (simp_all add: held_def)

lemma held_split:
  "k < length objs \<Longrightarrow> mset (held objs) = mset (fds (objs ! k)) + mset (held (take k objs @ drop (Suc k) objs))"
  by (subst (1) id_take_nth_drop [of k objs]) simp_all

lemma held_update:
  assumes "k < length objs"
  shows "mset (held (objs[k := i])) = mset (fds i) + mset (held (take k objs @ drop (Suc k) objs))"
  using assms by (simp add: upd_conv_take_nth_drop)

lemma fds_empty [simp]: "fds empty_ipc = []"
  by (simp add: fds_def empty_ipc_def)

lemma destroy_closes: "mset (log_closed (destroy i l)) = mset (fds i) + mset (log_closed l)"
  by (simp add: destroy_def fds_def close_socket_def Let_def)

lemma close_child_closes:
  assumes "close_child_fd i l = (i', l')"
  shows "mset (fds i') + mset (log_closed l') = mset (fds i) + mset (log_closed l)"
    "mset (fds i') \<subseteq># mset (fds i)"
  using assms by (auto simp: close_child_fd_def fds_def close_socket_def split: if_splits)

lemma receive_closes:
  assumes "receive_message os deser as i l = Some (r, i', l', as')"
  shows "mset (fds i') + mset (log_closed l') = mset (fds i) + mset (log_closed l)"
    "mset (fds i') \<subseteq># mset (fds i)"
  using assms
  by (auto simp: receive_message_def fds_def close_socket_def split: if_splits option.splits sum.splits)

lemma flush_loop_closed:
  "flush_loop os as buf written l = Some (n, good, l', as') \<Longrightarrow> log_closed l' = log_closed l"
  by (induction os as buf written l rule: flush_loop.induct) (auto split: if_splits send_answer.splits)

lemma send_closes:
  assumes "send_message os ser as m i l = Some (r, i', l', as')"
  shows "mset (fds i') + mset (log_closed l') = mset (fds i) + mset (log_closed l)"
    "mset (fds i') \<subseteq># mset (fds i)"
  using assms
  by (auto simp: send_message_def fds_def close_socket_def Let_def dest!: flush_loop_closed
      split: if_splits option.splits sum.splits)

lemma distinct_fewer:
  assumes "mset xs \<subseteq># mset ys" "distinct ys"
  shows "distinct xs"
proof -
  obtain zs where "mset ys = mset (xs @ zs)"
    using assms(1) by (metis ex_mset mset_append mset_subset_eq_exists_conv)
  then have "distinct (xs @ zs)" using assms(2) mset_eq_imp_distinct_iff by blast
  then show ?thesis by simp
qed

lemma owners_inv_change:
  assumes "owners_inv w" "mset (held objs) + mset (log_closed l) = mset (held (ow_objects w)) + mset (log_closed (ow_log w))"
    "mset (held objs) \<subseteq># mset (held (ow_objects w))"
  shows "owners_inv (w\<lparr> ow_objects := objs, ow_log := l \<rparr>)"
proof -
  have "distinct (held objs)"
    using assms(1,3) distinct_fewer unfolding owners_inv_def by blast
  then show ?thesis using assms(1,2) by (simp add: owners_inv_def)
qed

text \<open>Using an object: its descriptors stay or are closed.\<close>

lemma owners_inv_use:
  assumes "owners_inv w" "k < length (ow_objects w)"
    "mset (fds i) + mset (log_closed l) = mset (fds (ow_objects w ! k)) + mset (log_closed (ow_log w))"
    "mset (fds i) \<subseteq># mset (fds (ow_objects w ! k))"
  shows "owners_inv (w\<lparr> ow_objects := (ow_objects w)[k := i], ow_log := l \<rparr>)"
proof (rule owners_inv_change [OF assms(1)])
  let ?rest = "held (take k (ow_objects w) @ drop (Suc k) (ow_objects w))"
  have m: "mset (held ((ow_objects w)[k := i])) = mset (fds i) + mset ?rest"
      "mset (held (ow_objects w)) = mset (fds (ow_objects w ! k)) + mset ?rest"
    using held_update [OF assms(2)] held_split [OF assms(2)] by auto
  show "mset (held ((ow_objects w)[k := i])) + mset (log_closed l)
      = mset (held (ow_objects w)) + mset (log_closed (ow_log w))"
    unfolding m using assms(3) by (metis add.commute add.left_commute)
  show "mset (held ((ow_objects w)[k := i])) \<subseteq># mset (held (ow_objects w))"
    unfolding m using assms(4) by simp
qed

lemma owner_step_inv:
  assumes "owner_step ser deser w w'" "owners_inv w"
  shows "owners_inv w'"
  using assms(1)
proof cases
  case (pair os a b r l)
  have held: "(case r of None \<Rightarrow> log_closed l = log_closed (ow_log w) @ [a, b]
      | Some i \<Rightarrow> fds i = [a, b] \<and> l = ow_log w)"
    using pair(2,4,5)
    by (auto simp: create_def ipc_of_pair_def fds_def empty_ipc_def close_socket_def split: if_splits sum.splits)
  then show ?thesis
    using assms(2) pair(1,3) by (cases r) (auto simp: owners_inv_def)
next
  case (adopt s os i)
  then have "fds i = [s]" by (auto simp: ipc_of_fd_def fds_def empty_ipc_def Let_def split: if_splits)
  then show ?thesis using assms(2) adopt by (auto simp: owners_inv_def)
next
  case (moved k new old)
  have m: "mset (held ((ow_objects w)[k := old] @ [new])) = mset (held (ow_objects w))"
    using moved(3) held_update [OF moved(2), of old] held_split [OF moved(2)] by (simp add: move_construct_def)
  show ?thesis
    using owners_inv_change [OF assms(2), of "(ow_objects w)[k := old] @ [new]" "ow_log w"] moved(1) m by simp
next
  case (assigned k n this other l)
  let ?objs = "(ow_objects w)[k := this, n := other]"
  have parts: "this = ow_objects w ! n" "other = empty_ipc" "l = destroy (ow_objects w ! k) (ow_log w)"
    using assigned(5) by (simp_all add: move_assign_def)
  have n: "n < length ((ow_objects w)[k := this])" "(ow_objects w)[k := this] ! n = ow_objects w ! n"
    using assigned(3,4) by simp_all
  have "mset (fds (ow_objects w ! n)) + mset (held ?objs) = mset (held ((ow_objects w)[k := this]))"
    using held_update [OF n(1), of other] held_split [OF n(1)] n(2) parts(2) by simp
  then have h: "mset (fds (ow_objects w ! k)) + mset (held ?objs) = mset (held (ow_objects w))"
    using held_update [OF assigned(2), of this] held_split [OF assigned(2)] parts(1) by simp
  have "mset (held ?objs) + mset (log_closed l) = mset (held (ow_objects w)) + mset (log_closed (ow_log w))"
    using h by (simp add: parts(3) destroy_closes flip: h)
  moreover have "mset (held ?objs) \<subseteq># mset (held (ow_objects w))"
    using h by (metis mset_subset_eq_add_right)
  ultimately show ?thesis using owners_inv_change [OF assms(2)] assigned(1) by simp
next
  case (forked k i l)
  show ?thesis using owners_inv_use [OF assms(2) forked(2)] close_child_closes [OF forked(3)] forked(1) by simp
next
  case (sends k os as m r i l as')
  show ?thesis using owners_inv_use [OF assms(2) sends(2)] send_closes [OF sends(3)] sends(1) by simp
next
  case (receives k os as r i l as')
  show ?thesis using owners_inv_use [OF assms(2) receives(2)] receive_closes [OF receives(3)] receives(1) by simp
next
  case (destroyed k)
  have h: "mset (fds (ow_objects w ! k)) + mset (held (take k (ow_objects w) @ drop (Suc k) (ow_objects w)))
      = mset (held (ow_objects w))"
    using held_split [OF destroyed(2)] by simp
  have "mset (held (take k (ow_objects w) @ drop (Suc k) (ow_objects w))) \<subseteq># mset (held (ow_objects w))"
    using h by (metis mset_subset_eq_add_right)
  then show ?thesis
    using owners_inv_change [OF assms(2)] destroyed(1) by (simp add: destroy_closes flip: h)
qed

lemma owners_reach_inv: "owners_reach ser deser no_owners w \<Longrightarrow> owners_inv w"
  unfolding owners_reach_def
proof (induction rule: rtranclp_induct)
  case base
  show ?case by (simp add: owners_inv_def no_owners_def)
next
  case (step v w)
  then show ?case using owner_step_inv by blast
qed

text \<open>
  C33: However channels are made, moved, used and destroyed, no descriptor is closed while
  another object holds it, none is closed twice and none is lost: it was opened once more
  often than closed when an object holds it, and as often as closed when none does.
\<close>

theorem descriptors_closed_once:
  assumes "owners_reach ser deser no_owners w"
  shows "distinct (held (ow_objects w))
    \<and> (\<forall>s. count (mset (ow_opened w)) s
           = count (mset (log_closed (ow_log w))) s + (if s \<in> set (held (ow_objects w)) then 1 else 0))"
proof -
  have inv: "owners_inv w" using owners_reach_inv [OF assms] .
  then have d: "distinct (held (ow_objects w))" by (simp add: owners_inv_def)
  then have c: "count (mset (held (ow_objects w))) s = (if s \<in> set (held (ow_objects w)) then 1 else 0)" for s
    by (simp add: distinct_count_atmost_1)
  have "count (mset (ow_opened w)) s = count (mset (held (ow_objects w))) s + count (mset (log_closed (ow_log w))) s" for s
    using inv unfolding owners_inv_def by (metis count_union)
  with d c show ?thesis by simp
qed

section \<open>A process argument\<close>

lemma socket_string_round_trip:
  assumes "- (2 ^ 31) \<le> s" "s < 2 ^ 31"
  shows "socket_from_string (socket_to_string s) = Some s"
proof -
  have "from_chars (int_string s) = Some (s, [])" using assms by (intro from_chars_int_string) simp_all
  then show ?thesis using assms by (simp add: socket_from_string_def socket_to_string_def)
qed

section \<open>Concrete runs\<close>

definition sample_os :: ipc_os where
  "sample_os = \<lparr> os_eintr = 4, os_eagain = 11, os_ewouldblock = 11, os_socketpair = Some (3, 4),
     os_getfl = (\<lambda>_. 2), os_setfl = (\<lambda>_ _. 0), os_nonblock = 2048 \<rparr>"

abbreviation plain_ser :: "bytes \<Rightarrow> string + bytes" where "plain_ser \<equiv> Inr"

lemma plain_codec: "codec_laws plain_ser plain_ser"
  by (simp add: codec_laws_def)

text \<open>Two bytes sent in three pieces, and read with an interrupted call in between.\<close>

definition sample_sent :: "bytes channel" where
  "sample_sent = (fresh_channel 3 4)\<lparr> ch_wire := [0, 0, 0, 2, 7, 8], ch_sent := [[7, 8]] \<rparr>"

definition sample_received :: "bytes channel" where
  "sample_received = (fresh_channel 3 4)\<lparr> ch_sent := [[7, 8]], ch_got := [[7, 8]] \<rparr>"

lemma frame_2: "frame [7, 8] = [0, 0, 0, 2, 7, 8]"
  by code_simp

lemma plain_payload [simp]: "payload_of plain_ser m = m"
  by (simp add: payload_of_def)

lemma plain_sendable: "length m < 1000 \<Longrightarrow> sendable plain_ser m"
  by (simp add: sendable_def fits_def)

lemma sample_send: "channel_step sample_os plain_ser plain_ser (fresh_channel 3 4) sample_sent"
proof -
  have "send_message sample_os plain_ser [Took 3, SendFailed 4, Took 1, Took 2] [7, 8]
      (ch_sender (fresh_channel 3 4 :: bytes channel)) \<lparr> log_closed = [], log_taken = [] \<rparr>
    = Some (Returned (), ch_sender (fresh_channel 3 4 :: bytes channel),
        \<lparr> log_closed = [], log_taken = [0, 0, 0, 2, 7, 8] \<rparr>, [])"
    by (subst send_message_open)
      (simp_all add: plain_sendable frame_2 fresh_channel_def empty_ipc_def is_open_def INVALID_OS_SOCKET_def
        sample_os_def is_interrupted_error_def)
  from channel_step.send [OF this, of plain_ser] show ?thesis
    by (simp add: sample_sent_def fresh_channel_def empty_ipc_def is_open_def INVALID_OS_SOCKET_def
        sendable_def fits_def)
qed

lemma sample_receive: "channel_step sample_os plain_ser plain_ser sample_sent sample_received"
proof -
  have "receive_message sample_os plain_ser [Got [0, 0, 0, 2, 7], RecvFailed 4, Got [8], RecvFailed 11]
      (ch_receiver (sample_sent :: bytes channel)) \<lparr> log_closed = [], log_taken = [] \<rparr>
    = Some (Returned (Some [7, 8]), ch_receiver sample_sent, \<lparr> log_closed = [], log_taken = [] \<rparr>, [])"
    by code_simp
  from channel_step.receive [OF this, of "[]" plain_ser] show ?thesis
    by (simp add: sample_sent_def sample_received_def fresh_channel_def empty_ipc_def is_open_def
        INVALID_OS_SOCKET_def)
qed

theorem channel_is_queue_witness:
  "channel_reach sample_os plain_ser plain_ser (fresh_channel 3 4) sample_received
   \<and> prefix (ch_got sample_received) (ch_sent sample_received) \<and> ch_got sample_received = [[7, 8]]"
proof -
  have r: "channel_reach sample_os plain_ser plain_ser (fresh_channel 3 4) sample_received"
    unfolding channel_reach_def using sample_send sample_receive by (meson converse_rtranclp_into_rtranclp rtranclp.rtrancl_refl)
  show ?thesis
    using channel_is_queue [OF plain_codec r] r by (simp add: sample_received_def fresh_channel_def)
qed

text \<open>The peer sent the message and closed: the message is read and never returned.\<close>

theorem closing_loses_messages_witness:
  "\<exists>e i' l'. receive_message sample_os plain_ser [Got [0, 0, 0, 2, 7, 8], Got []] (empty_ipc\<lparr> fd := 4 \<rparr>)
       \<lparr> log_closed = [], log_taken = [] \<rparr> = Some (Thrown e, i', l', [])
     \<and> next_frame (recv_buffer i') = Some ([7, 8], []) \<and> \<not> is_open i'"
proof -
  have o: "is_open (empty_ipc\<lparr> fd := 4 \<rparr>)" by (simp add: is_open_def INVALID_OS_SOCKET_def)
  have nf: "next_frame [0, 0, 0, 2, 7, 8] = Some ([7, 8], [])" by code_simp
  obtain e i' l' where "receive_message sample_os plain_ser (map Got [[0, 0, 0, 2, 7, 8]] @ Got [] # [])
        (empty_ipc\<lparr> fd := 4 \<rparr>) \<lparr> log_closed = [], log_taken = [] \<rparr> = Some (Thrown e, i', l', [])"
      "\<not> is_open i'" "recv_buffer i' = recv_buffer (empty_ipc\<lparr> fd := 4 \<rparr>) @ concat [[0, 0, 0, 2, 7, 8]]"
    using closing_loses_messages [OF o, of "[[0, 0, 0, 2, 7, 8]]" sample_os plain_ser "[]"
        "\<lparr> log_closed = [], log_taken = [] \<rparr>"] by auto
  then show ?thesis
    using nf by (intro exI [of _ e] exI [of _ i'] exI [of _ l']) (simp add: empty_ipc_def)
qed

theorem full_socket_keeps_message_witness:
  "\<exists>i1 i2. send_message sample_os plain_ser [SendFailed 11] [7, 8] (empty_ipc\<lparr> fd := 3 \<rparr>)
        \<lparr> log_closed = [], log_taken = [] \<rparr> = Some (Returned (), i1, \<lparr> log_closed = [], log_taken = [] \<rparr>, [])
      \<and> receive_message sample_os plain_ser [RecvFailed 11] i1 \<lparr> log_closed = [], log_taken = [] \<rparr>
        = Some (Returned None, i2, \<lparr> log_closed = [], log_taken = [] \<rparr>, [])
      \<and> send_buffer i2 = [0, 0, 0, 2, 7, 8]"
proof -
  let ?l = "\<lparr> log_closed = [], log_taken = [] \<rparr>" and ?i = "empty_ipc\<lparr> fd := 3 \<rparr>"
  let ?j = "\<lparr> fd = 3, child_fd = -1, recv_buffer = [], send_buffer = [0, 0, 0, 2, 7, 8] \<rparr>"
  have s: "send_message sample_os plain_ser [SendFailed 11] [7, 8] ?i ?l = Some (Returned (), ?j, ?l, [])"
    by (subst send_message_open)
      (simp_all add: plain_sendable frame_2 empty_ipc_def is_open_def INVALID_OS_SOCKET_def
        sample_os_def is_interrupted_error_def is_would_block_error_def)
  have r: "receive_message sample_os plain_ser [RecvFailed 11] ?j ?l = Some (Returned None, ?j, ?l, [])"
    by code_simp
  have "is_open ?i" "sendable plain_ser ([7, 8] :: bytes)" "is_would_block_error sample_os 11"
      "\<not> is_interrupted_error sample_os 11"
    by (simp_all add: is_open_def INVALID_OS_SOCKET_def sendable_def fits_def is_would_block_error_def
        is_interrupted_error_def sample_os_def)
  from full_socket_keeps_message [OF this s r] frame_2
  have "send_buffer ?j = [0, 0, 0, 2, 7, 8]" by (simp add: empty_ipc_def)
  with s r show ?thesis by blast
qed

text \<open>A pair is made, the child's end closed after the fork, the object moved and destroyed.\<close>

theorem descriptors_closed_once_witness:
  "\<exists>w. owners_reach plain_ser plain_ser no_owners w \<and> ow_opened w = [3, 4] \<and> ow_objects w = [empty_ipc]
     \<and> count (mset (log_closed (ow_log w))) 3 = 1 \<and> count (mset (log_closed (ow_log w))) 4 = 1"
proof -
  let ?l = "\<lambda>c. \<lparr> log_closed = c, log_taken = [] \<rparr>" and ?i = "empty_ipc\<lparr> fd := 3 \<rparr>"
  let ?w1 = "\<lparr> ow_objects = [?i\<lparr> child_fd := 4 \<rparr>], ow_opened = [3, 4], ow_log = ?l [] \<rparr>"
  let ?w2 = "\<lparr> ow_objects = [?i], ow_opened = [3, 4], ow_log = ?l [4] \<rparr>"
  let ?w3 = "\<lparr> ow_objects = [empty_ipc, ?i], ow_opened = [3, 4], ow_log = ?l [4] \<rparr>"
  let ?w4 = "\<lparr> ow_objects = [empty_ipc], ow_opened = [3, 4], ow_log = ?l [4, 3] \<rparr>"
  have "owner_step plain_ser plain_ser no_owners ?w1"
    using owner_step.pair [of sample_os 3 4 no_owners "Some (?i\<lparr> child_fd := 4 \<rparr>)" "?l []" plain_ser plain_ser]
    by (simp add: no_owners_def sample_os_def INVALID_OS_SOCKET_def create_def ipc_of_pair_def
        set_non_blocking_def)
  moreover have "owner_step plain_ser plain_ser ?w1 ?w2"
    using owner_step.forked [of 0 ?w1 ?i "?l [4]" plain_ser plain_ser]
    by (simp add: close_child_fd_def close_socket_def INVALID_OS_SOCKET_def empty_ipc_def)
  moreover have "owner_step plain_ser plain_ser ?w2 ?w3"
    using owner_step.moved [of 0 ?w2 ?i empty_ipc plain_ser plain_ser] by (simp add: move_construct_def)
  moreover have "owner_step plain_ser plain_ser ?w3 ?w4"
    using owner_step.destroyed [of 1 ?w3 plain_ser plain_ser]
    by (simp add: destroy_def close_socket_def INVALID_OS_SOCKET_def empty_ipc_def)
  ultimately have r: "owners_reach plain_ser plain_ser no_owners ?w4"
    unfolding owners_reach_def by (meson converse_rtranclp_into_rtranclp rtranclp.rtrancl_refl)
  have closed: "count (mset (log_closed (ow_log ?w4))) s = count (mset (ow_opened ?w4)) s" for s
    using descriptors_closed_once [OF r] by simp
  have "count (mset (log_closed (ow_log ?w4))) 3 = 1" "count (mset (log_closed (ow_log ?w4))) 4 = 1"
    unfolding closed by simp_all
  then show ?thesis using r by (intro exI [of _ ?w4]) simp
qed

end
