(* ===== verification/PfrCodec.thy ===== *)
theory PfrCodec
  imports Decimal
begin

text \<open>
  The codec of C++ aggregates into protocol values (src/include/luxon/server/pfr_codec.hpp):
  a template that is instantiated for a type and walks it at compile time. Here the type is
  an argument, a descriptor (\<^theory_text>\<open>ty\<close>) with a constructor per case of the template, and a value
  of the type a \<^theory_text>\<open>datum\<close>. The class \<^theory_text>\<open>Value\<close> is the protocol library's and a parameter.
\<close>

section \<open>Types and values\<close>

text \<open>The types a protocol value can hold as they are.\<close>

datatype native = NBool | NByte | NInt16 | NInt32 | NInt64 | NFloat | NDouble | NString
  | NDictionary | NGenericDictionary | NHashtable | NRawCustom
  | NJagged | NEvent | NRequest | NResponse | NPreSerialized

text \<open>
  The C++ types the template takes. Integers are given by sign and width; the underlying type
  of an enumeration is one of the native integers; a struct is its fields; the alternatives
  of a message are those of the library's variant.
\<close>

datatype ty = TValue | TMessage "ty list" | TNull | TOptional ty | TByte | TEnum native | TString | TBool
  | TInt bool nat | TFloat | TDouble | THashtable | TVector ty | TArray ty nat | TPair ty ty
  | TTuple "ty list" | TVariant "ty list" | TMap ty ty | TNative native | TStruct "ty list"

datatype 'o prim = PBool bool | PInt int | PText string | PObj 'o

datatype 'o number = Whole int | Real 'o

text \<open>
  Maps are the entries in the order of iteration. \<^theory_text>\<open>DMsg\<close> is a message with its flag.
\<close>

datatype ('v, 'o) datum = DValue 'v | DNull | DNone | DSome "('v, 'o) datum" | DPrim "'o prim"
  | DSeq "('v, 'o) datum list" | DAlt nat "('v, 'o) datum" | DValueless
  | DMap "(('v, 'o) datum \<times> ('v, 'o) datum) list" | DMsg bool "('v, 'o) datum"

text \<open>
  The protocol library's values: construction from a native type and the typed access
  (\<^theory_text>\<open>get_ptr\<close>), the same for vectors of native types; lists of values; a value that borrows
  the object instead of copying it; the number a value holds; objects of the library
  (\<^theory_text>\<open>va_is\<close>: of which type) with the shared pointer to a hash table; the conversion of a
  floating number; \<^theory_text>\<open>insert_or_assign\<close> of a map.
\<close>

record ('v, 'o) value_api =
  va_null :: 'v
  va_is_null :: "'v \<Rightarrow> bool"
  va_kind :: "'v \<Rightarrow> nat"
  va_of :: "native \<Rightarrow> 'o prim \<Rightarrow> 'v"
  va_get :: "native \<Rightarrow> 'v \<Rightarrow> 'o prim option"
  va_of_vec :: "native \<Rightarrow> 'o prim list \<Rightarrow> 'v"
  va_vec :: "native \<Rightarrow> 'v \<Rightarrow> 'o prim list option"
  va_of_objects :: "'v list \<Rightarrow> 'v"
  va_objects :: "'v \<Rightarrow> 'v list option"
  va_jagged :: "'v \<Rightarrow> 'v list option"
  va_borrow :: "'v \<Rightarrow> 'v"
  va_number :: "'v \<Rightarrow> 'o number option"
  va_trunc :: "bool \<Rightarrow> nat \<Rightarrow> 'o \<Rightarrow> int"
  va_is :: "native \<Rightarrow> 'o \<Rightarrow> bool"
  va_is_table :: "'o \<Rightarrow> bool"
  va_share :: "'o \<Rightarrow> 'o"
  va_deref :: "'o \<Rightarrow> 'o option"
  va_put :: "('v, 'o) datum \<Rightarrow> ('v, 'o) datum \<Rightarrow> (('v, 'o) datum \<times> ('v, 'o) datum) list
    \<Rightarrow> (('v, 'o) datum \<times> ('v, 'o) datum) list"

record options =
  max_depth :: nat
  zero_copy :: bool

definition default_options :: options where
  "default_options = \<lparr> max_depth = 64, zero_copy = False \<rparr>"

record codec_error =
  er_path :: string
  er_message :: string

type_synonym 'a result = "codec_error + 'a"

section \<open>Helpers\<close>

definition child_path :: "string \<Rightarrow> nat \<Rightarrow> string" where
  "child_path base index = base @ ''['' @ nat_string index @ '']''"

definition kind_names :: "string list" where
  "kind_names = [''null'', ''bool'', ''byte'', ''int16'', ''int32'', ''int64'', ''float'', ''double'', ''string'',
     ''bytes'', ''bool[]'', ''int16[]'', ''int32[]'', ''int64[]'', ''float[]'', ''double[]'', ''string[]'', ''object[]'',
     ''jagged[]'', ''dictionary'', ''generic_dictionary'', ''hashtable'', ''custom'', ''event'', ''operation_request'',
     ''operation_response'', ''dictionary[]'', ''generic_dictionary[]'', ''hashtable[]'', ''custom[]'', ''pre_serialized'']"

definition value_kind :: "('v, 'o) value_api \<Rightarrow> 'v \<Rightarrow> string" where
  "value_kind va v = kind_names ! va_kind va v"

definition fail :: "string \<Rightarrow> string \<Rightarrow> 'a result" where
  "fail path message = Inl \<lparr> er_path = path, er_message = message \<rparr>"

definition type_error :: "('v, 'o) value_api \<Rightarrow> string \<Rightarrow> string \<Rightarrow> 'v \<Rightarrow> 'a result" where
  "type_error va path expected v = fail path (''expected '' @ expected @ '', got '' @ value_kind va v)"

definition as_list_ptr :: "('v, 'o) value_api \<Rightarrow> 'v \<Rightarrow> 'v list option" where
  "as_list_ptr va v = (case va_objects va v of Some xs \<Rightarrow> Some xs | None \<Rightarrow> va_jagged va v)"

text \<open>The test both directions start with.\<close>

definition deep :: "options \<Rightarrow> string \<Rightarrow> nat \<Rightarrow> 'a result \<Rightarrow> 'a result" where
  "deep opt path depth r = (if max_depth opt < depth then fail path ''maximum nesting depth exceeded'' else r)"

text \<open>A datum that is not of the type is not a C++ value; this stands for what cannot be written.\<close>

definition ill_typed :: "string \<Rightarrow> 'a result" where
  "ill_typed path = fail path ''no value of the type''"

text \<open>The integer types that are native, and \<^theory_text>\<open>static_cast\<close> between integer types.\<close>

definition exact_int :: "bool \<Rightarrow> nat \<Rightarrow> native option" where
  "exact_int sg w = (if \<not> sg \<and> w = 8 then Some NByte else if sg \<and> w = 16 then Some NInt16
     else if sg \<and> w = 32 then Some NInt32 else if sg \<and> w = 64 then Some NInt64 else None)"

definition native_int :: "native \<Rightarrow> (bool \<times> nat) option" where
  "native_int n = (case n of NByte \<Rightarrow> Some (False, 8) | NInt16 \<Rightarrow> Some (True, 16) | NInt32 \<Rightarrow> Some (True, 32)
     | NInt64 \<Rightarrow> Some (True, 64) | _ \<Rightarrow> None)"

definition cast_int :: "bool \<Rightarrow> nat \<Rightarrow> int \<Rightarrow> int" where
  "cast_int sg w i = (if sg then signed_take_bit (w - 1) i else take_bit w i)"

text \<open>The element types whose vector is native.\<close>

fun elem_native :: "ty \<Rightarrow> native option" where
  "elem_native TBool = Some NBool"
| "elem_native (TInt sg w) = exact_int sg w"
| "elem_native TFloat = Some NFloat"
| "elem_native TDouble = Some NDouble"
| "elem_native TString = Some NString"
| "elem_native (TNative n) = (if n \<in> {NDictionary, NGenericDictionary, NHashtable, NRawCustom} then Some n else None)"
| "elem_native _ = None"

fun as_prim :: "('v, 'o) datum \<Rightarrow> 'o prim option" where
  "as_prim (DPrim p) = Some p"
| "as_prim _ = None"

fun as_value :: "('v, 'o) datum \<Rightarrow> 'v option" where
  "as_value (DValue v) = Some v"
| "as_value _ = None"

definition native_value :: "('v, 'o) value_api \<Rightarrow> options \<Rightarrow> 'v \<Rightarrow> 'v" where
  "native_value va opt v = (if zero_copy opt then va_borrow va v else v)"

section \<open>Encoding\<close>

text \<open>The parts of a sequence, each at its own path and one level deeper.\<close>

fun encode_list :: "('d \<Rightarrow> string \<Rightarrow> nat \<Rightarrow> 'v result) list \<Rightarrow> 'd list \<Rightarrow> string \<Rightarrow> nat \<Rightarrow> nat \<Rightarrow> 'v list result" where
  "encode_list (f # fs) (d # ds) path depth i =
    (case f d (child_path path i) (depth + 1) of
       Inl e \<Rightarrow> Inl e
     | Inr v \<Rightarrow>
        (case encode_list fs ds path depth (i + 1) of Inl e \<Rightarrow> Inl e | Inr vs \<Rightarrow> Inr (v # vs)))"
| "encode_list _ _ path depth i = Inr []"

definition encode_int :: "('v, 'o) value_api \<Rightarrow> options \<Rightarrow> bool \<Rightarrow> nat \<Rightarrow> ('v, 'o) datum \<Rightarrow> string \<Rightarrow> nat \<Rightarrow> 'v result" where
  "encode_int va opt sg w d path depth = deep opt path depth
    (case d of
       DPrim (PInt i) \<Rightarrow> Inr
        (case exact_int sg w of
           Some n \<Rightarrow> va_of va n (PInt i)
         | None \<Rightarrow> if w \<le> 16 then va_of va NInt32 (PInt (cast_int True 32 i))
                   else va_of va NInt64 (PInt (cast_int True 64 i)))
     | _ \<Rightarrow> ill_typed path)"

definition encode_prim :: "('v, 'o) value_api \<Rightarrow> native \<Rightarrow> ('v, 'o) datum \<Rightarrow> string \<Rightarrow> 'v result" where
  "encode_prim va n d path = (case d of DPrim p \<Rightarrow> Inr (va_of va n p) | _ \<Rightarrow> ill_typed path)"

definition encode_range :: "('v, 'o) value_api \<Rightarrow> options \<Rightarrow> ty \<Rightarrow>
    (('v, 'o) datum \<Rightarrow> string \<Rightarrow> nat \<Rightarrow> 'v result) \<Rightarrow> ('v, 'o) datum list \<Rightarrow> string \<Rightarrow> nat \<Rightarrow> 'v result" where
  "encode_range va opt e enc ds path depth =
    (case (if e = TByte then Some NByte else elem_native e) of
       Some n \<Rightarrow>
        (case those (map as_prim ds) of Some ps \<Rightarrow> Inr (va_of_vec va n ps) | None \<Rightarrow> ill_typed path)
     | None \<Rightarrow>
        if e = TValue then
          (case those (map as_value ds) of Some vs \<Rightarrow> Inr (va_of_objects va vs) | None \<Rightarrow> ill_typed path)
        else if e = THashtable then
          (case those (map as_prim ds) of
             Some ps \<Rightarrow> Inr (va_of_vec va NHashtable (map (\<lambda>p. case p of PObj x \<Rightarrow> PObj (va_share va x) | _ \<Rightarrow> p) ps))
           | None \<Rightarrow> ill_typed path)
        else
          (case encode_list (replicate (length ds) enc) ds path depth 0 of
             Inl err \<Rightarrow> Inl err
           | Inr vs \<Rightarrow> Inr (va_of_objects va vs)))"

definition encode_tuple :: "('v, 'o) value_api \<Rightarrow> (('v, 'o) datum \<Rightarrow> string \<Rightarrow> nat \<Rightarrow> 'v result) list
    \<Rightarrow> ('v, 'o) datum \<Rightarrow> string \<Rightarrow> nat \<Rightarrow> 'v result" where
  "encode_tuple va encs d path depth =
    (case d of
       DSeq ds \<Rightarrow>
        if length ds \<noteq> length encs then ill_typed path
        else (case encode_list encs ds path depth 0 of
                Inl e \<Rightarrow> Inl e
              | Inr vs \<Rightarrow> Inr (va_of_objects va vs))
     | _ \<Rightarrow> ill_typed path)"

definition encode_variant :: "('v, 'o) value_api \<Rightarrow> options \<Rightarrow> (('v, 'o) datum \<Rightarrow> string \<Rightarrow> nat \<Rightarrow> 'v result) list
    \<Rightarrow> ('v, 'o) datum \<Rightarrow> string \<Rightarrow> nat \<Rightarrow> 'v result" where
  "encode_variant va opt encs d path depth = deep opt path depth
    (case d of
       DValueless \<Rightarrow> fail path ''variant is valueless_by_exception''
     | DAlt i x \<Rightarrow>
        if length encs \<le> i then ill_typed path
        else (case (encs ! i) x (child_path path 1) (depth + 1) of
                Inl e \<Rightarrow> Inl e
              | Inr v \<Rightarrow> Inr (va_of_objects va [va_of va NInt32 (PInt (cast_int True 32 (int i))), v]))
     | _ \<Rightarrow> ill_typed path)"

fun encode_entries :: "('v, 'o) value_api \<Rightarrow> (('v, 'o) datum \<Rightarrow> string \<Rightarrow> nat \<Rightarrow> 'v result)
    \<Rightarrow> (('v, 'o) datum \<Rightarrow> string \<Rightarrow> nat \<Rightarrow> 'v result)
    \<Rightarrow> (('v, 'o) datum \<times> ('v, 'o) datum) list \<Rightarrow> string \<Rightarrow> nat \<Rightarrow> nat \<Rightarrow> 'v list result" where
  "encode_entries va ek em [] path depth i = Inr []"
| "encode_entries va ek em ((k, m) # rest) path depth i =
    (case ek k (child_path (child_path path i) 0) (depth + 1) of
       Inl e \<Rightarrow> Inl e
     | Inr kv \<Rightarrow>
        (case em m (child_path (child_path path i) 1) (depth + 1) of
           Inl e \<Rightarrow> Inl e
         | Inr mv \<Rightarrow>
            (case encode_entries va ek em rest path depth (i + 1) of
               Inl e \<Rightarrow> Inl e
             | Inr vs \<Rightarrow> Inr (va_of_objects va [kv, mv] # vs))))"

primrec encode :: "ty \<Rightarrow> ('v, 'o) value_api \<Rightarrow> options \<Rightarrow> ('v, 'o) datum \<Rightarrow> string \<Rightarrow> nat \<Rightarrow> 'v result" where
  "encode TValue va opt d path depth = deep opt path depth
     (case d of DValue v \<Rightarrow> Inr v | _ \<Rightarrow> ill_typed path)"
| "encode (TMessage ts) va opt d path depth = deep opt path depth
     (case d of
        DMsg b x \<Rightarrow>
         (case encode_variant va opt (map (\<lambda>f. f va opt) (map encode ts)) x (child_path path 1) (depth + 1) of
            Inl e \<Rightarrow> Inl e
          | Inr v \<Rightarrow> Inr (va_of_objects va [va_of va NBool (PBool b), v]))
      | _ \<Rightarrow> ill_typed path)"
| "encode TNull va opt d path depth = deep opt path depth (Inr (va_null va))"
| "encode (TOptional t) va opt d path depth = deep opt path depth
     (case d of
        DNone \<Rightarrow> Inr (va_null va)
      | DSome x \<Rightarrow> encode t va opt x path (depth + 1)
      | _ \<Rightarrow> ill_typed path)"
| "encode TByte va opt d path depth = deep opt path depth (encode_prim va NByte d path)"
| "encode (TEnum n) va opt d path depth = deep opt path depth
     (case native_int n of
        Some (sg, w) \<Rightarrow> encode_int va opt sg w d path (depth + 1)
      | None \<Rightarrow> ill_typed path)"
| "encode TString va opt d path depth = deep opt path depth
     (case d of DPrim p \<Rightarrow> Inr (native_value va opt (va_of va NString p)) | _ \<Rightarrow> ill_typed path)"
| "encode TBool va opt d path depth = deep opt path depth (encode_prim va NBool d path)"
| "encode (TInt sg w) va opt d path depth = encode_int va opt sg w d path depth"
| "encode TFloat va opt d path depth = deep opt path depth (encode_prim va NFloat d path)"
| "encode TDouble va opt d path depth = deep opt path depth (encode_prim va NDouble d path)"
| "encode THashtable va opt d path depth = deep opt path depth
     (case d of DPrim (PObj x) \<Rightarrow> Inr (va_of va NHashtable (PObj (va_share va x))) | _ \<Rightarrow> ill_typed path)"
| "encode (TVector t) va opt d path depth = deep opt path depth
     (case d of
        DSeq ds \<Rightarrow>
         (case encode_range va opt t (encode t va opt) ds path depth of
            Inl e \<Rightarrow> Inl e
          | Inr v \<Rightarrow> Inr (if elem_native t \<noteq> None \<or> t = TValue then native_value va opt v else v))
      | _ \<Rightarrow> ill_typed path)"
| "encode (TArray t n) va opt d path depth = deep opt path depth
     (case d of DSeq ds \<Rightarrow> encode_range va opt t (encode t va opt) ds path depth | _ \<Rightarrow> ill_typed path)"
| "encode (TPair a b) va opt d path depth = deep opt path depth
     (encode_tuple va [encode a va opt, encode b va opt] d path depth)"
| "encode (TTuple ts) va opt d path depth = deep opt path depth
     (encode_tuple va (map (\<lambda>f. f va opt) (map encode ts)) d path depth)"
| "encode (TVariant ts) va opt d path depth =
     encode_variant va opt (map (\<lambda>f. f va opt) (map encode ts)) d path depth"
| "encode (TMap k m) va opt d path depth = deep opt path depth
     (case d of
        DMap es \<Rightarrow>
         (case encode_entries va (encode k va opt) (encode m va opt) es path depth 0 of
            Inl e \<Rightarrow> Inl e
          | Inr vs \<Rightarrow> Inr (va_of_objects va vs))
      | _ \<Rightarrow> ill_typed path)"
| "encode (TNative n) va opt d path depth = deep opt path depth
     (case d of DPrim p \<Rightarrow> Inr (native_value va opt (va_of va n p)) | _ \<Rightarrow> ill_typed path)"
| "encode (TStruct ts) va opt d path depth = deep opt path depth
     (encode_tuple va (map (\<lambda>f. f va opt) (map encode ts)) d path depth)"

section \<open>Decoding\<close>

fun decode_list :: "('v \<Rightarrow> string \<Rightarrow> nat \<Rightarrow> 'd result) list \<Rightarrow> 'v list \<Rightarrow> string \<Rightarrow> nat \<Rightarrow> nat \<Rightarrow> 'd list result" where
  "decode_list (f # fs) (v # vs) path depth i =
    (case f v (child_path path i) (depth + 1) of
       Inl e \<Rightarrow> Inl e
     | Inr d \<Rightarrow>
        (case decode_list fs vs path depth (i + 1) of Inl e \<Rightarrow> Inl e | Inr ds \<Rightarrow> Inr (d # ds)))"
| "decode_list _ _ path depth i = Inr []"

definition decode_prim :: "('v, 'o) value_api \<Rightarrow> native \<Rightarrow> string \<Rightarrow> 'v \<Rightarrow> string \<Rightarrow> ('v, 'o) datum result" where
  "decode_prim va n expected v path =
    (case va_get va n v of Some p \<Rightarrow> Inr (DPrim p) | None \<Rightarrow> type_error va path expected v)"

definition decode_int :: "('v, 'o) value_api \<Rightarrow> options \<Rightarrow> bool \<Rightarrow> nat \<Rightarrow> 'v \<Rightarrow> string \<Rightarrow> nat \<Rightarrow> ('v, 'o) datum result" where
  "decode_int va opt sg w v path depth = deep opt path depth
    (case exact_int sg w of
       Some n \<Rightarrow> decode_prim va n ''numeric type'' v path
     | None \<Rightarrow>
        (case va_number va v of
           Some (Whole i) \<Rightarrow> Inr (DPrim (PInt (cast_int sg w i)))
         | Some (Real r) \<Rightarrow> Inr (DPrim (PInt (va_trunc va sg w r)))
         | None \<Rightarrow> type_error va path ''numeric type'' v))"

fun deref_tables :: "('v, 'o) value_api \<Rightarrow> 'o prim list \<Rightarrow> string \<Rightarrow> nat \<Rightarrow> ('v, 'o) datum list result" where
  "deref_tables va [] path i = Inr []"
| "deref_tables va (p # ps) path i =
    (case (case p of PObj x \<Rightarrow> va_deref va x | _ \<Rightarrow> None) of
       None \<Rightarrow> fail (child_path path i) ''null hashtable pointer''
     | Some x \<Rightarrow>
        (case deref_tables va ps path (i + 1) of Inl e \<Rightarrow> Inl e | Inr ds \<Rightarrow> Inr (DPrim (PObj x) # ds)))"

definition try_direct_vector :: "('v, 'o) value_api \<Rightarrow> ty \<Rightarrow> 'v \<Rightarrow> string \<Rightarrow> ('v, 'o) datum list result option" where
  "try_direct_vector va t v path =
    (case (if t = TByte then Some NByte else elem_native t) of
       Some n \<Rightarrow> map_option (\<lambda>ps. Inr (map DPrim ps)) (va_vec va n v)
     | None \<Rightarrow>
        if t = TValue then map_option (\<lambda>vs. Inr (map DValue vs)) (as_list_ptr va v)
        else if t = THashtable then map_option (\<lambda>ps. deref_tables va ps path 0) (va_vec va NHashtable v)
        else None)"

definition decode_vector :: "('v, 'o) value_api \<Rightarrow> options \<Rightarrow> ty \<Rightarrow> ('v \<Rightarrow> string \<Rightarrow> nat \<Rightarrow> ('v, 'o) datum result)
    \<Rightarrow> 'v \<Rightarrow> string \<Rightarrow> nat \<Rightarrow> ('v, 'o) datum list result" where
  "decode_vector va opt t dec v path depth = deep opt path depth
    (case try_direct_vector va t v path of
       Some r \<Rightarrow> r
     | None \<Rightarrow>
        (case as_list_ptr va v of
           Some xs \<Rightarrow> decode_list (replicate (length xs) dec) xs path depth 0
         | None \<Rightarrow> type_error va path ''vector/list'' v))"

text \<open>Pairs, tuples and structs differ in their messages only.\<close>

definition decode_tuple :: "('v, 'o) value_api \<Rightarrow> string \<Rightarrow> (nat \<Rightarrow> string)
    \<Rightarrow> ('v \<Rightarrow> string \<Rightarrow> nat \<Rightarrow> ('v, 'o) datum result) list \<Rightarrow> 'v \<Rightarrow> string \<Rightarrow> nat \<Rightarrow> ('v, 'o) datum result" where
  "decode_tuple va expected size_message decs v path depth =
    (case as_list_ptr va v of
       None \<Rightarrow> type_error va path expected v
     | Some xs \<Rightarrow>
        if length xs \<noteq> length decs then fail path (size_message (length xs))
        else (case decode_list decs xs path depth 0 of Inl e \<Rightarrow> Inl e | Inr ds \<Rightarrow> Inr (DSeq ds)))"

definition decode_variant_alt :: "nat \<Rightarrow> ('v \<Rightarrow> string \<Rightarrow> nat \<Rightarrow> ('v, 'o) datum result) list \<Rightarrow> 'v \<Rightarrow> string \<Rightarrow> nat
    \<Rightarrow> ('v, 'o) datum result" where
  "decode_variant_alt index decs v path depth =
    (if length decs \<le> index then fail path ''variant index out of range''
     else (case (decs ! index) v path depth of Inl e \<Rightarrow> Inl e | Inr d \<Rightarrow> Inr (DAlt index d)))"

definition decode_variant :: "('v, 'o) value_api \<Rightarrow> options \<Rightarrow> ('v \<Rightarrow> string \<Rightarrow> nat \<Rightarrow> ('v, 'o) datum result) list
    \<Rightarrow> 'v \<Rightarrow> string \<Rightarrow> nat \<Rightarrow> ('v, 'o) datum result" where
  "decode_variant va opt decs v path depth = deep opt path depth
    (case as_list_ptr va v of
       None \<Rightarrow> type_error va path ''variant list[2]'' v
     | Some xs \<Rightarrow>
        if length xs \<noteq> 2 then fail path ''expected variant encoded as list of size 2''
        else (case decode_int va opt False 64 (xs ! 0) (child_path path 0) (depth + 1) of
                Inl e \<Rightarrow> Inl e
              | Inr (DPrim (PInt i)) \<Rightarrow> decode_variant_alt (nat i) decs (xs ! 1) (child_path path 1) (depth + 1)
              | Inr _ \<Rightarrow> ill_typed path))"

fun decode_entries :: "('v, 'o) value_api \<Rightarrow> ('v \<Rightarrow> string \<Rightarrow> nat \<Rightarrow> ('v, 'o) datum result)
    \<Rightarrow> ('v \<Rightarrow> string \<Rightarrow> nat \<Rightarrow> ('v, 'o) datum result)
    \<Rightarrow> 'v list \<Rightarrow> (('v, 'o) datum \<times> ('v, 'o) datum) list \<Rightarrow> string \<Rightarrow> nat \<Rightarrow> nat
    \<Rightarrow> (('v, 'o) datum \<times> ('v, 'o) datum) list result" where
  "decode_entries va dk dm [] out path depth i = Inr out"
| "decode_entries va dk dm (v # vs) out path depth i =
    (case as_list_ptr va v of
       None \<Rightarrow> fail (child_path path i) ''expected map entry as list of size 2''
     | Some xs \<Rightarrow>
        if length xs \<noteq> 2 then fail (child_path path i) ''expected map entry as list of size 2''
        else (case dk (xs ! 0) (child_path (child_path path i) 0) (depth + 1) of
                Inl e \<Rightarrow> Inl e
              | Inr k \<Rightarrow>
                 (case dm (xs ! 1) (child_path (child_path path i) 1) (depth + 1) of
                    Inl e \<Rightarrow> Inl e
                  | Inr m \<Rightarrow> decode_entries va dk dm vs (va_put va k m out) path depth (i + 1))))"

primrec decode :: "ty \<Rightarrow> ('v, 'o) value_api \<Rightarrow> options \<Rightarrow> 'v \<Rightarrow> string \<Rightarrow> nat \<Rightarrow> ('v, 'o) datum result" where
  "decode TValue va opt v path depth = deep opt path depth (Inr (DValue v))"
| "decode (TMessage ts) va opt v path depth = deep opt path depth
     (case as_list_ptr va v of
        None \<Rightarrow> type_error va path ''list[2]'' v
      | Some xs \<Rightarrow>
         if length xs \<noteq> 2 then fail path ''expected list of size 2 for Message''
         else (case deep opt (child_path path 0) (depth + 1) (decode_prim va NBool ''bool'' (xs ! 0) (child_path path 0)) of
                 Inl e \<Rightarrow> Inl e
               | Inr (DPrim (PBool b)) \<Rightarrow>
                  (case decode_variant va opt (map (\<lambda>f. f va opt) (map decode ts)) (xs ! 1) (child_path path 1) (depth + 1) of
                     Inl e \<Rightarrow> Inl e
                   | Inr d \<Rightarrow> Inr (DMsg b d))
               | Inr _ \<Rightarrow> ill_typed path))"
| "decode TNull va opt v path depth = deep opt path depth
     (if va_is_null va v then Inr DNull else type_error va path ''null'' v)"
| "decode (TOptional t) va opt v path depth = deep opt path depth
     (if va_is_null va v then Inr DNone
      else case decode t va opt v path (depth + 1) of Inl e \<Rightarrow> Inl e | Inr d \<Rightarrow> Inr (DSome d))"
| "decode TByte va opt v path depth = deep opt path depth
     (decode_prim va NByte ''uint8_t (for std::byte)'' v path)"
| "decode (TEnum n) va opt v path depth = deep opt path depth
     (decode_prim va n ''exact underlying enum type'' v path)"
| "decode TString va opt v path depth = deep opt path depth (decode_prim va NString ''string'' v path)"
| "decode TBool va opt v path depth = deep opt path depth (decode_prim va NBool ''bool'' v path)"
| "decode (TInt sg w) va opt v path depth = decode_int va opt sg w v path depth"
| "decode TFloat va opt v path depth = deep opt path depth (decode_prim va NFloat ''numeric type'' v path)"
| "decode TDouble va opt v path depth = deep opt path depth (decode_prim va NDouble ''numeric type'' v path)"
| "decode THashtable va opt v path depth = ill_typed path"
| "decode (TVector t) va opt v path depth =
     (case decode_vector va opt t (decode t va opt) v path depth of Inl e \<Rightarrow> Inl e | Inr ds \<Rightarrow> Inr (DSeq ds))"
| "decode (TArray t n) va opt v path depth = deep opt path depth
     (case decode_vector va opt t (decode t va opt) v path (depth + 1) of
        Inl e \<Rightarrow> Inl e
      | Inr ds \<Rightarrow>
         if length ds \<noteq> n
         then fail path (''expected array of size '' @ nat_string n @ '', got '' @ nat_string (length ds))
         else Inr (DSeq ds))"
| "decode (TPair a b) va opt v path depth = deep opt path depth
     (decode_tuple va ''list[2]'' (\<lambda>m. ''expected pair encoded as list of size 2'')
        [decode a va opt, decode b va opt] v path depth)"
| "decode (TTuple ts) va opt v path depth = deep opt path depth
     (decode_tuple va ''list/tuple''
        (\<lambda>m. ''expected tuple of size '' @ nat_string (length ts) @ '', got '' @ nat_string m)
        (map (\<lambda>f. f va opt) (map decode ts)) v path depth)"
| "decode (TVariant ts) va opt v path depth =
     decode_variant va opt (map (\<lambda>f. f va opt) (map decode ts)) v path depth"
| "decode (TMap k m) va opt v path depth = deep opt path depth
     (case as_list_ptr va v of
        None \<Rightarrow> type_error va path ''map/list'' v
      | Some xs \<Rightarrow>
         (case decode_entries va (decode k va opt) (decode m va opt) xs [] path depth 0 of
            Inl e \<Rightarrow> Inl e
          | Inr es \<Rightarrow> Inr (DMap es)))"
| "decode (TNative n) va opt v path depth = deep opt path depth
     (case va_get va n v of
        Some p \<Rightarrow> Inr (DPrim p)
      | None \<Rightarrow> fail path (''type mismatch; got '' @ value_kind va v))"
| "decode (TStruct ts) va opt v path depth = deep opt path depth
     (decode_tuple va ''struct/list''
        (\<lambda>m. ''expected struct field-count '' @ nat_string (length ts) @ '', got '' @ nat_string m)
        (map (\<lambda>f. f va opt) (map decode ts)) v path depth)"

definition to_value :: "ty \<Rightarrow> ('v, 'o) value_api \<Rightarrow> options \<Rightarrow> ('v, 'o) datum \<Rightarrow> 'v result" where
  "to_value t va opt d = encode t va opt d ''$'' 0"

definition from_value :: "ty \<Rightarrow> ('v, 'o) value_api \<Rightarrow> options \<Rightarrow> 'v \<Rightarrow> ('v, 'o) datum result" where
  "from_value t va opt v = decode t va opt v ''$'' 0"

text \<open>\<^theory_text>\<open>load\<close> changes the object only when the value was decoded.\<close>

definition load :: "ty \<Rightarrow> ('v, 'o) value_api \<Rightarrow> options \<Rightarrow> 'v \<Rightarrow> ('v, 'o) datum \<Rightarrow> bool \<times> ('v, 'o) datum" where
  "load t va opt v out = (case from_value t va opt v of Inl e \<Rightarrow> (False, out) | Inr d \<Rightarrow> (True, d))"

end
