(* ===== verification/PfrProps.thy ===== *)
theory PfrProps
  imports PfrCodec
begin

text \<open>
  What the codec promises: decoding yields a value of the type or an error inside the value
  that was given, an encoded value is read back, and encoding fails for two reasons only.
\<close>

section \<open>Laws of the protocol library\<close>

fun prim_ok :: "('v, 'o) value_api \<Rightarrow> native \<Rightarrow> 'o prim \<Rightarrow> bool" where
  "prim_ok va NBool p = (case p of PBool b \<Rightarrow> True | _ \<Rightarrow> False)"
| "prim_ok va NByte p = (case p of PInt i \<Rightarrow> 0 \<le> i \<and> i < 2 ^ 8 | _ \<Rightarrow> False)"
| "prim_ok va NInt16 p = (case p of PInt i \<Rightarrow> - (2 ^ 15) \<le> i \<and> i < 2 ^ 15 | _ \<Rightarrow> False)"
| "prim_ok va NInt32 p = (case p of PInt i \<Rightarrow> - (2 ^ 31) \<le> i \<and> i < 2 ^ 31 | _ \<Rightarrow> False)"
| "prim_ok va NInt64 p = (case p of PInt i \<Rightarrow> - (2 ^ 63) \<le> i \<and> i < 2 ^ 63 | _ \<Rightarrow> False)"
| "prim_ok va NString p = (case p of PText s \<Rightarrow> True | _ \<Rightarrow> False)"
| "prim_ok va n p = (case p of PObj x \<Rightarrow> va_is va n x | _ \<Rightarrow> False)"

definition int_ok :: "bool \<Rightarrow> nat \<Rightarrow> int \<Rightarrow> bool" where
  "int_ok sg w i \<longleftrightarrow> (if sg then - (2 ^ (w - 1)) \<le> i \<and> i < 2 ^ (w - 1) else 0 \<le> i \<and> i < 2 ^ w)"

text \<open>A map is what inserting its entries in order makes.\<close>

definition built :: "('v, 'o) value_api \<Rightarrow> (('v, 'o) datum \<times> ('v, 'o) datum) list
    \<Rightarrow> (('v, 'o) datum \<times> ('v, 'o) datum) list" where
  "built va es = foldl (\<lambda>out (k, m). va_put va k m out) [] es"

text \<open>
  What is given back by a typed access is of the type; what was put in is read back, also
  through a borrowed value; only the null value is null; numbers keep their value; a shared
  table is the table; a converted number fits; inserting puts in the entry and no other.
\<close>

definition access_laws :: "('v, 'o) value_api \<Rightarrow> bool" where
  "access_laws va \<longleftrightarrow>
     (\<forall>n v p. va_get va n v = Some p \<longrightarrow> prim_ok va n p)
   \<and> (\<forall>n v ps. va_vec va n v = Some ps \<longrightarrow> list_all (prim_ok va n) ps)
   \<and> (\<forall>x y. va_deref va x = Some y \<longrightarrow> va_is_table va y)
   \<and> (\<forall>sg w r. int_ok sg w (va_trunc va sg w r))
   \<and> (\<forall>k m out. set (va_put va k m out) \<subseteq> insert (k, m) (set out))
   \<and> (\<forall>es. built va (built va es) = built va es)"

definition store_laws :: "('v, 'o) value_api \<Rightarrow> bool" where
  "store_laws va \<longleftrightarrow>
     (\<forall>n p. prim_ok va n p \<longrightarrow> va_get va n (va_of va n p) = Some p \<and> \<not> va_is_null va (va_of va n p))
   \<and> (\<forall>n ps. list_all (prim_ok va n) ps \<longrightarrow> va_vec va n (va_of_vec va n ps) = Some ps)
   \<and> (\<forall>n ps. \<not> va_is_null va (va_of_vec va n ps))
   \<and> (\<forall>xs. va_objects va (va_of_objects va xs) = Some xs \<and> \<not> va_is_null va (va_of_objects va xs))
   \<and> va_is_null va (va_null va)
   \<and> (\<forall>v. va_is_null va (va_borrow va v) = va_is_null va v)
   \<and> (\<forall>v. va_objects va (va_borrow va v) = va_objects va v)
   \<and> (\<forall>n v. va_get va n (va_borrow va v) = va_get va n v)
   \<and> (\<forall>n v. va_vec va n (va_borrow va v) = va_vec va n v)
   \<and> (\<forall>i. va_number va (va_of va NInt32 (PInt i)) = Some (Whole i))
   \<and> (\<forall>i. va_number va (va_of va NInt64 (PInt i)) = Some (Whole i))
   \<and> (\<forall>x. va_is_table va x \<longrightarrow> va_is va NHashtable (va_share va x) \<and> va_deref va (va_share va x) = Some x)"

section \<open>Well-typed data\<close>

definition is_prim :: "('o prim \<Rightarrow> bool) \<Rightarrow> ('v, 'o) datum \<Rightarrow> bool" where
  "is_prim ok d = (case d of DPrim p \<Rightarrow> ok p | _ \<Rightarrow> False)"

definition is_alt :: "(('v, 'o) datum \<Rightarrow> bool) list \<Rightarrow> ('v, 'o) datum \<Rightarrow> bool" where
  "is_alt oks d = (case d of DAlt i x \<Rightarrow> i < length oks \<and> (oks ! i) x | DValueless \<Rightarrow> True | _ \<Rightarrow> False)"

definition is_tuple :: "(('v, 'o) datum \<Rightarrow> bool) list \<Rightarrow> ('v, 'o) datum \<Rightarrow> bool" where
  "is_tuple oks d = (case d of DSeq ds \<Rightarrow> list_all2 (\<lambda>ok x. ok x) oks ds | _ \<Rightarrow> False)"

primrec well_typed :: "ty \<Rightarrow> ('v, 'o) value_api \<Rightarrow> ('v, 'o) datum \<Rightarrow> bool" where
  "well_typed TValue va d = (case d of DValue v \<Rightarrow> True | _ \<Rightarrow> False)"
| "well_typed (TMessage ts) va d =
     (case d of DMsg b x \<Rightarrow> is_alt (map (\<lambda>f. f va) (map well_typed ts)) x | _ \<Rightarrow> False)"
| "well_typed TNull va d = (d = DNull)"
| "well_typed (TOptional t) va d = (case d of DNone \<Rightarrow> True | DSome x \<Rightarrow> well_typed t va x | _ \<Rightarrow> False)"
| "well_typed TByte va d = is_prim (prim_ok va NByte) d"
| "well_typed (TEnum n) va d = is_prim (prim_ok va n) d"
| "well_typed TString va d = is_prim (prim_ok va NString) d"
| "well_typed TBool va d = is_prim (prim_ok va NBool) d"
| "well_typed (TInt sg w) va d = is_prim (\<lambda>p. case p of PInt i \<Rightarrow> int_ok sg w i | _ \<Rightarrow> False) d"
| "well_typed TFloat va d = is_prim (prim_ok va NFloat) d"
| "well_typed TDouble va d = is_prim (prim_ok va NDouble) d"
| "well_typed THashtable va d = is_prim (\<lambda>p. case p of PObj x \<Rightarrow> va_is_table va x | _ \<Rightarrow> False) d"
| "well_typed (TVector t) va d = (case d of DSeq ds \<Rightarrow> list_all (well_typed t va) ds | _ \<Rightarrow> False)"
| "well_typed (TArray t n) va d =
     (case d of DSeq ds \<Rightarrow> length ds = n \<and> list_all (well_typed t va) ds | _ \<Rightarrow> False)"
| "well_typed (TPair a b) va d = is_tuple [well_typed a va, well_typed b va] d"
| "well_typed (TTuple ts) va d = is_tuple (map (\<lambda>f. f va) (map well_typed ts)) d"
| "well_typed (TVariant ts) va d = is_alt (map (\<lambda>f. f va) (map well_typed ts)) d"
| "well_typed (TMap k m) va d =
     (case d of DMap es \<Rightarrow> built va es = es \<and> list_all (\<lambda>(x, y). well_typed k va x \<and> well_typed m va y) es
      | _ \<Rightarrow> False)"
| "well_typed (TNative n) va d = is_prim (prim_ok va n) d"
| "well_typed (TStruct ts) va d = is_tuple (map (\<lambda>f. f va) (map well_typed ts)) d"

lemma exact_int_ok: "exact_int sg w = Some n \<Longrightarrow> prim_ok va n p \<longleftrightarrow> (case p of PInt i \<Rightarrow> int_ok sg w i | _ \<Rightarrow> False)"
  by (auto simp: exact_int_def int_ok_def split: if_splits prim.splits)

lemma elem_native_typed:
  "elem_native t = Some n \<Longrightarrow> well_typed t va d \<longleftrightarrow> is_prim (prim_ok va n) d"
  by (cases t) (auto simp: exact_int_ok is_prim_def split: if_splits datum.splits)

lemma cast_int_ok: "0 < w \<Longrightarrow> int_ok sg w (cast_int sg w i)"
  by (auto simp: int_ok_def cast_int_def signed_take_bit_int_greater_eq_minus_exp signed_take_bit_int_less_exp)

section \<open>Type soundness\<close>

text \<open>Integer types have a width, and enumerations a native one.\<close>

primrec sized :: "ty \<Rightarrow> bool" where
  "sized TValue = True"
| "sized (TMessage ts) = list_all id (map sized ts)"
| "sized TNull = True"
| "sized (TOptional t) = sized t"
| "sized TByte = True"
| "sized (TEnum n) = (native_int n \<noteq> None)"
| "sized TString = True"
| "sized TBool = True"
| "sized (TInt sg w) = (0 < w \<and> w \<le> 64)"
| "sized TFloat = True"
| "sized TDouble = True"
| "sized THashtable = True"
| "sized (TVector t) = sized t"
| "sized (TArray t n) = sized t"
| "sized (TPair a b) = (sized a \<and> sized b)"
| "sized (TTuple ts) = list_all id (map sized ts)"
| "sized (TVariant ts) = list_all id (map sized ts)"
| "sized (TMap k m) = (sized k \<and> sized m)"
| "sized (TNative n) = True"
| "sized (TStruct ts) = list_all id (map sized ts)"

text \<open>
  An outcome is good for a path when a result satisfies the predicate and an error names a
  place at the path or below it.
\<close>

definition good :: "string \<Rightarrow> ('a \<Rightarrow> bool) \<Rightarrow> 'a result \<Rightarrow> bool" where
  "good path ok r = (case r of Inl e \<Rightarrow> \<exists>s. er_path e = path @ s | Inr d \<Rightarrow> ok d)"

lemma good_Inr [simp]: "good path ok (Inr d) = ok d"
  by (simp add: good_def)

lemma good_fail [simp]: "good path ok (fail (path @ s) m)" "good path ok (fail path m)"
  by (simp_all add: good_def fail_def)

lemma good_errors [simp]:
  "good path ok (type_error va path ex v)" "good path ok (ill_typed path)"
  by (simp_all add: type_error_def ill_typed_def)

lemma good_child [simp]: "good path ok (fail (child_path path i) m)"
  by (simp add: child_path_def)

lemma good_deep [intro]: "good path ok r \<Longrightarrow> good path ok (deep opt path depth r)"
  by (simp add: deep_def)

text \<open>An error below is an error at the path; a result is passed on.\<close>

lemma good_up: "good (child_path path i) ok r \<Longrightarrow> good path ok r"
  by (auto simp: good_def child_path_def split: sum.splits)

lemma good_bind:
  assumes "good path ok r" "\<And>d. r = Inr d \<Longrightarrow> ok d \<Longrightarrow> good path ok' (f d)"
  shows "good path ok' (case r of Inl e \<Rightarrow> Inl e | Inr d \<Rightarrow> f d)"
  using assms by (cases r) (auto simp: good_def)

lemma decode_list_good:
  assumes "list_all2 (\<lambda>f ok. \<forall>v p k. good p ok (f v p k)) fs oks" "length vs = length fs"
  shows "good path (list_all2 (\<lambda>ok d. ok d) oks) (decode_list fs vs path depth i)"
  using assms
proof (induction fs oks arbitrary: vs i rule: list_all2_induct)
  case Nil
  then show ?case by simp
next
  case (Cons f fs ok oks)
  then obtain v vs' where vs: "vs = v # vs'" "length vs' = length fs" by (cases vs) auto
  have head: "good (child_path path i) ok (f v (child_path path i) (depth + 1))" using Cons.hyps(1) by blast
  have rest: "good path (list_all2 (\<lambda>ok d. ok d) oks) (decode_list fs vs' path depth (i + 1))"
    using Cons.IH vs(2) by blast
  show ?case
    unfolding vs(1) decode_list.simps
    by (intro good_bind [OF good_up [OF head]] good_bind [OF rest]) simp
qed

lemma decode_prim_good:
  assumes "access_laws va"
  shows "good path (is_prim (prim_ok va n)) (decode_prim va n ex v path)"
  using assms by (auto simp: decode_prim_def access_laws_def is_prim_def split: option.splits)

lemma decode_int_good:
  fixes va :: "('v, 'o) value_api"
  assumes "access_laws va" "0 < w"
  shows "good path (is_prim (\<lambda>p. case p of PInt i \<Rightarrow> int_ok sg w i | _ \<Rightarrow> False)) (decode_int va opt sg w v path depth)"
  unfolding decode_int_def
proof (rule good_deep, cases "exact_int sg w")
  case None
  then show "good path (is_prim (\<lambda>p. case p of PInt i \<Rightarrow> int_ok sg w i | _ \<Rightarrow> False))
     (case exact_int sg w of Some n \<Rightarrow> decode_prim va n ''numeric type'' v path
      | None \<Rightarrow> (case va_number va v of Some (Whole i) \<Rightarrow> Inr (DPrim (PInt (cast_int sg w i)))
          | Some (Real r) \<Rightarrow> Inr (DPrim (PInt (va_trunc va sg w r))) | None \<Rightarrow> type_error va path ''numeric type'' v))"
    using assms by (auto simp: is_prim_def cast_int_ok access_laws_def split: option.splits number.splits)
next
  case (Some n)
  have "is_prim (prim_ok va n) d \<Longrightarrow> is_prim (\<lambda>p. case p of PInt i \<Rightarrow> int_ok sg w i | _ \<Rightarrow> False) d"
    for d :: "('v, 'o) datum"
    by (auto simp: is_prim_def exact_int_ok [OF Some] split: datum.splits)
  then show "good path (is_prim (\<lambda>p. case p of PInt i \<Rightarrow> int_ok sg w i | _ \<Rightarrow> False))
     (case exact_int sg w of Some n \<Rightarrow> decode_prim va n ''numeric type'' v path
      | None \<Rightarrow> (case va_number va v of Some (Whole i) \<Rightarrow> Inr (DPrim (PInt (cast_int sg w i)))
          | Some (Real r) \<Rightarrow> Inr (DPrim (PInt (va_trunc va sg w r))) | None \<Rightarrow> type_error va path ''numeric type'' v))"
    using decode_prim_good [OF assms(1), of path n "''numeric type''" v] Some
    by (auto simp: good_def split: sum.splits)
qed

lemma well_typed_table:
  "well_typed THashtable va = is_prim (\<lambda>p. case p of PObj x \<Rightarrow> va_is_table va x | _ \<Rightarrow> False)"
  by (rule ext) simp

lemma deref_tables_good:
  assumes "access_laws va"
  shows "good path (list_all (well_typed THashtable va)) (deref_tables va ps path i)"
proof (induction ps arbitrary: i)
  case Nil
  show ?case by simp
next
  case (Cons p ps)
  show ?case
  proof (cases "case p of PObj x \<Rightarrow> va_deref va x | _ \<Rightarrow> None")
    case None
    then show ?thesis by simp
  next
    case (Some x)
    then have x: "va_is_table va x" using assms by (auto simp: access_laws_def split: prim.splits)
    have "good path (list_all (well_typed THashtable va))
        (case deref_tables va ps path (i + 1) of Inl e \<Rightarrow> Inl e | Inr ds \<Rightarrow> Inr (DPrim (PObj x) # ds))"
      using x by (intro good_bind [OF Cons.IH]) (simp add: well_typed_table is_prim_def [of _ "DPrim _"])
    then show ?thesis by (simp only: deref_tables.simps Some option.case)
  qed
qed

lemma try_direct_good:
  assumes "access_laws va" "try_direct_vector va t v path = Some r"
  shows "good path (list_all (well_typed t va)) r"
proof (cases "if t = TByte then Some NByte else elem_native t")
  case None
  then show ?thesis
    using assms deref_tables_good [OF assms(1)]
    by (auto simp: try_direct_vector_def list_all_iff split: if_splits)
next
  case (Some n)
  have typed: "well_typed t va d \<longleftrightarrow> is_prim (prim_ok va n) d" for d
    using Some elem_native_typed by (auto split: if_splits)
  obtain ps where "va_vec va n v = Some ps" "r = Inr (map DPrim ps)"
    using assms(2) Some by (auto simp: try_direct_vector_def)
  then show ?thesis
    using assms(1) by (simp add: access_laws_def typed is_prim_def list_all_iff)
qed

lemma list_all2_replicate: "list_all2 (\<lambda>ok d. ok d) (replicate n P) ds \<longleftrightarrow> length ds = n \<and> list_all P ds"
  by (auto simp: list_all2_conv_all_nth list_all_length)

lemma decode_vector_good:
  assumes "access_laws va" "\<And>v p k. good p (well_typed t va) (dec v p k)"
  shows "good path (list_all (well_typed t va)) (decode_vector va opt t dec v path depth)"
  unfolding decode_vector_def
proof (rule good_deep)
  have "good path (list_all (well_typed t va)) (decode_list (replicate (length xs) dec) xs path depth 0)" for xs
  proof -
    have "list_all2 (\<lambda>f ok. \<forall>v p k. good p ok (f v p k)) (replicate (length xs) dec)
        (replicate (length xs) (well_typed t va))"
      using assms(2) by (simp add: list_all2_conv_all_nth)
    from decode_list_good [OF this, of xs path depth 0] show ?thesis
      by (simp add: good_def list_all2_replicate split: sum.splits)
  qed
  then show "good path (list_all (well_typed t va))
     (case try_direct_vector va t v path of Some r \<Rightarrow> r
      | None \<Rightarrow> (case as_list_ptr va v of Some xs \<Rightarrow> decode_list (replicate (length xs) dec) xs path depth 0
          | None \<Rightarrow> type_error va path ''vector/list'' v))"
    using try_direct_good [OF assms(1)] by (auto split: option.splits)
qed

lemma decode_tuple_good:
  assumes "list_all2 (\<lambda>f ok. \<forall>v p k. good p ok (f v p k)) decs oks"
  shows "good path (is_tuple oks) (decode_tuple va ex msg decs v path depth)"
proof (cases "as_list_ptr va v")
  case None
  then show ?thesis by (simp add: decode_tuple_def)
next
  case (Some xs)
  show ?thesis
  proof (cases "length xs = length decs")
    case False
    then show ?thesis by (simp add: decode_tuple_def Some)
  next
    case True
    show ?thesis
      unfolding decode_tuple_def using True
      by (auto simp: Some is_tuple_def intro!: good_bind [OF decode_list_good [OF assms True]])
  qed
qed

lemma decode_variant_good:
  assumes "access_laws va" "list_all2 (\<lambda>f ok. \<forall>v p k. good p ok (f v p k)) decs oks"
  shows "good path (is_alt oks) (decode_variant va opt decs v path depth)"
proof -
  have alt: "good path (is_alt oks) (decode_variant_alt i decs x (child_path path 1) k)" for i x k
  proof (cases "length decs \<le> i")
    case True
    then show ?thesis by (simp add: decode_variant_alt_def)
  next
    case False
    then have "good (child_path path 1) (oks ! i) ((decs ! i) x (child_path path 1) k)" "i < length oks"
      using assms(2) by (auto simp: list_all2_conv_all_nth)
    then show ?thesis
      using False by (auto simp: decode_variant_alt_def is_alt_def intro!: good_bind [OF good_up])
  qed
  have "good path (is_alt oks)
      (case decode_int va opt False 64 x (child_path path 0) k of
         Inl e \<Rightarrow> Inl e
       | Inr d \<Rightarrow> (case d of DPrim (PInt i) \<Rightarrow> decode_variant_alt (nat i) decs y (child_path path 1) k
           | _ \<Rightarrow> ill_typed path))" for x y k
    using alt by (intro good_bind [OF good_up [OF decode_int_good [OF assms(1)]]])
      (auto split: datum.splits prim.splits)
  note body = this
  show ?thesis
    unfolding decode_variant_def
  proof (rule good_deep, cases "as_list_ptr va v")
    case None
    then show "good path (is_alt oks) (case as_list_ptr va v of
        None \<Rightarrow> type_error va path ''variant list[2]'' v
      | Some xs \<Rightarrow> if length xs \<noteq> 2 then fail path ''expected variant encoded as list of size 2''
          else (case decode_int va opt False 64 (xs ! 0) (child_path path 0) (depth + 1) of
                  Inl e \<Rightarrow> Inl e
                | Inr (DPrim (PInt i)) \<Rightarrow> decode_variant_alt (nat i) decs (xs ! 1) (child_path path 1) (depth + 1)
                | Inr _ \<Rightarrow> ill_typed path))" by simp
  next
    case (Some xs)
    then show "good path (is_alt oks) (case as_list_ptr va v of
        None \<Rightarrow> type_error va path ''variant list[2]'' v
      | Some xs \<Rightarrow> if length xs \<noteq> 2 then fail path ''expected variant encoded as list of size 2''
          else (case decode_int va opt False 64 (xs ! 0) (child_path path 0) (depth + 1) of
                  Inl e \<Rightarrow> Inl e
                | Inr (DPrim (PInt i)) \<Rightarrow> decode_variant_alt (nat i) decs (xs ! 1) (child_path path 1) (depth + 1)
                | Inr _ \<Rightarrow> ill_typed path))"
      using body [of "xs ! 1" "depth + 1" "xs ! 0"] by simp
  qed
qed

lemma decode_entries_good:
  assumes laws: "access_laws va" and dk: "\<And>v p k. good p (well_typed kt va) (dk v p k)"
    and dm: "\<And>v p k. good p (well_typed mt va) (dm v p k)"
  shows "built va start = out \<Longrightarrow> list_all (\<lambda>(x, y). well_typed kt va x \<and> well_typed mt va y) out
    \<Longrightarrow> good path (well_typed (TMap kt mt) va)
      (case decode_entries va dk dm vs out path depth i of Inl e \<Rightarrow> Inl e | Inr es \<Rightarrow> Inr (DMap es))"
proof (induction vs arbitrary: out start i)
  case Nil
  then show ?case using laws by (auto simp: access_laws_def)
next
  case (Cons v vs)
  show ?case
  proof (cases "as_list_ptr va v")
    case None
    then show ?thesis by (simp add: good_def fail_def child_path_def)
  next
    case (Some xs)
    show ?thesis
    proof (cases "length xs = 2")
      case False
      then show ?thesis by (simp add: Some good_def fail_def child_path_def)
    next
      case True
      let ?kp = "child_path (child_path path i) 0" and ?mp = "child_path (child_path path i) 1"
      show ?thesis
      proof (cases "dk (xs ! 0) ?kp (depth + 1)")
        case (Inl e)
        then have "good path (\<lambda>_. False) (Inl e :: ('a, 'b) datum result)"
          using dk [of ?kp "xs ! 0" "depth + 1"] by (auto simp: good_def child_path_def)
        then show ?thesis using Inl Some True by (auto simp: good_def)
      next
        case k: (Inr k)
        show ?thesis
        proof (cases "dm (xs ! 1) ?mp (depth + 1)")
          case (Inl e)
          then have "\<exists>s. er_path e = path @ s"
            using dm [of ?mp "xs ! 1" "depth + 1"] by (auto simp: good_def child_path_def)
          then show ?thesis using Inl k Some True by (auto simp: good_def)
        next
          case m: (Inr m)
          have typed: "well_typed kt va k" "well_typed mt va m"
            using dk [of ?kp "xs ! 0" "depth + 1"] dm [of ?mp "xs ! 1" "depth + 1"] k m by auto
          have "built va (start @ [(k, m)]) = va_put va k m out"
            using Cons.prems(1) by (simp add: built_def)
          moreover have "list_all (\<lambda>(x, y). well_typed kt va x \<and> well_typed mt va y) (va_put va k m out)"
            using laws typed Cons.prems(2) unfolding access_laws_def list_all_iff by blast
          ultimately show ?thesis using Cons.IH k m Some True by simp
        qed
      qed
    qed
  qed
qed

lemma decoders_good:
  assumes "\<And>t. t \<in> set ts \<Longrightarrow> sized t \<Longrightarrow> \<forall>v p k. good p (well_typed t va) (decode t va opt v p k)"
    "list_all id (map sized ts)"
  shows "list_all2 (\<lambda>f ok. \<forall>v p k. good p ok (f v p k)) (map (\<lambda>f. f va opt) (map decode ts))
    (map (\<lambda>f. f va) (map well_typed ts))"
  using assms by (auto simp: list_all2_conv_all_nth list_all_length)

lemma well_typed_prim:
  "well_typed TByte va = is_prim (prim_ok va NByte)" "well_typed (TEnum n) va = is_prim (prim_ok va n)"
  "well_typed TString va = is_prim (prim_ok va NString)" "well_typed TBool va = is_prim (prim_ok va NBool)"
  "well_typed TFloat va = is_prim (prim_ok va NFloat)" "well_typed TDouble va = is_prim (prim_ok va NDouble)"
  "well_typed (TNative n) va = is_prim (prim_ok va n)"
  by (rule ext, simp)+

lemma decode_good:
  assumes "access_laws va"
  shows "sized t \<Longrightarrow> \<forall>v path depth. good path (well_typed t va) (decode t va opt v path depth)"
proof (induction t)
  case (TMessage ts)
  have variant: "good path (is_alt (map (\<lambda>f. f va) (map well_typed ts)))
      (decode_variant va opt (map (\<lambda>f. f va opt) (map decode ts)) y (child_path path 1) k)" for path y k
    by (intro good_up [OF decode_variant_good [OF assms decoders_good]]) (use TMessage in simp_all)
  have flag: "good path (is_prim (prim_ok va NBool)) (deep opt (child_path path 0) k
      (decode_prim va NBool ''bool'' x (child_path path 0)))" for path x k
    by (intro good_up [OF good_deep [OF decode_prim_good [OF assms]]])
  have "good path (well_typed (TMessage ts) va)
      (case deep opt (child_path path 0) k (decode_prim va NBool ''bool'' x (child_path path 0)) of
         Inl e \<Rightarrow> Inl e
       | Inr d \<Rightarrow> (case d of DPrim (PBool b) \<Rightarrow>
            (case decode_variant va opt (map (\<lambda>f. f va opt) (map decode ts)) y (child_path path 1) k of
               Inl e \<Rightarrow> Inl e | Inr d \<Rightarrow> Inr (DMsg b d))
          | _ \<Rightarrow> ill_typed path))" for path x y k
    by (intro good_bind [OF flag]) (auto split: datum.splits prim.splits intro!: good_bind [OF variant] simp del: map_map One_nat_def)
  then show ?case
    unfolding decode.simps
    by (auto intro!: good_deep split: option.split simp del: map_map One_nat_def well_typed.simps)
next
  case TValue
  then show ?case by (auto intro!: good_deep)
next
  case TNull
  then show ?case by (auto intro!: good_deep)
next
  case (TOptional t)
  have "good path (well_typed (TOptional t) va)
      (case decode t va opt v path k of Inl e \<Rightarrow> Inl e | Inr d \<Rightarrow> Inr (DSome d))" for path v k
    by (rule good_bind [of _ "well_typed t va"]) (use TOptional in simp_all)
  then show ?case
    by (auto intro!: good_deep simp del: well_typed.simps) simp
next
  case (TVector t)
  have "good path (list_all (well_typed t va)) (decode_vector va opt t (decode t va opt) v path k)" for path v k
    by (rule decode_vector_good [OF assms]) (use TVector in simp)
  then show ?case by (auto intro!: good_bind)
next
  case (TArray t n)
  have "good path (list_all (well_typed t va)) (decode_vector va opt t (decode t va opt) v path k)" for path v k
    by (rule decode_vector_good [OF assms]) (use TArray in simp)
  then show ?case by (auto intro!: good_deep good_bind)
next
  case (TPair a b)
  then show ?case by (auto intro!: good_deep decode_tuple_good)
next
  case (TTuple ts)
  then show ?case
    by (auto intro!: good_deep decode_tuple_good decoders_good simp del: map_map)
next
  case (TStruct ts)
  then show ?case
    by (auto intro!: good_deep decode_tuple_good decoders_good simp del: map_map)
next
  case (TVariant ts)
  then show ?case
    by (auto intro!: decode_variant_good [OF assms] decoders_good simp del: map_map)
next
  case (TMap k m)
  have "good path (well_typed (TMap k m) va)
      (case decode_entries va (decode k va opt) (decode m va opt) xs [] path depth 0 of
         Inl e \<Rightarrow> Inl e | Inr es \<Rightarrow> Inr (DMap es))" for path xs depth
    by (rule decode_entries_good [OF assms, where start = "[]"]) (use TMap in \<open>simp_all add: built_def\<close>)
  then show ?case
    unfolding decode.simps by (auto intro!: good_deep split: option.split simp del: well_typed.simps)
next
  case (TNative n)
  then show ?case
    using assms by (auto intro!: good_deep simp: is_prim_def access_laws_def split: option.splits)
next
  case (TInt sg w)
  then show ?case using decode_int_good [OF assms] by simp
qed (auto intro!: good_deep decode_prim_good [OF assms] simp: well_typed_prim simp del: well_typed.simps)

section \<open>Round trip\<close>

text \<open>
  Types whose encoding can be told from null, and the types that are read back: an optional of
  a type that may encode as null loses the difference, a hash table by value has no case of
  its own in the decoder.
\<close>

primrec never_null :: "ty \<Rightarrow> bool" where
  "never_null TValue = False"
| "never_null (TMessage ts) = True"
| "never_null TNull = False"
| "never_null (TOptional t) = False"
| "never_null TByte = True"
| "never_null (TEnum n) = True"
| "never_null TString = True"
| "never_null TBool = True"
| "never_null (TInt sg w) = True"
| "never_null TFloat = True"
| "never_null TDouble = True"
| "never_null THashtable = True"
| "never_null (TVector t) = True"
| "never_null (TArray t n) = True"
| "never_null (TPair a b) = True"
| "never_null (TTuple ts) = True"
| "never_null (TVariant ts) = True"
| "never_null (TMap k m) = True"
| "never_null (TNative n) = True"
| "never_null (TStruct ts) = True"

primrec readable :: "ty \<Rightarrow> bool" where
  "readable TValue = True"
| "readable (TMessage ts) = (list_all id (map readable ts) \<and> length ts \<le> 2 ^ 31)"
| "readable TNull = True"
| "readable (TOptional t) = (readable t \<and> never_null t)"
| "readable TByte = True"
| "readable (TEnum n) = (native_int n \<noteq> None)"
| "readable TString = True"
| "readable TBool = True"
| "readable (TInt sg w) = (0 < w \<and> w \<le> 64)"
| "readable TFloat = True"
| "readable TDouble = True"
| "readable THashtable = False"
| "readable (TVector t) = (t = THashtable \<or> readable t)"
| "readable (TArray t n) = (t = THashtable \<or> readable t)"
| "readable (TPair a b) = (readable a \<and> readable b)"
| "readable (TTuple ts) = list_all id (map readable ts)"
| "readable (TVariant ts) = (list_all id (map readable ts) \<and> length ts \<le> 2 ^ 31)"
| "readable (TMap k m) = (readable k \<and> readable m)"
| "readable (TNative n) = True"
| "readable (TStruct ts) = list_all id (map readable ts)"

text \<open>How deep arrays are nested: the decoder goes one level deeper for each than the encoder.\<close>

definition max_list :: "nat list \<Rightarrow> nat" where
  "max_list ns = foldr max ns 0"

lemma max_list_ge: "n \<in> set ns \<Longrightarrow> n \<le> max_list ns"
  by (induction ns) (auto simp: max_list_def)

primrec array_nest :: "ty \<Rightarrow> nat" where
  "array_nest TValue = 0"
| "array_nest (TMessage ts) = max_list (map array_nest ts)"
| "array_nest TNull = 0"
| "array_nest (TOptional t) = array_nest t"
| "array_nest TByte = 0"
| "array_nest (TEnum n) = 0"
| "array_nest TString = 0"
| "array_nest TBool = 0"
| "array_nest (TInt sg w) = 0"
| "array_nest TFloat = 0"
| "array_nest TDouble = 0"
| "array_nest THashtable = 0"
| "array_nest (TVector t) = array_nest t"
| "array_nest (TArray t n) = Suc (array_nest t)"
| "array_nest (TPair a b) = max (array_nest a) (array_nest b)"
| "array_nest (TTuple ts) = max_list (map array_nest ts)"
| "array_nest (TVariant ts) = max_list (map array_nest ts)"
| "array_nest (TMap k m) = max (array_nest k) (array_nest m)"
| "array_nest (TNative n) = 0"
| "array_nest (TStruct ts) = max_list (map array_nest ts)"

text \<open>A decoder reads what an encoder wrote, with room for as many more levels as given.\<close>

definition reads :: "options \<Rightarrow> options \<Rightarrow> nat \<Rightarrow> ('d \<Rightarrow> string \<Rightarrow> nat \<Rightarrow> 'v result)
    \<Rightarrow> ('v \<Rightarrow> string \<Rightarrow> nat \<Rightarrow> 'd result) \<Rightarrow> ('d \<Rightarrow> bool) \<Rightarrow> bool" where
  "reads o1 o2 slack enc dec ok \<longleftrightarrow>
     (\<forall>d p k v p' k'. ok d \<longrightarrow> enc d p k = Inr v \<longrightarrow> k' + max_depth o1 + slack \<le> k + max_depth o2
        \<longrightarrow> dec v p' k' = Inr d)"

lemma readsD:
  "\<lbrakk> reads o1 o2 slack enc dec ok; ok d; enc d p k = Inr v; k' + max_depth o1 + slack \<le> k + max_depth o2 \<rbrakk>
   \<Longrightarrow> dec v p' k' = Inr d"
  by (auto simp: reads_def)

lemma reads_less: "reads o1 o2 n enc dec ok \<Longrightarrow> n \<le> m \<Longrightarrow> reads o1 o2 m enc dec ok"
  unfolding reads_def by (meson add_left_mono le_trans)

lemma deep_Inr: "deep opt p k r = Inr x \<longleftrightarrow> k \<le> max_depth opt \<and> r = Inr x"
  by (auto simp: deep_def fail_def)

lemma no_Inr [simp]: "fail p m \<noteq> Inr x" "ill_typed p \<noteq> Inr x" "type_error va p ex v \<noteq> Inr x"
  by (simp_all add: fail_def ill_typed_def type_error_def)

lemma read_list:
  assumes "length encs = length ds" "length decs = length ds" "length oks = length ds"
    "\<And>i. i < length ds \<Longrightarrow> reads o1 o2 slack (encs ! i) (decs ! i) (oks ! i)"
    "\<And>i. i < length ds \<Longrightarrow> (oks ! i) (ds ! i)"
    "encode_list encs ds p k i = Inr vs" "k' + max_depth o1 + slack \<le> k + max_depth o2"
  shows "decode_list decs vs p' k' i' = Inr ds \<and> length vs = length ds"
  using assms(1-6)
proof (induction ds arbitrary: encs decs oks vs i i')
  case Nil
  then show ?case by auto
next
  case (Cons d ds)
  obtain enc encs' where e: "encs = enc # encs'" using Cons.prems(1) by (cases encs) auto
  obtain dec decs' where c: "decs = dec # decs'" using Cons.prems(2) by (cases decs) auto
  obtain ok oks' where o: "oks = ok # oks'" using Cons.prems(3) by (cases oks) auto
  obtain v vs' where v: "enc d (child_path p i) (k + 1) = Inr v" "encode_list encs' ds p k (i + 1) = Inr vs'"
      "vs = v # vs'"
    using Cons.prems(6) by (auto simp: e split: sum.splits)
  have head: "dec v (child_path p' i') (k' + 1) = Inr d"
  proof (rule readsD [of o1 o2 slack enc dec ok, OF _ _ v(1)])
    show "k' + 1 + max_depth o1 + slack \<le> k + 1 + max_depth o2" using assms(7) by simp
  qed (use Cons.prems(4) [of 0] Cons.prems(5) [of 0] in \<open>simp_all add: e c o\<close>)
  have "decode_list decs' vs' p' k' (i' + 1) = Inr ds \<and> length vs' = length ds"
  proof (rule Cons.IH [OF _ _ _ _ _ v(2)])
    show "reads o1 o2 slack (encs' ! n) (decs' ! n) (oks' ! n)" if "n < length ds" for n
      using Cons.prems(4) [of "Suc n"] that by (simp add: e c o)
    show "(oks' ! n) (ds ! n)" if "n < length ds" for n
      using Cons.prems(5) [of "Suc n"] that by (simp add: o)
  qed (use Cons.prems(1-3) e c o in simp_all)
  then show ?case using head by (simp add: c v(3))
qed

lemma as_prim_Some: "as_prim d = Some p \<longleftrightarrow> d = DPrim p"
  by (cases d) auto

lemma as_value_Some: "as_value d = Some v \<longleftrightarrow> d = DValue v"
  by (cases d) auto

lemma those_prims: "those (map as_prim ds) = Some ps \<Longrightarrow> ds = map DPrim ps"
  by (induction ds arbitrary: ps) (auto simp: as_prim_Some split: option.splits)

lemma those_values: "those (map as_value ds) = Some vs \<Longrightarrow> ds = map DValue vs"
  by (induction ds arbitrary: vs) (auto simp: as_value_Some split: option.splits)

text \<open>A value reads as another when the accesses the decoders use give the same.\<close>

definition reads_as :: "('v, 'o) value_api \<Rightarrow> 'v \<Rightarrow> 'v \<Rightarrow> bool" where
  "reads_as va w v \<longleftrightarrow> va_objects va w = va_objects va v \<and> (\<forall>n. va_vec va n w = va_vec va n v)
     \<and> (\<forall>n. va_get va n w = va_get va n v) \<and> va_is_null va w = va_is_null va v"

lemma reads_as_native: "store_laws va \<Longrightarrow> reads_as va (native_value va opt v) v"
  by (simp add: reads_as_def native_value_def store_laws_def)

lemma deref_shared:
  assumes "store_laws va" "list_all (well_typed THashtable va) (map DPrim ps)"
  shows "deref_tables va (map (\<lambda>p. case p of PObj x \<Rightarrow> PObj (va_share va x) | _ \<Rightarrow> p) ps) path i = Inr (map DPrim ps)"
  using assms(2)
proof (induction ps arbitrary: i)
  case Nil
  show ?case by simp
next
  case (Cons p ps)
  then obtain x where x: "p = PObj x" "va_is_table va x"
    by (auto simp: is_prim_def split: prim.splits)
  then have "va_deref va (va_share va x) = Some x" using assms(1) by (auto simp: store_laws_def)
  then show ?case using Cons x by simp
qed

lemma read_vector:
  assumes laws: "store_laws va"
    and elems: "t = THashtable \<or> reads o1 o2 slack (encode t va o1) (decode t va o2) (well_typed t va)"
    and typed: "list_all (well_typed t va) ds"
    and enc: "encode_range va o1 t (encode t va o1) ds p k = Inr v"
    and room: "k \<le> max_depth o1" "k' + max_depth o1 + slack \<le> k + max_depth o2"
    and w: "reads_as va w v"
  shows "decode_vector va o2 t (decode t va o2) w p' k' = Inr ds \<and> \<not> va_is_null va v"
proof -
  have k': "k' \<le> max_depth o2" using room by simp
  consider n where "(if t = TByte then Some NByte else elem_native t) = Some n"
    | "t = TValue" | "t = THashtable"
    | "(if t = TByte then Some NByte else elem_native t) = None" "t \<noteq> TValue" "t \<noteq> THashtable"
    by (cases "if t = TByte then Some NByte else elem_native t") auto
  then show ?thesis
  proof cases
    case (1 n)
    then obtain ps where ps: "those (map as_prim ds) = Some ps" "v = va_of_vec va n ps"
      using enc by (auto simp: encode_range_def split: option.splits)
    have "well_typed t va d \<longleftrightarrow> is_prim (prim_ok va n) d" for d
      using 1 elem_native_typed by (auto split: if_splits)
    then have "list_all (prim_ok va n) ps"
      using typed those_prims [OF ps(1)] by (simp add: list_all_iff is_prim_def)
    then have "va_vec va n w = Some ps" "\<not> va_is_null va v"
      using laws w ps(2) by (auto simp: store_laws_def reads_as_def)
    then show ?thesis
      using 1 k' those_prims [OF ps(1)] by (simp add: decode_vector_def try_direct_vector_def deep_def)
  next
    case 2
    then obtain vs where vs: "those (map as_value ds) = Some vs" "v = va_of_objects va vs"
      using enc by (auto simp: encode_range_def split: option.splits)
    have "as_list_ptr va w = Some vs" "\<not> va_is_null va v"
      using laws w vs(2) by (auto simp: store_laws_def reads_as_def as_list_ptr_def)
    then show ?thesis
      using 2 k' those_values [OF vs(1)] by (simp add: decode_vector_def try_direct_vector_def deep_def)
  next
    case 3
    then obtain ps where ps: "those (map as_prim ds) = Some ps"
        "v = va_of_vec va NHashtable (map (\<lambda>p. case p of PObj x \<Rightarrow> PObj (va_share va x) | _ \<Rightarrow> p) ps)"
      using enc by (auto simp: encode_range_def split: option.splits)
    have tables: "list_all (well_typed THashtable va) (map DPrim ps)"
      using typed 3 those_prims [OF ps(1)] by simp
    then have "list_all (prim_ok va NHashtable) (map (\<lambda>p. case p of PObj x \<Rightarrow> PObj (va_share va x) | _ \<Rightarrow> p) ps)"
      using laws by (auto simp: list_all_iff is_prim_def store_laws_def split: prim.splits)
    then have "va_vec va NHashtable w = Some (map (\<lambda>p. case p of PObj x \<Rightarrow> PObj (va_share va x) | _ \<Rightarrow> p) ps)"
        "\<not> va_is_null va v"
      using laws w ps(2) by (auto simp: store_laws_def reads_as_def)
    then show ?thesis
      using 3 k' those_prims [OF ps(1)] deref_shared [OF laws tables]
      by (simp add: decode_vector_def try_direct_vector_def deep_def)
  next
    case 4
    then obtain vs where vs: "encode_list (replicate (length ds) (encode t va o1)) ds p k 0 = Inr vs"
        "v = va_of_objects va vs"
      using enc by (auto simp: encode_range_def split: option.splits sum.splits)
    have r: "reads o1 o2 slack (encode t va o1) (decode t va o2) (well_typed t va)" using elems 4(3) by blast
    have "decode_list (replicate (length ds) (decode t va o2)) vs p' k' 0 = Inr ds \<and> length vs = length ds"
      by (rule read_list [OF _ _ _ _ _ vs(1) room(2), of _ "replicate (length ds) (well_typed t va)"])
        (use r typed in \<open>simp_all add: list_all_length\<close>)
    moreover have "as_list_ptr va w = Some vs" "\<not> va_is_null va v"
      using laws w vs(2) by (auto simp: store_laws_def reads_as_def as_list_ptr_def)
    ultimately show ?thesis
      using 4 k' by (simp add: decode_vector_def try_direct_vector_def deep_def)
  qed
qed

lemma read_tuple:
  assumes laws: "store_laws va" and len: "length decs = length encs" "length oks = length encs"
    and parts: "\<And>i. i < length encs \<Longrightarrow> reads o1 o2 slack (encs ! i) (decs ! i) (oks ! i)"
    and typed: "is_tuple oks d" and enc: "encode_tuple va encs d p k = Inr v"
    and room: "k' + max_depth o1 + slack \<le> k + max_depth o2"
  shows "decode_tuple va ex msg decs v p' k' = Inr d \<and> \<not> va_is_null va v"
proof -
  obtain ds vs where d: "d = DSeq ds" "length ds = length encs" "encode_list encs ds p k 0 = Inr vs"
      "v = va_of_objects va vs"
    using enc by (auto simp: encode_tuple_def split: datum.splits if_splits sum.splits)
  have "decode_list decs vs p' k' 0 = Inr ds \<and> length vs = length ds"
    by (rule read_list [OF _ _ _ _ _ d(3) room, of _ oks])
      (use d(1,2) len parts typed in \<open>auto simp: is_tuple_def list_all2_conv_all_nth\<close>)
  then show ?thesis
    using laws d len by (simp add: decode_tuple_def as_list_ptr_def store_laws_def)
qed

lemma encode_deep: "encode t va opt d p k = Inr v \<Longrightarrow> k \<le> max_depth opt"
  by (cases t) (simp_all add: deep_Inr encode_int_def encode_variant_def)

lemma read_variant:
  assumes laws: "store_laws va" and len: "length decs = length encs" "length oks = length encs" "length encs \<le> 2 ^ 31"
    and parts: "\<And>i. i < length encs \<Longrightarrow> reads o1 o2 slack (encs ! i) (decs ! i) (oks ! i)"
    and deep: "\<And>i x q n u. i < length encs \<Longrightarrow> (encs ! i) x q n = Inr u \<Longrightarrow> n \<le> max_depth o1"
    and typed: "is_alt oks d" and enc: "encode_variant va o1 encs d p k = Inr v"
    and room: "k' + max_depth o1 + slack \<le> k + max_depth o2"
  shows "decode_variant va o2 decs v p' k' = Inr d \<and> \<not> va_is_null va v"
proof -
  obtain i x u where d: "d = DAlt i x" "i < length encs" "k \<le> max_depth o1"
      "(encs ! i) x (child_path p 1) (k + 1) = Inr u"
      "v = va_of_objects va [va_of va NInt32 (PInt (cast_int True 32 (int i))), u]"
    using enc by (auto simp: encode_variant_def deep_Inr split: datum.splits if_splits sum.splits)
  have small: "int i < 2 ^ 31" using d(2) len(3) by (metis less_le_trans of_nat_less_iff of_nat_numeral of_nat_power)
  then have idx: "cast_int True 32 (int i) = int i" "cast_int False 64 (int i) = int i"
    by (simp_all add: cast_int_def signed_take_bit_int_eq_self take_bit_int_eq_self)
  have "(oks ! i) x" using typed d(1) by (simp add: is_alt_def)
  then have alt: "(decs ! i) u (child_path p' 1) (k' + 1) = Inr x"
    using readsD [OF parts [OF d(2)] _ d(4), of "k' + 1"] room by simp
  have "k' + 1 \<le> max_depth o2" using deep [OF d(2,4)] room by simp
  then have "decode_int va o2 False 64 (va_of va NInt32 (PInt (int i))) (child_path p' 0) (k' + 1) = Inr (DPrim (PInt (int i)))"
    using laws idx(2) by (simp add: decode_int_def exact_int_def deep_def store_laws_def)
  then show ?thesis
    using laws d(1,2,5) idx(1) alt len(1) \<open>k' + 1 \<le> max_depth o2\<close>
    by (simp add: decode_variant_def decode_variant_alt_def as_list_ptr_def store_laws_def deep_def)
qed

lemma read_entries:
  assumes laws: "store_laws va"
    and keys: "reads o1 o2 slack ek dk okk" and vals: "reads o1 o2 slack em dm okm"
    and room: "k' + max_depth o1 + slack \<le> k + max_depth o2"
  shows "\<lbrakk> list_all (\<lambda>(x, y). okk x \<and> okm y) es; encode_entries va ek em es p k i = Inr vs \<rbrakk>
    \<Longrightarrow> decode_entries va dk dm vs out p' k' i' = Inr (foldl (\<lambda>out (k, m). va_put va k m out) out es)"
proof (induction es arbitrary: vs out i i')
  case Nil
  then show ?case by simp
next
  case (Cons e es)
  obtain x y where e: "e = (x, y)" by (cases e)
  obtain xv yv vs' where v: "ek x (child_path (child_path p i) 0) (k + 1) = Inr xv"
      "em y (child_path (child_path p i) 1) (k + 1) = Inr yv"
      "encode_entries va ek em es p k (i + 1) = Inr vs'" "vs = va_of_objects va [xv, yv] # vs'"
    using Cons.prems(2) by (auto simp: e split: sum.splits)
  have room': "k' + 1 + max_depth o1 + slack \<le> k + 1 + max_depth o2" using room by simp
  have "dk xv (child_path (child_path p' i') 0) (k' + 1) = Inr x"
    using Cons.prems(1) e by (intro readsD [OF keys _ v(1) room']) simp
  moreover have "dm yv (child_path (child_path p' i') 1) (k' + 1) = Inr y"
    using Cons.prems(1) e by (intro readsD [OF vals _ v(2) room']) simp
  moreover have "as_list_ptr va (va_of_objects va [xv, yv]) = Some [xv, yv]"
    using laws by (simp add: as_list_ptr_def store_laws_def)
  ultimately show ?case using Cons.IH [OF _ v(3)] Cons.prems(1) e v(4) by simp
qed

lemma read_prim:
  assumes "store_laws va" "is_prim (prim_ok va n) d" "encode_prim va n d p = Inr v"
  shows "decode_prim va n ex v p' = Inr d \<and> \<not> va_is_null va v"
  using assms by (auto simp: encode_prim_def decode_prim_def is_prim_def store_laws_def split: datum.splits)

lemma cast_int_self: "int_ok sg w i \<Longrightarrow> cast_int sg w i = i"
  by (auto simp: int_ok_def cast_int_def signed_take_bit_int_eq_self take_bit_int_eq_self split: if_splits)

text \<open>Widening a number to a signed one and cutting it back is the identity on the type.\<close>

lemma cast_int_wider:
  assumes "0 < w" "w \<le> n" "int_ok sg w i"
  shows "cast_int sg w (cast_int True n i) = i"
proof (cases sg)
  case True
  have "(2::int) ^ (w - 1) \<le> 2 ^ (n - 1)" using assms(2) by (intro power_increasing) auto
  moreover have "- (2 ^ (w - 1)) \<le> i" "i < 2 ^ (w - 1)" using assms(3) True by (simp_all add: int_ok_def)
  ultimately have "int_ok True n i" unfolding int_ok_def if_True by linarith
  then show ?thesis using assms(3) by (simp add: cast_int_self)
next
  case False
  have "take_bit w (signed_take_bit (n - 1) i) = take_bit w i"
    using assms(1,2) by (intro take_bit_signed_take_bit) simp
  then show ?thesis using False assms(3) cast_int_self [OF assms(3)] by (simp add: cast_int_def)
qed

lemma read_int:
  assumes laws: "store_laws va" and w: "0 < w" "w \<le> 64"
    and typed: "is_prim (\<lambda>p. case p of PInt i \<Rightarrow> int_ok sg w i | _ \<Rightarrow> False) d"
    and enc: "encode_int va o1 sg w d p k = Inr v" and room: "k' \<le> max_depth o2"
  shows "decode_int va o2 sg w v p' k' = Inr d \<and> \<not> va_is_null va v"
proof -
  obtain i where d: "d = DPrim (PInt i)" "int_ok sg w i"
    using typed by (auto simp: is_prim_def split: datum.splits prim.splits)
  show ?thesis
  proof (cases "exact_int sg w")
    case (Some n)
    then have "prim_ok va n (PInt i)" using exact_int_ok [OF Some, of va "PInt i"] d(2) by simp
    moreover have "v = va_of va n (PInt i)" using enc d(1) Some by (simp add: encode_int_def deep_Inr)
    ultimately show ?thesis
      using laws room d(1) Some by (simp add: decode_int_def decode_prim_def deep_def store_laws_def)
  next
    case None
    then have v: "v = (if w \<le> 16 then va_of va NInt32 (PInt (cast_int True 32 i))
        else va_of va NInt64 (PInt (cast_int True 64 i)))"
      using enc d(1) by (simp add: encode_int_def deep_Inr split: if_splits)
    have "prim_ok va NInt32 (PInt (cast_int True 32 i))" "prim_ok va NInt64 (PInt (cast_int True 64 i))"
      using cast_int_ok [of 32 True i] cast_int_ok [of 64 True i] by (simp_all add: int_ok_def)
    then have "\<not> va_is_null va v" using laws v by (auto simp: store_laws_def)
    moreover have "va_number va v = Some (Whole (if w \<le> 16 then cast_int True 32 i else cast_int True 64 i))"
      using laws v by (simp add: store_laws_def)
    ultimately show ?thesis
      using None room d cast_int_wider [OF w(1) _ d(2)] w(2) by (simp add: decode_int_def deep_def)
  qed
qed

lemma read_parts:
  assumes "\<And>t. t \<in> set ts \<Longrightarrow> readable t \<Longrightarrow> reads o1 o2 (array_nest t) (encode t va o1) (decode t va o2) (well_typed t va)"
    "list_all id (map readable ts)" "i < length (map (\<lambda>f. f va o1) (map encode ts))"
  shows "reads o1 o2 (max_list (map array_nest ts)) (map (\<lambda>f. f va o1) (map encode ts) ! i)
    (map (\<lambda>f. f va o2) (map decode ts) ! i) (map (\<lambda>f. f va) (map well_typed ts) ! i)"
proof -
  have i: "i < length ts" using assms(3) by simp
  then have "array_nest (ts ! i) \<le> max_list (map array_nest ts)" by (intro max_list_ge) simp
  moreover have "reads o1 o2 (array_nest (ts ! i)) (encode (ts ! i) va o1) (decode (ts ! i) va o2) (well_typed (ts ! i) va)"
    using assms(1,2) i by (simp add: list_all_length)
  ultimately show ?thesis using reads_less i by simp
qed

lemma parts_deep:
  "\<lbrakk> i < length (map (\<lambda>f. f va opt) (map encode ts)); (map (\<lambda>f. f va opt) (map encode ts) ! i) x q n = Inr u \<rbrakk>
   \<Longrightarrow> n \<le> max_depth opt"
  using encode_deep by auto

text \<open>The statement of the induction, to be met case by case.\<close>

definition round_trips :: "('v, 'o) value_api \<Rightarrow> options \<Rightarrow> options \<Rightarrow> ty \<Rightarrow> bool" where
  "round_trips va o1 o2 t \<longleftrightarrow>
     reads o1 o2 (array_nest t) (encode t va o1) (decode t va o2) (well_typed t va)
     \<and> (\<forall>d p k v. never_null t \<longrightarrow> well_typed t va d \<longrightarrow> encode t va o1 d p k = Inr v \<longrightarrow> \<not> va_is_null va v)"

lemma round_tripsI:
  assumes "\<And>d p k v p' k'. \<lbrakk> well_typed t va d; encode t va o1 d p k = Inr v; k \<le> max_depth o1;
      k' + max_depth o1 + array_nest t \<le> k + max_depth o2; k' \<le> max_depth o2 \<rbrakk>
      \<Longrightarrow> decode t va o2 v p' k' = Inr d"
    "\<And>d p k v. \<lbrakk> never_null t; well_typed t va d; encode t va o1 d p k = Inr v; k \<le> max_depth o1 \<rbrakk> \<Longrightarrow> \<not> va_is_null va v"
  shows "round_trips va o1 o2 t"
  unfolding round_trips_def reads_def
proof (intro conjI allI impI)
  fix d p k v p' k'
  assume a: "well_typed t va d" "encode t va o1 d p k = Inr v" "k' + max_depth o1 + array_nest t \<le> k + max_depth o2"
  have k: "k \<le> max_depth o1" by (rule encode_deep [OF a(2)])
  then have "k' \<le> max_depth o2" using a(3) by linarith
  with a k show "decode t va o2 v p' k' = Inr d" by (intro assms(1))
next
  fix d p k v
  assume a: "never_null t" "well_typed t va d" "encode t va o1 d p k = Inr v"
  then show "\<not> va_is_null va v" by (intro assms(2) [OF _ _ _ encode_deep [OF a(3)]])
qed

lemma round_tripsD:
  assumes "round_trips va o1 o2 t"
  shows "reads o1 o2 (array_nest t) (encode t va o1) (decode t va o2) (well_typed t va)"
    "never_null t \<Longrightarrow> well_typed t va d \<Longrightarrow> encode t va o1 d p k = Inr v \<Longrightarrow> \<not> va_is_null va v"
  using assms by (auto simp: round_trips_def)

lemma native_value_read:
  assumes "store_laws va" "prim_ok va n p"
  shows "va_get va n (native_value va opt (va_of va n p)) = Some p" "\<not> va_is_null va (native_value va opt (va_of va n p))"
  using assms reads_as_native [OF assms(1), of opt "va_of va n p"] by (auto simp: reads_as_def store_laws_def)

lemma prims_round_trip:
  assumes "store_laws va"
  shows "round_trips va o1 o2 TByte" "round_trips va o1 o2 TBool" "round_trips va o1 o2 TFloat"
    "round_trips va o1 o2 TDouble"
proof -
  note r = read_prim [OF assms, THEN conjunct1] and nn = read_prim [OF assms, THEN conjunct2]
  show "round_trips va o1 o2 TByte" "round_trips va o1 o2 TBool" "round_trips va o1 o2 TFloat"
    "round_trips va o1 o2 TDouble"
    by (rule round_tripsI; simp add: deep_Inr deep_def r nn)+
qed

lemma tuple_round_trip:
  assumes laws: "store_laws va" and ts: "list_all id (map readable ts)"
    and parts: "\<And>t. t \<in> set ts \<Longrightarrow> readable t \<Longrightarrow> round_trips va o1 o2 t"
    and typed: "is_tuple (map (\<lambda>f. f va) (map well_typed ts)) d"
    and enc: "encode_tuple va (map (\<lambda>f. f va o1) (map encode ts)) d p k = Inr v"
    and room: "k' + max_depth o1 + max_list (map array_nest ts) \<le> k + max_depth o2"
  shows "decode_tuple va ex msg (map (\<lambda>f. f va o2) (map decode ts)) v p' k' = Inr d"
  using read_tuple [OF laws _ _ read_parts [OF round_tripsD(1) [OF parts] ts] typed enc room] by simp

lemma tuple_not_null:
  "store_laws va \<Longrightarrow> encode_tuple va encs d p k = Inr v \<Longrightarrow> \<not> va_is_null va v"
  by (auto simp: encode_tuple_def store_laws_def split: datum.splits if_splits sum.splits)

lemma variant_round_trip:
  assumes laws: "store_laws va" and ts: "list_all id (map readable ts)" "length ts \<le> 2 ^ 31"
    and parts: "\<And>t. t \<in> set ts \<Longrightarrow> readable t \<Longrightarrow> round_trips va o1 o2 t"
    and typed: "is_alt (map (\<lambda>f. f va) (map well_typed ts)) d"
    and enc: "encode_variant va o1 (map (\<lambda>f. f va o1) (map encode ts)) d p k = Inr v"
    and room: "k' + max_depth o1 + max_list (map array_nest ts) \<le> k + max_depth o2"
  shows "decode_variant va o2 (map (\<lambda>f. f va o2) (map decode ts)) v p' k' = Inr d"
proof -
  have "decode_variant va o2 (map (\<lambda>f. f va o2) (map decode ts)) v p' k' = Inr d \<and> \<not> va_is_null va v"
  proof (rule read_variant [OF laws _ _ _ _ _ typed enc room])
    show "reads o1 o2 (max_list (map array_nest ts)) (map (\<lambda>f. f va o1) (map encode ts) ! i)
        (map (\<lambda>f. f va o2) (map decode ts) ! i) (map (\<lambda>f. f va) (map well_typed ts) ! i)"
      if "i < length (map (\<lambda>f. f va o1) (map encode ts))" for i
      by (rule read_parts [OF round_tripsD(1) [OF parts] ts(1) that])
    show "n \<le> max_depth o1" if "i < length (map (\<lambda>f. f va o1) (map encode ts))"
        "(map (\<lambda>f. f va o1) (map encode ts) ! i) x q n = Inr u" for i x q n u
      by (rule parts_deep [OF that])
  qed (use ts(2) in simp_all)
  then show ?thesis by blast
qed

lemma variant_not_null:
  "store_laws va \<Longrightarrow> encode_variant va opt encs d p k = Inr v \<Longrightarrow> \<not> va_is_null va v"
  by (auto simp: encode_variant_def deep_Inr store_laws_def split: datum.splits if_splits sum.splits)

lemma range_not_null:
  "store_laws va \<Longrightarrow> encode_range va opt t enc ds p k = Inr v \<Longrightarrow> \<not> va_is_null va v"
  by (auto simp: encode_range_def store_laws_def split: option.splits if_splits sum.splits)

lemma vector_round_trip:
  assumes laws: "store_laws va" and elem: "t = THashtable \<or> round_trips va o1 o2 t"
    and typed: "list_all (well_typed t va) ds"
    and enc: "encode_range va o1 t (encode t va o1) ds p k = Inr v"
    and room: "k \<le> max_depth o1" "k' + max_depth o1 + array_nest t \<le> k + max_depth o2"
    and w: "reads_as va w v"
  shows "decode_vector va o2 t (decode t va o2) w p' k' = Inr ds" "\<not> va_is_null va v"
  using read_vector [OF laws _ typed enc room w] elem round_tripsD(1) by blast+

lemma encode_decode:
  assumes laws: "store_laws va"
  shows "readable t \<Longrightarrow> round_trips va o1 o2 t"
proof (induction t)
  case TValue
  show ?case by (rule round_tripsI) (auto simp: deep_Inr deep_def split: datum.splits)
next
  case TNull
  show ?case using laws by (intro round_tripsI) (auto simp: deep_Inr deep_def store_laws_def)
next
  case (TNative n)
  show ?case
    using native_value_read [OF laws]
    by (intro round_tripsI) (auto simp: deep_Inr deep_def is_prim_def split: datum.splits)
next
  case TString
  show ?case
    using native_value_read [OF laws, of NString]
    by (intro round_tripsI) (auto simp: deep_Inr deep_def is_prim_def decode_prim_def split: datum.splits)
next
  case (TInt sg w)
  then have w: "0 < w" "w \<le> 64" by simp_all
  show ?case
    by (rule round_tripsI) (use read_int [OF laws w, of sg] in \<open>auto simp only: decode.simps encode.simps well_typed.simps\<close>)
next
  case (TEnum n)
  then obtain sg w where n: "native_int n = Some (sg, w)" by auto
  then have e: "exact_int sg w = Some n" "0 < w" "w \<le> 64"
    by (cases n; simp add: native_int_def exact_int_def)+
  have typed: "well_typed (TEnum n) va d \<longleftrightarrow> is_prim (\<lambda>p. case p of PInt i \<Rightarrow> int_ok sg w i | _ \<Rightarrow> False) d" for d
    by (auto simp: is_prim_def exact_int_ok [OF e(1)] split: datum.splits)
  show ?case
  proof (rule round_tripsI)
    fix d p k v p' k'
    assume a: "well_typed (TEnum n) va d" "encode (TEnum n) va o1 d p k = Inr v" "k' \<le> max_depth o2"
    have "decode_int va o2 sg w v p' k' = Inr d"
      using read_int [OF laws e(2,3) a(1) [unfolded typed], of o1 p "k + 1" v k'] a(2,3) n by (simp add: deep_Inr)
    then show "decode (TEnum n) va o2 v p' k' = Inr d"
      using a(3) by (simp add: decode_int_def e(1) deep_def decode_prim_def type_error_def split: option.splits)
  next
    fix d p k v
    assume a: "well_typed (TEnum n) va d" "encode (TEnum n) va o1 d p k = Inr v"
    then show "\<not> va_is_null va v"
      using read_int [OF laws e(2,3) a(1) [unfolded typed], of o1 p "k + 1" v 0] n by (simp add: deep_Inr)
  qed
next
  case THashtable
  then show ?case by simp
next
  case (TOptional t)
  then have t: "round_trips va o1 o2 t" "never_null t" by auto
  show ?case
  proof (rule round_tripsI)
    fix d p k v p' k'
    assume a: "well_typed (TOptional t) va d" "encode (TOptional t) va o1 d p k = Inr v" "k \<le> max_depth o1"
      "k' + max_depth o1 + array_nest (TOptional t) \<le> k + max_depth o2" "k' \<le> max_depth o2"
    show "decode (TOptional t) va o2 v p' k' = Inr d"
    proof (cases d)
      case DNone
      then show ?thesis using a laws by (simp add: deep_Inr deep_def store_laws_def)
    next
      case (DSome x)
      then have x: "well_typed t va x" "encode t va o1 x p (k + 1) = Inr v" using a(1,2) by (simp_all add: deep_Inr)
      have "decode t va o2 v p' (k' + 1) = Inr x"
        using readsD [OF round_tripsD(1) [OF t(1)] x, of "k' + 1"] a(4) by simp
      then show ?thesis using round_tripsD(2) [OF t(1,2) x] a(5) DSome by (simp add: deep_def)
    qed (use a(1) in simp_all)
  qed simp
next
  case (TVector t)
  then have t: "t = THashtable \<or> round_trips va o1 o2 t" by auto
  show ?case
  proof (rule round_tripsI)
    fix d p k v p' k'
    assume a: "well_typed (TVector t) va d" "encode (TVector t) va o1 d p k = Inr v" "k \<le> max_depth o1"
      "k' + max_depth o1 + array_nest (TVector t) \<le> k + max_depth o2" "k' \<le> max_depth o2"
    obtain ds u where d: "d = DSeq ds" "encode_range va o1 t (encode t va o1) ds p k = Inr u"
        "v = (if elem_native t \<noteq> None \<or> t = TValue then native_value va o1 u else u)"
      using a(2) by (auto simp: deep_Inr split: datum.splits sum.splits)
    have "reads_as va v u" using reads_as_native [OF laws] d(3) by (simp add: reads_as_def)
    then show "decode (TVector t) va o2 v p' k' = Inr d"
      using vector_round_trip(1) [OF laws t _ d(2) a(3)] a(1,4) d(1) by simp
  next
    fix d p k v
    assume a: "well_typed (TVector t) va d" "encode (TVector t) va o1 d p k = Inr v"
    obtain ds u where d: "encode_range va o1 t (encode t va o1) ds p k = Inr u"
        "v = (if elem_native t \<noteq> None \<or> t = TValue then native_value va o1 u else u)"
      using a(2) by (auto simp: deep_Inr split: datum.splits sum.splits)
    then show "\<not> va_is_null va v"
      using range_not_null [OF laws d(1)] reads_as_native [OF laws, of o1 u] by (auto simp: reads_as_def)
  qed
next
  case (TArray t n)
  then have t: "t = THashtable \<or> round_trips va o1 o2 t" by auto
  show ?case
  proof (rule round_tripsI)
    fix d p k v p' k'
    assume a: "well_typed (TArray t n) va d" "encode (TArray t n) va o1 d p k = Inr v" "k \<le> max_depth o1"
      "k' + max_depth o1 + array_nest (TArray t n) \<le> k + max_depth o2" "k' \<le> max_depth o2"
    obtain ds where d: "d = DSeq ds" "encode_range va o1 t (encode t va o1) ds p k = Inr v"
      using a(2) by (auto simp: deep_Inr split: datum.splits)
    have "k' + 1 + max_depth o1 + array_nest t \<le> k + max_depth o2" using a(4) by simp
    then show "decode (TArray t n) va o2 v p' k' = Inr d"
      using vector_round_trip(1) [OF laws t _ d(2) a(3), of "k' + 1" v p'] a(1,5) d(1)
      by (simp add: reads_as_def deep_def)
  next
    fix d p k v
    assume "encode (TArray t n) va o1 d p k = Inr v"
    then show "\<not> va_is_null va v"
      using range_not_null [OF laws] by (auto simp: deep_Inr split: datum.splits)
  qed
next
  case (TPair a b)
  then have ab: "list_all id (map readable [a, b])" "\<And>t. t \<in> set [a, b] \<Longrightarrow> readable t \<Longrightarrow> round_trips va o1 o2 t"
    by auto
  show ?case
    using tuple_round_trip [OF laws ab] tuple_not_null [OF laws]
    by (intro round_tripsI) (auto simp: deep_Inr deep_def max_list_def)
next
  case (TTuple ts)
  then have ts: "list_all id (map readable ts)" by simp
  show ?case
    using tuple_round_trip [OF laws ts TTuple.IH] tuple_not_null [OF laws]
    by (intro round_tripsI) (simp_all add: deep_Inr deep_def del: map_map)
next
  case (TStruct ts)
  then have ts: "list_all id (map readable ts)" by simp
  show ?case
    using tuple_round_trip [OF laws ts TStruct.IH] tuple_not_null [OF laws]
    by (intro round_tripsI) (simp_all add: deep_Inr deep_def del: map_map)
next
  case (TVariant ts)
  then have ts: "list_all id (map readable ts)" "length ts \<le> 2 ^ 31" by simp_all
  show ?case
    using variant_round_trip [OF laws ts TVariant.IH] variant_not_null [OF laws]
    by (intro round_tripsI) (simp_all del: map_map)
next
  case (TMessage ts)
  then have ts: "list_all id (map readable ts)" "length ts \<le> 2 ^ 31" by simp_all
  let ?encs = "map (\<lambda>f. f va o1) (map encode ts)"
  show ?case
  proof (rule round_tripsI)
    fix d p k v p' k'
    assume a: "well_typed (TMessage ts) va d" "encode (TMessage ts) va o1 d p k = Inr v" "k \<le> max_depth o1"
      "k' + max_depth o1 + array_nest (TMessage ts) \<le> k + max_depth o2" "k' \<le> max_depth o2"
    obtain b x u where d: "d = DMsg b x" "encode_variant va o1 ?encs x (child_path p 1) (k + 1) = Inr u"
        "v = va_of_objects va [va_of va NBool (PBool b), u]"
      using a(2) by (auto simp: deep_Inr split: datum.splits sum.splits simp del: map_map)
    have "k + 1 \<le> max_depth o1" using d(2) by (simp add: encode_variant_def deep_Inr)
    then have k': "k' + 1 \<le> max_depth o2" "k' + 1 + max_depth o1 + max_list (map array_nest ts) \<le> k + 1 + max_depth o2"
      using a(4) by simp_all
    have x: "is_alt (map (\<lambda>f. f va) (map well_typed ts)) x" using a(1) d(1) by (simp del: map_map)
    have "decode_variant va o2 (map (\<lambda>f. f va o2) (map decode ts)) u (child_path p' 1) (k' + 1) = Inr x"
      by (rule variant_round_trip [OF laws ts TMessage.IH x d(2) k'(2)])
    moreover have "decode_prim va NBool ''bool'' (va_of va NBool (PBool b)) (child_path p' 0) = Inr (DPrim (PBool b))"
      using laws by (simp add: decode_prim_def store_laws_def)
    moreover have "as_list_ptr va v = Some [va_of va NBool (PBool b), u]"
      using laws d(3) by (simp add: as_list_ptr_def store_laws_def)
    ultimately show "decode (TMessage ts) va o2 v p' k' = Inr d"
      using k'(1) d(1) by (simp add: deep_def del: map_map)
  next
    fix d p k v
    assume "encode (TMessage ts) va o1 d p k = Inr v"
    then show "\<not> va_is_null va v"
      using laws by (auto simp: deep_Inr store_laws_def split: datum.splits sum.splits)
  qed
next
  case (TMap kt mt)
  then have km: "round_trips va o1 o2 kt" "round_trips va o1 o2 mt" by simp_all
  have "reads o1 o2 (array_nest (TMap kt mt)) (encode kt va o1) (decode kt va o2) (well_typed kt va)"
      "reads o1 o2 (array_nest (TMap kt mt)) (encode mt va o1) (decode mt va o2) (well_typed mt va)"
    using km [THEN round_tripsD(1)] by (auto intro: reads_less)
  note entries = read_entries [OF laws this]
  show ?case
  proof (rule round_tripsI)
    fix d p k v p' k'
    assume a: "well_typed (TMap kt mt) va d" "encode (TMap kt mt) va o1 d p k = Inr v"
      "k' + max_depth o1 + array_nest (TMap kt mt) \<le> k + max_depth o2" "k' \<le> max_depth o2"
    obtain es vs where d: "d = DMap es" "encode_entries va (encode kt va o1) (encode mt va o1) es p k 0 = Inr vs"
        "v = va_of_objects va vs"
      using a(2) by (auto simp: deep_Inr split: datum.splits sum.splits)
    have "decode_entries va (decode kt va o2) (decode mt va o2) vs [] p' k' 0 = Inr (built va es)"
      unfolding built_def using a(1) d(1) by (intro entries [OF a(3) _ d(2)]) simp
    moreover have "as_list_ptr va v = Some vs" using laws d(3) by (simp add: as_list_ptr_def store_laws_def)
    ultimately show "decode (TMap kt mt) va o2 v p' k' = Inr d" using a(1,4) d(1) by (simp add: deep_def)
  next
    fix d p k v
    assume "encode (TMap kt mt) va o1 d p k = Inr v"
    then show "\<not> va_is_null va v"
      using laws by (auto simp: deep_Inr store_laws_def split: datum.splits sum.splits)
  qed
qed (rule prims_round_trip [OF laws])+

text \<open>
  C30: Decoding yields a value of the type, or an error that names the place of the value that
  was given or a place inside it.
\<close>

theorem decoded_is_typed:
  assumes "access_laws va" "sized t"
  shows "case from_value t va opt v of Inl e \<Rightarrow> \<exists>s. er_path e = ''$'' @ s | Inr d \<Rightarrow> well_typed t va d"
  using decode_good [OF assms] by (simp add: from_value_def good_def)

text \<open>
  C31: What was encoded is read back unchanged by a decoder whose nesting limit exceeds the
  encoder's by the number of nested arrays in the type, for every type that does not have an
  optional of something that may encode as null.
\<close>

theorem value_round_trip:
  assumes "store_laws va" "readable t" "well_typed t va d" "to_value t va o1 d = Inr v"
    "max_depth o1 + array_nest t \<le> max_depth o2"
  shows "from_value t va o2 v = Inr d"
  using readsD [OF round_tripsD(1) [OF encode_decode [OF assms(1,2)]] assms(3) assms(4) [unfolded to_value_def]] assms(5)
  by (simp add: from_value_def)

section \<open>Failures of the encoder\<close>

text \<open>How many levels below itself a value of the type is encoded at most, and where a variant may be empty.\<close>

primrec height :: "ty \<Rightarrow> nat" where
  "height TValue = 0"
| "height (TMessage ts) = Suc (Suc (max_list (map height ts)))"
| "height TNull = 0"
| "height (TOptional t) = Suc (height t)"
| "height TByte = 0"
| "height (TEnum n) = 1"
| "height TString = 0"
| "height TBool = 0"
| "height (TInt sg w) = 0"
| "height TFloat = 0"
| "height TDouble = 0"
| "height THashtable = 0"
| "height (TVector t) = Suc (height t)"
| "height (TArray t n) = Suc (height t)"
| "height (TPair a b) = Suc (max (height a) (height b))"
| "height (TTuple ts) = Suc (max_list (map height ts))"
| "height (TVariant ts) = Suc (max_list (map height ts))"
| "height (TMap k m) = Suc (max (height k) (height m))"
| "height (TNative n) = 0"
| "height (TStruct ts) = Suc (max_list (map height ts))"

primrec has_variant :: "ty \<Rightarrow> bool" where
  "has_variant TValue = False"
| "has_variant (TMessage ts) = True"
| "has_variant TNull = False"
| "has_variant (TOptional t) = has_variant t"
| "has_variant TByte = False"
| "has_variant (TEnum n) = False"
| "has_variant TString = False"
| "has_variant TBool = False"
| "has_variant (TInt sg w) = False"
| "has_variant TFloat = False"
| "has_variant TDouble = False"
| "has_variant THashtable = False"
| "has_variant (TVector t) = has_variant t"
| "has_variant (TArray t n) = has_variant t"
| "has_variant (TPair a b) = (has_variant a \<or> has_variant b)"
| "has_variant (TTuple ts) = list_ex id (map has_variant ts)"
| "has_variant (TVariant ts) = True"
| "has_variant (TMap k m) = (has_variant k \<or> has_variant m)"
| "has_variant (TNative n) = False"
| "has_variant (TStruct ts) = list_ex id (map has_variant ts)"

text \<open>An error is one of two, each only where it is allowed.\<close>

definition benign :: "bool \<Rightarrow> bool \<Rightarrow> 'a result \<Rightarrow> bool" where
  "benign deeper vacant r = (case r of
       Inl e \<Rightarrow> (er_message e = ''maximum nesting depth exceeded'' \<and> deeper)
         \<or> (er_message e = ''variant is valueless_by_exception'' \<and> vacant)
     | Inr x \<Rightarrow> True)"

lemma benign_simps [simp]:
  "benign b1 b2 (Inr x)" "benign b1 True (fail p ''variant is valueless_by_exception'')"
  by (simp_all add: benign_def fail_def)

lemma benign_deep: "benign b1 b2 r \<Longrightarrow> max_depth opt < k \<longrightarrow> b1 \<Longrightarrow> benign b1 b2 (deep opt p k r)"
  by (simp add: deep_def benign_def fail_def)

lemma benign_bind:
  assumes "benign b1 b2 r" "\<And>x. r = Inr x \<Longrightarrow> benign b1 b2 (f x)"
  shows "benign b1 b2 (case r of Inl e \<Rightarrow> Inl e | Inr x \<Rightarrow> f x)"
  using assms by (cases r) (auto simp: benign_def)

lemma benign_mono: "benign b1 b2 r \<Longrightarrow> (b1 \<Longrightarrow> c1) \<Longrightarrow> (b2 \<Longrightarrow> c2) \<Longrightarrow> benign c1 c2 r"
  by (auto simp: benign_def split: sum.splits)

text \<open>An encoder that is benign on well-typed data one level below \<^theory_text>\<open>k\<close>.\<close>

definition benign_at :: "bool \<Rightarrow> bool \<Rightarrow> nat \<Rightarrow> ('d \<Rightarrow> string \<Rightarrow> nat \<Rightarrow> 'v result) \<Rightarrow> ('d \<Rightarrow> bool) \<Rightarrow> bool" where
  "benign_at b1 b2 k enc ok \<longleftrightarrow> (\<forall>d p. ok d \<longrightarrow> benign b1 b2 (enc d p (k + 1)))"

lemma benign_list:
  assumes "length encs = length ds" "\<And>i p. i < length ds \<Longrightarrow> benign b1 b2 ((encs ! i) (ds ! i) p (k + 1))"
  shows "benign b1 b2 (encode_list encs ds p k i)"
  using assms
proof (induction ds arbitrary: encs i)
  case Nil
  then show ?case by simp
next
  case (Cons d ds)
  obtain enc encs' where e: "encs = enc # encs'" using Cons.prems(1) by (cases encs) auto
  have "benign b1 b2 (enc d (child_path p i) (k + 1))" using Cons.prems(2) [of 0] e by simp
  moreover have "benign b1 b2 (encode_list encs' ds p k (i + 1))"
    using Cons.IH [of encs' "i + 1"] Cons.prems e by fastforce
  ultimately show ?case unfolding e encode_list.simps by (intro benign_bind) simp_all
qed

lemma benign_tuple:
  assumes "list_all2 (benign_at b1 b2 k) encs oks" "is_tuple oks d"
  shows "benign b1 b2 (encode_tuple va encs d p k)"
proof -
  obtain ds where d: "d = DSeq ds" "list_all2 (\<lambda>ok x. ok x) oks ds"
    using assms(2) by (auto simp: is_tuple_def split: datum.splits)
  then have "benign b1 b2 (encode_list encs ds p k 0)"
    using assms(1) by (intro benign_list) (auto simp: list_all2_conv_all_nth benign_at_def)
  then show ?thesis
    using assms(1) d by (auto simp: encode_tuple_def list_all2_lengthD intro: benign_bind dest!: list_all2_lengthD)
qed

lemma benign_variant:
  assumes "list_all2 (benign_at b1 True k) encs oks" "is_alt oks d" "max_depth opt < k \<longrightarrow> b1"
  shows "benign b1 True (encode_variant va opt encs d p k)"
  unfolding encode_variant_def
  using assms
  by (intro benign_deep)
    (auto simp: is_alt_def list_all2_conv_all_nth benign_at_def intro!: benign_bind split: datum.splits)

lemma those_typed_prims:
  "list_all (is_prim ok) ds \<Longrightarrow> \<exists>ps. those (map as_prim ds) = Some ps"
  by (induction ds) (auto simp: is_prim_def split: datum.splits)

lemma those_typed_values:
  "list_all (well_typed TValue va) ds \<Longrightarrow> \<exists>vs. those (map as_value ds) = Some vs"
  by (induction ds) (auto split: datum.splits)

lemma benign_range:
  assumes "list_all (well_typed t va) ds" "benign_at b1 b2 k enc (well_typed t va)"
  shows "benign b1 b2 (encode_range va opt t enc ds p k)"
proof -
  consider n where "(if t = TByte then Some NByte else elem_native t) = Some n"
    | "t = TValue" | "t = THashtable"
    | "(if t = TByte then Some NByte else elem_native t) = None" "t \<noteq> TValue" "t \<noteq> THashtable"
    by (cases "if t = TByte then Some NByte else elem_native t") auto
  then show ?thesis
  proof cases
    case (1 n)
    then have "well_typed t va d \<longleftrightarrow> is_prim (prim_ok va n) d" for d
      using elem_native_typed by (auto split: if_splits)
    then have "list_all (is_prim (prim_ok va n)) ds" using assms(1) by (simp add: list_all_iff)
    then obtain ps where "those (map as_prim ds) = Some ps" using those_typed_prims by blast
    then show ?thesis using 1 by (simp add: encode_range_def)
  next
    case 2
    then obtain vs where "those (map as_value ds) = Some vs" using assms(1) those_typed_values by blast
    then show ?thesis using 2 by (simp add: encode_range_def)
  next
    case 3
    then have "list_all (is_prim (\<lambda>p. case p of PObj x \<Rightarrow> va_is_table va x | _ \<Rightarrow> False)) ds"
      using assms(1) by (simp only: well_typed_table)
    then obtain ps where "those (map as_prim ds) = Some ps" using those_typed_prims by blast
    then show ?thesis using 3 by (simp add: encode_range_def)
  next
    case 4
    have "benign b1 b2 (encode_list (replicate (length ds) enc) ds p k 0)"
      using assms by (intro benign_list) (simp_all add: list_all_length benign_at_def)
    then show ?thesis using 4 by (auto simp: encode_range_def intro: benign_bind)
  qed
qed

lemma benign_entries:
  assumes "list_all (\<lambda>(x, y). okk x \<and> okm y) es" "benign_at b1 b2 k ek okk" "benign_at b1 b2 k em okm"
  shows "benign b1 b2 (encode_entries va ek em es p k i)"
  using assms(1)
proof (induction es arbitrary: i)
  case Nil
  then show ?case by simp
next
  case (Cons e es)
  then show ?case using assms(2,3) by (cases e) (auto intro!: benign_bind simp: benign_at_def)
qed

lemma benign_prim: "is_prim ok d \<Longrightarrow> benign b1 b2 (encode_prim va n d p)"
  by (auto simp: is_prim_def encode_prim_def split: datum.splits)

lemma benign_int:
  "\<lbrakk> is_prim (\<lambda>p. case p of PInt i \<Rightarrow> int_ok sg w i | _ \<Rightarrow> False) d; max_depth opt < k \<longrightarrow> b1 \<rbrakk>
   \<Longrightarrow> benign b1 b2 (encode_int va opt sg w d p k)"
  by (auto simp: is_prim_def encode_int_def intro!: benign_deep split: datum.splits prim.splits)

text \<open>The statement of the induction.\<close>

definition fails_only :: "('v, 'o) value_api \<Rightarrow> options \<Rightarrow> ty \<Rightarrow> bool" where
  "fails_only va opt t \<longleftrightarrow> (\<forall>d p k. well_typed t va d
     \<longrightarrow> benign (max_depth opt < k + height t) (has_variant t) (encode t va opt d p k))"

lemma fails_only_at:
  assumes "fails_only va opt t" "height t < h" "has_variant t \<Longrightarrow> b2"
  shows "benign_at (max_depth opt < k + h) b2 k (encode t va opt) (well_typed t va)"
proof -
  show ?thesis
    unfolding benign_at_def
  proof (intro allI impI)
    fix d p assume "well_typed t va d"
    then have "benign (max_depth opt < k + 1 + height t) (has_variant t) (encode t va opt d p (k + 1))"
      using assms(1) unfolding fails_only_def by blast
    then show "benign (max_depth opt < k + h) b2 (encode t va opt d p (k + 1))"
      by (rule benign_mono) (use assms(2,3) in simp_all)
  qed
qed

lemma fails_only_parts:
  assumes "\<And>t. t \<in> set ts \<Longrightarrow> sized t \<Longrightarrow> fails_only va opt t" "list_all id (map sized ts)"
    "max_list (map height ts) < h" "list_ex id (map has_variant ts) \<Longrightarrow> b2"
  shows "list_all2 (benign_at (max_depth opt < k + h) b2 k) (map (\<lambda>f. f va opt) (map encode ts))
    (map (\<lambda>f. f va) (map well_typed ts))"
proof -
  have "benign_at (max_depth opt < k + h) b2 k (encode (ts ! i) va opt) (well_typed (ts ! i) va)" if "i < length ts" for i
  proof (rule fails_only_at)
    show "fails_only va opt (ts ! i)" using assms(1,2) that by (simp add: list_all_length)
    show "height (ts ! i) < h"
      using max_list_ge [of "height (ts ! i)" "map height ts"] assms(3) that by simp
    show "b2" if "has_variant (ts ! i)"
      using that \<open>i < length ts\<close> by (intro assms(4)) (auto simp: list_ex_length)
  qed
  then show ?thesis by (simp add: list_all2_conv_all_nth)
qed

lemma encode_fails_only: "sized t \<Longrightarrow> fails_only va opt t"
proof (induction t)
  case (TMessage ts)
  have "benign (max_depth opt < k + height (TMessage ts)) True
      (encode_variant va opt (map (\<lambda>f. f va opt) (map encode ts)) x q (k + 1))"
    if "is_alt (map (\<lambda>f. f va) (map well_typed ts)) x" for x q k
    using benign_variant [OF fails_only_parts [of ts va opt "Suc (max_list (map height ts))" True "k + 1"] that]
      TMessage by simp
  then show ?case
    unfolding fails_only_def
    by (auto intro!: benign_deep benign_bind split: datum.splits simp del: map_map)
next
  case (TOptional t)
  then have "benign_at (max_depth opt < k + height (TOptional t)) (has_variant t) k (encode t va opt) (well_typed t va)" for k
    by (intro fails_only_at) simp_all
  then show ?case
    unfolding fails_only_def by (auto intro!: benign_deep simp: benign_at_def split: datum.splits)
next
  case (TEnum n)
  then obtain sg w where n: "native_int n = Some (sg, w)" by auto
  then have "exact_int sg w = Some n" by (cases n; simp add: native_int_def exact_int_def)+
  then have "is_prim (\<lambda>p. case p of PInt i \<Rightarrow> int_ok sg w i | _ \<Rightarrow> False) d" if "is_prim (prim_ok va n) d"
    for d :: "('a, 'b) datum"
    using that by (auto simp: is_prim_def exact_int_ok split: datum.splits)
  then show ?case unfolding fails_only_def using n by (auto intro!: benign_deep benign_int)
next
  case (TVector t)
  have at: "benign_at (max_depth opt < k + height (TVector t)) (has_variant t) k (encode t va opt) (well_typed t va)" for k
    using TVector by (intro fails_only_at) simp_all
  show ?case
    unfolding fails_only_def using benign_range [OF _ at]
    by (auto intro!: benign_deep benign_bind split: datum.splits)
next
  case (TArray t n)
  have at: "benign_at (max_depth opt < k + height (TArray t n)) (has_variant t) k (encode t va opt) (well_typed t va)" for k
    using TArray by (intro fails_only_at) simp_all
  show ?case
    unfolding fails_only_def using benign_range [OF _ at] by (auto intro!: benign_deep split: datum.splits)
next
  case (TPair a b)
  then have "list_all2 (benign_at (max_depth opt < k + height (TPair a b)) (has_variant a \<or> has_variant b) k)
      [encode a va opt, encode b va opt] [well_typed a va, well_typed b va]" for k
    by (simp only: list_all2_Cons list_all2_Nil) (intro conjI TrueI fails_only_at; simp)
  from benign_tuple [OF this] show ?case unfolding fails_only_def by (auto intro!: benign_deep)
next
  case (TTuple ts)
  have "list_all2 (benign_at (max_depth opt < k + height (TTuple ts)) (has_variant (TTuple ts)) k)
      (map (\<lambda>f. f va opt) (map encode ts)) (map (\<lambda>f. f va) (map well_typed ts))" for k
    using TTuple by (intro fails_only_parts) simp_all
  from benign_tuple [OF this] show ?case
    unfolding fails_only_def by (auto intro!: benign_deep simp del: map_map)
next
  case (TStruct ts)
  have "list_all2 (benign_at (max_depth opt < k + height (TStruct ts)) (has_variant (TStruct ts)) k)
      (map (\<lambda>f. f va opt) (map encode ts)) (map (\<lambda>f. f va) (map well_typed ts))" for k
    using TStruct by (intro fails_only_parts) simp_all
  from benign_tuple [OF this] show ?case
    unfolding fails_only_def by (auto intro!: benign_deep simp del: map_map)
next
  case (TVariant ts)
  have "list_all2 (benign_at (max_depth opt < k + height (TVariant ts)) True k)
      (map (\<lambda>f. f va opt) (map encode ts)) (map (\<lambda>f. f va) (map well_typed ts))" for k
    using TVariant by (intro fails_only_parts) simp_all
  from benign_variant [OF this] show ?case
    unfolding fails_only_def by (auto simp del: map_map)
next
  case (TMap kt mt)
  have at: "benign_at (max_depth opt < k + height (TMap kt mt)) (has_variant (TMap kt mt)) k (encode kt va opt) (well_typed kt va)"
      "benign_at (max_depth opt < k + height (TMap kt mt)) (has_variant (TMap kt mt)) k (encode mt va opt) (well_typed mt va)" for k
    using TMap by (intro fails_only_at; simp)+
  show ?case
    unfolding fails_only_def using benign_entries [OF _ at]
    by (auto intro!: benign_deep benign_bind split: datum.splits)
next
  case (TNative n)
  then show ?case unfolding fails_only_def by (auto intro!: benign_deep simp: is_prim_def split: datum.splits)
next
  case TString
  then show ?case unfolding fails_only_def by (auto intro!: benign_deep simp: is_prim_def split: datum.splits)
next
  case THashtable
  then show ?case unfolding fails_only_def by (auto intro!: benign_deep simp: is_prim_def split: datum.splits prim.splits)
next
  case TValue
  then show ?case unfolding fails_only_def by (auto intro!: benign_deep split: datum.splits)
qed (auto simp: fails_only_def intro!: benign_deep benign_prim benign_int)

text \<open>
  Encoding a value of the type fails for two reasons only: the type is nested deeper than
  the limit, or the value holds a variant that lost its value.
\<close>

theorem encoding_fails_only:
  assumes "sized t" "well_typed t va d" "to_value t va opt d = Inl e"
  shows "er_message e = ''maximum nesting depth exceeded'' \<and> max_depth opt < height t
    \<or> er_message e = ''variant is valueless_by_exception'' \<and> has_variant t"
proof -
  have "benign (max_depth opt < 0 + height t) (has_variant t) (encode t va opt d ''$'' 0)"
    using encode_fails_only [OF assms(1), of va opt] assms(2) unfolding fails_only_def by blast
  then show ?thesis using assms(3) by (simp add: to_value_def benign_def)
qed

lemma encoding_succeeds:
  assumes "sized t" "well_typed t va d" "height t \<le> max_depth opt" "\<not> has_variant t"
  shows "\<exists>v. to_value t va opt d = Inr v"
proof -
  have "benign (max_depth opt < 0 + height t) (has_variant t) (encode t va opt d ''$'' 0)"
    using encode_fails_only [OF assms(1), of va opt] assms(2) unfolding fails_only_def by blast
  then show ?thesis using assms(3,4) by (simp add: to_value_def benign_def split: sum.splits)
qed

section \<open>Where encoder and decoder differ\<close>

text \<open>
  An array is decoded as a vector one level below itself, so an array that sits exactly at the
  limit is written and refused when it is read with the same limit; an optional of an optional
  forgets which of the two was empty.
\<close>

lemma array_at_limit:
  assumes "access_laws va" "store_laws va" "max_depth opt = 0"
  shows "\<exists>v e. to_value (TArray TBool 1) va opt (DSeq [DPrim (PBool b)]) = Inr v
    \<and> from_value (TArray TBool 1) va opt v = Inl e \<and> er_message e = ''maximum nesting depth exceeded''"
  using assms(3) by (simp add: to_value_def from_value_def encode_range_def deep_def decode_vector_def fail_def)

lemma nested_optional_collapses:
  assumes "store_laws va"
  shows "\<exists>v. to_value (TOptional (TOptional TBool)) va default_options (DSome DNone) = Inr v
    \<and> from_value (TOptional (TOptional TBool)) va default_options v = Inr DNone"
  using assms by (simp add: to_value_def from_value_def deep_def default_options_def store_laws_def)

section \<open>A library of values\<close>

datatype sample_value = SNull | SPrim native "nat prim" | SVec native "nat prim list" | SObjects "sample_value list"

fun sample_ok :: "native \<Rightarrow> nat prim \<Rightarrow> bool" where
  "sample_ok NBool p = (case p of PBool b \<Rightarrow> True | _ \<Rightarrow> False)"
| "sample_ok NByte p = (case p of PInt i \<Rightarrow> 0 \<le> i \<and> i < 2 ^ 8 | _ \<Rightarrow> False)"
| "sample_ok NInt16 p = (case p of PInt i \<Rightarrow> - (2 ^ 15) \<le> i \<and> i < 2 ^ 15 | _ \<Rightarrow> False)"
| "sample_ok NInt32 p = (case p of PInt i \<Rightarrow> - (2 ^ 31) \<le> i \<and> i < 2 ^ 31 | _ \<Rightarrow> False)"
| "sample_ok NInt64 p = (case p of PInt i \<Rightarrow> - (2 ^ 63) \<le> i \<and> i < 2 ^ 63 | _ \<Rightarrow> False)"
| "sample_ok NString p = (case p of PText s \<Rightarrow> True | _ \<Rightarrow> False)"
| "sample_ok n p = (case p of PObj x \<Rightarrow> True | _ \<Rightarrow> False)"

fun sample_get :: "native \<Rightarrow> sample_value \<Rightarrow> nat prim option" where
  "sample_get n (SPrim m p) = (if m = n \<and> sample_ok n p then Some p else None)"
| "sample_get n _ = None"

fun sample_vec :: "native \<Rightarrow> sample_value \<Rightarrow> nat prim list option" where
  "sample_vec n (SVec m ps) = (if m = n \<and> list_all (sample_ok n) ps then Some ps else None)"
| "sample_vec n _ = None"

fun sample_objects :: "sample_value \<Rightarrow> sample_value list option" where
  "sample_objects (SObjects xs) = Some xs"
| "sample_objects _ = None"

fun sample_number :: "sample_value \<Rightarrow> nat number option" where
  "sample_number (SPrim n (PInt i)) = Some (Whole i)"
| "sample_number _ = None"

definition sample_api :: "(sample_value, nat) value_api" where
  "sample_api = \<lparr> va_null = SNull, va_is_null = (\<lambda>v. v = SNull), va_kind = (\<lambda>_. 0), va_of = SPrim,
     va_get = sample_get, va_of_vec = SVec, va_vec = sample_vec, va_of_objects = SObjects,
     va_objects = sample_objects, va_jagged = (\<lambda>_. None), va_borrow = id, va_number = sample_number,
     va_trunc = (\<lambda>_ _ _. 0), va_is = (\<lambda>_ _. True), va_is_table = (\<lambda>_. True), va_share = id,
     va_deref = Some, va_put = AList.update \<rparr>"

lemma sample_sel [simp]:
  "va_null sample_api = SNull" "va_is_null sample_api v = (v = SNull)" "va_kind sample_api v = 0"
  "va_of sample_api = SPrim" "va_get sample_api = sample_get" "va_of_vec sample_api = SVec"
  "va_vec sample_api = sample_vec" "va_of_objects sample_api = SObjects" "va_objects sample_api = sample_objects"
  "va_jagged sample_api v = None" "va_borrow sample_api v = v" "va_number sample_api = sample_number"
  "va_trunc sample_api sg w x = 0" "va_is sample_api n x" "va_is_table sample_api x" "va_share sample_api x = x"
  "va_deref sample_api x = Some x" "va_put sample_api = AList.update"
  by (simp_all add: sample_api_def)

lemma sample_prim_ok: "prim_ok sample_api n p \<longleftrightarrow> sample_ok n p"
  by (cases n; cases p) simp_all

lemma update_new: "k \<notin> set (map fst acc) \<Longrightarrow> AList.update k m acc = acc @ [(k, m)]"
  by (induction acc) auto

lemma sample_put_build:
  "distinct (map fst acc @ map fst es) \<Longrightarrow> foldl (\<lambda>out (k, m). AList.update k m out) acc es = acc @ es"
proof (induction es arbitrary: acc)
  case Nil
  then show ?case by simp
next
  case (Cons e es)
  obtain k m where e: "e = (k, m)" by (cases e)
  have "AList.update k m acc = acc @ [(k, m)]" using Cons.prems e by (intro update_new) auto
  then show ?case using Cons by (simp add: e)
qed

lemma sample_put_distinct:
  "distinct (map fst acc) \<Longrightarrow> distinct (map fst (foldl (\<lambda>out (k, m). AList.update k m out) acc es))"
  by (induction es arbitrary: acc) (auto simp: distinct_update)

lemma sample_built: "built sample_api (built sample_api es) = built sample_api es"
  unfolding built_def
  using sample_put_build [of "[]" "foldl (\<lambda>out (k, m). AList.update k m out) [] es"] sample_put_distinct [of "[]" es]
  by (simp add: sample_api_def)

lemma sample_vec_ok: "sample_vec n v = Some ps \<Longrightarrow> list_all (sample_ok n) ps"
  by (cases v) (auto split: if_splits)

lemma sample_get_ok: "sample_get n v = Some p \<Longrightarrow> sample_ok n p"
  by (cases v) (auto split: if_splits)

lemma update_subset: "set (AList.update k m out) \<subseteq> insert (k, m) (set out)"
  by (induction out) auto

lemma sample_access: "access_laws sample_api"
  unfolding access_laws_def
proof (intro conjI allI impI)
  show "int_ok sg w (va_trunc sample_api sg w r)" for sg w r by (simp add: int_ok_def)
  show "set (va_put sample_api k m out) \<subseteq> insert (k, m) (set out)" for k m out by (simp add: update_subset)
  show "built sample_api (built sample_api es) = built sample_api es" for es by (rule sample_built)
  show "list_all (prim_ok sample_api n) ps" if "va_vec sample_api n v = Some ps" for n v ps
    using sample_vec_ok [of n v ps] that by (simp add: list_all_iff sample_prim_ok)
qed (simp_all add: sample_prim_ok sample_get_ok)

lemma sample_store: "store_laws sample_api"
  by (simp add: store_laws_def sample_prim_ok list_all_iff)

text \<open>A struct of a number, an optional text and a map, as it is written and read.\<close>

definition sample_type :: ty where
  "sample_type = TStruct [TInt False 16, TOptional TString, TMap TString (TVector (TInt True 32))]"

definition sample_datum :: "(sample_value, nat) datum" where
  "sample_datum = DSeq [DPrim (PInt 5056), DSome (DPrim (PText ''udp'')),
     DMap [(DPrim (PText ''a''), DSeq [DPrim (PInt (-1)), DPrim (PInt 2)])]]"

definition sample_encoded :: sample_value where
  "sample_encoded = SObjects [SPrim NInt32 (PInt 5056), SPrim NString (PText ''udp''),
     SObjects [SObjects [SPrim NString (PText ''a''), SVec NInt32 [PInt (-1), PInt 2]]]]"

lemma sample_written: "to_value sample_type sample_api default_options sample_datum = Inr sample_encoded"
  by (simp add: to_value_def sample_type_def sample_datum_def sample_encoded_def default_options_def
      deep_def encode_tuple_def encode_int_def exact_int_def encode_range_def native_value_def cast_int_def
      signed_take_bit_int_eq_self)

lemma sample_datum_typed: "well_typed sample_type sample_api sample_datum"
  by (simp add: sample_type_def sample_datum_def is_tuple_def is_prim_def int_ok_def built_def)

theorem value_round_trip_witness:
  "to_value sample_type sample_api default_options sample_datum = Inr sample_encoded
   \<and> from_value sample_type sample_api default_options sample_encoded = Inr sample_datum"
proof -
  have "readable sample_type" "max_depth default_options + array_nest sample_type \<le> max_depth default_options"
    by (simp_all add: sample_type_def max_list_def)
  from value_round_trip [OF sample_store this(1) sample_datum_typed sample_written this(2)] sample_written
  show ?thesis by simp
qed

text \<open>A text where a number is due is refused with the place of the field.\<close>

theorem decoded_is_typed_witness:
  "(\<exists>e s. from_value sample_type sample_api default_options (SObjects [SPrim NString (PText ''x''), SNull, SObjects []]) = Inl e
      \<and> er_path e = ''$'' @ s \<and> er_message e = ''expected numeric type, got null'')
   \<and> (\<exists>d. from_value sample_type sample_api default_options sample_encoded = Inr d \<and> well_typed sample_type sample_api d)"
proof -
  have sz: "sized sample_type" by (simp add: sample_type_def)
  let ?bad = "SObjects [SPrim NString (PText ''x''), SNull, SObjects []]"
  obtain e where e: "from_value sample_type sample_api default_options ?bad = Inl e"
      "er_message e = ''expected numeric type, got null''"
    by (auto simp: from_value_def sample_type_def default_options_def deep_def decode_tuple_def
        as_list_ptr_def decode_int_def exact_int_def type_error_def fail_def value_kind_def kind_names_def)
  have "\<exists>s. er_path e = ''$'' @ s"
    using decoded_is_typed [OF sample_access sz, of default_options ?bad] e(1) by simp
  moreover have "from_value sample_type sample_api default_options sample_encoded = Inr sample_datum"
    by (simp add: from_value_def sample_type_def sample_datum_def sample_encoded_def default_options_def deep_def
        decode_tuple_def as_list_ptr_def decode_int_def exact_int_def cast_int_def take_bit_int_eq_self
        decode_prim_def decode_vector_def try_direct_vector_def)
  moreover have "well_typed sample_type sample_api sample_datum"
    using decoded_is_typed [OF sample_access sz, of default_options sample_encoded] calculation(2) by simp
  ultimately show ?thesis using e by blast
qed

theorem encoding_fails_only_witness:
  "\<exists>e. to_value (TVariant [TBool]) sample_api default_options DValueless = Inl e
     \<and> er_message e = ''variant is valueless_by_exception''"
proof -
  obtain e where e: "to_value (TVariant [TBool]) sample_api default_options DValueless = Inl e"
    by (auto simp: to_value_def encode_variant_def deep_def default_options_def fail_def)
  have t: "sized (TVariant [TBool])" "well_typed (TVariant [TBool]) sample_api DValueless"
      "\<not> max_depth default_options < height (TVariant [TBool])"
    by (simp_all add: is_alt_def default_options_def max_list_def)
  from encoding_fails_only [OF t(1,2) e] e t(3) show ?thesis by blast
qed

end
