(* ===== verification/PackViews.thy ===== *)
theory PackViews
  imports PeerStore
begin

text \<open>
  How an invitation keeps its strings alive (include/luxon/server/pfr_pack.hpp and the
  invitation of include/luxon/server/peer_persistence.hpp): the strings that the views of a
  struct show are copied into one buffer and the views are made to point into it. Views are
  modelled as what they are, an allocation with an offset and a length, because the copy is
  right only as long as the buffer is not moved while it grows.
\<close>

section \<open>Memory, strings and views\<close>

text \<open>
  The contents of the live allocations, and the number of the next one. A \<^theory_text>\<open>std::string\<close>
  owns an allocation with a capacity; what it does when it needs more is the standard
  library's choice, the parameter \<^theory_text>\<open>grow\<close> of the old capacity and the length needed.
\<close>

record string_heap =
  sh_live :: "nat \<rightharpoonup> string"
  sh_next :: nat

record string_buffer =
  sb_alloc :: nat
  sb_capacity :: nat

datatype view = Literal | Window nat nat nat

fun view_size :: "view \<Rightarrow> nat" where
  "view_size Literal = 0"
| "view_size (Window a off n) = n"

text \<open>Reading through a view whose allocation is gone or too short is undefined behaviour, here \<^theory_text>\<open>None\<close>.\<close>

fun view_text :: "string_heap \<Rightarrow> view \<Rightarrow> string option" where
  "view_text h Literal = Some []"
| "view_text h (Window a off n) =
    (case sh_live h a of None \<Rightarrow> None
     | Some s \<Rightarrow> if off + n \<le> length s then Some (take n (drop off s)) else None)"

definition buffer_text :: "string_heap \<Rightarrow> string_buffer \<Rightarrow> string" where
  "buffer_text h b = (case sh_live h (sb_alloc b) of None \<Rightarrow> [] | Some s \<Rightarrow> s)"

definition set_text :: "string_buffer \<Rightarrow> string \<Rightarrow> string_heap \<Rightarrow> string_heap" where
  "set_text b s h = h\<lparr> sh_live := (sh_live h)(sb_alloc b \<mapsto> s) \<rparr>"

definition reallocate :: "nat \<Rightarrow> string_buffer \<Rightarrow> string_heap \<Rightarrow> string_buffer \<times> string_heap" where
  "reallocate capacity b h =
    (\<lparr> sb_alloc = sh_next h, sb_capacity = capacity \<rparr>,
     h\<lparr> sh_live := ((sh_live h)(sb_alloc b := None))(sh_next h \<mapsto> buffer_text h b), sh_next := sh_next h + 1 \<rparr>)"

definition buffer_reserve :: "(nat \<Rightarrow> nat \<Rightarrow> nat) \<Rightarrow> nat \<Rightarrow> string_buffer \<Rightarrow> string_heap \<Rightarrow> string_buffer \<times> string_heap" where
  "buffer_reserve grow n b h =
    (if n \<le> sb_capacity b then (b, h) else reallocate (grow (sb_capacity b) n) b h)"

definition buffer_append :: "(nat \<Rightarrow> nat \<Rightarrow> nat) \<Rightarrow> string \<Rightarrow> string_buffer \<Rightarrow> string_heap \<Rightarrow> string_buffer \<times> string_heap" where
  "buffer_append grow t b h =
    (let needed = length (buffer_text h b) + length t;
         (b', h') = (if needed \<le> sb_capacity b then (b, h) else reallocate (grow (sb_capacity b) needed) b h)
     in (b', set_text b' (buffer_text h b @ t) h'))"

definition buffer_clear :: "string_buffer \<Rightarrow> string_heap \<Rightarrow> string_heap" where
  "buffer_clear b h = set_text b [] h"

section \<open>Structs of views\<close>

text \<open>A struct or array of views, other structs and fields that are left alone.\<close>

datatype 'v aggregate = View 'v | Members "'v aggregate list" | Plain nat

fun views_of :: "'v aggregate \<Rightarrow> 'v list" where
  "views_of (View v) = [v]"
| "views_of (Members xs) = concat (map views_of xs)"
| "views_of (Plain n) = []"

text \<open>The traversal, with the state its action threads; an undefined read stops it.\<close>

fun visit_views :: "('v \<Rightarrow> 's \<Rightarrow> ('w \<times> 's) option) \<Rightarrow> 'v aggregate \<Rightarrow> 's \<Rightarrow> ('w aggregate \<times> 's) option"
  and visit_members :: "('v \<Rightarrow> 's \<Rightarrow> ('w \<times> 's) option) \<Rightarrow> 'v aggregate list \<Rightarrow> 's \<Rightarrow> ('w aggregate list \<times> 's) option" where
  "visit_views action (View v) s = (case action v s of None \<Rightarrow> None | Some (w, s') \<Rightarrow> Some (View w, s'))"
| "visit_views action (Members xs) s =
    (case visit_members action xs s of None \<Rightarrow> None | Some (ys, s') \<Rightarrow> Some (Members ys, s'))"
| "visit_views action (Plain n) s = Some (Plain n, s)"
| "visit_members action [] s = Some ([], s)"
| "visit_members action (x # xs) s =
    (case visit_views action x s of None \<Rightarrow> None
     | Some (y, s1) \<Rightarrow> (case visit_members action xs s1 of None \<Rightarrow> None | Some (ys, s2) \<Rightarrow> Some (y # ys, s2)))"

definition relink_view ::
  "(nat \<Rightarrow> nat \<Rightarrow> nat) \<Rightarrow> view \<Rightarrow> string_buffer \<times> string_heap \<Rightarrow> (view \<times> string_buffer \<times> string_heap) option" where
  "relink_view grow v s = (case s of (b, h) \<Rightarrow>
    if view_size v = 0 then Some (Literal, b, h)
    else (case view_text h v of None \<Rightarrow> None
          | Some t \<Rightarrow> (let current_offset = length (buffer_text h b); (b', h') = buffer_append grow t b h
                       in Some (Window (sb_alloc b') current_offset (view_size v), b', h'))))"

definition total_size :: "view aggregate \<Rightarrow> nat" where
  "total_size x = sum_list (map view_size (views_of x))"

definition string_views ::
  "(nat \<Rightarrow> nat \<Rightarrow> nat) \<Rightarrow> view aggregate \<Rightarrow> string_buffer \<Rightarrow> string_heap \<Rightarrow>
   (view aggregate \<times> string_buffer \<times> string_heap) option" where
  "string_views grow x b h = visit_views (relink_view grow) x (buffer_reserve grow (total_size x) b h)"

section \<open>The invitation of a peer\<close>

text \<open>The fields of \<^theory_text>\<open>GameInfo\<close> in the order the reflection visits them.\<close>

definition info_fields :: "game_info \<Rightarrow> string aggregate" where
  "info_fields i =
     Members [Members [Members [View (gn_app i), View (gn_version i)], View (gn_lobby i), Plain (unat (gn_lobby_type i))],
              View (gn_id i), View (gn_server_address i)]"

record invitation =
  iv_info :: "view aggregate"
  iv_buffer :: string_buffer

definition no_info :: "view aggregate" where
  "no_info = Members [Members [Members [View Literal, View Literal], View Literal, Plain 0], View Literal, View Literal]"

definition reset_invitation :: "invitation \<Rightarrow> string_heap \<Rightarrow> invitation \<times> string_heap" where
  "reset_invitation iv h = (iv\<lparr> iv_info := no_info \<rparr>, buffer_clear (iv_buffer iv) h)"

definition take_invitation ::
  "(nat \<Rightarrow> nat \<Rightarrow> nat) \<Rightarrow> view aggregate \<Rightarrow> invitation \<Rightarrow> string_heap \<Rightarrow> (invitation \<times> string_heap) option" where
  "take_invitation grow info iv h =
    (case string_views grow info (iv_buffer iv) h of None \<Rightarrow> None
     | Some (x, b, h') \<Rightarrow> Some (\<lparr> iv_info = x, iv_buffer = b \<rparr>, h'))"

text \<open>A struct shows its texts when every view reads as the text in its place.\<close>

definition agrees :: "string_heap \<Rightarrow> view aggregate \<Rightarrow> string aggregate \<Rightarrow> bool" where
  "agrees h x t \<longleftrightarrow> map_aggregate (view_text h) x = map_aggregate Some t"

definition buffer_ok :: "string_buffer \<Rightarrow> string_heap \<Rightarrow> bool" where
  "buffer_ok b h \<longleftrightarrow> (\<exists>s. sh_live h (sb_alloc b) = Some s \<and> length s \<le> sb_capacity b) \<and> sb_alloc b < sh_next h"

definition outside :: "string_buffer \<Rightarrow> string_heap \<Rightarrow> view \<Rightarrow> bool" where
  "outside b h v = (case v of Literal \<Rightarrow> True | Window a off n \<Rightarrow> a \<noteq> sb_alloc b \<and> a < sh_next h)"

definition inside :: "string_buffer \<Rightarrow> view \<Rightarrow> bool" where
  "inside b v = (case v of Literal \<Rightarrow> True | Window a off n \<Rightarrow> a = sb_alloc b)"

section \<open>Relinking without growth\<close>

text \<open>A buffer extended in place: same allocation, the old text in front, everything else untouched.\<close>

definition grown :: "string_buffer \<times> string_heap \<Rightarrow> string_buffer \<times> string_heap \<Rightarrow> bool" where
  "grown s s' \<longleftrightarrow> fst s' = fst s \<and> sh_next (snd s') = sh_next (snd s)
     \<and> (\<exists>u t. sh_live (snd s) (sb_alloc (fst s)) = Some u
             \<and> sh_live (snd s') = (sh_live (snd s))(sb_alloc (fst s) \<mapsto> u @ t))"

lemma grown_text: "grown s s' \<Longrightarrow> view_text (snd s) v = Some t \<Longrightarrow> view_text (snd s') v = Some t"
  by (cases v) (auto simp: grown_def split: option.splits if_splits)

lemma grown_trans: "grown s s' \<Longrightarrow> grown s' s'' \<Longrightarrow> grown s s''"
  by (fastforce simp: grown_def)

lemma grown_refl: "buffer_ok b h \<Longrightarrow> grown (b, h) (b, h)"
proof -
  assume "buffer_ok b h"
  then obtain u where "sh_live h (sb_alloc b) = Some u" by (auto simp: buffer_ok_def)
  then have "sh_live h = (sh_live h)(sb_alloc b \<mapsto> u @ [])" by (simp add: fun_upd_idem)
  then show ?thesis using \<open>sh_live h (sb_alloc b) = Some u\<close> unfolding grown_def fst_conv snd_conv by blast
qed

lemma grown_outside: "grown s s' \<Longrightarrow> outside (fst s) (snd s) v \<Longrightarrow> outside (fst s') (snd s') v"
  by (auto simp: grown_def outside_def split: view.splits)

lemma relink_in_place:
  assumes "buffer_ok b h" "outside b h v" "view_text h v = Some t" "length (buffer_text h b) + view_size v \<le> sb_capacity b"
  obtains w h' where "relink_view grow v (b, h) = Some (w, b, h')" "grown (b, h) (b, h')" "buffer_ok b h'"
    "view_text h' w = Some t" "inside b w" "length (buffer_text h' b) = length (buffer_text h b) + view_size v"
proof -
  obtain u where u: "sh_live h (sb_alloc b) = Some u" "length u \<le> sb_capacity b" "sb_alloc b < sh_next h"
    using assms(1) by (auto simp: buffer_ok_def)
  have old: "buffer_text h b = u" using u by (simp add: buffer_text_def)
  have size: "length t = view_size v" using assms(3) by (cases v) (auto split: option.splits if_splits)
  show thesis
  proof (cases "view_size v = 0")
    case True
    then show thesis using that[of Literal h] assms size grown_refl[OF assms(1)] by (simp add: relink_view_def inside_def)
  next
    case False
    let ?h = "set_text b (u @ t) h"
    have "relink_view grow v (b, h) = Some (Window (sb_alloc b) (length u) (view_size v), b, ?h)"
      using False assms(3,4) size by (simp add: relink_view_def buffer_append_def old)
    moreover have "grown (b, h) (b, ?h)" using u by (auto simp: grown_def set_text_def)
    moreover have "buffer_ok b ?h" using u assms(4) size by (simp add: buffer_ok_def set_text_def old)
    moreover have "view_text ?h (Window (sb_alloc b) (length u) (view_size v)) = Some t"
      using size by (simp add: set_text_def)
    ultimately show thesis using that size by (simp add: inside_def buffer_text_def set_text_def u)
  qed
qed

definition fits :: "view aggregate \<Rightarrow> string aggregate \<Rightarrow> string_buffer \<Rightarrow> string_heap \<Rightarrow> bool" where
  "fits x t b h \<longleftrightarrow> buffer_ok b h \<and> (\<forall>v\<in>set (views_of x). outside b h v) \<and> agrees h x t
     \<and> length (buffer_text h b) + total_size x \<le> sb_capacity b"

definition relinked :: "string aggregate \<Rightarrow> nat \<Rightarrow> view aggregate \<Rightarrow> string_buffer \<Rightarrow> string_heap \<Rightarrow> string_heap \<Rightarrow> bool" where
  "relinked t n y b h h' \<longleftrightarrow> grown (b, h) (b, h') \<and> buffer_ok b h' \<and> agrees h' y t
     \<and> (\<forall>v\<in>set (views_of y). inside b v) \<and> length (buffer_text h' b) = length (buffer_text h b) + n"

lemma total_size_simps [simp]:
  "total_size (View v) = view_size v" "total_size (Plain n) = 0" "total_size (Members []) = 0"
  "total_size (Members (x # xs)) = total_size x + total_size (Members xs)"
  by (simp_all add: total_size_def)

lemma agrees_simps:
  "agrees h (View v) (View u) \<longleftrightarrow> view_text h v = Some u"
  "agrees h (Members []) (Members ts) \<longleftrightarrow> ts = []"
  "agrees h (Members (x # xs)) (Members (t # ts)) \<longleftrightarrow> agrees h x t \<and> agrees h (Members xs) (Members ts)"
  by (auto simp: agrees_def)

lemma agrees_cases:
  "agrees h (View v) t \<Longrightarrow> \<exists>u. t = View u" "agrees h (Plain n) t \<Longrightarrow> t = Plain n"
  "agrees h (Members xs) t \<Longrightarrow> \<exists>ts. t = Members ts \<and> length ts = length xs"
  by (cases t; auto simp: agrees_def dest: map_eq_imp_length_eq)+

lemma agrees_grown:
  assumes "grown (b, h) (b, h')" shows "agrees h x t \<Longrightarrow> agrees h' x t"
proof (induction x arbitrary: t)
  case (View v)
  then show ?case using agrees_cases(1)[OF View] grown_text[OF assms] by (auto simp: agrees_simps)
next
  case (Members xs)
  then obtain ts where ts: "t = Members ts" using agrees_cases(3) by blast
  from Members.IH Members.prems[unfolded ts] have "agrees h' (Members xs) (Members ts)"
  proof (induction xs arbitrary: ts)
    case Nil then show ?case by (simp add: agrees_simps)
  next
    case (Cons x xs)
    then show ?case by (cases ts) (auto simp: agrees_simps dest!: agrees_cases(3)[where t = "Members []"])
  qed
  then show ?case by (simp add: ts)
next
  case (Plain n) then show ?case by (auto simp: agrees_def dest: agrees_cases)
qed

lemma relinked_trans:
  assumes "relinked t m y b h h1" "relinked (Members ts) n (Members ys) b h1 h2"
  shows "relinked (Members (t # ts)) (m + n) (Members (y # ys)) b h h2"
  using assms grown_trans[of "(b, h)" "(b, h1)" "(b, h2)"] agrees_grown[of b h1 h2 y t]
  by (auto simp: relinked_def agrees_simps)

lemma fits_rest:
  assumes "fits (Members (x # xs)) (Members (t # ts)) b h" "relinked t (total_size x) y b h h'"
  shows "fits (Members xs) (Members ts) b h'"
  using assms grown_outside[of "(b, h)" "(b, h')"] agrees_grown[of b h h' "Members xs" "Members ts"]
  by (auto simp: fits_def relinked_def agrees_simps)

lemma visit_in_place:
  "fits x t b h \<Longrightarrow> \<exists>y h'. visit_views (relink_view grow) x (b, h) = Some (y, b, h') \<and> relinked t (total_size x) y b h h'"
proof (induction x arbitrary: t h)
  case (View v)
  then obtain u where u: "t = View u" "view_text h v = Some u" using agrees_cases(1)[of h v t] by (auto simp: fits_def agrees_simps)
  obtain w h' where "relink_view grow v (b, h) = Some (w, b, h')" "grown (b, h) (b, h')" "buffer_ok b h'"
    "view_text h' w = Some u" "inside b w" "length (buffer_text h' b) = length (buffer_text h b) + view_size v"
    using relink_in_place[of b h v u grow] View u by (auto simp: fits_def)
  then show ?case using u by (auto simp: relinked_def agrees_simps)
next
  case (Members xs)
  then obtain ts where ts: "t = Members ts" by (auto simp: fits_def dest: agrees_cases(3))
  from Members.IH Members.prems[unfolded ts]
  have "\<exists>ys h'. visit_members (relink_view grow) xs (b, h) = Some (ys, b, h')
      \<and> relinked (Members ts) (total_size (Members xs)) (Members ys) b h h'"
  proof (induction xs arbitrary: ts h)
    case Nil
    then show ?case by (auto simp: fits_def relinked_def agrees_simps grown_refl)
  next
    case (Cons x xs)
    obtain t1 ts1 where ts: "ts = t1 # ts1"
      using Cons.prems(2) by (cases ts) (auto simp: fits_def dest!: agrees_cases(3))
    have "fits x t1 b h" using Cons.prems(2) ts by (auto simp: fits_def agrees_simps)
    then obtain y h1 where 1: "visit_views (relink_view grow) x (b, h) = Some (y, b, h1)" "relinked t1 (total_size x) y b h h1"
      using Cons.prems(1) by fastforce
    then have "fits (Members xs) (Members ts1) b h1" using Cons.prems(2) fits_rest ts by blast
    then obtain ys h2 where "visit_members (relink_view grow) xs (b, h1) = Some (ys, b, h2)"
      "relinked (Members ts1) (total_size (Members xs)) (Members ys) b h1 h2"
      using Cons.IH Cons.prems(1) by fastforce
    then show ?case using 1 relinked_trans ts by fastforce
  qed
  then show ?case by (auto simp: ts)
next
  case (Plain n)
  then show ?case by (auto simp: fits_def relinked_def grown_refl)
qed

lemma reserve_ok:
  assumes "buffer_ok b h" "\<forall>c n. n \<le> grow c n" and "buffer_reserve grow n b h = (b', h')"
  shows "buffer_ok b' h'" "n \<le> sb_capacity b'" "buffer_text h' b' = buffer_text h b"
    "outside b h v \<Longrightarrow> outside b' h' v \<and> view_text h' v = view_text h v"
proof -
  have "n \<le> grow (sb_capacity b) n" using assms(2) by simp
  then show "buffer_ok b' h'" "n \<le> sb_capacity b'" "buffer_text h' b' = buffer_text h b"
    "outside b h v \<Longrightarrow> outside b' h' v \<and> view_text h' v = view_text h v"
    using assms(1,3) unfolding buffer_reserve_def reallocate_def buffer_ok_def outside_def buffer_text_def
    by (auto split: if_splits view.splits)
qed

lemma set_views [simp]: "set_aggregate x = set (views_of x)"
  by (induction x) auto

lemma agrees_cong:
  assumes "\<And>v. v \<in> set (views_of x) \<Longrightarrow> view_text h' v = view_text h v" shows "agrees h' x t = agrees h x t"
proof -
  have "map_aggregate (view_text h') x = map_aggregate (view_text h) x"
    by (rule aggregate.map_cong0) (simp add: assms)
  then show ?thesis by (simp add: agrees_def)
qed

section \<open>Properties\<close>

lemma reads_own_views:
  assumes "\<forall>v\<in>set (views_of x). inside b v" "sh_live h' (sb_alloc b) = sh_live h (sb_alloc b)"
  shows "agrees h' x t = agrees h x t"
proof (rule agrees_cong)
  fix v assume "v \<in> set (views_of x)"
  then have "inside b v" using assms(1) by blast
  then show "view_text h' v = view_text h v" using assms(2) by (cases v) (simp_all add: inside_def)
qed

lemma string_views_kept:
  assumes "buffer_ok b h" "\<forall>v\<in>set (views_of x). outside b h v" "agrees h x t" "\<forall>c n. n \<le> grow c n"
    and room: "length (buffer_text h b) + total_size x \<le> max (sb_capacity b) (total_size x)"
  shows "\<exists>y b' h'. string_views grow x b h = Some (y, b', h') \<and> buffer_ok b' h' \<and> agrees h' y t
    \<and> (\<forall>v\<in>set (views_of y). inside b' v)"
proof -
  obtain b1 h1 where r: "buffer_reserve grow (total_size x) b h = (b1, h1)" by (meson surj_pair)
  note ok = reserve_ok[OF assms(1,4) r]
  have "sb_capacity b \<le> sb_capacity b1"
    using r assms(4)[rule_format, of "total_size x" "sb_capacity b"] by (auto simp: buffer_reserve_def reallocate_def split: if_splits)
  then have "length (buffer_text h1 b1) + total_size x \<le> sb_capacity b1"
    using room ok(2,3) by (simp add: max_def split: if_splits)
  moreover have "agrees h1 x t" using assms(2,3) ok(4) agrees_cong[of x h1 h t] by blast
  moreover have "\<forall>v\<in>set (views_of x). outside b1 h1 v" using assms(2) ok(4) by blast
  ultimately have "fits x t b1 h1" using ok(1) by (simp add: fits_def)
  then obtain y h' where "visit_views (relink_view grow) x (b1, h1) = Some (y, b1, h')" "relinked t (total_size x) y b1 h1 h'"
    using visit_in_place by blast
  then show ?thesis by (auto simp: string_views_def r relinked_def)
qed

text \<open>
  C10: a peer invited after its invitation was reset shows the strings of the room it was
  invited to in every field, and keeps showing them whatever happens to the memory outside
  its own buffer, such as the destruction of the room they were copied from.
\<close>

theorem invitation_outlives_room:
  assumes "buffer_ok (iv_buffer iv) h" "\<forall>v\<in>set (views_of info). outside (iv_buffer iv) h v" "agrees h info (info_fields i)"
    and "\<forall>c n. n \<le> grow c n" "reset_invitation iv h = (iv1, h1)"
  shows "\<exists>iv2 h2. take_invitation grow info iv1 h1 = Some (iv2, h2) \<and> agrees h2 (iv_info iv2) (info_fields i)
    \<and> (\<forall>h3. sh_live h3 (sb_alloc (iv_buffer iv2)) = sh_live h2 (sb_alloc (iv_buffer iv2)) \<longrightarrow> agrees h3 (iv_info iv2) (info_fields i))"
proof -
  let ?b = "iv_buffer iv"
  have iv1: "iv_buffer iv1 = ?b" "h1 = set_text ?b [] h" using assms(5) by (auto simp: reset_invitation_def buffer_clear_def)
  have out: "view_text h1 v = view_text h v \<and> outside ?b h1 v" if "v \<in> set (views_of info)" for v
  proof -
    have "outside ?b h v" using assms(2) that by blast
    then show ?thesis by (cases v) (simp_all add: iv1(2) set_text_def outside_def)
  qed
  have "buffer_ok ?b h1" "buffer_text h1 ?b = []"
    using assms(1) by (auto simp: iv1 buffer_ok_def set_text_def buffer_text_def)
  moreover have "agrees h1 info (info_fields i)" using assms(3) out agrees_cong[of info h1 h] by blast
  ultimately obtain y b' h' where y: "string_views grow info ?b h1 = Some (y, b', h')" "agrees h' y (info_fields i)"
      "\<forall>v\<in>set (views_of y). inside b' v"
    using string_views_kept[of ?b h1 info "info_fields i" grow] assms(4) out by auto
  have "agrees h3 y (info_fields i)" if "sh_live h3 (sb_alloc b') = sh_live h' (sb_alloc b')" for h3
    using reads_own_views[OF y(3) that] y(2) by blast
  then show ?thesis using y by (simp add: take_invitation_def iv1(1))
qed

text \<open>A string of the library that keeps 15 characters in itself and doubles, with a room of 14 characters.\<close>

definition doubling :: "nat \<Rightarrow> nat \<Rightarrow> nat" where "doubling c n = max (2 * c) n"

definition sample_info :: game_info where
  "sample_info = \<lparr> gn_id = ''room'', gn_server_address = ''10.0.0.1'', gn_lobby = [], gn_lobby_type = 0, gn_app = ''app'', gn_version = ''1'' \<rparr>"

definition sample_views :: "view aggregate" where
  "sample_views = Members [Members [Members [View (Window 1 0 3), View (Window 1 3 1)], View Literal, Plain 0],
     View (Window 1 4 4), View (Window 1 8 8)]"

definition sample_heap :: string_heap where
  "sample_heap = \<lparr> sh_live = [0 \<mapsto> [], 1 \<mapsto> ''app1room10.0.0.1''], sh_next = 2 \<rparr>"

definition sample_invitation :: invitation where
  "sample_invitation = \<lparr> iv_info = no_info, iv_buffer = \<lparr> sb_alloc = 0, sb_capacity = 15 \<rparr> \<rparr>"

text \<open>
  What the program does not do is to reset the invitation of a peer that is invited a
  second time: the new strings are appended behind the old ones, room is reserved for the new
  ones only, and when the buffer moves half way the views linked before it moved dangle.
\<close>

definition second_invitation :: "(invitation \<times> string_heap) option" where
  "second_invitation = (case take_invitation doubling sample_views sample_invitation sample_heap of None \<Rightarrow> None
     | Some (iv, h) \<Rightarrow> take_invitation doubling sample_views iv h)"

lemma second_invitation_dangles:
  "map_option (\<lambda>(iv, h). map (view_text h) (views_of (iv_info iv))) second_invitation =
    Some [None, None, Some [], None, Some ''10.0.0.1'']"
  by code_simp

theorem invitation_outlives_room_witness:
  "\<exists>iv2 h2. take_invitation doubling sample_views (fst (reset_invitation sample_invitation sample_heap))
      (snd (reset_invitation sample_invitation sample_heap)) = Some (iv2, h2) \<and> agrees h2 (iv_info iv2) (info_fields sample_info)"
proof -
  have "agrees sample_heap sample_views (info_fields sample_info)"
    by (simp add: agrees_def sample_heap_def sample_views_def sample_info_def info_fields_def)
  moreover have "buffer_ok (iv_buffer sample_invitation) sample_heap"
    "\<forall>v\<in>set (views_of sample_views). outside (iv_buffer sample_invitation) sample_heap v" "\<forall>c n. n \<le> doubling c n"
    by (simp_all add: buffer_ok_def outside_def sample_invitation_def sample_heap_def sample_views_def doubling_def)
  ultimately show ?thesis
    using invitation_outlives_room[OF _ _ _ _ prod.collapse[symmetric], of sample_invitation sample_heap sample_views sample_info doubling]
    by meson
qed

end
