(* ===== verification/ServerConfig.thy ===== *)
theory ServerConfig
  imports PfrCodec Ipc
begin

text \<open>
  The configuration of a server process (src/src/server_manager.cpp,
  src/include/luxon/server/server_manager.hpp): how it is read from the parsed file, what the
  constructor takes from it, which servers it binds itself, and the configuration it makes up
  for each child process. The build is the one with all options: several processes, the web
  server and the settings database. The result of the YAML parser is an argument; its nodes
  and their access are modelled, because reading a node can change it.
\<close>

section \<open>Nodes of the file\<close>

text \<open>
  A map lists its entries in the order of the keys (\<^theory_text>\<open>std::map\<close>). Looking up a key that
  is not there inserts an empty node, in a node that is no map as well.
\<close>

datatype yaml = YNone | YScalar string | YSeq "yaml list" | YMap "(string \<times> yaml) list"

definition as_string :: "yaml \<Rightarrow> string" where
  "as_string n = (case n of YScalar s \<Rightarrow> s | _ \<Rightarrow> [])"

definition is_none :: "yaml \<Rightarrow> bool" where "is_none n \<longleftrightarrow> n = YNone"

definition is_scalar :: "yaml \<Rightarrow> bool" where "is_scalar n = (case n of YScalar s \<Rightarrow> True | _ \<Rightarrow> False)"

fun get_node :: "string \<Rightarrow> (string \<times> yaml) list \<Rightarrow> yaml \<times> (string \<times> yaml) list" where
  "get_node key [] = (YNone, [(key, YNone)])"
| "get_node key ((k, n) # es) =
    (if k = key then (n, (k, n) # es)
     else if string_less key k then (YNone, (key, YNone) # (k, n) # es)
     else (case get_node key es of (m, es') \<Rightarrow> (m, (k, n) # es')))"

definition node_index :: "string \<Rightarrow> yaml \<Rightarrow> yaml \<times> yaml" where
  "node_index key n = (case get_node key (case n of YMap es \<Rightarrow> es | _ \<Rightarrow> []) of (m, es) \<Rightarrow> (m, YMap es))"

text \<open>
  Numbers are read by \<^theory_text>\<open>operator >>\<close> into a variable that was not initialised: what it leaves
  there for a text that is no number is not the program's, so the conversions are
  parameters. They never throw. A truth value is any of three words in any case.
\<close>

record number_reader =
  nr_unsigned :: "string \<Rightarrow> u32"
  nr_uint16 :: "string \<Rightarrow> u16"

definition char_lower :: "char \<Rightarrow> char" where
  "char_lower c = (let n = of_char c :: nat in if 65 \<le> n \<and> n \<le> 90 then char_of (n + 32) else c)"

definition read_bool :: "string \<Rightarrow> bool" where
  "read_bool s = (map char_lower s \<in> {''true'', ''yes'', ''1''})"

section \<open>The configuration\<close>

text \<open>The codes of the transport protocols are the protocol library's, of the integer type given.\<close>

record protocol_codes =
  pc_native :: native
  pc_udp :: int
  pc_tcp :: int
  pc_websocket :: int

datatype server_type = TypeNone | TypeNameServer | TypeMasterServer | TypeGameServer

record proxy_config =
  px_protocol :: int
  px_address :: string

record server_config =
  sc_type :: server_type
  sc_port :: u16
  sc_allow_unsolicited :: bool
  sc_subprocess :: bool
  sc_is_routing_only :: bool
  sc_stun_server_host :: string
  sc_stun_server_port :: u16
  sc_external_address :: string
  sc_proxies :: "proxy_config list"

definition default_server :: server_config where
  "default_server = \<lparr> sc_type = TypeNone, sc_port = 0, sc_allow_unsolicited = False, sc_subprocess = False,
     sc_is_routing_only = False, sc_stun_server_host = [], sc_stun_server_port = 19302, sc_external_address = [], sc_proxies = [] \<rparr>"

record http_config =
  hc_enabled :: bool
  hc_address :: string
  hc_port :: u16

definition default_http :: http_config where
  "default_http = \<lparr> hc_enabled = False, hc_address = ''0.0.0.0'', hc_port = 5088 \<rparr>"

record manager_config =
  cf_servers :: "server_config list"
  cf_enable_ipv6 :: bool
  cf_no_banner :: bool
  cf_max_connections :: u32
  cf_max_game_peers :: u32
  cf_tick_time_budget :: u32
  cf_settings_database_path :: string
  cf_http :: "http_config option"

definition default_config :: manager_config where
  "default_config = \<lparr> cf_servers = [], cf_enable_ipv6 = True, cf_no_banner = False, cf_max_connections = 0,
     cf_max_game_peers = 0, cf_tick_time_budget = 2000, cf_settings_database_path = [], cf_http = None \<rparr>"

section \<open>Reading the file\<close>

text \<open>Every failure is an exception with a message.\<close>

type_synonym 'a parsed = "string + 'a"

definition config_error :: "string \<Rightarrow> string \<Rightarrow> 'a parsed" where
  "config_error path message = Inl (''Config error at '' @ path @ '': '' @ message)"

definition string_to_server_type :: "string \<Rightarrow> server_type parsed" where
  "string_to_server_type s =
    (if s = ''NameServer'' then Inr TypeNameServer else if s = ''MasterServer'' then Inr TypeMasterServer
     else if s = ''GameServer'' then Inr TypeGameServer else Inl (''Unknown ServerType: '' @ s))"

definition string_to_protocol :: "protocol_codes \<Rightarrow> string \<Rightarrow> int parsed" where
  "string_to_protocol pc s =
    (if s = ''UDP'' then Inr (pc_udp pc) else if s = ''TCP'' then Inr (pc_tcp pc)
     else if s = ''WebSocket'' then Inr (pc_websocket pc) else Inl (''Unknown protocol: '' @ s))"

definition expect_map :: "yaml \<Rightarrow> string \<Rightarrow> (string \<times> yaml) list parsed" where
  "expect_map n path = (case n of YMap es \<Rightarrow> Inr es | _ \<Rightarrow> config_error path ''expected a map'')"

definition expect_sequence :: "yaml \<Rightarrow> string \<Rightarrow> yaml list parsed" where
  "expect_sequence n path = (case n of YSeq xs \<Rightarrow> Inr xs | _ \<Rightarrow> config_error path ''expected a sequence'')"

fun unknown_key :: "string list \<Rightarrow> (string \<times> yaml) list \<Rightarrow> string option" where
  "unknown_key allowed [] = None"
| "unknown_key allowed ((k, n) # es) = (if k \<in> set allowed then unknown_key allowed es else Some k)"

definition validate_allowed_keys :: "yaml \<Rightarrow> string \<Rightarrow> string list \<Rightarrow> unit parsed" where
  "validate_allowed_keys n path allowed =
    (case expect_map n path of Inl e \<Rightarrow> Inl e
     | Inr es \<Rightarrow> (case unknown_key allowed es of None \<Rightarrow> Inr ()
         | Some k \<Rightarrow> config_error path (''unknown key '' @ [CHR 0x27] @ k @ [CHR 0x27])))"

text \<open>The optional and the required scalar of a map, with the map afterwards.\<close>

definition read_optional :: "(string \<Rightarrow> 'a) \<Rightarrow> string \<Rightarrow> yaml \<Rightarrow> 'a option \<times> yaml" where
  "read_optional conv key n = (case node_index key n of (child, n') \<Rightarrow>
     (if is_none child then None else Some (conv (as_string child)), n'))"

definition read_required :: "(string \<Rightarrow> 'a) \<Rightarrow> string \<Rightarrow> string \<Rightarrow> yaml \<Rightarrow> ('a \<times> yaml) parsed" where
  "read_required conv key path n = (case read_optional conv key n of
     (None, n') \<Rightarrow> config_error path (''missing required key '' @ [CHR 0x27] @ key @ [CHR 0x27])
   | (Some v, n') \<Rightarrow> Inr (v, n'))"

definition read_optional_protocol :: "protocol_codes \<Rightarrow> string \<Rightarrow> string \<Rightarrow> int \<Rightarrow> yaml \<Rightarrow> (int \<times> yaml) parsed" where
  "read_optional_protocol pc key path fallback n = (case read_optional id key n of
     (None, n') \<Rightarrow> Inr (fallback, n')
   | (Some s, n') \<Rightarrow> (case string_to_protocol pc s of
        Inl e \<Rightarrow> config_error (path @ ''.'' @ key) e | Inr p \<Rightarrow> Inr (p, n')))"

definition read_external_address :: "string \<Rightarrow> yaml \<Rightarrow> (string option \<times> yaml) parsed" where
  "read_external_address path n =
    (let (external_address, n1) = read_optional id ''external_address'' n;
         (legacy_address, n2) = read_optional id ''address'' n1
     in if external_address \<noteq> None \<and> legacy_address \<noteq> None
        then config_error path (''use only one of '' @ [CHR 0x27] @ ''external_address'' @ [CHR 0x27] @ '' or '' @ [CHR 0x27] @ ''address'' @ [CHR 0x27])
        else Inr (if external_address \<noteq> None then external_address else legacy_address, n2))"

definition parse_stun_server :: "number_reader \<Rightarrow> server_config \<Rightarrow> yaml \<Rightarrow> string \<Rightarrow> server_config parsed" where
  "parse_stun_server nr server n path =
    (case n of
       YScalar s \<Rightarrow> Inr (server\<lparr> sc_stun_server_host := s, sc_stun_server_port := 19302 \<rparr>)
     | YMap es \<Rightarrow>
        (case validate_allowed_keys n path [''host'', ''port''] of Inl e \<Rightarrow> Inl e
         | Inr _ \<Rightarrow> (case read_required id ''host'' path n of Inl e \<Rightarrow> Inl e
           | Inr (host, n1) \<Rightarrow> (let (port, n2) = read_optional (nr_uint16 nr) ''port'' n1;
                server1 = server\<lparr> sc_stun_server_host := host \<rparr>
              in Inr (case port of None \<Rightarrow> server1 | Some p \<Rightarrow> server1\<lparr> sc_stun_server_port := p \<rparr>))))
     | _ \<Rightarrow> config_error path ''expected a string or a map'')"

definition parse_proxy :: "protocol_codes \<Rightarrow> string \<Rightarrow> yaml \<Rightarrow> proxy_config parsed" where
  "parse_proxy pc path n =
    (case validate_allowed_keys n path [''protocol'', ''address''] of Inl e \<Rightarrow> Inl e
     | Inr _ \<Rightarrow> (case read_optional_protocol pc ''protocol'' path (pc_tcp pc) n of Inl e \<Rightarrow> Inl e
       | Inr (protocol, n1) \<Rightarrow> (case read_required id ''address'' path n1 of Inl e \<Rightarrow> Inl e
         | Inr (address, n2) \<Rightarrow> Inr \<lparr> px_protocol = protocol, px_address = address \<rparr>)))"

text \<open>The loops over the elements of a sequence, with their index in the path.\<close>

fun parse_list :: "(string \<Rightarrow> yaml \<Rightarrow> 'a parsed) \<Rightarrow> string \<Rightarrow> nat \<Rightarrow> yaml list \<Rightarrow> 'a list parsed" where
  "parse_list p path i [] = Inr []"
| "parse_list p path i (n # ns) =
    (case p (path @ ''['' @ nat_string i @ '']'') n of Inl e \<Rightarrow> Inl e
     | Inr x \<Rightarrow> (case parse_list p path (Suc i) ns of Inl e \<Rightarrow> Inl e | Inr xs \<Rightarrow> Inr (x # xs)))"

definition server_keys :: "string list" where
  "server_keys = [''port'', ''external_address'', ''address'', ''allow_unsolicited'', ''subprocess'', ''stun_server'', ''proxies'']"

definition parse_proxies :: "protocol_codes \<Rightarrow> server_config \<Rightarrow> string \<Rightarrow> yaml \<Rightarrow> server_config parsed" where
  "parse_proxies pc server path n =
    (if is_none n then Inr server
     else (case expect_sequence n (path @ ''.proxies'') of Inl e \<Rightarrow> Inl e
       | Inr ns \<Rightarrow> (case parse_list (parse_proxy pc) (path @ ''.proxies'') 0 ns of Inl e \<Rightarrow> Inl e
         | Inr ps \<Rightarrow> Inr (server\<lparr> sc_proxies := ps \<rparr>))))"

definition parse_server :: "number_reader \<Rightarrow> protocol_codes \<Rightarrow> server_type \<Rightarrow> string \<Rightarrow> yaml \<Rightarrow> server_config parsed" where
  "parse_server nr pc ty path n =
    (case validate_allowed_keys n path server_keys of Inl e \<Rightarrow> Inl e
     | Inr _ \<Rightarrow> (case read_required (nr_uint16 nr) ''port'' path n of Inl e \<Rightarrow> Inl e
       | Inr (port, n1) \<Rightarrow>
          (let (allow_unsolicited, n2) = read_optional read_bool ''allow_unsolicited'' n1;
               (subprocess, n3) = read_optional read_bool ''subprocess'' n2;
               (stun_node, n4) = node_index ''stun_server'' n3;
               server = default_server\<lparr> sc_type := ty, sc_port := port,
                  sc_allow_unsolicited := (case allow_unsolicited of None \<Rightarrow> False | Some b \<Rightarrow> b),
                  sc_subprocess := (case subprocess of None \<Rightarrow> False | Some b \<Rightarrow> b) \<rparr>
           in case (if is_none stun_node then Inr server else parse_stun_server nr server stun_node (path @ ''.stun_server'')) of
                Inl e \<Rightarrow> Inl e
              | Inr server1 \<Rightarrow> (case read_external_address path n4 of Inl e \<Rightarrow> Inl e
                | Inr (external_address, n5) \<Rightarrow>
                    parse_proxies pc
                      (case external_address of None \<Rightarrow> server1 | Some a \<Rightarrow> server1\<lparr> sc_external_address := a \<rparr>)
                      path (fst (node_index ''proxies'' n5))))))"

fun parse_servers :: "number_reader \<Rightarrow> protocol_codes \<Rightarrow> (string \<times> yaml) list \<Rightarrow> server_config list parsed" where
  "parse_servers nr pc [] = Inr []"
| "parse_servers nr pc ((type_name, n) # es) =
    (let type_path = ''Servers.'' @ type_name in
     case string_to_server_type type_name of Inl e \<Rightarrow> config_error type_path e
     | Inr ty \<Rightarrow> (case expect_sequence n type_path of Inl e \<Rightarrow> Inl e
       | Inr ns \<Rightarrow> (case parse_list (parse_server nr pc ty) type_path 0 ns of Inl e \<Rightarrow> Inl e
         | Inr ss \<Rightarrow> (case parse_servers nr pc es of Inl e \<Rightarrow> Inl e | Inr rest \<Rightarrow> Inr (ss @ rest)))))"

definition parse_http :: "number_reader \<Rightarrow> yaml \<Rightarrow> http_config parsed" where
  "parse_http nr n =
    (case validate_allowed_keys n ''HTTP'' [''enabled'', ''active'', ''address'', ''port''] of Inl e \<Rightarrow> Inl e
     | Inr _ \<Rightarrow>
        (let (enabled_node, n1) = node_index ''enabled'' n; has_enabled = (\<not> is_none enabled_node);
             (active_node, n2) = node_index ''active'' n1; has_active = (\<not> is_none active_node)
         in if has_enabled \<and> has_active
            then config_error ''HTTP'' (''use only one of '' @ [CHR 0x27] @ ''enabled'' @ [CHR 0x27] @ '' or '' @ [CHR 0x27] @ ''active'' @ [CHR 0x27])
            else (case (if has_enabled then map_sum id (apfst Some) (read_required read_bool ''enabled'' ''HTTP'' n2)
                        else if has_active then map_sum id (apfst Some) (read_required read_bool ''active'' ''HTTP'' n2)
                        else Inr (None, n2)) of
                Inl e \<Rightarrow> Inl e
              | Inr (enabled, n3) \<Rightarrow>
                 (let (address, n4) = read_optional id ''address'' n3;
                      (port, n5) = read_optional (nr_uint16 nr) ''port'' n4
                  in Inr \<lparr> hc_enabled = (case enabled of None \<Rightarrow> hc_enabled default_http | Some b \<Rightarrow> b),
                       hc_address = (case address of None \<Rightarrow> hc_address default_http | Some a \<Rightarrow> a),
                       hc_port = (case port of None \<Rightarrow> hc_port default_http | Some p \<Rightarrow> p) \<rparr>))))"

definition parse_section :: "number_reader \<Rightarrow> protocol_codes \<Rightarrow> string \<Rightarrow> yaml \<Rightarrow> manager_config \<Rightarrow> manager_config parsed" where
  "parse_section nr pc key n config =
    (if key = ''Servers'' then
       (case expect_map n ''Servers'' of Inl e \<Rightarrow> Inl e
        | Inr es \<Rightarrow> (case parse_servers nr pc es of Inl e \<Rightarrow> Inl e
          | Inr ss \<Rightarrow> Inr (config\<lparr> cf_servers := cf_servers config @ ss \<rparr>)))
     else if key = ''External'' then Inr config
     else if key = ''EnableIPv6'' then Inr (config\<lparr> cf_enable_ipv6 := read_bool (as_string n) \<rparr>)
     else if key = ''NoBanner'' then Inr (config\<lparr> cf_no_banner := read_bool (as_string n) \<rparr>)
     else if key = ''MaxConnections'' \<or> key = ''CCU'' then Inr (config\<lparr> cf_max_connections := nr_unsigned nr (as_string n) \<rparr>)
     else if key = ''MaxGamePeers'' then Inr (config\<lparr> cf_max_game_peers := nr_unsigned nr (as_string n) \<rparr>)
     else if key = ''TickTimeBudget'' then Inr (config\<lparr> cf_tick_time_budget := nr_unsigned nr (as_string n) \<rparr>)
     else if key = ''SettingsDatabase'' then Inr (config\<lparr> cf_settings_database_path := as_string n \<rparr>)
     else if key = ''HTTP'' then
       (case parse_http nr n of Inl e \<Rightarrow> Inl e | Inr http \<Rightarrow> Inr (config\<lparr> cf_http := Some http \<rparr>))
     else config_error key (''unknown top-level key: '' @ key))"

fun parse_sections :: "number_reader \<Rightarrow> protocol_codes \<Rightarrow> (string \<times> yaml) list \<Rightarrow> manager_config \<Rightarrow> manager_config parsed" where
  "parse_sections nr pc [] config = Inr config"
| "parse_sections nr pc ((key, n) # es) config =
    (case parse_section nr pc key n config of Inl e \<Rightarrow> Inl e | Inr config' \<Rightarrow> parse_sections nr pc es config')"

text \<open>
  The test for both limits looks the first one up, which inserts it; the second is looked up
  only when the first was there.
\<close>

definition parse_config :: "number_reader \<Rightarrow> protocol_codes \<Rightarrow> string + yaml \<Rightarrow> manager_config parsed" where
  "parse_config nr pc file =
    (case file of
       Inl e \<Rightarrow> Inl (''YAML Parsing failed: '' @ e)
     | Inr root \<Rightarrow>
        (case root of
           YMap es \<Rightarrow>
            (let (limit_node, root1) = get_node ''MaxConnections'' es;
                 (ccu_node, root2) = (if is_none limit_node then (YNone, root1) else get_node ''CCU'' root1)
             in if \<not> is_none limit_node \<and> \<not> is_none ccu_node
                then config_error ''root'' (''use only one of '' @ [CHR 0x27] @ ''MaxConnections'' @ [CHR 0x27] @ '' or '' @ [CHR 0x27] @ ''CCU'' @ [CHR 0x27])
                else parse_sections nr pc root2 default_config)
         | _ \<Rightarrow> Inl ''Root of config must be a map''))"

section \<open>The manager\<close>

text \<open>\<^theory_text>\<open>settings_manager\<close> is the path of the database that was opened.\<close>

record manager =
  mg_parent_ipc :: ipc
  mg_is_subprocess :: bool
  mg_configs :: "server_config list"
  mg_enable_ipv6 :: bool
  mg_max_connections :: u32
  mg_max_game_peers :: u8
  mg_tick_time_budget :: u32
  mg_settings_manager :: "string option"
  mg_settings_database_path :: string
  mg_http_config :: "http_config option"

definition normalize_max_game_peers :: "u32 \<Rightarrow> u8" where
  "normalize_max_game_peers value = (let normalized = ucast (min value 255) :: u8 in if normalized = 255 then 0 else normalized)"

text \<open>The constructor, up to the set-up of the servers. The channel handed over is moved into the manager first.\<close>

definition construct :: "manager_config \<Rightarrow> ipc \<Rightarrow> manager" where
  "construct config ipc =
    (let (parent_ipc, moved) = move_construct ipc
     in \<lparr> mg_parent_ipc = parent_ipc, mg_is_subprocess = is_open moved, mg_configs = cf_servers config,
          mg_enable_ipv6 = cf_enable_ipv6 config, mg_max_connections = cf_max_connections config,
          mg_max_game_peers = normalize_max_game_peers (cf_max_game_peers config),
          mg_tick_time_budget = (if cf_tick_time_budget config = 0 then NOT (cf_tick_time_budget config) else cf_tick_time_budget config),
          mg_settings_manager = (if cf_settings_database_path config = [] then None else Some (cf_settings_database_path config)),
          mg_settings_database_path = [], mg_http_config = cf_http config \<rparr>)"

text \<open>The test of the service loop that stops a child.\<close>

definition stop_without_parent :: "manager \<Rightarrow> bool" where
  "stop_without_parent m \<longleftrightarrow> mg_is_subprocess m \<and> \<not> is_open (mg_parent_ipc m)"

text \<open>Which servers the set-up leaves to a child, and which it binds itself.\<close>

definition child_servers :: "manager \<Rightarrow> server_config list" where
  "child_servers m = filter (\<lambda>c. \<not> sc_is_routing_only c \<and> sc_subprocess c) (mg_configs m)"

definition bound_servers :: "manager \<Rightarrow> server_config list" where
  "bound_servers m = filter (\<lambda>c. \<not> sc_is_routing_only c \<and> \<not> sc_subprocess c) (mg_configs m)"

section \<open>Addresses\<close>

fun find_proxy_address :: "string \<Rightarrow> proxy_config list \<Rightarrow> string option" where
  "find_proxy_address address [] = None"
| "find_proxy_address address (p # ps) = (if px_address p = address then Some (px_address p) else find_proxy_address address ps)"

fun static_endpoint :: "string \<Rightarrow> server_config list \<Rightarrow> string option" where
  "static_endpoint address [] = None"
| "static_endpoint address (c # cs) =
    (if sc_external_address c = address then Some (sc_external_address c)
     else case find_proxy_address address (sc_proxies c) of Some a \<Rightarrow> Some a | None \<Rightarrow> static_endpoint address cs)"

definition get_static_endpoint_address_str :: "manager \<Rightarrow> string \<Rightarrow> string" where
  "get_static_endpoint_address_str m address = (case static_endpoint address (mg_configs m) of None \<Rightarrow> [] | Some a \<Rightarrow> a)"

text \<open>The draw of the random number generator is an argument; without candidates the function throws.\<close>

definition get_random_server_base_address :: "(nat \<Rightarrow> nat) \<Rightarrow> manager \<Rightarrow> server_type \<Rightarrow> string option" where
  "get_random_server_base_address draw m ty =
    (let candidates = filter (\<lambda>c. sc_type c = ty \<and> sc_external_address c \<noteq> []) (mg_configs m)
     in if candidates = [] then None else Some (sc_external_address (candidates ! draw (length candidates))))"

fun proxy_for :: "int \<Rightarrow> proxy_config list \<Rightarrow> string option" where
  "proxy_for proto [] = None"
| "proxy_for proto (p # ps) = (if px_protocol p = proto then Some (px_address p) else proxy_for proto ps)"

fun resolve_in :: "protocol_codes \<Rightarrow> server_config list \<Rightarrow> server_type \<Rightarrow> int \<Rightarrow> string \<Rightarrow> string" where
  "resolve_in pc [] ty proto base = base"
| "resolve_in pc (c # cs) ty proto base =
    (if sc_type c = ty \<and> sc_external_address c = base
     then (if proto = pc_udp pc then sc_external_address c
           else case proxy_for proto (sc_proxies c) of Some a \<Rightarrow> a | None \<Rightarrow> sc_external_address c)
     else resolve_in pc cs ty proto base)"

definition resolve_server_address :: "protocol_codes \<Rightarrow> manager \<Rightarrow> server_type \<Rightarrow> int \<Rightarrow> string \<Rightarrow> string" where
  "resolve_server_address pc m ty proto base = resolve_in pc (mg_configs m) ty proto base"

definition get_random_server_address ::
  "protocol_codes \<Rightarrow> (nat \<Rightarrow> nat) \<Rightarrow> manager \<Rightarrow> server_type \<Rightarrow> int \<Rightarrow> string option" where
  "get_random_server_address pc draw m ty proto =
    map_option (resolve_server_address pc m ty proto) (get_random_server_base_address draw m ty)"

section \<open>The configuration of a child\<close>

definition child_server :: "server_config \<Rightarrow> server_config \<Rightarrow> server_config" where
  "child_server config cfg =
    cfg\<lparr> sc_subprocess := False, sc_is_routing_only := \<not> (sc_port cfg = sc_port config \<and> sc_type cfg = sc_type config) \<rparr>"

definition child_config :: "manager \<Rightarrow> server_config \<Rightarrow> int \<Rightarrow> manager_config" where
  "child_config m config ipc_fd = default_config\<lparr>
     cf_enable_ipv6 := mg_enable_ipv6 m, cf_max_connections := mg_max_connections m,
     cf_max_game_peers := ucast (mg_max_game_peers m), cf_tick_time_budget := mg_tick_time_budget m,
     cf_settings_database_path := (if mg_settings_database_path m = [] then [] else mg_settings_database_path m @ '':ro''),
     cf_servers := map (child_server config) (mg_configs m),
     cf_http := map_option (\<lambda>h. h\<lparr> hc_port := hc_port h + word_of_int ipc_fd \<rparr>) (mg_http_config m) \<rparr>"

text \<open>The types as the codec sees them, and the fields as it walks them.\<close>

definition proxy_ty :: "protocol_codes \<Rightarrow> ty" where
  "proxy_ty pc = TStruct [TEnum (pc_native pc), TString]"

definition server_ty :: "protocol_codes \<Rightarrow> ty" where
  "server_ty pc = TStruct [TEnum NInt32, TInt False 16, TBool, TBool, TBool, TString, TInt False 16, TString, TVector (proxy_ty pc)]"

definition http_ty :: ty where
  "http_ty = TStruct [TBool, TString, TInt False 16]"

definition config_ty :: "protocol_codes \<Rightarrow> ty" where
  "config_ty pc = TStruct [TVector (server_ty pc), TBool, TBool, TInt False 32, TInt False 32, TInt False 32, TString, TOptional http_ty]"

definition server_code :: "server_type \<Rightarrow> int" where
  "server_code t = (case t of TypeNone \<Rightarrow> 0 | TypeNameServer \<Rightarrow> 1 | TypeMasterServer \<Rightarrow> 2 | TypeGameServer \<Rightarrow> 3)"

definition proxy_datum :: "proxy_config \<Rightarrow> ('v, 'o) datum" where
  "proxy_datum p = DSeq [DPrim (PInt (px_protocol p)), DPrim (PText (px_address p))]"

definition server_datum :: "server_config \<Rightarrow> ('v, 'o) datum" where
  "server_datum c = DSeq [DPrim (PInt (server_code (sc_type c))), DPrim (PInt (uint (sc_port c))),
     DPrim (PBool (sc_allow_unsolicited c)), DPrim (PBool (sc_subprocess c)), DPrim (PBool (sc_is_routing_only c)),
     DPrim (PText (sc_stun_server_host c)), DPrim (PInt (uint (sc_stun_server_port c))),
     DPrim (PText (sc_external_address c)), DSeq (map proxy_datum (sc_proxies c))]"

definition http_datum :: "http_config \<Rightarrow> ('v, 'o) datum" where
  "http_datum h = DSeq [DPrim (PBool (hc_enabled h)), DPrim (PText (hc_address h)), DPrim (PInt (uint (hc_port h)))]"

definition config_datum :: "manager_config \<Rightarrow> ('v, 'o) datum" where
  "config_datum c = DSeq [DSeq (map server_datum (cf_servers c)), DPrim (PBool (cf_enable_ipv6 c)), DPrim (PBool (cf_no_banner c)),
     DPrim (PInt (uint (cf_max_connections c))), DPrim (PInt (uint (cf_max_game_peers c))),
     DPrim (PInt (uint (cf_tick_time_budget c))), DPrim (PText (cf_settings_database_path c)),
     (case cf_http c of None \<Rightarrow> DNone | Some h \<Rightarrow> DSome (http_datum h))]"

text \<open>A decoded object read back field by field; data of other shapes do not come out of the decoder.\<close>

fun the_bool :: "('v, 'o) datum \<Rightarrow> bool" where "the_bool (DPrim (PBool b)) = b" | "the_bool _ = False"
fun the_int :: "('v, 'o) datum \<Rightarrow> int" where "the_int (DPrim (PInt i)) = i" | "the_int _ = 0"
fun the_text :: "('v, 'o) datum \<Rightarrow> string" where "the_text (DPrim (PText s)) = s" | "the_text _ = []"
fun the_seq :: "('v, 'o) datum \<Rightarrow> ('v, 'o) datum list" where "the_seq (DSeq ds) = ds" | "the_seq _ = []"

definition type_of_code :: "int \<Rightarrow> server_type" where
  "type_of_code i = (if i = 1 then TypeNameServer else if i = 2 then TypeMasterServer else if i = 3 then TypeGameServer else TypeNone)"

definition proxy_of :: "('v, 'o) datum \<Rightarrow> proxy_config" where
  "proxy_of d = (let f = (\<lambda>i. the_seq d ! i) in \<lparr> px_protocol = the_int (f 0), px_address = the_text (f 1) \<rparr>)"

definition server_of :: "('v, 'o) datum \<Rightarrow> server_config" where
  "server_of d = (let f = (\<lambda>i. the_seq d ! i) in
     \<lparr> sc_type = type_of_code (the_int (f 0)), sc_port = word_of_int (the_int (f 1)), sc_allow_unsolicited = the_bool (f 2),
       sc_subprocess = the_bool (f 3), sc_is_routing_only = the_bool (f 4), sc_stun_server_host = the_text (f 5),
       sc_stun_server_port = word_of_int (the_int (f 6)), sc_external_address = the_text (f 7),
       sc_proxies = map proxy_of (the_seq (f 8)) \<rparr>)"

definition http_of :: "('v, 'o) datum \<Rightarrow> http_config" where
  "http_of d = (let f = (\<lambda>i. the_seq d ! i) in
     \<lparr> hc_enabled = the_bool (f 0), hc_address = the_text (f 1), hc_port = word_of_int (the_int (f 2)) \<rparr>)"

definition config_of :: "('v, 'o) datum \<Rightarrow> manager_config" where
  "config_of d = (let f = (\<lambda>i. the_seq d ! i) in
     \<lparr> cf_servers = map server_of (the_seq (f 0)), cf_enable_ipv6 = the_bool (f 1), cf_no_banner = the_bool (f 2),
       cf_max_connections = word_of_int (the_int (f 3)), cf_max_game_peers = word_of_int (the_int (f 4)),
       cf_tick_time_budget = word_of_int (the_int (f 5)), cf_settings_database_path = the_text (f 6),
       cf_http = (case f 7 of DSome h \<Rightarrow> Some (http_of h) | _ \<Rightarrow> None) \<rparr>)"

definition send_config :: "protocol_codes \<Rightarrow> ('v, 'o) value_api \<Rightarrow> manager_config \<Rightarrow> 'v result" where
  "send_config pc va c = to_value (config_ty pc) va (default_options\<lparr> zero_copy := True \<rparr>) (config_datum c)"

text \<open>The child polls until a message is there: \<^theory_text>\<open>None\<close> is a message of another kind.\<close>

definition receive_config :: "protocol_codes \<Rightarrow> ('v, 'o) value_api \<Rightarrow> 'v option \<Rightarrow> manager_config parsed" where
  "receive_config pc va msg =
    (case msg of
       None \<Rightarrow> Inl ''Unexpected IPC message type during subprocess initialization''
     | Some v \<Rightarrow> (case from_value (config_ty pc) va default_options v of
          Inl e \<Rightarrow> Inl (''Failed to decode ServerManagerConfig from IPC: '' @ er_message e)
        | Inr d \<Rightarrow> Inr (config_of d)))"

end
