(* ===== verification/ConfigProps.thy ===== *)
theory ConfigProps
  imports ServerConfig PfrProps
begin

text \<open>
  What the configuration of a process comes out as: which keys of the file count, what an
  accepted file makes the process serve, and that a child receives over the channel just the
  configuration its parent made for it, with the limits, the addresses and the one server
  the parent meant.
\<close>

section \<open>The configuration on the channel\<close>

definition code_fits :: "protocol_codes \<Rightarrow> int \<Rightarrow> bool" where
  "code_fits pc i = (case native_int (pc_native pc) of None \<Rightarrow> False | Some (sg, w) \<Rightarrow> int_ok sg w i)"

definition server_fits :: "protocol_codes \<Rightarrow> server_config \<Rightarrow> bool" where
  "server_fits pc c = list_all (\<lambda>p. code_fits pc (px_protocol p)) (sc_proxies c)"

lemma code_fits_prim: "code_fits pc i \<Longrightarrow> prim_ok va (pc_native pc) (PInt i)"
  by (cases "pc_native pc") (simp_all add: code_fits_def native_int_def int_ok_def)

lemma proxy_typed: "code_fits pc (px_protocol p) \<Longrightarrow> well_typed (proxy_ty pc) va (proxy_datum p)"
  by (simp add: proxy_ty_def proxy_datum_def is_tuple_def is_prim_def code_fits_prim)

lemma word_int_ok: "int_ok False LENGTH('a) (uint (w :: 'a :: len word))"
  by (simp add: int_ok_def)

lemma word_int_fits: "int_ok False 16 (uint (p :: u16))" "int_ok False 32 (uint (n :: u32))"
  using word_int_ok[of p] word_int_ok[of n] by simp_all

lemma server_typed: "server_fits pc c \<Longrightarrow> well_typed (server_ty pc) va (server_datum c)"
  by (simp add: server_ty_def server_datum_def is_tuple_def is_prim_def word_int_fits server_fits_def list_all_iff
      proxy_typed server_code_def split: server_type.split)

lemma http_typed: "well_typed http_ty va (http_datum h)"
  by (simp add: http_ty_def http_datum_def is_tuple_def is_prim_def word_int_fits)

lemma config_typed: "list_all (server_fits pc) (cf_servers c) \<Longrightarrow> well_typed (config_ty pc) va (config_datum c)"
  by (simp add: config_ty_def config_datum_def is_tuple_def is_prim_def word_int_fits list_all_iff server_typed http_typed
      split: option.split)

lemma config_ty_simple:
  assumes "native_int (pc_native pc) \<noteq> None"
  shows "sized (config_ty pc)" "readable (config_ty pc)" "\<not> has_variant (config_ty pc)"
    "height (config_ty pc) \<le> 64" "array_nest (config_ty pc) = 0"
  using assms by (simp_all add: config_ty_def server_ty_def proxy_ty_def http_ty_def max_list_def native_int_def)

lemma proxy_read [simp]: "proxy_of (proxy_datum p) = p"
  by (simp add: proxy_of_def proxy_datum_def)

lemma server_read [simp]: "server_of (server_datum c) = c"
  by (simp add: server_of_def server_datum_def server_code_def type_of_code_def comp_def split: server_type.split)

lemma config_read: "config_of (config_datum c) = c"
  by (simp add: config_of_def config_datum_def http_of_def http_datum_def comp_def split: option.split)

lemma config_arrives:
  assumes "store_laws va" "native_int (pc_native pc) \<noteq> None" "list_all (server_fits pc) (cf_servers c)"
  shows "\<exists>v. send_config pc va c = Inr v \<and> receive_config pc va (Some v) = Inr c"
proof -
  note simple = config_ty_simple[OF assms(2)] and typed = config_typed[OF assms(3), of va]
  obtain v where v: "send_config pc va c = Inr v"
    using encoding_succeeds[OF simple(1) typed, of "default_options\<lparr> zero_copy := True \<rparr>"] simple(3,4)
    by (auto simp: send_config_def default_options_def)
  have "from_value (config_ty pc) va default_options v = Inr (config_datum c)"
    using value_round_trip[OF assms(1) simple(2) typed, of "default_options\<lparr> zero_copy := True \<rparr>" v default_options] v simple(5)
    by (simp add: send_config_def default_options_def)
  then show ?thesis using v by (auto simp: receive_config_def config_read)
qed

section \<open>The child\<close>

lemma normalized_small: "normalize_max_game_peers n \<noteq> 255"
  by (simp add: normalize_max_game_peers_def Let_def)

lemma normalized_again: "normalize_max_game_peers (ucast (normalize_max_game_peers n)) = normalize_max_game_peers n"
proof -
  have "normalize_max_game_peers (ucast r) = r" if "r \<noteq> 255" for r :: u8
  proof -
    have "unat (ucast r :: u32) = unat r" by (simp add: unat_ucast_up)
    moreover have "unat r < 2 ^ LENGTH(8)" by (rule unsigned_less)
    ultimately have "(ucast r :: u32) \<le> 255" by (simp add: word_le_nat_alt)
    then have "min (ucast r :: u32) 255 = ucast r" by (simp add: min_def)
    moreover have "(ucast (ucast r :: u32) :: u8) = r" by (rule ucast_up_ucast_id) (simp add: is_up)
    ultimately show ?thesis using that by (simp add: normalize_max_game_peers_def)
  qed
  then show ?thesis using normalized_small by blast
qed

lemma child_server_fields [simp]:
  "sc_type (child_server config s) = sc_type s" "sc_port (child_server config s) = sc_port s"
  "sc_external_address (child_server config s) = sc_external_address s" "sc_proxies (child_server config s) = sc_proxies s"
  "\<not> sc_subprocess (child_server config s)"
  by (simp_all add: child_server_def)

lemma resolve_child: "resolve_in pc (map (child_server config) cs) ty proto base = resolve_in pc cs ty proto base"
  by (induction cs) (simp_all split: option.split)

definition own_server :: "server_config \<Rightarrow> server_config \<Rightarrow> bool" where
  "own_server config c \<longleftrightarrow> sc_port c = sc_port config \<and> sc_type c = sc_type config"

lemma bound_in_child:
  "filter (\<lambda>c. \<not> sc_is_routing_only c \<and> \<not> sc_subprocess c) (map (child_server config) cs)
    = map (\<lambda>s. s\<lparr> sc_subprocess := False, sc_is_routing_only := False \<rparr>) (filter (own_server config) cs)"
  by (induction cs) (auto simp: own_server_def child_server_def)

lemma child_configs: "mg_configs (construct (child_config m config ipc_fd) inner) = map (child_server config) (mg_configs m)"
  by (simp add: construct_def move_construct_def child_config_def)

text \<open>
  C26: what a manager sends to a child it starts is read by the child as exactly the
  configuration made for it. The manager the child makes of it has the parent's limits,
  starts no further process, binds the servers with the port and the type of the one it was
  started for and no others, and resolves every address as the parent does.
\<close>

theorem child_gets_config:
  assumes "store_laws va" "native_int (pc_native pc) \<noteq> None" "list_all (server_fits pc) (cf_servers cf)"
    and parent: "m = construct cf outer" and child: "c = construct (child_config m config ipc_fd) inner"
  shows "(\<exists>v. send_config pc va (child_config m config ipc_fd) = Inr v
      \<and> receive_config pc va (Some v) = Inr (child_config m config ipc_fd))
    \<and> child_servers c = []
    \<and> bound_servers c = map (\<lambda>s. s\<lparr> sc_subprocess := False, sc_is_routing_only := False \<rparr>) (filter (own_server config) (mg_configs m))
    \<and> mg_max_connections c = mg_max_connections m \<and> mg_max_game_peers c = mg_max_game_peers m
    \<and> mg_tick_time_budget c = mg_tick_time_budget m \<and> mg_enable_ipv6 c = mg_enable_ipv6 m
    \<and> resolve_server_address pc c = resolve_server_address pc m"
proof -
  have "list_all (server_fits pc) (cf_servers (child_config m config ipc_fd))"
    using assms(3) by (simp add: parent child_config_def construct_def move_construct_def list_all_iff server_fits_def)
  moreover have "child_servers c = []"
    by (auto simp: child child_servers_def child_configs filter_empty_conv)
  moreover have "bound_servers c = map (\<lambda>s. s\<lparr> sc_subprocess := False, sc_is_routing_only := False \<rparr>) (filter (own_server config) (mg_configs m))"
    by (simp add: child bound_servers_def child_configs bound_in_child)
  moreover have "mg_max_game_peers c = mg_max_game_peers m"
    by (simp add: child parent construct_def move_construct_def child_config_def normalized_again)
  moreover have "resolve_server_address pc c = resolve_server_address pc m"
    by (simp add: fun_eq_iff resolve_server_address_def child child_configs resolve_child)
  ultimately show ?thesis
    using config_arrives[OF assms(1,2)] by (simp add: child parent construct_def move_construct_def child_config_def)
qed

text \<open>Two things a child does not get: the settings database, and the mark that makes it stop without its parent.\<close>

lemma child_has_no_settings:
  "mg_settings_manager (construct (child_config (construct cf outer) config ipc_fd) inner) = None"
  by (simp add: construct_def move_construct_def child_config_def default_config_def)

lemma child_never_stops: "\<not> stop_without_parent (construct cf inner\<lparr> mg_parent_ipc := now \<rparr>)"
  by (simp add: construct_def move_construct_def stop_without_parent_def is_open_def empty_ipc_def)

section \<open>The file\<close>

text \<open>The keys of a map in the order of \<^theory_text>\<open>std::map\<close>.\<close>

definition in_order :: "(string \<times> yaml) list \<Rightarrow> bool" where
  "in_order es \<longleftrightarrow> sorted_wrt (\<lambda>a b. string_less (fst a) (fst b)) es"

lemma string_less_irrefl [simp]: "\<not> string_less s s"
  using string_less_order(1) by blast

lemma string_less_total: "string_less s t \<or> s = t \<or> string_less t s"
proof (induction s t rule: string_less.induct)
  case (1 s) then show ?case by (cases s) simp_all
next
  case (3 a s c t) then show ?case by (auto intro: of_char_eqI)
qed simp

lemma string_less_trans: "string_less s t \<Longrightarrow> string_less t u \<Longrightarrow> string_less s u"
  using string_less_order by blast

lemma get_node_set: "(k, n) \<in> set (snd (get_node key es)) \<Longrightarrow> (k, n) \<in> set es \<or> (k = key \<and> n = YNone)"
  by (induction key es rule: get_node.induct) (auto split: if_splits prod.splits)

lemma get_node_in: "(key, fst (get_node key es)) \<in> set (snd (get_node key es))"
  by (induction key es rule: get_node.induct) (auto split: prod.splits)

lemma get_node_keeps: "set es \<subseteq> set (snd (get_node key es))"
  by (induction key es rule: get_node.induct) (auto split: prod.splits)

lemma in_order_Cons: "in_order ((k, n) # es) \<longleftrightarrow> (\<forall>(a, m)\<in>set es. string_less k a) \<and> in_order es"
  by (auto simp: in_order_def)

lemma get_node_order: "in_order es \<Longrightarrow> in_order (snd (get_node key es))"
proof (induction key es rule: get_node.induct)
  case (2 key k n es)
  have k: "\<forall>(a, m)\<in>set es. string_less k a" "in_order es" using 2(2) by (simp_all add: in_order_Cons)
  consider "k = key" | "k \<noteq> key" "string_less key k" | "k \<noteq> key" "\<not> string_less key k" by blast
  then show ?case
  proof cases
    case 1
    then show ?thesis using 2(2) by simp
  next
    case 2
    then have "\<forall>(a, m)\<in>set ((k, n) # es). string_less key a" using k(1) string_less_trans[OF 2(2)] by auto
    then show ?thesis using 2 \<open>in_order ((k, n) # es)\<close> by (simp add: in_order_Cons[of key])
  next
    case 3
    then have less: "string_less k key" using string_less_total by blast
    have "\<forall>(a, m)\<in>set (snd (get_node key es)). string_less k a"
      using k(1) less get_node_set[of _ _ key es] by fastforce
    moreover have "in_order (snd (get_node key es))" using 2(1) 3 k(2) by blast
    ultimately show ?thesis using 3 by (cases "get_node key es") (simp add: in_order_Cons)
  qed
qed (simp add: in_order_def)

lemma in_order_unique: "in_order es \<Longrightarrow> (k, n) \<in> set es \<Longrightarrow> (k, m) \<in> set es \<Longrightarrow> n = m"
proof (induction es)
  case (Cons e es)
  then show ?case by (cases e) (auto simp: in_order_def)
qed simp

lemma get_node_fst: "in_order es \<Longrightarrow> fst (get_node key es) = (case map_of es key of None \<Rightarrow> YNone | Some n \<Rightarrow> n)"
proof (induction key es rule: get_node.induct)
  case (2 key k n es)
  have less: "string_less k a" if "(a, m) \<in> set es" for a m using 2(2) that by (auto simp: in_order_def)
  have "map_of es key = None" if "string_less key k"
    using less that string_less_order(1) by (auto simp: map_of_eq_None_iff)
  then show ?case using 2 by (auto simp: in_order_def split: prod.splits)
qed simp

lemma parse_sections_append:
  "parse_sections nr pc (as @ bs) c = (case parse_sections nr pc as c of Inl e \<Rightarrow> Inl e | Inr c' \<Rightarrow> parse_sections nr pc bs c')"
  by (induction as arbitrary: c) (auto split: sum.splits)

lemma limit_kept:
  "\<forall>(k, n)\<in>set es. k \<noteq> ''MaxConnections'' \<and> k \<noteq> ''CCU'' \<Longrightarrow> parse_sections nr pc es c = Inr c'
    \<Longrightarrow> cf_max_connections c' = cf_max_connections c"
proof (induction es arbitrary: c)
  case (Cons e es)
  obtain k n where e: "e = (k, n)" by (meson surj_pair)
  obtain c1 where c1: "parse_section nr pc k n c = Inr c1" "parse_sections nr pc es c1 = Inr c'"
    using Cons.prems(2) e by (auto split: sum.splits)
  have "cf_max_connections c1 = cf_max_connections c"
    using c1(1) Cons.prems(1) e by (auto simp: parse_section_def config_error_def split: if_splits sum.splits)
  then show ?case using Cons.IH[OF _ c1(2)] Cons.prems(1) by simp
qed simp

text \<open>The entries the sections are read from: those of the file and the ones the test inserted.\<close>

definition read_entries :: "(string \<times> yaml) list \<Rightarrow> (string \<times> yaml) list" where
  "read_entries es = (case get_node ''MaxConnections'' es of
     (n, root1) \<Rightarrow> if is_none n then root1 else snd (get_node ''CCU'' root1))"


lemma parse_config_Inr:
  assumes "parse_config nr pc file = Inr c"
  obtains es where "file = Inr (YMap es)" "parse_sections nr pc (read_entries es) default_config = Inr c"
    "is_none (fst (get_node ''MaxConnections'' es)) \<or> is_none (fst (get_node ''CCU'' (snd (get_node ''MaxConnections'' es))))"
proof -
  obtain es where f: "file = Inr (YMap es)"
    using assms by (auto simp: parse_config_def split: sum.splits yaml.splits)
  show thesis
    using assms that[OF f] by (auto simp: f parse_config_def read_entries_def config_error_def split: prod.splits if_splits)
qed

lemma read_entries_order: "in_order es \<Longrightarrow> in_order (read_entries es)"
  using get_node_order[of es "''MaxConnections''"] get_node_order[of "snd (get_node ''MaxConnections'' es)" "''CCU''"]
  by (auto simp: read_entries_def split: prod.split)

lemma read_entries_limit: "(''MaxConnections'', fst (get_node ''MaxConnections'' es)) \<in> set (read_entries es)"
  using get_node_in[of "''MaxConnections''" es] get_node_keeps[of "snd (get_node ''MaxConnections'' es)" "''CCU''"]
  by (cases "get_node ''MaxConnections'' es") (auto simp: read_entries_def)

text \<open>
  in an accepted configuration the limit of connections is the number read from the entry
  MaxConnections, or from an empty text when the file has none; an entry CCU never counts.
\<close>

theorem connection_limit:
  assumes "in_order es" "parse_config nr pc (Inr (YMap es)) = Inr c"
  shows "cf_max_connections c = nr_unsigned nr (case map_of es ''MaxConnections'' of None \<Rightarrow> [] | Some n \<Rightarrow> as_string n)"
proof -
  let ?n = "fst (get_node ''MaxConnections'' es)"
  have run: "parse_sections nr pc (read_entries es) default_config = Inr c"
    using parse_config_Inr[OF assms(2)] by blast
  obtain as bs where split: "read_entries es = as @ (''MaxConnections'', ?n) # bs"
    using read_entries_limit split_list by fast
  have "\<forall>(k, m)\<in>set bs. string_less ''MaxConnections'' k"
    using read_entries_order[OF assms(1)] by (auto simp: split in_order_def sorted_wrt_append)
  moreover have "\<not> string_less ''MaxConnections'' ''CCU''" by code_simp
  ultimately have rest: "\<forall>(k, m)\<in>set bs. k \<noteq> ''MaxConnections'' \<and> k \<noteq> ''CCU''" by fastforce
  obtain c1 c2 where "parse_section nr pc ''MaxConnections'' ?n c1 = Inr c2" "parse_sections nr pc bs c2 = Inr c"
    using run by (auto simp: split parse_sections_append split: sum.splits)
  then have "cf_max_connections c = nr_unsigned nr (as_string ?n)"
    using limit_kept[OF rest] by (auto simp: parse_section_def)
  then show ?thesis by (simp add: get_node_fst[OF assms(1)] as_string_def split: option.split)
qed

section \<open>What an accepted file says\<close>

definition lookup :: "string \<Rightarrow> (string \<times> yaml) list \<Rightarrow> yaml" where
  "lookup key es = (case map_of es key of None \<Rightarrow> YNone | Some n \<Rightarrow> n)"




fun ordered :: "yaml \<Rightarrow> bool" where
  "ordered (YSeq ns) = list_all ordered ns"
| "ordered (YMap es) = (in_order es \<and> list_all (\<lambda>(k, n). ordered n) es)"
| "ordered n = True"
































section \<open>A file and a child\<close>

text \<open>A reader of numbers; the value it gives for an empty text stands for what happened to be there.\<close>

definition sample_reader :: number_reader where
  "sample_reader = \<lparr> nr_unsigned = (\<lambda>s. if s = [] then 4711 else word_of_nat (digits_value s)),
     nr_uint16 = (\<lambda>s. word_of_nat (digits_value s)) \<rparr>"

definition sample_codes :: protocol_codes where
  "sample_codes = \<lparr> pc_native = NByte, pc_udp = 0, pc_tcp = 1, pc_websocket = 2 \<rparr>"

definition sample_file :: "(string \<times> yaml) list" where
  "sample_file = [(''CCU'', YScalar ''100''),
     (''Servers'', YMap [(''GameServer'', YSeq [YMap [(''address'', YScalar ''10.0.0.1''), (''port'', YScalar ''5056''),
        (''subprocess'', YScalar ''Yes'')]])])]"

definition sample_server :: server_config where
  "sample_server = \<lparr> sc_type = TypeGameServer, sc_port = 5056, sc_allow_unsolicited = False, sc_subprocess = True,
     sc_is_routing_only = False, sc_stun_server_host = [], sc_stun_server_port = 19302, sc_external_address = ''10.0.0.1'', sc_proxies = [] \<rparr>"

definition sample_config :: manager_config where
  "sample_config = default_config\<lparr> cf_servers := [sample_server], cf_max_connections := 4711 \<rparr>"

lemma sample_ordered: "ordered (YMap sample_file)"
  by code_simp

lemma sample_parsed: "parse_config sample_reader sample_codes (Inr (YMap sample_file)) = Inr sample_config"
  by code_simp

text \<open>A limit of 100 in the file, and the limit is what the empty text gave.\<close>

theorem connection_limit_witness:
  "lookup ''CCU'' sample_file = YScalar ''100'' \<and> cf_max_connections sample_config = nr_unsigned sample_reader []"
proof -
  have "in_order sample_file" using sample_ordered by simp
  from connection_limit[OF this sample_parsed] have "cf_max_connections sample_config = nr_unsigned sample_reader []"
    by (simp add: sample_file_def)
  then show ?thesis by (simp add: lookup_def sample_file_def)
qed


theorem child_gets_config_witness:
  "bound_servers (construct (child_config (construct sample_config empty_ipc) sample_server 7) empty_ipc)
     = [sample_server\<lparr> sc_subprocess := False \<rparr>] \<and> bound_servers (construct sample_config empty_ipc) = []"
proof -
  have "native_int (pc_native sample_codes) \<noteq> None" "list_all (server_fits sample_codes) (cf_servers sample_config)"
    by (simp_all add: sample_codes_def native_int_def sample_config_def sample_server_def server_fits_def)
  from child_gets_config[OF sample_store this refl refl, of empty_ipc sample_server 7 empty_ipc]
  have "bound_servers (construct (child_config (construct sample_config empty_ipc) sample_server 7) empty_ipc)
    = map (\<lambda>s. s\<lparr> sc_subprocess := False, sc_is_routing_only := False \<rparr>)
        (filter (own_server sample_server) (mg_configs (construct sample_config empty_ipc)))" by simp
  then show ?thesis
    by (simp add: construct_def move_construct_def sample_config_def own_server_def bound_servers_def) (simp add: sample_server_def)
qed

end
