(* ===== verification/ServiceLoop.thy ===== *)
theory ServiceLoop
  imports Prelude
begin

text \<open>
  The service loop of a server process (src/src/server_manager.cpp, src/src/sock_selector.cpp):
  one tick waits for sockets, takes the parent's messages, serves the peers of the servers in
  turn within a budget of time, updates the connections every quarter of a second and runs at
  most one task of the time table. The servers, connections, messages and callbacks act on
  the rest of the process through parameters; any of them may throw, and what the loop
  catches is in the model.
\<close>

section \<open>The socket selector\<close>

text \<open>
  The callbacks by descriptor (an \<^theory_text>\<open>offset_map\<close>), an empty function as \<^theory_text>\<open>Some None\<close>, and the
  number of events taken at a time. The set of the kernel is the list of descriptors. Calling an empty
  function throws.
\<close>

record 'c selector =
  se_interest :: "int list"
  se_events :: nat
  se_callbacks :: "int \<rightharpoonup> 'c option"

definition new_selector :: "'c selector" where
  "new_selector = \<lparr> se_interest = [], se_events = 128, se_callbacks = Map.empty \<rparr>"

text \<open>\<^theory_text>\<open>refused\<close> says that \<^theory_text>\<open>epoll_ctl\<close> fails; it does for a descriptor that is in the set.\<close>

definition add_read_fd :: "bool \<Rightarrow> int \<Rightarrow> 'c \<Rightarrow> 'c selector \<Rightarrow> bool \<times> 'c selector" where
  "add_read_fd refused fd callback se =
    (if refused \<or> fd \<in> set (se_interest se) then (False, se)
     else (True, se\<lparr> se_interest := fd # se_interest se, se_callbacks := (se_callbacks se)(fd \<mapsto> Some callback) \<rparr>))"

definition remove_read_fd :: "int \<Rightarrow> 'c selector \<Rightarrow> 'c selector" where
  "remove_read_fd fd se =
    se\<lparr> se_interest := filter (\<lambda>f. f \<noteq> fd) (se_interest se), se_callbacks := (se_callbacks se)(fd := None) \<rparr>"

text \<open>
  The loop over the events of one wait. A callback acts on the rest of the process and may add
  and remove descriptors; looking up one that is gone puts an empty function in.
\<close>

fun dispatch :: "('c \<Rightarrow> int \<Rightarrow> 'c selector \<times> 'w \<Rightarrow> string + 'c selector \<times> 'w) \<Rightarrow> int list
    \<Rightarrow> 'c selector \<times> 'w \<Rightarrow> string + 'c selector \<times> 'w" where
  "dispatch call [] s = Inr s"
| "dispatch call (fd # fds) (se, w) =
    (case se_callbacks se fd of
       Some (Some cb) \<Rightarrow> (case call cb fd (se, w) of Inl e \<Rightarrow> Inl e | Inr s \<Rightarrow> dispatch call fds s)
     | _ \<Rightarrow> Inl ''bad_function_call'')"

text \<open>\<^theory_text>\<open>ready\<close> is what \<^theory_text>\<open>epoll_wait\<close> returns: nothing for an error, else at most as many events as there is room for.\<close>

definition selector_run :: "('c \<Rightarrow> int \<Rightarrow> 'c selector \<times> 'w \<Rightarrow> string + 'c selector \<times> 'w) \<Rightarrow> int list option
    \<Rightarrow> 'c selector \<times> 'w \<Rightarrow> string + (bool \<times> 'c selector \<times> 'w)" where
  "selector_run call ready s =
    (case ready of
       None \<Rightarrow> Inr (False, s)
     | Some fds \<Rightarrow>
        (case dispatch call fds s of Inl e \<Rightarrow> Inl e
         | Inr (se, w) \<Rightarrow> Inr (True, (if length fds = se_events se then se\<lparr> se_events := 2 * se_events se \<rparr> else se), w)))"

section \<open>The process\<close>

text \<open>
  The servers in the order of the table, which does not change after the set-up, with the
  position of the next one to serve; the tasks with the time they are due, as a multiset in
  a list; the clock is in milliseconds since the start. The last two fields record what the
  loop did: the servers served and the tasks called. \<^theory_text>\<open>'w\<close> is the rest of the process.
\<close>

type_synonym 'k task = "u32 \<times> 'k"

record ('k, 'w) service =
  sv_servers :: "u16 list"
  sv_next :: nat
  sv_tasks :: "'k task list"
  sv_running :: bool
  sv_slow_reset :: nat
  sv_budget :: u32
  sv_world :: 'w
  sv_served :: "u16 list"
  sv_called :: "'k task list"

text \<open>A part of the process: it may throw, change the rest, stop the loop and ask for tasks after some delay.\<close>

record ('k, 'w) effect =
  ef_world :: 'w
  ef_stop :: bool
  ef_requests :: "(u32 \<times> 'k) list"

record ('k, 'w) parts =
  pa_clock :: "'w \<Rightarrow> nat"
  pa_select :: "'w \<Rightarrow> string + ('k, 'w) effect"
  pa_parent_open :: "'w \<Rightarrow> bool"
  pa_receive :: "'w \<Rightarrow> string + (bool \<times> ('k, 'w) effect)"
  pa_service_peers :: "u16 \<Rightarrow> u32 \<Rightarrow> 'w \<Rightarrow> u32 \<times> ('k, 'w) effect"
  pa_connections :: "'w \<Rightarrow> nat list"
  pa_slow_update :: "nat \<Rightarrow> 'w \<Rightarrow> (('k, 'w) effect + ('k, 'w) effect)"
  pa_disconnect :: "nat \<Rightarrow> 'w \<Rightarrow> ('k, 'w) effect"
  pa_call :: "'k \<Rightarrow> 'w \<Rightarrow> string + ('k, 'w) effect"
  pa_top :: "'k task list \<Rightarrow> 'k task"
  pa_is_subprocess :: "'w \<Rightarrow> bool"

definition add_scheduled_task :: "nat \<Rightarrow> u32 \<times> 'k \<Rightarrow> ('k, 'w) service \<Rightarrow> ('k, 'w) service" where
  "add_scheduled_task now r s = s\<lparr> sv_tasks := (word_of_nat now + fst r, snd r) # sv_tasks s \<rparr>"

definition perform :: "('k, 'w) parts \<Rightarrow> ('k, 'w) effect \<Rightarrow> ('k, 'w) service \<Rightarrow> ('k, 'w) service" where
  "perform pa e s =
    fold (add_scheduled_task (pa_clock pa (ef_world e))) (ef_requests e)
      (s\<lparr> sv_world := ef_world e, sv_running := (sv_running s \<and> \<not> ef_stop e) \<rparr>)"

section \<open>One tick\<close>

text \<open>\<^theory_text>\<open>pa_top\<close> is the task on top of the priority queue; of tasks due at the same time it may be any.\<close>

definition run_scheduled_tasks :: "('k, 'w) parts \<Rightarrow> ('k, 'w) service \<Rightarrow> string + ('k, 'w) service" where
  "run_scheduled_tasks pa s =
    (if sv_tasks s = [] then Inr s
     else let task = pa_top pa (sv_tasks s)
          in if unat (fst task) < pa_clock pa (sv_world s)
             then (case pa_call pa (snd task) (sv_world s) of
                     Inl e \<Rightarrow> Inl e
                   | Inr e \<Rightarrow> Inr (perform pa e (s\<lparr> sv_tasks := remove1 task (sv_tasks s), sv_called := sv_called s @ [task] \<rparr>)))
             else Inr s)"

text \<open>The messages of the parent, as long as there are any: \<^theory_text>\<open>None\<close> is a loop that does not end.\<close>

partial_function (option) receive_loop :: "('k, 'w) parts \<Rightarrow> ('k, 'w) service \<Rightarrow> (string + ('k, 'w) service) option" where
  "receive_loop pa s =
    (case pa_receive pa (sv_world s) of
       Inl e \<Rightarrow> Some (Inl e)
     | Inr (again, e) \<Rightarrow> if again then receive_loop pa (perform pa e s) else Some (Inr (perform pa e s)))"

text \<open>The servers in turn. An exception of \<^theory_text>\<open>service_peers\<close> is caught; the budget left is its result either way.\<close>

fun service_loop :: "('k, 'w) parts \<Rightarrow> nat \<Rightarrow> u32 \<Rightarrow> ('k, 'w) service \<Rightarrow> ('k, 'w) service" where
  "service_loop pa 0 remaining s = s"
| "service_loop pa (Suc n) remaining s =
    (if remaining = 0 then s
     else let at = (if sv_next s = length (sv_servers s) then 0 else sv_next s);
              port = sv_servers s ! at;
              (left, e) = pa_service_peers pa port remaining (sv_world s)
          in service_loop pa n left ((perform pa e s)\<lparr> sv_next := at + 1, sv_served := sv_served s @ [port] \<rparr>))"

text \<open>The slow update of each connection: one that throws is disconnected.\<close>

fun slow_loop :: "('k, 'w) parts \<Rightarrow> nat list \<Rightarrow> ('k, 'w) service \<Rightarrow> ('k, 'w) service" where
  "slow_loop pa [] s = s"
| "slow_loop pa (c # cs) s =
    (case pa_slow_update pa c (sv_world s) of
       Inr e \<Rightarrow> slow_loop pa cs (perform pa e s)
     | Inl e \<Rightarrow> let s1 = perform pa e s in slow_loop pa cs (perform pa (pa_disconnect pa c (sv_world s1)) s1))"

definition finish_tick :: "('k, 'w) parts \<Rightarrow> ('k, 'w) service \<Rightarrow> string + ('k, 'w) service" where
  "finish_tick pa s =
    (let now = pa_clock pa (sv_world s);
         slow_update = (now - sv_slow_reset s > 250);
         s1 = (if slow_update then s\<lparr> sv_slow_reset := now \<rparr> else s);
         s2 = service_loop pa (length (sv_servers s1)) (sv_budget s1) s1;
         s3 = (if slow_update then slow_loop pa (pa_connections pa (sv_world s2)) s2 else s2)
     in (case run_scheduled_tasks pa s3 of Inl e \<Rightarrow> Inl e
         | Inr s4 \<Rightarrow> Inr (if pa_is_subprocess pa (sv_world s4) \<and> \<not> pa_parent_open pa (sv_world s4)
                           then s4\<lparr> sv_running := False \<rparr> else s4)))"

definition run_once :: "('k, 'w) parts \<Rightarrow> ('k, 'w) service \<Rightarrow> (string + ('k, 'w) service) option" where
  "run_once pa s =
    (case pa_select pa (sv_world s) of
       Inl e \<Rightarrow> Some (Inl e)
     | Inr e \<Rightarrow>
        (let s1 = perform pa e (s\<lparr> sv_running := True \<rparr>)
         in if pa_parent_open pa (sv_world s1)
            then (case receive_loop pa s1 of None \<Rightarrow> None | Some (Inl e) \<Rightarrow> Some (Inl e) | Some (Inr s2) \<Rightarrow> Some (finish_tick pa s2))
            else Some (finish_tick pa s1)))"

text \<open>Some ticks in a row, none of which throws.\<close>

inductive ticks :: "('k, 'w) parts \<Rightarrow> nat \<Rightarrow> ('k, 'w) service \<Rightarrow> ('k, 'w) service \<Rightarrow> bool" for pa where
  none: "ticks pa 0 s s"
| tick: "ticks pa n s s1 \<Longrightarrow> run_once pa s1 = Some (Inr s2) \<Longrightarrow> ticks pa (Suc n) s s2"

inductive_cases ticks_SucE: "ticks pa (Suc n) s s'"
inductive_cases ticks_0E: "ticks pa 0 s s'"

end
