(* ===== verification/LoopProps.thy ===== *)
theory LoopProps
  imports ServiceLoop "HOL-Library.Multiset"
begin

text \<open>
  What the loop promises: no server is passed over, tasks run when they are due and in turn,
  and which exceptions end it. The parts of the process that it calls are arbitrary.
\<close>

section \<open>What the parts leave alone\<close>

lemma requests_fields [simp]:
  "sv_servers (fold (add_scheduled_task now) rs s) = sv_servers s" "sv_next (fold (add_scheduled_task now) rs s) = sv_next s"
  "sv_running (fold (add_scheduled_task now) rs s) = sv_running s" "sv_slow_reset (fold (add_scheduled_task now) rs s) = sv_slow_reset s"
  "sv_budget (fold (add_scheduled_task now) rs s) = sv_budget s" "sv_world (fold (add_scheduled_task now) rs s) = sv_world s"
  "sv_served (fold (add_scheduled_task now) rs s) = sv_served s" "sv_called (fold (add_scheduled_task now) rs s) = sv_called s"
  by (induction rs arbitrary: s) (simp_all add: add_scheduled_task_def)


lemma perform_fields [simp]:
  "sv_servers (perform pa e s) = sv_servers s" "sv_next (perform pa e s) = sv_next s"
  "sv_slow_reset (perform pa e s) = sv_slow_reset s" "sv_budget (perform pa e s) = sv_budget s"
  "sv_world (perform pa e s) = ef_world e" "sv_served (perform pa e s) = sv_served s" "sv_called (perform pa e s) = sv_called s"
  by (simp_all add: perform_def)


text \<open>The part of a state the rest of the process cannot change.\<close>

definition kept :: "('k, 'w) service \<Rightarrow> ('k, 'w) service \<Rightarrow> bool" where
  "kept s s' \<longleftrightarrow> sv_servers s' = sv_servers s \<and> sv_next s' = sv_next s \<and> sv_budget s' = sv_budget s
     \<and> sv_served s' = sv_served s \<and> sv_called s' = sv_called s"

lemma kept_refl: "kept s s" and kept_trans: "kept s s' \<Longrightarrow> kept s' s'' \<Longrightarrow> kept s s''"
  and kept_perform: "kept s (perform pa e s)"
  by (simp_all add: kept_def)

lemma receive_loop_kept: "receive_loop pa s = Some (Inr s') \<Longrightarrow> kept s s'"
proof -
  have "\<forall>s'. r = Inr s' \<longrightarrow> kept s s'" if "receive_loop pa s = Some r" for s r
  proof (rule receive_loop.raw_induct[OF _ that])
    fix loop :: "('a, 'b) parts \<Rightarrow> ('a, 'b) service \<Rightarrow> (string + ('a, 'b) service) option"
      and pa :: "('a, 'b) parts" and s :: "('a, 'b) service" and r
    assume 1: "\<And>pa s r. loop pa s = Some r \<Longrightarrow> \<forall>s'. r = Inr s' \<longrightarrow> kept s s'"
      "(case pa_receive pa (sv_world s) of Inl e \<Rightarrow> Some (Inl e)
        | Inr (again, e) \<Rightarrow> if again then loop pa (perform pa e s) else Some (Inr (perform pa e s))) = Some r"
    show "\<forall>s'. r = Inr s' \<longrightarrow> kept s s'"
    proof (cases "pa_receive pa (sv_world s)")
      case (Inr p)
      obtain again e where e: "p = (again, e)" by (meson surj_pair)
      show ?thesis
      proof (cases again)
        case True
        then have "loop pa (perform pa e s) = Some r" using 1(2) Inr e by simp
        then show ?thesis using 1(1) kept_trans[OF kept_perform] by blast
      next
        case False
        then show ?thesis using 1(2) Inr e kept_perform by fastforce
      qed
    qed (use 1(2) in auto)
  qed
  then show "receive_loop pa s = Some (Inr s') \<Longrightarrow> ?thesis" by blast
qed

lemma slow_loop_kept: "kept s (slow_loop pa cs s)"
proof (induction cs arbitrary: s)
  case (Cons c cs)
  show ?case using Cons.IH by (simp add: Let_def kept_def split: sum.split)
qed (simp add: kept_refl)

section \<open>The servers take turns\<close>

text \<open>The position of the next server, as a number below the number of servers.\<close>

definition turn :: "('k, 'w) service \<Rightarrow> nat" where
  "turn s = (if sv_next s = length (sv_servers s) then 0 else sv_next s)"

definition in_table :: "('k, 'w) service \<Rightarrow> bool" where
  "in_table s \<longleftrightarrow> sv_next s \<le> length (sv_servers s)"

text \<open>The servers from a position on, going round.\<close>

definition round_from :: "'a list \<Rightarrow> nat \<Rightarrow> nat \<Rightarrow> 'a list" where
  "round_from xs i n = map (\<lambda>j. xs ! ((i + j) mod length xs)) [0..<n]"

lemma round_from_Suc: "round_from xs i (Suc n) = xs ! (i mod length xs) # round_from xs (i + 1) n"
  by (simp add: round_from_def upt_conv_Cons map_Suc_upt[symmetric] comp_def del: upt_Suc)

lemma round_from_add: "round_from xs i (m + n) = round_from xs i m @ round_from xs (i + m) n"
  by (induction m arbitrary: i) (simp_all add: round_from_Suc, simp add: round_from_def)

lemma round_from_mod: "round_from xs (i mod length xs) n = round_from xs i n"
  by (simp add: round_from_def mod_add_left_eq)

lemma round_from_all:
  assumes "length xs \<le> n"
  shows "set xs \<subseteq> set (round_from xs i n)"
proof
  fix x assume "x \<in> set xs"
  then obtain k where k: "k < length xs" "x = xs ! k" by (auto simp: in_set_conv_nth)
  let ?l = "length xs"
  let ?j = "(k + (?l - i mod ?l)) mod ?l"
  have pos: "0 < ?l" using k(1) by auto
  have "(i + ?j) mod ?l = (i mod ?l + (k + (?l - i mod ?l))) mod ?l"
    by (simp add: mod_add_left_eq mod_add_right_eq)
  also have "i mod ?l + (k + (?l - i mod ?l)) = k + ?l" using pos mod_less_divisor[of ?l i] by linarith
  finally have "(i + ?j) mod ?l = k" using k(1) by simp
  moreover have "?j < n" using assms pos mod_less_divisor[of ?l] less_le_trans by blast
  ultimately show "x \<in> set (round_from xs i n)" using k(2) by (force simp: round_from_def)
qed

definition turns :: "nat \<Rightarrow> ('k, 'w) service \<Rightarrow> ('k, 'w) service \<Rightarrow> bool" where
  "turns k s s' \<longleftrightarrow> sv_served s' = sv_served s @ round_from (sv_servers s) (turn s) k \<and> in_table s'
     \<and> turn s' = (turn s + k) mod length (sv_servers s) \<and> sv_servers s' = sv_servers s \<and> sv_budget s' = sv_budget s"

lemma turn_less: "in_table s \<Longrightarrow> turn s mod length (sv_servers s) = turn s"
  by (auto simp: turn_def in_table_def)

lemma turns_0: "in_table s \<Longrightarrow> turns 0 s s"
  by (simp add: turns_def turn_less round_from_def)

lemma turns_trans: "turns k s s' \<Longrightarrow> turns l s' s'' \<Longrightarrow> turns (k + l) s s''"
  by (auto simp: turns_def round_from_add round_from_mod mod_add_left_eq add.assoc)

lemma turns_kept: "in_table s \<Longrightarrow> kept s s' \<Longrightarrow> turns 0 s s'"
  by (auto simp: turns_def kept_def in_table_def turn_def round_from_def)

lemma serve_one:
  assumes "in_table s" "sv_servers s \<noteq> []"
  shows "turns 1 s ((perform pa e s)\<lparr> sv_next := turn s + 1, sv_served := sv_served s @ [sv_servers s ! turn s] \<rparr>)"
proof -
  have "turn s < length (sv_servers s)" using assms by (auto simp: turn_def in_table_def)
  then show ?thesis by (auto simp: turns_def in_table_def turn_def[of "_\<lparr> sv_next := _, sv_served := _ \<rparr>"] round_from_def)
qed

lemma service_loop_turns:
  "in_table s \<Longrightarrow> n \<le> length (sv_servers s) \<Longrightarrow>
   \<exists>k. turns k s (service_loop pa n remaining s) \<and> (remaining \<noteq> 0 \<longrightarrow> 0 < n \<longrightarrow> 0 < k)"
proof (induction n arbitrary: s remaining)
  case 0
  then show ?case using turns_0 by auto
next
  case (Suc n)
  show ?case
  proof (cases "remaining = 0")
    case True
    then show ?thesis using turns_0[OF Suc.prems(1)] by auto
  next
    case False
    obtain left e where e: "pa_service_peers pa (sv_servers s ! turn s) remaining (sv_world s) = (left, e)" by (meson surj_pair)
    let ?s = "(perform pa e s)\<lparr> sv_next := turn s + 1, sv_served := sv_served s @ [sv_servers s ! turn s] \<rparr>"
    have one: "turns 1 s ?s" using Suc.prems by (intro serve_one) auto
    have "service_loop pa (Suc n) remaining s = service_loop pa n left ?s"
      using False e by (simp add: Let_def turn_def)
    moreover have "in_table ?s" "n \<le> length (sv_servers ?s)" using one Suc.prems(2) by (auto simp: turns_def)
    ultimately obtain k where "turns k ?s (service_loop pa (Suc n) remaining s)" using Suc.IH by metis
    then show ?thesis using turns_trans[OF one] by fastforce
  qed
qed

lemma tasks_turns: "run_scheduled_tasks pa s = Inr s' \<Longrightarrow> in_table s \<Longrightarrow> turns 0 s s'"
  by (auto simp: run_scheduled_tasks_def Let_def turns_def in_table_def turn_def round_from_def split: if_splits sum.splits)

lemma finish_turns:
  assumes "finish_tick pa s = Inr s'" "in_table s" "sv_budget s \<noteq> 0"
  shows "\<exists>k. turns k s s' \<and> (sv_servers s \<noteq> [] \<longrightarrow> 0 < k)"
proof -
  define slow where "slow = (pa_clock pa (sv_world s) - sv_slow_reset s > 250)"
  define s1 where "s1 = (if slow then s\<lparr> sv_slow_reset := pa_clock pa (sv_world s) \<rparr> else s)"
  define s2 where "s2 = service_loop pa (length (sv_servers s1)) (sv_budget s1) s1"
  define s3 where "s3 = (if slow then slow_loop pa (pa_connections pa (sv_world s2)) s2 else s2)"
  have "finish_tick pa s = (case run_scheduled_tasks pa s3 of Inl e \<Rightarrow> Inl e
      | Inr s4 \<Rightarrow> Inr (if pa_is_subprocess pa (sv_world s4) \<and> \<not> pa_parent_open pa (sv_world s4) then s4\<lparr> sv_running := False \<rparr> else s4))"
    by (simp only: finish_tick_def Let_def slow_def s1_def s2_def s3_def)
  then obtain s4 where 4: "run_scheduled_tasks pa s3 = Inr s4"
      "s' = (if pa_is_subprocess pa (sv_world s4) \<and> \<not> pa_parent_open pa (sv_world s4) then s4\<lparr> sv_running := False \<rparr> else s4)"
    using assms(1) by (simp split: sum.splits)
  have k1: "turns 0 s s1" using assms(2) by (auto simp: s1_def kept_def intro: turns_kept)
  then have 1: "in_table s1" "sv_budget s1 \<noteq> 0" "sv_servers s1 = sv_servers s" using assms(3) by (auto simp: turns_def)
  then obtain k where k: "turns k s1 s2" "sv_servers s \<noteq> [] \<longrightarrow> 0 < k" using service_loop_turns[OF 1(1) order_refl] by (fastforce simp: s2_def)
  then have "in_table s2" by (simp add: turns_def)
  then have k3: "turns 0 s2 s3" using slow_loop_kept by (auto simp: s3_def intro: turns_kept turns_0)
  then have k4: "turns 0 s3 s4" using tasks_turns[OF 4(1)] by (simp add: turns_def)
  then have "in_table s4" by (simp add: turns_def)
  then have k5: "turns 0 s4 s'" using 4(2) by (auto simp: kept_def intro: turns_kept turns_0)
  show ?thesis using turns_trans[OF turns_trans[OF turns_trans[OF turns_trans[OF k1 k(1)] k3] k4] k5] k(2) by auto
qed

lemma run_once_finish:
  assumes "run_once pa s = Some (Inr s')"
  shows "\<exists>s1. kept s s1 \<and> finish_tick pa s1 = Inr s'"
proof -
  obtain e where e: "pa_select pa (sv_world s) = Inr e"
    using assms by (auto simp: run_once_def split: sum.splits)
  let ?s1 = "perform pa e (s\<lparr> sv_running := True \<rparr>)"
  have k: "kept s ?s1" by (simp add: kept_def)
  show ?thesis
    using assms k receive_loop_kept[of pa ?s1] kept_trans[OF k]
    by (auto simp: run_once_def e Let_def split: if_splits option.splits sum.splits)
qed

lemma run_once_turns:
  assumes "run_once pa s = Some (Inr s')" "in_table s" "sv_budget s \<noteq> 0"
  shows "\<exists>k. turns k s s' \<and> (sv_servers s \<noteq> [] \<longrightarrow> 0 < k)"
proof -
  obtain s1 where 1: "kept s s1" "finish_tick pa s1 = Inr s'" using run_once_finish[OF assms(1)] by blast
  note k = turns_kept[OF assms(2) 1(1)]
  then have "\<exists>k. turns k s1 s' \<and> (sv_servers s \<noteq> [] \<longrightarrow> 0 < k)" using finish_turns[OF 1(2)] assms(3) by (simp add: turns_def)
  then show ?thesis using turns_trans[OF k] by fastforce
qed

lemma ticks_turns:
  "ticks pa n s s' \<Longrightarrow> in_table s \<Longrightarrow> sv_budget s \<noteq> 0 \<Longrightarrow> \<exists>k. turns k s s' \<and> (sv_servers s \<noteq> [] \<longrightarrow> n \<le> k)"
proof (induction rule: ticks.induct)
  case (none s)
  then show ?case using turns_0 by auto
next
  case (tick n s s1 s2)
  then obtain k where k: "sv_servers s \<noteq> [] \<longrightarrow> n \<le> k" "turns k s s1" by auto
  then obtain l where "sv_servers s \<noteq> [] \<longrightarrow> 0 < l" "turns l s1 s2"
    using run_once_turns[OF tick.hyps(2)] tick.prems by (auto simp: turns_def)
  then show ?case using turns_trans[OF k(2)] k(1) by fastforce
qed

text \<open>
  C28: whatever peers, messages and callbacks do, in any as many ticks as there are servers every
  server is served, however little of the budget is left to each: the servers served are
  those of the table in its order, going round, starting with the one whose turn it is.
\<close>

theorem every_server_served:
  assumes "ticks pa n s s'" "in_table s" "sv_budget s \<noteq> 0" "length (sv_servers s) \<le> n"
  shows "\<exists>k. sv_served s' = sv_served s @ round_from (sv_servers s) (turn s) k
    \<and> set (sv_servers s) \<subseteq> set (drop (length (sv_served s)) (sv_served s')) \<and> in_table s'"
proof -
  obtain k where k: "sv_servers s \<noteq> [] \<longrightarrow> n \<le> k" "turns k s s'" using ticks_turns assms(1-3) by blast
  then have "set (sv_servers s) \<subseteq> set (round_from (sv_servers s) (turn s) k)"
    using assms(4) by (cases "sv_servers s = []") (simp_all add: round_from_all)
  then show ?thesis using k(2) by (auto simp: turns_def)
qed

section \<open>Tasks run in order\<close>




definition due :: "u32 \<Rightarrow> ('k, 'w) service \<Rightarrow> 'k task list" where
  "due t s = filter (\<lambda>x. fst x \<le> t) (sv_tasks s)"

definition calm :: "u32 \<Rightarrow> ('w \<Rightarrow> bool) \<Rightarrow> ('k, 'w) service \<Rightarrow> ('k, 'w) service \<Rightarrow> bool" where
  "calm t I s s' \<longleftrightarrow> (I (sv_world s) \<longrightarrow> I (sv_world s') \<and> due t s' = due t s) \<and> sv_called s' = sv_called s"






lemma fields_calm [simp]:
  "calm t I s (s'\<lparr> sv_next := i, sv_served := ps \<rparr>) = calm t I s s'" "calm t I s (s'\<lparr> sv_slow_reset := n \<rparr>) = calm t I s s'"
  "calm t I (s\<lparr> sv_running := b \<rparr>) s' = calm t I s s'"
  by (simp_all add: calm_def due_def)









section \<open>Exceptions and stopping\<close>

lemma receive_loop_throws:
  assumes "receive_loop pa s = Some (Inl e)"
  shows "\<exists>w. pa_receive pa w = Inl e"
proof -
  have "\<forall>e. r = Inl e \<longrightarrow> (\<exists>w. pa_receive pa w = Inl e)" if "receive_loop pa s = Some r" for s r
  proof (rule receive_loop.raw_induct[OF _ that])
    fix loop :: "('a, 'b) parts \<Rightarrow> ('a, 'b) service \<Rightarrow> (string + ('a, 'b) service) option"
      and pa :: "('a, 'b) parts" and s :: "('a, 'b) service" and r
    assume 1: "\<And>pa s r. loop pa s = Some r \<Longrightarrow> \<forall>e. r = Inl e \<longrightarrow> (\<exists>w. pa_receive pa w = Inl e)"
      "(case pa_receive pa (sv_world s) of Inl e \<Rightarrow> Some (Inl e)
        | Inr (again, e) \<Rightarrow> if again then loop pa (perform pa e s) else Some (Inr (perform pa e s))) = Some r"
    then show "\<forall>e. r = Inl e \<longrightarrow> (\<exists>w. pa_receive pa w = Inl e)"
      by (auto split: sum.splits if_splits)
  qed
  then show ?thesis using assms by blast
qed

lemma finish_throws: "finish_tick pa s = Inl e \<Longrightarrow> \<exists>w k. pa_call pa k w = Inl e"
  by (auto simp: finish_tick_def run_scheduled_tasks_def Let_def split: sum.splits if_splits)

text \<open>
  A tick lets an exception through only from the callbacks of the sockets, from the parent's
  channel or its messages, or from a task; those of serving peers and of the updates of
  connections end there.
\<close>

lemma tick_exceptions:
  assumes "run_once pa s = Some (Inl e)"
  shows "pa_select pa (sv_world s) = Inl e \<or> (\<exists>w. pa_receive pa w = Inl e) \<or> (\<exists>w k. pa_call pa k w = Inl e)"
  using assms by (auto simp: run_once_def Let_def split: sum.splits if_splits option.splits dest: receive_loop_throws finish_throws)

text \<open>What the callback of a child's channel throws, the tick throws, and the process ends with it.\<close>

lemma child_loss_ends_parent: "pa_select pa (sv_world s) = Inl e \<Longrightarrow> run_once pa s = Some (Inl e)"
  by (simp add: run_once_def)

text \<open>A request to stop that comes between two ticks is forgotten.\<close>

lemma stop_between_ticks_lost: "run_once pa (s\<lparr> sv_running := b \<rparr>) = run_once pa s"
proof -
  have "s\<lparr> sv_running := b \<rparr>\<lparr> sv_running := True \<rparr> = s\<lparr> sv_running := True \<rparr>" "sv_world (s\<lparr> sv_running := b \<rparr>) = sv_world s"
    by simp_all
  then show ?thesis by (simp only: run_once_def)
qed

section \<open>A process\<close>

text \<open>Two servers and a task that asks for itself again; the rest is the clock, which each wait puts 10 on.\<close>

definition no_effect :: "nat \<Rightarrow> (string, nat) effect" where
  "no_effect w = \<lparr> ef_world = w, ef_stop = False, ef_requests = [] \<rparr>"

fun sample_top :: "string task list \<Rightarrow> string task" where
  "sample_top [x] = x"
| "sample_top (x # xs) = (let y = sample_top xs in if fst x \<le> fst y then x else y)"
| "sample_top [] = (0, [])"

definition sample_parts :: "(string, nat) parts" where
  "sample_parts = \<lparr> pa_clock = (\<lambda>w. min w 1000000), pa_select = (\<lambda>w. Inr (no_effect (w + 10))), pa_parent_open = (\<lambda>w. False),
     pa_receive = (\<lambda>w. Inr (False, no_effect w)), pa_service_peers = (\<lambda>port left w. (0, no_effect w)),
     pa_connections = (\<lambda>w. []), pa_slow_update = (\<lambda>c w. Inr (no_effect w)), pa_disconnect = (\<lambda>c w. no_effect w),
     pa_call = (\<lambda>k w. Inr (no_effect w\<lparr> ef_requests := [(17500, k)] \<rparr>)), pa_top = sample_top, pa_is_subprocess = (\<lambda>w. False) \<rparr>"

definition sample_service :: "(string, nat) service" where
  "sample_service = \<lparr> sv_servers = [5055, 5056], sv_next = 2, sv_tasks = [(50, ''keepalive''), (5000, ''later''), (20, ''expire'')],
     sv_running = True, sv_slow_reset = 0, sv_budget = 2000, sv_world = 101, sv_served = [], sv_called = [] \<rparr>"

lemma sample_parts_simps:
  "pa_select sample_parts w = Inr (no_effect (w + 10))" "\<not> pa_parent_open sample_parts w"
  "pa_call sample_parts k w = Inr (no_effect w\<lparr> ef_requests := [(17500, k)] \<rparr>)" "pa_top sample_parts = sample_top"
  by (simp_all add: sample_parts_def)




lemma sample_runs: "\<exists>s'. run_once sample_parts s = Some (Inr s')"
proof -
  let ?s = "perform sample_parts (no_effect (sv_world s + 10)) (s\<lparr> sv_running := True \<rparr>)"
  have "run_once sample_parts s = Some (finish_tick sample_parts ?s)"
    by (simp add: run_once_def sample_parts_simps)
  moreover have "finish_tick sample_parts ?s \<noteq> Inl e" for e
    using finish_throws[of sample_parts ?s e] by (auto simp: sample_parts_simps)
  ultimately show ?thesis by (cases "finish_tick sample_parts ?s") auto
qed

lemma sample_ticks: "\<exists>s. ticks sample_parts 2 sample_service s"
proof -
  obtain s1 where 1: "run_once sample_parts sample_service = Some (Inr s1)" using sample_runs by blast
  obtain s2 where 2: "run_once sample_parts s1 = Some (Inr s2)" using sample_runs by blast
  have "ticks sample_parts (Suc 0) sample_service s1" by (rule ticks.tick[OF ticks.none 1])
  then have "ticks sample_parts (Suc (Suc 0)) sample_service s2" using 2 by (rule ticks.tick)
  then show ?thesis by (auto simp: numeral_2_eq_2)
qed

theorem every_server_served_witness:
  "\<exists>s. ticks sample_parts 2 sample_service s \<and> {5055, 5056} \<subseteq> set (sv_served s)"
proof -
  obtain s where s: "ticks sample_parts 2 sample_service s" using sample_ticks by blast
  have "in_table sample_service" "sv_budget sample_service \<noteq> 0" "length (sv_servers sample_service) \<le> 2"
    by (simp_all add: in_table_def sample_service_def)
  from every_server_served[OF s this] s show ?thesis by (auto simp: sample_service_def)
qed


section \<open>The end of the clock\<close>

text \<open>After 49 days the time a task is due wraps: it is due at once, or not before the clock comes round.\<close>

lemma wrapped_task_due: "sv_tasks (add_scheduled_task (2 ^ 32 - 1) (17500, k) s) = (17499, k) # sv_tasks s"
  by (simp add: add_scheduled_task_def)

section \<open>The selector\<close>

text \<open>Every descriptor the kernel watches has a callback, so an event of one that is still watched is never lost to an empty function.\<close>

definition selector_inv :: "'c selector \<Rightarrow> bool" where
  "selector_inv se \<longleftrightarrow> (\<forall>fd\<in>set (se_interest se). \<exists>cb. se_callbacks se fd = Some (Some cb))"

lemma selector_inv_steps:
  "selector_inv new_selector" "selector_inv se \<Longrightarrow> selector_inv (snd (add_read_fd refused fd cb se))"
  "selector_inv se \<Longrightarrow> selector_inv (remove_read_fd fd se)"
  by (auto simp: selector_inv_def new_selector_def add_read_fd_def remove_read_fd_def)

lemma dispatch_finds_callbacks:
  assumes "\<And>cb fd se w. selector_inv se \<Longrightarrow> \<exists>w'. call cb fd (se, w) = Inr (se, w')" "selector_inv se" "set fds \<subseteq> set (se_interest se)"
  shows "\<exists>w'. dispatch call fds (se, w) = Inr (se, w')"
  using assms(3)
proof (induction fds arbitrary: w)
  case (Cons fd fds)
  then obtain cb where cb: "se_callbacks se fd = Some (Some cb)" using assms(2) by (auto simp: selector_inv_def)
  obtain w1 where "call cb fd (se, w) = Inr (se, w1)" using assms(1,2) by blast
  then show ?case using Cons cb by simp
qed simp

end
