(* ===== verification/Settings.thy ===== *)
theory Settings
  imports Authentication
begin

text \<open>
  The settings database (src/src/settings_manager.cpp, and what it uses of
  src/src/sqlite3pp.cpp): the options behind a path, the migrations of the schema, and the
  settings of an application with the fallback to those of \<open>unknown\<close>. The database engine
  and the file system are parameters.
\<close>

unbundle bit_operations_syntax

section \<open>Options of the path\<close>

definition open_readonly :: u32 where "open_readonly = 0x1"
definition open_readwrite :: u32 where "open_readwrite = 0x2"
definition open_create :: u32 where "open_create = 0x4"
definition open_memory :: u32 where "open_memory = 0x80"
definition open_nomutex :: u32 where "open_nomutex = 0x8000"
definition open_fullmutex :: u32 where "open_fullmutex = 0x10000"
definition open_sharedcache :: u32 where "open_sharedcache = 0x20000"
definition open_privatecache :: u32 where "open_privatecache = 0x40000"

text \<open>What the options change: the flags of the database and whether it is only read.\<close>

record open_mode =
  md_flags :: u32
  md_read_only :: bool

definition clear_set :: "u32 \<Rightarrow> u32 \<Rightarrow> open_mode \<Rightarrow> open_mode" where
  "clear_set off on m = m\<lparr> md_flags := (md_flags m AND NOT off) OR on \<rparr>"

definition suffix_handlers :: "(string \<times> (open_mode \<Rightarrow> open_mode)) list" where
  "suffix_handlers =
     [(''ro'', \<lambda>m. (clear_set (open_readwrite OR open_create) open_readonly m)\<lparr> md_read_only := True \<rparr>),
      (''rw'', \<lambda>m. (clear_set open_readonly (open_readwrite OR open_create) m)\<lparr> md_read_only := False \<rparr>),
      (''nocreate'', clear_set open_create 0),
      (''nomutex'', clear_set open_fullmutex open_nomutex),
      (''fullmutex'', clear_set open_nomutex open_fullmutex),
      (''sharedcache'', clear_set open_privatecache open_sharedcache),
      (''privatecache'', clear_set open_sharedcache open_privatecache),
      (''memory'', clear_set 0 open_memory)]"

text \<open>The text before and after the last colon.\<close>

definition last_colon :: "string \<Rightarrow> (string \<times> string) option" where
  "last_colon path =
    (case dropWhile (\<lambda>c. c \<noteq> CHR '':'') (rev path) of
       [] \<Rightarrow> None
     | c # front \<Rightarrow> Some (rev front, rev (takeWhile (\<lambda>c. c \<noteq> CHR '':'') (rev path))))"

lemma last_colon_shorter: "last_colon path = Some (front, suffix) \<Longrightarrow> length front < length path"
proof -
  assume a: "last_colon path = Some (front, suffix)"
  then obtain c r where d: "dropWhile (\<lambda>c. c \<noteq> CHR '':'') (rev path) = c # r" "front = rev r"
    by (auto simp: last_colon_def split: list.splits)
  have "length (c # r) \<le> length (rev path)" unfolding d(1)[symmetric] by (rule length_dropWhile_le)
  then show ?thesis using d(2) by simp
qed

text \<open>The loop strips what it knows; the handlers are kept in the order they are found.\<close>

function strip_suffixes :: "string \<Rightarrow> (open_mode \<Rightarrow> open_mode) list \<Rightarrow> string \<times> (open_mode \<Rightarrow> open_mode) list" where
  "strip_suffixes path actions =
    (case last_colon path of
       None \<Rightarrow> (path, actions)
     | Some (front, suffix) \<Rightarrow>
        (case map_of suffix_handlers suffix of
           None \<Rightarrow> (path, actions)
         | Some action \<Rightarrow> strip_suffixes front (actions @ [action])))"
  by pat_completeness auto
termination by (relation "measure (\<lambda>(path, actions). length path)") (auto dest: last_colon_shorter)

declare strip_suffixes.simps [simp del]

text \<open>What the file system says: whether a path exists, whether its owner may write, its directory.\<close>

record files =
  fs_exists :: "string \<Rightarrow> bool"
  fs_owner_write :: "string \<Rightarrow> bool"
  fs_parent :: "string \<Rightarrow> string"
  fs_current :: string

definition check_is_writable :: "files \<Rightarrow> string \<Rightarrow> bool" where
  "check_is_writable fs db_path =
    (if fs_exists fs db_path then fs_owner_write fs db_path
     else let parent = fs_parent fs db_path
          in fs_owner_write fs (if parent = [] then fs_current fs else parent))"

definition open_options :: "files \<Rightarrow> string \<Rightarrow> string \<times> open_mode" where
  "open_options fs db_path =
    (let read_only = \<not> check_is_writable fs db_path;
         start = \<lparr> md_flags = (if read_only then open_readonly else open_readwrite OR open_create), md_read_only = read_only \<rparr>
     in case strip_suffixes db_path [] of
          (path, actions) \<Rightarrow> (path, fold (\<lambda>a m. a m) (rev actions) start))"

section \<open>Migrations\<close>

text \<open>
  A database of the engine is a state \<^theory_text>\<open>'s\<close>; \<^theory_text>\<open>eg_exec\<close> runs a text and says whether it
  went well, \<^theory_text>\<open>eg_insert_version\<close> runs the prepared insertion, \<^theory_text>\<open>eg_max_version\<close> reads the
  newest version (0 where there is none). \<^theory_text>\<open>None\<close> from it or from the preparation is an exception.
\<close>

record 's engine =
  eg_exec :: "string \<Rightarrow> 's \<Rightarrow> bool \<times> 's"
  eg_max_version :: "'s \<Rightarrow> int option"
  eg_prepares :: "'s \<Rightarrow> bool"
  eg_insert_version :: "int \<Rightarrow> 's \<Rightarrow> bool \<times> 's"

text \<open>
  The versions of the list; the text of a migration stands for itself by its number. The results of
  \<^theory_text>\<open>execute\<close> are dropped, as in the code; so is the one of the transaction's end.
\<close>

definition migration_versions :: "int list" where
  "migration_versions = [1, 2]"

definition begin_transaction :: "bool \<Rightarrow> 's engine \<Rightarrow> 's \<Rightarrow> bool \<times> 's" where
  "begin_transaction reserve eg s = eg_exec eg (if reserve then ''BEGIN IMMEDIATE'' else ''BEGIN'') s"

definition end_transaction :: "bool \<Rightarrow> 's engine \<Rightarrow> 's \<Rightarrow> 's" where
  "end_transaction fcommit eg s = snd (eg_exec eg (if fcommit then ''COMMIT'' else ''ROLLBACK'') s)"

text \<open>The loop: \<^theory_text>\<open>Inl\<close> where an exception leaves it, with the state it leaves.\<close>

fun run_migrations :: "'s engine \<Rightarrow> (int \<Rightarrow> string) \<Rightarrow> int \<Rightarrow> int list \<Rightarrow> 's \<Rightarrow> 's + 's" where
  "run_migrations eg sql current [] s = Inr s"
| "run_migrations eg sql current (v # vs) s =
    (if current < v then
       (let s1 = snd (eg_exec eg (sql v) s)
        in if \<not> eg_prepares eg s1 then Inl s1
           else run_migrations eg sql current vs (snd (eg_insert_version eg v s1)))
     else run_migrations eg sql current vs s)"

text \<open>
  The transaction is made with its second argument true and its third left out: it is deferred, and
  its destructor commits. The result says whether no exception came, with the state.
\<close>

definition create_versions :: string where
  "create_versions = ''CREATE TABLE IF NOT EXISTS schema_migrations (version INTEGER PRIMARY KEY);''"

definition apply_migrations :: "'s engine \<Rightarrow> (int \<Rightarrow> string) \<Rightarrow> 's \<Rightarrow> bool \<times> 's" where
  "apply_migrations eg sql s =
    (case begin_transaction False eg s of
       (False, s1) \<Rightarrow> (False, s1)
     | (True, s1) \<Rightarrow>
        (let s2 = snd (eg_exec eg create_versions s1)
         in case eg_max_version eg s2 of
              None \<Rightarrow> (False, end_transaction True eg s2)
            | Some current \<Rightarrow>
               (case run_migrations eg sql current migration_versions s2 of
                  Inl s3 \<Rightarrow> (False, end_transaction True eg s3)
                | Inr s3 \<Rightarrow> (True, end_transaction True eg s3))))"

text \<open>The constructor: the options, the database opened with them, and the migrations where it may write.\<close>

definition settings_open ::
  "files \<Rightarrow> (string \<Rightarrow> u32 \<Rightarrow> 's option) \<Rightarrow> 's engine \<Rightarrow> (int \<Rightarrow> string) \<Rightarrow> string \<Rightarrow> ('s \<times> bool) option" where
  "settings_open fs open_db eg sql db_path =
    (case open_options fs db_path of
       (path, m) \<Rightarrow>
         (case open_db path (md_flags m) of
            None \<Rightarrow> None
          | Some s \<Rightarrow>
             (if md_read_only m then Some (s, True)
              else case apply_migrations eg sql (snd (eg_exec eg ''PRAGMA foreign_keys = ON;'' s)) of
                (ok, s1) \<Rightarrow> if ok then Some (s1, False) else None)))"

section \<open>Settings\<close>

text \<open>A row as \<^theory_text>\<open>sqlite3_column_int\<close> and \<^theory_text>\<open>sqlite3_column_text\<close> read it: 32-bit numbers, texts or null.\<close>

record app_row =
  rw_auth_mode :: int
  rw_allow_find_friends :: int
  rw_uid_mode :: int
  rw_uid_prefix :: "string option"
  rw_max_peers :: int
  rw_max_peers_per_game :: int
  rw_max_game_count :: int
  rw_allow_change_master :: int

definition row_settings :: "string \<Rightarrow> app_row \<Rightarrow> app_settings" where
  "row_settings appid r = default_app_settings\<lparr>
     as_appid := appid,
     as_auth_mode := word_of_int (rw_auth_mode r),
     as_allow_find_friends := (rw_allow_find_friends r \<noteq> 0),
     as_custom_anonymous_uid_mode := word_of_int (max 0 (min 2 (rw_uid_mode r))),
     as_anonymous_uid_prefix := (case rw_uid_prefix r of None \<Rightarrow> [] | Some p \<Rightarrow> p),
     as_max_peers := word_of_int (rw_max_peers r),
     as_max_peers_per_game := word_of_int (rw_max_peers_per_game r),
     as_max_game_count := word_of_int (rw_max_game_count r),
     as_allow_change_master := (rw_allow_change_master r \<noteq> 0) \<rparr>"

text \<open>The recursion goes once to the fallback, which has none.\<close>

definition get_app_settings :: "(string \<Rightarrow> app_row option) \<Rightarrow> string \<Rightarrow> app_settings option" where
  "get_app_settings rows appid =
    (case rows appid of
       Some r \<Rightarrow> Some (row_settings appid r)
     | None \<Rightarrow>
        (if appid = ''unknown'' then None
         else case rows ''unknown'' of None \<Rightarrow> None | Some r \<Rightarrow> Some (row_settings ''unknown'' r)))"

record provider_row =
  pw_is_allowed :: int
  pw_secret :: "string option"
  pw_auth_url :: "string option"

definition row_provider :: "provider_row \<Rightarrow> auth_provider" where
  "row_provider r = \<lparr> ap_is_allowed = (pw_is_allowed r \<noteq> 0), ap_auth_url = pw_auth_url r, ap_secret = pw_secret r \<rparr>"

definition get_auth_provider :: "(string \<Rightarrow> u8 \<Rightarrow> provider_row option) \<Rightarrow> string \<Rightarrow> u8 \<Rightarrow> auth_provider option" where
  "get_auth_provider rows appid auth_type =
    (case rows appid auth_type of
       Some r \<Rightarrow> Some (row_provider r)
     | None \<Rightarrow>
        (if appid = ''unknown'' then None
         else case rows ''unknown'' auth_type of None \<Rightarrow> None | Some r \<Rightarrow> Some (row_provider r)))"

end
