(* ===== verification/SettingsProps.thy ===== *)
theory SettingsProps
  imports Settings
begin

unbundle bit_operations_syntax

text \<open>
  What a path with options opens and with which flags, what becomes of a migration that
  fails, and that an application is known wherever the fallback is.
\<close>

section \<open>Options\<close>

lemma last_colon_split:
  assumes "CHR '':'' \<notin> set w"
  shows "last_colon (front @ CHR '':'' # w) = Some (front, w)"
proof -
  have none: "c \<noteq> CHR '':''" if "c \<in> set (rev w)" for c using assms that by auto
  have "dropWhile (\<lambda>c. c \<noteq> CHR '':'') (rev w @ CHR '':'' # rev front) = CHR '':'' # rev front"
    using none by (simp add: dropWhile_append3)
  moreover have "takeWhile (\<lambda>c. c \<noteq> CHR '':'') (rev w @ CHR '':'' # rev front) = rev w"
    using none by (subst takeWhile_append2) auto
  ultimately show ?thesis by (simp add: last_colon_def)
qed

definition known_suffix :: "string \<Rightarrow> bool" where
  "known_suffix w \<longleftrightarrow> w \<in> fst ` set suffix_handlers"

lemma known_suffix_colon: "known_suffix w \<Longrightarrow> CHR '':'' \<notin> set w"
  by (auto simp: known_suffix_def suffix_handlers_def)

definition suffix_action :: "string \<Rightarrow> open_mode \<Rightarrow> open_mode" where
  "suffix_action w = the (map_of suffix_handlers w)"

lemma known_suffix_action: "known_suffix w \<Longrightarrow> map_of suffix_handlers w = Some (suffix_action w)"
  by (metis known_suffix_def map_of_eq_None_iff option.collapse suffix_action_def)

definition with_suffixes :: "string \<Rightarrow> string list \<Rightarrow> string" where
  "with_suffixes base ws = base @ concat (map (\<lambda>w. CHR '':'' # w) ws)"

text \<open>A path the loop stops at: no colon, or something unknown behind the last one.\<close>

definition bare :: "string \<Rightarrow> bool" where
  "bare path = (case last_colon path of None \<Rightarrow> True | Some (front, suffix) \<Rightarrow> \<not> known_suffix suffix)"

lemma strip_bare:
  assumes "bare path"
  shows "strip_suffixes path acts = (path, acts)"
proof -
  have "map_of suffix_handlers suffix = None" if "last_colon path = Some (front, suffix)" for front suffix
    using assms that by (simp add: bare_def known_suffix_def map_of_eq_None_iff)
  then show ?thesis by (subst strip_suffixes.simps) (auto split: option.splits)
qed

lemma strip_known:
  assumes "bare base" "\<And>w. w \<in> set ws \<Longrightarrow> known_suffix w"
  shows "strip_suffixes (with_suffixes base ws) acts = (base, acts @ map suffix_action (rev ws))"
  using assms(2)
proof (induction ws arbitrary: acts rule: rev_induct)
  case Nil
  then show ?case by (simp add: with_suffixes_def strip_bare[OF assms(1)])
next
  case (snoc w ws)
  have k: "known_suffix w" using snoc.prems by simp
  have "last_colon (with_suffixes base (ws @ [w])) = Some (with_suffixes base ws, w)"
    using last_colon_split[OF known_suffix_colon[OF k], of "with_suffixes base ws"] by (simp add: with_suffixes_def)
  then have "strip_suffixes (with_suffixes base (ws @ [w])) acts = strip_suffixes (with_suffixes base ws) (acts @ [suffix_action w])"
    by (subst strip_suffixes.simps) (simp add: known_suffix_action[OF k])
  also have "\<dots> = (base, (acts @ [suffix_action w]) @ map suffix_action (rev ws))"
    by (rule snoc.IH) (use snoc.prems in simp)
  finally show ?case by simp
qed

text \<open>
  Options are applied from left to right; the path opened is the bare one, but whether it may
  be written is asked of the path with its options.
\<close>

lemma path_options:
  assumes "bare base" "\<And>w. w \<in> set ws \<Longrightarrow> known_suffix w"
  shows "open_options fs (with_suffixes base ws) =
    (base, fold suffix_action ws
       (let ro = \<not> check_is_writable fs (with_suffixes base ws)
        in \<lparr> md_flags = (if ro then open_readonly else open_readwrite OR open_create), md_read_only = ro \<rparr>))"
  by (simp add: open_options_def strip_known[OF assms] Let_def rev_map fold_map comp_def)

section \<open>The flags\<close>

text \<open>
  The flags name one way to open and never two that exclude each other; the manager takes the
  database as read-only when the engine does.
\<close>

definition mode_ok :: "open_mode \<Rightarrow> bool" where
  "mode_ok m \<longleftrightarrow>
     (bit (md_flags m) 0 \<longleftrightarrow> md_read_only m) \<and> (bit (md_flags m) 1 \<longleftrightarrow> \<not> md_read_only m)
   \<and> (bit (md_flags m) 2 \<longrightarrow> \<not> md_read_only m)
   \<and> \<not> (bit (md_flags m) 15 \<and> bit (md_flags m) 16) \<and> \<not> (bit (md_flags m) 17 \<and> bit (md_flags m) 18)"

lemmas flag_words = open_readonly_def open_readwrite_def open_create_def open_memory_def open_nomutex_def open_fullmutex_def
  open_sharedcache_def open_privatecache_def

lemma clear_set_bit:
  "bit (md_flags (clear_set off on m)) n \<longleftrightarrow> n < 32 \<and> ((bit (md_flags m) n \<and> \<not> bit off n) \<or> bit on n)"
  by (auto simp: clear_set_def bit_simps dest: bit_imp_le_length)

lemma clear_set_read_only [simp]: "md_read_only (clear_set off on m) = md_read_only m"
  by (simp add: clear_set_def)

lemma suffix_mode_ok:
  assumes "map_of suffix_handlers w = Some action" "mode_ok m"
  shows "mode_ok (action m)"
proof -
  have a: "action \<in> snd ` set suffix_handlers" using assms(1) by (force dest: map_of_SomeD)
  have upd: "bit (md_flags (m\<lparr> md_read_only := b \<rparr>)) n = bit (md_flags m) n" for m b n by simp
  show ?thesis
    using a assms(2)
    by (auto simp: suffix_handlers_def mode_ok_def clear_set_bit flag_words bit_simps)
qed

lemma stripped_actions:
  "a \<in> set (snd (strip_suffixes path acts)) \<Longrightarrow> a \<in> set acts \<or> (\<exists>w. map_of suffix_handlers w = Some a)"
proof (induction path acts rule: strip_suffixes.induct)
  case (1 path acts)
  show ?case
  proof (cases "last_colon path")
    case None
    then show ?thesis using 1(2) by (simp add: strip_suffixes.simps[of path])
  next
    case (Some fs)
    obtain front suffix where fs: "fs = (front, suffix)" by force
    show ?thesis
    proof (cases "map_of suffix_handlers suffix")
      case None
      then show ?thesis using 1(2) Some fs by (simp add: strip_suffixes.simps[of path])
    next
      case (Some action)
      have "a \<in> set (acts @ [action]) \<or> (\<exists>w. map_of suffix_handlers w = Some a)"
        by (rule 1(1)[OF \<open>last_colon path = Some fs\<close> fs[symmetric] Some]) (use 1(2) Some \<open>last_colon path = Some fs\<close> fs in \<open>simp add: strip_suffixes.simps[of path]\<close>)
      then show ?thesis using Some by auto
    qed
  qed
qed

lemma options_mode_ok: "mode_ok (snd (open_options fs path))"
proof -
  obtain p acts where st: "strip_suffixes path [] = (p, acts)" by force
  have keep: "mode_ok (fold (\<lambda>a m. a m) as m)" if "mode_ok m" "\<And>a. a \<in> set as \<Longrightarrow> \<exists>w. map_of suffix_handlers w = Some a" for as m
    using that
  proof (induction as arbitrary: m)
    case (Cons a as)
    obtain w where "map_of suffix_handlers w = Some a" using Cons.prems(2) by auto
    then have "mode_ok (a m)" using Cons.prems(1) by (rule suffix_mode_ok)
    then show ?case using Cons by simp
  qed simp
  have "\<exists>w. map_of suffix_handlers w = Some a" if "a \<in> set (rev acts)" for a
    using stripped_actions[of a path "[]"] that st by simp
  then have step: "mode_ok (fold (\<lambda>a m. a m) (rev acts) m)" if "mode_ok m" for m using that by (rule keep[rotated])
  have "mode_ok \<lparr> md_flags = (if ro then open_readonly else open_readwrite OR open_create), md_read_only = ro \<rparr>" for ro
    by (simp add: mode_ok_def flag_words bit_simps)
  from step[OF this, of "\<not> check_is_writable fs path"] show ?thesis by (simp only: open_options_def st Let_def prod.case snd_conv)
qed

text \<open>
  A file that may not be written, in a directory that may, is opened for writing as soon as its path
  has an option that says nothing about it.
\<close>

lemma suffix_hides_protection:
  assumes "bare base" "\<not> fs_exists fs (base @ '':fullmutex'')" "fs_owner_write fs (fs_parent fs (base @ '':fullmutex''))"
    "fs_parent fs (base @ '':fullmutex'') \<noteq> []"
  shows "\<exists>m. open_options fs (base @ '':fullmutex'') = (base, m) \<and> \<not> md_read_only m"
proof -
  have k: "known_suffix ''fullmutex''" by (simp add: known_suffix_def suffix_handlers_def)
  have p: "with_suffixes base [''fullmutex''] = base @ '':fullmutex''" by (simp add: with_suffixes_def)
  have w: "check_is_writable fs (base @ '':fullmutex'')" using assms(2-4) by (simp add: check_is_writable_def)
  have "suffix_action ''fullmutex'' = clear_set open_nomutex open_fullmutex" by (simp add: suffix_action_def suffix_handlers_def)
  then show ?thesis using path_options[OF assms(1), of "[''fullmutex'']" fs] k w by (simp add: p Let_def)
qed

section \<open>Migrations\<close>

text \<open>A schema that is as new as the list is left as it is.\<close>

lemma migrations_done: "\<forall>v\<in>set vs. v \<le> current \<Longrightarrow> run_migrations eg sql current vs s = Inr s"
  by (induction vs) simp_all

text \<open>
  A migration whose text fails is taken down as done: whatever its failure leaves of the
  database, the version goes in after it, nothing is reported, and the next start finds
  nothing to do.
\<close>

lemma failed_migration_recorded:
  assumes start: "eg_exec eg ''BEGIN'' s = (True, s1)" and versions: "snd (eg_exec eg create_versions s1) = s2"
    and current: "eg_max_version eg s2 = Some 1" and fails: "eg_exec eg (sql 2) s2 = (False, s3)" and prep: "eg_prepares eg s3"
    and ins: "eg_insert_version eg 2 s3 = (ok, s4)" and commit: "eg_exec eg ''COMMIT'' s4 = (ok', s5)"
  shows "apply_migrations eg sql s = (True, s5)"
    and "eg_exec eg ''BEGIN'' s5 = (True, t1) \<Longrightarrow> snd (eg_exec eg create_versions t1) = t2 \<Longrightarrow> eg_max_version eg t2 = Some 2
      \<Longrightarrow> apply_migrations eg sql s5 = (True, snd (eg_exec eg ''COMMIT'' t2))"
  using assms by (simp_all add: apply_migrations_def begin_transaction_def end_transaction_def migration_versions_def)

section \<open>Settings\<close>

lemma fallback_known:
  assumes "rows ''unknown'' \<noteq> None"
  shows "get_app_settings rows appid \<noteq> None"
  using assms by (auto simp: get_app_settings_def split: option.splits)

text \<open>What the database gives is the row of the application, or that of the fallback under the fallback's name.\<close>

lemma settings_of_rows:
  "get_app_settings rows appid = Some s \<longleftrightarrow>
     (\<exists>r. rows appid = Some r \<and> s = row_settings appid r)
   \<or> (rows appid = None \<and> (\<exists>r. rows ''unknown'' = Some r \<and> s = row_settings ''unknown'' r))"
  by (cases "appid = ''unknown''") (auto simp: get_app_settings_def split: option.splits)

text \<open>
  With the fallback every application loads, so the settings database refuses nobody for an unknown
  application.
\<close>

lemma fallback_loads:
  assumes "registry_inv w" "rows ''unknown'' \<noteq> None"
  shows "\<exists>a w'. app_get (Some (get_app_settings rows)) gmax i v w = (Some a, w')"
proof -
  obtain res w' where g: "app_get (Some (get_app_settings rows)) gmax i v w = (res, w')" by force
  obtain s where "get_app_settings rows i = Some s" using fallback_known[of rows i] assms(2) by blast
  then have "load_app_settings (Some (get_app_settings rows)) gmax i default_app_settings \<noteq> None" by (simp add: load_app_settings_def)
  with assms(1) g show ?thesis by (cases rule: app_get_cases) (use g in auto)
qed

end
