(* ===== verification/ParamModel.thy ===== *)
theory ParamModel
  imports Decimal
begin

text \<open>
  The typed parameters of a request (src/include/luxon/server/data_model.hpp): a template
  that is instantiated for a list of parameter specifications and reads them from the
  parameters of a message, or writes them there. Here the specifications are an argument,
  and the protocol library's \<^theory_text>\<open>Value\<close> is a parameter.
\<close>

section \<open>Values\<close>

text \<open>The types a value can hold, by the names the errors use.\<close>

datatype wire = WNull | WBool | WByte | WInt16 | WInt32 | WInt64 | WFloat | WDouble | WString | WByteArray
  | WBools | WInt16s | WInt32s | WInt64s | WFloats | WDoubles | WStrings | WObjects | WDictionary | WHashtable
  | WCustom | WOther

datatype 'o payload = PayBool bool | PayInt int | PayText string | PayTexts "string list" | PayObj 'o

text \<open>
  Construction of a value from a type, the typed access (\<^theory_text>\<open>get_ptr\<close>), the type a value has, and the
  value made by default.
\<close>

record ('v, 'o) variant_api =
  vr_fresh :: 'v
  vr_is_null :: "'v \<Rightarrow> bool"
  vr_type :: "'v \<Rightarrow> wire"
  vr_get :: "wire \<Rightarrow> 'v \<Rightarrow> 'o payload option"
  vr_of :: "wire \<Rightarrow> 'o payload \<Rightarrow> 'v"

definition value_type_name :: "wire \<Rightarrow> string" where
  "value_type_name w =
    (case w of WNull \<Rightarrow> ''null'' | WBool \<Rightarrow> ''bool'' | WByte \<Rightarrow> ''byte'' | WInt16 \<Rightarrow> ''int16'' | WInt32 \<Rightarrow> ''int32''
     | WInt64 \<Rightarrow> ''int64'' | WFloat \<Rightarrow> ''float'' | WDouble \<Rightarrow> ''double'' | WString \<Rightarrow> ''string'' | WByteArray \<Rightarrow> ''byte[]''
     | WBools \<Rightarrow> ''bool[]'' | WInt16s \<Rightarrow> ''int16[]'' | WInt32s \<Rightarrow> ''int32[]'' | WInt64s \<Rightarrow> ''int64[]'' | WFloats \<Rightarrow> ''float[]''
     | WDoubles \<Rightarrow> ''double[]'' | WStrings \<Rightarrow> ''string[]'' | WObjects \<Rightarrow> ''object[]''
     | WDictionary \<Rightarrow> ''dictionary<byte,value>'' | WHashtable \<Rightarrow> ''hashtable<value,value>'' | WCustom \<Rightarrow> ''custom''
     | WOther \<Rightarrow> ''unknown'')"

section \<open>Parameters\<close>

text \<open>
  A specification: the type on the wire; for an enumeration its name and enumerators; the name
  and number of the key; whether it is optional; the default, if it has one; and the value a
  C++ object of the type starts with.
\<close>

record 'o param =
  pa_wire :: wire
  pa_enum :: "(string \<times> (int \<Rightarrow> bool)) option"
  pa_name :: string
  pa_key :: u8
  pa_optional :: bool
  pa_default :: "'o payload option"
  pa_blank :: "'o payload"

text \<open>What a field stores.\<close>

datatype 'o field = Required "'o payload" | Optional "'o payload option"

definition make_default :: "'o param \<Rightarrow> 'o field" where
  "make_default p =
    (if pa_optional p then Optional (pa_default p)
     else Required (case pa_default p of Some d \<Rightarrow> d | None \<Rightarrow> pa_blank p))"

definition put_field :: "'o param \<Rightarrow> 'o payload \<Rightarrow> 'o field" where
  "put_field p x = (if pa_optional p then Optional (Some x) else Required x)"

text \<open>An enumeration is an integer on the wire.\<close>

definition payload_int :: "'o payload \<Rightarrow> int" where
  "payload_int x = (case x of PayInt i \<Rightarrow> i | PayBool b \<Rightarrow> of_bool b | _ \<Rightarrow> 0)"

definition enum_valid :: "'o param \<Rightarrow> 'o payload \<Rightarrow> bool" where
  "enum_valid p x = (case pa_enum p of None \<Rightarrow> True | Some (n, contains) \<Rightarrow> contains (payload_int x))"

section \<open>Errors\<close>

text \<open>The refusal, an operation response without parameters; \<^theory_text>\<open>oi\<close> is the code for an invalid operation.\<close>

record decode_error =
  de_operation :: u8
  de_code :: int
  de_message :: string

definition make_decode_error :: "int \<Rightarrow> u8 \<Rightarrow> string \<Rightarrow> decode_error" where
  "make_decode_error oi op message = \<lparr> de_operation = op, de_code = signed_take_bit 15 oi, de_message = message \<rparr>"

definition expected_type_string :: "'o param \<Rightarrow> string" where
  "expected_type_string p =
    (case pa_enum p of
       None \<Rightarrow> value_type_name (pa_wire p)
     | Some (n, contains) \<Rightarrow> ''enum<'' @ n @ ''> (encoded as '' @ value_type_name (pa_wire p) @ '')'')"

definition param_display_name :: "'o param \<Rightarrow> string" where
  "param_display_name p = (if pa_name p \<noteq> [] then pa_name p else ''key='' @ nat_string (unat (pa_key p)))"

definition named_key :: "'o param \<Rightarrow> string" where
  "named_key p = CHR 0x27 # param_display_name p @ [CHR 0x27] @ '' (wire_key='' @ nat_string (unat (pa_key p)) @ '')''"

definition make_missing_error :: "int \<Rightarrow> u8 \<Rightarrow> 'o param \<Rightarrow> decode_error" where
  "make_missing_error oi op p =
     make_decode_error oi op (''Missing required parameter '' @ named_key p @ '', expected type '' @ expected_type_string p @ ''.'')"

definition make_required_null_error :: "int \<Rightarrow> u8 \<Rightarrow> 'o param \<Rightarrow> decode_error" where
  "make_required_null_error oi op p =
     make_decode_error oi op (''Invalid null for required parameter '' @ named_key p @ '', expected type '' @ expected_type_string p @ ''.'')"

definition make_type_mismatch_error :: "('v, 'o) variant_api \<Rightarrow> int \<Rightarrow> u8 \<Rightarrow> 'o param \<Rightarrow> 'v \<Rightarrow> decode_error" where
  "make_type_mismatch_error va oi op p v =
     make_decode_error oi op (''Type mismatch for parameter '' @ named_key p @ '': expected '' @ value_type_name (pa_wire p)
       @ '', got '' @ value_type_name (vr_type va v) @ ''.'')"

definition make_invalid_enum_value_error :: "int \<Rightarrow> u8 \<Rightarrow> 'o param \<Rightarrow> 'o payload \<Rightarrow> decode_error" where
  "make_invalid_enum_value_error oi op p x =
     make_decode_error oi op (''Invalid enum value for parameter '' @ named_key p @ '': value ''
       @ nat_string (nat (take_bit 64 (payload_int x))) @ '' is not valid in ''
       @ (case pa_enum p of None \<Rightarrow> [] | Some (n, contains) \<Rightarrow> n) @ ''.'')"

section \<open>Decoding\<close>

text \<open>One parameter of the message, for the field it belongs to: what the field becomes and the error noted.\<close>

definition decode_one ::
  "('v, 'o) variant_api \<Rightarrow> int \<Rightarrow> u8 \<Rightarrow> 'o param \<Rightarrow> 'v \<Rightarrow> 'o field \<Rightarrow> 'o field \<times> decode_error option" where
  "decode_one va oi op p v f =
    (if vr_is_null va v then
       (if pa_optional p then (Optional None, None)
        else if pa_default p = None then (f, Some (make_required_null_error oi op p))
        else (f, None))
     else case vr_get va (pa_wire p) v of
       None \<Rightarrow> (f, Some (make_type_mismatch_error va oi op p v))
     | Some x \<Rightarrow>
        (if \<not> enum_valid p x then (f, Some (make_invalid_enum_value_error oi op p x))
         else (put_field p x, None)))"

text \<open>The state of the pass: the field, whether it was seen, the error.\<close>

record 'o slot =
  sl_field :: "'o field"
  sl_seen :: bool
  sl_error :: "decode_error option"

definition fresh_slot :: "'o param \<Rightarrow> 'o slot" where
  "fresh_slot p = \<lparr> sl_field = make_default p, sl_seen = False, sl_error = None \<rparr>"

definition decode_into ::
  "('v, 'o) variant_api \<Rightarrow> int \<Rightarrow> u8 \<Rightarrow> 'o param \<Rightarrow> 'v \<Rightarrow> 'o slot \<Rightarrow> 'o slot" where
  "decode_into va oi op p v s =
    (case decode_one va oi op p v (sl_field s) of
       (f, e) \<Rightarrow> \<lparr> sl_field = f, sl_seen = True, sl_error = (case e of None \<Rightarrow> sl_error s | Some x \<Rightarrow> Some x) \<rparr>)"

text \<open>The table of handlers: a specification overwrites an earlier one of the same key.\<close>

definition handler_of :: "'o param list \<Rightarrow> u8 \<Rightarrow> nat option" where
  "handler_of ps k = (case filter (\<lambda>i. pa_key (ps ! i) = k) [0..<length ps] of [] \<Rightarrow> None | i # is \<Rightarrow> Some (last (i # is)))"

definition decode_param ::
  "('v, 'o) variant_api \<Rightarrow> int \<Rightarrow> u8 \<Rightarrow> 'o param list \<Rightarrow> u8 \<times> 'v \<Rightarrow> 'o slot list \<Rightarrow> 'o slot list" where
  "decode_param va oi op ps kv slots =
    (case handler_of ps (fst kv) of
       None \<Rightarrow> slots
     | Some i \<Rightarrow> slots[i := decode_into va oi op (ps ! i) (snd kv) (slots ! i)])"

definition check_one :: "int \<Rightarrow> u8 \<Rightarrow> 'o param \<Rightarrow> 'o slot \<Rightarrow> decode_error option" where
  "check_one oi op p s =
    (case sl_error s of
       Some e \<Rightarrow> Some e
     | None \<Rightarrow> if \<not> sl_seen s \<and> \<not> (pa_optional p \<or> pa_default p \<noteq> None) then Some (make_missing_error oi op p) else None)"

fun first_failure :: "int \<Rightarrow> u8 \<Rightarrow> 'o param list \<Rightarrow> 'o slot list \<Rightarrow> decode_error option" where
  "first_failure oi op (p # ps) (s # ss) = (case check_one oi op p s of Some e \<Rightarrow> Some e | None \<Rightarrow> first_failure oi op ps ss)"
| "first_failure oi op _ _ = None"

definition decode_params ::
  "('v, 'o) variant_api \<Rightarrow> int \<Rightarrow> u8 \<Rightarrow> 'o param list \<Rightarrow> (u8 \<times> 'v) list \<Rightarrow> decode_error + 'o field list" where
  "decode_params va oi op ps params =
    (let slots = fold (decode_param va oi op ps) params (map fresh_slot ps)
     in case first_failure oi op ps slots of
          Some e \<Rightarrow> Inl e
        | None \<Rightarrow> Inr (map sl_field slots))"

text \<open>Access by key, for keys that one specification of the model has.\<close>

definition key_match_count :: "u8 \<Rightarrow> 'o param list \<Rightarrow> nat" where
  "key_match_count k ps = sum_list (map (\<lambda>p. if pa_key p = k then 1 else 0) ps)"

definition get_key :: "u8 \<Rightarrow> 'o param list \<Rightarrow> 'o field list \<Rightarrow> 'o field option" where
  "get_key k ps fs = (if key_match_count k ps = 1 then map_of (zip (map pa_key ps) fs) k else None)"

section \<open>Encoding\<close>

definition encode_error :: "'o param \<Rightarrow> 'o payload \<Rightarrow> string" where
  "encode_error p x =
     ''Cannot encode parameter '' @ named_key p @ '': enum value '' @ nat_string (nat (take_bit 64 (payload_int x)))
     @ '' is not valid in '' @ (case pa_enum p of None \<Rightarrow> [] | Some (n, contains) \<Rightarrow> n) @ ''.''"

definition put_one ::
  "('v, 'o) variant_api \<Rightarrow> 'o param \<times> 'o field \<Rightarrow> string + (u8 \<times> 'v) list \<Rightarrow> string + (u8 \<times> 'v) list" where
  "put_one va pf r =
    (case r of
       Inl err \<Rightarrow> Inl err
     | Inr params \<Rightarrow>
        (case (case snd pf of Required x \<Rightarrow> Some x | Optional x \<Rightarrow> x) of
           None \<Rightarrow> Inr params
         | Some x \<Rightarrow>
            (if \<not> enum_valid (fst pf) x then Inl (encode_error (fst pf) x)
             else Inr (AList.update (pa_key (fst pf)) (vr_of va (pa_wire (fst pf)) x) params))))"

definition encode_params :: "('v, 'o) variant_api \<Rightarrow> 'o param list \<Rightarrow> 'o field list \<Rightarrow> string + (u8 \<times> 'v) list" where
  "encode_params va ps fs = fold (put_one va) (zip ps fs) (Inr [])"

section \<open>Composed models\<close>

definition extend_model :: "'o param list \<Rightarrow> 'o param list \<Rightarrow> 'o param list" where
  "extend_model old new = old @ new"

definition merge_models :: "'o param list \<Rightarrow> 'o param list \<Rightarrow> 'o param list" where
  "merge_models a b = a @ b"

fun merge_many :: "'o param list \<Rightarrow> 'o param list list \<Rightarrow> 'o param list" where
  "merge_many m [] = m"
| "merge_many m (n # ns) = merge_models m (merge_many n ns)"

end
