(* ===== verification/ParamProps.thy ===== *)
theory ParamProps
  imports ParamModel "HOL-Library.Multiset"
begin

text \<open>
  Decoding does what a specification read one parameter after the other says, whatever the
  order of the message; what was encoded is decoded to the same fields.
\<close>

section \<open>The table of handlers\<close>

lemma handler_of_Some: "handler_of ps k = Some i \<Longrightarrow> i < length ps \<and> pa_key (ps ! i) = k"
proof -
  assume h: "handler_of ps k = Some i"
  obtain a js where f: "filter (\<lambda>i. pa_key (ps ! i) = k) [0..<length ps] = a # js"
    using h by (auto simp: handler_of_def split: list.splits)
  then have "i = last (a # js)" using h by (simp add: handler_of_def)
  then have "i \<in> set (filter (\<lambda>i. pa_key (ps ! i) = k) [0..<length ps])" unfolding f using last_in_set[of "a # js"] by simp
  then show ?thesis by simp
qed

lemma handler_of_None: "handler_of ps k = None \<longleftrightarrow> k \<notin> pa_key ` set ps"
proof -
  have "handler_of ps k = None \<longleftrightarrow> filter (\<lambda>i. pa_key (ps ! i) = k) [0..<length ps] = []"
    by (simp add: handler_of_def split: list.split)
  also have "\<dots> \<longleftrightarrow> (\<forall>i<length ps. pa_key (ps ! i) \<noteq> k)" by (auto simp: filter_empty_conv)
  also have "\<dots> \<longleftrightarrow> k \<notin> pa_key ` set ps" by (auto simp: image_iff in_set_conv_nth) (metis nth_mem)
  finally show ?thesis .
qed

lemma handler_of_distinct:
  assumes "distinct (map pa_key ps)" "i < length ps"
  shows "handler_of ps (pa_key (ps ! i)) = Some i"
proof -
  have "handler_of ps (pa_key (ps ! i)) \<noteq> None" using assms(2) by (auto simp: handler_of_None)
  then obtain j where j: "handler_of ps (pa_key (ps ! i)) = Some j" by blast
  then have "j < length ps" "pa_key (ps ! j) = pa_key (ps ! i)" using handler_of_Some by blast+
  then have "j = i" using assms nth_eq_iff_index_eq[OF assms(1), of j i] by simp
  then show ?thesis using j by simp
qed

section \<open>The pass over the message\<close>

lemma decode_param_length [simp]: "length (decode_param va oi op ps kv ss) = length ss"
  by (simp add: decode_param_def split: option.split)

lemma fold_decode_length [simp]: "length (fold (decode_param va oi op ps) params ss) = length ss"
  by (induction params arbitrary: ss) simp_all

text \<open>A slot sees the parameter of its key, and no other.\<close>

lemma decode_param_nth:
  assumes "distinct (map pa_key ps)" "i < length ps" "length ss = length ps"
  shows "decode_param va oi op ps kv ss ! i
    = (if fst kv = pa_key (ps ! i) then decode_into va oi op (ps ! i) (snd kv) (ss ! i) else ss ! i)"
proof (cases "handler_of ps (fst kv)")
  case None
  then have "fst kv \<noteq> pa_key (ps ! i)" using assms(2) by (auto simp: handler_of_None)
  then show ?thesis using None by (simp add: decode_param_def)
next
  case (Some j)
  show ?thesis
  proof (cases "fst kv = pa_key (ps ! i)")
    case True
    then have "j = i" using Some handler_of_distinct[OF assms(1,2)] by simp
    then show ?thesis using Some True assms(2,3) by (simp add: decode_param_def)
  next
    case False
    then have "j \<noteq> i" using handler_of_Some[OF Some] by auto
    then show ?thesis using Some False by (simp add: decode_param_def)
  qed
qed

lemma fold_decode_nth:
  assumes "distinct (map pa_key ps)" "distinct (map fst params)" "i < length ps" "length ss = length ps"
  shows "fold (decode_param va oi op ps) params ss ! i
    = (case map_of params (pa_key (ps ! i)) of None \<Rightarrow> ss ! i | Some v \<Rightarrow> decode_into va oi op (ps ! i) v (ss ! i))"
  using assms(2,4)
proof (induction params arbitrary: ss)
  case (Cons kv params)
  let ?ss = "decode_param va oi op ps kv ss"
  have IH: "fold (decode_param va oi op ps) params ?ss ! i
      = (case map_of params (pa_key (ps ! i)) of None \<Rightarrow> ?ss ! i | Some v \<Rightarrow> decode_into va oi op (ps ! i) v (?ss ! i))"
    using Cons by simp
  show ?case
  proof (cases "fst kv = pa_key (ps ! i)")
    case True
    then have "map_of params (pa_key (ps ! i)) = None" using Cons.prems(1) by (auto simp: map_of_eq_None_iff)
    then show ?thesis using True IH decode_param_nth[OF assms(1,3) Cons.prems(2), of va oi op kv] by (cases kv) simp
  next
    case False
    have step: "?ss ! i = ss ! i" using False decode_param_nth[OF assms(1,3) Cons.prems(2), of va oi op kv] by simp
    show ?thesis using False IH[unfolded step] by (cases kv) (simp split: option.split)
  qed
qed simp

section \<open>The specification\<close>

text \<open>What one parameter asks of the message, and the whole model, one parameter after the other.\<close>

definition field_result :: "('v, 'o) variant_api \<Rightarrow> int \<Rightarrow> u8 \<Rightarrow> 'o param \<Rightarrow> 'v option \<Rightarrow> decode_error + 'o field" where
  "field_result va oi op p given =
    (case given of
       None \<Rightarrow> if pa_optional p \<or> pa_default p \<noteq> None then Inr (make_default p) else Inl (make_missing_error oi op p)
     | Some v \<Rightarrow> (case decode_one va oi op p v (make_default p) of (f, None) \<Rightarrow> Inr f | (f, Some e) \<Rightarrow> Inl e))"

fun decode_each :: "('v, 'o) variant_api \<Rightarrow> int \<Rightarrow> u8 \<Rightarrow> 'o param list \<Rightarrow> (u8 \<Rightarrow> 'v option) \<Rightarrow> decode_error + 'o field list" where
  "decode_each va oi op [] m = Inr []"
| "decode_each va oi op (p # ps) m =
    (case field_result va oi op p (m (pa_key p)) of
       Inl e \<Rightarrow> Inl e
     | Inr f \<Rightarrow> (case decode_each va oi op ps m of Inl e \<Rightarrow> Inl e | Inr fs \<Rightarrow> Inr (f # fs)))"

definition read_slot :: "('v, 'o) variant_api \<Rightarrow> int \<Rightarrow> u8 \<Rightarrow> (u8 \<Rightarrow> 'v option) \<Rightarrow> 'o param \<Rightarrow> 'o slot" where
  "read_slot va oi op m p =
    (case m (pa_key p) of None \<Rightarrow> fresh_slot p | Some v \<Rightarrow> decode_into va oi op p v (fresh_slot p))"

lemma check_read_slot:
  "field_result va oi op p (m (pa_key p))
     = (case check_one oi op p (read_slot va oi op m p) of Some e \<Rightarrow> Inl e | None \<Rightarrow> Inr (sl_field (read_slot va oi op m p)))"
  by (auto simp: field_result_def check_one_def read_slot_def decode_into_def fresh_slot_def split: option.splits prod.splits)

lemma decode_each_slots:
  "decode_each va oi op ps m
     = (case first_failure oi op ps (map (read_slot va oi op m) ps) of
          Some e \<Rightarrow> Inl e | None \<Rightarrow> Inr (map (sl_field \<circ> read_slot va oi op m) ps))"
proof (induction ps)
  case (Cons p ps)
  show ?case
    by (cases "check_one oi op p (read_slot va oi op m p)"; cases "first_failure oi op ps (map (read_slot va oi op m) ps)")
      (simp_all add: check_read_slot Cons)
qed simp

lemma decoded_slots:
  assumes "distinct (map pa_key ps)" "distinct (map fst params)"
  shows "fold (decode_param va oi op ps) params (map fresh_slot ps) = map (read_slot va oi op (map_of params)) ps"
proof (rule nth_equalityI)
  fix i assume "i < length (fold (decode_param va oi op ps) params (map fresh_slot ps))"
  then have i: "i < length ps" by simp
  show "fold (decode_param va oi op ps) params (map fresh_slot ps) ! i = map (read_slot va oi op (map_of params)) ps ! i"
    using fold_decode_nth[OF assms i, of "map fresh_slot ps"] i by (simp add: read_slot_def split: option.split)
qed simp

lemma decode_by_each:
  assumes "distinct (map pa_key ps)" "distinct (map fst params)"
  shows "decode_params va oi op ps params = decode_each va oi op ps (map_of params)"
  by (simp only: decode_params_def decoded_slots[OF assms] decode_each_slots Let_def map_map)

text \<open>
  C22: decoding reads the parameters as the specification does that goes through the model and
  looks each key up: the first parameter in the model's order that is missing, null or of
  the wrong type decides the error, parameters the model does not name are ignored, and the
  order of the message does not matter.
\<close>

theorem decode_spec:
  assumes "distinct (map pa_key ps)" "distinct (map fst params)"
  shows "decode_params va oi op ps params = decode_each va oi op ps (map_of params)
    \<and> (\<forall>params'. mset params' = mset params \<longrightarrow> decode_params va oi op ps params' = decode_params va oi op ps params)"
proof -
  have "decode_params va oi op ps params' = decode_params va oi op ps params" if m: "mset params' = mset params" for params'
  proof -
    have "mset (map fst params') = mset (map fst params)" using m by simp
    then have d: "distinct (map fst params')" using assms(2) mset_eq_imp_distinct_iff by blast
    have "set params' = set params" using m by (metis set_mset_mset)
    then have "map_of params' = map_of params" using d assms(2) by (simp add: map_of_inject_set)
    then show ?thesis by (simp add: decode_by_each[OF assms(1) d] decode_by_each[OF assms])
  qed
  then show ?thesis by (simp add: decode_by_each[OF assms])
qed

text \<open>Values that are what they hold, and a model of a text that must be there and a number that may.\<close>

definition sample_api :: "(nat payload option, nat) variant_api" where
  "sample_api = \<lparr> vr_fresh = None, vr_is_null = Option.is_none,
     vr_type = (\<lambda>v. case v of None \<Rightarrow> WNull | Some (PayText t) \<Rightarrow> WString | _ \<Rightarrow> WByte),
     vr_get = (\<lambda>w v. case v of Some (PayText t) \<Rightarrow> if w = WString then v else None | Some (PayInt i) \<Rightarrow> if w = WByte then v else None | _ \<Rightarrow> None),
     vr_of = (\<lambda>w. Some) \<rparr>"

definition sample_model :: "nat param list" where
  "sample_model =
     [\<lparr> pa_wire = WString, pa_enum = None, pa_name = ''GameId'', pa_key = 255, pa_optional = False, pa_default = None, pa_blank = PayText [] \<rparr>,
      \<lparr> pa_wire = WByte, pa_enum = Some (''Mode'', \<lambda>i. i < 4), pa_name = [], pa_key = 215, pa_optional = True, pa_default = None, pa_blank = PayInt 0 \<rparr>]"

lemma decode_spec_witness:
  "decode_params sample_api (-2) 226 sample_model [(215, Some (PayInt 7)), (255, Some (PayText ''r''))]
     = decode_params sample_api (-2) 226 sample_model [(255, Some (PayText ''r'')), (215, Some (PayInt 7))]"
proof -
  have "distinct (map pa_key sample_model)" by (simp add: sample_model_def)
  from decode_spec[OF this, of "[(255, Some (PayText ''r'')), (215, Some (PayInt 7))]" sample_api "-2" 226]
  show ?thesis by (simp add: add_mset_commute)
qed

section \<open>What was decoded\<close>

lemma decode_each_Inr:
  "decode_each va oi op ps m = Inr fs \<longleftrightarrow> list_all2 (\<lambda>p f. field_result va oi op p (m (pa_key p)) = Inr f) ps fs"
proof (induction ps arbitrary: fs)
  case (Cons p ps)
  show ?case
    by (cases fs) (auto simp flip: Cons split: sum.splits)
qed auto

text \<open>A field a model can hold: of the kind its specification says, with an enumerator where the type has those.\<close>

definition field_ok :: "'o param \<Rightarrow> 'o field \<Rightarrow> bool" where
  "field_ok p f = (case f of
       Required x \<Rightarrow> \<not> pa_optional p \<and> enum_valid p x
     | Optional x \<Rightarrow> pa_optional p \<and> (case x of None \<Rightarrow> True | Some y \<Rightarrow> enum_valid p y))"

text \<open>A specification whose own default is an enumerator.\<close>

definition param_ok :: "'o param \<Rightarrow> bool" where
  "param_ok p = (case pa_default p of None \<Rightarrow> True | Some d \<Rightarrow> enum_valid p d)"

lemma field_result_ok:
  assumes "param_ok p" "field_result va oi op p given = Inr f"
  shows "field_ok p f"
  using assms
  by (auto simp: field_result_def decode_one_def make_default_def put_field_def field_ok_def param_ok_def split: option.splits if_splits)

lemma decoded_ok:
  assumes "distinct (map pa_key ps)" "distinct (map fst params)" "\<And>p. p \<in> set ps \<Longrightarrow> param_ok p"
    and "decode_params va oi op ps params = Inr fs"
  shows "list_all2 field_ok ps fs"
proof -
  have "list_all2 (\<lambda>p f. field_result va oi op p (map_of params (pa_key p)) = Inr f) ps fs"
    using assms(4) by (simp add: decode_by_each[OF assms(1,2)] decode_each_Inr)
  then show ?thesis unfolding list_all2_conv_all_nth using field_result_ok[OF assms(3)] by (metis nth_mem)
qed

section \<open>Writing and reading\<close>

definition sent :: "'o field \<Rightarrow> 'o payload option" where
  "sent f = (case f of Required x \<Rightarrow> Some x | Optional x \<Rightarrow> x)"

text \<open>What the protocol library does with a value: it is not null, and read back as it was.\<close>

definition carries :: "('v, 'o) variant_api \<Rightarrow> 'o param \<Rightarrow> 'o payload \<Rightarrow> bool" where
  "carries va p x \<longleftrightarrow> \<not> vr_is_null va (vr_of va (pa_wire p) x) \<and> vr_get va (pa_wire p) (vr_of va (pa_wire p) x) = Some x"

definition put_sent :: "('v, 'o) variant_api \<Rightarrow> 'o param \<times> 'o field \<Rightarrow> (u8 \<times> 'v) list \<Rightarrow> (u8 \<times> 'v) list" where
  "put_sent va pf params = (case sent (snd pf) of None \<Rightarrow> params | Some x \<Rightarrow> AList.update (pa_key (fst pf)) (vr_of va (pa_wire (fst pf)) x) params)"

lemma put_one_Inr:
  "field_ok p f \<Longrightarrow> put_one va (p, f) (Inr params) = Inr (put_sent va (p, f) params)"
  by (auto simp: put_one_def put_sent_def sent_def field_ok_def split: field.splits option.splits)

lemma encode_Inr:
  assumes "list_all2 field_ok ps fs"
  shows "encode_params va ps fs = Inr (fold (put_sent va) (zip ps fs) [])"
proof -
  have "fold (put_one va) (zip ps fs) (Inr acc) = Inr (fold (put_sent va) (zip ps fs) acc)" for acc
    using assms by (induction ps fs arbitrary: acc rule: list_all2_induct) (simp_all add: put_one_Inr)
  then show ?thesis by (simp add: encode_params_def)
qed

lemma put_sent_distinct: "distinct (map fst params) \<Longrightarrow> distinct (map fst (fold (put_sent va) pfs params))"
  by (induction pfs arbitrary: params) (simp_all add: put_sent_def distinct_update split: option.split)

lemma map_of_put_sent:
  "map_of (put_sent va (p, f) params) k
     = (if k = pa_key p \<and> sent f \<noteq> None then map_option (vr_of va (pa_wire p)) (sent f) else map_of params k)"
  by (simp add: put_sent_def update_conv' split: option.split)

lemma map_of_put_other:
  assumes "k \<notin> pa_key ` fst ` set pfs"
  shows "map_of (fold (put_sent va) pfs params) k = map_of params k"
  using assms
proof (induction pfs arbitrary: params)
  case (Cons pf pfs)
  then show ?case by (cases pf) (simp add: map_of_put_sent)
qed simp

lemma map_of_written:
  assumes "list_all2 R ps fs" "distinct (map pa_key ps)" "i < length ps" "\<And>p. p \<in> set ps \<Longrightarrow> map_of params (pa_key p) = None"
  shows "map_of (fold (put_sent va) (zip ps fs) params) (pa_key (ps ! i)) = map_option (vr_of va (pa_wire (ps ! i))) (sent (fs ! i))"
  using assms
proof (induction ps fs arbitrary: i params rule: list_all2_induct)
  case (Cons p ps f fs)
  show ?case
  proof (cases i)
    case 0
    have "pa_key p \<notin> pa_key ` fst ` set (zip ps fs)" using Cons.prems(1) by (auto dest: set_zip_leftD)
    then show ?thesis using 0 Cons.prems(3) by (auto simp: map_of_put_other map_of_put_sent)
  next
    case (Suc j)
    have "map_of (put_sent va (p, f) params) (pa_key q) = None" if "q \<in> set ps" for q
    proof -
      have "pa_key q \<noteq> pa_key p" using Cons.prems(1) that by (metis distinct.simps(2) image_eqI image_set list.simps(9))
      then show ?thesis using Cons.prems(3) that by (simp add: map_of_put_sent)
    qed
    then show ?thesis using Suc Cons.IH[of j "put_sent va (p, f) params"] Cons.prems(1,2) by simp
  qed
qed simp

text \<open>
  C23: what was encoded is decoded to the same fields, whatever is sent along under other
  keys, if no two parameters share a key, the fields are of their types, the protocol library
  reads back what it was given and a parameter that has a default is set.
\<close>

theorem model_round_trip:
  assumes keys: "distinct (map pa_key ps)" and ok: "list_all2 field_ok ps fs"
    and carried: "\<And>p f x. (p, f) \<in> set (zip ps fs) \<Longrightarrow> sent f = Some x \<Longrightarrow> carries va p x"
    and unset: "\<And>p f. (p, f) \<in> set (zip ps fs) \<Longrightarrow> sent f = None \<Longrightarrow> pa_default p = None"
  shows "\<exists>params. encode_params va ps fs = Inr params \<and> distinct (map fst params)
    \<and> (\<forall>extra. distinct (map fst (params @ extra)) \<and> (\<forall>p\<in>set ps. pa_key p \<notin> fst ` set extra)
         \<longrightarrow> decode_params va oi op ps (params @ extra) = Inr fs)"
proof -
  let ?params = "fold (put_sent va) (zip ps fs) []"
  have "decode_params va oi op ps (?params @ extra) = Inr fs"
    if extra: "distinct (map fst (?params @ extra))" "\<forall>p\<in>set ps. pa_key p \<notin> fst ` set extra" for extra
  proof -
    have "field_result va oi op (ps ! i) (map_of (?params @ extra) (pa_key (ps ! i))) = Inr (fs ! i)" if i: "i < length ps" for i
    proof -
      let ?p = "ps ! i" and ?f = "fs ! i"
      have z: "(?p, ?f) \<in> set (zip ps fs)" using i list_all2_lengthD[OF ok] by (auto simp: set_zip)
      have "map_of extra (pa_key ?p) = None" using extra(2) i by (simp add: map_of_eq_None_iff)
      then have m: "map_of (?params @ extra) (pa_key ?p) = map_option (vr_of va (pa_wire ?p)) (sent ?f)"
        using map_of_written[OF ok keys i, of "[]" va] by (simp add: map_add_def split: option.split)
      have f: "field_ok ?p ?f" using ok i by (simp add: list_all2_conv_all_nth)
      show ?thesis
      proof (cases "sent ?f")
        case None
        have "pa_default ?p = None" by (rule unset[OF z None])
        then show ?thesis unfolding m using None f
          by (auto simp: field_result_def make_default_def sent_def field_ok_def split: field.splits)
      next
        case (Some x)
        then show ?thesis unfolding m using carried[OF z Some] f
          by (auto simp: field_result_def decode_one_def carries_def put_field_def sent_def field_ok_def split: field.splits)
      qed
    qed
    then have "list_all2 (\<lambda>p f. field_result va oi op p (map_of (?params @ extra) (pa_key p)) = Inr f) ps fs"
      using list_all2_lengthD[OF ok] by (simp add: list_all2_conv_all_nth)
    then show ?thesis by (simp add: decode_by_each[OF keys extra(1)] decode_each_Inr)
  qed
  moreover have "distinct (map fst ?params)" by (rule put_sent_distinct) simp
  ultimately show ?thesis using encode_Inr[OF ok, of va] by blast
qed

lemma model_round_trip_witness:
  "\<exists>params. encode_params sample_api sample_model [Required (PayText ''r''), Optional (Some (PayInt 3))] = Inr params
     \<and> decode_params sample_api (-2) 226 sample_model params = Inr [Required (PayText ''r''), Optional (Some (PayInt 3))]"
proof -
  let ?fs = "[Required (PayText ''r''), Optional (Some (PayInt 3))] :: nat field list"
  have 1: "distinct (map pa_key sample_model)" by (simp add: sample_model_def)
  have 2: "list_all2 field_ok sample_model ?fs" by (simp add: sample_model_def field_ok_def enum_valid_def payload_int_def)
  have 3: "carries sample_api p x" if "(p, f) \<in> set (zip sample_model ?fs)" "sent f = Some x" for p f x
    using that by (auto simp: sample_model_def sent_def carries_def sample_api_def)
  have 4: "pa_default p = None" if "(p, f) \<in> set (zip sample_model ?fs)" "sent f = None" for p f
    using that by (auto simp: sample_model_def)
  have "\<exists>params. encode_params sample_api sample_model ?fs = Inr params \<and> distinct (map fst params)
      \<and> (\<forall>extra. distinct (map fst (params @ extra)) \<and> (\<forall>p\<in>set sample_model. pa_key p \<notin> fst ` set extra)
        \<longrightarrow> decode_params sample_api (-2) 226 sample_model (params @ extra) = Inr ?fs)"
    by (rule model_round_trip[OF 1 2]) (erule (1) 3, erule (1) 4)
  then obtain params where p: "encode_params sample_api sample_model ?fs = Inr params" "distinct (map fst params)"
      "\<forall>extra. distinct (map fst (params @ extra)) \<and> (\<forall>p\<in>set sample_model. pa_key p \<notin> fst ` set extra)
        \<longrightarrow> decode_params sample_api (-2) 226 sample_model (params @ extra) = Inr ?fs" by blast
  from p(2) p(3)[rule_format, of "[]"] have "decode_params sample_api (-2) 226 sample_model params = Inr ?fs" by simp
  with p(1) show ?thesis by blast
qed

text \<open>A parameter that is optional and has a default cannot be sent as unset.\<close>

lemma default_replaces_unset:
  assumes "pa_optional p" "pa_default p = Some d"
  shows "encode_params va [p] [Optional None] = Inr [] \<and> decode_params va oi op [p] [] = Inr [Optional (Some d)]"
  using assms by (simp add: encode_params_def put_one_def decode_params_def fresh_slot_def check_one_def make_default_def)

end
