(* ===== verification/Admission.thy ===== *)
theory Admission
  imports Replica ServerConfig ParamModel
begin

text \<open>
  What every handler does with a command, and the first requests of a peer
  (src/src/handler_base.cpp, src/src/handler_nameserver.cpp, the first part of
  src/src/handler_gameserver.cpp, and the lookups of src/src/server_manager.cpp): the name
  server authenticates a peer and sends it to a master server; the game server authenticates
  it by the token it was routed with, waiting for the token if it is not here yet, and gives
  it the room of its invitation.
\<close>

section \<open>Commands\<close>

text \<open>
  What a payload is parsed as: a message, an HTTP request, or nothing. The codes of the
  requests are the protocol library's.
\<close>

record init_message =
  im_protocol_major :: int
  im_protocol_minor :: int
  im_app_id :: string
  im_version :: "int list"

record http_request =
  hr_path :: string
  hr_method :: string
  hr_query :: "(string \<times> string) list"
  hr_body :: string

datatype 'm command = Init init_message | Operation u8 'm | Internal u8 'm | OtherMessage nat | Http http_request | Garbage

record door_codes =
  dc_op_Authenticate :: u8
  dc_op_AuthenticateOnce :: u8
  dc_op_GetRegions :: u8
  dc_op_CreateGame :: u8
  dc_op_JoinGame :: u8
  dc_iop_InitEncryption :: u8
  dc_iop_Ping :: u8
  dc_iop_TransportProtocol :: u8
  dc_err_NotAllowed :: int
  dc_err_OperationInvalid :: int
  dc_err_TokenExpired :: int
  dc_err_ServerForbidden :: int
  dc_err_GameIdNotExists :: int

text \<open>The steps a command leads to, in order: the virtual functions called, with the channel the command came on.\<close>

datatype 'm step = DoInit init_message | DoOperation u8 'm bool | DoInternal u8 'm

definition fast_stoi :: "string \<Rightarrow> int option" where
  "fast_stoi s = (case from_chars s of Some (v, []) \<Rightarrow> if - (2 ^ 31) \<le> v \<and> v < 2 ^ 31 then Some v else None | _ \<Rightarrow> None)"

text \<open>
  Where the query does not give them, the version numbers are those of a fresh
  init message. \<^theory_text>\<open>blank\<close> is that message and \<^theory_text>\<open>split_at\<close> the splitting of a string, both of the
  protocol library. A \<^theory_text>\<open>char\<close> is signed.
\<close>

definition digit_value :: "char \<Rightarrow> int" where
  "digit_value c = sint (of_char c :: 8 word) - 48"

definition set_version :: "(string \<Rightarrow> char \<Rightarrow> string list) \<Rightarrow> (string \<times> string) list \<Rightarrow> init_message \<Rightarrow> init_message" where
  "set_version split_at query im =
    (case map_of query ''clientversion'' of
       None \<Rightarrow> im
     | Some v \<Rightarrow> (let ns = split_at v (CHR ''.'') in
         if length ns = 4 then im\<lparr> im_version := map (\<lambda>n. case fast_stoi n of None \<Rightarrow> 0 | Some i \<Rightarrow> i) ns \<rparr> else im))"

definition set_protocol :: "(string \<times> string) list \<Rightarrow> init_message \<Rightarrow> init_message" where
  "set_protocol query im =
    (case map_of query ''protocol'' of
       None \<Rightarrow> im
     | Some p \<Rightarrow>
        (if take 9 p = ''GpBinaryV'' then
           (case drop 9 p of
              [a, b] \<Rightarrow> im\<lparr> im_protocol_major := digit_value a, im_protocol_minor := digit_value b \<rparr>
            | _ \<Rightarrow> im)
         else im))"

text \<open>
  An HTTP request that opens a connection stands for an init request and, when it has a body
  longer than four characters, for an authentication by the token behind the first two.
  \<^theory_text>\<open>token_request\<close> makes the parameters.
\<close>

definition handle_http ::
  "door_codes \<Rightarrow> (string \<Rightarrow> 'm) \<Rightarrow> init_message \<Rightarrow> (string \<Rightarrow> char \<Rightarrow> string list) \<Rightarrow> http_request \<Rightarrow> 'm step list" where
  "handle_http dc token_request blank split_at r =
    (if hr_path r = ''/'' \<and> hr_method r = ''POST'' \<and> map_of (hr_query r) ''init'' \<noteq> None
     then (let im = (case map_of (hr_query r) ''app'' of None \<Rightarrow> blank | Some a \<Rightarrow> blank\<lparr> im_app_id := a \<rparr>)
           in DoInit (set_protocol (hr_query r) (set_version split_at (hr_query r) im))
              # (if length (hr_body r) > 4 then [DoOperation (dc_op_AuthenticateOnce dc) (token_request (drop 2 (hr_body r))) False] else []))
     else [])"

definition handle_command ::
  "door_codes \<Rightarrow> (string \<Rightarrow> 'm) \<Rightarrow> init_message \<Rightarrow> (string \<Rightarrow> char \<Rightarrow> string list) \<Rightarrow> bool \<Rightarrow> 'm command \<Rightarrow> 'm step list" where
  "handle_command dc token_request blank split_at encrypted c =
    (case c of
       Init im \<Rightarrow> [DoInit im]
     | Operation opc m \<Rightarrow> [DoOperation opc m encrypted]
     | Internal opc m \<Rightarrow> [DoInternal opc m]
     | OtherMessage i \<Rightarrow> []
     | Http r \<Rightarrow> handle_http dc token_request blank split_at r
     | Garbage \<Rightarrow> [])"

section \<open>Requests to authenticate\<close>

text \<open>
  The keys of the parameters, with their names, and the code of the protocol library for an
  invalid operation. \<^theory_text>\<open>text_param\<close> is a parameter that holds a string.
\<close>

record ('v, 'o) auth_wire =
  aw_api :: "('v, 'o) variant_api"
  aw_invalid :: int
  aw_token :: "u8 \<times> string"
  aw_app_id :: "u8 \<times> string"
  aw_auth_type :: "u8 \<times> string"
  aw_auth_params :: "u8 \<times> string"
  aw_version :: "u8 \<times> string"
  aw_user_id :: "u8 \<times> string"

definition text_param :: "u8 \<times> string \<Rightarrow> bool \<Rightarrow> 'o payload option \<Rightarrow> 'o param" where
  "text_param k opt def = \<lparr> pa_wire = WString, pa_enum = None, pa_name = snd k, pa_key = fst k, pa_optional = opt,
     pa_default = def, pa_blank = PayText [] \<rparr>"

definition token_auth_model :: "('v, 'o) auth_wire \<Rightarrow> 'o param list" where
  "token_auth_model aw = [text_param (aw_token aw) False None]"

definition standard_auth_model :: "('v, 'o) auth_wire \<Rightarrow> 'o param list" where
  "standard_auth_model aw =
     [text_param (aw_app_id aw) False None,
      \<lparr> pa_wire = WByte, pa_enum = None, pa_name = snd (aw_auth_type aw), pa_key = fst (aw_auth_type aw), pa_optional = False,
        pa_default = Some (PayInt 0), pa_blank = PayInt 0 \<rparr>,
      text_param (aw_auth_params aw) False (Some (PayText [])),
      text_param (aw_version aw) True None,
      text_param (aw_user_id aw) True None]"

definition field_text :: "'o field \<Rightarrow> string option" where
  "field_text f = (case f of Required (PayText t) \<Rightarrow> Some t | Optional (Some (PayText t)) \<Rightarrow> Some t | _ \<Rightarrow> None)"

definition field_byte :: "'o field \<Rightarrow> u8" where
  "field_byte f = (case f of Required x \<Rightarrow> word_of_int (payload_int x) | Optional x \<Rightarrow> 0)"

text \<open>
  How a request authenticates is decided by the presence of a token. A refusal to decode is
  the answer.
\<close>

definition decode_auth :: "('v, 'o) auth_wire \<Rightarrow> u8 \<Rightarrow> (u8 \<times> 'v) list \<Rightarrow> decode_error + auth_request" where
  "decode_auth aw op params =
    (if map_of params (fst (aw_token aw)) \<noteq> None then
       (case decode_params (aw_api aw) (aw_invalid aw) op (token_auth_model aw) params of
          Inl e \<Rightarrow> Inl e
        | Inr fs \<Rightarrow> Inr (TokenAuth (case field_text (fs ! 0) of Some t \<Rightarrow> t | None \<Rightarrow> [])))
     else
       (case decode_params (aw_api aw) (aw_invalid aw) op (standard_auth_model aw) params of
          Inl e \<Rightarrow> Inl e
        | Inr fs \<Rightarrow> Inr (StandardAuth (case field_text (fs ! 0) of Some t \<Rightarrow> t | None \<Rightarrow> []) (field_byte (fs ! 1))
            (case field_text (fs ! 2) of Some t \<Rightarrow> t | None \<Rightarrow> []) (field_text (fs ! 3)) (field_text (fs ! 4)))))"

definition authenticate_request ::
  "auth_env \<Rightarrow> ('v, 'o) auth_wire \<Rightarrow> bool \<Rightarrow> u8 \<Rightarrow> (u8 \<times> 'v) list \<Rightarrow> 'v process \<Rightarrow> int \<times> stored_peer option \<times> peer_message list \<times> 'v process" where
  "authenticate_request e aw refresh_token op params pr =
    (if ae_max_connections e \<noteq> 0 \<and> ae_max_connections e \<le> ae_connections e
     then (ac_MaxCcuReached (ae_codes e), None, [], pr)
     else case decode_auth aw op params of
       Inl er \<Rightarrow> (de_code er, None, [], pr)
     | Inr q \<Rightarrow> authenticate e refresh_token q pr)"

section \<open>The base handler\<close>

text \<open>What goes out: replies with code, and what the peer and the other processes see.\<close>

datatype 'p reply =
  Reply u8 int
| ReplyInit
| ReplyEncryption
| ReplyPong 'p int
| ReplyAddress u8 string string
| ReplyRegions "string list" "string list"
| Forward peer_message
| Notify list_update
| DropPeer

definition handle_init :: "(int \<Rightarrow> int \<Rightarrow> bool) \<Rightarrow> init_message \<Rightarrow> 'p reply list" where
  "handle_init known im = (if known (im_protocol_major im) (im_protocol_minor im) then [ReplyInit] else [DropPeer])"

definition base_operation :: "door_codes \<Rightarrow> bool \<Rightarrow> u8 \<Rightarrow> u8 \<Rightarrow> 'p reply list" where
  "base_operation dc authenticated channel opc =
    (if channel \<noteq> 0 then []
     else if opc = dc_op_Authenticate dc \<and> authenticated then [Reply opc (dc_err_NotAllowed dc)]
     else [Reply opc (dc_err_OperationInvalid dc)])"

text \<open>
  An internal request: \<^theory_text>\<open>agreed\<close> says whether the key exchange succeeds, \<^theory_text>\<open>stamp\<close> is the
  client's time, \<^theory_text>\<open>told\<close> the transport protocol it names, if it does. The result has the
  peer's transport protocol afterwards.
\<close>

definition base_internal ::
  "door_codes \<Rightarrow> bool \<Rightarrow> 'p \<Rightarrow> int \<Rightarrow> int option \<Rightarrow> u8 \<Rightarrow> u8 \<Rightarrow> int \<Rightarrow> 'p reply list \<times> int" where
  "base_internal dc agreed stamp server_time told channel opc protocol =
    (if channel \<noteq> 0 then ([], protocol)
     else if opc = dc_iop_InitEncryption dc then (if agreed then [ReplyEncryption] else [], protocol)
     else if opc = dc_iop_Ping dc then ([ReplyPong stamp server_time], protocol)
     else if opc = dc_iop_TransportProtocol dc then ([], case told of None \<Rightarrow> protocol | Some t \<Rightarrow> t)
     else ([Reply opc (dc_err_OperationInvalid dc)], protocol))"

section \<open>The name server\<close>

definition region_names :: "string list" where
  "region_names = [''asia'', ''au'', ''cae'', ''cn'', ''eu'', ''hk'', ''in'', ''jp'', ''za'', ''sa'', ''kr'', ''tr'', ''uae'', ''us'', ''usw'', ''ussc'']"

text \<open>
  The addresses of master servers are drawn one after the other; without any the function
  throws, and the exception makes the caller drop the peer.
\<close>

fun draw_addresses :: "protocol_codes \<Rightarrow> (nat \<Rightarrow> nat \<Rightarrow> nat) \<Rightarrow> manager \<Rightarrow> int \<Rightarrow> nat \<Rightarrow> string list option" where
  "draw_addresses pc draw m proto 0 = Some []"
| "draw_addresses pc draw m proto (Suc n) =
    (case get_random_server_address pc (draw n) m TypeMasterServer proto of
       None \<Rightarrow> None
     | Some a \<Rightarrow> (case draw_addresses pc draw m proto n of None \<Rightarrow> None | Some as \<Rightarrow> Some (a # as)))"

text \<open>A request of a peer that is not authenticated: an authentication, or any other operation.\<close>

datatype 'v entry_request = Authenticate u8 "(u8 \<times> 'v) list" | OtherRequest u8

definition name_server ::
  "door_codes \<Rightarrow> protocol_codes \<Rightarrow> (nat \<Rightarrow> nat \<Rightarrow> nat) \<Rightarrow> manager \<Rightarrow> int \<Rightarrow> auth_env \<Rightarrow> ('v, 'o) auth_wire \<Rightarrow> u8 \<Rightarrow> 'v entry_request
    \<Rightarrow> stored_peer option \<Rightarrow> 'v process \<Rightarrow> 'p reply list \<times> stored_peer option \<times> 'v process" where
  "name_server dc pc draw m proto e aw channel req persistent pr =
    (let opc = (case req of Authenticate opc params \<Rightarrow> opc | OtherRequest opc \<Rightarrow> opc);
         base = (base_operation dc (persistent \<noteq> None) channel opc, persistent, pr)
     in if channel \<noteq> 0 \<or> persistent \<noteq> None then base
        else case req of
          Authenticate opc params \<Rightarrow>
            (case authenticate_request e aw True opc params pr of
               (code, pp, ms, pr1) \<Rightarrow>
                 (case pp of
                    None \<Rightarrow> (map Forward ms @ [Reply opc code, DropPeer], None, pr1)
                  | Some p \<Rightarrow>
                     (if code = ac_Ok (ae_codes e)
                      then (case get_random_server_address pc (draw 0) m TypeMasterServer proto of
                              None \<Rightarrow> (map Forward ms @ [DropPeer], Some p, pr1)
                            | Some a \<Rightarrow> (map Forward ms @ [ReplyAddress opc (sp_user_id p) a], Some p, pr1))
                      else (map Forward ms @ [Reply opc code], Some p, pr1))))
        | OtherRequest opc \<Rightarrow>
            (if opc = dc_op_GetRegions dc
             then (case draw_addresses pc draw m proto (length region_names) of
                     None \<Rightarrow> ([DropPeer], None, pr)
                   | Some as \<Rightarrow> ([ReplyRegions region_names as], None, pr))
             else base))"

section \<open>The room of an invitation\<close>

text \<open>
  \<^theory_text>\<open>get_game\<close> of the server: the room of the application and lobby named, which are created
  when the process does not have them, as is the room. An application that does not load is
  a null pointer that the code follows, and so is a room that is gone: \<^theory_text>\<open>None\<close>. What was
  created on the way to a refusal has no holder and is destroyed again.
\<close>

definition server_get_game ::
  "(string \<Rightarrow> app_settings option) option \<Rightarrow> u8 \<Rightarrow> game_info \<Rightarrow> 'v world
    \<Rightarrow> ((create_error + game_ref) \<times> list_update list \<times> 'v world) option" where
  "server_get_game db gmax info w =
    (case app_get db gmax (gn_app info) (gn_version info) w of
       (None, w1) \<Rightarrow> None
     | (Some a, w1) \<Rightarrow>
        (case get_lobby a (gn_lobby info, gn_lobby_type info) w1 of
           (None, w2) \<Rightarrow> None
         | (Some l, w2) \<Rightarrow>
            (case create_game l (gn_id info) (gn_server_address info) True w2 of
               None \<Rightarrow> None
             | Some (res, us, w3) \<Rightarrow>
                (case res of
                   Inl er \<Rightarrow> Some (Inl er, us, release_app a w (release_lobby l w w3))
                 | Inr None \<Rightarrow> None
                 | Inr (Some r) \<Rightarrow> Some (Inr r, us, w3)))))"

section \<open>The door of the game server\<close>

text \<open>
  The handler before a room is assigned to the peer: its stored peer, the room, and the
  authentication that waits for its token, with its operation, parameters and the time it began.
\<close>

record 'v door =
  dr_persistent :: "stored_peer option"
  dr_current :: "game_ref option"
  dr_pending :: "(u8 \<times> (u8 \<times> 'v) list \<times> nat) option"
  dr_allow_unsolicited :: bool

definition assign_room ::
  "door_codes \<Rightarrow> (string \<Rightarrow> app_settings option) option \<Rightarrow> u8 \<Rightarrow> game_ref list \<Rightarrow> u8 \<Rightarrow> stored_peer \<Rightarrow> 'v door \<Rightarrow> 'v process
    \<Rightarrow> ('p reply list \<times> 'v door \<times> 'v process) option" where
  "assign_room dc db gmax ext opc pp d pr =
    (case server_get_game db gmax (sp_invitation pp) (pc_world pr) of
       None \<Rightarrow> None
     | Some (res, us, w) \<Rightarrow>
        (case res of
           Inl er \<Rightarrow> Some (map Notify us @ [Reply opc (dc_err_ServerForbidden dc), DropPeer],
              d\<lparr> dr_persistent := Some (reset_game pp) \<rparr>, pr\<lparr> pc_world := w \<rparr>)
         | Inr r \<Rightarrow>
            (let pp1 = reset_owned_game_if_created (room_ready w) pp
             in if is_game_external ext r
                then Some (map Notify us @ [Reply opc (dc_err_ServerForbidden dc), DropPeer], d\<lparr> dr_persistent := Some pp1 \<rparr>, pr\<lparr> pc_world := w \<rparr>)
                else Some (map Notify us, d\<lparr> dr_persistent := Some pp1, dr_current := Some r \<rparr>, pr\<lparr> pc_world := w \<rparr>))))"

text \<open>
  The handler reads the token with the index operator of the parameter list, which adds the key
  with a fresh value when it is not there (\<^theory_text>\<open>touch\<close>); the request goes on with that.
\<close>

definition touch :: "('v, 'o) auth_wire \<Rightarrow> (u8 \<times> 'v) list \<Rightarrow> (u8 \<times> 'v) list" where
  "touch aw params = (if map_of params (fst (aw_token aw)) = None then params @ [(fst (aw_token aw), vr_fresh (aw_api aw))] else params)"

definition token_of :: "('v, 'o) auth_wire \<Rightarrow> (u8 \<times> 'v) list \<Rightarrow> string option" where
  "token_of aw params =
    (case map_of params (fst (aw_token aw)) of
       None \<Rightarrow> None
     | Some v \<Rightarrow> (case vr_get (aw_api aw) WString v of Some (PayText t) \<Rightarrow> Some t | _ \<Rightarrow> None))"

definition door_authenticate ::
  "door_codes \<Rightarrow> auth_env \<Rightarrow> ('v, 'o) auth_wire \<Rightarrow> game_ref list \<Rightarrow> nat \<Rightarrow> u8 \<Rightarrow> (u8 \<times> 'v) list \<Rightarrow> 'v door \<Rightarrow> 'v process
    \<Rightarrow> ('p reply list \<times> 'v door \<times> 'v process) option" where
  "door_authenticate dc e aw ext now opc params0 d pr =
    (let params = touch aw params0;
         waits = (case token_of aw params of Some token \<Rightarrow> \<not> has_persistent_peer token (pc_store pr) | None \<Rightarrow> False)
     in if waits then
          (if dr_pending d \<noteq> None then Some ([Reply opc (dc_err_NotAllowed dc)], d, pr)
           else Some ([], d\<lparr> dr_pending := Some (opc, params, now) \<rparr>, pr))
        else case authenticate_request e aw False opc params pr of
          (code, pp, ms, pr1) \<Rightarrow>
            (case pp of
               None \<Rightarrow> Some (map Forward ms @ [Reply opc code, DropPeer], d, pr1)
             | Some p \<Rightarrow>
                (case assign_room dc (ae_db e) (ae_max_game_peers e) ext opc p (d\<lparr> dr_persistent := Some p \<rparr>) pr1 of
                   None \<Rightarrow> None
                 | Some (rs, d1, pr2) \<Rightarrow> Some (map Forward ms @ [Reply opc code] @ rs, d1, pr2))))"

text \<open>A request to authenticate, of a peer that may have been let in already.\<close>

definition door_request ::
  "door_codes \<Rightarrow> auth_env \<Rightarrow> ('v, 'o) auth_wire \<Rightarrow> game_ref list \<Rightarrow> nat \<Rightarrow> u8 \<Rightarrow> u8 \<Rightarrow> (u8 \<times> 'v) list \<Rightarrow> 'v door \<Rightarrow> 'v process
    \<Rightarrow> ('p reply list \<times> 'v door \<times> 'v process) option" where
  "door_request dc e aw ext now channel opc params d pr =
    (if dr_persistent d \<noteq> None \<or> channel \<noteq> 0 then Some (base_operation dc (dr_persistent d \<noteq> None) channel opc, d, pr)
     else door_authenticate dc e aw ext now opc params d pr)"

text \<open>The slow update: the token has come, or the time is up. Requests that wait came on the first channel.\<close>

definition door_slow_update ::
  "door_codes \<Rightarrow> auth_env \<Rightarrow> ('v, 'o) auth_wire \<Rightarrow> game_ref list \<Rightarrow> nat \<Rightarrow> 'v door \<Rightarrow> 'v process
    \<Rightarrow> ('p reply list \<times> 'v door \<times> 'v process) option" where
  "door_slow_update dc e aw ext now d pr =
    (case dr_pending d of
       None \<Rightarrow> Some ([], d, pr)
     | Some (opc, params0, since) \<Rightarrow>
        (let params = touch aw params0;
             known = (case token_of aw params of Some token \<Rightarrow> has_persistent_peer token (pc_store pr) | None \<Rightarrow> False)
         in if known then door_request dc e aw ext now 0 opc params (d\<lparr> dr_pending := None \<rparr>) pr
            else if now - since \<ge> 2000 then Some ([Reply opc (dc_err_TokenExpired dc), DropPeer], d\<lparr> dr_pending := None \<rparr>, pr)
            else Some ([], d\<lparr> dr_pending := Some (opc, params, since) \<rparr>, pr)))"

text \<open>
  A peer that is authenticated and has no room may ask for one where the server allows it. The
  room is put into its invitation only; the request is then handled again, now without the
  permission, and falls through to the base handler. \<^theory_text>\<open>code_of\<close> are the codes of the lobby's
  refusals; \<^theory_text>\<open>None\<close> again stands for a pointer to nothing that is followed.
\<close>

definition find_unsolicited ::
  "door_codes \<Rightarrow> (create_error \<Rightarrow> int) \<Rightarrow> u8 \<Rightarrow> app_ref \<Rightarrow> string \<Rightarrow> bool \<Rightarrow> 'v world
    \<Rightarrow> ((int + game_ref) \<times> list_update list \<times> 'v world) option" where
  "find_unsolicited dc code_of opc a game_id create_if_missing w =
    (case w_app w a of
       None \<Rightarrow> None
     | Some ap \<Rightarrow>
        (case map_of (ap_games ap) game_id of
           Some r \<Rightarrow> Some (Inr r, [], w)
         | None \<Rightarrow>
            (if opc = dc_op_CreateGame dc \<or> create_if_missing then
               (case get_lobby a ([], 0) w of
                  (None, w1) \<Rightarrow> None
                | (Some l, w1) \<Rightarrow>
                   (case create_game l game_id [] True w1 of
                      None \<Rightarrow> None
                    | Some (res, us, w2) \<Rightarrow>
                       (case res of
                          Inl er \<Rightarrow> Some (Inl (code_of er), us, release_lobby l w w2)
                        | Inr None \<Rightarrow> None
                        | Inr (Some r) \<Rightarrow> Some (Inr r, us, w2))))
             else Some (Inl (dc_err_GameIdNotExists dc), [], w))))"

definition unsolicited_join ::
  "door_codes \<Rightarrow> (create_error \<Rightarrow> int) \<Rightarrow> u8 \<Rightarrow> u8 \<Rightarrow> string \<Rightarrow> bool \<Rightarrow> stored_peer \<Rightarrow> 'v door \<Rightarrow> 'v process
    \<Rightarrow> ('p reply list \<times> 'v door \<times> 'v process) option" where
  "unsolicited_join dc code_of channel opc game_id create_if_missing pp d pr =
    (if \<not> (dr_allow_unsolicited d \<and> (opc = dc_op_JoinGame dc \<or> opc = dc_op_CreateGame dc))
     then Some (base_operation dc True channel opc, d, pr)
     else case sp_app pp of
       None \<Rightarrow> None
     | Some a \<Rightarrow>
        (case find_unsolicited dc code_of opc a game_id create_if_missing (pc_world pr) of
           None \<Rightarrow> None
         | Some (Inl code, us, w) \<Rightarrow> Some (map Notify us @ [Reply opc code], d, pr\<lparr> pc_world := w \<rparr>)
         | Some (Inr r, us, w) \<Rightarrow>
            Some (map Notify us @ base_operation dc True channel opc,
              d\<lparr> dr_persistent := Some (invite_game r (get_game_info w r) (opc = dc_op_CreateGame dc) pp), dr_allow_unsolicited := False \<rparr>,
              pr\<lparr> pc_world := w \<rparr>)))"

end
