(* ===== verification/AdmissionProps.thy ===== *)
theory AdmissionProps
  imports Admission ParamProps ReplicaProps
begin

text \<open>
  Who gets in: the name server sends a peer to a master server, the game server gives a peer
  the room it was invited to, or drops it.
\<close>

section \<open>The room of an invitation\<close>

lemma server_get_game_cases:
  assumes "server_get_game db gmax info w = Some (res, us, w')"
  obtains a w1 l w2 er w3 where "app_get db gmax (gn_app info) (gn_version info) w = (Some a, w1)"
      "get_lobby a (gn_lobby info, gn_lobby_type info) w1 = (Some l, w2)"
      "create_game l (gn_id info) (gn_server_address info) True w2 = Some (Inl er, us, w3)" "res = Inl er"
      "w' = release_app a w (release_lobby l w w3)"
  | a w1 l w2 r where "app_get db gmax (gn_app info) (gn_version info) w = (Some a, w1)"
      "get_lobby a (gn_lobby info, gn_lobby_type info) w1 = (Some l, w2)"
      "create_game l (gn_id info) (gn_server_address info) True w2 = Some (Inr (Some r), us, w')" "res = Inr r"
  using assms by (auto simp: server_get_game_def split: prod.splits option.splits sum.splits)

lemma refused_unchanged: "create_game l gid address or_get w = Some (Inl er, us, w') \<Longrightarrow> w' = w \<and> us = []"
  by (erule create_game_cases) auto

lemma created_matches:
  assumes "world_reach w" "w_lobby w l = Some lb" "w_app w (lb_app lb) = Some ap" "ap_id ap = gn_app info" "ap_version ap = gn_version info"
    "create_game l (gn_id info) address True w = Some (Inr (Some r), us, w')"
  shows "matches_game_info w' info r"
  using assms(6)
proof (cases rule: create_game_cases)
  case same
  then show ?thesis using create_game_found[OF world_reach_inv[OF assms(1)] assms(2-6)] by simp
next
  case (made lb' ap')
  then show ?thesis using assms(2-5) by (auto simp: matches_game_info_def new_game_def)
qed

lemma server_get_game_sound:
  assumes reach: "world_reach w" and got: "server_get_game db gmax info w = Some (res, us, w')"
  shows "world_reach w' \<and> (\<forall>r. res = Inr r \<longrightarrow> matches_game_info w' info r)"
  using got
proof (cases rule: server_get_game_cases)
  case (1 a w1 l w2 er w3)
  have "w3 = w2" using refused_unchanged[OF 1(3)] by simp
  then have "world_reach w'" using world_steps_reach[OF refused_update_steps(1)[OF reach 1(1,2)] reach] 1(5) by simp
  then show ?thesis using 1(4) by simp
next
  case (2 a w1 l w2 r)
  note L = looked_up_lobby[OF reach 2(1,2)]
  obtain lb ap where lb: "w_lobby w2 l = Some lb" "w_app w2 (lb_app lb) = Some ap" "ap_id ap = gn_app info" "ap_version ap = gn_version info"
    using L(4) by blast
  have "world_reach w'" using world_reach.onwards[OF L(1) room_made[OF 2(3)]] .
  then show ?thesis using created_matches[OF L(1) lb 2(3)] 2(4) by blast
qed

lemma server_get_game_finds:
  assumes reach: "world_reach w" and got: "server_get_game db gmax info w = Some (res, us, w')"
    and q: "matches_game_info w info q" "gn_id info \<noteq> []"
  shows "res = Inr q \<and> us = []"
proof -
  obtain a w1 l w2 cres w3 where c: "app_get db gmax (gn_app info) (gn_version info) w = (Some a, w1)"
      "get_lobby a (gn_lobby info, gn_lobby_type info) w1 = (Some l, w2)"
      "create_game l (gn_id info) (gn_server_address info) True w2 = Some (cres, us, w3)"
      "\<And>r. cres = Inr (Some r) \<Longrightarrow> res = Inr r"
    using got
  proof (cases rule: server_get_game_cases)
    case (1 a w1 l w2 er w3)
    then show thesis using that[OF 1(1-3)] by simp
  next
    case (2 a w1 l w2 r)
    then show thesis using that[OF 2(1-3)] by simp
  qed
  note L = looked_up_lobby[OF reach c(1,2)] and inv = world_reach_inv[OF looked_up_lobby(1)[OF reach c(1,2)]]
  obtain lb ap where lb: "w_lobby w2 l = Some lb" "lb_app lb = a" "w_app w2 a = Some ap" "ap_id ap = gn_app info" "ap_version ap = gn_version info"
    using L(4) by blast
  obtain m lb' ap' where m: "w_game w2 q = Some m" "w_lobby w2 (rm_lobby m) = Some lb'" "w_app w2 (lb_app lb') = Some ap'"
      "gn_id info = g_id (rm_game m)" "gn_app info = ap_id ap'" "gn_version info = ap_version ap'"
    using L(6)[OF q(1)] by (auto simp: matches_game_info_def split: option.splits)
  have "lb_app lb' = a"
    using indexes_find[OF registry_invD(1)[OF inv] m(3)] indexes_find[OF registry_invD(1)[OF inv] lb(3)] lb(4,5) m(5,6)
    by (simp add: app_key_def)
  then have "room_app w2 m = Some a" using m(2) by (simp add: room_app_def)
  then have "map_of (ap_games ap) (gn_id info) = Some q"
    using indexes_find[OF registry_invD(3)[OF inv lb(3)] m(1)] m(4) by (simp add: room_id_def)
  then have "cres = Inr (Some q) \<and> us = []"
    using c(3) lb q(2) m(1) by (simp add: create_game_def)
  then show ?thesis using c(4) by blast
qed

section \<open>Authentication\<close>

lemma release_app_steps:
  assumes "registry_inv before" "w_lobby w = w_lobby before"
  shows "world_step\<^sup>*\<^sup>* w (release_app a before w)"
proof (cases "w_app before a = None \<and> w_app w a \<noteq> None")
  case True
  then obtain ap where ap: "w_app w a = Some ap" by blast
  have "lb_app lb \<noteq> a" if "w_lobby w l = Some lb" for l lb
    using registry_invD(5)[OF assms(1), of l lb] that True assms(2) by auto
  from app_gone[OF ap this] show ?thesis using True by (auto simp: release_app_def)
next
  case False
  then show ?thesis by (auto simp: release_app_def destroy_app_def split: option.splits)
qed

lemma authenticate_reach:
  assumes "world_reach (pc_world pr)" "authenticate e refresh q pr = (code, pp, ms, pr')"
  shows "world_reach (pc_world pr')"
proof -
  let ?w = "pc_world pr"
  note inv = world_reach_inv[OF assms(1)]
  have got: "world_reach w \<and> world_reach (release_app a ?w w)" if "app_get db gmax i v ?w = (res, w)" for db gmax i v res w a
  proof -
    have "w_lobby w = w_lobby ?w" using inv that by (cases rule: app_get_cases; simp)
    moreover have "world_reach w" by (rule world_reach.onwards[OF assms(1) app_got[OF that]])
    ultimately show ?thesis using world_steps_reach[OF release_app_steps[OF inv]] by blast
  qed
  show ?thesis
  proof (cases q)
    case (TokenAuth token)
    then have "pc_world pr' = ?w" using assms(2) by (auto simp: authenticate_def split: if_splits prod.splits option.splits)
    then show ?thesis using assms(1) by simp
  next
    case (StandardAuth i t ps v u)
    obtain res w where w: "app_get (ae_db e) (ae_max_game_peers e) i (case v of None \<Rightarrow> null_version | Some v \<Rightarrow> v) ?w = (res, w)"
      by (meson surj_pair)
    have "pc_world pr' = ?w \<or> pc_world pr' = w \<or> (\<exists>a. pc_world pr' = release_app a ?w w)"
      using assms(2) by (auto simp: authenticate_def StandardAuth w Let_def split: if_splits option.splits sum.splits)
    then show ?thesis
    proof (elim disjE exE)
      fix a assume "pc_world pr' = release_app a ?w w"
      then show ?thesis using got[OF w, of a] by simp
    qed (use assms(1) got[OF w] in auto)
  qed
qed

lemma authenticate_request_reach:
  assumes "world_reach (pc_world pr)" "authenticate_request e aw refresh op params pr = (code, pp, ms, pr')"
  shows "world_reach (pc_world pr')"
proof (cases "ae_max_connections e \<noteq> 0 \<and> ae_max_connections e \<le> ae_connections e")
  case True
  then show ?thesis using assms by (simp add: authenticate_request_def)
next
  case False
  show ?thesis
  proof (cases "decode_auth aw op params")
    case (Inl er)
    then show ?thesis using assms False by (auto simp: authenticate_request_def)
  next
    case (Inr q)
    then have "authenticate e refresh q pr = (code, pp, ms, pr')"
      using assms(2)[unfolded authenticate_request_def if_not_P[OF False]] by simp
    then show ?thesis by (rule authenticate_reach[OF assms(1)])
  qed
qed

lemma reset_owned_invitation [simp]: "sp_invitation (reset_owned_game_if_created ready pp) = sp_invitation pp"
  by (simp add: reset_owned_game_if_created_def split: option.split)

lemma assign_room_sound:
  assumes "world_reach (pc_world pr)" "assign_room dc db gmax ext opc pp d pr = Some (rs, d', pr')" "dr_current d = None"
  shows "world_reach (pc_world pr') \<and> dr_pending d' = dr_pending d
    \<and> (case dr_current d' of
         None \<Rightarrow> DropPeer \<in> set rs
       | Some r \<Rightarrow> DropPeer \<notin> set rs \<and> r \<notin> set ext
           \<and> (\<exists>p. dr_persistent d' = Some p \<and> sp_invitation p = sp_invitation pp \<and> matches_game_info (pc_world pr') (sp_invitation p) r))"
proof -
  obtain res us w where g: "server_get_game db gmax (sp_invitation pp) (pc_world pr) = Some (res, us, w)"
    using assms(2) by (auto simp: assign_room_def split: option.splits)
  note sound = server_get_game_sound[OF assms(1) g]
  show ?thesis
    using assms(2,3) sound by (auto simp: assign_room_def g is_game_external_def Let_def split: sum.splits if_splits)
qed

definition sample_invited :: stored_peer where
  "sample_invited = (create_persistent_peer ''tok'')\<lparr> sp_app := Some 0, sp_invitation := get_game_info sample_room_world 2 \<rparr>"

definition sample_door_process :: "sample_value process" where
  "sample_door_process = \<lparr> pc_world = sample_room_world, pc_store = store_persistent_peer (\<lambda>_. False) sample_invited empty_store \<rparr>"

definition sample_door_codes :: door_codes where
  "sample_door_codes = \<lparr> dc_op_Authenticate = 230, dc_op_AuthenticateOnce = 231, dc_op_GetRegions = 220, dc_op_CreateGame = 227,
     dc_op_JoinGame = 226, dc_iop_InitEncryption = 0, dc_iop_Ping = 1, dc_iop_TransportProtocol = 2, dc_err_NotAllowed = -3,
     dc_err_OperationInvalid = -2, dc_err_TokenExpired = 32753, dc_err_ServerForbidden = 32758, dc_err_GameIdNotExists = 32758 \<rparr>"

definition sample_door :: "sample_value door" where
  "sample_door = \<lparr> dr_persistent = None, dr_current = None, dr_pending = None, dr_allow_unsolicited = False \<rparr>"

text \<open>
  C12: a peer that the game server has let in has a room, which is alive, belongs to this process,
  and has the id, the application and the version of the invitation the peer's token stands
  for; a peer without a room is dropped, waits for its token, or had one waiting already. The
  registry stays one that can arise.
\<close>

theorem admitted_to_invited_room:
  assumes "world_reach (pc_world pr)" "dr_current d = None"
    and "door_authenticate dc e aw ext now opc params d pr = Some (rs, d', pr')"
  shows "world_reach (pc_world pr')
    \<and> (case dr_current d' of
         Some r \<Rightarrow> DropPeer \<notin> set rs \<and> r \<notin> set ext
           \<and> (\<exists>p. dr_persistent d' = Some p \<and> matches_game_info (pc_world pr') (sp_invitation p) r)
       | None \<Rightarrow> DropPeer \<in> set rs \<or> (dr_pending d' \<noteq> None \<and> pr' = pr))"
proof -
  let ?waits = "case token_of aw (touch aw params) of Some token \<Rightarrow> \<not> has_persistent_peer token (pc_store pr) | None \<Rightarrow> False"
  obtain code pp ms pr1 where a: "authenticate_request e aw False opc (touch aw params) pr = (code, pp, ms, pr1)" by (metis prod_cases4)
  note reach = authenticate_request_reach[OF assms(1) a]
  show ?thesis
  proof (cases ?waits)
    case True
    then show ?thesis using assms by (auto simp: door_authenticate_def Let_def split: if_splits)
  next
    case False
    note f = assms(3)[unfolded door_authenticate_def Let_def if_not_P[OF False] a prod.case]
    show ?thesis
    proof (cases pp)
      case None
      then show ?thesis using f reach assms(2) by auto
    next
      case (Some p)
      obtain ss where s: "assign_room dc (ae_db e) (ae_max_game_peers e) ext opc p (d\<lparr> dr_persistent := Some p \<rparr>) pr1 = Some (ss, d', pr')"
          "rs = map Forward ms @ [Reply opc code] @ ss"
        using f Some by (auto split: option.splits)
      have "DropPeer \<in> set rs \<longleftrightarrow> DropPeer \<in> set ss" using s(2) by auto
      then show ?thesis using assign_room_sound[OF reach s(1)] assms(2) by (auto split: option.splits)
    qed
  qed
qed

lemma invited_app_loads:
  assumes "registry_inv w" "matches_game_info w info r"
  shows "\<exists>a w1. app_get db gmax (gn_app info) (gn_version info) w = (Some a, w1)"
proof -
  obtain b ap where b: "w_app w b = Some ap" "ap_id ap = gn_app info" "ap_version ap = gn_version info"
    using assms(2) by (auto simp: matches_game_info_def split: option.splits)
  have found: "app_lookup w (gn_app info, gn_version info) = Some b"
    using indexes_find[OF registry_invD(1)[OF assms(1)] b(1)] b(2,3) by (simp add: app_key_def)
  obtain res w1 where g: "app_get db gmax (gn_app info) (gn_version info) w = (res, w1)" by (meson surj_pair)
  from assms(1) g show ?thesis by (cases rule: app_get_cases) (use found g in auto)
qed

lemma server_get_game_defined:
  assumes reach: "world_reach w" and q: "matches_game_info w info q" "gn_id info \<noteq> []"
  shows "server_get_game db gmax info w \<noteq> None"
proof -
  note inv = world_reach_inv[OF reach]
  obtain a w1 where a: "app_get db gmax (gn_app info) (gn_version info) w = (Some a, w1)"
    using invited_app_loads[OF inv q(1)] by blast
  obtain ap where ap: "w_app w1 a = Some ap" using inv a by (rule app_get_live)
  obtain lo w2 where g: "get_lobby a (gn_lobby info, gn_lobby_type info) w1 = (lo, w2)" by (meson surj_pair)
  obtain l where l: "lo = Some l" using app_get_inv[OF inv a] ap g by (cases rule: get_lobby_cases) auto
  note L = looked_up_lobby[OF reach a g[unfolded l]]
  obtain lb ap' where lb: "w_lobby w2 l = Some lb" "w_app w2 (lb_app lb) = Some ap'" "ap_id ap' = gn_app info" "ap_version ap' = gn_version info"
    using L(4) by blast
  have live: "w_game w2 r \<noteq> None" if "map_of (ap_games ap') (gn_id info) = Some r" for r
    using indexesD[OF registry_invD(3)[OF world_reach_inv[OF L(1)] lb(2)] that] by auto
  show ?thesis
    using lb(1,2) live by (auto simp: server_get_game_def a g l create_game_def Let_def split: option.splits if_splits)
qed

text \<open>A room's own information matches it, so what the master server invites a peer to can be found.\<close>

lemma own_info_matches:
  assumes "registry_inv w" "w_game w r = Some m"
  shows "matches_game_info w (get_game_info w r) r"
proof -
  obtain lb ap where "w_lobby w (rm_lobby m) = Some lb" "w_app w (lb_app lb) = Some ap" using room_registered[OF assms] .
  then show ?thesis using assms(2) by (simp add: matches_game_info_def get_game_info_def)
qed

lemma loaded_peer:
  assumes "store_inv s" "v \<in> set (ps_peers s)"
  shows "\<exists>ms s'. load_persistent_peer (sp_token v) None s = (Some v, ms, s')"
proof -
  have "List.extract (\<lambda>u. sp_token u = sp_token v) (ps_peers s) \<noteq> None" using assms(2) by (auto simp: extract_None_iff)
  then obtain z where z: "List.extract (\<lambda>u. sp_token u = sp_token v) (ps_peers s) = Some z" by blast
  obtain xs pp ys where e: "z = (xs, pp, ys)" by (rule prod_cases3)
  note e = z[unfolded e]
  have "ps_peers s = xs @ pp # ys" "sp_token pp = sp_token v" using extract_SomeE[OF e] by simp_all
  then have "pp \<in> set (ps_peers s)" "sp_token pp = sp_token v" by simp_all
  moreover have "inj_on sp_token (set (ps_peers s))" using assms(1) by (simp add: store_inv_def distinct_map)
  ultimately have "pp = v" using assms(2) by (auto dest: inj_onD)
  then show ?thesis using e by (simp add: load_persistent_peer_def)
qed

section \<open>Tokens\<close>

text \<open>A message with a token: a string under the key of tokens, which the library reads back as one.\<close>

definition bears_token :: "('v, 'o) auth_wire \<Rightarrow> (u8 \<times> 'v) list \<Rightarrow> string \<Rightarrow> bool" where
  "bears_token aw params token \<longleftrightarrow> distinct (map fst params)
     \<and> (case map_of params (fst (aw_token aw)) of
          None \<Rightarrow> False
        | Some v \<Rightarrow> \<not> vr_is_null (aw_api aw) v \<and> vr_get (aw_api aw) WString v = Some (PayText token))"

lemma token_model_spec:
  assumes "distinct (map fst params)"
  shows "decode_params va oi op (token_auth_model aw) params
    = (case field_result va oi op (text_param (aw_token aw) False None) (map_of params (fst (aw_token aw))) of
         Inl e \<Rightarrow> Inl e | Inr f \<Rightarrow> Inr [f])"
  by (simp add: token_auth_model_def decode_by_each[OF _ assms] text_param_def split: sum.split)

lemma bears_token_decoded:
  assumes "bears_token aw params token"
  shows "touch aw params = params" "token_of aw params = Some token" "decode_auth aw op params = Inr (TokenAuth token)"
proof -
  obtain v where v: "map_of params (fst (aw_token aw)) = Some v" "\<not> vr_is_null (aw_api aw) v" "vr_get (aw_api aw) WString v = Some (PayText token)"
      "distinct (map fst params)"
    using assms by (auto simp: bears_token_def split: option.splits)
  show "touch aw params = params" using v(1) by (simp add: touch_def)
  show "token_of aw params = Some token" using v(1,3) by (simp add: token_of_def)
  have "field_result (aw_api aw) (aw_invalid aw) op (text_param (aw_token aw) False None) (Some v) = Inr (Required (PayText token))"
    using v(2,3) by (simp add: field_result_def decode_one_def text_param_def enum_valid_def put_field_def)
  then show "decode_auth aw op params = Inr (TokenAuth token)"
    using v(1) by (simp add: decode_auth_def token_model_spec[OF v(4)] field_text_def)
qed

text \<open>
  Without a string under that key there is only a refusal at the game server, for the handler's
  own look at the token puts a key with nothing there.
\<close>

lemma touched_no_token:
  assumes "distinct (map fst params)" "token_of aw (touch aw params) = None"
    and "\<forall>v x. vr_get (aw_api aw) WString v = Some x \<longrightarrow> (\<exists>t. x = PayText t)"
  shows "\<exists>er. decode_auth aw op (touch aw params) = Inl er \<and> de_code er = signed_take_bit 15 (aw_invalid aw)"
proof -
  let ?k = "fst (aw_token aw)"
  obtain v where v: "map_of (touch aw params) ?k = Some v"
    by (cases "map_of params ?k") (auto simp: touch_def map_add_def)
  have d: "distinct (map fst (touch aw params))"
    using assms(1) by (auto simp: touch_def map_of_eq_None_iff)
  have "vr_get (aw_api aw) WString v = None"
    using assms(2,3) v by (cases "vr_get (aw_api aw) WString v") (force simp: token_of_def)+
  then have "\<exists>er. field_result (aw_api aw) (aw_invalid aw) op (text_param (aw_token aw) False None) (Some v) = Inl er
      \<and> de_code er = signed_take_bit 15 (aw_invalid aw)"
    by (simp add: field_result_def decode_one_def text_param_def make_required_null_error_def make_type_mismatch_error_def make_decode_error_def)
  then show ?thesis using v by (auto simp: decode_auth_def token_model_spec[OF d])
qed

lemma invited_peer_enters:
  assumes "world_reach (pc_world pr)" "store_reach (pc_store pr)"
    and v: "v \<in> set (ps_peers (pc_store pr))" "matches_game_info (pc_world pr) (sp_invitation v) r" "gn_id (sp_invitation v) \<noteq> []" "r \<notin> set ext"
    and room: "ae_max_connections e = 0 \<or> ae_connections e < ae_max_connections e"
    and token: "bears_token aw params (sp_token v)"
  obtains ms s' w where "\<not> has_persistent_peer (sp_token v) s'"
    "door_authenticate dc e aw ext now opc params d pr
      = Some (map Forward ms @ [Reply opc (ac_Ok (ae_codes e))] :: 'p reply list,
          d\<lparr> dr_persistent := Some (reset_owned_game_if_created (room_ready w) v), dr_current := Some r \<rparr>, pr\<lparr> pc_store := s', pc_world := w \<rparr>)"
proof -
  note store = store_reach_inv[OF assms(2)]
  obtain ms s' where l: "load_persistent_peer (sp_token v) None (pc_store pr) = (Some v, ms, s')"
    using loaded_peer[OF store v(1)] by blast
  have "authenticate e False (TokenAuth (sp_token v)) pr = (ac_Ok (ae_codes e), Some v, ms, pr\<lparr> pc_store := s' \<rparr>)"
    using room l by (auto simp: authenticate_def)
  then have a: "authenticate_request e aw False opc params pr = (ac_Ok (ae_codes e), Some v, ms, pr\<lparr> pc_store := s' \<rparr>)"
    using room by (auto simp: authenticate_request_def bears_token_decoded(3)[OF token])
  have has: "has_persistent_peer (sp_token v) (pc_store pr)" using v(1) by (auto simp: has_persistent_peer_def list_ex_iff)
  obtain res us w where g: "server_get_game (ae_db e) (ae_max_game_peers e) (sp_invitation v) (pc_world pr) = Some (res, us, w)"
    using server_get_game_defined[OF assms(1) v(2,3)] by (metis option.exhaust prod_cases3)
  have "res = Inr r \<and> us = []" by (rule server_get_game_finds[OF assms(1) g v(2,3)])
  then have found: "res = Inr r" "us = []" by blast+
  have used: "\<not> has_persistent_peer (sp_token v) s'" using load_uses_token[OF store l] by blast
  have "assign_room dc (ae_db e) (ae_max_game_peers e) ext opc v (d\<lparr> dr_persistent := Some v \<rparr>) (pr\<lparr> pc_store := s' \<rparr>)
      = Some ([] :: 'p reply list, d\<lparr> dr_persistent := Some (reset_owned_game_if_created (room_ready w) v), dr_current := Some r \<rparr>, pr\<lparr> pc_store := s', pc_world := w \<rparr>)"
    using found g v(4) by (simp add: assign_room_def is_game_external_def Let_def)
  then have "door_authenticate dc e aw ext now opc params d pr
      = Some (map Forward ms @ [Reply opc (ac_Ok (ae_codes e))] :: 'p reply list,
          d\<lparr> dr_persistent := Some (reset_owned_game_if_created (room_ready w) v), dr_current := Some r \<rparr>, pr\<lparr> pc_store := s', pc_world := w \<rparr>)"
    by (simp add: door_authenticate_def bears_token_decoded[OF token] has a)
  with used show ?thesis by (rule that)
qed

lemma sample_door:
  obtains v where "world_reach (pc_world sample_door_process)" "store_reach (pc_store sample_door_process)"
    "v \<in> set (ps_peers (pc_store sample_door_process))" "sp_token v = ''tok''"
    "matches_game_info (pc_world sample_door_process) (sp_invitation v) 2" "gn_id (sp_invitation v) \<noteq> []"
    "ae_max_connections sample_auth_env = 0"
proof -
  let ?pr = sample_door_process
  have w: "world_reach (pc_world ?pr)" using sample_worlds(2) by (simp add: sample_door_process_def)
  have s: "store_reach (pc_store ?pr)"
    unfolding sample_door_process_def process.select_convs
    by (rule store_reach.grown[OF store_reach.fresh store_step.stored]) code_simp
  have "list_ex (\<lambda>v. sp_token v = ''tok'' \<and> matches_game_info (pc_world ?pr) (sp_invitation v) 2 \<and> gn_id (sp_invitation v) \<noteq> [])
      (ps_peers (pc_store ?pr))" by code_simp
  then obtain v where v: "v \<in> set (ps_peers (pc_store ?pr))" "sp_token v = ''tok''" "matches_game_info (pc_world ?pr) (sp_invitation v) 2"
      "gn_id (sp_invitation v) \<noteq> []" by (auto simp: list_ex_iff)
  show ?thesis by (rule that[OF w s v]) (simp add: sample_auth_env_def)
qed

text \<open>A message with a token, for values that are what they hold.\<close>

definition sample_auth_wire :: "(sample_value, nat) auth_wire" where
  "sample_auth_wire = \<lparr> aw_api = \<lparr> vr_fresh = SNull, vr_is_null = (\<lambda>v. v = SNull),
       vr_type = (\<lambda>v. case v of SNull \<Rightarrow> WNull | SU8 i \<Rightarrow> WByte | SString t \<Rightarrow> WString | _ \<Rightarrow> WOther),
       vr_get = (\<lambda>w v. case v of SString t \<Rightarrow> if w = WString then Some (PayText t) else None
          | SU8 i \<Rightarrow> if w = WByte then Some (PayInt (uint i)) else None | _ \<Rightarrow> None),
       vr_of = (\<lambda>w x. case x of PayText t \<Rightarrow> SString t | PayInt i \<Rightarrow> SU8 (word_of_int i) | _ \<Rightarrow> SNull) \<rparr>,
     aw_invalid = -2, aw_token = (221, ''Token''), aw_app_id = (224, ''ApplicationId''), aw_auth_type = (217, ''ClientAuthenticationType''),
     aw_auth_params = (216, ''ClientAuthenticationParameters''), aw_version = (220, ''AppVersion''), aw_user_id = (225, ''UserId'') \<rparr>"

definition sample_token_params :: "(u8 \<times> sample_value) list" where
  "sample_token_params = [(221, SString ''tok'')]"

lemma sample_bears: "bears_token sample_auth_wire sample_token_params ''tok''"
  by (simp add: bears_token_def sample_auth_wire_def sample_token_params_def)

text \<open>
  C11: a peer that comes with the token it is stored under, while the server takes connections, is
  let in: it gets the live room of its invitation, unless that belongs to another process,
  the answer is Ok, and the token cannot be used again.
\<close>

theorem invited_peer_gets_room:
  assumes "world_reach (pc_world pr)" "store_reach (pc_store pr)"
    and v: "v \<in> set (ps_peers (pc_store pr))" "matches_game_info (pc_world pr) (sp_invitation v) r" "gn_id (sp_invitation v) \<noteq> []" "r \<notin> set ext"
    and room: "ae_max_connections e = 0 \<or> ae_connections e < ae_max_connections e"
    and token: "bears_token aw params (sp_token v)"
  shows "\<exists>(rs :: 'p reply list) d' pr'. door_authenticate dc e aw ext now opc params d pr = Some (rs, d', pr')
    \<and> dr_current d' = Some r \<and> Reply opc (ac_Ok (ae_codes e)) \<in> set rs \<and> DropPeer \<notin> set rs
    \<and> \<not> has_persistent_peer (sp_token v) (pc_store pr')"
proof -
  obtain ms s' w where "\<not> has_persistent_peer (sp_token v) s'"
    "door_authenticate dc e aw ext now opc params d pr
      = Some (map Forward ms @ [Reply opc (ac_Ok (ae_codes e))] :: 'p reply list,
          d\<lparr> dr_persistent := Some (reset_owned_game_if_created (room_ready w) v), dr_current := Some r \<rparr>, pr\<lparr> pc_store := s', pc_world := w \<rparr>)"
    by (rule invited_peer_enters[OF assms])
  then show ?thesis by auto
qed

lemma invited_peer_gets_room_witness:
  "\<exists>(rs :: nat reply list) d' pr'. door_authenticate sample_door_codes sample_auth_env sample_auth_wire [] 0 230 sample_token_params sample_door sample_door_process
     = Some (rs, d', pr') \<and> dr_current d' = Some 2"
proof -
  obtain v where v: "world_reach (pc_world sample_door_process)" "store_reach (pc_store sample_door_process)"
      "v \<in> set (ps_peers (pc_store sample_door_process))" "sp_token v = ''tok''"
      "matches_game_info (pc_world sample_door_process) (sp_invitation v) 2" "gn_id (sp_invitation v) \<noteq> []"
      "ae_max_connections sample_auth_env = 0" by (rule sample_door)
  have "\<exists>(rs :: nat reply list) d' pr'. door_authenticate sample_door_codes sample_auth_env sample_auth_wire [] 0 230 sample_token_params sample_door sample_door_process
      = Some (rs, d', pr') \<and> dr_current d' = Some 2 \<and> Reply 230 (ac_Ok (ae_codes sample_auth_env)) \<in> set rs \<and> DropPeer \<notin> set rs
      \<and> \<not> has_persistent_peer (sp_token v) (pc_store pr')"
    by (rule invited_peer_gets_room[OF v(1-3,5,6)]) (simp_all add: v(4,7) sample_bears)
  then show ?thesis by blast
qed

lemma admitted_to_invited_room_witness:
  "\<exists>(rs :: nat reply list) d' pr' (p :: stored_peer). door_authenticate sample_door_codes sample_auth_env sample_auth_wire [] 0 230 sample_token_params sample_door sample_door_process
     = Some (rs, d', pr') \<and> dr_current d' = Some 2 \<and> matches_game_info (pc_world pr') (sp_invitation p) 2"
proof -
  obtain v where v: "world_reach (pc_world sample_door_process)" "store_reach (pc_store sample_door_process)"
      "v \<in> set (ps_peers (pc_store sample_door_process))" "sp_token v = ''tok''"
      "matches_game_info (pc_world sample_door_process) (sp_invitation v) 2" "gn_id (sp_invitation v) \<noteq> []"
      "ae_max_connections sample_auth_env = 0" by (rule sample_door)
  have "\<exists>(rs :: nat reply list) d' pr'. door_authenticate sample_door_codes sample_auth_env sample_auth_wire [] 0 230 sample_token_params sample_door sample_door_process
      = Some (rs, d', pr') \<and> dr_current d' = Some 2"
    by (rule invited_peer_enters[OF v(1-3,5,6), where 'p = nat and e = sample_auth_env and ext = "[]" and dc = sample_door_codes and now = 0 and opc = 230
          and aw = sample_auth_wire and params = sample_token_params and d = sample_door]) (auto simp: v(4,7) sample_bears)
  then obtain rs :: "nat reply list" and d' pr' where r: "door_authenticate sample_door_codes sample_auth_env sample_auth_wire [] 0 230 sample_token_params sample_door sample_door_process
      = Some (rs, d', pr')" "dr_current d' = Some 2" by blast
  have "dr_current sample_door = None" by (simp add: sample_door_def)
  from admitted_to_invited_room[OF v(1) this r(1)] r(2) have "\<exists>p :: stored_peer. matches_game_info (pc_world pr') (sp_invitation p) 2" by auto
  with r show ?thesis by blast
qed

section \<open>Waiting for the token\<close>

lemma assign_room_pending:
  assumes "assign_room dc db gmax ext opc p d pr = Some (ss, d', pr')"
  shows "dr_pending d' = dr_pending d"
proof -
  obtain res us w where g: "server_get_game db gmax (sp_invitation p) (pc_world pr) = Some (res, us, w)"
    using assms by (auto simp: assign_room_def split: option.splits)
  show ?thesis using assms by (auto simp: assign_room_def g Let_def split: sum.splits if_splits)
qed

lemma waiting_authentication_decided:
  assumes "dr_pending d = Some (opc, params, since)" "door_slow_update dc e aw ext now d pr = Some (rs, d', pr')"
    "token_of aw params = Some token" "has_persistent_peer token (pc_store pr) \<or> 2000 \<le> now - since"
  shows "dr_pending d' = None \<and> (\<exists>code. Reply opc code \<in> set rs)"
proof -
  let ?d = "d\<lparr> dr_pending := None \<rparr>"
  have t: "touch aw params = params"
    using assms(3) by (cases "map_of params (fst (aw_token aw))") (simp_all add: touch_def token_of_def)
  show ?thesis
  proof (cases "has_persistent_peer token (pc_store pr) \<and> dr_persistent d = None")
    case True
    have f: "door_authenticate dc e aw ext now opc params ?d pr = Some (rs, d', pr')"
      using assms(1-3) True by (simp add: door_slow_update_def door_request_def t)
    obtain code pp ms pr1 where a: "authenticate_request e aw False opc params pr = (code, pp, ms, pr1)" by (metis prod_cases4)
    have f: "(case pp of
               None \<Rightarrow> Some (map Forward ms @ [Reply opc code, DropPeer], ?d, pr1)
             | Some p \<Rightarrow>
                (case assign_room dc (ae_db e) (ae_max_game_peers e) ext opc p (?d\<lparr> dr_persistent := Some p \<rparr>) pr1 of
                   None \<Rightarrow> None
                 | Some (rs, d1, pr2) \<Rightarrow> Some (map Forward ms @ [Reply opc code] @ rs, d1, pr2))) = Some (rs, d', pr')"
      using f True by (simp add: door_authenticate_def t assms(3) a)
    show ?thesis
    proof (cases pp)
      case None
      then show ?thesis using f by auto
    next
      case (Some p)
      obtain ss where s: "assign_room dc (ae_db e) (ae_max_game_peers e) ext opc p (?d\<lparr> dr_persistent := Some p \<rparr>) pr1 = Some (ss, d', pr')"
          "rs = map Forward ms @ [Reply opc code] @ ss"
        using f Some by (auto split: option.splits)
      show ?thesis using assign_room_pending[OF s(1)] s(2) by auto
    qed
  next
    case False
    then show ?thesis using assms t by (auto simp: door_slow_update_def door_request_def base_operation_def split: if_splits)
  qed
qed

section \<open>Where a peer is not let in\<close>

text \<open>A room asked for without invitation is found or made, and not given to the peer.\<close>

lemma unsolicited_join_in_vain:
  "unsolicited_join dc code_of channel opc gid cr pp d pr = Some (rs, d', pr') \<Longrightarrow> dr_current d' = dr_current d"
  by (auto simp: unsolicited_join_def split: if_splits option.splits prod.splits sum.splits)

text \<open>
  A request without a token is refused, also when it names an application: the handler's look at
  the token has put the key there, and the decoder finds nothing under it.
\<close>

lemma tokenless_refused:
  assumes "distinct (map fst params)" "token_of aw (touch aw params) = None"
    and "\<forall>v x. vr_get (aw_api aw) WString v = Some x \<longrightarrow> (\<exists>t. x = PayText t)"
  shows "\<exists>code. door_authenticate dc e aw ext now opc params d pr = Some ([Reply opc code, DropPeer], d, pr)
    \<and> code \<in> {ac_MaxCcuReached (ae_codes e), signed_take_bit 15 (aw_invalid aw)}"
proof -
  obtain er where "decode_auth aw opc (touch aw params) = Inl er" "de_code er = signed_take_bit 15 (aw_invalid aw)"
    using touched_no_token[OF assms] by blast
  then show ?thesis by (simp add: door_authenticate_def assms(2) authenticate_request_def)
qed

text \<open>
  A peer whose token was given to it before it had a room has no invitation, so the room looked up
  is of the application with the empty id. Where the settings database has none, the
  lookup follows the null pointer that loading it gives.
\<close>

lemma app_get_unknown:
  assumes "registry_inv w" "db i = None" "app_lookup w (i, v) = None"
  shows "fst (app_get (Some db) gmax i v w) = None"
proof -
  obtain res w' where g: "app_get (Some db) gmax i v w = (res, w')" by force
  from assms(1) g show ?thesis by (cases rule: app_get_cases) (use assms(2,3) g in \<open>auto simp: load_app_settings_def\<close>)
qed

lemma uninvited_follows_null:
  assumes "world_reach (pc_world pr)" "store_reach (pc_store pr)"
    and v: "v \<in> set (ps_peers (pc_store pr))" "sp_invitation v = no_game_info" "bears_token aw params (sp_token v)"
    and room: "ae_max_connections e = 0 \<or> ae_connections e < ae_max_connections e"
    and db: "ae_db e = Some db" "db [] = None" "app_lookup (pc_world pr) ([], []) = None"
  shows "door_authenticate dc e aw ext now opc params d pr = None"
proof -
  obtain ms s' where l: "load_persistent_peer (sp_token v) None (pc_store pr) = (Some v, ms, s')"
    using loaded_peer[OF store_reach_inv[OF assms(2)] v(1)] by blast
  have "authenticate e False (TokenAuth (sp_token v)) pr = (ac_Ok (ae_codes e), Some v, ms, pr\<lparr> pc_store := s' \<rparr>)"
    using room l by (auto simp: authenticate_def)
  then have a: "authenticate_request e aw False opc params pr = (ac_Ok (ae_codes e), Some v, ms, pr\<lparr> pc_store := s' \<rparr>)"
    using room by (auto simp: authenticate_request_def bears_token_decoded(3)[OF v(3)])
  have has: "has_persistent_peer (sp_token v) (pc_store pr)" using v(1) by (auto simp: has_persistent_peer_def list_ex_iff)
  have "fst (app_get (ae_db e) (ae_max_game_peers e) [] [] (pc_world pr)) = None"
    using app_get_unknown[of "pc_world pr" db "[]" "[]"] world_reach_inv[OF assms(1)] db by simp
  then obtain w where "app_get (ae_db e) (ae_max_game_peers e) [] [] (pc_world pr) = (None, w)" by (metis prod.collapse)
  then have "server_get_game (ae_db e) (ae_max_game_peers e) (sp_invitation v) (pc_world pr) = None"
    using v(2) by (simp add: server_get_game_def no_game_info_def)
  then show ?thesis using a has by (simp add: door_authenticate_def assign_room_def bears_token_decoded[OF v(3)])
qed

text \<open>It happens to a peer that is stored as it was authenticated, where a database knows a single application.\<close>

lemma uninvited_crashes_once:
  "door_authenticate dc (sample_auth_env\<lparr> ae_db := Some (\<lambda>i. if i = ''app'' then Some default_app_settings else None) \<rparr>)
     sample_auth_wire [] 0 230 sample_token_params d
     (sample_process\<lparr> pc_store := store_persistent_peer (\<lambda>_. False) sample_peer empty_store \<rparr>) = None"
proof -
  let ?db = "\<lambda>i. if i = ''app'' then Some default_app_settings else None"
  let ?s = "store_persistent_peer (\<lambda>_. False) sample_peer empty_store"
  have s: "store_reach ?s" by (rule store_reach.grown[OF store_reach.fresh store_step.stored]) code_simp
  have "list_ex (\<lambda>v. sp_token v = ''tok'' \<and> sp_invitation v = no_game_info) (ps_peers ?s)" by code_simp
  then obtain v where v: "v \<in> set (ps_peers ?s)" "sp_token v = ''tok''" "sp_invitation v = no_game_info" by (auto simp: list_ex_iff)
  show ?thesis
  proof (rule uninvited_follows_null[where v = v and db = ?db])
    show "bears_token sample_auth_wire sample_token_params (sp_token v)" by (simp add: v(2) sample_bears)
    show "ae_max_connections (sample_auth_env\<lparr> ae_db := Some ?db \<rparr>) = 0 \<or>
        ae_connections (sample_auth_env\<lparr> ae_db := Some ?db \<rparr>) < ae_max_connections (sample_auth_env\<lparr> ae_db := Some ?db \<rparr>)"
      by (simp add: sample_auth_env_def)
    show "app_lookup (pc_world (sample_process\<lparr> pc_store := ?s \<rparr>)) ([], []) = None" by code_simp
  qed (simp_all add: s v sample_process_def world_reach.start)
qed

section \<open>The name server\<close>

lemma drawn_addresses:
  "draw_addresses pc draw m proto n = Some as \<Longrightarrow> length as = n \<and> (\<forall>a\<in>set as. \<exists>k. get_random_server_address pc (draw k) m TypeMasterServer proto = Some a)"
  by (induction n arbitrary: as) (auto split: option.splits)

text \<open>
  The name server keeps rooms, lobbies and a reachable store as they are, sends an address to nobody
  but a peer that it has authenticated with Ok, and drops the peers it refused.
\<close>

lemma name_server_authenticates:
  assumes "world_reach (pc_world pr)" "name_server dc pc draw m proto e aw 0 (Authenticate opc params) None pr = (rs, pp, pr')"
  shows "world_reach (pc_world pr')
    \<and> (\<forall>o' u a. ReplyAddress o' u a \<in> set rs \<longrightarrow> (\<exists>p ms. authenticate_request e aw True opc params pr = (ac_Ok (ae_codes e), Some p, ms, pr') \<and> pp = Some p \<and> u = sp_user_id p
         \<and> get_random_server_address pc (draw 0) m TypeMasterServer proto = Some a))
    \<and> (pp = None \<longrightarrow> DropPeer \<in> set rs)"
proof -
  obtain code pp' ms pr1 where a: "authenticate_request e aw True opc params pr = (code, pp', ms, pr1)" by (metis prod_cases4)
  note reach = authenticate_request_reach[OF assms(1) a]
  show ?thesis
    using assms(2) a reach by (auto simp: name_server_def Let_def split: option.splits if_splits)
qed

lemma name_server_knows_peer:
  "name_server dc pc draw m proto e aw channel req (Some p) pr
     = (base_operation dc True channel (case req of Authenticate opc params \<Rightarrow> opc | OtherRequest opc \<Rightarrow> opc), Some p, pr)"
  by (simp add: name_server_def)

section \<open>Commands\<close>

text \<open>An HTTP request never asks for more than one authentication, and none without an init request before it.\<close>

lemma http_steps:
  "handle_http dc tr blank split_at r = [] \<or> (\<exists>im. handle_http dc tr blank split_at r = [DoInit im])
    \<or> (\<exists>im. handle_http dc tr blank split_at r = [DoInit im, DoOperation (dc_op_AuthenticateOnce dc) (tr (drop 2 (hr_body r))) False])"
  by (simp add: handle_http_def Let_def)

text \<open>A number with anything after its digits counts as 0.\<close>

lemma fast_stoi_whole: "fast_stoi s = Some i \<Longrightarrow> from_chars s = Some (i, []) \<and> - (2 ^ 31) \<le> i \<and> i < 2 ^ 31"
  by (auto simp: fast_stoi_def split: option.splits prod.splits list.splits if_splits)

end
