(* ===== verification/Sockets.thy ===== *)
theory Sockets
  imports HostMem
begin

text \<open>
  The socket shims of WASMImpl/C/sockets.c: each imports one call of the guest,
  checks the guest pointers, translates constants and structures between the
  guest's (Linux) and the host's representation, and calls the host. The host's
  constants, its socket calls and the guest's allocator are not in the
  repository: they are the fields of \<^theory_text>\<open>host_config\<close> and \<^theory_text>\<open>host_os\<close>. A shim
  returns \<^theory_text>\<open>None\<close> where it touches a byte outside the guest memory, or hands the
  host a buffer that leaves it.
\<close>

section \<open>The host\<close>

record host_config =
  hc_djgpp :: bool
  hc_downgrade_ipv6 :: bool
  c_AF_UNSPEC :: int
  c_AF_INET :: int
  c_AF_INET6 :: int
  c_SOCK_STREAM :: int
  c_SOCK_DGRAM :: int
  c_IPPROTO_IP :: int
  c_IPPROTO_TCP :: int
  c_IPPROTO_UDP :: int
  c_IPPROTO_IPV6 :: int
  c_SOL_SOCKET :: int
  c_SO_REUSEADDR :: int
  c_SO_ERROR :: int
  c_IPV6_V6ONLY :: int
  c_SHUT_RD :: int
  c_SHUT_WR :: int
  c_SHUT_RDWR :: int
  c_FIONBIO :: int
  c_F_GETFL :: int
  c_F_SETFL :: int
  c_O_NONBLOCK :: int
  c_FD_SETSIZE :: nat

text \<open>Labels of one switch are distinct, and the descriptor set has room for a guest's set.\<close>

definition host_config_laws :: "host_config \<Rightarrow> bool" where
  "host_config_laws hc \<longleftrightarrow> distinct [c_AF_UNSPEC hc, c_AF_INET hc, c_AF_INET6 hc]
     \<and> -1 \<notin> {c_AF_UNSPEC hc, c_AF_INET hc, c_AF_INET6 hc}
     \<and> distinct [c_SOCK_STREAM hc, c_SOCK_DGRAM hc]
     \<and> distinct [c_IPPROTO_IP hc, c_IPPROTO_TCP hc, c_IPPROTO_UDP hc, c_IPPROTO_IPV6 hc]
     \<and> distinct [c_F_GETFL hc, c_F_SETFL hc] \<and> c_O_NONBLOCK hc \<noteq> 0"

datatype sockaddr =
    Sin u16 bytes
  | Sin6 u16 u32 bytes u32
  | OtherFamily

record addrinfo =
  ai_flags :: int
  ai_family :: int
  ai_socktype :: int
  ai_protocol :: int
  ai_addr :: "sockaddr option"
  ai_canonname :: "bytes option"

record 'w host_os =
  os_socket :: "int \<Rightarrow> int \<Rightarrow> int \<Rightarrow> 'w \<Rightarrow> int \<times> 'w"
  os_bind :: "int \<Rightarrow> sockaddr \<Rightarrow> 'w \<Rightarrow> int \<times> 'w"
  os_listen :: "int \<Rightarrow> int \<Rightarrow> 'w \<Rightarrow> int \<times> 'w"
  os_accept :: "int \<Rightarrow> 'w \<Rightarrow> int \<times> sockaddr \<times> 'w"
  os_connect :: "int \<Rightarrow> sockaddr \<Rightarrow> 'w \<Rightarrow> int \<times> 'w"
  os_send :: "int \<Rightarrow> bytes \<Rightarrow> int \<Rightarrow> 'w \<Rightarrow> int \<times> 'w"
  os_recv :: "int \<Rightarrow> nat \<Rightarrow> int \<Rightarrow> 'w \<Rightarrow> int \<times> bytes \<times> 'w"
  os_sendto :: "int \<Rightarrow> bytes \<Rightarrow> int \<Rightarrow> sockaddr option \<Rightarrow> 'w \<Rightarrow> int \<times> 'w"
  os_recvfrom :: "int \<Rightarrow> nat \<Rightarrow> int \<Rightarrow> 'w \<Rightarrow> int \<times> bytes \<times> sockaddr \<times> 'w"
  os_setsockopt :: "int \<Rightarrow> int \<Rightarrow> int \<Rightarrow> bytes \<Rightarrow> 'w \<Rightarrow> int \<times> 'w"
  os_shutdown :: "int \<Rightarrow> int \<Rightarrow> 'w \<Rightarrow> int \<times> 'w"
  os_close :: "int \<Rightarrow> 'w \<Rightarrow> int \<times> 'w"
  os_fcntl :: "int \<Rightarrow> int \<Rightarrow> int \<Rightarrow> 'w \<Rightarrow> int \<times> 'w"
  os_ioctl :: "int \<Rightarrow> int \<Rightarrow> bytes \<Rightarrow> nat option \<Rightarrow> 'w \<Rightarrow> int \<times> bytes \<times> 'w"
  os_ioctlsocket :: "int \<Rightarrow> int \<Rightarrow> u32 \<Rightarrow> 'w \<Rightarrow> int \<times> u32 \<times> 'w"
  os_inet_pton :: "int \<Rightarrow> bytes \<Rightarrow> int \<times> bytes"
  os_inet_ntop :: "int \<Rightarrow> bytes \<Rightarrow> nat \<Rightarrow> bytes option"
  os_select :: "int \<Rightarrow> bool list option \<Rightarrow> bool list option \<Rightarrow> bool list option \<Rightarrow> (int \<times> int) option
     \<Rightarrow> 'w \<Rightarrow> int \<times> bool list \<times> bool list \<times> bool list \<times> (int \<times> int) \<times> 'w"
  os_getaddrinfo :: "bytes option \<Rightarrow> bytes option \<Rightarrow> (int \<times> int \<times> int \<times> int) option \<Rightarrow> 'w
     \<Rightarrow> int \<times> addrinfo list \<times> 'w"
  os_getsockname :: "int \<Rightarrow> 'w \<Rightarrow> int \<times> sockaddr \<times> 'w"
  guest_malloc :: "u32 \<Rightarrow> bytes \<Rightarrow> 'w \<Rightarrow> u32 \<times> bytes \<times> 'w"
  guest_free :: "u32 \<Rightarrow> bytes \<Rightarrow> 'w \<Rightarrow> bytes \<times> 'w"

text \<open>The state a shim works on: guest memory, the list of socket flags, the host.\<close>

record 'w shim =
  sh_mem :: bytes
  sh_flags :: "(int \<times> int) list"
  sh_world :: 'w

type_synonym 'w shim_result = "(u32 \<times> 'w shim) option"

abbreviation minus_one :: u32 where "minus_one \<equiv> - 1"

abbreviation of_int_result :: "int \<Rightarrow> u32" where "of_int_result i \<equiv> word_of_int i"

section \<open>Socket flags on hosts without fcntl\<close>

text \<open>
  \<^theory_text>\<open>g_socket_flag_states\<close>: a linked list of descriptor and guest flags, a new
  node in front. Running out of memory for a node is not modelled.
\<close>

definition socket_flag_state_find :: "(int \<times> int) list \<Rightarrow> int \<Rightarrow> int option" where
  "socket_flag_state_find l fd = map_option snd (List.find (\<lambda>e. fst e = fd) l)"

definition socket_flag_state_ensure :: "(int \<times> int) list \<Rightarrow> int \<Rightarrow> (int \<times> int) list" where
  "socket_flag_state_ensure l fd = (if socket_flag_state_find l fd \<noteq> None then l else (fd, 0) # l)"

text \<open>Writing \<^theory_text>\<open>guest_flags\<close> through the node pointer \<^theory_text>\<open>find\<close> returned.\<close>

fun write_flags :: "(int \<Rightarrow> int) \<Rightarrow> int \<Rightarrow> (int \<times> int) list \<Rightarrow> (int \<times> int) list" where
  "write_flags f fd [] = []"
| "write_flags f fd (e # l) = (if fst e = fd then (fd, f (snd e)) # l else e # write_flags f fd l)"

definition socket_flag_state_register :: "(int \<times> int) list \<Rightarrow> int \<Rightarrow> (int \<times> int) list" where
  "socket_flag_state_register l fd =
    (if fd < 0 then l else write_flags (\<lambda>_. 0) fd (socket_flag_state_ensure l fd))"

fun socket_flag_state_unregister :: "(int \<times> int) list \<Rightarrow> int \<Rightarrow> (int \<times> int) list" where
  "socket_flag_state_unregister [] fd = []"
| "socket_flag_state_unregister (e # l) fd =
    (if fst e = fd then l else e # socket_flag_state_unregister l fd)"

definition socket_flag_state_get :: "(int \<times> int) list \<Rightarrow> int \<Rightarrow> int \<times> bool" where
  "socket_flag_state_get l fd =
    (case socket_flag_state_find l fd of Some fl \<Rightarrow> (fl, True) | None \<Rightarrow> (0, False))"

definition socket_flag_state_set :: "(int \<times> int) list \<Rightarrow> int \<Rightarrow> int \<Rightarrow> (int \<times> int) list" where
  "socket_flag_state_set l fd fl = write_flags (\<lambda>_. fl) fd (socket_flag_state_ensure l fd)"

definition socket_flag_state_set_nonblock :: "(int \<times> int) list \<Rightarrow> int \<Rightarrow> bool \<Rightarrow> (int \<times> int) list" where
  "socket_flag_state_set_nonblock l fd enabled =
    write_flags (\<lambda>fl. if enabled then fl OR 0x800 else fl AND NOT 0x800) fd
      (socket_flag_state_ensure l fd)"

definition djgpp_set_socket_nonblocking ::
  "host_config \<Rightarrow> 'w host_os \<Rightarrow> int \<Rightarrow> bool \<Rightarrow> 'w shim \<Rightarrow> int \<times> 'w shim" where
  "djgpp_set_socket_nonblocking hc os fd enabled s =
    (case os_ioctlsocket os fd (c_FIONBIO hc) (if enabled then 1 else 0) (sh_world s) of
       (res, mode, w) \<Rightarrow>
         let s1 = s\<lparr> sh_world := w \<rparr>
         in (res, if res = 0
                  then s1\<lparr> sh_flags := socket_flag_state_set_nonblock (sh_flags s1) fd enabled \<rparr>
                  else s1))"

lemma find_flags_Cons:
  "socket_flag_state_find (e # l) fd = (if fst e = fd then Some (snd e) else socket_flag_state_find l fd)"
  by (simp add: socket_flag_state_find_def)

lemma find_flags_Nil [simp]: "socket_flag_state_find [] fd = None"
  by (simp add: socket_flag_state_find_def)

lemma find_flags_dom: "socket_flag_state_find l fd = None \<longleftrightarrow> fd \<notin> fst ` set l"
  by (induction l) (auto simp: find_flags_Cons)

lemma find_write_flags:
  "socket_flag_state_find (write_flags f fd l) fd' =
    (if fd' = fd then map_option f (socket_flag_state_find l fd) else socket_flag_state_find l fd')"
  by (induction l) (auto simp: find_flags_Cons)

lemma fst_write_flags [simp]: "map fst (write_flags f fd l) = map fst l"
  by (induction l) auto

lemma ensure_flags_distinct: "distinct (map fst l) \<Longrightarrow> distinct (map fst (socket_flag_state_ensure l fd))"
  using find_flags_dom [of l fd] by (auto simp: socket_flag_state_ensure_def)

lemma find_ensure_flags:
  "socket_flag_state_find (socket_flag_state_ensure l fd) fd' =
    (if fd' = fd \<and> socket_flag_state_find l fd = None then Some 0 else socket_flag_state_find l fd')"
  by (auto simp: socket_flag_state_ensure_def find_flags_Cons)

lemma find_unregister:
  "distinct (map fst l) \<Longrightarrow> socket_flag_state_find (socket_flag_state_unregister l fd) fd' =
    (if fd' = fd then None else socket_flag_state_find l fd')"
proof (induction l)
  case (Cons e l)
  then have "socket_flag_state_find l (fst e) = None" by (simp add: find_flags_dom)
  with Cons show ?case by (auto simp: find_flags_Cons)
qed simp

lemma unregister_subset: "set (map fst (socket_flag_state_unregister l fd)) \<subseteq> set (map fst l)"
  by (induction l) auto

lemma unregister_distinct:
  "distinct (map fst l) \<Longrightarrow> distinct (map fst (socket_flag_state_unregister l fd))"
  using unregister_subset by (induction l) fastforce+

text \<open>The flag list is a keyed store: one node per descriptor, set and unregister are its updates.\<close>

interpretation sf: keyed_store "\<lambda>l. distinct (map fst l)" socket_flag_state_find "[]"
  "\<lambda>fd fl l. socket_flag_state_set l fd fl" "\<lambda>fd l. socket_flag_state_unregister l fd"
proof unfold_locales
  fix l :: "(int \<times> int) list" and fd fl :: int
  assume d: "distinct (map fst l)"
  show "distinct (map fst (socket_flag_state_set l fd fl))"
    using d by (simp add: socket_flag_state_set_def ensure_flags_distinct)
  show "socket_flag_state_find (socket_flag_state_set l fd fl) = (socket_flag_state_find l)(fd \<mapsto> fl)"
    by (rule ext) (auto simp: socket_flag_state_set_def find_write_flags find_ensure_flags)
  show "distinct (map fst (socket_flag_state_unregister l fd))"
    using d by (rule unregister_distinct)
  show "socket_flag_state_find (socket_flag_state_unregister l fd) = (socket_flag_state_find l)(fd := None)"
    using d by (auto simp: find_unregister)
qed simp_all

section \<open>Translation of constants\<close>

definition translate_domain_g2h :: "host_config \<Rightarrow> int \<Rightarrow> int" where
  "translate_domain_g2h hc d =
    (if d = 0 then c_AF_UNSPEC hc else if d = 2 then c_AF_INET hc
     else if d = 10 then (if hc_downgrade_ipv6 hc then c_AF_INET hc else c_AF_INET6 hc)
     else -1)"

definition translate_domain_h2g :: "host_config \<Rightarrow> int \<Rightarrow> int" where
  "translate_domain_h2g hc d =
    (if d = c_AF_UNSPEC hc then 0 else if d = c_AF_INET hc then 2
     else if d = c_AF_INET6 hc then 10 else d)"

definition translate_socktype_g2h :: "host_config \<Rightarrow> int \<Rightarrow> int" where
  "translate_socktype_g2h hc t =
    (if t = 1 then c_SOCK_STREAM hc else if t = 2 then c_SOCK_DGRAM hc else -1)"

definition translate_socktype_h2g :: "host_config \<Rightarrow> int \<Rightarrow> int" where
  "translate_socktype_h2g hc t =
    (if t = c_SOCK_STREAM hc then 1 else if t = c_SOCK_DGRAM hc then 2 else t)"

definition translate_protocol_g2h :: "host_config \<Rightarrow> int \<Rightarrow> int" where
  "translate_protocol_g2h hc p =
    (if p = 0 then c_IPPROTO_IP hc else if p = 6 then c_IPPROTO_TCP hc
     else if p = 17 then c_IPPROTO_UDP hc else if p = 41 then c_IPPROTO_IPV6 hc else 0)"

definition translate_protocol_h2g :: "host_config \<Rightarrow> int \<Rightarrow> int" where
  "translate_protocol_h2g hc p =
    (if p = c_IPPROTO_IP hc then 0 else if p = c_IPPROTO_TCP hc then 6
     else if p = c_IPPROTO_UDP hc then 17 else if p = c_IPPROTO_IPV6 hc then 41 else p)"

definition translate_level_g2h :: "host_config \<Rightarrow> int \<Rightarrow> int" where
  "translate_level_g2h hc l =
    (if l = 1 then c_SOL_SOCKET hc else if l = 41 then c_IPPROTO_IPV6 hc else l)"

definition translate_optname_g2h :: "host_config \<Rightarrow> int \<Rightarrow> int \<Rightarrow> int" where
  "translate_optname_g2h hc level optname =
    (if level = 1 then (if optname = 2 then c_SO_REUSEADDR hc
                        else if optname = 4 then c_SO_ERROR hc else optname)
     else if level = 41 then (if optname = 26 then c_IPV6_V6ONLY hc else optname)
     else optname)"

definition translate_shutdown_how_g2h :: "host_config \<Rightarrow> int \<Rightarrow> int" where
  "translate_shutdown_how_g2h hc how =
    (if how = 0 then c_SHUT_RD hc else if how = 1 then c_SHUT_WR hc
     else if how = 2 then c_SHUT_RDWR hc else how)"

definition translate_ioctl_req_g2h :: "host_config \<Rightarrow> int \<Rightarrow> int" where
  "translate_ioctl_req_g2h hc r = (if r = 0x5421 then c_FIONBIO hc else r)"

definition translate_fcntl_cmd_g2h :: "host_config \<Rightarrow> int \<Rightarrow> int" where
  "translate_fcntl_cmd_g2h hc c =
    (if c = 3 then c_F_GETFL hc else if c = 4 then c_F_SETFL hc else c)"

definition translate_fcntl_flags_g2h :: "host_config \<Rightarrow> int \<Rightarrow> int" where
  "translate_fcntl_flags_g2h hc fl = (if fl AND 0x800 \<noteq> 0 then c_O_NONBLOCK hc else 0)"

definition translate_fcntl_flags_h2g :: "host_config \<Rightarrow> int \<Rightarrow> int" where
  "translate_fcntl_flags_h2g hc fl = (if fl AND c_O_NONBLOCK hc \<noteq> 0 then 0x800 else 0)"

section \<open>Translation of addresses\<close>

text \<open>
  \<^theory_text>\<open>sockaddr_g2h\<close>: the outer option is a fault, the inner one the \<^theory_text>\<open>-1\<close> of the
  code. Ports, flow labels and scopes are copied without a change of byte order.
\<close>

definition downgrade_address :: "bytes \<Rightarrow> bytes" where
  "downgrade_address raw_ip =
    (let is_mapped = (take 10 raw_ip = replicate 10 0 \<and> raw_ip ! 10 = 0xff \<and> raw_ip ! 11 = 0xff);
         is_any = (raw_ip = replicate 16 0)
     in if is_mapped then drop 12 raw_ip else if is_any then [0, 0, 0, 0] else [127, 0, 0, 1])"

definition sockaddr_g2h :: "host_config \<Rightarrow> bytes \<Rightarrow> nat \<Rightarrow> u32 \<Rightarrow> sockaddr option option" where
  "sockaddr_g2h hc m a len =
    (if len < 2 then Some None
     else do {
       (family :: u16) \<leftarrow> load_word 2 m a;
       if family = 2 then
         (if len < 16 then Some None
          else do { port \<leftarrow> load_word 2 m (a + 2); ip \<leftarrow> load_bytes m (a + 4) 4;
                    Some (Some (Sin port ip)) })
       else if family = 10 then
         (if len < 28 then Some None
          else if hc_downgrade_ipv6 hc then
            do { port \<leftarrow> load_word 2 m (a + 2); raw_ip \<leftarrow> load_bytes m (a + 8) 16;
                 Some (Some (Sin port (downgrade_address raw_ip))) }
          else
            do { port \<leftarrow> load_word 2 m (a + 2); flow \<leftarrow> load_word 4 m (a + 4);
                 ip \<leftarrow> load_bytes m (a + 8) 16; scope \<leftarrow> load_word 4 m (a + 24);
                 Some (Some (Sin6 port flow ip scope)) })
       else Some None })"

text \<open>
  \<^theory_text>\<open>sockaddr_h2g\<close> as the bytes it writes: the buffer is cleared over the full
  length of the structure before the fields are stored.
\<close>

definition sockaddr_h2g :: "host_config \<Rightarrow> sockaddr \<Rightarrow> u32 \<Rightarrow> bytes option" where
  "sockaddr_h2g hc sa max_len =
    (case sa of
       Sin port ip \<Rightarrow>
         (if max_len < 16 then None
          else Some (le_encode 2 (2 :: u16) @ le_encode 2 port @ ip @ replicate 8 0))
     | Sin6 port flow ip scope \<Rightarrow>
         (if hc_downgrade_ipv6 hc then None
          else if max_len < 28 then None
          else Some (le_encode 2 (10 :: u16) @ le_encode 2 port @ le_encode 4 flow @ ip
                     @ le_encode 4 scope))
     | OtherFamily \<Rightarrow> None)"

fun sockaddr_wf :: "sockaddr \<Rightarrow> bool" where
  "sockaddr_wf (Sin port ip) \<longleftrightarrow> length ip = 4"
| "sockaddr_wf (Sin6 port flow ip scope) \<longleftrightarrow> length ip = 16"
| "sockaddr_wf OtherFamily \<longleftrightarrow> True"

lemma sockaddr_h2g_length:
  assumes "sockaddr_h2g hc sa n = Some bs" "sockaddr_wf sa"
  shows "length bs = (case sa of Sin6 _ _ _ _ \<Rightarrow> 28 | _ \<Rightarrow> 16) \<and> length bs \<le> unat n"
  using assms by (cases sa) (auto simp: sockaddr_h2g_def word_less_nat_alt split: if_splits)

lemma sockaddr_g2h_wf:
  assumes "sockaddr_g2h hc m a len = Some (Some sa)"
  shows "sockaddr_wf sa"
proof -
  have "length (downgrade_address ip) = 4" if "length ip = 16" for ip
    using that by (simp add: downgrade_address_def Let_def)
  with assms show ?thesis
    by (auto simp: sockaddr_g2h_def split: if_splits Option.bind_splits dest: load_bytes_Some_length)
qed

section \<open>Descriptor sets\<close>

text \<open>
  A guest set is an array of 64-bit words; a host set is the bit of each
  descriptor below \<^theory_text>\<open>FD_SETSIZE\<close>, and touching a bit past it leaves the array.
\<close>

definition guest_fd_bit :: "bytes \<Rightarrow> nat \<Rightarrow> nat \<Rightarrow> bool option" where
  "guest_fd_bit m a i = map_option (\<lambda>w. bit (w :: u64) (i mod 64)) (load_word 8 m (a + 8 * (i div 64)))"

fun fd_set_g2h_loop :: "bytes \<Rightarrow> nat \<Rightarrow> nat list \<Rightarrow> bool list \<Rightarrow> bool list option" where
  "fd_set_g2h_loop m a [] fds = Some fds"
| "fd_set_g2h_loop m a (i # is) fds =
    (case guest_fd_bit m a i of None \<Rightarrow> None
     | Some b \<Rightarrow> if b then (if i < length fds then fd_set_g2h_loop m a is (fds[i := True]) else None)
                 else fd_set_g2h_loop m a is fds)"

definition fd_set_g2h :: "host_config \<Rightarrow> bytes \<Rightarrow> nat \<Rightarrow> int \<Rightarrow> bool list option" where
  "fd_set_g2h hc m a nfds = fd_set_g2h_loop m a [0..<nat nfds] (replicate (c_FD_SETSIZE hc) False)"

fun fd_set_h2g_loop :: "bool list \<Rightarrow> nat \<Rightarrow> nat list \<Rightarrow> bytes \<Rightarrow> bytes option" where
  "fd_set_h2g_loop fds a [] m = Some m"
| "fd_set_h2g_loop fds a (i # is) m =
    (if i < length fds then
       (if fds ! i then
          (case load_word 8 m (a + 8 * (i div 64)) of None \<Rightarrow> None
           | Some w \<Rightarrow>
             (case store_word 8 m (a + 8 * (i div 64)) (Bit_Operations.set_bit (i mod 64) (w :: u64)) of
                None \<Rightarrow> None | Some m' \<Rightarrow> fd_set_h2g_loop fds a is m'))
        else fd_set_h2g_loop fds a is m)
     else None)"

text \<open>
  The clearing length is computed in \<^theory_text>\<open>int\<close> and read as a \<^theory_text>\<open>size_t\<close>: a sum past
  the range of \<^theory_text>\<open>int\<close> has no defined value, a negative length is a huge one. For a
  negative sum the division truncates toward zero.
\<close>

definition fd_set_h2g :: "bool list \<Rightarrow> bytes \<Rightarrow> nat \<Rightarrow> int \<Rightarrow> bytes option" where
  "fd_set_h2g fds m a nfds =
    (if nfds + 63 > 2147483647 \<or> nfds \<le> -127 then None
     else case store_bytes m a (replicate (8 * (nat (nfds + 63) div 64)) 0) of
            None \<Rightarrow> None
          | Some m' \<Rightarrow> fd_set_h2g_loop fds a [0..<nat nfds] m')"

section \<open>The shims\<close>

definition socket_socket ::
  "host_config \<Rightarrow> 'w host_os \<Rightarrow> u32 \<Rightarrow> u32 \<Rightarrow> u32 \<Rightarrow> 'w shim \<Rightarrow> 'w shim_result" where
  "socket_socket hc os domain type protocol s =
    (case os_socket os (translate_domain_g2h hc (sint domain)) (translate_socktype_g2h hc (sint type))
            (translate_protocol_g2h hc (sint protocol)) (sh_world s) of
       (res, w) \<Rightarrow>
         Some (of_int_result res, s\<lparr> sh_world := w,
           sh_flags := (if hc_djgpp hc \<and> 0 \<le> res
                        then socket_flag_state_register (sh_flags s) res else sh_flags s) \<rparr>))"

definition socket_bind ::
  "host_config \<Rightarrow> 'w host_os \<Rightarrow> u32 \<Rightarrow> u32 \<Rightarrow> u32 \<Rightarrow> 'w shim \<Rightarrow> 'w shim_result" where
  "socket_bind hc os sockfd addr_ptr addrlen s =
    (if out_of_range (sh_mem s) addr_ptr addrlen then Some (minus_one, s)
     else case sockaddr_g2h hc (sh_mem s) (unat addr_ptr) addrlen of
       None \<Rightarrow> None
     | Some None \<Rightarrow> Some (minus_one, s)
     | Some (Some sa) \<Rightarrow>
        (case os_setsockopt os (sint sockfd) (c_SOL_SOCKET hc) (c_SO_REUSEADDR hc)
                (le_encode 4 (1 :: u32)) (sh_world s) of
           (_, w) \<Rightarrow>
             (case os_bind os (sint sockfd) sa w of
                (res, w') \<Rightarrow> Some (of_int_result res, s\<lparr> sh_world := w' \<rparr>))))"

definition socket_listen :: "'w host_os \<Rightarrow> u32 \<Rightarrow> u32 \<Rightarrow> 'w shim \<Rightarrow> 'w shim_result" where
  "socket_listen os sockfd backlog s =
    (case os_listen os (sint sockfd) (sint backlog) (sh_world s) of
       (res, w) \<Rightarrow> Some (of_int_result res, s\<lparr> sh_world := w \<rparr>))"

text \<open>
  The tail shared by accept, recvfrom and getsockname: the address goes into a
  guest buffer whose capacity the guest stored at \<^theory_text>\<open>addrlen_ptr\<close>; a host address
  that cannot be translated leaves the buffer and stores length 0.
\<close>

definition return_address ::
  "host_config \<Rightarrow> sockaddr \<Rightarrow> u32 \<Rightarrow> u32 \<Rightarrow> int \<Rightarrow> 'w shim \<Rightarrow> 'w shim_result" where
  "return_address hc sa addr_ptr addrlen_ptr res s =
    (if 0 \<le> res \<and> addr_ptr \<noteq> 0 \<and> addrlen_ptr \<noteq> 0 then
       do { max_len \<leftarrow> load_word 4 (sh_mem s) (unat addrlen_ptr);
            if out_of_range (sh_mem s) addr_ptr max_len then Some (minus_one, s)
            else case sockaddr_h2g hc sa max_len of
                None \<Rightarrow> do { m \<leftarrow> store_word 4 (sh_mem s) (unat addrlen_ptr) (0 :: u32);
                            Some (of_int_result res, s\<lparr> sh_mem := m \<rparr>) }
              | Some bs \<Rightarrow>
                  do { m \<leftarrow> store_bytes (sh_mem s) (unat addr_ptr) bs;
                       m' \<leftarrow> store_word 4 m (unat addrlen_ptr) (word_of_nat (length bs) :: u32);
                       Some (of_int_result res, s\<lparr> sh_mem := m' \<rparr>) } }
     else Some (of_int_result res, s))"

definition socket_accept ::
  "host_config \<Rightarrow> 'w host_os \<Rightarrow> u32 \<Rightarrow> u32 \<Rightarrow> u32 \<Rightarrow> 'w shim \<Rightarrow> 'w shim_result" where
  "socket_accept hc os sockfd addr_ptr addrlen_ptr s =
    (if addrlen_ptr \<noteq> 0 \<and> out_of_range (sh_mem s) addrlen_ptr 4 then Some (minus_one, s)
     else case os_accept os (sint sockfd) (sh_world s) of
       (res, sa, w) \<Rightarrow>
         return_address hc sa addr_ptr addrlen_ptr res
           (s\<lparr> sh_world := w,
              sh_flags := (if hc_djgpp hc \<and> 0 \<le> res
                           then socket_flag_state_register (sh_flags s) res else sh_flags s) \<rparr>))"

definition socket_connect ::
  "host_config \<Rightarrow> 'w host_os \<Rightarrow> u32 \<Rightarrow> u32 \<Rightarrow> u32 \<Rightarrow> 'w shim \<Rightarrow> 'w shim_result" where
  "socket_connect hc os sockfd addr_ptr addrlen s =
    (if out_of_range (sh_mem s) addr_ptr addrlen then Some (minus_one, s)
     else case sockaddr_g2h hc (sh_mem s) (unat addr_ptr) addrlen of
       None \<Rightarrow> None
     | Some None \<Rightarrow> Some (minus_one, s)
     | Some (Some sa) \<Rightarrow>
        (case os_connect os (sint sockfd) sa (sh_world s) of
           (res, w) \<Rightarrow> Some (of_int_result res, s\<lparr> sh_world := w \<rparr>)))"

definition socket_send ::
  "'w host_os \<Rightarrow> u32 \<Rightarrow> u32 \<Rightarrow> u32 \<Rightarrow> u32 \<Rightarrow> 'w shim \<Rightarrow> 'w shim_result" where
  "socket_send os sockfd buf_ptr len flags s =
    (if out_of_range (sh_mem s) buf_ptr len then Some (minus_one, s)
     else do { buf \<leftarrow> load_bytes (sh_mem s) (unat buf_ptr) (unat len);
               case os_send os (sint sockfd) buf (sint flags) (sh_world s) of
                 (res, w) \<Rightarrow> Some (of_int_result res, s\<lparr> sh_world := w \<rparr>) })"

text \<open>Receiving: the host fills a prefix of the buffer it is handed.\<close>

definition socket_recv ::
  "'w host_os \<Rightarrow> u32 \<Rightarrow> u32 \<Rightarrow> u32 \<Rightarrow> u32 \<Rightarrow> 'w shim \<Rightarrow> 'w shim_result" where
  "socket_recv os sockfd buf_ptr len flags s =
    (if out_of_range (sh_mem s) buf_ptr len then Some (minus_one, s)
     else do { _ \<leftarrow> load_bytes (sh_mem s) (unat buf_ptr) (unat len);
               case os_recv os (sint sockfd) (unat len) (sint flags) (sh_world s) of
                 (res, got, w) \<Rightarrow>
                   do { m \<leftarrow> store_bytes (sh_mem s) (unat buf_ptr) got;
                        Some (of_int_result res, s\<lparr> sh_mem := m, sh_world := w \<rparr>) } })"

text \<open>The destination of \<^theory_text>\<open>sendto\<close> is read without a bounds check of its own.\<close>

definition socket_sendto ::
  "host_config \<Rightarrow> 'w host_os \<Rightarrow> u32 \<Rightarrow> u32 \<Rightarrow> u32 \<Rightarrow> u32 \<Rightarrow> u32 \<Rightarrow> u32 \<Rightarrow> 'w shim \<Rightarrow> 'w shim_result" where
  "socket_sendto hc os sockfd buf_ptr len flags dest_addr_ptr addrlen s =
    (if out_of_range (sh_mem s) buf_ptr len then Some (minus_one, s)
     else do {
       dest \<leftarrow> (if dest_addr_ptr \<noteq> 0 then sockaddr_g2h hc (sh_mem s) (unat dest_addr_ptr) addrlen
               else Some None);
       buf \<leftarrow> load_bytes (sh_mem s) (unat buf_ptr) (unat len);
       case os_sendto os (sint sockfd) buf (sint flags) dest (sh_world s) of
         (res, w) \<Rightarrow> Some (of_int_result res, s\<lparr> sh_world := w \<rparr>) })"

definition socket_recvfrom ::
  "host_config \<Rightarrow> 'w host_os \<Rightarrow> u32 \<Rightarrow> u32 \<Rightarrow> u32 \<Rightarrow> u32 \<Rightarrow> u32 \<Rightarrow> u32 \<Rightarrow> 'w shim \<Rightarrow> 'w shim_result" where
  "socket_recvfrom hc os sockfd buf_ptr len flags src_addr_ptr addrlen_ptr s =
    (if out_of_range (sh_mem s) buf_ptr len then Some (minus_one, s)
     else if addrlen_ptr \<noteq> 0 \<and> out_of_range (sh_mem s) addrlen_ptr 4 then Some (minus_one, s)
     else do { _ \<leftarrow> load_bytes (sh_mem s) (unat buf_ptr) (unat len);
               case os_recvfrom os (sint sockfd) (unat len) (sint flags) (sh_world s) of
                 (res, got, sa, w) \<Rightarrow>
                   do { m \<leftarrow> store_bytes (sh_mem s) (unat buf_ptr) got;
                        return_address hc sa src_addr_ptr addrlen_ptr res
                          (s\<lparr> sh_mem := m, sh_world := w \<rparr>) } })"

definition socket_setsockopt ::
  "host_config \<Rightarrow> 'w host_os \<Rightarrow> u32 \<Rightarrow> u32 \<Rightarrow> u32 \<Rightarrow> u32 \<Rightarrow> u32 \<Rightarrow> 'w shim \<Rightarrow> 'w shim_result" where
  "socket_setsockopt hc os sockfd level optname optval_ptr optlen s =
    (if out_of_range (sh_mem s) optval_ptr optlen then Some (minus_one, s)
     else let host_level = translate_level_g2h hc (sint level);
              host_optname = translate_optname_g2h hc (sint level) (sint optname)
          in if hc_downgrade_ipv6 hc \<and> host_level = c_IPPROTO_IPV6 hc then Some (0, s)
             else do { val \<leftarrow> load_bytes (sh_mem s) (unat optval_ptr) (unat optlen);
                       case os_setsockopt os (sint sockfd) host_level host_optname val (sh_world s) of
                         (res, w) \<Rightarrow> Some (of_int_result res, s\<lparr> sh_world := w \<rparr>) })"

definition socket_shutdown :: "host_config \<Rightarrow> 'w host_os \<Rightarrow> u32 \<Rightarrow> u32 \<Rightarrow> 'w shim \<Rightarrow> 'w shim_result" where
  "socket_shutdown hc os sockfd how s =
    (case os_shutdown os (sint sockfd) (translate_shutdown_how_g2h hc (sint how)) (sh_world s) of
       (res, w) \<Rightarrow> Some (of_int_result res, s\<lparr> sh_world := w \<rparr>))"

definition socket_close :: "host_config \<Rightarrow> 'w host_os \<Rightarrow> u32 \<Rightarrow> 'w shim \<Rightarrow> 'w shim_result" where
  "socket_close hc os sockfd s =
    (case os_close os (sint sockfd) (sh_world s) of
       (res, w) \<Rightarrow> Some (of_int_result res, s\<lparr> sh_world := w,
          sh_flags := (if hc_djgpp hc \<and> res = 0
                       then socket_flag_state_unregister (sh_flags s) (sint sockfd) else sh_flags s) \<rparr>))"

definition socket_fcntl ::
  "host_config \<Rightarrow> 'w host_os \<Rightarrow> u32 \<Rightarrow> u32 \<Rightarrow> u32 \<Rightarrow> 'w shim \<Rightarrow> 'w shim_result" where
  "socket_fcntl hc os fd cmd arg s =
    (let host_cmd = translate_fcntl_cmd_g2h hc (sint cmd);
         call = (\<lambda>s. case os_fcntl os (sint fd) host_cmd
                     (if host_cmd = c_F_SETFL hc then translate_fcntl_flags_g2h hc (sint arg) else sint arg)
                     (sh_world s) of
            (res, w) \<Rightarrow>
              Some (if host_cmd = c_F_GETFL hc \<and> 0 \<le> res
                    then of_int_result (translate_fcntl_flags_h2g hc res) else of_int_result res,
                    s\<lparr> sh_world := w \<rparr>))
     in if hc_djgpp hc \<and> host_cmd = c_F_GETFL hc then
          (case socket_flag_state_get (sh_flags s) (sint fd) of
             (fl, True) \<Rightarrow> Some (of_int_result fl, s)
           | (_, False) \<Rightarrow> call s)
        else if hc_djgpp hc \<and> host_cmd = c_F_SETFL hc then
          (case djgpp_set_socket_nonblocking hc os (sint fd) (arg AND 0x800 \<noteq> 0) s of
             (res, s1) \<Rightarrow>
               if res = 0
               then Some (0, s1\<lparr> sh_flags := socket_flag_state_set (sh_flags s1) (sint fd) (sint arg) \<rparr>)
               else call s1)
        else call s)"

definition ioctl_host ::
  "'w host_os \<Rightarrow> u32 \<Rightarrow> int \<Rightarrow> u32 \<Rightarrow> 'w shim \<Rightarrow> 'w shim_result" where
  "ioctl_host os fd host_request argp s =
    (if argp \<noteq> 0 \<and> out_of_range (sh_mem s) argp 4 then Some (minus_one, s)
     else case os_ioctl os (sint fd) host_request (sh_mem s)
                 (if argp \<noteq> 0 then Some (unat argp) else None) (sh_world s) of
       (res, m, w) \<Rightarrow> Some (of_int_result res, s\<lparr> sh_mem := m, sh_world := w \<rparr>))"

definition socket_ioctl ::
  "host_config \<Rightarrow> 'w host_os \<Rightarrow> u32 \<Rightarrow> u32 \<Rightarrow> u32 \<Rightarrow> 'w shim \<Rightarrow> 'w shim_result" where
  "socket_ioctl hc os fd request argp s =
    (let host_request = translate_ioctl_req_g2h hc (uint request)
     in if hc_djgpp hc \<and> host_request = c_FIONBIO hc then
          (if argp = 0 \<or> out_of_range (sh_mem s) argp 4 then Some (minus_one, s)
           else do {
             (arg :: u32) \<leftarrow> load_word 4 (sh_mem s) (unat argp);
             case os_ioctlsocket os (sint fd) (c_FIONBIO hc) (if arg \<noteq> 0 then 1 else 0) (sh_world s) of
               (res, mode, w) \<Rightarrow>
                 (let s1 = s\<lparr> sh_world := w \<rparr>
                  in if res = 0 then
                       do { m \<leftarrow> store_word 4 (sh_mem s1) (unat argp) mode;
                            Some (0, s1\<lparr> sh_mem := m, sh_flags :=
                              socket_flag_state_set_nonblock (sh_flags s1) (sint fd) (mode \<noteq> 0) \<rparr>) }
                     else ioctl_host os fd host_request argp s1) })
        else ioctl_host os fd host_request argp s)"

definition socket_inet_pton ::
  "host_config \<Rightarrow> 'w host_os \<Rightarrow> u32 \<Rightarrow> u32 \<Rightarrow> u32 \<Rightarrow> 'w shim \<Rightarrow> 'w shim_result" where
  "socket_inet_pton hc os af src_ptr dst_ptr s =
    (if src_ptr = 0 \<or> dst_ptr = 0 \<or> mem_size (sh_mem s) \<le> src_ptr \<or> mem_size (sh_mem s) \<le> dst_ptr
     then Some (0, s)
     else case c_string (drop (unat src_ptr) (take (unat (mem_size (sh_mem s))) (sh_mem s))) of
       None \<Rightarrow> Some (0, s)
     | Some str \<Rightarrow>
        (let host_af = translate_domain_g2h hc (sint af)
         in if host_af < 0 then Some (0, s)
            else case os_inet_pton os host_af str of
              (res, written) \<Rightarrow>
                do { m \<leftarrow> store_bytes (sh_mem s) (unat dst_ptr) written;
                     Some (of_int_result res, s\<lparr> sh_mem := m \<rparr>) }))"

definition address_size :: "host_config \<Rightarrow> int \<Rightarrow> nat" where
  "address_size hc host_af =
    (if host_af = c_AF_INET hc then 4 else if host_af = c_AF_INET6 hc then 16 else 0)"

definition socket_inet_ntop ::
  "host_config \<Rightarrow> 'w host_os \<Rightarrow> u32 \<Rightarrow> u32 \<Rightarrow> u32 \<Rightarrow> u32 \<Rightarrow> 'w shim \<Rightarrow> 'w shim_result" where
  "socket_inet_ntop hc os af src_ptr dst_ptr buf_size s =
    (if src_ptr = 0 \<or> dst_ptr = 0 \<or> out_of_range (sh_mem s) dst_ptr buf_size then Some (0, s)
     else let host_af = translate_domain_g2h hc (sint af)
          in if host_af < 0 then Some (0, s)
             else do { ip \<leftarrow> load_bytes (sh_mem s) (unat src_ptr) (address_size hc host_af);
                       case os_inet_ntop os host_af ip (unat buf_size) of
                         None \<Rightarrow> Some (0, s)
                       | Some str \<Rightarrow>
                           do { m \<leftarrow> store_bytes (sh_mem s) (unat dst_ptr) str;
                                Some (dst_ptr, s\<lparr> sh_mem := m \<rparr>) } })"

definition select_read_set :: "host_config \<Rightarrow> bytes \<Rightarrow> u32 \<Rightarrow> int \<Rightarrow> bool list option option" where
  "select_read_set hc m p nfds =
    (if p = 0 then Some None else map_option Some (fd_set_g2h hc m (unat p) nfds))"

definition select_write_set :: "bool list \<Rightarrow> bytes \<Rightarrow> u32 \<Rightarrow> int \<Rightarrow> bytes option" where
  "select_write_set fds m p nfds = (if p = 0 then Some m else fd_set_h2g fds m (unat p) nfds)"

definition socket_select ::
  "host_config \<Rightarrow> 'w host_os \<Rightarrow> u32 \<Rightarrow> u32 \<Rightarrow> u32 \<Rightarrow> u32 \<Rightarrow> u32 \<Rightarrow> 'w shim \<Rightarrow> 'w shim_result" where
  "socket_select hc os nfds r_ptr w_ptr e_ptr timeout_ptr s =
    (let m = sh_mem s; n = sint nfds
     in if r_ptr \<noteq> 0 \<and> out_of_range m r_ptr 128 then Some (minus_one, s)
        else if w_ptr \<noteq> 0 \<and> out_of_range m w_ptr 128 then Some (minus_one, s)
        else if e_ptr \<noteq> 0 \<and> out_of_range m e_ptr 128 then Some (minus_one, s)
        else do {
          rs \<leftarrow> select_read_set hc m r_ptr n;
          ws \<leftarrow> select_read_set hc m w_ptr n;
          es \<leftarrow> select_read_set hc m e_ptr n;
          if timeout_ptr \<noteq> 0 \<and> out_of_range m timeout_ptr 16 then Some (minus_one, s)
          else do {
            tv \<leftarrow> (if timeout_ptr = 0 then Some None
                   else do { (sec :: u64) \<leftarrow> load_word 8 m (unat timeout_ptr);
                             (usec :: u64) \<leftarrow> load_word 8 m (unat timeout_ptr + 8);
                             Some (Some (sint sec, sint usec)) });
            case os_select os n rs ws es tv (sh_world s) of
              (res, rs', ws', es', tv', w) \<Rightarrow>
                if res < 0 then Some (of_int_result res, s\<lparr> sh_world := w \<rparr>)
                else do {
                  m1 \<leftarrow> select_write_set rs' m r_ptr n;
                  m2 \<leftarrow> select_write_set ws' m1 w_ptr n;
                  m3 \<leftarrow> select_write_set es' m2 e_ptr n;
                  m4 \<leftarrow> (if timeout_ptr = 0 then Some m3
                         else do { m5 \<leftarrow> store_word 8 m3 (unat timeout_ptr) (word_of_int (fst tv') :: u64);
                                   store_word 8 m5 (unat timeout_ptr + 8) (word_of_int (snd tv') :: u64) });
                  Some (of_int_result res, s\<lparr> sh_mem := m4, sh_world := w \<rparr>) } } })"

text \<open>\<^theory_text>\<open>malloc\<close> in the guest followed by a copy into the block.\<close>

definition guest_copy :: "'w host_os \<Rightarrow> bytes \<Rightarrow> bytes \<times> 'w \<Rightarrow> (u32 \<times> bytes \<times> 'w) option" where
  "guest_copy os bs st =
    (case guest_malloc os (word_of_nat (length bs)) (fst st) (snd st) of
       (p, m, w) \<Rightarrow> do { m' \<leftarrow> store_bytes m (unat p) bs; Some (p, m', w) })"

definition addrinfo_image :: "host_config \<Rightarrow> addrinfo \<Rightarrow> u32 \<Rightarrow> u32 \<Rightarrow> u32 \<Rightarrow> bytes" where
  "addrinfo_image hc ai addr_len addr canon =
     le_encode 4 (of_int_result (ai_flags ai))
   @ le_encode 4 (of_int_result (translate_domain_h2g hc (ai_family ai)))
   @ le_encode 4 (of_int_result (translate_socktype_h2g hc (ai_socktype ai)))
   @ le_encode 4 (of_int_result (translate_protocol_h2g hc (ai_protocol ai)))
   @ le_encode 4 addr_len @ le_encode 4 addr @ le_encode 4 canon @ le_encode 4 (0 :: u32)"

definition export_addrinfo ::
  "host_config \<Rightarrow> 'w host_os \<Rightarrow> addrinfo \<Rightarrow> bytes \<times> 'w \<Rightarrow> (u32 \<times> bytes \<times> 'w) option" where
  "export_addrinfo hc os ai st =
    (case guest_malloc os 32 (fst st) (snd st) of
       (wasm_ai, m, w) \<Rightarrow>
         do { (alen, addr, m1, w1) \<leftarrow>
                (case (case ai_addr ai of None \<Rightarrow> None | Some sa \<Rightarrow> sockaddr_h2g hc sa 128) of
                   None \<Rightarrow> Some (0, 0, m, w)
                 | Some bs \<Rightarrow> do { (p, m', w') \<leftarrow> guest_copy os bs (m, w);
                                  Some (word_of_nat (length bs), p, m', w') });
              (canon, m2, w2) \<leftarrow>
                (case ai_canonname ai of
                   None \<Rightarrow> Some (0, m1, w1)
                 | Some name \<Rightarrow> guest_copy os (name @ [0]) (m1, w1));
              m3 \<leftarrow> store_bytes m2 (unat wasm_ai) (addrinfo_image hc ai alen addr canon);
              Some (wasm_ai, m3, w2) })"

fun export_addrinfos ::
  "host_config \<Rightarrow> 'w host_os \<Rightarrow> u32 \<Rightarrow> u32 \<Rightarrow> addrinfo list \<Rightarrow> bytes \<times> 'w \<Rightarrow> (bytes \<times> 'w) option" where
  "export_addrinfos hc os res_ptr prev [] st = Some st"
| "export_addrinfos hc os res_ptr prev (ai # ais) st =
    do { (wasm_ai, m, w) \<leftarrow> export_addrinfo hc os ai st;
         m' \<leftarrow> store_word 4 m (unat (if prev = 0 then res_ptr else prev)) wasm_ai;
         export_addrinfos hc os res_ptr (wasm_ai + 28) ais (m', w) }"

definition guest_cstr :: "bytes \<Rightarrow> u32 \<Rightarrow> bytes option option" where
  "guest_cstr m p = (if p = 0 then Some None else map_option Some (load_cstr m (unat p)))"

definition guest_hints ::
  "host_config \<Rightarrow> bytes \<Rightarrow> u32 \<Rightarrow> (int \<times> int \<times> int \<times> int) option option" where
  "guest_hints hc m p =
    (if p = 0 then Some None
     else do { (fl :: u32) \<leftarrow> load_word 4 m (unat p); (fam :: u32) \<leftarrow> load_word 4 m (unat p + 4);
               (ty :: u32) \<leftarrow> load_word 4 m (unat p + 8); (pr :: u32) \<leftarrow> load_word 4 m (unat p + 12);
               Some (Some (sint fl, translate_domain_g2h hc (sint fam),
                 translate_socktype_g2h hc (sint ty), translate_protocol_g2h hc (sint pr))) })"

definition socket_getaddrinfo ::
  "host_config \<Rightarrow> 'w host_os \<Rightarrow> u32 \<Rightarrow> u32 \<Rightarrow> u32 \<Rightarrow> u32 \<Rightarrow> 'w shim \<Rightarrow> 'w shim_result" where
  "socket_getaddrinfo hc os node_ptr service_ptr hints_ptr res_ptr s =
    do { hints \<leftarrow> guest_hints hc (sh_mem s) hints_ptr;
         node \<leftarrow> guest_cstr (sh_mem s) node_ptr;
         service \<leftarrow> guest_cstr (sh_mem s) service_ptr;
         case os_getaddrinfo os node service hints (sh_world s) of
           (ret, ais, w) \<Rightarrow>
             if ret \<noteq> 0 then Some (of_int_result ret, s\<lparr> sh_world := w \<rparr>)
             else do { (m, w') \<leftarrow> export_addrinfos hc os res_ptr 0 ais (sh_mem s, w);
                       Some (0, s\<lparr> sh_mem := m, sh_world := w' \<rparr>) } }"

text \<open>
  The guest may hand back a cyclic list, on which the loop does not end; the
  fuel bounds the number of nodes walked, and running out of it is \<^theory_text>\<open>None\<close>.
\<close>

fun freeaddrinfo_loop :: "nat \<Rightarrow> 'w host_os \<Rightarrow> u32 \<Rightarrow> bytes \<times> 'w \<Rightarrow> (bytes \<times> 'w) option" where
  "freeaddrinfo_loop 0 os node st = (if node = 0 then Some st else None)"
| "freeaddrinfo_loop (Suc n) os node st =
    (if node = 0 then Some st
     else do {
       (addr_ptr :: u32) \<leftarrow> load_word 4 (fst st) (unat node + 20);
       (canon_ptr :: u32) \<leftarrow> load_word 4 (fst st) (unat node + 24);
       (next_ptr :: u32) \<leftarrow> load_word 4 (fst st) (unat node + 28);
       let st1 = (if addr_ptr \<noteq> 0 then guest_free os addr_ptr (fst st) (snd st) else st);
           st2 = (if canon_ptr \<noteq> 0 then guest_free os canon_ptr (fst st1) (snd st1) else st1)
       in freeaddrinfo_loop n os next_ptr (guest_free os node (fst st2) (snd st2)) })"

definition socket_freeaddrinfo :: "nat \<Rightarrow> 'w host_os \<Rightarrow> u32 \<Rightarrow> 'w shim \<Rightarrow> 'w shim option" where
  "socket_freeaddrinfo fuel os res_ptr s =
    do { (m, w) \<leftarrow> freeaddrinfo_loop fuel os res_ptr (sh_mem s, sh_world s);
         Some (s\<lparr> sh_mem := m, sh_world := w \<rparr>) }"

definition socket_getsockname ::
  "host_config \<Rightarrow> 'w host_os \<Rightarrow> u32 \<Rightarrow> u32 \<Rightarrow> u32 \<Rightarrow> 'w shim \<Rightarrow> 'w shim_result" where
  "socket_getsockname hc os sockfd addr_ptr addrlen_ptr s =
    (if addrlen_ptr \<noteq> 0 \<and> out_of_range (sh_mem s) addrlen_ptr 4 then Some (minus_one, s)
     else case os_getsockname os (sint sockfd) (sh_world s) of
       (res, sa, w) \<Rightarrow> return_address hc sa addr_ptr addrlen_ptr res (s\<lparr> sh_world := w \<rparr>))"

end
