(* ===== verification/SocketProps.thy ===== *)
theory SocketProps
  imports Sockets
begin

text \<open>
  What the socket shims guarantee: which guest pointers make them leave the
  guest memory, that addresses and descriptor sets survive the translation to
  the host and back, and that the recorded non-blocking flags follow the calls.
\<close>

section \<open>A host for the witnesses\<close>

text \<open>
  The Linux constants and a host that accepts everything; the world records the
  payloads sent and the addresses connected to.
\<close>

definition linux_config :: host_config where
  "linux_config = \<lparr> hc_djgpp = False, hc_downgrade_ipv6 = False, c_AF_UNSPEC = 0, c_AF_INET = 2,
     c_AF_INET6 = 10, c_SOCK_STREAM = 1, c_SOCK_DGRAM = 2, c_IPPROTO_IP = 0, c_IPPROTO_TCP = 6,
     c_IPPROTO_UDP = 17, c_IPPROTO_IPV6 = 41, c_SOL_SOCKET = 1, c_SO_REUSEADDR = 2, c_SO_ERROR = 4,
     c_IPV6_V6ONLY = 26, c_SHUT_RD = 0, c_SHUT_WR = 1, c_SHUT_RDWR = 2, c_FIONBIO = 0x5421,
     c_F_GETFL = 3, c_F_SETFL = 4, c_O_NONBLOCK = 0x800, c_FD_SETSIZE = 1024 \<rparr>"

definition djgpp_config :: host_config where
  "djgpp_config = linux_config\<lparr> hc_djgpp := True, hc_downgrade_ipv6 := True, c_F_GETFL := 1,
     c_F_SETFL := 2, c_O_NONBLOCK := 4 \<rparr>"

lemma linux_config_laws: "host_config_laws linux_config"
  by (simp add: host_config_laws_def linux_config_def)

definition sample_os :: "(bytes list \<times> sockaddr list) host_os" where
  "sample_os = \<lparr> os_socket = (\<lambda>_ _ _ w. (7, w)), os_bind = (\<lambda>_ _ w. (0, w)),
     os_listen = (\<lambda>_ _ w. (0, w)), os_accept = (\<lambda>_ w. (8, Sin 80 [10, 0, 0, 1], w)),
     os_connect = (\<lambda>_ sa w. (0, fst w, snd w @ [sa])),
     os_send = (\<lambda>_ bs _ w. (int (length bs), fst w @ [bs], snd w)),
     os_recv = (\<lambda>_ n _ w. (1, [42], w)),
     os_sendto = (\<lambda>_ bs _ _ w. (int (length bs), fst w @ [bs], snd w)),
     os_recvfrom = (\<lambda>_ n _ w. (1, [42], Sin 80 [10, 0, 0, 1], w)),
     os_setsockopt = (\<lambda>_ _ _ _ w. (0, w)), os_shutdown = (\<lambda>_ _ w. (0, w)),
     os_close = (\<lambda>_ w. (0, w)), os_fcntl = (\<lambda>_ _ _ w. (0, w)),
     os_ioctl = (\<lambda>_ _ m _ w. (0, m, w)), os_ioctlsocket = (\<lambda>_ _ mode w. (0, mode, w)),
     os_inet_pton = (\<lambda>_ _. (1, [10, 0, 0, 1])), os_inet_ntop = (\<lambda>_ _ _. Some [49, 0]),
     os_select = (\<lambda>_ r w e tv st. (0, the r, the w, the e, (0, 0), st)),
     os_getaddrinfo = (\<lambda>_ _ _ w. (0, [], w)),
     os_getsockname = (\<lambda>_ w. (0, Sin 80 [10, 0, 0, 1], w)),
     guest_malloc = (\<lambda>n m w. (64, m, w)), guest_free = (\<lambda>p m w. (m, w)) \<rparr>"

section \<open>Guest pointers\<close>

text \<open>
  C35: The bounds check of the data calls is a 32-bit sum. A send and a receive
  leave the guest memory exactly when the end of the buffer wraps past the end
  of the 32-bit range and its remainder passes the check; every other pointer
  is either refused with -1 or served inside the memory.
\<close>

theorem send_recv_fault_iff:
  assumes "length (sh_mem s) < 2 ^ 32"
    and "\<And>w. length (fst (snd (os_recv os (sint fd) (unat len) (sint flags) w))) \<le> unat len"
  shows "(socket_send os fd p len flags s = None
       \<longleftrightarrow> 2 ^ 32 \<le> unat p + unat len \<and> unat p + unat len - 2 ^ 32 \<le> length (sh_mem s))
     \<and> (socket_recv os fd p len flags s = None
       \<longleftrightarrow> 2 ^ 32 \<le> unat p + unat len \<and> unat p + unat len - 2 ^ 32 \<le> length (sh_mem s))"
proof -
  obtain res got w where recv: "os_recv os (sint fd) (unat len) (sint flags) (sh_world s) = (res, got, w)"
    by (metis prod_cases3)
  have got: "length got \<le> unat len" using assms(2) [of "sh_world s"] recv by simp
  have send: "socket_send os fd p len flags s = None
      \<longleftrightarrow> \<not> out_of_range (sh_mem s) p len \<and> length (sh_mem s) < unat p + unat len"
    by (auto simp: socket_send_def bind_eq_None_conv split: prod.splits)
  have "socket_recv os fd p len flags s = None
      \<longleftrightarrow> \<not> out_of_range (sh_mem s) p len \<and> length (sh_mem s) < unat p + unat len"
    using got by (auto simp: socket_recv_def recv bind_eq_None_conv)
  with send show ?thesis using guard_bypass_iff [OF assms(1), of p len] by simp
qed

lemma send_recv_fault_iff_witness:
  "socket_send sample_os 3 0xFFFFFFF8 16 0 \<lparr> sh_mem = replicate 16 0, sh_flags = [], sh_world = ([], []) \<rparr> = None
   \<and> socket_recv sample_os 3 0xFFFFFFF8 16 0 \<lparr> sh_mem = replicate 16 0, sh_flags = [], sh_world = ([], []) \<rparr> = None"
  using send_recv_fault_iff [where os = sample_os and fd = 3 and p = "0xFFFFFFF8" and len = 16 and flags = 0
      and s = "\<lparr> sh_mem = replicate 16 0, sh_flags = [], sh_world = ([], []) \<rparr>"]
  by (simp add: sample_os_def)

section \<open>Addresses\<close>

text \<open>Reading back, from any memory, an address in the guest's representation.\<close>

lemma load_sub:
  assumes "load_bytes m a n = Some bs" "k + l \<le> n"
  shows "load_bytes m (a + k) l = Some (take l (drop k bs))"
proof -
  have "a + n \<le> length m" "bs = take n (drop a m)"
    using assms(1) by (simp_all add: load_bytes_def split: if_splits)
  moreover have "take l (drop (a + k) m) = take l (drop k (take n (drop a m)))"
    using assms(2) by (simp add: drop_take add.commute min_def)
  ultimately show ?thesis using assms(2) by (simp add: load_bytes_def)
qed

lemma load_word_sub:
  assumes "load_bytes m a n = Some bs" "k + l \<le> n"
  shows "load_word l m (a + k) = Some (le_decode (take l (drop k bs)))"
  using load_sub [OF assms] by (simp add: load_word_def)

definition native_address :: "host_config \<Rightarrow> sockaddr \<Rightarrow> bool" where
  "native_address hc sa \<longleftrightarrow> sockaddr_wf sa \<and> sa \<noteq> OtherFamily
     \<and> (hc_downgrade_ipv6 hc \<longrightarrow> (\<exists>port ip. sa = Sin port ip))"

lemma sockaddr_h2g_g2h:
  assumes wf: "native_address hc sa" and im: "sockaddr_h2g hc sa n = Some bs"
    and ld: "load_bytes m a (length bs) = Some bs"
  shows "sockaddr_g2h hc m a (word_of_nat (length bs)) = Some (Some sa)"
proof (cases sa)
  case (Sin port ip)
  then have ip: "length ip = 4" and bs: "bs = le_encode 2 (2 :: u16) @ le_encode 2 port @ ip @ replicate 8 0"
    using wf im by (auto simp: native_address_def sockaddr_h2g_def split: if_splits)
  have len: "length bs = 16" using ip bs by simp
  note sub = load_word_sub [OF ld [unfolded len], of 0 2, simplified] load_word_sub [OF ld [unfolded len], of 2 2, simplified]
    load_sub [OF ld [unfolded len], of 4 4, simplified]
  show ?thesis unfolding sockaddr_g2h_def len using ip Sin by (simp add: sub bs)
next
  case (Sin6 port flow ip scope)
  then have ip: "length ip = 16" and nd: "\<not> hc_downgrade_ipv6 hc"
    and bs: "bs = le_encode 2 (10 :: u16) @ le_encode 2 port @ le_encode 4 flow @ ip @ le_encode 4 scope"
    using wf im by (auto simp: native_address_def sockaddr_h2g_def split: if_splits)
  have len: "length bs = 28" using ip bs by simp
  note sub = load_word_sub [OF ld [unfolded len], of 0 2, simplified] load_word_sub [OF ld [unfolded len], of 2 2, simplified]
    load_word_sub [OF ld [unfolded len], of 4 4, simplified] load_sub [OF ld [unfolded len], of 8 16, simplified]
    load_word_sub [OF ld [unfolded len], of 24 4, simplified]
  show ?thesis unfolding sockaddr_g2h_def len using ip nd Sin6 by (simp add: sub bs)
next
  case OtherFamily
  then show ?thesis using wf by (simp add: native_address_def)
qed

lemma native_address_image:
  assumes "native_address hc sa" "28 \<le> n"
  obtains bs where "sockaddr_h2g hc sa n = Some bs" "length bs \<le> 28" "length bs \<le> unat n"
proof -
  have "16 \<le> n" using assms(2) by (simp add: word_le_nat_alt)
  then obtain bs where im: "sockaddr_h2g hc sa n = Some bs"
    using assms by (cases sa) (auto simp: native_address_def sockaddr_h2g_def not_less [symmetric])
  moreover have "length bs \<le> 28 \<and> length bs \<le> unat n"
    using sockaddr_h2g_length [OF im] assms(1) by (auto simp: native_address_def split: sockaddr.splits)
  ultimately show ?thesis using that by blast
qed

text \<open>
  An address the host reports for a socket reaches the host unchanged when
  the guest connects with the bytes and the length it was given, provided the
  guest's buffer and its length word do not overlap.
\<close>

theorem reported_address_connects:
  assumes ok: "socket_getsockname hc os fd ap lp s = Some (r, s1)"
    and host: "os_getsockname os (sint fd) (sh_world s) = (0, sa, w)" and wf: "native_address hc sa"
    and ptrs: "ap \<noteq> 0" "lp \<noteq> 0" "length (sh_mem s) < 2 ^ 32"
    and cap: "load_word 4 (sh_mem s) (unat lp) = Some (max_len :: u32)" "28 \<le> max_len"
      "unat ap + unat max_len \<le> length (sh_mem s)"
    and apart: "unat ap + 28 \<le> unat lp \<or> unat lp + 4 \<le> unat ap"
  shows "\<exists>len :: u32. load_word 4 (sh_mem s1) (unat lp) = Some len
     \<and> socket_connect hc os fd2 ap len s1
       = (case os_connect os (sint fd2) sa w of
            (res, w') \<Rightarrow> Some (of_int_result res, s1\<lparr> sh_world := w' \<rparr>))"
proof -
  have len32: "unat (4 :: u32) = 4" by simp
  have lp4: "unat lp + 4 \<le> length (sh_mem s)"
    using cap(1) by (metis load_word_None not_less option.distinct(1))
  have in1: "\<not> out_of_range (sh_mem s) lp 4" "\<not> out_of_range (sh_mem s) ap max_len"
    using in_range_sound [of "sh_mem s" lp 4] in_range_sound [of "sh_mem s" ap max_len] ptrs(3) lp4 cap(3)
    by simp_all
  obtain bs where bs: "sockaddr_h2g hc sa max_len = Some bs" "length bs \<le> 28" "length bs \<le> unat max_len"
    using native_address_image [OF wf cap(2)] .
  obtain m where m: "store_bytes (sh_mem s) (unat ap) bs = Some m"
    using bs(3) cap(3) by (cases "store_bytes (sh_mem s) (unat ap) bs") auto
  have lm: "length m = length (sh_mem s)" using store_bytes_length [OF m] .
  let ?len = "word_of_nat (length bs) :: u32"
  have ulen: "unat ?len = length bs" using bs(2) by (simp add: unat_of_nat)
  obtain m' where m': "store_word 4 m (unat lp) ?len = Some m'"
    using lp4 lm by (cases "store_word 4 m (unat lp) ?len") auto
  have lm': "length m' = length (sh_mem s)" using store_word_length [OF m'] lm by simp
  have s1: "s1 = s\<lparr> sh_world := w, sh_mem := m' \<rparr>"
    using ok in1 by (simp add: socket_getsockname_def host return_address_def ptrs cap(1) bs(1) m m')
  have "load_bytes m' (unat ap) (length bs) = load_bytes m (unat ap) (length bs)"
    using m' apart bs(2) unfolding store_word_def by (elim load_store_other) auto
  then have reread: "load_bytes m' (unat ap) (length bs) = Some bs" using load_store_same [OF m] by simp
  have in2: "\<not> out_of_range m' ap ?len"
    using in_range_sound [of m' ap ?len] ulen bs(3) cap(3) ptrs(3) lm' by simp
  have "load_word 4 m' (unat lp) = Some ?len" using load_store_word_same [OF m'] by simp
  moreover have "sockaddr_g2h hc m' (unat ap) ?len = Some (Some sa)"
    using sockaddr_h2g_g2h [OF wf bs(1) reread] .
  ultimately show ?thesis
    using in2 by (auto simp: s1 socket_connect_def split: prod.splits)
qed

lemma reported_address_connects_witness:
  "\<exists>s1. socket_getsockname linux_config sample_os 3 32 16
       \<lparr> sh_mem = replicate 16 0 @ [28, 0, 0, 0] @ replicate 44 0, sh_flags = [], sh_world = ([], []) \<rparr> = Some (0, s1)
     \<and> (\<exists>len :: u32. load_word 4 (sh_mem s1) (unat (16 :: u32)) = Some len
        \<and> socket_connect linux_config sample_os 4 32 len s1
          = Some (0, s1\<lparr> sh_world := ([], [Sin 80 [10, 0, 0, 1]]) \<rparr>))"
proof -
  let ?m = "replicate 16 (0 :: u8) @ [28, 0, 0, 0] @ replicate 44 0"
  let ?s = "\<lparr> sh_mem = ?m, sh_flags = [], sh_world = ([], []) \<rparr>"
  have cap: "load_word 4 ?m (unat (16 :: u32)) = Some (28 :: u32)" by code_simp
  have "socket_getsockname linux_config sample_os 3 32 16 ?s \<noteq> None" by code_simp
  moreover have "map_option fst (socket_getsockname linux_config sample_os 3 32 16 ?s) = Some 0" by code_simp
  ultimately obtain s1 where s1: "socket_getsockname linux_config sample_os 3 32 16 ?s = Some (0, s1)"
    by auto
  have "\<exists>len :: u32. load_word 4 (sh_mem s1) (unat (16 :: u32)) = Some len
     \<and> socket_connect linux_config sample_os 4 32 len s1
       = (case os_connect sample_os (sint (4 :: u32)) (Sin 80 [10, 0, 0, 1]) ([], []) of
            (res, w') \<Rightarrow> Some (of_int_result res, s1\<lparr> sh_world := w' \<rparr>))"
    by (rule reported_address_connects [OF s1 _ _ _ _ _ _ _ _ _, of _ _ 28])
       (use cap in \<open>simp_all add: sample_os_def native_address_def linux_config_def\<close>)
  then show ?thesis using s1 by (auto simp: sample_os_def)
qed

section \<open>Descriptor sets\<close>

lemma guest_fd_bit_None: "guest_fd_bit m a i = None \<longleftrightarrow> length m < a + 8 * (i div 64) + 8"
  by (simp add: guest_fd_bit_def)

lemma g2h_loop_result:
  assumes "fd_set_g2h_loop m a is fds = Some r"
  shows "length r = length fds
    \<and> (\<forall>i\<in>set is. guest_fd_bit m a i \<noteq> None \<and> (guest_fd_bit m a i = Some True \<longrightarrow> i < length fds))
    \<and> (\<forall>j<length fds. r ! j \<longleftrightarrow> fds ! j \<or> (j \<in> set is \<and> guest_fd_bit m a j = Some True))"
  using assms
proof (induction "is" arbitrary: fds)
  case (Cons i "is")
  then obtain b where b: "guest_fd_bit m a i = Some b" by (auto split: option.splits)
  show ?case
  proof (cases b)
    case True
    then have "fd_set_g2h_loop m a is (fds[i := True]) = Some r" "i < length fds"
      using Cons.prems b by (auto split: if_splits)
    with Cons.IH [of "fds[i := True]"] b True show ?thesis by (auto simp: nth_list_update)
  next
    case False
    then have "fd_set_g2h_loop m a is fds = Some r" using Cons.prems b by simp
    with Cons.IH [of fds] b False show ?thesis by auto
  qed
qed simp

lemma g2h_loop_total:
  assumes "\<forall>i\<in>set is. guest_fd_bit m a i \<noteq> None \<and> i < length fds"
  shows "\<exists>r. fd_set_g2h_loop m a is fds = Some r"
  using assms by (induction "is" arbitrary: fds) auto

lemma guest_bit_set:
  fixes w :: u64
  assumes ld: "load_word 8 m (a + 8 * (i div 64)) = Some w"
    and st: "store_word 8 m (a + 8 * (i div 64)) (Bit_Operations.set_bit (i mod 64) w) = Some m'"
  shows "guest_fd_bit m' a j = (if j = i then Some True else guest_fd_bit m a j)"
proof (cases "j div 64 = i div 64")
  case True
  have "load_word 8 m' (a + 8 * (i div 64)) = Some (Bit_Operations.set_bit (i mod 64) w)"
    using load_store_word_same [OF st] by simp
  moreover have "j = i \<longleftrightarrow> j mod 64 = i mod 64" using True by (metis div_mult_mod_eq)
  ultimately show ?thesis using True ld by (auto simp: guest_fd_bit_def bit_simps)
next
  case False
  then have "load_bytes m' (a + 8 * (j div 64)) 8 = load_bytes m (a + 8 * (j div 64)) 8"
    using st unfolding store_word_def by (elim load_store_other) auto
  then show ?thesis using False by (auto simp: guest_fd_bit_def load_word_def)
qed

lemma h2g_loop_bits:
  assumes "fd_set_h2g_loop fds a is m = Some m'"
  shows "length m' = length m
    \<and> (\<forall>j. guest_fd_bit m' a j = (if j \<in> set is \<and> fds ! j then Some True else guest_fd_bit m a j))"
  using assms
proof (induction "is" arbitrary: m)
  case (Cons i "is")
  show ?case
  proof (cases "fds ! i")
    case True
    with Cons.prems obtain w :: u64 and m1 where
      ld: "load_word 8 m (a + 8 * (i div 64)) = Some w" and
      st: "store_word 8 m (a + 8 * (i div 64)) (Bit_Operations.set_bit (i mod 64) w) = Some m1" and
      rest: "fd_set_h2g_loop fds a is m1 = Some m'"
      by (auto split: if_splits option.splits)
    have "length m1 = length m" using store_word_length [OF st] .
    with Cons.IH [OF rest] guest_bit_set [OF ld st] True show ?thesis by auto
  next
    case False
    then have "fd_set_h2g_loop fds a is m = Some m'" using Cons.prems by (auto split: if_splits)
    with Cons.IH [of m] False show ?thesis by auto
  qed
qed simp

lemma h2g_loop_total:
  assumes "\<forall>i\<in>set is. i < length fds \<and> a + 8 * (i div 64) + 8 \<le> length m"
  shows "\<exists>m'. fd_set_h2g_loop fds a is m = Some m'"
  using assms
proof (induction "is" arbitrary: m)
  case (Cons i "is")
  obtain w :: u64 where w: "load_word 8 m (a + 8 * (i div 64)) = Some w"
    using Cons.prems by (cases "load_word 8 m (a + 8 * (i div 64)) :: u64 option") auto
  obtain m1 where m1: "store_word 8 m (a + 8 * (i div 64)) (Bit_Operations.set_bit (i mod 64) w) = Some m1"
    using Cons.prems
    by (cases "store_word 8 m (a + 8 * (i div 64)) (Bit_Operations.set_bit (i mod 64) w)") auto
  have "length m1 = length m" using store_word_length [OF m1] .
  then show ?case using Cons w m1 by simp
qed simp

lemma cleared_bits:
  assumes "store_bytes m a (replicate k 0) = Some m'" "8 * (i div 64) + 8 \<le> k"
  shows "guest_fd_bit m' a i = Some False"
proof -
  have zero: "le_decode (replicate n 0) = (0 :: u64)" for n by (induction n) simp_all
  have "load_bytes m' a k = Some (replicate k 0)" using load_store_same [OF assms(1)] by simp
  from load_word_sub [OF this, of "8 * (i div 64)" 8] assms(2)
  have "load_word 8 m' (a + 8 * (i div 64))
      = Some (le_decode (take 8 (drop (8 * (i div 64)) (replicate k 0))) :: u64)" by blast
  then have "load_word 8 m' (a + 8 * (i div 64)) = Some (0 :: u64)" by (simp add: zero)
  then show ?thesis by (simp add: guest_fd_bit_def)
qed

text \<open>
  A descriptor set the guest passes to select and gets back unchanged by the
  host reads the same for every descriptor below \<^theory_text>\<open>nfds\<close>, as long as the host's set
  has room for them and the guest's array lies in its memory; the shim never
  fails on such a set.
\<close>

theorem fd_set_roundtrip:
  assumes "0 \<le> nfds" "nat nfds \<le> c_FD_SETSIZE hc" "nfds \<le> 2147483584"
    and "a + 8 * (nat (nfds + 63) div 64) \<le> length m"
  shows "\<exists>fds m'. fd_set_g2h hc m a nfds = Some fds \<and> fd_set_h2g fds m a nfds = Some m'
     \<and> (\<forall>i<nat nfds. guest_fd_bit m' a i = guest_fd_bit m a i \<and> (fds ! i \<longleftrightarrow> guest_fd_bit m a i = Some True))"
proof -
  let ?n = "nat nfds" and ?k = "8 * (nat (nfds + 63) div 64)"
  have k: "8 * (i div 64) + 8 \<le> ?k" if "i < ?n" for i
  proof -
    have "i + 64 \<le> nat (nfds + 63)" using that assms(1) by linarith
    then have "(i + 64) div 64 \<le> nat (nfds + 63) div 64" by (rule div_le_mono)
    moreover have "(i + 64) div 64 = i div 64 + 1" by simp
    ultimately show ?thesis by (simp only: mult_le_mono2 distrib_left mult_1_right [symmetric])
  qed
  have inm: "guest_fd_bit m a i \<noteq> None" if "i < ?n" for i
    using k [OF that] assms(4) by (simp add: guest_fd_bit_None)
  obtain fds where fds: "fd_set_g2h hc m a nfds = Some fds"
    using g2h_loop_total [of "[0..<?n]" m a "replicate (c_FD_SETSIZE hc) False"] inm assms(2)
    by (auto simp: fd_set_g2h_def)
  have fds': "length fds = c_FD_SETSIZE hc"
    "\<forall>j<c_FD_SETSIZE hc. fds ! j \<longleftrightarrow> j < ?n \<and> guest_fd_bit m a j = Some True"
    using g2h_loop_result [OF fds [unfolded fd_set_g2h_def]] by auto
  obtain m0 where m0: "store_bytes m a (replicate ?k 0) = Some m0"
    using assms(4) by (cases "store_bytes m a (replicate ?k 0)") auto
  have "length m0 = length m" using store_bytes_length [OF m0] .
  then obtain m' where m': "fd_set_h2g_loop fds a [0..<?n] m0 = Some m'"
    using h2g_loop_total [of "[0..<?n]" fds a m0] fds'(1) assms(2,4) k by fastforce
  have "guest_fd_bit m' a i = guest_fd_bit m a i" if "i < ?n" for i
    using h2g_loop_bits [OF m'] cleared_bits [OF m0 k [OF that]] fds'(2) inm [OF that] that assms(2)
    by (cases "guest_fd_bit m a i") auto
  moreover have "fd_set_h2g fds m a nfds = Some m'"
    using assms(1,3) by (simp add: fd_set_h2g_def m0 m')
  ultimately show ?thesis using fds fds'(2) assms(2) by auto
qed

lemma fd_set_roundtrip_witness:
  "\<exists>fds m'. fd_set_g2h linux_config (replicate 8 5) 0 10 = Some fds
     \<and> fd_set_h2g fds (replicate 8 5) 0 10 = Some m'
     \<and> (\<forall>i<nat 10. guest_fd_bit m' 0 i = guest_fd_bit (replicate 8 5) 0 i
          \<and> (fds ! i \<longleftrightarrow> guest_fd_bit (replicate 8 5) 0 i = Some True))"
  using fd_set_roundtrip [where nfds = 10 and hc = linux_config and a = 0 and m = "replicate 8 5"]
  by (simp add: linux_config_def)

text \<open>
  select checks each set for 128 bytes but walks as many bits as the guest
  says: with a set at the end of the memory and more than 1024 descriptors it
  reads past the guest memory.
\<close>

theorem select_nfds_unchecked:
  assumes "1024 < sint nfds" "r_ptr \<noteq> 0" "unat r_ptr + 128 = length (sh_mem s)" "length (sh_mem s) < 2 ^ 32"
  shows "socket_select hc os nfds r_ptr 0 0 timeout_ptr s = None"
proof -
  have past: "guest_fd_bit (sh_mem s) (unat r_ptr) 1024 = None" using assms(3) by (simp add: guest_fd_bit_None)
  have "fd_set_g2h hc (sh_mem s) (unat r_ptr) (sint nfds) = None"
  proof (rule ccontr)
    assume "fd_set_g2h hc (sh_mem s) (unat r_ptr) (sint nfds) \<noteq> None"
    then obtain r where
      "fd_set_g2h_loop (sh_mem s) (unat r_ptr) [0..<nat (sint nfds)] (replicate (c_FD_SETSIZE hc) False) = Some r"
      by (auto simp: fd_set_g2h_def)
    from g2h_loop_result [OF this]
    have "\<forall>i\<in>set [0..<nat (sint nfds)]. guest_fd_bit (sh_mem s) (unat r_ptr) i \<noteq> None" by blast
    moreover have "1024 \<in> set [0..<nat (sint nfds)]" using assms(1) by simp
    ultimately show False using past by blast
  qed
  moreover have "\<not> out_of_range (sh_mem s) r_ptr 128"
    using in_range_sound [of "sh_mem s" r_ptr 128] assms(3,4) by simp
  ultimately show ?thesis using assms(2) by (simp add: socket_select_def Let_def select_read_set_def)
qed

lemma select_nfds_unchecked_witness:
  "socket_select linux_config sample_os 1025 64 0 0 0
     \<lparr> sh_mem = replicate 192 0, sh_flags = [], sh_world = ([], []) \<rparr> = None"
  by (rule select_nfds_unchecked) simp_all

section \<open>Recorded non-blocking flags\<close>

text \<open>
  On a host without fcntl, setting the status flags of a socket succeeds
  exactly when the host accepts the mode, reading them back returns what was
  set, and the flags recorded for every other socket are untouched.
\<close>

theorem fcntl_flags_tracked:
  assumes "hc_djgpp hc" "c_F_GETFL hc \<noteq> c_F_SETFL hc" "distinct (map fst (sh_flags s))"
    and "fst (os_ioctlsocket os (sint fd) (c_FIONBIO hc) (if arg AND 0x800 \<noteq> 0 then 1 else 0) (sh_world s)) = 0"
  shows "\<exists>s1. socket_fcntl hc os fd 4 arg s = Some (0, s1) \<and> distinct (map fst (sh_flags s1))
     \<and> socket_fcntl hc os fd 3 any s1 = Some (arg, s1)
     \<and> (\<forall>other. other \<noteq> sint fd \<longrightarrow>
          socket_flag_state_get (sh_flags s1) other = socket_flag_state_get (sh_flags s) other)"
proof -
  obtain mode w where os: "os_ioctlsocket os (sint fd) (c_FIONBIO hc) (if arg AND 0x800 \<noteq> 0 then 1 else 0) (sh_world s)
      = (0, mode, w)" using assms(4) by (metis prod.collapse)
  let ?l1 = "socket_flag_state_set_nonblock (sh_flags s) (sint fd) (arg AND 0x800 \<noteq> 0)"
  let ?l2 = "socket_flag_state_set ?l1 (sint fd) (sint arg)"
  let ?s1 = "s\<lparr> sh_world := w, sh_flags := ?l2 \<rparr>"
  have d1: "distinct (map fst ?l1)"
    using assms(3) by (simp add: socket_flag_state_set_nonblock_def ensure_flags_distinct)
  have d2: "distinct (map fst ?l2)" using sf.put_inv [OF d1] .
  have l2: "socket_flag_state_find ?l2 = (socket_flag_state_find ?l1)(sint fd \<mapsto> sint arg)"
    using sf.put_lookup [OF d1] .
  have others: "socket_flag_state_find ?l2 o' = socket_flag_state_find (sh_flags s) o'" if "o' \<noteq> sint fd" for o'
    unfolding l2 using that by (simp add: socket_flag_state_set_nonblock_def find_write_flags find_ensure_flags)
  have "socket_fcntl hc os fd 4 arg s = Some (0, ?s1)"
    using assms(1,2) by (simp add: socket_fcntl_def translate_fcntl_cmd_g2h_def Let_def
      djgpp_set_socket_nonblocking_def os)
  moreover have "socket_fcntl hc os fd 3 any ?s1 = Some (arg, ?s1)"
    using assms(1) l2 by (simp add: socket_fcntl_def translate_fcntl_cmd_g2h_def Let_def
      socket_flag_state_get_def)
  moreover have "socket_flag_state_get ?l2 o' = socket_flag_state_get (sh_flags s) o'" if "o' \<noteq> sint fd" for o'
    using others [OF that] by (simp add: socket_flag_state_get_def)
  ultimately show ?thesis using d2 by auto
qed

lemma fcntl_flags_tracked_witness:
  "\<exists>s1. socket_fcntl djgpp_config sample_os 5 4 0x800
        \<lparr> sh_mem = [], sh_flags = [(9, 0)], sh_world = ([], []) \<rparr> = Some (0, s1)
     \<and> distinct (map fst (sh_flags s1))
     \<and> socket_fcntl djgpp_config sample_os 5 3 0 s1 = Some (0x800, s1)
     \<and> (\<forall>other. other \<noteq> sint (5 :: u32) \<longrightarrow>
          socket_flag_state_get (sh_flags s1) other = socket_flag_state_get [(9, 0)] other)"
  using fcntl_flags_tracked [where hc = djgpp_config and os = sample_os and fd = 5 and arg = "0x800"
      and s = "\<lparr> sh_mem = [], sh_flags = [(9, 0)], sh_world = ([], []) \<rparr>" and any = 0]
  by (simp add: djgpp_config_def linux_config_def sample_os_def)

end
