(* ===== verification/Wasi.thy ===== *)
theory Wasi
  imports HostMem
begin

text \<open>
  The WASI preview1 shims of WASMImpl/C/wasi.c: files, clocks and randomness for
  the guest, on top of the host's POSIX calls. The host is the record
  \<^theory_text>\<open>posix\<close>: a call either fails with an errno (\<^theory_text>\<open>Inl\<close>) or succeeds. As for the
  sockets, \<^theory_text>\<open>None\<close> is an access that leaves the guest memory. Running out of
  memory for the copy of a path is not modelled; messages on stderr are not
  part of the state.
\<close>

section \<open>The host\<close>

datatype file_kind = Char_Device | Directory | Regular | Socket | Other_File

record host_stat =
  st_kind :: file_kind
  st_dev :: u64
  st_ino :: u64
  st_nlink :: u64
  st_size :: u64
  st_atime :: u64
  st_mtime :: u64
  st_ctime :: u64

record posix_consts =
  k_EPERM :: int
  k_ENOENT :: int
  k_EBADF :: int
  k_EAGAIN :: int
  k_ENOMEM :: int
  k_EACCES :: int
  k_EBUSY :: int
  k_EEXIST :: int
  k_EINVAL :: int
  k_ENOSPC :: int
  k_EPIPE :: int
  k_ENOSYS :: int
  k_ECONNRESET :: int
  k_EISDIR :: int
  k_CLOCK_REALTIME :: int
  k_CLOCK_MONOTONIC :: int
  k_CLOCK_PROCESS_CPUTIME_ID :: int
  k_CLOCK_THREAD_CPUTIME_ID :: int
  k_SEEK_SET :: int
  k_SEEK_CUR :: int
  k_SEEK_END :: int
  k_O_RDONLY :: int
  k_O_RDWR :: int
  k_O_CREAT :: int
  k_O_DIRECTORY :: int
  k_O_EXCL :: int
  k_O_TRUNC :: int
  k_O_APPEND :: int
  k_O_NONBLOCK :: int

record 'w posix =
  px_clock_gettime :: "int \<Rightarrow> 'w \<Rightarrow> (int + int \<times> int) \<times> 'w"
  px_close :: "int \<Rightarrow> 'w \<Rightarrow> (int + unit) \<times> 'w"
  px_fstat :: "int \<Rightarrow> 'w \<Rightarrow> (int + host_stat) \<times> 'w"
  px_ftruncate :: "int \<Rightarrow> int \<Rightarrow> 'w \<Rightarrow> (int + unit) \<times> 'w"
  px_open :: "bytes \<Rightarrow> int \<Rightarrow> int option \<Rightarrow> 'w \<Rightarrow> (int + int) \<times> 'w"
  px_read :: "int \<Rightarrow> nat \<Rightarrow> 'w \<Rightarrow> (int + bytes) \<times> 'w"
  px_write :: "int \<Rightarrow> bytes \<Rightarrow> 'w \<Rightarrow> (int + nat) \<times> 'w"
  px_lseek :: "int \<Rightarrow> int \<Rightarrow> int \<Rightarrow> 'w \<Rightarrow> (int + int) \<times> 'w"
  px_fsync :: "int \<Rightarrow> 'w \<Rightarrow> (int + unit) \<times> 'w"
  px_urandom :: "nat \<Rightarrow> 'w \<Rightarrow> bytes option \<times> 'w"
  px_rand :: "'w \<Rightarrow> int \<times> 'w"

record 'w wasi_state =
  ws_mem :: bytes
  ws_world :: 'w

type_synonym 'w wasi_result = "(u32 \<times> 'w wasi_state) option"

definition FAKE_RANDOM_FD :: u32 where "FAKE_RANDOM_FD = 0x7FFFFFFF"

section \<open>Translation of constants\<close>

definition errno_to_wasi :: "posix_consts \<Rightarrow> int \<Rightarrow> u32" where
  "errno_to_wasi k err =
    (if err = 0 then 0 else if err = k_EPERM k then 63 else if err = k_ENOENT k then 44
     else if err = k_EBADF k then 8 else if err = k_EAGAIN k then 6 else if err = k_ENOMEM k then 48
     else if err = k_EACCES k then 2 else if err = k_EBUSY k then 10 else if err = k_EEXIST k then 20
     else if err = k_EINVAL k then 28 else if err = k_ENOSPC k then 51 else if err = k_EPIPE k then 64
     else if err = k_ENOSYS k then 52 else if err = k_ECONNRESET k then 15 else 29)"

text \<open>\<^theory_text>\<open>clock_gettime\<close> where the host has only \<^theory_text>\<open>gettimeofday\<close>: seconds and microseconds.\<close>

definition djgpp_clock_gettime :: "(int \<times> int) option \<Rightarrow> (int \<times> int) option" where
  "djgpp_clock_gettime tv = map_option (\<lambda>(sec, usec). (sec, usec * 1000)) tv"

definition translate_clock_id :: "posix_consts \<Rightarrow> u32 \<Rightarrow> int" where
  "translate_clock_id k clock_id =
    (if clock_id = 0 then k_CLOCK_REALTIME k else if clock_id = 1 then k_CLOCK_MONOTONIC k
     else if clock_id = 2 then k_CLOCK_PROCESS_CPUTIME_ID k
     else if clock_id = 3 then k_CLOCK_THREAD_CPUTIME_ID k else k_CLOCK_REALTIME k)"

definition translate_whence_w2h :: "posix_consts \<Rightarrow> u32 \<Rightarrow> int" where
  "translate_whence_w2h k whence =
    (if whence = 0 then k_SEEK_SET k else if whence = 1 then k_SEEK_CUR k
     else if whence = 2 then k_SEEK_END k else k_SEEK_SET k)"

definition translate_oflags_w2h :: "posix_consts \<Rightarrow> u32 \<Rightarrow> int" where
  "translate_oflags_w2h k oflags =
    (if has_flag oflags 1 then k_O_CREAT k else 0) OR (if has_flag oflags 2 then k_O_DIRECTORY k else 0)
    OR (if has_flag oflags 4 then k_O_EXCL k else 0) OR (if has_flag oflags 8 then k_O_TRUNC k else 0)"

definition translate_fdflags_w2h :: "posix_consts \<Rightarrow> u32 \<Rightarrow> int" where
  "translate_fdflags_w2h k fdflags =
    (if has_flag fdflags 1 then k_O_APPEND k else 0) OR (if has_flag fdflags 4 then k_O_NONBLOCK k else 0)"

section \<open>Stores into the guest\<close>

definition put_bytes :: "nat \<Rightarrow> bytes \<Rightarrow> 'w wasi_state \<Rightarrow> 'w wasi_state option" where
  "put_bytes a bs s = map_option (\<lambda>m. s\<lparr> ws_mem := m \<rparr>) (store_bytes (ws_mem s) a bs)"

definition put_word :: "nat \<Rightarrow> nat \<Rightarrow> 'a::len word \<Rightarrow> 'w wasi_state \<Rightarrow> 'w wasi_state option" where
  "put_word n a w s = map_option (\<lambda>m. s\<lparr> ws_mem := m \<rparr>) (store_word n (ws_mem s) a w)"

text \<open>Ending a call: the result code with the state the stores left.\<close>

definition return_code :: "u32 \<Rightarrow> 'w wasi_state option \<Rightarrow> 'w wasi_result" where
  "return_code c os = map_option (\<lambda>s. (c, s)) os"

section \<open>Clock and environment\<close>

definition wasi_clock_time_get ::
  "posix_consts \<Rightarrow> 'w posix \<Rightarrow> u32 \<Rightarrow> u64 \<Rightarrow> u32 \<Rightarrow> 'w wasi_state \<Rightarrow> 'w wasi_result" where
  "wasi_clock_time_get k px clock_id precision time_ptr s =
    (if out_of_range (ws_mem s) time_ptr 8 then Some (28, s)
     else case px_clock_gettime px (translate_clock_id k clock_id) (ws_world s) of
       (Inl err, w) \<Rightarrow> Some (errno_to_wasi k err, s\<lparr> ws_world := w \<rparr>)
     | (Inr (sec, nsec), w) \<Rightarrow>
         return_code 0 (put_word 8 (unat time_ptr)
           ((word_of_int sec :: u64) * 1000000000 + word_of_int nsec) (s\<lparr> ws_world := w \<rparr>)))"

definition wasi_environ_get :: "u32 \<Rightarrow> u32 \<Rightarrow> 'w wasi_state \<Rightarrow> 'w wasi_result" where
  "wasi_environ_get environ_ptr environ_buf_ptr s = Some (0, s)"

definition wasi_environ_sizes_get :: "u32 \<Rightarrow> u32 \<Rightarrow> 'w wasi_state \<Rightarrow> 'w wasi_result" where
  "wasi_environ_sizes_get count_ptr size_ptr s =
    (if out_of_range (ws_mem s) count_ptr 4 \<or> out_of_range (ws_mem s) size_ptr 4 then Some (28, s)
     else return_code 0 (do { s1 \<leftarrow> put_word 4 (unat count_ptr) (0 :: u32) s;
                              put_word 4 (unat size_ptr) (0 :: u32) s1 }))"

section \<open>Descriptors\<close>

definition wasi_fd_close :: "posix_consts \<Rightarrow> 'w posix \<Rightarrow> u32 \<Rightarrow> 'w wasi_state \<Rightarrow> 'w wasi_result" where
  "wasi_fd_close k px fd s =
    (if fd \<le> 2 then Some (0, s) else if fd = FAKE_RANDOM_FD then Some (0, s)
     else case px_close px (sint fd) (ws_world s) of
       (Inl err, w) \<Rightarrow> Some (errno_to_wasi k err, s\<lparr> ws_world := w \<rparr>)
     | (Inr _, w) \<Rightarrow> Some (0, s\<lparr> ws_world := w \<rparr>))"

definition filetype_code :: "file_kind \<Rightarrow> u8" where
  "filetype_code fk = (case fk of Char_Device \<Rightarrow> 2 | Directory \<Rightarrow> 3 | Regular \<Rightarrow> 4 | Socket \<Rightarrow> 6 | Other_File \<Rightarrow> 0)"

text \<open>The 24-byte \<^theory_text>\<open>fdstat\<close>: type, flags 0, all rights.\<close>

definition fdstat_image :: "u8 \<Rightarrow> bytes" where
  "fdstat_image filetype = [filetype] @ replicate 7 0 @ replicate 16 0xff"

definition wasi_fd_fdstat_get ::
  "posix_consts \<Rightarrow> 'w posix \<Rightarrow> u32 \<Rightarrow> u32 \<Rightarrow> 'w wasi_state \<Rightarrow> 'w wasi_result" where
  "wasi_fd_fdstat_get k px fd stat_ptr s =
    (if out_of_range (ws_mem s) stat_ptr 24 then Some (28, s)
     else if fd = 3 then return_code 0 (put_bytes (unat stat_ptr) (fdstat_image 3) s)
     else if fd = FAKE_RANDOM_FD then return_code 0 (put_bytes (unat stat_ptr) (fdstat_image 2) s)
     else case px_fstat px (sint fd) (ws_world s) of
       (Inl err, w) \<Rightarrow> Some (errno_to_wasi k err, s\<lparr> ws_world := w \<rparr>)
     | (Inr st, w) \<Rightarrow>
         return_code 0 (put_bytes (unat stat_ptr) (fdstat_image (filetype_code (st_kind st)))
           (s\<lparr> ws_world := w \<rparr>)))"

definition wasi_fd_fdstat_set_flags :: "u32 \<Rightarrow> u32 \<Rightarrow> 'w wasi_state \<Rightarrow> 'w wasi_result" where
  "wasi_fd_fdstat_set_flags fd fl s = Some (0, s)"

definition filestat_image :: "host_stat \<Rightarrow> bytes" where
  "filestat_image st =
     le_encode 8 (st_dev st) @ le_encode 8 (st_ino st) @ [filetype_code (st_kind st)] @ replicate 7 0
   @ le_encode 8 (st_nlink st) @ le_encode 8 (st_size st) @ le_encode 8 (st_atime st * 1000000000)
   @ le_encode 8 (st_mtime st * 1000000000) @ le_encode 8 (st_ctime st * 1000000000)"

definition wasi_fd_filestat_get ::
  "posix_consts \<Rightarrow> 'w posix \<Rightarrow> u32 \<Rightarrow> u32 \<Rightarrow> 'w wasi_state \<Rightarrow> 'w wasi_result" where
  "wasi_fd_filestat_get k px fd buf_ptr s =
    (if out_of_range (ws_mem s) buf_ptr 64 then Some (28, s)
     else if fd = FAKE_RANDOM_FD
     then return_code 0 (put_bytes (unat buf_ptr) (replicate 16 0 @ [2] @ replicate 47 0) s)
     else case px_fstat px (sint fd) (ws_world s) of
       (Inl err, w) \<Rightarrow> Some (errno_to_wasi k err, s\<lparr> ws_world := w \<rparr>)
     | (Inr st, w) \<Rightarrow> return_code 0 (put_bytes (unat buf_ptr) (filestat_image st) (s\<lparr> ws_world := w \<rparr>)))"

definition wasi_fd_filestat_set_size ::
  "posix_consts \<Rightarrow> 'w posix \<Rightarrow> u32 \<Rightarrow> u64 \<Rightarrow> 'w wasi_state \<Rightarrow> 'w wasi_result" where
  "wasi_fd_filestat_set_size k px fd new_size s =
    (if fd = FAKE_RANDOM_FD then Some (28, s)
     else case px_ftruncate px (sint fd) (sint new_size) (ws_world s) of
       (Inl err, w) \<Rightarrow> Some (errno_to_wasi k err, s\<lparr> ws_world := w \<rparr>)
     | (Inr _, w) \<Rightarrow> Some (0, s\<lparr> ws_world := w \<rparr>))"

text \<open>Descriptor 3 is the one preopened directory, named \<^theory_text>\<open>"."\<close>.\<close>

definition wasi_fd_prestat_get :: "u32 \<Rightarrow> u32 \<Rightarrow> 'w wasi_state \<Rightarrow> 'w wasi_result" where
  "wasi_fd_prestat_get fd buf_ptr s =
    (if out_of_range (ws_mem s) buf_ptr 8 then Some (28, s)
     else if fd = 3 then
       return_code 0 (do { s1 \<leftarrow> put_bytes (unat buf_ptr) [0] s;
                           put_word 4 (unat buf_ptr + 4) (2 :: u32) s1 })
     else Some (8, s))"

definition wasi_fd_prestat_dir_name :: "u32 \<Rightarrow> u32 \<Rightarrow> u32 \<Rightarrow> 'w wasi_state \<Rightarrow> 'w wasi_result" where
  "wasi_fd_prestat_dir_name fd path_ptr path_len s =
    (if out_of_range (ws_mem s) path_ptr path_len then Some (28, s)
     else if fd = 3 then
       (if 2 \<le> path_len then return_code 0 (put_bytes (unat path_ptr) [46, 0] s) else Some (28, s))
     else Some (8, s))"

section \<open>Opening files\<close>

definition ascii :: "string \<Rightarrow> bytes" where
  "ascii str = map of_char str"

definition random_device :: "bytes \<Rightarrow> bytes option" where
  "random_device path =
    (if path = ascii ''dev/urandom'' \<or> path = ascii ''/dev/urandom'' then Some (ascii ''/dev/urandom'')
     else if path = ascii ''dev/random'' \<or> path = ascii ''/dev/random'' then Some (ascii ''/dev/random'')
     else None)"

text \<open>
  A file that cannot be opened for writing is reopened for reading, unless the
  guest asked to create, truncate or append.
\<close>

definition open_file ::
  "posix_consts \<Rightarrow> 'w posix \<Rightarrow> bytes \<Rightarrow> u32 \<Rightarrow> u32 \<Rightarrow> 'w \<Rightarrow> (int + int) \<times> 'w" where
  "open_file k px path oflags fdflags w =
    (let host_flags = k_O_RDWR k OR translate_oflags_w2h k oflags OR translate_fdflags_w2h k fdflags
     in case px_open px path host_flags (Some 0x1B6) w of
          (Inr fd, w1) \<Rightarrow> (Inr fd, w1)
        | (Inl err, w1) \<Rightarrow>
            if (err = k_EACCES k \<or> err = k_EPERM k \<or> err = k_EISDIR k)
               \<and> \<not> has_flag oflags (1 OR 8) \<and> \<not> has_flag fdflags 1
            then px_open px path (k_O_RDONLY k OR (host_flags AND NOT (k_O_RDWR k))) None w1
            else (Inl err, w1))"

definition wasi_path_open ::
  "posix_consts \<Rightarrow> 'w posix \<Rightarrow> u32 \<Rightarrow> u32 \<Rightarrow> u32 \<Rightarrow> u32 \<Rightarrow> u32 \<Rightarrow> u64 \<Rightarrow> u64 \<Rightarrow> u32 \<Rightarrow> u32
   \<Rightarrow> 'w wasi_state \<Rightarrow> 'w wasi_result" where
  "wasi_path_open k px fd dirflags path_ptr path_len oflags rights_base rights_inheriting fdflags opened_fd_ptr s =
    (if out_of_range (ws_mem s) path_ptr path_len \<or> out_of_range (ws_mem s) opened_fd_ptr 4 then Some (28, s)
     else if path_len + 1 = 0 then None
     else do {
       raw \<leftarrow> load_bytes (ws_mem s) (unat path_ptr) (unat path_len);
       let path = takeWhile (\<lambda>b. b \<noteq> 0) raw
       in case random_device path of
            Some dev \<Rightarrow>
              (case px_open px dev (k_O_RDONLY k OR (if has_flag fdflags 4 then k_O_NONBLOCK k else 0)) None
                      (ws_world s) of
                 (r, w) \<Rightarrow>
                   return_code 0 (put_word 4 (unat opened_fd_ptr)
                     (case r of Inl _ \<Rightarrow> FAKE_RANDOM_FD | Inr new_fd \<Rightarrow> word_of_int new_fd)
                     (s\<lparr> ws_world := w \<rparr>)))
          | None \<Rightarrow>
              (case open_file k px path oflags fdflags (ws_world s) of
                 (Inl _, w) \<Rightarrow> Some (44, s\<lparr> ws_world := w \<rparr>)
               | (Inr new_fd, w) \<Rightarrow>
                   return_code 0 (put_word 4 (unat opened_fd_ptr) (word_of_int new_fd :: u32)
                     (s\<lparr> ws_world := w \<rparr>))) })"

section \<open>Reading and writing\<close>

text \<open>
  The \<^theory_text>\<open>i\<close>-th entry of the guest's vector: the address of the pair is a 32-bit
  sum. The inner option is the \<^theory_text>\<open>EINVAL\<close> of a failed range check.
\<close>

definition guest_iovec :: "bytes \<Rightarrow> u32 \<Rightarrow> u32 \<Rightarrow> (u32 \<times> u32) option option" where
  "guest_iovec m iovs_ptr i =
    (let iov_ptr = iovs_ptr + i * 8
     in if out_of_range m iov_ptr 8 then Some None
        else do { buf_ptr \<leftarrow> load_word 4 m (unat iov_ptr);
                  buf_len \<leftarrow> load_word 4 m (unat iov_ptr + 4);
                  Some (if out_of_range m buf_ptr buf_len then None else Some (buf_ptr, buf_len)) })"

text \<open>\<^theory_text>\<open>mem[buf_ptr + j] = rand() & 0xff\<close>: the index is a 32-bit sum.\<close>

fun rand_fill :: "'w posix \<Rightarrow> u32 \<Rightarrow> nat \<Rightarrow> 'w wasi_state \<Rightarrow> 'w wasi_state option" where
  "rand_fill px p 0 s = Some s"
| "rand_fill px p (Suc n) s =
    (case px_rand px (ws_world s) of
       (r, w) \<Rightarrow> do { s1 \<leftarrow> put_bytes (unat p) [word_of_int r] (s\<lparr> ws_world := w \<rparr>);
                     rand_fill px (p + 1) n s1 })"

text \<open>
  The loops over the vector: \<^theory_text>\<open>n\<close> entries are left from index \<^theory_text>\<open>i\<close>. \<^theory_text>\<open>Inl\<close> is a
  return from inside the loop, \<^theory_text>\<open>Inr\<close> the total after it.
\<close>

fun fd_read_random ::
  "'w posix \<Rightarrow> u32 \<Rightarrow> nat \<Rightarrow> u32 \<Rightarrow> u32 \<Rightarrow> 'w wasi_state \<Rightarrow> ((u32 + u32) \<times> 'w wasi_state) option" where
  "fd_read_random px iovs_ptr 0 i tot s = Some (Inr tot, s)"
| "fd_read_random px iovs_ptr (Suc n) i tot s =
    (case guest_iovec (ws_mem s) iovs_ptr i of
       None \<Rightarrow> None
     | Some None \<Rightarrow> Some (Inl 28, s)
     | Some (Some (buf_ptr, buf_len)) \<Rightarrow>
         do { s1 \<leftarrow> rand_fill px buf_ptr (unat buf_len) s;
              fd_read_random px iovs_ptr n (i + 1) (tot + buf_len) s1 })"

fun fd_read_loop ::
  "posix_consts \<Rightarrow> 'w posix \<Rightarrow> u32 \<Rightarrow> u32 \<Rightarrow> nat \<Rightarrow> u32 \<Rightarrow> u32 \<Rightarrow> 'w wasi_state
   \<Rightarrow> ((u32 + u32) \<times> 'w wasi_state) option" where
  "fd_read_loop k px fd iovs_ptr 0 i tot s = Some (Inr tot, s)"
| "fd_read_loop k px fd iovs_ptr (Suc n) i tot s =
    (case guest_iovec (ws_mem s) iovs_ptr i of
       None \<Rightarrow> None
     | Some None \<Rightarrow> Some (Inl 28, s)
     | Some (Some (buf_ptr, buf_len)) \<Rightarrow>
         do { _ \<leftarrow> load_bytes (ws_mem s) (unat buf_ptr) (unat buf_len);
              case px_read px (sint fd) (unat buf_len) (ws_world s) of
                (Inl err, w) \<Rightarrow>
                  Some (if 0 < tot then Inr tot else Inl (errno_to_wasi k err), s\<lparr> ws_world := w \<rparr>)
              | (Inr got, w) \<Rightarrow>
                  do { s1 \<leftarrow> put_bytes (unat buf_ptr) got (s\<lparr> ws_world := w \<rparr>);
                       let tot' = tot + word_of_nat (length got)
                       in if length got < unat buf_len \<or> got = [] then Some (Inr tot', s1)
                          else fd_read_loop k px fd iovs_ptr n (i + 1) tot' s1 } })"

definition finish_transfer :: "u32 \<Rightarrow> ((u32 + u32) \<times> 'w wasi_state) option \<Rightarrow> 'w wasi_result" where
  "finish_transfer count_ptr r =
    (case r of None \<Rightarrow> None
     | Some (Inl code, s) \<Rightarrow> Some (code, s)
     | Some (Inr tot, s) \<Rightarrow> return_code 0 (put_word 4 (unat count_ptr) tot s))"

definition wasi_fd_read ::
  "posix_consts \<Rightarrow> 'w posix \<Rightarrow> u32 \<Rightarrow> u32 \<Rightarrow> u32 \<Rightarrow> u32 \<Rightarrow> 'w wasi_state \<Rightarrow> 'w wasi_result" where
  "wasi_fd_read k px fd iovs_ptr iovs_len nread_ptr s =
    (if out_of_range (ws_mem s) nread_ptr 4 then Some (28, s)
     else finish_transfer nread_ptr
       (if fd = FAKE_RANDOM_FD then fd_read_random px iovs_ptr (unat iovs_len) 0 0 s
        else fd_read_loop k px fd iovs_ptr (unat iovs_len) 0 0 s))"

fun fd_write_loop ::
  "posix_consts \<Rightarrow> 'w posix \<Rightarrow> u32 \<Rightarrow> u32 \<Rightarrow> nat \<Rightarrow> u32 \<Rightarrow> u32 \<Rightarrow> 'w wasi_state
   \<Rightarrow> ((u32 + u32) \<times> 'w wasi_state) option" where
  "fd_write_loop k px fd iovs_ptr 0 i tot s = Some (Inr tot, s)"
| "fd_write_loop k px fd iovs_ptr (Suc n) i tot s =
    (case guest_iovec (ws_mem s) iovs_ptr i of
       None \<Rightarrow> None
     | Some None \<Rightarrow> Some (Inl 28, s)
     | Some (Some (buf_ptr, buf_len)) \<Rightarrow>
         do { buf \<leftarrow> load_bytes (ws_mem s) (unat buf_ptr) (unat buf_len);
              case px_write px (sint fd) buf (ws_world s) of
                (Inl err, w) \<Rightarrow>
                  Some (if 0 < tot then Inr tot else Inl (errno_to_wasi k err), s\<lparr> ws_world := w \<rparr>)
              | (Inr n', w) \<Rightarrow>
                  (let tot' = tot + word_of_nat n'; s1 = s\<lparr> ws_world := w \<rparr>
                   in if n' < unat buf_len then Some (Inr tot', s1)
                      else fd_write_loop k px fd iovs_ptr n (i + 1) tot' s1) })"

definition wasi_fd_write ::
  "posix_consts \<Rightarrow> 'w posix \<Rightarrow> u32 \<Rightarrow> u32 \<Rightarrow> u32 \<Rightarrow> u32 \<Rightarrow> 'w wasi_state \<Rightarrow> 'w wasi_result" where
  "wasi_fd_write k px fd iovs_ptr iovs_len nwritten_ptr s =
    (if out_of_range (ws_mem s) nwritten_ptr 4 then Some (28, s)
     else if fd = FAKE_RANDOM_FD then Some (28, s)
     else finish_transfer nwritten_ptr (fd_write_loop k px fd iovs_ptr (unat iovs_len) 0 0 s))"

definition wasi_fd_seek ::
  "posix_consts \<Rightarrow> 'w posix \<Rightarrow> u32 \<Rightarrow> u64 \<Rightarrow> u32 \<Rightarrow> u32 \<Rightarrow> 'w wasi_state \<Rightarrow> 'w wasi_result" where
  "wasi_fd_seek k px fd offset whence newoffset_ptr s =
    (if out_of_range (ws_mem s) newoffset_ptr 8 then Some (28, s)
     else if fd = FAKE_RANDOM_FD then Some (28, s)
     else case px_lseek px (sint fd) (sint offset) (translate_whence_w2h k whence) (ws_world s) of
       (Inl err, w) \<Rightarrow> Some (errno_to_wasi k err, s\<lparr> ws_world := w \<rparr>)
     | (Inr res, w) \<Rightarrow>
         return_code 0 (put_word 8 (unat newoffset_ptr) (word_of_int res :: u64) (s\<lparr> ws_world := w \<rparr>)))"

definition wasi_fd_sync :: "posix_consts \<Rightarrow> 'w posix \<Rightarrow> u32 \<Rightarrow> 'w wasi_state \<Rightarrow> 'w wasi_result" where
  "wasi_fd_sync k px fd s =
    (if fd = FAKE_RANDOM_FD then Some (0, s)
     else case px_fsync px (sint fd) (ws_world s) of
       (Inl err, w) \<Rightarrow> Some (errno_to_wasi k err, s\<lparr> ws_world := w \<rparr>)
     | (Inr _, w) \<Rightarrow> Some (0, s\<lparr> ws_world := w \<rparr>))"

section \<open>Calls without an implementation, and the rest\<close>

datatype unsupported_call =
    Path_Create_Directory | Path_Filestat_Get | Path_Filestat_Set_Times | Path_Readlink
  | Path_Remove_Directory | Path_Unlink_File | Poll_Oneoff

definition wasi_unsupported :: "unsupported_call \<Rightarrow> 'w wasi_state \<Rightarrow> 'w wasi_result" where
  "wasi_unsupported c s = Some (52, s)"

text \<open>\<^theory_text>\<open>proc_exit\<close> ends the process with this status.\<close>

definition wasi_proc_exit :: "u32 \<Rightarrow> int" where
  "wasi_proc_exit rval = sint rval"

definition wasi_random_get :: "'w posix \<Rightarrow> u32 \<Rightarrow> u32 \<Rightarrow> 'w wasi_state \<Rightarrow> 'w wasi_result" where
  "wasi_random_get px buf_ptr buf_len s =
    (if out_of_range (ws_mem s) buf_ptr buf_len then Some (28, s)
     else case px_urandom px (unat buf_len) (ws_world s) of
       (Some got, w) \<Rightarrow>
         do { _ \<leftarrow> load_bytes (ws_mem s) (unat buf_ptr) (unat buf_len);
              return_code 0 (put_bytes (unat buf_ptr) got (s\<lparr> ws_world := w \<rparr>)) }
     | (None, w) \<Rightarrow> return_code 0 (rand_fill px buf_ptr (unat buf_len) (s\<lparr> ws_world := w \<rparr>)))"

end
