(* ===== verification/WasiProps.thy ===== *)
theory WasiProps
  imports Wasi
begin

text \<open>
  A gathered write through \<^theory_text>\<open>fd_write\<close>: what reaches the host and what the guest
  is told, over a host that appends to an output stream.
\<close>

section \<open>The data a vector names\<close>

text \<open>The buffers of the entries up to the first one that fails a range check.\<close>

fun gather :: "bytes \<Rightarrow> u32 \<Rightarrow> nat \<Rightarrow> u32 \<Rightarrow> bytes" where
  "gather m iovs_ptr 0 i = []"
| "gather m iovs_ptr (Suc n) i =
    (case guest_iovec m iovs_ptr i of
       Some (Some (buf_ptr, buf_len)) \<Rightarrow>
         take (unat buf_len) (drop (unat buf_ptr) m) @ gather m iovs_ptr n (i + 1)
     | _ \<Rightarrow> [])"

text \<open>
  The host's contract for write: it accepts a prefix of the buffer, appends it to
  the descriptor's stream and returns its length; a failed call accepts nothing
  and its errno is not 0.
\<close>

definition write_appends :: "'w posix \<Rightarrow> int \<Rightarrow> ('w \<Rightarrow> bytes) \<Rightarrow> bool" where
  "write_appends px fd out \<longleftrightarrow>
     (\<forall>bs w. case px_write px fd bs w of
        (Inl e, w') \<Rightarrow> e \<noteq> 0 \<and> out w' = out w
      | (Inr n, w') \<Rightarrow> n \<le> length bs \<and> out w' = out w @ take n bs)"

lemma write_appends_ok:
  "write_appends px fd out \<Longrightarrow> px_write px fd bs w = (Inr n, w') \<Longrightarrow> n \<le> length bs \<and> out w' = out w @ take n bs"
  unfolding write_appends_def by (drule spec [of _ bs], drule spec [of _ w]) simp

lemma write_appends_failed:
  "write_appends px fd out \<Longrightarrow> px_write px fd bs w = (Inl e, w') \<Longrightarrow> e \<noteq> 0 \<and> out w' = out w"
  unfolding write_appends_def by (drule spec [of _ bs], drule spec [of _ w]) simp

lemma fd_write_loop_gathers:
  assumes law: "write_appends px (sint fd) out"
    and run: "fd_write_loop k px fd iovs_ptr n i tot s = Some (Inr tot', s')"
  shows "ws_mem s' = ws_mem s \<and> (\<exists>l. l \<le> length (gather (ws_mem s) iovs_ptr n i)
     \<and> out (ws_world s') = out (ws_world s) @ take l (gather (ws_mem s) iovs_ptr n i)
     \<and> tot' = tot + word_of_nat l)"
  using run
proof (induction n arbitrary: i tot s)
  case 0
  then show ?case by simp
next
  case (Suc n)
  let ?m = "ws_mem s"
  obtain bp bl where iov: "guest_iovec ?m iovs_ptr i = Some (Some (bp, bl))"
    using Suc.prems by (auto split: option.splits)
  obtain buf where buf: "load_bytes ?m (unat bp) (unat bl) = Some buf"
    using Suc.prems iov by (cases "load_bytes ?m (unat bp) (unat bl)") simp_all
  have bufd: "buf = take (unat bl) (drop (unat bp) ?m)" "length buf = unat bl"
    using load_bytes_Some_length [OF buf] buf by (auto simp: load_bytes_def split: if_splits)
  obtain r w where w: "px_write px (sint fd) buf (ws_world s) = (r, w)" by (cases "px_write px (sint fd) buf (ws_world s)")
  show ?case
  proof (cases r)
    case (Inl e)
    have "s' = s\<lparr> ws_world := w \<rparr>" "tot' = tot"
      using Suc.prems iov buf w Inl by (simp_all split: if_splits)
    moreover have "out w = out (ws_world s)" using write_appends_failed [OF law] w Inl by blast
    ultimately show ?thesis by (intro conjI exI [of _ 0]) simp_all
  next
    case (Inr l)
    have acc: "l \<le> length buf" "out w = out (ws_world s) @ take l buf"
      using write_appends_ok [OF law] w Inr by blast+
    let ?g = "gather ?m iovs_ptr n (i + 1)"
    have g: "gather ?m iovs_ptr (Suc n) i = buf @ ?g" by (simp add: iov bufd(1))
    show ?thesis
    proof (cases "l < unat bl")
      case True
      then have "s' = s\<lparr> ws_world := w \<rparr>" "tot' = tot + word_of_nat l"
        using Suc.prems iov buf w Inr by (simp_all add: Let_def)
      then show ?thesis using acc by (intro conjI exI [of _ l]) (simp_all add: g del: gather.simps)
    next
      case False
      then have rest: "fd_write_loop k px fd iovs_ptr n (i + 1) (tot + word_of_nat l) (s\<lparr> ws_world := w \<rparr>) = Some (Inr tot', s')"
        and l: "l = length buf" using Suc.prems iov buf w Inr acc(1) bufd(2) by (simp_all add: Let_def)
      from Suc.IH [OF rest] obtain l' where "ws_mem s' = ?m" "l' \<le> length ?g"
        "out (ws_world s') = out w @ take l' ?g" "tot' = tot + word_of_nat l + word_of_nat l'" by auto
      then show ?thesis using acc l by (intro conjI exI [of _ "l + l'"]) (simp_all add: g ac_simps del: gather.simps)
    qed
  qed
qed

lemma errno_to_wasi_zero: "errno_to_wasi k e = 0 \<longleftrightarrow> e = 0"
  by (simp add: errno_to_wasi_def)

lemma fd_write_loop_error:
  assumes law: "write_appends px (sint fd) out"
  shows "fd_write_loop k px fd iovs_ptr n i tot s = Some (Inl c, s') \<Longrightarrow> c \<noteq> 0"
proof (induction n arbitrary: i tot s)
  case (Suc n)
  show ?case
  proof (cases "guest_iovec (ws_mem s) iovs_ptr i")
    case (Some e)
    show ?thesis
    proof (cases e)
      case (Some p)
      obtain bp bl where p: "p = (bp, bl)" by (cases p)
      obtain buf where buf: "load_bytes (ws_mem s) (unat bp) (unat bl) = Some buf"
        using Suc.prems \<open>guest_iovec _ _ _ = Some e\<close> Some p
        by (cases "load_bytes (ws_mem s) (unat bp) (unat bl)") simp_all
      obtain r w where w: "px_write px (sint fd) buf (ws_world s) = (r, w)" by fastforce
      show ?thesis
      proof (cases r)
        case (Inl err)
        then show ?thesis
          using Suc.prems \<open>guest_iovec _ _ _ = Some e\<close> Some p buf w write_appends_failed [OF law, of buf "ws_world s" err w]
          by (auto simp: errno_to_wasi_zero split: if_splits)
      next
        case (Inr n')
        then show ?thesis
          using Suc.prems \<open>guest_iovec _ _ _ = Some e\<close> Some p buf w Suc.IH
          by (auto simp: Let_def split: if_splits)
      qed
    qed (use Suc.prems Some in auto)
  qed (use Suc.prems in simp)
qed simp

text \<open>
  When \<^theory_text>\<open>fd_write\<close> reports success, the host has received exactly a prefix of
  the concatenation of the guest's buffers, in order, appended to what was there
  before, and the number of its bytes is what the guest finds at the result
  pointer; no other byte of the guest memory changes.
\<close>

theorem fd_write_gathers:
  assumes law: "write_appends px (sint fd) out"
    and run: "wasi_fd_write k px fd iovs_ptr iovs_len nwritten_ptr s = Some (0, s')"
  shows "\<exists>l \<le> length (gather (ws_mem s) iovs_ptr (unat iovs_len) 0).
      out (ws_world s') = out (ws_world s) @ take l (gather (ws_mem s) iovs_ptr (unat iovs_len) 0)
    \<and> load_word 4 (ws_mem s') (unat nwritten_ptr) = Some (word_of_nat l :: u32)
    \<and> (\<forall>j<length (ws_mem s). j < unat nwritten_ptr \<or> unat nwritten_ptr + 4 \<le> j \<longrightarrow> ws_mem s' ! j = ws_mem s ! j)"
proof -
  obtain tot s1 where loop: "fd_write_loop k px fd iovs_ptr (unat iovs_len) 0 0 s = Some (Inr tot, s1)"
    and fin: "put_word 4 (unat nwritten_ptr) tot s1 = Some s'"
    using run fd_write_loop_error [OF law, of k iovs_ptr "unat iovs_len" 0 0 s]
    by (auto simp: wasi_fd_write_def finish_transfer_def return_code_def split: if_splits option.splits sum.splits)
  obtain m where m: "store_word 4 (ws_mem s1) (unat nwritten_ptr) tot = Some m" "s' = s1\<lparr> ws_mem := m \<rparr>"
    using fin by (auto simp: put_word_def)
  from fd_write_loop_gathers [OF law loop] obtain l where
    l: "ws_mem s1 = ws_mem s" "l \<le> length (gather (ws_mem s) iovs_ptr (unat iovs_len) 0)"
    "out (ws_world s1) = out (ws_world s) @ take l (gather (ws_mem s) iovs_ptr (unat iovs_len) 0)"
    "tot = word_of_nat l" by auto
  have "load_word 4 m (unat nwritten_ptr) = Some (word_of_nat l :: u32)"
    using load_store_word_same [OF m(1)] l(4) by simp
  moreover have "\<forall>j<length (ws_mem s). j < unat nwritten_ptr \<or> unat nwritten_ptr + 4 \<le> j \<longrightarrow> m ! j = ws_mem s ! j"
    using m(1) l(1) by (auto simp: store_word_def store_bytes_nth)
  ultimately show ?thesis using l m(2) by auto
qed

text \<open>A host whose world is the stream, and that accepts at most three bytes per call.\<close>

definition sample_posix :: "bytes posix" where
  "sample_posix = \<lparr> px_clock_gettime = (\<lambda>_ w. (Inr (1, 5), w)), px_close = (\<lambda>_ w. (Inr (), w)),
     px_fstat = (\<lambda>_ w. (Inl 9, w)), px_ftruncate = (\<lambda>_ _ w. (Inr (), w)),
     px_open = (\<lambda>_ _ _ w. (Inr 7, w)), px_read = (\<lambda>_ n w. (Inr (take n w), drop n w)),
     px_write = (\<lambda>_ bs w. (Inr (min 3 (length bs)), w @ take 3 bs)),
     px_lseek = (\<lambda>_ off _ w. (Inr off, w)), px_fsync = (\<lambda>_ w. (Inr (), w)),
     px_urandom = (\<lambda>n w. (Some (replicate n 0), w)), px_rand = (\<lambda>w. (4, w)) \<rparr>"

definition linux_posix :: posix_consts where
  "linux_posix = \<lparr> k_EPERM = 1, k_ENOENT = 2, k_EBADF = 9, k_EAGAIN = 11, k_ENOMEM = 12, k_EACCES = 13,
     k_EBUSY = 16, k_EEXIST = 17, k_EINVAL = 22, k_ENOSPC = 28, k_EPIPE = 32, k_ENOSYS = 38,
     k_ECONNRESET = 104, k_EISDIR = 21, k_CLOCK_REALTIME = 0, k_CLOCK_MONOTONIC = 1,
     k_CLOCK_PROCESS_CPUTIME_ID = 2, k_CLOCK_THREAD_CPUTIME_ID = 3, k_SEEK_SET = 0, k_SEEK_CUR = 1,
     k_SEEK_END = 2, k_O_RDONLY = 0, k_O_RDWR = 2, k_O_CREAT = 0x40, k_O_DIRECTORY = 0x10000,
     k_O_EXCL = 0x80, k_O_TRUNC = 0x200, k_O_APPEND = 0x400, k_O_NONBLOCK = 0x800 \<rparr>"

lemma fd_write_gathers_witness:
  "\<exists>s'. wasi_fd_write linux_posix sample_posix 1 0 2 24
      \<lparr> ws_mem = [16, 0, 0, 0, 3, 0, 0, 0, 19, 0, 0, 0, 4, 0, 0, 0, 1, 2, 3, 4, 5, 6, 7, 8, 0, 0, 0, 0],
        ws_world = [] \<rparr> = Some (0, s')
    \<and> ws_world s' = [1, 2, 3, 4, 5, 6]"
proof -
  let ?m = "[16, 0, 0, 0, 3, 0, 0, 0, 19, 0, 0, 0, 4, 0, 0, 0, 1, 2, 3, 4, 5, 6, 7, 8, 0, 0, 0, 0] :: bytes"
  let ?s = "\<lparr> ws_mem = ?m, ws_world = [] \<rparr>"
  have "map_option fst (wasi_fd_write linux_posix sample_posix 1 0 2 24 ?s) = Some 0" by code_simp
  then obtain s' where run: "wasi_fd_write linux_posix sample_posix 1 0 2 24 ?s = Some (0, s')" by auto
  have len: "map_option (\<lambda>r. load_word 4 (ws_mem (snd r)) (unat (24 :: u32)) = Some (6 :: u32))
      (wasi_fd_write linux_posix sample_posix 1 0 2 24 ?s) = Some True" by code_simp
  have g: "gather ?m 0 (unat (2 :: u32)) 0 = [1, 2, 3, 4, 5, 6, 7]" by code_simp
  have law: "write_appends sample_posix (sint (1 :: u32)) (\<lambda>w. w)"
    by (auto simp: write_appends_def sample_posix_def min_def)
  from fd_write_gathers [OF law run, unfolded wasi_state.select_convs g] obtain l where
    l: "l \<le> length [1, 2, 3, 4, 5, 6, 7 :: u8]" "ws_world s' = [] @ take l [1, 2, 3, 4, 5, 6, 7]"
    "load_word 4 (ws_mem s') (unat (24 :: u32)) = Some (word_of_nat l :: u32)"
    by blast
  have "word_of_nat l = (6 :: u32)" using len l(3) run by simp
  then have "unat (word_of_nat l :: u32) = 6" by simp
  then have "l = 6" using l(1) by (simp add: unat_of_nat)
  then show ?thesis using run l(2) by simp
qed

end
