(* ===== verification/WasmRt.thy ===== *)
theory WasmRt
  imports HostMem
begin

text \<open>
  The runtime the translated guest module links against, WASMImpl/C/wasm-rt:
  linear memories and tables that grow, traps and exceptions that unwind through
  jump buffers, and the set-up of the signal handlers. The build options are the
  fields of \<^theory_text>\<open>rt_config\<close>; what the system's allocator and mapping calls answer
  are those of \<^theory_text>\<open>rt_os\<close>. The little-endian build is modelled; locks and printed
  messages are left out. \<^theory_text>\<open>None\<close> is a process that aborts, or a write past the
  block it was meant for.
\<close>

record rt_config =
  rc_mmap :: bool
  rc_guard_pages :: bool
  rc_signal_handler :: bool
  rc_altstack :: bool
  rc_depth_count :: bool
  rc_merged_traps :: bool
  rc_assertions :: bool

record rt_os =
  ro_mmap :: "u64 \<Rightarrow> bool"
  ro_mprotect :: "u64 \<Rightarrow> u64 \<Rightarrow> bool"
  ro_calloc :: "u64 \<Rightarrow> bool"
  ro_realloc :: "u64 \<Rightarrow> bool"

section \<open>Linear memories\<close>

text \<open>
  \<^theory_text>\<open>wm_data\<close> holds the accessible bytes, \<^theory_text>\<open>wm_reserved\<close> is \<^theory_text>\<open>data_end - data\<close>.
\<close>

record wasm_memory =
  wm_data :: bytes
  wm_reserved :: u64
  wm_page_size :: u32
  wm_pages :: u64
  wm_max_pages :: u64
  wm_size :: u64
  wm_is64 :: bool

definition wasm_default_page_size :: u32 where "wasm_default_page_size = 65536"

definition wasm_rt_memory_is_default32 :: "wasm_memory \<Rightarrow> bool" where
  "wasm_rt_memory_is_default32 m \<longleftrightarrow> wm_page_size m = wasm_default_page_size \<and> \<not> wm_is64 m"

definition get_alloc_size_for_mmap_default32 :: "rt_config \<Rightarrow> u64 \<Rightarrow> u64" where
  "get_alloc_size_for_mmap_default32 cfg max_pages =
    (if rc_guard_pages cfg then 0x200000000
     else if max_pages \<noteq> 0 then max_pages * ucast wasm_default_page_size
     else 0x100000000)"

definition os_mprotect :: "rt_os \<Rightarrow> u64 \<Rightarrow> u64 \<Rightarrow> bool" where
  "os_mprotect os addr n = (if n = 0 then True else ro_mprotect os addr n)"

definition wasm_rt_allocate_memory ::
  "rt_config \<Rightarrow> rt_os \<Rightarrow> u64 \<Rightarrow> u64 \<Rightarrow> bool \<Rightarrow> u32 \<Rightarrow> wasm_memory option" where
  "wasm_rt_allocate_memory cfg os initial_pages max_pages is64 page_size =
    (let byte_length = initial_pages * ucast page_size;
         m = \<lparr> wm_data = [], wm_reserved = 0, wm_page_size = page_size, wm_pages = initial_pages,
               wm_max_pages = max_pages, wm_size = byte_length, wm_is64 = is64 \<rparr>
     in if rc_mmap cfg \<and> wasm_rt_memory_is_default32 m then
          (let mmap_size = get_alloc_size_for_mmap_default32 cfg max_pages
           in if \<not> ro_mmap os mmap_size then None
              else if \<not> os_mprotect os 0 byte_length then None
              else Some (m\<lparr> wm_data := replicate (unat byte_length) 0, wm_reserved := mmap_size \<rparr>))
        else if ro_calloc os byte_length
        then Some (m\<lparr> wm_data := replicate (unat byte_length) 0, wm_reserved := byte_length \<rparr>)
        else Some (m\<lparr> wm_reserved := byte_length \<rparr>))"

text \<open>
  The result is the error flag. After a \<^theory_text>\<open>realloc\<close> the bytes from the old size on
  are cleared; when the sizes, computed modulo the word size, do not add up, that
  write runs past the new block.
\<close>

definition expand_data_allocation ::
  "rt_config \<Rightarrow> rt_os \<Rightarrow> wasm_memory \<Rightarrow> u64 \<Rightarrow> u64 \<Rightarrow> u64 \<Rightarrow> (bool \<times> wasm_memory) option" where
  "expand_data_allocation cfg os m old_size new_size delta_size =
    (if rc_mmap cfg \<and> wasm_rt_memory_is_default32 m then
       (if os_mprotect os old_size delta_size
        then Some (False, m\<lparr> wm_data := wm_data m @ replicate (unat delta_size) 0 \<rparr>)
        else Some (True, m))
     else if \<not> ro_realloc os new_size then Some (True, m)
     else if unat old_size + unat delta_size \<noteq> unat new_size then None
     else Some (False, m\<lparr> wm_data := take (unat old_size) (wm_data m) @ replicate (unat delta_size) 0,
                          wm_reserved := new_size \<rparr>))"

definition grow_memory_impl ::
  "rt_config \<Rightarrow> rt_os \<Rightarrow> wasm_memory \<Rightarrow> u64 \<Rightarrow> (u64 \<times> wasm_memory) option" where
  "grow_memory_impl cfg os m delta =
    (let old_pages = wm_pages m; new_pages = wm_pages m + delta
     in if new_pages = 0 then Some (0, m)
        else if new_pages < old_pages \<or> wm_max_pages m < new_pages then Some (- 1, m)
        else let ps = ucast (wm_page_size m);
                 old_size = old_pages * ps; new_size = new_pages * ps; delta_size = delta * ps
             in case expand_data_allocation cfg os m old_size new_size delta_size of
                  None \<Rightarrow> None
                | Some (True, m1) \<Rightarrow> Some (- 1, m1)
                | Some (False, m1) \<Rightarrow> Some (old_pages, m1\<lparr> wm_pages := new_pages, wm_size := new_size \<rparr>))"

text \<open>The wrapper holds the lock of a shared memory around the same body.\<close>

definition wasm_rt_grow_memory ::
  "rt_config \<Rightarrow> rt_os \<Rightarrow> wasm_memory \<Rightarrow> u64 \<Rightarrow> (u64 \<times> wasm_memory) option" where
  "wasm_rt_grow_memory cfg os m delta = grow_memory_impl cfg os m delta"

section \<open>Tables\<close>

record 'e wasm_table =
  wt_data :: "'e list"
  wt_max_size :: u32
  wt_size :: u32

definition wasm_rt_allocate_table :: "'e \<Rightarrow> u32 \<Rightarrow> u32 \<Rightarrow> 'e wasm_table" where
  "wasm_rt_allocate_table zero elements max_elements =
    \<lparr> wt_data = replicate (unat elements) zero, wt_max_size = max_elements, wt_size = elements \<rparr>"

definition wasm_rt_grow_table ::
  "rt_os \<Rightarrow> u64 \<Rightarrow> 'e wasm_table \<Rightarrow> u32 \<Rightarrow> 'e \<Rightarrow> u32 \<times> 'e wasm_table" where
  "wasm_rt_grow_table os elem_size t delta init =
    (let old_elems = wt_size t; new_elems = ucast (wt_size t) + ucast delta :: u64
     in if new_elems = 0 then (0, t)
        else if new_elems < ucast old_elems \<or> ucast (wt_max_size t) < new_elems then (- 1, t)
        else if \<not> ro_realloc os (new_elems * elem_size) then (- 1, t)
        else (old_elems, t\<lparr> wt_size := ucast new_elems,
                wt_data := take (unat old_elems) (wt_data t)
                  @ replicate (unat new_elems - unat old_elems) init \<rparr>))"

section \<open>Traps, exceptions and jump buffers\<close>

datatype wasm_rt_trap =
    TRAP_NONE | TRAP_OOB | TRAP_INT_OVERFLOW | TRAP_DIV_BY_ZERO | TRAP_INVALID_CONVERSION
  | TRAP_UNREACHABLE | TRAP_CALL_INDIRECT | TRAP_NULL_REF | TRAP_UNCAUGHT_EXCEPTION
  | TRAP_UNALIGNED | TRAP_EXHAUSTION

definition trap_code :: "rt_config \<Rightarrow> wasm_rt_trap \<Rightarrow> nat" where
  "trap_code cfg t =
    (case t of TRAP_NONE \<Rightarrow> 0 | TRAP_OOB \<Rightarrow> 1 | TRAP_INT_OVERFLOW \<Rightarrow> 2 | TRAP_DIV_BY_ZERO \<Rightarrow> 3
     | TRAP_INVALID_CONVERSION \<Rightarrow> 4 | TRAP_UNREACHABLE \<Rightarrow> 5 | TRAP_CALL_INDIRECT \<Rightarrow> 6
     | TRAP_NULL_REF \<Rightarrow> 7 | TRAP_UNCAUGHT_EXCEPTION \<Rightarrow> 8 | TRAP_UNALIGNED \<Rightarrow> 9
     | TRAP_EXHAUSTION \<Rightarrow> (if rc_merged_traps cfg then 1 else 10))"

definition wasm_rt_strerror :: "rt_config \<Rightarrow> nat \<Rightarrow> string" where
  "wasm_rt_strerror cfg code =
    (if code = 0 then ''No error''
     else if code = 1 then
       (if rc_merged_traps cfg
        then ''Out-of-bounds access in linear memory or a table, or call stack exhausted''
        else ''Out-of-bounds access in linear memory or a table'')
     else if code = 10 \<and> \<not> rc_merged_traps cfg then ''Call stack exhausted''
     else if code = 2 then ''Integer overflow on divide or truncation''
     else if code = 3 then ''Integer divide by zero''
     else if code = 4 then ''Conversion from NaN to integer''
     else if code = 5 then ''Unreachable instruction executed''
     else if code = 6 then ''Invalid call_indirect or return_call_indirect''
     else if code = 8 then ''Uncaught exception''
     else if code = 9 then ''Unaligned atomic memory access''
     else if code = 7 then ''Null reference''
     else ''invalid trap code'')"

text \<open>
  Jump buffers are named by numbers; buffer 0 is \<^theory_text>\<open>g_wasm_rt_jmp_buf\<close>. A buffer
  may be jumped to only while it is marked initialised, and jumping clears the
  mark. A transfer of control is the value \<^theory_text>\<open>Jump buffer code state\<close>.
\<close>

record rt_thread =
  th_initialized :: "nat \<Rightarrow> bool"
  th_unwind_target :: "nat option"
  th_exception_tag :: nat
  th_exception_size :: u32
  th_exception :: bytes
  th_call_stack_depth :: u32
  th_saved_call_stack_depth :: u32

datatype rt_jump = Jump nat wasm_rt_trap rt_thread | Abort

definition longjmp_to :: "nat \<Rightarrow> wasm_rt_trap \<Rightarrow> rt_thread \<Rightarrow> rt_jump" where
  "longjmp_to buf code th =
    (if \<not> th_initialized th buf then Abort
     else Jump buf code (th\<lparr> th_initialized := (th_initialized th)(buf := False) \<rparr>))"

definition set_jump :: "nat \<Rightarrow> rt_thread \<Rightarrow> rt_thread" where
  "set_jump buf th = th\<lparr> th_initialized := (th_initialized th)(buf := True) \<rparr>"

definition wasm_rt_set_unwind_target :: "nat option \<Rightarrow> rt_thread \<Rightarrow> rt_thread" where
  "wasm_rt_set_unwind_target target th = th\<lparr> th_unwind_target := target \<rparr>"

text \<open>The macro \<^theory_text>\<open>wasm_rt_impl_try()\<close>, on its first return.\<close>

definition wasm_rt_impl_try :: "rt_config \<Rightarrow> rt_thread \<Rightarrow> rt_thread" where
  "wasm_rt_impl_try cfg th =
    set_jump 0 (wasm_rt_set_unwind_target (Some 0)
      (if rc_depth_count cfg then th\<lparr> th_saved_call_stack_depth := th_call_stack_depth th \<rparr> else th))"

definition wasm_rt_trap :: "rt_config \<Rightarrow> wasm_rt_trap \<Rightarrow> rt_thread \<Rightarrow> rt_jump" where
  "wasm_rt_trap cfg code th =
    (if rc_assertions cfg \<and> code = TRAP_NONE then Abort
     else longjmp_to 0 code
       (if rc_depth_count cfg then th\<lparr> th_call_stack_depth := th_saved_call_stack_depth th \<rparr> else th))"

text \<open>The handler of SIGSEGV and SIGBUS: a protected page is an access out of bounds, anything else the stack.\<close>

definition os_signal_handler :: "rt_config \<Rightarrow> bool \<Rightarrow> rt_thread \<Rightarrow> rt_jump" where
  "os_signal_handler cfg access_error th =
    wasm_rt_trap cfg (if access_error then TRAP_OOB else TRAP_EXHAUSTION) th"

definition max_exception_size :: u32 where "max_exception_size = 256"

text \<open>
  Loading an exception: a value too large for the buffer traps, and trapping does
  not return. The buffer keeps its bytes past the new value.
\<close>

definition wasm_rt_load_exception ::
  "rt_config \<Rightarrow> nat \<Rightarrow> u32 \<Rightarrow> bytes \<Rightarrow> rt_thread \<Rightarrow> rt_jump + rt_thread" where
  "wasm_rt_load_exception cfg tag n vals th =
    (if max_exception_size < n then Inl (wasm_rt_trap cfg TRAP_EXHAUSTION th)
     else let th1 = th\<lparr> th_exception_tag := tag, th_exception_size := n \<rparr>
          in Inr (if n = 0 then th1
                  else th1\<lparr> th_exception := take (unat n) vals @ drop (unat n) (th_exception th1) \<rparr>))"

text \<open>With no target the code dereferences a null pointer; here that ends like an abort.\<close>

definition wasm_rt_throw :: "rt_thread \<Rightarrow> rt_jump" where
  "wasm_rt_throw th =
    (case th_unwind_target th of None \<Rightarrow> Abort
     | Some buf \<Rightarrow> longjmp_to buf TRAP_UNCAUGHT_EXCEPTION th)"

section \<open>Signal handlers and alternate stacks\<close>

text \<open>
  The alternate stack the thread allocated, and the one the system has installed.
  System calls are taken to succeed; the block a \<^theory_text>\<open>malloc\<close> returns is an argument.
\<close>

record rt_process =
  rp_handler_installed :: bool
  rp_handlers_active :: bool
  rp_alt_stack :: "nat option"
  rp_os_altstack :: "nat option"

definition os_install_signal_handler :: "rt_process \<Rightarrow> rt_process" where
  "os_install_signal_handler p = p\<lparr> rp_handlers_active := True \<rparr>"

definition os_cleanup_signal_handler :: "rt_process \<Rightarrow> rt_process" where
  "os_cleanup_signal_handler p = p\<lparr> rp_handlers_active := False \<rparr>"

definition os_has_altstack_installed :: "rt_process \<Rightarrow> bool" where
  "os_has_altstack_installed p \<longleftrightarrow> rp_os_altstack p \<noteq> None"

definition os_allocate_and_install_altstack :: "rt_config \<Rightarrow> nat \<Rightarrow> rt_process \<Rightarrow> rt_process option" where
  "os_allocate_and_install_altstack cfg block p =
    (if rc_assertions cfg \<and> rp_alt_stack p \<noteq> None then None
     else Some (p\<lparr> rp_alt_stack := Some block, rp_os_altstack := Some block \<rparr>))"

definition os_disable_and_deallocate_altstack :: "rt_config \<Rightarrow> rt_process \<Rightarrow> rt_process option" where
  "os_disable_and_deallocate_altstack cfg p =
    (if rc_assertions cfg \<and> rp_alt_stack p = None then None
     else if rp_alt_stack p = None \<or> rp_os_altstack p = None \<or> rp_os_altstack p \<noteq> rp_alt_stack p
     then Some p
     else Some (p\<lparr> rp_os_altstack := None, rp_alt_stack := None \<rparr>))"

definition wasm_rt_is_initialized :: "rt_config \<Rightarrow> rt_process \<Rightarrow> bool" where
  "wasm_rt_is_initialized cfg p \<longleftrightarrow>
     (rc_altstack cfg \<longrightarrow> os_has_altstack_installed p)
   \<and> (rc_signal_handler cfg \<longrightarrow> rp_handler_installed p)"

definition wasm_rt_init_thread :: "rt_config \<Rightarrow> nat \<Rightarrow> rt_process \<Rightarrow> rt_process option" where
  "wasm_rt_init_thread cfg block p =
    (if rc_altstack cfg then os_allocate_and_install_altstack cfg block p else Some p)"

definition wasm_rt_free_thread :: "rt_config \<Rightarrow> rt_process \<Rightarrow> rt_process option" where
  "wasm_rt_free_thread cfg p =
    (if rc_altstack cfg then os_disable_and_deallocate_altstack cfg p else Some p)"

definition wasm_rt_init :: "rt_config \<Rightarrow> nat \<Rightarrow> rt_process \<Rightarrow> rt_process option" where
  "wasm_rt_init cfg block p =
    (case wasm_rt_init_thread cfg block p of None \<Rightarrow> None
     | Some p1 \<Rightarrow>
        (let p2 = (if rc_signal_handler cfg \<and> \<not> rp_handler_installed p1
                   then os_install_signal_handler (p1\<lparr> rp_handler_installed := True \<rparr>) else p1)
         in if rc_assertions cfg \<and> \<not> wasm_rt_is_initialized cfg p2 then None else Some p2))"

definition wasm_rt_free :: "rt_config \<Rightarrow> rt_process \<Rightarrow> rt_process option" where
  "wasm_rt_free cfg p =
    (if rc_assertions cfg \<and> \<not> wasm_rt_is_initialized cfg p then None
     else wasm_rt_free_thread cfg
       (if rc_signal_handler cfg
        then (os_cleanup_signal_handler p)\<lparr> rp_handler_installed := False \<rparr> else p))"

section \<open>Growing a memory\<close>

definition memory_wf :: "wasm_memory \<Rightarrow> bool" where
  "memory_wf m \<longleftrightarrow> unat (wm_size m) = unat (wm_pages m) * unat (wm_page_size m)
     \<and> length (wm_data m) = unat (wm_size m) \<and> wm_pages m \<le> wm_max_pages m
     \<and> unat (wm_max_pages m) * unat (wm_page_size m) < 2 ^ 64"

lemma unat_pages_mult:
  fixes a :: u64 and b :: u32
  assumes "unat a * unat b < 2 ^ 64"
  shows "unat (a * ucast b) = unat a * unat b"
  using assms by (simp add: unat_word_ariths unat_ucast_up)

lemma pages_bytes_bound:
  assumes "memory_wf m" "p \<le> wm_max_pages m"
  shows "unat p * unat (wm_page_size m) < 2 ^ 64"
proof -
  have "unat p \<le> unat (wm_max_pages m)" using assms(2) by (simp add: word_le_nat_alt)
  then have "unat p * unat (wm_page_size m) \<le> unat (wm_max_pages m) * unat (wm_page_size m)"
    by (rule mult_le_mono1)
  moreover have "unat (wm_max_pages m) * unat (wm_page_size m) < 2 ^ 64"
    using assms(1) unfolding memory_wf_def by blast
  ultimately show ?thesis by (rule le_less_trans)
qed

text \<open>The three sizes of a growth within the limit add up without wrapping.\<close>

lemma grow_sizes:
  assumes wf: "memory_wf m" and fits: "\<not> wm_pages m + delta < wm_pages m" "wm_pages m + delta \<le> wm_max_pages m"
  shows "unat (wm_pages m + delta) = unat (wm_pages m) + unat delta"
    and "unat (wm_pages m * ucast (wm_page_size m)) = length (wm_data m)"
    and "unat (delta * ucast (wm_page_size m)) = unat delta * unat (wm_page_size m)"
    and "unat ((wm_pages m + delta) * ucast (wm_page_size m))
       = length (wm_data m) + unat delta * unat (wm_page_size m)"
proof -
  show 1: "unat (wm_pages m + delta) = unat (wm_pages m) + unat delta"
    using fits(1) unat_plus_simple [of "wm_pages m" delta] by (simp add: not_less)
  have "delta \<le> wm_pages m + delta" using 1 by (simp add: word_le_nat_alt)
  then have "delta \<le> wm_max_pages m" using fits(2) by (rule order_trans)
  then show 3: "unat (delta * ucast (wm_page_size m)) = unat delta * unat (wm_page_size m)"
    by (intro unat_pages_mult pages_bytes_bound [OF wf])
  show 2: "unat (wm_pages m * ucast (wm_page_size m)) = length (wm_data m)"
    using unat_pages_mult [OF pages_bytes_bound [OF wf, of "wm_pages m"]] wf by (simp add: memory_wf_def)
  show "unat ((wm_pages m + delta) * ucast (wm_page_size m))
       = length (wm_data m) + unat delta * unat (wm_page_size m)"
    using unat_pages_mult [OF pages_bytes_bound [OF wf fits(2)]] 1 wf
    by (simp add: memory_wf_def algebra_simps)
qed

text \<open>
  Growing a memory of which the maximal byte count fits 64 bits either fails
  with -1 and changes nothing, or returns the old page count and appends exactly
  the requested number of zeroed pages to the old contents; it fails only when
  the limit would be passed or the system refuses, and it never aborts. A
  request so large that the page count wraps to 0 is the one exception: it
  returns 0, as if the memory had been empty, and changes nothing.
\<close>

theorem grow_memory_spec:
  assumes wf: "memory_wf m"
  shows "\<exists>r m'. wasm_rt_grow_memory cfg os m delta = Some (r, m') \<and> memory_wf m'
    \<and> (if wm_pages m + delta = 0 then r = 0 \<and> m' = m
       else if wm_pages m + delta < wm_pages m \<or> wm_max_pages m < wm_pages m + delta then r = - 1 \<and> m' = m
       else (r = - 1 \<and> m' = m \<and> (\<exists>a n. \<not> ro_mprotect os a n \<or> \<not> ro_realloc os n))
          \<or> (r = wm_pages m \<and> wm_pages m' = wm_pages m + delta
             \<and> wm_data m' = wm_data m @ replicate (unat delta * unat (wm_page_size m)) 0))"
proof (cases "wm_pages m + delta = 0 \<or> wm_pages m + delta < wm_pages m \<or> wm_max_pages m < wm_pages m + delta")
  case True
  then show ?thesis using wf by (auto simp: wasm_rt_grow_memory_def grow_memory_impl_def Let_def)
next
  case False
  then have fits: "\<not> wm_pages m + delta < wm_pages m" "wm_pages m + delta \<le> wm_max_pages m" and nz: "wm_pages m + delta \<noteq> 0"
    by auto
  let ?ps = "ucast (wm_page_size m) :: u64"
  let ?old = "wm_pages m * ?ps" and ?new = "(wm_pages m + delta) * ?ps" and ?d = "delta * ?ps"
  note sz = grow_sizes [OF wf fits]
  let ?m1 = "\<lambda>res. m\<lparr> wm_data := wm_data m @ replicate (unat delta * unat (wm_page_size m)) 0,
      wm_reserved := res, wm_pages := wm_pages m + delta, wm_size := ?new \<rparr>"
  have ok: "expand_data_allocation cfg os m ?old ?new ?d = Some (True, m) \<and> (\<exists>a n. \<not> ro_mprotect os a n \<or> \<not> ro_realloc os n)
      \<or> (\<exists>res. expand_data_allocation cfg os m ?old ?new ?d
          = Some (False, m\<lparr> wm_data := wm_data m @ replicate (unat delta * unat (wm_page_size m)) 0, wm_reserved := res \<rparr>))"
    using sz by (auto simp: expand_data_allocation_def os_mprotect_def split: if_splits
        intro: exI [of _ "wm_reserved m"])
  have wf1: "memory_wf (?m1 res)" for res
    using wf fits(2) sz(1,4) by (simp add: memory_wf_def algebra_simps)
  have grow: "wasm_rt_grow_memory cfg os m delta = (case expand_data_allocation cfg os m ?old ?new ?d of
        None \<Rightarrow> None | Some (True, m1) \<Rightarrow> Some (- 1, m1)
      | Some (False, m1) \<Rightarrow> Some (wm_pages m, m1\<lparr> wm_pages := wm_pages m + delta, wm_size := ?new \<rparr>))"
    using False by (simp add: wasm_rt_grow_memory_def grow_memory_impl_def Let_def)
  from ok show ?thesis
  proof
    assume "expand_data_allocation cfg os m ?old ?new ?d = Some (True, m) \<and> (\<exists>a n. \<not> ro_mprotect os a n \<or> \<not> ro_realloc os n)"
    then show ?thesis using wf False by (simp add: grow)
  next
    assume "\<exists>res. expand_data_allocation cfg os m ?old ?new ?d
        = Some (False, m\<lparr> wm_data := wm_data m @ replicate (unat delta * unat (wm_page_size m)) 0, wm_reserved := res \<rparr>)"
    then obtain res where "wasm_rt_grow_memory cfg os m delta = Some (wm_pages m, ?m1 res)" by (auto simp: grow)
    then show ?thesis using wf1 [of res] False by simp
  qed
qed

definition sample_rt_config :: rt_config where
  "sample_rt_config = \<lparr> rc_mmap = False, rc_guard_pages = False, rc_signal_handler = True, rc_altstack = True,
     rc_depth_count = False, rc_merged_traps = False, rc_assertions = True \<rparr>"

definition willing_os :: rt_os where
  "willing_os = \<lparr> ro_mmap = (\<lambda>_. True), ro_mprotect = (\<lambda>_ _. True), ro_calloc = (\<lambda>_. True),
     ro_realloc = (\<lambda>_. True) \<rparr>"

definition sample_memory :: wasm_memory where
  "sample_memory = \<lparr> wm_data = [7, 8], wm_reserved = 2, wm_page_size = 2, wm_pages = 1, wm_max_pages = 4,
     wm_size = 2, wm_is64 = True \<rparr>"

lemma grow_memory_spec_witness:
  "(\<exists>m'. wasm_rt_grow_memory sample_rt_config willing_os sample_memory 2 = Some (1, m')
      \<and> wm_data m' = [7, 8, 0, 0, 0, 0])
   \<and> wasm_rt_grow_memory sample_rt_config willing_os sample_memory (- 1) = Some (0, sample_memory)"
proof -
  have wf: "memory_wf sample_memory" by (simp add: memory_wf_def sample_memory_def)
  have zeros: "replicate 4 (0 :: u8) = [0, 0, 0, 0]" by (simp add: eval_nat_numeral)
  have "\<exists>m'. wasm_rt_grow_memory sample_rt_config willing_os sample_memory 2 = Some (1, m')
      \<and> wm_data m' = [7, 8, 0, 0, 0, 0]"
    using grow_memory_spec [OF wf, of sample_rt_config willing_os 2]
    by (auto simp: sample_memory_def willing_os_def zeros)
  moreover have "wasm_rt_grow_memory sample_rt_config willing_os sample_memory (- 1) = Some (0, sample_memory)"
    using grow_memory_spec [OF wf, of sample_rt_config willing_os "- 1"] by (simp add: sample_memory_def)
  ultimately show ?thesis by blast
qed

section \<open>Growing a table\<close>

definition table_wf :: "'e wasm_table \<Rightarrow> bool" where
  "table_wf t \<longleftrightarrow> length (wt_data t) = unat (wt_size t) \<and> wt_size t \<le> wt_max_size t"

lemma allocate_table_wf: "elements \<le> max_elements \<Longrightarrow> table_wf (wasm_rt_allocate_table z elements max_elements)"
  by (simp add: table_wf_def wasm_rt_allocate_table_def)

lemma table_sum:
  fixes a b :: u32
  shows "unat (ucast a + ucast b :: u64) = unat a + unat b"
proof -
  have "unat a < 2 ^ 32" "unat b < 2 ^ 32"
    using unsigned_less [of a, where 'a = nat] unsigned_less [of b, where 'a = nat] by simp_all
  then show ?thesis by (simp add: unat_word_ariths unat_ucast_up)
qed

lemma grow_table_spec:
  assumes "table_wf t"
  shows "(case wasm_rt_grow_table os elem_size t delta init of (r, t') \<Rightarrow> table_wf t' \<and>
     (t' = t \<and> (r = - 1 \<or> unat (wt_size t) + unat delta = 0)
      \<or> r = wt_size t \<and> wt_data t' = wt_data t @ replicate (unat delta) init
        \<and> unat (wt_size t') = unat (wt_size t) + unat delta))"
proof -
  let ?new = "ucast (wt_size t) + ucast delta :: u64"
  have n: "unat ?new = unat (wt_size t) + unat delta" by (rule table_sum)
  show ?thesis
  proof (cases "?new = 0 \<or> ucast (wt_max_size t) < ?new \<or> \<not> ro_realloc os (?new * elem_size)")
    case True
    then show ?thesis using assms n by (auto simp: wasm_rt_grow_table_def Let_def word_unat_eq_iff)
  next
    case False
    have "unat ?new \<le> unat (wt_max_size t)"
      using False by (simp add: not_less word_le_nat_alt unat_ucast_up)
    moreover have "unat (wt_max_size t) < 2 ^ 32" using unsigned_less [of "wt_max_size t", where 'a = nat] by simp
    ultimately have "unat (ucast ?new :: u32) = unat (wt_size t) + unat delta"
      using n by (simp add: unsigned_ucast_eq take_bit_nat_eq_self)
    moreover have "\<not> ?new < ucast (wt_size t)" using n by (simp add: word_less_nat_alt unat_ucast_up)
    ultimately show ?thesis using False assms n \<open>unat ?new \<le> unat (wt_max_size t)\<close>
      by (simp add: wasm_rt_grow_table_def Let_def table_wf_def word_le_nat_alt)
  qed
qed

section \<open>Exceptions\<close>

text \<open>
  An exception of at most 256 bytes reads back as it was loaded, and throwing
  it transfers control to the last try and leaves that buffer spent: a second
  throw or a trap before the next try aborts instead of jumping. A larger
  exception traps to the same buffer without being loaded.
\<close>

theorem throw_once:
  assumes "unat n \<le> length vals"
  shows "case wasm_rt_load_exception cfg tag n vals (wasm_rt_impl_try cfg th) of
      Inr th1 \<Rightarrow> n \<le> max_exception_size \<and> take (unat n) (th_exception th1) = take (unat n) vals
        \<and> th_exception_tag th1 = tag \<and> th_exception_size th1 = n
        \<and> (\<exists>th2. wasm_rt_throw th1 = Jump 0 TRAP_UNCAUGHT_EXCEPTION th2 \<and> wasm_rt_throw th2 = Abort
             \<and> (\<forall>code. wasm_rt_trap cfg code th2 = Abort))
    | Inl j \<Rightarrow> max_exception_size < n
        \<and> (\<exists>th2. j = Jump 0 TRAP_EXHAUSTION th2 \<and> th_exception th2 = th_exception th \<and> wasm_rt_throw th2 = Abort)"
proof -
  have tr: "th_unwind_target (wasm_rt_impl_try cfg th) = Some 0" "th_initialized (wasm_rt_impl_try cfg th) 0"
    "th_exception (wasm_rt_impl_try cfg th) = th_exception th"
    by (simp_all add: wasm_rt_impl_try_def set_jump_def wasm_rt_set_unwind_target_def)
  have "take (unat n) (take (unat n) vals @ drop (unat n) b) = take (unat n) vals" for b
    using assms(1) by simp
  then show ?thesis using tr
    by (auto simp: wasm_rt_load_exception_def wasm_rt_throw_def wasm_rt_trap_def longjmp_to_def Let_def not_less)
qed

definition idle_thread :: rt_thread where
  "idle_thread = \<lparr> th_initialized = (\<lambda>_. False), th_unwind_target = None, th_exception_tag = 0,
     th_exception_size = 0, th_exception = replicate 256 0, th_call_stack_depth = 0,
     th_saved_call_stack_depth = 0 \<rparr>"

lemma throw_once_witness:
  "case wasm_rt_load_exception sample_rt_config 5 2 [9, 8] (wasm_rt_impl_try sample_rt_config idle_thread) of
     Inr th1 \<Rightarrow> take 2 (th_exception th1) = [9, 8]
       \<and> (\<exists>th2. wasm_rt_throw th1 = Jump 0 TRAP_UNCAUGHT_EXCEPTION th2 \<and> wasm_rt_throw th2 = Abort)
   | Inl j \<Rightarrow> False"
  using throw_once [where n = 2 and vals = "[9, 8]" and cfg = sample_rt_config and tag = 5 and th = idle_thread]
  by (auto simp: max_exception_size_def split: sum.splits)

section \<open>Setting up and tearing down\<close>

lemma init_free_restores:
  assumes "wasm_rt_init cfg block p = Some p1" "rp_alt_stack p = None" "rp_os_altstack p = None"
    "\<not> rp_handler_installed p" "\<not> rp_handlers_active p"
  shows "wasm_rt_is_initialized cfg p1 \<and> wasm_rt_free cfg p1 = Some p"
  using assms
  by (cases p) (auto simp: os_install_signal_handler_def os_cleanup_signal_handler_def wasm_rt_init_def wasm_rt_init_thread_def os_allocate_and_install_altstack_def
      wasm_rt_is_initialized_def os_has_altstack_installed_def wasm_rt_free_def wasm_rt_free_thread_def
      os_disable_and_deallocate_altstack_def Let_def split: if_splits option.splits)

lemma strerror_known: "wasm_rt_strerror cfg (trap_code cfg t) \<noteq> ''invalid trap code''"
  by (cases t) (simp_all add: wasm_rt_strerror_def trap_code_def)

end
