(* ===== verification/OffsetMap.thy ===== *)
theory OffsetMap
  imports Prelude
begin

text \<open>
  \<^theory_text>\<open>offset_map\<close> of include/luxon/server/offset_map.hpp: a map from an
  unsigned integer key to a value, stored as a vector of optional slots that
  starts at the smallest key. The model keeps the three members
  (\<^theory_text>\<open>slots_\<close>, \<^theory_text>\<open>base_\<close>, \<^theory_text>\<open>size_\<close>); keys are machine words, so the key of
  the last slot is computed with the wrap-around of the code. An iterator is
  the index it holds; \<^theory_text>\<open>end()\<close> is the number of slots.
\<close>

record ('k, 'v) offset_map =
  om_slots :: "'v option list"
  om_base :: "'k"
  om_size :: nat

definition om_default :: "('k::len word, 'v) offset_map" where
  "om_default = \<lparr> om_slots = [], om_base = 0, om_size = 0 \<rparr>"

definition om_empty :: "('k::len word, 'v) offset_map \<Rightarrow> bool" where
  "om_empty m \<longleftrightarrow> om_size m = 0"

definition om_key_span :: "('k::len word, 'v) offset_map \<Rightarrow> nat" where
  "om_key_span m = length (om_slots m)"

definition om_min_key :: "('k::len word, 'v) offset_map \<Rightarrow> 'k word option" where
  "om_min_key m = (if om_empty m then None else Some (om_base m))"

definition om_max_key :: "('k::len word, 'v) offset_map \<Rightarrow> 'k word option" where
  "om_max_key m = (if om_empty m then None
     else Some (om_base m + of_nat (length (om_slots m)) - 1))"

definition om_clear :: "('k::len word, 'v) offset_map \<Rightarrow> ('k word, 'v) offset_map" where
  "om_clear m = m\<lparr> om_slots := [], om_base := 0, om_size := 0 \<rparr>"

definition om_in_span :: "('k::len word, 'v) offset_map \<Rightarrow> 'k word \<Rightarrow> bool" where
  "om_in_span m key \<longleftrightarrow> om_slots m \<noteq> [] \<and> om_base m \<le> key
     \<and> unat (key - om_base m) < length (om_slots m)"

definition om_index_of :: "('k::len word, 'v) offset_map \<Rightarrow> 'k word \<Rightarrow> nat" where
  "om_index_of m key = unat (key - om_base m)"

text \<open>\<^theory_text>\<open>basic_iterator::skip_empty\<close>, dereference and increment.\<close>

function om_skip_empty :: "'v option list \<Rightarrow> nat \<Rightarrow> nat" where
  "om_skip_empty slots i =
     (if i < length slots \<and> slots ! i = None then om_skip_empty slots (Suc i) else i)"
  by pat_completeness auto
termination by (relation "measure (\<lambda>(slots, i). length slots - i)") auto

declare om_skip_empty.simps [simp del]

definition om_begin :: "('k::len word, 'v) offset_map \<Rightarrow> nat" where
  "om_begin m = om_skip_empty (om_slots m) 0"

definition om_end :: "('k::len word, 'v) offset_map \<Rightarrow> nat" where
  "om_end m = om_skip_empty (om_slots m) (length (om_slots m))"

definition om_next :: "('k::len word, 'v) offset_map \<Rightarrow> nat \<Rightarrow> nat" where
  "om_next m i = om_skip_empty (om_slots m) (Suc i)"

definition om_deref :: "('k::len word, 'v) offset_map \<Rightarrow> nat \<Rightarrow> ('k word \<times> 'v) option" where
  "om_deref m i = (if i < length (om_slots m)
     then map_option (\<lambda>v. (om_base m + of_nat i, v)) (om_slots m ! i) else None)"

definition om_find :: "('k::len word, 'v) offset_map \<Rightarrow> 'k word \<Rightarrow> nat" where
  "om_find m key = (if \<not> om_in_span m key then om_end m
     else let idx = om_index_of m key
          in if om_slots m ! idx \<noteq> None then om_skip_empty (om_slots m) idx else om_end m)"

definition om_contains :: "('k::len word, 'v) offset_map \<Rightarrow> 'k word \<Rightarrow> bool" where
  "om_contains m key \<longleftrightarrow> om_find m key \<noteq> om_end m"

definition om_get :: "('k::len word, 'v) offset_map \<Rightarrow> 'k word \<Rightarrow> 'v option" where
  "om_get m key = (if \<not> om_in_span m key then None else om_slots m ! om_index_of m key)"

text \<open>\<^theory_text>\<open>at\<close> throws \<^theory_text>\<open>std::out_of_range\<close> for an absent key: \<^theory_text>\<open>Inl ()\<close>.\<close>

definition om_at :: "('k::len word, 'v) offset_map \<Rightarrow> 'k word \<Rightarrow> unit + 'v" where
  "om_at m key = (case om_get m key of Some v \<Rightarrow> Inr v | None \<Rightarrow> Inl ())"

definition om_ensure_slot :: "('k::len word, 'v) offset_map \<Rightarrow> 'k word \<Rightarrow> ('k word, 'v) offset_map" where
  "om_ensure_slot m key =
    (if om_slots m = [] then m\<lparr> om_base := key, om_slots := [None] \<rparr>
     else if key < om_base m then
       m\<lparr> om_slots := replicate (unat (om_base m - key)) None @ om_slots m, om_base := key \<rparr>
     else let idx = om_index_of m key
          in if length (om_slots m) \<le> idx
             then m\<lparr> om_slots := om_slots m @ replicate (Suc idx - length (om_slots m)) None \<rparr>
             else m)"

text \<open>\<^theory_text>\<open>operator[]\<close>, with the default value of the mapped type, and the insertions.\<close>

definition om_index_or_default ::
  "'v \<Rightarrow> ('k::len word, 'v) offset_map \<Rightarrow> 'k word \<Rightarrow> ('k word, 'v) offset_map \<times> 'v" where
  "om_index_or_default d m key =
    (let m1 = om_ensure_slot m key; idx = om_index_of m1 key
     in case om_slots m1 ! idx of
          None \<Rightarrow> (m1\<lparr> om_size := Suc (om_size m1), om_slots := (om_slots m1)[idx := Some d] \<rparr>, d)
        | Some v \<Rightarrow> (m1, v))"

definition om_insert ::
  "('k::len word, 'v) offset_map \<Rightarrow> 'k word \<Rightarrow> 'v \<Rightarrow> ('k word, 'v) offset_map \<times> nat \<times> bool" where
  "om_insert m key v =
    (let m1 = om_ensure_slot m key; idx = om_index_of m1 key
     in if om_slots m1 ! idx \<noteq> None then (m1, idx, False)
        else (m1\<lparr> om_slots := (om_slots m1)[idx := Some v], om_size := Suc (om_size m1) \<rparr>, idx, True))"

definition om_try_emplace ::
  "('a \<Rightarrow> 'v) \<Rightarrow> ('k::len word, 'v) offset_map \<Rightarrow> 'k word \<Rightarrow> 'a
     \<Rightarrow> ('k word, 'v) offset_map \<times> nat \<times> bool" where
  "om_try_emplace construct m key args =
    (let m1 = om_ensure_slot m key; idx = om_index_of m1 key
     in if om_slots m1 ! idx \<noteq> None then (m1, idx, False)
        else (m1\<lparr> om_slots := (om_slots m1)[idx := Some (construct args)],
                  om_size := Suc (om_size m1) \<rparr>, idx, True))"

definition om_insert_or_assign ::
  "('k::len word, 'v) offset_map \<Rightarrow> 'k word \<Rightarrow> 'v \<Rightarrow> ('k word, 'v) offset_map \<times> nat \<times> bool" where
  "om_insert_or_assign m key v =
    (let m1 = om_ensure_slot m key; idx = om_index_of m1 key;
         inserted = (om_slots m1 ! idx = None)
     in if inserted
        then (m1\<lparr> om_slots := (om_slots m1)[idx := Some v], om_size := Suc (om_size m1) \<rparr>, idx, inserted)
        else (m1\<lparr> om_slots := (om_slots m1)[idx := Some v] \<rparr>, idx, inserted))"

text \<open>The range-for loop over a map: from \<^theory_text>\<open>begin()\<close> by increments up to \<^theory_text>\<open>end()\<close>.\<close>

lemma om_skip_empty_le:
  "i \<le> om_skip_empty slots i" "i \<le> length slots \<Longrightarrow> om_skip_empty slots i \<le> length slots"
  by (induction slots i rule: om_skip_empty.induct; subst om_skip_empty.simps; auto)+

lemma om_end_eq [simp]: "om_end m = length (om_slots m)"
  by (simp add: om_end_def om_skip_empty.simps)

function om_iterate :: "('k::len word, 'v) offset_map \<Rightarrow> nat \<Rightarrow> ('k word \<times> 'v) list" where
  "om_iterate m i = (if i = om_end m \<or> length (om_slots m) < i then []
     else (case om_deref m i of Some kv \<Rightarrow> [kv] | None \<Rightarrow> []) @ om_iterate m (om_next m i))"
  by pat_completeness auto
termination
proof (relation "measure (\<lambda>(m, i). Suc (length (om_slots m)) - i)")
  fix m :: "('k::len word, 'v) offset_map" and i
  assume "\<not> (i = om_end m \<or> length (om_slots m) < i)"
  then have "i < length (om_slots m)" by auto
  moreover have "i < om_next m i"
    using om_skip_empty_le(1) [of "Suc i"] by (simp add: om_next_def Suc_le_eq)
  ultimately have "Suc (length (om_slots m)) - om_next m i < Suc (length (om_slots m)) - i"
    by (intro diff_less_mono2) auto
  then show "((m, om_next m i), m, i) \<in> measure (\<lambda>(m, i). Suc (length (om_slots m)) - i)"
    by simp
qed simp

declare om_iterate.simps [simp del]

definition om_entries :: "('k::len word, 'v) offset_map \<Rightarrow> ('k word \<times> 'v) list" where
  "om_entries m = om_iterate m (om_begin m)"

text \<open>\<^theory_text>\<open>trim\<close>: the two index loops, then the vector is cut at both ends.\<close>

fun om_trim_last :: "'v option list \<Rightarrow> nat \<Rightarrow> nat \<Rightarrow> nat" where
  "om_trim_last slots first 0 = 0"
| "om_trim_last slots first (Suc n) =
     (if first < Suc n \<and> slots ! n = None then om_trim_last slots first n else Suc n)"

definition om_trim :: "('k::len word, 'v) offset_map \<Rightarrow> ('k word, 'v) offset_map" where
  "om_trim m =
    (if om_slots m = [] then m
     else if om_size m = 0 then om_clear m
     else let first = om_skip_empty (om_slots m) 0;
              last = om_trim_last (om_slots m) first (length (om_slots m));
              kept = (if last < length (om_slots m) then take last (om_slots m) else om_slots m)
          in if 0 < first
             then m\<lparr> om_slots := drop first kept, om_base := om_base m + of_nat first \<rparr>
             else m\<lparr> om_slots := kept \<rparr>)"

definition om_erase :: "('k::len word, 'v) offset_map \<Rightarrow> 'k word \<Rightarrow> ('k word, 'v) offset_map \<times> nat" where
  "om_erase m key =
    (if \<not> om_in_span m key then (m, 0)
     else let idx = om_index_of m key
          in if om_slots m ! idx = None then (m, 0)
             else (om_trim (m\<lparr> om_slots := (om_slots m)[idx := None], om_size := om_size m - 1 \<rparr>), 1))"

section \<open>Invariant and abstraction\<close>

definition om_wf :: "('k::len word, 'v) offset_map \<Rightarrow> bool" where
  "om_wf m \<longleftrightarrow> om_size m = count_some (om_slots m)
     \<and> unat (om_base m) + length (om_slots m) \<le> 2 ^ LENGTH('k)"

definition om_inv :: "('k::len word, 'v) offset_map \<Rightarrow> bool" where
  "om_inv m \<longleftrightarrow> om_wf m
     \<and> (if om_slots m = [] then om_base m = 0
        else hd (om_slots m) \<noteq> None \<and> last (om_slots m) \<noteq> None)"

definition om_nth :: "('k::len word, 'v) offset_map \<Rightarrow> nat \<Rightarrow> 'v option" where
  "om_nth m n = (if unat (om_base m) \<le> n \<and> n - unat (om_base m) < length (om_slots m)
     then om_slots m ! (n - unat (om_base m)) else None)"

lemma om_in_span_nat:
  "om_in_span m key \<longleftrightarrow> unat (om_base m) \<le> unat key
     \<and> unat key - unat (om_base m) < length (om_slots m)"
  by (auto simp: om_in_span_def word_le_nat_alt unat_diff_le)

lemma om_get_nth: "om_get m key = om_nth m (unat key)"
proof (cases "om_in_span m key")
  case True
  then have "om_index_of m key = unat key - unat (om_base m)"
    by (simp add: om_in_span_def om_index_of_def unat_diff_le)
  with True show ?thesis by (simp add: om_get_def om_nth_def om_in_span_nat)
next
  case False
  then show ?thesis by (auto simp: om_get_def om_nth_def om_in_span_nat)
qed

lemma om_ensure_slot_nth [simp]: "om_nth (om_ensure_slot m key) n = om_nth m n"
proof (cases "om_slots m = []")
  case True
  then show ?thesis by (simp add: om_ensure_slot_def om_nth_def)
next
  case False
  show ?thesis
  proof (cases "key < om_base m")
    case True
    then have "unat key < unat (om_base m)" by (simp add: word_less_nat_alt)
    moreover have "unat (om_base m - key) = unat (om_base m) - unat key"
      using True by (simp add: unat_diff_le)
    ultimately show ?thesis
      using True False by (auto simp: om_ensure_slot_def om_nth_def nth_append)
  next
    case False
    then have "om_index_of m key = unat key - unat (om_base m)"
      by (simp add: om_index_of_def unat_diff_le)
    with False \<open>om_slots m \<noteq> []\<close> show ?thesis
      by (auto simp: om_ensure_slot_def om_nth_def nth_append Let_def)
  qed
qed

lemma om_ensure_slot_span: "om_in_span (om_ensure_slot m key) key"
proof -
  have "unat (om_base m - key) = unat (om_base m) - unat key" if "key < om_base m"
    using that by (simp add: unat_diff_le)
  moreover have "om_index_of m key = unat key - unat (om_base m)" if "\<not> key < om_base m"
    using that by (simp add: om_index_of_def unat_diff_le)
  ultimately show ?thesis
    by (auto simp: om_ensure_slot_def om_in_span_nat Let_def word_less_nat_alt)
qed

lemma om_ensure_slot_wf: "om_wf m \<Longrightarrow> om_wf (om_ensure_slot m key)"
proof -
  assume wf: "om_wf m"
  have k: "Suc (unat key) \<le> 2 ^ LENGTH('a)" by (simp add: Suc_le_eq)
  have "unat (om_base m - key) = unat (om_base m) - unat key" if "key < om_base m"
    using that by (simp add: unat_diff_le)
  moreover have "om_index_of m key = unat key - unat (om_base m)" if "\<not> key < om_base m"
    using that by (simp add: om_index_of_def unat_diff_le)
  ultimately show ?thesis
    using wf k by (auto simp: om_ensure_slot_def om_wf_def Let_def word_less_nat_alt)
qed

lemma om_ensure_slot_keep: "om_in_span m key \<Longrightarrow> om_ensure_slot m key = m"
  by (auto simp: om_ensure_slot_def om_in_span_def om_index_of_def Let_def)

text \<open>Writing one slot that is in the span.\<close>

lemma om_put_nth:
  assumes "om_in_span m key" "om_slots m' = (om_slots m)[om_index_of m key := x]" "om_base m' = om_base m"
  shows "om_nth m' n = (if n = unat key then x else om_nth m n)"
proof -
  have "om_index_of m key = unat key - unat (om_base m)"
    using assms(1) by (simp add: om_in_span_def om_index_of_def unat_diff_le)
  with assms show ?thesis by (auto simp: om_nth_def om_in_span_nat nth_list_update)
qed

lemma om_put_wf:
  assumes "om_wf m" "om_in_span m key" "om_slots m' = (om_slots m)[om_index_of m key := x]"
    "om_base m' = om_base m"
    "om_size m' + (if om_nth m (unat key) = None then 0 else 1) = om_size m + (if x = None then 0 else 1)"
  shows "om_wf m'"
proof -
  have i: "om_index_of m key < length (om_slots m)"
    using assms(2) by (simp add: om_in_span_def om_index_of_def)
  have "om_slots m ! om_index_of m key = om_nth m (unat key)"
    using assms(2) by (simp flip: om_get_nth add: om_get_def)
  with count_some_update [OF i, of x] assms show ?thesis
    by (auto simp: om_wf_def split: if_splits)
qed

section \<open>The operations refine a finite map\<close>

lemma om_set_slot:
  assumes "om_wf m" and m1_def: "m1 = om_ensure_slot m key"
    and "om_slots m' = (om_slots m1)[om_index_of m1 key := x]" "om_base m' = om_base m1"
    "om_size m' + (if om_nth m (unat key) = None then 0 else 1) = om_size m1 + (if x = None then 0 else 1)"
  shows "om_wf m'" "om_nth m' n = (if n = unat key then x else om_nth m n)"
proof -
  have sp: "om_in_span m1 key" and wf: "om_wf m1"
    using assms(1) by (simp_all add: m1_def om_ensure_slot_span om_ensure_slot_wf)
  show "om_wf m'"
    using om_put_wf [OF wf sp assms(3,4)] assms(5) by (simp add: m1_def)
  show "om_nth m' n = (if n = unat key then x else om_nth m n)"
    using om_put_nth [OF sp assms(3,4)] by (simp add: m1_def)
qed

lemma om_slot_at_ensured:
  "om_slots (om_ensure_slot m key) ! om_index_of (om_ensure_slot m key) key = om_nth m (unat key)"
  using om_get_nth [of "om_ensure_slot m key" key] om_ensure_slot_span [of m key]
  by (simp add: om_get_def)

lemma om_skip_empty_spec:
  assumes "i \<le> length slots"
  shows "i \<le> om_skip_empty slots i" "om_skip_empty slots i \<le> length slots"
    "\<forall>j. i \<le> j \<and> j < om_skip_empty slots i \<longrightarrow> slots ! j = None"
    "om_skip_empty slots i < length slots \<Longrightarrow> slots ! om_skip_empty slots i \<noteq> None"
proof -
  have "i \<le> om_skip_empty slots i \<and> om_skip_empty slots i \<le> length slots
      \<and> (\<forall>j. i \<le> j \<and> j < om_skip_empty slots i \<longrightarrow> slots ! j = None)
      \<and> (om_skip_empty slots i < length slots \<longrightarrow> slots ! om_skip_empty slots i \<noteq> None)"
    using assms
  proof (induction slots i rule: om_skip_empty.induct)
    case (1 slots i)
    show ?case
    proof (cases "i < length slots \<and> slots ! i = None")
      case True
      have "slots ! j = None" if "i \<le> j" "j < om_skip_empty slots (Suc i)" for j
        using that 1 True by (cases "j = i") auto
      with 1 True show ?thesis by (subst (1 2 3 4 5) om_skip_empty.simps) auto
    next
      case False
      with 1 show ?thesis by (subst (1 2 3 4 5) om_skip_empty.simps) auto
    qed
  qed
  then show "i \<le> om_skip_empty slots i" "om_skip_empty slots i \<le> length slots"
    "\<forall>j. i \<le> j \<and> j < om_skip_empty slots i \<longrightarrow> slots ! j = None"
    "om_skip_empty slots i < length slots \<Longrightarrow> slots ! om_skip_empty slots i \<noteq> None"
    by auto
qed

lemma om_trim_last_spec:
  assumes "n \<le> length slots" "first < n" "slots ! first \<noteq> None"
  shows "first < om_trim_last slots first n" "om_trim_last slots first n \<le> n"
    "slots ! (om_trim_last slots first n - 1) \<noteq> None"
    "\<forall>j. om_trim_last slots first n \<le> j \<and> j < n \<longrightarrow> slots ! j = None"
proof -
  have "first < om_trim_last slots first n \<and> om_trim_last slots first n \<le> n
      \<and> slots ! (om_trim_last slots first n - 1) \<noteq> None
      \<and> (\<forall>j. om_trim_last slots first n \<le> j \<and> j < n \<longrightarrow> slots ! j = None)"
    using assms
  proof (induction n)
    case 0
    then show ?case by simp
  next
    case (Suc n)
    show ?case
    proof (cases "slots ! n = None")
      case True
      with Suc.prems have "first < n" by (metis less_antisym)
      with Suc True show ?thesis by (auto simp: less_Suc_eq)
    next
      case False
      with Suc.prems show ?thesis by auto
    qed
  qed
  then show "first < om_trim_last slots first n" "om_trim_last slots first n \<le> n"
    "slots ! (om_trim_last slots first n - 1) \<noteq> None"
    "\<forall>j. om_trim_last slots first n \<le> j \<and> j < n \<longrightarrow> slots ! j = None"
    by auto
qed

lemma count_some_drop_none:
  assumes "\<forall>j<n. xs ! j = None" "n \<le> length xs"
  shows "count_some (drop n xs) = count_some xs"
proof -
  have "count_some (take n xs) = 0"
    using assms by (auto simp: count_some_zero in_set_conv_nth)
  then show ?thesis by (metis append_take_drop_id count_some_simps(4) add_0)
qed

lemma count_some_take_none:
  assumes "\<forall>j. n \<le> j \<and> j < length xs \<longrightarrow> xs ! j = None"
  shows "count_some (take n xs) = count_some xs"
proof -
  have "count_some (drop n xs) = 0"
    using assms by (auto simp: count_some_zero in_set_conv_nth)
  then show ?thesis by (metis append_take_drop_id count_some_simps(4) add_0_right)
qed


lemma om_inv_ends:
  "om_inv m \<longleftrightarrow> om_wf m \<and> (if om_slots m = [] then om_base m = 0
     else om_nth m (unat (om_base m)) \<noteq> None
        \<and> om_nth m (unat (om_base m) + length (om_slots m) - 1) \<noteq> None)"
proof (cases "om_slots m = []")
  case False
  then have "0 < length (om_slots m)" by simp
  then have "unat (om_base m) \<le> unat (om_base m) + length (om_slots m) - Suc 0"
    "unat (om_base m) + length (om_slots m) - Suc 0 - unat (om_base m) = length (om_slots m) - Suc 0"
    by linarith+
  with False show ?thesis by (simp add: om_inv_def om_nth_def hd_conv_nth last_conv_nth)
qed (simp add: om_inv_def)

lemma om_trim_spec:
  assumes "om_wf m" "om_slots m \<noteq> []"
  shows "om_inv (om_trim m)" "om_nth (om_trim m) n = om_nth m n"
proof -
  have "om_inv (om_trim m) \<and> om_nth (om_trim m) n = om_nth m n"
  proof (cases "om_size m = 0")
    case True
    with assms have "\<forall>x\<in>set (om_slots m). x = None"
      using count_some_zero by (auto simp: om_wf_def)
    with True assms show ?thesis
      by (auto simp: om_trim_def om_clear_def om_inv_def om_wf_def om_nth_def) (metis nth_mem)
  next
    case False
    define sl where "sl = om_slots m"
    define first where "first = om_skip_empty sl 0"
    define lst where "lst = om_trim_last sl first (length sl)"
    have cnt: "0 < count_some sl" using False assms by (simp add: om_wf_def sl_def)
    have none: "\<forall>j. j < first \<longrightarrow> sl ! j = None"
      using om_skip_empty_spec(3) [of 0 sl] by (simp add: first_def)
    have fl: "first < length sl"
    proof (rule ccontr)
      assume "\<not> first < length sl"
      with none have "\<forall>j<length sl. sl ! j = None" by auto
      with cnt show False by (auto simp: count_some_pos)
    qed
    then have fs: "sl ! first \<noteq> None"
      using om_skip_empty_spec(4) [of 0 sl] by (simp add: first_def)
    note ls = om_trim_last_spec [OF order_refl fl fs, folded lst_def]
    have sub: "om_slots (om_trim m) = drop first (take lst sl)"
      using assms False ls(2) by (auto simp: om_trim_def Let_def lst_def first_def sl_def)
    have sz: "om_size (om_trim m) = om_size m"
      using assms False by (simp add: om_trim_def Let_def)
    have base: "unat (om_base (om_trim m)) = unat (om_base m) + first"
    proof -
      have "unat (om_base m) + first < 2 ^ LENGTH('a)"
        using assms fl by (auto simp: om_wf_def sl_def)
      moreover from this have "unat (of_nat first :: 'a word) = first"
        by (simp add: unat_of_nat)
      moreover have "om_base (om_trim m) = om_base m + of_nat first"
        using assms False by (simp add: om_trim_def Let_def flip: sl_def first_def lst_def)
      ultimately show ?thesis by (simp add: unat_add_noof)
    qed
    have c: "count_some (drop first (take lst sl)) = count_some sl"
      using count_some_take_none [of lst sl] count_some_drop_none [of first "take lst sl"] ls none
      by auto
    have wf: "om_wf (om_trim m)"
      using assms c ls fl by (auto simp: om_wf_def sub base sz sl_def)
    have nth: "om_nth (om_trim m) k = om_nth m k" for k
      using ls none fl
      by (auto simp: om_nth_def sub base simp flip: sl_def)
    have "om_nth (om_trim m) (unat (om_base (om_trim m))) \<noteq> None"
      using fs ls fl by (auto simp: om_nth_def sub base)
    moreover have "om_nth (om_trim m) (unat (om_base (om_trim m)) + length (om_slots (om_trim m)) - 1) \<noteq> None"
      using ls fl by (auto simp: om_nth_def sub base)
    ultimately show ?thesis
      using wf nth by (simp add: om_inv_ends) (use ls fl sub in auto)
  qed
  then show "om_inv (om_trim m)" "om_nth (om_trim m) n = om_nth m n" by auto
qed

lemma om_ensure_slot_ends:
  assumes "om_inv m" and m1: "m1 = om_ensure_slot m key"
  shows "om_slots m1 \<noteq> []"
    "unat (om_base m1) = unat key \<or> om_nth m (unat (om_base m1)) \<noteq> None"
    "unat (om_base m1) + length (om_slots m1) - 1 = unat key
      \<or> om_nth m (unat (om_base m1) + length (om_slots m1) - 1) \<noteq> None"
proof -
  have 1: "unat (om_base m - key) = unat (om_base m) - unat key" if "key < om_base m"
    using that by (simp add: unat_diff_le)
  have 2: "om_index_of m key = unat key - unat (om_base m)" if "\<not> key < om_base m"
    using that by (simp add: om_index_of_def unat_diff_le)
  have 3: "om_slots m = [] \<or> om_nth m (unat (om_base m)) \<noteq> None
        \<and> om_nth m (unat (om_base m) + length (om_slots m) - 1) \<noteq> None"
    using assms(1) by (auto simp: om_inv_ends)
  show "om_slots m1 \<noteq> []" by (auto simp: m1 om_ensure_slot_def Let_def)
  show "unat (om_base m1) = unat key \<or> om_nth m (unat (om_base m1)) \<noteq> None"
    using 3 by (auto simp: m1 om_ensure_slot_def Let_def)
  show "unat (om_base m1) + length (om_slots m1) - 1 = unat key
      \<or> om_nth m (unat (om_base m1) + length (om_slots m1) - 1) \<noteq> None"
  proof (cases "om_slots m = []")
    case True
    then show ?thesis by (simp add: m1 om_ensure_slot_def)
  next
    case False
    then have "0 < length (om_slots m)" by simp
    with 1 2 3 False show ?thesis
      by (auto simp: m1 om_ensure_slot_def Let_def word_less_nat_alt)
  qed
qed

lemma om_put_inv:
  assumes "om_inv m" and m1: "m1 = om_ensure_slot m key"
    and "om_slots m' = (om_slots m1)[om_index_of m1 key := Some x]" "om_base m' = om_base m1"
    "om_size m' + (if om_nth m (unat key) = None then 0 else 1) = om_size m1 + 1"
  shows "om_inv m'" "om_nth m' n = (if n = unat key then Some x else om_nth m n)"
proof -
  have w: "om_wf m" using assms(1) by (simp add: om_inv_def)
  note p = om_set_slot [OF w m1 assms(3,4), simplified, OF assms(5) [simplified]]
  show n: "om_nth m' n = (if n = unat key then Some x else om_nth m n)" for n
    using p(2) by simp
  show "om_inv m'"
    using p(1) om_ensure_slot_ends [OF assms(1) m1] assms(3,4) n by (auto simp: om_inv_ends)
qed


lemma om_index_of_nat: "om_in_span m key \<Longrightarrow> om_index_of m key = unat key - unat (om_base m)"
  by (simp add: om_in_span_def om_index_of_def unat_diff_le)

lemma om_inv_wf: "om_inv m \<Longrightarrow> om_wf m"
  by (simp add: om_inv_def)

lemma om_default_inv: "om_inv om_default" "om_get om_default = (\<lambda>_. None)"
  by (auto simp: om_default_def om_inv_def om_wf_def om_get_nth om_nth_def)

lemma om_insert_or_assign_step:
  assumes "om_inv m" "om_insert_or_assign m key v = (m', idx, ins)"
  shows "om_inv m'" "om_get m' = (om_get m)(key \<mapsto> v)" "ins \<longleftrightarrow> om_get m key = None"
    "idx = om_index_of m' key" "om_in_span m' key"
proof -
  let ?m1 = "om_ensure_slot m key"
  have sl: "om_slots m' = (om_slots ?m1)[om_index_of ?m1 key := Some v]" and b: "om_base m' = om_base ?m1"
    and sz: "om_size m' + (if om_nth m (unat key) = None then 0 else 1) = om_size ?m1 + 1"
    and i: "ins \<longleftrightarrow> om_get m key = None" and ix: "idx = om_index_of m' key"
    using assms(2) om_slot_at_ensured [of m key]
    by (auto simp: om_insert_or_assign_def Let_def om_get_nth om_index_of_def split: if_splits)
  note p = om_put_inv [OF assms(1) refl sl b sz]
  show "om_inv m'" by (rule p(1))
  show "om_get m' = (om_get m)(key \<mapsto> v)"
    using p(2) by (auto simp: om_get_nth fun_eq_iff simp flip: word_unat_eq_iff)
  show "ins \<longleftrightarrow> om_get m key = None" by (rule i)
  show "idx = om_index_of m' key" by (rule ix)
  show "om_in_span m' key"
    using om_ensure_slot_span [of m key] sl b by (simp add: om_in_span_nat)
qed

lemma om_insert_step:
  assumes "om_inv m" "om_insert m key v = (m', idx, ins)"
  shows "om_inv m'" "om_get m' = (if om_get m key = None then (om_get m)(key \<mapsto> v) else om_get m)"
    "ins \<longleftrightarrow> om_get m key = None"
proof -
  let ?m1 = "om_ensure_slot m key"
  show i: "ins \<longleftrightarrow> om_get m key = None"
    using assms(2) by (auto simp: om_insert_def Let_def om_slot_at_ensured om_get_nth split: if_splits)
  have "om_inv m' \<and> om_get m' = (if om_get m key = None then (om_get m)(key \<mapsto> v) else om_get m)"
  proof (cases "om_get m key")
    case None
    then have "om_insert_or_assign m key v = (m', idx, ins)"
      using assms(2) om_slot_at_ensured [of m key]
      by (auto simp: om_insert_def om_insert_or_assign_def Let_def om_get_nth split: if_splits)
    with None om_insert_or_assign_step [OF assms(1)] show ?thesis by simp
  next
    case (Some w)
    then have "om_in_span m key" "om_slots m ! om_index_of m key = Some w"
      by (auto simp: om_get_def split: if_splits)
    then have "m' = m"
      using assms(2) by (simp add: om_insert_def Let_def om_ensure_slot_keep)
    with Some assms(1) show ?thesis by simp
  qed
  then show "om_inv m'" "om_get m' = (if om_get m key = None then (om_get m)(key \<mapsto> v) else om_get m)"
    by auto
qed

lemma om_try_emplace_insert:
  "om_try_emplace construct m key args = om_insert m key (construct args)"
  by (simp add: om_try_emplace_def om_insert_def Let_def)

lemma om_index_or_default_step:
  assumes "om_inv m" "om_index_or_default d m key = (m', v)"
  shows "om_inv m'" "om_get m' = (om_get m)(key \<mapsto> v)"
    "v = (case om_get m key of None \<Rightarrow> d | Some w \<Rightarrow> w)"
proof -
  obtain m2 idx ins where ins: "om_insert m key d = (m2, idx, ins)"
    using prod_cases3 by blast
  have "m2 = m'" and v: "v = (case om_get m key of None \<Rightarrow> d | Some w \<Rightarrow> w)"
    using assms(2) ins
    by (auto simp: om_index_or_default_def om_insert_def Let_def om_slot_at_ensured om_get_nth
        split: option.splits if_splits)
  with om_insert_step [OF assms(1) ins]
  show "om_inv m'" "om_get m' = (om_get m)(key \<mapsto> v)"
    "v = (case om_get m key of None \<Rightarrow> d | Some w \<Rightarrow> w)"
    by (auto split: option.splits if_splits)
qed

lemma om_erase_step:
  assumes "om_inv m" "om_erase m key = (m', n)"
  shows "om_inv m'" "om_get m' = (om_get m)(key := None)"
    "n = (if om_get m key = None then 0 else 1)"
proof -
  have "om_inv m' \<and> om_get m' = (om_get m)(key := None) \<and> n = (if om_get m key = None then 0 else 1)"
  proof (cases "om_get m key")
    case None
    then have "(m', n) = (m, 0)"
      using assms(2) by (auto simp: om_erase_def om_get_def Let_def split: if_splits)
    with None assms(1) show ?thesis by auto
  next
    case (Some w)
    then have sp: "om_in_span m key" and sl: "om_slots m ! om_index_of m key = Some w"
      by (auto simp: om_get_def split: if_splits)
    let ?m1 = "m\<lparr> om_slots := (om_slots m)[om_index_of m key := None], om_size := om_size m - 1 \<rparr>"
    have e: "m' = om_trim ?m1" "n = 1"
      using assms(2) sp sl by (auto simp: om_erase_def Let_def)
    have nth: "om_nth m (unat key) = Some w" using Some by (simp add: om_get_nth)
    have i: "om_index_of m key < length (om_slots m)"
      using sp by (simp add: om_in_span_def om_index_of_def)
    have pos: "0 < om_size m"
      using assms(1) i sl count_some_pos [of "om_slots m"] by (auto simp: om_inv_def om_wf_def)
    have wf1: "om_wf ?m1"
      by (rule om_put_wf [OF om_inv_wf [OF assms(1)] sp, of _ None]) (use nth pos in auto)
    have n1: "om_nth ?m1 k = (if k = unat key then None else om_nth m k)" for k
      by (rule om_put_nth [OF sp]) auto
    have "om_slots ?m1 \<noteq> []" using i by auto
    note t = om_trim_spec [OF wf1 this]
    show ?thesis
      using t n1 e Some by (auto simp: om_get_nth fun_eq_iff simp flip: word_unat_eq_iff)
  qed
  then show "om_inv m'" "om_get m' = (om_get m)(key := None)"
    "n = (if om_get m key = None then 0 else 1)" by auto
qed

lemma om_clear_step: "om_inv (om_clear m)" "om_get (om_clear m) = (\<lambda>_. None)"
  by (auto simp: om_clear_def om_inv_def om_wf_def om_get_nth om_nth_def)


section \<open>Iteration, size and extreme keys\<close>

lemma om_skip_empty_indices:
  "filter (\<lambda>j. slots ! j \<noteq> None) [om_skip_empty slots i..<length slots]
     = filter (\<lambda>j. slots ! j \<noteq> None) [i..<length slots]"
proof (induction slots i rule: om_skip_empty.induct)
  case (1 slots i)
  show ?case
  proof (cases "i < length slots \<and> slots ! i = None")
    case True
    then have "[i..<length slots] = i # [Suc i..<length slots]" by (simp add: upt_conv_Cons)
    with 1 True show ?thesis by (simp add: om_skip_empty.simps [of slots i])
  next
    case False
    then show ?thesis by (subst om_skip_empty.simps) auto
  qed
qed

lemma om_iterate_indices:
  assumes "i \<le> length (om_slots m)" "i < length (om_slots m) \<Longrightarrow> om_slots m ! i \<noteq> None"
  shows "om_iterate m i = map (\<lambda>j. (om_base m + of_nat j, the (om_slots m ! j)))
           (filter (\<lambda>j. om_slots m ! j \<noteq> None) [i..<length (om_slots m)])"
  using assms
proof (induction m i rule: om_iterate.induct)
  case (1 m i)
  show ?case
  proof (cases "i = length (om_slots m)")
    case True
    then show ?thesis by (simp add: om_iterate.simps)
  next
    case False
    with 1(2,3) have lt: "i < length (om_slots m)" and some: "om_slots m ! i \<noteq> None" by auto
    have "om_next m i \<le> length (om_slots m)"
      "om_next m i < length (om_slots m) \<Longrightarrow> om_slots m ! om_next m i \<noteq> None"
      using lt om_skip_empty_spec [of "Suc i" "om_slots m"] by (auto simp: om_next_def)
    with 1(1) lt have "om_iterate m (om_next m i) = map (\<lambda>j. (om_base m + of_nat j, the (om_slots m ! j)))
           (filter (\<lambda>j. om_slots m ! j \<noteq> None) [om_next m i..<length (om_slots m)])"
      by simp
    with lt some show ?thesis
      by (subst om_iterate.simps)
        (auto simp: om_deref_def om_next_def om_skip_empty_indices upt_conv_Cons [OF lt] simp del: not_None_eq)
  qed
qed

lemma om_entries_indices:
  "om_entries m = map (\<lambda>j. (om_base m + of_nat j, the (om_slots m ! j)))
     (filter (\<lambda>j. om_slots m ! j \<noteq> None) [0..<length (om_slots m)])"
  using om_skip_empty_spec [of 0 "om_slots m"]
  by (simp add: om_entries_def om_begin_def om_iterate_indices om_skip_empty_indices del: not_None_eq)

lemma om_index_key:
  assumes "om_wf m" "j < length (om_slots m)"
  shows "unat (om_base m + of_nat j) = unat (om_base m) + j"
proof -
  have "unat (of_nat j :: 'a word) = j" "unat (om_base m) + j < 2 ^ LENGTH('a)"
    using assms by (auto simp: om_wf_def unat_of_nat)
  then show ?thesis by (simp add: unat_add_noof)
qed

lemma om_entries_set:
  assumes "om_wf m"
  shows "(k, v) \<in> set (om_entries m) \<longleftrightarrow> om_get m k = Some v"
proof
  assume "(k, v) \<in> set (om_entries m)"
  then obtain j where j: "j < length (om_slots m)" "om_slots m ! j = Some v" "k = om_base m + of_nat j"
    by (auto simp: om_entries_indices)
  with om_index_key [OF assms j(1)] show "om_get m k = Some v"
    by (simp add: om_get_nth om_nth_def)
next
  assume g: "om_get m k = Some v"
  then have b: "unat (om_base m) \<le> unat k" and j: "unat k - unat (om_base m) < length (om_slots m)"
    and s: "om_slots m ! (unat k - unat (om_base m)) = Some v"
    by (auto simp: om_get_nth om_nth_def split: if_splits)
  have "unat (om_base m + of_nat (unat k - unat (om_base m))) = unat k"
    using om_index_key [OF assms j] b by simp
  then have "k = om_base m + of_nat (unat k - unat (om_base m))"
    by (simp flip: word_unat_eq_iff)
  with j s show "(k, v) \<in> set (om_entries m)"
    by (auto simp: om_entries_indices intro!: image_eqI [of _ _ "unat k - unat (om_base m)"])
qed

lemma om_entries_sorted:
  assumes "om_wf m"
  shows "sorted_wrt (<) (map fst (om_entries m))"
proof -
  have "sorted_wrt (\<lambda>i j. om_base m + of_nat i < om_base m + of_nat j)
      (filter (\<lambda>j. om_slots m ! j \<noteq> None) [0..<length (om_slots m)])"
    by (rule sorted_wrt_mono_rel [of _ "(<)"])
      (auto simp: word_less_nat_alt om_index_key [OF assms] sorted_wrt_filter)
  then show ?thesis by (simp add: om_entries_indices sorted_wrt_map o_def)
qed

lemma om_entries_size: "om_wf m \<Longrightarrow> length (om_entries m) = om_size m"
proof -
  assume "om_wf m"
  have "map the (filter (\<lambda>x. x \<noteq> None) (om_slots m)) = map (\<lambda>j. the (om_slots m ! j))
      (filter (\<lambda>j. om_slots m ! j \<noteq> None) [0..<length (om_slots m)])"
    by (subst (2) map_nth [symmetric]) (simp add: filter_map o_def)
  then have "length (filter (\<lambda>j. om_slots m ! j \<noteq> None) [0..<length (om_slots m)]) = count_some (om_slots m)"
    by (metis count_some_def length_map)
  with \<open>om_wf m\<close> show ?thesis by (simp add: om_entries_indices om_wf_def)
qed


lemma om_size_card: "om_wf m \<Longrightarrow> om_size m = card (dom (om_get m))"
proof -
  assume wf: "om_wf m"
  have "distinct (map fst (om_entries m))"
    using om_entries_sorted [OF wf] by (simp add: strict_sorted_iff)
  moreover have "fst ` set (om_entries m) = dom (om_get m)"
    using om_entries_set [OF wf] by force
  ultimately have "card (dom (om_get m)) = length (om_entries m)"
    by (metis distinct_card length_map set_map)
  with om_entries_size [OF wf] show ?thesis by simp
qed

lemma om_get_bounds:
  assumes "om_get m k = Some v"
  shows "om_base m \<le> k" "unat k < unat (om_base m) + length (om_slots m)"
  using assms by (auto simp: om_get_nth om_nth_def word_le_nat_alt split: if_splits)

lemma om_empty_dom: "om_inv m \<Longrightarrow> om_empty m \<longleftrightarrow> om_slots m = []"
  by (auto simp: om_inv_def om_wf_def om_empty_def count_some_zero split: if_splits)
    (metis hd_in_set)

lemma om_max_index:
  assumes "om_inv m" "om_slots m \<noteq> []"
  shows "unat (om_base m + of_nat (length (om_slots m)) - 1) = unat (om_base m) + length (om_slots m) - 1"
proof -
  have "om_base m + of_nat (length (om_slots m)) - 1 = om_base m + of_nat (length (om_slots m) - 1)"
    using assms(2) by (cases "om_slots m") auto
  moreover have "length (om_slots m) - 1 < length (om_slots m)"
    using assms(2) by simp
  ultimately show ?thesis
    using om_index_key [OF om_inv_wf [OF assms(1)]] assms(2) by (cases "om_slots m") auto
qed

section \<open>The map as a keyed store\<close>

definition om_put :: "'k::len word \<Rightarrow> 'v \<Rightarrow> ('k word, 'v) offset_map \<Rightarrow> ('k word, 'v) offset_map" where
  "om_put k v m = fst (om_insert_or_assign m k v)"

definition om_del :: "'k::len word \<Rightarrow> ('k word, 'v) offset_map \<Rightarrow> ('k word, 'v) offset_map" where
  "om_del k m = fst (om_erase m k)"

interpretation om: keyed_store om_inv om_get om_default om_put om_del
proof
  fix m :: "('k::len word, 'v) offset_map" and k v
  show "om_inv (om_default :: ('k word, 'v) offset_map)" "om_get (om_default :: ('k word, 'v) offset_map) k = None"
    by (simp_all add: om_default_inv)
  show "om_inv (om_put k v m)" "om_get (om_put k v m) = (om_get m)(k \<mapsto> v)" if "om_inv m"
    using om_insert_or_assign_step [OF that] by (simp_all add: om_put_def) (metis prod.collapse)+
  show "om_inv (om_del k m)" "om_get (om_del k m) = (om_get m)(k := None)" if "om_inv m"
    using om_erase_step [OF that] by (simp_all add: om_del_def) (metis prod.collapse)+
qed

section \<open>Properties\<close>


text \<open>
  Iterating an \<^theory_text>\<open>offset_map\<close> from \<^theory_text>\<open>begin()\<close> to \<^theory_text>\<open>end()\<close> visits every
  entry exactly once in strictly increasing key order, and \<^theory_text>\<open>size()\<close> is the
  number of keys.
\<close>

theorem om_iteration_complete:
  assumes "om_inv m"
  shows "sorted_wrt (<) (map fst (om_entries m))
    \<and> set (om_entries m) = {(k, v). om_get m k = Some v}
    \<and> length (om_entries m) = om_size m \<and> om_size m = card (dom (om_get m))"
proof -
  note wf = om_inv_wf [OF assms]
  have "set (om_entries m) = {(k, v). om_get m k = Some v}"
    by (auto simp: om_entries_set [OF wf])
  then show ?thesis
    using om_entries_sorted [OF wf] om_entries_size [OF wf] om_size_card [OF wf] by simp
qed

lemma om_iteration_complete_witness:
  "om_inv (om_put 7 True (om_put (3 :: 8 word) False om_default))
   \<and> length (om_entries (om_put 7 True (om_put (3 :: 8 word) False om_default))) = 2"
proof -
  let ?m = "om_put 7 True (om_put (3 :: 8 word) False om_default)"
  have i: "om_inv ?m" by (intro om.put_inv om.fresh_inv)
  have "om_get ?m = [3 \<mapsto> False, 7 \<mapsto> True]"
    by (simp add: om.put_lookup om.put_inv om.fresh_inv om_default_inv)
  then have "card (dom (om_get ?m)) = 2" by simp
  with om_iteration_complete [OF i] i show ?thesis by simp
qed

text \<open>
  \<^theory_text>\<open>min_key()\<close> and \<^theory_text>\<open>max_key()\<close> are the least and the greatest key present,
  although the last key is computed in the wrapping arithmetic of the key type;
  both are absent exactly on the empty map.
\<close>

theorem om_extreme_keys:
  assumes "om_inv m"
  shows "(om_min_key m = None \<longleftrightarrow> dom (om_get m) = {}) \<and> (om_max_key m = None \<longleftrightarrow> dom (om_get m) = {})
    \<and> (case om_min_key m of Some k \<Rightarrow> k \<in> dom (om_get m) \<and> (\<forall>k'\<in>dom (om_get m). k \<le> k') | None \<Rightarrow> True)
    \<and> (case om_max_key m of Some k \<Rightarrow> k \<in> dom (om_get m) \<and> (\<forall>k'\<in>dom (om_get m). k' \<le> k) | None \<Rightarrow> True)"
proof (cases "om_slots m = []")
  case True
  then show ?thesis
    using om_empty_dom [OF assms] by (auto simp: om_min_key_def om_max_key_def om_get_nth om_nth_def)
next
  case False
  let ?hi = "om_base m + of_nat (length (om_slots m)) - 1"
  have "\<not> om_empty m" using False om_empty_dom [OF assms] by simp
  then have mm: "om_min_key m = Some (om_base m)" "om_max_key m = Some ?hi"
    by (simp_all add: om_min_key_def om_max_key_def)
  have lo: "om_base m \<in> dom (om_get m)"
    using assms False by (auto simp: om_inv_ends om_get_nth)
  have hi: "?hi \<in> dom (om_get m)"
    using assms False by (auto simp: om_inv_ends om_get_nth om_max_index [OF assms False])
  have "k' \<le> ?hi" if "k' \<in> dom (om_get m)" for k'
    using that om_get_bounds(2) [of m k'] om_max_index [OF assms False]
    by (auto simp: word_le_nat_alt)
  moreover have "om_base m \<le> k'" if "k' \<in> dom (om_get m)" for k'
    using that om_get_bounds(1) by auto
  ultimately show ?thesis using lo hi mm by auto
qed

lemma om_extreme_keys_witness:
  "om_max_key (om_put 255 True (om_put (3 :: 8 word) False om_default)) \<noteq> None"
proof -
  let ?m = "om_put 255 True (om_put (3 :: 8 word) False om_default)"
  have i: "om_inv ?m" by (intro om.put_inv om.fresh_inv)
  have "om_get ?m 255 = Some True"
    by (simp add: om.put_lookup om.put_inv om.fresh_inv)
  with om_extreme_keys [OF i] show ?thesis by auto
qed

end
