(* ===== verification/WepollQueue.thy ===== *)
theory WepollQueue
  imports Prelude
begin

text \<open>
  The intrusive queue of src/wepoll.c: a circular doubly linked list through a
  head node, whose links live in the objects that are queued. The heap maps each
  node address to its two links; every operation is the sequence of stores the
  code makes. The abstraction of a queue is the list of its nodes in order.
\<close>

record qheap =
  q_prev :: "nat \<Rightarrow> nat"
  q_next :: "nat \<Rightarrow> nat"

definition set_next :: "nat \<Rightarrow> nat \<Rightarrow> qheap \<Rightarrow> qheap" where
  "set_next a b h = h\<lparr> q_next := (q_next h)(a := b) \<rparr>"

definition set_prev :: "nat \<Rightarrow> nat \<Rightarrow> qheap \<Rightarrow> qheap" where
  "set_prev a b h = h\<lparr> q_prev := (q_prev h)(a := b) \<rparr>"

definition queue_node_init :: "nat \<Rightarrow> qheap \<Rightarrow> qheap" where
  "queue_node_init node h = set_next node node (set_prev node node h)"

definition queue_init :: "nat \<Rightarrow> qheap \<Rightarrow> qheap" where
  "queue_init head h = queue_node_init head h"

definition queue__detach_node :: "nat \<Rightarrow> qheap \<Rightarrow> qheap" where
  "queue__detach_node node h =
    (let h1 = set_next (q_prev h node) (q_next h node) h
     in set_prev (q_next h1 node) (q_prev h1 node) h1)"

definition queue_is_enqueued :: "qheap \<Rightarrow> nat \<Rightarrow> bool" where
  "queue_is_enqueued h node \<longleftrightarrow> q_prev h node \<noteq> node"

definition queue_is_empty :: "qheap \<Rightarrow> nat \<Rightarrow> bool" where
  "queue_is_empty h head \<longleftrightarrow> \<not> queue_is_enqueued h head"

definition queue_first :: "qheap \<Rightarrow> nat \<Rightarrow> nat option" where
  "queue_first h head = (if \<not> queue_is_empty h head then Some (q_next h head) else None)"

definition queue_last :: "qheap \<Rightarrow> nat \<Rightarrow> nat option" where
  "queue_last h head = (if \<not> queue_is_empty h head then Some (q_prev h head) else None)"

definition queue_prepend :: "nat \<Rightarrow> nat \<Rightarrow> qheap \<Rightarrow> qheap" where
  "queue_prepend head node h =
    (let h1 = set_next node (q_next h head) h;
         h2 = set_prev node head h1;
         h3 = set_prev (q_next h2 node) node h2
     in set_next head node h3)"

definition queue_append :: "nat \<Rightarrow> nat \<Rightarrow> qheap \<Rightarrow> qheap" where
  "queue_append head node h =
    (let h1 = set_next node head h;
         h2 = set_prev node (q_prev h1 head) h1;
         h3 = set_next (q_prev h2 node) node h2
     in set_prev head node h3)"

definition queue_move_to_start :: "nat \<Rightarrow> nat \<Rightarrow> qheap \<Rightarrow> qheap" where
  "queue_move_to_start head node h = queue_prepend head node (queue__detach_node node h)"

definition queue_move_to_end :: "nat \<Rightarrow> nat \<Rightarrow> qheap \<Rightarrow> qheap" where
  "queue_move_to_end head node h = queue_append head node (queue__detach_node node h)"

definition queue_remove :: "nat \<Rightarrow> qheap \<Rightarrow> qheap" where
  "queue_remove node h = queue_node_init node (queue__detach_node node h)"

lemmas queue_stores = set_next_def set_prev_def

section \<open>Linked chains\<close>

fun linked :: "qheap \<Rightarrow> nat list \<Rightarrow> bool" where
  "linked h (a # b # l) \<longleftrightarrow> q_next h a = b \<and> q_prev h b = a \<and> linked h (b # l)"
| "linked h _ \<longleftrightarrow> True"

lemma linked_append: "linked h (xs @ a # ys) \<longleftrightarrow> linked h (xs @ [a]) \<and> linked h (a # ys)"
proof (induction xs)
  case (Cons x xs)
  then show ?case by (cases xs) auto
qed simp

lemma linked_split: "linked h (xs @ a # b # ys) \<longleftrightarrow> linked h (xs @ [a]) \<and> linked h (a # b # ys)"
  by (rule linked_append)

lemma linked_set_next: "a \<notin> set (butlast l) \<Longrightarrow> linked (set_next a b h) l = linked h l"
  by (induction h l rule: linked.induct) (auto simp: set_next_def split: if_splits)

lemma linked_set_prev: "a \<notin> set (tl l) \<Longrightarrow> linked (set_prev a b h) l = linked h l"
proof (induction h l rule: linked.induct)
  case (1 h x y l)
  then show ?case by (cases l) (auto simp: set_prev_def)
qed auto

text \<open>A queue holds \<^theory_text>\<open>xs\<close>: following the links from the head visits them and comes back.\<close>

definition queue_rep :: "qheap \<Rightarrow> nat \<Rightarrow> nat list \<Rightarrow> bool" where
  "queue_rep h head xs \<longleftrightarrow> distinct (head # xs) \<and> linked h (head # xs @ [head])"

lemma queue_rep_init: "queue_rep (queue_init head h) head []"
  by (simp add: queue_rep_def queue_init_def queue_node_init_def queue_stores)

lemma snoc_shift: "x # xs = ys @ [p] \<Longrightarrow> x # xs @ zs = ys @ p # zs"
  by (metis append.assoc append_Cons append_Nil)

lemma queue_rep_ends:
  assumes "queue_rep h head xs"
  shows "q_next h head = hd (xs @ [head])" "q_prev h head = last (head # xs)"
proof -
  show "q_next h head = hd (xs @ [head])" using assms by (cases xs) (simp_all add: queue_rep_def)
  obtain ys p where ys: "head # xs = ys @ [p]" by (metis append_butlast_last_id list.distinct(1))
  then have "linked h (ys @ p # [head])"
    using assms snoc_shift [OF ys, of "[head]"] unfolding queue_rep_def by metis
  then have "q_prev h head = p" by (simp add: linked_split)
  then show "q_prev h head = last (head # xs)" using ys by simp
qed

lemma queue_rep_empty: "queue_rep h head xs \<Longrightarrow> queue_is_empty h head \<longleftrightarrow> xs = []"
proof -
  assume rep: "queue_rep h head xs"
  have "last (head # xs) = head \<longleftrightarrow> xs = []"
    using rep last_in_set [of xs] by (auto simp: queue_rep_def)
  then show ?thesis using queue_rep_ends(2) [OF rep] by (simp add: queue_is_empty_def queue_is_enqueued_def)
qed

lemma queue_rep_first: "queue_rep h head xs \<Longrightarrow> queue_first h head = (case xs of [] \<Rightarrow> None | x # _ \<Rightarrow> Some x)"
  using queue_rep_ends(1) [of h head xs] by (auto simp: queue_first_def queue_rep_empty split: list.splits)

lemma queue_rep_last: "queue_rep h head xs \<Longrightarrow> queue_last h head = (if xs = [] then None else Some (last xs))"
  using queue_rep_ends(2) [of h head xs] by (simp add: queue_last_def queue_rep_empty)

lemma queue_rep_enqueued:
  assumes "queue_rep h head xs" "x \<in> set xs"
  shows "queue_is_enqueued h x"
proof -
  obtain as bs where xs: "xs = as @ x # bs" using assms(2) by (meson split_list)
  obtain cs p where cs: "head # as = cs @ [p]" by (metis append_butlast_last_id list.distinct(1))
  have "head # xs @ [head] = cs @ p # x # bs @ [head]"
    using snoc_shift [OF cs, of "x # bs @ [head]"] unfolding xs by (simp only: append_assoc append_Cons)
  then have "linked h (cs @ p # x # bs @ [head])" using assms(1) unfolding queue_rep_def by metis
  then have "q_prev h x = p" by (simp add: linked_split)
  moreover have "p \<in> set (head # as)" unfolding cs by simp
  then have "p \<noteq> x" using assms(1) xs by (auto simp: queue_rep_def)
  ultimately show ?thesis by (simp add: queue_is_enqueued_def)
qed

text \<open>Stores into nodes that are not in a queue leave it alone.\<close>

lemma queue_rep_set_next_other:
  "a \<notin> set (head # xs) \<Longrightarrow> queue_rep (set_next a b h) head xs = queue_rep h head xs"
  unfolding queue_rep_def by (subst linked_set_next) (auto simp: butlast_append)

lemma queue_rep_set_prev_other:
  "a \<notin> set (head # xs) \<Longrightarrow> queue_rep (set_prev a b h) head xs = queue_rep h head xs"
  unfolding queue_rep_def by (subst linked_set_prev) auto

lemma queue_rep_append:
  assumes rep: "queue_rep h head xs" and fresh: "node \<notin> set (head # xs)"
  shows "queue_rep (queue_append head node h) head (xs @ [node])"
proof -
  obtain ys p where ys: "head # xs = ys @ [p]" by (metis append_butlast_last_id list.distinct(1))
  have p: "q_prev h head = p" using queue_rep_ends(2) [OF rep] ys by simp
  let ?h = "queue_append head node h"
  have eq: "?h = set_prev head node (set_next p node (set_prev node p (set_next node head h)))"
    using fresh p by (simp add: queue_append_def queue_stores Let_def)
  have neq: "p \<noteq> node" "head \<noteq> node" "p \<notin> set ys" "node \<notin> set ys" "head \<notin> set (tl (ys @ [p]))" "node \<notin> set (tl (ys @ [p]))"
    using fresh rep arg_cong [OF ys, of set] arg_cong [OF ys, of distinct] arg_cong [OF ys, of tl]
    by (auto simp: queue_rep_def)
  have "linked h (ys @ p # [head])"
    using rep snoc_shift [OF ys, of "[head]"] unfolding queue_rep_def by metis
  then have "linked h (ys @ [p])" by (simp add: linked_split)
  then have old: "linked ?h (ys @ [p])" using neq by (simp add: eq linked_set_next linked_set_prev)
  have "q_next ?h p = node" "q_prev ?h node = p" "q_next ?h node = head" "q_prev ?h head = node"
    using neq by (simp_all add: eq queue_stores)
  then have "linked ?h (ys @ p # [node, head])" using old by (subst linked_split) simp
  moreover have "head # (xs @ [node]) @ [head] = ys @ p # [node, head]" 
    using snoc_shift [OF ys, of "[node, head]"] by (simp only: append_assoc append_Cons append_Nil)
  ultimately have "linked ?h (head # (xs @ [node]) @ [head])" by metis
  moreover have "distinct (head # xs @ [node])" using rep fresh by (auto simp: queue_rep_def)
  ultimately show ?thesis unfolding queue_rep_def by blast
qed

lemma queue_rep_prepend:
  assumes rep: "queue_rep h head xs" and fresh: "node \<notin> set (head # xs)"
  shows "queue_rep (queue_prepend head node h) head (node # xs)"
proof -
  obtain p ys where ys: "xs @ [head] = p # ys" by (cases "xs @ [head]") auto
  have p: "q_next h head = p" using queue_rep_ends(1) [OF rep] ys by simp
  let ?h = "queue_prepend head node h"
  have eq: "?h = set_next head node (set_prev p node (set_prev node head (set_next node p h)))"
    using fresh p by (simp add: queue_prepend_def queue_stores Let_def)
  have dist: "distinct (p # ys)" "head \<notin> set (butlast (p # ys))" "node \<notin> set (p # ys)" "p \<noteq> node" "head \<noteq> node"
    using fresh rep arg_cong [OF ys, of set] arg_cong [OF ys, of distinct] arg_cong [OF ys, of butlast]
    by (auto simp: queue_rep_def)
  have nb: "node \<notin> set (butlast (p # ys))" using dist(3) by (meson in_set_butlastD)
  have "linked h (p # ys)" using rep ys by (cases ys) (auto simp: queue_rep_def)
  then have old: "linked ?h (p # ys)"
    unfolding eq using dist nb by (subst linked_set_next linked_set_prev linked_set_prev linked_set_next, simp)+
  have "q_next ?h head = node" "q_prev ?h node = head" "q_next ?h node = p" "q_prev ?h p = node"
    using dist by (simp_all add: eq queue_stores)
  then have "linked ?h (head # node # p # ys)" using old by simp
  then show ?thesis using rep fresh ys by (simp add: queue_rep_def)
qed

lemma queue_rep_detach:
  assumes rep: "queue_rep h head (as @ node # bs)"
  shows "queue_rep (queue__detach_node node h) head (as @ bs)"
    and "q_next (queue__detach_node node h) node = q_next h node"
proof -
  obtain ys p where ys: "head # as = ys @ [p]" by (metis append_butlast_last_id list.distinct(1))
  obtain n zs where zs: "bs @ [head] = n # zs" by (cases "bs @ [head]") auto
  let ?h = "queue__detach_node node h"
  have "head # (as @ node # bs) @ [head] = ys @ p # node # n # zs"
    using snoc_shift [OF ys, of "node # n # zs"] zs by (simp only: append_assoc append_Cons)
  then have full: "linked h (ys @ p # node # n # zs)" using rep unfolding queue_rep_def by metis
  then have parts: "linked h (ys @ [p])" "q_next h p = node" "q_prev h node = p" "q_next h node = n" "linked h (n # zs)"
    by (simp_all add: linked_split)
  have d: "distinct (head # as @ node # bs)" using rep by (simp add: queue_rep_def)
  have neq: "p \<noteq> node" "n \<noteq> node" "p \<notin> set ys" "n \<notin> set (tl (ys @ [p]))" "p \<notin> set (butlast (n # zs))" "n \<notin> set zs"
  proof -
    have s: "set ys \<union> {p} = insert head (set as)" "set zs \<union> {n} = insert head (set bs)"
      using arg_cong [OF ys, of set] arg_cong [OF zs, of set] by auto
    show "p \<noteq> node" "n \<noteq> node" using d s by auto
    have "distinct (head # as)" "distinct (bs @ [head])" using d by auto
    then have "distinct (ys @ [p])" "distinct (n # zs)" using ys zs by metis+
    then show "p \<notin> set ys" "n \<notin> set zs" by auto
    have "tl (ys @ [p]) = as" using arg_cong [OF ys, of tl] by simp
    moreover have "n \<notin> set as" using d zs by (cases bs) auto
    ultimately show "n \<notin> set (tl (ys @ [p]))" by simp
    have "butlast (n # zs) = bs" using arg_cong [OF zs, of butlast] by simp
    moreover have "p \<notin> set bs" using d s by auto
    ultimately show "p \<notin> set (butlast (n # zs))" by simp
  qed
  have eq: "?h = set_prev n p (set_next p n h)"
    using parts neq by (simp add: queue__detach_node_def queue_stores Let_def)
  have "linked ?h (ys @ [p])" "linked ?h (n # zs)" "q_next ?h p = n" "q_prev ?h n = p"
    using parts neq by (simp_all add: eq linked_set_next linked_set_prev) (simp_all add: queue_stores)
  then have "linked ?h (ys @ p # n # zs)" by (subst linked_split) simp
  moreover have "head # (as @ bs) @ [head] = ys @ p # n # zs" 
    using snoc_shift [OF ys, of "n # zs"] zs by (simp only: append_assoc append_Cons)
  ultimately show "queue_rep ?h head (as @ bs)" using d by (simp add: queue_rep_def)
  show "q_next ?h node = q_next h node" using neq by (simp add: eq queue_stores)
qed

section \<open>Footprints\<close>

definition same_links :: "nat set \<Rightarrow> qheap \<Rightarrow> qheap \<Rightarrow> bool" where
  "same_links A h h' \<longleftrightarrow> (\<forall>a\<in>A. q_next h' a = q_next h a \<and> q_prev h' a = q_prev h a)"

lemma linked_same: "same_links (set l) h h' \<Longrightarrow> linked h' l = linked h l"
  by (induction h l rule: linked.induct) (auto simp: same_links_def)

lemma queue_rep_same: "same_links (set (head # xs)) h h' \<Longrightarrow> queue_rep h' head xs = queue_rep h head xs"
  unfolding queue_rep_def by (subst linked_same [of _ h]) (auto simp: same_links_def)

lemma append_footprint:
  assumes "queue_rep h head xs"
  shows "same_links (- insert node (set (head # xs))) h (queue_append head node h)"
proof -
  have "q_prev h head \<in> set (head # xs)" using queue_rep_ends(2) [OF assms] by (metis last_in_set list.distinct(1))
  then show ?thesis by (auto simp: same_links_def queue_append_def queue_stores Let_def)
qed

lemma prepend_footprint:
  assumes "queue_rep h head xs"
  shows "same_links (- insert node (set (head # xs))) h (queue_prepend head node h)"
proof -
  have "q_next h head \<in> set (head # xs)" using queue_rep_ends(1) [OF assms] by (cases xs) auto
  then show ?thesis by (auto simp: same_links_def queue_prepend_def queue_stores Let_def)
qed

lemma linked_neighbours:
  "linked h (xs @ a # ys) \<Longrightarrow> xs \<noteq> [] \<Longrightarrow> ys \<noteq> [] \<Longrightarrow> q_prev h a = last xs \<and> q_next h a = hd ys"
  by (cases xs rule: rev_cases; cases ys) (auto simp: linked_split)

lemma detach_footprint:
  assumes "queue_rep h head xs" "node \<in> set xs"
  shows "same_links (insert node (- set (head # xs))) h (queue__detach_node node h)"
proof -
  obtain as bs where xs: "xs = as @ node # bs" using assms(2) by (meson split_list)
  have "linked h ((head # as) @ node # bs @ [head])" using assms(1) xs by (simp add: queue_rep_def)
  from linked_neighbours [OF this] have p: "q_prev h node = last (head # as)" "q_next h node = hd (bs @ [head])"
    by simp_all
  have "q_prev h node \<in> set (head # xs)" "q_next h node \<in> set (head # xs)"
    unfolding p xs by (cases "as" rule: rev_cases; cases bs; simp)+
  moreover have "q_prev h node \<noteq> node" "q_next h node \<noteq> node"
    unfolding p using assms(1) by (cases "as" rule: rev_cases; cases bs; auto simp: queue_rep_def xs)+
  ultimately show ?thesis by (auto simp: same_links_def queue__detach_node_def queue_stores Let_def)
qed

lemma same_links_trans: "same_links A h h' \<Longrightarrow> same_links A h' h'' \<Longrightarrow> same_links A h h''"
  by (simp add: same_links_def)

lemma same_links_mono: "same_links A h h' \<Longrightarrow> B \<subseteq> A \<Longrightarrow> same_links B h h'"
  by (auto simp: same_links_def)

section \<open>Several queues over one set of nodes\<close>

text \<open>
  The port keeps three queues over the nodes of its sockets and poll groups. A
  node is in at most one of them, and a node in none is linked to itself.
\<close>

definition queues_rep :: "nat set \<Rightarrow> nat set \<Rightarrow> qheap \<Rightarrow> (nat \<Rightarrow> nat list) \<Rightarrow> bool" where
  "queues_rep H N h Q \<longleftrightarrow> H \<inter> N = {}
     \<and> (\<forall>q\<in>H. queue_rep h q (Q q) \<and> set (Q q) \<subseteq> N)
     \<and> (\<forall>q\<in>H. \<forall>q'\<in>H. q \<noteq> q' \<longrightarrow> set (Q q) \<inter> set (Q q') = {})
     \<and> (\<forall>n\<in>N. (\<forall>q\<in>H. n \<notin> set (Q q)) \<longrightarrow> q_prev h n = n \<and> q_next h n = n)"

datatype queue_op = Append nat nat | Prepend nat nat | Remove nat | Move_To_Start nat nat | Move_To_End nat nat

fun queue_step :: "queue_op \<Rightarrow> qheap \<Rightarrow> qheap" where
  "queue_step (Append q n) h = queue_append q n h"
| "queue_step (Prepend q n) h = queue_prepend q n h"
| "queue_step (Remove n) h = queue_remove n h"
| "queue_step (Move_To_Start q n) h = queue_move_to_start q n h"
| "queue_step (Move_To_End q n) h = queue_move_to_end q n h"

fun list_step :: "queue_op \<Rightarrow> (nat \<Rightarrow> nat list) \<Rightarrow> nat \<Rightarrow> nat list" where
  "list_step (Append q n) Q = Q(q := Q q @ [n])"
| "list_step (Prepend q n) Q = Q(q := n # Q q)"
| "list_step (Remove n) Q = (\<lambda>q. remove1 n (Q q))"
| "list_step (Move_To_Start q n) Q = Q(q := n # remove1 n (Q q))"
| "list_step (Move_To_End q n) Q = Q(q := remove1 n (Q q) @ [n])"

text \<open>What the callers guarantee: only a free node is inserted, only a queued one is moved or removed.\<close>

fun queue_op_ok :: "nat set \<Rightarrow> nat set \<Rightarrow> (nat \<Rightarrow> nat list) \<Rightarrow> queue_op \<Rightarrow> bool" where
  "queue_op_ok H N Q (Append q n) \<longleftrightarrow> q \<in> H \<and> n \<in> N \<and> (\<forall>q'\<in>H. n \<notin> set (Q q'))"
| "queue_op_ok H N Q (Prepend q n) \<longleftrightarrow> q \<in> H \<and> n \<in> N \<and> (\<forall>q'\<in>H. n \<notin> set (Q q'))"
| "queue_op_ok H N Q (Remove n) \<longleftrightarrow> (\<exists>q\<in>H. n \<in> set (Q q))"
| "queue_op_ok H N Q (Move_To_Start q n) \<longleftrightarrow> q \<in> H \<and> n \<in> set (Q q)"
| "queue_op_ok H N Q (Move_To_End q n) \<longleftrightarrow> q \<in> H \<and> n \<in> set (Q q)"

text \<open>
  Changing one queue: the others and the free nodes are outside its footprint.
\<close>

lemma queues_rep_change:
  assumes "queues_rep H N h Q" "q \<in> H" "queue_rep h' q xs" "set xs \<subseteq> N"
    and foot: "same_links (- insert n (set (q # Q q))) h h'"
    and new: "set xs \<subseteq> insert n (set (Q q))" "\<forall>q'\<in>H. q' \<noteq> q \<longrightarrow> n \<notin> set (q' # Q q')"
    and free: "\<forall>m\<in>insert n (set (Q q)). m \<notin> set xs \<longrightarrow> q_prev h' m = m \<and> q_next h' m = m"
  shows "queues_rep H N h' (Q(q := xs))"
proof -
  have H: "H \<inter> N = {}" "\<forall>q\<in>H. queue_rep h q (Q q) \<and> set (Q q) \<subseteq> N"
    "\<forall>q\<in>H. \<forall>q'\<in>H. q \<noteq> q' \<longrightarrow> set (Q q) \<inter> set (Q q') = {}"
    "\<forall>m\<in>N. (\<forall>q\<in>H. m \<notin> set (Q q)) \<longrightarrow> q_prev h m = m \<and> q_next h m = m"
    using assms(1) by (simp_all add: queues_rep_def)
  have other: "queue_rep h' q' (Q q')" if "q' \<in> H" "q' \<noteq> q" for q'
  proof -
    have "set (Q q') \<inter> set (Q q) = {}" "set (Q q') \<subseteq> N" "set (Q q) \<subseteq> N" "n \<notin> set (q' # Q q')"
      using that H(2,3) new(2) assms(2) by blast+
    moreover have "q \<notin> N" "q' \<notin> N" using H(1) that(1) assms(2) by blast+
    ultimately have "set (q' # Q q') \<subseteq> - insert n (set (q # Q q))" using that(2) by auto
    then have "same_links (set (q' # Q q')) h h'" using foot same_links_mono by blast
    then show ?thesis using queue_rep_same H(2) that(1) by blast
  qed
  have fr: "q_prev h' m = m \<and> q_next h' m = m" if "m \<in> N" "\<forall>q'\<in>H. m \<notin> set ((Q(q := xs)) q')" for m
  proof (cases "m \<in> insert n (set (Q q))")
    case True
    moreover have "m \<notin> set xs" using that(2) assms(2) by (metis fun_upd_same)
    ultimately show ?thesis using free by blast
  next
    case False
    then have "\<forall>q'\<in>H. m \<notin> set (Q q')" using that(2) by (metis fun_upd_other insertCI)
    then have "q_prev h m = m \<and> q_next h m = m" using H(4) that(1) by blast
    moreover have "m \<noteq> q" using that(1) H(1) assms(2) by blast
    ultimately show ?thesis using foot False by (simp add: same_links_def)
  qed
  have dis: "set xs \<inter> set (Q q') = {}" if "q' \<in> H" "q' \<noteq> q" for q'
  proof -
    have "set (Q q') \<inter> set (Q q) = {}" "n \<notin> set (Q q')" using H(3) new(2) that assms(2) by auto
    then show ?thesis using new(1) by blast
  qed
  have "set ((Q(q := xs)) a) \<inter> set ((Q(q := xs)) b) = {}" if "a \<in> H" "b \<in> H" "a \<noteq> b" for a b
    using that dis [of a] dis [of b] H(3) by (cases "a = q"; cases "b = q") auto
  then show ?thesis unfolding queues_rep_def using H(1,2) assms(3,4) other fr by simp
qed

lemma queues_rep_cong: "(\<And>q. q \<in> H \<Longrightarrow> Q q = Q' q) \<Longrightarrow> queues_rep H N h Q = queues_rep H N h Q'"
  by (simp add: queues_rep_def)

lemma queue_rep_detach_remove1:
  assumes "queue_rep h q xs" "n \<in> set xs"
  shows "queue_rep (queue__detach_node n h) q (remove1 n xs)" "n \<notin> set (q # remove1 n xs)"
proof -
  obtain as bs where xs: "xs = as @ n # bs" using assms(2) by (meson split_list)
  have "n \<notin> set as" "n \<notin> set bs" "n \<noteq> q" using assms(1) xs by (auto simp: queue_rep_def)
  then have "remove1 n xs = as @ bs" by (simp add: xs remove1_append)
  then show "queue_rep (queue__detach_node n h) q (remove1 n xs)" "n \<notin> set (q # remove1 n xs)"
    using queue_rep_detach(1) [OF assms(1) [unfolded xs]] \<open>n \<notin> set as\<close> \<open>n \<notin> set bs\<close> \<open>n \<noteq> q\<close> by simp_all
qed

lemma detach_insert_footprint:
  assumes rep: "queue_rep h q xs" and n: "n \<in> set xs"
    and ins: "same_links (- insert n (set (q # remove1 n xs))) (queue__detach_node n h) h'"
  shows "same_links (- insert n (set (q # xs))) h h'"
proof -
  have "same_links (- insert n (set (q # xs))) h (queue__detach_node n h)"
    using detach_footprint [OF rep n] by (rule same_links_mono) auto
  moreover have "same_links (- insert n (set (q # xs))) (queue__detach_node n h) h'"
    using ins by (rule same_links_mono) (use set_remove1_subset in fastforce)
  ultimately show ?thesis by (rule same_links_trans)
qed

lemma queue_step_refines:
  assumes rep: "queues_rep H N h Q" and ok: "queue_op_ok H N Q opr"
  shows "queues_rep H N (queue_step opr h) (list_step opr Q)"
proof -
  have H: "H \<inter> N = {}" "\<And>q. q \<in> H \<Longrightarrow> queue_rep h q (Q q) \<and> set (Q q) \<subseteq> N"
    "\<And>q q'. q \<in> H \<Longrightarrow> q' \<in> H \<Longrightarrow> q \<noteq> q' \<Longrightarrow> set (Q q) \<inter> set (Q q') = {}"
    using rep by (simp_all add: queues_rep_def)
  have queued: "n \<in> N" "\<forall>q'\<in>H. q' \<noteq> q \<longrightarrow> n \<notin> set (q' # Q q')" "distinct (Q q)" if "q \<in> H" "n \<in> set (Q q)" for q n
    using H(2) [OF that(1)] H(1) H(3) [OF that(1)] that by (auto simp: queue_rep_def)
  show ?thesis
  proof (cases opr)
    case (Append q n)
    then have q: "q \<in> H" "n \<in> N" "\<forall>q'\<in>H. n \<notin> set (Q q')" using ok by auto
    then have "n \<notin> set (q # Q q)" using H(1) by auto
    then show ?thesis unfolding Append queue_step.simps list_step.simps
      using q H append_footprint [of h q "Q q" n] queue_rep_append [of h q "Q q" n]
      by (intro queues_rep_change [OF rep q(1), where n = n]) auto
  next
    case (Prepend q n)
    then have q: "q \<in> H" "n \<in> N" "\<forall>q'\<in>H. n \<notin> set (Q q')" using ok by auto
    then have "n \<notin> set (q # Q q)" using H(1) by auto
    then show ?thesis unfolding Prepend queue_step.simps list_step.simps
      using q H prepend_footprint [of h q "Q q" n] queue_rep_prepend [of h q "Q q" n]
      by (intro queues_rep_change [OF rep q(1), where n = n]) auto
  next
    case (Remove n)
    then obtain q where q: "q \<in> H" "n \<in> set (Q q)" using ok by auto
    let ?xs = "remove1 n (Q q)" and ?h = "queue_node_init n (queue__detach_node n h)"
    note det = queue_rep_detach_remove1 [OF conjunct1 [OF H(2) [OF q(1)]] q(2)]
    have "queue_rep ?h q ?xs"
      unfolding queue_node_init_def using det by (simp add: queue_rep_set_next_other queue_rep_set_prev_other)
    moreover have "same_links (- insert n (set (q # ?xs))) (queue__detach_node n h) ?h"
      by (auto simp: same_links_def queue_node_init_def queue_stores)
    then have "same_links (- insert n (set (q # Q q))) h ?h"
      using detach_insert_footprint H(2) [OF q(1)] q(2) by blast
    moreover have "q_prev ?h n = n \<and> q_next ?h n = n" by (simp add: queue_node_init_def queue_stores)
    ultimately have "queues_rep H N ?h (Q(q := ?xs))"
      using q H(2) [OF q(1)] queued [OF q] by (intro queues_rep_change [OF rep q(1), where n = n]) auto
    moreover have "(Q(q := ?xs)) q' = list_step (Remove n) Q q'" if "q' \<in> H" for q'
      using queued(2) [OF q] that by (auto simp: remove1_idem)
    ultimately show ?thesis unfolding Remove queue_step.simps queue_remove_def
      using queues_rep_cong [of H "Q(q := ?xs)" "list_step (Remove n) Q"] by blast
  next
    case (Move_To_Start q n)
    then have q: "q \<in> H" "n \<in> set (Q q)" using ok by auto
    note det = queue_rep_detach_remove1 [OF conjunct1 [OF H(2) [OF q(1)]] q(2)]
    have "queue_rep (queue_move_to_start q n h) q (n # remove1 n (Q q))"
      unfolding queue_move_to_start_def by (rule queue_rep_prepend [OF det])
    moreover have "same_links (- insert n (set (q # Q q))) h (queue_move_to_start q n h)"
      unfolding queue_move_to_start_def
      by (rule detach_insert_footprint [OF conjunct1 [OF H(2) [OF q(1)]] q(2) prepend_footprint [OF det(1)]])
    ultimately show ?thesis unfolding Move_To_Start queue_step.simps list_step.simps
      using q H(2) [OF q(1)] queued [OF q] set_remove1_subset [of n "Q q"]
      by (intro queues_rep_change [OF rep q(1), where n = n]) auto
  next
    case (Move_To_End q n)
    then have q: "q \<in> H" "n \<in> set (Q q)" using ok by auto
    note det = queue_rep_detach_remove1 [OF conjunct1 [OF H(2) [OF q(1)]] q(2)]
    have "queue_rep (queue_move_to_end q n h) q (remove1 n (Q q) @ [n])"
      unfolding queue_move_to_end_def by (rule queue_rep_append [OF det])
    moreover have "same_links (- insert n (set (q # Q q))) h (queue_move_to_end q n h)"
      unfolding queue_move_to_end_def
      by (rule detach_insert_footprint [OF conjunct1 [OF H(2) [OF q(1)]] q(2) append_footprint [OF det(1)]])
    ultimately show ?thesis unfolding Move_To_End queue_step.simps list_step.simps
      using q H(2) [OF q(1)] queued [OF q] set_remove1_subset [of n "Q q"]
      by (intro queues_rep_change [OF rep q(1), where n = n]) auto
  qed
qed

fun ops_ok :: "nat set \<Rightarrow> nat set \<Rightarrow> (nat \<Rightarrow> nat list) \<Rightarrow> queue_op list \<Rightarrow> bool" where
  "ops_ok H N Q [] \<longleftrightarrow> True"
| "ops_ok H N Q (opr # ops) \<longleftrightarrow> queue_op_ok H N Q opr \<and> ops_ok H N (list_step opr Q) ops"

text \<open>
  C36: Over any sequence of queue operations on a set of queues that share their
  nodes, the linked structure stays the concatenation of the lists the same
  operations build: first, last and emptiness read off the lists, and a node
  counts as enqueued exactly when some list holds it.
\<close>

theorem queues_refine_lists:
  assumes "queues_rep H N h Q" "ops_ok H N Q ops"
    and "h' = fold queue_step ops h" "Q' = fold list_step ops Q"
  shows "queues_rep H N h' Q'
    \<and> (\<forall>q\<in>H. (queue_is_empty h' q \<longleftrightarrow> Q' q = []) \<and> queue_first h' q = (if Q' q = [] then None else Some (hd (Q' q)))
        \<and> queue_last h' q = (if Q' q = [] then None else Some (last (Q' q))))
    \<and> (\<forall>n\<in>N. queue_is_enqueued h' n \<longleftrightarrow> (\<exists>q\<in>H. n \<in> set (Q' q)))"
proof -
  have rep: "queues_rep H N h' Q'"
    using assms by (induction ops arbitrary: h Q) (simp_all add: queue_step_refines)
  then have q: "queue_rep h' q (Q' q)" if "q \<in> H" for q using that by (simp add: queues_rep_def)
  have "queue_is_enqueued h' n \<longleftrightarrow> (\<exists>q\<in>H. n \<in> set (Q' q))" if "n \<in> N" for n
  proof (cases "\<exists>q\<in>H. n \<in> set (Q' q)")
    case True
    then show ?thesis using q queue_rep_enqueued by blast
  next
    case False
    then have "q_prev h' n = n" using rep that by (simp add: queues_rep_def)
    then show ?thesis using False by (simp add: queue_is_enqueued_def)
  qed
  moreover have "queue_first h' q = (if Q' q = [] then None else Some (hd (Q' q)))" if "q \<in> H" for q
    using queue_rep_first [OF q [OF that]] by (cases "Q' q") simp_all
  ultimately show ?thesis using rep queue_rep_empty [OF q] queue_rep_last [OF q] by simp
qed

lemma queues_refine_lists_witness:
  "queue_first (fold queue_step [Append 0 5, Append 0 6, Move_To_End 0 5, Remove 6, Prepend 1 6]
      (fold queue_node_init [5, 6] (queue_init 1 (queue_init 0 \<lparr> q_prev = (\<lambda>_. 0), q_next = (\<lambda>_. 0) \<rparr>)))) 0 = Some 5"
proof -
  let ?h = "fold queue_node_init [5, 6] (queue_init 1 (queue_init 0 \<lparr> q_prev = (\<lambda>_. 0), q_next = (\<lambda>_. 0) \<rparr>))"
  have rep: "queues_rep {0, 1} {5, 6} ?h (\<lambda>_. [])"
    by (simp add: queues_rep_def queue_rep_def queue_init_def queue_node_init_def queue_stores)
  have ok: "ops_ok {0, 1} {5, 6} (\<lambda>_. []) [Append 0 5, Append 0 6, Move_To_End 0 5, Remove 6, Prepend 1 6]"
    by simp
  from queues_refine_lists [OF rep ok refl refl] show ?thesis by simp
qed

end
