(* ===== verification/WepollErrors.thy ===== *)
theory WepollErrors
  imports Prelude "HOL-Library.Monad_Syntax"
begin

text \<open>
  Error reporting of src/wepoll.c. A Windows error and an errno are their
  symbolic names; the two thread-local variables \<^theory_text>\<open>GetLastError()\<close> and
  \<^theory_text>\<open>errno\<close> and the state of the operating system make up the environment.
\<close>

definition errno_mappings :: "(string \<times> string) list" where
  "errno_mappings = [
     (''ERROR_ACCESS_DENIED'', ''EACCES''), (''ERROR_ALREADY_EXISTS'', ''EEXIST''),
     (''ERROR_BAD_COMMAND'', ''EACCES''), (''ERROR_BAD_EXE_FORMAT'', ''ENOEXEC''),
     (''ERROR_BAD_LENGTH'', ''EACCES''), (''ERROR_BAD_NETPATH'', ''ENOENT''),
     (''ERROR_BAD_NET_NAME'', ''ENOENT''), (''ERROR_BAD_NET_RESP'', ''ENETDOWN''),
     (''ERROR_BAD_PATHNAME'', ''ENOENT''), (''ERROR_BROKEN_PIPE'', ''EPIPE''),
     (''ERROR_CANNOT_MAKE'', ''EACCES''), (''ERROR_COMMITMENT_LIMIT'', ''ENOMEM''),
     (''ERROR_CONNECTION_ABORTED'', ''ECONNABORTED''), (''ERROR_CONNECTION_ACTIVE'', ''EISCONN''),
     (''ERROR_CONNECTION_REFUSED'', ''ECONNREFUSED''), (''ERROR_CRC'', ''EACCES''),
     (''ERROR_DIR_NOT_EMPTY'', ''ENOTEMPTY''), (''ERROR_DISK_FULL'', ''ENOSPC''),
     (''ERROR_DUP_NAME'', ''EADDRINUSE''), (''ERROR_FILENAME_EXCED_RANGE'', ''ENOENT''),
     (''ERROR_FILE_NOT_FOUND'', ''ENOENT''), (''ERROR_GEN_FAILURE'', ''EACCES''),
     (''ERROR_GRACEFUL_DISCONNECT'', ''EPIPE''), (''ERROR_HOST_DOWN'', ''EHOSTUNREACH''),
     (''ERROR_HOST_UNREACHABLE'', ''EHOSTUNREACH''), (''ERROR_INSUFFICIENT_BUFFER'', ''EFAULT''),
     (''ERROR_INVALID_ADDRESS'', ''EADDRNOTAVAIL''), (''ERROR_INVALID_FUNCTION'', ''EINVAL''),
     (''ERROR_INVALID_HANDLE'', ''EBADF''), (''ERROR_INVALID_NETNAME'', ''EADDRNOTAVAIL''),
     (''ERROR_INVALID_PARAMETER'', ''EINVAL''), (''ERROR_INVALID_USER_BUFFER'', ''EMSGSIZE''),
     (''ERROR_IO_PENDING'', ''EINPROGRESS''), (''ERROR_LOCK_VIOLATION'', ''EACCES''),
     (''ERROR_MORE_DATA'', ''EMSGSIZE''), (''ERROR_NETNAME_DELETED'', ''ECONNABORTED''),
     (''ERROR_NETWORK_ACCESS_DENIED'', ''EACCES''), (''ERROR_NETWORK_BUSY'', ''ENETDOWN''),
     (''ERROR_NETWORK_UNREACHABLE'', ''ENETUNREACH''), (''ERROR_NOACCESS'', ''EFAULT''),
     (''ERROR_NONPAGED_SYSTEM_RESOURCES'', ''ENOMEM''), (''ERROR_NOT_ENOUGH_MEMORY'', ''ENOMEM''),
     (''ERROR_NOT_ENOUGH_QUOTA'', ''ENOMEM''), (''ERROR_NOT_FOUND'', ''ENOENT''),
     (''ERROR_NOT_LOCKED'', ''EACCES''), (''ERROR_NOT_READY'', ''EACCES''),
     (''ERROR_NOT_SAME_DEVICE'', ''EXDEV''), (''ERROR_NOT_SUPPORTED'', ''ENOTSUP''),
     (''ERROR_NO_MORE_FILES'', ''ENOENT''), (''ERROR_NO_SYSTEM_RESOURCES'', ''ENOMEM''),
     (''ERROR_OPERATION_ABORTED'', ''EINTR''), (''ERROR_OUT_OF_PAPER'', ''EACCES''),
     (''ERROR_PAGED_SYSTEM_RESOURCES'', ''ENOMEM''), (''ERROR_PAGEFILE_QUOTA'', ''ENOMEM''),
     (''ERROR_PATH_NOT_FOUND'', ''ENOENT''), (''ERROR_PIPE_NOT_CONNECTED'', ''EPIPE''),
     (''ERROR_PORT_UNREACHABLE'', ''ECONNRESET''), (''ERROR_PROTOCOL_UNREACHABLE'', ''ENETUNREACH''),
     (''ERROR_REM_NOT_LIST'', ''ECONNREFUSED''), (''ERROR_REQUEST_ABORTED'', ''EINTR''),
     (''ERROR_REQ_NOT_ACCEP'', ''EWOULDBLOCK''), (''ERROR_SECTOR_NOT_FOUND'', ''EACCES''),
     (''ERROR_SEM_TIMEOUT'', ''ETIMEDOUT''), (''ERROR_SHARING_VIOLATION'', ''EACCES''),
     (''ERROR_TOO_MANY_NAMES'', ''ENOMEM''), (''ERROR_TOO_MANY_OPEN_FILES'', ''EMFILE''),
     (''ERROR_UNEXP_NET_ERR'', ''ECONNABORTED''), (''ERROR_WAIT_NO_CHILDREN'', ''ECHILD''),
     (''ERROR_WORKING_SET_QUOTA'', ''ENOMEM''), (''ERROR_WRITE_PROTECT'', ''EACCES''),
     (''ERROR_WRONG_DISK'', ''EACCES''), (''WSAEACCES'', ''EACCES''), (''WSAEADDRINUSE'', ''EADDRINUSE''),
     (''WSAEADDRNOTAVAIL'', ''EADDRNOTAVAIL''), (''WSAEAFNOSUPPORT'', ''EAFNOSUPPORT''),
     (''WSAECONNABORTED'', ''ECONNABORTED''), (''WSAECONNREFUSED'', ''ECONNREFUSED''),
     (''WSAECONNRESET'', ''ECONNRESET''), (''WSAEDISCON'', ''EPIPE''), (''WSAEFAULT'', ''EFAULT''),
     (''WSAEHOSTDOWN'', ''EHOSTUNREACH''), (''WSAEHOSTUNREACH'', ''EHOSTUNREACH''),
     (''WSAEINPROGRESS'', ''EBUSY''), (''WSAEINTR'', ''EINTR''), (''WSAEINVAL'', ''EINVAL''),
     (''WSAEISCONN'', ''EISCONN''), (''WSAEMSGSIZE'', ''EMSGSIZE''), (''WSAENETDOWN'', ''ENETDOWN''),
     (''WSAENETRESET'', ''EHOSTUNREACH''), (''WSAENETUNREACH'', ''ENETUNREACH''),
     (''WSAENOBUFS'', ''ENOMEM''), (''WSAENOTCONN'', ''ENOTCONN''), (''WSAENOTSOCK'', ''ENOTSOCK''),
     (''WSAEOPNOTSUPP'', ''EOPNOTSUPP''), (''WSAEPROCLIM'', ''ENOMEM''), (''WSAESHUTDOWN'', ''EPIPE''),
     (''WSAETIMEDOUT'', ''ETIMEDOUT''), (''WSAEWOULDBLOCK'', ''EWOULDBLOCK''),
     (''WSANOTINITIALISED'', ''ENETDOWN''), (''WSASYSNOTREADY'', ''ENETDOWN''),
     (''WSAVERNOTSUPPORTED'', ''ENOSYS'')]"

definition err__map_win_error_to_errno :: "string \<Rightarrow> string" where
  "err__map_win_error_to_errno e =
    (case map_of errno_mappings e of Some n \<Rightarrow> n | None \<Rightarrow> ''EINVAL'')"

record 'w env =
  en_world :: 'w
  en_last_error :: string
  en_errno :: string

definition err_map_win_error :: "'w env \<Rightarrow> 'w env" where
  "err_map_win_error e = e\<lparr> en_errno := err__map_win_error_to_errno (en_last_error e) \<rparr>"

definition err_set_win_error :: "string \<Rightarrow> 'w env \<Rightarrow> 'w env" where
  "err_set_win_error err e = e\<lparr> en_last_error := err, en_errno := err__map_win_error_to_errno err \<rparr>"

text \<open>A system call that fails leaves its code in \<^theory_text>\<open>GetLastError()\<close>.\<close>

definition sys_fail :: "string \<Rightarrow> 'w env \<Rightarrow> 'w env" where
  "sys_fail err e = e\<lparr> en_last_error := err \<rparr>"

end
