(* ===== verification/WepollPort.thy ===== *)
theory WepollPort
  imports WepollErrors
begin

text \<open>
  The epoll port of src/wepoll.c: sockets with at most one poll request each in
  the kernel, the queue of sockets whose request has to be renewed, the queue of
  deleted sockets whose request is still out, and the groups that share a device
  handle. The queues are the lists that theory \<^theory_text>\<open>WepollQueue\<close> shows the linked
  structures to be, the socket tree is the association of its keys. Windows is
  the record \<^theory_text>\<open>win_os\<close>. \<^theory_text>\<open>None\<close> is a failed assertion or the use of an object
  that has been freed.
\<close>

section \<open>Constants\<close>

definition EPOLLIN :: u32 where "EPOLLIN = push_bit 0 1"
definition EPOLLPRI :: u32 where "EPOLLPRI = push_bit 1 1"
definition EPOLLOUT :: u32 where "EPOLLOUT = push_bit 2 1"
definition EPOLLERR :: u32 where "EPOLLERR = push_bit 3 1"
definition EPOLLHUP :: u32 where "EPOLLHUP = push_bit 4 1"
definition EPOLLRDNORM :: u32 where "EPOLLRDNORM = push_bit 6 1"
definition EPOLLRDBAND :: u32 where "EPOLLRDBAND = push_bit 7 1"
definition EPOLLWRNORM :: u32 where "EPOLLWRNORM = push_bit 8 1"
definition EPOLLWRBAND :: u32 where "EPOLLWRBAND = push_bit 9 1"
definition EPOLLMSG :: u32 where "EPOLLMSG = push_bit 10 1"
definition EPOLLRDHUP :: u32 where "EPOLLRDHUP = push_bit 13 1"
definition EPOLLONESHOT :: u32 where "EPOLLONESHOT = push_bit 31 1"

definition AFD_POLL_RECEIVE :: u32 where "AFD_POLL_RECEIVE = 0x0001"
definition AFD_POLL_RECEIVE_EXPEDITED :: u32 where "AFD_POLL_RECEIVE_EXPEDITED = 0x0002"
definition AFD_POLL_SEND :: u32 where "AFD_POLL_SEND = 0x0004"
definition AFD_POLL_DISCONNECT :: u32 where "AFD_POLL_DISCONNECT = 0x0008"
definition AFD_POLL_ABORT :: u32 where "AFD_POLL_ABORT = 0x0010"
definition AFD_POLL_LOCAL_CLOSE :: u32 where "AFD_POLL_LOCAL_CLOSE = 0x0020"
definition AFD_POLL_ACCEPT :: u32 where "AFD_POLL_ACCEPT = 0x0080"
definition AFD_POLL_CONNECT_FAIL :: u32 where "AFD_POLL_CONNECT_FAIL = 0x0100"

lemmas poll_bits = EPOLLIN_def EPOLLPRI_def EPOLLOUT_def EPOLLERR_def EPOLLHUP_def EPOLLRDNORM_def
  EPOLLRDBAND_def EPOLLWRNORM_def EPOLLWRBAND_def EPOLLMSG_def EPOLLRDHUP_def EPOLLONESHOT_def
  AFD_POLL_RECEIVE_def AFD_POLL_RECEIVE_EXPEDITED_def AFD_POLL_SEND_def AFD_POLL_DISCONNECT_def
  AFD_POLL_ABORT_def AFD_POLL_LOCAL_CLOSE_def AFD_POLL_ACCEPT_def AFD_POLL_CONNECT_FAIL_def

definition STATUS_SUCCESS :: u32 where "STATUS_SUCCESS = 0"
definition STATUS_PENDING :: u32 where "STATUS_PENDING = 0x00000103"
definition STATUS_CANCELLED :: u32 where "STATUS_CANCELLED = 0xC0000120"
definition STATUS_NOT_FOUND :: u32 where "STATUS_NOT_FOUND = 0xC0000225"

definition NT_SUCCESS :: "u32 \<Rightarrow> bool" where "NT_SUCCESS status \<longleftrightarrow> 0 \<le> sint status"

definition INVALID_HANDLE :: u64 where "INVALID_HANDLE = - 1"

section \<open>State\<close>

datatype poll_status = Poll_Idle | Poll_Pending | Poll_Cancelled

text \<open>\<^theory_text>\<open>ss_status\<close>, \<^theory_text>\<open>ss_handles\<close> and \<^theory_text>\<open>ss_events\<close> are the blocks the kernel writes.\<close>

record sock_state =
  ss_status :: u32
  ss_handles :: nat
  ss_events :: u32
  ss_group :: nat
  ss_base :: u64
  ss_user_data :: u64
  ss_user_events :: u32
  ss_pending_events :: u32
  ss_poll_status :: poll_status
  ss_delete_pending :: bool

record poll_group =
  pg_handle :: u64
  pg_size :: nat

record 'w port_state =
  ps_iocp :: "u64 option"
  ps_tree :: "(u64 \<times> nat) list"
  ps_update :: "nat list"
  ps_deleted :: "nat list"
  ps_groups :: "nat list"
  ps_active :: nat
  ps_socks :: "nat \<Rightarrow> sock_state option"
  ps_group :: "nat \<Rightarrow> poll_group option"
  ps_fresh :: nat
  ps_env :: "'w env"

record epoll_event =
  ev_events :: u32
  ev_udata :: u64

text \<open>What the kernel stored for a completed request, by the address of its socket.\<close>

record completion =
  co_sock :: nat
  co_status :: u32
  co_handles :: nat
  co_events :: u32

record 'w win_os =
  wo_malloc :: "'w \<Rightarrow> bool \<times> 'w"
  wo_create_iocp :: "'w \<Rightarrow> (string + u64) \<times> 'w"
  wo_close_handle :: "u64 \<Rightarrow> 'w \<Rightarrow> (string + unit) \<times> 'w"
  wo_create_afd :: "'w \<Rightarrow> (u32 + u64) \<times> 'w"
  wo_associate :: "u64 \<Rightarrow> u64 \<Rightarrow> 'w \<Rightarrow> (string + unit) \<times> 'w"
  wo_set_modes :: "u64 \<Rightarrow> 'w \<Rightarrow> (string + unit) \<times> 'w"
  wo_status_error :: "u32 \<Rightarrow> string"
  wo_device_poll :: "u64 \<Rightarrow> nat \<Rightarrow> u64 \<Rightarrow> u32 \<Rightarrow> 'w \<Rightarrow> u32 \<times> 'w"
  wo_cancel_io :: "u64 \<Rightarrow> nat \<Rightarrow> 'w \<Rightarrow> u32 \<times> 'w"
  wo_ioctl :: "u64 \<Rightarrow> u32 \<Rightarrow> 'w \<Rightarrow> (string + u64) \<times> 'w"
  wo_gqcs :: "u64 \<Rightarrow> nat \<Rightarrow> u32 \<Rightarrow> 'w \<Rightarrow> (string + completion list) \<times> 'w"
  wo_tick :: "'w \<Rightarrow> u64 \<times> 'w"
  wo_handle_info :: "u64 \<Rightarrow> 'w \<Rightarrow> (string + unit) \<times> 'w"

definition on_env :: "('w env \<Rightarrow> 'w env) \<Rightarrow> 'w port_state \<Rightarrow> 'w port_state" where
  "on_env f ps = ps\<lparr> ps_env := f (ps_env ps) \<rparr>"

definition set_world :: "'w \<Rightarrow> 'w port_state \<Rightarrow> 'w port_state" where
  "set_world w ps = on_env (\<lambda>e. e\<lparr> en_world := w \<rparr>) ps"

definition world :: "'w port_state \<Rightarrow> 'w" where "world ps = en_world (ps_env ps)"

definition return_set_error :: "string \<Rightarrow> 'w port_state \<Rightarrow> 'w port_state" where
  "return_set_error e ps = on_env (err_set_win_error e) ps"

definition return_map_error :: "'w port_state \<Rightarrow> 'w port_state" where
  "return_map_error ps = on_env err_map_win_error ps"

definition upd_sock :: "nat \<Rightarrow> (sock_state \<Rightarrow> sock_state) \<Rightarrow> 'w port_state \<Rightarrow> 'w port_state" where
  "upd_sock sid f ps = ps\<lparr> ps_socks := (ps_socks ps)(sid := map_option f (ps_socks ps sid)) \<rparr>"

section \<open>Device requests\<close>

definition afd_create_device_handle :: "'w win_os \<Rightarrow> u64 \<Rightarrow> 'w port_state \<Rightarrow> u64 option \<times> 'w port_state" where
  "afd_create_device_handle os iocp ps =
    (case wo_create_afd os (world ps) of
       (Inl status, w) \<Rightarrow> (None, return_set_error (wo_status_error os status) (set_world w ps))
     | (Inr h, w) \<Rightarrow>
        (let fail = (\<lambda>err w'. case wo_close_handle os h w' of
                       (r, w'') \<Rightarrow> (None, return_map_error (on_env
                         (sys_fail (case r of Inl e \<Rightarrow> e | Inr _ \<Rightarrow> err)) (set_world w'' ps))))
         in case wo_associate os h iocp w of
              (Inl err, w1) \<Rightarrow> fail err w1
            | (Inr _, w1) \<Rightarrow>
               (case wo_set_modes os h w1 of
                  (Inl err, w2) \<Rightarrow> fail err w2
                | (Inr _, w2) \<Rightarrow> (Some h, set_world w2 ps))))"

text \<open>
  \<^theory_text>\<open>afd_poll\<close> returns 0 only when the request completed at once; a pending one is
  the error \<^theory_text>\<open>ERROR_IO_PENDING\<close>.
\<close>

definition afd_poll :: "'w win_os \<Rightarrow> u64 \<Rightarrow> nat \<Rightarrow> u64 \<Rightarrow> u32 \<Rightarrow> 'w port_state \<Rightarrow> bool \<times> 'w port_state" where
  "afd_poll os device sid base events ps =
    (let ps1 = upd_sock sid (\<lambda>s. s\<lparr> ss_status := STATUS_PENDING \<rparr>) ps
     in case wo_device_poll os device sid base events (world ps1) of
          (status, w) \<Rightarrow>
            (let ps2 = set_world w ps1
             in if status = STATUS_SUCCESS then (True, ps2)
                else if status = STATUS_PENDING then (False, return_set_error ''ERROR_IO_PENDING'' ps2)
                else (False, return_set_error (wo_status_error os status) ps2)))"

definition afd_cancel_poll :: "'w win_os \<Rightarrow> u64 \<Rightarrow> nat \<Rightarrow> u32 \<Rightarrow> 'w port_state \<Rightarrow> bool \<times> 'w port_state" where
  "afd_cancel_poll os device sid status ps =
    (if status \<noteq> STATUS_PENDING then (True, ps)
     else case wo_cancel_io os device sid (world ps) of
       (cs, w) \<Rightarrow>
         (if cs = STATUS_SUCCESS \<or> cs = STATUS_NOT_FOUND then (True, set_world w ps)
          else (False, return_set_error (wo_status_error os cs) (set_world w ps))))"

section \<open>Poll groups\<close>

definition max_group_size :: nat where "max_group_size = 32"

definition port_get_iocp_handle :: "'w port_state \<Rightarrow> u64 option" where
  "port_get_iocp_handle ps = ps_iocp ps"

definition poll_group__new :: "'w win_os \<Rightarrow> 'w port_state \<Rightarrow> (nat option \<times> 'w port_state) option" where
  "poll_group__new os ps =
    do { iocp \<leftarrow> port_get_iocp_handle ps;
         case wo_malloc os (world ps) of
           (False, w) \<Rightarrow> Some (None, return_set_error ''ERROR_NOT_ENOUGH_MEMORY'' (set_world w ps))
         | (True, w) \<Rightarrow>
            (case afd_create_device_handle os iocp (set_world w ps) of
               (None, ps1) \<Rightarrow> Some (None, ps1)
             | (Some h, ps1) \<Rightarrow>
                (let gid = ps_fresh ps1
                 in Some (Some gid, ps1\<lparr> ps_fresh := gid + 1, ps_groups := ps_groups ps1 @ [gid],
                      ps_group := (ps_group ps1)(gid \<mapsto> \<lparr> pg_handle = h, pg_size = 0 \<rparr>) \<rparr>))) }"

definition poll_group_delete :: "'w win_os \<Rightarrow> nat \<Rightarrow> 'w port_state \<Rightarrow> 'w port_state option" where
  "poll_group_delete os gid ps =
    do { g \<leftarrow> ps_group ps gid;
         if pg_size g \<noteq> 0 then None
         else case wo_close_handle os (pg_handle g) (world ps) of
           (_, w) \<Rightarrow> Some ((set_world w ps)\<lparr> ps_groups := remove1 gid (ps_groups ps),
                                          ps_group := (ps_group ps)(gid := None) \<rparr>) }"

definition poll_group_acquire :: "'w win_os \<Rightarrow> 'w port_state \<Rightarrow> (nat option \<times> 'w port_state) option" where
  "poll_group_acquire os ps =
    do { (gid, ps1) \<leftarrow>
           (if ps_groups ps = [] then poll_group__new os ps
            else do { g \<leftarrow> ps_group ps (last (ps_groups ps));
                      if max_group_size \<le> pg_size g then poll_group__new os ps
                      else Some (Some (last (ps_groups ps)), ps) });
         case gid of None \<Rightarrow> Some (None, ps1)
         | Some gid \<Rightarrow>
             do { g \<leftarrow> ps_group ps1 gid;
                  let n = pg_size g + 1;
                      ps2 = ps1\<lparr> ps_group := (ps_group ps1)(gid \<mapsto> g\<lparr> pg_size := n \<rparr>) \<rparr>
                  in Some (Some gid, if n = max_group_size
                                     then ps2\<lparr> ps_groups := gid # remove1 gid (ps_groups ps2) \<rparr> else ps2) } }"

text \<open>The decrement of an unsigned 0 would fail the assertion that follows.\<close>

definition poll_group_release :: "nat \<Rightarrow> 'w port_state \<Rightarrow> 'w port_state option" where
  "poll_group_release gid ps =
    do { g \<leftarrow> ps_group ps gid;
         if pg_size g = 0 \<or> max_group_size \<le> pg_size g - 1 then None
         else Some (ps\<lparr> ps_group := (ps_group ps)(gid \<mapsto> g\<lparr> pg_size := pg_size g - 1 \<rparr>),
                        ps_groups := remove1 gid (ps_groups ps) @ [gid] \<rparr>) }"

section \<open>The port's tables\<close>

definition sock_enqueued :: "nat \<Rightarrow> 'w port_state \<Rightarrow> bool" where
  "sock_enqueued sid ps \<longleftrightarrow> sid \<in> set (ps_update ps) \<or> sid \<in> set (ps_deleted ps)"

definition dequeue_sock :: "nat \<Rightarrow> 'w port_state \<Rightarrow> 'w port_state" where
  "dequeue_sock sid ps = ps\<lparr> ps_update := remove1 sid (ps_update ps), ps_deleted := remove1 sid (ps_deleted ps) \<rparr>"

definition port_register_socket :: "nat \<Rightarrow> u64 \<Rightarrow> 'w port_state \<Rightarrow> bool \<times> 'w port_state" where
  "port_register_socket sid sock ps =
    (if map_of (ps_tree ps) sock \<noteq> None then (False, return_set_error ''ERROR_ALREADY_EXISTS'' ps)
     else (True, ps\<lparr> ps_tree := (sock, sid) # ps_tree ps \<rparr>))"

definition port_unregister_socket :: "nat \<Rightarrow> 'w port_state \<Rightarrow> 'w port_state" where
  "port_unregister_socket sid ps = ps\<lparr> ps_tree := filter (\<lambda>e. snd e \<noteq> sid) (ps_tree ps) \<rparr>"

definition port_find_socket :: "u64 \<Rightarrow> 'w port_state \<Rightarrow> nat option \<times> 'w port_state" where
  "port_find_socket sock ps =
    (case map_of (ps_tree ps) sock of
       None \<Rightarrow> (None, return_set_error ''ERROR_NOT_FOUND'' ps)
     | Some sid \<Rightarrow> (Some sid, ps))"

definition port_request_socket_update :: "nat \<Rightarrow> 'w port_state \<Rightarrow> 'w port_state" where
  "port_request_socket_update sid ps =
    (if sock_enqueued sid ps then ps else ps\<lparr> ps_update := ps_update ps @ [sid] \<rparr>)"

definition port_cancel_socket_update :: "nat \<Rightarrow> 'w port_state \<Rightarrow> 'w port_state" where
  "port_cancel_socket_update sid ps = (if \<not> sock_enqueued sid ps then ps else dequeue_sock sid ps)"

definition port_add_deleted_socket :: "nat \<Rightarrow> 'w port_state \<Rightarrow> 'w port_state" where
  "port_add_deleted_socket sid ps =
    (if sock_enqueued sid ps then ps else ps\<lparr> ps_deleted := ps_deleted ps @ [sid] \<rparr>)"

definition port_remove_deleted_socket :: "nat \<Rightarrow> 'w port_state \<Rightarrow> 'w port_state" where
  "port_remove_deleted_socket sid ps = (if \<not> sock_enqueued sid ps then ps else dequeue_sock sid ps)"

section \<open>Sockets\<close>

definition known_epoll_events :: u32 where
  "known_epoll_events = EPOLLIN OR EPOLLPRI OR EPOLLOUT OR EPOLLERR OR EPOLLHUP OR EPOLLRDNORM
     OR EPOLLRDBAND OR EPOLLWRNORM OR EPOLLWRBAND OR EPOLLMSG OR EPOLLRDHUP"

definition sock__cancel_poll :: "'w win_os \<Rightarrow> nat \<Rightarrow> 'w port_state \<Rightarrow> (bool \<times> 'w port_state) option" where
  "sock__cancel_poll os sid ps =
    do { s \<leftarrow> ps_socks ps sid;
         if ss_poll_status s \<noteq> Poll_Pending then None
         else do { g \<leftarrow> ps_group ps (ss_group s);
                   case afd_cancel_poll os (pg_handle g) sid (ss_status s) ps of
                     (False, ps1) \<Rightarrow> Some (False, ps1)
                   | (True, ps1) \<Rightarrow>
                       Some (True, upd_sock sid (\<lambda>s. s\<lparr> ss_poll_status := Poll_Cancelled, ss_pending_events := 0 \<rparr>) ps1) } }"

definition sio_base_handle :: u32 where "sio_base_handle = 0x48000022"
definition sio_bsp_handle_poll :: u32 where "sio_bsp_handle_poll = 0x4800001D"

definition ws__ioctl_get_bsp_socket :: "'w win_os \<Rightarrow> u64 \<Rightarrow> u32 \<Rightarrow> 'w port_state \<Rightarrow> u64 \<times> 'w port_state" where
  "ws__ioctl_get_bsp_socket os sock code ps =
    (case wo_ioctl os sock code (world ps) of
       (Inr b, w) \<Rightarrow> (b, set_world w ps)
     | (Inl err, w) \<Rightarrow> (INVALID_HANDLE, on_env (sys_fail err) (set_world w ps)))"

text \<open>
  Unwrapping layered providers: each round needs the second query to name another
  socket, and the fuel bounds the number of layers; out of fuel, no socket is
  returned, as for any other failure.
\<close>

fun ws_get_base_socket :: "nat \<Rightarrow> 'w win_os \<Rightarrow> u64 \<Rightarrow> 'w port_state \<Rightarrow> u64 option \<times> 'w port_state" where
  "ws_get_base_socket 0 os sock ps = (None, ps)"
| "ws_get_base_socket (Suc n) os sock ps =
    (case ws__ioctl_get_bsp_socket os sock sio_base_handle ps of
       (b, ps1) \<Rightarrow>
         if b \<noteq> INVALID_HANDLE then (Some b, ps1)
         else let err = en_last_error (ps_env ps1)
              in if err = ''WSAENOTSOCK'' then (None, return_set_error err ps1)
                 else case ws__ioctl_get_bsp_socket os sock sio_bsp_handle_poll ps1 of
                   (b', ps2) \<Rightarrow>
                     if b' \<noteq> INVALID_HANDLE \<and> b' \<noteq> sock then ws_get_base_socket n os b' ps2
                     else (None, return_set_error err ps2))"

definition new_sock :: "u64 \<Rightarrow> nat \<Rightarrow> sock_state" where
  "new_sock base gid = \<lparr> ss_status = 0, ss_handles = 0, ss_events = 0, ss_group = gid, ss_base = base,
     ss_user_data = 0, ss_user_events = 0, ss_pending_events = 0, ss_poll_status = Poll_Idle,
     ss_delete_pending = False \<rparr>"

definition free_sock :: "nat \<Rightarrow> 'w port_state \<Rightarrow> 'w port_state" where
  "free_sock sid ps = ps\<lparr> ps_socks := (ps_socks ps)(sid := None) \<rparr>"

text \<open>\<^theory_text>\<open>layers\<close> is the fuel of the provider loop.\<close>

definition sock_new :: "nat \<Rightarrow> 'w win_os \<Rightarrow> u64 \<Rightarrow> 'w port_state \<Rightarrow> (nat option \<times> 'w port_state) option" where
  "sock_new layers os sock ps =
    (if sock = 0 \<or> sock = INVALID_HANDLE then Some (None, return_set_error ''ERROR_INVALID_HANDLE'' ps)
     else case ws_get_base_socket layers os sock ps of
       (None, ps1) \<Rightarrow> Some (None, ps1)
     | (Some base, ps1) \<Rightarrow>
         do { (gid, ps2) \<leftarrow> poll_group_acquire os ps1;
              case gid of None \<Rightarrow> Some (None, ps2)
              | Some gid \<Rightarrow>
                 (case wo_malloc os (world ps2) of
                    (False, w) \<Rightarrow>
                      do { ps3 \<leftarrow> poll_group_release gid
                             (return_set_error ''ERROR_NOT_ENOUGH_MEMORY'' (set_world w ps2));
                           Some (None, ps3) }
                  | (True, w) \<Rightarrow>
                      (let sid = ps_fresh ps2;
                           ps3 = (set_world w ps2)\<lparr> ps_fresh := sid + 1,
                                   ps_socks := (ps_socks ps2)(sid \<mapsto> new_sock base gid) \<rparr>
                       in case port_register_socket sid sock ps3 of
                            (True, ps4) \<Rightarrow> Some (Some sid, ps4)
                          | (False, ps4) \<Rightarrow>
                              do { ps5 \<leftarrow> poll_group_release gid (free_sock sid ps4);
                                   Some (None, ps5) })) })"

definition sock__delete :: "'w win_os \<Rightarrow> nat \<Rightarrow> bool \<Rightarrow> 'w port_state \<Rightarrow> 'w port_state option" where
  "sock__delete os sid force ps =
    do { s \<leftarrow> ps_socks ps sid;
         ps1 \<leftarrow> (if ss_delete_pending s then Some ps
                else do { ps2 \<leftarrow> (if ss_poll_status s = Poll_Pending
                                  then map_option snd (sock__cancel_poll os sid ps) else Some ps);
                          Some (upd_sock sid (\<lambda>s. s\<lparr> ss_delete_pending := True \<rparr>)
                            (port_unregister_socket sid (port_cancel_socket_update sid ps2))) });
         s1 \<leftarrow> ps_socks ps1 sid;
         if force \<or> ss_poll_status s1 = Poll_Idle
         then do { ps3 \<leftarrow> poll_group_release (ss_group s1) (port_remove_deleted_socket sid ps1);
                   Some (free_sock sid ps3) }
         else Some (port_add_deleted_socket sid ps1) }"

definition sock_set_event :: "nat \<Rightarrow> epoll_event \<Rightarrow> 'w port_state \<Rightarrow> 'w port_state option" where
  "sock_set_event sid ev ps =
    do { s \<leftarrow> ps_socks ps sid;
         let events = ev_events ev OR EPOLLERR OR EPOLLHUP;
             ps1 = upd_sock sid (\<lambda>s. s\<lparr> ss_user_events := events, ss_user_data := ev_udata ev \<rparr>) ps
         in Some (if events AND known_epoll_events AND NOT (ss_pending_events s) \<noteq> 0
                  then port_request_socket_update sid ps1 else ps1) }"

definition sock__epoll_events_to_afd_events :: "u32 \<Rightarrow> u32" where
  "sock__epoll_events_to_afd_events e =
     AFD_POLL_LOCAL_CLOSE
     OR (if has_flag e (EPOLLIN OR EPOLLRDNORM) then AFD_POLL_RECEIVE OR AFD_POLL_ACCEPT else 0)
     OR (if has_flag e (EPOLLPRI OR EPOLLRDBAND) then AFD_POLL_RECEIVE_EXPEDITED else 0)
     OR (if has_flag e (EPOLLOUT OR EPOLLWRNORM OR EPOLLWRBAND) then AFD_POLL_SEND else 0)
     OR (if has_flag e (EPOLLIN OR EPOLLRDNORM OR EPOLLRDHUP) then AFD_POLL_DISCONNECT else 0)
     OR (if has_flag e EPOLLHUP then AFD_POLL_ABORT else 0)
     OR (if has_flag e EPOLLERR then AFD_POLL_CONNECT_FAIL else 0)"

definition sock__afd_events_to_epoll_events :: "u32 \<Rightarrow> u32" where
  "sock__afd_events_to_epoll_events a =
     (if has_flag a (AFD_POLL_RECEIVE OR AFD_POLL_ACCEPT) then EPOLLIN OR EPOLLRDNORM else 0)
     OR (if has_flag a AFD_POLL_RECEIVE_EXPEDITED then EPOLLPRI OR EPOLLRDBAND else 0)
     OR (if has_flag a AFD_POLL_SEND then EPOLLOUT OR EPOLLWRNORM OR EPOLLWRBAND else 0)
     OR (if has_flag a AFD_POLL_DISCONNECT then EPOLLIN OR EPOLLRDNORM OR EPOLLRDHUP else 0)
     OR (if has_flag a AFD_POLL_ABORT then EPOLLHUP else 0)
     OR (if has_flag a AFD_POLL_CONNECT_FAIL
         then EPOLLIN OR EPOLLOUT OR EPOLLERR OR EPOLLRDNORM OR EPOLLWRNORM OR EPOLLRDHUP else 0)"

definition sock_update :: "'w win_os \<Rightarrow> nat \<Rightarrow> 'w port_state \<Rightarrow> (bool \<times> 'w port_state) option" where
  "sock_update os sid ps =
    do { s \<leftarrow> ps_socks ps sid;
         if ss_delete_pending s then None
         else if ss_poll_status s = Poll_Pending
                 \<and> ss_user_events s AND known_epoll_events AND NOT (ss_pending_events s) = 0
         then Some (True, port_cancel_socket_update sid ps)
         else if ss_poll_status s = Poll_Pending then
           do { (ok, ps1) \<leftarrow> sock__cancel_poll os sid ps;
                Some (if ok then (True, port_cancel_socket_update sid ps1) else (False, ps1)) }
         else if ss_poll_status s = Poll_Cancelled then Some (True, port_cancel_socket_update sid ps)
         else
           do { g \<leftarrow> ps_group ps (ss_group s);
                let afd = sock__epoll_events_to_afd_events (ss_user_events s);
                    ps1 = upd_sock sid (\<lambda>s. s\<lparr> ss_handles := 1, ss_events := afd \<rparr>) ps
                in case afd_poll os (pg_handle g) sid (ss_base s) afd ps1 of
                     (ok, ps2) \<Rightarrow>
                       if ok \<or> en_last_error (ps_env ps2) = ''ERROR_IO_PENDING'' then
                         Some (True, port_cancel_socket_update sid
                           (upd_sock sid (\<lambda>s. s\<lparr> ss_poll_status := Poll_Pending,
                                                 ss_pending_events := ss_user_events s \<rparr>) ps2))
                       else if en_last_error (ps_env ps2) = ''ERROR_INVALID_HANDLE'' then
                         do { ps3 \<leftarrow> sock__delete os sid False ps2; Some (True, ps3) }
                       else Some (False, return_map_error ps2) } }"

definition sock_feed_event ::
  "'w win_os \<Rightarrow> nat \<Rightarrow> 'w port_state \<Rightarrow> (epoll_event option \<times> 'w port_state) option" where
  "sock_feed_event os sid ps =
    do { s \<leftarrow> ps_socks ps sid;
         let ps1 = upd_sock sid (\<lambda>s. s\<lparr> ss_poll_status := Poll_Idle, ss_pending_events := 0 \<rparr>) ps;
             report = (\<lambda>events.
               let ps2 = port_request_socket_update sid ps1; ee = events AND ss_user_events s
               in if ee = 0 then Some (None, ps2)
                  else Some (Some \<lparr> ev_events = ee, ev_udata = ss_user_data s \<rparr>,
                         if has_flag (ss_user_events s) EPOLLONESHOT
                         then upd_sock sid (\<lambda>s. s\<lparr> ss_user_events := 0 \<rparr>) ps2 else ps2))
         in if ss_delete_pending s then do { ps2 \<leftarrow> sock__delete os sid False ps1; Some (None, ps2) }
            else if ss_status s = STATUS_CANCELLED then report 0
            else if \<not> NT_SUCCESS (ss_status s) then report EPOLLERR
            else if ss_handles s < 1 then report 0
            else if has_flag (ss_events s) AFD_POLL_LOCAL_CLOSE
            then do { ps2 \<leftarrow> sock__delete os sid False ps1; Some (None, ps2) }
            else report (sock__afd_events_to_epoll_events (ss_events s)) }"

end
