(* ===== verification/WepollEpoll.thy ===== *)
theory WepollEpoll
  imports WepollPort
begin

text \<open>
  The operations of a port and the epoll interface of src/wepoll.c. Every call
  runs under the lock of its port as one step; a wait gives the lock up while it
  blocks, and is split there.
\<close>

section \<open>Ports\<close>

definition new_port_state :: "u64 \<Rightarrow> 'w env \<Rightarrow> 'w port_state" where
  "new_port_state iocp e = \<lparr> ps_iocp = Some iocp, ps_tree = [], ps_update = [], ps_deleted = [],
     ps_groups = [], ps_active = 0, ps_socks = (\<lambda>_. None), ps_group = (\<lambda>_. None), ps_fresh = 0, ps_env = e \<rparr>"

definition port_new :: "'w win_os \<Rightarrow> 'w env \<Rightarrow> (u64 \<times> 'w port_state) option \<times> 'w env" where
  "port_new os e =
    (case wo_malloc os (en_world e) of
       (False, w) \<Rightarrow> (None, err_set_win_error ''ERROR_NOT_ENOUGH_MEMORY'' (e\<lparr> en_world := w \<rparr>))
     | (True, w) \<Rightarrow>
        (case wo_create_iocp os w of
           (Inl err, w') \<Rightarrow> (None, err_map_win_error (sys_fail err (e\<lparr> en_world := w' \<rparr>)))
         | (Inr h, w') \<Rightarrow>
             (let e' = e\<lparr> en_world := w' \<rparr> in (Some (h, new_port_state h e'), e'))))"

definition port_close :: "'w win_os \<Rightarrow> 'w port_state \<Rightarrow> (bool \<times> 'w port_state) option" where
  "port_close os ps =
    do { h \<leftarrow> ps_iocp ps;
         let ps1 = ps\<lparr> ps_iocp := None \<rparr>
         in case wo_close_handle os h (world ps1) of
              (Inl err, w) \<Rightarrow> Some (False, return_map_error (on_env (sys_fail err) (set_world w ps1)))
            | (Inr _, w) \<Rightarrow> Some (True, set_world w ps1) }"

text \<open>
  The three loops of \<^theory_text>\<open>port_delete\<close> run until their list is empty; the fuel bounds
  the number of rounds, and running out of it is \<^theory_text>\<open>None\<close>.
\<close>

fun delete_tree_socks :: "nat \<Rightarrow> 'w win_os \<Rightarrow> 'w port_state \<Rightarrow> 'w port_state option" where
  "delete_tree_socks 0 os ps = (if ps_tree ps = [] then Some ps else None)"
| "delete_tree_socks (Suc n) os ps =
    (case ps_tree ps of [] \<Rightarrow> Some ps
     | e # _ \<Rightarrow> do { ps1 \<leftarrow> sock__delete os (snd e) True ps; delete_tree_socks n os ps1 })"

fun delete_deleted_socks :: "nat \<Rightarrow> 'w win_os \<Rightarrow> 'w port_state \<Rightarrow> 'w port_state option" where
  "delete_deleted_socks 0 os ps = (if ps_deleted ps = [] then Some ps else None)"
| "delete_deleted_socks (Suc n) os ps =
    (case ps_deleted ps of [] \<Rightarrow> Some ps
     | sid # _ \<Rightarrow> do { ps1 \<leftarrow> sock__delete os sid True ps; delete_deleted_socks n os ps1 })"

fun delete_groups :: "nat \<Rightarrow> 'w win_os \<Rightarrow> 'w port_state \<Rightarrow> 'w port_state option" where
  "delete_groups 0 os ps = (if ps_groups ps = [] then Some ps else None)"
| "delete_groups (Suc n) os ps =
    (case ps_groups ps of [] \<Rightarrow> Some ps
     | gid # _ \<Rightarrow> do { ps1 \<leftarrow> poll_group_delete os gid ps; delete_groups n os ps1 })"

definition port_delete :: "'w win_os \<Rightarrow> 'w port_state \<Rightarrow> 'w port_state option" where
  "port_delete os ps =
    (if ps_iocp ps \<noteq> None then None
     else do { ps1 \<leftarrow> delete_tree_socks (length (ps_tree ps)) os ps;
               ps2 \<leftarrow> delete_deleted_socks (length (ps_deleted ps1)) os ps1;
               ps3 \<leftarrow> delete_groups (length (ps_groups ps2)) os ps2;
               if ps_update ps3 \<noteq> [] then None else Some ps3 })"

fun update_events_loop :: "nat \<Rightarrow> 'w win_os \<Rightarrow> 'w port_state \<Rightarrow> (bool \<times> 'w port_state) option" where
  "update_events_loop 0 os ps = (if ps_update ps = [] then Some (True, ps) else None)"
| "update_events_loop (Suc n) os ps =
    (case ps_update ps of [] \<Rightarrow> Some (True, ps)
     | sid # _ \<Rightarrow>
        do { (ok, ps1) \<leftarrow> sock_update os sid ps;
             if \<not> ok then Some (False, ps1) else update_events_loop n os ps1 })"

definition port__update_events :: "'w win_os \<Rightarrow> 'w port_state \<Rightarrow> (bool \<times> 'w port_state) option" where
  "port__update_events os ps = update_events_loop (length (ps_update ps)) os ps"

definition port__update_events_if_polling :: "'w win_os \<Rightarrow> 'w port_state \<Rightarrow> 'w port_state option" where
  "port__update_events_if_polling os ps =
    (if 0 < ps_active ps then map_option snd (port__update_events os ps) else Some ps)"

fun port__feed_events ::
  "'w win_os \<Rightarrow> nat list \<Rightarrow> 'w port_state \<Rightarrow> (epoll_event list \<times> 'w port_state) option" where
  "port__feed_events os [] ps = Some ([], ps)"
| "port__feed_events os (sid # sids) ps =
    do { (ev, ps1) \<leftarrow> sock_feed_event os sid ps;
         (evs, ps2) \<leftarrow> port__feed_events os sids ps1;
         Some ((case ev of None \<Rightarrow> evs | Some e \<Rightarrow> e # evs), ps2) }"

text \<open>The kernel's stores for a completed request.\<close>

definition kernel_complete :: "completion \<Rightarrow> 'w port_state \<Rightarrow> 'w port_state" where
  "kernel_complete c ps = upd_sock (co_sock c)
     (\<lambda>s. s\<lparr> ss_status := co_status c, ss_handles := co_handles c, ss_events := co_events c \<rparr>) ps"

text \<open>
  \<^theory_text>\<open>port__poll\<close> around the blocking call: what it does before giving up the lock,
  and after taking it again with what the call returned.
\<close>

definition port__poll_begin :: "'w win_os \<Rightarrow> 'w port_state \<Rightarrow> (bool \<times> 'w port_state) option" where
  "port__poll_begin os ps =
    do { (ok, ps1) \<leftarrow> port__update_events os ps;
         Some (if \<not> ok then (False, ps1) else (True, ps1\<lparr> ps_active := ps_active ps1 + 1 \<rparr>)) }"

definition port__poll_end ::
  "'w win_os \<Rightarrow> string + completion list \<Rightarrow> 'w port_state \<Rightarrow> (epoll_event list option \<times> 'w port_state) option" where
  "port__poll_end os r ps =
    (let ps1 = ps\<lparr> ps_active := ps_active ps - 1 \<rparr>
     in case r of
          Inl err \<Rightarrow> Some (None, return_map_error (on_env (sys_fail err) ps1))
        | Inr cs \<Rightarrow>
            do { (evs, ps2) \<leftarrow> port__feed_events os (map co_sock cs) (fold kernel_complete cs ps1);
                 Some (Some evs, ps2) })"

definition port__poll ::
  "'w win_os \<Rightarrow> nat \<Rightarrow> u32 \<Rightarrow> 'w port_state \<Rightarrow> (epoll_event list option \<times> 'w port_state) option" where
  "port__poll os maxevents timeout ps =
    do { (ok, ps1) \<leftarrow> port__poll_begin os ps;
         if \<not> ok then Some (None, ps1)
         else do { h \<leftarrow> ps_iocp ps1;
                   case wo_gqcs os h maxevents timeout (world ps1) of
                     (r, w) \<Rightarrow> port__poll_end os r (set_world w ps1) } }"

definition max_on_stack_completions :: nat where "max_on_stack_completions = 256"

definition INFINITE :: u32 where "INFINITE = - 1"

text \<open>
  The loop of \<^theory_text>\<open>port_wait\<close>; the result is the outcome of the last poll, and out of
  fuel the call has not returned.
\<close>

fun port_wait_loop ::
  "nat \<Rightarrow> 'w win_os \<Rightarrow> nat \<Rightarrow> int \<Rightarrow> u64 \<Rightarrow> u32 \<Rightarrow> 'w port_state
   \<Rightarrow> (epoll_event list option \<times> 'w port_state) option" where
  "port_wait_loop 0 os maxevents timeout due gt ps = None"
| "port_wait_loop (Suc n) os maxevents timeout due gt ps =
    do { (r, ps1) \<leftarrow> port__poll os maxevents gt ps;
         if r \<noteq> Some [] then Some (r, ps1)
         else if timeout < 0 then port_wait_loop n os maxevents timeout due gt ps1
         else case wo_tick os (world ps1) of
           (now, w) \<Rightarrow>
             (let ps2 = set_world w ps1
              in if due \<le> now then Some (r, on_env (sys_fail ''WAIT_TIMEOUT'') ps2)
                 else port_wait_loop n os maxevents timeout due (ucast (due - now)) ps2) }"

definition port_wait ::
  "nat \<Rightarrow> 'w win_os \<Rightarrow> int \<Rightarrow> int \<Rightarrow> 'w port_state \<Rightarrow> (epoll_event list option \<times> 'w port_state) option" where
  "port_wait fuel os maxevents timeout ps =
    (if maxevents \<le> 0 then Some (None, return_set_error ''ERROR_INVALID_PARAMETER'' ps)
     else let (maxev, ps1) =
            (if nat maxevents \<le> max_on_stack_completions then (nat maxevents, ps)
             else case wo_malloc os (world ps) of
                    (True, w) \<Rightarrow> (nat maxevents, set_world w ps)
                  | (False, w) \<Rightarrow> (max_on_stack_completions, set_world w ps));
          (due, gt, ps2) =
            (if 0 < timeout
             then (case wo_tick os (world ps1) of
                     (t, w) \<Rightarrow> (t + word_of_int timeout, word_of_int timeout, set_world w ps1))
             else if timeout = 0 then (0, 0, ps1) else (0, INFINITE, ps1))
     in do { (r, ps3) \<leftarrow> port_wait_loop fuel os maxev timeout due gt ps2;
             ps4 \<leftarrow> port__update_events_if_polling os ps3;
             Some (if r \<noteq> None then (r, ps4)
                   else if en_last_error (ps_env ps4) = ''WAIT_TIMEOUT'' then (Some [], ps4)
                   else (None, ps4)) })"

definition port__ctl_add ::
  "nat \<Rightarrow> 'w win_os \<Rightarrow> u64 \<Rightarrow> epoll_event \<Rightarrow> 'w port_state \<Rightarrow> (bool \<times> 'w port_state) option" where
  "port__ctl_add layers os sock ev ps =
    do { (sid, ps1) \<leftarrow> sock_new layers os sock ps;
         case sid of None \<Rightarrow> Some (False, ps1)
         | Some sid \<Rightarrow>
             do { ps2 \<leftarrow> sock_set_event sid ev ps1;
                  ps3 \<leftarrow> port__update_events_if_polling os ps2;
                  Some (True, ps3) } }"

definition port__ctl_mod ::
  "'w win_os \<Rightarrow> u64 \<Rightarrow> epoll_event \<Rightarrow> 'w port_state \<Rightarrow> (bool \<times> 'w port_state) option" where
  "port__ctl_mod os sock ev ps =
    (case port_find_socket sock ps of
       (None, ps1) \<Rightarrow> Some (False, ps1)
     | (Some sid, ps1) \<Rightarrow>
         do { ps2 \<leftarrow> sock_set_event sid ev ps1;
              ps3 \<leftarrow> port__update_events_if_polling os ps2;
              Some (True, ps3) })"

definition port__ctl_del :: "'w win_os \<Rightarrow> u64 \<Rightarrow> 'w port_state \<Rightarrow> (bool \<times> 'w port_state) option" where
  "port__ctl_del os sock ps =
    (case port_find_socket sock ps of
       (None, ps1) \<Rightarrow> Some (False, ps1)
     | (Some sid, ps1) \<Rightarrow> do { ps2 \<leftarrow> sock__delete os sid False ps1; Some (True, ps2) })"

definition port_ctl ::
  "nat \<Rightarrow> 'w win_os \<Rightarrow> int \<Rightarrow> u64 \<Rightarrow> epoll_event \<Rightarrow> 'w port_state \<Rightarrow> (bool \<times> 'w port_state) option" where
  "port_ctl layers os opr sock ev ps =
    (if opr = 1 then port__ctl_add layers os sock ev ps
     else if opr = 2 then port__ctl_mod os sock ev ps
     else if opr = 3 then port__ctl_del os sock ps
     else Some (False, return_set_error ''ERROR_INVALID_PARAMETER'' ps))"

section \<open>The epoll interface\<close>

text \<open>
  The tree of open ports by handle. A call takes a reference to its port under
  the tree's lock and drops it at the end, so a port is not freed under a call
  (theory \<^theory_text>\<open>WepollReflock\<close>); within one step the count returns to where it was.
\<close>

record 'w epoll_global =
  eg_ports :: "(u64 \<times> 'w port_state) list"
  eg_env :: "'w env"

definition err_check_handle :: "'w win_os \<Rightarrow> u64 \<Rightarrow> 'w epoll_global \<Rightarrow> 'w epoll_global" where
  "err_check_handle os h g =
    (if h = INVALID_HANDLE then g\<lparr> eg_env := err_set_win_error ''ERROR_INVALID_HANDLE'' (eg_env g) \<rparr>
     else case wo_handle_info os h (en_world (eg_env g)) of
       (Inl err, w) \<Rightarrow> g\<lparr> eg_env := err_map_win_error (sys_fail err ((eg_env g)\<lparr> en_world := w \<rparr>)) \<rparr>
     | (Inr _, w) \<Rightarrow> g\<lparr> eg_env := (eg_env g)\<lparr> en_world := w \<rparr> \<rparr>)"

definition set_error :: "string \<Rightarrow> 'w epoll_global \<Rightarrow> 'w epoll_global" where
  "set_error e g = g\<lparr> eg_env := err_set_win_error e (eg_env g) \<rparr>"

text \<open>Running an operation on an open port, and storing the port and the environment back.\<close>

definition enter_port :: "'w epoll_global \<Rightarrow> 'w port_state \<Rightarrow> 'w port_state" where
  "enter_port g ps = ps\<lparr> ps_env := eg_env g \<rparr>"

definition leave_port :: "u64 \<Rightarrow> 'w port_state \<Rightarrow> 'w epoll_global \<Rightarrow> 'w epoll_global" where
  "leave_port h ps g = g\<lparr> eg_ports := AList.update h ps (eg_ports g), eg_env := ps_env ps \<rparr>"

definition epoll__create :: "'w win_os \<Rightarrow> 'w epoll_global \<Rightarrow> (u64 \<times> 'w epoll_global) option" where
  "epoll__create os g =
    (case port_new os (eg_env g) of
       (None, e) \<Rightarrow> Some (0, g\<lparr> eg_env := e \<rparr>)
     | (Some (h, ps), e) \<Rightarrow>
         (if map_of (eg_ports g) h \<noteq> None
          then do { ps1 \<leftarrow> port_delete os ps; Some (0, set_error ''ERROR_ALREADY_EXISTS'' (g\<lparr> eg_env := ps_env ps1 \<rparr>)) }
          else Some (h, leave_port h ps (g\<lparr> eg_env := e \<rparr>))))"

definition epoll_create :: "'w win_os \<Rightarrow> int \<Rightarrow> 'w epoll_global \<Rightarrow> (u64 \<times> 'w epoll_global) option" where
  "epoll_create os n g =
    (if n \<le> 0 then Some (0, set_error ''ERROR_INVALID_PARAMETER'' g) else epoll__create os g)"

definition epoll_create1 :: "'w win_os \<Rightarrow> int \<Rightarrow> 'w epoll_global \<Rightarrow> (u64 \<times> 'w epoll_global) option" where
  "epoll_create1 os fl g =
    (if fl \<noteq> 0 then Some (0, set_error ''ERROR_INVALID_PARAMETER'' g) else epoll__create os g)"

definition epoll_close :: "'w win_os \<Rightarrow> u64 \<Rightarrow> 'w epoll_global \<Rightarrow> (int \<times> 'w epoll_global) option" where
  "epoll_close os h g =
    (case map_of (eg_ports g) h of
       None \<Rightarrow> Some (-1, err_check_handle os h (set_error ''ERROR_INVALID_PARAMETER'' g))
     | Some ps \<Rightarrow>
         do { (_, ps1) \<leftarrow> port_close os (enter_port g ps);
              ps2 \<leftarrow> port_delete os ps1;
              Some (0, g\<lparr> eg_ports := AList.delete h (eg_ports g), eg_env := ps_env ps2 \<rparr>) })"

definition epoll_ctl ::
  "nat \<Rightarrow> 'w win_os \<Rightarrow> u64 \<Rightarrow> int \<Rightarrow> u64 \<Rightarrow> epoll_event \<Rightarrow> 'w epoll_global \<Rightarrow> (int \<times> 'w epoll_global) option" where
  "epoll_ctl layers os h opr sock ev g =
    (let fail = (\<lambda>g. Some (-1, err_check_handle os sock (err_check_handle os h g)))
     in case map_of (eg_ports g) h of
          None \<Rightarrow> fail (set_error ''ERROR_INVALID_PARAMETER'' g)
        | Some ps \<Rightarrow>
            do { (ok, ps1) \<leftarrow> port_ctl layers os opr sock ev (enter_port g ps);
                 if ok then Some (0, leave_port h ps1 g) else fail (leave_port h ps1 g) })"

definition epoll_wait ::
  "nat \<Rightarrow> 'w win_os \<Rightarrow> u64 \<Rightarrow> int \<Rightarrow> int \<Rightarrow> 'w epoll_global
   \<Rightarrow> (epoll_event list option \<times> 'w epoll_global) option" where
  "epoll_wait fuel os h maxevents timeout g =
    (if maxevents \<le> 0 then Some (None, set_error ''ERROR_INVALID_PARAMETER'' g)
     else case map_of (eg_ports g) h of
       None \<Rightarrow> Some (None, err_check_handle os h (set_error ''ERROR_INVALID_PARAMETER'' g))
     | Some ps \<Rightarrow>
         do { (r, ps1) \<leftarrow> port_wait fuel os maxevents timeout (enter_port g ps);
              Some (if r = None then (None, err_check_handle os h (leave_port h ps1 g))
                    else (r, leave_port h ps1 g)) })"

end
