(* ===== verification/WepollInv.thy ===== *)
theory WepollInv
  imports WepollEpoll
begin

text \<open>
  The invariant of a port. Its parts: the tree holds exactly the sockets that are
  not being deleted; the update queue holds registered sockets only, the deleted
  queue exactly the ones being deleted; the size of a poll group is the number of
  its sockets; and no interest is lost, that is, every registered socket is either
  queued for renewal or its outstanding request is cancelled or covers all the
  events its user asked for. From it no assertion of the code fails and no freed
  object is used.
\<close>

section \<open>Fields that the environment does not touch\<close>

lemma on_env_fields [simp]:
  "ps_iocp (on_env f ps) = ps_iocp ps" "ps_tree (on_env f ps) = ps_tree ps"
  "ps_update (on_env f ps) = ps_update ps" "ps_deleted (on_env f ps) = ps_deleted ps"
  "ps_groups (on_env f ps) = ps_groups ps" "ps_active (on_env f ps) = ps_active ps"
  "ps_socks (on_env f ps) = ps_socks ps" "ps_group (on_env f ps) = ps_group ps"
  "ps_fresh (on_env f ps) = ps_fresh ps"
  by (simp_all add: on_env_def)

lemmas env_defs = set_world_def return_set_error_def return_map_error_def

section \<open>The invariant\<close>

definition members :: "'w port_state \<Rightarrow> nat \<Rightarrow> nat set" where
  "members ps gid = {sid. \<exists>s. ps_socks ps sid = Some s \<and> ss_group s = gid}"

definition tree_inv :: "'w port_state \<Rightarrow> bool" where
  "tree_inv ps \<longleftrightarrow> distinct (map fst (ps_tree ps)) \<and> distinct (map snd (ps_tree ps))
     \<and> (\<forall>sid. sid \<in> snd ` set (ps_tree ps) \<longleftrightarrow> (\<exists>s. ps_socks ps sid = Some s \<and> \<not> ss_delete_pending s))
     \<and> distinct (ps_update ps) \<and> set (ps_update ps) \<subseteq> snd ` set (ps_tree ps)
     \<and> distinct (ps_deleted ps)
     \<and> (\<forall>sid. sid \<in> set (ps_deleted ps) \<longleftrightarrow> (\<exists>s. ps_socks ps sid = Some s \<and> ss_delete_pending s))"

text \<open>\<^theory_text>\<open>extra\<close> is a group that counts a socket not yet in it.\<close>

definition group_inv :: "nat option \<Rightarrow> 'w port_state \<Rightarrow> bool" where
  "group_inv extra ps \<longleftrightarrow> distinct (ps_groups ps)
     \<and> (\<forall>gid. gid \<in> set (ps_groups ps) \<longleftrightarrow> ps_group ps gid \<noteq> None)
     \<and> finite {sid. ps_socks ps sid \<noteq> None}
     \<and> (\<forall>gid g. ps_group ps gid = Some g \<longrightarrow>
          pg_size g = card (members ps gid) + (if extra = Some gid then 1 else 0) \<and> pg_size g \<le> max_group_size)
     \<and> (\<forall>sid s. ps_socks ps sid = Some s \<longrightarrow> ps_group ps (ss_group s) \<noteq> None)
     \<and> (\<forall>n\<ge>ps_fresh ps. ps_socks ps n = None \<and> ps_group ps n = None)"

definition covered :: "sock_state \<Rightarrow> bool" where
  "covered s \<longleftrightarrow> (case ss_poll_status s of Poll_Idle \<Rightarrow> False | Poll_Cancelled \<Rightarrow> True
     | Poll_Pending \<Rightarrow> ss_user_events s AND known_epoll_events AND NOT (ss_pending_events s) = 0)"

text \<open>\<^theory_text>\<open>X\<close> are sockets an operation is in the middle of changing.\<close>

definition sock_ok :: "'w port_state \<Rightarrow> nat \<Rightarrow> sock_state \<Rightarrow> bool" where
  "sock_ok ps sid s \<longleftrightarrow> (if ss_delete_pending s then ss_poll_status s \<noteq> Poll_Idle
     else sid \<in> set (ps_update ps) \<or> covered s)"

definition interest_inv :: "nat set \<Rightarrow> 'w port_state \<Rightarrow> bool" where
  "interest_inv X ps \<longleftrightarrow> (\<forall>sid s. ps_socks ps sid = Some s \<longrightarrow> sid \<notin> X \<longrightarrow> sock_ok ps sid s)"

definition inv :: "nat set \<Rightarrow> nat option \<Rightarrow> 'w port_state \<Rightarrow> bool" where
  "inv X extra ps \<longleftrightarrow> tree_inv ps \<and> group_inv extra ps \<and> interest_inv X ps"

abbreviation port_inv :: "'w port_state \<Rightarrow> bool" where "port_inv ps \<equiv> inv {} None ps"

lemmas inv_defs = inv_def tree_inv_def group_inv_def interest_inv_def sock_ok_def members_def

lemma group_inv_same:
  "ps_groups ps' = ps_groups ps \<Longrightarrow> ps_group ps' = ps_group ps \<Longrightarrow> ps_socks ps' = ps_socks ps
   \<Longrightarrow> ps_fresh ps' = ps_fresh ps \<Longrightarrow> group_inv E ps' = group_inv E ps"
  by (simp add: group_inv_def members_def)

lemma tree_inv_same:
  "ps_tree ps' = ps_tree ps \<Longrightarrow> ps_update ps' = ps_update ps \<Longrightarrow> ps_deleted ps' = ps_deleted ps
   \<Longrightarrow> ps_socks ps' = ps_socks ps \<Longrightarrow> tree_inv ps' = tree_inv ps"
  by (simp add: tree_inv_def)

lemma interest_inv_same:
  "ps_update ps' = ps_update ps \<Longrightarrow> ps_socks ps' = ps_socks ps \<Longrightarrow> interest_inv X ps' = interest_inv X ps"
  by (simp add: interest_inv_def sock_ok_def)

lemma inv_on_env [simp]: "inv X E (on_env f ps) = inv X E ps"
  unfolding inv_def
  by (intro arg_cong2 [where f = conj] group_inv_same tree_inv_same interest_inv_same) simp_all

lemma inv_env [simp]:
  "inv X E (set_world w ps) = inv X E ps" "inv X E (return_set_error e ps) = inv X E ps"
  "inv X E (return_map_error ps) = inv X E ps"
  by (simp_all add: env_defs)

lemma env_fields [simp]:
  "ps_socks (set_world w ps) = ps_socks ps" "ps_socks (return_set_error e ps) = ps_socks ps"
  "ps_group (set_world w ps) = ps_group ps" "ps_group (return_set_error e ps) = ps_group ps"
  "ps_groups (set_world w ps) = ps_groups ps" "ps_groups (return_set_error e ps) = ps_groups ps"
  "ps_iocp (set_world w ps) = ps_iocp ps" "ps_iocp (return_set_error e ps) = ps_iocp ps"
  "ps_tree (set_world w ps) = ps_tree ps" "ps_tree (return_set_error e ps) = ps_tree ps"
  "ps_update (set_world w ps) = ps_update ps" "ps_update (return_set_error e ps) = ps_update ps"
  "ps_deleted (set_world w ps) = ps_deleted ps" "ps_deleted (return_set_error e ps) = ps_deleted ps"
  "ps_fresh (set_world w ps) = ps_fresh ps" "ps_fresh (return_set_error e ps) = ps_fresh ps"
  "ps_active (set_world w ps) = ps_active ps" "ps_active (return_set_error e ps) = ps_active ps"
  by (simp_all add: env_defs)

lemma env_fields_map [simp]:
  "ps_socks (return_map_error ps) = ps_socks ps" "ps_iocp (return_map_error ps) = ps_iocp ps"
  "ps_tree (return_map_error ps) = ps_tree ps" "ps_update (return_map_error ps) = ps_update ps"
  "ps_deleted (return_map_error ps) = ps_deleted ps" "ps_active (return_map_error ps) = ps_active ps"
  "ps_groups (return_map_error ps) = ps_groups ps" "ps_group (return_map_error ps) = ps_group ps"
  by (simp_all add: env_defs)

lemma new_port_inv: "port_inv (new_port_state h e)"
  by (simp add: inv_defs new_port_state_def)

lemma inv_treeD:
  assumes "inv X E ps" "ps_socks ps sid = Some s"
  shows "sid \<in> snd ` set (ps_tree ps) \<longleftrightarrow> \<not> ss_delete_pending s"
    "sid \<in> set (ps_deleted ps) \<longleftrightarrow> ss_delete_pending s"
    "sid \<in> set (ps_update ps) \<Longrightarrow> \<not> ss_delete_pending s"
    "\<exists>g. ps_group ps (ss_group s) = Some g"
proof -
  show 1: "sid \<in> snd ` set (ps_tree ps) \<longleftrightarrow> \<not> ss_delete_pending s"
    and "sid \<in> set (ps_deleted ps) \<longleftrightarrow> ss_delete_pending s"
    using assms by (simp_all add: inv_def tree_inv_def)
  show "sid \<in> set (ps_update ps) \<Longrightarrow> \<not> ss_delete_pending s"
    using assms(1) 1 by (auto simp: inv_def tree_inv_def)
  show "\<exists>g. ps_group ps (ss_group s) = Some g" using assms by (auto simp: inv_def group_inv_def)
qed

lemma inv_live:
  assumes "inv X E ps"
  shows "sid \<in> set (ps_update ps) \<Longrightarrow> \<exists>s. ps_socks ps sid = Some s \<and> \<not> ss_delete_pending s"
    "(k, sid) \<in> set (ps_tree ps) \<Longrightarrow> \<exists>s. ps_socks ps sid = Some s \<and> \<not> ss_delete_pending s"
    "sid \<in> set (ps_deleted ps) \<Longrightarrow> \<exists>s. ps_socks ps sid = Some s \<and> ss_delete_pending s"
proof -
  have t: "\<And>sid. sid \<in> snd ` set (ps_tree ps) \<longleftrightarrow> (\<exists>s. ps_socks ps sid = Some s \<and> \<not> ss_delete_pending s)"
    "set (ps_update ps) \<subseteq> snd ` set (ps_tree ps)"
    "\<And>sid. sid \<in> set (ps_deleted ps) \<longleftrightarrow> (\<exists>s. ps_socks ps sid = Some s \<and> ss_delete_pending s)"
    using assms by (simp_all add: inv_def tree_inv_def)
  show "sid \<in> set (ps_update ps) \<Longrightarrow> \<exists>s. ps_socks ps sid = Some s \<and> \<not> ss_delete_pending s"
    using t(1,2) by blast
  show "(k, sid) \<in> set (ps_tree ps) \<Longrightarrow> \<exists>s. ps_socks ps sid = Some s \<and> \<not> ss_delete_pending s"
    using t(1) by (metis image_eqI snd_conv)
  show "sid \<in> set (ps_deleted ps) \<Longrightarrow> \<exists>s. ps_socks ps sid = Some s \<and> ss_delete_pending s" using t(3) by blast
qed

section \<open>Elementary changes\<close>

lemma inv_mono: "inv X E ps \<Longrightarrow> X \<subseteq> Y \<Longrightarrow> inv Y E ps"
  by (auto simp: inv_def interest_inv_def)

lemma inv_restore:
  assumes "inv (insert sid X) E ps" "\<And>s. ps_socks ps sid = Some s \<Longrightarrow> sock_ok ps sid s"
  shows "inv X E ps"
  using assms by (auto simp: inv_def interest_inv_def)

lemma upd_sock_fields [simp]:
  "ps_tree (upd_sock sid f ps) = ps_tree ps" "ps_update (upd_sock sid f ps) = ps_update ps"
  "ps_deleted (upd_sock sid f ps) = ps_deleted ps" "ps_groups (upd_sock sid f ps) = ps_groups ps"
  "ps_group (upd_sock sid f ps) = ps_group ps" "ps_fresh (upd_sock sid f ps) = ps_fresh ps"
  "ps_iocp (upd_sock sid f ps) = ps_iocp ps" "ps_active (upd_sock sid f ps) = ps_active ps"
  "ps_socks (upd_sock sid f ps) sid = map_option f (ps_socks ps sid)"
  "other \<noteq> sid \<Longrightarrow> ps_socks (upd_sock sid f ps) other = ps_socks ps other"
  "ps_env (upd_sock sid f ps) = ps_env ps"
  by (simp_all add: upd_sock_def)

lemma inv_upd_sock:
  assumes "\<And>s. ss_group (f s) = ss_group s \<and> ss_delete_pending (f s) = ss_delete_pending s"
    and "inv X E ps"
  shows "inv (insert sid X) E (upd_sock sid f ps)"
proof -
  have g: "(\<exists>s. ps_socks (upd_sock sid f ps) n = Some s \<and> P (ss_group s) (ss_delete_pending s))
      \<longleftrightarrow> (\<exists>s. ps_socks ps n = Some s \<and> P (ss_group s) (ss_delete_pending s))" for n P
    using assms(1) by (cases "n = sid") auto
  have m: "members (upd_sock sid f ps) gid = members ps gid" for gid
    using g [of _ "\<lambda>a b. a = gid"] by (simp add: members_def)
  have d: "ps_socks (upd_sock sid f ps) n = None \<longleftrightarrow> ps_socks ps n = None" for n by (cases "n = sid") auto
  have all: "(\<forall>n s. ps_socks (upd_sock sid f ps) n = Some s \<longrightarrow> ps_group ps (ss_group s) \<noteq> None)
      \<longleftrightarrow> (\<forall>n s. ps_socks ps n = Some s \<longrightarrow> ps_group ps (ss_group s) \<noteq> None)"
    (is "?L \<longleftrightarrow> ?R")
  proof -
    have "?L \<longleftrightarrow> (\<forall>n. \<not> (\<exists>s. ps_socks (upd_sock sid f ps) n = Some s \<and> ps_group ps (ss_group s) = None))" by auto
    also have "\<dots> \<longleftrightarrow> (\<forall>n. \<not> (\<exists>s. ps_socks ps n = Some s \<and> ps_group ps (ss_group s) = None))"
      by (simp only: g [of _ "\<lambda>a b. ps_group ps a = None"])
    also have "\<dots> \<longleftrightarrow> ?R" by auto
    finally show ?thesis .
  qed
  have "group_inv E ps" using assms(2) by (simp add: inv_def)
  then have "group_inv E (upd_sock sid f ps)"
    unfolding group_inv_def upd_sock_fields(4,5,6) m d all .
  moreover have "tree_inv (upd_sock sid f ps)"
    using assms(2) g [of _ "\<lambda>a b. b"] g [of _ "\<lambda>a b. \<not> b"] by (simp add: inv_def tree_inv_def)
  moreover have "interest_inv (insert sid X) (upd_sock sid f ps)"
    unfolding interest_inv_def
  proof (intro allI impI)
    fix n s assume "ps_socks (upd_sock sid f ps) n = Some s" "n \<notin> insert sid X"
    then have "sock_ok ps n s" using assms(2) by (simp add: inv_def interest_inv_def)
    then show "sock_ok (upd_sock sid f ps) n s" by (simp add: sock_ok_def)
  qed
  ultimately show ?thesis by (simp add: inv_def)
qed

lemma inv_request:
  assumes "inv (insert sid X) E ps" "ps_socks ps sid = Some s" "\<not> ss_delete_pending s"
  shows "inv X E (port_request_socket_update sid ps)"
proof -
  have nd: "sid \<notin> set (ps_deleted ps)" "sid \<in> snd ` set (ps_tree ps)"
    using inv_treeD [OF assms(1,2)] assms(3) by simp_all
  let ?ps = "port_request_socket_update sid ps"
  have same: "ps_groups ?ps = ps_groups ps" "ps_group ?ps = ps_group ps" "ps_socks ?ps = ps_socks ps"
    "ps_fresh ?ps = ps_fresh ps" "ps_tree ?ps = ps_tree ps" "ps_deleted ?ps = ps_deleted ps"
    by (simp_all add: port_request_socket_update_def)
  have upd: "ps_update ?ps = (if sid \<in> set (ps_update ps) then ps_update ps else ps_update ps @ [sid])"
    using nd(1) by (simp add: port_request_socket_update_def sock_enqueued_def)
  have "tree_inv ?ps" using assms(1) nd(2) by (auto simp: inv_def tree_inv_def same upd)
  moreover have "group_inv E ?ps" using assms(1) by (simp add: inv_def group_inv_same [OF same(1-4)])
  moreover have "interest_inv (insert sid X) ?ps"
    using assms(1) by (auto simp: inv_def interest_inv_def sock_ok_def same upd)
  ultimately have "inv (insert sid X) E ?ps" by (simp add: inv_def)
  then show ?thesis
  proof (rule inv_restore)
    fix s' assume "ps_socks ?ps sid = Some s'"
    then have "s' = s" using assms(2) same(3) by simp
    then show "sock_ok ?ps sid s'" using assms(3) upd by (simp add: sock_ok_def)
  qed
qed

lemma inv_cancel_update:
  assumes "inv X E ps" "ps_socks ps sid = Some s" "\<not> ss_delete_pending s"
  shows "inv (insert sid X) E (port_cancel_socket_update sid ps)"
    and "ps_update (port_cancel_socket_update sid ps) = remove1 sid (ps_update ps)"
    and "ps_deleted (port_cancel_socket_update sid ps) = ps_deleted ps"
proof -
  have nd: "sid \<notin> set (ps_deleted ps)" using inv_treeD [OF assms(1,2)] assms(3) by simp
  show u: "ps_update (port_cancel_socket_update sid ps) = remove1 sid (ps_update ps)"
    and d: "ps_deleted (port_cancel_socket_update sid ps) = ps_deleted ps"
    using nd by (auto simp: port_cancel_socket_update_def sock_enqueued_def dequeue_sock_def remove1_idem)
  have rest: "ps_socks (port_cancel_socket_update sid ps) = ps_socks ps"
    "ps_tree (port_cancel_socket_update sid ps) = ps_tree ps" "ps_groups (port_cancel_socket_update sid ps) = ps_groups ps"
    "ps_group (port_cancel_socket_update sid ps) = ps_group ps" "ps_fresh (port_cancel_socket_update sid ps) = ps_fresh ps"
    by (simp_all add: port_cancel_socket_update_def dequeue_sock_def)
  let ?ps = "port_cancel_socket_update sid ps"
  have sub: "set (remove1 sid (ps_update ps)) \<subseteq> set (ps_update ps)" by (rule set_remove1_subset)
  have "distinct (ps_update ps)" using assms(1) by (simp add: inv_def tree_inv_def)
  then have "tree_inv ?ps" using assms(1) sub by (auto simp: inv_def tree_inv_def rest u d)
  moreover have "group_inv E ?ps" using assms(1) by (simp add: inv_def group_inv_same [OF rest(3,4,1,5)])
  moreover have "interest_inv (insert sid X) ?ps"
    using assms(1) by (auto simp: inv_def interest_inv_def sock_ok_def rest u)
  ultimately show "inv (insert sid X) E ?ps" by (simp add: inv_def)
qed

section \<open>Removing a socket\<close>

lemma tree_inv_free:
  assumes "tree_inv ps" "ps_tree ps' = filter (\<lambda>e. snd e \<noteq> sid) (ps_tree ps)"
    "ps_update ps' = remove1 sid (ps_update ps)" "ps_deleted ps' = remove1 sid (ps_deleted ps)"
    "ps_socks ps' = (ps_socks ps)(sid := None)"
  shows "tree_inv ps'"
proof -
  have d: "distinct (ps_update ps)" "distinct (ps_deleted ps)" "set (ps_update ps) \<subseteq> snd ` set (ps_tree ps)"
    using assms(1) by (simp_all add: tree_inv_def)
  have t: "snd ` set (ps_tree ps') = snd ` set (ps_tree ps) - {sid}" unfolding assms(2) by auto
  have "distinct (map fst (ps_tree ps'))" "distinct (map snd (ps_tree ps'))"
    using assms(1) unfolding assms(2) tree_inv_def by (simp_all add: distinct_map_filter)
  then show ?thesis using assms(1) d
    unfolding tree_inv_def t assms(3,4,5) by (auto simp: set_remove1_eq)
qed

lemma tree_inv_defer:
  assumes "tree_inv ps" "ps_tree ps' = filter (\<lambda>e. snd e \<noteq> sid) (ps_tree ps)"
    "ps_update ps' = remove1 sid (ps_update ps)" "ps_deleted ps' = ps_deleted ps @ [sid]" "sid \<notin> set (ps_deleted ps)"
    "ps_socks ps' = (ps_socks ps)(sid \<mapsto> s)" "ss_delete_pending s"
  shows "tree_inv ps'"
proof -
  have d: "distinct (ps_update ps)" "distinct (ps_deleted ps)" "set (ps_update ps) \<subseteq> snd ` set (ps_tree ps)"
    using assms(1) by (simp_all add: tree_inv_def)
  have t: "snd ` set (ps_tree ps') = snd ` set (ps_tree ps) - {sid}" unfolding assms(2) by auto
  have "distinct (map fst (ps_tree ps'))" "distinct (map snd (ps_tree ps'))"
    using assms(1) unfolding assms(2) tree_inv_def by (simp_all add: distinct_map_filter)
  then show ?thesis using assms(1,5,7) d
    unfolding tree_inv_def t assms(3,4,6) by (auto simp: set_remove1_eq)
qed

lemma group_invD:
  assumes "group_inv E ps"
  shows "distinct (ps_groups ps)" and "gid \<in> set (ps_groups ps) \<longleftrightarrow> ps_group ps gid \<noteq> None"
    and "finite {sid. ps_socks ps sid \<noteq> None}"
    and "ps_group ps gid = Some g \<Longrightarrow>
      pg_size g = card (members ps gid) + (if E = Some gid then 1 else 0) \<and> pg_size g \<le> max_group_size"
    and "ps_socks ps sid = Some s \<Longrightarrow> ps_group ps (ss_group s) \<noteq> None"
    and "n \<ge> ps_fresh ps \<Longrightarrow> ps_socks ps n = None \<and> ps_group ps n = None"
proof -
  have sizes: "\<forall>gid g. ps_group ps gid = Some g \<longrightarrow>
      pg_size g = card (members ps gid) + (if E = Some gid then 1 else 0) \<and> pg_size g \<le> max_group_size"
    using assms unfolding group_inv_def by (elim conjE) assumption
  then show "ps_group ps gid = Some g \<Longrightarrow>
      pg_size g = card (members ps gid) + (if E = Some gid then 1 else 0) \<and> pg_size g \<le> max_group_size"
    by blast
qed (use assms in \<open>simp_all add: group_inv_def\<close>)

lemma release_free:
  assumes g: "group_inv None ps" and s: "ps_socks ps sid = Some s"
  shows "\<exists>ps2. poll_group_release (ss_group s) ps = Some ps2 \<and> group_inv None (free_sock sid ps2)
    \<and> ps_tree ps2 = ps_tree ps \<and> ps_update ps2 = ps_update ps \<and> ps_deleted ps2 = ps_deleted ps
    \<and> ps_socks ps2 = ps_socks ps \<and> ps_iocp ps2 = ps_iocp ps \<and> ps_active ps2 = ps_active ps"
proof -
  let ?gid = "ss_group s"
  have G: "distinct (ps_groups ps)" "\<And>gid. gid \<in> set (ps_groups ps) \<longleftrightarrow> ps_group ps gid \<noteq> None"
    "finite {sid. ps_socks ps sid \<noteq> None}"
    "\<And>sid s. ps_socks ps sid = Some s \<Longrightarrow> ps_group ps (ss_group s) \<noteq> None"
    "\<And>n. n \<ge> ps_fresh ps \<Longrightarrow> ps_socks ps n = None \<and> ps_group ps n = None"
    using group_invD(1,2,3,5,6) [OF g] by simp_all
  have G4: "pg_size g = card (members ps gid) \<and> pg_size g \<le> max_group_size" if "ps_group ps gid = Some g" for gid g
    using group_invD(4) [OF g that] by (metis add_0_right option.distinct(1))
  obtain pg where pg: "ps_group ps ?gid = Some pg" using G(4) [OF s] by blast
  have fin: "finite (members ps gid)" for gid
    using G(3) by (rule rev_finite_subset) (auto simp: members_def)
  have "sid \<in> members ps ?gid" using s by (simp add: members_def)
  then have pos: "0 < card (members ps ?gid)" using fin card_gt_0_iff by blast
  have sz: "pg_size pg = card (members ps ?gid)" "pg_size pg \<le> max_group_size" using G4 [OF pg] by blast+
  let ?ps = "ps\<lparr> ps_group := (ps_group ps)(?gid \<mapsto> pg\<lparr> pg_size := pg_size pg - 1 \<rparr>),
      ps_groups := remove1 ?gid (ps_groups ps) @ [?gid] \<rparr>"
  have rel: "poll_group_release ?gid ps = Some ?ps"
    using pg pos sz by (auto simp: poll_group_release_def max_group_size_def)
  have mem: "members (free_sock sid ?ps) gid = members ps gid - {sid}" for gid
    by (auto simp: members_def free_sock_def)
  have other: "gid \<noteq> ?gid \<Longrightarrow> sid \<notin> members ps gid" for gid using s by (auto simp: members_def)
  have ids: "set (remove1 ?gid (ps_groups ps) @ [?gid]) = set (ps_groups ps)"
    using G(1,2) pg by (auto simp: set_remove1_eq)
  have "group_inv None (free_sock sid ?ps)"
    unfolding group_inv_def
  proof (intro conjI allI impI)
    show "distinct (ps_groups (free_sock sid ?ps))" using G(1) by (simp add: free_sock_def set_remove1_eq)
    have "{n. ps_socks (free_sock sid ?ps) n \<noteq> None} \<subseteq> {n. ps_socks ps n \<noteq> None}" by (auto simp: free_sock_def)
    then show "finite {n. ps_socks (free_sock sid ?ps) n \<noteq> None}" using G(3) finite_subset by blast
  next
    fix gid
    show "gid \<in> set (ps_groups (free_sock sid ?ps)) \<longleftrightarrow> ps_group (free_sock sid ?ps) gid \<noteq> None"
      using ids G(2) pg by (simp add: free_sock_def)
  next
    fix gid g' assume g': "ps_group (free_sock sid ?ps) gid = Some g'"
    have "pg_size g' = card (members (free_sock sid ?ps) gid) \<and> pg_size g' \<le> max_group_size"
    proof (cases "gid = ?gid")
      case True
      then have "g' = pg\<lparr> pg_size := pg_size pg - 1 \<rparr>" using g' by (simp add: free_sock_def)
      moreover have "card (members (free_sock sid ?ps) gid) = card (members ps ?gid) - 1"
        unfolding mem True using \<open>sid \<in> members ps ?gid\<close> by (rule card_Diff_singleton)
      ultimately show ?thesis using sz by simp
    next
      case False
      then have "ps_group ps gid = Some g'" using g' by (simp add: free_sock_def)
      moreover have "members (free_sock sid ?ps) gid = members ps gid" unfolding mem using other [OF False] by blast
      ultimately show ?thesis by (metis G4)
    qed
    then show "pg_size g' = card (members (free_sock sid ?ps) gid) + (if None = Some gid then 1 else 0)"
      "pg_size g' \<le> max_group_size" by simp_all
  next
    fix n s' assume "ps_socks (free_sock sid ?ps) n = Some s'"
    then have "ps_socks ps n = Some s'" by (auto simp: free_sock_def split: if_splits)
    then show "ps_group (free_sock sid ?ps) (ss_group s') \<noteq> None" using G(4) by (simp add: free_sock_def)
  next
    fix n assume "ps_fresh (free_sock sid ?ps) \<le> n"
    then show "ps_socks (free_sock sid ?ps) n = None" "ps_group (free_sock sid ?ps) n = None"
      using G(5) [of n] pg by (auto simp: free_sock_def)
  qed
  with rel show ?thesis by (intro exI [of _ ?ps]) simp
qed

lemma cancel_poll_effect:
  assumes iv: "inv X None ps" and s: "ps_socks ps sid = Some s" "ss_poll_status s = Poll_Pending"
  shows "\<exists>ok ps2 s2. sock__cancel_poll os sid ps = Some (ok, ps2) \<and> inv (insert sid X) None ps2
    \<and> ps_tree ps2 = ps_tree ps \<and> ps_update ps2 = ps_update ps \<and> ps_deleted ps2 = ps_deleted ps
    \<and> ps_iocp ps2 = ps_iocp ps \<and> ps_active ps2 = ps_active ps
    \<and> ps_socks ps2 = (ps_socks ps)(sid \<mapsto> s2) \<and> (if ok then s2 = s\<lparr> ss_poll_status := Poll_Cancelled, ss_pending_events := 0 \<rparr> else s2 = s)"
proof -
  obtain g where g: "ps_group ps (ss_group s) = Some g" using inv_treeD(4) [OF iv s(1)] by blast
  obtain ok ps1 where c: "afd_cancel_poll os (pg_handle g) sid (ss_status s) ps = (ok, ps1)" by fastforce
  have iv1: "inv X None ps1" and f1: "ps_tree ps1 = ps_tree ps" "ps_update ps1 = ps_update ps" "ps_deleted ps1 = ps_deleted ps"
    "ps_iocp ps1 = ps_iocp ps" "ps_active ps1 = ps_active ps" "ps_socks ps1 = ps_socks ps"
    using c iv by (auto simp: afd_cancel_poll_def split: if_splits prod.splits)
  let ?f = "\<lambda>s. s\<lparr> ss_poll_status := Poll_Cancelled, ss_pending_events := 0 \<rparr>"
  have iv2: "inv (insert sid X) None (upd_sock sid ?f ps1)" by (rule inv_upd_sock [OF _ iv1]) simp
  have soc: "ps_socks (upd_sock sid ?f ps1) = (ps_socks ps)(sid \<mapsto> ?f s)" using s(1) by (simp add: upd_sock_def f1)
  have call: "sock__cancel_poll os sid ps = Some (if ok then (True, upd_sock sid ?f ps1) else (False, ps1))"
    using s g c by (simp add: sock__cancel_poll_def)
  show ?thesis
  proof (cases ok)
    case True
    then show ?thesis using call iv2 soc f1 by (intro exI [of _ True] exI [of _ "upd_sock sid ?f ps1"] exI [of _ "?f s"]) simp
  next
    case False
    then show ?thesis using call inv_mono [OF iv1, of "insert sid X"] f1 s(1)
      by (intro exI [of _ False] exI [of _ ps1] exI [of _ s]) auto
  qed
qed

lemma free_sock_fields [simp]:
  "ps_tree (free_sock sid ps) = ps_tree ps" "ps_update (free_sock sid ps) = ps_update ps"
  "ps_deleted (free_sock sid ps) = ps_deleted ps" "ps_iocp (free_sock sid ps) = ps_iocp ps"
  "ps_active (free_sock sid ps) = ps_active ps" "ps_groups (free_sock sid ps) = ps_groups ps"
  "ps_group (free_sock sid ps) = ps_group ps" "ps_fresh (free_sock sid ps) = ps_fresh ps"
  by (simp_all add: free_sock_def)

lemma inv_free:
  assumes iv: "inv (insert sid X) None ps" and s: "ps_socks ps sid = Some s"
    and f: "ps_tree ps1 = filter (\<lambda>e. snd e \<noteq> sid) (ps_tree ps)" "ps_update ps1 = remove1 sid (ps_update ps)"
      "ps_deleted ps1 = remove1 sid (ps_deleted ps)" "ps_groups ps1 = ps_groups ps" "ps_group ps1 = ps_group ps"
      "ps_fresh ps1 = ps_fresh ps" "ps_socks ps1 = (ps_socks ps)(sid \<mapsto> s1)" "ss_group s1 = ss_group s"
  shows "\<exists>ps'. poll_group_release (ss_group s1) ps1 = Some ps' \<and> inv X None (free_sock sid ps')
    \<and> ps_tree ps' = ps_tree ps1 \<and> ps_update ps' = ps_update ps1 \<and> ps_deleted ps' = ps_deleted ps1
    \<and> ps_socks ps' = ps_socks ps1 \<and> ps_iocp ps' = ps_iocp ps1 \<and> ps_active ps' = ps_active ps1"
proof -
  have mem: "members ps1 gid = members ps gid" for gid using f(7,8) s by (auto simp: members_def)
  have dom: "ps_socks ps1 n = None \<longleftrightarrow> ps_socks ps n = None" for n using f(7) s by simp
  have refs: "(\<forall>n s. ps_socks ps1 n = Some s \<longrightarrow> ps_group ps (ss_group s) \<noteq> None)"
    using group_invD(5) [of None ps] iv f(7,8) s by (auto simp: inv_def split: if_splits)
  have "group_inv None ps" using iv by (simp add: inv_def)
  then have "group_inv None ps1" unfolding group_inv_def f(4,5,6) mem dom using refs by blast
  from release_free [OF this, of sid s1] f(7) obtain ps' where
    ps': "poll_group_release (ss_group s1) ps1 = Some ps'" "group_inv None (free_sock sid ps')"
    "ps_tree ps' = ps_tree ps1" "ps_update ps' = ps_update ps1" "ps_deleted ps' = ps_deleted ps1"
    "ps_socks ps' = ps_socks ps1" "ps_iocp ps' = ps_iocp ps1" "ps_active ps' = ps_active ps1" by auto
  have soc: "ps_socks (free_sock sid ps') = (ps_socks ps)(sid := None)" using ps'(6) f(7) by (simp add: free_sock_def)
  have "tree_inv ps" using iv by (simp add: inv_def)
  then have "tree_inv (free_sock sid ps')"
    by (rule tree_inv_free [OF _ _ _ _ soc]) (simp_all add: ps'(3,4,5) f(1,2,3))
  moreover have "interest_inv X (free_sock sid ps')"
    unfolding interest_inv_def soc
  proof (intro allI impI)
    fix n s' assume n: "((ps_socks ps)(sid := None)) n = Some s'" "n \<notin> X"
    then have "n \<noteq> sid" "sock_ok ps n s'" using iv by (auto simp: inv_def interest_inv_def split: if_splits)
    then show "sock_ok (free_sock sid ps') n s'" using ps'(4) f(2) by (simp add: sock_ok_def free_sock_def)
  qed
  ultimately have "inv X None (free_sock sid ps')" using ps'(2) by (simp add: inv_def)
  then show ?thesis using ps' by blast
qed

lemma inv_defer:
  assumes iv: "inv (insert sid X) None ps" and s: "ps_socks ps sid = Some s" and nd: "\<not> ss_delete_pending s"
    and f: "ps_tree ps1 = filter (\<lambda>e. snd e \<noteq> sid) (ps_tree ps)" "ps_update ps1 = remove1 sid (ps_update ps)"
      "ps_deleted ps1 = ps_deleted ps @ [sid]" "ps_groups ps1 = ps_groups ps" "ps_group ps1 = ps_group ps"
      "ps_fresh ps1 = ps_fresh ps" "ps_socks ps1 = (ps_socks ps)(sid \<mapsto> s1)" "ss_group s1 = ss_group s"
      "ss_delete_pending s1" "ss_poll_status s1 \<noteq> Poll_Idle"
  shows "inv X None ps1"
proof -
  have mem: "members ps1 gid = members ps gid" for gid using f(7,8) s by (auto simp: members_def)
  have dom: "ps_socks ps1 n = None \<longleftrightarrow> ps_socks ps n = None" for n using f(7) s by simp
  have refs: "(\<forall>n s. ps_socks ps1 n = Some s \<longrightarrow> ps_group ps (ss_group s) \<noteq> None)"
    using group_invD(5) [of None ps] iv f(7,8) s by (auto simp: inv_def split: if_splits)
  have "group_inv None ps" using iv by (simp add: inv_def)
  then have "group_inv None ps1" unfolding group_inv_def f(4,5,6) mem dom using refs by blast
  moreover have "tree_inv ps" "sid \<notin> set (ps_deleted ps)" using iv inv_treeD(2) [OF iv s] nd by (simp_all add: inv_def)
  then have "tree_inv ps1" using f by (intro tree_inv_defer [of ps ps1 sid s1]) simp_all
  moreover have "interest_inv X ps1"
    unfolding interest_inv_def f(7)
  proof (intro allI impI)
    fix n s' assume n: "((ps_socks ps)(sid \<mapsto> s1)) n = Some s'" "n \<notin> X"
    show "sock_ok ps1 n s'"
    proof (cases "n = sid")
      case True
      then show ?thesis using n(1) f(9,10) by (simp add: sock_ok_def)
    next
      case False
      then have "sock_ok ps n s'" using n iv by (simp add: inv_def interest_inv_def)
      then show ?thesis using False f(2) by (simp add: sock_ok_def)
    qed
  qed
  ultimately show ?thesis by (simp add: inv_def)
qed

text \<open>
  Deleting a live socket, from a state where only that socket may be out of
  order: the call succeeds, restores the invariant, and takes the socket out of
  the tree and the update queue. It is freed at once when forced or when no
  request is out.
\<close>

lemma sock__delete_inv:
  assumes iv: "inv (insert sid X) None ps" and s: "ps_socks ps sid = Some s"
  shows "\<exists>ps'. sock__delete os sid force ps = Some ps' \<and> inv X None ps'
    \<and> ps_iocp ps' = ps_iocp ps \<and> ps_active ps' = ps_active ps
    \<and> ps_tree ps' = filter (\<lambda>e. snd e \<noteq> sid) (ps_tree ps) \<and> ps_update ps' = remove1 sid (ps_update ps)
    \<and> (\<forall>n. n \<noteq> sid \<longrightarrow> ps_socks ps' n = ps_socks ps n)
    \<and> (force \<or> ss_poll_status s = Poll_Idle \<longrightarrow> ps_deleted ps' = remove1 sid (ps_deleted ps))"
proof (cases "ss_delete_pending s")
  case True
  have nt: "sid \<notin> snd ` set (ps_tree ps)" "sid \<in> set (ps_deleted ps)" "sid \<notin> set (ps_update ps)"
    using inv_treeD [OF iv s] True by auto
  have filt: "filter (\<lambda>e. snd e \<noteq> sid) (ps_tree ps) = ps_tree ps" using nt(1) by (auto intro: filter_True)
  show ?thesis
  proof (cases "force \<or> ss_poll_status s = Poll_Idle")
    case now: True
    let ?ps1 = "dequeue_sock sid ps"
    have rem: "port_remove_deleted_socket sid ps = ?ps1"
      using nt(2) by (simp add: port_remove_deleted_socket_def sock_enqueued_def)
    have "(ps_socks ps)(sid \<mapsto> s) = ps_socks ps" using s by auto
    then obtain ps' where ps': "poll_group_release (ss_group s) ?ps1 = Some ps'" "inv X None (free_sock sid ps')"
      "ps_tree ps' = ps_tree ?ps1" "ps_update ps' = ps_update ?ps1" "ps_deleted ps' = ps_deleted ?ps1"
      "ps_socks ps' = ps_socks ?ps1" "ps_iocp ps' = ps_iocp ?ps1" "ps_active ps' = ps_active ?ps1"
      using inv_free [OF iv s, of ?ps1 s] filt by (auto simp: dequeue_sock_def)
    have "sock__delete os sid force ps = Some (free_sock sid ps')"
      using s True now rem ps'(1) by (auto simp: sock__delete_def)
    then show ?thesis using ps' filt by (intro exI [of _ "free_sock sid ps'"]) (simp add: dequeue_sock_def free_sock_def)
  next
    case later: False
    then have "sock__delete os sid force ps = Some ps"
      using s True nt(2) by (simp add: sock__delete_def port_add_deleted_socket_def sock_enqueued_def)
    moreover have "inv X None ps"
      using later True s by (intro inv_restore [OF iv]) (auto simp: sock_ok_def)
    ultimately show ?thesis using filt nt(3) later by (intro exI [of _ ps]) (simp add: remove1_idem)
  qed
next
  case False
  obtain ps2 s2 where canc: "(if ss_poll_status s = Poll_Pending then map_option snd (sock__cancel_poll os sid ps) else Some ps) = Some ps2"
    and iv2: "inv (insert sid X) None ps2" and f2: "ps_tree ps2 = ps_tree ps" "ps_update ps2 = ps_update ps"
      "ps_deleted ps2 = ps_deleted ps" "ps_iocp ps2 = ps_iocp ps" "ps_active ps2 = ps_active ps"
      "ps_socks ps2 = (ps_socks ps)(sid \<mapsto> s2)"
    and s2: "ss_group s2 = ss_group s" "\<not> ss_delete_pending s2" "ss_poll_status s2 = Poll_Idle \<longleftrightarrow> ss_poll_status s = Poll_Idle"
  proof (cases "ss_poll_status s = Poll_Pending")
    case True
    from cancel_poll_effect [OF iv s True, of os] obtain ok q s2 where
      "sock__cancel_poll os sid ps = Some (ok, q)" "inv (insert sid (insert sid X)) None q"
      "ps_tree q = ps_tree ps" "ps_update q = ps_update ps" "ps_deleted q = ps_deleted ps"
      "ps_iocp q = ps_iocp ps" "ps_active q = ps_active ps" "ps_socks q = (ps_socks ps)(sid \<mapsto> s2)"
      "if ok then s2 = s\<lparr> ss_poll_status := Poll_Cancelled, ss_pending_events := 0 \<rparr> else s2 = s" by blast
    then show ?thesis using that [of q s2] True \<open>\<not> ss_delete_pending s\<close> by (cases ok) auto
  next
    case False
    have "(ps_socks ps)(sid \<mapsto> s) = ps_socks ps" using s by auto
    then show ?thesis using that [of ps s] False iv \<open>\<not> ss_delete_pending s\<close> by auto
  qed
  have s2': "ps_socks ps2 sid = Some s2" using f2(6) by simp
  note cu = inv_cancel_update [OF iv2 s2' s2(2)]
  let ?s1 = "s2\<lparr> ss_delete_pending := True \<rparr>"
  let ?q = "port_unregister_socket sid (port_cancel_socket_update sid ps2)"
  let ?ps1 = "upd_sock sid (\<lambda>s. s\<lparr> ss_delete_pending := True \<rparr>) ?q"
  have q: "ps_tree ?ps1 = filter (\<lambda>e. snd e \<noteq> sid) (ps_tree ps2)" "ps_update ?ps1 = remove1 sid (ps_update ps2)"
    "ps_deleted ?ps1 = ps_deleted ps2" "ps_groups ?ps1 = ps_groups ps2" "ps_group ?ps1 = ps_group ps2"
    "ps_fresh ?ps1 = ps_fresh ps2" "ps_socks ?ps1 = (ps_socks ps2)(sid \<mapsto> ?s1)" "ps_iocp ?ps1 = ps_iocp ps2"
    "ps_active ?ps1 = ps_active ps2"
    using cu s2' by (simp_all add: port_unregister_socket_def)
      (simp_all add: port_cancel_socket_update_def dequeue_sock_def upd_sock_def)
  have ndel: "sid \<notin> set (ps_deleted ps2)" using inv_treeD(2) [OF iv2 s2'] s2(2) by simp
  have notq: "\<not> sock_enqueued sid ?ps1"
    using ndel q iv2 by (simp add: sock_enqueued_def inv_def tree_inv_def)
  have start: "sock__delete os sid force ps =
      (if force \<or> ss_poll_status s2 = Poll_Idle
       then do { ps3 \<leftarrow> poll_group_release (ss_group ?s1) ?ps1; Some (free_sock sid ps3) }
       else Some (port_add_deleted_socket sid ?ps1))"
    using s False canc q(7) notq by (simp add: sock__delete_def port_remove_deleted_socket_def)
  show ?thesis
  proof (cases "force \<or> ss_poll_status s2 = Poll_Idle")
    case True
    from inv_free [OF iv2 s2', of ?ps1 ?s1] q ndel obtain ps' where
      ps': "poll_group_release (ss_group ?s1) ?ps1 = Some ps'" "inv X None (free_sock sid ps')"
      "ps_tree ps' = ps_tree ?ps1" "ps_update ps' = ps_update ?ps1" "ps_deleted ps' = ps_deleted ?ps1"
      "ps_socks ps' = ps_socks ?ps1" "ps_iocp ps' = ps_iocp ?ps1" "ps_active ps' = ps_active ?ps1"
      by (auto simp: remove1_idem)
    then show ?thesis using start True q f2 ndel
      by (intro exI [of _ "free_sock sid ps'"]) (simp add: free_sock_def remove1_idem)
  next
    case later: False
    have add: "port_add_deleted_socket sid ?ps1 = ?ps1\<lparr> ps_deleted := ps_deleted ?ps1 @ [sid] \<rparr>"
      using notq by (simp add: port_add_deleted_socket_def)
    have "inv X None (?ps1\<lparr> ps_deleted := ps_deleted ?ps1 @ [sid] \<rparr>)"
      using later q s2 by (intro inv_defer [OF iv2 s2' s2(2), of _ ?s1]) simp_all
    then show ?thesis using start later add q f2 s2(3)
      by (intro exI [of _ "?ps1\<lparr> ps_deleted := ps_deleted ?ps1 @ [sid] \<rparr>"]) simp
  qed
qed

section \<open>Adding a socket\<close>

lemma group_inv_resize:
  assumes g: "group_inv E ps" and pg: "ps_group ps gid = Some pg"
    and f: "ps_group ps' = (ps_group ps)(gid \<mapsto> pg')" "set (ps_groups ps') = set (ps_groups ps)"
      "distinct (ps_groups ps')" "ps_socks ps' = ps_socks ps" "ps_fresh ps' = ps_fresh ps"
    and sz: "pg_size pg' = card (members ps gid) + (if E' = Some gid then 1 else 0)" "pg_size pg' \<le> max_group_size"
    and oth: "\<And>n. n \<noteq> gid \<Longrightarrow> E' = Some n \<longleftrightarrow> E = Some n"
  shows "group_inv E' ps'"
  unfolding group_inv_def f(1,4,5)
proof (intro conjI allI impI)
  have mem: "members ps' n = members ps n" for n by (simp add: members_def f)
  note G = group_invD [OF g]
  show "distinct (ps_groups ps')" by (rule f(3))
  show "n \<in> set (ps_groups ps') \<longleftrightarrow> ((ps_group ps)(gid \<mapsto> pg')) n \<noteq> None" for n
    using G(2) pg f(2) by simp
  show "finite {sid. ps_socks ps sid \<noteq> None}" by (rule G(3))
  show "pg_size g' = card (members ps' n) + (if E' = Some n then 1 else 0)"
    if "((ps_group ps)(gid \<mapsto> pg')) n = Some g'" for n g'
  proof (cases "n = gid")
    case True
    then show ?thesis using that sz(1) by (simp add: mem)
  next
    case False
    then have "ps_group ps n = Some g'" using that by simp
    from G(4) [OF this] show ?thesis using oth [OF False] by (simp add: mem)
  qed
  show "pg_size g' \<le> max_group_size" if "((ps_group ps)(gid \<mapsto> pg')) n = Some g'" for n g'
    using that sz(2) conjunct2 [OF G(4), of n g'] by (cases "n = gid") simp_all
  show "((ps_group ps)(gid \<mapsto> pg')) (ss_group s) \<noteq> None" if "ps_socks ps sid = Some s" for sid s
    using G(5) [OF that] by simp
  show "ps_socks ps n = None" if "ps_fresh ps \<le> n" for n using G(6) [OF that] by simp
  show "((ps_group ps)(gid \<mapsto> pg')) n = None" if "ps_fresh ps \<le> n" for n
    using G(6) [OF that] pg by auto
qed

lemma afd_create_fields:
  assumes "afd_create_device_handle os iocp ps = (r, ps')"
  shows "\<exists>f. ps' = on_env f ps"
proof -
  have same: "\<And>f g. on_env f (on_env g ps) = on_env (f \<circ> g) ps" by (simp add: on_env_def)
  show ?thesis using assms
    by (auto simp: afd_create_device_handle_def env_defs Let_def same split: prod.splits sum.splits)
qed

lemma poll_group_new_inv:
  assumes iv: "inv X None ps" and h: "ps_iocp ps = Some h"
  shows "\<exists>r ps'. poll_group__new os ps = Some (r, ps') \<and> inv X None ps'
    \<and> (\<forall>gid. r = Some gid \<longrightarrow> (\<exists>pg. ps_group ps' gid = Some pg \<and> pg_size pg = 0))
    \<and> ps_tree ps' = ps_tree ps \<and> ps_update ps' = ps_update ps \<and> ps_deleted ps' = ps_deleted ps
    \<and> ps_socks ps' = ps_socks ps \<and> ps_iocp ps' = ps_iocp ps \<and> ps_active ps' = ps_active ps"
proof -
  obtain b w where b: "wo_malloc os (world ps) = (b, w)" by fastforce
  show ?thesis
  proof (cases b)
    case False
    then have "poll_group__new os ps = Some (None, return_set_error ''ERROR_NOT_ENOUGH_MEMORY'' (set_world w ps))"
      using h b by (simp add: poll_group__new_def port_get_iocp_handle_def)
    then show ?thesis using iv by simp
  next
    case True
    obtain r ps1 where afd: "afd_create_device_handle os h (set_world w ps) = (r, ps1)" by fastforce
    obtain e where e: "ps1 = on_env e (set_world w ps)" using afd_create_fields [OF afd] by blast
    show ?thesis
    proof (cases r)
      case None
      then show ?thesis using h b True afd iv
        by (simp add: poll_group__new_def port_get_iocp_handle_def e)
    next
      case (Some dev)
      let ?gid = "ps_fresh ps1"
      let ?ps' = "ps1\<lparr> ps_fresh := ?gid + 1, ps_groups := ps_groups ps1 @ [?gid],
          ps_group := (ps_group ps1)(?gid \<mapsto> \<lparr> pg_handle = dev, pg_size = 0 \<rparr>) \<rparr>"
      have call: "poll_group__new os ps = Some (Some ?gid, ?ps')"
        using h b True afd Some by (simp add: poll_group__new_def port_get_iocp_handle_def Let_def)
      have iv1: "inv X None ps1" using iv by (simp add: e)
      then have g1: "group_inv None ps1" by (simp add: inv_def)
      note G = group_invD [OF g1]
      have none: "members ps1 ?gid = {}" using G(5) G(6) [of ?gid] by (fastforce simp: members_def)
      have mem: "members ?ps' n = members ps1 n" for n by (simp add: members_def)
      have nin: "?gid \<notin> set (ps_groups ps1)" using G(2) G(6) [of ?gid] by auto
      have "group_inv None ?ps'"
        unfolding group_inv_def
      proof (intro conjI allI impI)
        show "distinct (ps_groups ?ps')" using G(1) nin by simp
        show "n \<in> set (ps_groups ?ps') \<longleftrightarrow> ps_group ?ps' n \<noteq> None" for n using G(2) [of n] by simp
        show "finite {sid. ps_socks ?ps' sid \<noteq> None}" using G(3) by simp
        show "pg_size g = card (members ?ps' n) + (if None = Some n then 1 else 0)"
          if "ps_group ?ps' n = Some g" for n g
        proof (cases "n = ?gid")
          case True
          then have "g = \<lparr> pg_handle = dev, pg_size = 0 \<rparr>" using that by simp
          then show ?thesis unfolding mem True none by simp
        next
          case False
          then have "ps_group ps1 n = Some g" using that by simp
          from conjunct1 [OF G(4), OF this] show ?thesis unfolding mem by simp
        qed
        show "pg_size g \<le> max_group_size" if "ps_group ?ps' n = Some g" for n g
          using that conjunct2 [OF G(4), of n g] by (cases "n = ?gid") auto
        show "ps_group ?ps' (ss_group s) \<noteq> None" if "ps_socks ?ps' sid = Some s" for sid s
          using that G(5) [of sid s] by simp
        show "ps_socks ?ps' n = None" "ps_group ?ps' n = None" if "ps_fresh ?ps' \<le> n" for n
          using that G(6) [of n] by simp_all
      qed
      then have "inv X None ?ps'"
        using iv1 tree_inv_same [of ?ps' ps1] interest_inv_same [of ?ps' ps1 X] by (simp add: inv_def)
      then show ?thesis using call by (intro exI [of _ "Some ?gid"] exI [of _ ?ps']) (simp add: e)
    qed
  qed
qed

lemma poll_group_acquire_inv:
  assumes iv: "inv X None ps" and h: "ps_iocp ps = Some h"
  shows "\<exists>r ps'. poll_group_acquire os ps = Some (r, ps') \<and> inv X r ps' \<and> (\<forall>gid. r = Some gid \<longrightarrow> ps_group ps' gid \<noteq> None)
    \<and> ps_tree ps' = ps_tree ps \<and> ps_update ps' = ps_update ps \<and> ps_deleted ps' = ps_deleted ps
    \<and> ps_socks ps' = ps_socks ps \<and> ps_iocp ps' = ps_iocp ps \<and> ps_active ps' = ps_active ps"
proof -
  let ?pick = "if ps_groups ps = [] then poll_group__new os ps
     else do { g \<leftarrow> ps_group ps (last (ps_groups ps));
               if max_group_size \<le> pg_size g then poll_group__new os ps else Some (Some (last (ps_groups ps)), ps) }"
  have "\<exists>r ps1. ?pick = Some (r, ps1) \<and> inv X None ps1
    \<and> (\<forall>gid. r = Some gid \<longrightarrow> (\<exists>pg. ps_group ps1 gid = Some pg \<and> pg_size pg < max_group_size))
    \<and> ps_tree ps1 = ps_tree ps \<and> ps_update ps1 = ps_update ps \<and> ps_deleted ps1 = ps_deleted ps
    \<and> ps_socks ps1 = ps_socks ps \<and> ps_iocp ps1 = ps_iocp ps \<and> ps_active ps1 = ps_active ps"
  proof (cases "ps_groups ps = [] \<or> (\<exists>g. ps_group ps (last (ps_groups ps)) = Some g \<and> max_group_size \<le> pg_size g)")
    case True
    then have "?pick = poll_group__new os ps" by auto
    then show ?thesis using poll_group_new_inv [OF iv h, of os] by (auto simp: max_group_size_def)
  next
    case False
    then have "last (ps_groups ps) \<in> set (ps_groups ps)" by simp
    then obtain g where "ps_group ps (last (ps_groups ps)) = Some g"
      using iv group_invD(2) [of None ps] by (auto simp: inv_def)
    then show ?thesis using False iv by auto
  qed
  then obtain r ps1 where pick: "?pick = Some (r, ps1)" and iv1: "inv X None ps1"
    and r: "\<And>gid. r = Some gid \<Longrightarrow> \<exists>pg. ps_group ps1 gid = Some pg \<and> pg_size pg < max_group_size"
    and f1: "ps_tree ps1 = ps_tree ps" "ps_update ps1 = ps_update ps" "ps_deleted ps1 = ps_deleted ps"
      "ps_socks ps1 = ps_socks ps" "ps_iocp ps1 = ps_iocp ps" "ps_active ps1 = ps_active ps" by blast
  show ?thesis
  proof (cases r)
    case None
    then show ?thesis using pick iv1 f1 by (simp add: poll_group_acquire_def)
  next
    case (Some gid)
    then obtain pg where pg: "ps_group ps1 gid = Some pg" "pg_size pg < max_group_size" using r by blast
    let ?n = "pg_size pg + 1"
    let ?ps2 = "ps1\<lparr> ps_group := (ps_group ps1)(gid \<mapsto> pg\<lparr> pg_size := ?n \<rparr>) \<rparr>"
    let ?ps3 = "if ?n = max_group_size then ?ps2\<lparr> ps_groups := gid # remove1 gid (ps_groups ?ps2) \<rparr> else ?ps2"
    have call: "poll_group_acquire os ps = Some (Some gid, ?ps3)"
      using pick Some pg(1) by (simp add: poll_group_acquire_def Let_def)
    have g1: "group_inv None ps1" using iv1 by (simp add: inv_def)
    have sz: "pg_size pg = card (members ps1 gid)" using group_invD(4) [OF g1 pg(1)] by simp
    have gid: "gid \<in> set (ps_groups ps1)" "distinct (ps_groups ps1)" using group_invD(1,2) [OF g1] pg(1) by auto
    have "group_inv (Some gid) ?ps3"
      using pg(2) sz gid by (intro group_inv_resize [OF g1 pg(1), of _ "pg\<lparr> pg_size := ?n \<rparr>"]) (auto simp: set_remove1_eq)
    moreover have "tree_inv ?ps3" "interest_inv X ?ps3"
      using iv1 tree_inv_same [of ?ps3 ps1] interest_inv_same [of ?ps3 ps1 X] by (simp_all add: inv_def)
    ultimately have "inv X (Some gid) ?ps3" by (simp add: inv_def)
    then show ?thesis using call f1 by (intro exI [of _ "Some gid"] exI [of _ ?ps3]) simp
  qed
qed

lemma release_unused:
  assumes iv: "inv X (Some gid) ps" and g: "ps_group ps gid \<noteq> None"
  shows "\<exists>ps'. poll_group_release gid ps = Some ps' \<and> inv X None ps'
    \<and> ps_iocp ps' = ps_iocp ps \<and> ps_active ps' = ps_active ps \<and> ps_tree ps' = ps_tree ps \<and> ps_socks ps' = ps_socks ps"
proof -
  obtain pg where pg: "ps_group ps gid = Some pg" using g by blast
  have gi: "group_inv (Some gid) ps" using iv by (simp add: inv_def)
  have sz: "pg_size pg = card (members ps gid) + 1" "pg_size pg \<le> max_group_size"
    using group_invD(4) [OF gi pg] by simp_all
  let ?pg = "pg\<lparr> pg_size := pg_size pg - 1 \<rparr>"
  let ?ps = "ps\<lparr> ps_group := (ps_group ps)(gid \<mapsto> ?pg), ps_groups := remove1 gid (ps_groups ps) @ [gid] \<rparr>"
  have "poll_group_release gid ps = Some ?ps"
    using pg sz by (simp add: poll_group_release_def max_group_size_def)
  moreover have "gid \<in> set (ps_groups ps)" "distinct (ps_groups ps)" using group_invD(1,2) [OF gi] pg by auto
  then have "group_inv None ?ps"
    using sz by (intro group_inv_resize [OF gi pg, of _ ?pg]) (auto simp: set_remove1_eq)
  then have "inv X None ?ps"
    using iv tree_inv_same [of ?ps ps] interest_inv_same [of ?ps ps X] by (simp add: inv_def)
  ultimately show ?thesis by (intro exI [of _ ?ps]) simp
qed

lemma base_socket_fields:
  "ws_get_base_socket n os sock ps = (r, ps') \<Longrightarrow> \<exists>f. ps' = on_env f ps"
proof (induction n arbitrary: sock ps)
  case 0
  have "ps = on_env (\<lambda>e. e) ps" by (simp add: on_env_def)
  with 0 show ?case by auto
next
  case (Suc n)
  have same: "\<And>f g p. on_env f (on_env g p) = on_env (f \<circ> g) p" by (simp add: on_env_def)
  obtain b ps1 where a1: "ws__ioctl_get_bsp_socket os sock sio_base_handle ps = (b, ps1)" by fastforce
  obtain b' ps2 where a2: "ws__ioctl_get_bsp_socket os sock sio_bsp_handle_poll ps1 = (b', ps2)" by fastforce
  have ioctl: "\<exists>f. q' = on_env f q" if "ws__ioctl_get_bsp_socket os sock code q = (b, q')" for code q b q'
    using that by (auto simp: ws__ioctl_get_bsp_socket_def env_defs same split: sum.splits prod.splits)
  obtain f1 where f1: "ps1 = on_env f1 ps" using ioctl [OF a1] by blast
  obtain f2 where f2: "ps2 = on_env f2 ps1" using ioctl [OF a2] by blast
  show ?case
  proof (cases "b = INVALID_HANDLE \<and> en_last_error (ps_env ps1) \<noteq> ''WSAENOTSOCK'' \<and> b' \<noteq> INVALID_HANDLE \<and> b' \<noteq> sock")
    case True
    then have "ws_get_base_socket n os b' ps2 = (r, ps')" using Suc.prems a1 a2 by (simp add: Let_def)
    then show ?thesis using Suc.IH f1 f2 same by metis
  next
    case False
    then have "ps' = ps1 \<or> (\<exists>e. ps' = return_set_error e ps1 \<or> ps' = return_set_error e ps2)"
      using Suc.prems a1 a2 by (auto simp: Let_def split: if_splits)
    then show ?thesis unfolding env_defs f1 f2 same by blast
  qed
qed

lemma sock_new_inv:
  assumes iv: "inv X None ps" and h: "ps_iocp ps = Some h"
  shows "\<exists>r ps'. sock_new layers os sock ps = Some (r, ps') \<and> ps_iocp ps' = ps_iocp ps \<and> ps_active ps' = ps_active ps
    \<and> (case r of None \<Rightarrow> inv X None ps' \<and> ps_tree ps' = ps_tree ps
       | Some sid \<Rightarrow> inv (insert sid X) None ps' \<and> (\<exists>s. ps_socks ps' sid = Some s \<and> \<not> ss_delete_pending s \<and> ss_pending_events s = 0)
          \<and> ps_tree ps' = (sock, sid) # ps_tree ps)"
proof (cases "sock = 0 \<or> sock = INVALID_HANDLE")
  case True
  then show ?thesis using iv by (auto simp: sock_new_def)
next
  case False
  obtain base ps1 where b: "ws_get_base_socket layers os sock ps = (base, ps1)" by fastforce
  obtain e where e: "ps1 = on_env e ps" using base_socket_fields [OF b] by blast
  show ?thesis
  proof (cases base)
    case None
    then show ?thesis using False b iv by (simp add: sock_new_def e)
  next
    case (Some bs)
    have iv1: "inv X None ps1" "ps_iocp ps1 = Some h" using iv h by (simp_all add: e)
    from poll_group_acquire_inv [OF iv1, of os] obtain r ps2 where
      acq: "poll_group_acquire os ps1 = Some (r, ps2)" and iv2: "inv X r ps2"
      and ex: "\<And>gid. r = Some gid \<Longrightarrow> ps_group ps2 gid \<noteq> None"
      and f2: "ps_tree ps2 = ps_tree ps" "ps_iocp ps2 = ps_iocp ps" "ps_active ps2 = ps_active ps" "ps_socks ps2 = ps_socks ps"
      "ps_update ps2 = ps_update ps" "ps_deleted ps2 = ps_deleted ps"
      by (auto simp: e)
    show ?thesis
    proof (cases r)
      case None
      then show ?thesis using False b Some acq iv2 f2 by (simp add: sock_new_def)
    next
      case (Some gid)
      obtain ok w where ok: "wo_malloc os (world ps2) = (ok, w)" by fastforce
      let ?sid = "ps_fresh ps2"
      let ?s = "new_sock bs gid"
      let ?ps3 = "(set_world w ps2)\<lparr> ps_fresh := ?sid + 1, ps_socks := (ps_socks ps2)(?sid \<mapsto> ?s) \<rparr>"
      have start: "sock_new layers os sock ps =
         (if \<not> ok then do { ps3 \<leftarrow> poll_group_release gid (return_set_error ''ERROR_NOT_ENOUGH_MEMORY'' (set_world w ps2));
                            Some (None, ps3) }
          else case port_register_socket ?sid sock ?ps3 of
             (True, ps4) \<Rightarrow> Some (Some ?sid, ps4)
           | (False, ps4) \<Rightarrow> do { ps5 \<leftarrow> poll_group_release gid (free_sock ?sid ps4); Some (None, ps5) })"
        using False b \<open>base = Some bs\<close> acq Some ok by (cases ok) (simp_all add: sock_new_def Let_def)
      have iv2': "inv X (Some gid) ps2" and gid: "ps_group ps2 gid \<noteq> None" using iv2 ex Some by simp_all
      have gi: "group_inv (Some gid) ps2" using iv2' by (simp add: inv_def)
      have fresh: "ps_socks ps2 ?sid = None" using group_invD(6) [OF gi, of ?sid] by simp
      consider (nomem) "\<not> ok" | (dup) ok "map_of (ps_tree ps) sock \<noteq> None" | (new) ok "map_of (ps_tree ps) sock = None"
        by blast
      then show ?thesis
      proof cases
        case nomem
        from release_unused [of X gid "return_set_error ''ERROR_NOT_ENOUGH_MEMORY'' (set_world w ps2)"] iv2' gid
        obtain ps' where "poll_group_release gid (return_set_error ''ERROR_NOT_ENOUGH_MEMORY'' (set_world w ps2)) = Some ps'"
          "inv X None ps'" "ps_iocp ps' = ps_iocp ps2" "ps_active ps' = ps_active ps2" "ps_tree ps' = ps_tree ps2" by auto
        then show ?thesis using start nomem f2 by simp
      next
        case dup
        let ?ps4 = "return_set_error ''ERROR_ALREADY_EXISTS'' ?ps3"
        have reg: "port_register_socket ?sid sock ?ps3 = (False, ?ps4)"
          using dup f2 by (simp add: port_register_socket_def)
        let ?ps5 = "free_sock ?sid ?ps4"
        have soc: "ps_socks ?ps5 = ps_socks ps2" using fresh by (auto simp: free_sock_def env_defs on_env_def)
        have fld: "ps_groups ?ps5 = ps_groups ps2" "ps_group ?ps5 = ps_group ps2" "ps_fresh ?ps5 = Suc ?sid"
          "ps_tree ?ps5 = ps_tree ps2" "ps_update ?ps5 = ps_update ps2" "ps_deleted ?ps5 = ps_deleted ps2"
          "ps_iocp ?ps5 = ps_iocp ps2" "ps_active ?ps5 = ps_active ps2"
          by (simp_all add: free_sock_def)
        have mem: "members ?ps5 n = members ps2 n" for n unfolding members_def soc by (rule refl)
        have "group_inv (Some gid) ?ps5"
          using gi unfolding group_inv_def fld(1,2,3) soc mem by (meson Suc_leD)
        then have "inv X (Some gid) ?ps5"
          using iv2' tree_inv_same [OF fld(4,5,6) soc] interest_inv_same [OF fld(5) soc] by (simp add: inv_def)
        from release_unused [OF this] gid fld obtain ps' where
          "poll_group_release gid ?ps5 = Some ps'" "inv X None ps'" "ps_iocp ps' = ps_iocp ps2"
          "ps_active ps' = ps_active ps2" "ps_tree ps' = ps_tree ps2" by auto
        then show ?thesis using start dup reg f2 by simp
      next
        case new
        let ?ps4 = "?ps3\<lparr> ps_tree := (sock, ?sid) # ps_tree ps2 \<rparr>"
        have reg: "port_register_socket ?sid sock ?ps3 = (True, ?ps4)"
          using new f2 by (simp add: port_register_socket_def)
        have soc: "ps_socks ?ps4 = (ps_socks ps2)(?sid \<mapsto> ?s)" by simp
        have ns: "\<not> ss_delete_pending ?s" "ss_group ?s = gid" "ss_pending_events ?s = 0" by (simp_all add: new_sock_def)
        have keys: "sock \<notin> fst ` set (ps_tree ps2)" using new f2 by (simp add: map_of_eq_None_iff)
        have T: "tree_inv ps2" using iv2' by (simp add: inv_def)
        then have nots: "?sid \<notin> snd ` set (ps_tree ps2)" "?sid \<notin> set (ps_deleted ps2)"
          using fresh by (simp_all add: tree_inv_def)
        have "tree_inv ?ps4"
          using T keys nots ns(1) unfolding tree_inv_def soc by auto
        moreover have "interest_inv (insert ?sid X) ?ps4"
          using iv2' by (auto simp: inv_def interest_inv_def sock_ok_def)
        moreover have "group_inv None ?ps4"
        proof -
          have m: "members ?ps4 n = (if n = gid then insert ?sid (members ps2 n) else members ps2 n)" for n
            using ns(2) fresh by (auto simp: members_def)
          note G = group_invD [OF gi]
          have fin: "finite (members ps2 gid)"
            using G(3) by (rule rev_finite_subset) (auto simp: members_def)
          have ni: "?sid \<notin> members ps2 gid" using fresh by (simp add: members_def)
          have dom: "{n. ps_socks ?ps4 n \<noteq> None} = insert ?sid {n. ps_socks ps2 n \<noteq> None}" by auto
          show ?thesis
            unfolding group_inv_def dom
          proof (intro conjI allI impI)
            show "pg_size g = card (members ?ps4 n) + (if None = Some n then 1 else 0)" if "ps_group ?ps4 n = Some g" for n g
            proof -
              have "ps_group ps2 n = Some g" using that by simp
              from conjunct1 [OF G(4), OF this] show ?thesis unfolding m using fin ni by auto
            qed
            show "pg_size g \<le> max_group_size" if "ps_group ?ps4 n = Some g" for n g
              using that conjunct2 [OF G(4), of n g] by simp
            show "ps_group ?ps4 (ss_group s) \<noteq> None" if "ps_socks ?ps4 n = Some s" for n s
              using that G(5) [of n s] ns(2) gid by (auto split: if_splits)
            show "ps_socks ?ps4 n = None" "ps_group ?ps4 n = None" if "ps_fresh ?ps4 \<le> n" for n
              using that G(6) [of n] by auto
          qed (use G(1,2,3) in simp_all)
        qed
        ultimately have "inv (insert ?sid X) None ?ps4" by (simp add: inv_def)
        then show ?thesis using start new reg f2 ns(1,3)
          by (intro exI [of _ "Some ?sid"] exI [of _ ?ps4]) simp
      qed
    qed
  qed
qed

end
