(* ===== verification/WepollSteps.thy ===== *)
theory WepollSteps
  imports WepollInv
begin

text \<open>
  The operations of a port keep its invariant, so none of them fails an assertion
  or touches a freed object: the changes of one socket, the loops over the queues,
  the control calls, the two halves of a wait, and the deletion of the port.
\<close>

section \<open>One socket\<close>

lemma sock_okI:
  "\<not> ss_delete_pending s \<Longrightarrow> sid \<in> set (ps_update ps) \<or> covered s \<Longrightarrow> sock_ok ps sid s"
  by (auto simp: sock_ok_def)

lemma covers_self: "(u::u32) AND k AND NOT u = 0"
  by (auto simp: bit_eq_iff bit_simps)

lemma wants_errors: "(e OR EPOLLERR OR EPOLLHUP) AND known_epoll_events \<noteq> 0"
proof
  assume "(e OR EPOLLERR OR EPOLLHUP) AND known_epoll_events = 0"
  then have "\<not> bit ((e OR EPOLLERR OR EPOLLHUP) AND known_epoll_events) 3" by simp
  then show False by (simp add: known_epoll_events_def poll_bits bit_simps)
qed

lemma sock_set_event_inv:
  assumes iv: "inv (insert sid X) None ps" and s: "ps_socks ps sid = Some s" "\<not> ss_delete_pending s"
    and queued: "sid \<in> set (ps_update ps) \<or> ss_poll_status s \<noteq> Poll_Idle \<or> ss_pending_events s = 0"
  shows "\<exists>ps'. sock_set_event sid ev ps = Some ps' \<and> inv X None ps' \<and> ps_iocp ps' = ps_iocp ps
    \<and> ps_active ps' = ps_active ps \<and> ps_tree ps' = ps_tree ps \<and> ps_deleted ps' = ps_deleted ps"
proof -
  let ?e = "ev_events ev OR EPOLLERR OR EPOLLHUP"
  let ?f = "\<lambda>s. s\<lparr> ss_user_events := ?e, ss_user_data := ev_udata ev \<rparr>"
  let ?ps1 = "upd_sock sid ?f ps"
  have iv1: "inv (insert sid X) None ?ps1" using inv_upd_sock [OF _ iv, of ?f sid] by simp
  have s1: "ps_socks ?ps1 sid = Some (?f s)" "\<not> ss_delete_pending (?f s)" using s by simp_all
  show ?thesis
  proof (cases "?e AND known_epoll_events AND NOT (ss_pending_events s) \<noteq> 0")
    case True
    then have "sock_set_event sid ev ps = Some (port_request_socket_update sid ?ps1)"
      using s by (simp add: sock_set_event_def)
    then show ?thesis using inv_request [OF iv1 s1] by (simp add: port_request_socket_update_def)
  next
    case False
    then have "sid \<in> set (ps_update ps) \<or> ss_poll_status s \<noteq> Poll_Idle"
      using queued wants_errors [of "ev_events ev"] by auto
    then have "sock_ok ?ps1 sid (?f s)"
      using False s(2) by (cases "ss_poll_status s") (auto simp: sock_ok_def covered_def)
    then have "inv X None ?ps1" using s(1) by (intro inv_restore [OF iv1]) auto
    moreover have "sock_set_event sid ev ps = Some ?ps1" using False s by (simp add: sock_set_event_def)
    ultimately show ?thesis by simp
  qed
qed

lemma settle_socket:
  assumes iv: "inv (insert sid X) None ps" and s: "ps_socks ps sid = Some s" "\<not> ss_delete_pending s" and c: "covered s"
  shows "inv X None (port_cancel_socket_update sid ps)
    \<and> ps_update (port_cancel_socket_update sid ps) = remove1 sid (ps_update ps)"
proof -
  note cu = inv_cancel_update [OF iv s]
  have "ps_socks (port_cancel_socket_update sid ps) = ps_socks ps"
    by (simp add: port_cancel_socket_update_def dequeue_sock_def)
  then have "inv X None (port_cancel_socket_update sid ps)"
    using cu(1) s c by (intro inv_restore [of sid X]) (simp_all add: sock_okI)
  with cu(2) show ?thesis by simp
qed

lemma cancel_update_fields [simp]:
  "ps_iocp (port_cancel_socket_update sid ps) = ps_iocp ps" "ps_active (port_cancel_socket_update sid ps) = ps_active ps"
  by (simp_all add: port_cancel_socket_update_def dequeue_sock_def)

lemma afd_poll_effect:
  "afd_poll os dev sid base events ps = (ok, ps')
   \<Longrightarrow> \<exists>f. ps' = on_env f (upd_sock sid (\<lambda>s. s\<lparr> ss_status := STATUS_PENDING \<rparr>) ps)"
  by (auto simp: afd_poll_def Let_def env_defs on_env_def split: prod.splits if_splits)


text \<open>
  Renewing a queued socket either succeeds and takes it off the update queue, or
  fails and leaves the queue as it was.
\<close>

lemma sock_update_inv:
  assumes iv: "inv {} None ps" and q: "sid \<in> set (ps_update ps)"
  shows "\<exists>ok ps'. sock_update os sid ps = Some (ok, ps') \<and> inv {} None ps'
    \<and> ps_iocp ps' = ps_iocp ps \<and> ps_active ps' = ps_active ps
    \<and> ps_update ps' = (if ok then remove1 sid (ps_update ps) else ps_update ps)"
proof -
  obtain s where s: "ps_socks ps sid = Some s" "\<not> ss_delete_pending s" using inv_live(1) [OF iv q] by blast
  have iv0: "inv (insert sid {}) None ps" by (rule inv_mono [OF iv]) simp
  let ?more = "ss_user_events s AND known_epoll_events AND NOT (ss_pending_events s)"
  show ?thesis
  proof (cases "ss_poll_status s")
    case Poll_Pending
    show ?thesis
    proof (cases "?more = 0")
      case True
      then have "covered s" using Poll_Pending by (simp add: covered_def)
      then show ?thesis using s Poll_Pending True settle_socket [OF iv0 s]
        by (intro exI [of _ True] exI [of _ "port_cancel_socket_update sid ps"]) (simp add: sock_update_def)
    next
      case False
      from cancel_poll_effect [OF iv s(1) Poll_Pending, of os] obtain ok ps2 s2 where
        c: "sock__cancel_poll os sid ps = Some (ok, ps2)" "inv (insert sid {}) None ps2"
        and f: "ps_update ps2 = ps_update ps" "ps_iocp ps2 = ps_iocp ps" "ps_active ps2 = ps_active ps"
        "ps_socks ps2 = (ps_socks ps)(sid \<mapsto> s2)"
        "if ok then s2 = s\<lparr> ss_poll_status := Poll_Cancelled, ss_pending_events := 0 \<rparr> else s2 = s" by blast
      have s2: "ps_socks ps2 sid = Some s2" "\<not> ss_delete_pending s2" using f(4,5) s by (auto split: if_splits)
      show ?thesis
      proof (cases ok)
        case True
        then have "covered s2" using f(5) by (simp add: covered_def)
        then show ?thesis using s Poll_Pending False True c(1) f settle_socket [OF c(2) s2]
          by (intro exI [of _ True] exI [of _ "port_cancel_socket_update sid ps2"]) (simp add: sock_update_def)
      next
        case fails: False
        have "inv {} None ps2"
          using s2 q f(1) by (intro inv_restore [OF c(2)]) (auto simp: sock_okI)
        then show ?thesis using s Poll_Pending False fails c(1) f
          by (intro exI [of _ False] exI [of _ ps2]) (simp add: sock_update_def)
      qed
    qed
  next
    case Poll_Cancelled
    then have "covered s" by (simp add: covered_def)
    then show ?thesis using s Poll_Cancelled settle_socket [OF iv0 s]
      by (intro exI [of _ True] exI [of _ "port_cancel_socket_update sid ps"]) (simp add: sock_update_def)
  next
    case Poll_Idle
    obtain g where g: "ps_group ps (ss_group s) = Some g" using inv_treeD(4) [OF iv s(1)] by blast
    let ?afd = "sock__epoll_events_to_afd_events (ss_user_events s)"
    let ?f1 = "\<lambda>s. s\<lparr> ss_handles := 1, ss_events := ?afd \<rparr>"
    let ?f2 = "\<lambda>s. s\<lparr> ss_status := STATUS_PENDING \<rparr>"
    obtain ok ps2 where p: "afd_poll os (pg_handle g) sid (ss_base s) ?afd (upd_sock sid ?f1 ps) = (ok, ps2)" by fastforce
    obtain e where e: "ps2 = on_env e (upd_sock sid ?f2 (upd_sock sid ?f1 ps))" using afd_poll_effect [OF p] by blast
    have iv1: "inv (insert sid {}) None (upd_sock sid ?f1 ps)" by (rule inv_upd_sock [OF _ iv]) simp
    have "inv (insert sid (insert sid {})) None (upd_sock sid ?f2 (upd_sock sid ?f1 ps))"
      by (rule inv_upd_sock [OF _ iv1]) simp
    then have iv2: "inv (insert sid {}) None ps2" by (simp add: e)
    have f: "ps_update ps2 = ps_update ps" "ps_iocp ps2 = ps_iocp ps" "ps_active ps2 = ps_active ps"
      "ps_socks ps2 sid = Some (?f2 (?f1 s))" by (simp_all add: e s)
    let ?f3 = "\<lambda>t. t\<lparr> ss_poll_status := Poll_Pending, ss_pending_events := ss_user_events t \<rparr>"
    let ?err = "en_last_error (ps_env ps2)"
    have start: "sock_update os sid ps =
       (if ok \<or> ?err = ''ERROR_IO_PENDING'' then Some (True, port_cancel_socket_update sid (upd_sock sid ?f3 ps2))
        else if ?err = ''ERROR_INVALID_HANDLE'' then do { ps3 \<leftarrow> sock__delete os sid False ps2; Some (True, ps3) }
        else Some (False, return_map_error ps2))"
      using s Poll_Idle g p by (simp add: sock_update_def Let_def)
    consider (out) "ok \<or> ?err = ''ERROR_IO_PENDING''"
      | (gone) "\<not> (ok \<or> ?err = ''ERROR_IO_PENDING'')" "?err = ''ERROR_INVALID_HANDLE''"
      | (fails) "\<not> (ok \<or> ?err = ''ERROR_IO_PENDING'')" "?err \<noteq> ''ERROR_INVALID_HANDLE''" by blast
    then show ?thesis
    proof cases
      case out
      let ?s3 = "?f3 (?f2 (?f1 s))"
      have "inv (insert sid (insert sid {})) None (upd_sock sid ?f3 ps2)" by (rule inv_upd_sock [OF _ iv2]) simp
      then have iv3: "inv (insert sid {}) None (upd_sock sid ?f3 ps2)" by simp
      have "covered ?s3" by (simp add: covered_def covers_self)
      moreover have "ps_socks (upd_sock sid ?f3 ps2) sid = Some ?s3" "\<not> ss_delete_pending ?s3" using f(4) s(2) by simp_all
      ultimately show ?thesis using start out f settle_socket [OF iv3]
        by (intro exI [of _ True] exI [of _ "port_cancel_socket_update sid (upd_sock sid ?f3 ps2)"]) simp
    next
      case gone
      from sock__delete_inv [OF iv2 f(4), of os False] obtain ps3 where "sock__delete os sid False ps2 = Some ps3"
        "inv {} None ps3" "ps_iocp ps3 = ps_iocp ps2" "ps_active ps3 = ps_active ps2"
        "ps_update ps3 = remove1 sid (ps_update ps2)" by blast
      then show ?thesis using start gone f by (intro exI [of _ True] exI [of _ ps3]) simp
    next
      case fails
      have "inv {} None ps2" using q f(1,4) s(2) by (intro inv_restore [OF iv2]) (auto simp: sock_okI)
      then show ?thesis using start fails f by (intro exI [of _ False] exI [of _ "return_map_error ps2"]) simp
    qed
  qed
qed


section \<open>The loops over the queues\<close>

lemma update_events_loop_inv:
  "inv {} None ps \<Longrightarrow> length (ps_update ps) \<le> n \<Longrightarrow>
   \<exists>ok ps'. update_events_loop n os ps = Some (ok, ps') \<and> inv {} None ps'
     \<and> ps_iocp ps' = ps_iocp ps \<and> ps_active ps' = ps_active ps \<and> (ok \<longrightarrow> ps_update ps' = [])"
proof (induction n arbitrary: ps)
  case 0
  then show ?case by (intro exI [of _ True]) simp
next
  case (Suc n)
  show ?case
  proof (cases "ps_update ps")
    case Nil
    then show ?thesis using Suc.prems(1) by (intro exI [of _ True]) simp
  next
    case (Cons sid q)
    then have "sid \<in> set (ps_update ps)" by simp
    from sock_update_inv [OF Suc.prems(1) this, of os] obtain ok ps1 where
      u: "sock_update os sid ps = Some (ok, ps1)" "inv {} None ps1" "ps_iocp ps1 = ps_iocp ps"
      "ps_active ps1 = ps_active ps" "ps_update ps1 = (if ok then remove1 sid (ps_update ps) else ps_update ps)" by blast
    show ?thesis
    proof (cases ok)
      case True
      then have "length (ps_update ps1) \<le> n" using u(5) Cons Suc.prems(2) by simp
      from Suc.IH [OF u(2) this] show ?thesis using u Cons True by simp
    next
      case False
      then show ?thesis using u Cons by (intro exI [of _ False]) simp
    qed
  qed
qed

lemma update_events_inv:
  "inv {} None ps \<Longrightarrow> \<exists>ok ps'. port__update_events os ps = Some (ok, ps') \<and> inv {} None ps'
     \<and> ps_iocp ps' = ps_iocp ps \<and> ps_active ps' = ps_active ps \<and> (ok \<longrightarrow> ps_update ps' = [])"
  unfolding port__update_events_def by (rule update_events_loop_inv) simp_all

lemma update_if_polling_inv:
  "inv {} None ps \<Longrightarrow> \<exists>ps'. port__update_events_if_polling os ps = Some ps' \<and> inv {} None ps'
     \<and> ps_iocp ps' = ps_iocp ps \<and> ps_active ps' = ps_active ps"
  using update_events_inv [of ps os] by (auto simp: port__update_events_if_polling_def)

text \<open>The sockets whose request the kernel still holds.\<close>

definition outstanding :: "'w port_state \<Rightarrow> nat set" where
  "outstanding ps = {sid. \<exists>s. ps_socks ps sid = Some s \<and> ss_poll_status s \<noteq> Poll_Idle}"

text \<open>What a completed request says about its socket.\<close>

definition request_closed :: "sock_state \<Rightarrow> bool" where
  "request_closed s \<longleftrightarrow> ss_status s \<noteq> STATUS_CANCELLED \<and> NT_SUCCESS (ss_status s) \<and> 1 \<le> ss_handles s
     \<and> has_flag (ss_events s) AFD_POLL_LOCAL_CLOSE"

definition reported_events :: "sock_state \<Rightarrow> u32" where
  "reported_events s =
    (if ss_status s = STATUS_CANCELLED then 0 else if \<not> NT_SUCCESS (ss_status s) then EPOLLERR
     else if ss_handles s < 1 then 0 else sock__afd_events_to_epoll_events (ss_events s))"

lemma sock_feed_event_eq:
  assumes "ps_socks ps sid = Some s"
  shows "sock_feed_event os sid ps =
    (let ps1 = upd_sock sid (\<lambda>s. s\<lparr> ss_poll_status := Poll_Idle, ss_pending_events := 0 \<rparr>) ps;
         ps2 = port_request_socket_update sid ps1; ee = reported_events s AND ss_user_events s
     in if ss_delete_pending s \<or> request_closed s then do { q \<leftarrow> sock__delete os sid False ps1; Some (None, q) }
        else Some (if ee = 0 then None else Some \<lparr> ev_events = ee, ev_udata = ss_user_data s \<rparr>,
                   if ee = 0 \<or> \<not> has_flag (ss_user_events s) EPOLLONESHOT then ps2
                   else upd_sock sid (\<lambda>s. s\<lparr> ss_user_events := 0 \<rparr>) ps2))"
  by (simp add: sock_feed_event_def assms request_closed_def reported_events_def Let_def)

lemma sock_feed_event_inv:
  assumes iv: "inv {} None ps" and o: "sid \<in> outstanding ps"
  shows "\<exists>ev ps'. sock_feed_event os sid ps = Some (ev, ps') \<and> inv {} None ps'
    \<and> ps_iocp ps' = ps_iocp ps \<and> ps_active ps' = ps_active ps \<and> (\<forall>n. n \<noteq> sid \<longrightarrow> ps_socks ps' n = ps_socks ps n)"
proof -
  obtain s where s: "ps_socks ps sid = Some s" using o by (auto simp: outstanding_def)
  let ?f = "\<lambda>s. s\<lparr> ss_poll_status := Poll_Idle, ss_pending_events := 0 \<rparr>"
  let ?ps1 = "upd_sock sid ?f ps"
  have iv1: "inv (insert sid {}) None ?ps1" by (rule inv_upd_sock [OF _ iv]) simp
  have s1: "ps_socks ?ps1 sid = Some (?f s)" using s by simp
  have same: "ps_socks ?ps1 n = ps_socks ps n" if "n \<noteq> sid" for n using that by simp
  have del: "\<exists>ps'. sock__delete os sid False ?ps1 = Some ps' \<and> inv {} None ps' \<and> ps_iocp ps' = ps_iocp ps
      \<and> ps_active ps' = ps_active ps \<and> (\<forall>n. n \<noteq> sid \<longrightarrow> ps_socks ps' n = ps_socks ps n)"
    using sock__delete_inv [OF iv1 s1, of os False] same by auto
  let ?ps2 = "port_request_socket_update sid ?ps1"
  have f2: "ps_iocp ?ps2 = ps_iocp ps" "ps_active ?ps2 = ps_active ps" "ps_socks ?ps2 = ps_socks ?ps1"
    by (simp_all add: port_request_socket_update_def)
  let ?o = "\<lambda>s. s\<lparr> ss_user_events := 0 \<rparr>"
  define ps2 where "ps2 events = (if events AND ss_user_events s = 0 \<or> \<not> has_flag (ss_user_events s) EPOLLONESHOT
      then ?ps2 else upd_sock sid ?o ?ps2)" for events
  have rep: "inv {} None (ps2 events) \<and> ps_iocp (ps2 events) = ps_iocp ps \<and> ps_active (ps2 events) = ps_active ps
      \<and> (\<forall>n. n \<noteq> sid \<longrightarrow> ps_socks (ps2 events) n = ps_socks ps n)" if nd: "\<not> ss_delete_pending s" for events
  proof -
    have iv2: "inv {} None ?ps2" using inv_request [OF iv1 s1] nd by simp
    have "ps_socks ?ps2 sid = Some (?f s)" using f2(3) s1 by simp
    moreover have "interest_inv {} ?ps2" using iv2 by (simp only: inv_def)
    ultimately have "sock_ok ?ps2 sid (?f s)" unfolding interest_inv_def by blast
    then have "sid \<in> set (ps_update ?ps2)" using nd by (simp add: sock_ok_def covered_def)
    then have "inv {} None (upd_sock sid ?o ?ps2)"
      using nd s f2(3) inv_upd_sock [OF _ iv2, of ?o sid] by (intro inv_restore [of sid "{}"]) (auto simp: sock_okI)
    then show ?thesis using iv2 f2 same by (simp add: ps2_def)
  qed
  show ?thesis
  proof (cases "ss_delete_pending s \<or> request_closed s")
    case True
    then show ?thesis using del sock_feed_event_eq [OF s, of os] by auto
  next
    case False
    have "\<exists>ev. sock_feed_event os sid ps = Some (ev, ps2 (reported_events s))"
      unfolding sock_feed_event_eq [OF s] ps2_def Let_def using False by simp
    then show ?thesis using rep [of "reported_events s"] False by blast
  qed
qed


lemma feed_events_inv:
  "inv {} None ps \<Longrightarrow> distinct sids \<Longrightarrow> set sids \<subseteq> outstanding ps \<Longrightarrow>
   \<exists>evs ps'. port__feed_events os sids ps = Some (evs, ps') \<and> inv {} None ps'
     \<and> ps_iocp ps' = ps_iocp ps \<and> ps_active ps' = ps_active ps"
proof (induction sids arbitrary: ps)
  case Nil
  then show ?case by simp
next
  case (Cons sid sids)
  then have "sid \<in> outstanding ps" by simp
  from sock_feed_event_inv [OF Cons.prems(1) this, of os] obtain ev ps1 where
    f: "sock_feed_event os sid ps = Some (ev, ps1)" "inv {} None ps1" "ps_iocp ps1 = ps_iocp ps"
    "ps_active ps1 = ps_active ps" "\<forall>n. n \<noteq> sid \<longrightarrow> ps_socks ps1 n = ps_socks ps n" by blast
  have "x \<in> outstanding ps1" if x: "x \<in> set sids" for x
  proof -
    have "ps_socks ps1 x = ps_socks ps x" using f(5) Cons.prems(2) x by (metis distinct.simps(2))
    moreover have "x \<in> outstanding ps" using Cons.prems(3) x by auto
    ultimately show ?thesis by (simp add: outstanding_def)
  qed
  then have "set sids \<subseteq> outstanding ps1" by blast
  from Cons.IH [OF f(2) _ this] Cons.prems(2) f show ?case by auto
qed

lemma kernel_complete_inv:
  assumes iv: "inv {} None ps"
  shows "inv {} None (kernel_complete c ps)"
proof -
  let ?f = "\<lambda>s. s\<lparr> ss_status := co_status c, ss_handles := co_handles c, ss_events := co_events c \<rparr>"
  have iv1: "inv (insert (co_sock c) {}) None (upd_sock (co_sock c) ?f ps)" by (rule inv_upd_sock [OF _ iv]) simp
  have "sock_ok (upd_sock (co_sock c) ?f ps) (co_sock c) (?f s)" if "ps_socks ps (co_sock c) = Some s" for s
  proof -
    have "covered (?f s) = covered s" by (cases "ss_poll_status s") (simp_all add: covered_def)
    moreover have "sock_ok ps (co_sock c) s" using iv that by (simp add: inv_def interest_inv_def)
    ultimately show ?thesis by (simp add: sock_ok_def)
  qed
  then show ?thesis unfolding kernel_complete_def by (intro inv_restore [OF iv1]) auto
qed

lemma kernel_complete_fields:
  "ps_iocp (kernel_complete c ps) = ps_iocp ps" "ps_active (kernel_complete c ps) = ps_active ps"
  "outstanding (kernel_complete c ps) = outstanding ps"
  by (auto simp: kernel_complete_def outstanding_def upd_sock_def)

lemma kernel_completions_inv:
  "inv {} None ps \<Longrightarrow> inv {} None (fold kernel_complete cs ps)
     \<and> ps_iocp (fold kernel_complete cs ps) = ps_iocp ps \<and> ps_active (fold kernel_complete cs ps) = ps_active ps
     \<and> outstanding (fold kernel_complete cs ps) = outstanding ps"
  by (induction cs arbitrary: ps) (simp_all add: kernel_complete_inv kernel_complete_fields)

section \<open>The operations of a port\<close>

lemma inv_active: "inv X E (ps\<lparr> ps_active := n \<rparr>) = inv X E ps" "inv X E (ps\<lparr> ps_iocp := h \<rparr>) = inv X E ps"
proof -
  show "inv X E (ps\<lparr> ps_active := n \<rparr>) = inv X E ps"
    unfolding inv_def
    by (intro arg_cong2 [where f = conj] group_inv_same tree_inv_same interest_inv_same) simp_all
  show "inv X E (ps\<lparr> ps_iocp := h \<rparr>) = inv X E ps"
    unfolding inv_def
    by (intro arg_cong2 [where f = conj] group_inv_same tree_inv_same interest_inv_same) simp_all
qed

lemma poll_begin_inv:
  assumes "inv {} None ps"
  shows "\<exists>ok ps'. port__poll_begin os ps = Some (ok, ps') \<and> inv {} None ps' \<and> ps_iocp ps' = ps_iocp ps
    \<and> (ok \<longrightarrow> ps_update ps' = [] \<and> 0 < ps_active ps')"
  using update_events_inv [OF assms, of os] by (auto simp: port__poll_begin_def inv_active)

text \<open>What the kernel may hand out: the completions of distinct outstanding requests.\<close>

definition completions_ok :: "completion list \<Rightarrow> 'w port_state \<Rightarrow> bool" where
  "completions_ok cs ps \<longleftrightarrow> distinct (map co_sock cs) \<and> (\<forall>c\<in>set cs. co_sock c \<in> outstanding ps)"

lemma poll_end_inv:
  assumes iv: "inv {} None ps" and ok: "\<And>cs. r = Inr cs \<Longrightarrow> completions_ok cs ps"
  shows "\<exists>evs ps'. port__poll_end os r ps = Some (evs, ps') \<and> inv {} None ps' \<and> ps_iocp ps' = ps_iocp ps"
proof (cases r)
  case (Inl e)
  then show ?thesis using iv by (simp add: port__poll_end_def inv_active)
next
  case (Inr cs)
  let ?ps1 = "ps\<lparr> ps_active := ps_active ps - 1 \<rparr>"
  have k: "inv {} None (fold kernel_complete cs ?ps1)" "ps_iocp (fold kernel_complete cs ?ps1) = ps_iocp ps"
    "outstanding (fold kernel_complete cs ?ps1) = outstanding ps"
    using kernel_completions_inv [of ?ps1 cs] iv by (simp_all add: inv_active outstanding_def)
  have "distinct (map co_sock cs)" "set (map co_sock cs) \<subseteq> outstanding (fold kernel_complete cs ?ps1)"
    using ok [OF Inr] k(3) by (auto simp: completions_ok_def)
  from feed_events_inv [OF k(1) this, of os] show ?thesis using Inr k(2) by (auto simp: port__poll_end_def)
qed

lemma find_socket_live:
  assumes "inv {} None ps" "map_of (ps_tree ps) sock = Some sid"
  shows "\<exists>s. ps_socks ps sid = Some s \<and> \<not> ss_delete_pending s
    \<and> (sid \<in> set (ps_update ps) \<or> ss_poll_status s \<noteq> Poll_Idle)"
proof -
  obtain s where s: "ps_socks ps sid = Some s" "\<not> ss_delete_pending s"
    using inv_live(2) [OF assms(1) map_of_SomeD [OF assms(2)]] by blast
  then have "sock_ok ps sid s" using assms(1) by (simp add: inv_def interest_inv_def)
  then show ?thesis using s by (auto simp: sock_ok_def covered_def)
qed

lemma port_ctl_inv:
  assumes iv: "inv {} None ps" and h: "ps_iocp ps = Some h"
  shows "\<exists>ok ps'. port_ctl layers os opr sock ev ps = Some (ok, ps') \<and> inv {} None ps' \<and> ps_iocp ps' = ps_iocp ps"
proof -
  have add: "\<exists>ok ps'. port__ctl_add layers os sock ev ps = Some (ok, ps') \<and> inv {} None ps' \<and> ps_iocp ps' = ps_iocp ps"
  proof -
    from sock_new_inv [OF iv h, of layers os sock] obtain r ps1 where
      n: "sock_new layers os sock ps = Some (r, ps1)" "ps_iocp ps1 = ps_iocp ps"
      "case r of None \<Rightarrow> inv {} None ps1 \<and> ps_tree ps1 = ps_tree ps
       | Some sid \<Rightarrow> inv (insert sid {}) None ps1 \<and> (\<exists>s. ps_socks ps1 sid = Some s \<and> \<not> ss_delete_pending s
           \<and> ss_pending_events s = 0) \<and> ps_tree ps1 = (sock, sid) # ps_tree ps" by blast
    show ?thesis
    proof (cases r)
      case None
      then show ?thesis using n by (intro exI [of _ False]) (simp add: port__ctl_add_def)
    next
      case (Some sid)
      then obtain s where s: "inv (insert sid {}) None ps1" "ps_socks ps1 sid = Some s" "\<not> ss_delete_pending s"
        "ss_pending_events s = 0" using n(3) by auto
      from sock_set_event_inv [OF s(1,2,3), of ev] s(4) obtain ps2 where
        e: "sock_set_event sid ev ps1 = Some ps2" "inv {} None ps2" "ps_iocp ps2 = ps_iocp ps1" by blast
      from update_if_polling_inv [OF e(2), of os] show ?thesis using n(1,2) Some e(1,3)
        by (auto simp: port__ctl_add_def)
    qed
  qed
  have mod: "\<exists>ok ps'. port__ctl_mod os sock ev ps = Some (ok, ps') \<and> inv {} None ps' \<and> ps_iocp ps' = ps_iocp ps"
  proof (cases "map_of (ps_tree ps) sock")
    case None
    then show ?thesis using iv by (intro exI [of _ False]) (simp add: port__ctl_mod_def port_find_socket_def)
  next
    case (Some sid)
    obtain s where s: "ps_socks ps sid = Some s" "\<not> ss_delete_pending s"
      "sid \<in> set (ps_update ps) \<or> ss_poll_status s \<noteq> Poll_Idle" using find_socket_live [OF iv Some] by blast
    have iv0: "inv (insert sid {}) None ps" by (rule inv_mono [OF iv]) simp
    from sock_set_event_inv [OF iv0 s(1,2), of ev] s(3) obtain ps2 where
      e: "sock_set_event sid ev ps = Some ps2" "inv {} None ps2" "ps_iocp ps2 = ps_iocp ps" by blast
    from update_if_polling_inv [OF e(2), of os] show ?thesis using Some e(1,3)
      by (auto simp: port__ctl_mod_def port_find_socket_def)
  qed
  have del: "\<exists>ok ps'. port__ctl_del os sock ps = Some (ok, ps') \<and> inv {} None ps' \<and> ps_iocp ps' = ps_iocp ps"
  proof (cases "map_of (ps_tree ps) sock")
    case None
    then show ?thesis using iv by (intro exI [of _ False]) (simp add: port__ctl_del_def port_find_socket_def)
  next
    case (Some sid)
    obtain s where s: "ps_socks ps sid = Some s" using find_socket_live [OF iv Some] by blast
    have iv0: "inv (insert sid {}) None ps" by (rule inv_mono [OF iv]) simp
    from sock__delete_inv [OF iv0 s, of os False] show ?thesis using Some
      by (auto simp: port__ctl_del_def port_find_socket_def)
  qed
  show ?thesis using add mod del iv by (auto simp: port_ctl_def intro: exI [of _ False])
qed


section \<open>Deleting a port\<close>

lemma tree_head_live:
  assumes "inv {} None ps" "ps_tree ps = (k, sid) # t"
  obtains s where "ps_socks ps sid = Some s" "\<not> ss_delete_pending s" "sid \<notin> set (ps_deleted ps)"
proof -
  have "(k, sid) \<in> set (ps_tree ps)" using assms(2) by simp
  then obtain s where s: "ps_socks ps sid = Some s" "\<not> ss_delete_pending s" using inv_live(2) [OF assms(1)] by blast
  then have "sid \<notin> set (ps_deleted ps)" using inv_treeD(2) [OF assms(1)] by blast
  then show ?thesis using that s by blast
qed

lemma delete_tree_socks_inv:
  "inv {} None ps \<Longrightarrow> length (ps_tree ps) \<le> n \<Longrightarrow>
   \<exists>ps'. delete_tree_socks n os ps = Some ps' \<and> inv {} None ps' \<and> ps_tree ps' = [] \<and> ps_deleted ps' = ps_deleted ps"
proof (induction n arbitrary: ps)
  case 0
  then show ?case by simp
next
  case (Suc n)
  show ?case
  proof (cases "ps_tree ps")
    case Nil
    then show ?thesis using Suc.prems(1) by simp
  next
    case (Cons e t)
    obtain k sid where e: "e = (k, sid)" by fastforce
    obtain s where s: "ps_socks ps sid = Some s" "sid \<notin> set (ps_deleted ps)"
      using tree_head_live [OF Suc.prems(1)] Cons e by blast
    have iv0: "inv (insert sid {}) None ps" by (rule inv_mono [OF Suc.prems(1)]) simp
    from sock__delete_inv [OF iv0 s(1), of os True] obtain ps1 where
      d: "sock__delete os sid True ps = Some ps1" "inv {} None ps1"
      "ps_tree ps1 = filter (\<lambda>e. snd e \<noteq> sid) (ps_tree ps)" "ps_deleted ps1 = remove1 sid (ps_deleted ps)" by blast
    have "length (filter (\<lambda>e. snd e \<noteq> sid) t) \<le> n" using Suc.prems(2) Cons by (intro le_trans [OF length_filter_le]) simp
    then have "length (ps_tree ps1) \<le> n" using d(3) Cons e by simp
    from Suc.IH [OF d(2) this] show ?thesis using d(1,4) Cons e s(2) by (auto simp: remove1_idem)
  qed
qed

lemma delete_deleted_socks_inv:
  "inv {} None ps \<Longrightarrow> ps_tree ps = [] \<Longrightarrow> length (ps_deleted ps) \<le> n \<Longrightarrow>
   \<exists>ps'. delete_deleted_socks n os ps = Some ps' \<and> inv {} None ps' \<and> ps_tree ps' = [] \<and> ps_deleted ps' = []"
proof (induction n arbitrary: ps)
  case 0
  then show ?case by simp
next
  case (Suc n)
  show ?case
  proof (cases "ps_deleted ps")
    case Nil
    then show ?thesis using Suc.prems(1,2) by simp
  next
    case (Cons sid t)
    obtain s where s: "ps_socks ps sid = Some s" using inv_live(3) [OF Suc.prems(1), of sid] Cons by auto
    have iv0: "inv (insert sid {}) None ps" by (rule inv_mono [OF Suc.prems(1)]) simp
    from sock__delete_inv [OF iv0 s(1), of os True] obtain ps1 where
      d: "sock__delete os sid True ps = Some ps1" "inv {} None ps1"
      "ps_tree ps1 = filter (\<lambda>e. snd e \<noteq> sid) (ps_tree ps)" "ps_deleted ps1 = remove1 sid (ps_deleted ps)" by blast
    have "ps_tree ps1 = []" "length (ps_deleted ps1) \<le> n" using d(3,4) Suc.prems(2,3) Cons by simp_all
    from Suc.IH [OF d(2) this] show ?thesis using d(1) Cons by simp
  qed
qed

text \<open>A port without sockets has only empty groups.\<close>

lemma inv_no_socks:
  assumes iv: "inv {} None ps" and e: "ps_tree ps = []" "ps_deleted ps = []"
  shows "\<And>n. ps_socks ps n = None" and "\<And>gid g. ps_group ps gid = Some g \<Longrightarrow> pg_size g = 0" and "ps_update ps = []"
proof -
  show none: "ps_socks ps n = None" for n
  proof (cases "ps_socks ps n")
    case (Some s)
    then show ?thesis using inv_treeD(1,2) [OF iv Some] e by simp
  qed
  have "members ps gid = {}" for gid by (simp add: members_def none)
  moreover have "group_inv None ps" using iv by (simp add: inv_def)
  ultimately show "pg_size g = 0" if "ps_group ps gid = Some g" for gid g
    using conjunct1 [OF group_invD(4) [OF _ that]] by (metis add_0_right card.empty option.distinct(1))
  have "set (ps_update ps) \<subseteq> snd ` set (ps_tree ps)" using iv by (simp add: inv_def tree_inv_def)
  then show "ps_update ps = []" using e(1) by simp
qed

lemma delete_groups_all:
  assumes "length (ps_groups ps) \<le> n" "distinct (ps_groups ps)"
    "\<And>gid. gid \<in> set (ps_groups ps) \<longleftrightarrow> ps_group ps gid \<noteq> None" "\<And>gid g. ps_group ps gid = Some g \<Longrightarrow> pg_size g = 0"
  shows "\<exists>ps'. delete_groups n os ps = Some ps' \<and> (\<forall>gid. ps_group ps' gid = None) \<and> ps_groups ps' = []
     \<and> ps_socks ps' = ps_socks ps \<and> ps_update ps' = ps_update ps"
  using assms
proof (induction n arbitrary: ps)
  case 0
  then show ?case by simp
next
  case (Suc n)
  show ?case
  proof (cases "ps_groups ps")
    case Nil
    then have "\<forall>gid. ps_group ps gid = None" using Suc.prems(3) by simp
    then show ?thesis using Nil by simp
  next
    case (Cons gid t)
    then have "ps_group ps gid \<noteq> None" using Suc.prems(3) [of gid] by simp
    then obtain g where g: "ps_group ps gid = Some g" "pg_size g = 0" using Suc.prems(4) by blast
    obtain r w where w: "wo_close_handle os (pg_handle g) (world ps) = (r, w)" by fastforce
    let ?ps1 = "(set_world w ps)\<lparr> ps_groups := t, ps_group := (ps_group ps)(gid := None) \<rparr>"
    have d: "poll_group_delete os gid ps = Some ?ps1" using g w Cons by (simp add: poll_group_delete_def)
    have "length (ps_groups ?ps1) \<le> n" "distinct (ps_groups ?ps1)" using Suc.prems(1,2) Cons by simp_all
    moreover have "n' \<in> set (ps_groups ?ps1) \<longleftrightarrow> ps_group ?ps1 n' \<noteq> None" for n'
      using Suc.prems(2) Suc.prems(3) [of n'] Cons by (cases "n' = gid") auto
    moreover have "pg_size g' = 0" if "ps_group ?ps1 n' = Some g'" for n' g'
      using that Suc.prems(4) by (simp split: if_splits)
    ultimately have "\<exists>ps'. delete_groups n os ?ps1 = Some ps' \<and> (\<forall>gid. ps_group ps' gid = None) \<and> ps_groups ps' = []
        \<and> ps_socks ps' = ps_socks ?ps1 \<and> ps_update ps' = ps_update ?ps1" by (rule Suc.IH)
    then show ?thesis using Cons d by simp
  qed
qed

lemma port_delete_all:
  assumes iv: "inv {} None ps" and h: "ps_iocp ps = None"
  shows "\<exists>ps'. port_delete os ps = Some ps' \<and> (\<forall>n. ps_socks ps' n = None \<and> ps_group ps' n = None)"
proof -
  obtain ps1 where d1: "delete_tree_socks (length (ps_tree ps)) os ps = Some ps1" "inv {} None ps1" "ps_tree ps1 = []"
    using delete_tree_socks_inv [OF iv order_refl] by blast
  obtain ps2 where d2: "delete_deleted_socks (length (ps_deleted ps1)) os ps1 = Some ps2" "inv {} None ps2"
    "ps_tree ps2 = []" "ps_deleted ps2 = []"
    using delete_deleted_socks_inv [OF d1(2,3) order_refl] by blast
  note none = inv_no_socks [OF d2(2,3,4)]
  have "group_inv None ps2" using d2(2) by (simp add: inv_def)
  note G = group_invD [OF this]
  obtain ps3 where "delete_groups (length (ps_groups ps2)) os ps2 = Some ps3" "\<forall>gid. ps_group ps3 gid = None"
    "ps_socks ps3 = ps_socks ps2" "ps_update ps3 = ps_update ps2"
    using delete_groups_all [of ps2 "length (ps_groups ps2)" os] G(1,2) none(2) by blast
  then show ?thesis using d1(1) d2(1) h none(1,3) by (simp add: port_delete_def)
qed

end
