(* ===== verification/WepollProps.thy ===== *)
theory WepollProps
  imports WepollSteps
begin

text \<open>
  What holds of every port that can be reached: the control calls, the two halves
  of a wait and the renewals of other threads interleave in any order, each under
  the port's lock; between them the thread-local error state and the rest of the
  world change freely, and the kernel completes requests it holds, each once.
\<close>

section \<open>Reachable ports\<close>

datatype 'w port_op =
  Ctl int u64 epoll_event
| Poll_Begin
| Poll_End "string + completion list"
| Wait_Exit
| Switch "'w env"

fun port_run :: "nat \<Rightarrow> 'w win_os \<Rightarrow> 'w port_op \<Rightarrow> 'w port_state \<Rightarrow> 'w port_state option" where
  "port_run layers os (Ctl opr sock ev) ps = map_option snd (port_ctl layers os opr sock ev ps)"
| "port_run layers os Poll_Begin ps = map_option snd (port__poll_begin os ps)"
| "port_run layers os (Poll_End r) ps = map_option snd (port__poll_end os r ps)"
| "port_run layers os Wait_Exit ps = port__update_events_if_polling os ps"
| "port_run layers os (Switch e) ps = Some (ps\<lparr> ps_env := e \<rparr>)"

fun op_ok :: "'w port_op \<Rightarrow> 'w port_state \<Rightarrow> bool" where
  "op_ok (Poll_End (Inr cs)) ps \<longleftrightarrow> 0 < ps_active ps \<and> completions_ok cs ps"
| "op_ok (Poll_End (Inl _)) ps \<longleftrightarrow> 0 < ps_active ps"
| "op_ok _ ps \<longleftrightarrow> True"

inductive port_reach :: "nat \<Rightarrow> 'w win_os \<Rightarrow> 'w port_state \<Rightarrow> bool" for layers os where
  reach_new: "port_new os e = (Some (h, ps), e') \<Longrightarrow> port_reach layers os ps"
| reach_op: "port_reach layers os ps \<Longrightarrow> op_ok opr ps \<Longrightarrow> port_run layers os opr ps = Some ps'
    \<Longrightarrow> port_reach layers os ps'"

inductive_cases port_reachE: "port_reach layers os ps"

lemma inv_switch: "inv X E (ps\<lparr> ps_env := e \<rparr>) = inv X E ps"
  using inv_on_env [of X E "\<lambda>_. e" ps] by (simp add: on_env_def)

lemma port_run_inv:
  assumes iv: "inv {} None ps" and h: "ps_iocp ps = Some h" and ok: "op_ok opr ps"
  shows "\<exists>ps'. port_run layers os opr ps = Some ps' \<and> inv {} None ps' \<and> ps_iocp ps' = Some h"
proof (cases opr)
  case (Ctl c sock ev)
  with port_ctl_inv [OF iv h, of layers os c sock ev] h show ?thesis by auto
next
  case Poll_Begin
  with poll_begin_inv [OF iv, of os] h show ?thesis by auto
next
  case (Poll_End r)
  then have "completions_ok cs ps" if "r = Inr cs" for cs using ok that by simp
  then show ?thesis using poll_end_inv [OF iv, of r os] Poll_End h by auto
next
  case Wait_Exit
  with update_if_polling_inv [OF iv, of os] h show ?thesis by auto
next
  case (Switch e)
  then show ?thesis using iv h by (simp add: inv_switch)
qed

lemma reach_inv:
  assumes "port_reach layers os ps"
  shows "inv {} None ps \<and> ps_iocp ps \<noteq> None"
  using assms
proof (induction rule: port_reach.induct)
  case (reach_new e h ps e')
  then have "\<exists>h e. ps = new_port_state h e" by (auto simp: port_new_def Let_def split: prod.splits sum.splits bool.splits)
  then show ?case using new_port_inv by (auto simp: new_port_state_def)
next
  case (reach_op ps opr ps')
  then obtain h where "ps_iocp ps = Some h" by blast
  with port_run_inv [of ps h opr layers os] reach_op show ?case by auto
qed

lemma reach_trace:
  "port_reach layers os ps \<Longrightarrow> op_ok opr ps \<Longrightarrow> port_run layers os opr ps = Some ps' \<Longrightarrow> port_reach layers os ps'"
  by (rule port_reach.reach_op)

text \<open>A small system: every call succeeds, and a poll request stays with the kernel.\<close>

definition demo_os :: "unit win_os" where
  "demo_os = \<lparr> wo_malloc = (\<lambda>w. (True, w)), wo_create_iocp = (\<lambda>w. (Inr 100, w)),
     wo_close_handle = (\<lambda>_ w. (Inr (), w)), wo_create_afd = (\<lambda>w. (Inr 200, w)),
     wo_associate = (\<lambda>_ _ w. (Inr (), w)), wo_set_modes = (\<lambda>_ w. (Inr (), w)),
     wo_status_error = (\<lambda>_. ''ERROR_GEN_FAILURE''), wo_device_poll = (\<lambda>_ _ _ _ w. (STATUS_PENDING, w)),
     wo_cancel_io = (\<lambda>_ _ w. (STATUS_SUCCESS, w)), wo_ioctl = (\<lambda>s _ w. (Inr s, w)),
     wo_gqcs = (\<lambda>_ _ _ w. (Inr [], w)), wo_tick = (\<lambda>w. (0, w)), wo_handle_info = (\<lambda>_ w. (Inr (), w)) \<rparr>"

definition demo_env :: "unit env" where
  "demo_env = \<lparr> en_world = (), en_last_error = [], en_errno = [] \<rparr>"

text \<open>One socket added for reading, its request out, and the request completed.\<close>

definition demo_event :: epoll_event where "demo_event = \<lparr> ev_events = EPOLLIN, ev_udata = 42 \<rparr>"

definition demo_added :: "unit port_state" where
  "demo_added = the (port_run 1 demo_os (Ctl 1 5 demo_event) (new_port_state 100 demo_env))"

definition demo_polling :: "unit port_state" where
  "demo_polling = the (port_run 1 demo_os Poll_Begin demo_added)"

lemma demo_added_reach: "port_reach 1 demo_os demo_added \<and> ps_tree demo_added = [(5, 1)]"
proof -
  have "port_new demo_os demo_env = (Some (100, new_port_state 100 demo_env), demo_env)"
    by (simp add: port_new_def demo_os_def demo_env_def Let_def)
  then have r: "port_reach 1 demo_os (new_port_state 100 demo_env)" by (rule reach_new)
  have "port_run 1 demo_os (Ctl 1 5 demo_event) (new_port_state 100 demo_env) \<noteq> None"
    using port_run_inv [of "new_port_state 100 demo_env" 100 "Ctl 1 5 demo_event" 1 demo_os] new_port_inv
    by (auto simp: new_port_state_def)
  then have "port_reach 1 demo_os demo_added"
    unfolding demo_added_def using reach_op [OF r, of "Ctl 1 5 demo_event"] by auto
  moreover have "ps_tree demo_added = [(5, 1)]" by code_simp
  ultimately show ?thesis by simp
qed


lemma demo_polling_reach: "port_reach 1 demo_os demo_polling \<and> ps_active demo_polling = 1 \<and> outstanding demo_polling = {1}"
proof -
  have r: "port_reach 1 demo_os demo_added" using demo_added_reach by blast
  then obtain h where "inv {} None demo_added" "ps_iocp demo_added = Some h" using reach_inv by blast
  then have "port_run 1 demo_os Poll_Begin demo_added \<noteq> None" using port_run_inv [of demo_added h Poll_Begin 1 demo_os] by auto
  then have p: "port_reach 1 demo_os demo_polling"
    unfolding demo_polling_def using reach_op [OF r, of Poll_Begin] by auto
  have "ps_tree demo_polling = [(5, 1)]" "ps_deleted demo_polling = []" by code_simp+
  moreover have "inv {} None demo_polling" using reach_inv [OF p] by blast
  ultimately have "ps_socks demo_polling n = None" if "n \<noteq> 1" for n
    using that inv_treeD(1,2) [of "{}" None demo_polling n] by (cases "ps_socks demo_polling n") auto
  moreover have "map_option ss_poll_status (ps_socks demo_polling 1) = Some Poll_Pending" by code_simp
  ultimately have "outstanding demo_polling = {1}" by (force simp: outstanding_def)
  moreover have "ps_active demo_polling = 1" by code_simp
  ultimately show ?thesis using p by simp
qed

section \<open>Properties\<close>







text \<open>
  C40: Closing a port ends: from every reachable port, closing and deleting it
  succeeds within as many rounds as it has sockets and groups, and frees all of them.
\<close>

theorem close_frees_everything:
  assumes "port_reach layers os ps"
  shows "\<exists>r ps1 ps2. port_close os ps = Some (r, ps1) \<and> port_delete os ps1 = Some ps2
    \<and> (\<forall>n. ps_socks ps2 n = None \<and> ps_group ps2 n = None)"
proof -
  from reach_inv [OF assms] obtain h where iv: "inv {} None ps" "ps_iocp ps = Some h" by blast
  have "\<exists>r ps1. port_close os ps = Some (r, ps1) \<and> inv {} None ps1 \<and> ps_iocp ps1 = None"
    using iv by (auto simp: port_close_def inv_active Let_def split: prod.splits sum.splits)
  then show ?thesis using port_delete_all by metis
qed

lemma close_frees_everything_witness:
  "\<exists>r ps1 ps2. port_close demo_os demo_polling = Some (r, ps1) \<and> port_delete demo_os ps1 = Some ps2
    \<and> (\<forall>n. ps_socks ps2 n = None \<and> ps_group ps2 n = None)"
  using close_frees_everything demo_polling_reach by blast

text \<open>C34: A poll group counts its sockets, and never more than 32.\<close>

theorem group_size_bounded:
  assumes "port_reach layers os ps" "ps_group ps gid = Some g"
  shows "pg_size g = card {sid. \<exists>s. ps_socks ps sid = Some s \<and> ss_group s = gid} \<and> pg_size g \<le> 32"
proof -
  have "group_inv None ps" using reach_inv [OF assms(1)] by (simp add: inv_def)
  from group_invD(4) [OF this assms(2)] show ?thesis by (simp add: members_def max_group_size_def)
qed

lemma group_size_bounded_witness: "\<exists>g. ps_group demo_added 0 = Some g \<and> pg_size g \<le> 32"
proof -
  have "ps_group demo_added 0 \<noteq> None" by code_simp
  then show ?thesis using group_size_bounded [of 1 demo_os demo_added 0] demo_added_reach by blast
qed


lemma flag_bits:
  "has_flag w m \<longleftrightarrow> (\<exists>n. bit w n \<and> bit m n)" for w m :: "'a::len word"
  by (auto simp: has_flag_def bit_eq_iff bit_simps dest: bit_imp_le_length)

lemma bit_single: "k < 32 \<Longrightarrow> bit (push_bit k (1::u32)) n \<longleftrightarrow> n = k"
  by (auto simp: push_bit_of_1 bit_exp_iff possible_bit_word)

lemma poll_bit [simp]:
  "bit EPOLLIN n \<longleftrightarrow> n = 0" "bit EPOLLPRI n \<longleftrightarrow> n = 1" "bit EPOLLOUT n \<longleftrightarrow> n = 2" "bit EPOLLERR n \<longleftrightarrow> n = 3"
  "bit EPOLLHUP n \<longleftrightarrow> n = 4" "bit EPOLLRDNORM n \<longleftrightarrow> n = 6" "bit EPOLLRDBAND n \<longleftrightarrow> n = 7"
  "bit EPOLLWRNORM n \<longleftrightarrow> n = 8" "bit EPOLLWRBAND n \<longleftrightarrow> n = 9" "bit EPOLLRDHUP n \<longleftrightarrow> n = 13"
  unfolding poll_bits by (rule bit_single; simp)+

lemma afd_push:
  "AFD_POLL_RECEIVE = push_bit 0 1" "AFD_POLL_RECEIVE_EXPEDITED = push_bit 1 1" "AFD_POLL_SEND = push_bit 2 1"
  "AFD_POLL_DISCONNECT = push_bit 3 1" "AFD_POLL_ABORT = push_bit 4 1" "AFD_POLL_LOCAL_CLOSE = push_bit 5 1"
  "AFD_POLL_ACCEPT = push_bit 7 1" "AFD_POLL_CONNECT_FAIL = push_bit 8 1"
  by (simp_all add: poll_bits push_bit_eq_mult)

lemma afd_bit [simp]:
  "bit AFD_POLL_RECEIVE n \<longleftrightarrow> n = 0" "bit AFD_POLL_RECEIVE_EXPEDITED n \<longleftrightarrow> n = 1" "bit AFD_POLL_SEND n \<longleftrightarrow> n = 2"
  "bit AFD_POLL_DISCONNECT n \<longleftrightarrow> n = 3" "bit AFD_POLL_ABORT n \<longleftrightarrow> n = 4" "bit AFD_POLL_LOCAL_CLOSE n \<longleftrightarrow> n = 5"
  "bit AFD_POLL_ACCEPT n \<longleftrightarrow> n = 7" "bit AFD_POLL_CONNECT_FAIL n \<longleftrightarrow> n = 8"
  unfolding afd_push by (rule bit_single; simp)+

lemma bit_if_word: "bit (if c then w else 0) n \<longleftrightarrow> c \<and> bit w n" for w :: "'a::len word"
  by simp

lemma flag_or [simp]: "has_flag w (m OR m') \<longleftrightarrow> has_flag w m \<or> has_flag w m'" for w :: "'a::len word"
  by (auto simp: flag_bits bit_simps)

lemma flag_poll [simp]:
  "has_flag w EPOLLIN \<longleftrightarrow> bit w 0" "has_flag w EPOLLPRI \<longleftrightarrow> bit w 1" "has_flag w EPOLLOUT \<longleftrightarrow> bit w 2"
  "has_flag w EPOLLERR \<longleftrightarrow> bit w 3" "has_flag w EPOLLHUP \<longleftrightarrow> bit w 4" "has_flag w EPOLLRDNORM \<longleftrightarrow> bit w 6"
  "has_flag w EPOLLRDBAND \<longleftrightarrow> bit w 7" "has_flag w EPOLLWRNORM \<longleftrightarrow> bit w 8" "has_flag w EPOLLWRBAND \<longleftrightarrow> bit w 9"
  "has_flag w EPOLLRDHUP \<longleftrightarrow> bit w 13"
  "has_flag w AFD_POLL_RECEIVE \<longleftrightarrow> bit w 0" "has_flag w AFD_POLL_RECEIVE_EXPEDITED \<longleftrightarrow> bit w 1"
  "has_flag w AFD_POLL_SEND \<longleftrightarrow> bit w 2" "has_flag w AFD_POLL_DISCONNECT \<longleftrightarrow> bit w 3"
  "has_flag w AFD_POLL_ABORT \<longleftrightarrow> bit w 4" "has_flag w AFD_POLL_LOCAL_CLOSE \<longleftrightarrow> bit w 5"
  "has_flag w AFD_POLL_ACCEPT \<longleftrightarrow> bit w 7" "has_flag w AFD_POLL_CONNECT_FAIL \<longleftrightarrow> bit w 8"
  by (simp_all add: flag_bits)

lemma requested_bit:
  "bit (sock__epoll_events_to_afd_events e) n \<longleftrightarrow> n = 5 \<or> n \<in> {0, 7} \<and> (bit e 0 \<or> bit e 6)
     \<or> n = 1 \<and> (bit e 1 \<or> bit e 7) \<or> n = 2 \<and> (bit e 2 \<or> bit e 8 \<or> bit e 9)
     \<or> n = 3 \<and> (bit e 0 \<or> bit e 6 \<or> bit e 13) \<or> n = 4 \<and> bit e 4 \<or> n = 8 \<and> bit e 3"
  by (auto simp: sock__epoll_events_to_afd_events_def bit_or_iff bit_if_word simp del: if_split)

lemma reported_bit:
  "bit (sock__afd_events_to_epoll_events a) n \<longleftrightarrow> n \<in> {0, 6} \<and> (bit a 0 \<or> bit a 7 \<or> bit a 3 \<or> bit a 8)
     \<or> n \<in> {1, 7} \<and> bit a 1 \<or> n = 2 \<and> (bit a 2 \<or> bit a 8) \<or> n = 8 \<and> (bit a 2 \<or> bit a 8) \<or> n = 9 \<and> bit a 2
     \<or> n = 13 \<and> (bit a 3 \<or> bit a 8) \<or> n = 4 \<and> bit a 4 \<or> n = 3 \<and> bit a 8"
  by (auto simp: sock__afd_events_to_epoll_events_def bit_or_iff bit_if_word simp del: if_split)

text \<open>
  The event mask sent to the device asks for enough: for any state of the
  socket, the events reported after the device filtered by that mask are the
  events that an unfiltered report would give the user, provided errors are among
  the events asked for, as setting an interest always makes them.
\<close>

theorem requested_mask_complete:
  assumes "bit e 3"
  shows "sock__afd_events_to_epoll_events (a AND sock__epoll_events_to_afd_events e) AND e
    = sock__afd_events_to_epoll_events a AND e"
proof (rule bit_word_eqI)
  fix n
  show "bit (sock__afd_events_to_epoll_events (a AND sock__epoll_events_to_afd_events e) AND e) n
      = bit (sock__afd_events_to_epoll_events a AND e) n"
    unfolding bit_and_iff reported_bit requested_bit using assms by auto
qed

lemma requested_mask_complete_witness:
  "sock__afd_events_to_epoll_events (AFD_POLL_DISCONNECT AND sock__epoll_events_to_afd_events (EPOLLRDHUP OR EPOLLERR))
     AND (EPOLLRDHUP OR EPOLLERR) = EPOLLRDHUP"
proof -
  have "bit (EPOLLRDHUP OR EPOLLERR) 3" by (simp add: bit_or_iff)
  from requested_mask_complete [OF this, of AFD_POLL_DISCONNECT]
  have "sock__afd_events_to_epoll_events (AFD_POLL_DISCONNECT AND sock__epoll_events_to_afd_events (EPOLLRDHUP OR EPOLLERR))
      AND (EPOLLRDHUP OR EPOLLERR) = sock__afd_events_to_epoll_events AFD_POLL_DISCONNECT AND (EPOLLRDHUP OR EPOLLERR)" .
  also have "\<dots> = EPOLLRDHUP" by code_simp
  finally show ?thesis .
qed

text \<open>
  A wait reports only what was asked for: an event handed out for a socket is a
  nonempty part of the events its user asked for and carries the user's data, the
  socket is then due for a new request, and a one-shot interest is switched off by it.
\<close>

theorem feed_reports_wanted:
  assumes "port_reach layers os ps" "ps_socks ps (co_sock c) = Some s" "ss_poll_status s \<noteq> Poll_Idle"
    and "sock_feed_event os (co_sock c) (kernel_complete c ps) = Some (Some ev, ps')"
  shows "\<exists>s'. ps_socks ps' (co_sock c) = Some s' \<and> \<not> ss_delete_pending s
    \<and> ev_events ev \<noteq> 0 \<and> ev_events ev AND NOT (ss_user_events s) = 0 \<and> ev_udata ev = ss_user_data s
    \<and> ss_poll_status s' = Poll_Idle \<and> co_sock c \<in> set (ps_update ps')
    \<and> ss_user_events s' = (if has_flag (ss_user_events s) EPOLLONESHOT then 0 else ss_user_events s)"
proof -
  let ?sid = "co_sock c"
  let ?ps = "kernel_complete c ps"
  let ?s = "s\<lparr> ss_status := co_status c, ss_handles := co_handles c, ss_events := co_events c \<rparr>"
  have iv: "inv {} None ?ps" using reach_inv [OF assms(1)] kernel_complete_inv by blast
  have s: "ps_socks ?ps ?sid = Some ?s" using assms(2) by (simp add: kernel_complete_def)
  have nd: "\<not> (ss_delete_pending ?s \<or> request_closed ?s)"
    using assms(4) unfolding sock_feed_event_eq [OF s] Let_def by (auto split: if_splits bind_splits)
  let ?ee = "reported_events ?s AND ss_user_events s"
  let ?ps1 = "upd_sock ?sid (\<lambda>s. s\<lparr> ss_poll_status := Poll_Idle, ss_pending_events := 0 \<rparr>) ?ps"
  let ?ps2 = "port_request_socket_update ?sid ?ps1"
  have r: "?ee \<noteq> 0" "ev = \<lparr> ev_events = ?ee, ev_udata = ss_user_data s \<rparr>"
    "ps' = (if \<not> has_flag (ss_user_events s) EPOLLONESHOT then ?ps2 else upd_sock ?sid (\<lambda>s. s\<lparr> ss_user_events := 0 \<rparr>) ?ps2)"
    using assms(4) nd unfolding sock_feed_event_eq [OF s] Let_def by (auto split: if_splits)
  have sub: "?ee AND NOT (ss_user_events s) = 0" by (auto simp: bit_eq_iff bit_simps)
  have "?sid \<notin> set (ps_deleted ?ps)" using inv_treeD(2) [OF iv s] nd by simp
  then have q: "?sid \<in> set (ps_update ?ps2)" by (simp add: port_request_socket_update_def sock_enqueued_def)
  have "ps_socks ?ps2 ?sid = Some (?s\<lparr> ss_poll_status := Poll_Idle, ss_pending_events := 0 \<rparr>)"
    using s by (simp add: port_request_socket_update_def)
  then show ?thesis using nd r sub q by (cases "has_flag (ss_user_events s) EPOLLONESHOT") simp_all
qed

lemma feed_reports_wanted_witness:
  "\<exists>ev ps'. sock_feed_event demo_os 1 (kernel_complete \<lparr> co_sock = 1, co_status = 0, co_handles = 1,
     co_events = AFD_POLL_RECEIVE OR AFD_POLL_SEND \<rparr> demo_polling) = Some (Some ev, ps') \<and> ev_udata ev = 42"
proof -
  let ?c = "\<lparr> co_sock = 1, co_status = 0, co_handles = 1, co_events = AFD_POLL_RECEIVE OR AFD_POLL_SEND \<rparr>"
  let ?r = "sock_feed_event demo_os 1 (kernel_complete ?c demo_polling)"
  have "map_option (map_option ev_events \<circ> fst) ?r = Some (Some EPOLLIN)" by code_simp
  then obtain ev ps' where r: "?r = Some (Some ev, ps')" by auto
  have d: "map_option ss_user_data (ps_socks demo_polling 1) = Some 42" by code_simp
  then obtain s where s: "ps_socks demo_polling 1 = Some s" "ss_user_data s = 42" by auto
  have "1 \<in> outstanding demo_polling" and p: "port_reach 1 demo_os demo_polling" using demo_polling_reach by auto
  then have "ss_poll_status s \<noteq> Poll_Idle" using s(1) by (simp add: outstanding_def)
  then show ?thesis using feed_reports_wanted [OF p, of ?c s ev ps'] s r by auto
qed

text \<open>
  Removing a socket from a port succeeds exactly when it was registered, fails
  with ENOENT otherwise, and in both cases only that socket is unregistered.
\<close>

theorem ctl_del_spec:
  assumes "port_reach layers os ps" "port_ctl layers os 3 sock ev ps = Some (ok, ps')"
  shows "(ok \<longleftrightarrow> map_of (ps_tree ps) sock \<noteq> None) \<and> map_of (ps_tree ps') = (map_of (ps_tree ps))(sock := None)
    \<and> (\<not> ok \<longrightarrow> en_errno (ps_env ps') = ''ENOENT'')"
proof -
  have iv: "inv {} None ps" using reach_inv [OF assms(1)] by blast
  have d: "port__ctl_del os sock ps = Some (ok, ps')" using assms(2) by (simp add: port_ctl_def)
  show ?thesis
  proof (cases "map_of (ps_tree ps) sock")
    case None
    have "err__map_win_error_to_errno ''ERROR_NOT_FOUND'' = ''ENOENT''" by code_simp
    then show ?thesis using None d
      by (auto simp: port__ctl_del_def port_find_socket_def return_set_error_def err_set_win_error_def on_env_def)
  next
    case (Some sid)
    obtain s where s: "ps_socks ps sid = Some s" using find_socket_live [OF iv Some] by blast
    have iv0: "inv (insert sid {}) None ps" by (rule inv_mono [OF iv]) simp
    have t: "ok" "ps_tree ps' = filter (\<lambda>e. snd e \<noteq> sid) (ps_tree ps)"
      using sock__delete_inv [OF iv0 s, of os False] Some d by (auto simp: port__ctl_del_def port_find_socket_def)
    have dist: "distinct (map snd (ps_tree ps))" "distinct (map fst (ps_tree ps))"
      using iv by (simp_all add: inv_def tree_inv_def)
    have "(sock, sid) \<in> set (ps_tree ps)" using map_of_SomeD [OF Some] .
    then have one: "snd e \<noteq> sid \<longleftrightarrow> fst e \<noteq> sock" if "e \<in> set (ps_tree ps)" for e
      using that dist by (metis eq_key_imp_eq_value eq_fst_iff inj_onD distinct_map prod.collapse snd_conv)
    have "ps_tree ps' = filter (\<lambda>e. fst e \<noteq> sock) (ps_tree ps)" unfolding t(2) by (rule filter_cong) (simp_all add: one)
    then have "ps_tree ps' = AList.delete sock (ps_tree ps)" by (simp add: AList.delete_eq case_prod_beta' eq_commute)
    then show ?thesis using t(1) Some by (simp add: delete_conv')
  qed
qed

lemma ctl_del_spec_witness:
  "map_of (ps_tree (snd (the (port_ctl 1 demo_os 3 5 demo_event demo_added)))) = Map.empty"
proof -
  have r: "port_reach 1 demo_os demo_added" and t: "ps_tree demo_added = [(5, 1)]" using demo_added_reach by blast+
  obtain h where "inv {} None demo_added" "ps_iocp demo_added = Some h" using reach_inv [OF r] by blast
  then obtain ok ps' where c: "port_ctl 1 demo_os 3 5 demo_event demo_added = Some (ok, ps')" using port_ctl_inv by blast
  from ctl_del_spec [OF r c] t c show ?thesis by auto
qed

end
