(* ===== verification/Spec2Isabelle.thy ===== *)
theory Spec2Isabelle
  imports GameService PeerStore LobbyTableProps MasterProps ReplicaProps IpcProps PfrProps PackViews ConfigProps LoopProps SettingsProps ParamProps AdmissionProps SocketProps WasiProps WasmRt OffsetMap WepollQueue WepollProps
begin

text \<open>
  LuxonServer is a game server for the Photon protocol, written in C++ and C. Clients
  reach it over ENet; a peer authenticates, is matched with a room, and the game server
  keeps the room's state, relays events and answers property updates. Guest code runs in
  WebAssembly over shims of the host's sockets and files, and on Windows an epoll
  emulation drives the connections. This library models the parts that carry this logic.

  The room (src/src/game.cpp, src/include/luxon/server/game.hpp).
  \<^item> GameState holds the data: \<^theory_text>\<open>game\<close> is struct Game with every field the code
    gives it, the creation snapshot (the fields named \<^theory_text>\<open>gi_\<close>) and its generation
    lists (\<^theory_text>\<open>gr_\<close>); \<^theory_text>\<open>game_peer\<close> is a member, \<^theory_text>\<open>event\<close> an event. A weak_ptr
    to a connection is a reference into a \<^theory_text>\<open>heap\<close>, and \<^theory_text>\<open>lock\<close> reads it. Wire holds the
    values of the protocol library, a parameter (\<^theory_text>\<open>value_ops\<close>), with the laws the code
    relies on, the hash tables as association lists, and the numeric codes.
  \<^item> GameMembers models reservations with their generation-guarded expiry, the
    allocation of actor numbers, admission and removal; GameCreation the creation lease
    with its commit and rollback; GameProps the properties of rooms and actors;
    GameEvents the packet cache, broadcast and flood. Every operation of the room runs
    under the admission lock, so it is one function on the state; a callback it
    schedules is part of its result.
  \<^item> GameMachine is the transition system of those operations, in any order and with
    the scheduled callbacks firing at any time; \<^theory_text>\<open>room_inv\<close> is its invariant
    (\<^theory_text>\<open>room_step_inv\<close>), \<^theory_text>\<open>tx_inv\<close> the invariant of a running creation. GameProperties
    holds the statements about reachable rooms.

  The request handler (src/src/handler_gameserver.cpp).
  \<^item> GameServer composes the room's operations the way a request does: entering a
    room with the creation lease and its rollback on every early return, raising events
    with the room cache, properties, interest groups, leaving, disconnecting, and the
    retry of a join that waits. The flag \<^theory_text>\<open>disconnected_\<close> may be set by another thread;
    the values a request reads are the parameter \<^theory_text>\<open>disc\<close>, numbered by the place of the
    read. What a request does to the outside is a list of effects.
    \<^item> GameServerInv shows, for every step of a request, that it keeps the room's invariant
    and the transaction it runs in (\<^theory_text>\<open>moves\<close>, \<^theory_text>\<open>stays\<close>), with a budget of
    reservations; GameServerProps draws how a creation ends, what a refused join leaves
    and the load after an admission; GameService runs all handlers of a room in any
    order and shows that no ghost member and no open creation remains.

  The store of routed peers (src/src/peer_persistence.cpp and the messages of
  src/src/server_manager.cpp): PeerStore has the list of stored peers with its counter of
  generations and the pending expiry callbacks as \<^theory_text>\<open>peer_store\<close>, the messages
  between processes, the invariant of a store (\<^theory_text>\<open>store_inv\<close>) and what becomes of a
  token that travels between two processes.

  The registry (src/src/apps.cpp, src/src/lobby.cpp). Registry holds applications, lobbies
  and rooms as live objects of a \<^theory_text>\<open>world\<close> with their indexes of weak pointers, and the
  deleters that take an object out of its index; the database of the settings and the
  evaluation of an SQL filter are parameters. RegistryInv shows that every operation keeps
  each index the inverse of the live objects (\<^theory_text>\<open>indexes\<close>, \<^theory_text>\<open>registry_inv\<close>),
  RegistryProps runs them in any order and states what lookups and creation answer.

  The SQL view of a lobby (src/src/lobby_vt.cpp): LobbyTable has the callbacks SQLite
  plans and runs a query with, LobbyTableProps reads a plan back and says which rooms a
  scan yields.

  Authentication (src/src/authentication.cpp): by the token of a stored peer or under the
  rules of the application's settings, composing PeerStore with the registry.

  The settings database (src/src/settings_manager.cpp): Settings has the options behind its
  path, the migrations of the schema and the lookups with their fallback, which are what
  authentication and the registry take as a parameter. SettingsProps says what is opened
  how, and what a failing migration leaves.

  The parameters of a request (src/include/luxon/server/data_model.hpp): ParamModel has the
  template with its list of parameters as an argument (\<^theory_text>\<open>param\<close>), the pass over a message
  and the encoder. ParamProps reduces the pass to a reading of one parameter after the
  other and states the round trip.

  The entry of peers (src/src/handler_base.cpp, src/src/handler_nameserver.cpp and the first
  part of src/src/handler_gameserver.cpp): Admission has the dispatch of a command, the answers
  every handler shares, the decoding of a request to authenticate, the name server, and the game server's door (\<^theory_text>\<open>door\<close>), which
  authenticates a peer, waits for its token and looks up the room of its invitation.
  AdmissionProps shows that an invited peer gets its room and that no other peer stays.

  The master server (src/src/handler_masterserver.cpp). MasterServer models each request
  of a peer, which works on the registry and the store (\<^theory_text>\<open>process\<close>) and on the handler's
  own state (\<^theory_text>\<open>master\<close>): lobbies and their lists, creating, joining and matching rooms, the
  hand-over of a peer to a game server, the retry of a join that waits and the batched list
  updates. The sort and the random draw of the standard library are parameters. MasterProps
  shows that requests move the registry by its own steps only, what matchmaking and the
  lists of rooms yield, and that a peer handed over is expected where it is sent.

  Rooms of other processes (src/src/game.cpp, src/src/server_manager.cpp). Replica models the
  messages a room sends about itself and what a process does with those of others, which it
  keeps as external rooms in its registry; ReplicaProps says when the two agree.

  The channel between processes (src/src/ipc.cpp): Ipc has an end of a channel with the bytes
  it keeps, and the calls that make, move, use and close it; the answers of the system are a
  script, and a call that needs more of it than there is has not returned. IpcProps shows the
  channel to be a queue, what a closing peer and a full socket do to it, and who closes a
  descriptor.

  The codec of aggregates (src/include/luxon/server/pfr_codec.hpp): PfrCodec has the template
  with the type it is instantiated for as an argument (\<^theory_text>\<open>ty\<close>), a value of the type as a
  \<^theory_text>\<open>datum\<close>, and the protocol library's values as a parameter (\<^theory_text>\<open>value_api\<close>). PfrProps
  states type soundness, the round trip and the failures of the encoder.

  The configuration of a process (src/src/server_manager.cpp, src/src/yaml.cpp): ServerConfig
  has the nodes of the parsed file with an access that inserts what it does not find, the
  readers of the sections, the manager the constructor makes (\<^theory_text>\<open>manager\<close>), the resolution of
  addresses and the configuration made for a child, which goes through the codec of
  PfrCodec. ConfigProps says what an accepted file makes the process serve and what a child
  gets.

  The service loop (src/src/server_manager.cpp, src/src/sock_selector.cpp): ServiceLoop has
  the selector of sockets and one tick of the process, the parts it calls being arbitrary
  (\<^theory_text>\<open>parts\<close>); a loop over the parent's messages that does not end is \<^theory_text>\<open>None\<close>. LoopProps
  shows that servers take turns and tasks run in order, and what ends the loop.

  The strings of an invitation (src/include/luxon/server/pfr_pack.hpp): PackViews keeps the
  views of a struct as what they are, places in allocations, where PeerStore has the strings
  they show, and says when that is the same.

  offset_map (src/include/luxon/server/offset_map.hpp), the container of a peer's
  commands: OffsetMap has all its members, the invariant \<^theory_text>\<open>om_inv\<close> and the refinement of
  a finite map, stated through the locale \<^theory_text>\<open>keyed_store\<close> of Prelude, which the socket
  flags of Sockets implement too.

  The guest's shims (src/WASMImpl/C). HostMem is the guest memory with the macros of the
  bounds checks, kept at 32 bits because they wrap; Sockets and Wasi model every shim of
  sockets.c and wasi.c over the host's calls as parameters; WasmRt the memories, tables,
  traps and exceptions of the wasm2c runtime. SocketProps and WasiProps hold the
  statements about them: which addresses reach the host, when a shim leaves the guest
  memory, what a scattered write delivers.

  The epoll emulation (src/src/wepoll.c).
  \<^item> WepollQueue models the circular lists as nodes of a heap, and shows that all
    queues of a heap at once do what lists do.
  \<^item> WepollErrors maps system errors; WepollPort holds the port, its poll groups and
    socket states and the requests to the device; WepollEpoll the waiting, the control
    and the interface. A failed assertion or the use of a freed object is \<^theory_text>\<open>None\<close>.
    The device and the calls of Windows are parameters (\<^theory_text>\<open>win_os\<close>).
  \<^item> WepollInv states the invariant of a port (the sockets registered, queued, polling
    or waiting for their last completion; the sizes and the order of the poll groups)
    and shows its preservation by deletion and creation; WepollSteps by each further
    step; WepollProps runs any sequence of calls and completions and draws the
    conclusions.

  Bounds and fuel. The layers of a Windows socket are unwrapped with fuel equal to the
  number of handles asked, a chain of getaddrinfo results is freed with fuel its length,
  a wait takes as many rounds as its fuel; the loops of a port over its queues use the
  length of the queue, which \<^theory_text>\<open>close_frees_everything\<close> and the invariant show to be
  enough. The counters of reservations are 64-bit words and their wrap-around to 1 is
  modelled; statements about their freshness assume that fewer than 2^64 reservations
  are pending.

  Not modelled, and why. The plugin hooks of the room and of the handler are a build
  option and call foreign code; the text of debug messages and logs has no effect; locks
  are left out because each critical section is one step (in the handler, a request is
  run to its end, with only \<^theory_text>\<open>disconnected_\<close> changing under it). The vendored
  SQLite and JSON sources, the YAML parser, the HTTP server, the foreign function interface of the
  host, the serialiser and the ENet transport are outside: what the code uses of them is
  a parameter. Logging,
  metrics and the Java host are not modelled.
  Of wepoll.c the one-time initialisation is left out, and its red-black tree is the
  association of its keys; of the wasm2c runtime, the Windows handlers and segment
  registers.
\<close>

end
